(* ===== verification/Orvd_Prelude.thy ===== *)
theory Orvd_Prelude
  imports Main "HOL-Library.Word"
begin

section \<open>Prelude: exceptions, effects and atomicity\<close>

text \<open>
  What every component shares.  The exceptions the C++ throws are values of
  \<open>exn\<close> (the exception class and, for numerical failures, the classification
  that callers may read; diagnostic texts are not modelled).  A pure fallible
  computation returns \<open>exn + 'a\<close>.  A member function that mutates an object is an
  effect: it takes the object state and returns the outcome together with the
  state that is left behind, also when it throws, so that "nothing was written"
  is a statement about the model.  \<open>atomic\<close> says that a throwing run leaves the
  state as it found it; the \<open>effect_intros\<close> collection proves it compositionally.
\<close>

subsection \<open>Exceptions\<close>

datatype numerical_reason =
    AdvanceWorkBudgetExhausted
  | RequestedAccuracyUnattainable
  | RepeatedErrorTestFailure
  | RepeatedNonlinearConvergenceFailure
  | NonFiniteRightHandSide
  | StepSizeUnderflow
  | RepeatedSingularLinearSystem
  | NonFiniteLinearSystem
  | NonFiniteState
  | NonlinearConvergenceFailure
  | SingularLinearSystem

datatype coordinate_reason =
    CoordStepSizeUnderflow
  | CoordNonFiniteState
  | CoordNonFiniteEvaluation
  | CoordNonFiniteLinearSystem
  | CoordSingularJacobian
  | CoordNonlinearConvergenceFailure

datatype exn =
    InvalidArgument
  | LogicError
  | OverflowError
  | LengthError
  | RuntimeError
  | OutOfRange
  | NumericalFailure numerical_reason int
  | CoordinateFailure coordinate_reason
  | CallbackFailure nat \<comment> \<open>an exception of a caller-supplied callback, of a type the library does not name\<close>

type_synonym 'a outcome = "exn + 'a"
type_synonym ('s, 'a) effect = "'s \<Rightarrow> 'a outcome \<times> 's"

named_theorems effect_simps
named_theorems effect_prims
named_theorems effect_intros
named_theorems readonly_intros

subsection \<open>Sequencing\<close>

definition ret :: "'a \<Rightarrow> ('s, 'a) effect" where
  "ret a s = (Inr a, s)"

definition raise :: "exn \<Rightarrow> ('s, 'a) effect" where
  "raise e s = (Inl e, s)"

definition bindE :: "('s, 'a) effect \<Rightarrow> ('a \<Rightarrow> ('s, 'b) effect) \<Rightarrow> ('s, 'b) effect" where
  "bindE m k s = (case m s of (Inl e, t) \<Rightarrow> (Inl e, t) | (Inr a, t) \<Rightarrow> k a t)"

definition seqE :: "('s, 'a) effect \<Rightarrow> ('s, 'b) effect \<Rightarrow> ('s, 'b) effect" where
  "seqE m k = bindE m (\<lambda>_. k)"

definition readE :: "('s \<Rightarrow> 'a) \<Rightarrow> ('s, 'a) effect" where
  "readE f s = (Inr (f s), s)"

definition modifyE :: "('s \<Rightarrow> 's) \<Rightarrow> ('s, unit) effect" where
  "modifyE f s = (Inr (), f s)"

text \<open>\<open>if (bad) throw e;\<close>\<close>

definition rejectE :: "('s \<Rightarrow> bool) \<Rightarrow> exn \<Rightarrow> ('s, unit) effect" where
  "rejectE bad e s = (if bad s then (Inl e, s) else (Inr (), s))"

text \<open>A fallible pure call whose arguments are read from the state.\<close>

definition callE :: "('s \<Rightarrow> 'a outcome) \<Rightarrow> ('s, 'a) effect" where
  "callE f s = (f s, s)"

text \<open>\<open>for (x : xs) body(x);\<close>\<close>

fun forE :: "('x \<Rightarrow> ('s, unit) effect) \<Rightarrow> 'x list \<Rightarrow> ('s, unit) effect" where
  "forE body [] = ret ()"
| "forE body (x # xs) = seqE (body x) (forE body xs)"

text \<open>\<open>try { m } catch (...) { h; throw; }\<close>\<close>

definition on_exception :: "('s \<Rightarrow> 's) \<Rightarrow> ('s, 'a) effect \<Rightarrow> ('s, 'a) effect" where
  "on_exception h m s = (case m s of (Inl e, t) \<Rightarrow> (Inl e, h t) | (Inr a, t) \<Rightarrow> (Inr a, t))"

text \<open>The first failing check of a chain of guards, for pure validators.\<close>

definition reject_if :: "bool \<Rightarrow> exn \<Rightarrow> unit outcome" where
  "reject_if bad e = (if bad then Inl e else Inr ())"

fun all_checks :: "unit outcome list \<Rightarrow> unit outcome" where
  "all_checks [] = Inr ()"
| "all_checks (c # cs) = (case c of Inl e \<Rightarrow> Inl e | Inr _ \<Rightarrow> all_checks cs)"

definition bindS :: "'a outcome \<Rightarrow> ('a \<Rightarrow> 'b outcome) \<Rightarrow> 'b outcome" where
  "bindS m k = (case m of Inl e \<Rightarrow> Inl e | Inr a \<Rightarrow> k a)"

lemma bindS_Inl [simp]: "bindS (Inl e) k = Inl e"
  by (simp add: bindS_def)

lemma bindS_Inr [simp]: "bindS (Inr a) k = k a"
  by (simp add: bindS_def)

lemma bindS_eq_Inr: "bindS m k = Inr b \<longleftrightarrow> (\<exists>a. m = Inr a \<and> k a = Inr b)"
  by (cases m) auto

lemma bindS_eq_Inl: "bindS m k = Inl e \<longleftrightarrow> m = Inl e \<or> (\<exists>a. m = Inr a \<and> k a = Inl e)"
  by (cases m) auto

text \<open>A fallible computation for every element, in order; the first failure wins.\<close>

fun mapS :: "('x \<Rightarrow> 'y outcome) \<Rightarrow> 'x list \<Rightarrow> 'y list outcome" where
  "mapS f [] = Inr []"
| "mapS f (x # xs) = bindS (f x) (\<lambda>y. bindS (mapS f xs) (\<lambda>ys. Inr (y # ys)))"

lemma mapS_Inr: "mapS f xs = Inr ys \<longleftrightarrow> list_all2 (\<lambda>x y. f x = Inr y) xs ys"
  by (induction xs arbitrary: ys) (auto simp: bindS_eq_Inr list_all2_Cons1)

lemma mapS_mem: "mapS f xs = Inr ys \<Longrightarrow> y \<in> set ys \<Longrightarrow> \<exists>x \<in> set xs. f x = Inr y"
  by (induction xs arbitrary: ys) (auto simp: bindS_eq_Inr)

lemma mapS_length: "mapS f xs = Inr ys \<Longrightarrow> length ys = length xs"
  unfolding mapS_Inr by (simp add: list_all2_lengthD)

lemma reject_if_True [simp]: "reject_if True e = Inl e"
  by (simp add: reject_if_def)

lemma reject_if_False [simp]: "reject_if False e = Inr ()"
  by (simp add: reject_if_def)

lemma reject_if_Inr [simp]: "reject_if b e = Inr u \<longleftrightarrow> \<not> b"
  by (simp add: reject_if_def)

lemma reject_if_Inl [simp]: "reject_if b e = Inl f \<longleftrightarrow> b \<and> f = e"
  by (auto simp: reject_if_def)

lemma all_checks_Inr: "all_checks cs = Inr () \<longleftrightarrow> (\<forall>c \<in> set cs. c = Inr ())"
  by (induction cs) (auto split: sum.splits)

lemma all_checks_Inl_mem: "all_checks cs = Inl e \<Longrightarrow> Inl e \<in> set cs"
  by (induction cs) (auto split: sum.splits)

lemma all_checks_Cons_Inr [simp]: "all_checks (c # cs) = Inr u \<longleftrightarrow> c = Inr () \<and> all_checks cs = Inr ()"
  by (cases c) auto

lemma all_checks_Cons_Inl [simp]:
  "all_checks (c # cs) = Inl e \<longleftrightarrow> c = Inl e \<or> (c = Inr () \<and> all_checks cs = Inl e)"
  by (cases c) auto

lemma all_checks_append:
  "all_checks (as @ bs) = (case all_checks as of Inl e \<Rightarrow> Inl e | Inr _ \<Rightarrow> all_checks bs)"
  by (induction as) (auto simp: all_checks.simps(2) split: sum.splits)

declare all_checks.simps(2) [simp del]

lemma all_checks_Inr_Cons [simp]: "all_checks (Inr u # cs) = all_checks cs"
  by (simp add: all_checks.simps(2))

lemma all_checks_Inl_Cons [simp]: "all_checks (Inl e # cs) = Inl e"
  by (simp add: all_checks.simps(2))

lemma unit_outcome_cases: "(c = Inr () \<Longrightarrow> P) \<Longrightarrow> (\<And>e. c = Inl e \<Longrightarrow> P) \<Longrightarrow> P" for c :: "unit outcome"
  by (cases c) auto

subsection \<open>Running an effect\<close>

lemma ret_run [effect_simps, effect_prims]: "ret a s = (Inr a, s)"
  by (simp add: ret_def)

lemma raise_run [effect_simps, effect_prims]: "raise e s = (Inl e, s)"
  by (simp add: raise_def)

lemma readE_run [effect_simps, effect_prims]: "readE f s = (Inr (f s), s)"
  by (simp add: readE_def)

lemma modifyE_run [effect_simps, effect_prims]: "modifyE f s = (Inr (), f s)"
  by (simp add: modifyE_def)

lemma callE_run [effect_simps, effect_prims]: "callE f s = (f s, s)"
  by (simp add: callE_def)

lemma rejectE_run [effect_simps, effect_prims]: "rejectE b e s = (if b s then (Inl e, s) else (Inr (), s))"
  by (simp add: rejectE_def)

lemma bindE_run [effect_simps]:
  "bindE m k s = (case m s of (Inl e, t) \<Rightarrow> (Inl e, t) | (Inr a, t) \<Rightarrow> k a t)"
  by (simp add: bindE_def)

lemma seqE_run [effect_simps]:
  "seqE m k s = (case m s of (Inl e, t) \<Rightarrow> (Inl e, t) | (Inr a, t) \<Rightarrow> k t)"
  by (simp add: seqE_def bindE_def)

lemma bindE_Inr:
  "bindE m k s = (Inr b, t) \<longleftrightarrow> (\<exists>a u. m s = (Inr a, u) \<and> k a u = (Inr b, t))"
  by (auto simp: bindE_def split: prod.splits sum.splits)

lemma seqE_Inr:
  "seqE m k s = (Inr b, t) \<longleftrightarrow> (\<exists>a u. m s = (Inr a, u) \<and> k u = (Inr b, t))"
  by (auto simp: seqE_def bindE_Inr)

lemma bindE_Inl:
  "bindE m k s = (Inl e, t) \<longleftrightarrow>
     m s = (Inl e, t) \<or> (\<exists>a u. m s = (Inr a, u) \<and> k a u = (Inl e, t))"
  by (auto simp: bindE_def split: prod.splits sum.splits)

lemma seqE_Inl:
  "seqE m k s = (Inl e, t) \<longleftrightarrow>
     m s = (Inl e, t) \<or> (\<exists>a u. m s = (Inr a, u) \<and> k u = (Inl e, t))"
  by (auto simp: seqE_def bindE_Inl)

lemmas effect_outcome = bindE_Inr seqE_Inr bindE_Inl seqE_Inl effect_prims

lemma on_exception_Inr: "on_exception h m s = (Inr a, t) \<longleftrightarrow> m s = (Inr a, t)"
  by (auto simp: on_exception_def split: prod.splits sum.splits)

lemma on_exception_Inl:
  "on_exception h m s = (Inl e, t) \<longleftrightarrow> (\<exists>u. m s = (Inl e, u) \<and> t = h u)"
  by (auto simp: on_exception_def split: prod.splits sum.splits)

subsection \<open>Atomic, read-only and total effects\<close>

definition readonly :: "('s, 'a) effect \<Rightarrow> bool" where
  "readonly m \<longleftrightarrow> (\<forall>s. snd (m s) = s)"

definition nofail :: "('s, 'a) effect \<Rightarrow> bool" where
  "nofail m \<longleftrightarrow> (\<forall>s. \<exists>a. fst (m s) = Inr a)"

definition atomic :: "('s, 'a) effect \<Rightarrow> bool" where
  "atomic m \<longleftrightarrow> (\<forall>s e t. m s = (Inl e, t) \<longrightarrow> t = s)"

lemma atomicD: "atomic m \<Longrightarrow> m s = (Inl e, t) \<Longrightarrow> t = s"
  by (simp add: atomic_def)

lemma readonlyD: "readonly m \<Longrightarrow> m s = (r, t) \<Longrightarrow> t = s"
  unfolding readonly_def by (metis snd_conv)

lemma readonly_ret [readonly_intros]: "readonly (ret a)"
  by (simp add: readonly_def ret_def)

lemma readonly_raise [readonly_intros]: "readonly (raise e)"
  by (simp add: readonly_def raise_def)

lemma readonly_readE [readonly_intros]: "readonly (readE f)"
  by (simp add: readonly_def readE_def)

lemma readonly_callE [readonly_intros]: "readonly (callE f)"
  by (simp add: readonly_def callE_def)

lemma readonly_rejectE [readonly_intros]: "readonly (rejectE b e)"
  by (simp add: readonly_def rejectE_def)

lemma readonly_bindE [readonly_intros]:
  "readonly m \<Longrightarrow> (\<And>a. readonly (k a)) \<Longrightarrow> readonly (bindE m k)"
  unfolding readonly_def bindE_def by (auto split: prod.splits sum.splits) (metis snd_conv)+

lemma readonly_seqE [readonly_intros]: "readonly m \<Longrightarrow> readonly k \<Longrightarrow> readonly (seqE m k)"
  by (simp add: seqE_def readonly_bindE)

lemma readonly_forE [readonly_intros]: "(\<And>x. readonly (body x)) \<Longrightarrow> readonly (forE body xs)"
  by (induction xs) (auto intro: readonly_intros)

lemma readonly_atomic: "readonly m \<Longrightarrow> atomic m"
  unfolding readonly_def atomic_def by (metis snd_conv)

lemma nofail_ret [effect_intros]: "nofail (ret a)"
  by (simp add: nofail_def ret_def)

lemma nofail_readE [effect_intros]: "nofail (readE f)"
  by (simp add: nofail_def readE_def)

lemma nofail_modifyE [effect_intros]: "nofail (modifyE f)"
  by (simp add: nofail_def modifyE_def)

lemma nofail_bindE [effect_intros]: "nofail m \<Longrightarrow> (\<And>a. nofail (k a)) \<Longrightarrow> nofail (bindE m k)"
  unfolding nofail_def bindE_def by (auto split: prod.splits sum.splits) (metis fst_conv Inl_Inr_False)

lemma nofail_seqE [effect_intros]: "nofail m \<Longrightarrow> nofail k \<Longrightarrow> nofail (seqE m k)"
  by (simp add: seqE_def nofail_bindE)

lemma nofail_atomic: "nofail m \<Longrightarrow> atomic m"
  unfolding nofail_def atomic_def by (metis fst_conv Inl_Inr_False)

lemma atomic_check_then [effect_intros]:
  assumes "readonly m" and "\<And>a. atomic (k a)"
  shows "atomic (bindE m k)"
  unfolding atomic_def
proof (intro allI impI)
  fix s e t
  assume "bindE m k s = (Inl e, t)"
  then consider "m s = (Inl e, t)" | a u where "m s = (Inr a, u)" "k a u = (Inl e, t)"
    by (auto simp: bindE_Inl)
  then show "t = s"
    using assms by cases (auto dest: readonlyD atomicD)
qed

lemma atomic_seq_check_then [effect_intros]:
  "readonly m \<Longrightarrow> atomic k \<Longrightarrow> atomic (seqE m k)"
  by (simp add: seqE_def atomic_check_then)

lemma atomic_then_nofail:
  assumes "atomic m" and "\<And>a. nofail (k a)"
  shows "atomic (bindE m k)"
proof -
  have "k a u \<noteq> (Inl e, t)" for a u e t
    using assms(2) [of a] unfolding nofail_def by (metis fst_conv Inl_Inr_False)
  then show ?thesis
    using assms(1) unfolding atomic_def by (auto simp: bindE_Inl)
qed

lemma atomic_seq_then_nofail: "atomic m \<Longrightarrow> nofail k \<Longrightarrow> atomic (seqE m k)"
  by (simp add: seqE_def atomic_then_nofail)

text \<open>An effectful call for every element, collecting the results.\<close>

fun mapE :: "('x \<Rightarrow> ('s, 'y) effect) \<Rightarrow> 'x list \<Rightarrow> ('s, 'y list) effect" where
  "mapE f [] = ret []"
| "mapE f (x # xs) = bindE (f x) (\<lambda>y. bindE (mapE f xs) (\<lambda>ys. ret (y # ys)))"

lemma mapE_length: "mapE f xs s = (Inr ys, t) \<Longrightarrow> length ys = length xs"
  by (induction xs arbitrary: s ys t) (auto simp: effect_outcome)

text \<open>Whatever the outcome, the state left behind is related to the state found.\<close>

definition stays_within :: "('s \<Rightarrow> 's \<Rightarrow> bool) \<Rightarrow> ('s, 'a) effect \<Rightarrow> bool" where
  "stays_within R m \<longleftrightarrow> (\<forall>s r t. m s = (r, t) \<longrightarrow> R s t)"

lemma stays_withinD: "stays_within R m \<Longrightarrow> m s = (r, t) \<Longrightarrow> R s t"
  by (simp add: stays_within_def)

lemma stays_within_readonly: "reflp R \<Longrightarrow> readonly m \<Longrightarrow> stays_within R m"
  unfolding stays_within_def by (metis readonlyD reflpD)

lemma stays_within_primitives:
  assumes "reflp R"
  shows "stays_within R (ret a)" and "stays_within R (raise e)" and "stays_within R (readE f)"
    and "stays_within R (callE h)" and "stays_within R (rejectE b e)"
  using assms by (auto intro!: stays_within_readonly readonly_intros)

lemma stays_within_modifyE: "(\<And>s. R s (f s)) \<Longrightarrow> stays_within R (modifyE f)"
  by (simp add: stays_within_def modifyE_def)

lemma stays_within_bindE:
  assumes "transp R" and "stays_within R m" and "\<And>a. stays_within R (k a)"
  shows "stays_within R (bindE m k)"
proof -
  have "R s t" if "bindE m k s = (r, t)" for s r t
  proof (cases "m s")
    case (Pair q u)
    then have su: "R s u" using assms(2) by (auto dest: stays_withinD)
    show ?thesis
    proof (cases q)
      case (Inl e)
      then show ?thesis using that Pair su by (simp add: bindE_def)
    next
      case (Inr a)
      then have "k a u = (r, t)" using that Pair by (simp add: bindE_def)
      then have "R u t" using assms(3) by (auto dest: stays_withinD)
      with su show ?thesis using assms(1) by (auto dest: transpD)
    qed
  qed
  then show ?thesis by (simp add: stays_within_def)
qed

lemma stays_within_seqE: "transp R \<Longrightarrow> stays_within R m \<Longrightarrow> stays_within R k \<Longrightarrow> stays_within R (seqE m k)"
  by (simp add: seqE_def stays_within_bindE)

lemma stays_within_mapE: "reflp R \<Longrightarrow> transp R \<Longrightarrow> (\<And>x. stays_within R (f x)) \<Longrightarrow> stays_within R (mapE f xs)"
  by (induction xs) (auto intro!: stays_within_bindE stays_within_primitives)

lemmas stays_within_rules = stays_within_seqE stays_within_bindE stays_within_modifyE stays_within_mapE
  stays_within_primitives

subsection \<open>Lists\<close>

lemma nth_take_drop_append: "i < n \<Longrightarrow> length pre + n \<le> length (pre @ xs) \<Longrightarrow> (pre @ xs) ! (length pre + i) = xs ! i"
  by simp

lemma list_update_same_length: "length (xs[i := v]) = length xs"
  by simp

text \<open>Overwriting the block of \<open>xs\<close> that starts at \<open>k\<close>: \<open>xs.segment(k, n) = ys\<close>.\<close>

definition put_segment :: "nat \<Rightarrow> 'a list \<Rightarrow> 'a list \<Rightarrow> 'a list" where
  "put_segment k ys xs = take k xs @ ys @ drop (k + length ys) xs"

text \<open>\<open>xs.segment(k, n)\<close>\<close>

definition segment :: "nat \<Rightarrow> nat \<Rightarrow> 'a list \<Rightarrow> 'a list" where
  "segment k n xs = take n (drop k xs)"

lemma length_put_segment [simp]: "k + length ys \<le> length xs \<Longrightarrow> length (put_segment k ys xs) = length xs"
  by (simp add: put_segment_def)

lemma length_segment [simp]: "k + n \<le> length xs \<Longrightarrow> length (segment k n xs) = n"
  by (simp add: segment_def)

lemma nth_put_segment:
  "k + length ys \<le> length xs \<Longrightarrow> i < length xs \<Longrightarrow>
     put_segment k ys xs ! i = (if k \<le> i \<and> i < k + length ys then ys ! (i - k) else xs ! i)"
  by (auto simp: put_segment_def nth_append min_def)

lemma nth_segment: "k + n \<le> length xs \<Longrightarrow> i < n \<Longrightarrow> segment k n xs ! i = xs ! (k + i)"
  by (simp add: segment_def)

lemma segment_put_segment_same:
  "k + length ys \<le> length xs \<Longrightarrow> segment k (length ys) (put_segment k ys xs) = ys"
  by (simp add: segment_def put_segment_def)

lemma segment_put_segment_before:
  assumes "j + m \<le> k" and "k + length ys \<le> length xs"
  shows "segment j m (put_segment k ys xs) = segment j m xs"
proof (rule nth_equalityI)
  show "length (segment j m (put_segment k ys xs)) = length (segment j m xs)"
    using assms by (simp add: segment_def put_segment_def)
  fix i
  assume "i < length (segment j m (put_segment k ys xs))"
  then show "segment j m (put_segment k ys xs) ! i = segment j m xs ! i"
    using assms by (simp add: segment_def put_segment_def nth_append)
qed

lemma segment_put_segment_after:
  assumes "k + length ys \<le> j" and "k + length ys \<le> length xs"
  shows "segment j m (put_segment k ys xs) = segment j m xs"
proof -
  have "drop j (take k xs @ ys @ drop (k + length ys) xs) = drop j xs"
    using assms by simp
  then show ?thesis
    by (simp add: segment_def put_segment_def)
qed

lemma segment_append_blocks:
  assumes "length a = n" and "length b = m"
  shows "segment 0 n (a @ b @ c) = a" and "segment n m (a @ b @ c) = b"
    and "segment (n + m) (length c) (a @ b @ c) = c"
  using assms by (simp_all add: segment_def)

text \<open>Concatenations of blocks of one length.\<close>

lemma length_concat_const: "\<forall>us \<in> set wss. length us = k \<Longrightarrow> length (concat wss) = k * length wss"
  by (induction wss) auto

lemma segment_concat_const:
  "\<forall>us \<in> set wss. length us = k \<Longrightarrow> i < length wss \<Longrightarrow> segment (k * i) k (concat wss) = wss ! i"
proof (induction wss arbitrary: i)
  case Nil
  then show ?case by simp
next
  case (Cons us wss)
  then show ?case by (cases i) (auto simp: segment_def)
qed

end
