(* ===== verification/Binary64.thy ===== *)
theory Binary64
  imports Complex_Main Orvd_Prelude
begin

section \<open>The scalar type \<open>double\<close>\<close>

text \<open>
  The C++ computes with IEEE 754 binary64 values.  \<open>double\<close> keeps what its control
  flow depends on: finite values, the two infinities and NaN, with the IEEE results
  of every operation on the special values and comparisons that are false on NaN.
  Two things are idealised: finite arithmetic is exact (no rounding, no overflow to
  infinity) and the two zeros are one value.  \<open>double_of_bits\<close> reads a 64-bit
  pattern, which is how the wire formats see the same numbers.
\<close>

datatype double = Fin real | PosInf | NegInf | NaN

fun isfinite :: "double \<Rightarrow> bool" where
  "isfinite (Fin _) = True"
| "isfinite _ = False"

fun to_real :: "double \<Rightarrow> real" where
  "to_real (Fin x) = x"
| "to_real _ = 0"

lemma isfinite_iff: "isfinite d \<longleftrightarrow> (\<exists>x. d = Fin x)"
  by (cases d) auto

lemma isfiniteE: "isfinite d \<Longrightarrow> (\<And>x. d = Fin x \<Longrightarrow> P) \<Longrightarrow> P"
  by (cases d) auto

lemma Fin_to_real: "isfinite d \<Longrightarrow> Fin (to_real d) = d"
  by (cases d) auto

subsection \<open>Arithmetic and comparison\<close>

fun dneg :: "double \<Rightarrow> double" where
  "dneg (Fin x) = Fin (- x)"
| "dneg PosInf = NegInf"
| "dneg NegInf = PosInf"
| "dneg NaN = NaN"

fun dadd :: "double \<Rightarrow> double \<Rightarrow> double" where
  "dadd (Fin x) (Fin y) = Fin (x + y)"
| "dadd NaN _ = NaN"
| "dadd _ NaN = NaN"
| "dadd PosInf NegInf = NaN"
| "dadd NegInf PosInf = NaN"
| "dadd PosInf _ = PosInf"
| "dadd _ PosInf = PosInf"
| "dadd NegInf _ = NegInf"
| "dadd _ NegInf = NegInf"

text \<open>Sign of a non-NaN value, with \<open>0\<close> for zero.\<close>

fun dsgn :: "double \<Rightarrow> int" where
  "dsgn (Fin x) = (if 0 < x then 1 else if x < 0 then -1 else 0)"
| "dsgn PosInf = 1"
| "dsgn NegInf = -1"
| "dsgn NaN = 0"

definition signed_inf :: "int \<Rightarrow> double" where
  "signed_inf s = (if s = 0 then NaN else if 0 < s then PosInf else NegInf)"

fun dmul :: "double \<Rightarrow> double \<Rightarrow> double" where
  "dmul NaN _ = NaN"
| "dmul _ NaN = NaN"
| "dmul (Fin x) (Fin y) = Fin (x * y)"
| "dmul a b = signed_inf (dsgn a * dsgn b)"

fun ddiv :: "double \<Rightarrow> double \<Rightarrow> double" where
  "ddiv NaN _ = NaN"
| "ddiv _ NaN = NaN"
| "ddiv (Fin x) (Fin y) = (if y = 0 then signed_inf (dsgn (Fin x)) else Fin (x / y))"
| "ddiv (Fin x) _ = Fin 0"
| "ddiv a (Fin y) = signed_inf (dsgn a * (if y < 0 then -1 else 1))"
| "ddiv _ _ = NaN"

fun dle :: "double \<Rightarrow> double \<Rightarrow> bool" where
  "dle (Fin x) (Fin y) = (x \<le> y)"
| "dle NaN _ = False"
| "dle _ NaN = False"
| "dle NegInf _ = True"
| "dle _ PosInf = True"
| "dle _ _ = False"

fun dlt :: "double \<Rightarrow> double \<Rightarrow> bool" where
  "dlt (Fin x) (Fin y) = (x < y)"
| "dlt NaN _ = False"
| "dlt _ NaN = False"
| "dlt NegInf NegInf = False"
| "dlt NegInf _ = True"
| "dlt PosInf _ = False"
| "dlt _ PosInf = True"
| "dlt _ NegInf = False"

fun dabs :: "double \<Rightarrow> double" where
  "dabs (Fin x) = Fin \<bar>x\<bar>"
| "dabs PosInf = PosInf"
| "dabs NegInf = PosInf"
| "dabs NaN = NaN"

instantiation double :: "{zero, one, plus, minus, uminus, times, inverse, ord, abs}"
begin

definition zero_double :: double where "zero_double = Fin 0"
definition one_double :: double where "one_double = Fin 1"
definition plus_double :: "double \<Rightarrow> double \<Rightarrow> double" where "plus_double = dadd"
definition minus_double :: "double \<Rightarrow> double \<Rightarrow> double" where "minus_double a b = dadd a (dneg b)"
definition uminus_double :: "double \<Rightarrow> double" where "uminus_double = dneg"
definition times_double :: "double \<Rightarrow> double \<Rightarrow> double" where "times_double = dmul"
definition divide_double :: "double \<Rightarrow> double \<Rightarrow> double" where "divide_double = ddiv"
definition inverse_double :: "double \<Rightarrow> double" where "inverse_double a = ddiv (Fin 1) a"
definition less_eq_double :: "double \<Rightarrow> double \<Rightarrow> bool" where "less_eq_double = dle"
definition less_double :: "double \<Rightarrow> double \<Rightarrow> bool" where "less_double = dlt"
definition abs_double :: "double \<Rightarrow> double" where "abs_double = dabs"

instance ..

end

lemmas double_op_defs = zero_double_def one_double_def plus_double_def minus_double_def
  uminus_double_def times_double_def divide_double_def inverse_double_def
  less_eq_double_def less_double_def abs_double_def

instance double :: semigroup_add
proof
  fix a b c :: double
  show "a + b + c = a + (b + c)"
    by (cases a; cases b; cases c) (simp_all add: plus_double_def)
qed

instance double :: numeral ..

lemma Fin_zero [simp]: "(0 :: double) = Fin 0"
  by (simp add: zero_double_def)

lemma Fin_one [simp]: "(1 :: double) = Fin 1"
  by (simp add: one_double_def)

lemma Fin_add [simp]: "Fin x + Fin y = Fin (x + y)"
  by (simp add: plus_double_def)

lemma Fin_minus [simp]: "Fin x - Fin y = Fin (x - y)"
  by (simp add: minus_double_def)

lemma Fin_uminus [simp]: "- Fin x = Fin (- x)"
  by (simp add: uminus_double_def)

lemma Fin_times [simp]: "Fin x * Fin y = Fin (x * y)"
  by (simp add: times_double_def)

lemma Fin_divide [simp]: "y \<noteq> 0 \<Longrightarrow> Fin x / Fin y = Fin (x / y)"
  by (simp add: divide_double_def)

lemma Fin_le [simp]: "Fin x \<le> Fin y \<longleftrightarrow> x \<le> y"
  by (simp add: less_eq_double_def)

lemma Fin_less [simp]: "Fin x < Fin y \<longleftrightarrow> x < y"
  by (simp add: less_double_def)

lemma Fin_abs [simp]: "\<bar>Fin x\<bar> = Fin \<bar>x\<bar>"
  by (simp add: abs_double_def)

lemma Fin_numeral [simp]: "(numeral k :: double) = Fin (numeral k)"
proof (induction k)
  case One
  then show ?case by simp
next
  case (Bit0 k)
  then show ?case by (simp only: numeral_Bit0 Fin_add)
next
  case (Bit1 k)
  then show ?case by (simp only: numeral_Bit1 Fin_add Fin_one)
qed

lemma NaN_compare [simp]:
  "\<not> NaN \<le> d" "\<not> d \<le> NaN" "\<not> NaN < d" "\<not> d < NaN"
  by (cases d; simp add: less_eq_double_def less_double_def)+

lemma finite_add_iff [simp]: "isfinite (a + b) \<longleftrightarrow> isfinite a \<and> isfinite b"
  by (cases a; cases b) (simp_all add: plus_double_def)

lemma finite_uminus_iff [simp]: "isfinite (- a) \<longleftrightarrow> isfinite a"
  by (cases a) (simp_all add: uminus_double_def)

lemma finite_minus_iff [simp]: "isfinite (a - b) \<longleftrightarrow> isfinite a \<and> isfinite b"
  by (cases a; cases b) (simp_all add: minus_double_def)

lemma finite_abs_iff [simp]: "isfinite \<bar>a\<bar> \<longleftrightarrow> isfinite a"
  by (cases a) (simp_all add: abs_double_def)

lemma finite_times_iff [simp]: "isfinite (a * b) \<longleftrightarrow> isfinite a \<and> isfinite b"
  by (cases a; cases b) (simp_all add: times_double_def signed_inf_def)

subsection \<open>Equality, minimum, maximum, clamp\<close>

text \<open>C++ \<open>==\<close>: false as soon as an operand is NaN.\<close>

definition feq :: "double \<Rightarrow> double \<Rightarrow> bool" where
  "feq a b \<longleftrightarrow> a = b \<and> a \<noteq> NaN"

lemma feq_Fin [simp]: "feq (Fin x) (Fin y) \<longleftrightarrow> x = y"
  by (simp add: feq_def)

lemma feq_finite: "isfinite a \<Longrightarrow> feq a b \<longleftrightarrow> a = b"
  by (cases a) (auto simp: feq_def)

lemma feq_le_le: "feq a b \<longleftrightarrow> a \<le> b \<and> b \<le> a"
  by (cases a; cases b) (auto simp: feq_def less_eq_double_def)

definition std_min :: "double \<Rightarrow> double \<Rightarrow> double" where
  "std_min a b = (if b < a then b else a)"

definition std_max :: "double \<Rightarrow> double \<Rightarrow> double" where
  "std_max a b = (if a < b then b else a)"

definition std_clamp :: "double \<Rightarrow> double \<Rightarrow> double \<Rightarrow> double" where
  "std_clamp v lo hi = (if v < lo then lo else if hi < v then hi else v)"

text \<open>\<open>std::signbit\<close>, up to the identification of the two zeros.\<close>

definition signbit :: "double \<Rightarrow> bool" where
  "signbit d \<longleftrightarrow> d < 0"

text \<open>\<open>std::fma\<close>: one rounding, hence the exact value here.\<close>

definition std_fma :: "double \<Rightarrow> double \<Rightarrow> double \<Rightarrow> double" where
  "std_fma a b c = a * b + c"

lemma std_min_Fin [simp]: "std_min (Fin x) (Fin y) = Fin (min x y)"
  by (simp add: std_min_def min_def)

lemma std_max_Fin [simp]: "std_max (Fin x) (Fin y) = Fin (max x y)"
  by (simp add: std_max_def max_def)

lemma std_clamp_Fin [simp]: "lo \<le> hi \<Longrightarrow> std_clamp (Fin v) (Fin lo) (Fin hi) = Fin (max lo (min hi v))"
  by (auto simp: std_clamp_def max_def min_def)

lemma std_clamp_bounds: "lo \<le> hi \<Longrightarrow> v \<noteq> NaN \<Longrightarrow> lo \<le> std_clamp v lo hi \<and> std_clamp v lo hi \<le> hi"
  by (cases v; cases lo; cases hi) (auto simp: std_clamp_def less_double_def less_eq_double_def)

text \<open>\<open>std::sqrt\<close>\<close>

fun std_sqrt :: "double \<Rightarrow> double" where
  "std_sqrt (Fin x) = (if x < 0 then NaN else Fin (sqrt x))"
| "std_sqrt PosInf = PosInf"
| "std_sqrt _ = NaN"

text \<open>Exact halves and quarters as the sources write them.\<close>

abbreviation half :: double where "half \<equiv> Fin (1 / 2)"
abbreviation quarter :: double where "quarter \<equiv> Fin (1 / 4)"

subsection \<open>Vectors\<close>

type_synonym vec = "double list"

definition all_finite :: "vec \<Rightarrow> bool" where
  "all_finite xs = list_all isfinite xs"

lemma all_finite_iff: "all_finite xs \<longleftrightarrow> (\<forall>x \<in> set xs. isfinite x)"
  by (simp add: all_finite_def list_all_iff)

lemma all_finite_Nil [simp]: "all_finite []"
  by (simp add: all_finite_def)

lemma all_finite_Cons [simp]: "all_finite (x # xs) \<longleftrightarrow> isfinite x \<and> all_finite xs"
  by (simp add: all_finite_def)

lemma all_finite_append [simp]: "all_finite (xs @ ys) \<longleftrightarrow> all_finite xs \<and> all_finite ys"
  by (simp add: all_finite_def)

lemma all_finite_replicate [simp]: "all_finite (replicate n x) \<longleftrightarrow> n = 0 \<or> isfinite x"
  by (induction n) auto

lemma all_finite_segment: "all_finite xs \<Longrightarrow> all_finite (segment k n xs)"
  unfolding all_finite_iff segment_def by (meson in_set_dropD in_set_takeD)

text \<open>Component-wise arithmetic of Eigen vectors of equal size.\<close>

definition vec_add :: "vec \<Rightarrow> vec \<Rightarrow> vec" where
  "vec_add xs ys = map2 (+) xs ys"

definition vec_sub :: "vec \<Rightarrow> vec \<Rightarrow> vec" where
  "vec_sub xs ys = map2 (-) xs ys"

definition vec_scale :: "double \<Rightarrow> vec \<Rightarrow> vec" where
  "vec_scale c xs = map (\<lambda>x. c * x) xs"

lemma length_vec_add [simp]: "length (vec_add xs ys) = min (length xs) (length ys)"
  by (simp add: vec_add_def)

lemma length_vec_sub [simp]: "length (vec_sub xs ys) = min (length xs) (length ys)"
  by (simp add: vec_sub_def)

lemma length_vec_scale [simp]: "length (vec_scale c xs) = length xs"
  by (simp add: vec_scale_def)

definition squared_norm :: "vec \<Rightarrow> double" where
  "squared_norm xs = foldl (+) 0 (map (\<lambda>x. x * x) xs)"

subsection \<open>Bit patterns\<close>

type_synonym u64 = "64 word"

definition bits_exponent :: "u64 \<Rightarrow> nat" where
  "bits_exponent b = unat (take_bit 11 (drop_bit 52 b))"

definition bits_fraction :: "u64 \<Rightarrow> nat" where
  "bits_fraction b = unat (take_bit 52 b)"

definition bits_negative :: "u64 \<Rightarrow> bool" where
  "bits_negative b = bit b 63"

definition bits_isfinite :: "u64 \<Rightarrow> bool" where
  "bits_isfinite b \<longleftrightarrow> bits_exponent b \<noteq> 2047"

text \<open>\<open>value == 0.0\<close> holds for both zeros.\<close>

definition bits_iszero :: "u64 \<Rightarrow> bool" where
  "bits_iszero b \<longleftrightarrow> bits_exponent b = 0 \<and> bits_fraction b = 0"

definition double_of_bits :: "u64 \<Rightarrow> double" where
  "double_of_bits b =
     (let e = bits_exponent b; f = bits_fraction b; s = (if bits_negative b then -1 else 1 :: real)
      in if e = 2047 then (if f \<noteq> 0 then NaN else if bits_negative b then NegInf else PosInf)
         else if e = 0 then Fin (s * real f / 2 ^ 1074)
         else if 1075 \<le> e then Fin (s * real (f + 2 ^ 52) * 2 ^ (e - 1075))
         else Fin (s * real (f + 2 ^ 52) / 2 ^ (1075 - e)))"

lemma isfinite_double_of_bits: "isfinite (double_of_bits b) = bits_isfinite b"
  by (simp add: double_of_bits_def bits_isfinite_def Let_def)

lemma double_of_bits_zero: "double_of_bits b = 0 \<longleftrightarrow> bits_iszero b"
proof -
  have p: "real f + 2 ^ 52 \<noteq> 0" for f :: nat
    by (smt (verit) of_nat_0_le_iff zero_less_power)
  show ?thesis
    using p by (auto simp: double_of_bits_def bits_iszero_def Let_def)
qed

end
