(* ===== verification/Scene_Stream.thy ===== *)
theory Scene_Stream
  imports Binary64
begin

section \<open>scene_stream: the OSTS v1 wire format\<close>

text \<open>
  Models \<open>libs/scene_stream/src/scene_stream.cc\<close>: the little-endian writer and the
  bounds-checked \<open>Reader\<close>, \<open>EncodeState\<close>/\<open>DecodeState\<close>, \<open>Packetize\<close> and
  \<open>ParseHeader\<close>.  A \<open>double\<close> is its 64-bit pattern here, as \<open>std::bit_cast\<close> makes it.
  The locale \<open>byte_codec\<close> states what a writer and a reader of one field promise each
  other in both directions; sequences of fields are handled once inside it.  The JSON
  description messages (nlohmann::json) are not modelled.
\<close>

unbundle bit_operations_syntax

type_synonym u8 = "8 word"
type_synonym bytes = "u8 list"

subsection \<open>Writing\<close>

definition append_unsigned :: "bytes \<Rightarrow> u64 \<Rightarrow> nat \<Rightarrow> bytes" where
  "append_unsigned out v n = out @ map (\<lambda>i. ucast (drop_bit (i * 8) v)) [0..<n]"

definition append_real :: "bytes \<Rightarrow> u64 \<Rightarrow> bytes outcome" where
  "append_real out v =
     (if \<not> bits_isfinite v then Inl InvalidArgument else Inr (append_unsigned out v 8))"

fun append_reals :: "bytes \<Rightarrow> u64 list \<Rightarrow> bytes outcome" where
  "append_reals out [] = Inr out"
| "append_reals out (v # vs) = bindS (append_real out v) (\<lambda>out'. append_reals out' vs)"

subsection \<open>Reading\<close>

record reader =
  rd_bytes :: bytes
  rd_offset :: nat

definition remaining :: "reader \<Rightarrow> nat" where
  "remaining r = length (rd_bytes r) - rd_offset r"

fun unsigned_loop :: "nat \<Rightarrow> nat \<Rightarrow> u64 \<Rightarrow> reader \<Rightarrow> u64 \<times> reader" where
  "unsigned_loop i 0 v r = (v, r)"
| "unsigned_loop i (Suc k) v r =
     unsigned_loop (Suc i) k
       (v OR push_bit (i * 8) (ucast (rd_bytes r ! rd_offset r)))
       (r\<lparr>rd_offset := Suc (rd_offset r)\<rparr>)"

definition read_unsigned :: "nat \<Rightarrow> (reader, u64) effect" where
  "read_unsigned width r =
     (if remaining r < width then (Inl InvalidArgument, r)
      else (case unsigned_loop 0 width 0 r of (v, r') \<Rightarrow> (Inr v, r')))"

definition read_real :: "(reader, u64) effect" where
  "read_real =
     bindE (read_unsigned 8) (\<lambda>v. if \<not> bits_isfinite v then raise InvalidArgument else ret v)"

text \<open>\<open>for (auto& x : xs) x = read();\<close> over a container of a given size.\<close>

fun read_many :: "nat \<Rightarrow> (reader, 'a) effect \<Rightarrow> (reader, 'a list) effect" where
  "read_many 0 m = ret []"
| "read_many (Suc n) m = bindE m (\<lambda>x. bindE (read_many n m) (\<lambda>xs. ret (x # xs)))"

subsection \<open>State messages\<close>

record body_state =
  position_meters :: "u64 list"
  orientation_wxyz :: "u64 list"
  linear_velocity_meters_per_second :: "u64 list"
  angular_velocity_radians_per_second :: "u64 list"

record state_payload =
  sp_bodies :: "body_state list"
  sp_values :: "u64 list"
  sp_statuses :: bytes

datatype scalar_status = NotReady | Valid | Placeholder

definition scalar_status_code :: "scalar_status \<Rightarrow> u8" where
  "scalar_status_code s = (case s of NotReady \<Rightarrow> 0 | Valid \<Rightarrow> 1 | Placeholder \<Rightarrow> 2)"

definition validate_scalar :: "u64 \<Rightarrow> u8 \<Rightarrow> unit outcome" where
  "validate_scalar value status =
     reject_if (\<not> bits_isfinite value \<or> scalar_status_code Placeholder < status \<or>
                (status \<noteq> scalar_status_code Valid \<and> \<not> bits_iszero value)) InvalidArgument"

definition append_body :: "bytes \<Rightarrow> body_state \<Rightarrow> bytes outcome" where
  "append_body out body =
     bindS (append_reals out (position_meters body)) (\<lambda>out.
     bindS (append_reals out (orientation_wxyz body)) (\<lambda>out.
     bindS (append_reals out (linear_velocity_meters_per_second body)) (\<lambda>out.
       append_reals out (angular_velocity_radians_per_second body))))"

fun append_bodies :: "bytes \<Rightarrow> body_state list \<Rightarrow> bytes outcome" where
  "append_bodies out [] = Inr out"
| "append_bodies out (b # bs) = bindS (append_body out b) (\<lambda>out'. append_bodies out' bs)"

fun append_scalars :: "bytes \<Rightarrow> (u64 \<times> u8) list \<Rightarrow> bytes outcome" where
  "append_scalars out [] = Inr out"
| "append_scalars out ((v, s) # rest) =
     bindS (validate_scalar v s) (\<lambda>_. bindS (append_real out v) (\<lambda>out'. append_scalars out' rest))"

definition encode_state :: "state_payload \<Rightarrow> bytes outcome" where
  "encode_state p =
     (if 2 ^ 32 - 1 < length (sp_bodies p) \<or> 2 ^ 32 - 1 < length (sp_values p) then Inl LengthError
      else if length (sp_values p) \<noteq> length (sp_statuses p) then Inl InvalidArgument
      else
        bindS (append_bodies (append_unsigned [] (of_nat (length (sp_bodies p))) 4) (sp_bodies p)) (\<lambda>out.
        bindS (append_scalars (append_unsigned out (of_nat (length (sp_values p))) 4)
                 (zip (sp_values p) (sp_statuses p))) (\<lambda>out.
          Inr (out @ sp_statuses p))))"

definition read_body :: "(reader, body_state) effect" where
  "read_body =
     bindE (read_many 3 read_real) (\<lambda>p.
     bindE (read_many 4 read_real) (\<lambda>q.
     bindE (read_many 3 read_real) (\<lambda>v.
     bindE (read_many 3 read_real) (\<lambda>w.
       ret \<lparr>position_meters = p, orientation_wxyz = q,
            linear_velocity_meters_per_second = v, angular_velocity_radians_per_second = w\<rparr>))))"

fun read_statuses :: "u64 list \<Rightarrow> (reader, bytes) effect" where
  "read_statuses [] = ret []"
| "read_statuses (v # vs) =
     bindE (read_unsigned 1) (\<lambda>x.
     bindE (callE (\<lambda>_. validate_scalar v (ucast x))) (\<lambda>_.
     bindE (read_statuses vs) (\<lambda>ss. ret (ucast x # ss))))"

definition decode_state_from :: "(reader, state_payload) effect" where
  "decode_state_from =
     bindE (read_unsigned 4) (\<lambda>count.
     seqE (rejectE (\<lambda>r. remaining r < 4 \<or> (remaining r - 4) div 104 < unat count) InvalidArgument) (
     bindE (read_many (unat count) read_body) (\<lambda>bodies.
     bindE (read_unsigned 4) (\<lambda>scalar_count.
     seqE (rejectE (\<lambda>r. remaining r mod 9 \<noteq> 0 \<or> unat scalar_count \<noteq> remaining r div 9) InvalidArgument) (
     bindE (read_many (unat scalar_count) read_real) (\<lambda>values.
     bindE (read_statuses values) (\<lambda>statuses.
       ret \<lparr>sp_bodies = bodies, sp_values = values, sp_statuses = statuses\<rparr>)))))))"

definition decode_state :: "bytes \<Rightarrow> state_payload outcome" where
  "decode_state payload = fst (decode_state_from \<lparr>rd_bytes = payload, rd_offset = 0\<rparr>)"

subsection \<open>Datagrams\<close>

definition kHeaderBytes :: nat where "kHeaderBytes = 40"
definition kDatagramBytes :: nat where "kDatagramBytes = 1200"
definition kFragmentPayloadBytes :: nat where
  "kFragmentPayloadBytes = kDatagramBytes - kHeaderBytes"

record stream_header =
  hd_kind :: "16 word"
  hd_run_id :: u64
  hd_sequence :: u64
  hd_time :: u64
  hd_fragment_index :: "16 word"
  hd_fragment_count :: "16 word"
  hd_payload_bytes :: "32 word"

definition validate_identity :: "16 word \<Rightarrow> u64 \<Rightarrow> u64 \<Rightarrow> unit outcome" where
  "validate_identity kind run_id time =
     reject_if ((kind \<noteq> 1 \<and> kind \<noteq> 2) \<or> run_id = 0 \<or> \<not> bits_isfinite time) InvalidArgument"

definition make_packet ::
  "16 word \<Rightarrow> u64 \<Rightarrow> u64 \<Rightarrow> u64 \<Rightarrow> bytes \<Rightarrow> nat \<Rightarrow> nat \<Rightarrow> bytes outcome" where
  "make_packet kind run_id sequence time payload parts part =
     (let packet = [0x4F, 0x53, 0x54, 0x53];
          packet = append_unsigned packet 1 2;
          packet = append_unsigned packet (ucast kind) 2;
          packet = append_unsigned packet run_id 8;
          packet = append_unsigned packet sequence 8
      in bindS (append_real packet time) (\<lambda>packet.
          let packet = append_unsigned packet (of_nat part) 2;
              packet = append_unsigned packet (of_nat parts) 2;
              packet = append_unsigned packet (of_nat (length payload)) 4;
              start = part * kFragmentPayloadBytes;
              len = min kFragmentPayloadBytes (length payload - start)
          in Inr (packet @ take len (drop start payload))))"

fun make_packets ::
  "16 word \<Rightarrow> u64 \<Rightarrow> u64 \<Rightarrow> u64 \<Rightarrow> bytes \<Rightarrow> nat \<Rightarrow> nat list \<Rightarrow> bytes list outcome" where
  "make_packets kind run_id sequence time payload parts [] = Inr []"
| "make_packets kind run_id sequence time payload parts (p # ps) =
     bindS (make_packet kind run_id sequence time payload parts p) (\<lambda>packet.
     bindS (make_packets kind run_id sequence time payload parts ps) (\<lambda>packets.
       Inr (packet # packets)))"

definition fragment_parts :: "nat \<Rightarrow> nat" where
  "fragment_parts byte_count = max 1 ((byte_count + kFragmentPayloadBytes - 1) div kFragmentPayloadBytes)"

definition packetize :: "16 word \<Rightarrow> u64 \<Rightarrow> u64 \<Rightarrow> u64 \<Rightarrow> bytes \<Rightarrow> bytes list outcome" where
  "packetize kind run_id sequence time payload =
     bindS (validate_identity kind run_id time) (\<lambda>_.
       if kFragmentPayloadBytes * (2 ^ 16 - 1) < length payload then Inl LengthError
       else let parts = fragment_parts (length payload)
            in make_packets kind run_id sequence time payload parts [0..<parts])"

text \<open>
  \<open>remaining\<close> of the source is \<open>payload_bytes - fragment_index * 1160\<close> on 64-bit
  unsigned values; the index check before it makes the subtraction exact.
\<close>

definition parse_header_from :: "(reader, stream_header) effect" where
  "parse_header_from =
     bindE (read_unsigned 4) (\<lambda>magic.
     seqE (rejectE (\<lambda>_. magic \<noteq> 0x5354534f) InvalidArgument) (
     bindE (read_unsigned 2) (\<lambda>version.
     seqE (rejectE (\<lambda>_. version \<noteq> 1) InvalidArgument) (
     bindE (read_unsigned 2) (\<lambda>kind.
     bindE (read_unsigned 8) (\<lambda>run_id.
     bindE (read_unsigned 8) (\<lambda>sequence.
     bindE read_real (\<lambda>time.
     bindE (read_unsigned 2) (\<lambda>index.
     bindE (read_unsigned 2) (\<lambda>count.
     bindE (read_unsigned 4) (\<lambda>byte_count.
       ret \<lparr>hd_kind = ucast kind, hd_run_id = run_id, hd_sequence = sequence, hd_time = time,
            hd_fragment_index = ucast index, hd_fragment_count = ucast count,
            hd_payload_bytes = ucast byte_count\<rparr>)))))))))))"

definition parse_header :: "bytes \<Rightarrow> stream_header outcome" where
  "parse_header datagram =
     (if length datagram < kHeaderBytes \<or> kDatagramBytes < length datagram then Inl InvalidArgument
      else case parse_header_from \<lparr>rd_bytes = datagram, rd_offset = 0\<rparr> of
        (Inl e, _) \<Rightarrow> Inl e
      | (Inr h, r) \<Rightarrow>
          bindS (validate_identity (hd_kind h) (hd_run_id h) (hd_time h)) (\<lambda>_.
            let parts = fragment_parts (unat (hd_payload_bytes h)) in
            if unat (hd_fragment_count h) \<noteq> parts \<or> parts \<le> unat (hd_fragment_index h)
            then Inl InvalidArgument
            else
              let rest = unat (hd_payload_bytes h) - unat (hd_fragment_index h) * kFragmentPayloadBytes
              in if remaining r \<noteq> min kFragmentPayloadBytes rest then Inl InvalidArgument
                 else Inr h))"

subsection \<open>The codec contract\<close>

text \<open>The reader that has consumed \<open>pre\<close> and has \<open>rest\<close> in front of it.\<close>

definition reader_at :: "bytes \<Rightarrow> bytes \<Rightarrow> reader" where
  "reader_at pre rest = \<lparr>rd_bytes = pre @ rest, rd_offset = length pre\<rparr>"

lemma remaining_reader_at [simp]: "remaining (reader_at pre rest) = length rest"
  by (simp add: remaining_def reader_at_def)

lemma reader_start: "\<lparr>rd_bytes = bs, rd_offset = 0\<rparr> = reader_at [] bs"
  by (simp add: reader_at_def)

locale byte_codec =
  fixes enc :: "'a \<Rightarrow> bytes"
    and dec :: "(reader, 'a) effect"
    and ok :: "'a \<Rightarrow> bool"
  assumes dec_enc: "ok a \<Longrightarrow> dec (reader_at pre (enc a @ post)) = (Inr a, reader_at (pre @ enc a) post)"
    and enc_dec: "dec (reader_at pre rest) = (Inr a, r') \<Longrightarrow>
      ok a \<and> (\<exists>post. rest = enc a @ post \<and> r' = reader_at (pre @ enc a) post)"

context byte_codec begin

lemma read_many_enc:
  "list_all ok xs \<Longrightarrow>
   read_many (length xs) dec (reader_at pre (concat (map enc xs) @ post)) =
     (Inr xs, reader_at (pre @ concat (map enc xs)) post)"
  by (induction xs arbitrary: pre) (simp_all add: effect_simps dec_enc)

lemma read_many_dec:
  "read_many n dec (reader_at pre rest) = (Inr xs, r') \<Longrightarrow>
   length xs = n \<and> list_all ok xs \<and>
   (\<exists>post. rest = concat (map enc xs) @ post \<and> r' = reader_at (pre @ concat (map enc xs)) post)"
proof (induction n arbitrary: pre rest xs)
  case 0
  then show ?case by (simp add: effect_simps)
next
  case (Suc n)
  from Suc.prems obtain x u ys where
    x: "dec (reader_at pre rest) = (Inr x, u)" and
    ys: "read_many n dec u = (Inr ys, r')" and xs: "xs = x # ys"
    by (auto simp: effect_outcome)
  from enc_dec [OF x] obtain post where
    ok: "ok x" and rest: "rest = enc x @ post" and u: "u = reader_at (pre @ enc x) post"
    by blast
  from Suc.IH [OF ys [unfolded u]] ok rest xs show ?case by auto
qed

end

subsection \<open>Unsigned integers and reals\<close>

definition le_bytes :: "nat \<Rightarrow> u64 \<Rightarrow> bytes" where
  "le_bytes n v = append_unsigned [] v n"

lemma append_unsigned_le: "append_unsigned out v n = out @ le_bytes n v"
  by (simp add: append_unsigned_def le_bytes_def)

lemma length_le_bytes [simp]: "length (le_bytes n v) = n"
  by (simp add: le_bytes_def append_unsigned_def)

lemma le_bytes_Suc: "le_bytes (Suc n) v = le_bytes n v @ [ucast (drop_bit (n * 8) v)]"
  by (simp add: le_bytes_def append_unsigned_def)

text \<open>The value a byte list spells, least significant byte first, starting at byte \<open>i\<close>.\<close>

fun le_value :: "nat \<Rightarrow> u64 \<Rightarrow> bytes \<Rightarrow> u64" where
  "le_value i acc [] = acc"
| "le_value i acc (b # bs) = le_value (Suc i) (acc OR push_bit (i * 8) (ucast b)) bs"

lemma unsigned_loop_le_value:
  "unsigned_loop i (length bs) acc (reader_at pre (bs @ post)) =
     (le_value i acc bs, reader_at (pre @ bs) post)"
proof (induction bs arbitrary: i acc pre)
  case Nil
  then show ?case by simp
next
  case (Cons b bs)
  have step: "(reader_at pre (b # bs @ post))\<lparr>rd_offset := Suc (rd_offset (reader_at pre (b # bs @ post)))\<rparr>
      = reader_at (pre @ [b]) (bs @ post)"
    by (simp add: reader_at_def)
  have hd: "rd_bytes (reader_at pre (b # bs @ post)) ! rd_offset (reader_at pre (b # bs @ post)) = b"
    by (simp add: reader_at_def)
  show ?case
    using Cons.IH [of "Suc i" "acc OR push_bit (i * 8) (ucast b)" "pre @ [b]"]
    by (simp add: step hd)
qed

lemma le_value_append: "le_value i acc (xs @ ys) = le_value (i + length xs) (le_value i acc xs) ys"
  by (induction xs arbitrary: i acc) simp_all

lemma take_bit_byte:
  "take_bit (n * 8) v OR push_bit (n * 8) (ucast (ucast (drop_bit (n * 8) v) :: u8)) =
     take_bit (Suc n * 8) (v :: u64)"
  by (rule bit_word_eqI) (auto simp: bit_simps)

lemma le_value_le_bytes: "le_value 0 0 (le_bytes n v) = take_bit (n * 8) v"
proof (induction n)
  case 0
  then show ?case by (simp add: le_bytes_def append_unsigned_def)
next
  case (Suc n)
  have "le_value 0 0 (le_bytes (Suc n) v) =
      take_bit (n * 8) v OR push_bit (n * 8) (ucast (ucast (drop_bit (n * 8) v) :: u8))"
    by (simp add: le_bytes_Suc le_value_append Suc.IH)
  then show ?case by (simp only: take_bit_byte)
qed

lemma le_bytes_take_bit: "le_bytes n (take_bit (n * 8) v) = le_bytes n v"
proof -
  have "ucast (drop_bit (i * 8) (take_bit (n * 8) v)) = (ucast (drop_bit (i * 8) v) :: u8)" if "i < n" for i
    using that by (intro bit_word_eqI) (auto simp: bit_simps)
  then show ?thesis
    by (simp add: le_bytes_def append_unsigned_def)
qed

lemma le_value_bound: "length bs \<le> 8 \<Longrightarrow> take_bit (length bs * 8) (le_value 0 0 bs) = le_value 0 0 bs"
proof (induction bs rule: rev_induct)
  case Nil
  then show ?case by simp
next
  case (snoc b bs)
  then have IH: "take_bit (length bs * 8) (le_value 0 0 bs) = le_value 0 0 bs" by simp
  have "take_bit (length (bs @ [b]) * 8) (take_bit (length bs * 8) (le_value 0 0 bs) OR push_bit (length bs * 8) (ucast b))
      = take_bit (length bs * 8) (le_value 0 0 bs) OR push_bit (length bs * 8) (ucast b)"
    by (rule bit_word_eqI) (auto simp: bit_simps dest: bit_imp_le_length)
  then show ?case by (simp add: le_value_append IH)
qed

lemma le_bytes_le_value: "length bs \<le> 8 \<Longrightarrow> le_bytes (length bs) (le_value 0 0 bs) = bs"
proof (induction bs rule: rev_induct)
  case Nil
  then show ?case by (simp add: le_bytes_def append_unsigned_def)
next
  case (snoc b bs)
  let ?n = "length bs"
  let ?v = "le_value 0 0 bs"
  let ?w = "?v OR push_bit (?n * 8) (ucast b)"
  from snoc.prems have n: "?n \<le> 8" "?n * 8 + 8 \<le> 64" by simp_all
  from le_value_bound n(1) have v: "take_bit (?n * 8) ?v = ?v" by blast
  have low: "take_bit (?n * 8) (take_bit (?n * 8) ?v OR push_bit (?n * 8) (ucast b)) = take_bit (?n * 8) ?v"
    by (rule bit_word_eqI) (auto simp: bit_simps)
  have high: "ucast (drop_bit (?n * 8) (take_bit (?n * 8) ?v OR push_bit (?n * 8) (ucast b))) = b"
    using n(2) by (intro bit_word_eqI) (auto simp: bit_simps)
  have "le_bytes ?n ?w = le_bytes ?n (take_bit (?n * 8) ?w)"
    by (simp only: le_bytes_take_bit)
  also have "\<dots> = bs"
    using low v snoc.IH n(1) by simp
  finally have "le_bytes ?n ?w = bs" .
  then show ?case
    using high v by (simp add: le_value_append le_bytes_Suc)
qed

lemma read_unsigned_at:
  "read_unsigned (length bs) (reader_at pre (bs @ post)) = (Inr (le_value 0 0 bs), reader_at (pre @ bs) post)"
  using unsigned_loop_le_value [of 0 bs 0 pre post] by (simp add: read_unsigned_def)

lemma read_unsigned_short: "length rest < n \<Longrightarrow> read_unsigned n (reader_at pre rest) = (Inl InvalidArgument, reader_at pre rest)"
  by (simp add: read_unsigned_def)

lemma byte_codec_unsigned:
  assumes "n \<le> 8"
  shows "byte_codec (le_bytes n) (read_unsigned n) (\<lambda>v. take_bit (n * 8) v = v)"
proof
  fix v :: u64 and pre post
  assume "take_bit (n * 8) v = v"
  then show "read_unsigned n (reader_at pre (le_bytes n v @ post)) = (Inr v, reader_at (pre @ le_bytes n v) post)"
    using read_unsigned_at [of "le_bytes n v" pre post] by (simp add: le_value_le_bytes)
next
  fix pre rest r' and v :: u64
  assume rd: "read_unsigned n (reader_at pre rest) = (Inr v, r')"
  have len: "n \<le> length rest"
    using rd read_unsigned_short [of rest n pre] by (cases "length rest < n") auto
  then have "read_unsigned n (reader_at pre rest)
      = (Inr (le_value 0 0 (take n rest)), reader_at (pre @ take n rest) (drop n rest))"
    using read_unsigned_at [of "take n rest" pre "drop n rest"] by (simp add: min_absorb2)
  with rd have v: "v = le_value 0 0 (take n rest)" and r': "r' = reader_at (pre @ take n rest) (drop n rest)"
    by simp_all
  have "take_bit (n * 8) v = v" and "le_bytes n v = take n rest"
    using le_value_bound [of "take n rest"] le_bytes_le_value [of "take n rest"] len assms
    by (simp_all add: v min_absorb2)
  then show "take_bit (n * 8) v = v \<and> (\<exists>post. rest = le_bytes n v @ post \<and> r' = reader_at (pre @ le_bytes n v) post)"
    using r' by (metis append_take_drop_id)
qed

interpretation u8c: byte_codec "le_bytes 1" "read_unsigned 1" "\<lambda>v. take_bit (1 * 8) v = v"
  by (rule byte_codec_unsigned) simp

interpretation u16c: byte_codec "le_bytes 2" "read_unsigned 2" "\<lambda>v. take_bit (2 * 8) v = v"
  by (rule byte_codec_unsigned) simp

interpretation u32c: byte_codec "le_bytes 4" "read_unsigned 4" "\<lambda>v. take_bit (4 * 8) v = v"
  by (rule byte_codec_unsigned) simp

interpretation u64c: byte_codec "le_bytes 8" "read_unsigned 8" "\<lambda>v. take_bit (8 * 8) v = v"
  by (rule byte_codec_unsigned) simp

lemma take_bit_64 [simp]: "take_bit 64 (v :: u64) = v"
  by (rule bit_word_eqI) (auto simp: bit_simps)

interpretation realc: byte_codec "le_bytes 8" read_real bits_isfinite
proof
  fix v :: u64 and pre post
  assume "bits_isfinite v"
  then show "read_real (reader_at pre (le_bytes 8 v @ post)) = (Inr v, reader_at (pre @ le_bytes 8 v) post)"
    by (simp add: read_real_def effect_simps u64c.dec_enc)
next
  fix pre rest r' and v :: u64
  assume "read_real (reader_at pre rest) = (Inr v, r')"
  then have "read_unsigned 8 (reader_at pre rest) = (Inr v, r')" "bits_isfinite v"
    by (auto simp: read_real_def effect_outcome split: if_splits)
  then show "bits_isfinite v \<and> (\<exists>post. rest = le_bytes 8 v @ post \<and> r' = reader_at (pre @ le_bytes 8 v) post)"
    using u64c.enc_dec by blast
qed

subsection \<open>Sequences of fields\<close>

definition reals_bytes :: "u64 list \<Rightarrow> bytes" where
  "reals_bytes vs = concat (map (le_bytes 8) vs)"

lemma length_reals_bytes [simp]: "length (reals_bytes vs) = 8 * length vs"
  by (induction vs) (simp_all add: reals_bytes_def)

lemma append_reals_Inr:
  "append_reals out vs = Inr out' \<longleftrightarrow> list_all bits_isfinite vs \<and> out' = out @ reals_bytes vs"
  by (induction vs arbitrary: out)
     (auto simp: bindS_eq_Inr append_real_def append_unsigned_le reals_bytes_def split: if_splits)

definition body_ok :: "body_state \<Rightarrow> bool" where
  "body_ok b \<longleftrightarrow>
     length (position_meters b) = 3 \<and> length (orientation_wxyz b) = 4 \<and>
     length (linear_velocity_meters_per_second b) = 3 \<and> length (angular_velocity_radians_per_second b) = 3"

definition body_reals :: "body_state \<Rightarrow> u64 list" where
  "body_reals b = position_meters b @ orientation_wxyz b @
     linear_velocity_meters_per_second b @ angular_velocity_radians_per_second b"

definition body_finite :: "body_state \<Rightarrow> bool" where
  "body_finite b = list_all bits_isfinite (body_reals b)"

definition body_bytes :: "body_state \<Rightarrow> bytes" where
  "body_bytes b = reals_bytes (body_reals b)"

lemma reals_bytes_append [simp]: "reals_bytes (a @ b) = reals_bytes a @ reals_bytes b"
  by (simp add: reals_bytes_def)

lemma length_body_bytes [simp]: "body_ok b \<Longrightarrow> length (body_bytes b) = 104"
  by (simp add: body_bytes_def body_reals_def body_ok_def)

lemma append_body_Inr:
  "append_body out b = Inr out' \<longleftrightarrow> body_finite b \<and> out' = out @ body_bytes b"
  by (auto simp: append_body_def bindS_eq_Inr append_reals_Inr body_finite_def body_bytes_def body_reals_def)

lemma append_bodies_Inr:
  "append_bodies out bs = Inr out' \<longleftrightarrow>
     list_all body_finite bs \<and> out' = out @ concat (map body_bytes bs)"
  by (induction bs arbitrary: out) (auto simp: bindS_eq_Inr append_body_Inr)

lemma read_reals_enc:
  "list_all bits_isfinite vs \<Longrightarrow> length vs = n \<Longrightarrow>
   read_many n read_real (reader_at pre (reals_bytes vs @ post)) = (Inr vs, reader_at (pre @ reals_bytes vs) post)"
  using realc.read_many_enc [of vs pre post] by (auto simp: reals_bytes_def)

lemma read_reals_dec:
  "read_many n read_real (reader_at pre rest) = (Inr vs, r') \<Longrightarrow>
   length vs = n \<and> list_all bits_isfinite vs \<and>
   (\<exists>post. rest = reals_bytes vs @ post \<and> r' = reader_at (pre @ reals_bytes vs) post)"
  using realc.read_many_dec [of n pre rest vs r'] by (simp add: reals_bytes_def)

interpretation bodyc: byte_codec body_bytes read_body "\<lambda>b. body_ok b \<and> body_finite b"
proof
  fix b pre post
  assume "body_ok b \<and> body_finite b"
  then show "read_body (reader_at pre (body_bytes b @ post)) = (Inr b, reader_at (pre @ body_bytes b) post)"
    by (cases b)
       (simp add: read_body_def effect_simps read_reals_enc body_ok_def body_finite_def
          body_bytes_def body_reals_def)
next
  fix b pre rest r'
  assume "read_body (reader_at pre rest) = (Inr b, r')"
  then obtain p q v w r1 r2 r3 where
    p: "read_many 3 read_real (reader_at pre rest) = (Inr p, r1)" and
    q: "read_many 4 read_real r1 = (Inr q, r2)" and
    v: "read_many 3 read_real r2 = (Inr v, r3)" and
    w: "read_many 3 read_real r3 = (Inr w, r')" and
    b: "b = \<lparr>position_meters = p, orientation_wxyz = q,
          linear_velocity_meters_per_second = v, angular_velocity_radians_per_second = w\<rparr>"
    by (auto simp: read_body_def effect_outcome)
  from read_reals_dec [OF p] obtain post1 where
    1: "length p = 3" "list_all bits_isfinite p" "rest = reals_bytes p @ post1"
      "r1 = reader_at (pre @ reals_bytes p) post1" by blast
  from read_reals_dec [OF q [unfolded 1(4)]] obtain post2 where
    2: "length q = 4" "list_all bits_isfinite q" "post1 = reals_bytes q @ post2"
      "r2 = reader_at ((pre @ reals_bytes p) @ reals_bytes q) post2" by blast
  from read_reals_dec [OF v [unfolded 2(4)]] obtain post3 where
    3: "length v = 3" "list_all bits_isfinite v" "post2 = reals_bytes v @ post3"
      "r3 = reader_at (((pre @ reals_bytes p) @ reals_bytes q) @ reals_bytes v) post3" by blast
  from read_reals_dec [OF w [unfolded 3(4)]] obtain post4 where
    4: "length w = 3" "list_all bits_isfinite w" "post3 = reals_bytes w @ post4"
      "r' = reader_at ((((pre @ reals_bytes p) @ reals_bytes q) @ reals_bytes v) @ reals_bytes w) post4"
    by blast
  from 1 2 3 4 b show "(body_ok b \<and> body_finite b) \<and>
      (\<exists>post. rest = body_bytes b @ post \<and> r' = reader_at (pre @ body_bytes b) post)"
    by (simp add: body_ok_def body_finite_def body_bytes_def body_reals_def)
qed

subsection \<open>Scalars and their statuses\<close>

definition scalar_ok :: "u64 \<Rightarrow> u8 \<Rightarrow> bool" where
  "scalar_ok v s \<longleftrightarrow> validate_scalar v s = Inr ()"

lemma scalar_ok_finite: "scalar_ok v s \<Longrightarrow> bits_isfinite v"
  by (simp add: scalar_ok_def validate_scalar_def)

lemma append_scalars_Inr:
  "append_scalars out ps = Inr out' \<longleftrightarrow>
     list_all (\<lambda>(v, s). scalar_ok v s) ps \<and> out' = out @ reals_bytes (map fst ps)"
proof (induction ps arbitrary: out)
  case Nil
  then show ?case by (auto simp: reals_bytes_def)
next
  case (Cons p ps)
  obtain v s where p: "p = (v, s)" by (cases p)
  have "validate_scalar v s = Inr u \<longleftrightarrow> scalar_ok v s" for u
    by (cases u) (simp add: scalar_ok_def)
  then show ?case
    using Cons.IH scalar_ok_finite [of v s]
    by (auto simp: p bindS_eq_Inr append_real_def append_unsigned_le reals_bytes_def split: if_splits)
qed

lemma le_bytes_1: "le_bytes (Suc 0) v = [ucast v]"
  by (simp add: le_bytes_def append_unsigned_def)

lemma ucast_u8_u64: "take_bit 8 (ucast (b :: u8) :: u64) = ucast b" "(ucast (ucast b :: u64) :: u8) = b"
  by (rule bit_word_eqI; auto simp: bit_simps dest: bit_imp_le_length)+

lemma read_statuses_enc:
  "length ss = length vs \<Longrightarrow> list_all (\<lambda>(v, s). scalar_ok v s) (zip vs ss) \<Longrightarrow>
   read_statuses vs (reader_at pre (ss @ post)) = (Inr ss, reader_at (pre @ ss) post)"
proof (induction vs arbitrary: ss pre)
  case Nil
  then show ?case by (simp add: effect_simps)
next
  case (Cons v vs)
  then obtain s ss' where ss: "ss = s # ss'" by (cases ss) auto
  have "read_unsigned 1 (reader_at pre (s # ss' @ post)) = (Inr (ucast s), reader_at (pre @ [s]) (ss' @ post))"
    using u8c.dec_enc [of "ucast s" pre "ss' @ post"] by (simp add: le_bytes_1 ucast_u8_u64)
  then show ?case
    using Cons by (simp add: ss effect_simps ucast_u8_u64 scalar_ok_def)
qed

lemma read_statuses_dec:
  "read_statuses vs (reader_at pre rest) = (Inr ss, r') \<Longrightarrow>
   length ss = length vs \<and> list_all (\<lambda>(v, s). scalar_ok v s) (zip vs ss) \<and>
   (\<exists>post. rest = ss @ post \<and> r' = reader_at (pre @ ss) post)"
proof (induction vs arbitrary: pre rest ss)
  case Nil
  then show ?case by (simp add: effect_simps)
next
  case (Cons v vs)
  from Cons.prems obtain x u ss' where
    x: "read_unsigned 1 (reader_at pre rest) = (Inr x, u)" and
    ok: "scalar_ok v (ucast x)" and
    ss': "read_statuses vs u = (Inr ss', r')" and ss: "ss = ucast x # ss'"
    by (auto simp: effect_outcome scalar_ok_def)
  from u8c.enc_dec [OF x] obtain post where
    rest: "rest = [ucast x] @ post" and u: "u = reader_at (pre @ [ucast x]) post"
    by (auto simp: le_bytes_1)
  from Cons.IH [OF ss' [unfolded u]] ok rest ss show ?case by auto
qed

subsection \<open>State messages: both directions\<close>

lemma unat_of_nat_32: "n \<le> 2 ^ 32 - 1 \<Longrightarrow> unat (of_nat n :: u64) = n"
  by (simp add: unsigned_of_nat take_bit_nat_eq_self)

lemma take_bit_of_nat_32: "n \<le> 2 ^ 32 - 1 \<Longrightarrow> take_bit 32 (of_nat n :: u64) = of_nat n"
  by (simp add: word_unat_eq_iff unsigned_take_bit_eq unat_of_nat_32 take_bit_nat_eq_self)

lemma unat_take_bit_32: "take_bit 32 (v :: u64) = v \<Longrightarrow> unat v \<le> 2 ^ 32 - 1"
proof -
  assume "take_bit 32 v = v"
  then have "unat v = take_bit 32 (unat v)"
    by (metis unsigned_take_bit_eq)
  then have "unat v < 2 ^ 32"
    by (metis take_bit_nat_less_exp)
  then show ?thesis by simp
qed

definition payload_bytes :: "state_payload \<Rightarrow> bytes" where
  "payload_bytes p =
     le_bytes 4 (of_nat (length (sp_bodies p))) @ concat (map body_bytes (sp_bodies p)) @
     le_bytes 4 (of_nat (length (sp_values p))) @ reals_bytes (sp_values p) @ sp_statuses p"

definition payload_ok :: "state_payload \<Rightarrow> bool" where
  "payload_ok p \<longleftrightarrow>
     length (sp_bodies p) \<le> 2 ^ 32 - 1 \<and> length (sp_values p) \<le> 2 ^ 32 - 1 \<and>
     length (sp_values p) = length (sp_statuses p) \<and> list_all body_finite (sp_bodies p) \<and>
     list_all (\<lambda>(v, s). scalar_ok v s) (zip (sp_values p) (sp_statuses p))"

lemma encode_state_Inr: "encode_state p = Inr out \<longleftrightarrow> payload_ok p \<and> out = payload_bytes p"
  by (auto simp: encode_state_def bindS_eq_Inr append_bodies_Inr append_scalars_Inr payload_ok_def
      payload_bytes_def append_unsigned_le)

lemma length_bodies_bytes: "list_all body_ok bs \<Longrightarrow> length (concat (map body_bytes bs)) = 104 * length bs"
  by (induction bs) simp_all

lemma decode_payload:
  assumes ok: "payload_ok p" and shape: "list_all body_ok (sp_bodies p)"
  shows "decode_state (payload_bytes p) = Inr p"
proof -
  let ?nb = "length (sp_bodies p)" and ?nv = "length (sp_values p)"
  let ?bodies = "concat (map body_bytes (sp_bodies p))"
  have nb: "?nb \<le> 2 ^ 32 - 1" and nv: "?nv \<le> 2 ^ 32 - 1" and ns: "length (sp_statuses p) = ?nv"
    and fb: "list_all (\<lambda>b. body_ok b \<and> body_finite b) (sp_bodies p)"
    and fs: "list_all (\<lambda>(v, s). scalar_ok v s) (zip (sp_values p) (sp_statuses p))"
    using ok shape by (auto simp: payload_ok_def list_all_iff)
  have fv: "list_all bits_isfinite (sp_values p)"
    using fs ns unfolding list_all_length by (auto dest!: scalar_ok_finite)
  have len: "length ?bodies = 104 * ?nb"
    using shape by (rule length_bodies_bytes)
  have count4: "read_unsigned 4 (reader_at pre (le_bytes 4 (of_nat n) @ post)) =
      (Inr (of_nat n), reader_at (pre @ le_bytes 4 (of_nat n)) post)" if "n \<le> 2 ^ 32 - 1" for n pre post
    using that by (intro u32c.dec_enc) (simp add: take_bit_of_nat_32)
  have un: "unat (of_nat ?nb :: u64) = ?nb" "unat (of_nat ?nv :: u64) = ?nv"
    using nb nv by (simp_all only: unat_of_nat_32)
  have bodies: "read_many ?nb read_body (reader_at pre (?bodies @ post)) = (Inr (sp_bodies p), reader_at (pre @ ?bodies) post)" for pre post
    using fb by (rule bodyc.read_many_enc)
  have st: "read_statuses (sp_values p) (reader_at pre (sp_statuses p)) = (Inr (sp_statuses p), reader_at (pre @ sp_statuses p) [])" for pre
    using read_statuses_enc [OF ns fs, of pre "[]"] by simp
  show ?thesis
    using fv ns
    by (simp add: decode_state_def reader_start payload_bytes_def decode_state_from_def effect_simps
        count4 [OF nb] count4 [OF nv] un bodies read_reals_enc st len)
qed

lemma decode_state_shape:
  assumes dec: "decode_state bs = Inr p"
  shows "payload_ok p \<and> list_all body_ok (sp_bodies p) \<and> bs = payload_bytes p"
proof -
  obtain r' where "decode_state_from (reader_at [] bs) = (Inr p, r')"
    using dec by (cases "decode_state_from (reader_at [] bs)") (simp add: decode_state_def reader_start)
  then obtain count r1 bodies r2 scount r3 vs r4 ss where
    c: "read_unsigned 4 (reader_at [] bs) = (Inr count, r1)" and
    b: "read_many (unat count) read_body r1 = (Inr bodies, r2)" and
    sc: "read_unsigned 4 r2 = (Inr scount, r3)" and
    chk: "remaining r3 mod 9 = 0" "unat scount = remaining r3 div 9" and
    v: "read_many (unat scount) read_real r3 = (Inr vs, r4)" and
    s: "read_statuses vs r4 = (Inr ss, r')" and
    p: "p = \<lparr>sp_bodies = bodies, sp_values = vs, sp_statuses = ss\<rparr>"
    by (auto simp: decode_state_from_def effect_outcome split: if_splits)
  from u32c.enc_dec [OF c] obtain post1 where
    1: "take_bit 32 count = count" "bs = le_bytes 4 count @ post1" "r1 = reader_at ([] @ le_bytes 4 count) post1"
    by auto
  from bodyc.read_many_dec [OF b [unfolded 1(3)]] obtain post2 where
    2: "length bodies = unat count" "list_all (\<lambda>b. body_ok b \<and> body_finite b) bodies"
       "post1 = concat (map body_bytes bodies) @ post2"
       "r2 = reader_at (([] @ le_bytes 4 count) @ concat (map body_bytes bodies)) post2" by blast
  from u32c.enc_dec [OF sc [unfolded 2(4)]] obtain post3 where
    3: "take_bit 32 scount = scount" "post2 = le_bytes 4 scount @ post3"
       "r3 = reader_at ((([] @ le_bytes 4 count) @ concat (map body_bytes bodies)) @ le_bytes 4 scount) post3"
    by auto
  from read_reals_dec [OF v [unfolded 3(3)]] obtain post4 where
    4: "length vs = unat scount" "post3 = reals_bytes vs @ post4"
       "r4 = reader_at (((([] @ le_bytes 4 count) @ concat (map body_bytes bodies)) @ le_bytes 4 scount) @ reals_bytes vs) post4"
    by blast
  from read_statuses_dec [OF s [unfolded 4(3)]] obtain post5 where
    5: "length ss = length vs" "list_all (\<lambda>(v, s). scalar_ok v s) (zip vs ss)" "post4 = ss @ post5" by blast
  have cnt: "of_nat (length bodies) = count" "of_nat (length vs) = scount"
    using 2(1) 4(1) by simp_all
  have "length post3 = 9 * unat scount"
    using chk 3(3) by (simp add: div_mult_mod_eq) (metis add.right_neutral mult_div_mod_eq)
  then have "post5 = []"
    using 4 5 by simp
  moreover have "length bodies \<le> 2 ^ 32 - 1" "length vs \<le> 2 ^ 32 - 1"
    using unat_take_bit_32 [OF 1(1)] unat_take_bit_32 [OF 3(1)] 2(1) 4(1) by simp_all
  ultimately show ?thesis
    using 1 2 3 4 5 cnt by (simp add: p payload_ok_def payload_bytes_def list_all_iff)
qed

text \<open>C16: \<open>DecodeState\<close> and \<open>EncodeState\<close> are inverse in both directions.  A byte string
  decodes to a payload exactly when that payload, with its fixed-size arrays, encodes to that byte
  string: nothing the encoder emits is refused or altered (every finite bit pattern survives,
  negative zero included), and no second byte string is accepted for the same state.\<close>

theorem state_codec_inverse:
  "decode_state bs = Inr p \<longleftrightarrow> encode_state p = Inr bs \<and> list_all body_ok (sp_bodies p)"
  using decode_state_shape [of bs p] decode_payload [of p] by (auto simp: encode_state_Inr)

subsection \<open>Datagram headers\<close>

definition header_bytes :: "stream_header \<Rightarrow> bytes" where
  "header_bytes h =
     [0x4F, 0x53, 0x54, 0x53] @ le_bytes 2 1 @ le_bytes 2 (ucast (hd_kind h)) @
     le_bytes 8 (hd_run_id h) @ le_bytes 8 (hd_sequence h) @ le_bytes 8 (hd_time h) @
     le_bytes 2 (ucast (hd_fragment_index h)) @ le_bytes 2 (ucast (hd_fragment_count h)) @
     le_bytes 4 (ucast (hd_payload_bytes h))"

definition header_ok :: "stream_header \<Rightarrow> nat \<Rightarrow> bool" where
  "header_ok h n \<longleftrightarrow>
     validate_identity (hd_kind h) (hd_run_id h) (hd_time h) = Inr () \<and>
     unat (hd_fragment_count h) = fragment_parts (unat (hd_payload_bytes h)) \<and>
     unat (hd_fragment_index h) < fragment_parts (unat (hd_payload_bytes h)) \<and>
     n = min kFragmentPayloadBytes
           (unat (hd_payload_bytes h) - unat (hd_fragment_index h) * kFragmentPayloadBytes)"

lemmas stream_sizes = kHeaderBytes_def kDatagramBytes_def kFragmentPayloadBytes_def

lemma length_header_bytes [simp]: "length (header_bytes h) = 40"
  by (simp add: header_bytes_def)

lemma magic_bytes: "le_bytes 4 0x5354534f = [0x4F, 0x53, 0x54, 0x53]"
proof -
  have "[0..<4] = [0, 1, 2, 3 :: nat]" by (simp add: upt_rec)
  then show ?thesis by (simp add: le_bytes_def append_unsigned_def drop_bit_eq_div)
qed

lemma take_bit_ucast16: "take_bit 16 (ucast (w :: 16 word) :: u64) = ucast w"
  by (rule bit_word_eqI) (auto simp: bit_simps dest: bit_imp_le_length)

lemma take_bit_ucast32: "take_bit 32 (ucast (w :: 32 word) :: u64) = ucast w"
  by (rule bit_word_eqI) (auto simp: bit_simps dest: bit_imp_le_length)

lemma ucast_ucast16: "(ucast (ucast (w :: 16 word) :: u64) :: 16 word) = w"
  by (rule bit_word_eqI) (auto simp: bit_simps)

lemma ucast_ucast32: "(ucast (ucast (w :: 32 word) :: u64) :: 32 word) = w"
  by (rule bit_word_eqI) (auto simp: bit_simps)

lemma ucast16_inverse: "take_bit 16 v = v \<Longrightarrow> ucast (ucast (v :: u64) :: 16 word) = v"
proof -
  have "ucast (ucast (v :: u64) :: 16 word) = take_bit 16 v"
    by (rule bit_word_eqI) (auto simp: bit_simps)
  then show "take_bit 16 v = v \<Longrightarrow> ucast (ucast (v :: u64) :: 16 word) = v" by simp
qed

lemma ucast32_inverse: "take_bit 32 v = v \<Longrightarrow> ucast (ucast (v :: u64) :: 32 word) = v"
proof -
  have "ucast (ucast (v :: u64) :: 32 word) = take_bit 32 v"
    by (rule bit_word_eqI) (auto simp: bit_simps)
  then show "take_bit 32 v = v \<Longrightarrow> ucast (ucast (v :: u64) :: 32 word) = v" by simp
qed

lemma parse_header_from_enc:
  assumes "bits_isfinite (hd_time h)"
  shows "parse_header_from (reader_at [] (header_bytes h @ chunk)) = (Inr h, reader_at (header_bytes h) chunk)"
proof -
  have one: "take_bit (2 * 8) (1 :: u64) = 1" and m: "take_bit (4 * 8) (0x5354534f :: u64) = 0x5354534f"
    by simp_all
  have mb: "header_bytes h @ chunk = le_bytes 4 0x5354534f @ drop 4 (header_bytes h) @ chunk"
    by (simp add: magic_bytes header_bytes_def)
  have hb: "header_bytes h = le_bytes 4 0x5354534f @ drop 4 (header_bytes h)"
    by (simp add: magic_bytes header_bytes_def)
  have body: "drop 4 (header_bytes h) = le_bytes 2 1 @ le_bytes 2 (ucast (hd_kind h)) @
     le_bytes 8 (hd_run_id h) @ le_bytes 8 (hd_sequence h) @ le_bytes 8 (hd_time h) @
     le_bytes 2 (ucast (hd_fragment_index h)) @ le_bytes 2 (ucast (hd_fragment_count h)) @
     le_bytes 4 (ucast (hd_payload_bytes h))"
    by (simp add: header_bytes_def)
  show ?thesis
    unfolding mb unfolding parse_header_from_def
    apply (simp only: bindE_run seqE_run u32c.dec_enc [OF m] prod.case sum.case rejectE_run if_False
        simp_thms append_Nil append_assoc body u16c.dec_enc [OF one])
    apply (simp add: effect_simps u16c.dec_enc u32c.dec_enc u64c.dec_enc realc.dec_enc assms
        take_bit_ucast16 take_bit_ucast32 ucast_ucast16 ucast_ucast32)
    apply (subst hb)
    apply (simp add: body)
    done
qed

lemma parse_header_from_dec:
  assumes run: "parse_header_from (reader_at [] d) = (Inr h, r)"
  shows "bits_isfinite (hd_time h) \<and> (\<exists>chunk. d = header_bytes h @ chunk \<and> r = reader_at (header_bytes h) chunk)"
proof -
  from run obtain r1 r2 kind r3 rid r4 sq r5 time r6 idx r7 cnt r8 sz where
    m: "read_unsigned 4 (reader_at [] d) = (Inr 0x5354534f, r1)" and
    vv: "read_unsigned 2 r1 = (Inr 1, r2)" and
    k: "read_unsigned 2 r2 = (Inr kind, r3)" and
    i: "read_unsigned 8 r3 = (Inr rid, r4)" and
    q: "read_unsigned 8 r4 = (Inr sq, r5)" and
    t: "read_real r5 = (Inr time, r6)" and
    x: "read_unsigned 2 r6 = (Inr idx, r7)" and
    c: "read_unsigned 2 r7 = (Inr cnt, r8)" and
    z: "read_unsigned 4 r8 = (Inr sz, r)" and
    h: "h = \<lparr>hd_kind = ucast kind, hd_run_id = rid, hd_sequence = sq, hd_time = time,
            hd_fragment_index = ucast idx, hd_fragment_count = ucast cnt, hd_payload_bytes = ucast sz\<rparr>"
    by (auto simp: parse_header_from_def effect_outcome split: if_splits)
  from u32c.enc_dec [OF m] obtain p1 where 1: "d = le_bytes 4 0x5354534f @ p1" "r1 = reader_at ([] @ le_bytes 4 0x5354534f) p1" by blast
  from u16c.enc_dec [OF vv [unfolded 1(2)]] obtain p2 where 2: "p1 = le_bytes 2 1 @ p2" "r2 = reader_at (([] @ le_bytes 4 0x5354534f) @ le_bytes 2 1) p2" by blast
  from u16c.enc_dec [OF k [unfolded 2(2)]] obtain p3 where 3: "take_bit (2 * 8) kind = kind" "p2 = le_bytes 2 kind @ p3"
    "r3 = reader_at ((([] @ le_bytes 4 0x5354534f) @ le_bytes 2 1) @ le_bytes 2 kind) p3" by blast
  from u64c.enc_dec [OF i [unfolded 3(3)]] obtain p4 where 4: "p3 = le_bytes 8 rid @ p4"
    "r4 = reader_at (((([] @ le_bytes 4 0x5354534f) @ le_bytes 2 1) @ le_bytes 2 kind) @ le_bytes 8 rid) p4" by blast
  from u64c.enc_dec [OF q [unfolded 4(2)]] obtain p5 where 5: "p4 = le_bytes 8 sq @ p5"
    "r5 = reader_at ((((([] @ le_bytes 4 0x5354534f) @ le_bytes 2 1) @ le_bytes 2 kind) @ le_bytes 8 rid) @ le_bytes 8 sq) p5" by blast
  from realc.enc_dec [OF t [unfolded 5(2)]] obtain p6 where 6: "bits_isfinite time" "p5 = le_bytes 8 time @ p6"
    "r6 = reader_at (((((([] @ le_bytes 4 0x5354534f) @ le_bytes 2 1) @ le_bytes 2 kind) @ le_bytes 8 rid) @ le_bytes 8 sq) @ le_bytes 8 time) p6" by blast
  from u16c.enc_dec [OF x [unfolded 6(3)]] obtain p7 where 7: "take_bit (2 * 8) idx = idx" "p6 = le_bytes 2 idx @ p7"
    "r7 = reader_at ((((((([] @ le_bytes 4 0x5354534f) @ le_bytes 2 1) @ le_bytes 2 kind) @ le_bytes 8 rid) @ le_bytes 8 sq) @ le_bytes 8 time) @ le_bytes 2 idx) p7" by blast
  from u16c.enc_dec [OF c [unfolded 7(3)]] obtain p8 where 8: "take_bit (2 * 8) cnt = cnt" "p7 = le_bytes 2 cnt @ p8"
    "r8 = reader_at (((((((([] @ le_bytes 4 0x5354534f) @ le_bytes 2 1) @ le_bytes 2 kind) @ le_bytes 8 rid) @ le_bytes 8 sq) @ le_bytes 8 time) @ le_bytes 2 idx) @ le_bytes 2 cnt) p8" by blast
  from u32c.enc_dec [OF z [unfolded 8(3)]] obtain p9 where 9: "take_bit (4 * 8) sz = sz" "p8 = le_bytes 4 sz @ p9"
    "r = reader_at ((((((((([] @ le_bytes 4 0x5354534f) @ le_bytes 2 1) @ le_bytes 2 kind) @ le_bytes 8 rid) @ le_bytes 8 sq) @ le_bytes 8 time) @ le_bytes 2 idx) @ le_bytes 2 cnt) @ le_bytes 4 sz) p9" by blast
  have u: "ucast (ucast kind :: 16 word) = kind" "ucast (ucast idx :: 16 word) = idx"
    "ucast (ucast cnt :: 16 word) = cnt" "ucast (ucast sz :: 32 word) = sz"
    using 3(1) 7(1) 8(1) 9(1) by (simp_all add: ucast16_inverse ucast32_inverse)
  have "header_bytes h = le_bytes 4 0x5354534f @ le_bytes 2 1 @ le_bytes 2 kind @ le_bytes 8 rid @ le_bytes 8 sq @
      le_bytes 8 time @ le_bytes 2 idx @ le_bytes 2 cnt @ le_bytes 4 sz"
    by (simp add: header_bytes_def h u magic_bytes)
  then show ?thesis
    using 1(1) 2(1) 3(2) 4(1) 5(1) 6(1,2) 7(2) 8(2) 9(2,3) by (simp add: h)
qed

text \<open>C17: \<open>ParseHeader\<close> accepts a datagram exactly when it is the 40 header bytes of the returned
  header followed by a fragment of the one admissible length: known kind, non-zero run identity,
  finite time, the fragment count that follows from the payload size, an index below it, and
  1160 bytes for every fragment but the last.\<close>

theorem parse_header_exact:
  "parse_header d = Inr h \<longleftrightarrow> (\<exists>chunk. d = header_bytes h @ chunk \<and> header_ok h (length chunk))"
proof
  assume "parse_header d = Inr h"
  then obtain r where run: "parse_header_from (reader_at [] d) = (Inr h, r)"
    and chk: "validate_identity (hd_kind h) (hd_run_id h) (hd_time h) = Inr ()"
      "unat (hd_fragment_count h) = fragment_parts (unat (hd_payload_bytes h))"
      "unat (hd_fragment_index h) < fragment_parts (unat (hd_payload_bytes h))"
      "remaining r = min kFragmentPayloadBytes
         (unat (hd_payload_bytes h) - unat (hd_fragment_index h) * kFragmentPayloadBytes)"
    by (auto simp: parse_header_def reader_start bindS_eq_Inr Let_def not_le split: if_splits prod.splits sum.splits)
  from parse_header_from_dec [OF run] chk
  show "\<exists>chunk. d = header_bytes h @ chunk \<and> header_ok h (length chunk)"
    by (auto simp: header_ok_def)
next
  assume "\<exists>chunk. d = header_bytes h @ chunk \<and> header_ok h (length chunk)"
  then obtain chunk where d: "d = header_bytes h @ chunk" and ok: "header_ok h (length chunk)" by blast
  have fin: "bits_isfinite (hd_time h)"
    using ok by (simp add: header_ok_def validate_identity_def)
  have "length chunk \<le> 1160"
    using ok by (simp add: header_ok_def stream_sizes)
  then show "parse_header d = Inr h"
    using ok parse_header_from_enc [OF fin, of chunk]
    by (auto simp: d parse_header_def reader_start header_ok_def stream_sizes)
qed

subsection \<open>Packetizing and reassembly\<close>

definition packet_header :: "16 word \<Rightarrow> u64 \<Rightarrow> u64 \<Rightarrow> u64 \<Rightarrow> nat \<Rightarrow> nat \<Rightarrow> nat \<Rightarrow> stream_header" where
  "packet_header kind run_id sequence time n parts part =
     \<lparr>hd_kind = kind, hd_run_id = run_id, hd_sequence = sequence, hd_time = time,
      hd_fragment_index = of_nat part, hd_fragment_count = of_nat parts, hd_payload_bytes = of_nat n\<rparr>"

definition fragment :: "bytes \<Rightarrow> nat \<Rightarrow> bytes" where
  "fragment payload part =
     take kFragmentPayloadBytes (drop (part * kFragmentPayloadBytes) payload)"

lemma le_bytes_ucast16: "le_bytes 2 (ucast (of_nat n :: 16 word)) = le_bytes 2 (of_nat n)"
proof -
  have "(ucast (of_nat n :: 16 word) :: u64) = take_bit (2 * 8) (of_nat n)"
    by (rule bit_word_eqI) (auto simp: bit_simps)
  then show ?thesis by (simp only: le_bytes_take_bit)
qed

lemma le_bytes_ucast32: "le_bytes 4 (ucast (of_nat n :: 32 word)) = le_bytes 4 (of_nat n)"
proof -
  have "(ucast (of_nat n :: 32 word) :: u64) = take_bit (4 * 8) (of_nat n)"
    by (rule bit_word_eqI) (auto simp: bit_simps)
  then show ?thesis by (simp only: le_bytes_take_bit)
qed

lemma make_packet_eq:
  "bits_isfinite time \<Longrightarrow>
   make_packet kind run_id sequence time payload parts part =
     Inr (header_bytes (packet_header kind run_id sequence time (length payload) parts part) @
          fragment payload part)"
  by (simp add: make_packet_def append_real_def append_unsigned_le header_bytes_def packet_header_def
      le_bytes_ucast16 le_bytes_ucast32 fragment_def Let_def min_def)

lemma make_packets_eq:
  "bits_isfinite time \<Longrightarrow>
   make_packets kind run_id sequence time payload parts ps =
     Inr (map (\<lambda>part. header_bytes (packet_header kind run_id sequence time (length payload) parts part) @
          fragment payload part) ps)"
  by (induction ps) (simp_all add: make_packet_eq)

lemma fragment_parts_bounds:
  assumes "n \<le> 1160 * 65535"
  shows "1 \<le> fragment_parts n" and "fragment_parts n \<le> 65535" and "n \<le> fragment_parts n * 1160"
  using assms by (auto simp: fragment_parts_def stream_sizes max_def)

lemma concat_fragments:
  "concat (map (fragment payload) [0..<k]) = take (k * kFragmentPayloadBytes) payload"
  by (induction k) (simp_all add: fragment_def take_add [symmetric] add.commute)

lemma packetize_Inr:
  "packetize kind run_id sequence time payload = Inr packets \<longleftrightarrow>
     validate_identity kind run_id time = Inr () \<and> length payload \<le> 1160 * 65535 \<and>
     packets = map (\<lambda>part. header_bytes (packet_header kind run_id sequence time (length payload)
         (fragment_parts (length payload)) part) @ fragment payload part) [0..<fragment_parts (length payload)]"
  by (auto simp: packetize_def bindS_eq_Inr Let_def make_packets_eq stream_sizes validate_identity_def not_le)

lemma packet_header_ok:
  assumes "validate_identity kind run_id time = Inr ()" and n: "n \<le> 1160 * 65535"
    and part: "part < fragment_parts n"
  shows "header_ok (packet_header kind run_id sequence time n (fragment_parts n) part)
           (min kFragmentPayloadBytes (n - part * kFragmentPayloadBytes))"
proof -
  have "fragment_parts n \<le> 65535" using fragment_parts_bounds(2) [OF n] .
  then have "unat (of_nat (fragment_parts n) :: 16 word) = fragment_parts n"
    and "unat (of_nat part :: 16 word) = part"
    using part by (simp_all add: unsigned_of_nat take_bit_nat_eq_self)
  moreover have "unat (of_nat n :: 32 word) = n"
    using n by (simp add: unsigned_of_nat take_bit_nat_eq_self)
  ultimately show ?thesis
    using assms by (simp add: header_ok_def packet_header_def)
qed

text \<open>C18: The datagrams \<open>Packetize\<close> produces are at most 1200 bytes each, between one and 65535 of
  them, every one is accepted by \<open>ParseHeader\<close> with the message's identity, its position and the
  complete payload length, and stripping the 40 header bytes and concatenating in order gives
  back the payload.\<close>

theorem packetize_reassembles:
  assumes "packetize kind run_id sequence time payload = Inr packets"
  shows "concat (map (drop kHeaderBytes) packets) = payload \<and>
    1 \<le> length packets \<and> length packets \<le> 2 ^ 16 - 1 \<and>
    (\<forall>i < length packets. length (packets ! i) \<le> kDatagramBytes \<and>
      parse_header (packets ! i) =
        Inr (packet_header kind run_id sequence time (length payload) (length packets) i))"
proof -
  let ?n = "length payload"
  from assms have id: "validate_identity kind run_id time = Inr ()" and n: "?n \<le> 1160 * 65535"
    and ps: "packets = map (\<lambda>part. header_bytes (packet_header kind run_id sequence time ?n
         (fragment_parts ?n) part) @ fragment payload part) [0..<fragment_parts ?n]"
    by (auto simp: packetize_Inr)
  note b = fragment_parts_bounds [OF n]
  have "map (drop kHeaderBytes) packets = map (fragment payload) [0..<fragment_parts ?n]"
    by (simp add: ps kHeaderBytes_def)
  then have "concat (map (drop kHeaderBytes) packets) = payload"
    using b(3) by (simp add: concat_fragments stream_sizes)
  moreover have "length (packets ! i) \<le> kDatagramBytes \<and>
      parse_header (packets ! i) = Inr (packet_header kind run_id sequence time ?n (length packets) i)"
    if i: "i < length packets" for i
  proof -
    have lt: "i < fragment_parts ?n" using i by (simp add: ps)
    have len: "length (fragment payload i) = min kFragmentPayloadBytes (?n - i * kFragmentPayloadBytes)"
      by (simp add: fragment_def min.commute)
    have "header_ok (packet_header kind run_id sequence time ?n (fragment_parts ?n) i) (length (fragment payload i))"
      using packet_header_ok [OF id n lt] by (simp only: len)
    then show ?thesis
      using lt by (auto simp: ps parse_header_exact len stream_sizes)
  qed
  ultimately show ?thesis using b by (simp add: ps)
qed

theorem packetize_reassembles_witness:
  "\<exists>packets. packetize 2 1 5 0 [7, 8, 9] = Inr packets \<and> concat (map (drop kHeaderBytes) packets) = [7, 8, 9]"
proof -
  have "bits_isfinite 0" by (simp add: bits_isfinite_def bits_exponent_def)
  then have "\<exists>packets. packetize 2 1 5 0 [7, 8, 9] = Inr packets"
    by (simp add: packetize_Inr validate_identity_def)
  then show ?thesis using packetize_reassembles [of 2 1 5 0 "[7, 8, 9]"] by blast
qed

end
