(* ===== verification/Spatial_Math.thy ===== *)
theory Spatial_Math
  imports Binary64
begin

section \<open>Spatial vectors and elementary functions\<close>

text \<open>
  What the numerical components share of Eigen's fixed-size vectors and matrices, with the evaluation order
  of the expressions the code writes, and of \<open>cmath\<close>.  Transcendental functions are those of the reals, with
  their special values; \<open>std::numbers::pi\<close> is the double it names.
\<close>

subsection \<open>Vectors and matrices\<close>

type_synonym vec3 = "double \<times> double \<times> double"
type_synonym mat3 = "vec3 \<times> vec3 \<times> vec3"

fun v3 :: "vec3 \<Rightarrow> vec" where "v3 (x, y, z) = [x, y, z]"

fun m3 :: "mat3 \<Rightarrow> vec" where "m3 (r0, r1, r2) = v3 r0 @ v3 r1 @ v3 r2"

definition zero3 :: vec3 where "zero3 = (0, 0, 0)"
definition identity3 :: mat3 where "identity3 = ((1, 0, 0), (0, 1, 0), (0, 0, 1))"

fun dot3 :: "vec3 \<Rightarrow> vec3 \<Rightarrow> double" where
  "dot3 (a, b, c) (x, y, z) = a * x + b * y + c * z"

fun transpose3 :: "mat3 \<Rightarrow> mat3" where
  "transpose3 ((a, b, c), (d, e, f), (g, h, i)) = ((a, d, g), (b, e, h), (c, f, i))"

fun times3 :: "mat3 \<Rightarrow> mat3 \<Rightarrow> mat3" where
  "times3 (r0, r1, r2) m = (case transpose3 m of (c0, c1, c2) \<Rightarrow>
     ((dot3 r0 c0, dot3 r0 c1, dot3 r0 c2), (dot3 r1 c0, dot3 r1 c1, dot3 r1 c2),
      (dot3 r2 c0, dot3 r2 c1, dot3 r2 c2)))"

fun minus3 :: "mat3 \<Rightarrow> mat3 \<Rightarrow> mat3" where
  "minus3 ((a, b, c), (d, e, f), (g, h, i)) ((a', b', c'), (d', e', f'), (g', h', i')) =
     ((a - a', b - b', c - c'), (d - d', e - e', f - f'), (g - g', h - h', i - i'))"

fun determinant3 :: "mat3 \<Rightarrow> double" where
  "determinant3 ((a, b, c), (d, e, f), (g, h, i)) =
     a * (e * i - f * h) - b * (d * i - f * g) + c * (d * h - e * g)"

fun trace3 :: "mat3 \<Rightarrow> double" where
  "trace3 ((a, _, _), (_, e, _), (_, _, i)) = a + e + i"

subsection \<open>Arithmetic of 3-vectors\<close>

fun add3 :: "vec3 \<Rightarrow> vec3 \<Rightarrow> vec3" where
  "add3 (a, b, c) (x, y, z) = (a + x, b + y, c + z)"

fun sub3 :: "vec3 \<Rightarrow> vec3 \<Rightarrow> vec3" where
  "sub3 (a, b, c) (x, y, z) = (a - x, b - y, c - z)"

fun neg3 :: "vec3 \<Rightarrow> vec3" where
  "neg3 (a, b, c) = (- a, - b, - c)"

fun scale3 :: "double \<Rightarrow> vec3 \<Rightarrow> vec3" where
  "scale3 k (a, b, c) = (k * a, k * b, k * c)"

fun cwise_product3 :: "vec3 \<Rightarrow> vec3 \<Rightarrow> vec3" where
  "cwise_product3 (a, b, c) (x, y, z) = (a * x, b * y, c * z)"

fun cross3 :: "vec3 \<Rightarrow> vec3 \<Rightarrow> vec3" where
  "cross3 (a, b, c) (x, y, z) = (b * z - c * y, c * x - a * z, a * y - b * x)"

fun rotate3 :: "mat3 \<Rightarrow> vec3 \<Rightarrow> vec3" where
  "rotate3 (r0, r1, r2) v = (dot3 r0 v, dot3 r1 v, dot3 r2 v)"

fun component3 :: "nat \<Rightarrow> vec3 \<Rightarrow> double" where
  "component3 k (a, b, c) = (if k = 0 then a else if k = 1 then b else c)"

definition axis_vector :: "nat \<Rightarrow> double \<Rightarrow> vec3" where
  "axis_vector k f = (if k = 0 then f else 0, if k = 1 then f else 0, if k = 2 then f else 0)"

definition vec3_of :: "vec \<Rightarrow> vec3" where
  "vec3_of xs = (xs ! 0, xs ! 1, xs ! 2)"

subsection \<open>Elementary functions\<close>

definition double_epsilon :: double where
  "double_epsilon = Fin (1 / 2 ^ 52)"

definition numbers_pi :: double where
  "numbers_pi = Fin (884279719003555 / 281474976710656)"

fun std_sin :: "double \<Rightarrow> double" where
  "std_sin (Fin x) = Fin (sin x)"
| "std_sin _ = NaN"

fun std_cos :: "double \<Rightarrow> double" where
  "std_cos (Fin x) = Fin (cos x)"
| "std_cos _ = NaN"

definition real_atan2 :: "real \<Rightarrow> real \<Rightarrow> real" where
  "real_atan2 y x =
     (if 0 < x then arctan (y / x)
      else if x < 0 then (if 0 \<le> y then arctan (y / x) + pi else arctan (y / x) - pi)
      else if 0 < y then pi / 2 else if y < 0 then - pi / 2 else 0)"

fun std_atan2 :: "double \<Rightarrow> double \<Rightarrow> double" where
  "std_atan2 (Fin y) (Fin x) = Fin (real_atan2 y x)"
| "std_atan2 (Fin y) PosInf = Fin 0"
| "std_atan2 (Fin y) NegInf = Fin (if 0 \<le> y then pi else - pi)"
| "std_atan2 PosInf (Fin x) = Fin (pi / 2)"
| "std_atan2 NegInf (Fin x) = Fin (- pi / 2)"
| "std_atan2 PosInf PosInf = Fin (pi / 4)"
| "std_atan2 PosInf NegInf = Fin (3 * pi / 4)"
| "std_atan2 NegInf PosInf = Fin (- pi / 4)"
| "std_atan2 NegInf NegInf = Fin (- 3 * pi / 4)"
| "std_atan2 _ _ = NaN"

fun std_exp :: "double \<Rightarrow> double" where
  "std_exp (Fin x) = Fin (exp x)"
| "std_exp PosInf = PosInf"
| "std_exp NegInf = Fin 0"
| "std_exp NaN = NaN"

fun std_log :: "double \<Rightarrow> double" where
  "std_log (Fin x) = (if x < 0 then NaN else if x = 0 then NegInf else Fin (ln x))"
| "std_log PosInf = PosInf"
| "std_log _ = NaN"

fun std_acos :: "double \<Rightarrow> double" where
  "std_acos (Fin x) = (if -1 \<le> x \<and> x \<le> 1 then Fin (arccos x) else NaN)"
| "std_acos _ = NaN"

fun std_asin :: "double \<Rightarrow> double" where
  "std_asin (Fin x) = (if -1 \<le> x \<and> x \<le> 1 then Fin (arcsin x) else NaN)"
| "std_asin _ = NaN"

fun std_atan :: "double \<Rightarrow> double" where
  "std_atan (Fin x) = Fin (arctan x)"
| "std_atan PosInf = Fin (pi / 2)"
| "std_atan NegInf = Fin (- pi / 2)"
| "std_atan NaN = NaN"

text \<open>\<open>std::pow\<close> with the exponent 1.5\<close>

fun pow_three_halves :: "double \<Rightarrow> double" where
  "pow_three_halves (Fin x) = (if x < 0 then NaN else Fin (x * sqrt x))"
| "pow_three_halves NaN = NaN"
| "pow_three_halves _ = PosInf"

text \<open>No double is a pole of the tangent.\<close>

fun std_tan :: "double \<Rightarrow> double" where
  "std_tan (Fin x) = Fin (tan x)"
| "std_tan _ = NaN"

fun std_hypot :: "double \<Rightarrow> double \<Rightarrow> double" where
  "std_hypot (Fin x) (Fin y) = Fin (sqrt (x * x + y * y))"
| "std_hypot PosInf _ = PosInf"
| "std_hypot NegInf _ = PosInf"
| "std_hypot _ PosInf = PosInf"
| "std_hypot _ NegInf = PosInf"
| "std_hypot _ _ = NaN"

definition std_copysign :: "double \<Rightarrow> double \<Rightarrow> double" where
  "std_copysign m s = (if signbit s then - \<bar>m\<bar> else \<bar>m\<bar>)"

lemma numbers_pi_pos: "\<exists>p. numbers_pi = Fin p \<and> 0 < p"
  unfolding numbers_pi_def by (intro exI conjI, rule refl) simp

subsection \<open>Shared lemmas\<close>

lemma NaN_arithmetic [simp]:
  "NaN + d = NaN" "d + NaN = NaN" "NaN - d = NaN" "d - NaN = NaN" "NaN * d = NaN" "d * NaN = NaN"
  "NaN / d = NaN" "d / NaN = NaN" "- NaN = NaN" "\<bar>NaN\<bar> = NaN"
  by (cases d; simp add: double_op_defs)+

lemma add3_assoc: "add3 (add3 a b) c = add3 a (add3 b c)"
  by (cases a; cases b; cases c) (simp add: add.assoc)

lemma double_add_0_left [simp]: "Fin 0 + d = d" for d
  by (cases d) (simp_all add: plus_double_def)

lemma add3_zero_left [simp]: "add3 zero3 a = a"
  by (cases a) (simp add: zero3_def)

lemma finite3_cases:
  assumes "all_finite (v3 v)"
  obtains x y z where "v = (Fin x, Fin y, Fin z)"
proof -
  obtain a b c where v: "v = (a, b, c)" by (cases v)
  with assms show thesis by (cases a; cases b; cases c) (auto intro: that)
qed

lemma orthogonal_rotate_back:
  assumes "times3 r (transpose3 r) = identity3" and "all_finite (m3 r)" and "all_finite (v3 v)"
  shows "rotate3 r (rotate3 (transpose3 r) v) = v"
proof -
  obtain r0 r1 r2 where r: "r = (r0, r1, r2)" by (cases r)
  obtain a b c where r0: "r0 = (Fin a, Fin b, Fin c)" using assms(2) r by (auto elim: finite3_cases)
  obtain d e f where r1: "r1 = (Fin d, Fin e, Fin f)" using assms(2) r by (auto elim: finite3_cases)
  obtain g h i where r2: "r2 = (Fin g, Fin h, Fin i)" using assms(2) r by (auto elim: finite3_cases)
  obtain x y z where v: "v = (Fin x, Fin y, Fin z)" using assms(3) by (rule finite3_cases)
  have o: "a * a + b * b + c * c = 1" "d * d + e * e + f * f = 1" "g * g + h * h + i * i = 1"
    "a * d + b * e + c * f = 0" "a * g + b * h + c * i = 0" "d * g + e * h + f * i = 0"
    using assms(1) by (simp_all add: r r0 r1 r2 identity3_def)
  have x: "a * (a * x + d * y + g * z) + b * (b * x + e * y + h * z) + c * (c * x + f * y + i * z) = x"
  proof -
    have "a * (a * x + d * y + g * z) + b * (b * x + e * y + h * z) + c * (c * x + f * y + i * z) =
      (a * a + b * b + c * c) * x + (a * d + b * e + c * f) * y + (a * g + b * h + c * i) * z" by algebra
    then show ?thesis by (simp add: o)
  qed
  have y: "d * (a * x + d * y + g * z) + e * (b * x + e * y + h * z) + f * (c * x + f * y + i * z) = y"
  proof -
    have "d * (a * x + d * y + g * z) + e * (b * x + e * y + h * z) + f * (c * x + f * y + i * z) =
      (a * d + b * e + c * f) * x + (d * d + e * e + f * f) * y + (d * g + e * h + f * i) * z" by algebra
    then show ?thesis by (simp add: o)
  qed
  have z: "g * (a * x + d * y + g * z) + h * (b * x + e * y + h * z) + i * (c * x + f * y + i * z) = z"
  proof -
    have "g * (a * x + d * y + g * z) + h * (b * x + e * y + h * z) + i * (c * x + f * y + i * z) =
      (a * g + b * h + c * i) * x + (d * g + e * h + f * i) * y + (g * g + h * h + i * i) * z" by algebra
    then show ?thesis by (simp add: o)
  qed
  from x y z show ?thesis by (simp add: r r0 r1 r2 v)
qed


end
