(* ===== verification/Multibody_State.thy ===== *)
theory Multibody_State
  imports Spatial_Math
begin

section \<open>multibody_runtime: versions, layout and the state instance\<close>

text \<open>
  Models \<open>libs/multibody_runtime\<close>: the revision counter \<open>MultibodyStateVersion\<close>, the
  validated \<open>MultibodyStateLayout\<close>, the physical-parameter validation and
  \<open>MultibodyStateInstance\<close>, the single owner of q, v and the context-mutable parameters.
  Every setter is an effect on the instance; the locale \<open>state_write\<close> says what a setter
  promises the caches (which versions it bumps, and that it leaves the rest alone), and each of
  the nine setters is an interpretation of it.  Eigen's eigenvalue solver is a parameter.
\<close>

subsection \<open>Versions\<close>

datatype state_version = StateVersion (revision_number: u64)

definition initial_version :: state_version where
  "initial_version = StateVersion 0"

definition next_version :: "state_version \<Rightarrow> state_version outcome" where
  "next_version v =
     (if revision_number v = - 1 then Inl OverflowError
      else Inr (StateVersion (revision_number v + 1)))"

definition revision :: "state_version \<Rightarrow> nat" where
  "revision v = unat (revision_number v)"

lemma revision_inject: "revision a = revision b \<longleftrightarrow> a = b"
  by (cases a; cases b) (simp add: revision_def word_unat_eq_iff)

lemma revision_exhausted: "revision v = 2 ^ 64 - 1 \<longleftrightarrow> revision_number v = - 1"
proof -
  have "unat (- 1 :: u64) = 2 ^ 64 - 1"
    by (simp add: unsigned_minus_1_eq_mask mask_eq_exp_minus_1)
  then show ?thesis by (simp only: revision_def word_unat_eq_iff)
qed

lemma revision_bound: "revision v \<le> 2 ^ 64 - 1"
  using unsigned_less [of "revision_number v", where 'a = nat] by (simp add: revision_def)

lemma next_version_revision: "next_version v = Inr w \<Longrightarrow> revision w = Suc (revision v)"
proof -
  assume n: "next_version v = Inr w"
  then have "revision v \<noteq> 2 ^ 64 - 1" and w: "w = StateVersion (revision_number v + 1)"
    unfolding revision_exhausted by (auto simp: next_version_def split: if_splits)
  then have "revision v < 2 ^ 64 - 1"
    using revision_bound [of v] by simp
  then show ?thesis
    by (simp add: w revision_def unat_word_ariths)
qed

lemma next_version_exhausted: "next_version v = Inl e \<longleftrightarrow> revision v = 2 ^ 64 - 1 \<and> e = OverflowError"
  unfolding revision_exhausted by (auto simp: next_version_def)

subsection \<open>Layout\<close>

record layout_description =
  ld_generalized_position_count :: int
  ld_generalized_velocity_count :: int
  ld_rigid_body_count :: int
  ld_fixed_frame_count :: int
  ld_joint_velocity_counts :: "int list"
  ld_joint_actuator_count :: int
  ld_revolute_spring_count :: int
  ld_linear_bushing_count :: int

record state_layout =
  sl_description :: layout_description
  sl_joint_damping_starts :: "int list"
  sl_total_joint_damping_count :: int

definition layout_require_nonnegative :: "int \<Rightarrow> unit outcome" where
  "layout_require_nonnegative value = reject_if (value < 0) InvalidArgument"

text \<open>The loop over the damped joints: the starts so far and the running total.\<close>

fun joint_damping_loop :: "int list \<Rightarrow> int list \<times> int \<Rightarrow> (int list \<times> int) outcome" where
  "joint_damping_loop [] (starts, sofar) = Inr (starts, sofar)"
| "joint_damping_loop (count # counts) (starts, sofar) =
     (if count < 0 then Inl InvalidArgument
      else joint_damping_loop counts (starts @ [sofar], sofar + count))"

definition make_layout :: "layout_description \<Rightarrow> state_layout outcome" where
  "make_layout d =
     bindS (all_checks (map layout_require_nonnegative
       [ld_generalized_position_count d, ld_generalized_velocity_count d, ld_rigid_body_count d,
        ld_fixed_frame_count d, ld_joint_actuator_count d, ld_revolute_spring_count d,
        ld_linear_bushing_count d])) (\<lambda>_.
     bindS (joint_damping_loop (ld_joint_velocity_counts d) ([], 0)) (\<lambda>(starts, sofar).
       Inr \<lparr>sl_description = d, sl_joint_damping_starts = starts, sl_total_joint_damping_count = sofar\<rparr>))"

definition damped_joint_count :: "state_layout \<Rightarrow> int" where
  "damped_joint_count l = int (length (ld_joint_velocity_counts (sl_description l)))"

definition joint_velocity_count :: "state_layout \<Rightarrow> int \<Rightarrow> int outcome" where
  "joint_velocity_count l joint =
     (if joint < 0 \<or> damped_joint_count l \<le> joint then Inl InvalidArgument
      else Inr (ld_joint_velocity_counts (sl_description l) ! nat joint))"

definition joint_damping_start :: "state_layout \<Rightarrow> int \<Rightarrow> int outcome" where
  "joint_damping_start l joint =
     (if joint < 0 \<or> damped_joint_count l \<le> joint then Inl InvalidArgument
      else Inr (sl_joint_damping_starts l ! nat joint))"

lemma joint_damping_loop_Inr:
  "joint_damping_loop counts (starts, sofar) = Inr (starts', sofar') \<Longrightarrow>
   list_all (\<lambda>c. 0 \<le> c) counts \<and> sofar' = sofar + sum_list counts \<and>
   starts' = starts @ map (\<lambda>i. sofar + sum_list (take i counts)) [0..<length counts]"
proof (induction counts arbitrary: starts sofar)
  case Nil
  then show ?case by simp
next
  case (Cons c counts)
  then have c: "0 \<le> c" and rest: "joint_damping_loop counts (starts @ [sofar], sofar + c) = Inr (starts', sofar')"
    by (auto split: if_splits)
  have "map (\<lambda>i. sofar + sum_list (take i (c # counts))) [0..<Suc (length counts)] =
      sofar # map (\<lambda>i. sofar + c + sum_list (take i counts)) [0..<length counts]"
    by (simp add: upt_conv_Cons map_Suc_upt [symmetric] comp_def add.assoc del: upt_Suc)
  with Cons.IH [OF rest] c show ?case by simp
qed

lemma joint_damping_loop_total: "list_all (\<lambda>c. 0 \<le> c) counts \<Longrightarrow> \<exists>r. joint_damping_loop counts a = Inr r"
  by (induction counts arbitrary: a) auto

definition layout_wf :: "state_layout \<Rightarrow> bool" where
  "layout_wf l \<longleftrightarrow> make_layout (sl_description l) = Inr l"

lemma make_layout_wf: "make_layout d = Inr l \<Longrightarrow> layout_wf l"
proof -
  assume m: "make_layout d = Inr l"
  then have "sl_description l = d"
    by (auto simp: make_layout_def bindS_eq_Inr)
  with m show ?thesis by (simp add: layout_wf_def)
qed

lemma layout_wf_counts:
  assumes "layout_wf l"
  shows "0 \<le> ld_generalized_position_count (sl_description l)"
    and "0 \<le> ld_generalized_velocity_count (sl_description l)"
    and "list_all (\<lambda>c. 0 \<le> c) (ld_joint_velocity_counts (sl_description l))"
    and "sl_total_joint_damping_count l = sum_list (ld_joint_velocity_counts (sl_description l))"
    and "sl_joint_damping_starts l =
      map (\<lambda>i. sum_list (take i (ld_joint_velocity_counts (sl_description l))))
        [0..<length (ld_joint_velocity_counts (sl_description l))]"
proof -
  let ?d = "sl_description l"
  from assms obtain starts sofar where
    chk: "all_checks (map layout_require_nonnegative
       [ld_generalized_position_count ?d, ld_generalized_velocity_count ?d, ld_rigid_body_count ?d,
        ld_fixed_frame_count ?d, ld_joint_actuator_count ?d, ld_revolute_spring_count ?d,
        ld_linear_bushing_count ?d]) = Inr ()" and
    loop: "joint_damping_loop (ld_joint_velocity_counts ?d) ([], 0) = Inr (starts, sofar)" and
    l: "l = \<lparr>sl_description = ?d, sl_joint_damping_starts = starts, sl_total_joint_damping_count = sofar\<rparr>"
    by (auto simp: layout_wf_def make_layout_def bindS_eq_Inr)
  show "0 \<le> ld_generalized_position_count ?d" "0 \<le> ld_generalized_velocity_count ?d"
    using chk by (auto simp: all_checks_Inr layout_require_nonnegative_def)
  from joint_damping_loop_Inr [OF loop]
  show "list_all (\<lambda>c. 0 \<le> c) (ld_joint_velocity_counts ?d)"
    and "sl_total_joint_damping_count l = sum_list (ld_joint_velocity_counts ?d)"
    and "sl_joint_damping_starts l =
      map (\<lambda>i. sum_list (take i (ld_joint_velocity_counts ?d))) [0..<length (ld_joint_velocity_counts ?d)]"
    by (subst l; simp)+
qed

subsection \<open>Physical parameters\<close>

record inertia_parameters =
  mass_kilograms :: double
  center_of_mass_in_body_frame :: vec3
  unit_inertia_moments :: vec3
  unit_inertia_products :: vec3

record frame_pose_parameters =
  R_PF :: mat3
  p_PoFo_P :: vec3

record actuator_parameters =
  rotor_inertia :: double
  gear_ratio :: double

record spring_parameters =
  stiffness :: double
  nominal_angle_radians :: double

record bushing_parameters =
  torque_stiffness :: vec3
  torque_damping :: vec3
  force_stiffness :: vec3
  force_damping :: vec3

definition default_inertia :: inertia_parameters where
  "default_inertia = \<lparr>mass_kilograms = 0, center_of_mass_in_body_frame = zero3,
     unit_inertia_moments = zero3, unit_inertia_products = zero3\<rparr>"

definition default_pose :: frame_pose_parameters where
  "default_pose = \<lparr>R_PF = identity3, p_PoFo_P = zero3\<rparr>"

definition default_actuator :: actuator_parameters where
  "default_actuator = \<lparr>rotor_inertia = 0, gear_ratio = 1\<rparr>"

definition default_spring :: spring_parameters where
  "default_spring = \<lparr>stiffness = 0, nominal_angle_radians = 0\<rparr>"

definition default_bushing :: bushing_parameters where
  "default_bushing = \<lparr>torque_stiffness = zero3, torque_damping = zero3,
     force_stiffness = zero3, force_damping = zero3\<rparr>"

subsection \<open>Parameter validation\<close>

text \<open>\<open>multibody_physical_parameter_validation.cc\<close>\<close>

definition require_finite :: "double \<Rightarrow> unit outcome" where
  "require_finite value = reject_if (\<not> isfinite value) InvalidArgument"

definition require_finite3 :: "vec3 \<Rightarrow> unit outcome" where
  "require_finite3 values = all_checks (map require_finite (v3 values))"

definition require_nonnegative :: "double \<Rightarrow> unit outcome" where
  "require_nonnegative value = all_checks [require_finite value, reject_if (value < 0) InvalidArgument]"

definition require_nonnegative3 :: "vec3 \<Rightarrow> unit outcome" where
  "require_nonnegative3 values = all_checks (map require_nonnegative (v3 values))"

definition max_coefficient :: "vec \<Rightarrow> double" where
  "max_coefficient xs = fold std_max (tl xs) (hd xs)"

definition kRotationOrthonormalityTolerance :: double where
  "kRotationOrthonormalityTolerance = 128 * double_epsilon"

definition require_rotation :: "mat3 \<Rightarrow> unit outcome" where
  "require_rotation rotation =
     bindS (all_checks (map require_finite (m3 rotation))) (\<lambda>_.
       let deviation = minus3 (times3 rotation (transpose3 rotation)) identity3;
           orthonormality_error = max_coefficient (map abs (m3 deviation))
       in all_checks
            [reject_if (kRotationOrthonormalityTolerance < orthonormality_error) InvalidArgument,
             reject_if (determinant3 rotation \<le> 0) InvalidArgument])"

definition throw_if_not_a_valid_fixed_frame_pose :: "frame_pose_parameters \<Rightarrow> unit outcome" where
  "throw_if_not_a_valid_fixed_frame_pose pose =
     all_checks [require_rotation (R_PF pose), require_finite3 (p_PoFo_P pose)]"

fun symmetric3 :: "vec3 \<Rightarrow> vec3 \<Rightarrow> mat3" where
  "symmetric3 (m0, m1, m2) (p0, p1, p2) = ((m0, p0, p1), (p0, m1, p2), (p1, p2, m2))"

text \<open>\<open>c.squaredNorm() * I - c * c^T\<close>\<close>

fun point_mass_inertia :: "vec3 \<Rightarrow> mat3" where
  "point_mass_inertia (x, y, z) =
     (let n = dot3 (x, y, z) (x, y, z) in
      minus3 ((n, 0, 0), (0, n, 0), (0, 0, n))
             ((x * x, x * y, x * z), (y * x, y * y, y * z), (z * x, z * y, z * z)))"

definition central_inertia :: "inertia_parameters \<Rightarrow> mat3" where
  "central_inertia p =
     minus3 (symmetric3 (unit_inertia_moments p) (unit_inertia_products p))
            (point_mass_inertia (center_of_mass_in_body_frame p))"

text \<open>
  \<open>solver\<close> stands for \<open>Eigen::SelfAdjointEigenSolver\<close> in eigenvalues-only mode: the
  eigenvalues in increasing order, or \<open>None\<close> when it reports no success.
\<close>

definition throw_if_not_realisable_inertia ::
  "(mat3 \<Rightarrow> vec3 option) \<Rightarrow> inertia_parameters \<Rightarrow> unit outcome" where
  "throw_if_not_realisable_inertia solver p =
     bindS (all_checks
       [require_nonnegative (mass_kilograms p),
        require_finite3 (center_of_mass_in_body_frame p),
        require_finite3 (unit_inertia_moments p),
        require_finite3 (unit_inertia_products p),
        reject_if (\<not> all_finite (m3 (central_inertia p))) InvalidArgument]) (\<lambda>_.
     case solver (central_inertia p) of
       None \<Rightarrow> Inl InvalidArgument
     | Some (l0, l1, l2) \<Rightarrow>
         let scale = std_max 1 (half * abs (trace3 (central_inertia p)));
             tolerance = 16 * double_epsilon * scale
         in reject_if (l0 < - tolerance \<or> l0 + l1 + tolerance < l2) InvalidArgument)"

lemma require_finite_Inr [simp]: "require_finite x = Inr u \<longleftrightarrow> isfinite x"
  by (simp add: require_finite_def)

lemma require_nonnegative_Inr [simp]: "require_nonnegative x = Inr u \<longleftrightarrow> isfinite x \<and> \<not> x < 0"
  by (simp add: require_nonnegative_def)

lemma valid_pose_finite:
  "throw_if_not_a_valid_fixed_frame_pose pose = Inr () \<Longrightarrow>
   all_finite (m3 (R_PF pose)) \<and> all_finite (v3 (p_PoFo_P pose))"
  by (auto simp: throw_if_not_a_valid_fixed_frame_pose_def require_rotation_def require_finite3_def
      bindS_eq_Inr all_checks_Inr all_finite_iff)

lemma valid_pose_determinant:
  "throw_if_not_a_valid_fixed_frame_pose pose = Inr () \<Longrightarrow> \<not> determinant3 (R_PF pose) \<le> 0"
  by (auto simp: throw_if_not_a_valid_fixed_frame_pose_def require_rotation_def bindS_eq_Inr Let_def)

subsection \<open>The state instance\<close>

text \<open>\<open>ms_layout\<close> is the layout object the instance is bound to for life.\<close>

record mstate =
  ms_layout :: state_layout
  ms_positions :: vec
  ms_velocities :: vec
  ms_inertias :: "inertia_parameters list"
  ms_poses :: "frame_pose_parameters list"
  ms_damping :: vec
  ms_actuators :: "actuator_parameters list"
  ms_springs :: "spring_parameters list"
  ms_bushings :: "bushing_parameters list"
  ms_positions_version :: state_version
  ms_velocities_version :: state_version
  ms_poses_version :: state_version
  ms_inertias_version :: state_version
  ms_actuators_version :: state_version

abbreviation nq_of :: "mstate \<Rightarrow> nat" where
  "nq_of s \<equiv> nat (ld_generalized_position_count (sl_description (ms_layout s)))"

abbreviation nv_of :: "mstate \<Rightarrow> nat" where
  "nv_of s \<equiv> nat (ld_generalized_velocity_count (sl_description (ms_layout s)))"

definition make_mstate :: "state_layout \<Rightarrow> mstate" where
  "make_mstate l = (let d = sl_description l in
     \<lparr>ms_layout = l,
      ms_positions = replicate (nat (ld_generalized_position_count d)) 0,
      ms_velocities = replicate (nat (ld_generalized_velocity_count d)) 0,
      ms_inertias = replicate (nat (ld_rigid_body_count d)) default_inertia,
      ms_poses = replicate (nat (ld_fixed_frame_count d)) default_pose,
      ms_damping = replicate (nat (sl_total_joint_damping_count l)) 0,
      ms_actuators = replicate (nat (ld_joint_actuator_count d)) default_actuator,
      ms_springs = replicate (nat (ld_revolute_spring_count d)) default_spring,
      ms_bushings = replicate (nat (ld_linear_bushing_count d)) default_bushing,
      ms_positions_version = initial_version, ms_velocities_version = initial_version,
      ms_poses_version = initial_version, ms_inertias_version = initial_version,
      ms_actuators_version = initial_version\<rparr>)"

text \<open>
  A vector argument is an \<open>Eigen::Ref\<close>: it may view storage of the caller or a block of
  the instance's own q or v, which the write is about to change.
\<close>

datatype vec_ref = External vec | PositionsBlock nat nat | VelocitiesBlock nat nat

fun ref_value :: "mstate \<Rightarrow> vec_ref \<Rightarrow> vec" where
  "ref_value s (External xs) = xs"
| "ref_value s (PositionsBlock k n) = segment k n (ms_positions s)"
| "ref_value s (VelocitiesBlock k n) = segment k n (ms_velocities s)"

text \<open>\<open>OverlapsStorage(values, generalized_positions_)\<close>: both non-empty and sharing memory.\<close>

fun overlaps_positions :: "mstate \<Rightarrow> vec_ref \<Rightarrow> bool" where
  "overlaps_positions s (PositionsBlock k n) \<longleftrightarrow> segment k n (ms_positions s) \<noteq> []"
| "overlaps_positions s _ = False"

definition require_size :: "(mstate \<Rightarrow> vec) \<Rightarrow> (mstate \<Rightarrow> int) \<Rightarrow> (mstate, unit) effect" where
  "require_size actual expected =
     rejectE (\<lambda>s. int (length (actual s)) \<noteq> expected s) InvalidArgument"

definition require_all_finite :: "(mstate \<Rightarrow> vec) \<Rightarrow> (mstate, unit) effect" where
  "require_all_finite values = rejectE (\<lambda>s. \<not> all_finite (values s)) InvalidArgument"

definition require_index :: "int \<Rightarrow> (mstate \<Rightarrow> int) \<Rightarrow> (mstate, unit) effect" where
  "require_index index count = rejectE (\<lambda>s. index < 0 \<or> count s \<le> index) InvalidArgument"

definition position_count :: "mstate \<Rightarrow> int" where
  "position_count s = ld_generalized_position_count (sl_description (ms_layout s))"

definition velocity_count :: "mstate \<Rightarrow> int" where
  "velocity_count s = ld_generalized_velocity_count (sl_description (ms_layout s))"

text \<open>Each store is its own statement, so an intermediate state exists between them.\<close>

definition set_generalized_positions :: "vec_ref \<Rightarrow> (mstate, unit) effect" where
  "set_generalized_positions positions =
     seqE (require_size (\<lambda>s. ref_value s positions) position_count) (
     seqE (require_all_finite (\<lambda>s. ref_value s positions)) (
     bindE (callE (\<lambda>s. next_version (ms_positions_version s))) (\<lambda>next.
     seqE (modifyE (\<lambda>s. s\<lparr>ms_positions := ref_value s positions\<rparr>)) (
     modifyE (\<lambda>s. s\<lparr>ms_positions_version := next\<rparr>)))))"

definition set_generalized_velocities :: "vec_ref \<Rightarrow> (mstate, unit) effect" where
  "set_generalized_velocities velocities =
     seqE (require_size (\<lambda>s. ref_value s velocities) velocity_count) (
     seqE (require_all_finite (\<lambda>s. ref_value s velocities)) (
     bindE (callE (\<lambda>s. next_version (ms_velocities_version s))) (\<lambda>next.
     seqE (modifyE (\<lambda>s. s\<lparr>ms_velocities := ref_value s velocities\<rparr>)) (
     modifyE (\<lambda>s. s\<lparr>ms_velocities_version := next\<rparr>)))))"

definition set_generalized_state :: "vec_ref \<Rightarrow> vec_ref \<Rightarrow> (mstate, unit) effect" where
  "set_generalized_state positions velocities =
     seqE (require_size (\<lambda>s. ref_value s positions) position_count) (
     seqE (require_size (\<lambda>s. ref_value s velocities) velocity_count) (
     seqE (require_all_finite (\<lambda>s. ref_value s positions)) (
     seqE (require_all_finite (\<lambda>s. ref_value s velocities)) (
     bindE (callE (\<lambda>s. next_version (ms_positions_version s))) (\<lambda>next_positions.
     bindE (callE (\<lambda>s. next_version (ms_velocities_version s))) (\<lambda>next_velocities.
     bindE (readE (\<lambda>s. overlaps_positions s velocities)) (\<lambda>overlaps.
     seqE
       (if overlaps then
          bindE (readE (\<lambda>s. ref_value s velocities)) (\<lambda>velocities_at_entry.
          seqE (modifyE (\<lambda>s. s\<lparr>ms_positions := ref_value s positions\<rparr>))
               (modifyE (\<lambda>s. s\<lparr>ms_velocities := velocities_at_entry\<rparr>)))
        else
          seqE (modifyE (\<lambda>s. s\<lparr>ms_positions := ref_value s positions\<rparr>))
               (modifyE (\<lambda>s. s\<lparr>ms_velocities := ref_value s velocities\<rparr>))) (
     seqE (modifyE (\<lambda>s. s\<lparr>ms_positions_version := next_positions\<rparr>))
          (modifyE (\<lambda>s. s\<lparr>ms_velocities_version := next_velocities\<rparr>))))))))))"

definition rigid_body_inertia_parameters :: "int \<Rightarrow> mstate \<Rightarrow> inertia_parameters outcome" where
  "rigid_body_inertia_parameters i s =
     (if i < 0 \<or> ld_rigid_body_count (sl_description (ms_layout s)) \<le> i then Inl InvalidArgument
      else Inr (ms_inertias s ! nat i))"

definition set_rigid_body_inertia_parameters ::
  "(mat3 \<Rightarrow> vec3 option) \<Rightarrow> int \<Rightarrow> inertia_parameters \<Rightarrow> (mstate, unit) effect" where
  "set_rigid_body_inertia_parameters solver i parameters =
     seqE (require_index i (\<lambda>s. ld_rigid_body_count (sl_description (ms_layout s)))) (
     seqE (callE (\<lambda>_. throw_if_not_realisable_inertia solver parameters)) (
     bindE (callE (\<lambda>s. next_version (ms_inertias_version s))) (\<lambda>next.
     seqE (modifyE (\<lambda>s. s\<lparr>ms_inertias := (ms_inertias s)[nat i := parameters]\<rparr>)) (
     modifyE (\<lambda>s. s\<lparr>ms_inertias_version := next\<rparr>)))))"

definition fixed_frame_pose_parameters :: "int \<Rightarrow> mstate \<Rightarrow> frame_pose_parameters outcome" where
  "fixed_frame_pose_parameters i s =
     (if i < 0 \<or> ld_fixed_frame_count (sl_description (ms_layout s)) \<le> i then Inl InvalidArgument
      else Inr (ms_poses s ! nat i))"

definition set_fixed_frame_pose_parameters :: "int \<Rightarrow> frame_pose_parameters \<Rightarrow> (mstate, unit) effect" where
  "set_fixed_frame_pose_parameters i parameters =
     seqE (require_index i (\<lambda>s. ld_fixed_frame_count (sl_description (ms_layout s)))) (
     seqE (callE (\<lambda>_. throw_if_not_a_valid_fixed_frame_pose parameters)) (
     bindE (callE (\<lambda>s. next_version (ms_poses_version s))) (\<lambda>next.
     seqE (modifyE (\<lambda>s. s\<lparr>ms_poses := (ms_poses s)[nat i := parameters]\<rparr>)) (
     modifyE (\<lambda>s. s\<lparr>ms_poses_version := next\<rparr>)))))"

definition joint_damping :: "int \<Rightarrow> mstate \<Rightarrow> vec outcome" where
  "joint_damping joint s =
     bindS (joint_velocity_count (ms_layout s) joint) (\<lambda>count.
     bindS (joint_damping_start (ms_layout s) joint) (\<lambda>start.
       Inr (segment (nat start) (nat count) (ms_damping s))))"

definition set_joint_damping :: "int \<Rightarrow> vec \<Rightarrow> (mstate, unit) effect" where
  "set_joint_damping joint damping =
     bindE (callE (\<lambda>s. joint_velocity_count (ms_layout s) joint)) (\<lambda>count.
     seqE (require_size (\<lambda>_. damping) (\<lambda>_. count)) (
     seqE (callE (\<lambda>_. all_checks (map require_nonnegative damping))) (
     bindE (callE (\<lambda>s. joint_damping_start (ms_layout s) joint)) (\<lambda>start.
       modifyE (\<lambda>s. s\<lparr>ms_damping := put_segment (nat start) damping (ms_damping s)\<rparr>)))))"

definition joint_actuator_parameters :: "int \<Rightarrow> mstate \<Rightarrow> actuator_parameters outcome" where
  "joint_actuator_parameters i s =
     (if i < 0 \<or> ld_joint_actuator_count (sl_description (ms_layout s)) \<le> i then Inl InvalidArgument
      else Inr (ms_actuators s ! nat i))"

definition set_joint_actuator_parameters :: "int \<Rightarrow> actuator_parameters \<Rightarrow> (mstate, unit) effect" where
  "set_joint_actuator_parameters i parameters =
     seqE (require_index i (\<lambda>s. ld_joint_actuator_count (sl_description (ms_layout s)))) (
     seqE (callE (\<lambda>_. require_nonnegative (rotor_inertia parameters))) (
     seqE (callE (\<lambda>_. require_finite (gear_ratio parameters))) (
     bindE (callE (\<lambda>s. next_version (ms_actuators_version s))) (\<lambda>next.
     seqE (modifyE (\<lambda>s. s\<lparr>ms_actuators := (ms_actuators s)[nat i := parameters]\<rparr>)) (
     modifyE (\<lambda>s. s\<lparr>ms_actuators_version := next\<rparr>))))))"

definition revolute_spring_parameters :: "int \<Rightarrow> mstate \<Rightarrow> spring_parameters outcome" where
  "revolute_spring_parameters i s =
     (if i < 0 \<or> ld_revolute_spring_count (sl_description (ms_layout s)) \<le> i then Inl InvalidArgument
      else Inr (ms_springs s ! nat i))"

definition set_revolute_spring_parameters :: "int \<Rightarrow> spring_parameters \<Rightarrow> (mstate, unit) effect" where
  "set_revolute_spring_parameters i parameters =
     seqE (require_index i (\<lambda>s. ld_revolute_spring_count (sl_description (ms_layout s)))) (
     seqE (callE (\<lambda>_. require_nonnegative (stiffness parameters))) (
     seqE (callE (\<lambda>_. require_finite (nominal_angle_radians parameters))) (
     modifyE (\<lambda>s. s\<lparr>ms_springs := (ms_springs s)[nat i := parameters]\<rparr>))))"

definition linear_bushing_parameters :: "int \<Rightarrow> mstate \<Rightarrow> bushing_parameters outcome" where
  "linear_bushing_parameters i s =
     (if i < 0 \<or> ld_linear_bushing_count (sl_description (ms_layout s)) \<le> i then Inl InvalidArgument
      else Inr (ms_bushings s ! nat i))"

definition set_linear_bushing_parameters :: "int \<Rightarrow> bushing_parameters \<Rightarrow> (mstate, unit) effect" where
  "set_linear_bushing_parameters i parameters =
     seqE (require_index i (\<lambda>s. ld_linear_bushing_count (sl_description (ms_layout s)))) (
     seqE (callE (\<lambda>_. require_nonnegative3 (torque_stiffness parameters))) (
     seqE (callE (\<lambda>_. require_nonnegative3 (torque_damping parameters))) (
     seqE (callE (\<lambda>_. require_nonnegative3 (force_stiffness parameters))) (
     seqE (callE (\<lambda>_. require_nonnegative3 (force_damping parameters))) (
     modifyE (\<lambda>s. s\<lparr>ms_bushings := (ms_bushings s)[nat i := parameters]\<rparr>))))))"

subsection \<open>What every write promises\<close>

text \<open>\<open>MultibodyStateVersionSource\<close>: the five sources that carry a version.\<close>

datatype version_source =
  GeneralizedPositions | GeneralizedVelocities | FixedFramePoses | RigidBodyInertias | JointActuatorParameters

fun version_of :: "mstate \<Rightarrow> version_source \<Rightarrow> state_version" where
  "version_of s GeneralizedPositions = ms_positions_version s"
| "version_of s GeneralizedVelocities = ms_velocities_version s"
| "version_of s FixedFramePoses = ms_poses_version s"
| "version_of s RigidBodyInertias = ms_inertias_version s"
| "version_of s JointActuatorParameters = ms_actuators_version s"

datatype source_data =
    VectorData vec
  | PoseData "frame_pose_parameters list"
  | InertiaData "inertia_parameters list"
  | ActuatorData "actuator_parameters list"

fun data_of :: "mstate \<Rightarrow> version_source \<Rightarrow> source_data" where
  "data_of s GeneralizedPositions = VectorData (ms_positions s)"
| "data_of s GeneralizedVelocities = VectorData (ms_velocities s)"
| "data_of s FixedFramePoses = PoseData (ms_poses s)"
| "data_of s RigidBodyInertias = InertiaData (ms_inertias s)"
| "data_of s JointActuatorParameters = ActuatorData (ms_actuators s)"

definition inertia_finite :: "inertia_parameters \<Rightarrow> bool" where
  "inertia_finite p \<longleftrightarrow> isfinite (mass_kilograms p) \<and> \<not> mass_kilograms p < 0 \<and>
     all_finite (v3 (center_of_mass_in_body_frame p)) \<and> all_finite (v3 (unit_inertia_moments p)) \<and>
     all_finite (v3 (unit_inertia_products p))"

definition pose_valid :: "frame_pose_parameters \<Rightarrow> bool" where
  "pose_valid p \<longleftrightarrow> throw_if_not_a_valid_fixed_frame_pose p = Inr ()"

definition actuator_valid :: "actuator_parameters \<Rightarrow> bool" where
  "actuator_valid p \<longleftrightarrow> isfinite (rotor_inertia p) \<and> \<not> rotor_inertia p < 0 \<and> isfinite (gear_ratio p)"

definition spring_valid :: "spring_parameters \<Rightarrow> bool" where
  "spring_valid p \<longleftrightarrow> isfinite (stiffness p) \<and> \<not> stiffness p < 0 \<and> isfinite (nominal_angle_radians p)"

definition nonnegative_finite :: "vec \<Rightarrow> bool" where
  "nonnegative_finite xs \<longleftrightarrow> (\<forall>x \<in> set xs. isfinite x \<and> \<not> x < 0)"

definition bushing_valid :: "bushing_parameters \<Rightarrow> bool" where
  "bushing_valid p \<longleftrightarrow> nonnegative_finite (v3 (torque_stiffness p) @ v3 (torque_damping p) @
     v3 (force_stiffness p) @ v3 (force_damping p))"

text \<open>The shape and the validity of everything the instance stores.\<close>

definition mstate_wf :: "mstate \<Rightarrow> bool" where
  "mstate_wf s \<longleftrightarrow> (let d = sl_description (ms_layout s) in
     layout_wf (ms_layout s) \<and>
     int (length (ms_positions s)) = ld_generalized_position_count d \<and> all_finite (ms_positions s) \<and>
     int (length (ms_velocities s)) = ld_generalized_velocity_count d \<and> all_finite (ms_velocities s) \<and>
     length (ms_inertias s) = nat (ld_rigid_body_count d) \<and> list_all inertia_finite (ms_inertias s) \<and>
     length (ms_poses s) = nat (ld_fixed_frame_count d) \<and> list_all pose_valid (ms_poses s) \<and>
     int (length (ms_damping s)) = sl_total_joint_damping_count (ms_layout s) \<and>
     nonnegative_finite (ms_damping s) \<and>
     length (ms_actuators s) = nat (ld_joint_actuator_count d) \<and> list_all actuator_valid (ms_actuators s) \<and>
     length (ms_springs s) = nat (ld_revolute_spring_count d) \<and> list_all spring_valid (ms_springs s) \<and>
     length (ms_bushings s) = nat (ld_linear_bushing_count d) \<and> list_all bushing_valid (ms_bushings s))"

locale state_write =
  fixes wr :: "(mstate, unit) effect"
    and bumped :: "version_source set"
  assumes write_atomic: "atomic wr"
    and write_bump: "wr s = (Inr (), t) \<Longrightarrow> x \<in> bumped \<Longrightarrow> next_version (version_of s x) = Inr (version_of t x)"
    and write_frame: "wr s = (Inr (), t) \<Longrightarrow> x \<notin> bumped \<Longrightarrow>
      version_of t x = version_of s x \<and> data_of t x = data_of s x"
    and write_layout: "wr s = (Inr (), t) \<Longrightarrow> ms_layout t = ms_layout s"
    and write_wf: "mstate_wf s \<Longrightarrow> wr s = (Inr (), t) \<Longrightarrow> mstate_wf t"

context state_write begin

lemma outcome_wf: "mstate_wf s \<Longrightarrow> wr s = (r, t) \<Longrightarrow> mstate_wf t"
  by (cases r) (auto dest: atomicD [OF write_atomic] write_wf)

lemma version_mono: "wr s = (r, t) \<Longrightarrow> revision (version_of s x) \<le> revision (version_of t x)"
proof (cases r)
  case (Inl e)
  assume "wr s = (r, t)"
  with Inl show ?thesis by (auto dest: atomicD [OF write_atomic])
next
  case (Inr u)
  assume w: "wr s = (r, t)"
  then have run: "wr s = (Inr (), t)" by (simp add: Inr)
  show ?thesis
  proof (cases "x \<in> bumped")
    case True
    then show ?thesis using next_version_revision [OF write_bump [OF run True]] by simp
  next
    case False
    then show ?thesis using write_frame [OF run False] by simp
  qed
qed

lemma same_version_same_data:
  assumes "wr s = (r, t)" and "version_of t x = version_of s x"
  shows "data_of t x = data_of s x"
proof (cases r)
  case (Inl e)
  with assms(1) show ?thesis by (auto dest: atomicD [OF write_atomic])
next
  case (Inr u)
  with assms(1) have run: "wr s = (Inr (), t)" by simp
  have "x \<notin> bumped"
    using next_version_revision [OF write_bump [OF run, where x = x]] assms(2) by force
  then show ?thesis using write_frame [OF run] by simp
qed

end

lemmas setter_guards = require_size_def require_all_finite_def require_index_def

lemma list_all_update: "list_all P xs \<Longrightarrow> P x \<Longrightarrow> list_all P (xs[i := x])"
  unfolding list_all_iff using set_update_subset_insert by fastforce

interpretation set_q: state_write "set_generalized_positions r" "{GeneralizedPositions}" for r
proof
  show "atomic (set_generalized_positions r)"
    unfolding set_generalized_positions_def setter_guards
    by (intro effect_intros readonly_intros nofail_atomic)
next
  fix s t x
  assume w: "set_generalized_positions r s = (Inr (), t)"
  then show "x \<in> {GeneralizedPositions} \<Longrightarrow> next_version (version_of s x) = Inr (version_of t x)"
    and "x \<notin> {GeneralizedPositions} \<Longrightarrow> version_of t x = version_of s x \<and> data_of t x = data_of s x"
    and "ms_layout t = ms_layout s"
    by (cases x; auto simp: set_generalized_positions_def setter_guards effect_outcome split: if_splits)+
  from w show "mstate_wf s \<Longrightarrow> mstate_wf t"
    by (auto simp: set_generalized_positions_def setter_guards effect_outcome mstate_wf_def Let_def
        position_count_def split: if_splits)
qed

interpretation set_v: state_write "set_generalized_velocities r" "{GeneralizedVelocities}" for r
proof
  show "atomic (set_generalized_velocities r)"
    unfolding set_generalized_velocities_def setter_guards
    by (intro effect_intros readonly_intros nofail_atomic)
next
  fix s t x
  assume w: "set_generalized_velocities r s = (Inr (), t)"
  then show "x \<in> {GeneralizedVelocities} \<Longrightarrow> next_version (version_of s x) = Inr (version_of t x)"
    and "x \<notin> {GeneralizedVelocities} \<Longrightarrow> version_of t x = version_of s x \<and> data_of t x = data_of s x"
    and "ms_layout t = ms_layout s"
    by (cases x; auto simp: set_generalized_velocities_def setter_guards effect_outcome split: if_splits)+
  from w show "mstate_wf s \<Longrightarrow> mstate_wf t"
    by (auto simp: set_generalized_velocities_def setter_guards effect_outcome mstate_wf_def Let_def
        velocity_count_def split: if_splits)
qed

lemma realisable_finite:
  "throw_if_not_realisable_inertia solver p = Inr () \<Longrightarrow> inertia_finite p"
  by (auto simp: throw_if_not_realisable_inertia_def bindS_eq_Inr inertia_finite_def require_finite3_def
      all_checks_Inr all_finite_iff)

lemma valid_bushing:
  "require_nonnegative3 (torque_stiffness p) = Inr () \<Longrightarrow> require_nonnegative3 (torque_damping p) = Inr () \<Longrightarrow>
   require_nonnegative3 (force_stiffness p) = Inr () \<Longrightarrow> require_nonnegative3 (force_damping p) = Inr () \<Longrightarrow>
   bushing_valid p"
  by (auto simp: bushing_valid_def nonnegative_finite_def require_nonnegative3_def all_checks_Inr)

interpretation set_inertia: state_write "set_rigid_body_inertia_parameters solver i p" "{RigidBodyInertias}" for solver i p
proof
  show "atomic (set_rigid_body_inertia_parameters solver i p)"
    unfolding set_rigid_body_inertia_parameters_def setter_guards
    by (intro effect_intros readonly_intros nofail_atomic)
next
  fix s t x
  assume w: "set_rigid_body_inertia_parameters solver i p s = (Inr (), t)"
  then show "x \<in> {RigidBodyInertias} \<Longrightarrow> next_version (version_of s x) = Inr (version_of t x)"
    and "x \<notin> {RigidBodyInertias} \<Longrightarrow> version_of t x = version_of s x \<and> data_of t x = data_of s x"
    and "ms_layout t = ms_layout s"
    by (cases x; auto simp: set_rigid_body_inertia_parameters_def setter_guards effect_outcome split: if_splits)+
  from w show "mstate_wf s \<Longrightarrow> mstate_wf t"
    by (auto simp: set_rigid_body_inertia_parameters_def setter_guards effect_outcome mstate_wf_def Let_def
        realisable_finite list_all_update split: if_splits)
qed

interpretation set_pose: state_write "set_fixed_frame_pose_parameters i p" "{FixedFramePoses}" for i p
proof
  show "atomic (set_fixed_frame_pose_parameters i p)"
    unfolding set_fixed_frame_pose_parameters_def setter_guards
    by (intro effect_intros readonly_intros nofail_atomic)
next
  fix s t x
  assume w: "set_fixed_frame_pose_parameters i p s = (Inr (), t)"
  then show "x \<in> {FixedFramePoses} \<Longrightarrow> next_version (version_of s x) = Inr (version_of t x)"
    and "x \<notin> {FixedFramePoses} \<Longrightarrow> version_of t x = version_of s x \<and> data_of t x = data_of s x"
    and "ms_layout t = ms_layout s"
    by (cases x; auto simp: set_fixed_frame_pose_parameters_def setter_guards effect_outcome split: if_splits)+
  from w show "mstate_wf s \<Longrightarrow> mstate_wf t"
    by (auto simp: set_fixed_frame_pose_parameters_def setter_guards effect_outcome mstate_wf_def Let_def
        pose_valid_def list_all_update split: if_splits)
qed

interpretation set_actuator: state_write "set_joint_actuator_parameters i p" "{JointActuatorParameters}" for i p
proof
  show "atomic (set_joint_actuator_parameters i p)"
    unfolding set_joint_actuator_parameters_def setter_guards
    by (intro effect_intros readonly_intros nofail_atomic)
next
  fix s t x
  assume w: "set_joint_actuator_parameters i p s = (Inr (), t)"
  then show "x \<in> {JointActuatorParameters} \<Longrightarrow> next_version (version_of s x) = Inr (version_of t x)"
    and "x \<notin> {JointActuatorParameters} \<Longrightarrow> version_of t x = version_of s x \<and> data_of t x = data_of s x"
    and "ms_layout t = ms_layout s"
    by (cases x; auto simp: set_joint_actuator_parameters_def setter_guards effect_outcome split: if_splits)+
  from w show "mstate_wf s \<Longrightarrow> mstate_wf t"
    by (auto simp: set_joint_actuator_parameters_def setter_guards effect_outcome mstate_wf_def Let_def
        actuator_valid_def list_all_update split: if_splits)
qed

interpretation set_spring: state_write "set_revolute_spring_parameters i p" "{}" for i p
proof
  show "atomic (set_revolute_spring_parameters i p)"
    unfolding set_revolute_spring_parameters_def setter_guards
    by (intro effect_intros readonly_intros nofail_atomic)
next
  fix s t x
  assume w: "set_revolute_spring_parameters i p s = (Inr (), t)"
  then show "x \<in> {} \<Longrightarrow> next_version (version_of s x) = Inr (version_of t x)"
    and "x \<notin> {} \<Longrightarrow> version_of t x = version_of s x \<and> data_of t x = data_of s x"
    and "ms_layout t = ms_layout s"
    by (cases x; auto simp: set_revolute_spring_parameters_def setter_guards effect_outcome split: if_splits)+
  from w show "mstate_wf s \<Longrightarrow> mstate_wf t"
    by (auto simp: set_revolute_spring_parameters_def setter_guards effect_outcome mstate_wf_def Let_def
        spring_valid_def list_all_update split: if_splits)
qed

interpretation set_bushing: state_write "set_linear_bushing_parameters i p" "{}" for i p
proof
  show "atomic (set_linear_bushing_parameters i p)"
    unfolding set_linear_bushing_parameters_def setter_guards
    by (intro effect_intros readonly_intros nofail_atomic)
next
  fix s t x
  assume w: "set_linear_bushing_parameters i p s = (Inr (), t)"
  then show "x \<in> {} \<Longrightarrow> next_version (version_of s x) = Inr (version_of t x)"
    and "x \<notin> {} \<Longrightarrow> version_of t x = version_of s x \<and> data_of t x = data_of s x"
    and "ms_layout t = ms_layout s"
    by (cases x; auto simp: set_linear_bushing_parameters_def setter_guards effect_outcome split: if_splits)+
  from w show "mstate_wf s \<Longrightarrow> mstate_wf t"
    by (auto simp: set_linear_bushing_parameters_def setter_guards effect_outcome mstate_wf_def Let_def
        valid_bushing list_all_update split: if_splits)
qed


subsection \<open>The joint damping store\<close>

lemma sum_list_take_le: "list_all (\<lambda>c. 0 \<le> c) cs \<Longrightarrow> i < length cs \<Longrightarrow> sum_list (take i cs) + cs ! i \<le> sum_list (cs :: int list)"
proof -
  assume nonneg: "list_all (\<lambda>c. 0 \<le> c) cs" and i: "i < length cs"
  have "0 \<le> sum_list (drop (Suc i) cs)"
    using nonneg by (intro sum_list_nonneg) (auto simp: list_all_iff dest: in_set_dropD)
  moreover have "sum_list cs = sum_list (take i cs) + cs ! i + sum_list (drop (Suc i) cs)"
    using i by (metis add.assoc append_take_drop_id Cons_nth_drop_Suc sum_list.Cons sum_list_append)
  ultimately show ?thesis by simp
qed

lemma sum_list_take_nonneg: "list_all (\<lambda>c. 0 \<le> c) cs \<Longrightarrow> 0 \<le> sum_list (take i (cs :: int list))"
  by (intro sum_list_nonneg) (auto simp: list_all_iff dest: in_set_takeD)

lemma joint_segment:
  assumes wf: "mstate_wf s"
    and count: "joint_velocity_count (ms_layout s) joint = Inr count"
    and start: "joint_damping_start (ms_layout s) joint = Inr start"
  shows "0 \<le> count" and "0 \<le> start" and "nat start + nat count \<le> length (ms_damping s)"
proof -
  let ?cs = "ld_joint_velocity_counts (sl_description (ms_layout s))"
  have l: "layout_wf (ms_layout s)" and len: "int (length (ms_damping s)) = sl_total_joint_damping_count (ms_layout s)"
    using wf by (simp_all add: mstate_wf_def Let_def)
  note w = layout_wf_counts [OF l]
  have j: "nat joint < length ?cs" and c: "count = ?cs ! nat joint"
    using count by (auto simp: joint_velocity_count_def damped_joint_count_def split: if_splits)
  have st: "start = sum_list (take (nat joint) ?cs)"
    using start j by (auto simp: joint_damping_start_def w(5) split: if_splits)
  show "0 \<le> count" using w(3) j c by (simp add: list_all_length)
  show "0 \<le> start" using w(3) by (simp add: st sum_list_take_nonneg)
  show "nat start + nat count \<le> length (ms_damping s)"
  proof -
    have "start + count \<le> int (length (ms_damping s))"
      using sum_list_take_le [OF w(3) j] len w(4) c st by simp
    then show ?thesis using \<open>0 \<le> count\<close> \<open>0 \<le> start\<close> by arith
  qed
qed

lemma set_joint_damping_Inr:
  "set_joint_damping joint damping s = (Inr (), t) \<longleftrightarrow>
     (\<exists>count start. joint_velocity_count (ms_layout s) joint = Inr count \<and>
        joint_damping_start (ms_layout s) joint = Inr start \<and> int (length damping) = count \<and>
        nonnegative_finite damping \<and>
        t = s\<lparr>ms_damping := put_segment (nat start) damping (ms_damping s)\<rparr>)"
  by (auto simp: set_joint_damping_def require_size_def effect_outcome all_checks_Inr nonnegative_finite_def
      split: if_splits)

lemma nonnegative_finite_put:
  "nonnegative_finite ys \<Longrightarrow> nonnegative_finite xs \<Longrightarrow> nonnegative_finite (put_segment k ys xs)"
  unfolding nonnegative_finite_def put_segment_def by (auto dest: in_set_takeD in_set_dropD)

interpretation set_damping: state_write "set_joint_damping joint damping" "{}" for joint damping
proof
  show "atomic (set_joint_damping joint damping)"
    unfolding set_joint_damping_def setter_guards
    by (intro effect_intros readonly_intros nofail_atomic)
next
  fix s t x
  assume w: "set_joint_damping joint damping s = (Inr (), t)"
  then show "x \<in> {} \<Longrightarrow> next_version (version_of s x) = Inr (version_of t x)"
    and "x \<notin> {} \<Longrightarrow> version_of t x = version_of s x \<and> data_of t x = data_of s x"
    and "ms_layout t = ms_layout s"
    by (cases x; auto simp: set_joint_damping_Inr)+
  assume wf: "mstate_wf s"
  from w obtain count start where
    c: "joint_velocity_count (ms_layout s) joint = Inr count" "joint_damping_start (ms_layout s) joint = Inr start"
      "int (length damping) = count" "nonnegative_finite damping"
    and t: "t = s\<lparr>ms_damping := put_segment (nat start) damping (ms_damping s)\<rparr>"
    by (auto simp: set_joint_damping_Inr)
  have "nat start + length damping \<le> length (ms_damping s)"
    using joint_segment [OF wf c(1,2)] c(3) by simp
  with wf c(4) show "mstate_wf t"
    by (simp add: t mstate_wf_def Let_def nonnegative_finite_put)
qed

lemma joint_segments_disjoint:
  assumes l: "layout_wf l" and "other \<noteq> joint"
    and c: "joint_velocity_count l joint = Inr count" "joint_damping_start l joint = Inr start"
    and c': "joint_velocity_count l other = Inr n" "joint_damping_start l other = Inr k"
  shows "k + n \<le> start \<or> start + count \<le> k"
proof -
  let ?cs = "ld_joint_velocity_counts (sl_description l)"
  note w = layout_wf_counts [OF l]
  have idx: "nat other < length ?cs" "n = ?cs ! nat other" "k = sum_list (take (nat other) ?cs)"
    "nat joint < length ?cs" "count = ?cs ! nat joint" "start = sum_list (take (nat joint) ?cs)"
    "nat other \<noteq> nat joint"
    using assms
    by (auto simp: joint_velocity_count_def joint_damping_start_def damped_joint_count_def w(5) split: if_splits)
  have mono: "sum_list (take a ?cs) + ?cs ! a \<le> sum_list (take b ?cs)" if "a < b" "b < length ?cs" for a b
    using sum_list_take_le [of "take b ?cs" a] that w(3)
    by (simp add: list_all_iff min_def) (meson in_set_takeD)
  show ?thesis
    using mono [of "nat other" "nat joint"] mono [of "nat joint" "nat other"] idx by linarith
qed

lemma other_joint_segment:
  assumes wf: "mstate_wf s" and other: "other \<noteq> joint"
    and c: "joint_velocity_count (ms_layout s) joint = Inr (int (length damping))"
      "joint_damping_start (ms_layout s) joint = Inr start"
    and c': "joint_velocity_count (ms_layout s) other = Inr n" "joint_damping_start (ms_layout s) other = Inr k"
  shows "segment (nat k) (nat n) (put_segment (nat start) damping (ms_damping s)) =
    segment (nat k) (nat n) (ms_damping s)"
proof -
  have l: "layout_wf (ms_layout s)" using wf by (simp add: mstate_wf_def Let_def)
  note seg = joint_segment [OF wf c] and seg' = joint_segment [OF wf c']
  have fits: "nat start + length damping \<le> length (ms_damping s)" using seg by simp
  from joint_segments_disjoint [OF l other c c'] consider
    "nat k + nat n \<le> nat start" | "nat start + length damping \<le> nat k"
    using seg seg' by linarith
  then show ?thesis
    using fits by cases (simp_all add: segment_put_segment_before segment_put_segment_after)
qed

lemma set_joint_damping_read:
  assumes "mstate_wf s" and "set_joint_damping joint damping s = (Inr (), t)"
  shows "joint_damping joint t = Inr damping \<and>
    (\<forall>other. other \<noteq> joint \<longrightarrow> joint_damping other t = joint_damping other s)"
proof -
  from assms(2) obtain start where
    c: "joint_velocity_count (ms_layout s) joint = Inr (int (length damping))"
      "joint_damping_start (ms_layout s) joint = Inr start"
    and t: "t = s\<lparr>ms_damping := put_segment (nat start) damping (ms_damping s)\<rparr>"
    by (auto simp: set_joint_damping_Inr)
  have "nat start + length damping \<le> length (ms_damping s)"
    using joint_segment [OF assms(1) c] by simp
  then have "joint_damping joint t = Inr damping"
    using c by (simp add: joint_damping_def t segment_put_segment_same)
  moreover have "joint_damping other t = joint_damping other s" if other: "other \<noteq> joint" for other
    using other_joint_segment [OF assms(1) other c]
    by (auto simp: joint_damping_def t bindS_def split: sum.splits)
  ultimately show ?thesis by blast
qed

text \<open>Writing one joint's damping is read back for that joint and leaves every other joint's
  coefficients as they were: the flat store is divided by the layout's offsets without overlap.\<close>

theorem joint_damping_read_after_write:
  "mstate_wf s \<Longrightarrow> set_joint_damping joint damping s = (Inr (), t) \<Longrightarrow>
   joint_damping joint t = Inr damping \<and>
   (\<forall>other. other \<noteq> joint \<longrightarrow> joint_damping other t = joint_damping other s)"
  by (rule set_joint_damping_read)

definition example_layout :: state_layout where
  "example_layout = \<lparr>sl_description = \<lparr>ld_generalized_position_count = 2,
     ld_generalized_velocity_count = 2, ld_rigid_body_count = 1, ld_fixed_frame_count = 1,
     ld_joint_velocity_counts = [1, 2], ld_joint_actuator_count = 1, ld_revolute_spring_count = 0,
     ld_linear_bushing_count = 0\<rparr>, sl_joint_damping_starts = [0, 1], sl_total_joint_damping_count = 3\<rparr>"

lemma example_layout_wf: "layout_wf example_layout"
  by (simp add: layout_wf_def make_layout_def example_layout_def layout_require_nonnegative_def
      reject_if_def all_checks.simps)

subsection \<open>Writing q and v together\<close>

text \<open>The single-run form of \<open>SetGeneralizedState\<close>: what the nine statements amount to.\<close>

lemma segment_empty_cong: "length xs = length ys \<Longrightarrow> segment k n xs = [] \<longleftrightarrow> segment k n ys = []"
  by (auto simp: segment_def)

lemma set_generalized_state_Inr:
  assumes len: "int (length (ms_positions s)) = position_count s"
  shows "set_generalized_state q v s = (Inr (), t) \<longleftrightarrow>
     int (length (ref_value s q)) = position_count s \<and> int (length (ref_value s v)) = velocity_count s \<and>
     all_finite (ref_value s q) \<and> all_finite (ref_value s v) \<and>
     (\<exists>nq nv. next_version (ms_positions_version s) = Inr nq \<and> next_version (ms_velocities_version s) = Inr nv \<and>
       t = s\<lparr>ms_positions := ref_value s q, ms_velocities := ref_value s v,
             ms_positions_version := nq, ms_velocities_version := nv\<rparr>)"
proof (cases "overlaps_positions s v")
  case True
  then show ?thesis
    by (auto simp: set_generalized_state_def setter_guards effect_outcome split: if_splits)
next
  case False
  have "ref_value (s\<lparr>ms_positions := ref_value s q\<rparr>) v = ref_value s v"
    if "int (length (ref_value s q)) = position_count s"
    using False that len segment_empty_cong [of "ref_value s q" "ms_positions s"]
    by (cases v) auto
  then show ?thesis using False
    by (auto simp: set_generalized_state_def setter_guards effect_outcome split: if_splits)
qed

interpretation set_qv: state_write "set_generalized_state q v" "{GeneralizedPositions, GeneralizedVelocities}" for q v
proof
  show "atomic (set_generalized_state q v)"
    unfolding set_generalized_state_def setter_guards
    by (intro effect_intros readonly_intros nofail_atomic) (auto intro!: effect_intros nofail_atomic)
next
  fix s t x
  assume w: "set_generalized_state q v s = (Inr (), t)"
  then show "x \<in> {GeneralizedPositions, GeneralizedVelocities} \<Longrightarrow> next_version (version_of s x) = Inr (version_of t x)"
    and "x \<notin> {GeneralizedPositions, GeneralizedVelocities} \<Longrightarrow> version_of t x = version_of s x \<and> data_of t x = data_of s x"
    and "ms_layout t = ms_layout s"
    by (cases x; auto simp: set_generalized_state_def setter_guards effect_outcome split: if_splits)+
  assume wf: "mstate_wf s"
  then have "int (length (ms_positions s)) = position_count s"
    by (simp add: mstate_wf_def Let_def position_count_def)
  with wf w show "mstate_wf t"
    by (auto simp: set_generalized_state_Inr mstate_wf_def Let_def position_count_def velocity_count_def)
qed

definition example_state :: mstate where
  "example_state = make_mstate example_layout"

lemma ex_next_version: "(\<exists>n. next_version v = Inr n) \<longleftrightarrow> revision v < 2 ^ 64 - 1"
proof -
  have "(\<exists>n. next_version v = Inr n) \<longleftrightarrow> \<not> (\<exists>e. next_version v = Inl e)"
    by (cases "next_version v") auto
  also have "\<dots> \<longleftrightarrow> revision v \<noteq> 2 ^ 64 - 1"
    using next_version_exhausted [of v] by auto
  finally show ?thesis using revision_bound [of v] by auto
qed

text \<open>C15: Writing q and v together stores the values both arguments had on entry, also when the
  velocity argument borrows a block of the q storage that the same call overwrites; it succeeds
  exactly when both have the layout's size, every entry is finite and neither version is at its
  ceiling, and otherwise throws and changes nothing.\<close>

theorem set_generalized_state_stores_entry_values:
  assumes "mstate_wf s"
  shows "if int (length (ref_value s q)) = position_count s \<and> int (length (ref_value s v)) = velocity_count s \<and>
      all_finite (ref_value s q) \<and> all_finite (ref_value s v) \<and>
      revision (ms_positions_version s) < 2 ^ 64 - 1 \<and> revision (ms_velocities_version s) < 2 ^ 64 - 1
    then (\<exists>t. set_generalized_state q v s = (Inr (), t) \<and>
      ms_positions t = ref_value s q \<and> ms_velocities t = ref_value s v \<and>
      revision (ms_positions_version t) = Suc (revision (ms_positions_version s)) \<and>
      revision (ms_velocities_version t) = Suc (revision (ms_velocities_version s)))
    else (\<exists>e. set_generalized_state q v s = (Inl e, s))"
    (is "if ?ok then ?good else ?bad")
proof -
  have len: "int (length (ms_positions s)) = position_count s"
    using assms by (simp add: mstate_wf_def Let_def position_count_def)
  note run = set_generalized_state_Inr [OF len, of q v]
  show ?thesis
  proof (cases ?ok)
    case True
    then obtain nq nv where n: "next_version (ms_positions_version s) = Inr nq"
        "next_version (ms_velocities_version s) = Inr nv"
      using ex_next_version by blast
    have "?good"
      by (rule exI, rule conjI, subst run) (use True n in \<open>auto simp: next_version_revision\<close>)
    with True show ?thesis by simp
  next
    case False
    obtain r t where r: "set_generalized_state q v s = (r, t)" by fastforce
    have "\<nexists>u. r = Inr u"
    proof
      assume "\<exists>u. r = Inr u"
      with r have "set_generalized_state q v s = (Inr (), t)" by auto
      with False show False unfolding run using ex_next_version by blast
    qed
    then obtain e where "r = Inl e" by (cases r) auto
    with r have ?bad by (auto dest: atomicD [OF set_qv.write_atomic])
    with False show ?thesis by (simp only: if_False)
  qed
qed

subsection \<open>The life of an instance\<close>

lemma default_pose_valid: "pose_valid default_pose"
  by (simp add: pose_valid_def default_pose_def throw_if_not_a_valid_fixed_frame_pose_def
      require_rotation_def identity3_def zero3_def require_finite3_def require_finite_def
      max_coefficient_def kRotationOrthonormalityTolerance_def double_epsilon_def all_checks.simps
      reject_if_def)

lemma make_mstate_wf: "layout_wf l \<Longrightarrow> mstate_wf (make_mstate l)"
proof -
  assume l: "layout_wf l"
  note w = layout_wf_counts [OF l]
  have "0 \<le> sum_list (ld_joint_velocity_counts (sl_description l))"
    using w(3) by (intro sum_list_nonneg) (auto simp: list_all_iff)
  then show ?thesis
    using l w default_pose_valid
    by (simp add: mstate_wf_def make_mstate_def Let_def nonnegative_finite_def list_all_iff
        inertia_finite_def default_inertia_def zero3_def actuator_valid_def default_actuator_def
        spring_valid_def default_spring_def bushing_valid_def default_bushing_def)
qed

text \<open>The calls a client may make, in any order and with any outcome.\<close>

datatype state_call =
    SetPositions vec_ref
  | SetVelocities vec_ref
  | SetState vec_ref vec_ref
  | SetInertia int inertia_parameters
  | SetPose int frame_pose_parameters
  | SetDamping int vec
  | SetActuator int actuator_parameters
  | SetSpring int spring_parameters
  | SetBushing int bushing_parameters

fun perform :: "(mat3 \<Rightarrow> vec3 option) \<Rightarrow> state_call \<Rightarrow> (mstate, unit) effect" where
  "perform solver (SetPositions q) = set_generalized_positions q"
| "perform solver (SetVelocities v) = set_generalized_velocities v"
| "perform solver (SetState q v) = set_generalized_state q v"
| "perform solver (SetInertia i p) = set_rigid_body_inertia_parameters solver i p"
| "perform solver (SetPose i p) = set_fixed_frame_pose_parameters i p"
| "perform solver (SetDamping j d) = set_joint_damping j d"
| "perform solver (SetActuator i p) = set_joint_actuator_parameters i p"
| "perform solver (SetSpring i p) = set_revolute_spring_parameters i p"
| "perform solver (SetBushing i p) = set_linear_bushing_parameters i p"

fun bumped_by :: "state_call \<Rightarrow> version_source set" where
  "bumped_by (SetPositions _) = {GeneralizedPositions}"
| "bumped_by (SetVelocities _) = {GeneralizedVelocities}"
| "bumped_by (SetState _ _) = {GeneralizedPositions, GeneralizedVelocities}"
| "bumped_by (SetInertia _ _) = {RigidBodyInertias}"
| "bumped_by (SetPose _ _) = {FixedFramePoses}"
| "bumped_by (SetActuator _ _) = {JointActuatorParameters}"
| "bumped_by _ = {}"

lemma perform_state_write: "state_write (perform solver c) (bumped_by c)"
  by (cases c) (simp_all add: set_q.state_write_axioms set_v.state_write_axioms set_qv.state_write_axioms
      set_inertia.state_write_axioms set_pose.state_write_axioms set_actuator.state_write_axioms
      set_spring.state_write_axioms set_bushing.state_write_axioms set_damping.state_write_axioms)

interpretation any_call: state_write "perform solver c" "bumped_by c" for solver c
  by (rule perform_state_write)

inductive state_run :: "(mat3 \<Rightarrow> vec3 option) \<Rightarrow> mstate \<Rightarrow> state_call list \<Rightarrow> mstate \<Rightarrow> bool"
  for solver where
  state_run_nil: "state_run solver s [] s"
| state_run_call: "perform solver c s = (r, u) \<Longrightarrow> state_run solver u cs t \<Longrightarrow> state_run solver s (c # cs) t"

inductive_cases state_run_ConsE: "state_run solver s (c # cs) t"

lemma state_run_version_mono:
  "state_run solver s cs t \<Longrightarrow> revision (version_of s x) \<le> revision (version_of t x)"
  by (induction rule: state_run.induct) (auto dest!: any_call.version_mono [where x = x] intro: le_trans)

lemma state_run_same_version:
  "state_run solver s cs t \<Longrightarrow> version_of t x = version_of s x \<Longrightarrow> data_of t x = data_of s x"
proof (induction rule: state_run.induct)
  case (state_run_nil s)
  then show ?case by simp
next
  case (state_run_call c s r u cs t)
  have "revision (version_of s x) \<le> revision (version_of u x)"
    using any_call.version_mono [OF state_run_call.hyps(1)] .
  moreover have "revision (version_of u x) \<le> revision (version_of t x)"
    using state_run_version_mono [OF state_run_call.hyps(2)] .
  ultimately have "version_of u x = version_of s x"
    using state_run_call.prems by (simp add: revision_inject [symmetric])
  then show ?case
    using state_run_call.IH state_run_call.prems any_call.same_version_same_data [OF state_run_call.hyps(1)]
    by simp
qed

lemma state_run_layout: "state_run solver s cs t \<Longrightarrow> ms_layout t = ms_layout s"
proof (induction rule: state_run.induct)
  case (state_run_nil s)
  then show ?case by simp
next
  case (state_run_call c s r u cs t)
  then show ?case
    using any_call.write_layout [of solver c s u]
    by (cases r) (auto dest: atomicD [OF any_call.write_atomic])
qed

lemma state_run_wf: "state_run solver s cs t \<Longrightarrow> mstate_wf s \<Longrightarrow> mstate_wf t"
  by (induction rule: state_run.induct) (auto dest: any_call.outcome_wf)

lemma state_run_append: "state_run solver s as t \<Longrightarrow> state_run solver t bs u \<Longrightarrow> state_run solver s (as @ bs) u"
  by (induction rule: state_run.induct) (auto intro: state_run_call)

text \<open>From construction on, whatever setters are called and whether they succeed or throw, the
  instance stays well-formed: the layout never changes, every store keeps the layout's size, q, v
  and every physical parameter stays finite and in range, every pose stays a proper rotation.\<close>

theorem reachable_state_valid:
  "make_layout d = Inr l \<Longrightarrow> state_run solver (make_mstate l) cs t \<Longrightarrow> mstate_wf t \<and> ms_layout t = l"
  using state_run_wf state_run_layout make_mstate_wf make_layout_wf by (fastforce simp: make_mstate_def Let_def)

text \<open>C21: No ABA: if a version reads the same at two moments of an instance's life, the data of that
  source was not changed in between, whatever was called; a version never decreases.\<close>

theorem equal_versions_equal_data:
  "state_run solver s cs t \<Longrightarrow>
   revision (version_of s x) \<le> revision (version_of t x) \<and>
   (version_of t x = version_of s x \<longrightarrow> data_of t x = data_of s x)"
  using state_run_version_mono state_run_same_version by blast

subsection \<open>Witnesses\<close>

definition example_description :: layout_description where
  "example_description = sl_description example_layout"

lemma example_make_layout: "make_layout example_description = Inr example_layout"
  using example_layout_wf by (simp add: layout_wf_def example_description_def)

lemma example_state_wf: "mstate_wf example_state"
  unfolding example_state_def by (rule make_mstate_wf [OF example_layout_wf])

lemmas example_defs = example_state_def make_mstate_def example_layout_def

lemma example_write_damping:
  "\<exists>t. set_joint_damping 1 [2, 3] example_state = (Inr (), t)"
  by (simp add: set_joint_damping_Inr example_defs joint_velocity_count_def joint_damping_start_def
      damped_joint_count_def nonnegative_finite_def)

lemma joint_damping_read_after_write_witness:
  "\<exists>t. set_joint_damping 1 [2, 3] example_state = (Inr (), t) \<and> joint_damping 1 t = Inr [2, 3] \<and>
     joint_damping 0 t = joint_damping 0 example_state"
proof -
  obtain t where t: "set_joint_damping 1 [2, 3] example_state = (Inr (), t)"
    using example_write_damping by blast
  with joint_damping_read_after_write [OF example_state_wf t] show ?thesis by auto
qed

text \<open>The aliasing case: v is written from the old q, while q becomes (5, 6).\<close>

definition example_moved :: mstate where
  "example_moved = example_state\<lparr>ms_positions := [1, 2]\<rparr>"

lemma example_moved_wf: "mstate_wf example_moved"
  using example_state_wf by (simp add: example_moved_def mstate_wf_def Let_def example_defs)

lemma set_generalized_state_stores_entry_values_witness:
  "\<exists>t. set_generalized_state (External [5, 6]) (PositionsBlock 0 2) example_moved = (Inr (), t) \<and>
     ms_positions t = [5, 6] \<and> ms_velocities t = [1, 2]"
proof -
  have "revision (ms_positions_version example_moved) < 2 ^ 64 - 1"
    "revision (ms_velocities_version example_moved) < 2 ^ 64 - 1"
    by (simp_all add: example_moved_def example_defs revision_def initial_version_def)
  then show ?thesis
    using set_generalized_state_stores_entry_values
        [OF example_moved_wf, of "External [5, 6]" "PositionsBlock 0 2"]
    by (auto simp: example_moved_def example_defs segment_def position_count_def velocity_count_def
        split: if_splits)
qed

lemma example_run:
  "\<exists>t. state_run solver example_state [SetDamping 1 [2, 3], SetDamping 7 []] t"
  by (auto intro!: exI state_run.intros prod.collapse [symmetric])

lemma reachable_state_valid_witness:
  "\<exists>t. state_run (\<lambda>_. None) example_state [SetDamping 1 [2, 3], SetDamping 7 []] t \<and> mstate_wf t"
proof -
  obtain t where t: "state_run (\<lambda>_. None) example_state [SetDamping 1 [2, 3], SetDamping 7 []] t"
    using example_run by blast
  with reachable_state_valid [OF example_make_layout t [unfolded example_state_def]]
  show ?thesis by blast
qed

lemma equal_versions_equal_data_witness:
  "\<exists>t. state_run (\<lambda>_. None) example_state [SetVelocities (External [1, 1])] t \<and>
     data_of t GeneralizedPositions = data_of example_state GeneralizedPositions"
proof -
  obtain r t where r: "perform (\<lambda>_. None) (SetVelocities (External [1, 1])) example_state = (r, t)" by fastforce
  then have run: "state_run (\<lambda>_. None) example_state [SetVelocities (External [1, 1])] t"
    by (rule state_run_call [OF _ state_run_nil])
  have "version_of t GeneralizedPositions = version_of example_state GeneralizedPositions"
    using r by (cases r) (auto simp: set_generalized_velocities_def setter_guards effect_outcome split: if_splits)
  with equal_versions_equal_data [OF run] run show ?thesis by blast
qed

end
