(* ===== verification/Cache_Slot.thy ===== *)
theory Cache_Slot
  imports Multibody_State
begin

section \<open>multibody_runtime: versioned cache slots and lazy evaluation\<close>

text \<open>
  Models \<open>multibody_cache_slot.h\<close> and \<open>multibody_cache_evaluation.h\<close>.  A slot's state is its
  value, the optional committed snapshot and the 64-bit count of commits; the declared sources
  are the list \<open>srcs\<close> (template arguments in the C++), the bound state instance is the first
  component of the state the effects run on.  A calculator is an arbitrary effect on the instance
  and the value storage: it may throw half way and may even write the instance.
  The slot is shown to be transparent: through any interleaving of setters and
  evaluations it returns what a direct calculation on the current state gives.
\<close>

subsection \<open>The slot\<close>

record 'v slot =
  slot_value :: 'v
  slot_snapshot :: "state_version list option"
  slot_count :: u64

text \<open>\<open>SourcesAreDistinct\<close>: the two nested index loops of the \<open>constexpr\<close> function.\<close>

fun sources_distinct_from :: "version_source list \<Rightarrow> bool" where
  "sources_distinct_from [] = True"
| "sources_distinct_from (x # xs) = (if list_ex (\<lambda>y. x = y) xs then False else sources_distinct_from xs)"

definition declaration_ok :: "version_source list \<Rightarrow> bool" where
  "declaration_ok srcs \<longleftrightarrow> srcs \<noteq> [] \<and> sources_distinct_from srcs"

lemma sources_distinct: "sources_distinct_from srcs = distinct srcs"
  by (induction srcs) (auto simp: list_ex_iff)

definition make_slot :: "'v \<Rightarrow> 'v slot" where
  "make_slot v = \<lparr>slot_value = v, slot_snapshot = None, slot_count = 0\<rparr>"

definition current_snapshot :: "version_source list \<Rightarrow> mstate \<Rightarrow> state_version list" where
  "current_snapshot srcs s = map (version_of s) srcs"

definition is_fresh :: "version_source list \<Rightarrow> mstate \<times> 'v slot \<Rightarrow> bool" where
  "is_fresh srcs st = (case st of (s, c) \<Rightarrow>
     (case slot_snapshot c of None \<Rightarrow> False | Some snap \<Rightarrow> snap = current_snapshot srcs s))"

definition checked_value :: "version_source list \<Rightarrow> (mstate \<times> 'v slot, 'v) effect" where
  "checked_value srcs =
     seqE (rejectE (\<lambda>(s, c). slot_snapshot c = None) LogicError) (
     seqE (rejectE (\<lambda>(s, c). the (slot_snapshot c) \<noteq> current_snapshot srcs s) LogicError) (
     readE (\<lambda>(s, c). slot_value c)))"

definition mutable_value_for_recomputation :: "(mstate \<times> 'v slot, unit) effect" where
  "mutable_value_for_recomputation = modifyE (\<lambda>(s, c). (s, c\<lparr>slot_snapshot := None\<rparr>))"

definition commit_recomputation :: "version_source list \<Rightarrow> (mstate \<times> 'v slot, unit) effect" where
  "commit_recomputation srcs =
     seqE (rejectE (\<lambda>(s, c). slot_count c = - 1) OverflowError) (
     seqE (modifyE (\<lambda>(s, c). (s, c\<lparr>slot_count := slot_count c + 1\<rparr>)))
          (modifyE (\<lambda>(s, c). (s, c\<lparr>slot_snapshot := Some (current_snapshot srcs s)\<rparr>))))"

subsection \<open>Evaluation\<close>

definition every_version :: "mstate \<Rightarrow> state_version list" where
  "every_version s = [ms_positions_version s, ms_velocities_version s, ms_poses_version s,
     ms_inertias_version s, ms_actuators_version s]"

type_synonym 'v calculator = "(mstate \<times> 'v, unit) effect"

text \<open>\<open>std::invoke(calculate, storage)\<close>: the calculator sees the instance and the value in place.\<close>

definition invoke :: "'v calculator \<Rightarrow> (mstate \<times> 'v slot, unit) effect" where
  "invoke calculate st = (case st of (s, c) \<Rightarrow>
     (case calculate (s, slot_value c) of (r, s', v') \<Rightarrow> (r, s', c\<lparr>slot_value := v'\<rparr>)))"

definition evaluate_slot :: "version_source list \<Rightarrow> 'v calculator \<Rightarrow> (mstate \<times> 'v slot, 'v) effect" where
  "evaluate_slot srcs calculate =
     bindE (readE (is_fresh srcs)) (\<lambda>fresh.
     if fresh then checked_value srcs
     else
       bindE (readE (\<lambda>(s, c). every_version s)) (\<lambda>before.
       seqE mutable_value_for_recomputation (
       seqE (invoke calculate) (
       seqE (rejectE (\<lambda>(s, c). every_version s \<noteq> before) LogicError) (
       seqE (commit_recomputation srcs) (
       checked_value srcs))))))"

lemma every_version_eq: "every_version s = every_version t \<longleftrightarrow> (\<forall>x. version_of s x = version_of t x)"
proof
  assume "every_version s = every_version t"
  then show "\<forall>x. version_of s x = version_of t x"
    by (intro allI, case_tac x) (simp_all add: every_version_def)
next
  assume v: "\<forall>x. version_of s x = version_of t x"
  from v [rule_format, of GeneralizedPositions] v [rule_format, of GeneralizedVelocities]
    v [rule_format, of FixedFramePoses] v [rule_format, of RigidBodyInertias]
    v [rule_format, of JointActuatorParameters]
  show "every_version s = every_version t"
    by (simp add: every_version_def)
qed

lemma is_fresh_iff: "is_fresh srcs (s, c) \<longleftrightarrow> slot_snapshot c = Some (current_snapshot srcs s)"
  by (auto simp: is_fresh_def split: option.splits)

lemma checked_value_run:
  "checked_value srcs (s, c) =
     (if is_fresh srcs (s, c) then Inr (slot_value c) else Inl LogicError, s, c)"
  by (auto simp: checked_value_def is_fresh_iff effect_simps)

lemma evaluate_fresh: "is_fresh srcs (s, c) \<Longrightarrow> evaluate_slot srcs calculate (s, c) = (Inr (slot_value c), s, c)"
  by (simp add: evaluate_slot_def effect_simps checked_value_run)

lemma evaluate_stale:
  assumes "\<not> is_fresh srcs (s, c)"
  shows "evaluate_slot srcs calculate (s, c) =
     (case calculate (s, slot_value c) of
        (Inl e, s', v') \<Rightarrow> (Inl e, s', c\<lparr>slot_value := v', slot_snapshot := None\<rparr>)
      | (Inr _, s', v') \<Rightarrow>
          if every_version s' \<noteq> every_version s
          then (Inl LogicError, s', c\<lparr>slot_value := v', slot_snapshot := None\<rparr>)
          else if slot_count c = - 1
          then (Inl OverflowError, s', c\<lparr>slot_value := v', slot_snapshot := None\<rparr>)
          else (Inr v', s', \<lparr>slot_value = v', slot_snapshot = Some (current_snapshot srcs s'),
                  slot_count = slot_count c + 1, \<dots> = slot.more c\<rparr>))"
  using assms
  by (cases c)
    (auto simp: evaluate_slot_def effect_simps invoke_def mutable_value_for_recomputation_def
      commit_recomputation_def checked_value_run is_fresh_iff split: prod.splits sum.splits)

lemma count_succ: "w \<noteq> - 1 \<Longrightarrow> unat (w + 1) = Suc (unat w)" for w :: u64
  by (metis add.commute add.inverse_inverse eq_neg_iff_add_eq_0 unatSuc)

text \<open>What an evaluation does.  A fresh slot is returned as it is, without calling the calculator.
  Otherwise the evaluation either returns the value it has just committed - the slot is fresh, no
  versioned source moved during the calculation, the count went up by one - or it throws, and then
  the slot is left cold with its count as it was: a half-written value is never readable.\<close>

theorem evaluate_slot_outcome:
  "case evaluate_slot srcs calculate (s, c) of
     (Inr v, t, d) \<Rightarrow> is_fresh srcs (t, d) \<and> slot_value d = v \<and>
        (if is_fresh srcs (s, c) then t = s \<and> d = c
         else every_version t = every_version s \<and> unat (slot_count d) = Suc (unat (slot_count c)))
   | (Inl e, t, d) \<Rightarrow> \<not> is_fresh srcs (s, c) \<and> slot_snapshot d = None \<and> slot_count d = slot_count c"
proof (cases "is_fresh srcs (s, c)")
  case True
  then show ?thesis by (simp add: evaluate_fresh)
next
  case False
  then show ?thesis
    by (auto simp: evaluate_stale is_fresh_iff count_succ split: prod.splits sum.splits)
qed

text \<open>Whether a write keeps a slot fresh.\<close>

lemma write_keeps_fresh:
  assumes "perform solver call s = (r, t)" and "is_fresh srcs (s, c)"
  shows "is_fresh srcs (t, c) \<longleftrightarrow> (\<exists>e. r = Inl e) \<or> set srcs \<inter> bumped_by call = {}"
proof (cases r)
  case (Inl e)
  with assms show ?thesis by (auto dest: atomicD [OF any_call.write_atomic])
next
  case (Inr u)
  with assms have run: "perform solver call s = (Inr (), t)" by simp
  have moved: "version_of t x \<noteq> version_of s x" if "x \<in> bumped_by call" for x
    using next_version_revision [OF any_call.write_bump [OF run that]] by auto
  have kept: "version_of t x = version_of s x" if "x \<notin> bumped_by call" for x
    using any_call.write_frame [OF run that] by simp
  have "is_fresh srcs (t, c) \<longleftrightarrow> (\<forall>x \<in> set srcs. version_of s x = version_of t x)"
    using assms(2) by (simp add: is_fresh_iff current_snapshot_def)
  also have "\<dots> \<longleftrightarrow> set srcs \<inter> bumped_by call = {}"
    using moved kept by fastforce
  finally show ?thesis using Inr by simp
qed

text \<open>Neither over- nor under-invalidation: a setter makes a fresh slot stale exactly when it
  succeeds and writes one of the sources the slot declares.\<close>

theorem write_invalidates_exactly:
  "perform solver call s = (r, t) \<Longrightarrow> is_fresh srcs (s, c) \<Longrightarrow>
   is_fresh srcs (t, c) \<longleftrightarrow> (\<exists>e. r = Inl e) \<or> set srcs \<inter> bumped_by call = {}"
  by (rule write_keeps_fresh)

subsection \<open>Transparency of the cache\<close>

text \<open>
  A calculator implements \<open>f\<close> on the declared sources when \<open>f\<close> depends on nothing but the layout
  and the data of those sources, what a normally returning calculation leaves in the storage is
  \<open>f\<close> of the instance it was started on, and it touches the instance through the setters only.
\<close>

definition depends_only_on :: "version_source list \<Rightarrow> (mstate \<Rightarrow> 'v) \<Rightarrow> bool" where
  "depends_only_on srcs f \<longleftrightarrow>
     (\<forall>s t. ms_layout s = ms_layout t \<and> (\<forall>x \<in> set srcs. data_of s x = data_of t x) \<longrightarrow> f s = f t)"

definition implements :: "(mat3 \<Rightarrow> vec3 option) \<Rightarrow> 'v calculator \<Rightarrow> (mstate \<Rightarrow> 'v) \<Rightarrow> bool" where
  "implements solver calculate f \<longleftrightarrow>
     (\<forall>s v r t w. calculate (s, v) = (r, t, w) \<longrightarrow>
        (\<exists>calls. state_run solver s calls t) \<and> (r = Inr () \<longrightarrow> w = f s))"

datatype slot_event = Write state_call | Evaluate

inductive slot_run ::
  "(mat3 \<Rightarrow> vec3 option) \<Rightarrow> version_source list \<Rightarrow> 'v calculator \<Rightarrow>
   mstate \<times> 'v slot \<Rightarrow> slot_event list \<Rightarrow> mstate \<times> 'v slot \<Rightarrow> bool"
  for solver srcs calculate where
  slot_run_nil: "slot_run solver srcs calculate st [] st"
| slot_run_write: "perform solver call s = (r, t) \<Longrightarrow> slot_run solver srcs calculate (t, c) es st \<Longrightarrow>
    slot_run solver srcs calculate (s, c) (Write call # es) st"
| slot_run_evaluate: "evaluate_slot srcs calculate (s, c) = (r, t, d) \<Longrightarrow>
    slot_run solver srcs calculate (t, d) es st \<Longrightarrow>
    slot_run solver srcs calculate (s, c) (Evaluate # es) st"

text \<open>The invariant: a committed snapshot belongs to an earlier instance and the value is \<open>f\<close> of it.\<close>

definition slot_inv ::
  "(mat3 \<Rightarrow> vec3 option) \<Rightarrow> version_source list \<Rightarrow> (mstate \<Rightarrow> 'v) \<Rightarrow> mstate \<times> 'v slot \<Rightarrow> bool" where
  "slot_inv solver srcs f st = (case st of (s, c) \<Rightarrow>
     (\<forall>snap. slot_snapshot c = Some snap \<longrightarrow>
        (\<exists>s0 calls. state_run solver s0 calls s \<and> snap = current_snapshot srcs s0 \<and> slot_value c = f s0)))"

lemma slot_inv_fresh:
  assumes inv: "slot_inv solver srcs f (s, c)" and f: "depends_only_on srcs f"
    and fresh: "is_fresh srcs (s, c)"
  shows "slot_value c = f s"
proof -
  from inv fresh obtain s0 calls where run: "state_run solver s0 calls s"
    and snap: "current_snapshot srcs s = current_snapshot srcs s0" and v: "slot_value c = f s0"
    by (auto simp: slot_inv_def is_fresh_iff)
  from snap have "data_of s x = data_of s0 x" if "x \<in> set srcs" for x
    using state_run_same_version [OF run] that by (simp add: current_snapshot_def)
  with f v state_run_layout [OF run] show ?thesis
    unfolding depends_only_on_def by auto
qed

lemma slot_inv_call:
  "slot_inv solver srcs f (s, c) \<Longrightarrow> state_run solver s calls t \<Longrightarrow> slot_inv solver srcs f (t, c)"
  unfolding slot_inv_def using state_run_append by fastforce

lemma slot_inv_cold: "slot_snapshot c = None \<Longrightarrow> slot_inv solver srcs f (s, c)"
  by (simp add: slot_inv_def)

lemma slot_inv_evaluate:
  assumes inv: "slot_inv solver srcs f (s, c)" and f: "depends_only_on srcs f"
    and calc: "implements solver calculate f"
    and ev: "evaluate_slot srcs calculate (s, c) = (r, t, d)"
  shows "slot_inv solver srcs f (t, d)" and "\<exists>calls. state_run solver s calls t"
    and "r = Inr v \<Longrightarrow> v = f t"
proof -
  have goal: "slot_inv solver srcs f (t, d) \<and> (\<exists>calls. state_run solver s calls t) \<and> (r = Inr v \<longrightarrow> v = f t)"
  proof (cases "is_fresh srcs (s, c)")
    case True
    with ev have "r = Inr (slot_value c)" "t = s" "d = c" by (auto simp: evaluate_fresh)
    with inv slot_inv_fresh [OF inv f True] show ?thesis by (auto intro: state_run_nil)
  next
    case False
    obtain r' t' w where k: "calculate (s, slot_value c) = (r', t', w)" by (metis surj_pair)
    with ev have t': "t' = t" and cold: "slot_snapshot d \<noteq> None \<Longrightarrow> r' = Inr () \<and>
        every_version t = every_version s \<and> slot_snapshot d = Some (current_snapshot srcs t) \<and> slot_value d = w"
      and r: "r = Inr v \<Longrightarrow> slot_snapshot d \<noteq> None \<and> v = w"
      by (auto simp: evaluate_stale [OF False] split: sum.splits if_splits)
    from calc k t' obtain calls where run: "state_run solver s calls t" and w: "r' = Inr () \<Longrightarrow> w = f s"
      unfolding implements_def by blast
    have same: "w = f t" if "slot_snapshot d \<noteq> None"
    proof -
      have "data_of t x = data_of s x" for x
        using cold [OF that] state_run_same_version [OF run] by (simp add: every_version_eq)
      with f w cold [OF that] state_run_layout [OF run] show ?thesis
        unfolding depends_only_on_def by metis
    qed
    have "slot_inv solver srcs f (t, d)"
      using cold same by (cases "slot_snapshot d") (auto simp: slot_inv_def intro!: exI state_run_nil)
    with run r same show ?thesis by blast
  qed
  then show "slot_inv solver srcs f (t, d)" "\<exists>calls. state_run solver s calls t" "r = Inr v \<Longrightarrow> v = f t"
    by blast+
qed

lemma slot_run_inv:
  "slot_run solver srcs calculate st es st' \<Longrightarrow> slot_inv solver srcs f st \<Longrightarrow>
   depends_only_on srcs f \<Longrightarrow> implements solver calculate f \<Longrightarrow> slot_inv solver srcs f st'"
proof (induction rule: slot_run.induct)
  case (slot_run_nil st)
  then show ?case by simp
next
  case (slot_run_write call s r t c es st)
  have "state_run solver s [call] t"
    using slot_run_write.hyps(1) by (rule state_run_call [OF _ state_run_nil])
  with slot_run_write show ?case by (blast intro: slot_inv_call)
next
  case (slot_run_evaluate s c r t d es st)
  then show ?case using slot_inv_evaluate(1) by blast
qed

text \<open>C1: The cache is transparent.  Take a slot as built, and let setters (also failing ones) and
  evaluations (also ones whose calculator throws, or writes the instance behind the slot's back)
  follow in any order: whenever an evaluation returns, it returns the function its calculator
  implements of the instance as it stands, as if nothing were cached.\<close>

theorem cache_transparent:
  assumes "depends_only_on srcs f" and "implements solver calculate f"
    and "slot_run solver srcs calculate (s0, make_slot v0) es (s, c)"
    and "evaluate_slot srcs calculate (s, c) = (Inr v, t, d)"
  shows "v = f t"
proof -
  have "slot_inv solver srcs f (s0, make_slot v0)"
    by (simp add: slot_inv_cold make_slot_def)
  from slot_run_inv [OF assms(3) this assms(1,2)] slot_inv_evaluate(3) [OF _ assms(1,2,4)]
  show ?thesis by blast
qed

subsection \<open>Witnesses\<close>

text \<open>A slot that caches the sum of the generalized positions.\<close>

definition sum_q :: "mstate \<Rightarrow> double" where
  "sum_q s = foldr (+) (ms_positions s) 0"

definition sum_calculator :: "double calculator" where
  "sum_calculator = (\<lambda>(s, v). (Inr (), s, sum_q s))"

lemma sum_q_depends: "depends_only_on [GeneralizedPositions] sum_q"
  by (simp add: depends_only_on_def sum_q_def)

lemma sum_calculator_implements: "implements solver sum_calculator sum_q"
  by (auto simp: implements_def sum_calculator_def intro: state_run_nil)

definition example_slot :: "double slot" where
  "example_slot = \<lparr>slot_value = 0, slot_snapshot = Some [initial_version], slot_count = 1\<rparr>"

lemma example_evaluate:
  "evaluate_slot [GeneralizedPositions] sum_calculator (example_state, make_slot 9) =
     (Inr 0, example_state, example_slot)"
  by (simp add: evaluate_stale is_fresh_iff make_slot_def sum_calculator_def sum_q_def current_snapshot_def
      example_slot_def example_defs numeral_eq_Suc)

lemma example_write_v:
  "\<exists>t. perform (\<lambda>_. None) (SetVelocities (External [1, 1])) example_state = (Inr (), t)"
  by (simp add: set_generalized_velocities_def setter_guards effect_simps velocity_count_def
      example_defs next_version_def initial_version_def)

lemma cache_transparent_witness:
  "\<exists>t v u d. perform (\<lambda>_. None) (SetPositions (External [1, 2])) example_state = (Inr (), t) \<and>
     evaluate_slot [GeneralizedPositions] sum_calculator (t, example_slot) = (Inr v, u, d) \<and>
     v = sum_q u \<and> sum_q u = 3"
proof -
  obtain t where t: "perform (\<lambda>_. None) (SetPositions (External [1, 2])) example_state = (Inr (), t)"
    and q: "ms_positions t = [1, 2]" and ver: "ms_positions_version t = StateVersion 1"
    by (simp add: set_generalized_positions_def setter_guards effect_simps position_count_def
        example_defs next_version_def initial_version_def)
  have run: "slot_run (\<lambda>_. None) [GeneralizedPositions] sum_calculator (example_state, make_slot 9)
      [Evaluate, Write (SetPositions (External [1, 2]))] (t, example_slot)"
    by (rule slot_run_evaluate [OF example_evaluate slot_run_write [OF t slot_run_nil]])
  obtain v u d where ev: "evaluate_slot [GeneralizedPositions] sum_calculator (t, example_slot) = (Inr v, u, d)"
    and u: "u = t"
    by (simp add: evaluate_stale is_fresh_iff example_slot_def current_snapshot_def ver initial_version_def
        sum_calculator_def)
  have "v = sum_q u"
    by (rule cache_transparent [OF sum_q_depends sum_calculator_implements run ev])
  with t ev show ?thesis by (auto simp: u sum_q_def q)
qed

lemma write_invalidates_exactly_witness:
  "\<exists>t. perform (\<lambda>_. None) (SetVelocities (External [1, 1])) example_state = (Inr (), t) \<and>
     is_fresh [GeneralizedPositions] (t, example_slot)"
proof -
  obtain t where t: "perform (\<lambda>_. None) (SetVelocities (External [1, 1])) example_state = (Inr (), t)"
    using example_write_v by blast
  have "is_fresh [GeneralizedPositions] (example_state, example_slot)"
    by (simp add: is_fresh_iff example_slot_def current_snapshot_def example_defs)
  from write_invalidates_exactly [OF t this] t show ?thesis by auto
qed

end
