(* ===== verification/Multibody_Model.thy ===== *)
theory Multibody_Model
  imports Multibody_State
begin

section \<open>multibody_model: handles, contexts and the continuous-state gate\<close>

text \<open>
  Models the part of \<open>libs/multibody_model\<close> the system layer calls: handles that name their
  model, the evaluation context with its issuer, the write of q and v through the rigid tree's
  quaternion gate, the joint damping copy, and the checks in front of the forward dynamics.
  The vendored rigid tree (\<open>external/drake_mbtree\<close>) is a parameter: its dynamics are the fields
  \<open>mm_forward_dynamics\<close> and \<open>mm_qdot\<close> of the model record, its kinematics \<open>mm_body_pose\<close>,
  \<open>mm_frame_pose\<close>, \<open>mm_frame_offset\<close> and \<open>mm_relative_velocity\<close> (of element ordinals), its
  coordinate-rate maps \<open>mm_map_velocity_to_qdot\<close>, \<open>mm_map_qdot_to_velocity\<close> and
  \<open>mm_map_acceleration_to_qddot\<close> (the first and the last may throw at a singular angle), its
  coordinate assignment the lists \<open>mm_quaternion_starts\<close> and \<open>mm_joint_slots\<close>, its default
  configuration \<open>mm_default_state\<close>.
\<close>

subsection \<open>Handles and wrenches\<close>

datatype 'tag handle = Handle (handle_model: u64) (handle_ordinal: int)

datatype body_tag = BodyTag
datatype frame_tag = FrameTag

type_synonym body_handle = "body_tag handle"
type_synonym frame_handle = "frame_tag handle"

definition invalid_handle :: "'tag handle" where
  "invalid_handle = Handle 0 (- 1)"

definition handle_is_valid :: "'tag handle \<Rightarrow> bool" where
  "handle_is_valid h \<longleftrightarrow> handle_model h \<noteq> 0"

record applied_body_wrench =
  wrench_body :: body_handle
  wrench_point_in_body :: vec3
  wrench_frame :: frame_handle
  wrench_torque :: vec3
  wrench_force :: vec3

record multibody_model =
  mm_identity :: u64
  mm_finalized :: bool
  mm_finalization_failed :: bool
  mm_layout :: state_layout
  mm_body_names :: "string list"
  mm_frame_bodies :: "int list"
  mm_default_state :: mstate
  mm_quaternion_starts :: "nat list"
  mm_joint_slots :: "int list"
  mm_forward_dynamics :: "mstate \<Rightarrow> applied_body_wrench list \<Rightarrow> vec outcome"
  mm_qdot :: "mstate \<Rightarrow> vec"
  mm_map_velocity_to_qdot :: "mstate \<Rightarrow> vec \<Rightarrow> vec outcome"
  mm_map_qdot_to_velocity :: "mstate \<Rightarrow> vec \<Rightarrow> vec"
  mm_map_acceleration_to_qddot :: "mstate \<Rightarrow> vec \<Rightarrow> vec outcome"
  mm_body_pose :: "mstate \<Rightarrow> int \<Rightarrow> mat3 \<times> vec3"
  mm_frame_pose :: "mstate \<Rightarrow> int \<Rightarrow> mat3 \<times> vec3"
  mm_frame_offset :: "mstate \<Rightarrow> int \<Rightarrow> vec3"
  mm_relative_velocity :: "mstate \<Rightarrow> int \<Rightarrow> int \<Rightarrow> int \<Rightarrow> vec3 \<times> vec3"

record multibody_context =
  mc_issuer :: u64
  mc_state :: mstate

definition resolve :: "multibody_model \<Rightarrow> 'tag handle \<Rightarrow> int \<Rightarrow> int outcome" where
  "resolve model h count =
     (if \<not> handle_is_valid h then Inl InvalidArgument
      else if handle_model h \<noteq> mm_identity model then Inl InvalidArgument
      else if handle_ordinal h < 0 \<or> count \<le> handle_ordinal h then Inl InvalidArgument
      else Inr (handle_ordinal h))"

definition throw_if_not_finalized :: "multibody_model \<Rightarrow> unit outcome" where
  "throw_if_not_finalized model =
     all_checks [reject_if (mm_finalization_failed model) LogicError,
                 reject_if (\<not> mm_finalized model) LogicError]"

definition require_own_context :: "multibody_model \<Rightarrow> multibody_context \<Rightarrow> unit outcome" where
  "require_own_context model context = reject_if (mc_issuer context \<noteq> mm_identity model) InvalidArgument"

definition body_count :: "multibody_model \<Rightarrow> int" where
  "body_count model = int (length (mm_body_names model))"

definition frame_count :: "multibody_model \<Rightarrow> int" where
  "frame_count model = int (length (mm_frame_bodies model))"

definition mm_nq :: "multibody_model \<Rightarrow> int" where
  "mm_nq model = ld_generalized_position_count (sl_description (mm_layout model))"

definition mm_nv :: "multibody_model \<Rightarrow> int" where
  "mm_nv model = ld_generalized_velocity_count (sl_description (mm_layout model))"

subsection \<open>Writing q and v\<close>

text \<open>\<open>MultibodyTree::ThrowIfAnyQuaternionCannotBeConvertedToRotation\<close>\<close>

definition quaternion_convertible :: "vec \<Rightarrow> bool" where
  "quaternion_convertible quaternion = (let n = squared_norm quaternion in
     0 < n \<and> isfinite n \<and> isfinite (2 / n))"

definition require_quaternions :: "multibody_model \<Rightarrow> vec \<Rightarrow> unit outcome" where
  "require_quaternions model positions =
     all_checks (map (\<lambda>start. reject_if (\<not> quaternion_convertible (segment start 4 positions)) InvalidArgument)
       (mm_quaternion_starts model))"

text \<open>A setter of the state instance, run on the state inside a context.\<close>

definition on_state :: "(mstate, 'a) effect \<Rightarrow> (multibody_context, 'a) effect" where
  "on_state m context = (case m (mc_state context) of (r, t) \<Rightarrow> (r, context\<lparr>mc_state := t\<rparr>))"

definition validate_state_instance :: "multibody_model \<Rightarrow> multibody_context \<Rightarrow> unit outcome" where
  "validate_state_instance model context =
     reject_if (ms_layout (mc_state context) \<noteq> mm_layout model) InvalidArgument"

definition model_set_generalized_state ::
  "multibody_model \<Rightarrow> vec \<Rightarrow> vec \<Rightarrow> (multibody_context, unit) effect" where
  "model_set_generalized_state model positions velocities =
     seqE (callE (\<lambda>_. throw_if_not_finalized model)) (
     seqE (callE (require_own_context model)) (
     seqE (callE (validate_state_instance model)) (
     seqE (rejectE (\<lambda>_. int (length positions) \<noteq> mm_nq model) InvalidArgument) (
     seqE (rejectE (\<lambda>_. int (length velocities) \<noteq> mm_nv model) InvalidArgument) (
     seqE (callE (\<lambda>_. require_quaternions model positions)) (
     on_state (set_generalized_state (External positions) (External velocities))))))))"

lemma on_state_run: "on_state m context = (r, t) \<longleftrightarrow>
    (\<exists>s. m (mc_state context) = (r, s) \<and> t = context\<lparr>mc_state := s\<rparr>)"
  by (auto simp: on_state_def split: prod.splits)

lemma atomic_on_state [effect_intros]: "atomic m \<Longrightarrow> atomic (on_state m)"
  unfolding atomic_def on_state_run by fastforce

lemma model_set_generalized_state_atomic: "atomic (model_set_generalized_state model q v)"
  unfolding model_set_generalized_state_def
  by (intro effect_intros readonly_intros set_qv.write_atomic)

lemma model_set_generalized_state_Inr:
  assumes "mstate_wf (mc_state c)"
  shows "model_set_generalized_state model q v c = (Inr (), d) \<longleftrightarrow>
     mm_finalized model \<and> \<not> mm_finalization_failed model \<and> mc_issuer c = mm_identity model \<and>
     ms_layout (mc_state c) = mm_layout model \<and> require_quaternions model q = Inr () \<and>
     int (length q) = mm_nq model \<and> int (length v) = mm_nv model \<and> all_finite q \<and> all_finite v \<and>
     (\<exists>nq nv. next_version (ms_positions_version (mc_state c)) = Inr nq \<and>
       next_version (ms_velocities_version (mc_state c)) = Inr nv \<and>
       d = c\<lparr>mc_state := (mc_state c)\<lparr>ms_positions := q, ms_velocities := v,
             ms_positions_version := nq, ms_velocities_version := nv\<rparr>\<rparr>)"
proof -
  have len: "int (length (ms_positions (mc_state c))) = position_count (mc_state c)"
    using assms by (simp add: mstate_wf_def Let_def position_count_def)
  show ?thesis
    by (auto simp: model_set_generalized_state_def effect_outcome on_state_run throw_if_not_finalized_def
        require_own_context_def validate_state_instance_def set_generalized_state_Inr [OF len]
        all_checks.simps(1) mm_nq_def mm_nv_def position_count_def velocity_count_def split: if_splits)
qed

definition model_set_generalized_positions :: "multibody_model \<Rightarrow> vec \<Rightarrow> (multibody_context, unit) effect" where
  "model_set_generalized_positions model positions =
     seqE (callE (\<lambda>_. throw_if_not_finalized model)) (
     seqE (callE (require_own_context model)) (
     seqE (rejectE (\<lambda>_. int (length positions) \<noteq> mm_nq model) InvalidArgument) (
     seqE (callE (validate_state_instance model)) (
     seqE (callE (\<lambda>_. require_quaternions model positions)) (
     on_state (set_generalized_positions (External positions)))))))"

lemma model_set_generalized_positions_atomic: "atomic (model_set_generalized_positions model q)"
  unfolding model_set_generalized_positions_def
  by (intro effect_intros readonly_intros set_q.write_atomic)

lemma model_set_generalized_positions_Inr:
  "model_set_generalized_positions model q c = (Inr (), d) \<longleftrightarrow>
     mm_finalized model \<and> \<not> mm_finalization_failed model \<and> mc_issuer c = mm_identity model \<and>
     ms_layout (mc_state c) = mm_layout model \<and> require_quaternions model q = Inr () \<and>
     int (length q) = mm_nq model \<and> all_finite q \<and>
     (\<exists>nq. next_version (ms_positions_version (mc_state c)) = Inr nq \<and>
       d = c\<lparr>mc_state := (mc_state c)\<lparr>ms_positions := q, ms_positions_version := nq\<rparr>\<rparr>)"
  by (auto simp: model_set_generalized_positions_def effect_outcome on_state_run throw_if_not_finalized_def
      require_own_context_def validate_state_instance_def set_generalized_positions_def setter_guards
      all_checks.simps(1) mm_nq_def position_count_def split: if_splits)

subsection \<open>Coordinate-rate maps\<close>

definition map_velocities_to_position_derivatives ::
  "multibody_model \<Rightarrow> multibody_context \<Rightarrow> vec \<Rightarrow> int \<Rightarrow> vec outcome" where
  "map_velocities_to_position_derivatives model context v output_size =
     bindS (throw_if_not_finalized model) (\<lambda>_.
     bindS (require_own_context model context) (\<lambda>_.
     bindS (all_checks [reject_if (int (length v) \<noteq> mm_nv model) InvalidArgument, reject_if (\<not> all_finite v) InvalidArgument,
              reject_if (output_size \<noteq> mm_nq model) InvalidArgument, validate_state_instance model context]) (\<lambda>_.
       mm_map_velocity_to_qdot model (mc_state context) v)))"

definition map_position_derivatives_to_velocities ::
  "multibody_model \<Rightarrow> multibody_context \<Rightarrow> vec \<Rightarrow> int \<Rightarrow> vec outcome" where
  "map_position_derivatives_to_velocities model context qdot output_size =
     bindS (throw_if_not_finalized model) (\<lambda>_.
     bindS (require_own_context model context) (\<lambda>_.
     bindS (all_checks [reject_if (int (length qdot) \<noteq> mm_nq model) InvalidArgument, reject_if (\<not> all_finite qdot) InvalidArgument,
              reject_if (output_size \<noteq> mm_nv model) InvalidArgument, validate_state_instance model context]) (\<lambda>_.
       Inr (mm_map_qdot_to_velocity model (mc_state context) qdot))))"

definition map_accelerations_to_second_derivatives ::
  "multibody_model \<Rightarrow> multibody_context \<Rightarrow> vec \<Rightarrow> int \<Rightarrow> vec outcome" where
  "map_accelerations_to_second_derivatives model context vdot output_size =
     bindS (throw_if_not_finalized model) (\<lambda>_.
     bindS (require_own_context model context) (\<lambda>_.
     bindS (all_checks [reject_if (int (length vdot) \<noteq> mm_nv model) InvalidArgument, reject_if (\<not> all_finite vdot) InvalidArgument,
              reject_if (output_size \<noteq> mm_nq model) InvalidArgument, validate_state_instance model context]) (\<lambda>_.
     bindS (mm_map_acceleration_to_qddot model (mc_state context) vdot) (\<lambda>qddot.
     bindS (reject_if (\<not> all_finite qddot) RuntimeError) (\<lambda>_. Inr qddot)))))"

subsection \<open>Joint damping\<close>

definition copy_joint_damping :: "multibody_model \<Rightarrow> multibody_context \<Rightarrow> (multibody_context, unit) effect" where
  "copy_joint_damping model source =
     seqE (callE (\<lambda>_. throw_if_not_finalized model)) (
     seqE (callE (\<lambda>_. require_own_context model source)) (
     seqE (callE (require_own_context model)) (
     forE (\<lambda>slot.
       seqE (callE (\<lambda>_. validate_state_instance model source)) (
       bindE (callE (\<lambda>_. joint_damping slot (mc_state source))) (\<lambda>damping.
       seqE (callE (validate_state_instance model)) (
       on_state (set_joint_damping slot damping)))))
     (mm_joint_slots model))))"

text \<open>What the loop needs of the two contexts, and what it keeps of the destination.\<close>

definition same_model :: "multibody_model \<Rightarrow> multibody_context \<Rightarrow> bool" where
  "same_model model c \<longleftrightarrow> mc_issuer c = mm_identity model \<and> ms_layout (mc_state c) = mm_layout model \<and>
     mstate_wf (mc_state c)"

definition slots_ok :: "multibody_model \<Rightarrow> bool" where
  "slots_ok model \<longleftrightarrow> (\<forall>slot \<in> set (mm_joint_slots model). 0 \<le> slot \<and> slot < damped_joint_count (mm_layout model))"

lemma joint_damping_total:
  assumes wf: "mstate_wf s" and slot: "0 \<le> slot" "slot < damped_joint_count (ms_layout s)"
  obtains d where "joint_damping slot s = Inr d"
    and "joint_velocity_count (ms_layout s) slot = Inr (int (length d))"
    and "nonnegative_finite d"
proof -
  obtain count start where c: "joint_velocity_count (ms_layout s) slot = Inr count"
      "joint_damping_start (ms_layout s) slot = Inr start"
    using slot by (simp add: joint_velocity_count_def joint_damping_start_def)
  let ?d = "segment (nat start) (nat count) (ms_damping s)"
  note seg = joint_segment [OF wf c]
  have "nonnegative_finite (ms_damping s)"
    using wf by (simp add: mstate_wf_def Let_def)
  then have "nonnegative_finite ?d"
    unfolding nonnegative_finite_def segment_def by (meson in_set_dropD in_set_takeD)
  moreover have "joint_damping slot s = Inr ?d" by (simp add: joint_damping_def c)
  moreover have "joint_velocity_count (ms_layout s) slot = Inr (int (length ?d))" using seg c by simp
  ultimately show thesis using that by blast
qed

lemma set_joint_damping_ok:
  assumes wf: "mstate_wf t" and same: "ms_layout t = ms_layout s"
    and count: "joint_velocity_count (ms_layout s) slot = Inr (int (length d))" and d: "nonnegative_finite d"
  obtains u k where "set_joint_damping slot d t = (Inr (), u)"
    and "u = t\<lparr>ms_damping := put_segment k d (ms_damping t)\<rparr>"
proof -
  obtain start where start: "joint_damping_start (ms_layout t) slot = Inr start"
    using count by (auto simp: same joint_velocity_count_def joint_damping_start_def split: if_splits)
  let ?u = "t\<lparr>ms_damping := put_segment (nat start) d (ms_damping t)\<rparr>"
  have "set_joint_damping slot d t = (Inr (), ?u)"
    unfolding set_joint_damping_Inr using count start d by (simp add: same)
  then show thesis using that by blast
qed

text \<open>The loop over the slots: it succeeds, and only the damping store changes.\<close>

lemma copy_joint_damping_loop:
  assumes src: "same_model model source"
  shows "same_model model c \<Longrightarrow> \<forall>slot \<in> set slots. 0 \<le> slot \<and> slot < damped_joint_count (mm_layout model) \<Longrightarrow>
    \<exists>damping. forE (\<lambda>slot.
       seqE (callE (\<lambda>_. validate_state_instance model source)) (
       bindE (callE (\<lambda>_. joint_damping slot (mc_state source))) (\<lambda>damping.
       seqE (callE (validate_state_instance model)) (
       on_state (set_joint_damping slot damping))))) slots c =
      (Inr (), c\<lparr>mc_state := (mc_state c)\<lparr>ms_damping := damping\<rparr>\<rparr>) \<and>
    mstate_wf ((mc_state c)\<lparr>ms_damping := damping\<rparr>) \<and>
    (\<forall>joint. joint \<in> set slots \<or> joint_damping joint (mc_state c) = joint_damping joint (mc_state source) \<longrightarrow>
       joint_damping joint ((mc_state c)\<lparr>ms_damping := damping\<rparr>) = joint_damping joint (mc_state source))"
    (is "_ \<Longrightarrow> _ \<Longrightarrow> \<exists>damping. forE ?body slots c = _ \<and> _ \<and> _")
proof (induction slots arbitrary: c)
  case Nil
  then show ?case
    by (intro exI [of _ "ms_damping (mc_state c)"]) (auto simp: ret_def same_model_def)
next
  case (Cons slot slots)
  from src have lay: "ms_layout (mc_state source) = mm_layout model" and swf: "mstate_wf (mc_state source)"
    by (simp_all add: same_model_def)
  from Cons.prems(1) have lay': "ms_layout (mc_state c) = mm_layout model" and cwf: "mstate_wf (mc_state c)"
    by (simp_all add: same_model_def)
  obtain d where d: "joint_damping slot (mc_state source) = Inr d"
    and n: "joint_velocity_count (ms_layout (mc_state source)) slot = Inr (int (length d))"
    and nn: "nonnegative_finite d"
    using joint_damping_total [OF swf] Cons.prems(2) lay by auto
  obtain u k where w: "set_joint_damping slot d (mc_state c) = (Inr (), u)"
    and u: "u = (mc_state c)\<lparr>ms_damping := put_segment k d (ms_damping (mc_state c))\<rparr>"
    using set_joint_damping_ok [OF cwf _ n nn] lay lay' by metis
  have uwf: "mstate_wf u" using set_damping.write_wf [OF cwf w] .
  have body: "?body slot c = (Inr (), c\<lparr>mc_state := u\<rparr>)"
    by (simp add: effect_simps validate_state_instance_def reject_if_def lay lay' d on_state_def w)
  have sm: "same_model model (c\<lparr>mc_state := u\<rparr>)"
    using Cons.prems(1) uwf u by (simp add: same_model_def)
  note read = set_joint_damping_read [OF cwf w]
  obtain damping where run: "forE ?body slots (c\<lparr>mc_state := u\<rparr>) =
      (Inr (), c\<lparr>mc_state := u\<lparr>ms_damping := damping\<rparr>\<rparr>)"
    and wf: "mstate_wf (u\<lparr>ms_damping := damping\<rparr>)"
    and eq: "\<And>joint. joint \<in> set slots \<or> joint_damping joint u = joint_damping joint (mc_state source) \<Longrightarrow>
       joint_damping joint (u\<lparr>ms_damping := damping\<rparr>) = joint_damping joint (mc_state source)"
    using Cons.IH [OF sm] Cons.prems(2) by auto
  have u': "u\<lparr>ms_damping := damping\<rparr> = (mc_state c)\<lparr>ms_damping := damping\<rparr>"
    by (simp add: u)
  have "joint_damping joint ((mc_state c)\<lparr>ms_damping := damping\<rparr>) = joint_damping joint (mc_state source)"
    if "joint \<in> set (slot # slots) \<or> joint_damping joint (mc_state c) = joint_damping joint (mc_state source)" for joint
    unfolding u' [symmetric] using that eq [of joint] read d by (cases "joint = slot") auto
  then show ?case
    using run wf by (intro exI [of _ damping]) (simp add: seqE_run [of "?body slot"] body u')
qed

lemma copy_joint_damping_run:
  assumes "mm_finalized model" "\<not> mm_finalization_failed model" and "slots_ok model"
    and "same_model model source" and "same_model model c"
  obtains damping where
    "copy_joint_damping model source c = (Inr (), c\<lparr>mc_state := (mc_state c)\<lparr>ms_damping := damping\<rparr>\<rparr>)"
    and "mstate_wf ((mc_state c)\<lparr>ms_damping := damping\<rparr>)"
    and "\<And>joint. joint \<in> set (mm_joint_slots model) \<Longrightarrow>
       joint_damping joint ((mc_state c)\<lparr>ms_damping := damping\<rparr>) = joint_damping joint (mc_state source)"
proof -
  have guards: "throw_if_not_finalized model = Inr ()" "require_own_context model source = Inr ()"
    "require_own_context model c = Inr ()"
    using assms by (simp_all add: throw_if_not_finalized_def require_own_context_def reject_if_def
        same_model_def all_checks.simps)
  have slots: "\<forall>slot \<in> set (mm_joint_slots model). 0 \<le> slot \<and> slot < damped_joint_count (mm_layout model)"
    using assms(3) by (simp add: slots_ok_def)
  from copy_joint_damping_loop [OF assms(4,5) slots] obtain damping where
    "copy_joint_damping model source c = (Inr (), c\<lparr>mc_state := (mc_state c)\<lparr>ms_damping := damping\<rparr>\<rparr>)"
    "mstate_wf ((mc_state c)\<lparr>ms_damping := damping\<rparr>)"
    "\<forall>joint. joint \<in> set (mm_joint_slots model) \<longrightarrow>
       joint_damping joint ((mc_state c)\<lparr>ms_damping := damping\<rparr>) = joint_damping joint (mc_state source)"
    by (auto simp: copy_joint_damping_def effect_simps guards)
  then show thesis using that by blast
qed

subsection \<open>Derivatives\<close>

definition wrench_ok :: "multibody_model \<Rightarrow> applied_body_wrench \<Rightarrow> unit outcome" where
  "wrench_ok model w =
     bindS (resolve model (wrench_body w) (body_count model)) (\<lambda>_.
     bindS (resolve model (wrench_frame w) (frame_count model)) (\<lambda>_.
       reject_if (\<not> all_finite (v3 (wrench_point_in_body w)) \<or> \<not> all_finite (v3 (wrench_torque w)) \<or>
                  \<not> all_finite (v3 (wrench_force w))) InvalidArgument))"

definition evaluate_forward_dynamics ::
  "multibody_model \<Rightarrow> multibody_context \<Rightarrow> applied_body_wrench list \<Rightarrow> vec outcome" where
  "evaluate_forward_dynamics model context wrenches =
     bindS (throw_if_not_finalized model) (\<lambda>_.
     bindS (require_own_context model context) (\<lambda>_.
     bindS (all_checks (map (wrench_ok model) wrenches)) (\<lambda>_.
       mm_forward_dynamics model (mc_state context) wrenches)))"

text \<open>The facade's \<open>[qdot; vdot]\<close>, for an output of \<open>count\<close> entries.\<close>

definition model_state_time_derivatives ::
  "multibody_model \<Rightarrow> multibody_context \<Rightarrow> applied_body_wrench list \<Rightarrow> int \<Rightarrow> vec outcome" where
  "model_state_time_derivatives model context wrenches count =
     bindS (reject_if (count \<noteq> mm_nq model + mm_nv model) InvalidArgument) (\<lambda>_.
     bindS (evaluate_forward_dynamics model context wrenches) (\<lambda>vdot.
       Inr (mm_qdot model (mc_state context) @ vdot)))"

subsection \<open>Kinematic queries\<close>

definition make_handle :: "multibody_model \<Rightarrow> int \<Rightarrow> 'tag handle" where
  "make_handle model ordinal = Handle (mm_identity model) ordinal"

definition world_frame :: "multibody_model \<Rightarrow> frame_handle" where
  "world_frame model = make_handle model 0"

definition query :: "multibody_model \<Rightarrow> multibody_context \<Rightarrow> unit outcome" where
  "query model context = all_checks [throw_if_not_finalized model, require_own_context model context]"

definition calc_body_pose :: "multibody_model \<Rightarrow> multibody_context \<Rightarrow> body_handle \<Rightarrow> (mat3 \<times> vec3) outcome" where
  "calc_body_pose model context body =
     bindS (query model context) (\<lambda>_.
     bindS (resolve model body (body_count model)) (\<lambda>ordinal.
       Inr (mm_body_pose model (mc_state context) ordinal)))"

definition calc_frame_pose :: "multibody_model \<Rightarrow> multibody_context \<Rightarrow> frame_handle \<Rightarrow> (mat3 \<times> vec3) outcome" where
  "calc_frame_pose model context frame =
     bindS (query model context) (\<lambda>_.
     bindS (resolve model frame (frame_count model)) (\<lambda>ordinal.
       Inr (mm_frame_pose model (mc_state context) ordinal)))"

definition calc_frame_origin_as_body_fixed_point ::
  "multibody_model \<Rightarrow> multibody_context \<Rightarrow> frame_handle \<Rightarrow> (body_handle \<times> vec3) outcome" where
  "calc_frame_origin_as_body_fixed_point model context frame =
     bindS (query model context) (\<lambda>_.
     bindS (resolve model frame (frame_count model)) (\<lambda>ordinal.
       let body = mm_frame_bodies model ! nat ordinal in
       if body = 0 then Inl InvalidArgument
       else Inr (make_handle model body, mm_frame_offset model (mc_state context) ordinal)))"

text \<open>The angular and the translational velocity of \<open>frame\<close> relative to \<open>base\<close>, in \<open>expressed\<close>.\<close>

definition calc_relative_velocity ::
  "multibody_model \<Rightarrow> multibody_context \<Rightarrow> frame_handle \<Rightarrow> frame_handle \<Rightarrow> frame_handle \<Rightarrow> (vec3 \<times> vec3) outcome" where
  "calc_relative_velocity model context frame base expressed =
     bindS (query model context) (\<lambda>_.
     bindS (resolve model frame (frame_count model)) (\<lambda>f.
     bindS (resolve model base (frame_count model)) (\<lambda>b.
     bindS (resolve model expressed (frame_count model)) (\<lambda>e.
       Inr (mm_relative_velocity model (mc_state context) f b e)))))"

fun find_ordinal :: "string list \<Rightarrow> string \<Rightarrow> nat \<Rightarrow> nat option" where
  "find_ordinal [] name k = None"
| "find_ordinal (x # xs) name k = (if x = name then Some k else find_ordinal xs name (Suc k))"

definition get_rigid_body_by_name :: "multibody_model \<Rightarrow> string \<Rightarrow> body_handle outcome" where
  "get_rigid_body_by_name model name =
     bindS (throw_if_not_finalized model) (\<lambda>_.
       case find_ordinal (mm_body_names model) name 0 of
         None \<Rightarrow> Inl InvalidArgument
       | Some k \<Rightarrow> if k = 0 then Inl InvalidArgument else Inr (make_handle model (int k)))"

definition create_default_context :: "multibody_model \<Rightarrow> multibody_context outcome" where
  "create_default_context model =
     bindS (throw_if_not_finalized model) (\<lambda>_.
       Inr \<lparr>mc_issuer = mm_identity model, mc_state = mm_default_state model\<rparr>)"

lemma find_ordinal_Some: "find_ordinal xs name k = Some i \<Longrightarrow> k \<le> i \<and> i < k + length xs \<and> xs ! (i - k) = name"
proof (induction xs arbitrary: k)
  case Nil
  then show ?case by simp
next
  case (Cons x xs)
  show ?case
  proof (cases "x = name")
    case True
    with Cons.prems show ?thesis by simp
  next
    case False
    with Cons.prems have "find_ordinal xs name (Suc k) = Some i" by simp
    from Cons.IH [OF this] have i: "Suc k \<le> i" "i < Suc k + length xs" "xs ! (i - Suc k) = name" by auto
    then have "i - k = Suc (i - Suc k)" by simp
    with i show ?thesis by simp
  qed
qed

lemma find_ordinal_None: "find_ordinal xs name k = None \<longleftrightarrow> name \<notin> set xs"
  by (induction xs arbitrary: k) auto

lemma resolve_Inr: "resolve model h count = Inr i \<longleftrightarrow>
    handle_model h \<noteq> 0 \<and> handle_model h = mm_identity model \<and> 0 \<le> i \<and> i < count \<and> h = make_handle model i"
  by (cases h) (auto simp: resolve_def make_handle_def handle_is_valid_def)

end
