(* ===== verification/Vehicle_Forces.thy ===== *)
theory Vehicle_Forces
  imports Multibody_Model
begin

section \<open>forces: the vehicle force plan and the active torque plan\<close>

text \<open>
  Models \<open>libs/forces/src/vehicle_force_plan.cc\<close>, \<open>independent_wheel_active_torque_plan.cc\<close> and
  \<open>body_wrench_pair.h\<close>: the five element families as records, the plan constructor with its
  validation, and the evaluation of every element into two wrenches each.  Eigen's conversion
  between rotation matrices and quaternions is a parameter (\<open>rotations\<close>).
  The lemmas show that the emitted wrenches are in equilibrium (no net force, no net moment
  about any point), and that the clipped damper is odd, bounded and dissipative.
\<close>

subsection \<open>The element families\<close>

datatype force_element_axis = Longitudinal | Lateral | Vertical

fun axis_index :: "force_element_axis \<Rightarrow> nat" where
  "axis_index Longitudinal = 0"
| "axis_index Lateral = 1"
| "axis_index Vertical = 2"

record translational_spring_damper =
  tsd_name :: string
  tsd_reference_end :: frame_handle
  tsd_opposite_end :: frame_handle
  tsd_stiffness :: vec3
  tsd_damping :: vec3

record roll_spring_damper_couple =
  rsd_name :: string
  rsd_reference_end :: frame_handle
  rsd_opposite_end :: frame_handle
  rsd_stiffness :: double
  rsd_damping :: double

record series_spring_viscous_damper =
  ssd_name :: string
  ssd_reference_end :: frame_handle
  ssd_opposite_end :: frame_handle
  ssd_axis :: force_element_axis
  ssd_stiffness :: double
  ssd_damping :: double

record saturated_damper =
  spd_name :: string
  spd_reference_end :: frame_handle
  spd_opposite_end :: frame_handle
  spd_axis :: force_element_axis
  spd_curve :: "(double \<times> double) list"

record half_angle_bushing =
  hab_name :: string
  hab_frame_a_end :: frame_handle
  hab_frame_c_end :: frame_handle
  hab_rotational_stiffness :: vec3
  hab_rotational_damping :: vec3
  hab_translational_stiffness :: vec3
  hab_translational_damping :: vec3

record force_elements =
  fe_translational :: "translational_spring_damper list"
  fe_roll :: "roll_spring_damper_couple list"
  fe_series :: "series_spring_viscous_damper list"
  fe_saturated :: "saturated_damper list"
  fe_bushings :: "half_angle_bushing list"

record vehicle_force_plan =
  vfp_model :: multibody_model
  vfp_elements :: force_elements

definition series_force_state_count :: "vehicle_force_plan \<Rightarrow> nat" where
  "series_force_state_count plan = length (fe_series (vfp_elements plan))"

definition nominal_force_component_count :: "vehicle_force_plan \<Rightarrow> nat" where
  "nominal_force_component_count plan = 3 * length (fe_translational (vfp_elements plan))"

definition body_wrench_count :: "vehicle_force_plan \<Rightarrow> nat" where
  "body_wrench_count plan = (let e = vfp_elements plan in
     2 * (length (fe_translational e) + length (fe_roll e) + length (fe_series e) +
          length (fe_saturated e) + length (fe_bushings e)))"

subsection \<open>Building a plan\<close>

definition require_unique_name :: "string \<Rightarrow> string list \<Rightarrow> string list outcome" where
  "require_unique_name name names =
     (if name = [] then Inl InvalidArgument
      else if List.member names name then Inl InvalidArgument
      else Inr (name # names))"

definition require_distinct_live_ends ::
  "multibody_model \<Rightarrow> multibody_context \<Rightarrow> frame_handle \<Rightarrow> frame_handle \<Rightarrow> unit outcome" where
  "require_distinct_live_ends model context reference opposite =
     bindS (reject_if (reference = opposite) InvalidArgument) (\<lambda>_.
     bindS (calc_frame_origin_as_body_fixed_point model context reference) (\<lambda>reference_point.
     bindS (calc_frame_origin_as_body_fixed_point model context opposite) (\<lambda>opposite_point.
       reject_if (fst reference_point = fst opposite_point) InvalidArgument)))"

definition require_passive :: "vec3 \<Rightarrow> unit outcome" where
  "require_passive values =
     all_checks [reject_if (\<not> all_finite (v3 values)) InvalidArgument,
                 reject_if (list_ex (\<lambda>x. x < 0) (v3 values)) InvalidArgument]"

text \<open>The loop body over the curve points after the first, with the previous point's velocity.\<close>

fun validate_curve_points :: "double \<Rightarrow> (double \<times> double) list \<Rightarrow> unit outcome" where
  "validate_curve_points previous [] = Inr ()"
| "validate_curve_points previous ((v, f) # points) =
     (if \<not> isfinite v \<or> \<not> isfinite f then Inl InvalidArgument
      else if f < 0 then Inl InvalidArgument
      else if \<not> previous < v then Inl InvalidArgument
      else validate_curve_points v points)"

definition validate_saturated_curve :: "saturated_damper \<Rightarrow> unit outcome" where
  "validate_saturated_curve element =
     (case spd_curve element of
        (v0, f0) # p # points \<Rightarrow>
          if \<not> feq v0 0 \<or> \<not> feq f0 0 then Inl InvalidArgument
          else validate_curve_points v0 (p # points)
      | _ \<Rightarrow> Inl InvalidArgument)"

fun validate_each :: "('e \<Rightarrow> string list \<Rightarrow> string list outcome) \<Rightarrow> 'e list \<Rightarrow> string list \<Rightarrow> string list outcome" where
  "validate_each validate [] names = Inr names"
| "validate_each validate (e # es) names =
     bindS (validate e names) (\<lambda>names'. validate_each validate es names')"

definition validate_translational ::
  "multibody_model \<Rightarrow> multibody_context \<Rightarrow> translational_spring_damper \<Rightarrow> string list \<Rightarrow> string list outcome" where
  "validate_translational model context e names =
     bindS (require_unique_name (tsd_name e) names) (\<lambda>names'.
     bindS (require_distinct_live_ends model context (tsd_reference_end e) (tsd_opposite_end e)) (\<lambda>_.
     bindS (require_passive (tsd_stiffness e)) (\<lambda>_.
     bindS (require_passive (tsd_damping e)) (\<lambda>_. Inr names'))))"

definition validate_roll ::
  "multibody_model \<Rightarrow> multibody_context \<Rightarrow> roll_spring_damper_couple \<Rightarrow> string list \<Rightarrow> string list outcome" where
  "validate_roll model context e names =
     bindS (require_unique_name (rsd_name e) names) (\<lambda>names'.
     bindS (require_distinct_live_ends model context (rsd_reference_end e) (rsd_opposite_end e)) (\<lambda>_.
     bindS (reject_if (\<not> isfinite (rsd_stiffness e) \<or> rsd_stiffness e < 0 \<or>
                        \<not> isfinite (rsd_damping e) \<or> rsd_damping e < 0) InvalidArgument) (\<lambda>_. Inr names')))"

definition validate_series ::
  "multibody_model \<Rightarrow> multibody_context \<Rightarrow> series_spring_viscous_damper \<Rightarrow> string list \<Rightarrow> string list outcome" where
  "validate_series model context e names =
     bindS (require_unique_name (ssd_name e) names) (\<lambda>names'.
     bindS (require_distinct_live_ends model context (ssd_reference_end e) (ssd_opposite_end e)) (\<lambda>_.
     bindS (reject_if (\<not> 0 < ssd_stiffness e \<or> \<not> isfinite (ssd_stiffness e) \<or>
                        \<not> 0 < ssd_damping e \<or> \<not> isfinite (ssd_damping e)) InvalidArgument) (\<lambda>_.
     bindS (reject_if (\<not> isfinite (ssd_stiffness e / ssd_damping e)) InvalidArgument) (\<lambda>_. Inr names'))))"

definition validate_saturated ::
  "multibody_model \<Rightarrow> multibody_context \<Rightarrow> saturated_damper \<Rightarrow> string list \<Rightarrow> string list outcome" where
  "validate_saturated model context e names =
     bindS (require_unique_name (spd_name e) names) (\<lambda>names'.
     bindS (require_distinct_live_ends model context (spd_reference_end e) (spd_opposite_end e)) (\<lambda>_.
     bindS (validate_saturated_curve e) (\<lambda>_. Inr names')))"

definition validate_bushing ::
  "multibody_model \<Rightarrow> multibody_context \<Rightarrow> half_angle_bushing \<Rightarrow> string list \<Rightarrow> string list outcome" where
  "validate_bushing model context e names =
     bindS (require_unique_name (hab_name e) names) (\<lambda>names'.
     bindS (require_distinct_live_ends model context (hab_frame_a_end e) (hab_frame_c_end e)) (\<lambda>_.
     bindS (require_passive (hab_rotational_stiffness e)) (\<lambda>_.
     bindS (require_passive (hab_rotational_damping e)) (\<lambda>_.
     bindS (require_passive (hab_translational_stiffness e)) (\<lambda>_.
     bindS (require_passive (hab_translational_damping e)) (\<lambda>_. Inr names'))))))"

definition make_vehicle_force_plan :: "multibody_model \<Rightarrow> force_elements \<Rightarrow> vehicle_force_plan outcome" where
  "make_vehicle_force_plan model elements =
     bindS (reject_if (\<not> mm_finalized model) LogicError) (\<lambda>_.
     bindS (create_default_context model) (\<lambda>context.
     bindS (validate_each (validate_translational model context) (fe_translational elements) []) (\<lambda>n1.
     bindS (validate_each (validate_roll model context) (fe_roll elements) n1) (\<lambda>n2.
     bindS (validate_each (validate_series model context) (fe_series elements) n2) (\<lambda>n3.
     bindS (validate_each (validate_saturated model context) (fe_saturated elements) n3) (\<lambda>n4.
     bindS (validate_each (validate_bushing model context) (fe_bushings elements) n4) (\<lambda>n5.
       Inr \<lparr>vfp_model = model, vfp_elements = elements\<rparr>)))))))"

definition find_translational_ordinal :: "vehicle_force_plan \<Rightarrow> string \<Rightarrow> nat outcome" where
  "find_translational_ordinal plan name =
     (case find_ordinal (map tsd_name (fe_translational (vfp_elements plan))) name 0 of
        None \<Rightarrow> Inl InvalidArgument | Some k \<Rightarrow> Inr k)"

definition find_series_ordinal :: "vehicle_force_plan \<Rightarrow> string \<Rightarrow> nat outcome" where
  "find_series_ordinal plan name =
     (case find_ordinal (map ssd_name (fe_series (vfp_elements plan))) name 0 of
        None \<Rightarrow> Inl InvalidArgument | Some k \<Rightarrow> Inr k)"

subsection \<open>The clipped damper's force law\<close>

text \<open>The search loop: \<open>(lv, lf)\<close> is the point before the ones still to be looked at.\<close>

fun curve_lookup :: "double \<Rightarrow> double \<Rightarrow> double \<Rightarrow> double \<Rightarrow> (double \<times> double) list \<Rightarrow> double option" where
  "curve_lookup sg speed lv lf [] = None"
| "curve_lookup sg speed lv lf ((uv, uf) # points) =
     (if speed \<le> uv then
        let span = uv - lv; fraction = (speed - lv) / span in
        Some (sg * (lf + fraction * (uf - lf)))
      else curve_lookup sg speed uv uf points)"

definition evaluate_saturated_curve :: "saturated_damper \<Rightarrow> double \<Rightarrow> double" where
  "evaluate_saturated_curve damper velocity =
     (let sg = (if velocity < 0 then - 1 else 1);
          speed = \<bar>velocity\<bar>;
          curve = spd_curve damper
      in if fst (last curve) \<le> speed then sg * snd (last curve)
         else case curve_lookup sg speed (fst (hd curve)) (snd (hd curve)) (tl curve) of
                Some force \<Rightarrow> force
              | None \<Rightarrow> sg * snd (last curve))"

definition saturated_damper_force :: "saturated_damper \<Rightarrow> double \<Rightarrow> double outcome" where
  "saturated_damper_force damper velocity =
     bindS (validate_saturated_curve damper) (\<lambda>_.
     bindS (reject_if (\<not> isfinite velocity) InvalidArgument) (\<lambda>_.
       Inr (evaluate_saturated_curve damper velocity)))"

text \<open>A validated curve, point by point: finite, ascending, non-negative forces.\<close>

fun curve_ok :: "real \<Rightarrow> (double \<times> double) list \<Rightarrow> bool" where
  "curve_ok lv [] = True"
| "curve_ok lv ((v, f) # points) =
     (\<exists>x y. v = Fin x \<and> f = Fin y \<and> lv < x \<and> 0 \<le> y \<and> curve_ok x points)"

lemma curve_points_ok: "validate_curve_points (Fin lv) points = Inr () \<Longrightarrow> curve_ok lv points"
proof (induction "Fin lv" points arbitrary: lv rule: validate_curve_points.induct)
  case 1
  then show ?case by simp
next
  case (2 v f points)
  then show ?case by (cases v; cases f) (auto split: if_splits)
qed

lemma validated_curve:
  assumes "validate_saturated_curve d = Inr ()"
  obtains p points where "spd_curve d = (Fin 0, Fin 0) # p # points" and "curve_ok 0 (p # points)"
proof -
  from assms obtain v0 f0 p points where c: "spd_curve d = (v0, f0) # p # points"
    and z: "feq v0 0" "feq f0 0" and v: "validate_curve_points v0 (p # points) = Inr ()"
    by (auto simp: validate_saturated_curve_def split: list.splits prod.splits if_splits)
  from z have "v0 = Fin 0" "f0 = Fin 0" by (simp_all add: feq_def)
  with c curve_points_ok v show thesis using that by blast
qed

lemma convex_between:
  fixes t lf uf :: real
  assumes t: "0 \<le> t" "t \<le> 1" and "0 \<le> lf" "0 \<le> uf"
  shows "0 \<le> lf + t * (uf - lf)" and "lf + t * (uf - lf) \<le> max lf uf"
proof -
  have e: "lf + t * (uf - lf) = (1 - t) * lf + t * uf" by (simp add: algebra_simps)
  show "0 \<le> lf + t * (uf - lf)" unfolding e using assms by (intro add_nonneg_nonneg mult_nonneg_nonneg) auto
  have "(1 - t) * lf + t * uf \<le> (1 - t) * max lf uf + t * max lf uf"
    using t by (intro add_mono mult_left_mono) auto
  also have "\<dots> = max lf uf" by (simp add: algebra_simps)
  finally show "lf + t * (uf - lf) \<le> max lf uf" unfolding e .
qed

lemma curve_lookup_value:
  "curve_ok lv points \<Longrightarrow> points \<noteq> [] \<Longrightarrow> 0 \<le> lf \<Longrightarrow> lv \<le> s \<Longrightarrow> \<not> fst (last points) \<le> Fin s \<Longrightarrow>
   \<exists>y. (\<forall>sg. curve_lookup sg (Fin s) (Fin lv) (Fin lf) points = Some (sg * Fin y)) \<and> 0 \<le> y \<and>
     (\<exists>p \<in> set ((Fin lv, Fin lf) # points). Fin y \<le> snd p)"
proof (induction points arbitrary: lv lf)
  case Nil
  then show ?case by simp
next
  case (Cons p points)
  then obtain uv uf where p: "p = (Fin uv, Fin uf)" and ok: "lv < uv" "0 \<le> uf" "curve_ok uv points"
    by (cases p) auto
  show ?case
  proof (cases "s \<le> uv")
    case True
    define t where "t = (s - lv) / (uv - lv)"
    have t: "0 \<le> t" "t \<le> 1" using True ok Cons.prems(4) by (auto simp: t_def divide_simps)
    note i = convex_between [OF t Cons.prems(3) ok(2)]
    have "\<forall>sg. curve_lookup sg (Fin s) (Fin lv) (Fin lf) (p # points) = Some (sg * Fin (lf + t * (uf - lf)))"
      using True ok by (simp add: p Let_def t_def)
    moreover have "\<exists>q \<in> set ((Fin lv, Fin lf) # p # points). Fin (lf + t * (uf - lf)) \<le> snd q"
      using i(2) by (auto simp: p max_def split: if_splits)
    ultimately show ?thesis using i(1) by blast
  next
    case False
    then have "points \<noteq> []" using Cons.prems(5) p by auto
    moreover have "\<not> fst (last points) \<le> Fin s" using Cons.prems(5) \<open>points \<noteq> []\<close> by simp
    ultimately obtain y where "\<forall>sg. curve_lookup sg (Fin s) (Fin uv) (Fin uf) points = Some (sg * Fin y)" "0 \<le> y"
      "\<exists>q \<in> set ((Fin uv, Fin uf) # points). Fin y \<le> snd q"
      using Cons.IH [OF ok(3) _ ok(2)] False by force
    then show ?thesis using False by (intro exI [of _ y]) (auto simp: p)
  qed
qed

lemma curve_last_finite: "curve_ok lv points \<Longrightarrow> points \<noteq> [] \<Longrightarrow>
    \<exists>x y. last points = (Fin x, Fin y) \<and> lv < x \<and> 0 \<le> y"
proof (induction points arbitrary: lv)
  case Nil
  then show ?case by simp
next
  case (Cons p points)
  then obtain x y where p: "p = (Fin x, Fin y)" "lv < x" "0 \<le> y" "curve_ok x points" by (cases p) auto
  show ?case
  proof (cases "points = []")
    case True
    with p show ?thesis by simp
  next
    case False
    with Cons.IH [OF p(4)] p show ?thesis by force
  qed
qed

text \<open>The force at speed \<open>s\<close>, before the sign is put on.\<close>

definition signed :: "double \<Rightarrow> double \<Rightarrow> double" where
  "signed v y = (if v < 0 then - 1 else 1) * y"

lemma saturated_magnitude:
  assumes "validate_saturated_curve d = Inr ()" and "0 \<le> s"
  obtains y where "\<And>v. \<bar>v\<bar> = Fin s \<Longrightarrow> evaluate_saturated_curve d v = signed v (Fin y)"
    and "0 \<le> y" and "\<exists>p \<in> set (spd_curve d). Fin y \<le> snd p" and "s = 0 \<Longrightarrow> y = 0"
proof -
  obtain p points where c: "spd_curve d = (Fin 0, Fin 0) # p # points" and ok: "curve_ok 0 (p # points)"
    using validated_curve [OF assms(1)] by blast
  obtain x y where l: "last (p # points) = (Fin x, Fin y)" "0 < x" "0 \<le> y"
    using curve_last_finite [OF ok] by auto
  show thesis
  proof (cases "x \<le> s")
    case True
    have "(Fin x, Fin y) \<in> set (p # points)" using l(1) last_in_set [of "p # points"] by simp
    then have q: "\<exists>q \<in> set (spd_curve d). Fin y \<le> snd q" by (force simp: c)
    show thesis
      by (rule that [of y]) (use True l q in \<open>auto simp: evaluate_saturated_curve_def c Let_def signed_def\<close>)
  next
    case False
    then have last: "\<not> fst (last (p # points)) \<le> Fin s" using l by (simp del: last.simps)
    obtain z where z: "\<forall>sg. curve_lookup sg (Fin s) (Fin 0) (Fin 0) (p # points) = Some (sg * Fin z)" "0 \<le> z"
      "\<exists>q \<in> set ((Fin 0, Fin 0) # p # points). Fin z \<le> snd q"
      using curve_lookup_value [OF ok _ order_refl assms(2) last] by blast
    have "z = 0" if "s = 0"
    proof -
      obtain p1 p2 where p: "p = (Fin p1, Fin p2)" "0 < p1" using ok by (cases p) auto
      have "curve_lookup 1 (Fin s) (Fin 0) (Fin 0) (p # points) = Some (1 * Fin z)"
        using z(1) by blast
      then show "z = 0" using p that by (simp add: Let_def)
    qed
    with z False l show thesis
      by (intro that [of z]) (auto simp: evaluate_saturated_curve_def c Let_def signed_def)
  qed
qed

text \<open>C22: The clipped piecewise-linear damper is passive: for every accepted curve and finite relative
  velocity its force is an odd function of the velocity that never pushes against the motion's
  direction (power \<open>f v \<ge> 0\<close>), vanishes at rest, and never exceeds the largest force of the curve.\<close>

theorem saturated_damper_odd_passive_bounded:
  assumes "saturated_damper_force d v = Inr f"
  shows "saturated_damper_force d (- v) = Inr (- f) \<and> 0 \<le> f * v \<and> (v = 0 \<longrightarrow> f = 0) \<and>
    (\<exists>p \<in> set (spd_curve d). \<bar>f\<bar> \<le> snd p)"
proof -
  have d: "validate_saturated_curve d = Inr ()" and v: "isfinite v" and f: "f = evaluate_saturated_curve d v"
    using assms by (auto simp: saturated_damper_force_def bindS_eq_Inr)
  obtain x where x: "v = Fin x" using v by (cases v) auto
  obtain y where y: "\<And>v. \<bar>v\<bar> = Fin \<bar>x\<bar> \<Longrightarrow> evaluate_saturated_curve d v = signed v (Fin y)"
    and y0: "0 \<le> y" and b: "\<exists>p \<in> set (spd_curve d). Fin y \<le> snd p" and z: "\<bar>x\<bar> = 0 \<Longrightarrow> y = 0"
    using saturated_magnitude [OF d, of "\<bar>x\<bar>"] by auto
  have fy: "f = Fin (if x < 0 then - y else y)"
    using y [of v] by (simp add: f x signed_def)
  have "evaluate_saturated_curve d (- v) = - f"
    using y [of "- v"] z by (auto simp: x fy signed_def)
  moreover have "0 \<le> f * v" using y0 by (simp add: fy x mult_nonneg_nonneg mult_nonneg_nonpos)
  moreover have "\<bar>f\<bar> = Fin y" using y0 by (simp add: fy)
  ultimately show ?thesis
    using d v b z by (auto simp: saturated_damper_force_def fy x)
qed

subsection \<open>Relative motion\<close>

record relative_motion =
  rm_reference_point :: "body_handle \<times> vec3"
  rm_opposite_point :: "body_handle \<times> vec3"
  rm_displacement_in_reference :: vec3
  rm_rotation_of_opposite :: mat3
  rm_velocity :: vec3
  rm_angular_velocity :: vec3
  rm_displacement_in_world :: vec3
  rm_rotation_of_reference :: mat3
  rm_reference_origin :: vec3

definition calc_relative_motion ::
  "multibody_model \<Rightarrow> multibody_context \<Rightarrow> frame_handle \<Rightarrow> frame_handle \<Rightarrow> relative_motion outcome" where
  "calc_relative_motion model context reference opposite =
     bindS (calc_frame_pose model context reference) (\<lambda>(reference_rotation, reference_translation).
     bindS (calc_frame_pose model context opposite) (\<lambda>(opposite_rotation, opposite_translation).
     bindS (calc_relative_velocity model context opposite reference reference) (\<lambda>(angular, translational).
     bindS (calc_frame_origin_as_body_fixed_point model context reference) (\<lambda>reference_point.
     bindS (calc_frame_origin_as_body_fixed_point model context opposite) (\<lambda>opposite_point.
       let displacement = sub3 opposite_translation reference_translation in
       Inr \<lparr>rm_reference_point = reference_point, rm_opposite_point = opposite_point,
            rm_displacement_in_reference = rotate3 (transpose3 reference_rotation) displacement,
            rm_rotation_of_opposite = times3 (transpose3 reference_rotation) opposite_rotation,
            rm_velocity = translational, rm_angular_velocity = angular,
            rm_displacement_in_world = displacement,
            rm_rotation_of_reference = reference_rotation,
            rm_reference_origin = reference_translation\<rparr>)))))"

subsection \<open>Half-angle rotation and roll-pitch-yaw\<close>

type_synonym quaternion = "double \<times> double \<times> double \<times> double"

text \<open>Eigen's conversions, \<open>(w, x, y, z)\<close>.\<close>

record rotations =
  quaternion_from_matrix :: "mat3 \<Rightarrow> quaternion"
  matrix_from_quaternion :: "quaternion \<Rightarrow> mat3"

fun normalize_quaternion :: "quaternion \<Rightarrow> quaternion" where
  "normalize_quaternion (w, x, y, z) = (let n = squared_norm [x, y, z, w] in
     if 0 < n then (w / std_sqrt n, x / std_sqrt n, y / std_sqrt n, z / std_sqrt n) else (w, x, y, z))"

definition canonical_quaternion :: "rotations \<Rightarrow> mat3 \<Rightarrow> quaternion" where
  "canonical_quaternion rot rotation =
     (case normalize_quaternion (quaternion_from_matrix rot rotation) of (w, x, y, z) \<Rightarrow>
        if w < 0 then (w * - 1, x * - 1, y * - 1, z * - 1) else (w, x, y, z))"

definition half_angle_rotation :: "rotations \<Rightarrow> mat3 \<Rightarrow> mat3" where
  "half_angle_rotation rot rotation =
     (case canonical_quaternion rot rotation of (w, x, y, z) \<Rightarrow>
        let scalar = std_sqrt (half * (w + 1)); vector_scale = 1 / (2 * scalar) in
        matrix_from_quaternion rot (scalar, x * vector_scale, y * vector_scale, z * vector_scale))"

definition wrap_once :: "double \<Rightarrow> double" where
  "wrap_once angle =
     (if numbers_pi < angle then angle - 2 * numbers_pi
      else if angle < - numbers_pi then angle + 2 * numbers_pi else angle)"

definition kGimbalLockToleranceCosPitch :: double where
  "kGimbalLockToleranceCosPitch = Fin (8 / 1000)"

text \<open>The angles (roll, pitch, yaw) and the map from angular velocity to their rates.\<close>

definition space_xyz_kinematics :: "rotations \<Rightarrow> mat3 \<Rightarrow> (vec3 \<times> mat3) outcome" where
  "space_xyz_kinematics rot r =
     (case (canonical_quaternion rot r, r) of
        ((w, x, y, z), (r00, r01, r02), (r10, r11, r12), (r20, r21, r22)) \<Rightarrow>
     let positive_cosine = std_sqrt ((r22 * r22 + r21 * r21 + r10 * r10 + r00 * r00) / 2);
         pitch = std_atan2 (- r20) positive_cosine;
         y_a = x + z; x_a = w - y; y_b = z - x; x_b = w + y;
         z_a = (if \<bar>y_a\<bar> \<le> double_epsilon \<and> \<bar>x_a\<bar> \<le> double_epsilon then 0 else std_atan2 y_a x_a);
         z_b = (if \<bar>y_b\<bar> \<le> double_epsilon \<and> \<bar>x_b\<bar> \<le> double_epsilon then 0 else std_atan2 y_b x_b);
         roll = wrap_once (z_a - z_b);
         yaw = wrap_once (z_a + z_b);
         cosine_pitch = std_cos pitch
     in if \<bar>cosine_pitch\<bar> < kGimbalLockToleranceCosPitch then Inl RuntimeError
        else
          let sine_pitch = std_sin pitch; sine_yaw = std_sin yaw; cosine_yaw = std_cos yaw;
              inverse_cosine_pitch = 1 / cosine_pitch
          in Inr ((roll, pitch, yaw),
               ((cosine_yaw * inverse_cosine_pitch, sine_yaw * inverse_cosine_pitch, 0),
                (- sine_yaw, cosine_yaw, 0),
                (cosine_yaw * inverse_cosine_pitch * sine_pitch,
                 sine_yaw * inverse_cosine_pitch * sine_pitch, 1))))"

subsection \<open>Emitting wrenches\<close>

definition translational_wrench_pair ::
  "multibody_model \<Rightarrow> body_handle \<times> vec3 \<Rightarrow> body_handle \<times> vec3 \<Rightarrow> vec3 \<Rightarrow> vec3 \<Rightarrow> applied_body_wrench list" where
  "translational_wrench_pair model reference opposite force displacement =
     [\<lparr>wrench_body = fst reference, wrench_point_in_body = snd reference, wrench_frame = world_frame model,
       wrench_torque = cross3 displacement force, wrench_force = force\<rparr>,
      \<lparr>wrench_body = fst opposite, wrench_point_in_body = snd opposite, wrench_frame = world_frame model,
       wrench_torque = zero3, wrench_force = neg3 force\<rparr>]"

definition couple_wrench_pair ::
  "multibody_model \<Rightarrow> body_handle \<times> vec3 \<Rightarrow> body_handle \<times> vec3 \<Rightarrow> vec3 \<Rightarrow> applied_body_wrench list" where
  "couple_wrench_pair model positive negative moment =
     [\<lparr>wrench_body = fst positive, wrench_point_in_body = snd positive, wrench_frame = world_frame model,
       wrench_torque = moment, wrench_force = zero3\<rparr>,
      \<lparr>wrench_body = fst negative, wrench_point_in_body = snd negative, wrench_frame = world_frame model,
       wrench_torque = neg3 moment, wrench_force = zero3\<rparr>]"

definition midpoint_wrench_pair ::
  "multibody_model \<Rightarrow> multibody_context \<Rightarrow> relative_motion \<Rightarrow> vec3 \<Rightarrow> vec3 \<Rightarrow> applied_body_wrench list outcome" where
  "midpoint_wrench_pair model context motion force_on_c torque_on_c =
     (let midpoint = add3 (rm_reference_origin motion) (scale3 half (rm_displacement_in_world motion)) in
     bindS (calc_body_pose model context (fst (rm_reference_point motion))) (\<lambda>(rotation_a, translation_a).
     bindS (calc_body_pose model context (fst (rm_opposite_point motion))) (\<lambda>(rotation_c, translation_c).
       Inr
         [\<lparr>wrench_body = fst (rm_reference_point motion),
           wrench_point_in_body = rotate3 (transpose3 rotation_a) (sub3 midpoint translation_a),
           wrench_frame = world_frame model,
           wrench_torque = neg3 torque_on_c, wrench_force = neg3 force_on_c\<rparr>,
          \<lparr>wrench_body = fst (rm_opposite_point motion),
           wrench_point_in_body = rotate3 (transpose3 rotation_c) (sub3 midpoint translation_c),
           wrench_frame = world_frame model,
           wrench_torque = torque_on_c, wrench_force = force_on_c\<rparr>])))"

subsection \<open>Evaluating the elements\<close>

definition translational_wrenches ::
  "multibody_model \<Rightarrow> multibody_context \<Rightarrow> vec \<Rightarrow> nat \<times> translational_spring_damper \<Rightarrow> applied_body_wrench list outcome" where
  "translational_wrenches model context nominal_forces indexed = (case indexed of (index, e) \<Rightarrow>
     bindS (calc_relative_motion model context (tsd_reference_end e) (tsd_opposite_end e)) (\<lambda>motion.
       let force_in_reference =
             add3 (add3 (cwise_product3 (tsd_stiffness e) (rm_displacement_in_reference motion))
                        (cwise_product3 (tsd_damping e) (rm_velocity motion)))
                  (vec3_of (segment (3 * index) 3 nominal_forces))
       in Inr (translational_wrench_pair model (rm_reference_point motion) (rm_opposite_point motion)
            (rotate3 (rm_rotation_of_reference motion) force_in_reference)
            (rm_displacement_in_world motion))))"

definition entry_2_1 :: "mat3 \<Rightarrow> double" where
  "entry_2_1 m = (case m of (_, _, (_, b, _)) \<Rightarrow> b)"

definition roll_wrenches ::
  "multibody_model \<Rightarrow> multibody_context \<Rightarrow> roll_spring_damper_couple \<Rightarrow> applied_body_wrench list outcome" where
  "roll_wrenches model context e =
     bindS (calc_relative_motion model context (rsd_reference_end e) (rsd_opposite_end e)) (\<lambda>motion.
       let roll = entry_2_1 (rm_rotation_of_opposite motion);
           roll_rate = component3 0 (rm_angular_velocity motion);
           moment = rsd_stiffness e * roll + rsd_damping e * roll_rate
       in Inr (couple_wrench_pair model (rm_reference_point motion) (rm_opposite_point motion)
            (rotate3 (rm_rotation_of_reference motion) (moment, 0, 0))))"

text \<open>The wrenches and the rate of the element's force state.\<close>

definition series_wrenches ::
  "multibody_model \<Rightarrow> multibody_context \<Rightarrow> vec \<Rightarrow> nat \<times> series_spring_viscous_damper \<Rightarrow>
   (applied_body_wrench list \<times> double) outcome" where
  "series_wrenches model context series_forces indexed = (case indexed of (index, e) \<Rightarrow>
     bindS (calc_relative_motion model context (ssd_reference_end e) (ssd_opposite_end e)) (\<lambda>motion.
       let axis = axis_index (ssd_axis e);
           relative_velocity = component3 axis (rm_velocity motion);
           force = series_forces ! index;
           derivative = ssd_stiffness e * relative_velocity - (ssd_stiffness e / ssd_damping e) * force
       in Inr (translational_wrench_pair model (rm_reference_point motion) (rm_opposite_point motion)
            (rotate3 (rm_rotation_of_reference motion) (axis_vector axis force))
            (rm_displacement_in_world motion), derivative)))"

definition saturated_wrenches ::
  "multibody_model \<Rightarrow> multibody_context \<Rightarrow> saturated_damper \<Rightarrow> applied_body_wrench list outcome" where
  "saturated_wrenches model context e =
     bindS (calc_relative_motion model context (spd_reference_end e) (spd_opposite_end e)) (\<lambda>motion.
       let axis = axis_index (spd_axis e);
           force = evaluate_saturated_curve e (component3 axis (rm_velocity motion))
       in Inr (translational_wrench_pair model (rm_reference_point motion) (rm_opposite_point motion)
            (rotate3 (rm_rotation_of_reference motion) (axis_vector axis force))
            (rm_displacement_in_world motion)))"

definition bushing_wrenches ::
  "rotations \<Rightarrow> multibody_model \<Rightarrow> multibody_context \<Rightarrow> half_angle_bushing \<Rightarrow> applied_body_wrench list outcome" where
  "bushing_wrenches rot model context e =
     bindS (calc_relative_motion model context (hab_frame_a_end e) (hab_frame_c_end e)) (\<lambda>motion.
       let rotation_a_b = half_angle_rotation rot (rm_rotation_of_opposite motion);
           rotation_b_a = transpose3 rotation_a_b;
           displacement_in_b = rotate3 rotation_b_a (rm_displacement_in_reference motion);
           displacement_rate_in_b = rotate3 rotation_b_a
             (sub3 (rm_velocity motion)
                (scale3 half (cross3 (rm_angular_velocity motion) (rm_displacement_in_reference motion))));
           force_on_c_in_b = neg3 (add3 (cwise_product3 (hab_translational_stiffness e) displacement_in_b)
             (cwise_product3 (hab_translational_damping e) displacement_rate_in_b));
           force_on_c_in_world = rotate3 (times3 (rm_rotation_of_reference motion) rotation_a_b) force_on_c_in_b
       in bindS (space_xyz_kinematics rot (rm_rotation_of_opposite motion)) (\<lambda>(angles, rates_map).
          let rpy_rates = rotate3 rates_map (rm_angular_velocity motion);
              generalized_torque_on_c = neg3 (add3 (cwise_product3 (hab_rotational_stiffness e) angles)
                (cwise_product3 (hab_rotational_damping e) rpy_rates));
              torque_on_c_in_a = rotate3 (transpose3 rates_map) generalized_torque_on_c;
              torque_on_c_in_world = rotate3 (rm_rotation_of_reference motion) torque_on_c_in_a
          in midpoint_wrench_pair model context motion force_on_c_in_world torque_on_c_in_world))"

text \<open>
  \<open>CalcAppliedForces\<close>: the wrenches in slot order and the derivatives of the series states, for
  output spans of the given lengths.
\<close>

definition calc_applied_forces ::
  "rotations \<Rightarrow> vehicle_force_plan \<Rightarrow> multibody_context \<Rightarrow> vec \<Rightarrow> vec \<Rightarrow> nat \<Rightarrow> nat \<Rightarrow>
   (applied_body_wrench list \<times> vec) outcome" where
  "calc_applied_forces rot plan context series_forces nominal_forces wrench_length derivative_length =
     (let model = vfp_model plan; elements = vfp_elements plan in
     bindS (all_checks
       [reject_if (length series_forces \<noteq> series_force_state_count plan) InvalidArgument,
        reject_if (length nominal_forces \<noteq> nominal_force_component_count plan) InvalidArgument,
        reject_if (wrench_length \<noteq> body_wrench_count plan) InvalidArgument,
        reject_if (derivative_length \<noteq> series_force_state_count plan) InvalidArgument]) (\<lambda>_.
     bindS (mapS (translational_wrenches model context nominal_forces) (enumerate 0 (fe_translational elements))) (\<lambda>w1.
     bindS (mapS (roll_wrenches model context) (fe_roll elements)) (\<lambda>w2.
     bindS (mapS (series_wrenches model context series_forces) (enumerate 0 (fe_series elements))) (\<lambda>w3.
     bindS (mapS (saturated_wrenches model context) (fe_saturated elements)) (\<lambda>w4.
     bindS (mapS (bushing_wrenches rot model context) (fe_bushings elements)) (\<lambda>w5.
       Inr (concat (w1 @ w2 @ map fst w3 @ w4 @ w5), map snd w3))))))))"

subsection \<open>Equilibrium of the emitted wrenches\<close>

definition world_point :: "multibody_model \<Rightarrow> mstate \<Rightarrow> applied_body_wrench \<Rightarrow> vec3" where
  "world_point model s w = (case mm_body_pose model s (handle_ordinal (wrench_body w)) of
     (rotation, translation) \<Rightarrow> add3 translation (rotate3 rotation (wrench_point_in_body w)))"

definition net_force :: "applied_body_wrench list \<Rightarrow> vec3" where
  "net_force ws = foldr add3 (map wrench_force ws) zero3"

definition net_moment :: "multibody_model \<Rightarrow> mstate \<Rightarrow> vec3 \<Rightarrow> applied_body_wrench list \<Rightarrow> vec3" where
  "net_moment model s origin ws =
     foldr add3 (map (\<lambda>w. add3 (wrench_torque w)
       (cross3 (sub3 (world_point model s w) origin) (wrench_force w))) ws) zero3"

definition wrench_finite :: "applied_body_wrench \<Rightarrow> bool" where
  "wrench_finite w \<longleftrightarrow> all_finite (v3 (wrench_point_in_body w)) \<and> all_finite (v3 (wrench_torque w)) \<and>
     all_finite (v3 (wrench_force w))"

definition in_equilibrium :: "multibody_model \<Rightarrow> mstate \<Rightarrow> applied_body_wrench list \<Rightarrow> bool" where
  "in_equilibrium model s ws \<longleftrightarrow> list_all (\<lambda>w. wrench_frame w = world_frame model) ws \<and> net_force ws = zero3 \<and>
     (\<forall>origin. all_finite (v3 origin) \<longrightarrow> net_moment model s origin ws = zero3)"

text \<open>
  What the rigid tree documents of its poses: they are finite, body rotations are orthogonal, and
  a fixed frame's origin sits at its offset in the body that carries it.
\<close>

definition consistent_kinematics :: "multibody_model \<Rightarrow> mstate \<Rightarrow> bool" where
  "consistent_kinematics model s \<longleftrightarrow>
     (\<forall>body. case mm_body_pose model s body of (r, p) \<Rightarrow>
        all_finite (m3 r) \<and> all_finite (v3 p) \<and> times3 r (transpose3 r) = identity3) \<and>
     (\<forall>frame. case (mm_frame_pose model s frame, mm_body_pose model s (mm_frame_bodies model ! nat frame)) of
        ((fr, fp), (r, p)) \<Rightarrow> all_finite (v3 fp) \<and> all_finite (v3 (mm_frame_offset model s frame)) \<and>
          fp = add3 p (rotate3 r (mm_frame_offset model s frame)))"

lemma foldr_add3_append: "foldr add3 (us @ bs) zero3 = add3 (foldr add3 us zero3) (foldr add3 bs zero3)"
  by (induction us) (simp_all add: add3_assoc)

lemma equilibrium_Nil: "in_equilibrium model s []"
  by (simp add: in_equilibrium_def net_force_def net_moment_def)

lemma equilibrium_append:
  "in_equilibrium model s us \<Longrightarrow> in_equilibrium model s bs \<Longrightarrow> in_equilibrium model s (us @ bs)"
  unfolding in_equilibrium_def net_force_def net_moment_def map_append foldr_add3_append
  by (auto simp: zero3_def)

lemma net_force_append: "net_force (us @ bs) = add3 (net_force us) (net_force bs)"
  unfolding net_force_def map_append by (rule foldr_add3_append)

lemma net_moment_append:
  "net_moment model s origin (us @ bs) = add3 (net_moment model s origin us) (net_moment model s origin bs)"
  unfolding net_moment_def map_append by (rule foldr_add3_append)

lemma add3_zero_right: "add3 x zero3 = x"
proof -
  have "d + Fin 0 = d" for d by (cases d) (simp_all add: plus_double_def)
  then show ?thesis by (cases x; simp add: zero3_def)
qed

text \<open>Wrenches in equilibrium do not count in a net force or a net moment.\<close>

lemma net_between_equilibria:
  assumes "in_equilibrium model s us" "in_equilibrium model s ws"
  shows "net_force (us @ bs @ ws) = net_force bs"
    and "all_finite (v3 origin) \<Longrightarrow> net_moment model s origin (us @ bs @ ws) = net_moment model s origin bs"
  using assms unfolding in_equilibrium_def net_force_append net_moment_append
  by (metis add3_zero_left add3_zero_right)+

lemma equilibrium_concat: "(\<And>ws. ws \<in> set wss \<Longrightarrow> in_equilibrium model s ws) \<Longrightarrow> in_equilibrium model s (concat wss)"
  by (induction wss) (auto simp: equilibrium_Nil intro: equilibrium_append)

text \<open>Two wrenches with opposite forces whose torques make up for the distance of their points.\<close>

lemma pair_in_equilibrium:
  assumes frames: "wrench_frame a = world_frame model" "wrench_frame b = world_frame model"
    and opposite: "wrench_force b = neg3 (wrench_force a)"
    and torque: "add3 (wrench_torque a) (wrench_torque b) =
      cross3 (sub3 (world_point model s b) (world_point model s a)) (wrench_force a)"
    and finite: "all_finite (v3 (world_point model s a))" "all_finite (v3 (world_point model s b))"
      "wrench_finite a" "wrench_finite b"
  shows "in_equilibrium model s [a, b]"
proof -
  obtain f0 f1 f2 where f: "wrench_force a = (Fin f0, Fin f1, Fin f2)"
    using finite(3) by (auto simp: wrench_finite_def elim: finite3_cases)
  obtain t0 t1 t2 where t: "wrench_torque a = (Fin t0, Fin t1, Fin t2)"
    using finite(3) by (auto simp: wrench_finite_def elim: finite3_cases)
  obtain u0 u1 u2 where u: "wrench_torque b = (Fin u0, Fin u1, Fin u2)"
    using finite(4) by (auto simp: wrench_finite_def elim: finite3_cases)
  obtain p0 p1 p2 where p: "world_point model s a = (Fin p0, Fin p1, Fin p2)"
    using finite(1) by (rule finite3_cases)
  obtain q0 q1 q2 where q: "world_point model s b = (Fin q0, Fin q1, Fin q2)"
    using finite(2) by (rule finite3_cases)
  have tu: "t0 + u0 = (q1 - p1) * f2 - (q2 - p2) * f1" "t1 + u1 = (q2 - p2) * f0 - (q0 - p0) * f2"
    "t2 + u2 = (q0 - p0) * f1 - (q1 - p1) * f0"
    using torque by (simp_all add: f t u p q)
  have "net_moment model s origin [a, b] = zero3" if "all_finite (v3 origin)" for origin
  proof -
    obtain o0 o1 o2 where o: "origin = (Fin o0, Fin o1, Fin o2)" using \<open>all_finite (v3 origin)\<close> by (rule finite3_cases)
    show ?thesis
      using tu by (simp add: net_moment_def opposite f t u p q o zero3_def algebra_simps)
  qed
  then show ?thesis
    by (simp add: in_equilibrium_def frames net_force_def opposite f zero3_def)
qed

definition point_in_world :: "multibody_model \<Rightarrow> mstate \<Rightarrow> body_handle \<times> vec3 \<Rightarrow> vec3" where
  "point_in_world model s point = (case mm_body_pose model s (handle_ordinal (fst point)) of
     (rotation, translation) \<Rightarrow> add3 translation (rotate3 rotation (snd point)))"

lemma frame_origin_point:
  assumes k: "consistent_kinematics model (mc_state c)"
    and pose: "calc_frame_pose model c frame = Inr (rotation, translation)"
    and point: "calc_frame_origin_as_body_fixed_point model c frame = Inr pt"
  shows "point_in_world model (mc_state c) pt = translation" and "all_finite (v3 translation)"
proof -
  from pose obtain i where i: "resolve model frame (frame_count model) = Inr i"
    and fp: "mm_frame_pose model (mc_state c) i = (rotation, translation)"
    by (auto simp: calc_frame_pose_def bindS_eq_Inr)
  from point i have pt: "pt = (make_handle model (mm_frame_bodies model ! nat i), mm_frame_offset model (mc_state c) i)"
    by (auto simp: calc_frame_origin_as_body_fixed_point_def bindS_eq_Inr Let_def split: if_splits)
  have "case (mm_frame_pose model (mc_state c) i,
        mm_body_pose model (mc_state c) (mm_frame_bodies model ! nat i)) of ((fr, fp), (r, p)) \<Rightarrow>
      all_finite (v3 fp) \<and> all_finite (v3 (mm_frame_offset model (mc_state c) i)) \<and>
        fp = add3 p (rotate3 r (mm_frame_offset model (mc_state c) i))"
    using k unfolding consistent_kinematics_def by (rule conjunct2 [THEN spec])
  then show "point_in_world model (mc_state c) pt = translation" "all_finite (v3 translation)"
    by (auto simp: fp pt point_in_world_def make_handle_def split: prod.splits)
qed

lemma relative_motion_points:
  assumes k: "consistent_kinematics model (mc_state c)"
    and m: "calc_relative_motion model c reference opposite = Inr motion"
  shows "all_finite (v3 (point_in_world model (mc_state c) (rm_reference_point motion)))"
    and "all_finite (v3 (point_in_world model (mc_state c) (rm_opposite_point motion)))"
    and "rm_displacement_in_world motion =
      sub3 (point_in_world model (mc_state c) (rm_opposite_point motion))
        (point_in_world model (mc_state c) (rm_reference_point motion))"
    and "rm_reference_origin motion = point_in_world model (mc_state c) (rm_reference_point motion)"
  using m frame_origin_point [OF k]
  by (auto simp: calc_relative_motion_def bindS_eq_Inr Let_def split: prod.splits)

lemma world_point_of_wrench:
  "world_point model s w = point_in_world model s (wrench_body w, wrench_point_in_body w)"
  by (simp add: world_point_def point_in_world_def)

lemma translational_pair_equilibrium:
  assumes k: "consistent_kinematics model (mc_state c)"
    and m: "calc_relative_motion model c reference opposite = Inr motion"
    and ws: "ws = translational_wrench_pair model (rm_reference_point motion) (rm_opposite_point motion) force
      (rm_displacement_in_world motion)"
    and fin: "list_all wrench_finite ws"
  shows "in_equilibrium model (mc_state c) ws"
proof -
  note p = relative_motion_points [OF k m]
  obtain a b where ab: "ws = [a, b]" and a: "a = \<lparr>wrench_body = fst (rm_reference_point motion),
       wrench_point_in_body = snd (rm_reference_point motion), wrench_frame = world_frame model,
       wrench_torque = cross3 (rm_displacement_in_world motion) force, wrench_force = force\<rparr>"
    and b: "b = \<lparr>wrench_body = fst (rm_opposite_point motion),
       wrench_point_in_body = snd (rm_opposite_point motion), wrench_frame = world_frame model,
       wrench_torque = zero3, wrench_force = neg3 force\<rparr>"
    by (simp add: ws translational_wrench_pair_def)
  have wa: "world_point model (mc_state c) a = point_in_world model (mc_state c) (rm_reference_point motion)"
    and wb: "world_point model (mc_state c) b = point_in_world model (mc_state c) (rm_opposite_point motion)"
    by (simp_all add: world_point_of_wrench a b)
  have "all_finite (v3 (cross3 (rm_displacement_in_world motion) force))"
    using fin by (simp add: ab a wrench_finite_def)
  then have "add3 (cross3 (rm_displacement_in_world motion) force) zero3 = cross3 (rm_displacement_in_world motion) force"
    by (auto elim!: finite3_cases simp: zero3_def)
  then have "add3 (wrench_torque a) (wrench_torque b) =
      cross3 (sub3 (world_point model (mc_state c) b) (world_point model (mc_state c) a)) (wrench_force a)"
    unfolding wa wb by (simp add: a b p(3))
  then show ?thesis
    unfolding ab using fin p(1,2)
    by (intro pair_in_equilibrium) (simp_all add: wa wb, simp_all add: ab a b)
qed

lemma couple_equilibrium:
  assumes p: "all_finite (v3 (point_in_world model s positive))"
    and q: "all_finite (v3 (point_in_world model s negative))"
    and fin: "list_all wrench_finite (couple_wrench_pair model positive negative moment)"
  shows "in_equilibrium model s (couple_wrench_pair model positive negative moment)"
proof -
  obtain x y z where t: "moment = (Fin x, Fin y, Fin z)"
    using fin by (auto simp: couple_wrench_pair_def wrench_finite_def elim!: finite3_cases)
  obtain p0 p1 p2 where r: "point_in_world model s positive = (Fin p0, Fin p1, Fin p2)"
    using p by (rule finite3_cases)
  obtain q0 q1 q2 where o: "point_in_world model s negative = (Fin q0, Fin q1, Fin q2)"
    using q by (rule finite3_cases)
  show ?thesis
    unfolding couple_wrench_pair_def
    by (rule pair_in_equilibrium)
      (use fin in \<open>simp_all add: couple_wrench_pair_def world_point_of_wrench r o t zero3_def\<close>)
qed

lemma couple_pair_equilibrium:
  assumes k: "consistent_kinematics model (mc_state c)"
    and m: "calc_relative_motion model c reference opposite = Inr motion"
    and ws: "ws = couple_wrench_pair model (rm_reference_point motion) (rm_opposite_point motion) moment"
    and fin: "list_all wrench_finite ws"
  shows "in_equilibrium model (mc_state c) ws"
  using relative_motion_points(1,2) [OF k m] fin unfolding ws by (rule couple_equilibrium)

lemma midpoint_pair_equilibrium:
  assumes k: "consistent_kinematics model (mc_state c)"
    and m: "calc_relative_motion model c reference opposite = Inr motion"
    and ws: "midpoint_wrench_pair model c motion force torque = Inr ws"
    and fin: "list_all wrench_finite ws"
  shows "in_equilibrium model (mc_state c) ws"
proof -
  note p = relative_motion_points [OF k m]
  define mid where "mid = add3 (rm_reference_origin motion) (scale3 half (rm_displacement_in_world motion))"
  have mid: "all_finite (v3 mid)"
    using p by (auto simp: mid_def elim!: finite3_cases)
  from ws obtain ra ta rc tc where
    a: "calc_body_pose model c (fst (rm_reference_point motion)) = Inr (ra, ta)" and
    b: "calc_body_pose model c (fst (rm_opposite_point motion)) = Inr (rc, tc)" and
    w: "ws = [\<lparr>wrench_body = fst (rm_reference_point motion),
           wrench_point_in_body = rotate3 (transpose3 ra) (sub3 mid ta),
           wrench_frame = world_frame model, wrench_torque = neg3 torque, wrench_force = neg3 force\<rparr>,
          \<lparr>wrench_body = fst (rm_opposite_point motion),
           wrench_point_in_body = rotate3 (transpose3 rc) (sub3 mid tc),
           wrench_frame = world_frame model, wrench_torque = torque, wrench_force = force\<rparr>]"
    by (auto simp: midpoint_wrench_pair_def Let_def bindS_eq_Inr mid_def split: prod.splits)
  have at_mid: "point_in_world model (mc_state c) (body, rotate3 (transpose3 r) (sub3 mid t)) = mid"
    if pose: "calc_body_pose model c body = Inr (r, t)" for body r t
  proof -
    from pose have e: "mm_body_pose model (mc_state c) (handle_ordinal body) = (r, t)"
      by (auto simp: calc_body_pose_def bindS_eq_Inr resolve_def split: if_splits)
    with k have r: "all_finite (m3 r)" "all_finite (v3 t)" "times3 r (transpose3 r) = identity3"
      unfolding consistent_kinematics_def by (auto dest: spec [of _ "handle_ordinal body"])
    have s: "all_finite (v3 (sub3 mid t))" "add3 t (sub3 mid t) = mid"
      using mid r(2) by (auto elim!: finite3_cases)
    show ?thesis
      by (simp add: point_in_world_def e orthogonal_rotate_back [OF r(3,1) s(1)] s(2))
  qed
  obtain x y z where f: "force = (Fin x, Fin y, Fin z)"
    using fin by (auto simp: w wrench_finite_def elim!: finite3_cases)
  obtain u v w' where t: "torque = (Fin u, Fin v, Fin w')"
    using fin by (auto simp: w wrench_finite_def elim!: finite3_cases)
  obtain m0 m1 m2 where m: "mid = (Fin m0, Fin m1, Fin m2)"
    using mid by (rule finite3_cases)
  show ?thesis
    unfolding w
    by (rule pair_in_equilibrium)
      (use fin mid in \<open>simp_all add: w world_point_of_wrench at_mid [OF a] at_mid [OF b]\<close>,
       simp_all add: f t m zero3_def)
qed

lemma element_wrenches_equilibrium:
  assumes k: "consistent_kinematics model (mc_state c)" and fin: "list_all wrench_finite ws"
  shows "translational_wrenches model c nominal_forces x = Inr ws \<Longrightarrow> in_equilibrium model (mc_state c) ws"
    and "roll_wrenches model c r = Inr ws \<Longrightarrow> in_equilibrium model (mc_state c) ws"
    and "series_wrenches model c series_forces y = Inr (ws, d) \<Longrightarrow> in_equilibrium model (mc_state c) ws"
    and "saturated_wrenches model c e = Inr ws \<Longrightarrow> in_equilibrium model (mc_state c) ws"
    and "bushing_wrenches rot model c b = Inr ws \<Longrightarrow> in_equilibrium model (mc_state c) ws"
proof -
  show "translational_wrenches model c nominal_forces x = Inr ws \<Longrightarrow> in_equilibrium model (mc_state c) ws"
    using fin by (auto simp: translational_wrenches_def bindS_eq_Inr Let_def split: prod.splits
        intro: translational_pair_equilibrium [OF k _ refl])
  show "roll_wrenches model c r = Inr ws \<Longrightarrow> in_equilibrium model (mc_state c) ws"
    using fin by (auto simp: roll_wrenches_def bindS_eq_Inr Let_def
        intro: couple_pair_equilibrium [OF k _ refl])
  show "series_wrenches model c series_forces y = Inr (ws, d) \<Longrightarrow> in_equilibrium model (mc_state c) ws"
    using fin by (auto simp: series_wrenches_def bindS_eq_Inr Let_def split: prod.splits
        intro: translational_pair_equilibrium [OF k _ refl])
  show "saturated_wrenches model c e = Inr ws \<Longrightarrow> in_equilibrium model (mc_state c) ws"
    using fin by (auto simp: saturated_wrenches_def bindS_eq_Inr Let_def
        intro: translational_pair_equilibrium [OF k _ refl])
  show "bushing_wrenches rot model c b = Inr ws \<Longrightarrow> in_equilibrium model (mc_state c) ws"
    using fin by (auto simp: bushing_wrenches_def bindS_eq_Inr Let_def split: prod.splits
        intro: midpoint_pair_equilibrium [OF k])
qed

lemma mapS_equilibrium:
  assumes m: "mapS f xs = Inr wss" and fin: "\<forall>ws \<in> set wss. list_all wrench_finite ws"
    and step: "\<And>x ws. f x = Inr ws \<Longrightarrow> list_all wrench_finite ws \<Longrightarrow> in_equilibrium model s ws"
  shows "\<forall>ws \<in> set wss. in_equilibrium model s ws"
proof
  fix ws
  assume ws: "ws \<in> set wss"
  with mapS_mem [OF m] obtain x where "f x = Inr ws" by blast
  with step fin ws show "in_equilibrium model s ws" by blast
qed

lemma calc_applied_forces_equilibrium:
  assumes k: "consistent_kinematics (vfp_model plan) (mc_state c)"
    and run: "calc_applied_forces rot plan c series_forces nominal_forces n m = Inr (ws, dz)"
    and fin: "list_all wrench_finite ws"
  shows "in_equilibrium (vfp_model plan) (mc_state c) ws"
proof -
  let ?M = "vfp_model plan" and ?E = "vfp_elements plan"
  from run obtain w1 w2 w3 w4 w5 where
    w1: "mapS (translational_wrenches ?M c nominal_forces) (enumerate 0 (fe_translational ?E)) = Inr w1" and
    w2: "mapS (roll_wrenches ?M c) (fe_roll ?E) = Inr w2" and
    w3: "mapS (series_wrenches ?M c series_forces) (enumerate 0 (fe_series ?E)) = Inr w3" and
    w4: "mapS (saturated_wrenches ?M c) (fe_saturated ?E) = Inr w4" and
    w5: "mapS (bushing_wrenches rot ?M c) (fe_bushings ?E) = Inr w5" and
    ws: "ws = concat (w1 @ w2 @ map fst w3 @ w4 @ w5)"
    by (auto simp: calc_applied_forces_def bindS_eq_Inr Let_def)
  have f: "\<forall>us \<in> set (w1 @ w2 @ map fst w3 @ w4 @ w5). list_all wrench_finite us"
    using fin unfolding ws list_all_iff by auto
  note el = element_wrenches_equilibrium [OF k]
  have "\<forall>us \<in> set w1. in_equilibrium ?M (mc_state c) us"
    by (rule mapS_equilibrium [OF w1]) (use f in \<open>auto intro: el\<close>)
  moreover have "\<forall>us \<in> set w2. in_equilibrium ?M (mc_state c) us"
    by (rule mapS_equilibrium [OF w2]) (use f in \<open>auto intro: el\<close>)
  moreover have "\<forall>us \<in> set w4. in_equilibrium ?M (mc_state c) us"
    by (rule mapS_equilibrium [OF w4]) (use f in \<open>auto intro: el\<close>)
  moreover have "\<forall>us \<in> set w5. in_equilibrium ?M (mc_state c) us"
    by (rule mapS_equilibrium [OF w5]) (use f in \<open>auto intro: el\<close>)
  moreover have "in_equilibrium ?M (mc_state c) (fst p)" if p: "p \<in> set w3" for p
  proof -
    from mapS_mem [OF w3 p] obtain y where "series_wrenches ?M c series_forces y = Inr (fst p, snd p)" by auto
    then show ?thesis by (rule el(3) [rotated]) (use f p in auto)
  qed
  ultimately show ?thesis
    unfolding ws by (intro equilibrium_concat) auto
qed

text \<open>C13: Newton's third law for the whole vehicle force plan: the wrenches one evaluation emits are all
  expressed in the world frame, add up to no force, and have no net moment about any point.  The
  hypotheses are what the rigid tree documents of its poses, and that every emitted wrench is
  finite (the forward dynamics reject the evaluation otherwise).\<close>

theorem vehicle_forces_in_equilibrium:
  "consistent_kinematics (vfp_model plan) (mc_state c) \<Longrightarrow>
   calc_applied_forces rot plan c series_forces nominal_forces n m = Inr (ws, dz) \<Longrightarrow>
   list_all wrench_finite ws \<Longrightarrow> in_equilibrium (vfp_model plan) (mc_state c) ws"
  by (rule calc_applied_forces_equilibrium)

lemma calc_applied_forces_lengths:
  assumes "calc_applied_forces rot plan c series_forces nominal_forces n m = Inr (ws, dz)"
  shows "length dz = m" and "m = series_force_state_count plan" and "n = body_wrench_count plan"
  using assms by (auto simp: calc_applied_forces_def bindS_eq_Inr Let_def series_force_state_count_def
      dest!: mapS_length)

subsection \<open>The active torque plan\<close>

record torque_definition =
  td_channel_name :: string
  td_axis_provider :: string
  td_wheel :: string
  td_reaction :: string

record torque_binding =
  tb_definition :: torque_definition
  tb_axis_provider :: body_handle
  tb_wheel :: body_handle
  tb_reaction :: body_handle

record active_torque_plan =
  atp_model :: multibody_model
  atp_bindings :: "torque_binding list"

text \<open>The constructor's loop: the channel and wheel names seen so far, and the bindings built.\<close>

fun bind_torque_channels ::
  "multibody_model \<Rightarrow> string list \<Rightarrow> string list \<Rightarrow> torque_definition list \<Rightarrow> torque_binding list outcome" where
  "bind_torque_channels model channels wheels [] = Inr []"
| "bind_torque_channels model channels wheels (d # ds) =
     (if td_channel_name d = [] \<or> td_axis_provider d = [] \<or> td_wheel d = [] \<or> td_reaction d = []
      then Inl InvalidArgument
      else if List.member channels (td_channel_name d) then Inl InvalidArgument
      else if List.member wheels (td_wheel d) then Inl InvalidArgument
      else if td_axis_provider d = td_wheel d \<or> td_axis_provider d = td_reaction d \<or> td_wheel d = td_reaction d
      then Inl InvalidArgument
      else
        bindS (get_rigid_body_by_name model (td_axis_provider d)) (\<lambda>axis_provider.
        bindS (get_rigid_body_by_name model (td_wheel d)) (\<lambda>wheel.
        bindS (get_rigid_body_by_name model (td_reaction d)) (\<lambda>reaction.
        bindS (bind_torque_channels model (td_channel_name d # channels) (td_wheel d # wheels) ds) (\<lambda>bindings.
          Inr (\<lparr>tb_definition = d, tb_axis_provider = axis_provider, tb_wheel = wheel,
                 tb_reaction = reaction\<rparr> # bindings))))))"

definition make_active_torque_plan :: "multibody_model \<Rightarrow> torque_definition list \<Rightarrow> active_torque_plan outcome" where
  "make_active_torque_plan model definitions =
     bindS (reject_if (\<not> mm_finalized model) LogicError) (\<lambda>_.
     bindS (reject_if (definitions = []) InvalidArgument) (\<lambda>_.
     bindS (bind_torque_channels model [] [] definitions) (\<lambda>bindings.
       Inr \<lparr>atp_model = model, atp_bindings = bindings\<rparr>)))"

definition channel_count :: "active_torque_plan \<Rightarrow> nat" where
  "channel_count plan = length (atp_bindings plan)"

definition torque_channel_wrenches ::
  "multibody_model \<Rightarrow> multibody_context \<Rightarrow> torque_binding \<times> double \<Rightarrow> applied_body_wrench list outcome" where
  "torque_channel_wrenches model context bt = (case bt of (b, torque) \<Rightarrow>
     bindS (calc_body_pose model context (tb_axis_provider b)) (\<lambda>(rotation, _).
       let axis_in_world = rotate3 rotation (0, 1, 0) in
       Inr (couple_wrench_pair model (tb_wheel b, zero3) (tb_reaction b, zero3) (scale3 torque axis_in_world))))"

definition calc_active_torques ::
  "active_torque_plan \<Rightarrow> multibody_context \<Rightarrow> vec \<Rightarrow> nat \<Rightarrow> applied_body_wrench list outcome" where
  "calc_active_torques plan context held wrench_length =
     (let model = atp_model plan; bindings = atp_bindings plan in
     bindS (all_checks
       ([reject_if (length held \<noteq> length bindings) InvalidArgument,
         reject_if (wrench_length \<noteq> 2 * length bindings) InvalidArgument] @
        map (\<lambda>torque. reject_if (\<not> isfinite torque) InvalidArgument) held)) (\<lambda>_.
     bindS (calc_body_pose model context (tb_axis_provider (hd bindings))) (\<lambda>_.
     bindS (mapS (torque_channel_wrenches model context) (zip bindings held)) (\<lambda>ws.
       Inr (concat ws)))))"

lemma body_point_finite:
  assumes k: "consistent_kinematics model s"
  shows "all_finite (v3 (point_in_world model s (body, zero3)))"
proof -
  obtain r p where e: "mm_body_pose model s (handle_ordinal body) = (r, p)"
    by (cases "mm_body_pose model s (handle_ordinal body)")
  with k have r: "all_finite (m3 r)" "all_finite (v3 p)"
    unfolding consistent_kinematics_def by (auto dest: spec [of _ "handle_ordinal body"])
  obtain r0 r1 r2 where rr: "r = (r0, r1, r2)" by (cases r)
  show ?thesis
    using r by (cases r0; cases r1; cases r2; cases p) (simp add: point_in_world_def e rr zero3_def)
qed

lemma torque_channel_equilibrium:
  assumes k: "consistent_kinematics model (mc_state c)"
    and run: "torque_channel_wrenches model c (b, torque) = Inr ws" and t: "isfinite torque"
  shows "in_equilibrium model (mc_state c) ws \<and>
    (\<exists>rotation translation. calc_body_pose model c (tb_axis_provider b) = Inr (rotation, translation) \<and>
      map wrench_torque ws = [scale3 torque (rotate3 rotation (0, 1, 0)), neg3 (scale3 torque (rotate3 rotation (0, 1, 0)))] \<and>
      map wrench_body ws = [tb_wheel b, tb_reaction b])"
proof -
  from run obtain r p where pose: "calc_body_pose model c (tb_axis_provider b) = Inr (r, p)"
    and ws: "ws = couple_wrench_pair model (tb_wheel b, zero3) (tb_reaction b, zero3) (scale3 torque (rotate3 r (0, 1, 0)))"
    by (auto simp: torque_channel_wrenches_def bindS_eq_Inr Let_def split: prod.splits)
  from pose have "mm_body_pose model (mc_state c) (handle_ordinal (tb_axis_provider b)) = (r, p)"
    by (auto simp: calc_body_pose_def bindS_eq_Inr resolve_def split: if_splits)
  with k have r: "all_finite (m3 r)"
    unfolding consistent_kinematics_def by (auto dest: spec [of _ "handle_ordinal (tb_axis_provider b)"])
  obtain r0 r1 r2 where rr: "r = (r0, r1, r2)" by (cases r)
  have m: "all_finite (v3 (scale3 torque (rotate3 r (0, 1, 0))))"
    using r t by (cases r0; cases r1; cases r2) (simp add: rr)
  then have n: "all_finite (v3 (neg3 (scale3 torque (rotate3 r (0, 1, 0)))))"
    by (cases "scale3 torque (rotate3 r (0, 1, 0))") simp
  have z: "all_finite (v3 zero3)" by (simp add: zero3_def)
  have "in_equilibrium model (mc_state c) ws"
    unfolding ws
  proof (rule couple_equilibrium [OF body_point_finite [OF k] body_point_finite [OF k]])
    show "list_all wrench_finite (couple_wrench_pair model (tb_wheel b, zero3) (tb_reaction b, zero3)
        (scale3 torque (rotate3 r (0, 1, 0))))"
      unfolding couple_wrench_pair_def wrench_finite_def using m n z by simp
  qed
  then show ?thesis
    by (intro conjI exI [of _ r] exI [of _ p]) (simp_all only: pose, simp_all add: ws couple_wrench_pair_def)
qed

lemma calc_active_torques_couples:
  assumes k: "consistent_kinematics (atp_model plan) (mc_state c)"
    and run: "calc_active_torques plan c held n = Inr ws"
  shows "in_equilibrium (atp_model plan) (mc_state c) ws \<and> length ws = 2 * channel_count plan \<and>
    (\<forall>i < channel_count plan. \<exists>rotation translation.
       calc_body_pose (atp_model plan) c (tb_axis_provider (atp_bindings plan ! i)) = Inr (rotation, translation) \<and>
       map wrench_torque (segment (2 * i) 2 ws) = [scale3 (held ! i) (rotate3 rotation (0, 1, 0)),
         neg3 (scale3 (held ! i) (rotate3 rotation (0, 1, 0)))] \<and>
       map wrench_body (segment (2 * i) 2 ws) = [tb_wheel (atp_bindings plan ! i), tb_reaction (atp_bindings plan ! i)])"
proof -
  let ?M = "atp_model plan" and ?B = "atp_bindings plan"
  from run obtain wss where len: "length held = length ?B" and fin: "\<forall>t \<in> set held. isfinite t"
    and wss: "mapS (torque_channel_wrenches ?M c) (zip ?B held) = Inr wss" and ws: "ws = concat wss"
    by (auto simp: calc_active_torques_def bindS_eq_Inr Let_def all_checks_Inr)
  have step: "torque_channel_wrenches ?M c (?B ! i, held ! i) = Inr (wss ! i)" if "i < length ?B" for i
    using wss that len unfolding mapS_Inr by (auto simp: list_all2_conv_all_nth)
  have n: "length wss = length ?B" using mapS_length [OF wss] len by simp
  have ch: "in_equilibrium ?M (mc_state c) (wss ! i) \<and>
    (\<exists>rotation translation. calc_body_pose ?M c (tb_axis_provider (?B ! i)) = Inr (rotation, translation) \<and>
      map wrench_torque (wss ! i) = [scale3 (held ! i) (rotate3 rotation (0, 1, 0)), neg3 (scale3 (held ! i) (rotate3 rotation (0, 1, 0)))] \<and>
      map wrench_body (wss ! i) = [tb_wheel (?B ! i), tb_reaction (?B ! i)])" if "i < length ?B" for i
    by (rule torque_channel_equilibrium [OF k step]) (use that fin len in auto)
  have two: "\<forall>us \<in> set wss. length us = 2"
  proof
    fix us assume "us \<in> set wss"
    then obtain i where i: "i < length ?B" "us = wss ! i" using n by (auto simp: in_set_conv_nth)
    from ch [OF i(1)] have "map wrench_body (wss ! i) = [tb_wheel (?B ! i), tb_reaction (?B ! i)]"
      by (elim conjE exE)
    from arg_cong [OF this, of length] show "length us = 2" by (simp add: i(2))
  qed
  have seg: "segment (2 * i) 2 ws = wss ! i" if "i < length ?B" for i
    unfolding ws using that n two by (simp add: segment_concat_const)
  have "in_equilibrium ?M (mc_state c) ws"
    unfolding ws using ch n by (intro equilibrium_concat) (auto simp: in_set_conv_nth)
  moreover have "length ws = 2 * channel_count plan"
    unfolding ws length_concat_const [OF two] n channel_count_def ..
  ultimately show ?thesis
    using ch by (auto simp: channel_count_def seg)
qed

text \<open>The active torque plan emits pure couples: the wrenches of one evaluation are in equilibrium,
  and channel \<open>i\<close> puts its held torque, about the axis provider's world-expressed y axis, on its wheel
  and the opposite torque on its reaction frame.\<close>

theorem active_torques_are_couples:
  "consistent_kinematics (atp_model plan) (mc_state c) \<Longrightarrow> calc_active_torques plan c held n = Inr ws \<Longrightarrow>
   in_equilibrium (atp_model plan) (mc_state c) ws \<and> length ws = 2 * channel_count plan \<and>
    (\<forall>i < channel_count plan. \<exists>rotation translation.
       calc_body_pose (atp_model plan) c (tb_axis_provider (atp_bindings plan ! i)) = Inr (rotation, translation) \<and>
       map wrench_torque (segment (2 * i) 2 ws) = [scale3 (held ! i) (rotate3 rotation (0, 1, 0)),
         neg3 (scale3 (held ! i) (rotate3 rotation (0, 1, 0)))] \<and>
       map wrench_body (segment (2 * i) 2 ws) = [tb_wheel (atp_bindings plan ! i), tb_reaction (atp_bindings plan ! i)])"
  by (rule calc_active_torques_couples)

subsection \<open>Witnesses\<close>

text \<open>Two bodies on the x axis, one metre apart, each with a frame at its origin, at rest.\<close>

definition example_pose :: "int \<Rightarrow> mat3 \<times> vec3" where
  "example_pose body = (identity3, (Fin (of_int body), 0, 0))"

definition example_model :: multibody_model where
  "example_model = \<lparr>mm_identity = 1, mm_finalized = True, mm_finalization_failed = False,
     mm_layout = example_layout, mm_body_names = [''world'', ''axle'', ''wheel'', ''frame''],
     mm_frame_bodies = [0, 1, 2, 3], mm_default_state = example_state, mm_quaternion_starts = [], mm_joint_slots = [0, 1],
     mm_forward_dynamics = (\<lambda>s ws. Inr [0, 0]), mm_qdot = (\<lambda>s. ms_velocities s),
     mm_map_velocity_to_qdot = (\<lambda>s v. Inr v), mm_map_qdot_to_velocity = (\<lambda>s qdot. qdot),
     mm_map_acceleration_to_qddot = (\<lambda>s vdot. Inr vdot),
     mm_body_pose = (\<lambda>s body. example_pose body),
     mm_frame_pose = (\<lambda>s frame. example_pose ([0, 1, 2, 3] ! nat frame)),
     mm_frame_offset = (\<lambda>s frame. zero3), mm_relative_velocity = (\<lambda>s f b e. (zero3, zero3))\<rparr>"

definition example_context :: multibody_context where
  "example_context = \<lparr>mc_issuer = 1, mc_state = example_state\<rparr>"

definition example_damper :: saturated_damper where
  "example_damper = \<lparr>spd_name = ''yaw'', spd_reference_end = Handle 1 1, spd_opposite_end = Handle 1 2,
     spd_axis = Lateral, spd_curve = [(0, 0), (2, 10), (3, 10)]\<rparr>"

definition example_plan :: vehicle_force_plan where
  "example_plan = \<lparr>vfp_model = example_model, vfp_elements =
     \<lparr>fe_translational = [\<lparr>tsd_name = ''primary'', tsd_reference_end = Handle 1 1, tsd_opposite_end = Handle 1 2,
         tsd_stiffness = (100, 0, 0), tsd_damping = (0, 0, 0)\<rparr>],
      fe_roll = [], fe_series = [], fe_saturated = [example_damper], fe_bushings = []\<rparr>\<rparr>"

definition no_rotations :: rotations where
  "no_rotations = \<lparr>quaternion_from_matrix = (\<lambda>m. (1, 0, 0, 0)), matrix_from_quaternion = (\<lambda>q. identity3)\<rparr>"

lemma example_kinematics: "consistent_kinematics example_model s"
  by (simp add: consistent_kinematics_def example_model_def example_pose_def identity3_def zero3_def)

lemma example_queries:
  "throw_if_not_finalized example_model = Inr ()" "require_own_context example_model example_context = Inr ()"
  "query example_model example_context = Inr ()"
  by (simp_all add: throw_if_not_finalized_def require_own_context_def query_def example_model_def
      example_context_def reject_if_def all_checks.simps)

lemma example_relative_motion:
  "\<exists>motion. calc_relative_motion example_model example_context (Handle 1 1) (Handle 1 2) = Inr motion \<and>
     rm_displacement_in_reference motion = (1, 0, 0) \<and> rm_displacement_in_world motion = (1, 0, 0) \<and>
     rm_velocity motion = zero3 \<and> rm_rotation_of_reference motion = identity3 \<and>
     rm_reference_point motion = (Handle 1 1, zero3) \<and> rm_opposite_point motion = (Handle 1 2, zero3)"
  by (simp add: calc_relative_motion_def calc_frame_pose_def calc_relative_velocity_def
      calc_frame_origin_as_body_fixed_point_def example_queries resolve_def handle_is_valid_def frame_count_def)
    (simp add: example_model_def example_pose_def identity3_def zero3_def numeral_eq_Suc Let_def make_handle_def)

lemma example_forces:
  "\<exists>ws. calc_applied_forces no_rotations example_plan example_context [] [7, 0, 0] 4 0 = Inr (ws, []) \<and>
     list_all wrench_finite ws \<and> length ws = 4 \<and> wrench_force (ws ! 0) = (107, 0, 0) \<and>
     list_all (\<lambda>w. wrench_ok example_model w = Inr ()) ws"
proof -
  obtain motion where m: "calc_relative_motion example_model example_context (Handle 1 1) (Handle 1 2) = Inr motion"
    "rm_displacement_in_reference motion = (1, 0, 0)" "rm_displacement_in_world motion = (1, 0, 0)"
    "rm_velocity motion = zero3" "rm_rotation_of_reference motion = identity3"
    "rm_reference_point motion = (Handle 1 1, zero3)" "rm_opposite_point motion = (Handle 1 2, zero3)"
    using example_relative_motion by blast
  have e: "evaluate_saturated_curve example_damper (Fin 0) = 0"
    by (simp add: evaluate_saturated_curve_def example_damper_def Let_def)
  have r: "resolve example_model (Handle 1 k) (body_count example_model) = Inr k" if "0 \<le> k" "k \<le> 3" for k
    using that by (simp add: resolve_def handle_is_valid_def body_count_def example_model_def)
  have f: "resolve example_model (world_frame example_model) (frame_count example_model) = Inr 0"
    by (simp add: resolve_def handle_is_valid_def frame_count_def world_frame_def make_handle_def example_model_def)
  show ?thesis
    by (simp add: calc_applied_forces_def example_plan_def body_wrench_count_def series_force_state_count_def
        nominal_force_component_count_def translational_wrenches_def saturated_wrenches_def m
        example_damper_def [THEN arg_cong, of spd_reference_end] example_damper_def [THEN arg_cong, of spd_opposite_end]
        example_damper_def [THEN arg_cong, of spd_axis] e Let_def wrench_ok_def r f
        translational_wrench_pair_def segment_def vec3_of_def axis_vector_def identity3_def zero3_def wrench_finite_def)
qed

lemma vehicle_forces_in_equilibrium_witness:
  "\<exists>ws. calc_applied_forces no_rotations example_plan example_context [] [7, 0, 0] 4 0 = Inr (ws, []) \<and>
     length ws = 4 \<and> in_equilibrium example_model example_state ws \<and>
     wrench_force (ws ! 0) = (107, 0, 0)"
proof -
  obtain ws where ws: "calc_applied_forces no_rotations example_plan example_context [] [7, 0, 0] 4 0 = Inr (ws, [])"
    and fin: "list_all wrench_finite ws" and n: "length ws = 4" and f: "wrench_force (ws ! 0) = (107, 0, 0)"
    using example_forces by blast
  from vehicle_forces_in_equilibrium [OF _ ws fin] example_kinematics
  have "in_equilibrium example_model example_state ws"
    by (simp add: example_plan_def example_context_def)
  with ws n f show ?thesis by blast
qed

lemma saturated_damper_odd_passive_bounded_witness:
  "saturated_damper_force example_damper 1 = Inr 5 \<and> saturated_damper_force example_damper (- 1) = Inr (- 5)"
proof -
  have "saturated_damper_force example_damper 1 = Inr 5"
    by (simp add: saturated_damper_force_def validate_saturated_curve_def example_damper_def
        evaluate_saturated_curve_def Let_def)
  with saturated_damper_odd_passive_bounded [OF this] show ?thesis by blast
qed

definition example_torques :: active_torque_plan where
  "example_torques = \<lparr>atp_model = example_model, atp_bindings = [\<lparr>tb_definition =
     \<lparr>td_channel_name = ''left'', td_axis_provider = ''axle'', td_wheel = ''wheel'', td_reaction = ''frame''\<rparr>,
      tb_axis_provider = Handle 1 1, tb_wheel = Handle 1 2, tb_reaction = Handle 1 3\<rparr>]\<rparr>"

lemma example_torque_wrenches:
  "\<exists>ws. calc_active_torques example_torques example_context [50] 2 = Inr ws \<and>
     list_all (\<lambda>w. wrench_ok example_model w = Inr ()) ws"
proof -
  have r: "resolve example_model (Handle 1 k) (body_count example_model) = Inr k" if "0 \<le> k" "k \<le> 3" for k
    using that by (simp add: resolve_def handle_is_valid_def body_count_def example_model_def)
  have f: "resolve example_model (world_frame example_model) (frame_count example_model) = Inr 0"
    by (simp add: resolve_def handle_is_valid_def frame_count_def world_frame_def make_handle_def example_model_def)
  have pose: "mm_body_pose example_model s b = (identity3, (Fin (of_int b), 0, 0))" for s b
    by (simp add: example_model_def example_pose_def)
  show ?thesis
    by (simp add: calc_active_torques_def example_torques_def Let_def torque_channel_wrenches_def
        calc_body_pose_def example_queries r f pose wrench_ok_def couple_wrench_pair_def identity3_def zero3_def)
qed

lemma active_torques_are_couples_witness:
  "\<exists>ws. calc_active_torques example_torques example_context [50] 2 = Inr ws \<and>
     in_equilibrium example_model example_state ws \<and> length ws = 2"
proof -
  obtain ws where ws: "calc_active_torques example_torques example_context [50] 2 = Inr ws"
    using example_torque_wrenches by blast
  from active_torques_are_couples [OF _ ws] example_kinematics
  have "in_equilibrium example_model example_state ws" "length ws = 2"
    by (simp_all add: example_torques_def example_context_def channel_count_def)
  with ws show ?thesis by blast
qed

end
