(* ===== verification/System_Assembly.thy ===== *)
theory System_Assembly
  imports Vehicle_Forces
begin

section \<open>system_assembly: description, instance, runtime context and compiled plan\<close>

text \<open>
  Models \<open>libs/system_assembly\<close>: the immutable description with its delegating constructors, the
  frozen \<open>SystemInstance\<close> with the block layout \<open>[q; v; z]\<close>, the \<open>SystemRuntimeContext\<close> that owns
  time, the multibody context and the context-local data, every operation that writes a context,
  and the derivative evaluation of \<open>CompiledSystemPlan\<close>.  Evaluation scratch (wrench and derivative
  buffers, workspaces, exact-input caches) is written before it is read in every call and is not state
  here.  The wheel-rail contact plan is a parameter: projection of a carrier onto the track
  (\<open>cfp_project\<close>) and the interface wrenches (\<open>cfp_interface_wrenches\<close>).
\<close>

subsection \<open>The contact plan as the system sees it\<close>

record contact_force_plan =
  cfp_model :: multibody_model
  cfp_initial_stations :: vec
  cfp_interface_count :: nat
  cfp_project :: "mstate \<Rightarrow> nat \<Rightarrow> double \<Rightarrow> double outcome"
  cfp_interface_wrenches :: "mstate \<Rightarrow> vec \<Rightarrow> applied_body_wrench list outcome"

definition carrier_count :: "contact_force_plan \<Rightarrow> nat" where
  "carrier_count plan = length (cfp_initial_stations plan)"

text \<open>\<open>EvaluateCarrierProjections\<close>: every carrier's station, from its own hint.\<close>

definition evaluate_carrier_projections ::
  "contact_force_plan \<Rightarrow> multibody_context \<Rightarrow> vec \<Rightarrow> vec outcome" where
  "evaluate_carrier_projections plan context hints =
     bindS (reject_if (length hints \<noteq> carrier_count plan) InvalidArgument) (\<lambda>_.
     bindS (all_checks (map (\<lambda>hint. reject_if (\<not> isfinite hint) InvalidArgument) hints)) (\<lambda>_.
     mapS (\<lambda>(ordinal, hint).
       bindS (query (cfp_model plan) context) (\<lambda>_. cfp_project plan (mc_state context) ordinal hint))
       (enumerate 0 hints)))"

definition calc_projection_station_hints ::
  "contact_force_plan \<Rightarrow> multibody_context \<Rightarrow> vec \<Rightarrow> nat \<Rightarrow> vec outcome" where
  "calc_projection_station_hints plan context current updated_length =
     bindS (reject_if (updated_length \<noteq> carrier_count plan) InvalidArgument) (\<lambda>_.
     evaluate_carrier_projections plan context current)"

definition calc_contact_forces ::
  "contact_force_plan \<Rightarrow> multibody_context \<Rightarrow> vec \<Rightarrow> nat \<Rightarrow> applied_body_wrench list outcome" where
  "calc_contact_forces plan context hints wrench_length =
     bindS (reject_if (wrench_length \<noteq> cfp_interface_count plan) InvalidArgument) (\<lambda>_.
     bindS (evaluate_carrier_projections plan context hints) (\<lambda>stations.
       cfp_interface_wrenches plan (mc_state context) stations))"

subsection \<open>The description\<close>

record system_description =
  sd_model :: multibody_model
  sd_force_plan :: "vehicle_force_plan option"
  sd_contact_plan :: "contact_force_plan option"
  sd_torque_plan :: "active_torque_plan option"
  sd_nq :: nat
  sd_nv :: nat
  sd_nz :: nat
  sd_nominal :: nat
  sd_vehicle_wrenches :: nat
  sd_contact_wrenches :: nat
  sd_torque_wrenches :: nat
  sd_held :: nat

definition describe_model :: "multibody_model \<Rightarrow> system_description outcome" where
  "describe_model model =
     bindS (reject_if (\<not> mm_finalized model) LogicError) (\<lambda>_.
     bindS (throw_if_not_finalized model) (\<lambda>_.
       Inr \<lparr>sd_model = model, sd_force_plan = None, sd_contact_plan = None, sd_torque_plan = None,
            sd_nq = nat (mm_nq model), sd_nv = nat (mm_nv model), sd_nz = 0, sd_nominal = 0,
            sd_vehicle_wrenches = 0, sd_contact_wrenches = 0, sd_torque_wrenches = 0, sd_held = 0\<rparr>))"

definition describe_vehicle :: "multibody_model \<Rightarrow> vehicle_force_plan \<Rightarrow> system_description outcome" where
  "describe_vehicle model plan =
     bindS (describe_model model) (\<lambda>d.
     bindS (reject_if (mm_identity (vfp_model plan) \<noteq> mm_identity model) InvalidArgument) (\<lambda>_.
       Inr (d\<lparr>sd_force_plan := Some plan, sd_nz := series_force_state_count plan,
              sd_nominal := nominal_force_component_count plan,
              sd_vehicle_wrenches := body_wrench_count plan\<rparr>)))"

definition describe_contact ::
  "multibody_model \<Rightarrow> vehicle_force_plan \<Rightarrow> contact_force_plan \<Rightarrow> system_description outcome" where
  "describe_contact model plan contact =
     bindS (describe_vehicle model plan) (\<lambda>d.
     bindS (reject_if (mm_identity (cfp_model contact) \<noteq> mm_identity model) InvalidArgument) (\<lambda>_.
       Inr (d\<lparr>sd_contact_plan := Some contact, sd_contact_wrenches := cfp_interface_count contact\<rparr>)))"

definition describe_torques ::
  "multibody_model \<Rightarrow> vehicle_force_plan \<Rightarrow> contact_force_plan \<Rightarrow> active_torque_plan \<Rightarrow> system_description outcome" where
  "describe_torques model plan contact torques =
     bindS (describe_contact model plan contact) (\<lambda>d.
     bindS (reject_if (mm_identity (atp_model torques) \<noteq> mm_identity model) InvalidArgument) (\<lambda>_.
       Inr (d\<lparr>sd_torque_plan := Some torques, sd_torque_wrenches := 2 * channel_count torques,
              sd_held := channel_count torques\<rparr>)))"

definition state_time_derivative_size :: "system_description \<Rightarrow> nat" where
  "state_time_derivative_size d = sd_nq d + sd_nv d + sd_nz d"

subsection \<open>The instance\<close>

record system_instance =
  si_identity :: u64
  si_description :: system_description

text \<open>\<open>++counter\<close> on the process-wide counter: the new counter, and the instance.\<close>

definition make_system :: "u64 \<Rightarrow> system_description \<Rightarrow> system_instance \<times> u64" where
  "make_system counter d = (\<lparr>si_identity = counter + 1, si_description = d\<rparr>, counter + 1)"

abbreviation si_nq :: "system_instance \<Rightarrow> nat" where "si_nq sys \<equiv> sd_nq (si_description sys)"
abbreviation si_nv :: "system_instance \<Rightarrow> nat" where "si_nv sys \<equiv> sd_nv (si_description sys)"
abbreviation si_nz :: "system_instance \<Rightarrow> nat" where "si_nz sys \<equiv> sd_nz (si_description sys)"
abbreviation si_model :: "system_instance \<Rightarrow> multibody_model" where "si_model sys \<equiv> sd_model (si_description sys)"

definition continuous_state_size :: "system_instance \<Rightarrow> nat" where
  "continuous_state_size sys = si_nq sys + si_nv sys + si_nz sys"

record state_range =
  range_start :: nat
  range_size :: nat

definition positions_range :: "system_instance \<Rightarrow> state_range" where
  "positions_range sys = \<lparr>range_start = 0, range_size = si_nq sys\<rparr>"

definition velocities_range :: "system_instance \<Rightarrow> state_range" where
  "velocities_range sys = \<lparr>range_start = si_nq sys, range_size = si_nv sys\<rparr>"

definition series_range :: "system_instance \<Rightarrow> state_range" where
  "series_range sys = \<lparr>range_start = si_nq sys + si_nv sys, range_size = si_nz sys\<rparr>"

text \<open>Typed indices: the system that issued them and an ordinal.\<close>

datatype 'tag system_index = SystemIndex (index_system: u64) (index_ordinal: int)

datatype component_tag = ComponentTag
datatype translational_tag = TranslationalTag
datatype series_tag = SeriesTag

definition multibody_component :: "system_instance \<Rightarrow> component_tag system_index" where
  "multibody_component sys = SystemIndex (si_identity sys) 0"

definition translational_index_by_name :: "system_instance \<Rightarrow> string \<Rightarrow> translational_tag system_index outcome" where
  "translational_index_by_name sys name =
     (case sd_force_plan (si_description sys) of
        None \<Rightarrow> Inl InvalidArgument
      | Some plan \<Rightarrow> bindS (find_translational_ordinal plan name) (\<lambda>k.
          Inr (SystemIndex (si_identity sys) (int k))))"

definition series_index_by_name :: "system_instance \<Rightarrow> string \<Rightarrow> series_tag system_index outcome" where
  "series_index_by_name sys name =
     (case sd_force_plan (si_description sys) of
        None \<Rightarrow> Inl InvalidArgument
      | Some plan \<Rightarrow> bindS (find_series_ordinal plan name) (\<lambda>k.
          Inr (SystemIndex (si_identity sys) (int k))))"

definition series_element_range :: "system_instance \<Rightarrow> series_tag system_index \<Rightarrow> state_range outcome" where
  "series_element_range sys element =
     (if index_system element \<noteq> si_identity sys \<or> index_ordinal element < 0 \<or>
         int (si_nz sys) \<le> index_ordinal element then Inl InvalidArgument
      else Inr \<lparr>range_start = si_nq sys + si_nv sys + nat (index_ordinal element), range_size = 1\<rparr>)"

subsection \<open>The runtime context\<close>

record system_context =
  sc_issuer :: u64
  sc_time :: double
  sc_multibody :: multibody_context
  sc_series :: vec
  sc_nominal :: vec
  sc_held :: vec
  sc_hints :: vec

abbreviation sc_positions :: "system_context \<Rightarrow> vec" where
  "sc_positions c \<equiv> ms_positions (mc_state (sc_multibody c))"

abbreviation sc_velocities :: "system_context \<Rightarrow> vec" where
  "sc_velocities c \<equiv> ms_velocities (mc_state (sc_multibody c))"

definition create_default_runtime_context :: "system_instance \<Rightarrow> double \<Rightarrow> system_context outcome" where
  "create_default_runtime_context sys initial_time =
     bindS (reject_if (\<not> isfinite initial_time) InvalidArgument) (\<lambda>_.
     bindS (create_default_context (si_model sys)) (\<lambda>context.
       let d = si_description sys in
       Inr \<lparr>sc_issuer = si_identity sys, sc_time = initial_time, sc_multibody = context,
            sc_series = replicate (sd_nz d) 0, sc_nominal = replicate (sd_nominal d) 0,
            sc_held = replicate (sd_held d) 0,
            sc_hints = (case sd_contact_plan d of None \<Rightarrow> [] | Some plan \<Rightarrow> cfp_initial_stations plan)\<rparr>))"

definition own_context :: "system_instance \<Rightarrow> system_context \<Rightarrow> unit outcome" where
  "own_context sys c = reject_if (sc_issuer c \<noteq> si_identity sys) InvalidArgument"

text \<open>The contents of an output of \<open>output_size\<close> entries after \<open>CopyContinuousState\<close>.\<close>

definition copy_continuous_state :: "system_instance \<Rightarrow> system_context \<Rightarrow> nat \<Rightarrow> vec outcome" where
  "copy_continuous_state sys c output_size =
     bindS (own_context sys c) (\<lambda>_.
     bindS (reject_if (output_size \<noteq> continuous_state_size sys) InvalidArgument) (\<lambda>_.
       Inr (sc_positions c @ sc_velocities c @ sc_series c)))"

text \<open>The write of q and v inside the multibody context a system context owns.\<close>

definition on_multibody :: "(multibody_context, 'a) effect \<Rightarrow> (system_context, 'a) effect" where
  "on_multibody m c = (case m (sc_multibody c) of (r, d) \<Rightarrow> (r, c\<lparr>sc_multibody := d\<rparr>))"

definition set_time_and_continuous_state :: "system_instance \<Rightarrow> double \<Rightarrow> vec \<Rightarrow> (system_context, unit) effect" where
  "set_time_and_continuous_state sys time x =
     (let series_forces = segment (si_nq sys + si_nv sys) (si_nz sys) x in
     seqE (callE (own_context sys)) (
     seqE (rejectE (\<lambda>_. \<not> isfinite time) InvalidArgument) (
     seqE (rejectE (\<lambda>_. length x \<noteq> continuous_state_size sys) InvalidArgument) (
     seqE (rejectE (\<lambda>_. \<not> all_finite series_forces) InvalidArgument) (
     seqE (on_multibody (model_set_generalized_state (si_model sys)
            (segment 0 (si_nq sys) x) (segment (si_nq sys) (si_nv sys) x))) (
     seqE (modifyE (\<lambda>c. c\<lparr>sc_series := series_forces\<rparr>)) (
     modifyE (\<lambda>c. c\<lparr>sc_time := time\<rparr>))))))))"

definition set_continuous_state :: "system_instance \<Rightarrow> vec \<Rightarrow> (system_context, unit) effect" where
  "set_continuous_state sys x = bindE (readE sc_time) (\<lambda>time. set_time_and_continuous_state sys time x)"

definition expected_hint_count :: "system_instance \<Rightarrow> nat" where
  "expected_hint_count sys = (case sd_contact_plan (si_description sys) of None \<Rightarrow> 0 | Some plan \<Rightarrow> carrier_count plan)"

definition set_time_state_and_hints ::
  "system_instance \<Rightarrow> double \<Rightarrow> vec \<Rightarrow> vec \<Rightarrow> (system_context, unit) effect" where
  "set_time_state_and_hints sys time x hints =
     seqE (callE (own_context sys)) (
     seqE (rejectE (\<lambda>_. length hints \<noteq> expected_hint_count sys) InvalidArgument) (
     seqE (forE (\<lambda>hint. rejectE (\<lambda>_. \<not> isfinite hint) InvalidArgument) hints) (
     seqE (set_time_and_continuous_state sys time x) (
     modifyE (\<lambda>c. c\<lparr>sc_hints := hints\<rparr>)))))"

definition update_projection_hints :: "system_instance \<Rightarrow> (system_context, unit) effect" where
  "update_projection_hints sys =
     seqE (callE (own_context sys)) (
     case sd_contact_plan (si_description sys) of
       None \<Rightarrow> ret ()
     | Some plan \<Rightarrow>
         bindE (callE (\<lambda>c. calc_projection_station_hints plan (sc_multibody c) (sc_hints c) (length (sc_hints c)))) (\<lambda>hints.
         modifyE (\<lambda>c. c\<lparr>sc_hints := hints\<rparr>)))"

definition set_nominal_force ::
  "system_instance \<Rightarrow> translational_tag system_index \<Rightarrow> vec3 \<Rightarrow> (system_context, unit) effect" where
  "set_nominal_force sys element force =
     seqE (callE (own_context sys)) (
     seqE (rejectE (\<lambda>_. index_system element \<noteq> si_identity sys \<or> index_ordinal element < 0 \<or>
            int (sd_nominal (si_description sys)) \<le> 3 * index_ordinal element + 2) InvalidArgument) (
     seqE (rejectE (\<lambda>_. \<not> all_finite (v3 force)) InvalidArgument) (
     modifyE (\<lambda>c. c\<lparr>sc_nominal := put_segment (3 * nat (index_ordinal element)) (v3 force) (sc_nominal c)\<rparr>))))"

definition set_held_torques :: "system_instance \<Rightarrow> vec \<Rightarrow> (system_context, unit) effect" where
  "set_held_torques sys held =
     seqE (callE (own_context sys)) (
     seqE (rejectE (\<lambda>_. length held \<noteq> sd_held (si_description sys)) InvalidArgument) (
     seqE (forE (\<lambda>torque. rejectE (\<lambda>_. \<not> isfinite torque) InvalidArgument) held) (
     modifyE (\<lambda>c. c\<lparr>sc_held := held\<rparr>))))"

text \<open>The effect is on the destination context.\<close>

definition copy_context_local_data :: "system_instance \<Rightarrow> system_context \<Rightarrow> (system_context, unit) effect" where
  "copy_context_local_data sys source =
     seqE (rejectE (\<lambda>c. sc_issuer source \<noteq> si_identity sys \<or> sc_issuer c \<noteq> si_identity sys) InvalidArgument) (
     seqE (on_multibody (copy_joint_damping (si_model sys) (sc_multibody source))) (
     seqE (modifyE (\<lambda>c. c\<lparr>sc_nominal := sc_nominal source\<rparr>)) (
     modifyE (\<lambda>c. c\<lparr>sc_held := sc_held source\<rparr>))))"

text \<open>\<open>GetMultibodyComponentView\<close>: the component the compiled plan evaluates.\<close>

definition component_view ::
  "system_instance \<Rightarrow> system_context \<Rightarrow> component_tag system_index \<Rightarrow> multibody_context outcome" where
  "component_view sys c component =
     bindS (own_context sys c) (\<lambda>_.
     bindS (reject_if (index_system component \<noteq> si_identity sys \<or> index_ordinal component \<noteq> 0) InvalidArgument) (\<lambda>_.
       Inr (sc_multibody c)))"

subsection \<open>The compiled plan\<close>

text \<open>The wrenches of the three force sources in their fixed slices, and the series-state rates.\<close>

definition calc_all_forces ::
  "rotations \<Rightarrow> system_instance \<Rightarrow> multibody_context \<Rightarrow> system_context \<Rightarrow> (applied_body_wrench list \<times> vec) outcome" where
  "calc_all_forces rot sys component c =
     (let d = si_description sys in
     bindS (case sd_force_plan d of
              None \<Rightarrow> Inr ([], [])
            | Some plan \<Rightarrow> calc_applied_forces rot plan component (sc_series c) (sc_nominal c)
                (sd_vehicle_wrenches d) (sd_nz d)) (\<lambda>(vehicle, rates).
     bindS (case sd_contact_plan d of
              None \<Rightarrow> Inr []
            | Some plan \<Rightarrow> calc_contact_forces plan component (sc_hints c) (sd_contact_wrenches d)) (\<lambda>contact.
     bindS (case sd_torque_plan d of
              None \<Rightarrow> Inr []
            | Some plan \<Rightarrow> calc_active_torques plan component (sc_held c) (sd_torque_wrenches d)) (\<lambda>torques.
       Inr (vehicle @ contact @ torques, rates)))))"

definition calc_state_time_derivatives :: "rotations \<Rightarrow> system_instance \<Rightarrow> system_context \<Rightarrow> nat \<Rightarrow> vec outcome" where
  "calc_state_time_derivatives rot sys c output_size =
     bindS (reject_if (output_size \<noteq> continuous_state_size sys) InvalidArgument) (\<lambda>_.
     bindS (component_view sys c (multibody_component sys)) (\<lambda>component.
     bindS (calc_all_forces rot sys component c) (\<lambda>(wrenches, rates).
     bindS (model_state_time_derivatives (si_model sys) component wrenches
              (int (si_nq sys) + int (si_nv sys))) (\<lambda>derivatives.
       Inr (derivatives @ rates)))))"

subsection \<open>What every write of a context promises\<close>

datatype context_part = TimePart | CoordinatePart | SeriesPart | DampingPart | NominalPart | HeldPart | HintsPart

fun same_part :: "context_part \<Rightarrow> system_context \<Rightarrow> system_context \<Rightarrow> bool" where
  "same_part TimePart c d \<longleftrightarrow> sc_time d = sc_time c"
| "same_part CoordinatePart c d \<longleftrightarrow> sc_positions d = sc_positions c \<and> sc_velocities d = sc_velocities c"
| "same_part SeriesPart c d \<longleftrightarrow> sc_series d = sc_series c"
| "same_part DampingPart c d \<longleftrightarrow> ms_damping (mc_state (sc_multibody d)) = ms_damping (mc_state (sc_multibody c))"
| "same_part NominalPart c d \<longleftrightarrow> sc_nominal d = sc_nominal c"
| "same_part HeldPart c d \<longleftrightarrow> sc_held d = sc_held c"
| "same_part HintsPart c d \<longleftrightarrow> sc_hints d = sc_hints c"

lemma same_part_refl [simp]: "same_part p c c"
  by (cases p) simp_all

text \<open>What the constructors establish of a system, and what its plans and model document.\<close>

definition system_ok :: "system_instance \<Rightarrow> bool" where
  "system_ok sys \<longleftrightarrow> (let d = si_description sys; model = sd_model d in
     mm_finalized model \<and> \<not> mm_finalization_failed model \<and>
     int (sd_nq d) = mm_nq model \<and> int (sd_nv d) = mm_nv model \<and> slots_ok model \<and>
     (sd_force_plan d = None \<longrightarrow> sd_nz d = 0) \<and>
     mstate_wf (mm_default_state model) \<and> ms_layout (mm_default_state model) = mm_layout model \<and>
     (\<forall>plan. sd_contact_plan d = Some plan \<longrightarrow> all_finite (cfp_initial_stations plan) \<and>
        (\<forall>s k hint station. cfp_project plan s k hint = Inr station \<longrightarrow> isfinite station)))"

definition context_wf :: "system_instance \<Rightarrow> system_context \<Rightarrow> bool" where
  "context_wf sys c \<longleftrightarrow> (let d = si_description sys in
     sc_issuer c = si_identity sys \<and> isfinite (sc_time c) \<and> same_model (sd_model d) (sc_multibody c) \<and>
     length (sc_series c) = sd_nz d \<and> all_finite (sc_series c) \<and>
     length (sc_nominal c) = sd_nominal d \<and> all_finite (sc_nominal c) \<and>
     length (sc_held c) = sd_held d \<and> all_finite (sc_held c) \<and>
     length (sc_hints c) = expected_hint_count sys \<and> all_finite (sc_hints c))"

locale context_write =
  fixes sys :: system_instance
    and wr :: "(system_context, unit) effect"
    and touched :: "context_part set"
    and ready :: bool
  assumes write_refused: "system_ok sys \<Longrightarrow> ready \<Longrightarrow> context_wf sys c \<Longrightarrow> wr c = (Inl e, d) \<Longrightarrow> d = c"
    and write_keeps: "system_ok sys \<Longrightarrow> ready \<Longrightarrow> context_wf sys c \<Longrightarrow> wr c = (Inr (), d) \<Longrightarrow> context_wf sys d"
    and write_touches: "system_ok sys \<Longrightarrow> ready \<Longrightarrow> context_wf sys c \<Longrightarrow> wr c = (Inr (), d) \<Longrightarrow>
      p \<notin> touched \<Longrightarrow> same_part p c d"

context context_write begin

lemma outcome_wf: "system_ok sys \<Longrightarrow> ready \<Longrightarrow> context_wf sys c \<Longrightarrow> wr c = (r, d) \<Longrightarrow> context_wf sys d"
  by (cases r) (auto dest: write_refused write_keeps)

lemma outcome_frame: "system_ok sys \<Longrightarrow> ready \<Longrightarrow> context_wf sys c \<Longrightarrow> wr c = (r, d) \<Longrightarrow> p \<notin> touched \<Longrightarrow> same_part p c d"
  by (cases r) (auto dest: write_refused intro: write_touches)

end

lemma on_multibody_run: "on_multibody m c = (r, d) \<longleftrightarrow>
    (\<exists>b. m (sc_multibody c) = (r, b) \<and> d = c\<lparr>sc_multibody := b\<rparr>)"
  by (auto simp: on_multibody_def split: prod.splits)

lemma atomic_on_multibody [effect_intros]: "atomic m \<Longrightarrow> atomic (on_multibody m)"
  unfolding atomic_def on_multibody_run by fastforce

lemma forE_reject_run: "forE (\<lambda>x. rejectE (\<lambda>_. bad x) e) xs s = (if list_ex bad xs then Inl e else Inr (), s)"
  by (induction xs) (auto simp: effect_simps)

lemma own_context_Inr: "own_context sys c = Inr () \<longleftrightarrow> sc_issuer c = si_identity sys"
  by (simp add: own_context_def)

lemma set_time_and_continuous_state_atomic: "atomic (set_time_and_continuous_state sys time x)"
  unfolding set_time_and_continuous_state_def Let_def
  by (intro atomic_seq_check_then readonly_intros atomic_seq_then_nofail [OF atomic_on_multibody]
      model_set_generalized_state_atomic nofail_seqE nofail_modifyE)

lemma three_blocks_finite:
  assumes "length x = a + b + c"
  shows "all_finite x \<longleftrightarrow> all_finite (segment 0 a x) \<and> all_finite (segment a b x) \<and> all_finite (segment (a + b) c x)"
    and "segment 0 a x @ segment a b x @ segment (a + b) c x = x"
proof -
  have "x = take a x @ take b (drop a x) @ drop (a + b) x"
    by (metis append_take_drop_id drop_drop add.commute)
  then show e: "segment 0 a x @ segment a b x @ segment (a + b) c x = x"
    using assms by (simp add: segment_def)
  show "all_finite x \<longleftrightarrow> all_finite (segment 0 a x) \<and> all_finite (segment a b x) \<and> all_finite (segment (a + b) c x)"
    by (subst e [symmetric]) (simp only: all_finite_append)
qed

text \<open>The transaction in one step.\<close>

lemma set_time_and_continuous_state_Inr:
  assumes ok: "system_ok sys" and wf: "context_wf sys c"
  shows "set_time_and_continuous_state sys time x c = (Inr (), d) \<longleftrightarrow>
    isfinite time \<and> length x = continuous_state_size sys \<and> all_finite x \<and>
    require_quaternions (si_model sys) (segment 0 (si_nq sys) x) = Inr () \<and>
    (\<exists>nq nv. next_version (ms_positions_version (mc_state (sc_multibody c))) = Inr nq \<and>
       next_version (ms_velocities_version (mc_state (sc_multibody c))) = Inr nv \<and>
       d = c\<lparr>sc_multibody := (sc_multibody c)\<lparr>mc_state := (mc_state (sc_multibody c))
               \<lparr>ms_positions := segment 0 (si_nq sys) x, ms_velocities := segment (si_nq sys) (si_nv sys) x,
                ms_positions_version := nq, ms_velocities_version := nv\<rparr>\<rparr>,
             sc_series := segment (si_nq sys + si_nv sys) (si_nz sys) x, sc_time := time\<rparr>)"
proof -
  have m: "mm_finalized (si_model sys)" "\<not> mm_finalization_failed (si_model sys)"
    "int (si_nq sys) = mm_nq (si_model sys)" "int (si_nv sys) = mm_nv (si_model sys)"
    using ok by (simp_all add: system_ok_def Let_def)
  have w: "sc_issuer c = si_identity sys" "same_model (si_model sys) (sc_multibody c)"
    using wf by (simp_all add: context_wf_def Let_def)
  then have s: "mstate_wf (mc_state (sc_multibody c))" "mc_issuer (sc_multibody c) = mm_identity (si_model sys)"
    "ms_layout (mc_state (sc_multibody c)) = mm_layout (si_model sys)"
    by (simp_all add: same_model_def)
  note three = three_blocks_finite(1) [of x "si_nq sys" "si_nv sys" "si_nz sys"]
  show ?thesis
    using three
    by (auto simp: set_time_and_continuous_state_def Let_def effect_outcome on_multibody_run own_context_Inr
        model_set_generalized_state_Inr [OF s(1)] m s w continuous_state_size_def split: if_splits)
qed

lemma set_time_and_continuous_state_wf:
  assumes ok: "system_ok sys" and wf: "context_wf sys c"
    and run: "set_time_and_continuous_state sys time x c = (Inr (), d)"
  shows "context_wf sys d"
proof -
  let ?s = "mc_state (sc_multibody c)"
  from run obtain nq nv where x: "isfinite time" "length x = continuous_state_size sys" "all_finite x"
    and d: "d = c\<lparr>sc_multibody := (sc_multibody c)\<lparr>mc_state := ?s\<lparr>ms_positions := segment 0 (si_nq sys) x,
              ms_velocities := segment (si_nq sys) (si_nv sys) x,
              ms_positions_version := nq, ms_velocities_version := nv\<rparr>\<rparr>,
            sc_series := segment (si_nq sys + si_nv sys) (si_nz sys) x, sc_time := time\<rparr>"
    unfolding set_time_and_continuous_state_Inr [OF ok wf] by blast
  have n: "int (si_nq sys) = mm_nq (si_model sys)" "int (si_nv sys) = mm_nv (si_model sys)"
    using ok by (simp_all add: system_ok_def Let_def)
  have w: "mstate_wf ?s" "ms_layout ?s = mm_layout (si_model sys)"
    using wf by (simp_all add: context_wf_def Let_def same_model_def)
  have len: "length x = si_nq sys + si_nv sys + si_nz sys"
    using x(2) by (simp add: continuous_state_size_def)
  have "mstate_wf (mc_state (sc_multibody d))"
    using w n x(3) len three_blocks_finite(1) [OF len]
    by (simp add: d mstate_wf_def Let_def mm_nq_def mm_nv_def)
  with wf x len three_blocks_finite(1) [OF len] show ?thesis
    by (simp add: context_wf_def Let_def d same_model_def)
qed

interpretation set_state: context_write sys "set_time_and_continuous_state sys time x"
  "{TimePart, CoordinatePart, SeriesPart}" True for sys time x
proof
  fix c d :: system_context and e p
  assume ok: "system_ok sys" and wf: "context_wf sys c"
  show "set_time_and_continuous_state sys time x c = (Inl e, d) \<Longrightarrow> d = c"
    by (rule atomicD [OF set_time_and_continuous_state_atomic])
  show "set_time_and_continuous_state sys time x c = (Inr (), d) \<Longrightarrow> context_wf sys d"
    by (rule set_time_and_continuous_state_wf [OF ok wf])
  show "set_time_and_continuous_state sys time x c = (Inr (), d) \<Longrightarrow>
      p \<notin> {TimePart, CoordinatePart, SeriesPart} \<Longrightarrow> same_part p c d"
    unfolding set_time_and_continuous_state_Inr [OF ok wf] by (cases p) auto
qed

lemma set_continuous_state_run: "set_continuous_state sys x c = set_time_and_continuous_state sys (sc_time c) x c"
  by (simp add: set_continuous_state_def effect_simps)

interpretation set_state_only: context_write sys "set_continuous_state sys x" "{CoordinatePart, SeriesPart}" True for sys x
proof
  fix c d :: system_context and e p
  assume ok: "system_ok sys" and wf: "context_wf sys c"
  show "set_continuous_state sys x c = (Inl e, d) \<Longrightarrow> d = c"
    unfolding set_continuous_state_run by (rule set_state.write_refused [OF ok TrueI wf])
  show "set_continuous_state sys x c = (Inr (), d) \<Longrightarrow> context_wf sys d"
    unfolding set_continuous_state_run by (rule set_state.write_keeps [OF ok TrueI wf])
  show "set_continuous_state sys x c = (Inr (), d) \<Longrightarrow> p \<notin> {CoordinatePart, SeriesPart} \<Longrightarrow> same_part p c d"
    unfolding set_continuous_state_run set_time_and_continuous_state_Inr [OF ok wf] by (cases p) auto
qed

lemma set_time_state_and_hints_Inr:
  "set_time_state_and_hints sys time x hints c = (Inr (), d) \<longleftrightarrow>
     sc_issuer c = si_identity sys \<and> length hints = expected_hint_count sys \<and> all_finite hints \<and>
     (\<exists>b. set_time_and_continuous_state sys time x c = (Inr (), b) \<and> d = b\<lparr>sc_hints := hints\<rparr>)"
  by (auto simp: set_time_state_and_hints_def effect_outcome own_context_Inr forE_reject_run all_finite_iff
      list_ex_iff split: if_splits)

lemma context_wf_hints: "context_wf sys c \<Longrightarrow> length hints = expected_hint_count sys \<Longrightarrow> all_finite hints \<Longrightarrow>
    context_wf sys (c\<lparr>sc_hints := hints\<rparr>)"
  by (simp add: context_wf_def Let_def)

lemma same_part_hints: "p \<noteq> HintsPart \<Longrightarrow> same_part p c (d\<lparr>sc_hints := h\<rparr>) = same_part p c d"
  by (cases p) simp_all

interpretation set_state_hints: context_write sys "set_time_state_and_hints sys time x hints"
  "{TimePart, CoordinatePart, SeriesPart, HintsPart}" True for sys time x hints
proof
  fix c d :: system_context and e p
  assume ok: "system_ok sys" and wf: "context_wf sys c"
  have "atomic (set_time_state_and_hints sys time x hints)"
    unfolding set_time_state_and_hints_def
    by (intro atomic_seq_check_then readonly_intros atomic_seq_then_nofail
        set_time_and_continuous_state_atomic nofail_modifyE)
  then show "set_time_state_and_hints sys time x hints c = (Inl e, d) \<Longrightarrow> d = c"
    by (rule atomicD)
  assume "set_time_state_and_hints sys time x hints c = (Inr (), d)"
  then obtain b where h: "length hints = expected_hint_count sys" "all_finite hints"
    and b: "set_time_and_continuous_state sys time x c = (Inr (), b)" and d: "d = b\<lparr>sc_hints := hints\<rparr>"
    unfolding set_time_state_and_hints_Inr by blast
  show "context_wf sys d"
    unfolding d using set_state.write_keeps [OF ok TrueI wf b] h by (rule context_wf_hints)
  show "p \<notin> {TimePart, CoordinatePart, SeriesPart, HintsPart} \<Longrightarrow> same_part p c d"
    using set_state.write_touches [OF ok TrueI wf b, of p] by (simp add: d same_part_hints)
qed

lemma projection_hints_Inr:
  assumes "calc_projection_station_hints plan b hints n = Inr stations"
  shows "length stations = carrier_count plan"
    and "(\<And>s k hint station. cfp_project plan s k hint = Inr station \<Longrightarrow> isfinite station) \<Longrightarrow> all_finite stations"
proof -
  have m: "mapS (\<lambda>(ordinal, hint). bindS (query (cfp_model plan) b) (\<lambda>_. cfp_project plan (mc_state b) ordinal hint))
      (enumerate 0 hints) = Inr stations" and len: "length hints = carrier_count plan"
    using assms by (auto simp: calc_projection_station_hints_def evaluate_carrier_projections_def bindS_eq_Inr)
  show "length stations = carrier_count plan"
    using mapS_length [OF m] len by simp
  show "(\<And>s k hint station. cfp_project plan s k hint = Inr station \<Longrightarrow> isfinite station) \<Longrightarrow> all_finite stations"
    using mapS_mem [OF m] by (fastforce simp: all_finite_iff bindS_eq_Inr)
qed

interpretation update_hints: context_write sys "update_projection_hints sys" "{HintsPart}" True for sys
proof
  fix c d :: system_context and e p
  assume ok: "system_ok sys" and wf: "context_wf sys c"
  have "atomic (update_projection_hints sys)"
    unfolding update_projection_hints_def
    by (cases "sd_contact_plan (si_description sys)")
      (simp_all, (intro effect_intros readonly_intros nofail_atomic)+)
  then show "update_projection_hints sys c = (Inl e, d) \<Longrightarrow> d = c"
    by (rule atomicD)
  assume run: "update_projection_hints sys c = (Inr (), d)"
  show "context_wf sys d"
  proof (cases "sd_contact_plan (si_description sys)")
    case None
    with run wf show ?thesis by (auto simp: update_projection_hints_def effect_outcome)
  next
    case (Some plan)
    with run obtain stations where
      s: "calc_projection_station_hints plan (sc_multibody c) (sc_hints c) (length (sc_hints c)) = Inr stations"
      and d: "d = c\<lparr>sc_hints := stations\<rparr>"
      by (auto simp: update_projection_hints_def effect_outcome)
    have "\<And>s k hint station. cfp_project plan s k hint = Inr station \<Longrightarrow> isfinite station"
      using ok Some by (auto simp: system_ok_def Let_def)
    with projection_hints_Inr [OF s] show ?thesis
      unfolding d using wf Some by (intro context_wf_hints) (simp_all add: expected_hint_count_def)
  qed
  show "p \<notin> {HintsPart} \<Longrightarrow> same_part p c d"
    using run
    by (cases "sd_contact_plan (si_description sys)")
      (auto simp: update_projection_hints_def effect_outcome same_part_hints)
qed

lemma set_nominal_force_Inr:
  "set_nominal_force sys element force c = (Inr (), d) \<longleftrightarrow>
     sc_issuer c = si_identity sys \<and> index_system element = si_identity sys \<and> 0 \<le> index_ordinal element \<and>
     3 * index_ordinal element + 2 < int (sd_nominal (si_description sys)) \<and> all_finite (v3 force) \<and>
     d = c\<lparr>sc_nominal := put_segment (3 * nat (index_ordinal element)) (v3 force) (sc_nominal c)\<rparr>"
  by (auto simp: set_nominal_force_def effect_outcome own_context_Inr split: if_splits)

lemma length_v3 [simp]: "length (v3 v) = 3"
  by (cases v) simp

lemma all_finite_put_segment: "all_finite ys \<Longrightarrow> all_finite xs \<Longrightarrow> all_finite (put_segment k ys xs)"
  unfolding put_segment_def all_finite_iff by (auto dest: in_set_takeD in_set_dropD)

interpretation set_nominal: context_write sys "set_nominal_force sys element force" "{NominalPart}" True for sys element force
proof
  fix c d :: system_context and e p
  assume ok: "system_ok sys" and wf: "context_wf sys c"
  have "atomic (set_nominal_force sys element force)"
    unfolding set_nominal_force_def by (intro effect_intros readonly_intros nofail_atomic)
  then show "set_nominal_force sys element force c = (Inl e, d) \<Longrightarrow> d = c" by (rule atomicD)
  assume run: "set_nominal_force sys element force c = (Inr (), d)"
  then have "3 * nat (index_ordinal element) + 3 \<le> length (sc_nominal c)"
    using wf by (auto simp: set_nominal_force_Inr context_wf_def Let_def)
  then show "context_wf sys d"
    using run wf by (auto simp: set_nominal_force_Inr context_wf_def Let_def expected_hint_count_def
        all_finite_put_segment)
  show "p \<notin> {NominalPart} \<Longrightarrow> same_part p c d"
    using run by (cases p) (auto simp: set_nominal_force_Inr)
qed

lemma set_held_torques_Inr:
  "set_held_torques sys held c = (Inr (), d) \<longleftrightarrow>
     sc_issuer c = si_identity sys \<and> length held = sd_held (si_description sys) \<and> all_finite held \<and>
     d = c\<lparr>sc_held := held\<rparr>"
  by (auto simp: set_held_torques_def effect_outcome own_context_Inr forE_reject_run all_finite_iff
      list_ex_iff split: if_splits)

interpretation set_held: context_write sys "set_held_torques sys held" "{HeldPart}" True for sys held
proof
  fix c d :: system_context and e p
  assume ok: "system_ok sys" and wf: "context_wf sys c"
  have "atomic (set_held_torques sys held)"
    unfolding set_held_torques_def by (intro effect_intros readonly_intros nofail_atomic)
  then show "set_held_torques sys held c = (Inl e, d) \<Longrightarrow> d = c" by (rule atomicD)
  assume run: "set_held_torques sys held c = (Inr (), d)"
  show "context_wf sys d"
    using run wf by (auto simp: set_held_torques_Inr context_wf_def Let_def expected_hint_count_def)
  show "p \<notin> {HeldPart} \<Longrightarrow> same_part p c d"
    using run by (cases p) (auto simp: set_held_torques_Inr)
qed

text \<open>Between contexts of one system the damping copy cannot fail, so neither can the whole copy.\<close>

lemma copy_context_local_data_run:
  assumes ok: "system_ok sys" and src: "context_wf sys source" and wf: "context_wf sys c"
  obtains damping where
    "copy_context_local_data sys source c = (Inr (), c\<lparr>sc_multibody := (sc_multibody c)\<lparr>mc_state :=
        (mc_state (sc_multibody c))\<lparr>ms_damping := damping\<rparr>\<rparr>,
      sc_nominal := sc_nominal source, sc_held := sc_held source\<rparr>)"
    and "mstate_wf ((mc_state (sc_multibody c))\<lparr>ms_damping := damping\<rparr>)"
    and "\<And>joint. joint \<in> set (mm_joint_slots (si_model sys)) \<Longrightarrow>
       joint_damping joint ((mc_state (sc_multibody c))\<lparr>ms_damping := damping\<rparr>) =
       joint_damping joint (mc_state (sc_multibody source))"
proof -
  have m: "mm_finalized (si_model sys)" "\<not> mm_finalization_failed (si_model sys)" "slots_ok (si_model sys)"
    using ok by (simp_all add: system_ok_def Let_def)
  have s: "same_model (si_model sys) (sc_multibody source)" "same_model (si_model sys) (sc_multibody c)"
    "sc_issuer source = si_identity sys" "sc_issuer c = si_identity sys"
    using src wf by (simp_all add: context_wf_def Let_def)
  obtain damping where
    run: "copy_joint_damping (si_model sys) (sc_multibody source) (sc_multibody c) =
      (Inr (), (sc_multibody c)\<lparr>mc_state := (mc_state (sc_multibody c))\<lparr>ms_damping := damping\<rparr>\<rparr>)"
    and d: "mstate_wf ((mc_state (sc_multibody c))\<lparr>ms_damping := damping\<rparr>)"
      "\<And>joint. joint \<in> set (mm_joint_slots (si_model sys)) \<Longrightarrow>
       joint_damping joint ((mc_state (sc_multibody c))\<lparr>ms_damping := damping\<rparr>) =
       joint_damping joint (mc_state (sc_multibody source))"
    using copy_joint_damping_run [OF m s(1,2)] by blast
  have "copy_context_local_data sys source c = (Inr (), c\<lparr>sc_multibody := (sc_multibody c)\<lparr>mc_state :=
        (mc_state (sc_multibody c))\<lparr>ms_damping := damping\<rparr>\<rparr>,
      sc_nominal := sc_nominal source, sc_held := sc_held source\<rparr>)"
    by (simp add: copy_context_local_data_def effect_simps s on_multibody_def run)
  with d show thesis using that by blast
qed

interpretation copy_local: context_write sys "copy_context_local_data sys source"
  "{DampingPart, NominalPart, HeldPart}" "context_wf sys source" for sys source
proof
  fix c d :: system_context and e p
  assume ok: "system_ok sys" and src: "context_wf sys source" and wf: "context_wf sys c"
  obtain damping where
    run: "copy_context_local_data sys source c = (Inr (), c\<lparr>sc_multibody := (sc_multibody c)\<lparr>mc_state :=
        (mc_state (sc_multibody c))\<lparr>ms_damping := damping\<rparr>\<rparr>,
      sc_nominal := sc_nominal source, sc_held := sc_held source\<rparr>)"
    and dw: "mstate_wf ((mc_state (sc_multibody c))\<lparr>ms_damping := damping\<rparr>)"
    using copy_context_local_data_run [OF ok src wf] by metis
  show "copy_context_local_data sys source c = (Inl e, d) \<Longrightarrow> d = c"
    using run by simp
  assume "copy_context_local_data sys source c = (Inr (), d)"
  with run have d: "d = c\<lparr>sc_multibody := (sc_multibody c)\<lparr>mc_state :=
        (mc_state (sc_multibody c))\<lparr>ms_damping := damping\<rparr>\<rparr>,
      sc_nominal := sc_nominal source, sc_held := sc_held source\<rparr>" by simp
  show "context_wf sys d"
    using wf src dw by (simp add: d context_wf_def Let_def same_model_def)
  show "p \<notin> {DampingPart, NominalPart, HeldPart} \<Longrightarrow> same_part p c d"
    by (cases p) (simp_all add: d)
qed

subsection \<open>Properties of the context\<close>

text \<open>C14: The continuous-state transaction is all or nothing and loses nothing: it succeeds exactly for a
  finite time and a finite vector of the system's size whose quaternions convert, with versions left;
  then copying the state out gives back the very vector, the time is the given one, and damping,
  nominal forces, held torques and projection hints are as before.  Otherwise the context is unchanged.\<close>

theorem continuous_state_transaction:
  assumes "system_ok sys" and "context_wf sys c"
  shows "if isfinite time \<and> length x = continuous_state_size sys \<and> all_finite x \<and>
      require_quaternions (si_model sys) (segment 0 (si_nq sys) x) = Inr () \<and>
      revision (ms_positions_version (mc_state (sc_multibody c))) < 2 ^ 64 - 1 \<and>
      revision (ms_velocities_version (mc_state (sc_multibody c))) < 2 ^ 64 - 1
    then (\<exists>d. set_time_and_continuous_state sys time x c = (Inr (), d) \<and> sc_time d = time \<and>
      copy_continuous_state sys d (continuous_state_size sys) = Inr x \<and>
      (\<forall>p. p \<notin> {TimePart, CoordinatePart, SeriesPart} \<longrightarrow> same_part p c d))
    else (\<exists>e. set_time_and_continuous_state sys time x c = (Inl e, c))"
    (is "if ?ok then ?good else ?bad")
proof (cases ?ok)
  case True
  then obtain nq nv where n: "next_version (ms_positions_version (mc_state (sc_multibody c))) = Inr nq"
      "next_version (ms_velocities_version (mc_state (sc_multibody c))) = Inr nv"
    using ex_next_version by blast
  with True obtain d where run: "set_time_and_continuous_state sys time x c = (Inr (), d)"
    and d: "d = c\<lparr>sc_multibody := (sc_multibody c)\<lparr>mc_state := (mc_state (sc_multibody c))
               \<lparr>ms_positions := segment 0 (si_nq sys) x, ms_velocities := segment (si_nq sys) (si_nv sys) x,
                ms_positions_version := nq, ms_velocities_version := nv\<rparr>\<rparr>,
             sc_series := segment (si_nq sys + si_nv sys) (si_nz sys) x, sc_time := time\<rparr>"
    unfolding set_time_and_continuous_state_Inr [OF assms] by blast
  have "copy_continuous_state sys d (continuous_state_size sys) = Inr x"
    using assms(2) True three_blocks_finite(2) [of x "si_nq sys" "si_nv sys" "si_nz sys"]
    by (simp add: copy_continuous_state_def own_context_def d context_wf_def Let_def continuous_state_size_def)
  then have good: ?good
    using run set_state.write_touches [OF assms(1) TrueI assms(2) run] by (auto simp: d)
  show ?thesis by (subst if_P [OF True]) (rule good)
next
  case False
  obtain r d where r: "set_time_and_continuous_state sys time x c = (r, d)" by fastforce
  have "\<nexists>u. r = Inr u"
  proof
    assume "\<exists>u. r = Inr u"
    with r have "set_time_and_continuous_state sys time x c = (Inr (), d)" by auto
    with False show False unfolding set_time_and_continuous_state_Inr [OF assms] using ex_next_version by blast
  qed
  then obtain e where "r = Inl e" by (cases r) auto
  with r have bad: ?bad using set_state.write_refused [OF assms(1) TrueI assms(2)] by blast
  show ?thesis by (subst if_not_P [OF False]) (rule bad)
qed

text \<open>Synchronising a trial context copies exactly the context-local data: it cannot fail between
  contexts of one system, afterwards every joint's damping, the nominal forces and the held torques
  are the source's, and time, coordinates, series states and projection history are the destination's
  own; between contexts of different systems it is refused before anything is written.\<close>

theorem context_local_copy:
  assumes "system_ok sys" and "context_wf sys source" and "context_wf sys c"
    and "sc_issuer foreign \<noteq> si_identity sys"
  shows "(\<exists>d. copy_context_local_data sys source c = (Inr (), d) \<and>
      (\<forall>joint \<in> set (mm_joint_slots (si_model sys)).
         joint_damping joint (mc_state (sc_multibody d)) = joint_damping joint (mc_state (sc_multibody source))) \<and>
      sc_nominal d = sc_nominal source \<and> sc_held d = sc_held source \<and>
      (\<forall>p \<in> {TimePart, CoordinatePart, SeriesPart, HintsPart}. same_part p c d)) \<and>
    copy_context_local_data sys foreign c = (Inl InvalidArgument, c) \<and>
    copy_context_local_data sys source foreign = (Inl InvalidArgument, foreign)"
proof -
  obtain damping where
    run: "copy_context_local_data sys source c = (Inr (), c\<lparr>sc_multibody := (sc_multibody c)\<lparr>mc_state :=
        (mc_state (sc_multibody c))\<lparr>ms_damping := damping\<rparr>\<rparr>,
      sc_nominal := sc_nominal source, sc_held := sc_held source\<rparr>)"
    and d: "\<And>joint. joint \<in> set (mm_joint_slots (si_model sys)) \<Longrightarrow>
       joint_damping joint ((mc_state (sc_multibody c))\<lparr>ms_damping := damping\<rparr>) =
       joint_damping joint (mc_state (sc_multibody source))"
    using copy_context_local_data_run [OF assms(1-3)] by metis
  show ?thesis
    unfolding run using d assms(4) by (simp add: copy_context_local_data_def effect_simps)
qed

subsection \<open>The life of a context\<close>

datatype system_call =
    SetTimeState double vec
  | SetStateOnly vec
  | SetTimeStateHints double vec vec
  | UpdateHints
  | SetNominal "translational_tag system_index" vec3
  | SetHeld vec
  | CopyLocal system_context

fun perform_call :: "system_instance \<Rightarrow> system_call \<Rightarrow> (system_context, unit) effect" where
  "perform_call sys (SetTimeState t x) = set_time_and_continuous_state sys t x"
| "perform_call sys (SetStateOnly x) = set_continuous_state sys x"
| "perform_call sys (SetTimeStateHints t x h) = set_time_state_and_hints sys t x h"
| "perform_call sys UpdateHints = update_projection_hints sys"
| "perform_call sys (SetNominal i f) = set_nominal_force sys i f"
| "perform_call sys (SetHeld h) = set_held_torques sys h"
| "perform_call sys (CopyLocal source) = copy_context_local_data sys source"

fun call_ready :: "system_instance \<Rightarrow> system_call \<Rightarrow> bool" where
  "call_ready sys (CopyLocal source) = context_wf sys source"
| "call_ready sys _ = True"

fun call_touches :: "system_call \<Rightarrow> context_part set" where
  "call_touches (SetTimeState t x) = {TimePart, CoordinatePart, SeriesPart}"
| "call_touches (SetStateOnly x) = {CoordinatePart, SeriesPart}"
| "call_touches (SetTimeStateHints t x h) = {TimePart, CoordinatePart, SeriesPart, HintsPart}"
| "call_touches UpdateHints = {HintsPart}"
| "call_touches (SetNominal i f) = {NominalPart}"
| "call_touches (SetHeld h) = {HeldPart}"
| "call_touches (CopyLocal source) = {DampingPart, NominalPart, HeldPart}"

lemma perform_call_write: "context_write sys (perform_call sys call) (call_touches call) (call_ready sys call)"
  by (cases call) (simp_all add: set_state.context_write_axioms set_state_only.context_write_axioms
      set_state_hints.context_write_axioms update_hints.context_write_axioms set_nominal.context_write_axioms
      set_held.context_write_axioms copy_local.context_write_axioms)

interpretation any_write: context_write sys "perform_call sys call" "call_touches call" "call_ready sys call" for sys call
  by (rule perform_call_write)

inductive context_run :: "system_instance \<Rightarrow> system_context \<Rightarrow> system_call list \<Rightarrow> system_context \<Rightarrow> bool"
  for sys where
  context_run_nil: "context_run sys c [] c"
| context_run_call: "call_ready sys call \<Longrightarrow> perform_call sys call c = (r, b) \<Longrightarrow> context_run sys b calls d \<Longrightarrow>
    context_run sys c (call # calls) d"

inductive_cases context_run_ConsE: "context_run sys c (call # calls) d"

lemma context_run_wf: "context_run sys c calls d \<Longrightarrow> system_ok sys \<Longrightarrow> context_wf sys c \<Longrightarrow> context_wf sys d"
  by (induction rule: context_run.induct) (auto dest: any_write.outcome_wf)

lemma default_context_wf:
  assumes "system_ok sys" and "create_default_runtime_context sys t = Inr c"
  shows "context_wf sys c"
  using assms
  by (auto simp: create_default_runtime_context_def create_default_context_def bindS_eq_Inr Let_def context_wf_def
      system_ok_def same_model_def expected_hint_count_def carrier_count_def split: option.splits)

text \<open>C19: Every context a system hands out stays well-formed through any sequence of writes, accepted or
  refused: it keeps its issuer, its time is finite, q and v have the model's sizes and are finite, and
  series states, nominal forces, held torques and hints keep the counts the plans declare and are
  finite.  A part no call of the sequence touches keeps its value.\<close>

theorem reachable_context_valid:
  assumes "system_ok sys" and "create_default_runtime_context sys t = Inr c" and "context_run sys c calls d"
  shows "context_wf sys d \<and> (\<forall>p. (\<forall>call \<in> set calls. p \<notin> call_touches call) \<longrightarrow> same_part p c d)"
proof -
  have c: "context_wf sys c" using default_context_wf [OF assms(1,2)] .
  have "same_part p c d" if p: "\<forall>call \<in> set calls. p \<notin> call_touches call" for p
    using assms(3) c p
  proof (induction rule: context_run.induct)
    case (context_run_nil c)
    then show ?case by simp
  next
    case (context_run_call call c r b calls d)
    have "same_part p c b"
      using any_write.outcome_frame [OF assms(1) context_run_call.hyps(1) context_run_call.prems(1)
        context_run_call.hyps(2)] context_run_call.prems(2) by simp
    moreover have "same_part p b d"
      using context_run_call any_write.outcome_wf [OF assms(1)] by simp
    ultimately show ?case by (cases p) simp_all
  qed
  with context_run_wf [OF assms(3,1) c] show ?thesis by blast
qed

subsection \<open>The derivative\<close>

text \<open>What the rigid tree documents of the vectors it returns.\<close>

definition dynamics_sized :: "multibody_model \<Rightarrow> mstate \<Rightarrow> bool" where
  "dynamics_sized model s \<longleftrightarrow>
     (\<forall>ws v. mm_forward_dynamics model s ws = Inr v \<longrightarrow> int (length v) = mm_nv model) \<and>
     int (length (mm_qdot model s)) = mm_nq model"

lemma calc_derivatives_Inr:
  assumes "calc_state_time_derivatives rot sys c n = Inr dx"
  obtains wrenches rates vdot where "n = continuous_state_size sys"
    and "sc_issuer c = si_identity sys"
    and "calc_all_forces rot sys (sc_multibody c) c = Inr (wrenches, rates)"
    and "\<forall>w \<in> set wrenches. wrench_ok (si_model sys) w = Inr ()"
    and "mm_forward_dynamics (si_model sys) (mc_state (sc_multibody c)) wrenches = Inr vdot"
    and "dx = (mm_qdot (si_model sys) (mc_state (sc_multibody c)) @ vdot) @ rates"
  using assms
  by (auto simp: calc_state_time_derivatives_def component_view_def bindS_eq_Inr own_context_Inr
      model_state_time_derivatives_def evaluate_forward_dynamics_def all_checks_Inr split: prod.splits)

lemma calc_all_forces_rates:
  assumes "calc_all_forces rot sys b c = Inr (wrenches, rates)" and "system_ok sys"
  shows "length rates = si_nz sys"
proof (cases "sd_force_plan (si_description sys)")
  case None
  with assms show ?thesis by (auto simp: calc_all_forces_def bindS_eq_Inr Let_def system_ok_def)
next
  case (Some plan)
  with assms(1) obtain vehicle where "calc_applied_forces rot plan b (sc_series c) (sc_nominal c)
      (sd_vehicle_wrenches (si_description sys)) (sd_nz (si_description sys)) = Inr (vehicle, rates)"
    by (auto simp: calc_all_forces_def bindS_eq_Inr Let_def)
  then show ?thesis by (rule calc_applied_forces_lengths)
qed

text \<open>A derivative evaluation that returns has the layout of the state: the entries of the position,
  velocity and series ranges are the tree's qdot, its accelerations under exactly the wrenches the force
  plans emitted, and the series rates; all those wrenches are finite and name elements of the model.\<close>

theorem derivative_layout:
  assumes "system_ok sys" and "dynamics_sized (si_model sys) (mc_state (sc_multibody c))"
    and "calc_state_time_derivatives rot sys c n = Inr dx"
  shows "n = continuous_state_size sys \<and> length dx = n \<and>
    (\<exists>wrenches rates. calc_all_forces rot sys (sc_multibody c) c = Inr (wrenches, rates) \<and>
       list_all (\<lambda>w. wrench_ok (si_model sys) w = Inr ()) wrenches \<and>
       segment (range_start (positions_range sys)) (range_size (positions_range sys)) dx =
         mm_qdot (si_model sys) (mc_state (sc_multibody c)) \<and>
       Inr (segment (range_start (velocities_range sys)) (range_size (velocities_range sys)) dx) =
         mm_forward_dynamics (si_model sys) (mc_state (sc_multibody c)) wrenches \<and>
       segment (range_start (series_range sys)) (range_size (series_range sys)) dx = rates)"
proof -
  obtain wrenches rates vdot where n: "n = continuous_state_size sys"
    and f: "calc_all_forces rot sys (sc_multibody c) c = Inr (wrenches, rates)"
    and ok: "\<forall>w \<in> set wrenches. wrench_ok (si_model sys) w = Inr ()"
    and v: "mm_forward_dynamics (si_model sys) (mc_state (sc_multibody c)) wrenches = Inr vdot"
    and dx: "dx = (mm_qdot (si_model sys) (mc_state (sc_multibody c)) @ vdot) @ rates"
    using calc_derivatives_Inr [OF assms(3)] by metis
  have nq: "length (mm_qdot (si_model sys) (mc_state (sc_multibody c))) = si_nq sys"
    using assms(1,2) by (simp add: dynamics_sized_def system_ok_def Let_def)
  have nv: "length vdot = si_nv sys"
    using assms(1,2) v by (simp add: dynamics_sized_def system_ok_def Let_def) (metis of_nat_eq_iff)
  have nz: "length rates = si_nz sys"
    using calc_all_forces_rates [OF f assms(1)] .
  show ?thesis
    using n f ok v nq nv nz
    by (intro conjI exI [of _ wrenches] exI [of _ rates])
      (simp_all add: dx continuous_state_size_def list_all_iff positions_range_def velocities_range_def
        series_range_def segment_def)
qed

lemma wrench_ok_finite: "wrench_ok model w = Inr () \<Longrightarrow> wrench_finite w"
  by (auto simp: wrench_ok_def bindS_eq_Inr wrench_finite_def)

text \<open>C20: Only the rails push the vehicle.  The accelerations of a derivative that returns are those of
  three lists of wrenches: what the vehicle force plan calculates from the context, what the contact plan
  calculates from it and what the torque plan makes of the held torques.  The first and the third are each
  in equilibrium, so the net force and the net moment about any point of everything fed to the dynamics
  are those of the wheel-rail contact alone.\<close>

theorem internal_forces_balance:
  assumes "calc_state_time_derivatives rot sys c n = Inr dx"
    and "\<forall>plan. sd_force_plan (si_description sys) = Some plan \<longrightarrow> vfp_model plan = si_model sys"
    and "\<forall>plan. sd_torque_plan (si_description sys) = Some plan \<longrightarrow> atp_model plan = si_model sys"
    and "consistent_kinematics (si_model sys) (mc_state (sc_multibody c))"
  shows "\<exists>suspension contact torques rates vdot.
    (case sd_force_plan (si_description sys) of None \<Rightarrow> Inr ([], [])
     | Some plan \<Rightarrow> calc_applied_forces rot plan (sc_multibody c) (sc_series c) (sc_nominal c)
         (sd_vehicle_wrenches (si_description sys)) (sd_nz (si_description sys))) = Inr (suspension, rates) \<and>
    (case sd_contact_plan (si_description sys) of None \<Rightarrow> Inr []
     | Some plan \<Rightarrow> calc_contact_forces plan (sc_multibody c) (sc_hints c)
         (sd_contact_wrenches (si_description sys))) = Inr contact \<and>
    (case sd_torque_plan (si_description sys) of None \<Rightarrow> Inr []
     | Some plan \<Rightarrow> calc_active_torques plan (sc_multibody c) (sc_held c)
         (sd_torque_wrenches (si_description sys))) = Inr torques \<and>
    mm_forward_dynamics (si_model sys) (mc_state (sc_multibody c)) (suspension @ contact @ torques) = Inr vdot \<and>
    dx = mm_qdot (si_model sys) (mc_state (sc_multibody c)) @ vdot @ rates \<and>
    in_equilibrium (si_model sys) (mc_state (sc_multibody c)) suspension \<and>
    in_equilibrium (si_model sys) (mc_state (sc_multibody c)) torques \<and>
    net_force (suspension @ contact @ torques) = net_force contact \<and>
    (\<forall>origin. all_finite (v3 origin) \<longrightarrow>
       net_moment (si_model sys) (mc_state (sc_multibody c)) origin (suspension @ contact @ torques) =
       net_moment (si_model sys) (mc_state (sc_multibody c)) origin contact)"
proof -
  let ?d = "si_description sys" and ?b = "sc_multibody c" and ?M = "si_model sys"
  obtain wrenches rates vdot where f: "calc_all_forces rot sys ?b c = Inr (wrenches, rates)"
    and ok: "\<forall>w \<in> set wrenches. wrench_ok ?M w = Inr ()"
    and v: "mm_forward_dynamics ?M (mc_state ?b) wrenches = Inr vdot"
    and dx: "dx = (mm_qdot ?M (mc_state ?b) @ vdot) @ rates"
    using calc_derivatives_Inr [OF assms(1)] by metis
  from f obtain suspension contact torques where w: "wrenches = suspension @ contact @ torques"
    and s: "(case sd_force_plan ?d of None \<Rightarrow> Inr ([], [])
            | Some plan \<Rightarrow> calc_applied_forces rot plan ?b (sc_series c) (sc_nominal c)
                (sd_vehicle_wrenches ?d) (sd_nz ?d)) = Inr (suspension, rates)"
    and k: "(case sd_contact_plan ?d of None \<Rightarrow> Inr []
            | Some plan \<Rightarrow> calc_contact_forces plan ?b (sc_hints c) (sd_contact_wrenches ?d)) = Inr contact"
    and t: "(case sd_torque_plan ?d of None \<Rightarrow> Inr []
            | Some plan \<Rightarrow> calc_active_torques plan ?b (sc_held c) (sd_torque_wrenches ?d)) = Inr torques"
    by (auto simp: calc_all_forces_def bindS_eq_Inr Let_def split: prod.splits)
  have fin: "list_all wrench_finite suspension"
    using ok by (auto simp: w list_all_iff intro: wrench_ok_finite)
  have e1: "in_equilibrium ?M (mc_state ?b) suspension"
  proof (cases "sd_force_plan ?d")
    case None
    with s show ?thesis by (simp add: equilibrium_Nil)
  next
    case (Some plan)
    with assms(2,4) have m: "vfp_model plan = ?M" "consistent_kinematics (vfp_model plan) (mc_state ?b)" by auto
    from s Some have "calc_applied_forces rot plan ?b (sc_series c) (sc_nominal c)
        (sd_vehicle_wrenches ?d) (sd_nz ?d) = Inr (suspension, rates)" by simp
    from calc_applied_forces_equilibrium [OF m(2) this fin] m(1) show ?thesis by simp
  qed
  have e2: "in_equilibrium ?M (mc_state ?b) torques"
  proof (cases "sd_torque_plan ?d")
    case None
    with t show ?thesis by (simp add: equilibrium_Nil)
  next
    case (Some plan)
    with assms(3,4) have m: "atp_model plan = ?M" "consistent_kinematics (atp_model plan) (mc_state ?b)" by auto
    from t Some have "calc_active_torques plan ?b (sc_held c) (sd_torque_wrenches ?d) = Inr torques" by simp
    from calc_active_torques_couples [OF m(2) this] m(1) show ?thesis by simp
  qed
  note net = net_between_equilibria [OF e1 e2]
  from s k t v dx e1 e2 net show ?thesis
    unfolding w append_assoc by blast
qed

subsection \<open>Witnesses\<close>

definition example_contact :: contact_force_plan where
  "example_contact = \<lparr>cfp_model = example_model, cfp_initial_stations = [3], cfp_interface_count = 0,
     cfp_project = (\<lambda>s k hint. Inr 4), cfp_interface_wrenches = (\<lambda>s stations. Inr [])\<rparr>"

definition example_system :: system_instance where
  "example_system = \<lparr>si_identity = 9, si_description =
     \<lparr>sd_model = example_model, sd_force_plan = Some example_plan, sd_contact_plan = Some example_contact,
      sd_torque_plan = Some example_torques, sd_nq = 2, sd_nv = 2, sd_nz = 0, sd_nominal = 3,
      sd_vehicle_wrenches = 4, sd_contact_wrenches = 0, sd_torque_wrenches = 2, sd_held = 1\<rparr>\<rparr>"

definition example_system_context :: system_context where
  "example_system_context = \<lparr>sc_issuer = 9, sc_time = 0, sc_multibody = example_context, sc_series = [],
     sc_nominal = [7, 0, 0], sc_held = [50], sc_hints = [3]\<rparr>"

lemma example_system_described:
  "\<exists>d. describe_torques example_model example_plan example_contact example_torques = Inr d \<and>
     fst (make_system 8 d) = example_system"
  by (simp add: describe_torques_def describe_contact_def describe_vehicle_def describe_model_def
      throw_if_not_finalized_def all_checks.simps make_system_def example_system_def example_plan_def
      example_contact_def example_torques_def series_force_state_count_def nominal_force_component_count_def
      body_wrench_count_def channel_count_def mm_nq_def mm_nv_def)
    (simp add: example_model_def example_layout_def)

lemma example_system_ok: "system_ok example_system"
  using example_state_wf
  by (simp add: system_ok_def example_system_def example_contact_def Let_def mm_nq_def mm_nv_def slots_ok_def
      damped_joint_count_def example_model_def)
    (simp add: example_defs)

lemma example_system_context_wf: "context_wf example_system example_system_context"
  using example_state_wf
  by (simp add: context_wf_def example_system_def example_system_context_def Let_def same_model_def
      example_context_def example_model_def expected_hint_count_def carrier_count_def example_contact_def)
    (simp add: example_defs)

lemma continuous_state_transaction_witness:
  "\<exists>d. set_time_and_continuous_state example_system 2 [1, 2, 3, 4] example_system_context = (Inr (), d) \<and>
     sc_time d = 2 \<and> copy_continuous_state example_system d 4 = Inr [1, 2, 3, 4]"
proof -
  have "require_quaternions (si_model example_system) (segment 0 (si_nq example_system) [1, 2, 3, 4]) = Inr ()"
    by (simp add: require_quaternions_def example_system_def example_model_def)
  moreover have "revision (ms_positions_version (mc_state (sc_multibody example_system_context))) < 2 ^ 64 - 1"
    "revision (ms_velocities_version (mc_state (sc_multibody example_system_context))) < 2 ^ 64 - 1"
    by (simp_all add: example_system_context_def example_context_def example_defs revision_def initial_version_def)
  moreover have "continuous_state_size example_system = 4"
    by (simp add: continuous_state_size_def example_system_def)
  ultimately show ?thesis
    using continuous_state_transaction [OF example_system_ok example_system_context_wf, of 2 "[1, 2, 3, 4]"]
    by (auto split: if_splits)
qed

lemma context_local_copy_witness:
  "\<exists>d. copy_context_local_data example_system (example_system_context\<lparr>sc_held := [60]\<rparr>) example_system_context =
     (Inr (), d) \<and> sc_held d = [60]"
proof -
  have src: "context_wf example_system (example_system_context\<lparr>sc_held := [60]\<rparr>)"
    using example_system_context_wf
    by (simp add: context_wf_def Let_def example_system_def example_system_context_def)
  have "sc_issuer (example_system_context\<lparr>sc_issuer := 5\<rparr>) \<noteq> si_identity example_system"
    by (simp add: example_system_def)
  from context_local_copy [OF example_system_ok src example_system_context_wf this] show ?thesis by auto
qed

lemma reachable_context_valid_witness:
  "\<exists>c d. create_default_runtime_context example_system 0 = Inr c \<and>
     context_run example_system c [SetHeld [60], SetHeld []] d \<and> context_wf example_system d \<and> same_part TimePart c d"
proof -
  obtain c where c: "create_default_runtime_context example_system 0 = Inr c"
    by (simp add: create_default_runtime_context_def create_default_context_def throw_if_not_finalized_def
        all_checks.simps Let_def example_system_def example_model_def)
  obtain r b where b: "perform_call example_system (SetHeld [60]) c = (r, b)" by fastforce
  obtain r' d where d: "perform_call example_system (SetHeld []) b = (r', d)" by fastforce
  have run: "context_run example_system c [SetHeld [60], SetHeld []] d"
    by (rule context_run_call [OF _ b context_run_call [OF _ d context_run_nil]]) simp_all
  from reachable_context_valid [OF example_system_ok c run] have "context_wf example_system d" "same_part TimePart c d"
    by (blast, auto dest: spec [of _ TimePart])
  with c run show ?thesis by blast
qed

lemma example_all_forces:
  "\<exists>ws. calc_all_forces no_rotations example_system example_context example_system_context = Inr (ws, []) \<and>
     list_all (\<lambda>w. wrench_ok example_model w = Inr ()) ws"
proof -
  obtain us where u: "calc_applied_forces no_rotations example_plan example_context [] [7, 0, 0] 4 0 = Inr (us, [])"
    "list_all (\<lambda>w. wrench_ok example_model w = Inr ()) us"
    using example_forces by blast
  obtain ts where t: "calc_active_torques example_torques example_context [50] 2 = Inr ts"
    "list_all (\<lambda>w. wrench_ok example_model w = Inr ()) ts"
    using example_torque_wrenches by blast
  have k: "calc_contact_forces example_contact example_context [3] 0 = Inr []"
    by (simp add: calc_contact_forces_def evaluate_carrier_projections_def example_contact_def carrier_count_def
        example_queries)
  show ?thesis
    using u t k by (simp add: calc_all_forces_def example_system_def example_system_context_def Let_def)
qed

lemma example_derivative:
  "\<exists>dx. calc_state_time_derivatives no_rotations example_system example_system_context 4 = Inr dx"
proof -
  obtain ws where ws: "calc_all_forces no_rotations example_system example_context example_system_context = Inr (ws, [])"
    "all_checks (map (wrench_ok example_model) ws) = Inr ()"
    using example_all_forces by (auto simp: all_checks_Inr list_all_iff)
  have b: "component_view example_system example_system_context (multibody_component example_system) = Inr example_context"
    by (simp add: component_view_def own_context_def example_system_def example_system_context_def
        multibody_component_def)
  have m: "continuous_state_size example_system = 4" "si_nq example_system = 2" "si_nv example_system = 2"
    "si_model example_system = example_model" "mm_nq example_model = 2" "mm_nv example_model = 2"
    "mm_forward_dynamics example_model s us = Inr [0, 0]" for s us
    by (simp_all add: continuous_state_size_def example_system_def mm_nq_def mm_nv_def example_model_def example_layout_def)
  show ?thesis
    by (simp add: calc_state_time_derivatives_def b ws m model_state_time_derivatives_def
        evaluate_forward_dynamics_def example_queries)
qed

lemma derivative_layout_witness:
  "\<exists>dx. calc_state_time_derivatives no_rotations example_system example_system_context 4 = Inr dx \<and> length dx = 4"
proof -
  obtain dx where dx: "calc_state_time_derivatives no_rotations example_system example_system_context 4 = Inr dx"
    using example_derivative by blast
  have "dynamics_sized (si_model example_system) (mc_state (sc_multibody example_system_context))"
    by (simp add: dynamics_sized_def example_system_def example_system_context_def example_context_def
        example_model_def mm_nq_def mm_nv_def) (simp add: example_defs)
  from derivative_layout [OF example_system_ok this dx] dx show ?thesis by blast
qed

lemma internal_forces_balance_witness:
  "\<exists>suspension torques. calc_applied_forces no_rotations example_plan example_context [] [7, 0, 0] 4 0 = Inr (suspension, []) \<and>
     calc_active_torques example_torques example_context [50] 2 = Inr torques \<and>
     in_equilibrium example_model example_state suspension \<and> in_equilibrium example_model example_state torques"
proof -
  obtain dx where dx: "calc_state_time_derivatives no_rotations example_system example_system_context 4 = Inr dx"
    using example_derivative by blast
  have "consistent_kinematics (si_model example_system) (mc_state (sc_multibody example_system_context))"
    using example_kinematics by (simp add: example_system_def)
  moreover have "sd_force_plan (si_description example_system) = Some example_plan"
    "sd_torque_plan (si_description example_system) = Some example_torques" "si_model example_system = example_model"
    "vfp_model example_plan = example_model" "atp_model example_torques = example_model"
    by (simp_all add: example_system_def example_plan_def example_torques_def)
  ultimately obtain suspension torques rates where
    s: "calc_applied_forces no_rotations example_plan example_context [] [7, 0, 0] 4 0 = Inr (suspension, rates)"
    and t: "calc_active_torques example_torques example_context [50] 2 = Inr torques"
    and e: "in_equilibrium example_model example_state suspension" "in_equilibrium example_model example_state torques"
    using internal_forces_balance [OF dx]
    by (auto simp: example_system_def example_system_context_def example_context_def)
  with calc_applied_forces_lengths [OF s] show ?thesis by auto
qed

end
