(* ===== verification/Coordinate_Core.thy ===== *)
theory Coordinate_Core
  imports Binary64
begin

section \<open>integrators: time arithmetic and the shared core state\<close>

text \<open>
  Models \<open>coordinate_step_time.h\<close>, \<open>coordinate_second_order_problem.h\<close> and
  \<open>coordinate_core_state.h\<close>: the clock-rounding allowance, the borrowed problem
  \<open>q' = s, s' = b(t,q,s,z), z' = g(t,q,s,z)\<close> as a record of its callbacks, and the transactional
  storage both numerical cores share.  \<open>core_keeps\<close> is what a step that is not accepted must leave alone,
  \<open>core_wf\<close> the invariant, \<open>derivatives_current\<close> what both methods extrapolate from.
  The spacing of binary64 numbers is a function of the real value (\<open>binary64_spacing\<close>).
\<close>

subsection \<open>Step time\<close>

definition binary64_spacing :: "real \<Rightarrow> real" where
  "binary64_spacing x =
     (if \<bar>x\<bar> < 1 / 2 ^ 1022 then 1 / 2 ^ 1074
      else 2 powr (real_of_int \<lfloor>log 2 \<bar>x\<bar>\<rfloor> - 52))"

lemma binary64_spacing_pos: "0 < binary64_spacing x"
  by (simp add: binary64_spacing_def)

fun coordinate_time_ulp :: "double \<Rightarrow> double" where
  "coordinate_time_ulp (Fin t) = Fin (binary64_spacing t)"
| "coordinate_time_ulp _ = PosInf"

definition std_max3 :: "double \<Rightarrow> double \<Rightarrow> double \<Rightarrow> double" where
  "std_max3 a b c = std_max (std_max a b) c"

definition endpoint_time_compatible :: "double \<Rightarrow> double \<Rightarrow> double \<Rightarrow> bool" where
  "endpoint_time_compatible start h stop =
     (if \<not> isfinite start \<or> \<not> isfinite h \<or> h \<le> 0 \<or> \<not> isfinite stop \<or> \<not> start < stop then False
      else
        let arithmetic_end = start + h in
        if \<not> isfinite arithmetic_end \<or> \<not> start < arithmetic_end then False
        else
          let spacing = std_max3 (coordinate_time_ulp start) (coordinate_time_ulp arithmetic_end)
                          (coordinate_time_ulp stop)
          in \<bar>stop - arithmetic_end\<bar> \<le> std_min (h / 16) (16 * spacing))"

definition stop_can_use_nominal_step :: "double \<Rightarrow> double \<Rightarrow> double \<Rightarrow> double \<Rightarrow> bool" where
  "stop_can_use_nominal_step start nominal_h grid_end stop =
     (if \<not> isfinite grid_end \<or> \<not> start < grid_end then False
      else
        let spacing = std_max3 (coordinate_time_ulp start) (coordinate_time_ulp grid_end)
                        (coordinate_time_ulp stop);
            window = std_min (nominal_h / 16) (8 * spacing)
        in \<bar>stop - grid_end\<bar> \<le> window \<and> endpoint_time_compatible start nominal_h stop)"

lemma std_max3_Fin [simp]: "std_max3 (Fin a) (Fin b) (Fin c) = Fin (max (max a b) c)"
  by (simp add: std_max3_def)

text \<open>A compatible endpoint lies ahead of the start and within a sixteenth of the step of \<open>start + h\<close>.\<close>

lemma endpoint_compatible_bounds:
  assumes "endpoint_time_compatible start h stop"
  obtains t k e where "start = Fin t" "h = Fin k" "stop = Fin e" "0 < k" "t < e" "\<bar>e - (t + k)\<bar> \<le> k / 16"
proof -
  from assms have f: "isfinite start" "isfinite h" "isfinite stop"
    by (auto simp: endpoint_time_compatible_def split: if_splits)
  obtain t where t: "start = Fin t" using f(1) by (cases start) auto
  obtain k where k: "h = Fin k" using f(2) by (cases h) auto
  obtain e where e: "stop = Fin e" using f(3) by (cases stop) auto
  have "0 < k" "t < e" "\<bar>e - (t + k)\<bar> \<le> k / 16"
    using assms by (auto simp: t k e endpoint_time_compatible_def Let_def split: if_splits)
  with t k e show thesis by (rule that)
qed

subsection \<open>The borrowed problem\<close>

record coordinate_state =
  cs_time :: double
  cs_q :: vec
  cs_s :: vec
  cs_z :: vec

record coordinate_problem =
  cp_coordinate_size :: int
  cp_internal_state_size :: int
  cp_validate_initial :: "double \<Rightarrow> vec \<Rightarrow> vec \<Rightarrow> vec \<Rightarrow> unit outcome"
  cp_evaluate :: "double \<Rightarrow> vec \<Rightarrow> vec \<Rightarrow> vec \<Rightarrow> (vec \<times> vec) outcome"
  cp_project_endpoint :: "vec \<Rightarrow> vec \<Rightarrow> vec \<Rightarrow> (bool \<times> vec \<times> vec) outcome"

text \<open>The contract of the callbacks: outputs keep their pre-sized lengths; \<open>False\<close> means unchanged.\<close>

definition problem_ok :: "coordinate_problem \<Rightarrow> bool" where
  "problem_ok p \<longleftrightarrow>
     (\<forall>t q s z b g. cp_evaluate p t q s z = Inr (b, g) \<longrightarrow>
        int (length b) = cp_coordinate_size p \<and> int (length g) = cp_internal_state_size p) \<and>
     (\<forall>r q s changed q' s'. cp_project_endpoint p r q s = Inr (changed, q', s') \<longrightarrow>
        length q' = length q \<and> length s' = length s \<and> (\<not> changed \<longrightarrow> q' = q \<and> s' = s))"

subsection \<open>Work counters\<close>

record integration_statistics =
  is_successful_internal_steps :: u64
  is_rhs_evaluations :: u64
  is_linear_solver_rhs_evaluations :: u64
  is_error_test_failures :: u64
  is_nonlinear_iterations :: u64
  is_nonlinear_failures :: u64
  is_linear_solver_setups :: u64
  is_jacobian_evaluations :: u64
  is_jacobian_workers :: int

definition no_statistics :: integration_statistics where
  "no_statistics = \<lparr>is_successful_internal_steps = 0, is_rhs_evaluations = 0,
     is_linear_solver_rhs_evaluations = 0, is_error_test_failures = 0, is_nonlinear_iterations = 0,
     is_nonlinear_failures = 0, is_linear_solver_setups = 0, is_jacobian_evaluations = 0, is_jacobian_workers = 0\<rparr>"

record coordinate_diagnostics =
  cd_startup_steps :: u64
  cd_projection_evaluations :: u64
  cd_projection_changes :: u64

definition no_diagnostics :: coordinate_diagnostics where
  "no_diagnostics = \<lparr>cd_startup_steps = 0, cd_projection_evaluations = 0, cd_projection_changes = 0\<rparr>"

subsection \<open>The core state\<close>

record core_state =
  k_problem :: coordinate_problem
  k_nominal_step :: double
  k_workers :: int
  k_accepted :: coordinate_state
  k_candidate :: coordinate_state
  k_b :: vec
  k_g :: vec
  k_candidate_b :: vec
  k_candidate_g :: vec
  k_reference_q :: vec
  k_statistics :: integration_statistics
  k_diagnostics :: coordinate_diagnostics
  k_requires_reinitialization :: bool

abbreviation k_nq :: "core_state \<Rightarrow> int" where "k_nq k \<equiv> cp_coordinate_size (k_problem k)"
abbreviation k_nz :: "core_state \<Rightarrow> int" where "k_nz k \<equiv> cp_internal_state_size (k_problem k)"

definition int_max :: int where "int_max = 2 ^ 31 - 1"

definition state_finite :: "coordinate_state \<Rightarrow> bool" where
  "state_finite x \<longleftrightarrow> isfinite (cs_time x) \<and> all_finite (cs_q x) \<and> all_finite (cs_s x) \<and> all_finite (cs_z x)"

definition state_sized :: "coordinate_problem \<Rightarrow> coordinate_state \<Rightarrow> bool" where
  "state_sized p x \<longleftrightarrow> int (length (cs_q x)) = cp_coordinate_size p \<and> int (length (cs_s x)) = cp_coordinate_size p \<and>
     int (length (cs_z x)) = cp_internal_state_size p"

definition validate_initial :: "coordinate_state \<Rightarrow> core_state \<Rightarrow> unit outcome" where
  "validate_initial initial k =
     all_checks [reject_if (\<not> state_sized (k_problem k) initial \<or> \<not> state_finite initial) InvalidArgument,
       cp_validate_initial (k_problem k) (cs_time initial) (cs_q initial) (cs_s initial) (cs_z initial)]"

text \<open>\<open>Evaluate\<close>: the work counter moves before the callback, the outputs are checked after it.\<close>

definition core_evaluate :: "coordinate_state \<Rightarrow> bool \<Rightarrow> (core_state, vec \<times> vec) effect" where
  "core_evaluate x jacobian_evaluation =
     seqE (rejectE (\<lambda>k. \<not> state_finite x) (CoordinateFailure CoordNonFiniteState)) (
     seqE (modifyE (\<lambda>k. k\<lparr>k_statistics := (if jacobian_evaluation
            then (k_statistics k)\<lparr>is_linear_solver_rhs_evaluations := is_linear_solver_rhs_evaluations (k_statistics k) + 1\<rparr>
            else (k_statistics k)\<lparr>is_rhs_evaluations := is_rhs_evaluations (k_statistics k) + 1\<rparr>)\<rparr>)) (
     bindE (callE (\<lambda>k. cp_evaluate (k_problem k) (cs_time x) (cs_q x) (cs_s x) (cs_z x))) (\<lambda>(b, g).
     seqE (rejectE (\<lambda>_. \<not> all_finite b \<or> \<not> all_finite g) (CoordinateFailure CoordNonFiniteEvaluation)) (
     ret (b, g)))))"

definition store_candidate_derivatives :: "vec \<times> vec \<Rightarrow> (core_state, unit) effect" where
  "store_candidate_derivatives bg = modifyE (\<lambda>k. k\<lparr>k_candidate_b := fst bg, k_candidate_g := snd bg\<rparr>)"

definition core_reinitialize :: "coordinate_state \<Rightarrow> (core_state, unit) effect" where
  "core_reinitialize initial =
     seqE (callE (validate_initial initial)) (
     seqE (modifyE (\<lambda>k. k\<lparr>k_candidate := initial\<rparr>)) (
     seqE (on_exception (\<lambda>k. k\<lparr>k_requires_reinitialization := True\<rparr>)
       (bindE (readE k_candidate) (\<lambda>candidate.
        bindE (core_evaluate candidate False) store_candidate_derivatives))) (
     modifyE (\<lambda>k. k\<lparr>k_accepted := k_candidate k, k_b := k_candidate_b k, k_g := k_candidate_g k,
       k_reference_q := cs_q initial,
       k_statistics := no_statistics\<lparr>is_rhs_evaluations := 1, is_jacobian_workers := k_workers k\<rparr>,
       k_diagnostics := no_diagnostics, k_requires_reinitialization := False\<rparr>))))"

definition make_core_state :: "coordinate_problem \<Rightarrow> double \<Rightarrow> coordinate_state \<Rightarrow> int \<Rightarrow> core_state outcome" where
  "make_core_state p nominal initial workers =
     bindS (reject_if (cp_coordinate_size p \<le> 0 \<or> cp_internal_state_size p < 0 \<or>
       int_max - cp_internal_state_size p < cp_coordinate_size p) InvalidArgument) (\<lambda>_.
     bindS (reject_if (\<not> isfinite nominal \<or> nominal \<le> 0) InvalidArgument) (\<lambda>_.
       let zero = \<lparr>cs_time = 0, cs_q = replicate (nat (cp_coordinate_size p)) 0,
             cs_s = replicate (nat (cp_coordinate_size p)) 0, cs_z = replicate (nat (cp_internal_state_size p)) 0\<rparr>
       in case core_reinitialize initial
            \<lparr>k_problem = p, k_nominal_step = nominal, k_workers = workers, k_accepted = zero, k_candidate = zero,
             k_b = [], k_g = [], k_candidate_b = [], k_candidate_g = [], k_reference_q = [],
             k_statistics = no_statistics, k_diagnostics = no_diagnostics, k_requires_reinitialization = False\<rparr> of
          (Inl e, _) \<Rightarrow> Inl e
        | (Inr _, k) \<Rightarrow> Inr k))"

definition validate_step_size :: "double \<Rightarrow> core_state \<Rightarrow> unit outcome" where
  "validate_step_size h k =
     all_checks [reject_if (\<not> isfinite h \<or> h \<le> 0 \<or> k_nominal_step k < h) InvalidArgument,
                 reject_if (k_requires_reinitialization k) LogicError]"

definition step_end :: "double \<Rightarrow> core_state \<Rightarrow> double outcome" where
  "step_end h k = (let stop = cs_time (k_accepted k) + h in
     if \<not> isfinite stop \<or> \<not> cs_time (k_accepted k) < stop then Inl (CoordinateFailure CoordStepSizeUnderflow)
     else Inr stop)"

definition validate_explicit_endpoint :: "double \<Rightarrow> double \<Rightarrow> core_state \<Rightarrow> unit outcome" where
  "validate_explicit_endpoint h endpoint k =
     all_checks [validate_step_size h k,
       reject_if (\<not> endpoint_time_compatible (cs_time (k_accepted k)) h endpoint) InvalidArgument]"

definition validate_candidate :: "core_state \<Rightarrow> unit outcome" where
  "validate_candidate k = reject_if (\<not> state_finite (k_candidate k)) (CoordinateFailure CoordNonFiniteState)"

definition project_candidate :: "(core_state, bool) effect" where
  "project_candidate =
     seqE (callE validate_candidate) (
     seqE (modifyE (\<lambda>k. k\<lparr>k_diagnostics := (k_diagnostics k)
            \<lparr>cd_projection_evaluations := cd_projection_evaluations (k_diagnostics k) + 1\<rparr>\<rparr>)) (
     bindE (callE (\<lambda>k. cp_project_endpoint (k_problem k) (k_reference_q k) (cs_q (k_candidate k)) (cs_s (k_candidate k))))
       (\<lambda>(changed, q, s).
     seqE (modifyE (\<lambda>k. k\<lparr>k_candidate := (k_candidate k)\<lparr>cs_q := q, cs_s := s\<rparr>\<rparr>)) (
     seqE (if changed then modifyE (\<lambda>k. k\<lparr>k_diagnostics := (k_diagnostics k)
             \<lparr>cd_projection_changes := cd_projection_changes (k_diagnostics k) + 1\<rparr>\<rparr>) else ret ()) (
     seqE (callE validate_candidate) (
     ret changed))))))"

definition commit_candidate :: "(core_state, unit) effect" where
  "commit_candidate =
     modifyE (\<lambda>k. k\<lparr>k_accepted := k_candidate k, k_b := k_candidate_b k, k_g := k_candidate_g k,
       k_statistics := (k_statistics k)\<lparr>is_successful_internal_steps := is_successful_internal_steps (k_statistics k) + 1\<rparr>\<rparr>)"

text \<open>Into outputs of the given sizes.\<close>

definition core_copy_current_state :: "core_state \<Rightarrow> int \<Rightarrow> int \<Rightarrow> int \<Rightarrow> (vec \<times> vec \<times> vec) outcome" where
  "core_copy_current_state k q_size s_size z_size =
     (if q_size \<noteq> k_nq k \<or> s_size \<noteq> k_nq k \<or> z_size \<noteq> k_nz k then Inl InvalidArgument
      else Inr (cs_q (k_accepted k), cs_s (k_accepted k), cs_z (k_accepted k)))"

subsection \<open>What the helpers leave alone\<close>

text \<open>The committed data: what a failed or rejected attempt must not move.\<close>

definition core_keeps :: "core_state \<Rightarrow> core_state \<Rightarrow> bool" where
  "core_keeps k l \<longleftrightarrow> k_problem l = k_problem k \<and> k_nominal_step l = k_nominal_step k \<and> k_workers l = k_workers k \<and>
     k_accepted l = k_accepted k \<and> k_b l = k_b k \<and> k_g l = k_g k \<and> k_reference_q l = k_reference_q k"

definition core_same_use :: "core_state \<Rightarrow> core_state \<Rightarrow> bool" where
  "core_same_use k l \<longleftrightarrow> core_keeps k l \<and> k_requires_reinitialization l = k_requires_reinitialization k"

lemma core_keeps_order [simp]: "reflp core_keeps" "transp core_keeps"
  by (auto simp: core_keeps_def reflp_def transp_def)

lemma core_same_use_order [simp]: "reflp core_same_use" "transp core_same_use"
  by (auto simp: core_same_use_def core_keeps_def reflp_def transp_def)

lemma core_keeps_refl [simp]: "core_keeps k k" "core_same_use k k"
  by (simp_all add: core_keeps_def core_same_use_def)

lemma core_same_use_trans: "core_same_use k l \<Longrightarrow> core_same_use l m \<Longrightarrow> core_same_use k m"
  by (auto simp: core_same_use_def core_keeps_def)

lemma evaluate_same_use: "stays_within core_same_use (core_evaluate x j)"
  unfolding core_evaluate_def
  by (auto split: prod.split simp: core_same_use_def core_keeps_def intro!: stays_within_rules core_same_use_order)

lemma evaluate_keeps_candidate: "core_evaluate x j k = (r, l) \<Longrightarrow> k_candidate l = k_candidate k"
  by (auto simp: core_evaluate_def effect_simps split: if_splits sum.splits prod.splits)

lemma evaluate_value:
  assumes "core_evaluate x j k = (Inr (b, g), l)"
  shows "state_finite x" and "cp_evaluate (k_problem k) (cs_time x) (cs_q x) (cs_s x) (cs_z x) = Inr (b, g)"
    and "all_finite b" and "all_finite g"
  using assms by (auto simp: core_evaluate_def effect_outcome split: if_splits prod.splits)

lemma project_same_use: "stays_within core_same_use project_candidate"
  unfolding project_candidate_def
  by (auto split: prod.split simp: core_same_use_def core_keeps_def intro!: stays_within_rules core_same_use_order)

text \<open>A projection that returns leaves a finite candidate at the same time with the same internal states.\<close>

lemma project_value:
  assumes "project_candidate k = (Inr changed, l)"
  shows "state_finite (k_candidate k)" and "state_finite (k_candidate l)"
    and "cs_time (k_candidate l) = cs_time (k_candidate k)" and "cs_z (k_candidate l) = cs_z (k_candidate k)"
    and "cp_project_endpoint (k_problem k) (k_reference_q k) (cs_q (k_candidate k)) (cs_s (k_candidate k))
           = Inr (changed, cs_q (k_candidate l), cs_s (k_candidate l))"
    and "k_candidate_b l = k_candidate_b k" and "k_candidate_g l = k_candidate_g k"
  using assms
  by (auto simp: project_candidate_def effect_outcome validate_candidate_def split: prod.splits if_splits)

subsection \<open>Well-formed cores\<close>

text \<open>Sizes and finiteness hold at all times.  That \<open>k_b\<close> and \<open>k_g\<close> are the problem's derivatives at the
  accepted state (\<open>derivatives_current\<close>) is established by reinitialization and by every accepted step; a
  problem whose context-local inputs change in between invalidates it until the next of them.\<close>

definition core_wf :: "core_state \<Rightarrow> bool" where
  "core_wf k \<longleftrightarrow> problem_ok (k_problem k) \<and> 0 < k_nq k \<and> 0 \<le> k_nz k \<and>
     isfinite (k_nominal_step k) \<and> 0 < k_nominal_step k \<and>
     state_sized (k_problem k) (k_accepted k) \<and> state_finite (k_accepted k) \<and>
     int (length (k_b k)) = k_nq k \<and> int (length (k_g k)) = k_nz k \<and>
     all_finite (k_b k) \<and> all_finite (k_g k) \<and> int (length (k_reference_q k)) = k_nq k"

definition derivatives_current :: "core_state \<Rightarrow> bool" where
  "derivatives_current k \<longleftrightarrow>
     cp_evaluate (k_problem k) (cs_time (k_accepted k)) (cs_q (k_accepted k)) (cs_s (k_accepted k)) (cs_z (k_accepted k))
       = Inr (k_b k, k_g k)"

lemma core_wf_keeps: "core_wf k \<Longrightarrow> core_keeps k l \<Longrightarrow> core_wf l"
  by (auto simp: core_wf_def core_keeps_def)

lemma core_wf_derivative_sizes:
  "core_wf k \<Longrightarrow> int (length (k_b k)) = k_nq k \<and> int (length (k_g k)) = k_nz k"
  by (simp add: core_wf_def)

text \<open>What the commit of an evaluated candidate establishes.\<close>

lemma commit_wf:
  assumes "core_wf k" and "core_keeps k l"
    and "state_sized (k_problem k) (k_candidate l)" and "state_finite (k_candidate l)"
    and "cp_evaluate (k_problem k) (cs_time (k_candidate l)) (cs_q (k_candidate l)) (cs_s (k_candidate l)) (cs_z (k_candidate l))
           = Inr (k_candidate_b l, k_candidate_g l)"
    and "all_finite (k_candidate_b l)" and "all_finite (k_candidate_g l)"
    and "commit_candidate l = (r, m)"
  shows "core_wf m" and "k_accepted m = k_candidate l" and "k_problem m = k_problem k"
    and "k_nominal_step m = k_nominal_step k" and "k_reference_q m = k_reference_q k"
    and "k_requires_reinitialization m = k_requires_reinitialization l" and "derivatives_current m"
  using assms by (auto simp: core_wf_def core_keeps_def commit_candidate_def effect_prims problem_ok_def derivatives_current_def)

text \<open>\<open>Reinitialize\<close>: a refused initial state changes nothing; a failed evaluation keeps the accepted
  state and asks for another attempt; success establishes the invariant at the initial state.\<close>

lemma core_reinitialize_success:
  assumes "core_reinitialize initial k = (Inr u, l)" and "problem_ok (k_problem k)"
    and "0 < k_nq k" and "0 \<le> k_nz k" and "isfinite (k_nominal_step k)" and "0 < k_nominal_step k"
  shows "core_wf l" and "k_accepted l = initial" and "\<not> k_requires_reinitialization l"
    and "k_problem l = k_problem k" and "k_nominal_step l = k_nominal_step k" and "k_reference_q l = cs_q initial"
    and "derivatives_current l"
proof -
  obtain b g m where v: "validate_initial initial k = Inr ()"
    and e: "core_evaluate initial False (k\<lparr>k_candidate := initial\<rparr>) = (Inr (b, g), m)"
    and l: "l = m\<lparr>k_accepted := k_candidate m, k_b := b, k_g := g, k_candidate_b := b, k_candidate_g := g,
       k_reference_q := cs_q initial,
       k_statistics := no_statistics\<lparr>is_rhs_evaluations := 1, is_jacobian_workers := k_workers m\<rparr>,
       k_diagnostics := no_diagnostics, k_requires_reinitialization := False\<rparr>"
    using assms(1)
    by (auto simp: core_reinitialize_def effect_outcome on_exception_Inr store_candidate_derivatives_def)
  have c: "k_candidate m = initial" using evaluate_keeps_candidate [OF e] by simp
  have s: "core_same_use (k\<lparr>k_candidate := initial\<rparr>) m" using evaluate_same_use e by (rule stays_withinD)
  have sized: "state_sized (k_problem k) initial" using v by (simp add: validate_initial_def)
  show "core_wf l" using assms(2-) s c sized evaluate_value [OF e]
    by (auto simp: l core_wf_def core_same_use_def core_keeps_def state_sized_def problem_ok_def)
  show "derivatives_current l" using s c evaluate_value [OF e]
    by (simp add: l derivatives_current_def core_same_use_def core_keeps_def)
  show "k_accepted l = initial" "\<not> k_requires_reinitialization l" "k_reference_q l = cs_q initial"
    using c by (simp_all add: l)
  show "k_problem l = k_problem k" "k_nominal_step l = k_nominal_step k"
    using s by (auto simp: l core_same_use_def core_keeps_def)
qed

lemma core_reinitialize_failure:
  assumes "core_reinitialize initial k = (Inl e, l)"
  shows "core_keeps k l" and "validate_initial initial k = Inl e \<Longrightarrow> l = k"
    and "validate_initial initial k = Inr () \<Longrightarrow> k_requires_reinitialization l"
proof -
  consider (refused) "validate_initial initial k = Inl e" "l = k"
    | (failed) m where "validate_initial initial k = Inr ()"
        "core_evaluate initial False (k\<lparr>k_candidate := initial\<rparr>) = (Inl e, m)"
        "l = m\<lparr>k_requires_reinitialization := True\<rparr>"
    using assms
    by (auto simp: core_reinitialize_def effect_outcome on_exception_Inl store_candidate_derivatives_def)
  note cases = this
  show "core_keeps k l" using cases
  proof cases
    case failed
    have "core_same_use (k\<lparr>k_candidate := initial\<rparr>) m" using evaluate_same_use failed(2) by (rule stays_withinD)
    then show ?thesis using failed(3) by (simp add: core_same_use_def core_keeps_def)
  qed simp
  show "validate_initial initial k = Inl e \<Longrightarrow> l = k" using cases by cases auto
  show "validate_initial initial k = Inr () \<Longrightarrow> k_requires_reinitialization l" using cases by cases auto
qed

subsection \<open>Vectors and constant derivatives\<close>

lemma vec_add_commute: "length xs = length ys \<Longrightarrow> all_finite xs \<Longrightarrow> all_finite ys \<Longrightarrow> vec_add xs ys = vec_add ys xs"
  by (induction xs ys rule: list_induct2) (auto simp: vec_add_def isfinite_iff)

lemma vec_scale_double_add:
  "all_finite xs \<Longrightarrow> vec_scale (Fin c) (vec_add xs xs) = vec_scale (Fin (2 * c)) xs"
  by (induction xs) (auto simp: vec_add_def vec_scale_def isfinite_iff)

lemma vec_sub_self: "all_finite xs \<Longrightarrow> x \<in> set (vec_sub xs xs) \<Longrightarrow> x = 0"
  by (induction xs) (auto simp: vec_sub_def isfinite_iff)

lemma vec_sub_add_same:
  "length zs = length ys \<Longrightarrow> all_finite zs \<Longrightarrow> all_finite ys \<Longrightarrow> vec_sub (vec_add zs ys) zs = ys"
  by (induction zs ys rule: list_induct2) (auto simp: vec_add_def vec_sub_def isfinite_iff)

lemma all_finite_vec_add: "all_finite xs \<Longrightarrow> all_finite ys \<Longrightarrow> all_finite (vec_add xs ys)"
  by (auto simp: vec_add_def all_finite_iff elim!: in_set_zipE)

lemma all_finite_vec_sub: "all_finite xs \<Longrightarrow> all_finite ys \<Longrightarrow> all_finite (vec_sub xs ys)"
  by (auto simp: vec_sub_def all_finite_iff elim!: in_set_zipE)

lemma all_finite_vec_scale: "isfinite c \<Longrightarrow> all_finite xs \<Longrightarrow> all_finite (vec_scale c xs)"
  by (auto simp: vec_scale_def all_finite_iff)

definition constant_problem :: "coordinate_problem \<Rightarrow> vec \<Rightarrow> vec \<Rightarrow> bool" where
  "constant_problem p b g \<longleftrightarrow>
     (\<forall>t q s z. cp_evaluate p t q s z = Inr (b, g)) \<and> (\<forall>r q s. cp_project_endpoint p r q s = Inr (False, q, s))"

text \<open>The point that constant derivatives lead to.\<close>

definition ballistic :: "coordinate_state \<Rightarrow> vec \<Rightarrow> vec \<Rightarrow> double \<Rightarrow> double \<Rightarrow> coordinate_state" where
  "ballistic y b g h endpoint =
     \<lparr>cs_time = endpoint,
      cs_q = vec_add (vec_add (cs_q y) (vec_scale h (cs_s y))) (vec_scale (half * h * h) b),
      cs_s = vec_add (cs_s y) (vec_scale h b),
      cs_z = vec_add (cs_z y) (vec_scale h g)\<rparr>"

text \<open>The time a step is to end at.\<close>

definition step_endpoint :: "double \<Rightarrow> double option \<Rightarrow> core_state \<Rightarrow> double" where
  "step_endpoint h e k = (case e of Some t \<Rightarrow> t | None \<Rightarrow> cs_time (k_accepted k) + h)"

lemma make_core_state_wf:
  assumes "make_core_state p nominal initial workers = Inr k" and "problem_ok p"
  shows "core_wf k" and "k_accepted k = initial" and "k_reference_q k = cs_q initial"
    and "\<not> k_requires_reinitialization k" and "k_problem k = p" and "k_nominal_step k = nominal" and "derivatives_current k"
proof -
  let ?zero = "\<lparr>cs_time = 0, cs_q = replicate (nat (cp_coordinate_size p)) 0,
             cs_s = replicate (nat (cp_coordinate_size p)) 0, cs_z = replicate (nat (cp_internal_state_size p)) 0\<rparr>"
  define k0 where "k0 = \<lparr>k_problem = p, k_nominal_step = nominal, k_workers = workers, k_accepted = ?zero, k_candidate = ?zero,
     k_b = [], k_g = [], k_candidate_b = [], k_candidate_g = [], k_reference_q = [],
     k_statistics = no_statistics, k_diagnostics = no_diagnostics, k_requires_reinitialization = False\<rparr>"
  have r: "core_reinitialize initial k0 = (Inr (), k)"
    and p: "0 < cp_coordinate_size p" "0 \<le> cp_internal_state_size p" "isfinite nominal" "\<not> nominal \<le> 0"
    using assms(1) by (auto simp: make_core_state_def bindS_eq_Inr Let_def k0_def split: prod.splits sum.splits)
  have pos: "0 < nominal" using p(3,4) by (cases nominal) auto
  note wf = core_reinitialize_success [OF r, unfolded k0_def, simplified, OF assms(2) p(1-3)]
  show "core_wf k" "k_accepted k = initial" "k_reference_q k = cs_q initial" "\<not> k_requires_reinitialization k"
    "k_problem k = p" "k_nominal_step k = nominal" "derivatives_current k" using wf pos by simp_all
qed

subsection \<open>Two small problems\<close>

definition example_problem :: coordinate_problem where
  "example_problem = \<lparr>cp_coordinate_size = 1, cp_internal_state_size = 0,
     cp_validate_initial = (\<lambda>_ _ _ _. Inr ()),
     cp_evaluate = (\<lambda>_ q _ _. Inr ([Fin (- 100) * (if q = [] then Fin 0 else q ! 0)], [])),
     cp_project_endpoint = (\<lambda>_ q s. Inr (False, q, s))\<rparr>"

definition falling_problem :: coordinate_problem where
  "falling_problem = example_problem\<lparr>cp_evaluate := (\<lambda>_ _ _ _. Inr ([Fin (- 10)], []))\<rparr>"

lemma example_problem_ok: "problem_ok example_problem"
  by (simp add: problem_ok_def example_problem_def)

lemma falling_problem_ok: "problem_ok falling_problem" "constant_problem falling_problem [Fin (- 10)] []"
  by (simp_all add: problem_ok_def falling_problem_def example_problem_def constant_problem_def)

end
