(* ===== verification/Newmark_Core.thy ===== *)
theory Newmark_Core
  imports Coordinate_Core
begin

section \<open>integrators: the Newmark core\<close>

text \<open>
  Models \<open>newmark_core.cc\<close>: one step of the trapezoidal (beta 1/4, gamma 1/2) rule, solved by Newton
  iteration with a forward-difference Jacobian.  The private work vectors of the implementation are local
  values here; what outlives a step is the record \<open>newmark_core\<close>.  Eigen's full-pivoting LU is the
  parameter \<open>lu\<close>: for a scaled Jacobian it says whether the factor is finite, whether it is invertible,
  and what a right-hand side is solved to.  Only the size of its answer is assumed (\<open>lu_sized\<close>), never that
  it solves the system: a step is accepted on the recomputed residual and not on the linear solve.
\<close>

subsection \<open>Configuration\<close>

record newton_configuration =
  nn_maximum_iterations :: int
  nn_position_scales :: vec
  nn_velocity_scales :: vec
  nn_internal_scales :: vec
  nn_acceleration_residual_scales :: vec
  nn_internal_residual_scales :: vec
  nn_reference_scales :: vec

record newmark_configuration =
  nc_step_size :: double
  nc_solver :: newton_configuration

definition validate_scale :: "vec \<Rightarrow> int \<Rightarrow> unit outcome" where
  "validate_scale scale n =
     reject_if (int (length scale) \<noteq> n \<or> \<not> all_finite scale \<or> (\<exists>x \<in> set scale. x \<le> 0)) InvalidArgument"

definition validate_configuration :: "coordinate_problem \<Rightarrow> newmark_configuration \<Rightarrow> unit outcome" where
  "validate_configuration p c =
     (let nq = cp_coordinate_size p; nz = cp_internal_state_size p; solver = nc_solver c in
      all_checks [
        reject_if (nq \<le> 0 \<or> nz < 0 \<or> int_max - nz < nq) InvalidArgument,
        reject_if (\<not> isfinite (nc_step_size c) \<or> nc_step_size c \<le> 0) InvalidArgument,
        reject_if (nn_maximum_iterations solver \<le> 0) InvalidArgument,
        validate_scale (nn_position_scales solver) nq,
        validate_scale (nn_velocity_scales solver) nq,
        validate_scale (nn_internal_scales solver) nz,
        validate_scale (nn_acceleration_residual_scales solver) nq,
        validate_scale (nn_internal_residual_scales solver) nz,
        validate_scale (nn_reference_scales solver) (nq + nz)])"

subsection \<open>Norms and perturbations\<close>

definition max_ratio :: "double \<Rightarrow> double \<times> double \<Rightarrow> double" where
  "max_ratio m vs = std_max m (\<bar>fst vs\<bar> / snd vs)"

definition scaled_maximum :: "vec \<Rightarrow> vec \<Rightarrow> double" where
  "scaled_maximum v scales = foldl max_ratio 0 (zip v scales)"

text \<open>The neighbour of a value in either direction; at a power of two the spacing below is half.\<close>

definition neighbour_up :: "real \<Rightarrow> real" where
  "neighbour_up x =
     (if x < - 1 / 2 ^ 1022 \<and> \<bar>x\<bar> = 2 powr real_of_int \<lfloor>log 2 \<bar>x\<bar>\<rfloor> then x + binary64_spacing x / 2
      else x + binary64_spacing x)"

definition double_max :: double where "double_max = Fin ((2 - 1 / 2 ^ 52) * 2 ^ 1023)"

fun next_toward_infinity :: "double \<Rightarrow> double" where
  "next_toward_infinity (Fin x) = (if Fin x = double_max then PosInf else Fin (neighbour_up x))"
| "next_toward_infinity NegInf = - double_max"
| "next_toward_infinity d = d"

definition next_toward_minus_infinity :: "double \<Rightarrow> double" where
  "next_toward_minus_infinity d = - next_toward_infinity (- d)"

text \<open>\<open>sqrt(epsilon)\<close> is \<open>2 ^ -26\<close>.\<close>

definition perturbed_value :: "double \<Rightarrow> double \<Rightarrow> double outcome" where
  "perturbed_value v reference =
     (let nominal = Fin (1 / 2 ^ 26) * std_max \<bar>v\<bar> reference;
          moved = v + nominal;
          perturbed = (if \<not> isfinite moved then next_toward_minus_infinity v
                       else if feq moved v then next_toward_infinity v else moved);
          increment = perturbed - v
      in if \<not> isfinite perturbed \<or> \<not> isfinite increment \<or> feq increment 0
         then Inl (CoordinateFailure CoordNonFiniteLinearSystem) else Inr perturbed)"

subsection \<open>The endpoint residual\<close>

type_synonym matrix = "vec list" \<comment> \<open>a list of rows\<close>

record lu_factorization =
  lu_factor_finite :: bool
  lu_invertible :: bool
  lu_solve :: "vec \<Rightarrow> vec"

type_synonym lu_solver = "matrix \<Rightarrow> lu_factorization"

definition newmark_fail :: "coordinate_reason \<Rightarrow> (core_state, 'a) effect" where
  "newmark_fail reason =
     seqE (modifyE (\<lambda>k. k\<lparr>k_statistics := (k_statistics k)\<lparr>is_nonlinear_failures := is_nonlinear_failures (k_statistics k) + 1\<rparr>\<rparr>))
          (raise (CoordinateFailure reason))"

text \<open>The trial endpoint of the unknowns \<open>(acceleration, z)\<close>.\<close>

definition newmark_trial :: "core_state \<Rightarrow> vec \<Rightarrow> double \<Rightarrow> double \<Rightarrow> coordinate_state" where
  "newmark_trial k unknown h endpoint =
     (let acc = k_accepted k; a = take (nat (k_nq k)) unknown in
      \<lparr>cs_time = endpoint,
       cs_q = vec_add (vec_add (cs_q acc) (vec_scale h (cs_s acc))) (vec_scale (quarter * h * h) (vec_add (k_b k) a)),
       cs_s = vec_add (cs_s acc) (vec_scale (half * h) (vec_add (k_b k) a)),
       cs_z = drop (nat (k_nq k)) unknown\<rparr>)"

definition newmark_defect :: "core_state \<Rightarrow> vec \<Rightarrow> double \<Rightarrow> vec \<Rightarrow> vec \<Rightarrow> vec" where
  "newmark_defect k unknown h b g =
     vec_sub (take (nat (k_nq k)) unknown) b @
     vec_sub (vec_sub (drop (nat (k_nq k)) unknown) (cs_z (k_accepted k))) (vec_scale (half * h) (vec_add (k_g k) g))"

text \<open>At a Newton iterate the trial is the core's candidate; at a perturbed point it is scratch.\<close>

definition newmark_residual :: "vec \<Rightarrow> double \<Rightarrow> double \<Rightarrow> bool \<Rightarrow> (core_state, vec) effect" where
  "newmark_residual unknown h endpoint jacobian_evaluation =
     bindE (readE (\<lambda>k. newmark_trial k unknown h endpoint)) (\<lambda>trial.
     seqE (if jacobian_evaluation then ret () else modifyE (\<lambda>k. k\<lparr>k_candidate := trial\<rparr>)) (
     bindE (core_evaluate trial jacobian_evaluation) (\<lambda>bg.
     seqE (if jacobian_evaluation then ret () else store_candidate_derivatives bg) (
     bindE (readE (\<lambda>k. newmark_defect k unknown h (fst bg) (snd bg))) (\<lambda>residual.
     if \<not> all_finite residual then newmark_fail CoordNonFiniteLinearSystem else ret residual)))))"

definition correction_norm :: "newton_configuration \<Rightarrow> int \<Rightarrow> double \<Rightarrow> vec \<Rightarrow> double" where
  "correction_norm solver nq h correction =
     (let a = take (nat nq) correction; z = drop (nat nq) correction;
          mechanical = foldl (\<lambda>m (c, p, v). max_ratio (max_ratio m (quarter * h * h * c, p)) (half * h * c, v))
                         0 (zip a (zip (nn_position_scales solver) (nn_velocity_scales solver)))
      in foldl max_ratio mechanical (zip z (nn_internal_scales solver)))"

subsection \<open>The Newton iteration\<close>

definition jacobian_column :: "newton_configuration \<Rightarrow> vec \<Rightarrow> vec \<Rightarrow> double \<Rightarrow> double \<Rightarrow> nat \<Rightarrow> (core_state, vec) effect" where
  "jacobian_column solver unknown residual h endpoint j =
     bindE (callE (\<lambda>_. perturbed_value (unknown ! j) (nn_reference_scales solver ! j))) (\<lambda>moved.
     bindE (newmark_residual (unknown[j := moved]) h endpoint True) (\<lambda>perturbed_residual.
     ret (map (\<lambda>d. d / (moved - unknown ! j)) (vec_sub perturbed_residual residual))))"

definition scale_jacobian :: "vec list \<Rightarrow> vec \<Rightarrow> vec \<Rightarrow> matrix" where
  "scale_jacobian columns residual_scales references =
     map (\<lambda>i. map2 (\<lambda>column reference. (column ! i / residual_scales ! i) * reference) columns references)
       [0..<length residual_scales]"

definition newton_correction ::
  "lu_solver \<Rightarrow> newton_configuration \<Rightarrow> vec \<Rightarrow> vec \<Rightarrow> vec \<Rightarrow> double \<Rightarrow> double \<Rightarrow> (core_state, vec) effect" where
  "newton_correction lu solver residual_scales unknown residual h endpoint =
     seqE (modifyE (\<lambda>k. k\<lparr>k_statistics := (k_statistics k)
            \<lparr>is_nonlinear_iterations := is_nonlinear_iterations (k_statistics k) + 1,
             is_jacobian_evaluations := is_jacobian_evaluations (k_statistics k) + 1\<rparr>\<rparr>)) (
     bindE (mapE (jacobian_column solver unknown residual h endpoint) [0..<length unknown]) (\<lambda>columns.
       let rhs = map2 (\<lambda>r s. (- r) / s) residual residual_scales;
           scaled = scale_jacobian columns residual_scales (nn_reference_scales solver)
       in if \<not> list_all all_finite scaled \<or> \<not> all_finite rhs then newmark_fail CoordNonFiniteLinearSystem
          else
     seqE (modifyE (\<lambda>k. k\<lparr>k_statistics := (k_statistics k)\<lparr>is_linear_solver_setups := is_linear_solver_setups (k_statistics k) + 1\<rparr>\<rparr>)) (
       let factorization = lu scaled;
           correction = map2 (*) (lu_solve factorization rhs) (nn_reference_scales solver)
       in if \<not> lu_factor_finite factorization then newmark_fail CoordNonFiniteLinearSystem
          else if \<not> lu_invertible factorization then newmark_fail CoordSingularJacobian
          else if \<not> all_finite correction then newmark_fail CoordNonFiniteLinearSystem
          else ret correction)))"

fun newton_loop ::
  "lu_solver \<Rightarrow> newton_configuration \<Rightarrow> vec \<Rightarrow> double \<Rightarrow> double \<Rightarrow> nat \<Rightarrow> vec \<Rightarrow> vec \<Rightarrow> (core_state, bool) effect" where
  "newton_loop lu solver residual_scales h endpoint 0 unknown residual =
     seqE (modifyE (\<lambda>k. k\<lparr>k_statistics := (k_statistics k)\<lparr>is_nonlinear_failures := is_nonlinear_failures (k_statistics k) + 1\<rparr>\<rparr>))
          (ret False)"
| "newton_loop lu solver residual_scales h endpoint (Suc n) unknown residual =
     bindE (newton_correction lu solver residual_scales unknown residual h endpoint) (\<lambda>correction.
     bindE (readE (\<lambda>_. vec_add unknown correction)) (\<lambda>unknown'.
     bindE (newmark_residual unknown' h endpoint False) (\<lambda>residual'.
     bindE (readE (\<lambda>k. correction_norm solver (k_nq k) h correction)) (\<lambda>size_of_correction.
     if scaled_maximum residual' residual_scales \<le> 1 \<and> size_of_correction \<le> 1 then ret True
     else newton_loop lu solver residual_scales h endpoint n unknown' residual'))))"

definition newmark_solve :: "lu_solver \<Rightarrow> newton_configuration \<Rightarrow> vec \<Rightarrow> double \<Rightarrow> double \<Rightarrow> (core_state, bool) effect" where
  "newmark_solve lu solver residual_scales h endpoint =
     bindE (readE (\<lambda>k. k_b k @ vec_add (cs_z (k_accepted k)) (vec_scale h (k_g k)))) (\<lambda>unknown.
     bindE (newmark_residual unknown h endpoint False) (\<lambda>residual.
     if scaled_maximum residual residual_scales \<le> 1 then ret True
     else newton_loop lu solver residual_scales h endpoint (nat (nn_maximum_iterations solver)) unknown residual))"

subsection \<open>The core's operations\<close>

record newmark_core =
  nm_configuration :: newmark_configuration
  nm_state :: core_state
  nm_residual_scales :: vec

datatype step_result = Accepted | IterationLimit

definition on_core :: "(core_state, 'a) effect \<Rightarrow> (newmark_core, 'a) effect" where
  "on_core m c = (let (r, k) = m (nm_state c) in (r, c\<lparr>nm_state := k\<rparr>))"

definition configured_residual_scales :: "newmark_configuration \<Rightarrow> vec" where
  "configured_residual_scales c =
     nn_acceleration_residual_scales (nc_solver c) @ nn_internal_residual_scales (nc_solver c)"

definition make_newmark_core :: "coordinate_problem \<Rightarrow> newmark_configuration \<Rightarrow> coordinate_state \<Rightarrow> newmark_core outcome" where
  "make_newmark_core p c initial =
     bindS (validate_configuration p c) (\<lambda>_.
     bindS (make_core_state p (nc_step_size c) initial 1) (\<lambda>k.
     Inr \<lparr>nm_configuration = c, nm_state = k, nm_residual_scales = configured_residual_scales c\<rparr>))"

definition newmark_attempt :: "lu_solver \<Rightarrow> newton_configuration \<Rightarrow> vec \<Rightarrow> double \<Rightarrow> double option \<Rightarrow> (core_state, step_result) effect" where
  "newmark_attempt lu solver residual_scales h endpoint =
     bindE (case endpoint of Some e \<Rightarrow> ret e | None \<Rightarrow> callE (step_end h)) (\<lambda>stop.
     bindE (newmark_solve lu solver residual_scales h stop) (\<lambda>converged.
     if \<not> converged then ret IterationLimit
     else
       bindE project_candidate (\<lambda>changed.
       seqE (if changed then bindE (readE k_candidate) (\<lambda>candidate.
               bindE (core_evaluate candidate False) store_candidate_derivatives) else ret ()) (
       seqE commit_candidate (
       ret Accepted)))))"

definition newmark_advance :: "lu_solver \<Rightarrow> double \<Rightarrow> double option \<Rightarrow> (newmark_core, step_result) effect" where
  "newmark_advance lu h endpoint =
     seqE (on_core (callE (validate_step_size h))) (
     seqE (case endpoint of Some e \<Rightarrow> on_core (callE (validate_explicit_endpoint h e)) | None \<Rightarrow> ret ()) (
     bindE (readE nm_configuration) (\<lambda>c.
     bindE (readE nm_residual_scales) (\<lambda>residual_scales.
     on_core (on_exception (\<lambda>k. k\<lparr>k_requires_reinitialization := True\<rparr>)
       (newmark_attempt lu (nc_solver c) residual_scales h endpoint))))))"

definition newmark_advance_nominal :: "lu_solver \<Rightarrow> (newmark_core, step_result) effect" where
  "newmark_advance_nominal lu = bindE (readE (\<lambda>c. nc_step_size (nm_configuration c))) (\<lambda>h. newmark_advance lu h None)"

definition newmark_reinitialize :: "coordinate_state \<Rightarrow> (newmark_core, unit) effect" where
  "newmark_reinitialize initial = on_core (core_reinitialize initial)"

definition newmark_reinitialize_configured :: "coordinate_state \<Rightarrow> newmark_configuration \<Rightarrow> (newmark_core, unit) effect" where
  "newmark_reinitialize_configured initial c =
     seqE (callE (\<lambda>n. validate_configuration (k_problem (nm_state n)) c)) (
     seqE (rejectE (\<lambda>n. \<not> feq (nc_step_size c) (nc_step_size (nm_configuration n))) InvalidArgument) (
     seqE (on_core (core_reinitialize initial)) (
     modifyE (\<lambda>n. n\<lparr>nm_configuration := c, nm_residual_scales := configured_residual_scales c\<rparr>))))"

subsection \<open>Norms\<close>

lemma foldl_max_ratio_le_one:
  assumes "length v = length sc" and "all_finite v" and "\<forall>x \<in> set sc. isfinite x \<and> \<not> x \<le> 0"
  shows "foldl max_ratio (Fin r) (zip v sc) \<le> 1 \<longleftrightarrow> r \<le> 1 \<and> list_all2 (\<lambda>x s. \<bar>x\<bar> \<le> s) v sc"
  using assms
proof (induction v sc arbitrary: r rule: list_induct2)
  case Nil
  then show ?case by simp
next
  case (Cons x v s sc)
  obtain y where y: "x = Fin y" using Cons.prems by (cases x) auto
  obtain u where u: "s = Fin u" "0 < u" using Cons.prems by (cases s) auto
  have "max_ratio (Fin r) (x, s) = Fin (max r (\<bar>y\<bar> / u))"
    using u by (simp add: max_ratio_def y)
  moreover have "\<bar>y\<bar> / u \<le> 1 \<longleftrightarrow> \<bar>y\<bar> \<le> u" using u by (simp add: divide_le_eq_1)
  ultimately show ?case using Cons u y by auto
qed

lemma scaled_maximum_le_one:
  "length v = length sc \<Longrightarrow> all_finite v \<Longrightarrow> \<forall>x \<in> set sc. isfinite x \<and> \<not> x \<le> 0 \<Longrightarrow>
     scaled_maximum v sc \<le> 1 \<longleftrightarrow> list_all2 (\<lambda>x s. \<bar>x\<bar> \<le> s) v sc"
  using foldl_max_ratio_le_one [of v sc 0] by (simp add: scaled_maximum_def)

lemma scaled_maximum_zeros:
  assumes "\<forall>x \<in> set v. x = 0" and sc: "\<forall>x \<in> set sc. isfinite x \<and> \<not> x \<le> 0" and n: "length v = length sc"
  shows "scaled_maximum v sc \<le> 1"
proof -
  have "\<bar>v ! i\<bar> \<le> sc ! i" if "i < length v" for i
  proof -
    have "v ! i = 0" "isfinite (sc ! i)" "\<not> sc ! i \<le> 0" using assms that by auto
    then show ?thesis by (cases "sc ! i") auto
  qed
  moreover have "all_finite v" using assms(1) by (auto simp: all_finite_iff)
  ultimately have "list_all2 (\<lambda>x s. \<bar>x\<bar> \<le> s) v sc" "all_finite v" using n by (simp_all add: list_all2_conv_all_nth)
  then show ?thesis using scaled_maximum_le_one [OF n _ sc] by blast
qed

subsection \<open>What a solve does\<close>

lemma fail_same_use: "stays_within core_same_use (newmark_fail r)"
  by (auto simp: newmark_fail_def core_same_use_def core_keeps_def intro!: stays_within_rules core_same_use_order)

lemma residual_same_use: "stays_within core_same_use (newmark_residual u h e j)"
  by (auto simp: newmark_residual_def store_candidate_derivatives_def core_same_use_def core_keeps_def
      intro!: stays_within_rules core_same_use_order fail_same_use evaluate_same_use)

lemma correction_same_use: "stays_within core_same_use (newton_correction lu solver rs u r h e)"
  by (auto simp: newton_correction_def jacobian_column_def Let_def core_same_use_def core_keeps_def
      intro!: stays_within_rules core_same_use_order fail_same_use residual_same_use)

lemma loop_same_use: "stays_within core_same_use (newton_loop lu solver rs h e n u r)"
  by (induction n arbitrary: u r)
     (auto simp: core_same_use_def core_keeps_def
       intro!: stays_within_rules core_same_use_order correction_same_use residual_same_use)

lemma solve_same_use: "stays_within core_same_use (newmark_solve lu solver rs h e)"
  by (auto simp: newmark_solve_def intro!: stays_within_rules core_same_use_order residual_same_use loop_same_use)

text \<open>After a residual at an iterate, the candidate is that iterate's trial with its own derivatives.\<close>

definition candidate_is :: "core_state \<Rightarrow> vec \<Rightarrow> vec \<Rightarrow> double \<Rightarrow> double \<Rightarrow> core_state \<Rightarrow> bool" where
  "candidate_is k u r h e l \<longleftrightarrow>
     k_candidate l = newmark_trial k u h e \<and> state_finite (k_candidate l) \<and>
     cp_evaluate (k_problem k) (cs_time (k_candidate l)) (cs_q (k_candidate l)) (cs_s (k_candidate l)) (cs_z (k_candidate l))
       = Inr (k_candidate_b l, k_candidate_g l) \<and>
     all_finite (k_candidate_b l) \<and> all_finite (k_candidate_g l) \<and>
     r = newmark_defect k u h (k_candidate_b l) (k_candidate_g l) \<and> all_finite r"

lemma trial_same_use: "core_same_use k l \<Longrightarrow> newmark_trial l u h e = newmark_trial k u h e"
  by (simp add: newmark_trial_def core_same_use_def core_keeps_def)

lemma defect_same_use: "core_same_use k l \<Longrightarrow> newmark_defect l u h b g = newmark_defect k u h b g"
  by (simp add: newmark_defect_def core_same_use_def core_keeps_def)

lemma candidate_is_from: "core_same_use k k' \<Longrightarrow> candidate_is k' u r h e l \<Longrightarrow> candidate_is k u r h e l"
  by (simp add: candidate_is_def trial_same_use defect_same_use) (auto simp: core_same_use_def core_keeps_def)

lemma residual_value:
  assumes "newmark_residual u h e False k = (Inr r, l)"
  shows "candidate_is k u r h e l"
proof -
  let ?k = "k\<lparr>k_candidate := newmark_trial k u h e\<rparr>"
  obtain b g m where ev: "core_evaluate (newmark_trial k u h e) False ?k = (Inr (b, g), m)"
    and l: "l = m\<lparr>k_candidate_b := b, k_candidate_g := g\<rparr>"
    and r: "r = newmark_defect l u h b g" "all_finite r"
    using assms
    by (auto simp: newmark_residual_def effect_outcome store_candidate_derivatives_def newmark_fail_def split: if_splits)
  have s: "core_same_use ?k m" using evaluate_same_use ev by (rule stays_withinD)
  have c: "k_candidate m = newmark_trial k u h e" using evaluate_keeps_candidate [OF ev] by simp
  have "newmark_defect l u h b g = newmark_defect k u h b g"
    using s by (simp add: l newmark_defect_def core_same_use_def core_keeps_def)
  then show ?thesis
    using r c evaluate_value [OF ev] by (simp add: candidate_is_def l)
qed

text \<open>The one thing relied on of the linear solver: a solution has the length of its right-hand side.\<close>

definition lu_sized :: "lu_solver \<Rightarrow> bool" where
  "lu_sized lu \<longleftrightarrow> (\<forall>A rhs. length (lu_solve (lu A) rhs) = length rhs)"

lemma correction_length:
  assumes "newton_correction lu solver rs u r h e k = (Inr c, l)" and "lu_sized lu"
    and "length r = length u" and "length rs = length u" and "length (nn_reference_scales solver) = length u"
  shows "length c = length u"
  using assms
  by (auto simp: newton_correction_def effect_outcome Let_def newmark_fail_def lu_sized_def split: if_splits)

lemma candidate_sizes:
  assumes "candidate_is k u r h e l" and "core_wf k"
  shows "int (length (k_candidate_b l)) = k_nq k" and "int (length (k_candidate_g l)) = k_nz k"
    and "int (length (cs_z (k_accepted k))) = k_nz k" and "int (length (cs_q (k_accepted k))) = k_nq k"
    and "int (length (cs_s (k_accepted k))) = k_nq k"
    and "int (length (k_b k)) = k_nq k" and "int (length (k_g k)) = k_nz k"
  using assms core_wf_derivative_sizes [OF assms(2)]
  unfolding candidate_is_def core_wf_def problem_ok_def state_sized_def by blast+

lemma defect_length:
  assumes "candidate_is k u r h e l" and "core_wf k" and "int (length u) = k_nq k + k_nz k"
  shows "length r = length u"
proof -
  have "r = newmark_defect k u h (k_candidate_b l) (k_candidate_g l)" using assms(1) by (simp add: candidate_is_def)
  then show ?thesis using candidate_sizes [OF assms(1,2)] assms(3) by (auto simp: newmark_defect_def)
qed

text \<open>The iterate a converged solve stops at.\<close>

definition solved :: "core_state \<Rightarrow> vec \<Rightarrow> double \<Rightarrow> double \<Rightarrow> vec \<Rightarrow> core_state \<Rightarrow> bool" where
  "solved k rs h e u l \<longleftrightarrow> int (length u) = k_nq k + k_nz k \<and>
     (\<exists>r. candidate_is k u r h e l \<and> length r = length u \<and> scaled_maximum r rs \<le> 1)"

lemma solved_from:
  assumes "core_same_use k k'" and "solved k' rs h e u l"
  shows "solved k rs h e u l"
proof -
  have "k_problem k' = k_problem k" using assms(1) by (simp add: core_same_use_def core_keeps_def)
  moreover obtain r where "candidate_is k' u r h e l" "length r = length u" "scaled_maximum r rs \<le> 1"
    using assms(2) unfolding solved_def by blast
  moreover from this(1) have "candidate_is k u r h e l" by (rule candidate_is_from [OF assms(1)])
  ultimately show ?thesis using assms(2) unfolding solved_def by metis
qed

lemma newton_loop_solved:
  assumes "lu_sized lu" and "core_wf k" and "length rs = length u" and "length (nn_reference_scales solver) = length u"
    and "newton_loop lu solver rs h e n u r k = (Inr True, l)"
    and "int (length u) = k_nq k + k_nz k" and "length r = length u"
  shows "\<exists>u'. solved k rs h e u' l"
  using assms
proof (induction n arbitrary: u r k)
  case 0
  then show ?case by (simp add: effect_simps)
next
  case (Suc n)
  from Suc.prems(5) obtain c m r' m' where
    c: "newton_correction lu solver rs u r h e k = (Inr c, m)"
    and r': "newmark_residual (vec_add u c) h e False m = (Inr r', m')"
    and rest: "(if scaled_maximum r' rs \<le> 1 \<and> correction_norm solver (k_nq m') h c \<le> 1 then ret True
       else newton_loop lu solver rs h e n (vec_add u c) r') m' = (Inr True, l)"
    by (auto simp: effect_outcome)
  have km: "core_same_use k m" using correction_same_use c by (rule stays_withinD)
  have mm': "core_same_use m m'" using residual_same_use r' by (rule stays_withinD)
  have km': "core_same_use k m'" using km mm' by (rule core_same_use_trans)
  have len: "length (vec_add u c) = length u" using correction_length [OF c] Suc.prems by simp
  have cand: "candidate_is k (vec_add u c) r' h e m'" using km residual_value [OF r'] by (rule candidate_is_from)
  have lr: "length r' = length u" using defect_length [OF cand] Suc.prems len by simp
  show ?case
  proof (cases "scaled_maximum r' rs \<le> 1 \<and> correction_norm solver (k_nq m') h c \<le> 1")
    case True
    then have "m' = l" using rest by (simp add: ret_run)
    then have "solved k rs h e (vec_add u c) l"
      using cand lr len True Suc.prems(6) by (auto simp: solved_def)
    then show ?thesis ..
  next
    case False
    have wf: "core_wf m'" using Suc.prems(2) km' core_wf_keeps by (auto simp: core_same_use_def)
    have dims: "k_problem m' = k_problem k" using km' by (simp add: core_same_use_def core_keeps_def)
    have run: "newton_loop lu solver rs h e n (vec_add u c) r' m' = (Inr True, l)"
      using rest False by (simp split: if_splits)
    obtain u' where "solved m' rs h e u' l"
      using Suc.IH [OF Suc.prems(1) wf _ _ run] Suc.prems len lr dims by auto
    then have "solved k rs h e u' l"
      by (rule solved_from [OF km'])
    then show ?thesis ..
  qed
qed

lemma newmark_solve_solved:
  assumes "lu_sized lu" and "core_wf k" and "int (length rs) = k_nq k + k_nz k"
    and "int (length (nn_reference_scales solver)) = k_nq k + k_nz k"
    and "newmark_solve lu solver rs h e k = (Inr True, l)"
  shows "\<exists>u. solved k rs h e u l"
proof -
  define u where "u = k_b k @ vec_add (cs_z (k_accepted k)) (vec_scale h (k_g k))"
  have lu: "int (length u) = k_nq k + k_nz k"
    using assms(2) core_wf_derivative_sizes [OF assms(2)] by (auto simp: u_def core_wf_def state_sized_def)
  obtain r m where r: "newmark_residual u h e False k = (Inr r, m)"
    and rest: "(if scaled_maximum r rs \<le> 1 then ret True
       else newton_loop lu solver rs h e (nat (nn_maximum_iterations solver)) u r) m = (Inr True, l)"
    using assms(5) by (auto simp: newmark_solve_def effect_outcome u_def [symmetric])
  have km: "core_same_use k m" using residual_same_use r by (rule stays_withinD)
  have cand: "candidate_is k u r h e m" using r by (rule residual_value)
  have lr: "length r = length u" using cand assms(2) lu by (rule defect_length)
  show ?thesis
  proof (cases "scaled_maximum r rs \<le> 1")
    case True
    then have "solved k rs h e u l" using rest cand lr lu by (auto simp: solved_def ret_run)
    then show ?thesis ..
  next
    case False
    have wf: "core_wf m" using assms(2) km core_wf_keeps by (auto simp: core_same_use_def)
    have dims: "k_problem m = k_problem k" using km by (simp add: core_same_use_def core_keeps_def)
    have run: "newton_loop lu solver rs h e (nat (nn_maximum_iterations solver)) u r m = (Inr True, l)"
      using rest False by simp
    obtain u' where "solved m rs h e u' l"
      using newton_loop_solved [OF assms(1) wf _ _ run] assms(3,4) lu lr dims by auto
    then have "solved k rs h e u' l"
      by (rule solved_from [OF km])
    then show ?thesis ..
  qed
qed

subsection \<open>Well-formed Newmark cores\<close>

definition newmark_wf :: "newmark_core \<Rightarrow> bool" where
  "newmark_wf c \<longleftrightarrow> core_wf (nm_state c) \<and>
     validate_configuration (k_problem (nm_state c)) (nm_configuration c) = Inr () \<and>
     feq (nc_step_size (nm_configuration c)) (k_nominal_step (nm_state c)) \<and>
     nm_residual_scales c = configured_residual_scales (nm_configuration c)"

lemma newmark_wf_sizes:
  assumes "newmark_wf c"
  shows "int (length (nm_residual_scales c)) = k_nq (nm_state c) + k_nz (nm_state c)"
    and "int (length (nn_reference_scales (nc_solver (nm_configuration c)))) = k_nq (nm_state c) + k_nz (nm_state c)"
    and "\<forall>x \<in> set (nm_residual_scales c). isfinite x \<and> \<not> x \<le> 0"
  using assms
  by (auto simp: newmark_wf_def validate_configuration_def validate_scale_def configured_residual_scales_def Let_def all_finite_iff)

lemma make_newmark_core_wf:
  assumes "make_newmark_core p cfg initial = Inr c" and "problem_ok p"
  shows "newmark_wf c" and "k_accepted (nm_state c) = initial" and "k_reference_q (nm_state c) = cs_q initial"
    and "\<not> k_requires_reinitialization (nm_state c)" and "k_problem (nm_state c) = p" and "derivatives_current (nm_state c)"
proof -
  obtain k where v: "validate_configuration p cfg = Inr ()" and mk: "make_core_state p (nc_step_size cfg) initial 1 = Inr k"
    and c: "c = \<lparr>nm_configuration = cfg, nm_state = k, nm_residual_scales = configured_residual_scales cfg\<rparr>"
    using assms(1) by (auto simp: make_newmark_core_def bindS_eq_Inr)
  have "isfinite (nc_step_size cfg)" using v by (auto simp: validate_configuration_def Let_def)
  then show "newmark_wf c" "k_accepted (nm_state c) = initial" "k_reference_q (nm_state c) = cs_q initial"
    "\<not> k_requires_reinitialization (nm_state c)" "k_problem (nm_state c) = p" "derivatives_current (nm_state c)"
    using make_core_state_wf [OF mk assms(2)] v by (simp_all add: newmark_wf_def c feq_finite)
qed

text \<open>One attempt, split at the outcomes.\<close>

lemma attempt_not_accepted:
  assumes "newmark_attempt lu solver rs h e k = (r, l)" and "r \<noteq> Inr Accepted"
  shows "core_same_use k l"
proof (cases "(case e of Some e \<Rightarrow> ret e | None \<Rightarrow> callE (step_end h)) k")
  case (Pair q k')
  then have k': "k' = k" by (auto simp: ret_run callE_run split: option.splits)
  show ?thesis
  proof (cases q)
    case (Inl x)
    then show ?thesis using assms Pair k' by (auto simp: newmark_attempt_def bindE_def)
  next
    case (Inr stop)
    obtain q2 k2 where s: "newmark_solve lu solver rs h stop k = (q2, k2)" by fastforce
    have kk2: "core_same_use k k2" using solve_same_use s by (rule stays_withinD)
    show ?thesis
    proof (cases "q2 = Inr True")
      case False
      then have "l = k2" using assms Pair k' Inr s
        by (cases q2) (auto simp: newmark_attempt_def bindE_def ret_run)
      then show ?thesis using kk2 by simp
    next
      case True
      obtain q3 k3 where p: "project_candidate k2 = (q3, k3)" by fastforce
      have k2k3: "core_same_use k2 k3" using project_same_use p by (rule stays_withinD)
      have kk3: "core_same_use k k3" using kk2 k2k3 by (rule core_same_use_trans)
      show ?thesis
      proof (cases q3)
        case (Inl x)
        then show ?thesis using assms Pair k' Inr s True p kk3 by (auto simp: newmark_attempt_def bindE_def)
      next
        case (Inr changed)
        then have "changed \<and> (\<exists>x. r = Inl x \<and> core_evaluate (k_candidate k3) False k3 = (Inl x, l))"
          using assms Pair k' \<open>q = Inr stop\<close> s True p
          by (auto simp: newmark_attempt_def effect_simps store_candidate_derivatives_def commit_candidate_def
              split: if_splits sum.splits prod.splits)
        then obtain x where "core_evaluate (k_candidate k3) False k3 = (Inl x, l)" by blast
        then have "core_same_use k3 l" using evaluate_same_use by (auto dest: stays_withinD)
        with kk3 show ?thesis by (rule core_same_use_trans)
      qed
    qed
  qed
qed

lemma attempt_accepted:
  assumes "newmark_attempt lu solver rs h e k = (Inr Accepted, m)" and "core_wf k" and "lu_sized lu"
    and "int (length rs) = k_nq k + k_nz k" and "int (length (nn_reference_scales solver)) = k_nq k + k_nz k"
  obtains u l changed where "solved k rs h (step_endpoint h e k) u l" and "core_same_use k l"
    and "cp_project_endpoint (k_problem k) (k_reference_q k) (cs_q (k_candidate l)) (cs_s (k_candidate l))
           = Inr (changed, cs_q (k_accepted m), cs_s (k_accepted m))"
    and "cs_time (k_accepted m) = step_endpoint h e k" and "cs_z (k_accepted m) = cs_z (k_candidate l)"
    and "core_wf m" and "derivatives_current m" and "k_problem m = k_problem k" and "k_nominal_step m = k_nominal_step k"
    and "k_reference_q m = k_reference_q k" and "k_requires_reinitialization m = k_requires_reinitialization k"
proof -
  obtain stop l changed l2 l3 where
    stop: "(case e of Some e \<Rightarrow> ret e | None \<Rightarrow> callE (step_end h)) k = (Inr stop, k)"
    and s: "newmark_solve lu solver rs h stop k = (Inr True, l)"
    and p: "project_candidate l = (Inr changed, l2)"
    and ev: "(if changed then bindE (readE k_candidate) (\<lambda>candidate.
               bindE (core_evaluate candidate False) store_candidate_derivatives) else ret ()) l2 = (Inr (), l3)"
    and co: "commit_candidate l3 = (Inr (), m)"
    using assms(1)
    by (auto simp: newmark_attempt_def effect_outcome split: if_splits option.splits)
  have e: "step_endpoint h e k = stop"
    using stop by (auto simp: step_endpoint_def step_end_def effect_prims Let_def split: option.splits if_splits)
  obtain u where u: "solved k rs h stop u l"
    using newmark_solve_solved [OF assms(3,2,4,5) s] by blast
  then obtain r where cand: "candidate_is k u r h stop l" unfolding solved_def by blast
  have kl: "core_same_use k l" using solve_same_use s by (rule stays_withinD)
  have ll2: "core_same_use l l2" using project_same_use p by (rule stays_withinD)
  note pv = project_value [OF p]
  have l3: "core_same_use l2 l3 \<and> k_candidate l3 = k_candidate l2 \<and> all_finite (k_candidate_b l3) \<and> all_finite (k_candidate_g l3) \<and>
     cp_evaluate (k_problem k) (cs_time (k_candidate l3)) (cs_q (k_candidate l3)) (cs_s (k_candidate l3)) (cs_z (k_candidate l3))
       = Inr (k_candidate_b l3, k_candidate_g l3)"
  proof (cases changed)
    case True
    then obtain b g l3' where e3: "core_evaluate (k_candidate l2) False l2 = (Inr (b, g), l3')"
      and l3: "l3 = l3'\<lparr>k_candidate_b := b, k_candidate_g := g\<rparr>"
      using ev by (auto simp: effect_outcome store_candidate_derivatives_def)
    have "core_same_use l2 l3'" using evaluate_same_use e3 by (rule stays_withinD)
    moreover have "k_candidate l3' = k_candidate l2" using e3 by (rule evaluate_keeps_candidate)
    ultimately show ?thesis using evaluate_value [OF e3] kl ll2
      by (auto simp: l3 core_same_use_def core_keeps_def)
  next
    case False
    have "problem_ok (k_problem k)" using assms(2) by (simp add: core_wf_def)
    moreover have "cp_project_endpoint (k_problem k) (k_reference_q l) (cs_q (k_candidate l)) (cs_s (k_candidate l))
        = Inr (False, cs_q (k_candidate l2), cs_s (k_candidate l2))"
      using pv(5) False kl by (simp add: core_same_use_def core_keeps_def)
    ultimately have "cs_q (k_candidate l2) = cs_q (k_candidate l) \<and> cs_s (k_candidate l2) = cs_s (k_candidate l)"
      unfolding problem_ok_def by blast
    then show ?thesis using ev False cand pv by (auto simp: ret_run candidate_is_def)
  qed
  have kl3: "core_same_use k l3" using kl ll2 l3 core_same_use_trans by blast
  have "state_finite (k_candidate l3)" using l3 pv(2) by simp
  moreover have "state_sized (k_problem k) (k_candidate l3)"
  proof -
    have trial: "k_candidate l = newmark_trial k u h stop" using cand by (simp add: candidate_is_def)
    have "int (length u) = k_nq k + k_nz k" using u by (simp add: solved_def)
    then have "state_sized (k_problem k) (k_candidate l)"
      using candidate_sizes [OF cand assms(2)] assms(2) by (auto simp: trial newmark_trial_def state_sized_def core_wf_def Let_def)
    moreover have "problem_ok (k_problem l)" using assms(2) kl by (simp add: core_wf_def core_same_use_def core_keeps_def)
    ultimately show ?thesis using pv(4,5) l3 unfolding problem_ok_def state_sized_def by metis
  qed
  ultimately have c: "core_wf m" "k_accepted m = k_candidate l3" "k_problem m = k_problem k"
    "k_nominal_step m = k_nominal_step k" "k_reference_q m = k_reference_q k"
    "k_requires_reinitialization m = k_requires_reinitialization l3" "derivatives_current m"
    using commit_wf [OF assms(2) _ _ _ _ _ _ co] kl3 l3 by (auto simp: core_same_use_def)
  show thesis
  proof (rule that [OF _ kl, of u changed])
    show "solved k rs h (step_endpoint h e k) u l" using u e by simp
    have kp: "k_problem l = k_problem k" "k_reference_q l = k_reference_q k" using kl by (simp_all add: core_same_use_def core_keeps_def)
    show "cp_project_endpoint (k_problem k) (k_reference_q k) (cs_q (k_candidate l)) (cs_s (k_candidate l))
           = Inr (changed, cs_q (k_accepted m), cs_s (k_accepted m))"
      using pv(5) c(2) l3 kp by simp
    have "cs_time (k_candidate l) = stop" using cand by (simp add: candidate_is_def newmark_trial_def Let_def)
    then show "cs_time (k_accepted m) = step_endpoint h e k" using pv(3) l3 c(2) e by simp
    show "cs_z (k_accepted m) = cs_z (k_candidate l)" using pv(4) l3 c(2) by simp
    show "k_requires_reinitialization m = k_requires_reinitialization k" using c(6) kl3 by (simp add: core_same_use_def)
  qed (use c in auto)
qed

text \<open>The accepted step in one predicate: the trapezoidal equations within the residual scales, then projection.\<close>

definition trapezoidal_endpoint :: "newmark_core \<Rightarrow> double \<Rightarrow> double \<Rightarrow> coordinate_state \<Rightarrow> bool" where
  "trapezoidal_endpoint c h endpoint y' \<longleftrightarrow>
     (let k = nm_state c; y = k_accepted k; solver = nc_solver (nm_configuration c) in
      \<exists>a q s b g changed.
        q = vec_add (vec_add (cs_q y) (vec_scale h (cs_s y))) (vec_scale (quarter * h * h) (vec_add (k_b k) a)) \<and>
        s = vec_add (cs_s y) (vec_scale (half * h) (vec_add (k_b k) a)) \<and>
        cp_evaluate (k_problem k) endpoint q s (cs_z y') = Inr (b, g) \<and>
        list_all2 (\<lambda>x scale. \<bar>x\<bar> \<le> scale) (vec_sub a b) (nn_acceleration_residual_scales solver) \<and>
        list_all2 (\<lambda>x scale. \<bar>x\<bar> \<le> scale)
          (vec_sub (vec_sub (cs_z y') (cs_z y)) (vec_scale (half * h) (vec_add (k_g k) g)))
          (nn_internal_residual_scales solver) \<and>
        cp_project_endpoint (k_problem k) (k_reference_q k) q s = Inr (changed, cs_q y', cs_s y') \<and>
        cs_time y' = endpoint)"

lemma solved_trapezoidal:
  assumes "newmark_wf c" and "solved (nm_state c) (nm_residual_scales c) h endpoint u l"
    and "cp_project_endpoint (k_problem (nm_state c)) (k_reference_q (nm_state c)) (cs_q (k_candidate l)) (cs_s (k_candidate l))
           = Inr (changed, cs_q y', cs_s y')"
    and "cs_time y' = endpoint" and "cs_z y' = cs_z (k_candidate l)"
  shows "trapezoidal_endpoint c h endpoint y'"
proof -
  let ?k = "nm_state c" let ?solver = "nc_solver (nm_configuration c)" let ?n = "nat (k_nq (nm_state c))"
  let ?b = "k_candidate_b l" let ?g = "k_candidate_g l"
  obtain r where cand: "candidate_is ?k u r h endpoint l" and lr: "length r = length u"
    and small: "scaled_maximum r (nm_residual_scales c) \<le> 1" and lu: "int (length u) = k_nq ?k + k_nz ?k"
    using assms(2) unfolding solved_def by blast
  have wf: "core_wf ?k" using assms(1) by (simp add: newmark_wf_def)
  have scales: "nm_residual_scales c = nn_acceleration_residual_scales ?solver @ nn_internal_residual_scales ?solver"
    "int (length (nn_acceleration_residual_scales ?solver)) = k_nq ?k"
    "int (length (nn_internal_residual_scales ?solver)) = k_nz ?k"
    using assms(1) by (auto simp: newmark_wf_def configured_residual_scales_def validate_configuration_def validate_scale_def Let_def)
  have trial: "k_candidate l = newmark_trial ?k u h endpoint" using cand by (simp add: candidate_is_def)
  have z: "cs_z y' = drop ?n u" using assms(5) by (simp add: trial newmark_trial_def Let_def)
  have r: "r = vec_sub (take ?n u) ?b @ vec_sub (vec_sub (cs_z y') (cs_z (k_accepted ?k))) (vec_scale (half * h) (vec_add (k_g ?k) ?g))"
    using cand by (simp add: candidate_is_def newmark_defect_def z)
  have "list_all2 (\<lambda>x scale. \<bar>x\<bar> \<le> scale) r (nm_residual_scales c)"
  proof (rule scaled_maximum_le_one [THEN iffD1, OF _ _ _ small])
    show "length r = length (nm_residual_scales c)" using lr lu newmark_wf_sizes(1) [OF assms(1)] by simp
    show "all_finite r" using cand by (auto simp: candidate_is_def)
    show "\<forall>x \<in> set (nm_residual_scales c). isfinite x \<and> \<not> x \<le> 0" using assms(1) by (rule newmark_wf_sizes(3))
  qed
  moreover have "length (vec_sub (take ?n u) ?b) = length (nn_acceleration_residual_scales ?solver)"
    using scales(2) candidate_sizes [OF cand wf] lu wf by (auto simp: core_wf_def)
  ultimately have bounds: "list_all2 (\<lambda>x scale. \<bar>x\<bar> \<le> scale) (vec_sub (take ?n u) ?b) (nn_acceleration_residual_scales ?solver)"
    "list_all2 (\<lambda>x scale. \<bar>x\<bar> \<le> scale) (vec_sub (vec_sub (cs_z y') (cs_z (k_accepted ?k))) (vec_scale (half * h) (vec_add (k_g ?k) ?g)))
       (nn_internal_residual_scales ?solver)"
    by (simp_all add: r scales(1) list_all2_append)
  have ev: "cp_evaluate (k_problem ?k) endpoint (cs_q (k_candidate l)) (cs_s (k_candidate l)) (cs_z y') = Inr (?b, ?g)"
    using cand assms(5) by (auto simp: candidate_is_def newmark_trial_def Let_def)
  show ?thesis unfolding trapezoidal_endpoint_def Let_def
    by (rule exI [of _ "take ?n u"], rule exI [of _ "cs_q (k_candidate l)"], rule exI [of _ "cs_s (k_candidate l)"],
        rule exI [of _ ?b], rule exI [of _ ?g], rule exI [of _ changed])
       (use bounds ev assms(3,4) in \<open>simp add: trial newmark_trial_def Let_def\<close>)
qed

lemma advance_split:
  assumes "newmark_advance lu h e c = (r, c')"
  obtains (refused) x where "r = Inl x" "c' = c"
      "validate_step_size h (nm_state c) = Inl x \<or> (\<exists>t. e = Some t \<and> validate_explicit_endpoint h t (nm_state c) = Inl x)"
    | (ran) k where "validate_step_size h (nm_state c) = Inr ()" "\<forall>t. e = Some t \<longrightarrow> validate_explicit_endpoint h t (nm_state c) = Inr ()"
        "newmark_attempt lu (nc_solver (nm_configuration c)) (nm_residual_scales c) h e (nm_state c) = (r, k)"
        "c' = c\<lparr>nm_state := (if isl r then k\<lparr>k_requires_reinitialization := True\<rparr> else k)\<rparr>"
proof -
  have step: "newmark_advance lu h e c =
      (case validate_step_size h (nm_state c) of Inl x \<Rightarrow> (Inl x, c) | Inr _ \<Rightarrow>
       (case (case e of Some t \<Rightarrow> validate_explicit_endpoint h t (nm_state c) | None \<Rightarrow> Inr ()) of Inl x \<Rightarrow> (Inl x, c) | Inr _ \<Rightarrow>
        (case newmark_attempt lu (nc_solver (nm_configuration c)) (nm_residual_scales c) h e (nm_state c) of
           (Inl x, k) \<Rightarrow> (Inl x, c\<lparr>nm_state := k\<lparr>k_requires_reinitialization := True\<rparr>\<rparr>)
         | (Inr a, k) \<Rightarrow> (Inr a, c\<lparr>nm_state := k\<rparr>))))"
    by (simp add: newmark_advance_def effect_simps on_core_def on_exception_def split: sum.splits option.splits prod.splits)
  obtain q k where at: "newmark_attempt lu (nc_solver (nm_configuration c)) (nm_residual_scales c) h e (nm_state c) = (q, k)"
    by fastforce
  show thesis
  proof (cases "validate_step_size h (nm_state c)")
    case (Inl x)
    then show ?thesis using refused [of x] assms step by simp
  next
    case Ok: (Inr u)
    show ?thesis
    proof (cases "case e of Some t \<Rightarrow> validate_explicit_endpoint h t (nm_state c) | None \<Rightarrow> Inr ()")
      case (Inl x)
      then show ?thesis using refused [of x] assms step Ok by (auto split: option.splits)
    next
      case (Inr v)
      show ?thesis
        by (rule ran [of k]) (use assms step Ok Inr at in \<open>auto split: option.splits sum.splits\<close>)
    qed
  qed
qed

lemma advance_accepted:
  assumes "newmark_advance lu h e c = (Inr Accepted, c')" and "newmark_wf c" and "lu_sized lu"
  shows "newmark_wf c'" and "trapezoidal_endpoint c h (step_endpoint h e (nm_state c)) (k_accepted (nm_state c'))"
    and "k_reference_q (nm_state c') = k_reference_q (nm_state c)" and "nm_configuration c' = nm_configuration c"
    and "k_requires_reinitialization (nm_state c') = k_requires_reinitialization (nm_state c)"
    and "k_problem (nm_state c') = k_problem (nm_state c)" and "derivatives_current (nm_state c')"
proof -
  have "newmark_wf c' \<and> trapezoidal_endpoint c h (step_endpoint h e (nm_state c)) (k_accepted (nm_state c')) \<and>
    k_reference_q (nm_state c') = k_reference_q (nm_state c) \<and> nm_configuration c' = nm_configuration c \<and>
    k_requires_reinitialization (nm_state c') = k_requires_reinitialization (nm_state c) \<and>
    k_problem (nm_state c') = k_problem (nm_state c) \<and> derivatives_current (nm_state c')"
    using assms(1)
  proof (cases rule: advance_split)
  case (refused x)
  then show ?thesis by simp
next
  case (ran m)
  have wf: "core_wf (nm_state c)" using assms(2) by (simp add: newmark_wf_def)
  note run = ran(3)
  obtain u l changed where u: "solved (nm_state c) (nm_residual_scales c) h (step_endpoint h e (nm_state c)) u l"
    and p: "cp_project_endpoint (k_problem (nm_state c)) (k_reference_q (nm_state c)) (cs_q (k_candidate l)) (cs_s (k_candidate l))
           = Inr (changed, cs_q (k_accepted m), cs_s (k_accepted m))"
    and t: "cs_time (k_accepted m) = step_endpoint h e (nm_state c)" and z: "cs_z (k_accepted m) = cs_z (k_candidate l)"
    and m: "core_wf m" "derivatives_current m" "k_problem m = k_problem (nm_state c)" "k_nominal_step m = k_nominal_step (nm_state c)"
      "k_reference_q m = k_reference_q (nm_state c)"
      "k_requires_reinitialization m = k_requires_reinitialization (nm_state c)"
    using attempt_accepted [OF run wf assms(3) newmark_wf_sizes(1,2) [OF assms(2)]] by metis
  have "c' = c\<lparr>nm_state := m\<rparr>" using ran(4) by simp
  then show ?thesis
    using m assms(2) solved_trapezoidal [OF assms(2) u p t z] by (simp add: newmark_wf_def)
  qed
  then show "newmark_wf c'" and "trapezoidal_endpoint c h (step_endpoint h e (nm_state c)) (k_accepted (nm_state c'))"
    and "k_reference_q (nm_state c') = k_reference_q (nm_state c)" and "nm_configuration c' = nm_configuration c"
    and "k_requires_reinitialization (nm_state c') = k_requires_reinitialization (nm_state c)"
    and "k_problem (nm_state c') = k_problem (nm_state c)" and "derivatives_current (nm_state c')" by blast+
qed

lemma advance_not_accepted:
  assumes "newmark_advance lu h e c = (r, c')" and "r \<noteq> Inr Accepted"
  shows "nm_configuration c' = nm_configuration c" and "nm_residual_scales c' = nm_residual_scales c"
    and "core_keeps (nm_state c) (nm_state c')"
    and "r = Inr IterationLimit \<Longrightarrow> k_requires_reinitialization (nm_state c') = k_requires_reinitialization (nm_state c)"
    and "isl r \<Longrightarrow> c' = c \<or> k_requires_reinitialization (nm_state c')"
proof -
  have "nm_configuration c' = nm_configuration c \<and> nm_residual_scales c' = nm_residual_scales c \<and>
    core_keeps (nm_state c) (nm_state c') \<and>
    (r = Inr IterationLimit \<longrightarrow> k_requires_reinitialization (nm_state c') = k_requires_reinitialization (nm_state c)) \<and>
    (isl r \<longrightarrow> c' = c \<or> k_requires_reinitialization (nm_state c'))"
    using assms(1)
  proof (cases rule: advance_split)
  case (refused x)
  then show ?thesis by simp
next
  case (ran m)
  have "core_same_use (nm_state c) m" using ran(3) assms(2) by (rule attempt_not_accepted)
  then show ?thesis
    using ran(4) by (auto simp: core_same_use_def core_keeps_def)
  qed
  then show "nm_configuration c' = nm_configuration c" and "nm_residual_scales c' = nm_residual_scales c"
    and "core_keeps (nm_state c) (nm_state c')"
    and "r = Inr IterationLimit \<Longrightarrow> k_requires_reinitialization (nm_state c') = k_requires_reinitialization (nm_state c)"
    and "isl r \<Longrightarrow> c' = c \<or> k_requires_reinitialization (nm_state c')" by blast+
qed

subsection \<open>Constant acceleration\<close>

lemma newmark_ballistic:
  assumes "newmark_wf c" and cur: "derivatives_current (nm_state c)" and p: "constant_problem (k_problem (nm_state c)) b g"
    and h: "validate_step_size h (nm_state c) = Inr ()"
    and e: "validate_explicit_endpoint h t (nm_state c) = Inr ()"
  obtains c' where "newmark_advance lu h (Some t) c = (Inr Accepted, c')"
    and "k_accepted (nm_state c') = ballistic (k_accepted (nm_state c)) b g h t"
    and "k_statistics (nm_state c') = (k_statistics (nm_state c))
           \<lparr>is_rhs_evaluations := is_rhs_evaluations (k_statistics (nm_state c)) + 1,
            is_successful_internal_steps := is_successful_internal_steps (k_statistics (nm_state c)) + 1\<rparr>"
proof -
  let ?k = "nm_state c" let ?y = "k_accepted (nm_state c)"
  have wf: "core_wf ?k" using assms(1) by (simp add: newmark_wf_def)
  have bg: "k_b ?k = b" "k_g ?k = g" using cur p by (simp_all add: derivatives_current_def constant_problem_def)
  have fin: "all_finite b" "all_finite g" "state_finite ?y" using wf bg by (simp_all add: core_wf_def)
  obtain hr where hr: "h = Fin hr" using h by (cases h) (auto simp: validate_step_size_def)
  have tf: "isfinite t" using e by (auto simp: validate_explicit_endpoint_def endpoint_time_compatible_def split: if_splits)
  have sizes: "int (length b) = k_nq ?k" "int (length g) = k_nz ?k" "int (length (cs_z ?y)) = k_nz ?k"
    using core_wf_derivative_sizes [OF wf] wf bg by (simp_all add: core_wf_def state_sized_def)
  define u where "u = b @ vec_add (cs_z ?y) (vec_scale h g)"
  have split_u: "take (nat (k_nq ?k)) u = b" "drop (nat (k_nq ?k)) u = vec_add (cs_z ?y) (vec_scale h g)"
    using sizes(1) by (simp_all add: u_def flip: sizes(1))
  have trial: "newmark_trial ?k u h t = ballistic ?y b g h t"
    using fin by (simp add: newmark_trial_def ballistic_def Let_def split_u bg hr vec_scale_double_add)
  have tfin: "state_finite (ballistic ?y b g h t)"
    using fin tf hr by (simp add: ballistic_def state_finite_def all_finite_vec_add all_finite_vec_scale)
  define k2 where "k2 = ?k\<lparr>k_candidate := ballistic ?y b g h t,
     k_statistics := (k_statistics ?k)\<lparr>is_rhs_evaluations := is_rhs_evaluations (k_statistics ?k) + 1\<rparr>,
     k_candidate_b := b, k_candidate_g := g\<rparr>"
  define r where "r = newmark_defect ?k u h b g"
  have z: "vec_sub (vec_add (cs_z ?y) (vec_scale h g)) (cs_z ?y) = vec_scale h g"
    using fin sizes hr by (intro vec_sub_add_same) (auto simp: state_finite_def all_finite_vec_scale)
  have r0: "\<forall>x \<in> set r. x = 0"
    using fin vec_sub_self [of b] vec_sub_self [OF all_finite_vec_scale [of "Fin hr" g]] hr
    by (auto simp: r_def newmark_defect_def split_u bg z [unfolded hr] vec_scale_double_add)
  have rf: "all_finite r" using r0 by (auto simp: all_finite_iff)
  have lr: "length r = length (nm_residual_scales c)"
    using newmark_wf_sizes(1) [OF assms(1)] sizes by (simp add: r_def newmark_defect_def split_u bg z)
  have "newmark_residual u h t False ?k = (Inr r, k2)"
    using p tfin fin rf
    by (simp add: newmark_residual_def effect_simps trial core_evaluate_def store_candidate_derivatives_def
        constant_problem_def k2_def r_def newmark_defect_def)
  moreover have "scaled_maximum r (nm_residual_scales c) \<le> 1"
    using r0 lr newmark_wf_sizes(3) [OF assms(1)] by (intro scaled_maximum_zeros)
  ultimately have solve: "newmark_solve lu (nc_solver (nm_configuration c)) (nm_residual_scales c) h t ?k = (Inr True, k2)"
    by (simp add: newmark_solve_def effect_simps bg flip: u_def)
  define k3 where "k3 = k2\<lparr>k_diagnostics := (k_diagnostics k2)
     \<lparr>cd_projection_evaluations := cd_projection_evaluations (k_diagnostics k2) + 1\<rparr>\<rparr>"
  have proj: "project_candidate k2 = (Inr False, k3)"
    using tfin p by (simp add: project_candidate_def effect_simps validate_candidate_def constant_problem_def k2_def k3_def)
  define k4 where "k4 = k3\<lparr>k_accepted := k_candidate k3, k_b := k_candidate_b k3, k_g := k_candidate_g k3,
       k_statistics := (k_statistics k3)\<lparr>is_successful_internal_steps := is_successful_internal_steps (k_statistics k3) + 1\<rparr>\<rparr>"
  have "newmark_attempt lu (nc_solver (nm_configuration c)) (nm_residual_scales c) h (Some t) ?k = (Inr Accepted, k4)"
    by (simp add: newmark_attempt_def effect_simps solve proj commit_candidate_def k4_def)
  then have "newmark_advance lu h (Some t) c = (Inr Accepted, c\<lparr>nm_state := k4\<rparr>)"
    by (simp add: newmark_advance_def effect_simps on_core_def on_exception_def h e)
  then show thesis by (rule that) (simp_all add: k4_def k3_def k2_def)
qed

subsection \<open>Properties\<close>

definition example_newton :: "double \<Rightarrow> newmark_configuration" where
  "example_newton tolerance = \<lparr>nc_step_size = Fin (1 / 10), nc_solver =
     \<lparr>nn_maximum_iterations = 1, nn_position_scales = [Fin 1], nn_velocity_scales = [Fin 1], nn_internal_scales = [],
      nn_acceleration_residual_scales = [tolerance], nn_internal_residual_scales = [], nn_reference_scales = [Fin 1]\<rparr>\<rparr>"

definition example_newmark :: "double \<Rightarrow> newmark_core" where
  "example_newmark tolerance =
     (case make_newmark_core example_problem (example_newton tolerance)
             \<lparr>cs_time = 0, cs_q = [Fin 1], cs_s = [Fin 0], cs_z = []\<rparr> of Inr c \<Rightarrow> c)"

text \<open>A solver that always answers zero.\<close>

definition lazy_lu :: lu_solver where
  "lazy_lu A = \<lparr>lu_factor_finite = True, lu_invertible = True, lu_solve = (\<lambda>rhs. map (\<lambda>_. Fin 0) rhs)\<rparr>"

lemma lazy_lu_sized: "lu_sized lazy_lu"
  by (simp add: lu_sized_def lazy_lu_def)

lemma example_newmark_make:
  assumes "0 < r"
  shows "make_newmark_core example_problem (example_newton (Fin r))
             \<lparr>cs_time = 0, cs_q = [Fin 1], cs_s = [Fin 0], cs_z = []\<rparr> = Inr (example_newmark (Fin r))"
    and "nm_configuration (example_newmark (Fin r)) = example_newton (Fin r)"
    and "nm_residual_scales (example_newmark (Fin r)) = [Fin r]"
    and "k_b (nm_state (example_newmark (Fin r))) = [Fin (- 100)]" and "k_g (nm_state (example_newmark (Fin r))) = []"
    and "k_nominal_step (nm_state (example_newmark (Fin r))) = Fin (1 / 10)"
  using assms
  by (simp_all add: example_newmark_def make_newmark_core_def validate_configuration_def validate_scale_def example_problem_def
      example_newton_def Let_def int_max_def make_core_state_def core_reinitialize_def validate_initial_def state_sized_def
      state_finite_def effect_simps on_exception_def core_evaluate_def store_candidate_derivatives_def configured_residual_scales_def)

lemmas example_newmark_facts = make_newmark_core_wf [OF example_newmark_make(1) example_problem_ok]

lemma example_newmark_accepts:
  "\<exists>c'. newmark_advance lazy_lu (Fin (1 / 10)) None (example_newmark (Fin 1000)) = (Inr Accepted, c')"
proof -
  note f = example_newmark_facts [of 1000, simplified]
  note g = example_newmark_make [of 1000, simplified]
  show ?thesis
    by (simp add: newmark_advance_def effect_simps on_core_def on_exception_def validate_step_size_def g f newmark_attempt_def
        step_end_def newmark_solve_def newmark_residual_def newmark_trial_def newmark_defect_def core_evaluate_def
        example_problem_def vec_add_def vec_sub_def vec_scale_def state_finite_def store_candidate_derivatives_def
        scaled_maximum_def max_ratio_def project_candidate_def validate_candidate_def commit_candidate_def)
qed

lemma example_newmark_gives_up:
  "\<exists>c'. newmark_advance lazy_lu (Fin (1 / 10)) None (example_newmark (Fin 1)) = (Inr IterationLimit, c')"
proof -
  note f = example_newmark_facts [of 1, simplified]
  note g = example_newmark_make [of 1, simplified]
  have p: "perturbed_value (Fin (- 100)) (Fin 1) = Inr (Fin (- 100 + 100 / 2 ^ 26))"
    by (simp add: perturbed_value_def Let_def)
  show ?thesis
    by (simp add: newmark_advance_def effect_simps on_core_def on_exception_def validate_step_size_def g f newmark_attempt_def
        step_end_def newmark_solve_def newmark_residual_def newmark_trial_def newmark_defect_def core_evaluate_def
        example_problem_def vec_add_def vec_sub_def vec_scale_def state_finite_def store_candidate_derivatives_def
        scaled_maximum_def max_ratio_def example_newton_def newton_correction_def jacobian_column_def p scale_jacobian_def
        lazy_lu_def Let_def correction_norm_def)
qed

text \<open>C2: What an accepted Newmark step is.  Whatever the linear solver answered, an accepted endpoint
  satisfies the trapezoidal equations: position and velocity are the beta 1/4, gamma 1/2 update with an
  endpoint acceleration that agrees with the problem's own acceleration there within the configured
  residual scales, the internal states satisfy their trapezoidal rule within theirs, the committed q and s
  are the projection of that endpoint and the time is the requested one.  The core stays well-formed, and the
  stored derivatives are the problem's at the committed state.\<close>

theorem newmark_accepted_step:
  assumes "newmark_wf c" and "lu_sized lu" and "newmark_advance lu h e c = (Inr Accepted, c')"
  shows "newmark_wf c' \<and> derivatives_current (nm_state c') \<and>
     trapezoidal_endpoint c h (step_endpoint h e (nm_state c)) (k_accepted (nm_state c')) \<and>
     nm_configuration c' = nm_configuration c \<and> k_reference_q (nm_state c') = k_reference_q (nm_state c)"
  using advance_accepted [OF assms(3,1,2)] by simp

theorem newmark_accepted_step_witness:
  "\<exists>c'. newmark_advance lazy_lu (Fin (1 / 10)) None (example_newmark (Fin 1000)) = (Inr Accepted, c') \<and> newmark_wf c' \<and>
     trapezoidal_endpoint (example_newmark (Fin 1000)) (Fin (1 / 10))
       (step_endpoint (Fin (1 / 10)) None (nm_state (example_newmark (Fin 1000)))) (k_accepted (nm_state c'))"
proof -
  have wf: "newmark_wf (example_newmark (Fin 1000))" by (rule example_newmark_facts) simp
  obtain c' where "newmark_advance lazy_lu (Fin (1 / 10)) None (example_newmark (Fin 1000)) = (Inr Accepted, c')"
    using example_newmark_accepts by blast
  with newmark_accepted_step [OF wf lazy_lu_sized this] show ?thesis by blast
qed

text \<open>A Newmark step that is not accepted is as if it had not been tried.  An exhausted Newton loop keeps
  accepted state, derivatives, projection reference and configuration and leaves the core usable; a thrown
  failure keeps them too and either was refused before anything changed or asks for reinitialization.\<close>

theorem newmark_rejected_step:
  assumes "newmark_advance lu h e c = (r, c')" and "r \<noteq> Inr Accepted"
  shows "nm_configuration c' = nm_configuration c \<and> core_keeps (nm_state c) (nm_state c') \<and>
     (r = Inr IterationLimit \<longrightarrow> k_requires_reinitialization (nm_state c') = k_requires_reinitialization (nm_state c)) \<and>
     (isl r \<longrightarrow> c' = c \<or> k_requires_reinitialization (nm_state c'))"
  using advance_not_accepted [OF assms] by blast

theorem newmark_rejected_step_witness:
  "\<exists>c'. newmark_advance lazy_lu (Fin (1 / 10)) None (example_newmark (Fin 1)) = (Inr IterationLimit, c') \<and>
     core_keeps (nm_state (example_newmark (Fin 1))) (nm_state c')"
proof -
  obtain c' where "newmark_advance lazy_lu (Fin (1 / 10)) None (example_newmark (Fin 1)) = (Inr IterationLimit, c')"
    using example_newmark_gives_up by blast
  with newmark_rejected_step [OF this] show ?thesis by simp
qed

lemma newmark_reinitialize_configured_outcome:
  assumes "newmark_wf c" and "newmark_reinitialize_configured initial cfg c = (r, c')"
  shows "newmark_wf c' \<and> k_problem (nm_state c') = k_problem (nm_state c) \<and>
     (if r = Inr () then k_accepted (nm_state c') = initial \<and> k_reference_q (nm_state c') = cs_q initial \<and>
        nm_configuration c' = cfg \<and> \<not> k_requires_reinitialization (nm_state c') \<and> derivatives_current (nm_state c')
      else core_keeps (nm_state c) (nm_state c') \<and> nm_configuration c' = nm_configuration c \<and>
        nm_residual_scales c' = nm_residual_scales c)"
proof -
  have wf: "core_wf (nm_state c)" "problem_ok (k_problem (nm_state c))" "0 < k_nq (nm_state c)" "0 \<le> k_nz (nm_state c)"
    "isfinite (k_nominal_step (nm_state c))" "0 < k_nominal_step (nm_state c)"
    using assms(1) by (simp_all add: newmark_wf_def core_wf_def)
  consider (refused) x where "r = Inl x" "c' = c"
    | (failed) x k where "r = Inl x" "core_reinitialize initial (nm_state c) = (Inl x, k)" "c' = c\<lparr>nm_state := k\<rparr>"
    | (success) k where "r = Inr ()" "validate_configuration (k_problem (nm_state c)) cfg = Inr ()"
        "feq (nc_step_size cfg) (nc_step_size (nm_configuration c))" "core_reinitialize initial (nm_state c) = (Inr (), k)"
        "c' = c\<lparr>nm_state := k, nm_configuration := cfg, nm_residual_scales := configured_residual_scales cfg\<rparr>"
    using assms(2) unfolding newmark_reinitialize_configured_def on_core_def
    by (cases "core_reinitialize initial (nm_state c)"; cases "validate_configuration (k_problem (nm_state c)) cfg")
       (auto simp: effect_simps split: sum.splits if_splits)
  then show ?thesis
  proof cases
    case refused
    then show ?thesis using assms(1) by simp
  next
    case failed
    note kept = core_reinitialize_failure(1) [OF failed(2)]
    then show ?thesis using failed assms(1) core_wf_keeps [OF wf(1) kept] by (simp add: newmark_wf_def core_keeps_def)
  next
    case success
    note new = core_reinitialize_success [OF success(4) wf(2-6)]
    have "feq (nc_step_size cfg) (k_nominal_step (nm_state c))"
      using success(3) assms(1) by (auto simp: newmark_wf_def feq_def)
    then show ?thesis using success new by (simp add: newmark_wf_def)
  qed
qed

text \<open>Reinitialization is one transaction over state, projection reference and scales.  Success installs
  all three and a well-formed core with current derivatives; any failure keeps the last accepted state, its derivatives, the
  reference, and the previous configuration with its residual scales.\<close>

theorem newmark_reinitialize_transaction:
  assumes "newmark_wf c" and "newmark_reinitialize_configured initial cfg c = (r, c')"
  shows "newmark_wf c' \<and>
     (if r = Inr () then k_accepted (nm_state c') = initial \<and> k_reference_q (nm_state c') = cs_q initial \<and>
        nm_configuration c' = cfg \<and> \<not> k_requires_reinitialization (nm_state c') \<and> derivatives_current (nm_state c')
      else core_keeps (nm_state c) (nm_state c') \<and> nm_configuration c' = nm_configuration c \<and>
        nm_residual_scales c' = nm_residual_scales c)"
  using newmark_reinitialize_configured_outcome [OF assms] by (simp split: if_splits)

theorem newmark_reinitialize_transaction_witness:
  "newmark_wf (snd (newmark_reinitialize_configured \<lparr>cs_time = 0, cs_q = [Fin 2], cs_s = [Fin 0], cs_z = []\<rparr>
     (example_newton (Fin 2)) (example_newmark (Fin 1))))"
proof -
  have wf: "newmark_wf (example_newmark (Fin 1))" by (rule example_newmark_facts) simp
  show ?thesis
    by (cases "newmark_reinitialize_configured \<lparr>cs_time = 0, cs_q = [Fin 2], cs_s = [Fin 0], cs_z = []\<rparr> (example_newton (Fin 2)) (example_newmark (Fin 1))")
       (simp add: newmark_reinitialize_transaction [OF wf])
qed

text \<open>The method is exact where it must be: for a problem of constant derivatives (uniform acceleration,
  uniform internal rates) one step with any admissible explicit endpoint is accepted at the initial guess -
  one evaluation, no Newton iteration, whatever the linear solver - at
  \<open>q + h s + h\<^sup>2/2 b\<close>, \<open>s + h b\<close>, \<open>z + h g\<close>.\<close>

theorem newmark_uniform_acceleration:
  assumes "newmark_wf c" and "derivatives_current (nm_state c)" and "constant_problem (k_problem (nm_state c)) b g"
    and "validate_explicit_endpoint h t (nm_state c) = Inr ()"
  shows "\<exists>c'. newmark_advance lu h (Some t) c = (Inr Accepted, c') \<and>
     k_accepted (nm_state c') = ballistic (k_accepted (nm_state c)) b g h t \<and>
     is_nonlinear_iterations (k_statistics (nm_state c')) = is_nonlinear_iterations (k_statistics (nm_state c)) \<and>
     is_rhs_evaluations (k_statistics (nm_state c')) = is_rhs_evaluations (k_statistics (nm_state c)) + 1"
proof -
  have "validate_step_size h (nm_state c) = Inr ()" using assms(4) by (simp add: validate_explicit_endpoint_def)
  then show ?thesis by (rule newmark_ballistic [OF assms(1-3) _ assms(4), of lu]) auto
qed

definition falling_newmark :: newmark_core where
  "falling_newmark = (case make_newmark_core falling_problem (example_newton (Fin 1))
             \<lparr>cs_time = 0, cs_q = [Fin 1], cs_s = [Fin 0], cs_z = []\<rparr> of Inr c \<Rightarrow> c)"

lemma falling_newmark_make:
  shows "make_newmark_core falling_problem (example_newton (Fin 1))
             \<lparr>cs_time = 0, cs_q = [Fin 1], cs_s = [Fin 0], cs_z = []\<rparr> = Inr falling_newmark"
  and "k_nominal_step (nm_state falling_newmark) = Fin (1 / 10)"
  by (simp_all add: falling_newmark_def make_newmark_core_def validate_configuration_def validate_scale_def falling_problem_def example_problem_def
      example_newton_def Let_def int_max_def make_core_state_def core_reinitialize_def validate_initial_def state_sized_def
      state_finite_def effect_simps on_exception_def core_evaluate_def store_candidate_derivatives_def configured_residual_scales_def)

theorem newmark_uniform_acceleration_witness:
  "\<exists>c'. newmark_advance lazy_lu (Fin (1 / 10)) (Some (Fin (1 / 10))) falling_newmark = (Inr Accepted, c') \<and>
     cs_q (k_accepted (nm_state c')) = [Fin (19 / 20)] \<and> cs_s (k_accepted (nm_state c')) = [Fin (- 1)]"
proof -
  note f = make_newmark_core_wf [OF falling_newmark_make(1) falling_problem_ok(1)]
  have c: "constant_problem (k_problem (nm_state falling_newmark)) [Fin (- 10)] []"
    unfolding f(5) by (rule falling_problem_ok)
  have e: "validate_explicit_endpoint (Fin (1 / 10)) (Fin (1 / 10)) (nm_state falling_newmark) = Inr ()"
    using binary64_spacing_pos [of 0] binary64_spacing_pos [of "1 / 10"]
    by (simp add: validate_explicit_endpoint_def validate_step_size_def falling_newmark_make(2) f endpoint_time_compatible_def)
  show ?thesis
    using newmark_uniform_acceleration [OF f(1,6) c e, of lazy_lu]
    by (auto simp: ballistic_def f vec_add_def vec_scale_def)
qed

end
