(* ===== verification/Newmark_Layout.thy ===== *)
theory Newmark_Layout
  imports Newmark_Core
begin

section \<open>integrators: the Newmark coordinate layout\<close>

text \<open>
  Models \<open>newmark_coordinate_layout.cc\<close>: the partition of the generalized coordinates into translation,
  angle and quaternion blocks, read off the finalized model, and the expansion of the per-family scales of a
  configuration into the core's component-wise scales.  What the layout asks of the model (ranges of the
  free bodies and joints, joint types) is the record \<open>coordinate_topology\<close>.
\<close>

subsection \<open>The configuration\<close>

record coordinate_newton_scales =
  ns_position_correction :: double
  ns_velocity_correction :: double
  ns_acceleration_residual :: double
  ns_acceleration_reference :: double

record series_force_newton_scales =
  fs_correction :: double
  fs_residual :: double
  fs_reference :: double

record newmark_newton_configuration =
  nnc_maximum_iterations :: int
  nnc_translation :: coordinate_newton_scales
  nnc_angle :: coordinate_newton_scales
  nnc_quaternion :: coordinate_newton_scales
  nnc_force :: series_force_newton_scales

record newmark_family_configuration =
  nfc_nominal_step_size :: double
  nfc_solver :: newmark_newton_configuration

definition require_positive :: "double \<Rightarrow> unit outcome" where
  "require_positive v = reject_if (\<not> isfinite v \<or> v \<le> 0) InvalidArgument"

definition validate_family :: "coordinate_newton_scales \<Rightarrow> unit outcome" where
  "validate_family s = all_checks [require_positive (ns_position_correction s), require_positive (ns_velocity_correction s),
     require_positive (ns_acceleration_residual s), require_positive (ns_acceleration_reference s)]"

definition validate_newmark_configuration :: "newmark_family_configuration \<Rightarrow> unit outcome" where
  "validate_newmark_configuration c = (let solver = nfc_solver c in
     all_checks [require_positive (nfc_nominal_step_size c),
       reject_if (nnc_maximum_iterations solver < 1) InvalidArgument,
       validate_family (nnc_translation solver), validate_family (nnc_angle solver), validate_family (nnc_quaternion solver),
       require_positive (fs_correction (nnc_force solver)), require_positive (fs_residual (nnc_force solver)),
       require_positive (fs_reference (nnc_force solver))])"

subsection \<open>The layout\<close>

datatype coordinate_family = FamilyTranslation | FamilyAngle | FamilyQuaternion

record coordinate_block =
  cb_start :: int
  cb_size :: int
  cb_family :: coordinate_family

datatype joint_type = Revolute | Prismatic | BallRpy | Weld

text \<open>Per rigid body, the position range of a free body; per joint its type and position range.\<close>

record coordinate_topology =
  ct_position_count :: int
  ct_free_body_ranges :: "(int \<times> int) option list"
  ct_joints :: "(joint_type \<times> int \<times> int) list"

record coordinate_layout =
  cl_nq :: int
  cl_nz :: int
  cl_blocks :: "coordinate_block list"

type_synonym layout_progress = "bool list \<times> coordinate_block list"

definition add_block :: "int \<Rightarrow> int \<Rightarrow> int \<Rightarrow> coordinate_family \<Rightarrow> layout_progress \<Rightarrow> layout_progress outcome" where
  "add_block nq start n family progress =
     (let covered = fst progress; blocks = snd progress in
      if n < 0 \<or> start < 0 \<or> nq - n < start then Inl InvalidArgument
      else if list_ex (\<lambda>c. c) (segment (nat start) (nat n) covered) then Inl InvalidArgument
      else Inr (put_segment (nat start) (replicate (nat n) True) covered,
                if n \<noteq> 0 then blocks @ [\<lparr>cb_start = start, cb_size = n, cb_family = family\<rparr>] else blocks))"

definition add_free_body :: "int \<Rightarrow> (int \<times> int) option \<Rightarrow> layout_progress \<Rightarrow> layout_progress outcome" where
  "add_free_body nq positions progress =
     (case positions of None \<Rightarrow> Inr progress
      | Some (start, n) \<Rightarrow>
          if n \<noteq> 7 then Inl InvalidArgument
          else bindS (add_block nq start 4 FamilyQuaternion progress) (add_block nq (start + 4) 3 FamilyTranslation))"

fun joint_family :: "joint_type \<Rightarrow> coordinate_family \<times> int" where
  "joint_family Revolute = (FamilyAngle, 1)"
| "joint_family Prismatic = (FamilyTranslation, 1)"
| "joint_family BallRpy = (FamilyAngle, 3)"
| "joint_family Weld = (FamilyAngle, 0)"

definition add_joint :: "int \<Rightarrow> joint_type \<times> int \<times> int \<Rightarrow> layout_progress \<Rightarrow> layout_progress outcome" where
  "add_joint nq joint progress =
     (case joint of (kind, start, n) \<Rightarrow>
        let (family, expected) = joint_family kind in
        if n \<noteq> expected then Inl InvalidArgument else add_block nq start n family progress)"

fun foldS :: "('x \<Rightarrow> 'a \<Rightarrow> 'a outcome) \<Rightarrow> 'x list \<Rightarrow> 'a \<Rightarrow> 'a outcome" where
  "foldS f [] a = Inr a"
| "foldS f (x # xs) a = bindS (f x a) (foldS f xs)"

definition make_coordinate_layout :: "coordinate_topology \<Rightarrow> int \<Rightarrow> coordinate_layout outcome" where
  "make_coordinate_layout model series_force_state_size =
     (let nq = ct_position_count model; nz = series_force_state_size in
      if nq \<le> 0 \<or> nz < 0 \<or> int_max - nz < nq then Inl InvalidArgument
      else
        bindS (foldS (add_free_body nq) (ct_free_body_ranges model) (replicate (nat nq) False, [])) (\<lambda>bodies.
        bindS (foldS (add_joint nq) (ct_joints model) bodies) (\<lambda>(covered, blocks).
        if \<not> list_all (\<lambda>c. c) covered then Inl InvalidArgument
        else Inr \<lparr>cl_nq = nq, cl_nz = nz, cl_blocks = blocks\<rparr>)))"

subsection \<open>Expansion\<close>

definition family_scales :: "newmark_newton_configuration \<Rightarrow> coordinate_family \<Rightarrow> coordinate_newton_scales" where
  "family_scales solver family =
     (case family of FamilyTranslation \<Rightarrow> nnc_translation solver | FamilyAngle \<Rightarrow> nnc_angle solver
      | FamilyQuaternion \<Rightarrow> nnc_quaternion solver)"

definition block_factor :: "vec \<Rightarrow> coordinate_block \<Rightarrow> double outcome" where
  "block_factor reference_q block =
     (if cb_family block = FamilyQuaternion then
        let factor = std_sqrt (squared_norm (segment (nat (cb_start block)) 4 reference_q)) in
        bindS (require_positive factor) (\<lambda>_. Inr factor)
      else Inr 1)"

definition put_scale :: "coordinate_block \<Rightarrow> double \<Rightarrow> vec \<Rightarrow> vec outcome" where
  "put_scale block scaled target =
     bindS (require_positive scaled) (\<lambda>_.
     Inr (put_segment (nat (cb_start block)) (replicate (nat (cb_size block)) scaled) target))"

definition expand_block :: "newmark_newton_configuration \<Rightarrow> vec \<Rightarrow> coordinate_block \<Rightarrow> newton_configuration \<Rightarrow> newton_configuration outcome" where
  "expand_block solver reference_q block expanded =
     (let scales = family_scales solver (cb_family block) in
      bindS (block_factor reference_q block) (\<lambda>factor.
      bindS (put_scale block (factor * ns_position_correction scales) (nn_position_scales expanded)) (\<lambda>position.
      bindS (put_scale block (factor * ns_velocity_correction scales) (nn_velocity_scales expanded)) (\<lambda>velocity.
      bindS (put_scale block (factor * ns_acceleration_residual scales) (nn_acceleration_residual_scales expanded)) (\<lambda>residual.
      bindS (put_scale block (factor * ns_acceleration_reference scales) (nn_reference_scales expanded)) (\<lambda>reference.
      Inr (expanded\<lparr>nn_position_scales := position, nn_velocity_scales := velocity,
             nn_acceleration_residual_scales := residual, nn_reference_scales := reference\<rparr>)))))))"

text \<open>The vectors are resized, not initialised: \<open>NaN\<close> stands for the entries a block has not written yet.\<close>

definition expand_configuration :: "coordinate_layout \<Rightarrow> newmark_family_configuration \<Rightarrow> vec \<Rightarrow> newmark_configuration outcome" where
  "expand_configuration layout c reference_q =
     (let solver = nfc_solver c; nq = nat (cl_nq layout); nz = nat (cl_nz layout) in
      bindS (validate_newmark_configuration c) (\<lambda>_.
      bindS (reject_if (int (length reference_q) \<noteq> cl_nq layout \<or> \<not> all_finite reference_q) InvalidArgument) (\<lambda>_.
      bindS (foldS (expand_block solver reference_q) (cl_blocks layout)
               \<lparr>nn_maximum_iterations = nnc_maximum_iterations solver,
                nn_position_scales = replicate nq NaN, nn_velocity_scales = replicate nq NaN, nn_internal_scales = [],
                nn_acceleration_residual_scales = replicate nq NaN, nn_internal_residual_scales = [],
                nn_reference_scales = replicate (nq + nz) NaN\<rparr>) (\<lambda>expanded.
      Inr \<lparr>nc_step_size = nfc_nominal_step_size c,
           nc_solver = expanded\<lparr>nn_internal_scales := replicate nz (fs_correction (nnc_force solver)),
             nn_internal_residual_scales := replicate nz (fs_residual (nnc_force solver)),
             nn_reference_scales := put_segment nq (replicate nz (fs_reference (nnc_force solver))) (nn_reference_scales expanded)\<rparr>\<rparr>))))"

subsection \<open>The blocks partition the coordinates\<close>

definition in_block :: "nat \<Rightarrow> coordinate_block \<Rightarrow> bool" where
  "in_block i b \<longleftrightarrow> cb_start b \<le> int i \<and> int i < cb_start b + cb_size b"

definition block_ok :: "int \<Rightarrow> coordinate_block \<Rightarrow> bool" where
  "block_ok nq b \<longleftrightarrow> 0 \<le> cb_start b \<and> 0 < cb_size b \<and> cb_start b + cb_size b \<le> nq"

definition progress_ok :: "int \<Rightarrow> layout_progress \<Rightarrow> bool" where
  "progress_ok nq progress \<longleftrightarrow> int (length (fst progress)) = nq \<and> (\<forall>b \<in> set (snd progress). block_ok nq b) \<and>
     (\<forall>i < length (fst progress). length (filter (in_block i) (snd progress)) = (if fst progress ! i then 1 else 0))"

lemma add_block_ok:
  assumes "add_block nq start n family progress = Inr progress'" and "progress_ok nq progress"
  shows "progress_ok nq progress'"
proof -
  obtain covered blocks where p: "progress = (covered, blocks)" by (cases progress)
  let ?block = "\<lparr>cb_start = start, cb_size = n, cb_family = family\<rparr>"
  have r: "0 \<le> n" "0 \<le> start" "start + n \<le> nq" and free: "\<not> list_ex (\<lambda>c. c) (segment (nat start) (nat n) covered)"
    and p': "progress' = (put_segment (nat start) (replicate (nat n) True) covered, if n \<noteq> 0 then blocks @ [?block] else blocks)"
    using assms(1) by (auto simp: add_block_def p Let_def split: if_splits)
  have len: "int (length covered) = nq" using assms(2) by (simp add: progress_ok_def p)
  have fit: "nat start + nat n \<le> length covered" using r len by simp
  have free_at: "\<not> covered ! i" if "start \<le> int i" "int i < start + n" for i
  proof -
    have "segment (nat start) (nat n) covered ! (i - nat start) = covered ! i"
      using that fit r(2) by (subst nth_segment) (auto simp: nat_le_iff)
    moreover have "i - nat start < length (segment (nat start) (nat n) covered)" using that fit r by auto
    ultimately show ?thesis using free by (metis list_ex_length)
  qed
  have "length (filter (in_block i) (snd progress')) = (if fst progress' ! i then 1 else 0)" if i: "i < length covered" for i
  proof -
    have old: "length (filter (in_block i) blocks) = (if covered ! i then 1 else 0)"
      using assms(2) i by (simp add: progress_ok_def p)
    show ?thesis
    proof (cases "start \<le> int i \<and> int i < start + n")
      case True
      then have "i < nat start + nat n" "i - nat start < nat n" using r(1,2) by linarith+
      then show ?thesis using True old free_at [of i] fit i r(2) by (simp add: p' nth_put_segment in_block_def nat_le_iff)
    next
      case False
      then have "fst progress' ! i = covered ! i"
        using fit i r(1,2) by (auto simp: p' nth_put_segment nat_le_iff)
      then show ?thesis using old False by (auto simp: p' in_block_def)
    qed
  qed
  then show ?thesis using assms(2) r len fit by (auto simp: progress_ok_def p p' block_ok_def)
qed

lemma foldS_invariant:
  assumes "foldS f xs a = Inr b" and "P a" and "\<And>x a b. f x a = Inr b \<Longrightarrow> P a \<Longrightarrow> P b"
  shows "P b"
  using assms(1,2) by (induction xs arbitrary: a) (auto simp: bindS_eq_Inr dest: assms(3))

lemma add_free_body_ok: "add_free_body nq positions p = Inr p' \<Longrightarrow> progress_ok nq p \<Longrightarrow> progress_ok nq p'"
  by (auto simp: add_free_body_def bindS_eq_Inr split: option.splits if_splits dest!: add_block_ok)

lemma add_joint_ok: "add_joint nq joint p = Inr p' \<Longrightarrow> progress_ok nq p \<Longrightarrow> progress_ok nq p'"
  by (auto simp: add_joint_def Let_def split: prod.splits if_splits dest: add_block_ok)

lemma layout_partition:
  assumes "make_coordinate_layout model nz = Inr l"
  shows "cl_nq l = ct_position_count model" and "cl_nz l = nz" and "0 < cl_nq l" and "0 \<le> cl_nz l" and "cl_nz l \<le> int_max - cl_nq l"
    and "\<forall>b \<in> set (cl_blocks l). block_ok (cl_nq l) b"
    and "\<forall>i < nat (cl_nq l). length (filter (in_block i) (cl_blocks l)) = 1"
proof -
  let ?nq = "ct_position_count model"
  obtain bodies covered blocks where sizes: "0 < ?nq" "0 \<le> nz" "nz \<le> int_max - ?nq"
    and b: "foldS (add_free_body ?nq) (ct_free_body_ranges model) (replicate (nat ?nq) False, []) = Inr bodies"
    and j: "foldS (add_joint ?nq) (ct_joints model) bodies = Inr (covered, blocks)"
    and all: "list_all (\<lambda>c. c) covered" and l: "l = \<lparr>cl_nq = ?nq, cl_nz = nz, cl_blocks = blocks\<rparr>"
    using assms by (auto simp: make_coordinate_layout_def Let_def bindS_eq_Inr split: if_splits)
  have "progress_ok ?nq (replicate (nat ?nq) False, [])" using sizes by (simp add: progress_ok_def)
  then have "progress_ok ?nq bodies" using foldS_invariant [OF b, of "progress_ok ?nq"] add_free_body_ok by blast
  then have ok: "progress_ok ?nq (covered, blocks)" using foldS_invariant [OF j, of "progress_ok ?nq"] add_joint_ok by blast
  show "cl_nq l = ct_position_count model" "cl_nz l = nz" "0 < cl_nq l" "0 \<le> cl_nz l" "cl_nz l \<le> int_max - cl_nq l"
    using sizes by (simp_all add: l)
  show "\<forall>b \<in> set (cl_blocks l). block_ok (cl_nq l) b" using ok by (simp add: progress_ok_def l)
  show "\<forall>i < nat (cl_nq l). length (filter (in_block i) (cl_blocks l)) = 1"
    using ok all by (auto simp: progress_ok_def l list_all_length)
qed

subsection \<open>The expanded scales\<close>

definition positive_finite :: "double \<Rightarrow> bool" where
  "positive_finite v \<longleftrightarrow> isfinite v \<and> \<not> v \<le> 0"

lemma require_positive_iff: "require_positive v = Inr u \<longleftrightarrow> positive_finite v"
  by (simp add: require_positive_def positive_finite_def)

lemma put_scale_nth:
  assumes "put_scale b v xs = Inr ys" and "block_ok nq b" and "nq \<le> int (length xs)"
  shows "length ys = length xs" and "positive_finite v"
    and "i < length xs \<Longrightarrow> ys ! i = (if in_block i b then v else xs ! i)"
proof -
  have v: "positive_finite v" and ys: "ys = put_segment (nat (cb_start b)) (replicate (nat (cb_size b)) v) xs"
    using assms(1) by (auto simp: put_scale_def bindS_eq_Inr require_positive_iff)
  have fit: "nat (cb_start b) + nat (cb_size b) \<le> length xs" using assms(2,3) by (auto simp: block_ok_def)
  show "length ys = length xs" using fit by (simp add: ys)
  show "positive_finite v" by (rule v)
  assume i: "i < length xs"
  have "nat (cb_start b) \<le> i \<and> i < nat (cb_start b) + nat (cb_size b) \<longleftrightarrow> in_block i b"
    using assms(2) by (auto simp: in_block_def block_ok_def)
  moreover have "i - nat (cb_start b) < nat (cb_size b)" if "in_block i b"
    using that assms(2) unfolding in_block_def block_ok_def by linarith
  ultimately show "ys ! i = (if in_block i b then v else xs ! i)"
    using fit i by (auto simp: ys nth_put_segment)
qed

text \<open>What the four coordinate vectors of an expansion hold at a component of a block.\<close>

definition expanded_at :: "newmark_newton_configuration \<Rightarrow> vec \<Rightarrow> coordinate_block \<Rightarrow> newton_configuration \<Rightarrow> nat \<Rightarrow> bool" where
  "expanded_at solver q b e i \<longleftrightarrow>
     (let scales = family_scales solver (cb_family b) in
      \<exists>factor. block_factor q b = Inr factor \<and>
        nn_position_scales e ! i = factor * ns_position_correction scales \<and>
        nn_velocity_scales e ! i = factor * ns_velocity_correction scales \<and>
        nn_acceleration_residual_scales e ! i = factor * ns_acceleration_residual scales \<and>
        nn_reference_scales e ! i = factor * ns_acceleration_reference scales \<and>
        positive_finite (nn_position_scales e ! i) \<and> positive_finite (nn_velocity_scales e ! i) \<and>
        positive_finite (nn_acceleration_residual_scales e ! i) \<and> positive_finite (nn_reference_scales e ! i))"

definition expansion_sized :: "int \<Rightarrow> newton_configuration \<Rightarrow> bool" where
  "expansion_sized nq e \<longleftrightarrow> int (length (nn_position_scales e)) = nq \<and> int (length (nn_velocity_scales e)) = nq \<and>
     int (length (nn_acceleration_residual_scales e)) = nq \<and> nq \<le> int (length (nn_reference_scales e))"

definition expansion_agrees :: "newton_configuration \<Rightarrow> newton_configuration \<Rightarrow> nat \<Rightarrow> bool" where
  "expansion_agrees e e' i \<longleftrightarrow> nn_position_scales e' ! i = nn_position_scales e ! i \<and>
     nn_velocity_scales e' ! i = nn_velocity_scales e ! i \<and>
     nn_acceleration_residual_scales e' ! i = nn_acceleration_residual_scales e ! i \<and>
     nn_reference_scales e' ! i = nn_reference_scales e ! i"

lemma expand_block_effect:
  assumes "expand_block solver q b e = Inr e'" and "block_ok nq b" and "expansion_sized nq e"
  shows "expansion_sized nq e'" and "length (nn_reference_scales e') = length (nn_reference_scales e)"
    and "nn_maximum_iterations e' = nn_maximum_iterations e"
    and "int i < nq \<Longrightarrow> if in_block i b then expanded_at solver q b e' i else expansion_agrees e e' i"
proof -
  let ?s = "family_scales solver (cb_family b)"
  obtain f ps vs rs fs where f: "block_factor q b = Inr f"
    and p: "put_scale b (f * ns_position_correction ?s) (nn_position_scales e) = Inr ps"
    and v: "put_scale b (f * ns_velocity_correction ?s) (nn_velocity_scales e) = Inr vs"
    and r: "put_scale b (f * ns_acceleration_residual ?s) (nn_acceleration_residual_scales e) = Inr rs"
    and w: "put_scale b (f * ns_acceleration_reference ?s) (nn_reference_scales e) = Inr fs"
    and e': "e' = e\<lparr>nn_position_scales := ps, nn_velocity_scales := vs, nn_acceleration_residual_scales := rs, nn_reference_scales := fs\<rparr>"
    using assms(1) by (auto simp: expand_block_def Let_def bindS_eq_Inr)
  note n = assms(3) [unfolded expansion_sized_def]
  have len: "nq \<le> int (length (nn_position_scales e))" "nq \<le> int (length (nn_velocity_scales e))"
    "nq \<le> int (length (nn_acceleration_residual_scales e))" "nq \<le> int (length (nn_reference_scales e))" using n by auto
  note P = put_scale_nth [OF p assms(2) len(1)] and V = put_scale_nth [OF v assms(2) len(2)]
    and R = put_scale_nth [OF r assms(2) len(3)] and W = put_scale_nth [OF w assms(2) len(4)]
  show "expansion_sized nq e'" "length (nn_reference_scales e') = length (nn_reference_scales e)"
    "nn_maximum_iterations e' = nn_maximum_iterations e"
    using n P(1) V(1) R(1) W(1) by (simp_all add: e' expansion_sized_def)
  assume "int i < nq"
  then have i: "i < length (nn_position_scales e)" "i < length (nn_velocity_scales e)"
    "i < length (nn_acceleration_residual_scales e)" "i < length (nn_reference_scales e)" using n by auto
  show "if in_block i b then expanded_at solver q b e' i else expansion_agrees e e' i"
    using P(2) P(3) [OF i(1)] V(2) V(3) [OF i(2)] R(2) R(3) [OF i(3)] W(2) W(3) [OF i(4)] f
    by (simp add: e' expanded_at_def expansion_agrees_def Let_def)
qed

lemma expand_blocks:
  assumes "foldS (expand_block solver q) bs e = Inr e'" and "\<forall>b \<in> set bs. block_ok nq b" and "expansion_sized nq e"
  shows "expansion_sized nq e' \<and> length (nn_reference_scales e') = length (nn_reference_scales e) \<and>
    nn_maximum_iterations e' = nn_maximum_iterations e \<and>
    (\<forall>i. int i < nq \<longrightarrow> (\<exists>b \<in> set bs. in_block i b \<and> expanded_at solver q b e' i) \<or>
       (\<forall>b \<in> set bs. \<not> in_block i b) \<and> expansion_agrees e e' i)"
  using assms
proof (induction bs arbitrary: e)
  case Nil
  then show ?case by (simp add: expansion_agrees_def)
next
  case (Cons b bs)
  from Cons.prems(1) obtain e1 where e1: "expand_block solver q b e = Inr e1" and rest: "foldS (expand_block solver q) bs e1 = Inr e'"
    by (auto simp: bindS_eq_Inr)
  have b: "block_ok nq b" using Cons.prems(2) by simp
  note step = expand_block_effect [OF e1 b Cons.prems(3)]
  note IH = Cons.IH [OF rest _ step(1)]
  have "(\<exists>b' \<in> set (b # bs). in_block i b' \<and> expanded_at solver q b' e' i) \<or>
       (\<forall>b' \<in> set (b # bs). \<not> in_block i b') \<and> expansion_agrees e e' i" if "int i < nq" for i
    using IH Cons.prems(2) step(4) [OF that] that
    by (auto simp: expanded_at_def expansion_agrees_def Let_def split: if_splits)
  then show ?case using IH Cons.prems(2) step(2,3) by auto
qed

lemma validate_scale_iff: "validate_scale sc n = Inr u \<longleftrightarrow> int (length sc) = n \<and> (\<forall>x \<in> set sc. positive_finite x)"
  by (auto simp: validate_scale_def positive_finite_def all_finite_iff)

lemma validate_newmark_configuration_facts:
  assumes "validate_newmark_configuration c = Inr u"
  shows "positive_finite (nfc_nominal_step_size c)" and "1 \<le> nnc_maximum_iterations (nfc_solver c)"
    and "positive_finite (fs_correction (nnc_force (nfc_solver c)))" and "positive_finite (fs_residual (nnc_force (nfc_solver c)))"
    and "positive_finite (fs_reference (nnc_force (nfc_solver c)))"
  using assms by (auto simp: validate_newmark_configuration_def Let_def require_positive_iff)

lemma expand_configuration_valid:
  assumes layout: "make_coordinate_layout model nz = Inr l" and ex: "expand_configuration l c q = Inr cfg"
    and p: "cp_coordinate_size p = cl_nq l" "cp_internal_state_size p = cl_nz l"
  shows "validate_configuration p cfg = Inr ()" and "nc_step_size cfg = nfc_nominal_step_size c"
    and "\<forall>i < nat (cl_nq l). \<exists>b \<in> set (cl_blocks l). in_block i b \<and> expanded_at (nfc_solver c) q b (nc_solver cfg) i"
proof -
  let ?solver = "nfc_solver c" and ?nq = "nat (cl_nq l)" and ?nz = "nat (cl_nz l)"
  note L = layout_partition [OF layout]
  obtain e where v: "validate_newmark_configuration c = Inr ()"
    and e: "foldS (expand_block ?solver q) (cl_blocks l)
               \<lparr>nn_maximum_iterations = nnc_maximum_iterations ?solver,
                nn_position_scales = replicate ?nq NaN, nn_velocity_scales = replicate ?nq NaN, nn_internal_scales = [],
                nn_acceleration_residual_scales = replicate ?nq NaN, nn_internal_residual_scales = [],
                nn_reference_scales = replicate (?nq + ?nz) NaN\<rparr> = Inr e"
    and cfg: "cfg = \<lparr>nc_step_size = nfc_nominal_step_size c,
           nc_solver = e\<lparr>nn_internal_scales := replicate ?nz (fs_correction (nnc_force ?solver)),
             nn_internal_residual_scales := replicate ?nz (fs_residual (nnc_force ?solver)),
             nn_reference_scales := put_segment ?nq (replicate ?nz (fs_reference (nnc_force ?solver))) (nn_reference_scales e)\<rparr>\<rparr>"
    using ex by (auto simp: expand_configuration_def Let_def bindS_eq_Inr)
  note F = validate_newmark_configuration_facts [OF v]
  note E = expand_blocks [OF e L(6), unfolded expansion_sized_def, simplified]
  have sizes: "length (nn_position_scales e) = ?nq" "length (nn_velocity_scales e) = ?nq"
    "length (nn_acceleration_residual_scales e) = ?nq" "length (nn_reference_scales e) = ?nq + ?nz"
    "nn_maximum_iterations e = nnc_maximum_iterations ?solver"
    using E L(3,4) by auto
  have covered: "\<exists>b \<in> set (cl_blocks l). in_block i b \<and> expanded_at ?solver q b e i" if i: "i < ?nq" for i
  proof -
    have "length (filter (in_block i) (cl_blocks l)) = 1" using L(7) i by blast
    then have "filter (in_block i) (cl_blocks l) \<noteq> []" by auto
    then have "\<not> (\<forall>b \<in> set (cl_blocks l). \<not> in_block i b)" by (auto simp: filter_empty_conv)
    moreover have "int i < cl_nq l" using i L(3) by simp
    ultimately show ?thesis using E L(3,4) by auto
  qed
  have same: "expanded_at ?solver q b (nc_solver cfg) i \<longleftrightarrow> expanded_at ?solver q b e i" if "i < ?nq" for b i
    using that sizes by (simp add: cfg expanded_at_def Let_def nth_put_segment)
  show all: "\<forall>i < ?nq. \<exists>b \<in> set (cl_blocks l). in_block i b \<and> expanded_at ?solver q b (nc_solver cfg) i"
    using covered same by blast
  have pos: "positive_finite (nn_position_scales e ! i)" "positive_finite (nn_velocity_scales e ! i)"
    "positive_finite (nn_acceleration_residual_scales e ! i)" "positive_finite (nn_reference_scales e ! i)" if "i < ?nq" for i
    using covered [OF that] by (auto simp: expanded_at_def Let_def)
  have refs: "positive_finite (nn_reference_scales (nc_solver cfg) ! i)" if "i < ?nq + ?nz" for i
  proof (cases "i < ?nq")
    case False
    then have "i - ?nq < ?nz" using that by linarith
    then show ?thesis using that False F(5) sizes by (simp add: cfg nth_put_segment)
  qed (use that pos(4) [of i] sizes in \<open>simp add: cfg nth_put_segment\<close>)
  have scales: "validate_scale (nn_position_scales (nc_solver cfg)) (cl_nq l) = Inr ()"
    "validate_scale (nn_velocity_scales (nc_solver cfg)) (cl_nq l) = Inr ()"
    "validate_scale (nn_internal_scales (nc_solver cfg)) (cl_nz l) = Inr ()"
    "validate_scale (nn_acceleration_residual_scales (nc_solver cfg)) (cl_nq l) = Inr ()"
    "validate_scale (nn_internal_residual_scales (nc_solver cfg)) (cl_nz l) = Inr ()"
    "validate_scale (nn_reference_scales (nc_solver cfg)) (cl_nq l + cl_nz l) = Inr ()"
    using sizes pos refs L(3,4) F
    by (auto simp: validate_scale_iff all_set_conv_all_nth cfg nat_add_distrib in_set_conv_nth)
  show "validate_configuration p cfg = Inr ()"
    using scales L F sizes by (auto simp: validate_configuration_def Let_def p cfg positive_finite_def)
  show "nc_step_size cfg = nfc_nominal_step_size c" by (simp add: cfg)
qed

subsection \<open>Properties\<close>

text \<open>A coordinate layout is a partition: construction succeeds only when the blocks of the free bodies and
  joints cover every generalized position exactly once and none reaches outside.\<close>

theorem coordinate_layout_partitions:
  assumes "make_coordinate_layout model nz = Inr l"
  shows "(\<forall>i < nat (ct_position_count model). \<exists>!j. j < length (cl_blocks l) \<and> in_block i (cl_blocks l ! j)) \<and>
     (\<forall>b \<in> set (cl_blocks l). 0 \<le> cb_start b \<and> 0 < cb_size b \<and> cb_start b + cb_size b \<le> ct_position_count model)"
proof -
  note L = layout_partition [OF assms]
  have "\<exists>!j. j < length (cl_blocks l) \<and> in_block i (cl_blocks l ! j)" if "i < nat (ct_position_count model)" for i
  proof -
    let ?J = "{j. j < length (cl_blocks l) \<and> in_block i (cl_blocks l ! j)}"
    have "length (filter (in_block i) (cl_blocks l)) = 1" using L(1,7) that by simp
    then have "card ?J = 1" by (simp only: length_filter_conv_card)
    then obtain j where "?J = {j}" by (rule card_1_singletonE)
    then have "\<And>k. k < length (cl_blocks l) \<and> in_block i (cl_blocks l ! k) \<longleftrightarrow> k = j" by blast
    then show ?thesis by (intro ex1I [of _ j]) simp_all
  qed
  then show ?thesis using L(1,6) by (simp add: block_ok_def)
qed

definition example_topology :: coordinate_topology where
  "example_topology = \<lparr>ct_position_count = 8, ct_free_body_ranges = [Some (0, 7)], ct_joints = [(Weld, 7, 0), (Revolute, 7, 1)]\<rparr>"

definition example_layout_value :: coordinate_layout where
  "example_layout_value = \<lparr>cl_nq = 8, cl_nz = 1, cl_blocks =
     [\<lparr>cb_start = 0, cb_size = 4, cb_family = FamilyQuaternion\<rparr>, \<lparr>cb_start = 4, cb_size = 3, cb_family = FamilyTranslation\<rparr>,
      \<lparr>cb_start = 7, cb_size = 1, cb_family = FamilyAngle\<rparr>]\<rparr>"

lemma example_layout_made: "make_coordinate_layout example_topology 1 = Inr example_layout_value"
  by (simp add: make_coordinate_layout_def example_topology_def example_layout_value_def add_free_body_def add_joint_def
      add_block_def int_max_def put_segment_def segment_def eval_nat_numeral)

theorem coordinate_layout_partitions_witness:
  "\<exists>!j. j < length (cl_blocks example_layout_value) \<and> in_block 5 (cl_blocks example_layout_value ! j)"
  using coordinate_layout_partitions [OF example_layout_made] by (simp add: example_topology_def)

text \<open>An expanded configuration is one the core accepts, with the configured step: every component-wise
  vector has its size and positive finite entries, and at each coordinate the entries are the scales of the
  family of the block that owns it, times the reference quaternion's norm for quaternion blocks.\<close>

theorem expanded_configuration_is_accepted:
  assumes "make_coordinate_layout model nz = Inr l" and "expand_configuration l c q = Inr cfg"
    and "cp_coordinate_size p = ct_position_count model" and "cp_internal_state_size p = nz"
  shows "validate_configuration p cfg = Inr () \<and> nc_step_size cfg = nfc_nominal_step_size c \<and>
     (\<forall>i < nat (ct_position_count model). \<exists>b \<in> set (cl_blocks l). in_block i b \<and>
        expanded_at (nfc_solver c) q b (nc_solver cfg) i)"
  using expand_configuration_valid [OF assms(1,2), of p] assms(3,4) layout_partition(1,2) [OF assms(1)] by simp

definition example_family_configuration :: newmark_family_configuration where
  "example_family_configuration =
     (let s = \<lparr>ns_position_correction = 1, ns_velocity_correction = 1, ns_acceleration_residual = 1, ns_acceleration_reference = 1\<rparr> in
      \<lparr>nfc_nominal_step_size = Fin (1 / 100), nfc_solver = \<lparr>nnc_maximum_iterations = 12, nnc_translation = s, nnc_angle = s,
        nnc_quaternion = s, nnc_force = \<lparr>fs_correction = 1, fs_residual = 1, fs_reference = 1\<rparr>\<rparr>\<rparr>)"

lemma example_expansion:
  "\<exists>cfg. expand_configuration example_layout_value example_family_configuration
     [Fin 2, Fin 0, Fin 0, Fin 0, Fin 0, Fin 0, Fin 0, Fin 0] = Inr cfg"
proof -
  have f: "block_factor [Fin 2, Fin 0, Fin 0, Fin 0, Fin 0, Fin 0, Fin 0, Fin 0]
      \<lparr>cb_start = 0, cb_size = 4, cb_family = FamilyQuaternion\<rparr> = Inr (Fin 2)"
    by (simp add: block_factor_def require_positive_def segment_def squared_norm_def eval_nat_numeral real_sqrt_eq_iff)
  have g: "block_factor q \<lparr>cb_start = i, cb_size = k, cb_family = FamilyTranslation\<rparr> = Inr 1"
    "block_factor q \<lparr>cb_start = i, cb_size = k, cb_family = FamilyAngle\<rparr> = Inr 1" for q i k
    by (simp_all add: block_factor_def)
  show ?thesis
    by (simp add: expand_configuration_def example_layout_value_def example_family_configuration_def Let_def
        validate_newmark_configuration_def validate_family_def require_positive_def expand_block_def f g family_scales_def
        put_scale_def)
qed

theorem expanded_configuration_is_accepted_witness:
  "\<exists>cfg. expand_configuration example_layout_value example_family_configuration
     [Fin 2, Fin 0, Fin 0, Fin 0, Fin 0, Fin 0, Fin 0, Fin 0] = Inr cfg \<and>
     validate_configuration (example_problem\<lparr>cp_coordinate_size := 8, cp_internal_state_size := 1\<rparr>) cfg = Inr ()"
proof -
  obtain cfg where e: "expand_configuration example_layout_value example_family_configuration
     [Fin 2, Fin 0, Fin 0, Fin 0, Fin 0, Fin 0, Fin 0, Fin 0] = Inr cfg"
    using example_expansion by blast
  have "validate_configuration (example_problem\<lparr>cp_coordinate_size := 8, cp_internal_state_size := 1\<rparr>) cfg = Inr ()"
    using expanded_configuration_is_accepted [OF example_layout_made e, of "example_problem\<lparr>cp_coordinate_size := 8, cp_internal_state_size := 1\<rparr>"]
    by (simp add: example_topology_def)
  with e show ?thesis by blast
qed

end
