(* ===== verification/Zhai_Core.thy ===== *)
theory Zhai_Core
  imports Coordinate_Core
begin

section \<open>integrators: the Zhai core\<close>

text \<open>
  Models \<open>zhai_core.cc\<close>: the explicit two-step method.  A step whose interval equals the previous accepted
  one extrapolates with the two stored derivative pairs; any other step is a startup step.  The endpoint is
  projected before its derivatives are evaluated, and the history rolls together with the accepted state.
\<close>

subsection \<open>Operations\<close>

record zhai_core =
  zc_state :: core_state
  zc_previous_b :: vec
  zc_previous_g :: vec
  zc_previous_step :: double
  zc_has_history :: bool

definition on_zhai :: "(core_state, 'a) effect \<Rightarrow> (zhai_core, 'a) effect" where
  "on_zhai m c = (let (r, k) = m (zc_state c) in (r, c\<lparr>zc_state := k\<rparr>))"

definition make_zhai_core :: "coordinate_problem \<Rightarrow> double \<Rightarrow> coordinate_state \<Rightarrow> zhai_core outcome" where
  "make_zhai_core p h initial =
     bindS (make_core_state p h initial 0) (\<lambda>k.
     Inr \<lparr>zc_state = k, zc_previous_b = replicate (nat (cp_coordinate_size p)) 0,
          zc_previous_g = replicate (nat (cp_internal_state_size p)) 0, zc_previous_step = 0, zc_has_history = False\<rparr>)"

definition zhai_normal_candidate :: "zhai_core \<Rightarrow> double \<Rightarrow> double \<Rightarrow> coordinate_state" where
  "zhai_normal_candidate c h endpoint =
     (let k = zc_state c; y = k_accepted k in
      \<lparr>cs_time = endpoint,
       cs_q = vec_add (vec_add (cs_q y) (vec_scale h (cs_s y)))
                (vec_scale h (vec_scale h (vec_sub (k_b k) (vec_scale half (zc_previous_b c))))),
       cs_s = vec_add (cs_s y) (vec_scale h (vec_sub (vec_scale (Fin (3 / 2)) (k_b k)) (vec_scale half (zc_previous_b c)))),
       cs_z = vec_add (cs_z y) (vec_scale h (vec_sub (vec_scale (Fin (3 / 2)) (k_g k)) (vec_scale half (zc_previous_g c))))\<rparr>)"

definition zhai_startup_candidate :: "zhai_core \<Rightarrow> double \<Rightarrow> double \<Rightarrow> coordinate_state" where
  "zhai_startup_candidate c h endpoint =
     (let k = zc_state c; y = k_accepted k in
      \<lparr>cs_time = endpoint,
       cs_q = vec_add (vec_add (cs_q y) (vec_scale h (cs_s y))) (vec_scale h (vec_scale (half * h) (k_b k))),
       cs_s = vec_add (cs_s y) (vec_scale h (k_b k)),
       cs_z = vec_add (cs_z y) (vec_scale h (k_g k))\<rparr>)"

definition zhai_normal_step :: "double \<Rightarrow> zhai_core \<Rightarrow> bool" where
  "zhai_normal_step h c \<longleftrightarrow> zc_has_history c \<and> feq h (zc_previous_step c)"

definition zhai_attempt :: "double \<Rightarrow> double option \<Rightarrow> bool \<Rightarrow> (zhai_core, unit) effect" where
  "zhai_attempt h endpoint normal_step =
     bindE (case endpoint of Some e \<Rightarrow> ret e | None \<Rightarrow> callE (\<lambda>c. step_end h (zc_state c))) (\<lambda>stop.
     seqE (modifyE (\<lambda>c. c\<lparr>zc_state := (zc_state c)\<lparr>k_candidate :=
             (if normal_step then zhai_normal_candidate c h stop else zhai_startup_candidate c h stop)\<rparr>\<rparr>)) (
     seqE (on_zhai project_candidate) (
     seqE (on_zhai (bindE (readE k_candidate) (\<lambda>candidate.
             bindE (core_evaluate candidate False) store_candidate_derivatives))) (
     seqE (modifyE (\<lambda>c. c\<lparr>zc_previous_b := k_b (zc_state c), zc_previous_g := k_g (zc_state c)\<rparr>)) (
     seqE (on_zhai commit_candidate) (
     seqE (modifyE (\<lambda>c. c\<lparr>zc_previous_step := h, zc_has_history := True\<rparr>)) (
     if normal_step then ret ()
     else modifyE (\<lambda>c. c\<lparr>zc_state := (zc_state c)\<lparr>k_diagnostics := (k_diagnostics (zc_state c))
            \<lparr>cd_startup_steps := cd_startup_steps (k_diagnostics (zc_state c)) + 1\<rparr>\<rparr>\<rparr>))))))))"

definition zhai_advance :: "double \<Rightarrow> double option \<Rightarrow> (zhai_core, unit) effect" where
  "zhai_advance h endpoint =
     seqE (on_zhai (callE (validate_step_size h))) (
     seqE (case endpoint of Some e \<Rightarrow> on_zhai (callE (validate_explicit_endpoint h e)) | None \<Rightarrow> ret ()) (
     bindE (readE (zhai_normal_step h)) (\<lambda>normal_step.
     on_exception (\<lambda>c. c\<lparr>zc_state := (zc_state c)\<lparr>k_requires_reinitialization := True\<rparr>\<rparr>)
       (zhai_attempt h endpoint normal_step))))"

definition zhai_reinitialize :: "coordinate_state \<Rightarrow> (zhai_core, unit) effect" where
  "zhai_reinitialize y =
     seqE (on_zhai (core_reinitialize y)) (modifyE (\<lambda>c. c\<lparr>zc_has_history := False, zc_previous_step := 0\<rparr>))"

subsection \<open>Well-formed cores\<close>

text \<open>The history, once there is one, has the problem's sizes and is finite.\<close>

definition zhai_wf :: "zhai_core \<Rightarrow> bool" where
  "zhai_wf c \<longleftrightarrow> core_wf (zc_state c) \<and>
     int (length (zc_previous_b c)) = k_nq (zc_state c) \<and> int (length (zc_previous_g c)) = k_nz (zc_state c) \<and>
     all_finite (zc_previous_b c) \<and> all_finite (zc_previous_g c)"

definition zhai_candidate :: "zhai_core \<Rightarrow> double \<Rightarrow> double \<Rightarrow> coordinate_state" where
  "zhai_candidate c h endpoint =
     (if zhai_normal_step h c then zhai_normal_candidate c h endpoint else zhai_startup_candidate c h endpoint)"

lemma zhai_candidate_sized:
  assumes "zhai_wf c"
  shows "state_sized (k_problem (zc_state c)) (zhai_candidate c h t)"
proof -
  note wf = assms [unfolded zhai_wf_def]
  have "core_wf (zc_state c)" using wf by blast
  note d = core_wf_derivative_sizes [OF this]
  have "state_sized (k_problem (zc_state c)) (k_accepted (zc_state c))" using wf by (simp add: core_wf_def)
  then show ?thesis using wf d
    by (auto simp: zhai_candidate_def zhai_normal_candidate_def zhai_startup_candidate_def state_sized_def Let_def)
qed

text \<open>A step, split at its outcomes.\<close>

lemma zhai_advance_split:
  assumes "zhai_advance h e c = (r, c')"
  obtains (refused) x where "r = Inl x" "c' = c"
    | (failed) x k where "r = Inl x" "core_same_use (zc_state c) k"
        "c' = c\<lparr>zc_state := k\<lparr>k_requires_reinitialization := True\<rparr>\<rparr>"
    | (accepted) l changed b g m where "r = Inr ()" "validate_step_size h (zc_state c) = Inr ()"
        "core_same_use (zc_state c) l" "k_candidate l = zhai_candidate c h (step_endpoint h e (zc_state c))"
        "core_same_use l m" "state_finite (k_candidate m)" "cs_time (k_candidate m) = cs_time (k_candidate l)"
        "cs_z (k_candidate m) = cs_z (k_candidate l)"
        "cp_project_endpoint (k_problem l) (k_reference_q l) (cs_q (k_candidate l)) (cs_s (k_candidate l))
           = Inr (changed, cs_q (k_candidate m), cs_s (k_candidate m))"
        "cp_evaluate (k_problem l) (cs_time (k_candidate m)) (cs_q (k_candidate m)) (cs_s (k_candidate m)) (cs_z (k_candidate m)) = Inr (b, g)"
        "all_finite b" "all_finite g"
        "k_problem (zc_state c') = k_problem l" "k_accepted (zc_state c') = k_candidate m" "k_b (zc_state c') = b" "k_g (zc_state c') = g"
        "k_nominal_step (zc_state c') = k_nominal_step l" "k_reference_q (zc_state c') = k_reference_q l"
        "k_requires_reinitialization (zc_state c') = k_requires_reinitialization l"
        "zc_previous_b c' = k_b (zc_state c)" "zc_previous_g c' = k_g (zc_state c)"
        "zc_previous_step c' = h" "zc_has_history c'"
proof (cases "validate_step_size h (zc_state c)")
  case (Inl x)
  then show thesis using assms refused [of x] by (simp add: zhai_advance_def effect_simps on_zhai_def)
next
  case v1: (Inr u)
  show thesis
  proof (cases "case e of Some t \<Rightarrow> validate_explicit_endpoint h t (zc_state c) | None \<Rightarrow> Inr ()")
    case (Inl x)
    then show thesis using assms refused [of x] v1
      by (auto simp: zhai_advance_def effect_simps on_zhai_def split: option.splits)
  next
    case v2: (Inr v)
    have run: "(case zhai_attempt h e (zhai_normal_step h c) c of
        (Inl x, d) \<Rightarrow> (Inl x, d\<lparr>zc_state := (zc_state d)\<lparr>k_requires_reinitialization := True\<rparr>\<rparr>)
      | (Inr a, d) \<Rightarrow> (Inr a, d)) = (r, c')"
      using assms v1 v2 by (auto simp: zhai_advance_def effect_simps on_zhai_def on_exception_def split: option.splits)
    show thesis
    proof (cases "(case e of Some t \<Rightarrow> ret t | None \<Rightarrow> callE (\<lambda>c. step_end h (zc_state c))) c")
      case (Pair q c1)
      then have c1: "c1 = c" by (auto simp: ret_run callE_run split: option.splits)
      show thesis
      proof (cases q)
        case (Inl x)
        then show thesis using run Pair c1 failed [of x "zc_state c"]
          by (simp add: zhai_attempt_def bindE_def)
      next
        case stop: (Inr stop)
        then have e: "step_endpoint h e (zc_state c) = stop"
          using Pair c1 by (auto simp: step_endpoint_def step_end_def effect_prims Let_def split: option.splits if_splits)
        define l where "l = (zc_state c)\<lparr>k_candidate := zhai_candidate c h stop\<rparr>"
        have cl: "core_same_use (zc_state c) l" by (simp add: l_def core_same_use_def core_keeps_def)
        obtain q2 k2 where p: "project_candidate l = (q2, k2)" by fastforce
        have lk2: "core_same_use l k2" using project_same_use p by (rule stays_withinD)
        have cand: "(if zhai_normal_step h c then zhai_normal_candidate c h stop else zhai_startup_candidate c h stop)
            = zhai_candidate c h stop" by (simp add: zhai_candidate_def)
        show thesis
        proof (cases q2)
          case (Inl x)
          show thesis
            by (rule failed [of x k2])
               (use run Pair c1 stop p Inl cl lk2 core_same_use_trans in
                 \<open>auto simp: zhai_attempt_def effect_simps on_zhai_def l_def [symmetric] cand\<close>)
        next
          case pr: (Inr changed)
          obtain q3 k3 where ev: "core_evaluate (k_candidate k2) False k2 = (q3, k3)" by fastforce
          have k2k3: "core_same_use k2 k3" using evaluate_same_use ev by (rule stays_withinD)
          have lk3: "core_same_use l k3" using lk2 k2k3 by (rule core_same_use_trans)
          have ck3: "core_same_use (zc_state c) k3" using cl lk3 by (rule core_same_use_trans)
          show thesis
          proof (cases q3)
            case (Inl x)
            show thesis
              by (rule failed [of x k3])
                 (use run Pair c1 stop p pr ev Inl ck3 in
                   \<open>auto simp: zhai_attempt_def effect_simps on_zhai_def l_def [symmetric] cand\<close>)
          next
            case (Inr bg)
            then obtain b g where bg: "q3 = Inr (b, g)" by (cases bg) auto
            have k3c: "k_candidate k3 = k_candidate k2" using ev by (rule evaluate_keeps_candidate)
            note pv = project_value [OF p [unfolded pr]] and evv = evaluate_value [OF ev [unfolded bg]]
            have same: "k_b k3 = k_b (zc_state c)" "k_g k3 = k_g (zc_state c)" "k_problem k2 = k_problem l"
              using ck3 lk2 by (auto simp: core_same_use_def core_keeps_def)
            have final: "r = Inr ()" "k_problem (zc_state c') = k_problem k3" "k_accepted (zc_state c') = k_candidate k3"
              "k_b (zc_state c') = b" "k_g (zc_state c') = g" "k_nominal_step (zc_state c') = k_nominal_step k3"
              "k_reference_q (zc_state c') = k_reference_q k3"
              "k_requires_reinitialization (zc_state c') = k_requires_reinitialization k3"
              "zc_previous_b c' = k_b k3" "zc_previous_g c' = k_g k3" "zc_previous_step c' = h" "zc_has_history c'"
              using run Pair c1 stop p pr ev bg
              by (auto simp: zhai_attempt_def effect_simps on_zhai_def l_def [symmetric] cand store_candidate_derivatives_def
                  commit_candidate_def split: if_splits)
            show thesis
              by (rule accepted [of l k3 changed b g])
                 (use final cl lk3 pv evv k3c same v1 e in \<open>simp_all add: l_def core_same_use_def core_keeps_def\<close>)
          qed
        qed
      qed
    qed
  qed
qed

lemma zhai_accepted_current: "zhai_advance h e c = (Inr (), c') \<Longrightarrow> derivatives_current (zc_state c')"
  by (erule zhai_advance_split) (simp_all add: derivatives_current_def)

lemma zhai_advance_wf:
  assumes "zhai_wf c" and "zhai_advance h e c = (r, c')"
  shows "zhai_wf c'"
  using assms(2)
proof (cases rule: zhai_advance_split)
  case refused
  then show ?thesis using assms(1) by simp
next
  case failed
  then have "core_keeps (zc_state c) (zc_state c')" by (simp add: core_same_use_def core_keeps_def)
  then show ?thesis using assms(1) failed core_wf_keeps by (auto simp: zhai_wf_def core_keeps_def)
next
  case (accepted l changed b g m)
  have wf: "core_wf (zc_state c)" using assms(1) by (simp add: zhai_wf_def)
  have kl: "k_problem l = k_problem (zc_state c)" "k_nominal_step l = k_nominal_step (zc_state c)"
    "k_reference_q l = k_reference_q (zc_state c)"
    using accepted(3) by (simp_all add: core_same_use_def core_keeps_def)
  have ok: "problem_ok (k_problem l)" using wf kl by (simp add: core_wf_def)
  have "state_sized (k_problem l) (k_candidate l)"
    using zhai_candidate_sized [OF assms(1)] accepted(4) kl by simp
  then have "state_sized (k_problem l) (k_candidate m)"
    using accepted(8,9) ok unfolding problem_ok_def state_sized_def by metis
  moreover have "int (length b) = k_nq l \<and> int (length g) = k_nz l"
    using accepted(10) ok unfolding problem_ok_def by blast
  ultimately have "core_wf (zc_state c')" using accepted wf ok kl by (simp add: core_wf_def)
  then show ?thesis
    using accepted wf kl core_wf_derivative_sizes [OF wf] by (simp add: zhai_wf_def core_wf_def)
qed

lemma make_zhai_core_wf:
  assumes "make_zhai_core p h initial = Inr c" and "problem_ok p"
  shows "zhai_wf c" and "k_accepted (zc_state c) = initial" and "\<not> zc_has_history c" and "k_problem (zc_state c) = p"
    and "k_nominal_step (zc_state c) = h" and "\<not> k_requires_reinitialization (zc_state c)" and "derivatives_current (zc_state c)"
proof -
  obtain k where mk: "make_core_state p h initial 0 = Inr k"
    and c: "c = \<lparr>zc_state = k, zc_previous_b = replicate (nat (cp_coordinate_size p)) 0,
          zc_previous_g = replicate (nat (cp_internal_state_size p)) 0, zc_previous_step = 0, zc_has_history = False\<rparr>"
    using assms(1) by (auto simp: make_zhai_core_def bindS_eq_Inr)
  note m = make_core_state_wf [OF mk assms(2)]
  show "zhai_wf c" "k_accepted (zc_state c) = initial" "\<not> zc_has_history c" "k_problem (zc_state c) = p"
    "k_nominal_step (zc_state c) = h" "\<not> k_requires_reinitialization (zc_state c)" "derivatives_current (zc_state c)"
    using m by (simp_all add: c zhai_wf_def core_wf_def)
qed

subsection \<open>The formulas, by component\<close>

text \<open>\<open>ys\<close> is \<open>xs\<close> moved by the real increment \<open>d i\<close> in component \<open>i\<close>.\<close>

definition moved_by :: "(nat \<Rightarrow> real) \<Rightarrow> vec \<Rightarrow> vec \<Rightarrow> bool" where
  "moved_by d xs ys \<longleftrightarrow> length ys = length xs \<and> (\<forall>i < length xs. ys ! i = Fin (to_real (xs ! i) + d i))"

lemma finite_component: "all_finite xs \<Longrightarrow> i < length xs \<Longrightarrow> \<exists>x. xs ! i = Fin x"
  by (auto simp: all_finite_iff isfinite_iff)

lemma moved_by_q_normal:
  assumes "all_finite q" "all_finite s" "all_finite b" "all_finite b'"
    and "length s = length q" "length b = length q" "length b' = length q"
  shows "moved_by (\<lambda>i. H * to_real (s ! i) + H\<^sup>2 * (to_real (b ! i) - to_real (b' ! i) / 2)) q
    (vec_add (vec_add q (vec_scale (Fin H) s)) (vec_scale (Fin H) (vec_scale (Fin H) (vec_sub b (vec_scale half b')))))"
  unfolding moved_by_def
proof (intro conjI allI impI)
  fix i assume i: "i < length q"
  obtain w x y z where "q ! i = Fin w" "s ! i = Fin x" "b ! i = Fin y" "b' ! i = Fin z"
    using assms i finite_component by metis
  then show "vec_add (vec_add q (vec_scale (Fin H) s)) (vec_scale (Fin H) (vec_scale (Fin H) (vec_sub b (vec_scale half b')))) ! i
      = Fin (to_real (q ! i) + (H * to_real (s ! i) + H\<^sup>2 * (to_real (b ! i) - to_real (b' ! i) / 2)))"
    using i assms(5-7) by (simp add: vec_add_def vec_scale_def vec_sub_def power2_eq_square algebra_simps)
qed (simp add: assms(5-7))

lemma moved_by_q_startup:
  assumes "all_finite q" "all_finite s" "all_finite b" and "length s = length q" "length b = length q"
  shows "moved_by (\<lambda>i. H * to_real (s ! i) + H\<^sup>2 * (to_real (b ! i) / 2)) q
    (vec_add (vec_add q (vec_scale (Fin H) s)) (vec_scale (Fin H) (vec_scale (half * Fin H) b)))"
  unfolding moved_by_def
proof (intro conjI allI impI)
  fix i assume i: "i < length q"
  obtain w x y where "q ! i = Fin w" "s ! i = Fin x" "b ! i = Fin y"
    using assms i finite_component by metis
  then show "vec_add (vec_add q (vec_scale (Fin H) s)) (vec_scale (Fin H) (vec_scale (half * Fin H) b)) ! i
      = Fin (to_real (q ! i) + (H * to_real (s ! i) + H\<^sup>2 * (to_real (b ! i) / 2)))"
    using i assms(4,5) by (simp add: vec_add_def vec_scale_def power2_eq_square algebra_simps)
qed (simp add: assms(4,5))

lemma moved_by_rate_normal:
  assumes "all_finite x" "all_finite b" "all_finite b'" and "length b = length x" "length b' = length x"
  shows "moved_by (\<lambda>i. H * (3 / 2 * to_real (b ! i) - to_real (b' ! i) / 2)) x
    (vec_add x (vec_scale (Fin H) (vec_sub (vec_scale (Fin (3 / 2)) b) (vec_scale half b'))))"
  unfolding moved_by_def
proof (intro conjI allI impI)
  fix i assume i: "i < length x"
  obtain w y z where "x ! i = Fin w" "b ! i = Fin y" "b' ! i = Fin z"
    using assms i finite_component by metis
  then show "vec_add x (vec_scale (Fin H) (vec_sub (vec_scale (Fin (3 / 2)) b) (vec_scale half b'))) ! i
      = Fin (to_real (x ! i) + H * (3 / 2 * to_real (b ! i) - to_real (b' ! i) / 2))"
    using i assms(4,5) by (simp add: vec_add_def vec_scale_def vec_sub_def)
qed (simp add: assms(4,5))

lemma moved_by_rate_startup:
  assumes "all_finite x" "all_finite b" and "length b = length x"
  shows "moved_by (\<lambda>i. H * to_real (b ! i)) x (vec_add x (vec_scale (Fin H) b))"
  unfolding moved_by_def
proof (intro conjI allI impI)
  fix i assume i: "i < length x"
  obtain w y where "x ! i = Fin w" "b ! i = Fin y"
    using assms i finite_component by metis
  then show "vec_add x (vec_scale (Fin H) b) ! i = Fin (to_real (x ! i) + H * to_real (b ! i))"
    using i assms(3) by (simp add: vec_add_def vec_scale_def)
qed (simp add: assms(3))

lemma zhai_candidate_moves:
  assumes "zhai_wf c" and "isfinite h"
  defines "k \<equiv> zc_state c" and "y \<equiv> k_accepted (zc_state c)" and "H \<equiv> to_real h"
    and "n \<equiv> zc_has_history c \<and> h = zc_previous_step c"
  shows "moved_by (\<lambda>i. H * to_real (cs_s y ! i) + H\<^sup>2 * (if n then to_real (k_b k ! i) - to_real (zc_previous_b c ! i) / 2
            else to_real (k_b k ! i) / 2)) (cs_q y) (cs_q (zhai_candidate c h t))"
    and "moved_by (\<lambda>i. H * (if n then 3 / 2 * to_real (k_b k ! i) - to_real (zc_previous_b c ! i) / 2
            else to_real (k_b k ! i))) (cs_s y) (cs_s (zhai_candidate c h t))"
    and "moved_by (\<lambda>i. H * (if n then 3 / 2 * to_real (k_g k ! i) - to_real (zc_previous_g c ! i) / 2
            else to_real (k_g k ! i))) (cs_z y) (cs_z (zhai_candidate c h t))"
proof -
  have wf: "core_wf k" using assms(1) by (simp add: zhai_wf_def k_def)
  have fin: "all_finite (cs_q y)" "all_finite (cs_s y)" "all_finite (cs_z y)" "all_finite (k_b k)" "all_finite (k_g k)"
    "all_finite (zc_previous_b c)" "all_finite (zc_previous_g c)"
    using wf assms(1) by (simp_all add: core_wf_def zhai_wf_def state_finite_def y_def k_def)
  have len: "length (cs_s y) = length (cs_q y)" "length (k_b k) = length (cs_q y)" "length (zc_previous_b c) = length (cs_q y)"
    "length (k_b k) = length (cs_s y)" "length (zc_previous_b c) = length (cs_s y)"
    "length (k_g k) = length (cs_z y)" "length (zc_previous_g c) = length (cs_z y)"
    using wf assms(1) by (auto simp: core_wf_def zhai_wf_def state_sized_def y_def k_def)
  obtain r where h: "h = Fin r" using assms(2) by (auto simp: isfinite_iff)
  have H: "h = Fin H" by (simp add: h H_def)
  have n: "zhai_normal_step h c \<longleftrightarrow> n" by (cases "zc_previous_step c") (auto simp: zhai_normal_step_def n_def h feq_def)
  note parts = zhai_candidate_def [of c h t] zhai_normal_candidate_def [of c h t] zhai_startup_candidate_def [of c h t]
  have candidate:
    "cs_q (zhai_candidate c h t) = (if n then vec_add (vec_add (cs_q y) (vec_scale (Fin H) (cs_s y)))
        (vec_scale (Fin H) (vec_scale (Fin H) (vec_sub (k_b k) (vec_scale half (zc_previous_b c)))))
      else vec_add (vec_add (cs_q y) (vec_scale (Fin H) (cs_s y))) (vec_scale (Fin H) (vec_scale (half * Fin H) (k_b k))))"
    "cs_s (zhai_candidate c h t) = (if n then vec_add (cs_s y)
        (vec_scale (Fin H) (vec_sub (vec_scale (Fin (3 / 2)) (k_b k)) (vec_scale half (zc_previous_b c))))
      else vec_add (cs_s y) (vec_scale (Fin H) (k_b k)))"
    "cs_z (zhai_candidate c h t) = (if n then vec_add (cs_z y)
        (vec_scale (Fin H) (vec_sub (vec_scale (Fin (3 / 2)) (k_g k)) (vec_scale half (zc_previous_g c))))
      else vec_add (cs_z y) (vec_scale (Fin H) (k_g k)))"
    unfolding parts n Let_def H [symmetric] y_def k_def by (cases n; simp)+
  show "moved_by (\<lambda>i. H * to_real (cs_s y ! i) + H\<^sup>2 * (if n then to_real (k_b k ! i) - to_real (zc_previous_b c ! i) / 2
            else to_real (k_b k ! i) / 2)) (cs_q y) (cs_q (zhai_candidate c h t))"
    using moved_by_q_normal [OF fin(1,2,4,6) len(1-3), of H] moved_by_q_startup [OF fin(1,2,4) len(1,2), of H]
    by (cases n) (simp_all add: candidate)
  show "moved_by (\<lambda>i. H * (if n then 3 / 2 * to_real (k_b k ! i) - to_real (zc_previous_b c ! i) / 2
            else to_real (k_b k ! i))) (cs_s y) (cs_s (zhai_candidate c h t))"
    using moved_by_rate_normal [OF fin(2,4,6) len(4,5), of H] moved_by_rate_startup [OF fin(2,4) len(4), of H]
    by (cases n) (simp_all add: candidate)
  show "moved_by (\<lambda>i. H * (if n then 3 / 2 * to_real (k_g k ! i) - to_real (zc_previous_g c ! i) / 2
            else to_real (k_g k ! i))) (cs_z y) (cs_z (zhai_candidate c h t))"
    using moved_by_rate_normal [OF fin(3,5,7) len(6,7), of H] moved_by_rate_startup [OF fin(3,5) len(6), of H]
    by (cases n) (simp_all add: candidate)
qed

subsection \<open>Properties\<close>

text \<open>C11: What a Zhai step does, on every outcome.  An accepted step of interval \<open>h\<close> ends at the requested
  time.  When there is a history and \<open>h\<close> is the previous accepted interval, it moves every component by
  \<open>h s + h\<^sup>2 (b - b'/2)\<close>, \<open>h (3/2 b - b'/2)\<close> and \<open>h (3/2 g - g'/2)\<close> from the derivatives \<open>b, g\<close> of the
  state it starts from and the remembered ones \<open>b', g'\<close>; otherwise by the startup formula
  \<open>h s + h\<^sup>2 b/2\<close>, \<open>h b\<close>, \<open>h g\<close>.  The moved positions and velocities are projected to give the accepted
  ones, \<open>z\<close> is accepted as it is.  The history it leaves is the derivative pair of the state
  it started from, and the derivatives it stores are the problem's at the state it reached.  A failed step keeps accepted state, derivatives, reference and history, and either changed
  nothing or asks for reinitialization.  The core stays well-formed throughout.\<close>

theorem zhai_step_outcome:
  assumes "zhai_wf c" and "zhai_advance h e c = (r, c')"
  shows "zhai_wf c' \<and> k_reference_q (zc_state c') = k_reference_q (zc_state c) \<and>
     (if r = Inr () then
        (let k = zc_state c; y = k_accepted k; y' = k_accepted (zc_state c'); H = to_real h;
           b = (\<lambda>i. to_real (k_b k ! i)); b' = (\<lambda>i. to_real (zc_previous_b c ! i));
           g = (\<lambda>i. to_real (k_g k ! i)); g' = (\<lambda>i. to_real (zc_previous_g c ! i));
           normal = (zc_has_history c \<and> h = zc_previous_step c) in
          isfinite h \<and> cs_time y' = step_endpoint h e k \<and>
          (\<exists>changed q s.
             moved_by (\<lambda>i. H * to_real (cs_s y ! i) + H\<^sup>2 * (if normal then b i - b' i / 2 else b i / 2)) (cs_q y) q \<and>
             moved_by (\<lambda>i. H * (if normal then 3 / 2 * b i - b' i / 2 else b i)) (cs_s y) s \<and>
             cp_project_endpoint (k_problem k) (k_reference_q k) q s = Inr (changed, cs_q y', cs_s y')) \<and>
          moved_by (\<lambda>i. H * (if normal then 3 / 2 * g i - g' i / 2 else g i)) (cs_z y) (cs_z y') \<and>
          zc_has_history c' \<and> zc_previous_step c' = h \<and> derivatives_current (zc_state c') \<and>
          zc_previous_b c' = k_b (zc_state c) \<and> zc_previous_g c' = k_g (zc_state c))
      else core_keeps (zc_state c) (zc_state c') \<and> zc_has_history c' = zc_has_history c \<and>
        zc_previous_b c' = zc_previous_b c \<and> zc_previous_g c' = zc_previous_g c \<and>
        (c' = c \<or> k_requires_reinitialization (zc_state c')))"
proof -
  note wf = zhai_advance_wf [OF assms]
  show ?thesis using assms(2)
  proof (cases rule: zhai_advance_split)
    case refused
    then show ?thesis using assms(1) by simp
  next
    case failed
    then show ?thesis using wf by (simp add: core_same_use_def core_keeps_def)
  next
    case (accepted l changed b g m)
    have "k_problem l = k_problem (zc_state c)" "k_reference_q l = k_reference_q (zc_state c)"
      using accepted(3) by (simp_all add: core_same_use_def core_keeps_def)
    moreover have "cs_time (k_candidate l) = step_endpoint h e (zc_state c)"
      unfolding accepted(4) by (simp add: zhai_candidate_def zhai_normal_candidate_def zhai_startup_candidate_def Let_def)
    moreover have h: "isfinite h" using accepted(2) by (auto simp: validate_step_size_def)
    moreover note zhai_candidate_moves [OF assms(1) h, of "step_endpoint h e (zc_state c)"]
    moreover have "cp_project_endpoint (k_problem (zc_state c)) (k_reference_q (zc_state c))
        (cs_q (zhai_candidate c h (step_endpoint h e (zc_state c)))) (cs_s (zhai_candidate c h (step_endpoint h e (zc_state c))))
        = Inr (changed, cs_q (k_accepted (zc_state c')), cs_s (k_accepted (zc_state c')))"
      using accepted by (simp add: calculation(1,2))
    moreover have "derivatives_current (zc_state c')" using zhai_accepted_current assms(2) accepted(1) by blast
    ultimately show ?thesis
      using wf accepted(1,4,7,8,14,18,20-23) by (simp only: Let_def if_True simp_thms) blast
  qed
qed

definition example_zhai :: zhai_core where
  "example_zhai = (case make_zhai_core falling_problem (Fin (1 / 10))
             \<lparr>cs_time = 0, cs_q = [Fin 1], cs_s = [Fin 0], cs_z = []\<rparr> of Inr c \<Rightarrow> c)"

lemma example_zhai_make:
  "make_zhai_core falling_problem (Fin (1 / 10)) \<lparr>cs_time = 0, cs_q = [Fin 1], cs_s = [Fin 0], cs_z = []\<rparr> = Inr example_zhai"
  by (simp add: example_zhai_def make_zhai_core_def falling_problem_def example_problem_def Let_def int_max_def
      make_core_state_def core_reinitialize_def validate_initial_def state_sized_def state_finite_def effect_simps
      on_exception_def core_evaluate_def store_candidate_derivatives_def)

lemmas example_zhai_facts = make_zhai_core_wf [OF example_zhai_make falling_problem_ok(1)]

theorem zhai_step_outcome_witness:
  "zhai_wf (snd (zhai_advance (Fin (1 / 10)) None example_zhai))"
  using zhai_step_outcome [OF example_zhai_facts(1)]
  by (cases "zhai_advance (Fin (1 / 10)) None example_zhai") simp

lemma zhai_candidate_ballistic:
  assumes "zhai_wf c" and "derivatives_current (zc_state c)" and "constant_problem (k_problem (zc_state c)) b g" and "isfinite h"
    and "zc_has_history c \<Longrightarrow> zc_previous_b c = b \<and> zc_previous_g c = g"
  shows "zhai_candidate c h t = ballistic (k_accepted (zc_state c)) b g h t"
proof -
  have wf: "core_wf (zc_state c)" using assms(1) by (simp add: zhai_wf_def)
  have bg: "k_b (zc_state c) = b" "k_g (zc_state c) = g" and fin: "all_finite b" "all_finite g"
    using wf assms(2,3) by (auto simp: core_wf_def constant_problem_def derivatives_current_def)
  obtain r where h: "h = Fin r" using assms(4) by (cases h) auto
  have half_step: "vec_scale (Fin r) (vec_scale (Fin r) (vec_sub xs (vec_scale half xs))) = vec_scale (half * Fin r * Fin r) xs"
    if "all_finite xs" for xs
    using that by (induction xs) (auto simp: vec_scale_def vec_sub_def isfinite_iff field_simps)
  have half_start: "vec_scale (Fin r) (vec_scale (half * Fin r) xs) = vec_scale (half * Fin r * Fin r) xs"
    if "all_finite xs" for xs
    using that by (induction xs) (auto simp: vec_scale_def isfinite_iff)
  have three_halves: "vec_sub (vec_scale (Fin (3 / 2)) xs) (vec_scale half xs) = xs" if "all_finite xs" for xs
    using that by (induction xs) (auto simp: vec_scale_def vec_sub_def isfinite_iff field_simps)
  show ?thesis
    using assms(5) fin half_step [OF fin(1)] half_start [OF fin(1)] three_halves [OF fin(1)] three_halves [OF fin(2)]
    by (auto simp: zhai_candidate_def zhai_normal_step_def zhai_normal_candidate_def zhai_startup_candidate_def ballistic_def
        Let_def bg h)
qed

text \<open>Both formulas are exact for constant derivatives: a step of either kind with an admissible endpoint
  is accepted at \<open>q + h s + h\<^sup>2/2 b\<close>, \<open>s + h b\<close>, \<open>z + h g\<close>, and leaves the
  history with which the next step is exact again.\<close>

theorem zhai_uniform_acceleration:
  assumes "zhai_wf c" and "derivatives_current (zc_state c)" and "constant_problem (k_problem (zc_state c)) b g"
    and "zc_has_history c \<longrightarrow> zc_previous_b c = b \<and> zc_previous_g c = g"
    and "validate_explicit_endpoint h t (zc_state c) = Inr ()"
  shows "\<exists>c'. zhai_advance h (Some t) c = (Inr (), c') \<and>
     k_accepted (zc_state c') = ballistic (k_accepted (zc_state c)) b g h t \<and>
     zc_has_history c' \<and> zc_previous_b c' = b \<and> zc_previous_g c' = g \<and> k_problem (zc_state c') = k_problem (zc_state c)"
proof -
  let ?k = "zc_state c"
  have vs: "validate_step_size h ?k = Inr ()" using assms(5) by (simp add: validate_explicit_endpoint_def)
  obtain r where h: "h = Fin r" using vs by (cases h) (auto simp: validate_step_size_def)
  have tf: "isfinite t" using assms(5) by (auto simp: validate_explicit_endpoint_def endpoint_time_compatible_def split: if_splits)
  have wf: "core_wf ?k" using assms(1) by (simp add: zhai_wf_def)
  have bg: "k_b ?k = b" "k_g ?k = g" and fin: "all_finite b" "all_finite g" "state_finite (k_accepted ?k)"
    using wf assms(2,3) by (auto simp: core_wf_def constant_problem_def derivatives_current_def)
  have cand: "zhai_candidate c h t = ballistic (k_accepted ?k) b g h t"
    using assms(1-4) h by (intro zhai_candidate_ballistic) auto
  have sf: "state_finite (ballistic (k_accepted ?k) b g h t)"
    using fin tf by (simp add: h ballistic_def state_finite_def all_finite_vec_add all_finite_vec_scale)
  have "(if zhai_normal_step h c then zhai_normal_candidate c h t else zhai_startup_candidate c h t)
      = ballistic (k_accepted ?k) b g h t"
    using cand by (simp add: zhai_candidate_def)
  then show ?thesis
    using vs assms(3,5) sf fin
    by (simp add: zhai_advance_def effect_simps on_zhai_def on_exception_def zhai_attempt_def project_candidate_def
        validate_candidate_def constant_problem_def core_evaluate_def store_candidate_derivatives_def commit_candidate_def bg)
qed

theorem zhai_uniform_acceleration_witness:
  "\<exists>c'. zhai_advance (Fin (1 / 10)) (Some (Fin (1 / 10))) example_zhai = (Inr (), c') \<and>
     cs_q (k_accepted (zc_state c')) = [Fin (19 / 20)] \<and> cs_s (k_accepted (zc_state c')) = [Fin (- 1)]"
proof -
  note f = example_zhai_facts
  have c: "constant_problem (k_problem (zc_state example_zhai)) [Fin (- 10)] []"
    unfolding f(4) by (rule falling_problem_ok)
  have e: "validate_explicit_endpoint (Fin (1 / 10)) (Fin (1 / 10)) (zc_state example_zhai) = Inr ()"
    using binary64_spacing_pos [of 0] binary64_spacing_pos [of "1 / 10"]
    by (simp add: validate_explicit_endpoint_def validate_step_size_def f endpoint_time_compatible_def)
  have n: "zc_has_history example_zhai \<longrightarrow> zc_previous_b example_zhai = [Fin (- 10)] \<and> zc_previous_g example_zhai = []"
    using f(3) by simp
  show ?thesis
    using zhai_uniform_acceleration [OF f(1,7) c n e]
    by (auto simp: ballistic_def f vec_add_def vec_scale_def)
qed

end
