(* ===== verification/Coordinate_Advancer.thy ===== *)
theory Coordinate_Advancer
  imports Newmark_Layout Zhai_Core
begin

section \<open>integrators: the coordinate advancer\<close>

text \<open>
  Models \<open>basic_coordinate_advancer.h\<close>, \<open>coordinate_step_policy.h\<close> and \<open>coordinate_numerical_failure.h\<close>:
  the class template that turns a numerical core into a continuous-state advancer - step choice on a time grid
  towards a stop, retries with halved steps, publication of the physical state, dense output.  The template's
  parameters are the record \<open>coordinate_method\<close>; \<open>newmark_method\<close> and \<open>zhai_method\<close> are the two
  instantiations of the program.  The bridge to the physical system (\<open>system_coordinate_problem.h\<close>) is the
  record \<open>system_coordinate_problem\<close> of its callbacks.  The retry loop is a partial function of the option
  type, so that not returning would be \<open>None\<close>; it is proved to return.  The locale
  \<open>numerical_method\<close> is the contract of the template's parameters, interpreted by both methods.
\<close>

subsection \<open>The template's parameters\<close>

record system_coordinate_problem =
  scp_problem :: coordinate_problem
  scp_physical_size :: int
  scp_make_coordinate_state :: "double \<Rightarrow> vec \<Rightarrow> coordinate_state outcome"
  scp_copy_physical_state :: "coordinate_state \<Rightarrow> vec outcome"
  scp_interpolate :: "vec \<Rightarrow> vec \<Rightarrow> vec \<Rightarrow> double \<Rightarrow> vec outcome"

record ('k, 'p, 'c) coordinate_method =
  cm_state :: "'k \<Rightarrow> core_state"
  cm_try_advance :: "double \<Rightarrow> double \<Rightarrow> ('k, bool) effect"
  cm_reinitialize :: "coordinate_state \<Rightarrow> 'c option \<Rightarrow> ('k, unit) effect"
  cm_step_size :: "'p \<Rightarrow> double"
  cm_reduce_after_rejection :: "double \<Rightarrow> ('p, bool) effect"
  cm_accepted_step :: "'p \<Rightarrow> bool \<times> 'p"
  cm_reset :: "'p \<Rightarrow> 'p"

text \<open>\<open>FixedCoordinateStepPolicy\<close> holds the step; \<open>NewmarkRecoveryStepPolicy\<close> halves and doubles it.\<close>

record recovery_policy =
  rp_nominal_h :: double
  rp_h :: double
  rp_success_streak :: "32 word"

definition kMinimumRetryFraction :: double where "kMinimumRetryFraction = Fin (1 / 1024)"

definition reduce_after_rejection :: "double \<Rightarrow> (recovery_policy, bool) effect" where
  "reduce_after_rejection attempted_h =
     seqE (modifyE (\<lambda>p. p\<lparr>rp_success_streak := 0\<rparr>)) (
     let smaller = half * attempted_h in
     seqE (rejectE (\<lambda>_. \<not> (0 < smaller \<and> smaller < attempted_h)) (CoordinateFailure CoordStepSizeUnderflow)) (
     bindE (readE (\<lambda>p. smaller < rp_nominal_h p * kMinimumRetryFraction)) (\<lambda>below_floor.
     if below_floor then ret False
     else seqE (modifyE (\<lambda>p. p\<lparr>rp_h := smaller\<rparr>)) (ret True))))"

definition accepted_step :: "recovery_policy \<Rightarrow> bool \<times> recovery_policy" where
  "accepted_step p =
     (if feq (rp_h p) (rp_nominal_h p) then (False, p\<lparr>rp_success_streak := 0\<rparr>)
      else let streak = rp_success_streak p + 1 in
        if streak < 2 then (False, p\<lparr>rp_success_streak := streak\<rparr>)
        else (True, p\<lparr>rp_h := (if half * rp_nominal_h p \<le> rp_h p then rp_nominal_h p else 2 * rp_h p),
                      rp_success_streak := 0\<rparr>))"

definition reset_policy :: "recovery_policy \<Rightarrow> recovery_policy" where
  "reset_policy p = p\<lparr>rp_h := rp_nominal_h p, rp_success_streak := 0\<rparr>"

definition new_recovery_policy :: "double \<Rightarrow> recovery_policy" where
  "new_recovery_policy h = \<lparr>rp_nominal_h = h, rp_h = h, rp_success_streak = 0\<rparr>"

definition newmark_try_advance :: "lu_solver \<Rightarrow> double \<Rightarrow> double \<Rightarrow> (newmark_core, bool) effect" where
  "newmark_try_advance lu h endpoint =
     bindE (newmark_advance lu h (Some endpoint)) (\<lambda>result. ret (result = Accepted))"

definition newmark_method :: "lu_solver \<Rightarrow> (newmark_core, recovery_policy, newmark_configuration) coordinate_method" where
  "newmark_method lu = \<lparr>cm_state = nm_state, cm_try_advance = newmark_try_advance lu,
     cm_reinitialize = (\<lambda>y c. case c of Some cfg \<Rightarrow> newmark_reinitialize_configured y cfg | None \<Rightarrow> newmark_reinitialize y),
     cm_step_size = rp_h, cm_reduce_after_rejection = reduce_after_rejection, cm_accepted_step = accepted_step,
     cm_reset = reset_policy\<rparr>"

definition zhai_method :: "(zhai_core, double, unit) coordinate_method" where
  "zhai_method = \<lparr>cm_state = zc_state,
     cm_try_advance = (\<lambda>h endpoint. seqE (zhai_advance h (Some endpoint)) (ret True)),
     cm_reinitialize = (\<lambda>y _. zhai_reinitialize y),
     cm_step_size = (\<lambda>h. h), cm_reduce_after_rejection = (\<lambda>_. ret False), cm_accepted_step = (\<lambda>h. (False, h)),
     cm_reset = (\<lambda>h. h)\<rparr>"

subsection \<open>The advancer\<close>

record ('k, 'p, 'c) advancer =
  a_problem :: system_coordinate_problem
  a_policy :: 'p
  a_coordinate :: coordinate_state
  a_prepare :: "(coordinate_state \<Rightarrow> 'c outcome) option"
  a_core :: 'k
  a_public_state :: vec
  a_dense_start :: vec
  a_reference_q :: vec
  a_public_time :: double
  a_grid_anchor :: double
  a_grid_index :: u64
  a_successful_steps :: u64
  a_requires_reinitialization :: bool
  a_dense_interval :: "(double \<times> double) option"

record step_choice =
  sc_h :: double
  sc_end :: double
  sc_restart_grid :: bool

record internal_step =
  st_start :: double
  st_end :: double
  st_reached_stop :: bool

definition convert_uint64 :: "u64 \<Rightarrow> double" where
  "convert_uint64 w = Fin (real (unat w))"

definition choose_step :: "('k, 'p, 'c) coordinate_method \<Rightarrow> double \<Rightarrow> ('k, 'p, 'c) advancer \<Rightarrow> step_choice outcome" where
  "choose_step M stop a =
     (let time_underflow = Inl (CoordinateFailure CoordStepSizeUnderflow);
          planned = cm_step_size M (a_policy a);
          next_time = std_fma (convert_uint64 (a_grid_index a + 1)) planned (a_grid_anchor a)
      in if a_grid_index a = - 1 then time_underflow
         else if stop_can_use_nominal_step (a_public_time a) planned next_time stop
         then Inr \<lparr>sc_h = planned, sc_end = stop, sc_restart_grid = True\<rparr>
         else if stop < next_time then
           (let h = stop - a_public_time a in
            if planned < h \<or> \<not> endpoint_time_compatible (a_public_time a) h stop then time_underflow
            else Inr \<lparr>sc_h = h, sc_end = stop, sc_restart_grid = True\<rparr>)
         else if \<not> endpoint_time_compatible (a_public_time a) planned next_time then time_underflow
         else Inr \<lparr>sc_h = planned, sc_end = next_time, sc_restart_grid = False\<rparr>)"

text \<open>The classification of \<open>coordinate_numerical_failure.h\<close>; the second component is the core's reason code.\<close>

fun target_reason :: "coordinate_reason \<Rightarrow> numerical_reason \<times> int" where
  "target_reason CoordStepSizeUnderflow = (StepSizeUnderflow, 0)"
| "target_reason CoordNonFiniteState = (NonFiniteState, 1)"
| "target_reason CoordNonFiniteEvaluation = (NonFiniteRightHandSide, 2)"
| "target_reason CoordNonFiniteLinearSystem = (NonFiniteLinearSystem, 3)"
| "target_reason CoordSingularJacobian = (SingularLinearSystem, 4)"
| "target_reason CoordNonlinearConvergenceFailure = (NonlinearConvergenceFailure, 5)"

fun rethrow_coordinate_numerical_failure :: "exn \<Rightarrow> exn" where
  "rethrow_coordinate_numerical_failure (CoordinateFailure reason) =
     (let (target, code) = target_reason reason in NumericalFailure target code)"
| "rethrow_coordinate_numerical_failure e = e"

text \<open>\<open>while (!TryAdvance(core, step.h, step.end))\<close>; \<open>None\<close> would be a loop that never ends.\<close>

partial_function (option) attempt_loop ::
  "('k, 'p, 'c) coordinate_method \<Rightarrow> double \<Rightarrow> step_choice \<Rightarrow> 32 word \<Rightarrow> ('k, 'p, 'c) advancer
     \<Rightarrow> (step_choice outcome \<times> ('k, 'p, 'c) advancer) option" where
  "attempt_loop M stop step rejected a =
     (case cm_try_advance M (sc_h step) (sc_end step) (a_core a) of
        (Inl e, k) \<Rightarrow> Some (Inl e, a\<lparr>a_core := k\<rparr>)
      | (Inr advanced, k) \<Rightarrow>
          if advanced then Some (Inr step, a\<lparr>a_core := k\<rparr>)
          else (case cm_reduce_after_rejection M (sc_h step) (a_policy a) of
                  (Inl e, p) \<Rightarrow> Some (Inl e, a\<lparr>a_core := k, a_policy := p\<rparr>)
                | (Inr reduced, p) \<Rightarrow>
                    if \<not> reduced then
                      Some (Inl (NumericalFailure (if rejected + 1 = 1 then NonlinearConvergenceFailure
                                                   else RepeatedNonlinearConvergenceFailure) 5),
                            a\<lparr>a_core := k, a_policy := p\<rparr>)
                    else
                      (let a' = a\<lparr>a_core := k, a_policy := p, a_grid_anchor := a_public_time a, a_grid_index := 0\<rparr> in
                       case choose_step M stop a' of
                         Inl e \<Rightarrow> Some (Inl e, a')
                       | Inr step' \<Rightarrow> attempt_loop M stop step' (rejected + 1) a')))"

text \<open>From the accepted core step to the published physical state.\<close>

definition publish_step :: "('k, 'p, 'c) coordinate_method \<Rightarrow> double \<Rightarrow> step_choice \<Rightarrow> (('k, 'p, 'c) advancer, internal_step \<times> vec) effect" where
  "publish_step M stop step =
     seqE (modifyE (\<lambda>a. a\<lparr>a_coordinate := (a_coordinate a)\<lparr>cs_time := cs_time (k_accepted (cm_state M (a_core a)))\<rparr>\<rparr>)) (
     bindE (callE (\<lambda>a. core_copy_current_state (cm_state M (a_core a)) (int (length (cs_q (a_coordinate a))))
             (int (length (cs_s (a_coordinate a)))) (int (length (cs_z (a_coordinate a)))))) (\<lambda>(q, s, z).
     seqE (modifyE (\<lambda>a. a\<lparr>a_coordinate := (a_coordinate a)\<lparr>cs_q := q, cs_s := s, cs_z := z\<rparr>\<rparr>)) (
     bindE (callE (\<lambda>a. scp_copy_physical_state (a_problem a) (a_coordinate a))) (\<lambda>physical.
     bindE (readE a_public_time) (\<lambda>start.
     seqE (modifyE (\<lambda>a. a\<lparr>a_dense_start := a_public_state a, a_public_state := physical, a_public_time := sc_end step,
             a_dense_interval := Some (start, sc_end step)\<rparr>)) (
     seqE (modifyE (\<lambda>a. if sc_restart_grid step then a\<lparr>a_grid_anchor := sc_end step, a_grid_index := 0\<rparr>
                        else a\<lparr>a_grid_index := a_grid_index a + 1\<rparr>)) (
     seqE (modifyE (\<lambda>a. a\<lparr>a_successful_steps := a_successful_steps a + 1\<rparr>)) (
     seqE (modifyE (\<lambda>a. let (changed, p) = cm_accepted_step M (a_policy a) in
             if changed then a\<lparr>a_policy := p, a_grid_anchor := sc_end step, a_grid_index := 0\<rparr> else a\<lparr>a_policy := p\<rparr>)) (
     seqE (modifyE (\<lambda>a. a\<lparr>a_requires_reinitialization := False\<rparr>)) (
     bindE (readE a_public_state) (\<lambda>output.
     ret (\<lparr>st_start = start, st_end = sc_end step, st_reached_stop = feq (sc_end step) stop\<rparr>, output))))))))))))"

definition catch_coordinate_failure :: "('a outcome \<times> 's) \<Rightarrow> 'a outcome \<times> 's" where
  "catch_coordinate_failure x = (case x of (Inl e, s) \<Rightarrow> (Inl (rethrow_coordinate_numerical_failure e), s) | (Inr a, s) \<Rightarrow> (Inr a, s))"

definition advance_body ::
  "('k, 'p, 'c) coordinate_method \<Rightarrow> double \<Rightarrow> ('k, 'p, 'c) advancer
     \<Rightarrow> ((internal_step \<times> vec) outcome \<times> ('k, 'p, 'c) advancer) option" where
  "advance_body M stop a =
     (case choose_step M stop a of
        Inl e \<Rightarrow> Some (Inl e, a)
      | Inr step \<Rightarrow>
          (case attempt_loop M stop step 0 a of
             None \<Rightarrow> None
           | Some (Inl e, a') \<Rightarrow> Some (Inl e, a')
           | Some (Inr step', a') \<Rightarrow> Some (publish_step M stop step' a')))"

definition advancer_advance ::
  "('k, 'p, 'c) coordinate_method \<Rightarrow> double \<Rightarrow> int \<Rightarrow> ('k, 'p, 'c) advancer
     \<Rightarrow> ((internal_step \<times> vec) outcome \<times> ('k, 'p, 'c) advancer) option" where
  "advancer_advance M stop output_size a =
     (if \<not> isfinite stop \<or> stop < a_public_time a then Some (Inl InvalidArgument, a)
      else if output_size \<noteq> scp_physical_size (a_problem a) then Some (Inl InvalidArgument, a)
      else if a_requires_reinitialization a then Some (Inl LogicError, a)
      else if feq stop (a_public_time a) then
        Some (Inr (\<lparr>st_start = a_public_time a, st_end = a_public_time a, st_reached_stop = True\<rparr>, a_public_state a), a)
      else map_option catch_coordinate_failure
             (advance_body M stop (a\<lparr>a_requires_reinitialization := True, a_dense_interval := None\<rparr>)))"

definition make_advancer ::
  "system_coordinate_problem \<Rightarrow> double \<Rightarrow> vec \<Rightarrow> 'p \<Rightarrow> (coordinate_state \<Rightarrow> 'c outcome) option \<Rightarrow>
     (coordinate_problem \<Rightarrow> coordinate_state \<Rightarrow> 'k outcome) \<Rightarrow> ('k, 'p, 'c) advancer outcome" where
  "make_advancer problem time physical policy prepare make_core =
     bindS (scp_make_coordinate_state problem time physical) (\<lambda>coordinate.
     bindS (make_core (scp_problem problem) coordinate) (\<lambda>core.
     Inr \<lparr>a_problem = problem, a_policy = policy, a_coordinate = coordinate, a_prepare = prepare, a_core = core,
          a_public_state = physical, a_dense_start = replicate (nat (scp_physical_size problem)) 0,
          a_reference_q = cs_q coordinate, a_public_time = time, a_grid_anchor = time, a_grid_index = 0,
          a_successful_steps = 0, a_requires_reinitialization = False, a_dense_interval = None\<rparr>))"

definition advancer_reinitialize :: "('k, 'p, 'c) coordinate_method \<Rightarrow> double \<Rightarrow> vec \<Rightarrow> (('k, 'p, 'c) advancer, unit) effect" where
  "advancer_reinitialize M time physical =
     bindE (callE (\<lambda>a. scp_make_coordinate_state (a_problem a) time physical)) (\<lambda>initial.
     seqE (callE (\<lambda>a. cp_validate_initial (scp_problem (a_problem a)) time (cs_q initial) (cs_s initial) (cs_z initial))) (
     bindE (callE (\<lambda>a. case a_prepare a of None \<Rightarrow> Inr None | Some prepare \<Rightarrow> bindS (prepare initial) (\<lambda>c. Inr (Some c)))) (\<lambda>prepared.
     seqE (modifyE (\<lambda>a. a\<lparr>a_requires_reinitialization := True, a_dense_interval := None\<rparr>)) (
     seqE (\<lambda>a. let (r, k) = cm_reinitialize M initial prepared (a_core a) in (r, a\<lparr>a_core := k\<rparr>)) (
     modifyE (\<lambda>a. a\<lparr>a_policy := cm_reset M (a_policy a), a_coordinate := initial, a_reference_q := cs_q initial, a_public_state := physical,
       a_public_time := time, a_grid_anchor := time, a_grid_index := 0, a_successful_steps := 0,
       a_requires_reinitialization := False\<rparr>))))))"

definition copy_dense_state :: "double \<Rightarrow> int \<Rightarrow> ('k, 'p, 'c) advancer \<Rightarrow> vec outcome" where
  "copy_dense_state time output_size a =
     (if \<not> isfinite time then Inl InvalidArgument
      else if output_size \<noteq> scp_physical_size (a_problem a) then Inl InvalidArgument
      else case a_dense_interval a of
        None \<Rightarrow> Inl LogicError
      | Some (start, stop) \<Rightarrow>
          if time < start \<or> stop < time then Inl InvalidArgument
          else if feq time start then Inr (a_dense_start a)
          else if feq time stop then Inr (a_public_state a)
          else scp_interpolate (a_problem a) (a_reference_q a) (a_dense_start a) (a_public_state a)
                 ((time - start) / (stop - start)))"

definition advancer_statistics :: "('k, 'p, 'c) coordinate_method \<Rightarrow> ('k, 'p, 'c) advancer \<Rightarrow> integration_statistics" where
  "advancer_statistics M a = (k_statistics (cm_state M (a_core a)))\<lparr>is_successful_internal_steps := a_successful_steps a\<rparr>"

subsection \<open>Choosing a step\<close>

lemma compatible_facts:
  assumes "endpoint_time_compatible start h stop"
  shows "isfinite start" "isfinite h" "isfinite stop" "0 < h" "start < stop"
proof -
  obtain t k e where "start = Fin t" "h = Fin k" "stop = Fin e" "0 < k" "t < e"
    using assms by (rule endpoint_compatible_bounds)
  then show "isfinite start" "isfinite h" "isfinite stop" "0 < h" "start < stop" by simp_all
qed

text \<open>A chosen step moves forward, not past the stop, with a positive interval of at most the policy's.\<close>

definition step_fits :: "('k, 'p, 'c) coordinate_method \<Rightarrow> double \<Rightarrow> ('k, 'p, 'c) advancer \<Rightarrow> step_choice \<Rightarrow> bool" where
  "step_fits M stop a step \<longleftrightarrow> a_public_time a < sc_end step \<and> sc_end step \<le> stop \<and> isfinite (sc_end step) \<and>
     isfinite (sc_h step) \<and> 0 < sc_h step \<and> sc_h step \<le> cm_step_size M (a_policy a)"

lemma choose_step_fits:
  assumes "choose_step M stop a = Inr step" and "isfinite stop"
  shows "step_fits M stop a step"
proof -
  let ?t = "a_public_time a" and ?h = "cm_step_size M (a_policy a)"
  let ?n = "std_fma (convert_uint64 (a_grid_index a + 1)) ?h (a_grid_anchor a)"
  consider (window) "stop_can_use_nominal_step ?t ?h ?n stop" "step = \<lparr>sc_h = ?h, sc_end = stop, sc_restart_grid = True\<rparr>"
    | (short) "stop < ?n" "\<not> ?h < stop - ?t" "endpoint_time_compatible ?t (stop - ?t) stop"
        "step = \<lparr>sc_h = stop - ?t, sc_end = stop, sc_restart_grid = True\<rparr>"
    | (grid) "\<not> stop < ?n" "endpoint_time_compatible ?t ?h ?n" "step = \<lparr>sc_h = ?h, sc_end = ?n, sc_restart_grid = False\<rparr>"
    using assms(1) by (auto simp: choose_step_def Let_def split: if_splits)
  then show ?thesis
  proof cases
    case window
    then have "endpoint_time_compatible ?t ?h stop" by (simp add: stop_can_use_nominal_step_def Let_def split: if_splits)
    note c = compatible_facts [OF this]
    then show ?thesis using window by (cases stop; cases ?h) (auto simp: step_fits_def)
  next
    case short
    note c = compatible_facts [OF short(3)]
    obtain x where "stop = Fin x" using c(3) by (cases stop) auto
    moreover obtain y where "?t = Fin y" using c(1) by (cases ?t) auto
    ultimately show ?thesis using short c
      by (cases ?h) (auto simp: step_fits_def std_fma_def convert_uint64_def less_double_def less_eq_double_def
          times_double_def plus_double_def minus_double_def signed_inf_def split: if_splits)
  next
    case grid
    note c = compatible_facts [OF grid(2)]
    obtain x where "stop = Fin x" using assms(2) by (cases stop) auto
    moreover obtain y where "?n = Fin y" using c(3) by (cases ?n) auto
    moreover obtain z where "?h = Fin z" using c(2) by (cases ?h) auto
    ultimately show ?thesis using grid c by (auto simp: step_fits_def)
  qed
qed

subsection \<open>What an advance promises\<close>

definition advance_spec ::
  "('k, 'p, 'c) coordinate_method \<Rightarrow> double \<Rightarrow> ('k, 'p, 'c) advancer \<Rightarrow> (internal_step \<times> vec) outcome \<Rightarrow>
     ('k, 'p, 'c) advancer \<Rightarrow> bool" where
  "advance_spec M stop a r b \<longleftrightarrow>
     (case r of
        Inr (st, out) \<Rightarrow>
          out = a_public_state b \<and> st_start st = a_public_time a \<and> st_end st = a_public_time b \<and>
          (st_reached_stop st \<longleftrightarrow> feq (a_public_time b) stop) \<and>
          (if feq stop (a_public_time a) then b = a
           else a_public_time a < a_public_time b \<and> a_public_time b \<le> stop \<and>
             cs_time (k_accepted (cm_state M (a_core b))) = a_public_time b \<and>
             scp_copy_physical_state (a_problem a) (k_accepted (cm_state M (a_core b))) = Inr out \<and>
             a_dense_interval b = Some (a_public_time a, a_public_time b) \<and> a_dense_start b = a_public_state a \<and>
             a_successful_steps b = a_successful_steps a + 1 \<and> \<not> a_requires_reinitialization b)
      | Inl e \<Rightarrow>
          a_public_state b = a_public_state a \<and> a_public_time b = a_public_time a \<and>
          a_successful_steps b = a_successful_steps a \<and> (\<forall>reason. e \<noteq> CoordinateFailure reason) \<and>
          (b = a \<or> a_requires_reinitialization b \<and> a_dense_interval b = None))"

text \<open>The core and the policy satisfy their invariants, and the core stands at the published time.\<close>

definition advancer_wf ::
  "('k, 'p, 'c) coordinate_method \<Rightarrow> ('k \<Rightarrow> bool) \<Rightarrow> ('p \<Rightarrow> bool) \<Rightarrow> ('k, 'p, 'c) advancer \<Rightarrow> bool" where
  "advancer_wf M core_ok policy_ok a \<longleftrightarrow> core_ok (a_core a) \<and> policy_ok (a_policy a) \<and> isfinite (a_public_time a) \<and>
     (\<not> a_requires_reinitialization a \<longrightarrow> cs_time (k_accepted (cm_state M (a_core a))) = a_public_time a) \<and>
     (\<forall>s e. a_dense_interval a = Some (s, e) \<longrightarrow> isfinite s \<and> s < e \<and> e = a_public_time a)"

lemma rethrow_translates: "rethrow_coordinate_numerical_failure e \<noteq> CoordinateFailure reason"
  by (cases e) (auto split: prod.splits)

lemma publish_success:
  assumes "publish_step M stop step a = (Inr (st, out), b)"
  obtains physical where "scp_copy_physical_state (a_problem a) (k_accepted (cm_state M (a_core a))) = Inr physical"
    and "out = physical" and "a_public_state b = physical" and "a_public_time b = sc_end step" and "a_core b = a_core a"
    and "a_dense_interval b = Some (a_public_time a, sc_end step)" and "a_dense_start b = a_public_state a"
    and "a_successful_steps b = a_successful_steps a + 1" and "\<not> a_requires_reinitialization b"
    and "st = \<lparr>st_start = a_public_time a, st_end = sc_end step, st_reached_stop = feq (sc_end step) stop\<rparr>"
    and "a_policy b = snd (cm_accepted_step M (a_policy a))" and "a_problem b = a_problem a"
proof -
  obtain q s z physical where
    c: "core_copy_current_state (cm_state M (a_core a)) (int (length (cs_q (a_coordinate a)))) (int (length (cs_s (a_coordinate a))))
          (int (length (cs_z (a_coordinate a)))) = Inr (q, s, z)"
    and p: "scp_copy_physical_state (a_problem a)
          ((a_coordinate a)\<lparr>cs_time := cs_time (k_accepted (cm_state M (a_core a))), cs_q := q, cs_s := s, cs_z := z\<rparr>) = Inr physical"
    using assms by (auto simp: publish_step_def effect_outcome)
  have "q = cs_q (k_accepted (cm_state M (a_core a))) \<and> s = cs_s (k_accepted (cm_state M (a_core a))) \<and>
      z = cs_z (k_accepted (cm_state M (a_core a)))"
    using c by (auto simp: core_copy_current_state_def split: if_splits)
  then have "(a_coordinate a)\<lparr>cs_time := cs_time (k_accepted (cm_state M (a_core a))), cs_q := q, cs_s := s, cs_z := z\<rparr>
      = k_accepted (cm_state M (a_core a))" by simp
  then show thesis
    using assms c p
    by (intro that [of physical])
       (auto simp: publish_step_def effect_simps Let_def split: prod.splits if_splits)
qed

lemma publish_failure:
  assumes "publish_step M stop step a = (Inl e, b)"
  shows "\<exists>c. b = a\<lparr>a_coordinate := c\<rparr>"
proof -
  let ?y = "(a_coordinate a)\<lparr>cs_time := cs_time (k_accepted (cm_state M (a_core a)))\<rparr>"
  show ?thesis
  proof (cases "core_copy_current_state (cm_state M (a_core a)) (int (length (cs_q (a_coordinate a))))
      (int (length (cs_s (a_coordinate a)))) (int (length (cs_z (a_coordinate a))))")
    case (Inl x)
    then have "b = a\<lparr>a_coordinate := ?y\<rparr>" using assms by (simp add: publish_step_def effect_simps)
    then show ?thesis ..
  next
    case (Inr qsz)
    obtain q s z where qsz: "qsz = (q, s, z)" by (cases qsz) auto
    have "b = a\<lparr>a_coordinate := ?y\<lparr>cs_q := q, cs_s := s, cs_z := z\<rparr>\<rparr>"
      using assms Inr qsz
      by (cases "scp_copy_physical_state (a_problem a) (?y\<lparr>cs_q := q, cs_s := s, cs_z := z\<rparr>)")
         (simp_all add: publish_step_def effect_simps)
    then show ?thesis ..
  qed
qed

subsection \<open>The contract of a method\<close>

locale numerical_method =
  fixes M :: "('k, 'p, 'c) coordinate_method" and core_ok :: "'k \<Rightarrow> bool" and policy_ok :: "'p \<Rightarrow> bool"
    and rounds :: "'p \<Rightarrow> double \<Rightarrow> nat"
  assumes core_state_wf: "core_ok k \<Longrightarrow> core_wf (cm_state M k)"
    and try_ok: "core_ok k \<Longrightarrow> cm_try_advance M h e k = (r, k') \<Longrightarrow>
        core_ok k' \<and> k_problem (cm_state M k') = k_problem (cm_state M k)"
    and try_keeps: "core_ok k \<Longrightarrow> cm_try_advance M h e k = (r, k') \<Longrightarrow> r \<noteq> Inr True \<Longrightarrow>
        core_keeps (cm_state M k) (cm_state M k')"
    and try_accepts: "core_ok k \<Longrightarrow> cm_try_advance M h e k = (Inr True, k') \<Longrightarrow>
        cs_time (k_accepted (cm_state M k')) = e"
    and reduce_ok: "policy_ok p \<Longrightarrow> 0 < h \<Longrightarrow> h \<le> cm_step_size M p \<Longrightarrow>
        cm_reduce_after_rejection M h p = (r, p') \<Longrightarrow> policy_ok p'"
    and reduce_decreases: "policy_ok p \<Longrightarrow> cm_reduce_after_rejection M h p = (Inr True, p') \<Longrightarrow>
        0 < h' \<Longrightarrow> h' \<le> cm_step_size M p' \<Longrightarrow> rounds p' h' < rounds p h"
    and accepted_step_ok: "policy_ok p \<Longrightarrow> policy_ok (snd (cm_accepted_step M p))"
    and reset_ok: "policy_ok p \<Longrightarrow> policy_ok (cm_reset M p)"
    and reinitialize_ok: "core_ok k \<Longrightarrow> cm_reinitialize M y c k = (u, k') \<Longrightarrow>
        core_ok k' \<and> k_problem (cm_state M k') = k_problem (cm_state M k) \<and>
        (if u = Inr () then k_accepted (cm_state M k') = y else core_keeps (cm_state M k) (cm_state M k'))"
begin

text \<open>What the retry loop may touch: the core, the policy and the grid.\<close>

definition loop_frame :: "('k, 'p, 'c) advancer \<Rightarrow> ('k, 'p, 'c) advancer \<Rightarrow> bool" where
  "loop_frame a b \<longleftrightarrow> (\<exists>k p t i. b = a\<lparr>a_core := k, a_policy := p, a_grid_anchor := t, a_grid_index := i\<rparr>)"

definition attempt_spec ::
  "double \<Rightarrow> ('k, 'p, 'c) advancer \<Rightarrow> step_choice outcome \<Rightarrow> ('k, 'p, 'c) advancer \<Rightarrow> bool" where
  "attempt_spec stop a r b \<longleftrightarrow> loop_frame a b \<and> core_ok (a_core b) \<and> policy_ok (a_policy b) \<and>
     k_problem (cm_state M (a_core b)) = k_problem (cm_state M (a_core a)) \<and>
     (case r of
        Inr step \<Rightarrow> a_public_time a < sc_end step \<and> sc_end step \<le> stop \<and> isfinite (sc_end step) \<and>
          cs_time (k_accepted (cm_state M (a_core b))) = sc_end step
      | Inl _ \<Rightarrow> core_keeps (cm_state M (a_core a)) (cm_state M (a_core b)))"

lemma loop_frame_refl: "loop_frame a a"
  unfolding loop_frame_def
  by (rule exI [of _ "a_core a"], rule exI [of _ "a_policy a"], rule exI [of _ "a_grid_anchor a"],
      rule exI [of _ "a_grid_index a"]) simp

lemma loop_frame_trans: "loop_frame a b \<Longrightarrow> loop_frame b c \<Longrightarrow> loop_frame a c"
  by (auto simp: loop_frame_def) metis

text \<open>The retry loop always returns.\<close>

lemma attempt_loop_returns:
  assumes "core_ok (a_core a)" and "policy_ok (a_policy a)" and "step_fits M stop a step" and "isfinite stop"
  shows "\<exists>r b. attempt_loop M stop step n a = Some (r, b) \<and> attempt_spec stop a r b"
  using assms(1-3)
proof (induction "rounds (a_policy a) (sc_h step)" arbitrary: a step n rule: less_induct)
  case less
  obtain r k where t: "cm_try_advance M (sc_h step) (sc_end step) (a_core a) = (r, k)"
    by (cases "cm_try_advance M (sc_h step) (sc_end step) (a_core a)")
  note ok = try_ok [OF less.prems(1) t]
  have frame: "loop_frame a (a\<lparr>a_core := k, a_policy := p, a_grid_anchor := u, a_grid_index := i\<rparr>)" for p u i
    by (auto simp: loop_frame_def)
  have frame0: "loop_frame a (a\<lparr>a_core := k\<rparr>)" and frame1: "loop_frame a (a\<lparr>a_core := k, a_policy := p\<rparr>)" for p
    using frame [where p = "a_policy a" and u = "a_grid_anchor a" and i = "a_grid_index a"]
      frame [where p = p and u = "a_grid_anchor a" and i = "a_grid_index a"] by simp_all
  show ?case
  proof (cases "r = Inr True")
    case True
    have "attempt_loop M stop step n a = Some (Inr step, a\<lparr>a_core := k\<rparr>)"
      by (subst attempt_loop.simps) (simp add: t True)
    moreover have "attempt_spec stop a (Inr step) (a\<lparr>a_core := k\<rparr>)"
      using frame0 ok less.prems try_accepts [OF less.prems(1)] t True
      by (auto simp: attempt_spec_def step_fits_def)
    ultimately show ?thesis by blast
  next
    case notTrue: False
    note keeps = try_keeps [OF less.prems(1) t notTrue]
    show ?thesis
    proof (cases r)
      case (Inl e)
      have "attempt_loop M stop step n a = Some (Inl e, a\<lparr>a_core := k\<rparr>)"
        by (subst attempt_loop.simps) (simp add: t Inl)
      then show ?thesis using frame0 ok less.prems keeps by (auto simp: attempt_spec_def)
    next
      case (Inr advanced)
      then have r: "r = Inr False" using notTrue by simp
      obtain q p where d: "cm_reduce_after_rejection M (sc_h step) (a_policy a) = (q, p)"
        by (cases "cm_reduce_after_rejection M (sc_h step) (a_policy a)")
      have pok: "policy_ok p" using reduce_ok [OF less.prems(2) _ _ d] less.prems(3) by (simp add: step_fits_def)
      show ?thesis
      proof (cases "q = Inr True")
        case False
        then obtain e where "attempt_loop M stop step n a = Some (Inl e, a\<lparr>a_core := k, a_policy := p\<rparr>)"
          by (cases q) (auto simp: attempt_loop.simps [of M stop step n a] t r d)
        then show ?thesis using frame1 ok pok keeps by (auto simp: attempt_spec_def)
      next
        case True
        define b where "b = a\<lparr>a_core := k, a_policy := p, a_grid_anchor := a_public_time a, a_grid_index := 0\<rparr>"
        show ?thesis
        proof (cases "choose_step M stop b")
          case (Inl e)
          have "attempt_loop M stop step n a = Some (Inl e, b)"
            using Inl by (subst attempt_loop.simps) (simp add: t r d True Let_def b_def)
          then show ?thesis using frame ok pok keeps by (auto simp: attempt_spec_def b_def)
        next
          case (Inr step')
          have fits: "step_fits M stop b step'" using Inr assms(4) by (rule choose_step_fits)
          then have "rounds (a_policy b) (sc_h step') < rounds (a_policy a) (sc_h step)"
            using reduce_decreases [OF less.prems(2) d [unfolded True]] by (simp add: b_def step_fits_def)
          moreover have "core_ok (a_core b)" "policy_ok (a_policy b)" using ok pok by (simp_all add: b_def)
          ultimately obtain r2 c where c: "attempt_loop M stop step' (n + 1) b = Some (r2, c)" "attempt_spec stop b r2 c"
            using less.hyps fits by blast
          have run: "attempt_loop M stop step n a = Some (r2, c)"
            using Inr c(1) by (subst attempt_loop.simps) (simp add: t r d True Let_def b_def)
          have ab: "loop_frame a b" unfolding b_def by (rule frame)
          moreover have "core_keeps (cm_state M (a_core a)) (cm_state M (a_core b))" "a_public_time b = a_public_time a"
            using keeps by (simp_all add: b_def)
          ultimately have "attempt_spec stop a r2 c"
            using c(2) loop_frame_trans [OF ab]
            by (auto simp: attempt_spec_def core_keeps_def split: sum.splits)
          with run show ?thesis by blast
        qed
      qed
    qed
  qed
qed

end

context numerical_method
begin

abbreviation well_formed :: "('k, 'p, 'c) advancer \<Rightarrow> bool" where
  "well_formed \<equiv> advancer_wf M core_ok policy_ok"

definition same_problem :: "('k, 'p, 'c) advancer \<Rightarrow> ('k, 'p, 'c) advancer \<Rightarrow> bool" where
  "same_problem a b \<longleftrightarrow> k_problem (cm_state M (a_core b)) = k_problem (cm_state M (a_core a))"

lemma advance_outcome:
  assumes "well_formed a"
  shows "\<exists>r b. advancer_advance M stop n a = Some (r, b) \<and> advance_spec M stop a r b \<and> well_formed b \<and>
      same_problem a b"
proof -
  let ?a = "a\<lparr>a_requires_reinitialization := True, a_dense_interval := None\<rparr>"
  consider (early) e where "advancer_advance M stop n a = Some (Inl e, a)" "e = InvalidArgument \<or> e = LogicError"
    | (now) "feq stop (a_public_time a)" "advancer_advance M stop n a =
        Some (Inr (\<lparr>st_start = a_public_time a, st_end = a_public_time a, st_reached_stop = True\<rparr>, a_public_state a), a)"
    | (step) "isfinite stop" "\<not> feq stop (a_public_time a)" "\<not> a_requires_reinitialization a"
        "advancer_advance M stop n a = map_option catch_coordinate_failure (advance_body M stop ?a)"
  proof (cases "\<not> isfinite stop \<or> stop < a_public_time a \<or> n \<noteq> scp_physical_size (a_problem a) \<or> a_requires_reinitialization a")
    case True
    then have "advancer_advance M stop n a = Some (Inl InvalidArgument, a) \<or>
        advancer_advance M stop n a = Some (Inl LogicError, a)"
      by (auto simp: advancer_advance_def)
    then show thesis using early by blast
  next
    case False
    then show thesis using now step by (cases "feq stop (a_public_time a)") (simp_all add: advancer_advance_def)
  qed
  then show ?thesis
  proof cases
    case early
    then show ?thesis using assms by (auto simp: advance_spec_def same_problem_def)
  next
    case now
    then show ?thesis using assms by (auto simp: advance_spec_def feq_def same_problem_def)
  next
    case step
    have wf: "core_ok (a_core ?a)" "policy_ok (a_policy ?a)" "isfinite (a_public_time a)"
      using assms by (simp_all add: advancer_wf_def)
    have fail: "\<exists>r b. advancer_advance M stop n a = Some (r, b) \<and> advance_spec M stop a r b \<and> well_formed b \<and>
      same_problem a b"
      if body: "advance_body M stop ?a = Some (Inl e, b)" and ok: "core_ok (a_core b)" "policy_ok (a_policy b)" "same_problem a b"
        and same: "a_public_state b = a_public_state a" "a_public_time b = a_public_time a"
          "a_successful_steps b = a_successful_steps a" "a_requires_reinitialization b" "a_dense_interval b = None" for e b
      using step(4) body ok same wf rethrow_translates
      by (auto simp: catch_coordinate_failure_def advance_spec_def advancer_wf_def)
    show ?thesis
    proof (cases "choose_step M stop ?a")
      case (Inl e)
      then show ?thesis by (intro fail [of e ?a]) (use wf in \<open>simp_all add: advance_body_def same_problem_def\<close>)
    next
      case chosen: (Inr choice)
      obtain r b where run: "attempt_loop M stop choice 0 ?a = Some (r, b)" and spec: "attempt_spec stop ?a r b"
        using attempt_loop_returns [OF wf(1,2) choose_step_fits [OF chosen step(1)] step(1)] by blast
      obtain k p t i where b: "b = ?a\<lparr>a_core := k, a_policy := p, a_grid_anchor := t, a_grid_index := i\<rparr>"
        using spec by (auto simp: attempt_spec_def loop_frame_def)
      have ok: "core_ok (a_core b)" "policy_ok (a_policy b)" "same_problem a b"
        using spec by (simp_all add: attempt_spec_def same_problem_def)
      show ?thesis
      proof (cases r)
        case (Inl e)
        show ?thesis by (rule fail [of e b]) (use Inl chosen run ok in \<open>simp_all add: advance_body_def b\<close>)
      next
        case (Inr choice')
        have fits: "a_public_time a < sc_end choice'" "sc_end choice' \<le> stop" "isfinite (sc_end choice')"
          "cs_time (k_accepted (cm_state M (a_core b))) = sc_end choice'"
          using spec Inr by (simp_all add: attempt_spec_def)
        have body: "advance_body M stop ?a = Some (publish_step M stop choice' b)"
          using chosen run Inr by (simp add: advance_body_def)
        obtain r2 c where pub: "publish_step M stop choice' b = (r2, c)" by fastforce
        show ?thesis
        proof (cases r2)
          case (Inl e)
          obtain y where c: "c = b\<lparr>a_coordinate := y\<rparr>" using publish_failure pub Inl by blast
          show ?thesis by (rule fail [of e c]) (use body pub Inl ok in \<open>simp_all add: c same_problem_def, simp_all add: b\<close>)
        next
          case (Inr v)
          obtain st out where v: "v = (st, out)" by fastforce
          obtain physical where ph: "scp_copy_physical_state (a_problem b) (k_accepted (cm_state M (a_core b))) = Inr physical"
            and c: "out = physical" "a_public_state c = physical" "a_public_time c = sc_end choice'" "a_core c = a_core b"
              "a_dense_interval c = Some (a_public_time b, sc_end choice')" "a_dense_start c = a_public_state b"
              "a_successful_steps c = a_successful_steps b + 1" "\<not> a_requires_reinitialization c"
              "st = \<lparr>st_start = a_public_time b, st_end = sc_end choice', st_reached_stop = feq (sc_end choice') stop\<rparr>"
              "a_policy c = snd (cm_accepted_step M (a_policy b))"
            using publish_success [OF pub [unfolded Inr v]] by metis
          have fields: "a_problem b = a_problem a" "a_public_time b = a_public_time a" "a_public_state b = a_public_state a"
            "a_successful_steps b = a_successful_steps a" by (simp_all add: b)
          have "advancer_advance M stop n a = Some (Inr (st, out), c)"
            using step(4) body pub Inr v by (simp add: catch_coordinate_failure_def)
          moreover have "advance_spec M stop a (Inr (st, out)) c"
            using step(2) ph c fits fields by (simp add: advance_spec_def)
          moreover have "well_formed c"
            using c fits ok accepted_step_ok fields wf(3) by (auto simp: advancer_wf_def)
          moreover have "same_problem a c" using c(4) ok(3) by (simp add: same_problem_def)
          ultimately show ?thesis by blast
        qed
      qed
    qed
  qed
qed

text \<open>Reinitialization: refusals change nothing, a failing core keeps the public state.\<close>

lemma reinitialize_outcome:
  assumes "well_formed a" and "advancer_reinitialize M time physical a = (r, b)" and "isfinite time"
    and times: "\<And>y. scp_make_coordinate_state (a_problem a) time physical = Inr y \<Longrightarrow> cs_time y = time"
  shows "well_formed b \<and> same_problem a b \<and>
     (if r = Inr () then a_public_state b = physical \<and> a_public_time b = time \<and> a_dense_interval b = None \<and>
        \<not> a_requires_reinitialization b \<and>
        scp_make_coordinate_state (a_problem a) time physical = Inr (k_accepted (cm_state M (a_core b))) \<and>
        a_reference_q b = cs_q (k_accepted (cm_state M (a_core b)))
      else a_public_state b = a_public_state a \<and> a_public_time b = a_public_time a \<and>
        core_keeps (cm_state M (a_core a)) (cm_state M (a_core b)) \<and>
        (b = a \<or> a_requires_reinitialization b \<and> a_dense_interval b = None))"
proof -
  consider (refused) e where "r = Inl e" "b = a"
    | (ran) y c q k where "scp_make_coordinate_state (a_problem a) time physical = Inr y"
        "cm_reinitialize M y c (a_core a) = (q, k)" "r = q"
        "b = (if q = Inr () then a\<lparr>a_requires_reinitialization := False, a_dense_interval := None, a_core := k,
                a_policy := cm_reset M (a_policy a), a_coordinate := y, a_reference_q := cs_q y, a_public_state := physical,
                a_public_time := time, a_grid_anchor := time, a_grid_index := 0, a_successful_steps := 0\<rparr>
              else a\<lparr>a_requires_reinitialization := True, a_dense_interval := None, a_core := k\<rparr>)"
  proof (cases "scp_make_coordinate_state (a_problem a) time physical")
    case (Inl e)
    then show thesis using assms(2) refused [of e] by (simp add: advancer_reinitialize_def effect_simps)
  next
    case y: (Inr y)
    show thesis
    proof (cases "cp_validate_initial (scp_problem (a_problem a)) time (cs_q y) (cs_s y) (cs_z y)")
      case (Inl e)
      then show thesis using assms(2) refused [of e] y by (simp add: advancer_reinitialize_def effect_simps)
    next
      case v: (Inr u)
      show thesis
      proof (cases "case a_prepare a of None \<Rightarrow> Inr None | Some prepare \<Rightarrow> bindS (prepare y) (\<lambda>c. Inr (Some c))")
        case (Inl e)
        then show thesis using assms(2) refused [of e] y v by (simp add: advancer_reinitialize_def effect_simps)
      next
        case c: (Inr c)
        obtain q k where q: "cm_reinitialize M y c (a_core a) = (q, k)" by fastforce
        have run: "advancer_reinitialize M time physical a =
          (case q of Inl e \<Rightarrow> (Inl e, a\<lparr>a_requires_reinitialization := True, a_dense_interval := None, a_core := k\<rparr>)
           | Inr u \<Rightarrow> (Inr (), a\<lparr>a_requires_reinitialization := False, a_dense_interval := None, a_core := k,
                a_policy := cm_reset M (a_policy a), a_coordinate := y, a_reference_q := cs_q y, a_public_state := physical,
                a_public_time := time, a_grid_anchor := time, a_grid_index := 0, a_successful_steps := 0\<rparr>))"
          by (simp add: advancer_reinitialize_def bindE_run seqE_run callE_run modifyE_run y v c q split: sum.split)
        show thesis
          by (rule ran [OF y q]) (use assms(2) in \<open>simp_all add: run split: sum.splits if_splits\<close>, auto)
      qed
    qed
  qed
  then show ?thesis
  proof cases
    case refused
    then show ?thesis using assms(1) by (simp add: core_keeps_def same_problem_def)
  next
    case ran
    have "core_ok (a_core a)" "policy_ok (a_policy a)" "isfinite (a_public_time a)" using assms(1) by (simp_all add: advancer_wf_def)
    then show ?thesis
      using reinitialize_ok [OF _ ran(2)] reset_ok times [OF ran(1)] assms(3) ran by (simp add: advancer_wf_def same_problem_def)
  qed
qed

end

subsection \<open>The Newmark method\<close>

text \<open>The retry step stays between a 1024th of the nominal step and the nominal step.\<close>

definition recovery_ok :: "recovery_policy \<Rightarrow> bool" where
  "recovery_ok p \<longleftrightarrow> isfinite (rp_nominal_h p) \<and> isfinite (rp_h p) \<and> 0 < rp_nominal_h p \<and>
     rp_nominal_h p * kMinimumRetryFraction \<le> rp_h p \<and> rp_h p \<le> rp_nominal_h p"

text \<open>How many halvings are left before the floor: at most ten.\<close>

definition halvings_left :: "recovery_policy \<Rightarrow> double \<Rightarrow> nat" where
  "halvings_left p h = nat \<lfloor>log 2 (1024 * to_real h / to_real (rp_nominal_h p))\<rfloor>"

lemma recovery_okE:
  assumes "recovery_ok p"
  obtains n h where "rp_nominal_h p = Fin n" "rp_h p = Fin h" "0 < n" "n / 1024 \<le> h" "h \<le> n"
proof -
  obtain n where n: "rp_nominal_h p = Fin n" using assms by (cases "rp_nominal_h p") (auto simp: recovery_ok_def)
  obtain h where h: "rp_h p = Fin h" using assms by (cases "rp_h p") (auto simp: recovery_ok_def)
  show thesis using that n h assms by (auto simp: recovery_ok_def kMinimumRetryFraction_def)
qed

lemma reduce_cases:
  assumes "reduce_after_rejection attempted p = (r, p')"
  obtains "r \<noteq> Inr True" "p' = p\<lparr>rp_success_streak := 0\<rparr>"
    | "r = Inr True" "0 < half * attempted" "half * attempted < attempted"
      "\<not> half * attempted < rp_nominal_h p * kMinimumRetryFraction"
      "p' = p\<lparr>rp_success_streak := 0, rp_h := half * attempted\<rparr>"
  using assms by (auto simp: reduce_after_rejection_def effect_simps Let_def split: if_splits)

lemma recovery_reduce_ok:
  assumes "recovery_ok p" and "0 < h" and "h \<le> rp_h p" and "reduce_after_rejection h p = (r, p')"
  shows "recovery_ok p'"
  using assms(4)
proof (cases rule: reduce_cases)
  case 1
  then show ?thesis using assms(1) by (simp add: recovery_ok_def)
next
  case 2
  obtain n s where p: "rp_nominal_h p = Fin n" "rp_h p = Fin s" "0 < n" "n / 1024 \<le> s" "s \<le> n"
    using assms(1) by (rule recovery_okE)
  obtain x where x: "h = Fin x" using assms(2,3) p(2) by (cases h) (auto simp: less_eq_double_def less_double_def)
  show ?thesis using 2 p x assms(2,3) by (simp add: recovery_ok_def kMinimumRetryFraction_def)
qed

lemma recovery_reduce_decreases:
  assumes "recovery_ok p" and "reduce_after_rejection h p = (Inr True, p')" and "0 < h'" and "h' \<le> rp_h p'"
  shows "halvings_left p' h' < halvings_left p h"
  using assms(2)
proof (cases rule: reduce_cases)
  case 1
  then show ?thesis by simp
next
  case 2
  obtain n s where p: "rp_nominal_h p = Fin n" "rp_h p = Fin s" "0 < n" "n / 1024 \<le> s" "s \<le> n"
    using assms(1) by (rule recovery_okE)
  obtain x where x: "h = Fin x" using 2(2,3)
    by (cases h) (auto simp: less_double_def times_double_def signed_inf_def)
  obtain y where y: "h' = Fin y" using assms(3,4) 2(5) x by (cases h') (auto simp: less_eq_double_def less_double_def)
  have r: "n / 1024 \<le> x / 2" "0 < y" "y \<le> x / 2"
    using 2 p x y assms(3,4) by (auto simp: kMinimumRetryFraction_def)
  have "log 2 (1024 * y / n) \<le> log 2 (1024 * (x / 2) / n)"
    using r p by (subst log_le_cancel_iff) (auto simp: divide_right_mono)
  also have "1024 * (x / 2) / n = (1024 * x / n) / 2" by simp
  also have "log 2 \<dots> = log 2 (1024 * x / n) - 1"
    using r p by (subst log_divide) auto
  finally have step: "log 2 (1024 * y / n) \<le> log 2 (1024 * x / n) - 1" .
  have "2 \<le> 1024 * x / n" using r(1) p(3) by (simp add: field_simps)
  then have "1 \<le> log 2 (1024 * x / n)" by (subst le_log_iff) auto
  then have "nat \<lfloor>log 2 (1024 * y / n)\<rfloor> < nat \<lfloor>log 2 (1024 * x / n)\<rfloor>" using step by linarith
  then show ?thesis using 2(5) by (simp add: halvings_left_def p x y)
qed

lemma recovery_accepted_ok: "recovery_ok p \<Longrightarrow> recovery_ok (snd (accepted_step p))"
  by (erule recovery_okE) (auto simp: accepted_step_def recovery_ok_def kMinimumRetryFraction_def Let_def)

lemma recovery_reset_ok: "recovery_ok p \<Longrightarrow> recovery_ok (reset_policy p)"
  by (erule recovery_okE) (auto simp: reset_policy_def recovery_ok_def kMinimumRetryFraction_def)

lemma new_recovery_policy_ok: "isfinite h \<Longrightarrow> 0 < h \<Longrightarrow> recovery_ok (new_recovery_policy h)"
  by (cases h) (auto simp: new_recovery_policy_def recovery_ok_def kMinimumRetryFraction_def)

lemma newmark_try_outcome:
  assumes "newmark_try_advance lu h e c = (r, c')"
  shows "\<exists>q. newmark_advance lu h (Some e) c = (q, c') \<and> (r = Inr True \<longleftrightarrow> q = Inr Accepted)"
  using assms by (auto simp: newmark_try_advance_def effect_simps split: prod.splits sum.splits)

lemma newmark_reinitialize_wf:
  assumes "newmark_wf c" and "newmark_reinitialize y c = (r, c')"
  shows "newmark_wf c' \<and> k_problem (nm_state c') = k_problem (nm_state c) \<and>
     (if r = Inr () then k_accepted (nm_state c') = y else core_keeps (nm_state c) (nm_state c'))"
proof -
  have wf: "core_wf (nm_state c)" using assms(1) by (simp add: newmark_wf_def)
  obtain q k where q: "core_reinitialize y (nm_state c) = (q, k)" by fastforce
  have c: "r = q" "c' = c\<lparr>nm_state := k\<rparr>" using assms(2) q by (simp_all add: newmark_reinitialize_def on_core_def)
  show ?thesis
  proof (cases q)
    case (Inl e)
    note kept = core_reinitialize_failure(1) [OF q [unfolded Inl]]
    then show ?thesis using c Inl assms(1) core_wf_keeps [OF wf kept] by (simp add: newmark_wf_def core_keeps_def)
  next
    case (Inr u)
    note new = core_reinitialize_success [OF q [unfolded Inr]]
    show ?thesis using c Inr new assms(1) wf by (simp add: newmark_wf_def core_wf_def)
  qed
qed

interpretation newmark: numerical_method "newmark_method lu" "\<lambda>c. lu_sized lu \<and> newmark_wf c" recovery_ok halvings_left
  for lu :: lu_solver
proof (unfold_locales, goal_cases)
  case (1 k)
  then show ?case by (simp add: newmark_method_def newmark_wf_def)
next
  case (2 k h e r k')
  obtain q where q: "newmark_advance lu h (Some e) k = (q, k')"
    using newmark_try_outcome 2(2) by (fastforce simp: newmark_method_def)
  show ?case
  proof (cases "q = Inr Accepted")
    case True
    then show ?thesis using advance_accepted [OF q [unfolded True]] 2(1) by (simp add: newmark_method_def)
  next
    case False
    note kept = advance_not_accepted [OF q False]
    have "core_wf (nm_state k)" using 2(1) by (simp add: newmark_wf_def)
    then have "core_wf (nm_state k')" using kept(3) by (rule core_wf_keeps)
    then show ?thesis using kept 2(1) by (auto simp: newmark_method_def newmark_wf_def core_keeps_def)
  qed
next
  case (3 k h e r k')
  obtain q where q: "newmark_advance lu h (Some e) k = (q, k')" "r = Inr True \<longleftrightarrow> q = Inr Accepted"
    using newmark_try_outcome 3(2) by (fastforce simp: newmark_method_def)
  then show ?case using advance_not_accepted(3) [OF q(1)] 3(3) by (simp add: newmark_method_def)
next
  case (4 k h e k')
  obtain q where q: "newmark_advance lu h (Some e) k = (q, k')" "q = Inr Accepted"
    using newmark_try_outcome 4(2) by (fastforce simp: newmark_method_def)
  have "trapezoidal_endpoint k h (step_endpoint h (Some e) (nm_state k)) (k_accepted (nm_state k'))"
    using advance_accepted(2) [OF q(1) [unfolded q(2)]] 4(1) by blast
  then show ?case by (auto simp: newmark_method_def trapezoidal_endpoint_def Let_def step_endpoint_def)
next
  case (5 p h r p')
  then show ?case using recovery_reduce_ok by (simp add: newmark_method_def)
next
  case (6 p h p' h')
  then show ?case using recovery_reduce_decreases by (simp add: newmark_method_def)
next
  case (7 p)
  then show ?case using recovery_accepted_ok by (simp add: newmark_method_def)
next
  case (8 p)
  then show ?case using recovery_reset_ok by (simp add: newmark_method_def)
next
  case (9 k y c u k')
  show ?case
  proof (cases c)
    case None
    then show ?thesis using newmark_reinitialize_wf [of k y u k'] 9 by (simp add: newmark_method_def)
  next
    case (Some cfg)
    then show ?thesis using newmark_reinitialize_configured_outcome [of k y cfg u k'] 9
      by (auto simp: newmark_method_def split: if_splits)
  qed
qed

subsection \<open>The Zhai method\<close>

lemma zhai_try_outcome:
  assumes "seqE (zhai_advance h e) (ret True) c = (r, c')"
  shows "\<exists>q. zhai_advance h e c = (q, c') \<and> r \<noteq> Inr False \<and> (r = Inr True \<longleftrightarrow> q = Inr ())"
  using assms by (auto simp: effect_simps split: prod.splits sum.splits)

lemma zhai_reinitialize_wf:
  assumes "zhai_wf c" and "zhai_reinitialize y c = (r, c')"
  shows "zhai_wf c' \<and> k_problem (zc_state c') = k_problem (zc_state c) \<and>
     (if r = Inr () then k_accepted (zc_state c') = y else core_keeps (zc_state c) (zc_state c'))"
proof -
  have wf: "core_wf (zc_state c)" using assms(1) by (simp add: zhai_wf_def)
  obtain q k where q: "core_reinitialize y (zc_state c) = (q, k)" by fastforce
  show ?thesis
  proof (cases q)
    case (Inl e)
    note kept = core_reinitialize_failure(1) [OF q [unfolded Inl]]
    then show ?thesis using assms q Inl core_wf_keeps [OF wf kept]
      by (auto simp: zhai_reinitialize_def on_zhai_def effect_simps zhai_wf_def core_keeps_def)
  next
    case (Inr u)
    note new = core_reinitialize_success [OF q [unfolded Inr]]
    show ?thesis using assms q Inr new wf
      by (auto simp: zhai_reinitialize_def on_zhai_def effect_simps zhai_wf_def core_wf_def)
  qed
qed

lemma zhai_advance_problem:
  assumes "zhai_advance h e c = (r, c')"
  shows "k_problem (zc_state c') = k_problem (zc_state c)"
  using assms by (cases rule: zhai_advance_split) (auto simp: core_same_use_def core_keeps_def)

lemma zhai_advance_keeps:
  assumes "zhai_advance h e c = (r, c')" and "r \<noteq> Inr ()"
  shows "core_keeps (zc_state c) (zc_state c')"
  using assms by (cases rule: zhai_advance_split) (auto simp: core_same_use_def core_keeps_def)

lemma zhai_candidate_time: "cs_time (zhai_candidate c h t) = t"
  by (simp add: zhai_candidate_def zhai_normal_candidate_def zhai_startup_candidate_def Let_def)

lemma zhai_advance_time:
  assumes "zhai_advance h (Some t) c = (Inr (), c')"
  shows "cs_time (k_accepted (zc_state c')) = t"
  using assms by (cases rule: zhai_advance_split) (auto simp: zhai_candidate_time step_endpoint_def)

interpretation zhai: numerical_method zhai_method zhai_wf "\<lambda>h. True" "\<lambda>_ _. 0"
proof (unfold_locales, goal_cases)
  case (1 k)
  then show ?case by (simp add: zhai_method_def zhai_wf_def)
next
  case (2 k h e r k')
  then show ?case using zhai_advance_wf zhai_advance_problem by (auto simp: zhai_method_def dest!: zhai_try_outcome)
next
  case (3 k h e r k')
  obtain q where "zhai_advance h (Some e) k = (q, k')" "q \<noteq> Inr ()"
    using zhai_try_outcome 3(2,3) by (fastforce simp: zhai_method_def)
  then show ?case using zhai_advance_keeps by (simp add: zhai_method_def)
next
  case (4 k h e k')
  then show ?case using zhai_advance_time by (auto simp: zhai_method_def dest!: zhai_try_outcome)
next
  case (6 p h p' h')
  then show ?case by (simp add: zhai_method_def ret_run)
qed (use zhai_reinitialize_wf in \<open>auto simp: zhai_method_def\<close>)

subsection \<open>The two continuous-state advancers\<close>

definition make_newmark_advancer ::
  "system_coordinate_problem \<Rightarrow> coordinate_topology \<Rightarrow> double \<Rightarrow> vec \<Rightarrow> newmark_family_configuration \<Rightarrow>
     (newmark_core, recovery_policy, newmark_configuration) advancer outcome" where
  "make_newmark_advancer problem topology time physical c =
     bindS (make_coordinate_layout topology (cp_internal_state_size (scp_problem problem))) (\<lambda>layout.
     make_advancer problem time physical (new_recovery_policy (nfc_nominal_step_size c))
       (Some (\<lambda>y. expand_configuration layout c (cs_q y)))
       (\<lambda>p y. bindS (expand_configuration layout c (cs_q y)) (\<lambda>cfg. make_newmark_core p cfg y)))"

definition make_zhai_advancer ::
  "system_coordinate_problem \<Rightarrow> double \<Rightarrow> vec \<Rightarrow> double \<Rightarrow> (zhai_core, double, unit) advancer outcome" where
  "make_zhai_advancer problem time physical h =
     make_advancer problem time physical h None (\<lambda>p y. make_zhai_core p h y)"

definition newmark_advancer_wf :: "lu_solver \<Rightarrow> (newmark_core, recovery_policy, newmark_configuration) advancer \<Rightarrow> bool" where
  "newmark_advancer_wf lu = advancer_wf (newmark_method lu) (\<lambda>c. lu_sized lu \<and> newmark_wf c) recovery_ok"

definition zhai_advancer_wf :: "(zhai_core, double, unit) advancer \<Rightarrow> bool" where
  "zhai_advancer_wf = advancer_wf zhai_method zhai_wf (\<lambda>h. True)"

text \<open>Contract of the bridge: conversion keeps the time, the problem's callbacks keep their sizes.\<close>

definition bridge_ok :: "system_coordinate_problem \<Rightarrow> bool" where
  "bridge_ok scp \<longleftrightarrow> problem_ok (scp_problem scp) \<and>
     (\<forall>time physical y. scp_make_coordinate_state scp time physical = Inr y \<longrightarrow> cs_time y = time)"

lemma make_advancer_facts:
  assumes "make_advancer problem time physical policy prepare make_core = Inr a"
  obtains y core where "scp_make_coordinate_state problem time physical = Inr y" and "make_core (scp_problem problem) y = Inr core"
    and "a_core a = core" and "a_policy a = policy" and "a_public_time a = time" and "a_public_state a = physical"
    and "\<not> a_requires_reinitialization a" and "a_dense_interval a = None" and "a_problem a = problem" and "a_prepare a = prepare"
    and "a_successful_steps a = 0"
  using assms by (auto simp: make_advancer_def bindS_eq_Inr)

lemma make_newmark_advancer_wf:
  assumes "make_newmark_advancer problem topology time physical c = Inr a" and "bridge_ok problem" and "lu_sized lu"
  shows "newmark_advancer_wf lu a" and "a_public_time a = time" and "a_public_state a = physical" and "a_problem a = problem"
    and "\<not> a_requires_reinitialization a" and "a_dense_interval a = None"
proof -
  obtain layout where layout: "make_coordinate_layout topology (cp_internal_state_size (scp_problem problem)) = Inr layout"
    and mk: "make_advancer problem time physical (new_recovery_policy (nfc_nominal_step_size c))
       (Some (\<lambda>y. expand_configuration layout c (cs_q y)))
       (\<lambda>p y. bindS (expand_configuration layout c (cs_q y)) (\<lambda>cfg. make_newmark_core p cfg y)) = Inr a"
    using assms(1) by (auto simp: make_newmark_advancer_def bindS_eq_Inr)
  obtain y cfg core where y: "scp_make_coordinate_state problem time physical = Inr y"
    and ex: "expand_configuration layout c (cs_q y) = Inr cfg" and mc: "make_newmark_core (scp_problem problem) cfg y = Inr core"
    and f: "a_core a = core" "a_policy a = new_recovery_policy (nfc_nominal_step_size c)" "a_public_time a = time"
      "a_public_state a = physical" "\<not> a_requires_reinitialization a" "a_dense_interval a = None" "a_problem a = problem"
    using make_advancer_facts [OF mk] unfolding bindS_eq_Inr by metis
  have ok: "problem_ok (scp_problem problem)" "cs_time y = time" using assms(2) y by (auto simp: bridge_ok_def)
  note wf = make_newmark_core_wf [OF mc ok(1)]
  have "core_wf (nm_state core)" using wf by (simp add: newmark_wf_def)
  then have "isfinite time" using wf(2) ok(2) by (simp add: core_wf_def state_finite_def)
  moreover have "positive_finite (nfc_nominal_step_size c)"
    using ex validate_newmark_configuration_facts(1) by (auto simp: expand_configuration_def Let_def bindS_eq_Inr)
  then have "recovery_ok (new_recovery_policy (nfc_nominal_step_size c))"
    by (cases "nfc_nominal_step_size c") (auto simp: positive_finite_def intro!: new_recovery_policy_ok)
  ultimately show "newmark_advancer_wf lu a"
    using f wf ok assms(3) by (simp add: newmark_advancer_wf_def advancer_wf_def newmark_method_def)
  show "a_public_time a = time" "a_public_state a = physical" "a_problem a = problem" "\<not> a_requires_reinitialization a"
    "a_dense_interval a = None" using f by simp_all
qed

lemma make_zhai_advancer_wf:
  assumes "make_zhai_advancer problem time physical h = Inr a" and "bridge_ok problem"
  shows "zhai_advancer_wf a" and "a_public_time a = time" and "a_public_state a = physical" and "a_problem a = problem"
    and "\<not> a_requires_reinitialization a" and "a_dense_interval a = None"
proof -
  obtain y core where y: "scp_make_coordinate_state problem time physical = Inr y"
    and mc: "make_zhai_core (scp_problem problem) h y = Inr core"
    and f: "a_core a = core" "a_policy a = h" "a_public_time a = time"
      "a_public_state a = physical" "\<not> a_requires_reinitialization a" "a_dense_interval a = None" "a_problem a = problem"
    using make_advancer_facts assms(1) unfolding make_zhai_advancer_def by metis
  have ok: "problem_ok (scp_problem problem)" "cs_time y = time" using assms(2) y by (auto simp: bridge_ok_def)
  note wf = make_zhai_core_wf [OF mc ok(1)]
  have "core_wf (zc_state core)" using wf by (simp add: zhai_wf_def)
  then have "isfinite time" using wf(2) ok(2) by (simp add: core_wf_def state_finite_def)
  then show "zhai_advancer_wf a" using f wf ok by (simp add: zhai_advancer_wf_def advancer_wf_def zhai_method_def)
  show "a_public_time a = time" "a_public_state a = physical" "a_problem a = problem" "\<not> a_requires_reinitialization a"
    "a_dense_interval a = None" using f by simp_all
qed

subsection \<open>Properties\<close>

text \<open>C12: One internal step of the Newmark advancer always returns: the retry loop halves the step at most
  until the floor of a 1024th of the nominal step.  When it succeeds, the published time moves strictly
  forward, never past the stop, to where the core stands; the published state is the physical export of the
  core's accepted state; the dense interval joins the old and the new endpoint.  When it throws, published
  state and time are what they were, the failure is one of the backend-neutral classes, and either nothing
  changed or the advancer insists on reinitialization.  The invariant is kept in every case.\<close>

theorem newmark_advancer_step:
  assumes "newmark_advancer_wf lu a"
  shows "\<exists>r b. advancer_advance (newmark_method lu) stop n a = Some (r, b) \<and>
     advance_spec (newmark_method lu) stop a r b \<and> newmark_advancer_wf lu b"
  using newmark.advance_outcome [of lu a stop n] assms unfolding newmark_advancer_wf_def by blast

text \<open>The same for the Zhai advancer, whose fixed policy never retries.\<close>

theorem zhai_advancer_step:
  assumes "zhai_advancer_wf a"
  shows "\<exists>r b. advancer_advance zhai_method stop n a = Some (r, b) \<and>
     advance_spec zhai_method stop a r b \<and> zhai_advancer_wf b"
  using zhai.advance_outcome [of a stop n] assms unfolding zhai_advancer_wf_def by blast

text \<open>Reinitializing the Newmark advancer is a transaction: success publishes exactly the given time and
  state, with the core accepted at their coordinates and its projection reference there; a refusal before the
  core is reached changes nothing at all; a failing core keeps the published and the accepted state and asks
  for another reinitialization.\<close>

theorem newmark_advancer_reinitialize:
  assumes "newmark_advancer_wf lu a" and "bridge_ok (a_problem a)" and "isfinite time"
    and "advancer_reinitialize (newmark_method lu) time physical a = (r, b)"
  shows "newmark_advancer_wf lu b \<and>
     (if r = Inr () then a_public_state b = physical \<and> a_public_time b = time \<and> \<not> a_requires_reinitialization b \<and>
        scp_make_coordinate_state (a_problem a) time physical = Inr (k_accepted (nm_state (a_core b)))
      else a_public_state b = a_public_state a \<and> a_public_time b = a_public_time a \<and>
        core_keeps (nm_state (a_core a)) (nm_state (a_core b)) \<and> (b = a \<or> a_requires_reinitialization b))"
proof -
  have t: "\<And>y. scp_make_coordinate_state (a_problem a) time physical = Inr y \<Longrightarrow> cs_time y = time"
    using assms(2) by (auto simp: bridge_ok_def)
  have m: "cm_state (newmark_method lu) = nm_state" by (simp add: newmark_method_def)
  show ?thesis
    using newmark.reinitialize_outcome [OF assms(1) [unfolded newmark_advancer_wf_def] assms(4,3) t]
    by (auto simp: newmark_advancer_wf_def m split: if_splits)
qed

text \<open>Dense output never extrapolates and meets the step at both ends: it is available exactly after a step,
  refuses times outside the last interval, returns the old state at its start and the published state at its
  end, and interpolates with a fraction strictly between 0 and 1 in between.\<close>

theorem dense_output_endpoints:
  assumes "newmark_advancer_wf lu a" and "copy_dense_state time n a = r"
  shows "case a_dense_interval a of
      None \<Rightarrow> \<exists>e. r = Inl e
    | Some (s, e) \<Rightarrow>
        if \<not> isfinite time \<or> n \<noteq> scp_physical_size (a_problem a) \<or> time < s \<or> a_public_time a < time then r = Inl InvalidArgument
        else if time = s then r = Inr (a_dense_start a)
        else if time = a_public_time a then r = Inr (a_public_state a)
        else (\<exists>fraction. 0 < fraction \<and> fraction < 1 \<and>
               r = scp_interpolate (a_problem a) (a_reference_q a) (a_dense_start a) (a_public_state a) fraction)"
proof (cases "a_dense_interval a")
  case None
  then show ?thesis using assms(2) by (auto simp: copy_dense_state_def split: if_splits)
next
  case (Some se)
  then obtain s where se: "se = (s, a_public_time a)" and lt: "s < a_public_time a" and fin: "isfinite (a_public_time a)"
    and sfin: "isfinite s"
    using assms(1) by (cases se) (auto simp: newmark_advancer_wf_def advancer_wf_def)
  obtain e where e: "a_public_time a = Fin e" using fin by (cases "a_public_time a") auto
  show ?thesis
  proof (cases "\<not> isfinite time \<or> n \<noteq> scp_physical_size (a_problem a) \<or> time < s \<or> a_public_time a < time")
    case True
    then show ?thesis using assms(2) by (auto simp: copy_dense_state_def Some se)
  next
    case False
    then obtain t where t: "time = Fin t" by (cases time) auto
    obtain u where "s = Fin u" using sfin by (cases s) auto
    moreover have "Fin 0 < Fin ((t - u) / (e - u)) \<and> Fin ((t - u) / (e - u)) < Fin 1" if "u < t" "t < e"
      using that by simp
    ultimately show ?thesis using False assms(2) lt
      by (cases "t = u"; cases "t = e") (auto simp: copy_dense_state_def Some se t e intro!: exI [of _ "Fin ((t - u) / (e - u))"])
  qed
qed

subsection \<open>A falling mass\<close>

definition example_bridge :: system_coordinate_problem where
  "example_bridge = \<lparr>scp_problem = falling_problem, scp_physical_size = 2,
     scp_make_coordinate_state = (\<lambda>t ph. Inr \<lparr>cs_time = t, cs_q = take 1 ph, cs_s = drop 1 ph, cs_z = []\<rparr>),
     scp_copy_physical_state = (\<lambda>y. Inr (cs_q y @ cs_s y)), scp_interpolate = (\<lambda>_ s _ _. Inr s)\<rparr>"

definition example_rail_topology :: coordinate_topology where
  "example_rail_topology = \<lparr>ct_position_count = 1, ct_free_body_ranges = [None], ct_joints = [(Prismatic, 0, 1)]\<rparr>"

lemma example_bridge_ok: "bridge_ok example_bridge"
  by (auto simp: bridge_ok_def example_bridge_def falling_problem_ok)

lemma example_newmark_advancer:
  "\<exists>a. make_newmark_advancer example_bridge example_rail_topology 0 [Fin 1, Fin 0] example_family_configuration = Inr a"
proof -
  have l: "make_coordinate_layout example_rail_topology 0 =
      Inr \<lparr>cl_nq = 1, cl_nz = 0, cl_blocks = [\<lparr>cb_start = 0, cb_size = 1, cb_family = FamilyTranslation\<rparr>]\<rparr>"
    by (simp add: make_coordinate_layout_def example_rail_topology_def add_free_body_def add_joint_def add_block_def int_max_def
        put_segment_def segment_def)
  have f: "block_factor q \<lparr>cb_start = i, cb_size = k, cb_family = FamilyTranslation\<rparr> = Inr 1" for q i k
    by (simp add: block_factor_def)
  show ?thesis
    by (simp add: make_newmark_advancer_def example_bridge_def falling_problem_def example_problem_def l make_advancer_def
        expand_configuration_def example_family_configuration_def Let_def validate_newmark_configuration_def validate_family_def
        require_positive_def expand_block_def f family_scales_def put_scale_def put_segment_def make_newmark_core_def
        validate_configuration_def validate_scale_def int_max_def make_core_state_def core_reinitialize_def validate_initial_def
        state_sized_def state_finite_def effect_simps on_exception_def core_evaluate_def store_candidate_derivatives_def)
qed

lemma example_zhai_advancer: "\<exists>a. make_zhai_advancer example_bridge 0 [Fin 1, Fin 0] (Fin (1 / 100)) = Inr a"
  by (simp add: make_zhai_advancer_def example_bridge_def falling_problem_def example_problem_def make_advancer_def make_zhai_core_def
      Let_def int_max_def make_core_state_def core_reinitialize_def validate_initial_def
      state_sized_def state_finite_def effect_simps on_exception_def core_evaluate_def store_candidate_derivatives_def)

theorem newmark_advancer_step_witness:
  "\<exists>a r b. make_newmark_advancer example_bridge example_rail_topology 0 [Fin 1, Fin 0] example_family_configuration = Inr a \<and>
     advancer_advance (newmark_method lazy_lu) 1 2 a = Some (r, b) \<and> advance_spec (newmark_method lazy_lu) 1 a r b"
proof -
  obtain a where a: "make_newmark_advancer example_bridge example_rail_topology 0 [Fin 1, Fin 0] example_family_configuration = Inr a"
    using example_newmark_advancer by blast
  have "newmark_advancer_wf lazy_lu a" using a example_bridge_ok lazy_lu_sized by (rule make_newmark_advancer_wf(1))
  from newmark_advancer_step [OF this, of 1 2] a show ?thesis by blast
qed

theorem zhai_advancer_step_witness:
  "\<exists>a r b. make_zhai_advancer example_bridge 0 [Fin 1, Fin 0] (Fin (1 / 100)) = Inr a \<and>
     advancer_advance zhai_method 1 2 a = Some (r, b) \<and> advance_spec zhai_method 1 a r b"
proof -
  obtain a where a: "make_zhai_advancer example_bridge 0 [Fin 1, Fin 0] (Fin (1 / 100)) = Inr a"
    using example_zhai_advancer by blast
  have "zhai_advancer_wf a" using a example_bridge_ok by (rule make_zhai_advancer_wf(1))
  from zhai_advancer_step [OF this, of 1 2] a show ?thesis by blast
qed

theorem newmark_advancer_reinitialize_witness:
  "\<exists>a r b. make_newmark_advancer example_bridge example_rail_topology 0 [Fin 1, Fin 0] example_family_configuration = Inr a \<and>
     advancer_reinitialize (newmark_method lazy_lu) 3 [Fin 2, Fin 0] a = (r, b) \<and> newmark_advancer_wf lazy_lu b"
proof -
  obtain a where a: "make_newmark_advancer example_bridge example_rail_topology 0 [Fin 1, Fin 0] example_family_configuration = Inr a"
    using example_newmark_advancer by blast
  have wf: "newmark_advancer_wf lazy_lu a" using a example_bridge_ok lazy_lu_sized by (rule make_newmark_advancer_wf(1))
  have br: "bridge_ok (a_problem a)"
    using example_bridge_ok make_newmark_advancer_wf(4) [OF a example_bridge_ok lazy_lu_sized] by simp
  obtain r b where rb: "advancer_reinitialize (newmark_method lazy_lu) 3 [Fin 2, Fin 0] a = (r, b)" by fastforce
  have "isfinite (3 :: double)" by simp
  from newmark_advancer_reinitialize [OF wf br this rb] a rb show ?thesis by blast
qed

theorem dense_output_endpoints_witness:
  "\<exists>a e. make_newmark_advancer example_bridge example_rail_topology 0 [Fin 1, Fin 0] example_family_configuration = Inr a \<and>
     copy_dense_state 0 2 a = Inl e"
proof -
  obtain a where a: "make_newmark_advancer example_bridge example_rail_topology 0 [Fin 1, Fin 0] example_family_configuration = Inr a"
    using example_newmark_advancer by blast
  note w = make_newmark_advancer_wf [OF a example_bridge_ok lazy_lu_sized]
  from dense_output_endpoints [OF w(1) refl, of 0 2] a show ?thesis by (auto simp: w(6))
qed

end
