(* ===== verification/System_Coordinate_Problem.thy ===== *)
theory System_Coordinate_Problem
  imports System_Assembly Coordinate_Advancer
begin

section \<open>integrators: the compiled system as a coordinate problem\<close>

text \<open>
  Models \<open>system_rhs_bridge.cc\<close> and \<open>system_coordinate_problem.cc\<close>: the two views of one compiled
  system the numerical methods work on.  The mutable objects of the bridge are its trial context, on which the
  physics is evaluated, and its geometry context, on which coordinates are validated and converted; they are
  the record \<open>bridge_state\<close>, and every member function is an effect on it.  The private work vectors are local
  values.  \<open>system_problem\<close> is the bridge as the coordinate cores see it: each callback run from a given state.
  That the state left by other callbacks does not matter is proved (\<open>callbacks_forget_history\<close>).
\<close>

subsection \<open>The right-hand side\<close>

text \<open>\<open>SystemRhsBridge::CalcTimeDerivatives\<close> as an effect on the trial context.\<close>

definition rhs_calc_time_derivatives ::
  "rotations \<Rightarrow> system_instance \<Rightarrow> double \<Rightarrow> vec \<Rightarrow> nat \<Rightarrow> (system_context, vec) effect" where
  "rhs_calc_time_derivatives rot sys time x output_size =
     seqE (rejectE (\<lambda>_. length x \<noteq> continuous_state_size sys) InvalidArgument) (
     seqE (rejectE (\<lambda>_. output_size \<noteq> continuous_state_size sys) InvalidArgument) (
     seqE (set_time_and_continuous_state sys time x) (
     callE (\<lambda>c. calc_state_time_derivatives rot sys c (continuous_state_size sys)))))"

subsection \<open>The bridge\<close>

record bridge_state =
  br_trial :: system_context
  br_geometry :: multibody_context

definition on_trial :: "(system_context, 'a) effect \<Rightarrow> (bridge_state, 'a) effect" where
  "on_trial m p = (let (r, c) = m (br_trial p) in (r, p\<lparr>br_trial := c\<rparr>))"

definition on_geometry :: "(multibody_context, 'a) effect \<Rightarrow> (bridge_state, 'a) effect" where
  "on_geometry m p = (let (r, g) = m (br_geometry p) in (r, p\<lparr>br_geometry := g\<rparr>))"

abbreviation quaternion_starts :: "system_instance \<Rightarrow> nat list" where
  "quaternion_starts sys \<equiv> mm_quaternion_starts (si_model sys)"

definition make_bridge :: "system_instance \<Rightarrow> system_context \<Rightarrow> bridge_state outcome" where
  "make_bridge sys trial =
     bindS (component_view sys trial (multibody_component sys)) (\<lambda>_.
     let nq = mm_nq (si_model sys); nv = mm_nv (si_model sys);
         q = positions_range sys; v = velocities_range sys; z = series_range sys in
     bindS (reject_if (nq \<le> 0 \<or> range_start q \<noteq> 0 \<or> int (range_size q) \<noteq> nq \<or> int (range_start v) \<noteq> nq \<or>
              int (range_size v) \<noteq> nv \<or> int (range_start z) \<noteq> nq + nv \<or>
              range_start z + range_size z \<noteq> continuous_state_size sys) InvalidArgument) (\<lambda>_.
     bindS (all_checks (map (\<lambda>start. reject_if (nq - 7 < int start) InvalidArgument) (quaternion_starts sys))) (\<lambda>_.
     bindS (create_default_context (si_model sys)) (\<lambda>geometry.
     Inr \<lparr>br_trial = trial, br_geometry = geometry\<rparr>))))"

definition require_finite_mapping :: "vec \<Rightarrow> unit outcome" where
  "require_finite_mapping result = reject_if (\<not> all_finite result) (CoordinateFailure CoordNonFiniteEvaluation)"

definition validate_coordinates :: "system_instance \<Rightarrow> double \<Rightarrow> vec \<Rightarrow> vec \<Rightarrow> vec \<Rightarrow> unit outcome" where
  "validate_coordinates sys time q s z =
     reject_if (\<not> isfinite time \<or> length q \<noteq> si_nq sys \<or> length s \<noteq> si_nq sys \<or> length z \<noteq> si_nz sys \<or>
       \<not> all_finite q \<or> \<not> all_finite s \<or> \<not> all_finite z) InvalidArgument"

text \<open>\<open>v = N\<^sup>+(q) s\<close> and \<open>s = N(q) v\<close> at the positions of the geometry context.\<close>

definition recover_velocity :: "system_instance \<Rightarrow> vec \<Rightarrow> vec \<Rightarrow> (bridge_state, vec) effect" where
  "recover_velocity sys q s =
     seqE (on_geometry (model_set_generalized_positions (si_model sys) q)) (
     callE (\<lambda>p. bindS (map_position_derivatives_to_velocities (si_model sys) (br_geometry p) s (int (si_nv sys))) (\<lambda>v.
       bindS (require_finite_mapping v) (\<lambda>_. Inr v))))"

definition map_velocity :: "system_instance \<Rightarrow> vec \<Rightarrow> (bridge_state, vec) effect" where
  "map_velocity sys v =
     callE (\<lambda>p. bindS (map_velocities_to_position_derivatives (si_model sys) (br_geometry p) v (int (si_nq sys))) (\<lambda>s.
       bindS (require_finite_mapping s) (\<lambda>_. Inr s)))"

definition bridge_make_coordinate_state :: "system_instance \<Rightarrow> double \<Rightarrow> vec \<Rightarrow> (bridge_state, coordinate_state) effect" where
  "bridge_make_coordinate_state sys time physical =
     (let q = segment 0 (si_nq sys) physical; v = segment (si_nq sys) (si_nv sys) physical in
     seqE (rejectE (\<lambda>_. \<not> isfinite time \<or> length physical \<noteq> continuous_state_size sys \<or> \<not> all_finite physical) InvalidArgument) (
     seqE (on_geometry (model_set_generalized_state (si_model sys) q v)) (
     bindE (map_velocity sys v) (\<lambda>s.
     ret \<lparr>cs_time = time, cs_q = q, cs_s = s, cs_z = segment (si_nq sys + si_nv sys) (si_nz sys) physical\<rparr>))))"

definition bridge_copy_physical_state :: "system_instance \<Rightarrow> coordinate_state \<Rightarrow> nat \<Rightarrow> (bridge_state, vec) effect" where
  "bridge_copy_physical_state sys y output_size =
     seqE (rejectE (\<lambda>_. output_size \<noteq> continuous_state_size sys) InvalidArgument) (
     seqE (callE (\<lambda>_. validate_coordinates sys (cs_time y) (cs_q y) (cs_s y) (cs_z y))) (
     bindE (recover_velocity sys (cs_q y) (cs_s y)) (\<lambda>v.
     seqE (map_velocity sys v) (
     ret (cs_q y @ v @ cs_z y)))))"

subsection \<open>Quaternion blocks\<close>

definition vec_norm :: "vec \<Rightarrow> double" where
  "vec_norm xs = std_sqrt (squared_norm xs)"

definition vec_dot :: "vec \<Rightarrow> vec \<Rightarrow> double" where
  "vec_dot xs ys = foldl (+) 0 (map2 (*) xs ys)"

definition normalized :: "vec \<Rightarrow> vec" where
  "normalized xs = (if 0 < squared_norm xs then map (\<lambda>x. x / vec_norm xs) xs else xs)"

definition std_lerp :: "double \<Rightarrow> double \<Rightarrow> double \<Rightarrow> double" where
  "std_lerp a b t = a + t * (b - a)"

definition blend_quaternions :: "vec \<Rightarrow> vec \<Rightarrow> vec \<Rightarrow> double \<Rightarrow> vec" where
  "blend_quaternions reference start stop fraction =
     (let first = normalized start;
          second = normalized stop;
          nearest = (if vec_dot first second < 0 then map uminus second else second);
          blended = map2 (\<lambda>a b. std_lerp a b fraction) first nearest
      in map (\<lambda>x. x * vec_norm reference) (normalized blended))"

definition bridge_interpolate ::
  "system_instance \<Rightarrow> vec \<Rightarrow> vec \<Rightarrow> vec \<Rightarrow> double \<Rightarrow> nat \<Rightarrow> (bridge_state, vec) effect" where
  "bridge_interpolate sys reference start stop fraction output_size =
     (let n = continuous_state_size sys; set_positions = (\<lambda>q. on_geometry (model_set_generalized_positions (si_model sys) q)) in
     seqE (rejectE (\<lambda>_. length reference \<noteq> si_nq sys \<or> length start \<noteq> n \<or> length stop \<noteq> n \<or> output_size \<noteq> n \<or>
       \<not> all_finite reference \<or> \<not> all_finite start \<or> \<not> all_finite stop \<or> \<not> isfinite fraction \<or>
       fraction < 0 \<or> 1 < fraction) InvalidArgument) (
     seqE (set_positions reference) (
     seqE (set_positions (segment 0 (si_nq sys) start)) (
     seqE (set_positions (segment 0 (si_nq sys) stop)) (
     if feq fraction 0 then ret start
     else if feq fraction 1 then ret stop
     else
       (let linear = map2 (\<lambda>a b. std_lerp a b fraction) start stop;
            work = foldl (\<lambda>w k. put_segment k
              (blend_quaternions (segment k 4 reference) (segment k 4 start) (segment k 4 stop) fraction) w)
              linear (quaternion_starts sys) in
        seqE (callE (\<lambda>_. require_finite_mapping work)) (
        seqE (set_positions (segment 0 (si_nq sys) work)) (
        ret work))))))))"

subsection \<open>The callbacks of the coordinate problem\<close>

definition kTangencyTolerance :: double where
  "kTangencyTolerance = 64 * double_epsilon"

definition tangent_rate :: "vec \<Rightarrow> vec \<Rightarrow> unit outcome" where
  "tangent_rate q rate =
     (let unit_q = map (\<lambda>x. x / vec_norm q) q; radial = vec_dot unit_q rate; scale = std_max 1 (vec_norm rate) in
      reject_if (\<not> isfinite radial \<or> kTangencyTolerance * scale < \<bar>radial\<bar>) InvalidArgument)"

definition bridge_validate_initial :: "system_instance \<Rightarrow> double \<Rightarrow> vec \<Rightarrow> vec \<Rightarrow> vec \<Rightarrow> (bridge_state, unit) effect" where
  "bridge_validate_initial sys time q s z =
     seqE (callE (\<lambda>_. validate_coordinates sys time q s z)) (
     bindE (recover_velocity sys q s) (\<lambda>v.
     seqE (map_velocity sys v) (
     callE (\<lambda>_. all_checks (map (\<lambda>k. tangent_rate (segment k 4 q) (segment k 4 s)) (quaternion_starts sys))))))"

text \<open>The two outputs are different values here; in memory they may not overlap.\<close>

definition bridge_evaluate ::
  "rotations \<Rightarrow> system_instance \<Rightarrow> double \<Rightarrow> vec \<Rightarrow> vec \<Rightarrow> vec \<Rightarrow> nat \<Rightarrow> nat \<Rightarrow> (bridge_state, vec \<times> vec) effect" where
  "bridge_evaluate rot sys time q s z b_size g_size =
     seqE (rejectE (\<lambda>_. b_size \<noteq> si_nq sys \<or> g_size \<noteq> si_nz sys) InvalidArgument) (
     seqE (callE (\<lambda>_. validate_coordinates sys time q s z)) (
     bindE (recover_velocity sys q s) (\<lambda>v.
     bindE (on_trial (rhs_calc_time_derivatives rot sys time (q @ v @ z) (continuous_state_size sys))) (\<lambda>dx.
     seqE (callE (\<lambda>_. require_finite_mapping dx)) (
     bindE (callE (\<lambda>p. bindS (component_view sys (br_trial p) (multibody_component sys)) (\<lambda>component.
       map_accelerations_to_second_derivatives (si_model sys) component (segment (si_nq sys) (si_nv sys) dx) (int (si_nq sys))))) (\<lambda>b.
     ret (b, segment (si_nq sys + si_nv sys) (si_nz sys) dx)))))))"

definition restore_norm :: "vec \<Rightarrow> vec \<Rightarrow> vec" where
  "restore_norm reference q = map (\<lambda>x. x / vec_norm q * vec_norm reference) q"

definition bridge_project :: "system_instance \<Rightarrow> vec \<Rightarrow> vec \<Rightarrow> vec \<Rightarrow> (bridge_state, bool \<times> vec \<times> vec) effect" where
  "bridge_project sys reference q s =
     (let set_positions = (\<lambda>q. on_geometry (model_set_generalized_positions (si_model sys) q)); starts = quaternion_starts sys in
     seqE (rejectE (\<lambda>_. length reference \<noteq> si_nq sys \<or> length q \<noteq> si_nq sys \<or> length s \<noteq> si_nq sys \<or>
       \<not> all_finite reference \<or> \<not> all_finite q \<or> \<not> all_finite s) InvalidArgument) (
     seqE (set_positions reference) (
     bindE (recover_velocity sys q s) (\<lambda>v.
     let q_work = foldl (\<lambda>w k. put_segment k (restore_norm (segment k 4 reference) (segment k 4 w)) w) q starts in
     seqE (set_positions q_work) (
     bindE (map_velocity sys v) (\<lambda>mapped.
     ret (list_ex (\<lambda>k. list_ex (\<lambda>(x, y). \<not> feq x y) (zip (segment k 4 q) (segment k 4 q_work)) \<or>
                       list_ex (\<lambda>(x, y). \<not> feq x y) (zip (segment k 4 s) (segment k 4 mapped))) starts,
          foldl (\<lambda>w k. put_segment k (segment k 4 q_work) w) q starts,
          foldl (\<lambda>w k. put_segment k (segment k 4 mapped) w) s starts)))))))"

text \<open>\<open>SynchronizeContextLocalDataFrom\<close>\<close>

definition bridge_synchronize :: "system_instance \<Rightarrow> system_context \<Rightarrow> (bridge_state, unit) effect" where
  "bridge_synchronize sys source = on_trial (copy_context_local_data sys source)"

definition system_problem :: "rotations \<Rightarrow> system_instance \<Rightarrow> bridge_state \<Rightarrow> system_coordinate_problem" where
  "system_problem rot sys p = \<lparr>scp_problem =
       \<lparr>cp_coordinate_size = int (si_nq sys), cp_internal_state_size = int (si_nz sys),
        cp_validate_initial = (\<lambda>t q s z. fst (bridge_validate_initial sys t q s z p)),
        cp_evaluate = (\<lambda>t q s z. fst (bridge_evaluate rot sys t q s z (si_nq sys) (si_nz sys) p)),
        cp_project_endpoint = (\<lambda>r q s. fst (bridge_project sys r q s p))\<rparr>,
     scp_physical_size = int (continuous_state_size sys),
     scp_make_coordinate_state = (\<lambda>t physical. fst (bridge_make_coordinate_state sys t physical p)),
     scp_copy_physical_state = (\<lambda>y. fst (bridge_copy_physical_state sys y (continuous_state_size sys) p)),
     scp_interpolate = (\<lambda>r s e fraction. fst (bridge_interpolate sys r s e fraction (continuous_state_size sys) p))\<rparr>"

subsection \<open>Overwriting disjoint blocks\<close>

definition disjoint_blocks :: "nat list \<Rightarrow> bool" where
  "disjoint_blocks = sorted_wrt (\<lambda>i j. i + 4 \<le> j \<or> j + 4 \<le> i)"

lemma segment_put_disjoint:
  assumes "j + m \<le> k \<or> k + length ys \<le> j" and "k + length ys \<le> length xs"
  shows "segment j m (put_segment k ys xs) = segment j m xs"
  using assms segment_put_segment_before segment_put_segment_after by metis

lemma put_blocks:
  assumes "disjoint_blocks starts" and "\<forall>k \<in> set starts. k + 4 \<le> length xs"
    and "\<And>k ys. length ys = 4 \<Longrightarrow> length (g k ys) = 4"
  shows "length (foldl (\<lambda>w k. put_segment k (g k (segment k 4 w)) w) xs starts) = length xs \<and>
    (\<forall>k \<in> set starts. segment k 4 (foldl (\<lambda>w k. put_segment k (g k (segment k 4 w)) w) xs starts) = g k (segment k 4 xs)) \<and>
    (\<forall>i < length xs. (\<forall>k \<in> set starts. i < k \<or> k + 4 \<le> i) \<longrightarrow>
       foldl (\<lambda>w k. put_segment k (g k (segment k 4 w)) w) xs starts ! i = xs ! i) \<and>
    (\<forall>j m. (\<forall>k \<in> set starts. j + m \<le> k \<or> k + 4 \<le> j) \<longrightarrow>
       segment j m (foldl (\<lambda>w k. put_segment k (g k (segment k 4 w)) w) xs starts) = segment j m xs)"
  using assms(1,2)
proof (induction starts arbitrary: xs)
  case Nil
  then show ?case by simp
next
  case (Cons k starts)
  let ?y = "g k (segment k 4 xs)" let ?xs = "put_segment k (g k (segment k 4 xs)) xs"
  have fit: "k + 4 \<le> length xs" using Cons.prems by simp
  have len: "length ?y = 4" using fit assms(3) by simp
  have apart: "\<forall>j \<in> set starts. k + 4 \<le> j \<or> j + 4 \<le> k" "disjoint_blocks starts"
    using Cons.prems(1) by (simp_all add: disjoint_blocks_def)
  have same: "segment j 4 ?xs = segment j 4 xs" if "j \<in> set starts" for j
    using that apart(1) len fit by (intro segment_put_disjoint) auto
  have first: "segment k 4 ?xs = ?y" using segment_put_segment_same [of k ?y xs] len fit by simp
  have entry: "?xs ! i = xs ! i" if "i < k \<or> k + 4 \<le> i" "i < length xs" for i
    using that len fit by (subst nth_put_segment) auto
  have xl: "length ?xs = length xs" using len fit by simp
  have ih: "length (foldl (\<lambda>w k. put_segment k (g k (segment k 4 w)) w) ?xs starts) = length ?xs"
    "\<forall>j \<in> set starts. segment j 4 (foldl (\<lambda>w k. put_segment k (g k (segment k 4 w)) w) ?xs starts) = g j (segment j 4 ?xs)"
    "\<forall>i < length ?xs. (\<forall>j \<in> set starts. i < j \<or> j + 4 \<le> i) \<longrightarrow>
       foldl (\<lambda>w k. put_segment k (g k (segment k 4 w)) w) ?xs starts ! i = ?xs ! i"
    "\<forall>j m. (\<forall>k \<in> set starts. j + m \<le> k \<or> k + 4 \<le> j) \<longrightarrow>
       segment j m (foldl (\<lambda>w k. put_segment k (g k (segment k 4 w)) w) ?xs starts) = segment j m ?xs"
    using Cons.IH [of ?xs] apart(2) Cons.prems(2) xl by auto
  have other: "segment j m ?xs = segment j m xs" if "j + m \<le> k \<or> k + 4 \<le> j" for j m
    using that len fit by (intro segment_put_disjoint) auto
  show ?case
    using ih first same entry other apart(1) xl by auto
qed

subsection \<open>Quaternions\<close>

lemma foldl_add_Fin: "foldl (+) (Fin a) (map Fin xs) = Fin (a + sum_list xs)"
  by (induction xs arbitrary: a) (simp_all add: add.assoc)

lemma squared_norm_Fin: "squared_norm (map Fin xs) = Fin (\<Sum>x\<leftarrow>xs. x * x)"
proof -
  have "map (\<lambda>x. x * x) (map Fin xs) = map Fin (map (\<lambda>x. x * x) xs)" by (simp add: comp_def)
  then show ?thesis unfolding squared_norm_def by (simp only: Fin_zero foldl_add_Fin) simp
qed

lemma vec_dot_Fin: "length xs = length ys \<Longrightarrow> vec_dot (map Fin xs) (map Fin ys) = Fin (\<Sum>(x, y)\<leftarrow>zip xs ys. x * y)"
proof -
  assume l: "length xs = length ys"
  have "map2 (*) (map Fin xs) (map Fin ys) = map Fin (map2 (*) xs ys)"
    using l by (induction xs ys rule: list_induct2) auto
  then show ?thesis unfolding vec_dot_def by (simp only: Fin_zero foldl_add_Fin) (simp add: case_prod_unfold)
qed

lemma all_finite_map_Fin: "all_finite xs \<longleftrightarrow> (\<exists>ys. xs = map Fin ys)"
  by (induction xs) (auto simp: isfinite_iff Cons_eq_map_conv)

lemma sum_squares_nonneg: "0 \<le> (\<Sum>x\<leftarrow>xs. x * x :: real)"
  by (induction xs) auto

lemma vec_norm_Fin: "vec_norm (map Fin xs) = Fin (sqrt (\<Sum>x\<leftarrow>xs. x * x))"
  using sum_squares_nonneg [of xs] by (simp add: vec_norm_def squared_norm_Fin)

lemma sum_squares_scale: "(\<Sum>x\<leftarrow>xs. (x * c) * (x * c)) = (\<Sum>x\<leftarrow>xs. x * x) * (c * c :: real)"
  by (induction xs) (simp_all add: algebra_simps)

lemma convertible_pos:
  assumes "quaternion_convertible (map Fin xs)"
  shows "0 < (\<Sum>x\<leftarrow>xs. x * x)"
  using assms by (simp add: quaternion_convertible_def squared_norm_Fin Let_def)

lemma normalized_Fin:
  assumes "0 < (\<Sum>x\<leftarrow>xs. x * x)"
  shows "normalized (map Fin xs) = map Fin (map (\<lambda>x. x / sqrt (\<Sum>x\<leftarrow>xs. x * x)) xs)"
  using assms by (simp add: normalized_def squared_norm_Fin vec_norm_Fin comp_def)

lemma unit_sum:
  assumes "0 < (\<Sum>x\<leftarrow>xs. x * x :: real)"
  shows "(\<Sum>x\<leftarrow>map (\<lambda>x. x / sqrt (\<Sum>x\<leftarrow>xs. x * x)) xs. x * x) = 1"
proof -
  let ?n = "\<Sum>x\<leftarrow>xs. x * x"
  have "(\<Sum>x\<leftarrow>map (\<lambda>x. x / sqrt ?n) xs. x * x) = (\<Sum>x\<leftarrow>xs. (x * (1 / sqrt ?n)) * (x * (1 / sqrt ?n)))"
    by (simp add: comp_def)
  also have "\<dots> = ?n * (1 / sqrt ?n * (1 / sqrt ?n))" by (rule sum_squares_scale)
  also have "\<dots> = 1" using assms by (simp add: field_simps)
  finally show ?thesis .
qed

text \<open>The norm of a restored block is the reference's.\<close>

lemma restore_norm_norm:
  assumes "0 < (\<Sum>x\<leftarrow>xs. x * x)" and "0 < (\<Sum>x\<leftarrow>rs. x * x)"
  shows "restore_norm (map Fin rs) (map Fin xs) =
      map Fin (map (\<lambda>x. x / sqrt (\<Sum>x\<leftarrow>xs. x * x) * sqrt (\<Sum>x\<leftarrow>rs. x * x)) xs)"
    and "squared_norm (restore_norm (map Fin rs) (map Fin xs)) = squared_norm (map Fin rs)"
proof -
  let ?n = "\<Sum>x\<leftarrow>xs. x * x" let ?r = "\<Sum>x\<leftarrow>rs. x * x"
  have n: "sqrt ?n \<noteq> 0" using assms(1) by simp
  show e: "restore_norm (map Fin rs) (map Fin xs) = map Fin (map (\<lambda>x. x / sqrt ?n * sqrt ?r) xs)"
    using n by (simp add: restore_norm_def vec_norm_Fin comp_def)
  have "(\<Sum>x\<leftarrow>map (\<lambda>x. x / sqrt ?n * sqrt ?r) xs. x * x) = (\<Sum>x\<leftarrow>xs. (x * (sqrt ?r / sqrt ?n)) * (x * (sqrt ?r / sqrt ?n)))"
    by (simp add: comp_def)
  also have "\<dots> = ?n * (sqrt ?r / sqrt ?n * (sqrt ?r / sqrt ?n))" by (rule sum_squares_scale)
  also have "\<dots> = ?r" using assms by (simp add: field_simps)
  finally show "squared_norm (restore_norm (map Fin rs) (map Fin xs)) = squared_norm (map Fin rs)"
    by (simp only: e squared_norm_Fin)
qed

text \<open>Between unit quaternions at an acute angle a linear blend never vanishes, so it can be normalized.\<close>

lemma blend_squares:
  assumes "length us = length ws"
  shows "(\<Sum>(u, w)\<leftarrow>zip us ws. (u + t * (w - u)) * (u + t * (w - u))) =
    (1 - t) * (1 - t) * (\<Sum>u\<leftarrow>us. u * u) + t * t * (\<Sum>w\<leftarrow>ws. w * w) + 2 * t * (1 - t) * (\<Sum>(u, w)\<leftarrow>zip us ws. u * w :: real)"
  using assms by (induction us ws rule: list_induct2) (simp_all add: algebra_simps)

lemma blend_pos:
  assumes "length us = length ws" and "(\<Sum>u\<leftarrow>us. u * u) = 1" and "(\<Sum>w\<leftarrow>ws. w * w) = 1"
    and "0 \<le> (\<Sum>(u, w)\<leftarrow>zip us ws. u * w)" and "0 \<le> t" "t \<le> (1 :: real)"
  shows "0 < (\<Sum>(u, w)\<leftarrow>zip us ws. (u + t * (w - u)) * (u + t * (w - u)))"
proof -
  have "0 \<le> 2 * t * (1 - t) * (\<Sum>(u, w)\<leftarrow>zip us ws. u * w)" using assms(4-6) by simp
  moreover have "0 < (1 - t) * (1 - t) + t * t"
    by (metis add_le_same_cancel2 add_nonneg_eq_0_iff diff_0_right less_eq_real_def mult_eq_0_iff not_sum_squares_lt_zero
        right_minus_eq sum_squares_gt_zero_iff zero_neq_one)
  ultimately show ?thesis unfolding blend_squares [OF assms(1)] assms(2,3) by simp
qed

lemma zip_uminus: "length us = length ws \<Longrightarrow>
  (\<Sum>(u, w)\<leftarrow>zip us (map uminus ws). u * w) = - (\<Sum>(u, w)\<leftarrow>zip us ws. u * w :: real)"
  by (induction us ws rule: list_induct2) simp_all

lemma map2_lerp_Fin: "length us = length ws \<Longrightarrow>
  map2 (\<lambda>a b. std_lerp a b (Fin t)) (map Fin us) (map Fin ws) = map Fin (map2 (\<lambda>u w. u + t * (w - u)) us ws)"
  by (induction us ws rule: list_induct2) (simp_all add: std_lerp_def)

lemma blend_quaternions_norm:
  assumes "length ss = length es" and "0 < (\<Sum>x\<leftarrow>ss. x * x)" and "0 < (\<Sum>x\<leftarrow>es. x * x)" and "0 \<le> t" "t \<le> 1"
  shows "squared_norm (blend_quaternions (map Fin rs) (map Fin ss) (map Fin es) (Fin t)) = squared_norm (map Fin rs)"
    and "length (blend_quaternions (map Fin rs) (map Fin ss) (map Fin es) (Fin t)) = length ss"
    and "all_finite (blend_quaternions (map Fin rs) (map Fin ss) (map Fin es) (Fin t))"
proof -
  define us where "us = map (\<lambda>x. x / sqrt (\<Sum>x\<leftarrow>ss. x * x)) ss"
  define vs where "vs = map (\<lambda>x. x / sqrt (\<Sum>x\<leftarrow>es. x * x)) es"
  define ws where "ws = (if (\<Sum>(u, v)\<leftarrow>zip us vs. u * v) < 0 then map uminus vs else vs)"
  have l: "length us = length vs" "length us = length ws" "length us = length ss"
    using assms(1) by (simp_all add: us_def vs_def ws_def)
  have u: "(\<Sum>u\<leftarrow>us. u * u) = 1" and v: "(\<Sum>w\<leftarrow>vs. w * w) = 1"
    using unit_sum assms(2,3) by (simp_all only: us_def vs_def)
  then have w: "(\<Sum>w\<leftarrow>ws. w * w) = 1" by (simp add: ws_def comp_def)
  have d: "0 \<le> (\<Sum>(u, w)\<leftarrow>zip us ws. u * w)" using zip_uminus [OF l(1)] by (simp add: ws_def)
  define bs where "bs = map2 (\<lambda>u w. u + t * (w - u)) us ws"
  have b: "0 < (\<Sum>x\<leftarrow>bs. x * x)"
    using blend_pos [OF l(2) u w d assms(4,5)] by (simp add: bs_def case_prod_unfold comp_def)
  have near: "(if vec_dot (map Fin us) (map Fin vs) < 0 then map uminus (map Fin vs) else map Fin vs) = map Fin ws"
    using l(1) by (simp add: vec_dot_Fin ws_def comp_def)
  have "blend_quaternions (map Fin rs) (map Fin ss) (map Fin es) (Fin t) =
      map (\<lambda>x. x * vec_norm (map Fin rs)) (normalized (map Fin bs))"
    unfolding blend_quaternions_def Let_def normalized_Fin [OF assms(2)] normalized_Fin [OF assms(3)]
    by (simp only: us_def [symmetric] vs_def [symmetric] near map2_lerp_Fin [OF l(2)] bs_def)
  also have "\<dots> = map Fin (map (\<lambda>x. x / sqrt (\<Sum>x\<leftarrow>bs. x * x) * sqrt (\<Sum>x\<leftarrow>rs. x * x)) bs)"
    by (simp add: normalized_Fin [OF b] vec_norm_Fin comp_def)
  finally have e: "blend_quaternions (map Fin rs) (map Fin ss) (map Fin es) (Fin t) =
      map Fin (map (\<lambda>x. x / sqrt (\<Sum>x\<leftarrow>bs. x * x) * sqrt (\<Sum>x\<leftarrow>rs. x * x)) bs)" .
  have "(\<Sum>x\<leftarrow>map (\<lambda>x. x / sqrt (\<Sum>x\<leftarrow>bs. x * x) * sqrt (\<Sum>x\<leftarrow>rs. x * x)) bs. x * x) =
      (\<Sum>x\<leftarrow>bs. (x * (sqrt (\<Sum>x\<leftarrow>rs. x * x) / sqrt (\<Sum>x\<leftarrow>bs. x * x))) * (x * (sqrt (\<Sum>x\<leftarrow>rs. x * x) / sqrt (\<Sum>x\<leftarrow>bs. x * x))))"
    by (simp add: comp_def)
  also have "\<dots> = (\<Sum>x\<leftarrow>bs. x * x) * (sqrt (\<Sum>x\<leftarrow>rs. x * x) / sqrt (\<Sum>x\<leftarrow>bs. x * x) *
      (sqrt (\<Sum>x\<leftarrow>rs. x * x) / sqrt (\<Sum>x\<leftarrow>bs. x * x)))" by (rule sum_squares_scale)
  also have "\<dots> = (\<Sum>x\<leftarrow>rs. x * x)" using b sum_squares_nonneg [of rs] by (simp add: field_simps)
  finally show "squared_norm (blend_quaternions (map Fin rs) (map Fin ss) (map Fin es) (Fin t)) = squared_norm (map Fin rs)"
    by (simp only: e squared_norm_Fin)
  show "length (blend_quaternions (map Fin rs) (map Fin ss) (map Fin es) (Fin t)) = length ss"
    using l by (simp add: e bs_def)
  show "all_finite (blend_quaternions (map Fin rs) (map Fin ss) (map Fin es) (Fin t))"
    unfolding e all_finite_map_Fin by blast
qed

subsection \<open>What the bridge relies on\<close>

text \<open>What the rigid tree documents of its coordinate-rate maps: sizes, dependence on the positions alone, and
  \<open>N\<^sup>+(q) N(q) v = v\<close>.\<close>

definition tree_maps_ok :: "multibody_model \<Rightarrow> bool" where
  "tree_maps_ok model \<longleftrightarrow>
     (\<forall>s v qdot. mm_map_velocity_to_qdot model s v = Inr qdot \<longrightarrow> int (length qdot) = mm_nq model) \<and>
     (\<forall>s qdot. int (length qdot) = mm_nq model \<longrightarrow> int (length (mm_map_qdot_to_velocity model s qdot)) = mm_nv model) \<and>
     (\<forall>s a qddot. mm_map_acceleration_to_qddot model s a = Inr qddot \<longrightarrow> int (length qddot) = mm_nq model) \<and>
     (\<forall>s t. ms_positions s = ms_positions t \<longrightarrow> mm_map_velocity_to_qdot model s = mm_map_velocity_to_qdot model t \<and>
        mm_map_qdot_to_velocity model s = mm_map_qdot_to_velocity model t) \<and>
     (\<forall>s v qdot. int (length v) = mm_nv model \<longrightarrow> mm_map_velocity_to_qdot model s v = Inr qdot \<longrightarrow>
        mm_map_qdot_to_velocity model s qdot = v)"

definition quaternions_ok :: "system_instance \<Rightarrow> bool" where
  "quaternions_ok sys \<longleftrightarrow> disjoint_blocks (quaternion_starts sys) \<and> (\<forall>k \<in> set (quaternion_starts sys). k + 4 \<le> si_nq sys)"

definition bridge_wf :: "system_instance \<Rightarrow> bridge_state \<Rightarrow> bool" where
  "bridge_wf sys p \<longleftrightarrow> context_wf sys (br_trial p) \<and> same_model (si_model sys) (br_geometry p)"

text \<open>How many more writes of positions the geometry context can number, and the trial context can.\<close>

definition geometry_versions :: "nat \<Rightarrow> bridge_state \<Rightarrow> bool" where
  "geometry_versions n p \<longleftrightarrow> revision (ms_positions_version (mc_state (br_geometry p))) + n < 2 ^ 64 \<and>
     revision (ms_velocities_version (mc_state (br_geometry p))) + n < 2 ^ 64"

lemma on_geometry_run: "on_geometry m p = (r, p') \<longleftrightarrow> (\<exists>g. m (br_geometry p) = (r, g) \<and> p' = p\<lparr>br_geometry := g\<rparr>)"
  by (auto simp: on_geometry_def split: prod.splits)

lemma on_trial_run: "on_trial m p = (r, p') \<longleftrightarrow> (\<exists>c. m (br_trial p) = (r, c) \<and> p' = p\<lparr>br_trial := c\<rparr>)"
  by (auto simp: on_trial_def split: prod.splits)

text \<open>One write of the positions of the geometry context, exactly.\<close>

lemma geometry_set_positions:
  assumes "system_ok sys" and "same_model (si_model sys) (br_geometry p)" and "geometry_versions (Suc n) p"
    and "length q = si_nq sys" and "all_finite q" and "require_quaternions (si_model sys) q = Inr ()"
  obtains g where "on_geometry (model_set_generalized_positions (si_model sys) q) p = (Inr (), p\<lparr>br_geometry := g\<rparr>)"
    and "ms_positions (mc_state g) = q" and "same_model (si_model sys) g"
    and "geometry_versions n (p\<lparr>br_geometry := g\<rparr>)"
proof -
  let ?s = "mc_state (br_geometry p)"
  have m: "mm_finalized (si_model sys)" "\<not> mm_finalization_failed (si_model sys)" "int (si_nq sys) = mm_nq (si_model sys)"
    using assms(1) by (simp_all add: system_ok_def Let_def)
  have s: "mc_issuer (br_geometry p) = mm_identity (si_model sys)" "ms_layout ?s = mm_layout (si_model sys)" "mstate_wf ?s"
    using assms(2) by (simp_all add: same_model_def)
  have "revision (ms_positions_version ?s) < 2 ^ 64 - 1" using assms(3) by (simp add: geometry_versions_def)
  then obtain v where v: "next_version (ms_positions_version ?s) = Inr v" using ex_next_version by blast
  define g where "g = (br_geometry p)\<lparr>mc_state := ?s\<lparr>ms_positions := q, ms_positions_version := v\<rparr>\<rparr>"
  have run: "model_set_generalized_positions (si_model sys) q (br_geometry p) = (Inr (), g)"
    unfolding model_set_generalized_positions_Inr using m s v assms(4-6) by (auto simp: g_def)
  have "mstate_wf (?s\<lparr>ms_positions := q, ms_positions_version := v\<rparr>)"
    using s m assms(4,5) by (simp add: mstate_wf_def Let_def mm_nq_def)
  then have "same_model (si_model sys) g" using s by (simp add: g_def same_model_def)
  moreover have "geometry_versions n (p\<lparr>br_geometry := g\<rparr>)"
    using assms(3) next_version_revision [OF v] by (simp add: g_def geometry_versions_def)
  moreover have "on_geometry (model_set_generalized_positions (si_model sys) q) p = (Inr (), p\<lparr>br_geometry := g\<rparr>)"
    using run by (simp add: on_geometry_def)
  ultimately show thesis using that [of g] by (simp add: g_def)
qed

text \<open>What a successful write of positions entails.\<close>

lemma geometry_set_positions_Inr:
  assumes "on_geometry (model_set_generalized_positions (si_model sys) q) p = (Inr (), p')"
  shows "require_quaternions (si_model sys) q = Inr ()" and "all_finite q" and "br_trial p' = br_trial p"
    and "ms_positions (mc_state (br_geometry p')) = q"
  using assms by (auto simp: on_geometry_run model_set_generalized_positions_Inr)

lemma require_quaternions_Inr:
  "require_quaternions model q = Inr () \<longleftrightarrow> (\<forall>k \<in> set (mm_quaternion_starts model). quaternion_convertible (segment k 4 q))"
  by (auto simp: require_quaternions_def all_checks_Inr)

lemma convertible_norm: "squared_norm xs = squared_norm ys \<Longrightarrow> quaternion_convertible xs \<longleftrightarrow> quaternion_convertible ys"
  by (simp add: quaternion_convertible_def)

subsection \<open>Interpolation\<close>

definition interpolated :: "system_instance \<Rightarrow> vec \<Rightarrow> vec \<Rightarrow> vec \<Rightarrow> double \<Rightarrow> vec" where
  "interpolated sys reference start stop fraction =
     foldl (\<lambda>w k. put_segment k
       (blend_quaternions (segment k 4 reference) (segment k 4 start) (segment k 4 stop) fraction) w)
       (map2 (\<lambda>a b. std_lerp a b fraction) start stop) (quaternion_starts sys)"

lemma segment_head: "k + n \<le> m \<Longrightarrow> segment k n (segment 0 m xs) = segment k n xs"
  by (simp add: segment_def min_def drop_take)

lemma all_finite_nth: "all_finite xs \<longleftrightarrow> (\<forall>i < length xs. isfinite (xs ! i))"
  by (simp add: all_finite_iff all_set_conv_all_nth)

lemma std_lerp_finite: "isfinite a \<Longrightarrow> isfinite b \<Longrightarrow> isfinite t \<Longrightarrow> isfinite (std_lerp a b t)"
  by (simp add: std_lerp_def)

lemma block_blend:
  assumes "length ss = 4" "length es = 4" "length rs = 4" "all_finite ss" "all_finite es" "all_finite rs"
    and "quaternion_convertible ss" "quaternion_convertible es" and "0 \<le> t" "t \<le> 1"
  shows "length (blend_quaternions rs ss es (Fin t)) = 4" "all_finite (blend_quaternions rs ss es (Fin t))"
    "squared_norm (blend_quaternions rs ss es (Fin t)) = squared_norm rs"
proof -
  obtain s e r where f: "ss = map Fin s" "es = map Fin e" "rs = map Fin r" using assms(4-6) all_finite_map_Fin by metis
  have p: "0 < (\<Sum>x\<leftarrow>s. x * x)" "0 < (\<Sum>x\<leftarrow>e. x * x)" using assms(7,8) f convertible_pos by auto
  have l: "length s = length e" using assms(1,2) f by simp
  note b = blend_quaternions_norm [OF l p assms(9,10), of r]
  show "length (blend_quaternions rs ss es (Fin t)) = 4" "all_finite (blend_quaternions rs ss es (Fin t))"
    "squared_norm (blend_quaternions rs ss es (Fin t)) = squared_norm rs"
    using b assms(1) by (simp_all add: f)
qed

lemma interpolated_facts:
  assumes ok: "quaternions_ok sys" and len: "length reference = si_nq sys" "length start = continuous_state_size sys"
      "length stop = continuous_state_size sys"
    and fin: "all_finite reference" "all_finite start" "all_finite stop"
    and conv: "require_quaternions (si_model sys) reference = Inr ()"
      "require_quaternions (si_model sys) (segment 0 (si_nq sys) start) = Inr ()"
      "require_quaternions (si_model sys) (segment 0 (si_nq sys) stop) = Inr ()"
    and t: "0 \<le> t" "t \<le> 1"
  defines "work \<equiv> interpolated sys reference start stop (Fin t)"
  shows "length work = continuous_state_size sys" and "all_finite work"
    and "\<forall>k \<in> set (quaternion_starts sys). squared_norm (segment k 4 work) = squared_norm (segment k 4 reference)"
    and "\<forall>i < continuous_state_size sys. (\<forall>k \<in> set (quaternion_starts sys). i < k \<or> k + 4 \<le> i) \<longrightarrow>
       work ! i = std_lerp (start ! i) (stop ! i) (Fin t)"
    and "require_quaternions (si_model sys) (segment 0 (si_nq sys) work) = Inr ()"
proof -
  let ?n = "continuous_state_size sys" let ?linear = "map2 (\<lambda>a b. std_lerp a b (Fin t)) start stop"
  have nq: "si_nq sys \<le> ?n" by (simp add: continuous_state_size_def)
  have fits: "k + 4 \<le> si_nq sys" if "k \<in> set (quaternion_starts sys)" for k using ok that by (simp add: quaternions_ok_def)
  let ?b = "\<lambda>k. blend_quaternions (segment k 4 reference) (segment k 4 start) (segment k 4 stop) (Fin t)"
  have block: "length (?b k) = 4 \<and> all_finite (?b k) \<and> squared_norm (?b k) = squared_norm (segment k 4 reference)"
    if k: "k \<in> set (quaternion_starts sys)" for k
  proof -
    have "quaternion_convertible (segment k 4 start)" "quaternion_convertible (segment k 4 stop)"
      using conv(2,3) k fits [OF k] by (auto simp: require_quaternions_Inr segment_head)
    then show ?thesis
      using block_blend [of "segment k 4 start" "segment k 4 stop" "segment k 4 reference"] fits [OF k] nq len fin t
      by (simp add: all_finite_segment)
  qed
  define g where "g = (\<lambda>k (ys :: vec). if k \<in> set (quaternion_starts sys) then ?b k else ys)"
  have work: "work = foldl (\<lambda>w k. put_segment k (g k (segment k 4 w)) w) ?linear (quaternion_starts sys)"
    unfolding work_def interpolated_def by (rule foldl_cong) (simp_all add: g_def)
  have gl: "length (g k ys) = 4" if "length ys = 4" for k ys using block that by (simp add: g_def)
  have pre: "disjoint_blocks (quaternion_starts sys)" "\<forall>k \<in> set (quaternion_starts sys). k + 4 \<le> length ?linear"
    using ok fits nq len by (fastforce simp: quaternions_ok_def)+
  have facts: "length work = length ?linear"
    "\<forall>k \<in> set (quaternion_starts sys). segment k 4 work = g k (segment k 4 ?linear)"
    "\<forall>i < length ?linear. (\<forall>k \<in> set (quaternion_starts sys). i < k \<or> k + 4 \<le> i) \<longrightarrow> work ! i = ?linear ! i"
    using put_blocks [OF pre, of g, OF gl, folded work] by simp_all
  show l: "length work = ?n" using facts(1) len by simp
  show sq: "\<forall>k \<in> set (quaternion_starts sys). squared_norm (segment k 4 work) = squared_norm (segment k 4 reference)"
    using facts(2) block by (simp add: g_def)
  show out: "\<forall>i < ?n. (\<forall>k \<in> set (quaternion_starts sys). i < k \<or> k + 4 \<le> i) \<longrightarrow>
       work ! i = std_lerp (start ! i) (stop ! i) (Fin t)"
    using facts(3) len by simp
  show "all_finite work" unfolding all_finite_nth
  proof (intro allI impI)
    fix i assume i: "i < length work"
    show "isfinite (work ! i)"
    proof (cases "\<forall>k \<in> set (quaternion_starts sys). i < k \<or> k + 4 \<le> i")
      case True
      moreover have "isfinite (start ! i)" "isfinite (stop ! i)" using fin len i l by (auto simp: all_finite_nth)
      ultimately show ?thesis using out i l std_lerp_finite by simp
    next
      case False
      then obtain k where k: "k \<in> set (quaternion_starts sys)" "k \<le> i" "i < k + 4" by (auto simp: not_less not_le)
      have "work ! i = segment k 4 work ! (i - k)"
        using k fits [OF k(1)] nq l by (subst nth_segment) auto
      also have "segment k 4 work = ?b k" using facts(2) k(1) by (simp add: g_def)
      finally show ?thesis using block [OF k(1)] k by (simp add: all_finite_nth)
    qed
  qed
  show "require_quaternions (si_model sys) (segment 0 (si_nq sys) work) = Inr ()"
    unfolding require_quaternions_Inr
  proof
    fix k assume k: "k \<in> set (quaternion_starts sys)"
    then have "quaternion_convertible (segment k 4 reference)" using conv(1) by (simp add: require_quaternions_Inr)
    then show "quaternion_convertible (segment k 4 (segment 0 (si_nq sys) work))"
      using convertible_norm sq fits [OF k] k by (metis segment_head)
  qed
qed

definition interpolation_valid :: "system_instance \<Rightarrow> vec \<Rightarrow> vec \<Rightarrow> vec \<Rightarrow> double \<Rightarrow> nat \<Rightarrow> bool" where
  "interpolation_valid sys reference start stop fraction n \<longleftrightarrow>
     length reference = si_nq sys \<and> length start = continuous_state_size sys \<and> length stop = continuous_state_size sys \<and>
     n = continuous_state_size sys \<and> all_finite reference \<and> all_finite start \<and> all_finite stop \<and>
     isfinite fraction \<and> \<not> fraction < 0 \<and> \<not> 1 < fraction \<and>
     require_quaternions (si_model sys) reference = Inr () \<and>
     require_quaternions (si_model sys) (segment 0 (si_nq sys) start) = Inr () \<and>
     require_quaternions (si_model sys) (segment 0 (si_nq sys) stop) = Inr ()"

lemma bridge_interpolate_valid:
  assumes "bridge_interpolate sys reference start stop fraction n p = (Inr x, p')"
  shows "interpolation_valid sys reference start stop fraction n"
  using assms
  by (auto simp: bridge_interpolate_def effect_outcome Let_def interpolation_valid_def on_geometry_run
      model_set_generalized_positions_Inr split: if_splits)

text \<open>Every callback but the evaluation leaves the trial context alone.\<close>

definition keeps_trial :: "bridge_state \<Rightarrow> bridge_state \<Rightarrow> bool" where
  "keeps_trial p p' \<longleftrightarrow> br_trial p' = br_trial p"

lemma keeps_trial_preorder: "reflp keeps_trial" "transp keeps_trial"
  by (auto simp: keeps_trial_def intro: reflpI transpI)

lemma keeps_trial_geometry: "stays_within keeps_trial (on_geometry m)"
  by (auto simp: stays_within_def on_geometry_run keeps_trial_def)

lemma stays_within_if: "stays_within R a \<Longrightarrow> stays_within R b \<Longrightarrow> stays_within R (if c then a else b)"
  by simp

lemmas keeps_trial_rules = keeps_trial_geometry stays_within_if
  stays_within_seqE [OF keeps_trial_preorder(2)] stays_within_bindE [OF keeps_trial_preorder(2)]
  stays_within_primitives [OF keeps_trial_preorder(1)]

lemma recover_velocity_trial: "stays_within keeps_trial (recover_velocity sys q s)"
  unfolding recover_velocity_def by (intro keeps_trial_rules)

lemma map_velocity_trial: "stays_within keeps_trial (map_velocity sys v)"
  unfolding map_velocity_def by (intro keeps_trial_rules)

lemma geometry_callbacks_trial:
  "stays_within keeps_trial (bridge_interpolate sys reference start stop fraction n)"
  "stays_within keeps_trial (bridge_make_coordinate_state sys t physical)"
  "stays_within keeps_trial (bridge_copy_physical_state sys y n)"
  "stays_within keeps_trial (bridge_validate_initial sys t q s z)"
  "stays_within keeps_trial (bridge_project sys reference q s)"
  unfolding bridge_interpolate_def bridge_make_coordinate_state_def bridge_copy_physical_state_def
    bridge_validate_initial_def bridge_project_def Let_def
  by (intro keeps_trial_rules recover_velocity_trial map_velocity_trial)+

lemma bridge_interpolate_run:
  assumes sys: "system_ok sys" "quaternions_ok sys" and p: "same_model (si_model sys) (br_geometry p)" "geometry_versions 4 p"
    and valid: "interpolation_valid sys reference start stop fraction n"
  obtains p' where "bridge_interpolate sys reference start stop fraction n p =
    (Inr (if feq fraction 0 then start else if feq fraction 1 then stop else interpolated sys reference start stop fraction), p')"
proof -
  note v = valid [unfolded interpolation_valid_def]
  have head: "length (segment 0 (si_nq sys) xs) = si_nq sys \<and> (all_finite xs \<longrightarrow> all_finite (segment 0 (si_nq sys) xs))"
    if "length xs = continuous_state_size sys" for xs
    using that by (simp add: continuous_state_size_def all_finite_segment)
  have four: "geometry_versions (Suc 3) p" using p(2) by simp
  obtain g1 where g1: "on_geometry (model_set_generalized_positions (si_model sys) reference) p = (Inr (), p\<lparr>br_geometry := g1\<rparr>)"
    "same_model (si_model sys) g1" "geometry_versions (Suc (Suc (Suc 0))) (p\<lparr>br_geometry := g1\<rparr>)"
    using geometry_set_positions [OF sys(1) p(1) four, of reference] v by (metis numeral_3_eq_3)
  obtain g2 where g2: "on_geometry (model_set_generalized_positions (si_model sys) (segment 0 (si_nq sys) start)) (p\<lparr>br_geometry := g1\<rparr>)
      = (Inr (), p\<lparr>br_geometry := g2\<rparr>)"
    "same_model (si_model sys) g2" "geometry_versions (Suc (Suc 0)) (p\<lparr>br_geometry := g2\<rparr>)"
    using geometry_set_positions [OF sys(1) _ g1(3), of "segment 0 (si_nq sys) start"] g1(2) v head by (auto simp: )
  obtain g3 where g3: "on_geometry (model_set_generalized_positions (si_model sys) (segment 0 (si_nq sys) stop)) (p\<lparr>br_geometry := g2\<rparr>)
      = (Inr (), p\<lparr>br_geometry := g3\<rparr>)"
    "same_model (si_model sys) g3" "geometry_versions (Suc 0) (p\<lparr>br_geometry := g3\<rparr>)"
    using geometry_set_positions [OF sys(1) _ g2(3), of "segment 0 (si_nq sys) stop"] g2(2) v head by auto
  note run = bridge_interpolate_def [unfolded Let_def, folded interpolated_def]
  show thesis
  proof (cases "feq fraction 0 \<or> feq fraction 1")
    case True
    show ?thesis
      by (rule that [of "p\<lparr>br_geometry := g3\<rparr>"]) (use True v in \<open>auto simp: run effect_simps g1(1) g2(1) g3(1)\<close>)
  next
    case False
    obtain t where t: "fraction = Fin t" using v by (cases fraction) auto
    then have tt: "0 \<le> t" "t \<le> 1" using v by auto
    have args: "length reference = si_nq sys" "length start = continuous_state_size sys" "length stop = continuous_state_size sys"
      "all_finite reference" "all_finite start" "all_finite stop"
      "require_quaternions (si_model sys) reference = Inr ()"
      "require_quaternions (si_model sys) (segment 0 (si_nq sys) start) = Inr ()"
      "require_quaternions (si_model sys) (segment 0 (si_nq sys) stop) = Inr ()" using v by simp_all
    note f = interpolated_facts [OF sys(2) args tt]
    let ?q = "segment 0 (si_nq sys) (interpolated sys reference start stop fraction)"
    have q: "length ?q = si_nq sys" "all_finite ?q" "require_quaternions (si_model sys) ?q = Inr ()"
      using f(1,2,5) head [of "interpolated sys reference start stop fraction"] by (simp_all add: t)
    have m: "same_model (si_model sys) (br_geometry (p\<lparr>br_geometry := g3\<rparr>))" using g3(2) by simp
    obtain g4 where g4: "on_geometry (model_set_generalized_positions (si_model sys) ?q) (p\<lparr>br_geometry := g3\<rparr>) = (Inr (), p\<lparr>br_geometry := g4\<rparr>)"
      by (rule geometry_set_positions [OF sys(1) m g3(3) q]) simp
    show ?thesis
      by (rule that [of "p\<lparr>br_geometry := g4\<rparr>"])
        (use False v f(2) t in \<open>auto simp: run effect_simps g1(1) g2(1) g3(1) g4 [unfolded t] require_finite_mapping_def\<close>)
  qed
qed

subsection \<open>Projection\<close>

lemma list_ex_feq: "all_finite xs \<Longrightarrow> length xs = length ys \<Longrightarrow>
  list_ex (\<lambda>(x, y). \<not> feq x y) (zip xs ys) \<longleftrightarrow> xs \<noteq> ys"
proof (induction xs arbitrary: ys)
  case Nil
  then show ?case by simp
next
  case (Cons x xs)
  then obtain y zs where "ys = y # zs" by (cases ys) auto
  with Cons show ?case by (auto simp: feq_finite)
qed

text \<open>Overwriting the quaternion blocks by those of another vector.\<close>

lemma overwrite_blocks:
  assumes "disjoint_blocks starts" and "\<forall>k \<in> set starts. k + 4 \<le> length xs" and "length ys = length xs"
  defines "r \<equiv> foldl (\<lambda>w k. put_segment k (segment k 4 ys) w) xs starts"
  shows "length r = length xs" and "\<forall>k \<in> set starts. segment k 4 r = segment k 4 ys"
    and "\<forall>i < length xs. (\<forall>k \<in> set starts. i < k \<or> k + 4 \<le> i) \<longrightarrow> r ! i = xs ! i"
    and "r = xs \<longleftrightarrow> (\<forall>k \<in> set starts. segment k 4 ys = segment k 4 xs)"
proof -
  define g where "g = (\<lambda>k (zs :: 'a list). if k \<in> set starts then segment k 4 ys else zs)"
  have r: "r = foldl (\<lambda>w k. put_segment k (g k (segment k 4 w)) w) xs starts"
    unfolding r_def by (rule foldl_cong) (simp_all add: g_def)
  have gl: "length (g k zs) = 4" if "length zs = 4" for k zs using assms(2,3) that by (auto simp: g_def)
  note f = put_blocks [OF assms(1,2), of g, OF gl, folded r]
  show l: "length r = length xs" and blocks: "\<forall>k \<in> set starts. segment k 4 r = segment k 4 ys"
    and out: "\<forall>i < length xs. (\<forall>k \<in> set starts. i < k \<or> k + 4 \<le> i) \<longrightarrow> r ! i = xs ! i"
    using f by (simp_all add: g_def)
  show "r = xs \<longleftrightarrow> (\<forall>k \<in> set starts. segment k 4 ys = segment k 4 xs)"
  proof
    assume "r = xs"
    then show "\<forall>k \<in> set starts. segment k 4 ys = segment k 4 xs" using blocks by simp
  next
    assume same: "\<forall>k \<in> set starts. segment k 4 ys = segment k 4 xs"
    show "r = xs"
    proof (rule nth_equalityI)
      fix i assume i: "i < length r"
      show "r ! i = xs ! i"
      proof (cases "\<forall>k \<in> set starts. i < k \<or> k + 4 \<le> i")
        case True
        then show ?thesis using out i l by simp
      next
        case False
        then obtain k where k: "k \<in> set starts" "k \<le> i" "i < k + 4" by (auto simp: not_less not_le)
        have fit: "k + 4 \<le> length xs" using assms(2) k(1) by blast
        have "r ! i = segment k 4 r ! (i - k)" "xs ! i = segment k 4 xs ! (i - k)"
          using k fit l by (simp_all add: nth_segment)
        then show ?thesis using blocks same k(1) by simp
      qed
    qed (rule l)
  qed
qed

lemma length_restore_norm [simp]: "length (restore_norm r q) = length q"
  by (simp add: restore_norm_def)

lemma restored_norm:
  assumes "all_finite r" "all_finite q" "quaternion_convertible r" "quaternion_convertible q"
  shows "squared_norm (restore_norm r q) = squared_norm r"
proof -
  obtain rs qs where "r = map Fin rs" "q = map Fin qs" using assms(1,2) all_finite_map_Fin by metis
  then show ?thesis using restore_norm_norm(2) convertible_pos assms(3,4) by simp
qed

lemma recover_velocity_Inr:
  assumes "recover_velocity sys q s p = (Inr v, p')"
  shows "require_quaternions (si_model sys) q = Inr ()" and "all_finite q" and "all_finite v"
    and "ms_positions (mc_state (br_geometry p')) = q" and "all_finite s"
    and "v = mm_map_qdot_to_velocity (si_model sys) (mc_state (br_geometry p')) s" and "int (length s) = mm_nq (si_model sys)"
  using assms
  by (auto simp: recover_velocity_def effect_outcome bindS_eq_Inr require_finite_mapping_def on_geometry_run
      model_set_generalized_positions_Inr map_position_derivatives_to_velocities_def)

lemma map_velocity_Inr:
  assumes "map_velocity sys v p = (Inr s, p')"
  shows "p' = p" and "all_finite s" and "mm_map_velocity_to_qdot (si_model sys) (mc_state (br_geometry p)) v = Inr s"
    and "int (length v) = mm_nv (si_model sys)"
  using assms
  by (auto simp: map_velocity_def effect_outcome bindS_eq_Inr require_finite_mapping_def map_velocities_to_position_derivatives_def)

lemma bridge_project_Inr:
  assumes "bridge_project sys reference q s p = (Inr (changed, q', s'), p')"
    and sys: "system_ok sys" "quaternions_ok sys" "tree_maps_ok (si_model sys)"
  obtains mapped where "length q' = length q" "length s' = length s" "length q = si_nq sys" "length s = si_nq sys"
    and "\<forall>k \<in> set (quaternion_starts sys). squared_norm (segment k 4 q') = squared_norm (segment k 4 reference) \<and>
       segment k 4 q' = restore_norm (segment k 4 reference) (segment k 4 q) \<and> segment k 4 s' = segment k 4 mapped"
    and "\<forall>i < si_nq sys. (\<forall>k \<in> set (quaternion_starts sys). i < k \<or> k + 4 \<le> i) \<longrightarrow> q' ! i = q ! i \<and> s' ! i = s ! i"
    and "changed \<longleftrightarrow> q' \<noteq> q \<or> s' \<noteq> s" and "all_finite mapped"
proof -
  let ?K = "set (quaternion_starts sys)"
  let ?w = "foldl (\<lambda>w k. put_segment k (restore_norm (segment k 4 reference) (segment k 4 w)) w) q (quaternion_starts sys)"
  from assms(1) obtain p1 p2 v p3 mapped where
    len: "length reference = si_nq sys" "length q = si_nq sys" "length s = si_nq sys" "all_finite reference" "all_finite q" "all_finite s"
    and p1: "on_geometry (model_set_generalized_positions (si_model sys) reference) p = (Inr (), p1)"
    and p2: "recover_velocity sys q s p1 = (Inr v, p2)"
    and p3: "on_geometry (model_set_generalized_positions (si_model sys) ?w) p2 = (Inr (), p3)"
    and p4: "map_velocity sys v p3 = (Inr mapped, p')"
    and ch: "changed \<longleftrightarrow> list_ex (\<lambda>k. list_ex (\<lambda>(x, y). \<not> feq x y) (zip (segment k 4 q) (segment k 4 ?w)) \<or>
                       list_ex (\<lambda>(x, y). \<not> feq x y) (zip (segment k 4 s) (segment k 4 mapped))) (quaternion_starts sys)"
    and q': "q' = foldl (\<lambda>w k. put_segment k (segment k 4 ?w) w) q (quaternion_starts sys)"
    and s': "s' = foldl (\<lambda>w k. put_segment k (segment k 4 mapped) w) s (quaternion_starts sys)"
    by (auto simp: bridge_project_def effect_outcome Let_def split: if_splits)
  define qw where "qw = ?w"
  note ch = ch [folded qw_def] and q' = q' [folded qw_def] and p3 = p3 [folded qw_def]
  have dj: "disjoint_blocks (quaternion_starts sys)" and fit: "\<forall>k \<in> ?K. k + 4 \<le> si_nq sys"
    using sys(2) by (simp_all add: quaternions_ok_def)
  have rq: "require_quaternions (si_model sys) reference = Inr ()" using geometry_set_positions_Inr(1) [OF p1] .
  note rv = recover_velocity_Inr [OF p2] and mv = map_velocity_Inr [OF p4]
  have "mm_nq (si_model sys) = int (si_nq sys)" using sys(1) by (simp add: system_ok_def Let_def)
  then have lm: "length mapped = si_nq sys" using mv(3) sys(3) unfolding tree_maps_ok_def by (metis of_nat_eq_iff)
  have pre: "\<forall>k \<in> ?K. k + 4 \<le> length q" "\<forall>k \<in> ?K. k + 4 \<le> length s" using fit len by simp_all
  define g where "g = (\<lambda>k. restore_norm (segment k 4 reference))"
  have gl: "length (g k ys) = 4" if "length ys = 4" for k ys using that by (simp add: g_def)
  have w: "length qw = si_nq sys" "\<forall>k \<in> ?K. segment k 4 qw = restore_norm (segment k 4 reference) (segment k 4 q)"
    using put_blocks [OF dj pre(1), of g, OF gl] len by (simp_all add: g_def qw_def)
  note oq = overwrite_blocks [OF dj pre(1), of qw, folded q'] and os = overwrite_blocks [OF dj pre(2), of mapped, folded s']
  have lw: "length qw = length q" "length mapped = length s" using w(1) lm len by simp_all
  have norm: "squared_norm (segment k 4 qw) = squared_norm (segment k 4 reference)" if k: "k \<in> ?K" for k
    using w(2) k restored_norm all_finite_segment len rq rv(1) by (simp add: require_quaternions_Inr)
  have block: "(list_ex (\<lambda>(x, y). \<not> feq x y) (zip (segment k 4 q) (segment k 4 qw)) \<or>
      list_ex (\<lambda>(x, y). \<not> feq x y) (zip (segment k 4 s) (segment k 4 mapped))) \<longleftrightarrow>
      segment k 4 qw \<noteq> segment k 4 q \<or> segment k 4 mapped \<noteq> segment k 4 s" if k: "k \<in> ?K" for k
  proof -
    have "length (segment k 4 q) = length (segment k 4 qw)" "length (segment k 4 s) = length (segment k 4 mapped)"
      using fit k len w(1) lm by simp_all
    moreover have "all_finite (segment k 4 q)" "all_finite (segment k 4 s)" using len by (simp_all add: all_finite_segment)
    ultimately show ?thesis by (simp add: list_ex_feq) metis
  qed
  have "changed \<longleftrightarrow> (\<exists>k \<in> ?K. segment k 4 qw \<noteq> segment k 4 q \<or> segment k 4 mapped \<noteq> segment k 4 s)"
    unfolding ch list_ex_iff [where xs = "quaternion_starts sys"] using block by blast
  then have c: "changed \<longleftrightarrow> q' \<noteq> q \<or> s' \<noteq> s" using oq(4) [OF lw(1)] os(4) [OF lw(2)] by blast
  show thesis
  proof (rule that [of mapped])
    show "length q' = length q" "length s' = length s" by (rule oq(1) [OF lw(1)], rule os(1) [OF lw(2)])
    show "length q = si_nq sys" "length s = si_nq sys" "all_finite mapped" "changed \<longleftrightarrow> q' \<noteq> q \<or> s' \<noteq> s"
      by (rule len, rule len, rule mv(2), rule c)
    show "\<forall>k \<in> ?K. squared_norm (segment k 4 q') = squared_norm (segment k 4 reference) \<and>
       segment k 4 q' = restore_norm (segment k 4 reference) (segment k 4 q) \<and> segment k 4 s' = segment k 4 mapped"
      using oq(2) [OF lw(1)] os(2) [OF lw(2)] w(2) norm by metis
    show "\<forall>i < si_nq sys. (\<forall>k \<in> ?K. i < k \<or> k + 4 \<le> i) \<longrightarrow> q' ! i = q ! i \<and> s' ! i = s ! i"
      using oq(3) [OF lw(1)] os(3) [OF lw(2)] len by metis
  qed
qed

subsection \<open>Import and export\<close>

lemma bridge_make_Inr:
  assumes "bridge_make_coordinate_state sys t x p = (Inr y, p')" and "system_ok sys" "same_model (si_model sys) (br_geometry p)"
  obtains s where "y = \<lparr>cs_time = t, cs_q = segment 0 (si_nq sys) x, cs_s = s, cs_z = segment (si_nq sys + si_nv sys) (si_nz sys) x\<rparr>"
    and "isfinite t" "length x = continuous_state_size sys" "all_finite x" "all_finite s"
    and "mm_map_velocity_to_qdot (si_model sys) (mc_state (br_geometry p')) (segment (si_nq sys) (si_nv sys) x) = Inr s"
    and "ms_positions (mc_state (br_geometry p')) = segment 0 (si_nq sys) x"
    and "require_quaternions (si_model sys) (segment 0 (si_nq sys) x) = Inr ()"
    and "same_model (si_model sys) (br_geometry p')"
    and "\<forall>n. geometry_versions (Suc n) p \<longrightarrow> geometry_versions n p'"
proof -
  let ?s = "mc_state (br_geometry p)"
  have wf: "mstate_wf ?s" "ms_layout ?s = mm_layout (si_model sys)" "mc_issuer (br_geometry p) = mm_identity (si_model sys)"
    using assms(3) by (simp_all add: same_model_def)
  obtain g s where x: "isfinite t" "length x = continuous_state_size sys" "all_finite x"
    and g: "model_set_generalized_state (si_model sys) (segment 0 (si_nq sys) x) (segment (si_nq sys) (si_nv sys) x) (br_geometry p) = (Inr (), g)"
    and m: "map_velocity sys (segment (si_nq sys) (si_nv sys) x) (p\<lparr>br_geometry := g\<rparr>) = (Inr s, p')"
    and y: "y = \<lparr>cs_time = t, cs_q = segment 0 (si_nq sys) x, cs_s = s, cs_z = segment (si_nq sys + si_nv sys) (si_nz sys) x\<rparr>"
    using assms(1) by (auto simp: bridge_make_coordinate_state_def effect_outcome Let_def on_geometry_run split: if_splits)
  note mv = map_velocity_Inr [OF m]
  obtain vq vv where r: "require_quaternions (si_model sys) (segment 0 (si_nq sys) x) = Inr ()"
    and n: "next_version (ms_positions_version ?s) = Inr vq" "next_version (ms_velocities_version ?s) = Inr vv"
    and l: "int (length (segment 0 (si_nq sys) x)) = mm_nq (si_model sys)" "int (length (segment (si_nq sys) (si_nv sys) x)) = mm_nv (si_model sys)"
    and gd: "g = (br_geometry p)\<lparr>mc_state := ?s\<lparr>ms_positions := segment 0 (si_nq sys) x,
       ms_velocities := segment (si_nq sys) (si_nv sys) x, ms_positions_version := vq, ms_velocities_version := vv\<rparr>\<rparr>"
    using g unfolding model_set_generalized_state_Inr [OF wf(1)] by blast
  have "mstate_wf (mc_state g)"
    using wf l x(3) by (simp add: gd mstate_wf_def Let_def mm_nq_def mm_nv_def all_finite_segment)
  then have sm: "same_model (si_model sys) g" using wf by (simp add: gd same_model_def)
  show thesis
  proof (rule that [OF y x mv(2)])
    show "mm_map_velocity_to_qdot (si_model sys) (mc_state (br_geometry p')) (segment (si_nq sys) (si_nv sys) x) = Inr s"
      using mv(1,3) by simp
    show "ms_positions (mc_state (br_geometry p')) = segment 0 (si_nq sys) x" using mv(1) by (simp add: gd)
    show "same_model (si_model sys) (br_geometry p')" using mv(1) sm by simp
    show "\<forall>n. geometry_versions (Suc n) p \<longrightarrow> geometry_versions n p'"
      using next_version_revision n mv(1) by (simp add: geometry_versions_def gd)
  qed (rule r)
qed

text \<open>C23: Importing a physical state and exporting it again gives it back: the coordinate rates that were made from
  its velocities are turned into the same velocities, positions and series states are untouched, and neither
  conversion touches the physics.\<close>

theorem coordinate_round_trip:
  assumes "system_ok sys" and "tree_maps_ok (si_model sys)" and "bridge_wf sys p" and "geometry_versions 2 p"
    and "bridge_make_coordinate_state sys t x p = (Inr y, p')"
  shows "cs_time y = t \<and> br_trial p' = br_trial p \<and>
    (\<exists>p''. bridge_copy_physical_state sys y (continuous_state_size sys) p' = (Inr x, p'') \<and> br_trial p'' = br_trial p)"
proof -
  have sm: "same_model (si_model sys) (br_geometry p)" using assms(3) by (simp add: bridge_wf_def)
  obtain s where y: "y = \<lparr>cs_time = t, cs_q = segment 0 (si_nq sys) x, cs_s = s, cs_z = segment (si_nq sys + si_nv sys) (si_nz sys) x\<rparr>"
    and x: "isfinite t" "length x = continuous_state_size sys" "all_finite x" "all_finite s"
    and m: "mm_map_velocity_to_qdot (si_model sys) (mc_state (br_geometry p')) (segment (si_nq sys) (si_nv sys) x) = Inr s"
    and q: "ms_positions (mc_state (br_geometry p')) = segment 0 (si_nq sys) x"
    and r: "require_quaternions (si_model sys) (segment 0 (si_nq sys) x) = Inr ()"
    and sm': "same_model (si_model sys) (br_geometry p')"
    and less: "\<forall>n. geometry_versions (Suc n) p \<longrightarrow> geometry_versions n p'"
    by (rule bridge_make_Inr [OF assms(5,1) sm])
  have gv: "geometry_versions (Suc 0) p'" using less assms(4) by (simp add: numeral_2_eq_2)
  let ?q = "segment 0 (si_nq sys) x" let ?v = "segment (si_nq sys) (si_nv sys) x" let ?z = "segment (si_nq sys + si_nv sys) (si_nz sys) x"
  have parts: "length ?q = si_nq sys" "length ?v = si_nv sys" "length ?z = si_nz sys" "all_finite ?q" "all_finite ?v" "all_finite ?z"
    using x(2,3) by (simp_all add: continuous_state_size_def all_finite_segment)
  have model: "mm_nq (si_model sys) = int (si_nq sys)" "mm_nv (si_model sys) = int (si_nv sys)"
    "mm_finalized (si_model sys)" "\<not> mm_finalization_failed (si_model sys)"
    using assms(1) by (simp_all add: system_ok_def Let_def)
  have ls: "length s = si_nq sys" using m assms(2) model(1) unfolding tree_maps_ok_def by (metis of_nat_eq_iff)
  obtain g where g: "on_geometry (model_set_generalized_positions (si_model sys) ?q) p' = (Inr (), p'\<lparr>br_geometry := g\<rparr>)"
    "ms_positions (mc_state g) = ?q" "same_model (si_model sys) g"
    by (rule geometry_set_positions [OF assms(1) sm' gv parts(1,4) r])
  have same: "ms_positions (mc_state g) = ms_positions (mc_state (br_geometry p'))" using g(2) q by simp
  have n: "mm_map_velocity_to_qdot (si_model sys) (mc_state g) ?v = Inr s"
    using m same assms(2) unfolding tree_maps_ok_def by metis
  then have undo: "mm_map_qdot_to_velocity (si_model sys) (mc_state g) s = ?v"
    using assms(2) parts(2) model(2) unfolding tree_maps_ok_def by metis
  have guards: "throw_if_not_finalized (si_model sys) = Inr ()" "require_own_context (si_model sys) g = Inr ()"
    "validate_state_instance (si_model sys) g = Inr ()"
    using model g(3) by (simp_all add: throw_if_not_finalized_def all_checks.simps require_own_context_def
        validate_state_instance_def same_model_def)
  have "bridge_copy_physical_state sys y (continuous_state_size sys) p' = (Inr (?q @ ?v @ ?z), p'\<lparr>br_geometry := g\<rparr>)"
    using parts x ls
    by (simp add: bridge_copy_physical_state_def effect_simps y validate_coordinates_def recover_velocity_def map_velocity_def g(1)
        map_position_derivatives_to_velocities_def map_velocities_to_position_derivatives_def guards model undo n
        require_finite_mapping_def)
  moreover have "?q @ ?v @ ?z = x" using three_blocks_finite(2) x(2) by (simp add: continuous_state_size_def)
  moreover have "br_trial p' = br_trial p"
    using geometry_callbacks_trial(2) assms(5) unfolding stays_within_def keeps_trial_def by blast
  ultimately show ?thesis by (auto simp: y)
qed

text \<open>C24: Dense output interpolates rotations as rotations.  For valid arguments the interpolation always
  succeeds - the blend of two unit quaternions on the shorter arc cannot vanish - and is finite; the end
  fractions return the end states themselves; in between every quaternion block has the norm of the
  reference's and every other entry is the linear interpolation.  Anything else is refused, and the physics
  trial context is never touched.\<close>

theorem interpolation_outcome:
  assumes "system_ok sys" and "quaternions_ok sys" and "bridge_wf sys p" and "geometry_versions 4 p"
    and "bridge_interpolate sys reference start stop fraction n p = (r, p')"
  shows "br_trial p' = br_trial p \<and>
    (if interpolation_valid sys reference start stop fraction n then
       \<exists>x. r = Inr x \<and> length x = continuous_state_size sys \<and> all_finite x \<and>
         (fraction = 0 \<longrightarrow> x = start) \<and> (fraction = 1 \<longrightarrow> x = stop) \<and>
         (0 < fraction \<and> fraction < 1 \<longrightarrow>
            (\<forall>k \<in> set (quaternion_starts sys). squared_norm (segment k 4 x) = squared_norm (segment k 4 reference)) \<and>
            (\<forall>i < continuous_state_size sys. (\<forall>k \<in> set (quaternion_starts sys). i < k \<or> k + 4 \<le> i) \<longrightarrow>
               x ! i = std_lerp (start ! i) (stop ! i) fraction))
     else \<exists>e. r = Inl e)"
proof -
  have trial: "br_trial p' = br_trial p"
    using geometry_callbacks_trial(1) assms(5) unfolding stays_within_def keeps_trial_def by blast
  show ?thesis
  proof (cases "interpolation_valid sys reference start stop fraction n")
    case False
    then have "\<nexists>x. r = Inr x" using bridge_interpolate_valid assms(5) by blast
    then show ?thesis using False trial by (cases r) auto
  next
    case valid: True
    note v = valid [unfolded interpolation_valid_def]
    have sm: "same_model (si_model sys) (br_geometry p)" using assms(3) by (simp add: bridge_wf_def)
    obtain u where "bridge_interpolate sys reference start stop fraction n p =
        (Inr (if feq fraction 0 then start else if feq fraction 1 then stop else interpolated sys reference start stop fraction), u)"
      by (rule bridge_interpolate_run [OF assms(1,2) sm assms(4) valid])
    then have r: "r = Inr (if feq fraction 0 then start else if feq fraction 1 then stop
        else interpolated sys reference start stop fraction)" using assms(5) by simp
    obtain t where t: "fraction = Fin t" using v by (cases fraction) auto
    then have tt: "0 \<le> t" "t \<le> 1" using v by auto
    have args: "length reference = si_nq sys" "length start = continuous_state_size sys" "length stop = continuous_state_size sys"
      "all_finite reference" "all_finite start" "all_finite stop"
      "require_quaternions (si_model sys) reference = Inr ()"
      "require_quaternions (si_model sys) (segment 0 (si_nq sys) start) = Inr ()"
      "require_quaternions (si_model sys) (segment 0 (si_nq sys) stop) = Inr ()" using v by simp_all
    note f = interpolated_facts [OF assms(2) args tt]
    show ?thesis using valid trial r f(1-4) args t by simp
  qed
qed

text \<open>The endpoint projection restores rotations and nothing else: in an accepted projection every
  quaternion block keeps its direction and gets the norm of the reference's, all other positions and rates
  are bit for bit what they were, and the callback reports a change exactly when an entry changed.\<close>

theorem projection_outcome:
  assumes "system_ok sys" and "quaternions_ok sys" and "tree_maps_ok (si_model sys)"
    and "bridge_project sys reference q s p = (Inr (changed, q', s'), p')"
  shows "br_trial p' = br_trial p \<and> length q' = length q \<and> length s' = length s \<and> (changed \<longleftrightarrow> q' \<noteq> q \<or> s' \<noteq> s) \<and>
    (\<forall>k \<in> set (quaternion_starts sys). squared_norm (segment k 4 q') = squared_norm (segment k 4 reference) \<and>
       segment k 4 q' = restore_norm (segment k 4 reference) (segment k 4 q)) \<and>
    (\<forall>i < si_nq sys. (\<forall>k \<in> set (quaternion_starts sys). i < k \<or> k + 4 \<le> i) \<longrightarrow> q' ! i = q ! i \<and> s' ! i = s ! i)"
proof -
  have "br_trial p' = br_trial p"
    using geometry_callbacks_trial(5) assms(4) unfolding stays_within_def keeps_trial_def by blast
  with bridge_project_Inr [OF assms(4,1-3)] show ?thesis by (metis (no_types, lifting))
qed

subsection \<open>The bridge keeps the contract of the cores\<close>

text \<open>What the advancers assume of a bridge holds of this one.\<close>

lemma bridge_evaluate_Inr:
  assumes "bridge_evaluate rot sys t q s z bn gn p = (Inr (b, g), p')"
  obtains v p2 p3 dx where "recover_velocity sys q s p = (Inr v, p2)"
    and "on_trial (rhs_calc_time_derivatives rot sys t (q @ v @ z) (continuous_state_size sys)) p2 = (Inr dx, p3)"
    and "bindS (component_view sys (br_trial p3) (multibody_component sys)) (\<lambda>component.
       map_accelerations_to_second_derivatives (si_model sys) component (segment (si_nq sys) (si_nv sys) dx) (int (si_nq sys))) = Inr b"
    and "g = segment (si_nq sys + si_nv sys) (si_nz sys) dx"
  using assms by (auto simp: bridge_evaluate_def effect_outcome simp del: bindS_eq_Inr split: if_splits)

lemma bridge_evaluate_sizes:
  assumes "bridge_evaluate rot sys t q s z bn gn p = (Inr (b, g), p')" and "system_ok sys" "tree_maps_ok (si_model sys)"
    and "\<forall>m. dynamics_sized (si_model sys) m"
  shows "length b = si_nq sys" and "length g = si_nz sys"
proof -
  from assms(1) obtain v p2 p3 dx where
    ev: "on_trial (rhs_calc_time_derivatives rot sys t (q @ v @ z) (continuous_state_size sys)) p2 = (Inr dx, p3)"
    and acc: "bindS (component_view sys (br_trial p3) (multibody_component sys)) (\<lambda>component.
       map_accelerations_to_second_derivatives (si_model sys) component (segment (si_nq sys) (si_nv sys) dx) (int (si_nq sys))) = Inr b"
    and g: "g = segment (si_nq sys + si_nv sys) (si_nz sys) dx"
    by (rule bridge_evaluate_Inr)
  obtain c' where b: "map_accelerations_to_second_derivatives (si_model sys) c' (segment (si_nq sys) (si_nv sys) dx)
        (int (si_nq sys)) = Inr b" using acc by (auto simp: bindS_eq_Inr)
  obtain c d where run: "rhs_calc_time_derivatives rot sys t (q @ v @ z) (continuous_state_size sys) c = (Inr dx, d)"
    using ev by (auto simp: on_trial_run)
  have model: "mm_nq (si_model sys) = int (si_nq sys)" "mm_nv (si_model sys) = int (si_nv sys)"
    using assms(2) by (simp_all add: system_ok_def Let_def)
  obtain m a where "mm_map_acceleration_to_qddot (si_model sys) m a = Inr b"
    using b by (auto simp: map_accelerations_to_second_derivatives_def bindS_eq_Inr)
  then show "length b = si_nq sys" using assms(3) model(1) unfolding tree_maps_ok_def by (metis of_nat_eq_iff)
  obtain m where "calc_state_time_derivatives rot sys m (continuous_state_size sys) = Inr dx"
    using run by (auto simp: rhs_calc_time_derivatives_def effect_outcome)
  then obtain wrenches rates vdot where forces: "calc_all_forces rot sys (sc_multibody m) m = (Inr (wrenches, rates))"
    and v: "mm_forward_dynamics (si_model sys) (mc_state (sc_multibody m)) wrenches = Inr vdot"
    and dx: "dx = (mm_qdot (si_model sys) (mc_state (sc_multibody m)) @ vdot) @ rates"
    using calc_derivatives_Inr by metis
  from forces have "length rates = si_nz sys" using calc_all_forces_rates assms(2) by blast
  moreover have "length vdot = si_nv sys" using v assms(4) model(2) unfolding dynamics_sized_def by (metis of_nat_eq_iff)
  moreover have "length (mm_qdot (si_model sys) (mc_state (sc_multibody m))) = si_nq sys"
    using assms(4) model(1) unfolding dynamics_sized_def by (metis of_nat_eq_iff)
  ultimately show "length g = si_nz sys" by (simp add: g dx continuous_state_size_def)
qed

lemma system_problem_ok:
  assumes "system_ok sys" and "quaternions_ok sys" and "tree_maps_ok (si_model sys)" and "\<forall>m. dynamics_sized (si_model sys) m"
  shows "bridge_ok (system_problem rot sys p)"
  unfolding bridge_ok_def problem_ok_def
proof (intro conjI allI impI)
  fix t q s z b g
  assume "cp_evaluate (scp_problem (system_problem rot sys p)) t q s z = Inr (b, g)"
  then obtain p' where "bridge_evaluate rot sys t q s z (si_nq sys) (si_nz sys) p = (Inr (b, g), p')"
    by (cases "bridge_evaluate rot sys t q s z (si_nq sys) (si_nz sys) p") (auto simp: system_problem_def)
  from bridge_evaluate_sizes [OF this assms(1,3,4)]
  show "int (length b) = cp_coordinate_size (scp_problem (system_problem rot sys p))"
    "int (length g) = cp_internal_state_size (scp_problem (system_problem rot sys p))"
    by (simp_all add: system_problem_def)
next
  fix r q s changed q' s'
  assume "cp_project_endpoint (scp_problem (system_problem rot sys p)) r q s = Inr (changed, q', s')"
  then obtain p' where "bridge_project sys r q s p = (Inr (changed, q', s'), p')"
    by (cases "bridge_project sys r q s p") (auto simp: system_problem_def)
  from bridge_project_Inr [OF this assms(1-3)]
  show "length q' = length q" "length s' = length s" "\<not> changed \<Longrightarrow> q' = q" "\<not> changed \<Longrightarrow> s' = s" by blast+
next
  fix t x y
  assume "scp_make_coordinate_state (system_problem rot sys p) t x = Inr y"
  then show "cs_time y = t"
    by (auto simp: system_problem_def bridge_make_coordinate_state_def effect_simps Let_def split: prod.splits sum.splits if_splits)
qed

subsection \<open>One free body\<close>

definition floating_layout :: state_layout where
  "floating_layout = \<lparr>sl_description = \<lparr>ld_generalized_position_count = 7,
     ld_generalized_velocity_count = 6, ld_rigid_body_count = 1, ld_fixed_frame_count = 0,
     ld_joint_velocity_counts = [], ld_joint_actuator_count = 0, ld_revolute_spring_count = 0,
     ld_linear_bushing_count = 0\<rparr>, sl_joint_damping_starts = [], sl_total_joint_damping_count = 0\<rparr>"

text \<open>The rate map of this body is the one at the identity rotation, up to the factor of the angular part.\<close>

definition floating_model :: multibody_model where
  "floating_model = \<lparr>mm_identity = 4, mm_finalized = True, mm_finalization_failed = False,
     mm_layout = floating_layout, mm_body_names = [''world'', ''body''], mm_frame_bodies = [0, 1],
     mm_default_state = make_mstate floating_layout, mm_quaternion_starts = [0], mm_joint_slots = [],
     mm_forward_dynamics = (\<lambda>s ws. Inr [0, 0, 0, 0, 0, Fin (- 10)]), mm_qdot = (\<lambda>s. take 7 ([0] @ ms_velocities s @ replicate 7 0)),
     mm_map_velocity_to_qdot = (\<lambda>s v. if length v = 6 then Inr (0 # v) else Inl RuntimeError),
     mm_map_qdot_to_velocity = (\<lambda>s qdot. drop 1 qdot),
     mm_map_acceleration_to_qddot = (\<lambda>s a. if length a = 6 then Inr (0 # a) else Inl RuntimeError),
     mm_body_pose = (\<lambda>s body. (identity3, zero3)), mm_frame_pose = (\<lambda>s frame. (identity3, zero3)),
     mm_frame_offset = (\<lambda>s frame. zero3), mm_relative_velocity = (\<lambda>s f b e. (zero3, zero3))\<rparr>"

definition floating_system :: system_instance where
  "floating_system = \<lparr>si_identity = 5, si_description =
     \<lparr>sd_model = floating_model, sd_force_plan = None, sd_contact_plan = None, sd_torque_plan = None,
      sd_nq = 7, sd_nv = 6, sd_nz = 0, sd_nominal = 0, sd_vehicle_wrenches = 0, sd_contact_wrenches = 0,
      sd_torque_wrenches = 0, sd_held = 0\<rparr>\<rparr>"

definition floating_context :: system_context where
  "floating_context = \<lparr>sc_issuer = 5, sc_time = 0, sc_multibody = \<lparr>mc_issuer = 4, mc_state = make_mstate floating_layout\<rparr>,
     sc_series = [], sc_nominal = [], sc_held = [], sc_hints = []\<rparr>"

definition floating_bridge :: bridge_state where
  "floating_bridge = \<lparr>br_trial = floating_context, br_geometry = \<lparr>mc_issuer = 4, mc_state = make_mstate floating_layout\<rparr>\<rparr>"

definition identity_state :: vec where
  "identity_state = [1, 0, 0, 0, 0, 0, 0]"

definition turned_state :: vec where
  "turned_state = [0, 1, 0, 0, 4, 0, 0]"

definition drift :: vec where
  "drift = [0, 0, 0, 1, 2, 3]"

definition scaled_state :: vec where
  "scaled_state = [2, 0, 0, 0, 5, 0, 0]"

definition no_rate :: vec where
  "no_rate = replicate 7 0"

definition no_velocity :: vec where
  "no_velocity = replicate 6 0"

lemma make_mstate_simps [simp]:
  "ms_layout (make_mstate l) = l" "ms_positions_version (make_mstate l) = initial_version"
  "ms_velocities_version (make_mstate l) = initial_version"
  by (simp_all add: make_mstate_def Let_def)

lemma floating_state_wf: "mstate_wf (make_mstate floating_layout)"
  by (rule make_mstate_wf) (simp add: layout_wf_def make_layout_def floating_layout_def layout_require_nonnegative_def
      reject_if_def all_checks.simps)

lemma floating_system_described: "\<exists>d. describe_model floating_model = Inr d \<and> fst (make_system 4 d) = floating_system"
  by (simp add: describe_model_def throw_if_not_finalized_def all_checks.simps make_system_def floating_system_def mm_nq_def mm_nv_def)
    (simp add: floating_model_def floating_layout_def)

lemma floating_facts:
  "system_ok floating_system" "quaternions_ok floating_system" "tree_maps_ok (si_model floating_system)"
  "context_wf floating_system floating_context" "bridge_wf floating_system floating_bridge"
  "geometry_versions 4 floating_bridge"
proof -
  show "system_ok floating_system"
    using floating_state_wf
    by (simp add: system_ok_def floating_system_def Let_def mm_nq_def mm_nv_def slots_ok_def floating_model_def)
      (simp add: floating_layout_def)
  show "quaternions_ok floating_system"
    by (simp add: quaternions_ok_def floating_system_def floating_model_def disjoint_blocks_def)
  show "tree_maps_ok (si_model floating_system)"
    by (simp add: tree_maps_ok_def floating_system_def floating_model_def mm_nq_def mm_nv_def floating_layout_def)
  show c: "context_wf floating_system floating_context"
    using floating_state_wf
    by (simp add: context_wf_def floating_system_def floating_context_def Let_def same_model_def floating_model_def
        expected_hint_count_def)
  then show "bridge_wf floating_system floating_bridge"
    by (simp add: bridge_wf_def floating_bridge_def context_wf_def floating_context_def Let_def)
  show "geometry_versions 4 floating_bridge"
    by (simp add: geometry_versions_def floating_bridge_def revision_def initial_version_def)
qed

lemma floating_quaternions:
  "require_quaternions (si_model floating_system) (w # x # y # z # rest) = Inr () \<longleftrightarrow> quaternion_convertible [w, x, y, z]"
  by (simp add: require_quaternions_Inr floating_system_def floating_model_def segment_def)

lemma floating_geometry_write:
  assumes "length q = 7" "length v = 6" "all_finite q" "all_finite v" "quaternion_convertible (take 4 q)"
  obtains g where "on_geometry (model_set_generalized_state (si_model floating_system) q v) floating_bridge =
      (Inr (), floating_bridge\<lparr>br_geometry := g\<rparr>)" and "mc_issuer g = 4" and "ms_layout (mc_state g) = floating_layout"
proof -
  have wf: "mstate_wf (mc_state (br_geometry floating_bridge))" using floating_state_wf by (simp add: floating_bridge_def)
  obtain a where n: "next_version initial_version = Inr a"
    using ex_next_version [of initial_version] by (auto simp: revision_def initial_version_def)
  have r: "require_quaternions (si_model floating_system) q = Inr ()"
    using assms(5) by (simp add: require_quaternions_Inr floating_system_def floating_model_def segment_def)
  define g where "g = (br_geometry floating_bridge)\<lparr>mc_state := (mc_state (br_geometry floating_bridge))\<lparr>ms_positions := q,
     ms_velocities := v, ms_positions_version := a, ms_velocities_version := a\<rparr>\<rparr>"
  have "model_set_generalized_state (si_model floating_system) q v (br_geometry floating_bridge) = (Inr (), g)"
    unfolding model_set_generalized_state_Inr [OF wf]
    using assms r n by (simp add: g_def floating_bridge_def floating_system_def floating_model_def mm_nq_def mm_nv_def floating_layout_def)
  then show thesis using that [of g] by (simp add: on_geometry_def g_def floating_bridge_def)
qed

lemma floating_import:
  obtains y g where "bridge_make_coordinate_state floating_system 3 (identity_state @ drift) floating_bridge =
    (Inr y, floating_bridge\<lparr>br_geometry := g\<rparr>)"
proof -
  let ?v = "drift" let ?x = "identity_state @ ?v"
  have d: "si_nq floating_system = 7" "si_nv floating_system = 6" "si_nz floating_system = 0" "continuous_state_size floating_system = 13"
    by (simp_all add: floating_system_def continuous_state_size_def)
  have x: "segment 0 7 ?x = identity_state" "segment 7 6 ?x = ?v" "length ?x = 13" "all_finite ?x"
    by (simp_all add: identity_state_def drift_def segment_def)
  have "quaternion_convertible (take 4 identity_state)"
    by (simp add: identity_state_def quaternion_convertible_def squared_norm_def)
  then obtain g where g: "on_geometry (model_set_generalized_state (si_model floating_system) identity_state ?v) floating_bridge =
      (Inr (), floating_bridge\<lparr>br_geometry := g\<rparr>)" "mc_issuer g = 4" "ms_layout (mc_state g) = floating_layout"
    by (rule floating_geometry_write [of identity_state ?v, rotated 4]) (simp_all add: identity_state_def drift_def)
  have parts: "length identity_state = 7" "all_finite identity_state" "length drift = 6" "all_finite drift"
    by (simp_all add: identity_state_def drift_def)
  then have "map_velocity floating_system ?v (floating_bridge\<lparr>br_geometry := g\<rparr>) = (Inr (0 # ?v), floating_bridge\<lparr>br_geometry := g\<rparr>)"
    using g(2,3)
    by (simp add: map_velocity_def effect_simps map_velocities_to_position_derivatives_def throw_if_not_finalized_def
        require_own_context_def validate_state_instance_def all_checks.simps require_finite_mapping_def d)
      (simp add: floating_system_def floating_model_def mm_nq_def mm_nv_def floating_layout_def)
  then have "\<exists>y. bridge_make_coordinate_state floating_system 3 ?x floating_bridge = (Inr y, floating_bridge\<lparr>br_geometry := g\<rparr>)"
    using g(1) parts by (simp add: bridge_make_coordinate_state_def effect_simps d x Let_def)
  then show thesis using that by blast
qed

theorem coordinate_round_trip_witness:
  "\<exists>y p' p''. bridge_make_coordinate_state floating_system 3 (identity_state @ drift) floating_bridge = (Inr y, p') \<and>
     bridge_copy_physical_state floating_system y 13 p' = (Inr (identity_state @ drift), p'')"
proof -
  obtain y p' where y: "bridge_make_coordinate_state floating_system 3 (identity_state @ drift) floating_bridge = (Inr y, p')"
    by (rule floating_import)
  have d: "continuous_state_size floating_system = 13" by (simp add: floating_system_def continuous_state_size_def)
  have "geometry_versions 2 floating_bridge" using floating_facts(6) by (simp add: geometry_versions_def)
  from coordinate_round_trip [OF floating_facts(1,3,5) this y] y d show ?thesis by auto
qed

theorem interpolation_outcome_witness:
  "\<exists>x p'. bridge_interpolate floating_system [2, 0, 0, 0, 0, 0, 0] (identity_state @ replicate 6 0) (turned_state @ replicate 6 0) half 13
      floating_bridge = (Inr x, p') \<and> squared_norm (segment 0 4 x) = 4 \<and> x ! 4 = 2"
proof -
  let ?r = "[2, 0, 0, 0, 0, 0, 0] :: vec" let ?s = "identity_state @ replicate 6 0" let ?e = "turned_state @ replicate 6 0"
  have d: "si_nq floating_system = 7" "continuous_state_size floating_system = 13" "quaternion_starts floating_system = [0]"
    by (simp_all add: floating_system_def continuous_state_size_def floating_model_def)
  have v: "interpolation_valid floating_system ?r ?s ?e half 13"
    by (simp add: interpolation_valid_def d require_quaternions_Inr segment_def identity_state_def turned_state_def
        quaternion_convertible_def squared_norm_def)
  obtain r p' where run: "bridge_interpolate floating_system ?r ?s ?e half 13 floating_bridge = (r, p')" by fastforce
  have "?s ! 4 = 0" "?e ! 4 = 4" "squared_norm (segment 0 4 ?r) = 4"
    by (simp_all add: identity_state_def turned_state_def squared_norm_def segment_def)
  with interpolation_outcome [OF floating_facts(1,2,5,6) run] v run d show ?thesis
    by (auto simp: std_lerp_def)
qed

theorem projection_outcome_witness:
  "\<exists>changed q' s' p'. bridge_project floating_system identity_state scaled_state no_rate floating_bridge =
      (Inr (changed, q', s'), p') \<and> squared_norm (segment 0 4 q') = 1 \<and> q' ! 4 = 5"
proof -
  let ?q = "scaled_state" let ?s = "no_rate"
  let ?set = "\<lambda>q. on_geometry (model_set_generalized_positions (si_model floating_system) q)"
  have d: "si_nq floating_system = 7" "si_nv floating_system = 6" "quaternion_starts floating_system = [0]"
    by (simp_all add: floating_system_def floating_model_def)
  have conv: "require_quaternions (si_model floating_system) q = Inr () \<longleftrightarrow> quaternion_convertible (take 4 q)" for q
    by (simp add: require_quaternions_Inr d segment_def)
  have sm: "same_model (si_model floating_system) (br_geometry floating_bridge)"
    using floating_facts(5) by (simp add: bridge_wf_def)
  have gv: "geometry_versions (Suc 3) floating_bridge" using floating_facts(6) by simp
  have i: "length identity_state = si_nq floating_system" "all_finite identity_state"
    "require_quaternions (si_model floating_system) identity_state = Inr ()"
    by (simp_all add: d conv identity_state_def quaternion_convertible_def squared_norm_def)
  obtain g1 where g1: "?set identity_state floating_bridge = (Inr (), floating_bridge\<lparr>br_geometry := g1\<rparr>)"
    "same_model (si_model floating_system) g1" "geometry_versions 3 (floating_bridge\<lparr>br_geometry := g1\<rparr>)"
    by (rule geometry_set_positions [OF floating_facts(1) sm gv i])
  have m1: "same_model (si_model floating_system) (br_geometry (floating_bridge\<lparr>br_geometry := g1\<rparr>))"
    "geometry_versions (Suc 2) (floating_bridge\<lparr>br_geometry := g1\<rparr>)" using g1(2,3) by simp_all
  have q: "length ?q = si_nq floating_system" "all_finite ?q" "require_quaternions (si_model floating_system) ?q = Inr ()"
    by (simp_all add: d conv quaternion_convertible_def squared_norm_def scaled_state_def)
  obtain g2 where g2: "?set ?q (floating_bridge\<lparr>br_geometry := g1\<rparr>) = (Inr (), floating_bridge\<lparr>br_geometry := g2\<rparr>)"
    "same_model (si_model floating_system) g2" "geometry_versions 2 (floating_bridge\<lparr>br_geometry := g2\<rparr>)"
    by (rule geometry_set_positions [OF floating_facts(1) m1 q]) simp
  have m2: "same_model (si_model floating_system) (br_geometry (floating_bridge\<lparr>br_geometry := g2\<rparr>))"
    "geometry_versions (Suc 1) (floating_bridge\<lparr>br_geometry := g2\<rparr>)" using g2(2,3) by (simp_all add: eval_nat_numeral)
  let ?w = "put_segment 0 (restore_norm (segment 0 4 identity_state) (segment 0 4 ?q)) ?q"
  have w: "?w = [1, 0, 0, 0, 5, 0, 0]"
    by (simp add: put_segment_def segment_def identity_state_def scaled_state_def restore_norm_def vec_norm_def squared_norm_def)
  have wq: "length ?w = si_nq floating_system" "all_finite ?w" "require_quaternions (si_model floating_system) ?w = Inr ()"
    unfolding w by (simp_all add: d conv quaternion_convertible_def squared_norm_def)
  obtain g3 where g3: "?set ?w (floating_bridge\<lparr>br_geometry := g2\<rparr>) = (Inr (), floating_bridge\<lparr>br_geometry := g3\<rparr>)"
    "same_model (si_model floating_system) g3"
    by (rule geometry_set_positions [OF floating_facts(1) m2 wq]) simp
  have maps: "map_position_derivatives_to_velocities (si_model floating_system) g ?s 6 = Inr no_velocity"
    "map_velocities_to_position_derivatives (si_model floating_system) g no_velocity 7 = Inr ?s"
    if "same_model (si_model floating_system) g" for g
    using that
    by (simp_all add: map_position_derivatives_to_velocities_def map_velocities_to_position_derivatives_def throw_if_not_finalized_def
        require_own_context_def validate_state_instance_def all_checks.simps same_model_def)
      (simp_all add: floating_system_def floating_model_def mm_nq_def mm_nv_def floating_layout_def eval_nat_numeral no_rate_def
        no_velocity_def)
  have z: "length no_rate = 7" "all_finite no_rate" "length no_velocity = 6" "all_finite no_velocity"
    by (simp_all add: no_rate_def no_velocity_def)
  have "\<exists>changed q' s' p'. bridge_project floating_system identity_state ?q ?s floating_bridge = (Inr (changed, q', s'), p')"
    using i q z
    by (simp add: bridge_project_def effect_simps d g1(1) recover_velocity_def g2(1) maps [OF g2(2)] require_finite_mapping_def g3(1)
        map_velocity_def maps [OF g3(2)] Let_def)
  then obtain changed q' s' p' where
    run: "bridge_project floating_system identity_state ?q ?s floating_bridge = (Inr (changed, q', s'), p')" by blast
  have n: "squared_norm (segment 0 4 identity_state) = 1" by (simp add: squared_norm_def identity_state_def segment_def)
  have "?q ! 4 = 5" by (simp add: scaled_state_def)
  with projection_outcome [OF floating_facts(1-3) run] n run show ?thesis by (auto simp: d)
qed

end
