(* ===== verification/Trial_Independence.thy ===== *)
theory Trial_Independence
  imports System_Coordinate_Problem
begin

section \<open>integrators: callbacks forget their history\<close>

text \<open>
  The numerical cores treat the problem of \<open>coordinate_second_order_problem.h\<close> as a function of its arguments.
  The real bridge evaluates it on two mutable contexts that every call overwrites.  This theory proves that the
  two views agree: two bridges whose contexts differ only in time, coordinates, series states and version
  numbers define the same coordinate problem.  The proofs are relational: \<open>lockstep P Q m\<close> runs one effect
  from two related states.
\<close>

subsection \<open>Two runs of one effect\<close>

definition lockstep :: "('s \<Rightarrow> 's \<Rightarrow> bool) \<Rightarrow> ('s \<Rightarrow> 's \<Rightarrow> bool) \<Rightarrow> ('s, 'a) effect \<Rightarrow> bool" where
  "lockstep P Q m \<longleftrightarrow>
     (\<forall>s t. P s t \<longrightarrow> fst (m s) = fst (m t) \<and> (\<forall>a. fst (m s) = Inr a \<longrightarrow> Q (snd (m s)) (snd (m t))))"

lemma lockstepD: "lockstep P Q m \<Longrightarrow> P s t \<Longrightarrow> fst (m s) = fst (m t)"
  by (simp add: lockstep_def)

lemma lockstep_bindE:
  assumes "lockstep P Q m" and "\<And>a. lockstep Q R (k a)"
  shows "lockstep P R (bindE m k)"
  unfolding lockstep_def
proof (intro allI impI)
  fix s t
  assume p: "P s t"
  obtain r s' where s: "m s = (r, s')" by fastforce
  obtain r' t' where t: "m t = (r', t')" by fastforce
  have r: "r' = r" and q: "\<And>a. r = Inr a \<Longrightarrow> Q s' t'" using assms(1) p s t unfolding lockstep_def by (metis fst_conv snd_conv)+
  show "fst (bindE m k s) = fst (bindE m k t) \<and> (\<forall>a. fst (bindE m k s) = Inr a \<longrightarrow> R (snd (bindE m k s)) (snd (bindE m k t)))"
  proof (cases r)
    case (Inl e)
    then show ?thesis using s t r by (simp add: bindE_def)
  next
    case (Inr a)
    then have "Q s' t'" by (rule q)
    then show ?thesis using assms(2) [of a] s t r Inr by (simp add: bindE_def lockstep_def)
  qed
qed

lemma lockstep_seqE: "lockstep P Q m \<Longrightarrow> lockstep Q R k \<Longrightarrow> lockstep P R (seqE m k)"
  unfolding seqE_def by (rule lockstep_bindE)

lemma lockstep_pure:
  "lockstep P P (ret a)" "lockstep P P (rejectE (\<lambda>_. b) e)" "lockstep P P (callE (\<lambda>_. f))"
  by (simp_all add: lockstep_def effect_prims)

lemma lockstep_callE: "(\<And>s t. P s t \<Longrightarrow> f s = f t) \<Longrightarrow> lockstep P P (callE f)"
  by (simp add: lockstep_def callE_def)

lemma lockstep_if: "lockstep P Q m \<Longrightarrow> lockstep P Q k \<Longrightarrow> lockstep P Q (if b then m else k)"
  by simp

lemma lockstep_weaken: "lockstep P Q m \<Longrightarrow> (\<And>s t. P' s t \<Longrightarrow> P s t) \<Longrightarrow> (\<And>s t. Q s t \<Longrightarrow> Q' s t) \<Longrightarrow> lockstep P' Q' m"
  by (simp add: lockstep_def)

subsection \<open>Versions are not data\<close>

definition renumber :: "state_version \<Rightarrow> state_version \<Rightarrow> mstate \<Rightarrow> mstate" where
  "renumber a b s = s\<lparr>ms_positions_version := a, ms_velocities_version := b\<rparr>"

definition renumber_context :: "state_version \<Rightarrow> state_version \<Rightarrow> multibody_context \<Rightarrow> multibody_context" where
  "renumber_context a b c = c\<lparr>mc_state := renumber a b (mc_state c)\<rparr>"

definition version_blind :: "(mstate \<Rightarrow> 'a) \<Rightarrow> bool" where
  "version_blind f \<longleftrightarrow> (\<forall>a b s. f (renumber a b s) = f s)"

text \<open>The cache discipline of the tree (see \<open>cache_transparent\<close>) makes every quantity a function of the data.\<close>

definition model_blind :: "multibody_model \<Rightarrow> bool" where
  "model_blind model \<longleftrightarrow> version_blind (mm_forward_dynamics model) \<and> version_blind (mm_qdot model) \<and>
     version_blind (mm_body_pose model) \<and> version_blind (mm_frame_pose model) \<and> version_blind (mm_frame_offset model) \<and>
     version_blind (mm_relative_velocity model) \<and> version_blind (mm_map_acceleration_to_qddot model)"

definition system_blind :: "system_instance \<Rightarrow> bool" where
  "system_blind sys \<longleftrightarrow> (let d = si_description sys in model_blind (sd_model d) \<and>
     (\<forall>plan. sd_force_plan d = Some plan \<longrightarrow> model_blind (vfp_model plan)) \<and>
     (\<forall>plan. sd_contact_plan d = Some plan \<longrightarrow> version_blind (cfp_project plan) \<and> version_blind (cfp_interface_wrenches plan)) \<and>
     (\<forall>plan. sd_torque_plan d = Some plan \<longrightarrow> model_blind (atp_model plan)))"

lemma renumber_simps [simp]:
  "ms_layout (renumber a b s) = ms_layout s" "ms_positions (renumber a b s) = ms_positions s"
  "ms_velocities (renumber a b s) = ms_velocities s"
  "mc_issuer (renumber_context a b c) = mc_issuer c" "mc_state (renumber_context a b c) = renumber a b (mc_state c)"
  by (simp_all add: renumber_def renumber_context_def)

lemma model_blind_simps:
  assumes "model_blind model"
  shows "mm_forward_dynamics model (renumber a b s) = mm_forward_dynamics model s"
    and "mm_qdot model (renumber a b s) = mm_qdot model s" and "mm_body_pose model (renumber a b s) = mm_body_pose model s"
    and "mm_frame_pose model (renumber a b s) = mm_frame_pose model s"
    and "mm_frame_offset model (renumber a b s) = mm_frame_offset model s"
    and "mm_relative_velocity model (renumber a b s) = mm_relative_velocity model s"
    and "mm_map_acceleration_to_qddot model (renumber a b s) = mm_map_acceleration_to_qddot model s"
  using assms by (simp_all add: model_blind_def version_blind_def)

lemma query_renumber [simp]: "query model (renumber_context a b c) = query model c"
  by (simp add: query_def require_own_context_def)

lemma blind_queries:
  assumes "model_blind model"
  shows "calc_body_pose model (renumber_context a b c) = calc_body_pose model c"
    and "calc_frame_pose model (renumber_context a b c) = calc_frame_pose model c"
    and "calc_frame_origin_as_body_fixed_point model (renumber_context a b c) = calc_frame_origin_as_body_fixed_point model c"
    and "calc_relative_velocity model (renumber_context a b c) = calc_relative_velocity model c"
  by (simp_all add: model_blind_simps [OF assms] fun_eq_iff calc_body_pose_def calc_frame_pose_def calc_frame_origin_as_body_fixed_point_def
      calc_relative_velocity_def Let_def cong: if_cong)

lemma blind_motion:
  assumes "model_blind model"
  shows "calc_relative_motion model (renumber_context a b c) = calc_relative_motion model c"
    and "midpoint_wrench_pair model (renumber_context a b c) = midpoint_wrench_pair model c"
  by (simp_all add: blind_queries [OF assms] fun_eq_iff calc_relative_motion_def midpoint_wrench_pair_def cong: if_cong)

lemma blind_wrenches:
  assumes "model_blind model"
  shows "translational_wrenches model (renumber_context a b c) = translational_wrenches model c"
    and "roll_wrenches model (renumber_context a b c) = roll_wrenches model c"
    and "series_wrenches model (renumber_context a b c) = series_wrenches model c"
    and "saturated_wrenches model (renumber_context a b c) = saturated_wrenches model c"
    and "bushing_wrenches rot model (renumber_context a b c) = bushing_wrenches rot model c"
    and "torque_channel_wrenches model (renumber_context a b c) = torque_channel_wrenches model c"
  by (simp_all add: blind_queries [OF assms] blind_motion [OF assms] fun_eq_iff translational_wrenches_def roll_wrenches_def series_wrenches_def saturated_wrenches_def
      bushing_wrenches_def torque_channel_wrenches_def cong: if_cong)

lemma blind_plans:
  shows "model_blind (vfp_model plan) \<Longrightarrow>
      calc_applied_forces rot plan (renumber_context a b c) = calc_applied_forces rot plan c"
    and "model_blind (atp_model torques) \<Longrightarrow>
      calc_active_torques torques (renumber_context a b c) = calc_active_torques torques c"
    and "version_blind (cfp_project contact) \<Longrightarrow> version_blind (cfp_interface_wrenches contact) \<Longrightarrow>
      calc_contact_forces contact (renumber_context a b c) = calc_contact_forces contact c"
  by (simp_all add: fun_eq_iff calc_applied_forces_def calc_active_torques_def calc_contact_forces_def
      evaluate_carrier_projections_def Let_def blind_wrenches blind_queries version_blind_def)

text \<open>A derivative evaluation does not see version numbers.\<close>

lemma blind_derivatives:
  assumes "system_blind sys"
  shows "calc_state_time_derivatives rot sys (c\<lparr>sc_multibody := renumber_context a b (sc_multibody c)\<rparr>) n =
    calc_state_time_derivatives rot sys c n"
proof -
  let ?c = "c\<lparr>sc_multibody := renumber_context a b (sc_multibody c)\<rparr>"
  have "calc_all_forces rot sys (sc_multibody ?c) ?c = calc_all_forces rot sys (sc_multibody c) c"
    using assms
    by (cases "sd_force_plan (si_description sys)"; cases "sd_contact_plan (si_description sys)";
        cases "sd_torque_plan (si_description sys)")
       (simp_all add: calc_all_forces_def system_blind_def Let_def blind_plans)
  moreover have "model_state_time_derivatives (si_model sys) (renumber_context a b m) ws k =
      model_state_time_derivatives (si_model sys) m ws k" for m ws k
    using assms
    by (simp add: model_state_time_derivatives_def evaluate_forward_dynamics_def require_own_context_def
        system_blind_def Let_def model_blind_simps)
  ultimately show ?thesis
    by (auto simp: calc_state_time_derivatives_def component_view_def own_context_def bindS_def reject_if_def split: sum.splits)
qed

subsection \<open>Writes of the two contexts\<close>

text \<open>With version numbers left the only refusal is \<open>InvalidArgument\<close>.\<close>

lemma set_generalized_state_error:
  assumes "set_generalized_state (External q) (External v) s = (Inl e, t)"
    and "revision (ms_positions_version s) < 2 ^ 64 - 1" "revision (ms_velocities_version s) < 2 ^ 64 - 1"
  shows "e = InvalidArgument"
proof -
  obtain a b where "next_version (ms_positions_version s) = Inr a" "next_version (ms_velocities_version s) = Inr b"
    using assms(2,3) ex_next_version by metis
  then show ?thesis
    using assms(1)
    by (auto simp: set_generalized_state_def setter_guards effect_outcome Let_def split: if_splits)
qed

lemma set_time_error:
  assumes "set_time_and_continuous_state sys t x c = (Inl e, d)" and "system_ok sys" "context_wf sys c"
    and "revision (ms_positions_version (mc_state (sc_multibody c))) < 2 ^ 64 - 1"
    and "revision (ms_velocities_version (mc_state (sc_multibody c))) < 2 ^ 64 - 1"
  shows "e = InvalidArgument"
proof -
  have m: "throw_if_not_finalized (si_model sys) = Inr ()"
    using assms(2) by (simp add: system_ok_def Let_def throw_if_not_finalized_def all_checks.simps)
  show ?thesis
    using assms(1,4,5)
    by (auto simp: set_time_and_continuous_state_def Let_def effect_outcome on_multibody_run own_context_def m
        model_set_generalized_state_def on_state_run require_own_context_def validate_state_instance_def require_quaternions_def
        reject_if_def dest!: all_checks_Inl_mem dest: set_generalized_state_error split: if_splits)
qed

definition inputs_equal :: "system_context \<Rightarrow> system_context \<Rightarrow> bool" where
  "inputs_equal c d \<longleftrightarrow> (\<exists>t z q v a b. d = c\<lparr>sc_time := t, sc_series := z, sc_multibody := (sc_multibody c)\<lparr>mc_state :=
     (mc_state (sc_multibody c))\<lparr>ms_positions := q, ms_velocities := v, ms_positions_version := a, ms_velocities_version := b\<rparr>\<rparr>\<rparr>)"

definition trial_versions_left :: "system_context \<Rightarrow> bool" where
  "trial_versions_left c \<longleftrightarrow> revision (ms_positions_version (mc_state (sc_multibody c))) < 2 ^ 64 - 1 \<and>
     revision (ms_velocities_version (mc_state (sc_multibody c))) < 2 ^ 64 - 1"

definition trials_agree :: "system_instance \<Rightarrow> system_context \<Rightarrow> system_context \<Rightarrow> bool" where
  "trials_agree sys c d \<longleftrightarrow> context_wf sys c \<and> context_wf sys d \<and> inputs_equal c d \<and>
     trial_versions_left c \<and> trial_versions_left d"

definition renumbered :: "system_context \<Rightarrow> system_context \<Rightarrow> bool" where
  "renumbered c d \<longleftrightarrow> (\<exists>a b. d = c\<lparr>sc_multibody := renumber_context a b (sc_multibody c)\<rparr>)"

lemma set_time_lockstep:
  assumes ok: "system_ok sys"
  shows "lockstep (trials_agree sys) renumbered (set_time_and_continuous_state sys t x)"
  unfolding lockstep_def
proof (intro allI impI)
  fix c d
  assume a: "trials_agree sys c d"
  then have wf: "context_wf sys c" "context_wf sys d" and left: "trial_versions_left c" "trial_versions_left d"
    by (simp_all add: trials_agree_def)
  let ?m = "set_time_and_continuous_state sys t x"
  let ?valid = "isfinite t \<and> length x = continuous_state_size sys \<and> all_finite x \<and>
    require_quaternions (si_model sys) (segment 0 (si_nq sys) x) = Inr ()"
  have run: "fst (?m k) = (if ?valid then Inr () else Inl InvalidArgument)" if k: "context_wf sys k" "trial_versions_left k" for k
  proof -
    obtain r k' where r: "?m k = (r, k')" by fastforce
    show ?thesis
    proof (cases r)
      case (Inl e)
      then have "e = InvalidArgument" using set_time_error [OF r [unfolded Inl] ok] k by (simp add: trial_versions_left_def)
      moreover have "\<not> ?valid"
      proof
        assume "?valid"
        moreover obtain va vb where "next_version (ms_positions_version (mc_state (sc_multibody k))) = Inr va"
            "next_version (ms_velocities_version (mc_state (sc_multibody k))) = Inr vb"
          using k(2) ex_next_version unfolding trial_versions_left_def by metis
        ultimately have "\<exists>k''. ?m k = (Inr (), k'')" unfolding set_time_and_continuous_state_Inr [OF ok k(1)] by blast
        then show False using r Inl by simp
      qed
      ultimately show ?thesis using r Inl by simp
    next
      case (Inr u)
      then have "?m k = (Inr (), k')" using r by simp
      then have "?valid" unfolding set_time_and_continuous_state_Inr [OF ok k(1)] by blast
      then show ?thesis using r Inr by simp
    qed
  qed
  have "renumbered (snd (?m c)) (snd (?m d))" if "fst (?m c) = Inr u" for u
  proof -
    have "fst (?m d) = Inr u" using that run wf left by simp
    then have runs: "?m c = (Inr (), snd (?m c))" "?m d = (Inr (), snd (?m d))" using that by (metis old.unit.exhaust prod.collapse)+
    let ?s = "mc_state (sc_multibody c)"
    obtain t' z q v a' b' where d: "d = c\<lparr>sc_time := t', sc_series := z, sc_multibody := (sc_multibody c)\<lparr>mc_state :=
        ?s\<lparr>ms_positions := q, ms_velocities := v, ms_positions_version := a', ms_velocities_version := b'\<rparr>\<rparr>\<rparr>"
      using a unfolding trials_agree_def inputs_equal_def by metis
    obtain va vb where c': "snd (?m c) = c\<lparr>sc_multibody := (sc_multibody c)\<lparr>mc_state := ?s\<lparr>ms_positions := segment 0 (si_nq sys) x,
        ms_velocities := segment (si_nq sys) (si_nv sys) x, ms_positions_version := va, ms_velocities_version := vb\<rparr>\<rparr>,
        sc_series := segment (si_nq sys + si_nv sys) (si_nz sys) x, sc_time := t\<rparr>"
      using runs(1) unfolding set_time_and_continuous_state_Inr [OF ok wf(1)] by blast
    obtain wa wb where "snd (?m d) = d\<lparr>sc_multibody := (sc_multibody d)\<lparr>mc_state := (mc_state (sc_multibody d))\<lparr>ms_positions := segment 0 (si_nq sys) x,
        ms_velocities := segment (si_nq sys) (si_nv sys) x, ms_positions_version := wa, ms_velocities_version := wb\<rparr>\<rparr>,
        sc_series := segment (si_nq sys + si_nv sys) (si_nz sys) x, sc_time := t\<rparr>"
      using runs(2) unfolding set_time_and_continuous_state_Inr [OF ok wf(2)] by blast
    then have "snd (?m d) = (snd (?m c))\<lparr>sc_multibody := renumber_context wa wb (sc_multibody (snd (?m c)))\<rparr>"
      by (simp add: c' d renumber_context_def renumber_def)
    then show ?thesis unfolding renumbered_def by blast
  qed
  then show "fst (?m c) = fst (?m d) \<and> (\<forall>u. fst (?m c) = Inr u \<longrightarrow> renumbered (snd (?m c)) (snd (?m d)))"
    using run wf left by simp
qed

subsection \<open>Callbacks in lockstep\<close>

definition bridges_agree :: "system_instance \<Rightarrow> nat \<Rightarrow> bridge_state \<Rightarrow> bridge_state \<Rightarrow> bool" where
  "bridges_agree sys n p p' \<longleftrightarrow> same_model (si_model sys) (br_geometry p) \<and> same_model (si_model sys) (br_geometry p') \<and>
     geometry_versions n p \<and> geometry_versions n p' \<and> trials_agree sys (br_trial p) (br_trial p')"

definition positions_agree :: "system_instance \<Rightarrow> nat \<Rightarrow> bridge_state \<Rightarrow> bridge_state \<Rightarrow> bool" where
  "positions_agree sys n p p' \<longleftrightarrow> bridges_agree sys n p p' \<and>
     ms_positions (mc_state (br_geometry p)) = ms_positions (mc_state (br_geometry p'))"

lemma bridges_agree_less: "bridges_agree sys n p p' \<Longrightarrow> k \<le> n \<Longrightarrow> bridges_agree sys k p p'"
  by (simp add: bridges_agree_def geometry_versions_def)

lemma lockstep_from: "lockstep (bridges_agree sys k) Q m \<Longrightarrow> k \<le> n \<Longrightarrow> lockstep (bridges_agree sys n) Q m"
  using bridges_agree_less unfolding lockstep_def by blast

lemma positions_agree_weak: "lockstep (bridges_agree sys n) Q m \<Longrightarrow> lockstep (positions_agree sys n) Q m"
  by (simp add: lockstep_def positions_agree_def)

lemma set_positions_error:
  assumes "model_set_generalized_positions model q c = (Inl e, d)" and "throw_if_not_finalized model = Inr ()"
    and "revision (ms_positions_version (mc_state c)) < 2 ^ 64 - 1"
  shows "e = InvalidArgument"
proof -
  obtain a where "next_version (ms_positions_version (mc_state c)) = Inr a" using assms(3) ex_next_version by metis
  then show ?thesis
    using assms(1,2)
    by (auto simp: model_set_generalized_positions_def effect_outcome on_state_run require_own_context_def reject_if_def
        validate_state_instance_def require_quaternions_def set_generalized_positions_def setter_guards
        dest!: all_checks_Inl_mem split: if_splits)
qed

lemma model_finalized: "system_ok sys \<Longrightarrow> throw_if_not_finalized (si_model sys) = Inr ()"
  by (simp add: system_ok_def Let_def throw_if_not_finalized_def all_checks.simps)

lemma set_positions_lockstep:
  assumes ok: "system_ok sys"
  shows "lockstep (bridges_agree sys (Suc n)) (positions_agree sys n)
    (on_geometry (model_set_generalized_positions (si_model sys) q))"
  unfolding lockstep_def
proof (intro allI impI)
  fix p p'
  assume a: "bridges_agree sys (Suc n) p p'"
  let ?m = "on_geometry (model_set_generalized_positions (si_model sys) q)"
  let ?valid = "length q = si_nq sys \<and> all_finite q \<and> require_quaternions (si_model sys) q = Inr ()"
  have nq: "int (si_nq sys) = mm_nq (si_model sys)" using ok by (simp add: system_ok_def Let_def)
  have run: "(?valid \<and> (\<exists>g. ?m k = (Inr (), k\<lparr>br_geometry := g\<rparr>) \<and> ms_positions (mc_state g) = q \<and>
       same_model (si_model sys) g \<and> geometry_versions n (k\<lparr>br_geometry := g\<rparr>))) \<or>
     (\<not> ?valid \<and> fst (?m k) = Inl InvalidArgument)"
    if sm: "same_model (si_model sys) (br_geometry k)" and gv: "geometry_versions (Suc n) k" for k
  proof (cases ?valid)
    case True
    then show ?thesis using geometry_set_positions [OF ok sm gv, of q] by metis
  next
    case False
    obtain r k' where r: "model_set_generalized_positions (si_model sys) q (br_geometry k) = (r, k')" by fastforce
    obtain e where e: "r = Inl e"
      using r False nq by (cases r) (auto simp: model_set_generalized_positions_Inr)
    have "revision (ms_positions_version (mc_state (br_geometry k))) < 2 ^ 64 - 1"
      using gv by (simp add: geometry_versions_def)
    then have "e = InvalidArgument" using set_positions_error [OF r [unfolded e] model_finalized [OF ok]] by simp
    then have "fst (?m k) = Inl InvalidArgument" using r e by (simp add: on_geometry_def)
    then show ?thesis using False by blast
  qed
  show "fst (?m p) = fst (?m p') \<and> (\<forall>u. fst (?m p) = Inr u \<longrightarrow> positions_agree sys n (snd (?m p)) (snd (?m p')))"
    using run [of p] run [of p'] a by (auto simp: bridges_agree_def positions_agree_def)
qed

lemma set_state_lockstep:
  assumes ok: "system_ok sys"
  shows "lockstep (bridges_agree sys (Suc n)) (positions_agree sys n)
    (on_geometry (model_set_generalized_state (si_model sys) q v))"
  unfolding lockstep_def
proof (intro allI impI)
  fix p p'
  assume a: "bridges_agree sys (Suc n) p p'"
  let ?m = "on_geometry (model_set_generalized_state (si_model sys) q v)"
  let ?valid = "int (length q) = mm_nq (si_model sys) \<and> int (length v) = mm_nv (si_model sys) \<and> all_finite q \<and> all_finite v \<and>
    require_quaternions (si_model sys) q = Inr ()"
  have run: "(?valid \<and> (\<exists>g. ?m k = (Inr (), k\<lparr>br_geometry := g\<rparr>) \<and> ms_positions (mc_state g) = q \<and>
       same_model (si_model sys) g \<and> geometry_versions n (k\<lparr>br_geometry := g\<rparr>))) \<or>
     (\<not> ?valid \<and> fst (?m k) = Inl InvalidArgument)"
    if sm: "same_model (si_model sys) (br_geometry k)" and gv: "geometry_versions (Suc n) k" for k
  proof -
    let ?s = "mc_state (br_geometry k)"
    have s: "mstate_wf ?s" "ms_layout ?s = mm_layout (si_model sys)" "mc_issuer (br_geometry k) = mm_identity (si_model sys)"
      using sm by (simp_all add: same_model_def)
    have f: "mm_finalized (si_model sys)" "\<not> mm_finalization_failed (si_model sys)" using ok by (simp_all add: system_ok_def Let_def)
    have left: "revision (ms_positions_version ?s) < 2 ^ 64 - 1" "revision (ms_velocities_version ?s) < 2 ^ 64 - 1"
      using gv by (simp_all add: geometry_versions_def)
    then obtain va vb where n: "next_version (ms_positions_version ?s) = Inr va" "next_version (ms_velocities_version ?s) = Inr vb"
      using ex_next_version by metis
    define g where "g = (br_geometry k)\<lparr>mc_state := ?s\<lparr>ms_positions := q, ms_velocities := v,
             ms_positions_version := va, ms_velocities_version := vb\<rparr>\<rparr>"
    show ?thesis
    proof (cases ?valid)
      case True
      then have "model_set_generalized_state (si_model sys) q v (br_geometry k) = (Inr (), g)"
        unfolding model_set_generalized_state_Inr [OF s(1)] using s f n by (auto simp: g_def)
      moreover have "mstate_wf (mc_state g)" using s True by (simp add: g_def mstate_wf_def Let_def mm_nq_def mm_nv_def)
      ultimately show ?thesis
        using True s gv next_version_revision [OF n(1)] next_version_revision [OF n(2)]
        by (auto simp: on_geometry_run g_def same_model_def geometry_versions_def)
    next
      case False
      obtain r k' where r: "model_set_generalized_state (si_model sys) q v (br_geometry k) = (r, k')" by fastforce
      obtain e where e: "r = Inl e"
        using r False by (cases r) (auto simp: model_set_generalized_state_Inr [OF s(1)])
      have "e = InvalidArgument"
        using r [unfolded e] model_finalized [OF ok] set_generalized_state_error left
        by (auto simp: model_set_generalized_state_def effect_outcome on_state_run require_own_context_def reject_if_def
            validate_state_instance_def require_quaternions_def dest!: all_checks_Inl_mem split: if_splits)
      then show ?thesis using False r e by (auto simp: on_geometry_def)
    qed
  qed
  show "fst (?m p) = fst (?m p') \<and> (\<forall>u. fst (?m p) = Inr u \<longrightarrow> positions_agree sys n (snd (?m p)) (snd (?m p')))"
    using run [of p] run [of p'] a by (auto simp: bridges_agree_def positions_agree_def)
qed

lemma map_lockstep:
  assumes "tree_maps_ok (si_model sys)"
  shows "lockstep (positions_agree sys n) (positions_agree sys n) (map_velocity sys v)"
    and "lockstep (positions_agree sys n) (positions_agree sys n) (callE (\<lambda>p.
      bindS (map_position_derivatives_to_velocities (si_model sys) (br_geometry p) s (int (si_nv sys))) (\<lambda>v.
       bindS (require_finite_mapping v) (\<lambda>_. Inr v))))"
proof -
  have eq: "require_own_context (si_model sys) (br_geometry p) = require_own_context (si_model sys) (br_geometry p')"
    "validate_state_instance (si_model sys) (br_geometry p) = validate_state_instance (si_model sys) (br_geometry p')"
    "mm_map_velocity_to_qdot (si_model sys) (mc_state (br_geometry p)) = mm_map_velocity_to_qdot (si_model sys) (mc_state (br_geometry p'))"
    "mm_map_qdot_to_velocity (si_model sys) (mc_state (br_geometry p)) = mm_map_qdot_to_velocity (si_model sys) (mc_state (br_geometry p'))"
    if "positions_agree sys n p p'" for p p'
  proof -
    have q: "ms_positions (mc_state (br_geometry p)) = ms_positions (mc_state (br_geometry p'))"
      and m: "same_model (si_model sys) (br_geometry p)" "same_model (si_model sys) (br_geometry p')"
      using that by (simp_all add: positions_agree_def bridges_agree_def)
    from m show "require_own_context (si_model sys) (br_geometry p) = require_own_context (si_model sys) (br_geometry p')"
      "validate_state_instance (si_model sys) (br_geometry p) = validate_state_instance (si_model sys) (br_geometry p')"
      by (simp_all add: same_model_def require_own_context_def validate_state_instance_def)
    from q assms show "mm_map_velocity_to_qdot (si_model sys) (mc_state (br_geometry p)) = mm_map_velocity_to_qdot (si_model sys) (mc_state (br_geometry p'))"
      "mm_map_qdot_to_velocity (si_model sys) (mc_state (br_geometry p)) = mm_map_qdot_to_velocity (si_model sys) (mc_state (br_geometry p'))"
      unfolding tree_maps_ok_def by blast+
  qed
  show "lockstep (positions_agree sys n) (positions_agree sys n) (map_velocity sys v)"
    unfolding map_velocity_def map_velocities_to_position_derivatives_def
  proof (rule lockstep_callE, goal_cases)
    case (1 p p')
    show ?case by (simp only: eq [OF 1])
  qed
  show "lockstep (positions_agree sys n) (positions_agree sys n) (callE (\<lambda>p.
      bindS (map_position_derivatives_to_velocities (si_model sys) (br_geometry p) s (int (si_nv sys))) (\<lambda>v.
       bindS (require_finite_mapping v) (\<lambda>_. Inr v))))"
    unfolding map_position_derivatives_to_velocities_def
  proof (rule lockstep_callE, goal_cases)
    case (1 p p')
    show ?case by (simp only: eq [OF 1])
  qed
qed

lemma recover_lockstep:
  assumes "system_ok sys" and "tree_maps_ok (si_model sys)"
  shows "lockstep (bridges_agree sys (Suc n)) (positions_agree sys n) (recover_velocity sys q s)"
  unfolding recover_velocity_def
  by (rule lockstep_seqE [OF set_positions_lockstep [OF assms(1)] map_lockstep(2) [OF assms(2)]])

text \<open>The right-hand side on two agreeing trial contexts.\<close>

lemma rhs_lockstep:
  assumes "system_ok sys" and "system_blind sys"
  shows "lockstep (trials_agree sys) renumbered (rhs_calc_time_derivatives rot sys t x n)"
  unfolding rhs_calc_time_derivatives_def
proof (rule lockstep_seqE [OF lockstep_pure(2)], rule lockstep_seqE [OF lockstep_pure(2)],
    rule lockstep_seqE [OF set_time_lockstep [OF assms(1)]], rule lockstep_callE)
  fix c d
  assume "renumbered c d"
  then show "calc_state_time_derivatives rot sys c (continuous_state_size sys) =
      calc_state_time_derivatives rot sys d (continuous_state_size sys)"
    using blind_derivatives [OF assms(2)] by (auto simp: renumbered_def)
qed

lemma blind_accelerations:
  "model_blind model \<Longrightarrow> map_accelerations_to_second_derivatives model (renumber_context a b c) v n =
     map_accelerations_to_second_derivatives model c v n"
  by (simp add: map_accelerations_to_second_derivatives_def require_own_context_def validate_state_instance_def model_blind_simps)

lemma on_trial_lockstep:
  assumes "lockstep P Q m" and "\<And>p p'. J p p' \<Longrightarrow> P (br_trial p) (br_trial p')"
  shows "lockstep J (\<lambda>p p'. Q (br_trial p) (br_trial p')) (on_trial m)"
  using assms unfolding lockstep_def on_trial_def by (auto simp: Let_def split: prod.splits) (metis fst_conv snd_conv)+

abbreviation anyhow :: "bridge_state \<Rightarrow> bridge_state \<Rightarrow> bool" where "anyhow \<equiv> (\<lambda>_ _. True)"

lemma lockstep_ends: "lockstep P anyhow (ret a)" "lockstep P anyhow (callE (\<lambda>_. f))"
  by (simp_all add: lockstep_def effect_prims)

lemmas lockstep_guards = lockstep_seqE [OF lockstep_pure(2)] lockstep_seqE [OF lockstep_pure(3)]

lemma lockstep_geometry_steps:
  assumes "system_ok sys" and "tree_maps_ok (si_model sys)"
  shows "lockstep (positions_agree sys n) R k \<Longrightarrow> lockstep (bridges_agree sys (Suc n)) R
      (seqE (on_geometry (model_set_generalized_positions (si_model sys) q)) k)"
    and "lockstep (positions_agree sys n) R k \<Longrightarrow> lockstep (positions_agree sys (Suc n)) R
      (seqE (on_geometry (model_set_generalized_positions (si_model sys) q)) k)"
    and "lockstep (positions_agree sys n) R k \<Longrightarrow> lockstep (bridges_agree sys (Suc n)) R
      (seqE (on_geometry (model_set_generalized_state (si_model sys) q v)) k)"
    and "(\<And>v. lockstep (positions_agree sys n) R (m v)) \<Longrightarrow> lockstep (bridges_agree sys (Suc n)) R (bindE (recover_velocity sys q s) m)"
    and "(\<And>v. lockstep (positions_agree sys n) R (m v)) \<Longrightarrow> lockstep (positions_agree sys (Suc n)) R (bindE (recover_velocity sys q s) m)"
    and "(\<And>v. lockstep (positions_agree sys n) R (m v)) \<Longrightarrow> lockstep (positions_agree sys n) R (bindE (map_velocity sys v) m)"
    and "lockstep (positions_agree sys n) R k \<Longrightarrow> lockstep (positions_agree sys n) R (seqE (map_velocity sys v) k)"
  by (rule lockstep_seqE [OF set_positions_lockstep [OF assms(1)]] lockstep_seqE [OF positions_agree_weak [OF set_positions_lockstep [OF assms(1)]]]
      lockstep_seqE [OF set_state_lockstep [OF assms(1)]] lockstep_bindE [OF recover_lockstep [OF assms]]
      lockstep_bindE [OF positions_agree_weak [OF recover_lockstep [OF assms]]] lockstep_bindE [OF map_lockstep(1) [OF assms(2)]]
      lockstep_seqE [OF map_lockstep(1) [OF assms(2)]], assumption)+

lemma evaluate_lockstep:
  assumes "system_ok sys" and "tree_maps_ok (si_model sys)" and "system_blind sys"
  shows "lockstep (bridges_agree sys (Suc 0)) anyhow (bridge_evaluate rot sys t q s z bn gn)"
proof -
  have blind: "model_blind (si_model sys)" using assms(3) by (simp add: system_blind_def Let_def)
  have rhs: "lockstep (positions_agree sys 0) (\<lambda>p p'. renumbered (br_trial p) (br_trial p'))
      (on_trial (rhs_calc_time_derivatives rot sys t x (continuous_state_size sys)))" for x
    by (rule on_trial_lockstep [OF rhs_lockstep [OF assms(1,3)]]) (simp add: positions_agree_def bridges_agree_def)
  have acc: "lockstep (\<lambda>p p'. renumbered (br_trial p) (br_trial p')) (\<lambda>p p'. renumbered (br_trial p) (br_trial p'))
      (callE (\<lambda>p. bindS (component_view sys (br_trial p) (multibody_component sys)) (\<lambda>component.
        map_accelerations_to_second_derivatives (si_model sys) component a (int (si_nq sys)))))" for a
  proof (rule lockstep_callE, goal_cases)
    case (1 p p')
    then obtain v w where "br_trial p' = (br_trial p)\<lparr>sc_multibody := renumber_context v w (sc_multibody (br_trial p))\<rparr>"
      unfolding renumbered_def by blast
    then show ?case
      by (cases "sc_issuer (br_trial p) = si_identity sys")
         (simp_all add: component_view_def own_context_def multibody_component_def blind_accelerations [OF blind])
  qed
  show ?thesis
    unfolding bridge_evaluate_def
    by (intro lockstep_guards lockstep_geometry_steps [OF assms(1,2)] lockstep_bindE [OF rhs] lockstep_bindE [OF acc] lockstep_ends)
qed

lemma geometry_lockstep:
  assumes "system_ok sys" and "tree_maps_ok (si_model sys)"
  shows "lockstep (bridges_agree sys (Suc 0)) anyhow (bridge_make_coordinate_state sys t x)"
    and "lockstep (bridges_agree sys (Suc 0)) anyhow (bridge_copy_physical_state sys y n)"
    and "lockstep (bridges_agree sys (Suc 0)) anyhow (bridge_validate_initial sys t q s z)"
    and "lockstep (bridges_agree sys (Suc (Suc (Suc 0)))) anyhow (bridge_project sys reference q s)"
    and "lockstep (bridges_agree sys (Suc (Suc (Suc (Suc 0))))) anyhow (bridge_interpolate sys reference start stop fraction n)"
  unfolding bridge_make_coordinate_state_def bridge_copy_physical_state_def bridge_validate_initial_def bridge_project_def
    bridge_interpolate_def Let_def
  by (intro lockstep_guards lockstep_geometry_steps [OF assms] lockstep_ends lockstep_if)+

text \<open>Agreeing bridges are one problem.\<close>

lemma agreeing_bridges_one_problem:
  assumes "system_ok sys" and "tree_maps_ok (si_model sys)" and "system_blind sys" and "bridges_agree sys 4 p p'"
  shows "system_problem rot sys p = system_problem rot sys p'"
proof -
  have n: "bridges_agree sys (Suc 0) p p'" "bridges_agree sys (Suc (Suc (Suc 0))) p p'" "bridges_agree sys (Suc (Suc (Suc (Suc 0)))) p p'"
    using assms(4) bridges_agree_less [OF assms(4)] by (simp_all add: eval_nat_numeral)
  show ?thesis
    unfolding system_problem_def
    by (simp add: lockstepD [OF evaluate_lockstep [OF assms(1-3)] n(1)] lockstepD [OF geometry_lockstep(1) [OF assms(1,2)] n(1)]
        lockstepD [OF geometry_lockstep(2) [OF assms(1,2)] n(1)] lockstepD [OF geometry_lockstep(3) [OF assms(1,2)] n(1)]
        lockstepD [OF geometry_lockstep(4) [OF assms(1,2)] n(2)] lockstepD [OF geometry_lockstep(5) [OF assms(1,2)] n(3)])
qed

subsection \<open>What a callback leaves behind\<close>

definition bridge_keeps :: "system_instance \<Rightarrow> bridge_state \<Rightarrow> bridge_state \<Rightarrow> bool" where
  "bridge_keeps sys p p' \<longleftrightarrow> (bridge_wf sys p \<longrightarrow> bridge_wf sys p' \<and> inputs_equal (br_trial p) (br_trial p'))"

lemma inputs_equal_refl: "inputs_equal c c"
  unfolding inputs_equal_def
  by (rule exI [of _ "sc_time c"], rule exI [of _ "sc_series c"], rule exI [of _ "sc_positions c"], rule exI [of _ "sc_velocities c"],
      rule exI [of _ "ms_positions_version (mc_state (sc_multibody c))"],
      rule exI [of _ "ms_velocities_version (mc_state (sc_multibody c))"]) simp

lemma inputs_equal_trans: "inputs_equal c d \<Longrightarrow> inputs_equal d e \<Longrightarrow> inputs_equal c e"
  by (fastforce simp: inputs_equal_def)

lemma bridge_keeps_preorder: "reflp (bridge_keeps sys)" "transp (bridge_keeps sys)"
  by (auto simp: bridge_keeps_def inputs_equal_refl intro!: reflpI transpI intro: inputs_equal_trans)

lemma bridge_keeps_geometry:
  assumes "\<And>g r g'. same_model (si_model sys) g \<Longrightarrow> m g = (r, g') \<Longrightarrow> same_model (si_model sys) g'"
  shows "stays_within (bridge_keeps sys) (on_geometry m)"
  using assms by (auto simp: stays_within_def on_geometry_run bridge_keeps_def bridge_wf_def inputs_equal_refl)

lemma set_positions_same_model:
  assumes "same_model model g" and "model_set_generalized_positions model q g = (r, g')"
  shows "same_model model g'"
proof (cases r)
  case (Inl e)
  then have "g' = g" using model_set_generalized_positions_atomic assms(2) by (auto dest: atomicD)
  then show ?thesis using assms(1) by simp
next
  case (Inr u)
  then show ?thesis
    using assms by (auto simp: model_set_generalized_positions_Inr same_model_def mstate_wf_def Let_def mm_nq_def)
qed

lemma set_state_same_model:
  assumes "same_model model g" and "model_set_generalized_state model q v g = (r, g')"
  shows "same_model model g'"
proof (cases r)
  case (Inl e)
  then have "g' = g" using model_set_generalized_state_atomic assms(2) by (auto dest: atomicD)
  then show ?thesis using assms(1) by simp
next
  case (Inr u)
  have "mstate_wf (mc_state g)" using assms(1) by (simp add: same_model_def)
  then show ?thesis
    using assms Inr by (auto simp: model_set_generalized_state_Inr same_model_def mstate_wf_def Let_def mm_nq_def mm_nv_def)
qed

lemma rhs_leaves:
  assumes "rhs_calc_time_derivatives rot sys t x n c = (r, d)"
  shows "d = c \<or> (\<exists>r'. set_time_and_continuous_state sys t x c = (r', d))"
proof -
  obtain r' d' where s: "set_time_and_continuous_state sys t x c = (r', d')" by fastforce
  show ?thesis
    using assms by (cases r') (simp_all add: rhs_calc_time_derivatives_def effect_simps s split: if_splits)
qed

lemma rhs_keeps:
  assumes "system_ok sys"
  shows "stays_within (bridge_keeps sys) (on_trial (rhs_calc_time_derivatives rot sys t x n))"
proof -
  have "context_wf sys d \<and> inputs_equal c d" if wf: "context_wf sys c" and run: "set_time_and_continuous_state sys t x c = (r, d)" for c r d
  proof (cases r)
    case (Inl e)
    then have "d = c" using set_time_and_continuous_state_atomic run by (auto dest: atomicD)
    then show ?thesis using wf inputs_equal_refl by simp
  next
    case (Inr u)
    then have ok: "set_time_and_continuous_state sys t x c = (Inr (), d)" using run by simp
    obtain a b where "d = c\<lparr>sc_multibody := (sc_multibody c)\<lparr>mc_state := (mc_state (sc_multibody c))
        \<lparr>ms_positions := segment 0 (si_nq sys) x, ms_velocities := segment (si_nq sys) (si_nv sys) x,
          ms_positions_version := a, ms_velocities_version := b\<rparr>\<rparr>,
        sc_series := segment (si_nq sys + si_nv sys) (si_nz sys) x, sc_time := t\<rparr>"
      using ok unfolding set_time_and_continuous_state_Inr [OF assms wf] by blast
    then have "inputs_equal c d"
      unfolding inputs_equal_def
      by (intro exI [of _ t] exI [of _ "segment (si_nq sys + si_nv sys) (si_nz sys) x"] exI [of _ "segment 0 (si_nq sys) x"]
          exI [of _ "segment (si_nq sys) (si_nv sys) x"] exI [of _ a] exI [of _ b]) simp
    then show ?thesis using set_state.outcome_wf [OF assms TrueI wf run] by simp
  qed
  then have "context_wf sys d \<and> inputs_equal c d"
    if "context_wf sys c" and "rhs_calc_time_derivatives rot sys t x n c = (r, d)" for c r d
    using rhs_leaves [OF that(2)] that(1) inputs_equal_refl by blast
  then show ?thesis
    by (auto simp: stays_within_def on_trial_run bridge_keeps_def bridge_wf_def)
qed

lemmas bridge_keeps_rules = bridge_keeps_geometry [OF set_positions_same_model] bridge_keeps_geometry [OF set_state_same_model]
  stays_within_if stays_within_seqE [OF bridge_keeps_preorder(2)] stays_within_bindE [OF bridge_keeps_preorder(2)]
  stays_within_primitives [OF bridge_keeps_preorder(1)]

datatype bridge_call =
    EvaluateCall double vec vec vec
  | ProjectCall vec vec vec
  | ValidateCall double vec vec vec
  | ImportCall double vec
  | ExportCall coordinate_state
  | InterpolateCall vec vec vec double

fun perform_callback :: "rotations \<Rightarrow> system_instance \<Rightarrow> bridge_call \<Rightarrow> bridge_state \<Rightarrow> bridge_state" where
  "perform_callback rot sys (EvaluateCall t q s z) p = snd (bridge_evaluate rot sys t q s z (si_nq sys) (si_nz sys) p)"
| "perform_callback rot sys (ProjectCall r q s) p = snd (bridge_project sys r q s p)"
| "perform_callback rot sys (ValidateCall t q s z) p = snd (bridge_validate_initial sys t q s z p)"
| "perform_callback rot sys (ImportCall t x) p = snd (bridge_make_coordinate_state sys t x p)"
| "perform_callback rot sys (ExportCall y) p = snd (bridge_copy_physical_state sys y (continuous_state_size sys) p)"
| "perform_callback rot sys (InterpolateCall r s e f) p = snd (bridge_interpolate sys r s e f (continuous_state_size sys) p)"

lemma stays_within_snd: "stays_within R m \<Longrightarrow> R s (snd (m s))"
  by (cases "m s") (auto dest: stays_withinD)

lemma callbacks_keep:
  assumes "system_ok sys"
  shows "bridge_keeps sys p (perform_callback rot sys call p)"
proof -
  have "stays_within (bridge_keeps sys) (recover_velocity sys q s)" "stays_within (bridge_keeps sys) (map_velocity sys v)" for q s v
    unfolding recover_velocity_def map_velocity_def by (intro bridge_keeps_rules; assumption)+
  note rules = this bridge_keeps_rules rhs_keeps [OF assms]
  have "stays_within (bridge_keeps sys) (bridge_evaluate rot sys t q s z bn gn)" for t q s z bn gn
    unfolding bridge_evaluate_def by (intro rules)
  moreover have "stays_within (bridge_keeps sys) (bridge_project sys r q s)" for r q s
    unfolding bridge_project_def Let_def by (intro rules; assumption)
  moreover have "stays_within (bridge_keeps sys) (bridge_validate_initial sys t q s z)" for t q s z
    unfolding bridge_validate_initial_def by (intro rules)
  moreover have "stays_within (bridge_keeps sys) (bridge_make_coordinate_state sys t x)" for t x
    unfolding bridge_make_coordinate_state_def Let_def by (intro rules; assumption)
  moreover have "stays_within (bridge_keeps sys) (bridge_copy_physical_state sys y n)" for y n
    unfolding bridge_copy_physical_state_def by (intro rules)
  moreover have "stays_within (bridge_keeps sys) (bridge_interpolate sys r s e f n)" for r s e f n
    unfolding bridge_interpolate_def Let_def by (intro rules; assumption)
  ultimately show ?thesis by (cases call) (simp_all add: stays_within_snd)
qed

text \<open>C25: The cores may treat the bridge as a mathematical function.  Whatever callbacks ran on it in between,
  successful or failing, the coordinate problem it defines - right-hand side, projection, validation, import,
  export and interpolation, with their refusals - is the same as before, as long as version numbers are left:
  no callback sees the trial state, the geometry or the velocities another one left behind.\<close>

theorem callbacks_forget_history:
  assumes "system_ok sys" and "tree_maps_ok (si_model sys)" and "system_blind sys" and "bridge_wf sys p"
    and "p' = fold (perform_callback rot sys) calls p"
    and "geometry_versions 4 p" "trial_versions_left (br_trial p)" "geometry_versions 4 p'" "trial_versions_left (br_trial p')"
  shows "system_problem rot sys p' = system_problem rot sys p"
proof -
  have "bridge_keeps sys p (fold (perform_callback rot sys) calls p)"
  proof (induction calls arbitrary: p)
    case Nil
    then show ?case using bridge_keeps_preorder(1) by (simp add: reflp_def)
  next
    case (Cons call calls)
    have "bridge_keeps sys p (perform_callback rot sys call p)" by (rule callbacks_keep [OF assms(1)])
    then show ?case using Cons bridge_keeps_preorder(2) by (fastforce dest: transpD)
  qed
  then have "bridges_agree sys 4 p p'"
    using assms(4-) by (simp add: bridge_keeps_def bridge_wf_def bridges_agree_def trials_agree_def)
  then show ?thesis using agreeing_bridges_one_problem [OF assms(1-3)] by simp
qed

text \<open>The free body after the import of a drifting state.\<close>

lemma floating_blind: "system_blind floating_system"
  by (simp add: system_blind_def floating_system_def floating_model_def model_blind_def version_blind_def renumber_def)

theorem callbacks_forget_history_witness:
  "system_problem no_rotations floating_system
      (fold (perform_callback no_rotations floating_system) [ImportCall 3 (identity_state @ drift)] floating_bridge) =
    system_problem no_rotations floating_system floating_bridge"
proof -
  obtain y g where run: "bridge_make_coordinate_state floating_system 3 (identity_state @ drift) floating_bridge =
    (Inr y, floating_bridge\<lparr>br_geometry := g\<rparr>)"
    by (rule floating_import)
  have "same_model (si_model floating_system) (br_geometry floating_bridge)" using floating_facts(5) by (simp add: bridge_wf_def)
  then have less: "\<forall>n. geometry_versions (Suc n) floating_bridge \<longrightarrow> geometry_versions n (floating_bridge\<lparr>br_geometry := g\<rparr>)"
    by (rule bridge_make_Inr [OF run floating_facts(1)])
  have five: "geometry_versions (Suc 4) floating_bridge" "trial_versions_left (br_trial floating_bridge)"
    by (simp_all add: geometry_versions_def trial_versions_left_def floating_bridge_def floating_context_def revision_def initial_version_def)
  have p: "fold (perform_callback no_rotations floating_system) [ImportCall 3 (identity_state @ drift)] floating_bridge =
      floating_bridge\<lparr>br_geometry := g\<rparr>"
    using run by simp
  show ?thesis
    using callbacks_forget_history [OF floating_facts(1,3) floating_blind floating_facts(5) refl floating_facts(6), of no_rotations
        "[ImportCall 3 (identity_state @ drift)]"] five less
    unfolding p by simp
qed

end
