(* ===== verification/System_Advancer.thy ===== *)
theory System_Advancer
  imports System_Coordinate_Problem
begin

section \<open>integrators: the system continuous-state advancer\<close>

text \<open>
  Models \<open>system_continuous_state_advancer.cc\<close>, \<open>continuous_state_advancer.cc\<close>, the worker selection and the
  coordinate runtimes of \<open>system_continuous_state_backend.cc\<close>, and the configuration variant of
  \<open>system_integration_configuration.h\<close>: the public advance of an accepted runtime context to a target time.
  The backend is the record \<open>backend_ops\<close> of the functions the advancer calls; the locale
  \<open>continuous_state_backend\<close> is the contract it relies on, and every coordinate runtime is a sublocale instance
  of it (the CVODE and RADAU5 adapters are outside).  The backend borrows the candidate context:
  \<open>bo_rebind\<close> shows it every write of the advancer.  The trial evaluations of a step also overwrite the candidate,
  in time, coordinates and series states only; the next write of the advancer replaces exactly these, and what
  the backend computes does not depend on them (\<open>callbacks_forget_history\<close>), so they are not kept.  The loop over
  internal steps is a partial function of the option type.
\<close>

subsection \<open>Tolerances, worker count, right-hand side\<close>

definition make_error_tolerances :: "double \<Rightarrow> vec \<Rightarrow> (double \<times> vec) outcome" where
  "make_error_tolerances relative absolute =
     bindS (all_checks (reject_if (\<not> isfinite relative \<or> relative < 0) InvalidArgument #
              map (\<lambda>v. reject_if (\<not> isfinite v \<or> v \<le> 0) InvalidArgument) absolute)) (\<lambda>_.
     Inr (relative, absolute))"

definition kSupportedParallelJacobianWorkerCounts :: "int list" where
  "kSupportedParallelJacobianWorkerCounts = [4, 8, 12, 16, 32]"

fun first_supported :: "int \<Rightarrow> int list \<Rightarrow> int" where
  "first_supported maximum_threads [] = 0"
| "first_supported maximum_threads (supported # rest) =
     (if supported \<le> maximum_threads then supported else first_supported maximum_threads rest)"

definition select_parallel_jacobian_worker_count :: "int \<Rightarrow> int" where
  "select_parallel_jacobian_worker_count maximum_threads =
     first_supported maximum_threads (rev kSupportedParallelJacobianWorkerCounts)"

text \<open>\<open>omp_get_dynamic\<close> and \<open>omp_get_max_threads\<close> are arguments.\<close>

definition resolve_parallel_jacobian_worker_count :: "system_instance \<Rightarrow> bool \<Rightarrow> int \<Rightarrow> int" where
  "resolve_parallel_jacobian_worker_count sys dynamic_threads maximum_threads =
     (if sd_contact_plan (si_description sys) = None \<or> dynamic_threads then 0
      else select_parallel_jacobian_worker_count maximum_threads)"

subsection \<open>The backend interface\<close>

record 'b backend_ops =
  bo_advance :: "double \<Rightarrow> 'b \<Rightarrow> ((internal_step \<times> vec) outcome \<times> 'b) option"
  bo_dense_interval :: "'b \<Rightarrow> (double \<times> double) option"
  bo_copy_dense :: "'b \<Rightarrow> double \<Rightarrow> vec outcome"
  bo_notify_projection_change :: "'b \<Rightarrow> 'b"
  bo_rebind :: "system_context \<Rightarrow> 'b \<Rightarrow> 'b"
  bo_reinitialize :: "double \<Rightarrow> vec \<Rightarrow> ('b, unit) effect"

record 'b system_advancer =
  sa_maximum_internal_steps :: nat
  sa_system :: system_instance
  sa_accepted :: system_context
  sa_candidate :: system_context
  sa_candidate_state :: vec
  sa_backend :: 'b
  sa_requires_synchronization :: bool

definition on_accepted :: "(system_context, 'a) effect \<Rightarrow> ('b system_advancer, 'a) effect" where
  "on_accepted m a = (let (r, c) = m (sa_accepted a) in (r, a\<lparr>sa_accepted := c\<rparr>))"

text \<open>A write of the candidate, seen by the backend that borrows it.\<close>

definition on_candidate :: "'b backend_ops \<Rightarrow> (system_context, 'a) effect \<Rightarrow> ('b system_advancer, 'a) effect" where
  "on_candidate B m a = (let (r, c) = m (sa_candidate a) in
     (r, a\<lparr>sa_candidate := c, sa_backend := bo_rebind B c (sa_backend a)\<rparr>))"

definition on_backend :: "('b, 'a) effect \<Rightarrow> ('b system_advancer, 'a) effect" where
  "on_backend m a = (let (r, b) = m (sa_backend a) in (r, a\<lparr>sa_backend := b\<rparr>))"

subsection \<open>One advance\<close>

fun strictly_increasing :: "vec \<Rightarrow> bool" where
  "strictly_increasing (t # u # ts) = (t < u \<and> strictly_increasing (u # ts))"
| "strictly_increasing _ = True"

text \<open>\<open>None\<close> is an advance without samples.  Bit equality of times is equality of the values.\<close>

definition validate_advance_request :: "double \<Rightarrow> vec option \<Rightarrow> 'b system_advancer \<Rightarrow> unit outcome" where
  "validate_advance_request target sample_times a =
     (let now = sc_time (sa_accepted a) in
      all_checks ([reject_if (\<not> isfinite target) InvalidArgument, reject_if (target < now) InvalidArgument] @
        (case sample_times of None \<Rightarrow> []
         | Some requested \<Rightarrow>
             [reject_if (requested = []) InvalidArgument,
              reject_if (\<not> all_finite requested \<or> \<not> strictly_increasing requested) InvalidArgument,
              reject_if (hd requested \<noteq> now) InvalidArgument,
              reject_if (last requested \<noteq> target) InvalidArgument,
              reject_if (feq target now \<and> length requested \<noteq> 1) InvalidArgument])))"

text \<open>The samples in the interval of one step; the argument is the list of the requested not yet sampled.\<close>

fun copy_samples :: "(double \<Rightarrow> vec outcome) \<Rightarrow> double \<Rightarrow> double \<Rightarrow> vec \<Rightarrow> vec list \<Rightarrow> vec list outcome" where
  "copy_samples copy interval_start endpoint (t # u # ts) samples =
     (if \<not> t \<le> endpoint then Inr samples
      else if t < interval_start then Inl RuntimeError
      else bindS (copy t) (\<lambda>x. copy_samples copy interval_start endpoint (u # ts) (samples @ [x])))"
| "copy_samples copy interval_start endpoint _ samples = Inr samples"

definition sample_step ::
  "'b backend_ops \<Rightarrow> vec option \<Rightarrow> internal_step \<Rightarrow> vec list \<Rightarrow> 'b system_advancer \<Rightarrow> vec list outcome" where
  "sample_step B sample_times step samples a =
     (case sample_times of None \<Rightarrow> Inr samples
      | Some requested \<Rightarrow>
          (case bo_dense_interval B (sa_backend a) of None \<Rightarrow> Inl RuntimeError
           | Some (s, e) \<Rightarrow>
               if \<not> s < e \<or> \<not> feq e (st_end step) then Inl RuntimeError
               else copy_samples (bo_copy_dense B (sa_backend a)) s (st_end step) (drop (length samples) requested) samples))"

text \<open>From the returned step to the installed candidate.\<close>

definition install_step ::
  "'b backend_ops \<Rightarrow> double \<Rightarrow> vec option \<Rightarrow> double \<Rightarrow> vec list \<Rightarrow> internal_step \<Rightarrow> ('b system_advancer, vec list) effect" where
  "install_step B target sample_times expected samples step =
     seqE (rejectE (\<lambda>_. \<not> feq (st_start step) expected \<or> \<not> st_start step < st_end step) RuntimeError) (
     seqE (rejectE (\<lambda>_. target < st_end step \<or> st_reached_stop step \<noteq> feq (st_end step) target) RuntimeError) (
     bindE (callE (sample_step B sample_times step samples)) (\<lambda>samples'.
     seqE (\<lambda>a. on_candidate B (set_time_and_continuous_state (sa_system a) (st_end step) (sa_candidate_state a)) a) (
     seqE (\<lambda>a. on_candidate B (update_projection_hints (sa_system a)) a) (
     seqE (modifyE (\<lambda>a. if sc_hints (sa_candidate a) = [] then a
                        else a\<lparr>sa_backend := bo_notify_projection_change B (sa_backend a)\<rparr>)) (
     ret samples'))))))"

partial_function (option) advance_steps ::
  "'b backend_ops \<Rightarrow> double \<Rightarrow> vec option \<Rightarrow> nat \<Rightarrow> double \<Rightarrow> vec list \<Rightarrow> 'b system_advancer
     \<Rightarrow> (vec list outcome \<times> 'b system_advancer) option" where
  "advance_steps B target sample_times steps expected samples a =
     (if steps = sa_maximum_internal_steps a then Some (Inl (NumericalFailure AdvanceWorkBudgetExhausted 0), a)
      else (case bo_advance B target (sa_backend a) of
          None \<Rightarrow> None
        | Some (Inl e, b) \<Rightarrow> Some (Inl e, a\<lparr>sa_backend := b\<rparr>)
        | Some (Inr (step, x), b) \<Rightarrow>
            (case install_step B target sample_times expected samples step (a\<lparr>sa_backend := b, sa_candidate_state := x\<rparr>) of
               (Inl e, a') \<Rightarrow> Some (Inl e, a')
             | (Inr samples', a') \<Rightarrow>
                 if st_reached_stop step then Some (Inr samples', a')
                 else advance_steps B target sample_times (steps + 1) (st_end step) samples' a')))"

text \<open>The publication of the endpoint; the last sample is the accepted endpoint itself.\<close>

definition publish_endpoint :: "double \<Rightarrow> vec option \<Rightarrow> vec list \<Rightarrow> ('b system_advancer, vec list) effect" where
  "publish_endpoint target sample_times samples =
     seqE (rejectE (\<lambda>_. case sample_times of None \<Rightarrow> False | Some requested \<Rightarrow> length samples + 1 \<noteq> length requested) RuntimeError) (
     bindE (readE (\<lambda>a. case sample_times of None \<Rightarrow> samples | Some _ \<Rightarrow> samples @ [sa_candidate_state a])) (\<lambda>result.
     seqE (\<lambda>a. on_accepted (set_time_state_and_hints (sa_system a) target (sa_candidate_state a) (sc_hints (sa_candidate a))) a) (
     ret result)))"

definition advance_try ::
  "'b backend_ops \<Rightarrow> double \<Rightarrow> vec option \<Rightarrow> vec list \<Rightarrow> 'b system_advancer \<Rightarrow> (vec list outcome \<times> 'b system_advancer) option" where
  "advance_try B target sample_times samples a =
     (case advance_steps B target sample_times 0 (sc_time (sa_accepted a)) samples a of
        None \<Rightarrow> None
      | Some (Inl e, a') \<Rightarrow> Some (Inl e, a')
      | Some (Inr samples', a') \<Rightarrow> Some (publish_endpoint target sample_times samples' a'))"

definition synchronize_on_failure :: "'a outcome \<times> 'b system_advancer \<Rightarrow> 'a outcome \<times> 'b system_advancer" where
  "synchronize_on_failure x =
     (case x of (Inl e, a) \<Rightarrow> (Inl e, a\<lparr>sa_requires_synchronization := True\<rparr>) | (Inr v, a) \<Rightarrow> (Inr v, a))"

definition advance_to_impl ::
  "'b backend_ops \<Rightarrow> double \<Rightarrow> vec option \<Rightarrow> 'b system_advancer \<Rightarrow> (vec list outcome \<times> 'b system_advancer) option" where
  "advance_to_impl B target sample_times a =
     (case validate_advance_request target sample_times a of
        Inl e \<Rightarrow> Some (Inl e, a)
      | Inr _ \<Rightarrow>
          if sa_requires_synchronization a then Some (Inl LogicError, a)
          else
            (case (case sample_times of None \<Rightarrow> Inr []
                   | Some _ \<Rightarrow> bindS (copy_continuous_state (sa_system a) (sa_accepted a) (continuous_state_size (sa_system a)))
                                (\<lambda>x. Inr [x])) of
               Inl e \<Rightarrow> Some (Inl e, a)
             | Inr first \<Rightarrow>
                 if feq target (sc_time (sa_accepted a)) then Some (Inr first, a)
                 else map_option synchronize_on_failure (advance_try B target sample_times first a)))"

definition advance_to :: "'b backend_ops \<Rightarrow> double \<Rightarrow> 'b system_advancer \<Rightarrow> (vec list outcome \<times> 'b system_advancer) option" where
  "advance_to B target a = map_option catch_coordinate_failure (advance_to_impl B target None a)"

definition advance_to_with_dense_state_samples ::
  "'b backend_ops \<Rightarrow> double \<Rightarrow> vec \<Rightarrow> 'b system_advancer \<Rightarrow> (vec list outcome \<times> 'b system_advancer) option" where
  "advance_to_with_dense_state_samples B target requested a =
     map_option catch_coordinate_failure (advance_to_impl B target (Some requested) a)"

definition synchronize_impl :: "'b backend_ops \<Rightarrow> ('b system_advancer, unit) effect" where
  "synchronize_impl B =
     seqE (modifyE (\<lambda>a. a\<lparr>sa_requires_synchronization := True\<rparr>)) (
     bindE (callE (\<lambda>a. copy_continuous_state (sa_system a) (sa_accepted a) (continuous_state_size (sa_system a)))) (\<lambda>x.
     seqE (modifyE (\<lambda>a. a\<lparr>sa_candidate_state := x\<rparr>)) (
     seqE (\<lambda>a. on_candidate B (set_time_state_and_hints (sa_system a) (sc_time (sa_accepted a)) x (sc_hints (sa_accepted a))) a) (
     seqE (\<lambda>a. on_candidate B (copy_context_local_data (sa_system a) (sa_accepted a)) a) (
     seqE (\<lambda>a. on_backend (bo_reinitialize B (sc_time (sa_accepted a)) x) a) (
     modifyE (\<lambda>a. a\<lparr>sa_requires_synchronization := False\<rparr>)))))))"

definition synchronize_after_accepted_context_change :: "'b backend_ops \<Rightarrow> ('b system_advancer, unit) effect" where
  "synchronize_after_accepted_context_change B a = catch_coordinate_failure (synchronize_impl B a)"

subsection \<open>Configuration and construction\<close>

text \<open>\<open>SystemIntegrationMethodConfiguration\<close>; a recipe of the tolerance methods is its tolerances.\<close>

datatype integration_method =
    CvodeBdf2 "double \<times> vec"
  | CvodeBdf5 "double \<times> vec"
  | Radau5 "double \<times> vec"
  | Newmark newmark_family_configuration
  | Zhai double

definition kDefaultMaximumInternalStepsPerAdvance :: nat where
  "kDefaultMaximumInternalStepsPerAdvance = 1000000"

fun validate_scalars :: "integration_method \<Rightarrow> unit outcome" where
  "validate_scalars (Newmark c) = validate_newmark_configuration c"
| "validate_scalars (Zhai h) = reject_if (\<not> isfinite h \<or> h \<le> 0) InvalidArgument"
| "validate_scalars _ = Inr ()"

fun method_tolerances :: "integration_method \<Rightarrow> (double \<times> vec) option" where
  "method_tolerances (CvodeBdf2 t) = Some t"
| "method_tolerances (CvodeBdf5 t) = Some t"
| "method_tolerances (Radau5 t) = Some t"
| "method_tolerances _ = None"

text \<open>The checks of a mechanical method at the initial coordinates; \<open>topology\<close> is what the model says of its joints.\<close>

definition validate_mechanical ::
  "integration_method \<Rightarrow> system_instance \<Rightarrow> coordinate_topology \<Rightarrow> vec \<Rightarrow> multibody_context \<Rightarrow> unit outcome" where
  "validate_mechanical method sys topology x geometry =
     bindS (map_velocities_to_position_derivatives (si_model sys) geometry (segment (si_nq sys) (si_nv sys) x) (int (si_nq sys))) (\<lambda>rates.
     bindS (reject_if (\<not> all_finite rates) InvalidArgument) (\<lambda>_.
     bindS (make_coordinate_layout topology (int (si_nz sys))) (\<lambda>layout.
     case method of
       Newmark c \<Rightarrow> bindS (expand_configuration layout c (segment 0 (si_nq sys) x)) (\<lambda>_. Inr ())
     | _ \<Rightarrow> Inr ())))"

definition validate_integration_configuration ::
  "integration_method \<Rightarrow> system_instance \<Rightarrow> coordinate_topology \<Rightarrow> system_context \<Rightarrow> unit outcome" where
  "validate_integration_configuration method sys topology accepted =
     (let q = positions_range sys; v = velocities_range sys; z = series_range sys; model = si_model sys in
     bindS (validate_scalars method) (\<lambda>_.
     bindS (component_view sys accepted (multibody_component sys)) (\<lambda>_.
     bindS (reject_if (range_start q \<noteq> 0 \<or> int (range_size q) \<noteq> mm_nq model \<or> range_start v \<noteq> range_size q \<or>
       int (range_size v) \<noteq> mm_nv model \<or> range_start z \<noteq> range_size q + range_size v \<or>
       range_start z + range_size z \<noteq> continuous_state_size sys) InvalidArgument) (\<lambda>_.
     bindS (copy_continuous_state sys accepted (continuous_state_size sys)) (\<lambda>x.
     bindS (reject_if (\<not> all_finite x \<or> \<not> isfinite (sc_time accepted)) InvalidArgument) (\<lambda>_.
     bindS (case method_tolerances method of
              Some (relative, absolute) \<Rightarrow> reject_if (length absolute \<noteq> length x) InvalidArgument
            | None \<Rightarrow> reject_if (range_size q = 0) InvalidArgument) (\<lambda>_.
     bindS (create_default_context model) (\<lambda>geometry.
     case model_set_generalized_positions model (segment 0 (si_nq sys) x) geometry of
       (Inl e, _) \<Rightarrow> Inl e
     | (Inr _, geometry') \<Rightarrow>
         if method_tolerances method = None then validate_mechanical method sys topology x geometry' else Inr ()))))))))"

text \<open>The backend is constructed on the candidate, which it synchronizes with the accepted context's local data.\<close>

definition make_system_advancer_impl ::
  "nat \<Rightarrow> integration_method \<Rightarrow> system_instance \<Rightarrow> coordinate_topology \<Rightarrow> system_context \<Rightarrow>
     (system_context \<Rightarrow> system_context \<Rightarrow> vec \<Rightarrow> (system_context \<times> 'b) outcome) \<Rightarrow> 'b system_advancer outcome" where
  "make_system_advancer_impl maximum_internal_steps method sys topology accepted make_backend =
     bindS (reject_if (maximum_internal_steps = 0) InvalidArgument) (\<lambda>_.
     bindS (validate_integration_configuration method sys topology accepted) (\<lambda>_.
     bindS (create_default_runtime_context sys (sc_time accepted)) (\<lambda>fresh.
     bindS (copy_continuous_state sys accepted (continuous_state_size sys)) (\<lambda>x.
     case set_time_state_and_hints sys (sc_time accepted) x (sc_hints accepted) fresh of
       (Inl e, _) \<Rightarrow> Inl e
     | (Inr _, candidate) \<Rightarrow>
         bindS (make_backend candidate accepted x) (\<lambda>(candidate', b).
         Inr \<lparr>sa_maximum_internal_steps = maximum_internal_steps, sa_system = sys, sa_accepted = accepted,
              sa_candidate = candidate', sa_candidate_state = x, sa_backend = b, sa_requires_synchronization = False\<rparr>)))))"

definition make_system_advancer ::
  "nat \<Rightarrow> integration_method \<Rightarrow> system_instance \<Rightarrow> coordinate_topology \<Rightarrow> system_context \<Rightarrow>
     (system_context \<Rightarrow> system_context \<Rightarrow> vec \<Rightarrow> (system_context \<times> 'b) outcome) \<Rightarrow> 'b system_advancer outcome" where
  "make_system_advancer maximum_internal_steps method sys topology accepted make_backend =
     (case make_system_advancer_impl maximum_internal_steps method sys topology accepted make_backend of
        Inl e \<Rightarrow> Inl (rethrow_coordinate_numerical_failure e) | Inr a \<Rightarrow> Inr a)"

subsection \<open>The coordinate runtimes\<close>

text \<open>\<open>CoordinateRuntime\<close>: a bridge on the candidate and an advancer that borrows the bridge.  The argument
  \<open>set_problem\<close> re-seats the problem a core holds a reference to.\<close>

record ('k, 'p, 'c) coordinate_runtime =
  cr_bridge :: bridge_state
  cr_advancer :: "('k, 'p, 'c) advancer"

definition borrowed ::
  "rotations \<Rightarrow> system_instance \<Rightarrow> (coordinate_problem \<Rightarrow> 'k \<Rightarrow> 'k) \<Rightarrow> ('k, 'p, 'c) coordinate_runtime \<Rightarrow> ('k, 'p, 'c) advancer" where
  "borrowed rot sys set_problem b =
     (let problem = system_problem rot sys (cr_bridge b); a = cr_advancer b in
      a\<lparr>a_problem := problem, a_core := set_problem (scp_problem problem) (a_core a)\<rparr>)"

definition coordinate_runtime_ops ::
  "rotations \<Rightarrow> system_instance \<Rightarrow> ('k, 'p, 'c) coordinate_method \<Rightarrow> (coordinate_problem \<Rightarrow> 'k \<Rightarrow> 'k) \<Rightarrow>
     ('k, 'p, 'c) coordinate_runtime backend_ops" where
  "coordinate_runtime_ops rot sys M set_problem =
     \<lparr>bo_advance = (\<lambda>stop b. case advancer_advance M stop (int (continuous_state_size sys)) (borrowed rot sys set_problem b) of
          None \<Rightarrow> None | Some (r, a) \<Rightarrow> Some (r, b\<lparr>cr_advancer := a\<rparr>)),
      bo_dense_interval = (\<lambda>b. a_dense_interval (cr_advancer b)),
      bo_copy_dense = (\<lambda>b time. copy_dense_state time (int (continuous_state_size sys)) (borrowed rot sys set_problem b)),
      bo_notify_projection_change = (\<lambda>b. b),
      bo_rebind = (\<lambda>c b. b\<lparr>cr_bridge := (cr_bridge b)\<lparr>br_trial := c\<rparr>\<rparr>),
      bo_reinitialize = (\<lambda>time x b. let (r, a) = advancer_reinitialize M time x (borrowed rot sys set_problem b) in
          (r, b\<lparr>cr_advancer := a\<rparr>))\<rparr>"

definition make_coordinate_runtime ::
  "rotations \<Rightarrow> system_instance \<Rightarrow> (system_coordinate_problem \<Rightarrow> double \<Rightarrow> vec \<Rightarrow> ('k, 'p, 'c) advancer outcome) \<Rightarrow>
     system_context \<Rightarrow> system_context \<Rightarrow> vec \<Rightarrow> (system_context \<times> ('k, 'p, 'c) coordinate_runtime) outcome" where
  "make_coordinate_runtime rot sys construct_advancer candidate accepted x =
     bindS (make_bridge sys candidate) (\<lambda>bridge.
     case bridge_synchronize sys accepted bridge of
       (Inl e, _) \<Rightarrow> Inl e
     | (Inr _, bridge') \<Rightarrow>
         bindS (construct_advancer (system_problem rot sys bridge') (sc_time accepted) x) (\<lambda>a.
         Inr (br_trial bridge', \<lparr>cr_bridge = bridge', cr_advancer = a\<rparr>)))"

definition set_newmark_problem :: "coordinate_problem \<Rightarrow> newmark_core \<Rightarrow> newmark_core" where
  "set_newmark_problem p k = k\<lparr>nm_state := (nm_state k)\<lparr>k_problem := p\<rparr>\<rparr>"

definition set_zhai_problem :: "coordinate_problem \<Rightarrow> zhai_core \<Rightarrow> zhai_core" where
  "set_zhai_problem p k = k\<lparr>zc_state := (zc_state k)\<lparr>k_problem := p\<rparr>\<rparr>"

definition newmark_runtime_ops ::
  "lu_solver \<Rightarrow> rotations \<Rightarrow> system_instance \<Rightarrow>
     (newmark_core, recovery_policy, newmark_configuration) coordinate_runtime backend_ops" where
  "newmark_runtime_ops lu rot sys = coordinate_runtime_ops rot sys (newmark_method lu) set_newmark_problem"

definition zhai_runtime_ops ::
  "rotations \<Rightarrow> system_instance \<Rightarrow> (zhai_core, double, unit) coordinate_runtime backend_ops" where
  "zhai_runtime_ops rot sys = coordinate_runtime_ops rot sys zhai_method set_zhai_problem"

text \<open>\<open>MakeRuntime\<close> for the two mechanical methods.\<close>

definition make_newmark_runtime ::
  "rotations \<Rightarrow> system_instance \<Rightarrow> coordinate_topology \<Rightarrow> newmark_family_configuration \<Rightarrow> system_context \<Rightarrow> system_context \<Rightarrow> vec \<Rightarrow>
     (system_context \<times> (newmark_core, recovery_policy, newmark_configuration) coordinate_runtime) outcome" where
  "make_newmark_runtime rot sys topology c =
     make_coordinate_runtime rot sys (\<lambda>problem time x. make_newmark_advancer problem topology time x c)"

definition make_zhai_runtime ::
  "rotations \<Rightarrow> system_instance \<Rightarrow> double \<Rightarrow> system_context \<Rightarrow> system_context \<Rightarrow> vec \<Rightarrow>
     (system_context \<times> (zhai_core, double, unit) coordinate_runtime) outcome" where
  "make_zhai_runtime rot sys h = make_coordinate_runtime rot sys (\<lambda>problem time x. make_zhai_advancer problem time x h)"

subsection \<open>What an advance promises\<close>

text \<open>A sample the backend read from a dense interval of one of its successful steps that contains the time.\<close>

definition densely_sampled :: "'b backend_ops \<Rightarrow> ('b \<Rightarrow> bool) \<Rightarrow> double \<Rightarrow> vec \<Rightarrow> bool" where
  "densely_sampled B ok t x \<longleftrightarrow>
     (\<exists>b s e. ok b \<and> bo_dense_interval B b = Some (s, e) \<and> \<not> t < s \<and> t \<le> e \<and> bo_copy_dense B b t = Inr x)"

abbreviation accepted_state :: "'b system_advancer \<Rightarrow> vec outcome" where
  "accepted_state a \<equiv> copy_continuous_state (sa_system a) (sa_accepted a) (continuous_state_size (sa_system a))"

definition samples_delivered ::
  "'b backend_ops \<Rightarrow> ('b \<Rightarrow> bool) \<Rightarrow> vec option \<Rightarrow> 'b system_advancer \<Rightarrow> vec list \<Rightarrow> 'b system_advancer \<Rightarrow> bool" where
  "samples_delivered B ok sample_times a samples b \<longleftrightarrow>
     (case sample_times of None \<Rightarrow> samples = []
      | Some requested \<Rightarrow> length samples = length requested \<and> accepted_state a = Inr (hd samples) \<and>
          accepted_state b = Inr (last samples) \<and>
          (\<forall>i. 0 < i \<longrightarrow> i + 1 < length requested \<longrightarrow> densely_sampled B ok (requested ! i) (samples ! i)))"

definition system_advance_spec ::
  "'b backend_ops \<Rightarrow> ('b \<Rightarrow> bool) \<Rightarrow> double \<Rightarrow> vec option \<Rightarrow> 'b system_advancer \<Rightarrow> vec list outcome \<Rightarrow>
     'b system_advancer \<Rightarrow> bool" where
  "system_advance_spec B ok target sample_times a r b \<longleftrightarrow>
     (case r of
        Inl e \<Rightarrow> sa_accepted b = sa_accepted a \<and> (\<forall>reason. e \<noteq> CoordinateFailure reason) \<and>
          (b = a \<or> sa_requires_synchronization b)
      | Inr samples \<Rightarrow>
          \<not> sa_requires_synchronization b \<and> sc_time (sa_accepted b) = target \<and>
          (\<forall>p. p \<notin> {TimePart, CoordinatePart, SeriesPart, HintsPart} \<longrightarrow> same_part p (sa_accepted a) (sa_accepted b)) \<and>
          (target \<noteq> sc_time (sa_accepted a) \<longrightarrow> accepted_state b = Inr (sa_candidate_state b) \<and>
             sc_hints (sa_accepted b) = sc_hints (sa_candidate b)) \<and>
          samples_delivered B ok sample_times a samples b)"

definition contexts_ok :: "'b system_advancer \<Rightarrow> bool" where
  "contexts_ok a \<longleftrightarrow> system_ok (sa_system a) \<and> context_wf (sa_system a) (sa_accepted a) \<and> context_wf (sa_system a) (sa_candidate a)"

text \<open>Unless synchronization is asked for, the backend stands at the accepted time.\<close>

definition system_advancer_wf :: "('b \<Rightarrow> bool) \<Rightarrow> ('b \<Rightarrow> double) \<Rightarrow> 'b system_advancer \<Rightarrow> bool" where
  "system_advancer_wf ok now a \<longleftrightarrow> contexts_ok a \<and> ok (sa_backend a) \<and>
     (\<not> sa_requires_synchronization a \<longrightarrow> now (sa_backend a) = sc_time (sa_accepted a))"

text \<open>What the loop over internal steps may touch.\<close>

definition step_frame :: "'b system_advancer \<Rightarrow> 'b system_advancer \<Rightarrow> bool" where
  "step_frame a b \<longleftrightarrow> (\<exists>c x k. b = a\<lparr>sa_candidate := c, sa_candidate_state := x, sa_backend := k\<rparr>)"

lemma step_frame_refl: "step_frame a a"
  unfolding step_frame_def
  by (rule exI [of _ "sa_candidate a"], rule exI [of _ "sa_candidate_state a"], rule exI [of _ "sa_backend a"]) simp

lemma step_frame_trans: "step_frame a b \<Longrightarrow> step_frame b c \<Longrightarrow> step_frame a c"
  by (fastforce simp: step_frame_def)

lemma double_before:
  shows "x < y \<Longrightarrow> y \<noteq> (x :: double)" and "isfinite x \<Longrightarrow> isfinite y \<Longrightarrow> x \<le> y \<Longrightarrow> x \<noteq> y \<Longrightarrow> x < y"
proof -
  have "\<not> x < x" by (cases x) (simp_all add: less_double_def)
  then show "x < y \<Longrightarrow> y \<noteq> x" by auto
  show "isfinite x \<Longrightarrow> isfinite y \<Longrightarrow> x \<le> y \<Longrightarrow> x \<noteq> y \<Longrightarrow> x < y" by (auto simp: isfinite_iff)
qed

lemma set_time_then_copy:
  assumes "system_ok sys" and "context_wf sys c" and "set_time_and_continuous_state sys t x c = (Inr (), d)"
  shows "copy_continuous_state sys d (continuous_state_size sys) = Inr x" and "sc_time d = t" and "sc_hints d = sc_hints c"
proof -
  obtain nq nv where x: "length x = continuous_state_size sys"
    and d: "d = c\<lparr>sc_multibody := (sc_multibody c)\<lparr>mc_state := (mc_state (sc_multibody c))
               \<lparr>ms_positions := segment 0 (si_nq sys) x, ms_velocities := segment (si_nq sys) (si_nv sys) x,
                ms_positions_version := nq, ms_velocities_version := nv\<rparr>\<rparr>,
             sc_series := segment (si_nq sys + si_nv sys) (si_nz sys) x, sc_time := t\<rparr>"
    using assms(3) unfolding set_time_and_continuous_state_Inr [OF assms(1,2)] by blast
  show "copy_continuous_state sys d (continuous_state_size sys) = Inr x"
    using assms(2) x three_blocks_finite(2) [of x "si_nq sys" "si_nv sys" "si_nz sys"]
    by (simp add: copy_continuous_state_def own_context_def d context_wf_def Let_def continuous_state_size_def)
  show "sc_time d = t" and "sc_hints d = sc_hints c" by (simp_all add: d)
qed

text \<open>Two contexts agree in everything an evaluation reads.\<close>

definition mirrors :: "system_instance \<Rightarrow> system_context \<Rightarrow> system_context \<Rightarrow> bool" where
  "mirrors sys c d \<longleftrightarrow> sc_time d = sc_time c \<and> sc_positions d = sc_positions c \<and> sc_velocities d = sc_velocities c \<and>
     sc_series d = sc_series c \<and> sc_nominal d = sc_nominal c \<and> sc_held d = sc_held c \<and> sc_hints d = sc_hints c \<and>
     (\<forall>joint \<in> set (mm_joint_slots (si_model sys)).
        joint_damping joint (mc_state (sc_multibody d)) = joint_damping joint (mc_state (sc_multibody c)))"

lemma synchronized_mirrors:
  assumes ok: "system_ok sys" and a: "context_wf sys a" and c: "context_wf sys c"
    and x: "copy_continuous_state sys a (continuous_state_size sys) = Inr x"
    and s: "set_time_state_and_hints sys (sc_time a) x (sc_hints a) c = (Inr (), d)"
    and l: "copy_context_local_data sys a d = (r, e)"
  shows "r = Inr ()" and "mirrors sys a e" and "context_wf sys e"
proof -
  obtain b where b: "set_time_and_continuous_state sys (sc_time a) x c = (Inr (), b)" and d: "d = b\<lparr>sc_hints := sc_hints a\<rparr>"
    using s unfolding set_time_state_and_hints_Inr by blast
  have xs: "x = sc_positions a @ sc_velocities a @ sc_series a"
    using x by (simp add: copy_continuous_state_def bindS_eq_Inr)
  have len: "length (sc_positions a) = si_nq sys" "length (sc_velocities a) = si_nv sys" "length (sc_series a) = si_nz sys"
  proof -
    have n: "int (si_nq sys) = mm_nq (si_model sys)" "int (si_nv sys) = mm_nv (si_model sys)" using ok by (simp_all add: system_ok_def Let_def)
    have w: "mstate_wf (mc_state (sc_multibody a))" "ms_layout (mc_state (sc_multibody a)) = mm_layout (si_model sys)"
      "length (sc_series a) = si_nz sys"
      using a by (simp_all add: context_wf_def Let_def same_model_def)
    then show "length (sc_positions a) = si_nq sys" "length (sc_velocities a) = si_nv sys" "length (sc_series a) = si_nz sys"
      using n by (simp_all add: mstate_wf_def Let_def mm_nq_def mm_nv_def)
  qed
  have state: "sc_positions d = sc_positions a" "sc_velocities d = sc_velocities a" "sc_series d = sc_series a"
    "sc_time d = sc_time a" "sc_hints d = sc_hints a"
    using b len unfolding set_time_and_continuous_state_Inr [OF ok c] by (auto simp: d xs segment_def)
  have wf: "context_wf sys d" by (rule set_state_hints.outcome_wf [OF ok TrueI c s])
  obtain damping where
    run: "copy_context_local_data sys a d = (Inr (), d\<lparr>sc_multibody := (sc_multibody d)\<lparr>mc_state :=
        (mc_state (sc_multibody d))\<lparr>ms_damping := damping\<rparr>\<rparr>, sc_nominal := sc_nominal a, sc_held := sc_held a\<rparr>)"
    and joints: "\<And>joint. joint \<in> set (mm_joint_slots (si_model sys)) \<Longrightarrow>
       joint_damping joint ((mc_state (sc_multibody d))\<lparr>ms_damping := damping\<rparr>) = joint_damping joint (mc_state (sc_multibody a))"
    using copy_context_local_data_run [OF ok a wf] by metis
  show "r = Inr ()" using run l by simp
  show "mirrors sys a e" using run l state joints by (auto simp: mirrors_def)
  show "context_wf sys e" by (rule copy_local.outcome_wf [OF ok a wf l])
qed

text \<open>The samples of one interval extend the collected ones.\<close>

lemma copy_samples_outcome:
  "copy_samples copy s e requested samples = Inr samples' \<Longrightarrow>
     \<exists>xs. samples' = samples @ xs \<and> length xs \<le> length requested \<and>
       (\<forall>i < length xs. \<not> requested ! i < s \<and> requested ! i \<le> e \<and> copy (requested ! i) = Inr (xs ! i))"
proof (induction copy s e requested samples arbitrary: samples' rule: copy_samples.induct)
  case (1 copy s e t u ts samples)
  show ?case
  proof (cases "\<not> t \<le> e")
    case True
    then show ?thesis using 1 by simp
  next
    case False
    then obtain x where x: "\<not> t < s" "copy t = Inr x" "copy_samples copy s e (u # ts) (samples @ [x]) = Inr samples'"
      using 1(2) by (auto simp: bindS_eq_Inr split: if_splits)
    then obtain xs where "samples' = (samples @ [x]) @ xs" "length xs \<le> length (u # ts)"
      "\<forall>i < length xs. \<not> (u # ts) ! i < s \<and> (u # ts) ! i \<le> e \<and> copy ((u # ts) ! i) = Inr (xs ! i)"
      using 1(1) False by blast
    then show ?thesis using x False by (intro exI [of _ "x # xs"]) (auto simp: nth_Cons split: nat.splits)
  qed
qed simp_all

subsection \<open>The contract of a backend\<close>

locale continuous_state_backend =
  fixes B :: "'b backend_ops" and ok :: "'b \<Rightarrow> bool" and now :: "'b \<Rightarrow> double"
  assumes advance_returns: "ok b \<Longrightarrow> \<exists>r b'. bo_advance B stop b = Some (r, b') \<and> ok b'"
    and advance_moves: "ok b \<Longrightarrow> bo_advance B stop b = Some (Inr (st, x), b') \<Longrightarrow> isfinite stop \<Longrightarrow> now b < stop \<Longrightarrow>
        st_end st = now b' \<and> isfinite (now b') \<and> now b' \<le> stop \<and> (st_reached_stop st \<longleftrightarrow> now b' = stop) \<and>
        bo_dense_interval B b' = Some (now b, now b')"
    and notify_keeps: "ok b \<Longrightarrow> ok (bo_notify_projection_change B b) \<and> now (bo_notify_projection_change B b) = now b"
    and rebind_keeps: "ok b \<Longrightarrow> ok (bo_rebind B c b) \<and> now (bo_rebind B c b) = now b"
    and reinitialize_moves: "ok b \<Longrightarrow> isfinite t \<Longrightarrow> bo_reinitialize B t x b = (r, b') \<Longrightarrow>
        ok b' \<and> (r = Inr () \<longrightarrow> now b' = t)"
begin

definition ready :: "'b system_advancer \<Rightarrow> bool" where
  "ready a \<longleftrightarrow> contexts_ok a \<and> ok (sa_backend a)"

definition collected :: "vec option \<Rightarrow> vec \<Rightarrow> vec list \<Rightarrow> bool" where
  "collected sample_times x samples \<longleftrightarrow>
     (case sample_times of None \<Rightarrow> samples = []
      | Some requested \<Rightarrow> samples \<noteq> [] \<and> hd samples = x \<and> length samples \<le> length requested \<and>
          (\<forall>i. 0 < i \<longrightarrow> i < length samples \<longrightarrow> densely_sampled B ok (requested ! i) (samples ! i)))"

lemma collected_step:
  assumes "collected ts x samples" and "sample_step B ts step samples a = Inr samples'" and "ok (sa_backend a)"
  shows "collected ts x samples'"
proof (cases ts)
  case None
  then show ?thesis using assms by (simp add: collected_def sample_step_def)
next
  case (Some requested)
  have s: "samples \<noteq> []" "hd samples = x" "length samples \<le> length requested"
    "\<And>i. 0 < i \<Longrightarrow> i < length samples \<Longrightarrow> densely_sampled B ok (requested ! i) (samples ! i)"
    using assms(1) by (simp_all add: collected_def Some)
  obtain u e where d: "bo_dense_interval B (sa_backend a) = Some (u, e)" "feq e (st_end step)"
    and c: "copy_samples (bo_copy_dense B (sa_backend a)) u (st_end step) (drop (length samples) requested) samples = Inr samples'"
    using assms(2) by (auto simp: sample_step_def Some split: option.splits if_splits)
  from copy_samples_outcome [OF c] obtain xs where xs: "samples' = samples @ xs" "length xs \<le> length requested - length samples"
    "\<And>i. i < length xs \<Longrightarrow> \<not> requested ! (length samples + i) < u \<and> requested ! (length samples + i) \<le> st_end step \<and>
       bo_copy_dense B (sa_backend a) (requested ! (length samples + i)) = Inr (xs ! i)"
    using s(3) by auto
  have "e = st_end step" using d(2) by (simp add: feq_def)
  then have new: "densely_sampled B ok (requested ! (length samples + i)) (xs ! i)" if "i < length xs" for i
    using xs(3) [OF that] d(1) assms(3) unfolding densely_sampled_def by blast
  have "densely_sampled B ok (requested ! i) (samples' ! i)" if "0 < i" "i < length samples'" for i
    using s(4) [of i] new [of "i - length samples"] that xs(1) by (cases "i < length samples") (auto simp: nth_append)
  then show ?thesis using s xs(1,2) by (simp add: collected_def Some)
qed

lemma on_candidate_outcome:
  assumes "ready a" and "on_candidate B m a = (r, b)" and "context_wf (sa_system a) c" and "m (sa_candidate a) = (r', c)"
  shows "r = r' \<and> step_frame a b \<and> ready b \<and> now (sa_backend b) = now (sa_backend a) \<and>
    sa_candidate_state b = sa_candidate_state a"
proof -
  have b: "r = r'" "b = a\<lparr>sa_candidate := c, sa_backend := bo_rebind B c (sa_backend a)\<rparr>"
    using assms(2,4) by (simp_all add: on_candidate_def)
  have "step_frame a b" unfolding step_frame_def b(2)
    by (rule exI [of _ c], rule exI [of _ "sa_candidate_state a"], rule exI [of _ "bo_rebind B c (sa_backend a)"]) simp
  then show ?thesis using assms b rebind_keeps [of "sa_backend a" c] by (simp add: ready_def contexts_ok_def)
qed

lemma on_candidate_candidate: "on_candidate B m a = (r, b) \<Longrightarrow> m (sa_candidate a) = (r', c) \<Longrightarrow> sa_candidate b = c"
  by (auto simp: on_candidate_def)

lemma install_step_outcome:
  assumes "ready a" and "install_step B target ts expected samples step a = (r, b)"
  shows "step_frame a b \<and> ready b \<and> now (sa_backend b) = now (sa_backend a) \<and> sa_candidate_state b = sa_candidate_state a \<and>
    (\<forall>samples'. r = Inr samples' \<longrightarrow> sample_step B ts step samples a = Inr samples')"
proof -
  have a: "system_ok (sa_system a)" "context_wf (sa_system a) (sa_candidate a)"
    using assms(1) by (simp_all add: ready_def contexts_ok_def)
  let ?set = "set_time_and_continuous_state (sa_system a) (st_end step) (sa_candidate_state a)"
  obtain r1 c1 where w1: "?set (sa_candidate a) = (r1, c1)" by fastforce
  obtain q1 b1 where s1: "on_candidate B ?set a = (q1, b1)" by fastforce
  note o1 = on_candidate_outcome [OF assms(1) s1 set_state.outcome_wf [OF a(1) TrueI a(2) w1] w1]
  then have sys1: "sa_system b1 = sa_system a" by (auto simp: step_frame_def)
  let ?upd = "update_projection_hints (sa_system b1)"
  obtain r2 c2 where w2: "?upd (sa_candidate b1) = (r2, c2)" by fastforce
  obtain q2 b2 where s2: "on_candidate B ?upd b1 = (q2, b2)" by fastforce
  have wf1: "system_ok (sa_system b1)" "context_wf (sa_system b1) (sa_candidate b1)"
    using o1 unfolding ready_def contexts_ok_def by blast+
  have o2: "q2 = r2 \<and> step_frame b1 b2 \<and> ready b2 \<and> now (sa_backend b2) = now (sa_backend b1) \<and>
    sa_candidate_state b2 = sa_candidate_state b1"
    using on_candidate_outcome [OF _ s2 update_hints.outcome_wf [OF wf1(1) TrueI wf1(2) w2] w2] o1 by blast
  let ?b3 = "if sc_hints (sa_candidate b2) = [] then b2 else b2\<lparr>sa_backend := bo_notify_projection_change B (sa_backend b2)\<rparr>"
  have "step_frame b2 ?b3" unfolding step_frame_def
    by (rule exI [of _ "sa_candidate b2"], rule exI [of _ "sa_candidate_state b2"], rule exI [of _ "sa_backend ?b3"]) simp
  then have o3: "step_frame b2 ?b3 \<and> ready ?b3 \<and> now (sa_backend ?b3) = now (sa_backend b2) \<and> sa_candidate_state ?b3 = sa_candidate_state b2"
    using o2 notify_keeps [of "sa_backend b2"] by (simp add: ready_def contexts_ok_def)
  let ?good = "\<lambda>k. step_frame a k \<and> ready k \<and> now (sa_backend k) = now (sa_backend a) \<and> sa_candidate_state k = sa_candidate_state a"
  have "?good a" using assms(1) step_frame_refl by simp
  moreover have g1: "?good b1" using o1 by simp
  moreover have g2: "?good b2" using g1 o2 step_frame_trans [of a b1 b2] by simp
  moreover have "?good ?b3" using g2 o3 step_frame_trans [of a b2 ?b3] by simp
  moreover have "b = a \<or> b = b1 \<or> b = b2 \<or> b = ?b3"
    and more: "r = Inr samples' \<Longrightarrow> sample_step B ts step samples a = Inr samples'" for samples'
    using assms(2) s1 s2
    by (auto simp: install_step_def effect_simps split: sum.splits if_splits prod.splits)
  ultimately have "?good b" by blast
  then show ?thesis using more by blast
qed

end

context continuous_state_backend
begin

lemma budget_exhausted: "steps = sa_maximum_internal_steps a \<Longrightarrow>
    advance_steps B target ts steps expected samples a = Some (Inl (NumericalFailure AdvanceWorkBudgetExhausted 0), a)"
  by (simp add: advance_steps.simps)

lemma ready_frame: "step_frame a b \<Longrightarrow> sa_system b = sa_system a \<and> sa_accepted b = sa_accepted a \<and>
    sa_maximum_internal_steps b = sa_maximum_internal_steps a \<and> sa_requires_synchronization b = sa_requires_synchronization a"
  by (auto simp: step_frame_def)

lemma advance_steps_returns:
  assumes "ready a" and "isfinite target" and "now (sa_backend a) < target" and "steps \<le> sa_maximum_internal_steps a"
    and "collected ts x samples"
  shows "\<exists>r b. advance_steps B target ts steps expected samples a = Some (r, b) \<and> step_frame a b \<and> ready b \<and>
    (\<forall>samples'. r = Inr samples' \<longrightarrow> now (sa_backend b) = target \<and> collected ts x samples')"
  using assms
proof (induction "sa_maximum_internal_steps a - steps" arbitrary: a steps expected samples)
  case 0
  then have "steps = sa_maximum_internal_steps a" by simp
  from budget_exhausted [OF this] show ?case using 0(2) step_frame_refl by simp
next
  case (Suc n)
  then have more: "steps \<noteq> sa_maximum_internal_steps a" by simp
  have "ok (sa_backend a)" using Suc.prems(1) by (simp add: ready_def)
  then obtain r k where k: "bo_advance B target (sa_backend a) = Some (r, k)" "ok k" using advance_returns by blast
  show ?case
  proof (cases r)
    case (Inl e)
    let ?b = "a\<lparr>sa_backend := k\<rparr>"
    have "step_frame a ?b" unfolding step_frame_def
      by (rule exI [of _ "sa_candidate a"], rule exI [of _ "sa_candidate_state a"], rule exI [of _ k]) simp
    moreover have "ready ?b" using Suc.prems(1) k(2) by (simp add: ready_def contexts_ok_def)
    moreover have "advance_steps B target ts steps expected samples a = Some (Inl e, ?b)"
      using more k Inl by (simp add: advance_steps.simps)
    ultimately show ?thesis by blast
  next
    case (Inr sx)
    obtain st y where sx: "sx = (st, y)" by (cases sx)
    note moves = advance_moves [OF \<open>ok (sa_backend a)\<close> k(1) [unfolded Inr sx] Suc.prems(2,3)]
    let ?a = "a\<lparr>sa_backend := k, sa_candidate_state := y\<rparr>"
    have frame: "step_frame a ?a" unfolding step_frame_def
      by (rule exI [of _ "sa_candidate a"], rule exI [of _ y], rule exI [of _ k]) simp
    have rdy: "ready ?a" using Suc.prems(1) k(2) by (simp add: ready_def contexts_ok_def)
    obtain q b where ins: "install_step B target ts expected samples st ?a = (q, b)" by fastforce
    note o = install_step_outcome [OF rdy ins]
    have step: "advance_steps B target ts steps expected samples a =
      (case q of Inl e \<Rightarrow> Some (Inl e, b)
       | Inr samples' \<Rightarrow> if st_reached_stop st then Some (Inr samples', b)
           else advance_steps B target ts (steps + 1) (st_end st) samples' b)"
      using more k(1) Inr sx ins by (subst advance_steps.simps) simp
    have f: "step_frame a b" using step_frame_trans frame o by blast
    show ?thesis
    proof (cases q)
      case (Inl e)
      then show ?thesis using step f o by simp
    next
      case q: (Inr samples')
      have read: "sample_step B ts st samples ?a = Inr samples'" using o q by simp
      have col: "collected ts x samples'" using collected_step [OF Suc.prems(5) read] rdy by (simp add: ready_def)
      have here: "now (sa_backend b) = now k" using o by simp
      show ?thesis
      proof (cases "st_reached_stop st")
        case True
        then show ?thesis using step q f o col moves here by simp
      next
        case False
        have lt: "now (sa_backend b) < target" using moves False here Suc.prems(2) double_before(2) by simp
        have le: "n = sa_maximum_internal_steps b - (steps + 1)" "steps + 1 \<le> sa_maximum_internal_steps b"
          using Suc.hyps(2) Suc.prems(4) more ready_frame [OF f] by simp_all
        from Suc.hyps(1) [OF le(1) _ Suc.prems(2) lt le(2) col] o obtain r' c where
          "advance_steps B target ts (steps + 1) (st_end st) samples' b = Some (r', c)" "step_frame b c" "ready c"
          "\<forall>samples'. r' = Inr samples' \<longrightarrow> now (sa_backend c) = target \<and> collected ts x samples'"
          by blast
        then show ?thesis using step q False step_frame_trans [OF f] by simp
      qed
    qed
  qed
qed

lemma publish_endpoint_outcome:
  assumes "ready a" and "publish_endpoint target ts samples a = (r, b)" and "collected ts x samples"
    and "target \<noteq> sc_time (sa_accepted a)" and "accepted_state a = Inr x" and "\<not> sa_requires_synchronization a"
  shows "contexts_ok b \<and> sa_backend b = sa_backend a \<and>
    (\<forall>e. r = Inl e \<longrightarrow> b = a) \<and> (\<forall>samples'. r = Inr samples' \<longrightarrow> system_advance_spec B ok target ts a (Inr samples') b)"
proof -
  have a: "system_ok (sa_system a)" "context_wf (sa_system a) (sa_accepted a)" "context_wf (sa_system a) (sa_candidate a)"
    using assms(1) by (simp_all add: ready_def contexts_ok_def)
  let ?set = "set_time_state_and_hints (sa_system a) target (sa_candidate_state a) (sc_hints (sa_candidate a))"
  obtain q c where w: "?set (sa_accepted a) = (q, c)" by fastforce
  let ?short = "case ts of None \<Rightarrow> False | Some requested \<Rightarrow> length samples + 1 \<noteq> length requested"
  let ?result = "case ts of None \<Rightarrow> samples | Some _ \<Rightarrow> samples @ [sa_candidate_state a]"
  have run: "(r, b) = (if ?short then (Inl RuntimeError, a)
      else case q of Inl e \<Rightarrow> (Inl e, a\<lparr>sa_accepted := c\<rparr>) | Inr u \<Rightarrow> (Inr ?result, a\<lparr>sa_accepted := c\<rparr>))"
    using assms(2) w by (auto simp: publish_endpoint_def effect_simps on_accepted_def split: sum.splits)
  show ?thesis
  proof (cases "?short")
    case True
    then show ?thesis using run assms(1) by (simp add: ready_def)
  next
    case False
    show ?thesis
    proof (cases q)
      case (Inl e)
      have "c = sa_accepted a" using set_state_hints.write_refused [OF a(1) TrueI a(2)] w Inl by blast
      then show ?thesis using run False Inl assms(1) by (simp add: ready_def)
    next
      case (Inr u)
      have b: "r = Inr ?result" "b = a\<lparr>sa_accepted := c\<rparr>" using run False Inr by simp_all
      have ok: "?set (sa_accepted a) = (Inr (), c)" using w Inr by simp
      then obtain d where d: "set_time_and_continuous_state (sa_system a) target (sa_candidate_state a) (sa_accepted a) = (Inr (), d)"
        and c: "c = d\<lparr>sc_hints := sc_hints (sa_candidate a)\<rparr>"
        unfolding set_time_state_and_hints_Inr by blast
      note new = set_time_then_copy [OF a(1,2) d]
      have st: "accepted_state b = Inr (sa_candidate_state a)"
        using new(1) by (simp add: b c copy_continuous_state_def own_context_def)
      have delivered: "samples_delivered B ok ts a ?result b"
      proof (cases ts)
        case None
        then show ?thesis using assms(3) by (simp add: samples_delivered_def collected_def)
      next
        case (Some requested)
        have s: "samples \<noteq> []" "hd samples = x" "\<And>i. 0 < i \<Longrightarrow> i < length samples \<Longrightarrow> densely_sampled B ok (requested ! i) (samples ! i)"
          using assms(3) by (simp_all add: collected_def Some)
        then show ?thesis using st False assms(5) by (simp add: samples_delivered_def Some nth_append)
      qed
      have "contexts_ok b"
        using a set_state_hints.write_keeps [OF a(1) TrueI a(2) ok] by (simp add: contexts_ok_def b)
      moreover have "\<forall>p. p \<notin> {TimePart, CoordinatePart, SeriesPart, HintsPart} \<longrightarrow> same_part p (sa_accepted a) (sa_accepted b)"
        using set_state_hints.write_touches [OF a(1) TrueI a(2) ok] by (simp add: b)
      moreover have "sa_requires_synchronization b = False" "sc_time (sa_accepted b) = target"
        "sc_hints (sa_accepted b) = sc_hints (sa_candidate b)" "sa_candidate_state b = sa_candidate_state a" "sa_backend b = sa_backend a"
        using new(2) assms(6) by (simp_all add: b c)
      ultimately show ?thesis using b(1) st delivered assms(4) unfolding system_advance_spec_def by simp
    qed
  qed
qed

end

context continuous_state_backend
begin

lemma synchronize_on_failure_run: "synchronize_on_failure (r, b) =
    (r, b\<lparr>sa_requires_synchronization := (if r \<in> range Inl then True else sa_requires_synchronization b)\<rparr>)"
  by (cases r) (auto simp: synchronize_on_failure_def)

lemma advance_try_outcome:
  assumes "ready a" and "now (sa_backend a) = sc_time (sa_accepted a)" and "isfinite target" and "sc_time (sa_accepted a) < target"
    and "collected ts x samples" and "accepted_state a = Inr x" and "\<not> sa_requires_synchronization a"
  shows "\<exists>r b. advance_try B target ts samples a = Some (r, b) \<and> contexts_ok b \<and> ok (sa_backend b) \<and>
    (\<forall>e. r = Inl e \<longrightarrow> sa_accepted b = sa_accepted a) \<and>
    (\<forall>samples'. r = Inr samples' \<longrightarrow> now (sa_backend b) = target \<and> system_advance_spec B ok target ts a (Inr samples') b)"
proof -
  obtain r b where run: "advance_steps B target ts 0 (sc_time (sa_accepted a)) samples a = Some (r, b)"
    and f: "step_frame a b" and b: "ready b"
    and good: "\<And>samples'. r = Inr samples' \<Longrightarrow> now (sa_backend b) = target \<and> collected ts x samples'"
    using advance_steps_returns [OF assms(1,3) _ le0 assms(5)] assms(2,4) by metis
  have same: "sa_accepted b = sa_accepted a" "sa_system b = sa_system a"
    "sa_requires_synchronization b = sa_requires_synchronization a"
    using ready_frame [OF f] by simp_all
  show ?thesis
  proof (cases r)
    case (Inl e)
    then show ?thesis using run b same by (simp add: advance_try_def ready_def)
  next
    case (Inr samples')
    obtain q c where pub: "publish_endpoint target ts samples' b = (q, c)" by fastforce
    have ne: "target \<noteq> sc_time (sa_accepted b)" using double_before(1) [OF assms(4)] same by simp
    have st: "accepted_state b = Inr x" using assms(6) same by simp
    note o = publish_endpoint_outcome [OF b pub _ ne st]
    have o: "contexts_ok c" "sa_backend c = sa_backend b" "\<And>e. q = Inl e \<Longrightarrow> c = b"
      "\<And>s. q = Inr s \<Longrightarrow> system_advance_spec B ok target ts b (Inr s) c"
      using o good [OF Inr] assms(7) same(3) by auto
    have spec: "system_advance_spec B ok target ts b (Inr s) c = system_advance_spec B ok target ts a (Inr s) c" for s
      by (simp add: system_advance_spec_def samples_delivered_def same cong: option.case_cong)
    have "advance_try B target ts samples a = Some (q, c)" using run Inr pub by (simp add: advance_try_def)
    then show ?thesis using o good [OF Inr] b same spec by (auto simp: ready_def)
  qed
qed

lemma spec_translated:
  "(\<exists>e. r = Inl e) \<Longrightarrow> sa_accepted b = sa_accepted a \<Longrightarrow> b = a \<or> sa_requires_synchronization b \<Longrightarrow>
     fst (catch_coordinate_failure (r, b)) = r' \<Longrightarrow> system_advance_spec B ok target ts a r' b"
  using rethrow_translates by (auto simp: catch_coordinate_failure_def system_advance_spec_def)

lemma advance_impl_outcome:
  assumes "system_advancer_wf ok now a"
  shows "\<exists>r b. map_option catch_coordinate_failure (advance_to_impl B target ts a) = Some (r, b) \<and>
    system_advance_spec B ok target ts a r b \<and> system_advancer_wf ok now b"
proof -
  have wf: "contexts_ok a" "ok (sa_backend a)" "\<not> sa_requires_synchronization a \<Longrightarrow> now (sa_backend a) = sc_time (sa_accepted a)"
    using assms by (simp_all add: system_advancer_wf_def)
  have same_result: ?thesis if "advance_to_impl B target ts a = Some (Inl e, a)" for e
    using that assms spec_translated [of "Inl e" a a, OF _ refl] by (simp add: catch_coordinate_failure_def)
  show ?thesis
  proof (cases "validate_advance_request target ts a")
    case (Inl e)
    then show ?thesis by (intro same_result [of e]) (simp add: advance_to_impl_def)
  next
    case valid: (Inr u)
    have times: "isfinite (sc_time (sa_accepted a))" using wf(1) by (simp add: contexts_ok_def context_wf_def Let_def)
    have target: "isfinite target" "\<not> target < sc_time (sa_accepted a)"
      using valid by (simp_all add: validate_advance_request_def Let_def)
    obtain t0 t1 where t: "sc_time (sa_accepted a) = Fin t0" "target = Fin t1" using times target(1) by (auto simp: isfinite_iff)
    obtain x where x: "accepted_state a = Inr x"
      using wf(1) by (auto simp: copy_continuous_state_def own_context_def contexts_ok_def context_wf_def Let_def)
    show ?thesis
    proof (cases "sa_requires_synchronization a")
      case True
      then show ?thesis using valid by (intro same_result [of LogicError]) (simp add: advance_to_impl_def)
    next
      case False
      define first where "first = (case ts of None \<Rightarrow> [] | Some _ \<Rightarrow> [x])"
      have run: "advance_to_impl B target ts a =
          (if feq target (sc_time (sa_accepted a)) then Some (Inr first, a)
           else map_option synchronize_on_failure (advance_try B target ts first a))"
        using valid False x by (cases ts) (simp_all add: advance_to_impl_def first_def)
      have col: "collected ts x first"
      proof (cases ts)
        case None
        then show ?thesis by (simp add: collected_def first_def)
      next
        case (Some requested)
        then have "requested \<noteq> []" using valid by (auto simp: validate_advance_request_def Let_def)
        then show ?thesis by (cases requested) (simp_all add: collected_def first_def Some)
      qed
      show ?thesis
      proof (cases "feq target (sc_time (sa_accepted a))")
        case True
        have one: "length requested = 1" if "ts = Some requested" for requested
          using valid True that by (auto simp: validate_advance_request_def Let_def)
        have "samples_delivered B ok ts a first a"
          using one x by (cases ts) (simp_all add: samples_delivered_def first_def)
        then have "system_advance_spec B ok target ts a (Inr first) a"
          using False True t by (simp add: system_advance_spec_def)
        then show ?thesis using run True assms by (simp add: catch_coordinate_failure_def)
      next
        case ne: False
        then have lt: "sc_time (sa_accepted a) < target" using target(2) t by simp
        have rdy: "ready a" using wf by (simp add: ready_def)
        obtain r b where tried: "advance_try B target ts first a = Some (r, b)" and b: "contexts_ok b" "ok (sa_backend b)"
          and bad: "\<And>e. r = Inl e \<Longrightarrow> sa_accepted b = sa_accepted a"
          and good: "\<And>s. r = Inr s \<Longrightarrow> now (sa_backend b) = target \<and> system_advance_spec B ok target ts a (Inr s) b"
          using advance_try_outcome [OF rdy wf(3) [OF False] target(1) lt col x False] by metis
        show ?thesis
        proof (cases r)
          case (Inl e)
          let ?b = "b\<lparr>sa_requires_synchronization := True\<rparr>"
          have "system_advance_spec B ok target ts a (Inl (rethrow_coordinate_numerical_failure e)) ?b"
            using spec_translated [of "Inl e" ?b a] bad [OF Inl] by (simp add: catch_coordinate_failure_def)
          moreover have "system_advancer_wf ok now ?b" using b by (simp add: system_advancer_wf_def contexts_ok_def)
          ultimately show ?thesis
            using run ne tried Inl by (simp add: synchronize_on_failure_def catch_coordinate_failure_def)
        next
          case (Inr s)
          then have "system_advance_spec B ok target ts a (Inr s) b" "now (sa_backend b) = target" using good by simp_all
          moreover from this have "system_advancer_wf ok now b"
            using b by (simp add: system_advancer_wf_def system_advance_spec_def)
          ultimately show ?thesis
            using run ne tried Inr by (simp add: synchronize_on_failure_def catch_coordinate_failure_def)
        qed
      qed
    qed
  qed
qed

end

context continuous_state_backend
begin

text \<open>Synchronization; the lemma steps through the writes in their order.\<close>

lemma synchronize_outcome:
  assumes "contexts_ok a" and "ok (sa_backend a)" and "synchronize_after_accepted_context_change B a = (r, b)"
  shows "sa_accepted b = sa_accepted a \<and> system_advancer_wf ok now b \<and> (sa_requires_synchronization b \<longleftrightarrow> r \<noteq> Inr ()) \<and>
    (\<forall>reason. r \<noteq> Inl (CoordinateFailure reason)) \<and>
    (r = Inr () \<longrightarrow> mirrors (sa_system a) (sa_accepted b) (sa_candidate b))"
proof -
  let ?sys = "sa_system a" let ?now = "sc_time (sa_accepted a)"
  have wf: "system_ok ?sys" "context_wf ?sys (sa_accepted a)" "context_wf ?sys (sa_candidate a)"
    using assms(1) by (simp_all add: contexts_ok_def)
  obtain x where x: "accepted_state a = Inr x"
    using wf(2) by (auto simp: copy_continuous_state_def own_context_def context_wf_def Let_def)
  define a1 where "a1 = a\<lparr>sa_requires_synchronization := True, sa_candidate_state := x\<rparr>"
  have r1: "ready a1" and f1: "sa_system a1 = ?sys" "sa_accepted a1 = sa_accepted a" "sa_requires_synchronization a1"
    "sa_candidate a1 = sa_candidate a"
    using assms(1,2) by (simp_all add: a1_def ready_def contexts_ok_def)
  let ?set = "set_time_state_and_hints ?sys ?now x (sc_hints (sa_accepted a))"
  obtain s1 c1 where w1: "?set (sa_candidate a1) = (s1, c1)" by fastforce
  obtain q1 a2 where s1: "on_candidate B ?set a1 = (q1, a2)" by fastforce
  have "context_wf ?sys c1" using set_state_hints.outcome_wf [OF wf(1) TrueI wf(3)] w1 f1(4) by simp
  then have o1: "q1 = s1" "step_frame a1 a2" "ready a2"
    using on_candidate_outcome [OF r1 s1 _ w1] f1 by simp_all
  have f2: "sa_system a2 = ?sys" "sa_accepted a2 = sa_accepted a" "sa_requires_synchronization a2"
    using ready_frame [OF o1(2)] f1 by simp_all
  let ?copy = "copy_context_local_data ?sys (sa_accepted a)"
  obtain s2 c2 where w2: "?copy (sa_candidate a2) = (s2, c2)" by fastforce
  obtain q2 a3 where s2: "on_candidate B ?copy a2 = (q2, a3)" by fastforce
  have "context_wf ?sys (sa_candidate a2)" using o1(3) f2(1) by (simp add: ready_def contexts_ok_def)
  then have "context_wf ?sys c2" using copy_local.outcome_wf [OF wf(1) wf(2) _ w2] by simp
  then have o2: "q2 = s2" "step_frame a2 a3" "ready a3"
    using on_candidate_outcome [OF o1(3) s2 _ w2] f2 by simp_all
  have f3: "sa_system a3 = ?sys" "sa_accepted a3 = sa_accepted a" "sa_requires_synchronization a3"
    using ready_frame [OF o2(2)] f2 by simp_all
  obtain q3 k where w3: "bo_reinitialize B ?now x (sa_backend a3) = (q3, k)" by fastforce
  have "isfinite ?now" using wf(2) by (simp add: context_wf_def Let_def)
  then have o3: "ok k" "q3 = Inr () \<Longrightarrow> now k = ?now" using reinitialize_moves [OF _ _ w3] o2(3) by (simp_all add: ready_def)
  have m: "mirrors ?sys (sa_accepted a) (sa_candidate a3)" if "q1 = Inr ()"
  proof -
    have "s1 = Inr ()" using that o1(1) by simp
    then have set: "?set (sa_candidate a) = (Inr (), sa_candidate a2)"
      using w1 on_candidate_candidate [OF s1 w1] f1(4) by simp
    from synchronized_mirrors(2) [OF wf x set w2] show ?thesis using on_candidate_candidate [OF s2 w2] by simp
  qed
  have "synchronize_impl B a = (case q1 of Inl e \<Rightarrow> (Inl e, a2) | Inr _ \<Rightarrow> (case q2 of Inl e \<Rightarrow> (Inl e, a3)
      | Inr _ \<Rightarrow> (case q3 of Inl e \<Rightarrow> (Inl e, a3\<lparr>sa_backend := k\<rparr>)
          | Inr _ \<Rightarrow> (Inr (), a3\<lparr>sa_backend := k, sa_requires_synchronization := False\<rparr>))))"
    using x s1 f2 s2 f3 w3
    by (simp add: synchronize_impl_def effect_simps a1_def on_backend_def split: sum.split)
  then have "(\<exists>e. r = Inl (rethrow_coordinate_numerical_failure e)) \<and> (b = a2 \<or> b = a3 \<or> b = a3\<lparr>sa_backend := k\<rparr>) \<or>
      r = Inr () \<and> q1 = Inr () \<and> q3 = Inr () \<and> b = a3\<lparr>sa_backend := k, sa_requires_synchronization := False\<rparr>"
    using assms(3)
    by (auto simp: synchronize_after_accepted_context_change_def catch_coordinate_failure_def split: sum.splits)
  then show ?thesis
    using o1(3) o2(3) o3 f2 f3 m rethrow_translates
    by (auto simp: system_advancer_wf_def ready_def contexts_ok_def)
qed

end

subsection \<open>The coordinate runtimes fulfil it\<close>

text \<open>What the program's systems document, collected.\<close>

definition system_lawful :: "system_instance \<Rightarrow> bool" where
  "system_lawful sys \<longleftrightarrow> system_ok sys \<and> quaternions_ok sys \<and> tree_maps_ok (si_model sys) \<and> (\<forall>m. dynamics_sized (si_model sys) m)"

definition core_fits :: "system_instance \<Rightarrow> core_state \<Rightarrow> bool" where
  "core_fits sys k \<longleftrightarrow> k_nq k = int (si_nq sys) \<and> k_nz k = int (si_nz sys)"

definition coordinate_runtime_ok ::
  "('k, 'p, 'c) coordinate_method \<Rightarrow> ('k \<Rightarrow> bool) \<Rightarrow> ('p \<Rightarrow> bool) \<Rightarrow> system_instance \<Rightarrow> ('k, 'p, 'c) coordinate_runtime \<Rightarrow> bool" where
  "coordinate_runtime_ok M core_ok policy_ok sys b \<longleftrightarrow> system_lawful sys \<and>
     advancer_wf M core_ok policy_ok (cr_advancer b) \<and> core_fits sys (cm_state M (a_core (cr_advancer b)))"

definition runtime_time :: "('k, 'p, 'c) coordinate_runtime \<Rightarrow> double" where
  "runtime_time b = a_public_time (cr_advancer b)"

locale borrowing_method = numerical_method M core_ok policy_ok rounds
  for M :: "('k, 'p, 'c) coordinate_method" and core_ok policy_ok rounds +
  fixes set_problem :: "coordinate_problem \<Rightarrow> 'k \<Rightarrow> 'k"
  assumes set_problem_ok: "core_ok k \<Longrightarrow> problem_ok p \<Longrightarrow> cp_coordinate_size p = k_nq (cm_state M k) \<Longrightarrow>
      cp_internal_state_size p = k_nz (cm_state M k) \<Longrightarrow>
      core_ok (set_problem p k) \<and> cm_state M (set_problem p k) = (cm_state M k)\<lparr>k_problem := p\<rparr>"
begin

lemma borrowed_wf:
  assumes "coordinate_runtime_ok M core_ok policy_ok sys b"
  shows "well_formed (borrowed rot sys set_problem b)" and "a_public_time (borrowed rot sys set_problem b) = runtime_time b"
    and "bridge_ok (a_problem (borrowed rot sys set_problem b))"
    and "core_fits sys (cm_state M (a_core (borrowed rot sys set_problem b)))"
proof -
  let ?p = "system_problem rot sys (cr_bridge b)" let ?k = "a_core (cr_advancer b)"
  have wf: "system_lawful sys" "well_formed (cr_advancer b)" "core_fits sys (cm_state M ?k)"
    using assms by (simp_all add: coordinate_runtime_ok_def)
  have ok: "bridge_ok ?p" using wf(1) system_problem_ok by (simp add: system_lawful_def)
  have "core_ok (set_problem (scp_problem ?p) ?k) \<and>
      cm_state M (set_problem (scp_problem ?p) ?k) = (cm_state M ?k)\<lparr>k_problem := scp_problem ?p\<rparr>"
    by (rule set_problem_ok) (use wf ok in \<open>simp_all add: bridge_ok_def advancer_wf_def core_fits_def system_problem_def\<close>)
  then show "well_formed (borrowed rot sys set_problem b)" "a_public_time (borrowed rot sys set_problem b) = runtime_time b"
    "bridge_ok (a_problem (borrowed rot sys set_problem b))" "core_fits sys (cm_state M (a_core (borrowed rot sys set_problem b)))"
    using wf(2) ok by (simp_all add: borrowed_def Let_def advancer_wf_def runtime_time_def core_fits_def)
      (simp_all add: system_problem_def)
qed

end

sublocale borrowing_method \<subseteq> runtime: continuous_state_backend "coordinate_runtime_ops rot sys M set_problem"
  "coordinate_runtime_ok M core_ok policy_ok sys" runtime_time for rot sys
proof (unfold_locales, goal_cases)
  case (1 b stop)
  note wf = borrowed_wf [OF 1, of rot]
  obtain r a where a: "advancer_advance M stop (int (continuous_state_size sys)) (borrowed rot sys set_problem b) = Some (r, a)"
    "well_formed a" "same_problem (borrowed rot sys set_problem b) a"
    using advance_outcome [OF wf(1)] by blast
  then have "coordinate_runtime_ok M core_ok policy_ok sys (b\<lparr>cr_advancer := a\<rparr>)"
    using 1 wf(4) by (simp add: coordinate_runtime_ok_def same_problem_def core_fits_def)
  then show ?case using a(1) by (simp add: coordinate_runtime_ops_def)
next
  case (2 b stop st x b')
  note wf = borrowed_wf [OF 2(1), of rot]
  obtain r a where a: "advancer_advance M stop (int (continuous_state_size sys)) (borrowed rot sys set_problem b) = Some (r, a)"
    "advance_spec M stop (borrowed rot sys set_problem b) r a" "well_formed a"
    using advance_outcome [OF wf(1)] by blast
  then have b: "r = Inr (st, x)" "b' = b\<lparr>cr_advancer := a\<rparr>" using 2(2) by (simp_all add: coordinate_runtime_ops_def)
  have "\<not> feq stop (runtime_time b)" using 2(4) by (auto simp: feq_def dest: double_before)
  moreover have "isfinite (a_public_time a)" using a(3) by (simp add: advancer_wf_def)
  ultimately show ?case
    using a(2) wf(2) b by (simp add: advance_spec_def coordinate_runtime_ops_def runtime_time_def feq_finite)
next
  case (3 b)
  then show ?case by (simp add: coordinate_runtime_ops_def)
next
  case (4 b c)
  then show ?case by (simp add: coordinate_runtime_ops_def coordinate_runtime_ok_def runtime_time_def)
next
  case (5 b t x r b')
  note wf = borrowed_wf [OF 5(1), of rot]
  obtain q a where a: "advancer_reinitialize M t x (borrowed rot sys set_problem b) = (q, a)" by fastforce
  have b: "r = q" "b' = b\<lparr>cr_advancer := a\<rparr>" using 5(3) a by (simp_all add: coordinate_runtime_ops_def)
  have "\<And>y. scp_make_coordinate_state (a_problem (borrowed rot sys set_problem b)) t x = Inr y \<Longrightarrow> cs_time y = t"
    using wf(3) by (simp add: bridge_ok_def)
  note o = reinitialize_outcome [OF wf(1) a 5(2) this]
  have "coordinate_runtime_ok M core_ok policy_ok sys b'"
    using 5(1) o wf(4) b by (simp add: coordinate_runtime_ok_def same_problem_def core_fits_def)
  moreover have "r = Inr () \<longrightarrow> runtime_time b' = t" using o b by (simp add: runtime_time_def split: if_splits)
  ultimately show ?case by simp
qed

interpretation newmark_borrowing: borrowing_method "newmark_method lu" "\<lambda>c. lu_sized lu \<and> newmark_wf c" recovery_ok halvings_left
  set_newmark_problem for lu :: lu_solver
  by unfold_locales (simp add: newmark_method_def set_newmark_problem_def newmark_wf_def core_wf_def state_sized_def
      validate_configuration_def Let_def)

interpretation zhai_borrowing: borrowing_method zhai_method zhai_wf "\<lambda>h. True" "\<lambda>_ _. 0" set_zhai_problem
  by unfold_locales (simp add: zhai_method_def set_zhai_problem_def zhai_wf_def core_wf_def state_sized_def)

subsection \<open>Construction\<close>

lemma make_coordinate_runtime_Inr:
  assumes "make_coordinate_runtime rot sys construct_advancer candidate accepted x = Inr (c, b)"
  obtains p where "bridge_synchronize sys accepted p = (Inr (), cr_bridge b)" and "br_trial p = candidate"
    and "construct_advancer (system_problem rot sys (cr_bridge b)) (sc_time accepted) x = Inr (cr_advancer b)"
    and "c = br_trial (cr_bridge b)"
proof -
  obtain p where p: "make_bridge sys candidate = Inr p"
    and rest: "(case bridge_synchronize sys accepted p of (Inl e, _) \<Rightarrow> Inl e
     | (Inr _, bridge') \<Rightarrow> bindS (construct_advancer (system_problem rot sys bridge') (sc_time accepted) x) (\<lambda>a.
         Inr (br_trial bridge', \<lparr>cr_bridge = bridge', cr_advancer = a\<rparr>))) = Inr (c, b)"
    using assms by (auto simp: make_coordinate_runtime_def bindS_eq_Inr)
  have trial: "br_trial p = candidate" using p by (auto simp: make_bridge_def bindS_eq_Inr Let_def)
  obtain r p' where s: "bridge_synchronize sys accepted p = (r, p')" by fastforce
  obtain a where "r = Inr ()" "construct_advancer (system_problem rot sys p') (sc_time accepted) x = Inr a"
    "c = br_trial p'" "b = \<lparr>cr_bridge = p', cr_advancer = a\<rparr>"
    using rest by (cases r) (auto simp: s bindS_eq_Inr)
  then show thesis using that [OF _ trial] s by simp
qed

lemma make_system_advancer_Inr:
  assumes "make_system_advancer n method sys topology accepted make_backend = Inr a"
  obtains x fresh candidate c b where "0 < n" and "accepted_state a = Inr x"
    and "create_default_runtime_context sys (sc_time accepted) = Inr fresh"
    and "set_time_state_and_hints sys (sc_time accepted) x (sc_hints accepted) fresh = (Inr (), candidate)"
    and "make_backend candidate accepted x = Inr (c, b)"
    and "a = \<lparr>sa_maximum_internal_steps = n, sa_system = sys, sa_accepted = accepted,
          sa_candidate = c, sa_candidate_state = x, sa_backend = b, sa_requires_synchronization = False\<rparr>"
proof -
  have "make_system_advancer_impl n method sys topology accepted make_backend = Inr a"
    using assms by (simp add: make_system_advancer_def split: sum.splits)
  then obtain fresh x where n: "0 < n" and fresh: "create_default_runtime_context sys (sc_time accepted) = Inr fresh"
    and x: "copy_continuous_state sys accepted (continuous_state_size sys) = Inr x"
    and rest: "(case set_time_state_and_hints sys (sc_time accepted) x (sc_hints accepted) fresh of (Inl e, _) \<Rightarrow> Inl e
     | (Inr _, candidate) \<Rightarrow> bindS (make_backend candidate accepted x) (\<lambda>(candidate', b).
         Inr \<lparr>sa_maximum_internal_steps = n, sa_system = sys, sa_accepted = accepted,
              sa_candidate = candidate', sa_candidate_state = x, sa_backend = b, sa_requires_synchronization = False\<rparr>)) = Inr a"
    by (auto simp: make_system_advancer_impl_def bindS_eq_Inr)
  obtain r candidate where s: "set_time_state_and_hints sys (sc_time accepted) x (sc_hints accepted) fresh = (r, candidate)" by fastforce
  obtain c b where "r = Inr ()" "make_backend candidate accepted x = Inr (c, b)"
    "a = \<lparr>sa_maximum_internal_steps = n, sa_system = sys, sa_accepted = accepted,
          sa_candidate = c, sa_candidate_state = x, sa_backend = b, sa_requires_synchronization = False\<rparr>"
    using rest by (cases r) (auto simp: s bindS_eq_Inr)
  then show thesis using that n fresh x s by simp
qed

text \<open>What construction establishes, for any coordinate method whose own constructor establishes its invariant.\<close>

lemma constructed_advancer:
  assumes "system_lawful sys" and "context_wf sys accepted"
    and made: "make_system_advancer n method sys topology accepted (make_coordinate_runtime rot sys construct_advancer) = Inr a"
    and adv: "\<And>problem t x v. bridge_ok problem \<Longrightarrow> construct_advancer problem t x = Inr v \<Longrightarrow>
      advancer_wf M core_ok policy_ok v \<and> a_public_time v = t \<and> k_problem (cm_state M (a_core v)) = scp_problem problem"
  shows "system_advancer_wf (coordinate_runtime_ok M core_ok policy_ok sys) runtime_time a \<and> sa_system a = sys \<and>
    sa_accepted a = accepted \<and> \<not> sa_requires_synchronization a \<and> mirrors sys accepted (sa_candidate a)"
proof -
  have ok: "system_ok sys" using assms(1) by (simp add: system_lawful_def)
  obtain x fresh candidate c b where x: "accepted_state a = Inr x" and fresh: "create_default_runtime_context sys (sc_time accepted) = Inr fresh"
    and set: "set_time_state_and_hints sys (sc_time accepted) x (sc_hints accepted) fresh = (Inr (), candidate)"
    and b: "make_coordinate_runtime rot sys construct_advancer candidate accepted x = Inr (c, b)"
    and a: "a = \<lparr>sa_maximum_internal_steps = n, sa_system = sys, sa_accepted = accepted,
          sa_candidate = c, sa_candidate_state = x, sa_backend = b, sa_requires_synchronization = False\<rparr>"
    using make_system_advancer_Inr [OF made] .
  obtain p where sync: "bridge_synchronize sys accepted p = (Inr (), cr_bridge b)" and p: "br_trial p = candidate"
    and v: "construct_advancer (system_problem rot sys (cr_bridge b)) (sc_time accepted) x = Inr (cr_advancer b)"
    and c: "c = br_trial (cr_bridge b)"
    using make_coordinate_runtime_Inr [OF b] .
  have copy: "copy_context_local_data sys accepted candidate = (Inr (), c)"
    using sync p c by (auto simp: bridge_synchronize_def on_trial_run)
  have x: "copy_continuous_state sys accepted (continuous_state_size sys) = Inr x" using x by (simp add: a)
  note m = synchronized_mirrors(2,3) [OF ok assms(2) default_context_wf [OF ok fresh] x set copy]
  have "bridge_ok (system_problem rot sys (cr_bridge b))" using assms(1) system_problem_ok by (simp add: system_lawful_def)
  note adv [OF this v]
  then have "coordinate_runtime_ok M core_ok policy_ok sys b \<and> runtime_time b = sc_time accepted"
    using assms(1) by (simp add: coordinate_runtime_ok_def runtime_time_def core_fits_def) (simp add: system_problem_def)
  then show ?thesis using m ok assms(2) by (simp add: a system_advancer_wf_def contexts_ok_def)
qed

subsection \<open>Properties\<close>

definition newmark_runtime_ok ::
  "lu_solver \<Rightarrow> system_instance \<Rightarrow> (newmark_core, recovery_policy, newmark_configuration) coordinate_runtime \<Rightarrow> bool" where
  "newmark_runtime_ok lu = coordinate_runtime_ok (newmark_method lu) (\<lambda>c. lu_sized lu \<and> newmark_wf c) recovery_ok"

definition zhai_runtime_ok :: "system_instance \<Rightarrow> (zhai_core, double, unit) coordinate_runtime \<Rightarrow> bool" where
  "zhai_runtime_ok = coordinate_runtime_ok zhai_method zhai_wf (\<lambda>h. True)"

lemma make_newmark_advancer_problem:
  assumes "make_newmark_advancer problem topology t x c = Inr v" and "bridge_ok problem" and "lu_sized lu"
  shows "k_problem (nm_state (a_core v)) = scp_problem problem"
proof -
  obtain layout where mk: "make_advancer problem t x (new_recovery_policy (nfc_nominal_step_size c))
       (Some (\<lambda>y. expand_configuration layout c (cs_q y)))
       (\<lambda>p y. bindS (expand_configuration layout c (cs_q y)) (\<lambda>cfg. make_newmark_core p cfg y)) = Inr v"
    using assms(1) by (auto simp: make_newmark_advancer_def bindS_eq_Inr)
  obtain y cfg where "make_newmark_core (scp_problem problem) cfg y = Inr (a_core v)"
    using make_advancer_facts [OF mk] unfolding bindS_eq_Inr by metis
  from make_newmark_core_wf [OF this] assms(2) show ?thesis by (simp add: bridge_ok_def)
qed

lemma constructed_newmark:
  assumes "system_lawful sys" and "context_wf sys accepted" and "lu_sized lu"
    and made: "make_system_advancer n (Newmark c) sys topology accepted (make_newmark_runtime rot sys topology c) = Inr a"
  shows "system_advancer_wf (newmark_runtime_ok lu sys) runtime_time a \<and> sa_system a = sys \<and> sa_accepted a = accepted \<and>
    \<not> sa_requires_synchronization a \<and> mirrors sys accepted (sa_candidate a)"
  unfolding newmark_runtime_ok_def
proof (rule constructed_advancer [OF assms(1,2) made [unfolded make_newmark_runtime_def]])
  fix problem t x v
  assume p: "bridge_ok problem" and v: "make_newmark_advancer problem topology t x c = Inr v"
  show "advancer_wf (newmark_method lu) (\<lambda>c. lu_sized lu \<and> newmark_wf c) recovery_ok v \<and> a_public_time v = t \<and>
      k_problem (cm_state (newmark_method lu) (a_core v)) = scp_problem problem"
    using make_newmark_advancer_wf(1,2) [OF v p assms(3)] make_newmark_advancer_problem [OF v p assms(3)]
    by (simp add: newmark_advancer_wf_def newmark_method_def)
qed

text \<open>A constructed Newmark advancer is sound: it holds the invariant, stands at the accepted context's time, and its
  candidate context agrees with the accepted one in all an evaluation reads - time, coordinates, series states,
  nominal forces, held torques, projection hints and every joint's damping - so the first derivatives see the
  accepted inputs.\<close>

theorem newmark_system_constructed:
  assumes "system_lawful sys" and "context_wf sys accepted" and "lu_sized lu"
    and "make_system_advancer n (Newmark c) sys topology accepted (make_newmark_runtime rot sys topology c) = Inr a"
  shows "system_advancer_wf (newmark_runtime_ok lu sys) runtime_time a \<and> sa_accepted a = accepted \<and>
    \<not> sa_requires_synchronization a \<and> mirrors sys accepted (sa_candidate a)"
  using constructed_newmark [OF assms] by blast

text \<open>C26: A public advance by the Newmark method always returns, and is a transaction on the accepted context.  When it
  succeeds, the accepted time is the target, the accepted state is the endpoint of the last internal step,
  damping, nominal forces and held torques are as before, no synchronization is asked for; a dense request
  yields one sample for every requested time, the first the old accepted state, the last the new one, each
  other one read from a dense interval that contains its time.  When it throws, the accepted context is exactly
  what it was, the failure is backend-neutral, and either nothing changed or the advancer insists on synchronization.\<close>

theorem newmark_system_advance:
  assumes "system_advancer_wf (newmark_runtime_ok lu (sa_system a)) runtime_time a"
  shows "\<exists>r b r' b'.
    advance_to (newmark_runtime_ops lu rot (sa_system a)) target a = Some (r, b) \<and>
    system_advance_spec (newmark_runtime_ops lu rot (sa_system a)) (newmark_runtime_ok lu (sa_system a)) target None a r b \<and>
    system_advancer_wf (newmark_runtime_ok lu (sa_system a)) runtime_time b \<and>
    advance_to_with_dense_state_samples (newmark_runtime_ops lu rot (sa_system a)) target requested a = Some (r', b') \<and>
    system_advance_spec (newmark_runtime_ops lu rot (sa_system a)) (newmark_runtime_ok lu (sa_system a)) target (Some requested) a r' b' \<and>
    system_advancer_wf (newmark_runtime_ok lu (sa_system a)) runtime_time b'"
  using newmark_borrowing.runtime.advance_impl_outcome [OF assms [unfolded newmark_runtime_ok_def], of rot target None]
    newmark_borrowing.runtime.advance_impl_outcome [OF assms [unfolded newmark_runtime_ok_def], of rot target "Some requested"]
  unfolding advance_to_def advance_to_with_dense_state_samples_def newmark_runtime_ops_def newmark_runtime_ok_def by blast

text \<open>The same public contract holds for the Zhai method.\<close>

theorem zhai_system_advance:
  assumes "system_advancer_wf (zhai_runtime_ok (sa_system a)) runtime_time a"
  shows "\<exists>r b r' b'.
    advance_to (zhai_runtime_ops rot (sa_system a)) target a = Some (r, b) \<and>
    system_advance_spec (zhai_runtime_ops rot (sa_system a)) (zhai_runtime_ok (sa_system a)) target None a r b \<and>
    system_advancer_wf (zhai_runtime_ok (sa_system a)) runtime_time b \<and>
    advance_to_with_dense_state_samples (zhai_runtime_ops rot (sa_system a)) target requested a = Some (r', b') \<and>
    system_advance_spec (zhai_runtime_ops rot (sa_system a)) (zhai_runtime_ok (sa_system a)) target (Some requested) a r' b' \<and>
    system_advancer_wf (zhai_runtime_ok (sa_system a)) runtime_time b'"
  using zhai_borrowing.runtime.advance_impl_outcome [OF assms [unfolded zhai_runtime_ok_def], of rot target None]
    zhai_borrowing.runtime.advance_impl_outcome [OF assms [unfolded zhai_runtime_ok_def], of rot target "Some requested"]
  unfolding advance_to_def advance_to_with_dense_state_samples_def zhai_runtime_ops_def zhai_runtime_ok_def by blast

text \<open>C27: After an external change of the accepted context, synchronization restores the invariant whatever the
  candidate, the backend's clock and its history were: the accepted context is not touched; on success the advancer
  may advance again, the backend stands at the accepted time and the candidate agrees with the accepted context in
  all an evaluation reads; on failure the advancer keeps asking for synchronization.\<close>

theorem newmark_system_synchronize:
  assumes "contexts_ok a" and "newmark_runtime_ok lu (sa_system a) (sa_backend a)"
    and "synchronize_after_accepted_context_change (newmark_runtime_ops lu rot (sa_system a)) a = (r, b)"
  shows "sa_accepted b = sa_accepted a \<and> system_advancer_wf (newmark_runtime_ok lu (sa_system a)) runtime_time b \<and>
    (sa_requires_synchronization b \<longleftrightarrow> r \<noteq> Inr ()) \<and>
    (if r = Inr () then mirrors (sa_system a) (sa_accepted a) (sa_candidate b) else \<forall>reason. r \<noteq> Inl (CoordinateFailure reason))"
  using newmark_borrowing.runtime.synchronize_outcome [OF assms(1) assms(2) [unfolded newmark_runtime_ok_def]
      assms(3) [unfolded newmark_runtime_ops_def]]
  by (auto simp: newmark_runtime_ok_def)

subsection \<open>One sliding body\<close>

definition sliding_layout :: state_layout where
  "sliding_layout = \<lparr>sl_description = \<lparr>ld_generalized_position_count = 1,
     ld_generalized_velocity_count = 1, ld_rigid_body_count = 1, ld_fixed_frame_count = 0,
     ld_joint_velocity_counts = [], ld_joint_actuator_count = 0, ld_revolute_spring_count = 0,
     ld_linear_bushing_count = 0\<rparr>, sl_joint_damping_starts = [], sl_total_joint_damping_count = 0\<rparr>"

definition sliding_model :: multibody_model where
  "sliding_model = \<lparr>mm_identity = 4, mm_finalized = True, mm_finalization_failed = False,
     mm_layout = sliding_layout, mm_body_names = [''world'', ''body''], mm_frame_bodies = [0, 1],
     mm_default_state = make_mstate sliding_layout, mm_quaternion_starts = [], mm_joint_slots = [],
     mm_forward_dynamics = (\<lambda>s ws. Inr [Fin (- 10)]), mm_qdot = (\<lambda>s. take 1 (ms_velocities s @ [0])),
     mm_map_velocity_to_qdot = (\<lambda>s v. if length v = 1 then Inr v else Inl RuntimeError),
     mm_map_qdot_to_velocity = (\<lambda>s qdot. qdot),
     mm_map_acceleration_to_qddot = (\<lambda>s a. if length a = 1 then Inr a else Inl RuntimeError),
     mm_body_pose = (\<lambda>s body. (identity3, zero3)), mm_frame_pose = (\<lambda>s frame. (identity3, zero3)),
     mm_frame_offset = (\<lambda>s frame. zero3), mm_relative_velocity = (\<lambda>s f b e. (zero3, zero3))\<rparr>"

definition sliding_system :: system_instance where
  "sliding_system = \<lparr>si_identity = 5, si_description =
     \<lparr>sd_model = sliding_model, sd_force_plan = None, sd_contact_plan = None, sd_torque_plan = None,
      sd_nq = 1, sd_nv = 1, sd_nz = 0, sd_nominal = 0, sd_vehicle_wrenches = 0, sd_contact_wrenches = 0,
      sd_torque_wrenches = 0, sd_held = 0\<rparr>\<rparr>"

definition sliding_context :: system_context where
  "sliding_context = \<lparr>sc_issuer = 5, sc_time = 0, sc_multibody = \<lparr>mc_issuer = 4, mc_state = make_mstate sliding_layout\<rparr>,
     sc_series = [], sc_nominal = [], sc_held = [], sc_hints = []\<rparr>"

lemma sliding_state_wf: "mstate_wf (make_mstate sliding_layout)"
  by (rule make_mstate_wf) (simp add: layout_wf_def make_layout_def sliding_layout_def layout_require_nonnegative_def
      reject_if_def all_checks.simps)

lemma sliding_facts: "system_lawful sliding_system" "context_wf sliding_system sliding_context"
proof -
  have "system_ok sliding_system"
    using sliding_state_wf
    by (simp add: system_ok_def sliding_system_def Let_def mm_nq_def mm_nv_def slots_ok_def sliding_model_def)
      (simp add: sliding_layout_def)
  moreover have "quaternions_ok sliding_system"
    by (simp add: quaternions_ok_def sliding_system_def sliding_model_def disjoint_blocks_def)
  moreover have "tree_maps_ok (si_model sliding_system)" "dynamics_sized (si_model sliding_system) m" for m
    by (simp_all add: tree_maps_ok_def dynamics_sized_def sliding_system_def sliding_model_def mm_nq_def mm_nv_def sliding_layout_def)
  ultimately show "system_lawful sliding_system" by (simp add: system_lawful_def)
  show "context_wf sliding_system sliding_context"
    using sliding_state_wf
    by (simp add: context_wf_def sliding_system_def sliding_context_def Let_def same_model_def sliding_model_def expected_hint_count_def)
qed

lemma sliding_simps:
  "si_nq sliding_system = 1" "si_nv sliding_system = 1" "si_nz sliding_system = 0" "continuous_state_size sliding_system = 2"
  "mm_nq sliding_model = 1" "mm_nv sliding_model = 1" "si_model sliding_system = sliding_model" "si_identity sliding_system = 5"
  "mm_quaternion_starts sliding_model = []" "mm_finalized sliding_model" "\<not> mm_finalization_failed sliding_model"
  "mm_identity sliding_model = 4" "mm_joint_slots sliding_model = []" "mm_layout sliding_model = sliding_layout"
  "mm_default_state sliding_model = make_mstate sliding_layout"
  "sd_contact_plan (si_description sliding_system) = None" "sd_force_plan (si_description sliding_system) = None"
  "sd_torque_plan (si_description sliding_system) = None" "expected_hint_count sliding_system = 0"
  "sd_nominal (si_description sliding_system) = 0" "sd_held (si_description sliding_system) = 0"
  by (simp_all add: sliding_system_def sliding_model_def sliding_layout_def continuous_state_size_def mm_nq_def mm_nv_def
      expected_hint_count_def)

text \<open>Its contexts, with the two version numbers; the writes step from one to another.\<close>

definition sliding_multibody :: "u64 \<Rightarrow> u64 \<Rightarrow> real \<Rightarrow> real \<Rightarrow> multibody_context" where
  "sliding_multibody i j q v = \<lparr>mc_issuer = 4, mc_state = (make_mstate sliding_layout)\<lparr>ms_positions := [Fin q], ms_velocities := [Fin v],
     ms_positions_version := StateVersion i, ms_velocities_version := StateVersion j\<rparr>\<rparr>"

definition sliding_at :: "u64 \<Rightarrow> u64 \<Rightarrow> real \<Rightarrow> real \<Rightarrow> real \<Rightarrow> system_context" where
  "sliding_at i j t q v = sliding_context\<lparr>sc_time := Fin t, sc_multibody := sliding_multibody i j q v\<rparr>"

lemma sliding_default: "\<lparr>mc_issuer = 4, mc_state = make_mstate sliding_layout\<rparr> = sliding_multibody 0 0 0 0"
  "sliding_context = sliding_at 0 0 0 0 0"
  by (simp_all add: sliding_multibody_def sliding_at_def sliding_context_def make_mstate_def sliding_layout_def initial_version_def
      Let_def)

lemma sliding_multibody_simps:
  "mc_issuer (sliding_multibody i j q v) = 4" "ms_layout (mc_state (sliding_multibody i j q v)) = sliding_layout"
  "ms_positions (mc_state (sliding_multibody i j q v)) = [Fin q]" "ms_velocities (mc_state (sliding_multibody i j q v)) = [Fin v]"
  "sc_multibody (sliding_at i j t q v) = sliding_multibody i j q v" "sc_issuer (sliding_at i j t q v) = 5"
  "sc_time (sliding_at i j t q v) = Fin t" "sc_series (sliding_at i j t q v) = []" "sc_hints (sliding_at i j t q v) = []"
  "sc_nominal (sliding_at i j t q v) = []" "sc_held (sliding_at i j t q v) = []"
  by (simp_all add: sliding_multibody_def sliding_at_def sliding_context_def)

lemma sliding_writes:
  assumes "i \<noteq> - 1" "j \<noteq> - 1"
  shows "model_set_generalized_state sliding_model [Fin q'] [Fin v'] (sliding_multibody i j q v) = (Inr (), sliding_multibody (i + 1) (j + 1) q' v')"
    and "model_set_generalized_positions sliding_model [Fin q'] (sliding_multibody i j q v) = (Inr (), sliding_multibody (i + 1) j q' v)"
proof -
  have wf: "mstate_wf (mc_state (sliding_multibody i j q v))"
    using sliding_state_wf by (simp add: sliding_multibody_def mstate_wf_def Let_def) (simp add: sliding_layout_def)
  have n: "next_version (StateVersion i) = Inr (StateVersion (i + 1))" "next_version (StateVersion j) = Inr (StateVersion (j + 1))"
    using assms by (simp_all add: next_version_def)
  show "model_set_generalized_state sliding_model [Fin q'] [Fin v'] (sliding_multibody i j q v) = (Inr (), sliding_multibody (i + 1) (j + 1) q' v')"
    unfolding model_set_generalized_state_Inr [OF wf]
    using n by (simp add: sliding_simps require_quaternions_Inr sliding_multibody_simps) (simp add: sliding_multibody_def)
  show "model_set_generalized_positions sliding_model [Fin q'] (sliding_multibody i j q v) = (Inr (), sliding_multibody (i + 1) j q' v)"
    unfolding model_set_generalized_positions_Inr
    using n by (simp add: sliding_simps require_quaternions_Inr sliding_multibody_simps) (simp add: sliding_multibody_def)
qed

lemma sliding_maps:
  "map_velocities_to_position_derivatives sliding_model (sliding_multibody i j q v) [Fin u] 1 = Inr [Fin u]"
  "map_position_derivatives_to_velocities sliding_model (sliding_multibody i j q v) [Fin u] 1 = Inr [Fin u]"
  "map_accelerations_to_second_derivatives sliding_model (sliding_multibody i j q v) [Fin u] 1 = Inr [Fin u]"
  by (simp_all add: map_velocities_to_position_derivatives_def map_position_derivatives_to_velocities_def
      map_accelerations_to_second_derivatives_def throw_if_not_finalized_def require_own_context_def validate_state_instance_def
      all_checks.simps sliding_simps sliding_multibody_simps)
    (simp_all add: sliding_model_def)

lemma sliding_context_write:
  assumes "i \<noteq> - 1" "j \<noteq> - 1"
  shows "set_time_and_continuous_state sliding_system (Fin t') [Fin q', Fin v'] (sliding_at i j t q v) =
    (Inr (), sliding_at (i + 1) (j + 1) t' q' v')"
  using sliding_writes(1) [OF assms, of q' v' q v]
  by (simp add: set_time_and_continuous_state_def effect_simps own_context_def sliding_simps sliding_multibody_simps on_multibody_def
      segment_def Let_def sliding_at_def sliding_context_def)

lemma sliding_derivatives:
  "calc_state_time_derivatives no_rotations sliding_system (sliding_at i j t q v) 2 = Inr [Fin v, Fin (- 10)]"
  by (simp add: calc_state_time_derivatives_def component_view_def own_context_def multibody_component_def calc_all_forces_def
      model_state_time_derivatives_def evaluate_forward_dynamics_def throw_if_not_finalized_def require_own_context_def all_checks.simps
      sliding_simps sliding_multibody_simps Let_def)
    (simp add: sliding_model_def sliding_multibody_simps)

definition sliding_bridge :: "u64 \<Rightarrow> u64 \<Rightarrow> system_context \<Rightarrow> real \<Rightarrow> real \<Rightarrow> bridge_state" where
  "sliding_bridge i j c q v = \<lparr>br_trial = c, br_geometry = sliding_multibody i j q v\<rparr>"

lemma sliding_bridge_simps:
  "br_trial (sliding_bridge i j c q v) = c" "br_geometry (sliding_bridge i j c q v) = sliding_multibody i j q v"
  "sliding_bridge i j c q v\<lparr>br_geometry := sliding_multibody i' j' q' v'\<rparr> = sliding_bridge i' j' c q' v'"
  "sliding_bridge i j c q v\<lparr>br_trial := c'\<rparr> = sliding_bridge i j c' q v"
  by (simp_all add: sliding_bridge_def)

lemma sliding_geometry_calls:
  assumes "i \<noteq> - 1" "j \<noteq> - 1"
  shows "recover_velocity sliding_system [Fin q'] [Fin s] (sliding_bridge i j c q v) = (Inr [Fin s], sliding_bridge (i + 1) j c q' v)"
    and "map_velocity sliding_system [Fin u] (sliding_bridge i j c q v) = (Inr [Fin u], sliding_bridge i j c q v)"
    and "bridge_make_coordinate_state sliding_system (Fin t) [Fin q', Fin s] (sliding_bridge i j c q v) =
      (Inr \<lparr>cs_time = Fin t, cs_q = [Fin q'], cs_s = [Fin s], cs_z = []\<rparr>, sliding_bridge (i + 1) (j + 1) c q' s)"
    and "bridge_validate_initial sliding_system (Fin t) [Fin q'] [Fin s] [] (sliding_bridge i j c q v) =
      (Inr (), sliding_bridge (i + 1) j c q' v)"
proof -
  note w = sliding_writes [OF assms]
  show r: "recover_velocity sliding_system [Fin q'] [Fin s] (sliding_bridge i j c q v) = (Inr [Fin s], sliding_bridge (i + 1) j c q' v)"
    by (simp add: recover_velocity_def effect_simps on_geometry_def sliding_bridge_simps w sliding_simps sliding_maps require_finite_mapping_def)
  show m: "map_velocity sliding_system [Fin u] (sliding_bridge i j c q v) = (Inr [Fin u], sliding_bridge i j c q v)" for u i j c q v
    by (simp add: map_velocity_def effect_simps sliding_bridge_simps sliding_simps sliding_maps require_finite_mapping_def)
  show "bridge_make_coordinate_state sliding_system (Fin t) [Fin q', Fin s] (sliding_bridge i j c q v) =
      (Inr \<lparr>cs_time = Fin t, cs_q = [Fin q'], cs_s = [Fin s], cs_z = []\<rparr>, sliding_bridge (i + 1) (j + 1) c q' s)"
    by (simp add: bridge_make_coordinate_state_def effect_simps on_geometry_def sliding_bridge_simps w sliding_simps m segment_def Let_def)
  show "bridge_validate_initial sliding_system (Fin t) [Fin q'] [Fin s] [] (sliding_bridge i j c q v) =
      (Inr (), sliding_bridge (i + 1) j c q' v)"
    by (simp add: bridge_validate_initial_def validate_coordinates_def effect_simps sliding_simps r m)
qed

lemma sliding_evaluate:
  assumes "i \<noteq> - 1" "j \<noteq> - 1" "k \<noteq> - 1" "l \<noteq> - 1"
  shows "fst (bridge_evaluate no_rotations sliding_system (Fin t') [Fin q'] [Fin s] [] (Suc 0) 0 (sliding_bridge i j (sliding_at k l t q v) x y)) =
    Inr ([Fin (- 10)], [])"
  by (simp add: bridge_evaluate_def validate_coordinates_def effect_simps sliding_simps sliding_geometry_calls(1) [OF assms(1,2)]
      on_trial_def sliding_bridge_simps rhs_calc_time_derivatives_def sliding_context_write [OF assms(3,4)] sliding_derivatives
      require_finite_mapping_def component_view_def own_context_def multibody_component_def sliding_multibody_simps sliding_maps segment_def)

text \<open>The whole construction.\<close>

lemma sliding_layout_value: "make_coordinate_layout example_rail_topology 0 =
    Inr \<lparr>cl_nq = 1, cl_nz = 0, cl_blocks = [\<lparr>cb_start = 0, cb_size = 1, cb_family = FamilyTranslation\<rparr>]\<rparr>"
  by (simp add: make_coordinate_layout_def example_rail_topology_def add_free_body_def add_joint_def add_block_def int_max_def
      put_segment_def segment_def)

lemma sliding_problem:
  assumes "p = system_problem no_rotations sliding_system (sliding_bridge 0 0 (sliding_at 1 1 0 0 0) 0 0)"
  shows "cp_coordinate_size (scp_problem p) = 1" "cp_internal_state_size (scp_problem p) = 0" "scp_physical_size p = 2"
    and "scp_make_coordinate_state p (Fin 0) [Fin 0, Fin 0] = Inr \<lparr>cs_time = Fin 0, cs_q = [Fin 0], cs_s = [Fin 0], cs_z = []\<rparr>"
    and "cp_validate_initial (scp_problem p) (Fin 0) [Fin 0] [Fin 0] [] = Inr ()"
    and "cp_evaluate (scp_problem p) (Fin 0) [Fin 0] [Fin 0] [] = Inr ([Fin (- 10)], [])"
  by (simp_all add: assms system_problem_def sliding_simps sliding_geometry_calls sliding_evaluate)

lemma sliding_advancer:
  "\<exists>a. make_newmark_advancer (system_problem no_rotations sliding_system (sliding_bridge 0 0 (sliding_at 1 1 0 0 0) 0 0))
     example_rail_topology (Fin 0) [Fin 0, Fin 0] example_family_configuration = Inr a"
proof -
  have f: "block_factor q \<lparr>cb_start = i, cb_size = k, cb_family = FamilyTranslation\<rparr> = Inr 1" for q i k
    by (simp add: block_factor_def)
  show ?thesis
    by (simp add: make_newmark_advancer_def sliding_problem [OF refl] sliding_layout_value make_advancer_def
        expand_configuration_def example_family_configuration_def Let_def validate_newmark_configuration_def validate_family_def
        require_positive_def expand_block_def f family_scales_def put_scale_def put_segment_def make_newmark_core_def
        validate_configuration_def validate_scale_def int_max_def make_core_state_def core_reinitialize_def validate_initial_def
        state_sized_def state_finite_def effect_simps on_exception_def core_evaluate_def store_candidate_derivatives_def)
qed

lemma sliding_validated:
  "validate_integration_configuration (Newmark example_family_configuration) sliding_system example_rail_topology
     (sliding_at 0 0 0 0 0) = Inr ()"
proof -
  have f: "block_factor q \<lparr>cb_start = i, cb_size = k, cb_family = FamilyTranslation\<rparr> = Inr 1" for q i k
    by (simp add: block_factor_def)
  have set: "model_set_generalized_positions sliding_model [Fin 0] (sliding_multibody 0 0 0 0) = (Inr (), sliding_multibody 1 0 0 0)"
    using sliding_writes(2) [of 0 0 0 0 0] by simp
  have default: "create_default_context sliding_model = Inr (sliding_multibody 0 0 0 0)"
    by (simp add: create_default_context_def throw_if_not_finalized_def all_checks.simps sliding_simps sliding_default)
  show ?thesis
    by (simp add: validate_integration_configuration_def component_view_def own_context_def multibody_component_def sliding_multibody_simps
        sliding_simps positions_range_def velocities_range_def series_range_def copy_continuous_state_def default set segment_def
        validate_mechanical_def sliding_maps sliding_layout_value expand_configuration_def example_family_configuration_def
        Let_def validate_newmark_configuration_def validate_family_def
        require_positive_def expand_block_def f family_scales_def put_scale_def put_segment_def)
qed

lemma sliding_constructed:
  "\<exists>a. make_system_advancer 100 (Newmark example_family_configuration) sliding_system example_rail_topology (sliding_at 0 0 0 0 0)
     (make_newmark_runtime no_rotations sliding_system example_rail_topology example_family_configuration) = Inr a"
proof -
  have default: "create_default_context sliding_model = Inr (sliding_multibody 0 0 0 0)"
    by (simp add: create_default_context_def throw_if_not_finalized_def all_checks.simps sliding_simps sliding_default)
  have fresh: "create_default_runtime_context sliding_system (Fin 0) = Inr (sliding_at 0 0 0 0 0)"
    by (simp add: create_default_runtime_context_def default sliding_simps Let_def) (simp add: sliding_at_def sliding_context_def)
  have copy: "copy_continuous_state sliding_system (sliding_at 0 0 0 0 0) 2 = Inr [Fin 0, Fin 0]"
    by (simp add: copy_continuous_state_def own_context_def sliding_simps sliding_multibody_simps)
  have set: "set_time_state_and_hints sliding_system (Fin 0) [Fin 0, Fin 0] [] (sliding_at 0 0 0 0 0) = (Inr (), sliding_at 1 1 0 0 0)"
    using sliding_context_write [of 0 0 0 0 0 0 0 0]
    by (simp add: set_time_state_and_hints_def effect_simps own_context_def sliding_simps sliding_multibody_simps
        sliding_at_def sliding_context_def)
  have bridge: "make_bridge sliding_system (sliding_at 1 1 0 0 0) = Inr (sliding_bridge 0 0 (sliding_at 1 1 0 0 0) 0 0)"
    by (simp add: make_bridge_def component_view_def own_context_def multibody_component_def sliding_simps sliding_multibody_simps
        positions_range_def velocities_range_def series_range_def default sliding_bridge_def Let_def)
  have sync: "bridge_synchronize sliding_system (sliding_at 0 0 0 0 0) (sliding_bridge 0 0 (sliding_at 1 1 0 0 0) 0 0) =
      (Inr (), sliding_bridge 0 0 (sliding_at 1 1 0 0 0) 0 0)"
    by (simp add: bridge_synchronize_def on_trial_def sliding_bridge_simps copy_context_local_data_def effect_simps sliding_simps
        sliding_multibody_simps on_multibody_def copy_joint_damping_def throw_if_not_finalized_def require_own_context_def
        validate_state_instance_def all_checks.simps sliding_at_def sliding_context_def)
  obtain v where v: "make_newmark_advancer (system_problem no_rotations sliding_system (sliding_bridge 0 0 (sliding_at 1 1 0 0 0) 0 0))
     example_rail_topology (Fin 0) [Fin 0, Fin 0] example_family_configuration = Inr v"
    using sliding_advancer by blast
  show ?thesis
    by (simp add: make_system_advancer_def make_system_advancer_impl_def sliding_validated sliding_multibody_simps fresh sliding_simps copy set
        make_newmark_runtime_def make_coordinate_runtime_def bridge sync v)
qed

lemma sliding_context_ok: "context_wf sliding_system (sliding_at 0 0 0 0 0)"
  using sliding_facts(2) by (simp add: sliding_default(2))

lemma sliding_advancer_system:
  assumes "make_system_advancer n method sys topology accepted make_backend = Inr a"
  shows "sa_system a = sys"
  using make_system_advancer_Inr [OF assms] by force

theorem newmark_system_constructed_witness:
  "\<exists>a. make_system_advancer 100 (Newmark example_family_configuration) sliding_system example_rail_topology (sliding_at 0 0 0 0 0)
      (make_newmark_runtime no_rotations sliding_system example_rail_topology example_family_configuration) = Inr a \<and>
    mirrors sliding_system (sliding_at 0 0 0 0 0) (sa_candidate a)"
  using sliding_constructed newmark_system_constructed [OF sliding_facts(1) sliding_context_ok lazy_lu_sized] by blast

lemma sliding_system_advancer:
  obtains a where "system_advancer_wf (newmark_runtime_ok lazy_lu sliding_system) runtime_time a" and "sa_system a = sliding_system"
    and "sa_accepted a = sliding_at 0 0 0 0 0"
proof -
  obtain a where a: "make_system_advancer 100 (Newmark example_family_configuration) sliding_system example_rail_topology
     (sliding_at 0 0 0 0 0) (make_newmark_runtime no_rotations sliding_system example_rail_topology example_family_configuration) = Inr a"
    using sliding_constructed by blast
  note c = constructed_newmark [OF sliding_facts(1) sliding_context_ok lazy_lu_sized a]
  show thesis using that c by blast
qed

theorem newmark_system_advance_witness:
  "\<exists>a r b. sa_accepted a = sliding_at 0 0 0 0 0 \<and>
    advance_to (newmark_runtime_ops lazy_lu no_rotations sliding_system) 1 a = Some (r, b) \<and>
    system_advance_spec (newmark_runtime_ops lazy_lu no_rotations sliding_system) (newmark_runtime_ok lazy_lu sliding_system) 1 None a r b"
proof -
  obtain a where a: "system_advancer_wf (newmark_runtime_ok lazy_lu sliding_system) runtime_time a" "sa_system a = sliding_system"
    "sa_accepted a = sliding_at 0 0 0 0 0"
    by (rule sliding_system_advancer)
  then show ?thesis using newmark_system_advance [of lazy_lu a no_rotations 1 "[]"] by auto
qed

theorem newmark_system_synchronize_witness:
  "\<exists>a r b. sa_accepted a = sliding_at 0 0 0 0 0 \<and>
    synchronize_after_accepted_context_change (newmark_runtime_ops lazy_lu no_rotations sliding_system) a = (r, b) \<and>
    sa_accepted b = sliding_at 0 0 0 0 0"
proof -
  obtain a where a: "system_advancer_wf (newmark_runtime_ok lazy_lu sliding_system) runtime_time a" "sa_system a = sliding_system"
    "sa_accepted a = sliding_at 0 0 0 0 0"
    by (rule sliding_system_advancer)
  obtain r b where rb: "synchronize_after_accepted_context_change (newmark_runtime_ops lazy_lu no_rotations (sa_system a)) a = (r, b)"
    by fastforce
  have "contexts_ok a" "newmark_runtime_ok lazy_lu (sa_system a) (sa_backend a)" using a by (simp_all add: system_advancer_wf_def)
  from newmark_system_synchronize [OF this rb] a rb show ?thesis by auto
qed

text \<open>The Zhai advancer on the same body.\<close>

lemma sliding_zhai_advancer:
  "\<exists>a. make_zhai_advancer (system_problem no_rotations sliding_system (sliding_bridge 0 0 (sliding_at 1 1 0 0 0) 0 0))
     (Fin 0) [Fin 0, Fin 0] (Fin (1 / 100)) = Inr a"
  by (simp add: make_zhai_advancer_def sliding_problem [OF refl] make_advancer_def make_zhai_core_def Let_def int_max_def
      make_core_state_def core_reinitialize_def validate_initial_def state_sized_def state_finite_def effect_simps on_exception_def
      core_evaluate_def store_candidate_derivatives_def)

theorem zhai_system_advance_witness:
  "\<exists>a r b. sa_accepted a = sliding_at 0 0 0 0 0 \<and>
    advance_to (zhai_runtime_ops no_rotations sliding_system) 1 a = Some (r, b) \<and>
    system_advance_spec (zhai_runtime_ops no_rotations sliding_system) (zhai_runtime_ok sliding_system) 1 None a r b"
proof -
  let ?p = "system_problem no_rotations sliding_system (sliding_bridge 0 0 (sliding_at 1 1 0 0 0) 0 0)"
  obtain v where v: "make_zhai_advancer ?p (Fin 0) [Fin 0, Fin 0] (Fin (1 / 100)) = Inr v" using sliding_zhai_advancer by blast
  have lawful: "system_ok sliding_system" and p: "bridge_ok ?p" using sliding_facts(1) system_problem_ok by (simp_all add: system_lawful_def)
  note w = make_zhai_advancer_wf [OF v p]
  obtain y where "make_zhai_core (scp_problem ?p) (Fin (1 / 100)) y = Inr (a_core v)"
    using make_advancer_facts v unfolding make_zhai_advancer_def by metis
  then have k: "k_problem (zc_state (a_core v)) = scp_problem ?p" using make_zhai_core_wf p by (simp add: bridge_ok_def)
  define a where "a = \<lparr>sa_maximum_internal_steps = 100, sa_system = sliding_system, sa_accepted = sliding_at 0 0 0 0 0,
    sa_candidate = sliding_at 0 0 0 0 0, sa_candidate_state = [Fin 0, Fin 0],
    sa_backend = \<lparr>cr_bridge = sliding_bridge 0 0 (sliding_at 1 1 0 0 0) 0 0, cr_advancer = v\<rparr>, sa_requires_synchronization = False\<rparr>"
  have "system_advancer_wf (zhai_runtime_ok (sa_system a)) runtime_time a"
    using sliding_facts(1) sliding_context_ok w k lawful sliding_problem(1,2) [OF refl]
    by (simp add: a_def system_advancer_wf_def contexts_ok_def zhai_runtime_ok_def coordinate_runtime_ok_def runtime_time_def
        zhai_advancer_wf_def core_fits_def sliding_simps sliding_multibody_simps) (simp add: zhai_method_def)
  moreover have "sa_system a = sliding_system" "sa_accepted a = sliding_at 0 0 0 0 0" by (simp_all add: a_def)
  ultimately show ?thesis using zhai_system_advance [of a no_rotations 1 "[]"] by auto
qed

end
