(* ===== verification/Sampled_Control.thy ===== *)
theory Sampled_Control
  imports Binary64
begin

section \<open>Sampled control channels\<close>

text \<open>
  \<open>libs/control\<close>: the sampled, output-filtered PI channel
  (\<open>sampled_filtered_pi.cc\<close>) and the longitudinal cruise controller around one
  such channel (\<open>sampled_longitudinal_cruise_controller.cc\<close>).  Both objects hold
  immutable parameters; the memory is the caller's, so a step is a function from
  the previous memory to an outcome.  The lemmas show that an accepted channel
  accepts every finite sample and that its memory stays within its limits.
\<close>

subsection \<open>The PI channel\<close>

record pi_config =
  proportional_gain :: double
  integral_time_seconds :: double
  output_filter_time_constant_seconds :: double
  integral_absolute_limit :: double
  raw_output_absolute_limit :: double

record pi_state =
  pi_integral :: double
  pi_filtered_output :: double

record pi_result =
  pi_output :: double
  pi_next_state :: pi_state

definition initial_pi_state :: pi_state where
  "initial_pi_state = \<lparr>pi_integral = 0, pi_filtered_output = 0\<rparr>"

definition validate_pi_config :: "pi_config \<Rightarrow> unit outcome" where
  "validate_pi_config c = all_checks
     [reject_if (\<not> isfinite (proportional_gain c) \<or> \<not> 0 < proportional_gain c) InvalidArgument,
      reject_if (\<not> isfinite (integral_time_seconds c) \<or> \<not> 0 < integral_time_seconds c) InvalidArgument,
      reject_if (\<not> isfinite (output_filter_time_constant_seconds c)
                 \<or> output_filter_time_constant_seconds c < 0) InvalidArgument,
      reject_if (\<not> isfinite (integral_absolute_limit c) \<or> integral_absolute_limit c < 0) InvalidArgument,
      reject_if (\<not> isfinite (raw_output_absolute_limit c) \<or> raw_output_absolute_limit c < 0) InvalidArgument]"

text \<open>The constructor stores the parameters it has validated.\<close>

definition make_pi :: "pi_config \<Rightarrow> pi_config outcome" where
  "make_pi c = bindS (validate_pi_config c) (\<lambda>_. Inr c)"

definition clamp_symmetric :: "double \<Rightarrow> double \<Rightarrow> double" where
  "clamp_symmetric v absolute_limit =
     (if absolute_limit \<le> 0 then 0 else std_clamp v (- absolute_limit) absolute_limit)"

text \<open>The gain of a first-order filter over one sample; the guidance controller
  uses the same expression.\<close>

definition first_order_alpha :: "double \<Rightarrow> double \<Rightarrow> double" where
  "first_order_alpha sample_period time_constant =
     (if time_constant \<le> 0 then 1 else sample_period / (time_constant + sample_period))"

definition first_order_filter :: "double \<Rightarrow> double \<Rightarrow> double \<Rightarrow> double" where
  "first_order_filter alpha previous raw = (1 - alpha) * previous + alpha * raw"

definition pi_step :: "pi_config \<Rightarrow> double \<Rightarrow> double \<Rightarrow> pi_state \<Rightarrow> pi_result outcome" where
  "pi_step c error dt s =
     (if \<not> isfinite error \<or> \<not> isfinite dt \<or> \<not> 0 < dt
         \<or> \<not> isfinite (pi_integral s) \<or> \<not> isfinite (pi_filtered_output s)
      then Inl InvalidArgument
      else let integral = clamp_symmetric (pi_integral s + error * dt) (integral_absolute_limit c);
               integral_gain = proportional_gain c / integral_time_seconds c;
               raw = clamp_symmetric (proportional_gain c * error + integral_gain * integral)
                       (raw_output_absolute_limit c);
               alpha = first_order_alpha dt (output_filter_time_constant_seconds c);
               filtered = first_order_filter alpha (pi_filtered_output s) raw
           in Inr \<lparr>pi_output = filtered,
                   pi_next_state = \<lparr>pi_integral = integral, pi_filtered_output = filtered\<rparr>\<rparr>)"

text \<open>A run of one channel over a sequence of errors, as an enclosing controller
  performs it: every accepted sample commits its next state.\<close>

fun pi_run :: "pi_config \<Rightarrow> double \<Rightarrow> double list \<Rightarrow> pi_state \<Rightarrow> (double list \<times> pi_state) outcome" where
  "pi_run c dt [] s = Inr ([], s)"
| "pi_run c dt (e # es) s =
     bindS (pi_step c e dt s) (\<lambda>r.
     bindS (pi_run c dt es (pi_next_state r)) (\<lambda>(outs, t). Inr (pi_output r # outs, t)))"

subsection \<open>Magnitude bounds\<close>

definition bounded_by :: "double \<Rightarrow> double \<Rightarrow> bool" where
  "bounded_by limit v \<longleftrightarrow> isfinite v \<and> \<bar>v\<bar> \<le> limit"

lemma bounded_by_Fin [simp]: "bounded_by (Fin l) (Fin v) \<longleftrightarrow> \<bar>v\<bar> \<le> l"
  by (simp add: bounded_by_def)

lemma within_isfinite: "bounded_by l v \<Longrightarrow> isfinite v"
  by (simp add: bounded_by_def)

lemma clamp_symmetric_Fin [simp]:
  "0 \<le> l \<Longrightarrow> clamp_symmetric (Fin v) (Fin l) = Fin (max (- l) (min l v))"
  by (auto simp: clamp_symmetric_def)

lemma clamp_symmetric_within:
  assumes "isfinite v" "isfinite l" "0 \<le> l"
  shows "bounded_by l (clamp_symmetric v l)"
  using assms by (auto simp: isfinite_iff)

lemma clamp_symmetric_id: "bounded_by l v \<Longrightarrow> isfinite l \<Longrightarrow> clamp_symmetric v l = v"
  by (cases v; cases l) (auto simp: bounded_by_def)

lemma first_order_alpha_unit:
  assumes "isfinite dt" "0 < dt" "isfinite tau" "\<not> tau < 0"
  shows "\<exists>a. first_order_alpha dt tau = Fin a \<and> 0 < a \<and> a \<le> 1"
  using assms by (auto simp: isfinite_iff first_order_alpha_def)

lemma convex_abs_bound:
  fixes a x y l :: real
  assumes "0 \<le> a" "a \<le> 1" "\<bar>x\<bar> \<le> l" "\<bar>y\<bar> \<le> l"
  shows "\<bar>(1 - a) * x + a * y\<bar> \<le> l"
proof -
  have "\<bar>(1 - a) * x + a * y\<bar> \<le> (1 - a) * \<bar>x\<bar> + a * \<bar>y\<bar>"
    using abs_triangle_ineq [of "(1 - a) * x" "a * y"] assms(1,2) by (simp add: abs_mult)
  also have "\<dots> \<le> (1 - a) * l + a * l"
    using assms by (intro add_mono mult_left_mono) auto
  finally show ?thesis by (simp add: algebra_simps)
qed

lemma first_order_filter_finite:
  assumes "first_order_alpha dt tau = Fin a" "isfinite x" "isfinite y"
  shows "isfinite (first_order_filter (first_order_alpha dt tau) x y)"
  using assms by (simp add: first_order_filter_def)

lemma first_order_filter_within:
  assumes "alpha = Fin a" "0 \<le> a" "a \<le> 1" "bounded_by l x" "bounded_by l y" "isfinite l"
  shows "bounded_by l (first_order_filter alpha x y)"
  using assms by (auto simp: first_order_filter_def bounded_by_def isfinite_iff intro: convex_abs_bound)

subsection \<open>Accepted channels\<close>

definition pi_config_ok :: "pi_config \<Rightarrow> bool" where
  "pi_config_ok c \<longleftrightarrow> validate_pi_config c = Inr ()"

lemma pi_config_ok_iff: "pi_config_ok c \<longleftrightarrow>
   isfinite (proportional_gain c) \<and> 0 < proportional_gain c
   \<and> isfinite (integral_time_seconds c) \<and> 0 < integral_time_seconds c
   \<and> isfinite (output_filter_time_constant_seconds c) \<and> \<not> output_filter_time_constant_seconds c < 0
   \<and> isfinite (integral_absolute_limit c) \<and> \<not> integral_absolute_limit c < 0
   \<and> isfinite (raw_output_absolute_limit c) \<and> \<not> raw_output_absolute_limit c < 0"
  by (auto simp: pi_config_ok_def validate_pi_config_def)

lemma make_pi_Inr: "make_pi c = Inr d \<longleftrightarrow> d = c \<and> pi_config_ok c"
  by (auto simp: make_pi_def bindS_eq_Inr pi_config_ok_def)

definition pi_state_ok :: "pi_config \<Rightarrow> pi_state \<Rightarrow> bool" where
  "pi_state_ok c s \<longleftrightarrow> bounded_by (integral_absolute_limit c) (pi_integral s)
                     \<and> bounded_by (raw_output_absolute_limit c) (pi_filtered_output s)"

lemma initial_pi_state_ok: "pi_config_ok c \<Longrightarrow> pi_state_ok c initial_pi_state"
  by (auto simp: pi_config_ok_iff pi_state_ok_def initial_pi_state_def isfinite_iff)

lemma pi_step_ok:
  assumes c: "pi_config_ok c" and s: "pi_state_ok c s"
    and e: "isfinite e" and dt: "isfinite dt" "0 < dt"
  obtains r where "pi_step c e dt s = Inr r" "pi_state_ok c (pi_next_state r)"
    "pi_output r = pi_filtered_output (pi_next_state r)"
proof -
  let ?L = "integral_absolute_limit c" and ?R = "raw_output_absolute_limit c"
  define integral where "integral = clamp_symmetric (pi_integral s + e * dt) ?L"
  define raw where "raw = clamp_symmetric (proportional_gain c * e
      + proportional_gain c / integral_time_seconds c * integral) ?R"
  have fin: "isfinite (pi_integral s)" "isfinite (pi_filtered_output s)"
    using s by (auto simp: pi_state_ok_def bounded_by_def)
  have lims: "isfinite ?L" "0 \<le> ?L" "isfinite ?R" "0 \<le> ?R"
    using c by (auto simp: pi_config_ok_iff isfinite_iff)
  have i: "bounded_by ?L integral"
    unfolding integral_def using fin e dt lims by (intro clamp_symmetric_within) auto
  have gain: "isfinite (proportional_gain c / integral_time_seconds c)" "isfinite (proportional_gain c)"
    using c by (auto simp: pi_config_ok_iff isfinite_iff)
  have r: "bounded_by ?R raw"
    unfolding raw_def using gain i e lims by (intro clamp_symmetric_within) (auto simp: bounded_by_def)
  obtain a where a: "first_order_alpha dt (output_filter_time_constant_seconds c) = Fin a" "0 < a" "a \<le> 1"
    using first_order_alpha_unit dt c by (metis pi_config_ok_iff)
  have f: "bounded_by ?R (first_order_filter (first_order_alpha dt (output_filter_time_constant_seconds c))
             (pi_filtered_output s) raw)"
    using s r a lims by (intro first_order_filter_within [where a = a]) (auto simp: pi_state_ok_def)
  show thesis
    by (rule that [of "\<lparr>pi_output = first_order_filter (first_order_alpha dt (output_filter_time_constant_seconds c))
             (pi_filtered_output s) raw, pi_next_state = \<lparr>pi_integral = integral,
             pi_filtered_output = first_order_filter (first_order_alpha dt (output_filter_time_constant_seconds c))
             (pi_filtered_output s) raw\<rparr>\<rparr>"])
      (use fin e dt i f in \<open>simp_all add: pi_step_def pi_state_ok_def Let_def integral_def raw_def\<close>)
qed

lemma pi_step_rejects: "pi_step c e dt s = Inl x \<Longrightarrow> x = InvalidArgument"
  by (auto simp: pi_step_def Let_def split: if_splits)

text \<open>A channel whose error and memory are zero rests.\<close>

lemma pi_step_rest:
  assumes "pi_config_ok c" "isfinite dt" "0 < dt"
  shows "pi_step c 0 dt initial_pi_state = Inr \<lparr>pi_output = 0, pi_next_state = initial_pi_state\<rparr>"
proof -
  obtain a where a: "first_order_alpha dt (output_filter_time_constant_seconds c) = Fin a"
    using first_order_alpha_unit assms by (metis pi_config_ok_iff)
  show ?thesis
    using assms a
    by (auto simp: pi_config_ok_iff pi_step_def initial_pi_state_def isfinite_iff Let_def first_order_filter_def)
qed

lemma pi_run_bounded_aux:
  assumes c: "pi_config_ok c" and dt: "isfinite dt" "0 < dt"
  shows "all_finite es \<Longrightarrow> pi_state_ok c s \<Longrightarrow>
     \<exists>outs t. pi_run c dt es s = Inr (outs, t) \<and> pi_state_ok c t \<and> length outs = length es
       \<and> list_all (bounded_by (raw_output_absolute_limit c)) outs"
proof (induction es arbitrary: s)
  case Nil
  then show ?case by simp
next
  case (Cons e es)
  then obtain r where r: "pi_step c e dt s = Inr r" "pi_state_ok c (pi_next_state r)"
      "pi_output r = pi_filtered_output (pi_next_state r)"
    using pi_step_ok [OF c] dt by (metis all_finite_Cons)
  have "all_finite es" using Cons.prems by simp
  from Cons.IH [OF this r(2)] obtain outs t where "pi_run c dt es (pi_next_state r) = Inr (outs, t)"
      "pi_state_ok c t" "length outs = length es" "list_all (bounded_by (raw_output_absolute_limit c)) outs"
    by blast
  with r show ?case by (auto simp: pi_state_ok_def)
qed

subsection \<open>The longitudinal cruise controller\<close>

record cruise_config =
  cruise_identifier :: string
  cruise_sample_period_seconds :: double
  cruise_target_speed :: double
  cruise_speed_pi :: pi_config

record cruise_state =
  cruise_pi_state :: pi_state

record cruise_result =
  cruise_speed_error :: double
  cruise_requested_torque :: double
  cruise_next_state :: cruise_state

definition initial_cruise_state :: cruise_state where
  "initial_cruise_state = \<lparr>cruise_pi_state = initial_pi_state\<rparr>"

definition validate_cruise_config :: "cruise_config \<Rightarrow> unit outcome" where
  "validate_cruise_config c = all_checks
     [reject_if (cruise_identifier c = []) InvalidArgument,
      reject_if (\<not> isfinite (cruise_sample_period_seconds c) \<or> \<not> 0 < cruise_sample_period_seconds c)
        InvalidArgument,
      reject_if (\<not> isfinite (cruise_target_speed c) \<or> \<not> 0 < cruise_target_speed c) InvalidArgument]"

text \<open>The member initialiser constructs the PI channel before the body validates
  the rest.\<close>

definition make_cruise :: "cruise_config \<Rightarrow> cruise_config outcome" where
  "make_cruise c = bindS (make_pi (cruise_speed_pi c)) (\<lambda>_.
                   bindS (validate_cruise_config c) (\<lambda>_. Inr c))"

definition cruise_step :: "cruise_config \<Rightarrow> double \<Rightarrow> double \<Rightarrow> cruise_state \<Rightarrow> cruise_result outcome" where
  "cruise_step c measured target s =
     (if \<not> isfinite measured then Inl InvalidArgument
      else if \<not> isfinite target then Inl InvalidArgument
      else let error = target - measured
           in bindS (pi_step (cruise_speed_pi c) error (cruise_sample_period_seconds c) (cruise_pi_state s))
                (\<lambda>r. Inr \<lparr>cruise_speed_error = error, cruise_requested_torque = pi_output r,
                          cruise_next_state = \<lparr>cruise_pi_state = pi_next_state r\<rparr>\<rparr>))"

definition cruise_config_ok :: "cruise_config \<Rightarrow> bool" where
  "cruise_config_ok c \<longleftrightarrow> make_cruise c = Inr c"

definition cruise_state_ok :: "cruise_config \<Rightarrow> cruise_state \<Rightarrow> bool" where
  "cruise_state_ok c s \<longleftrightarrow> pi_state_ok (cruise_speed_pi c) (cruise_pi_state s)"

lemma cruise_config_okD:
  assumes "cruise_config_ok c"
  shows "pi_config_ok (cruise_speed_pi c)" "isfinite (cruise_sample_period_seconds c)"
    "0 < cruise_sample_period_seconds c" "isfinite (cruise_target_speed c)" "0 < cruise_target_speed c"
  using assms by (auto simp: cruise_config_ok_def make_cruise_def bindS_eq_Inr make_pi_Inr validate_cruise_config_def)

lemma cruise_step_ok:
  assumes "cruise_config_ok c" "cruise_state_ok c s" "isfinite measured" "isfinite target"
  obtains r where "cruise_step c measured target s = Inr r" "cruise_state_ok c (cruise_next_state r)"
    "bounded_by (raw_output_absolute_limit (cruise_speed_pi c)) (cruise_requested_torque r)"
proof -
  obtain p where p: "pi_step (cruise_speed_pi c) (target - measured) (cruise_sample_period_seconds c)
        (cruise_pi_state s) = Inr p" "pi_state_ok (cruise_speed_pi c) (pi_next_state p)"
      "pi_output p = pi_filtered_output (pi_next_state p)"
    using pi_step_ok [of "cruise_speed_pi c" "cruise_pi_state s" "target - measured" "cruise_sample_period_seconds c"]
      cruise_config_okD [OF assms(1)] assms(2-4)
    by (auto simp: cruise_state_ok_def)
  show thesis
    by (rule that [of "\<lparr>cruise_speed_error = target - measured, cruise_requested_torque = pi_output p,
              cruise_next_state = \<lparr>cruise_pi_state = pi_next_state p\<rparr>\<rparr>"])
       (use p assms in \<open>auto simp: cruise_step_def cruise_state_ok_def pi_state_ok_def\<close>)
qed

lemma cruise_step_rejects: "cruise_step c m t s = Inl x \<Longrightarrow> x = InvalidArgument"
  by (auto simp: cruise_step_def Let_def bindS_eq_Inl dest: pi_step_rejects split: if_splits)

text \<open>A PI channel that was accepted, started from a memory within its limits and
  driven by any finite errors at any positive period, never rejects a sample: the
  run returns one output per error, every output is within the raw-output limit
  although only the raw output is clamped and the filter runs after the clamp, and
  the committed memory is within the limits again, so the integral cannot wind up.\<close>
theorem pi_run_bounded:
  assumes "pi_config_ok c" "isfinite dt" "0 < dt" "all_finite es" "pi_state_ok c s"
  shows "\<exists>outs t. pi_run c dt es s = Inr (outs, t) \<and> pi_state_ok c t \<and> length outs = length es
          \<and> list_all (bounded_by (raw_output_absolute_limit c)) outs"
  using pi_run_bounded_aux assms by blast

definition sample_pi_config :: pi_config where
  "sample_pi_config = \<lparr>proportional_gain = Fin 2, integral_time_seconds = Fin 1,
     output_filter_time_constant_seconds = Fin 1, integral_absolute_limit = Fin 1,
     raw_output_absolute_limit = Fin 3\<rparr>"

lemma sample_pi_config_ok: "pi_config_ok sample_pi_config"
  by (simp add: pi_config_ok_iff sample_pi_config_def)

theorem pi_run_bounded_witness:
  "\<exists>outs t. pi_run sample_pi_config 1 [Fin 5, Fin (- 7)] initial_pi_state = Inr (outs, t)
     \<and> pi_state_ok sample_pi_config t \<and> length outs = 2 \<and> list_all (bounded_by (Fin 3)) outs"
proof -
  have "raw_output_absolute_limit sample_pi_config = Fin 3"
    by (simp add: sample_pi_config_def)
  then show ?thesis
    using pi_run_bounded [of sample_pi_config 1 "[Fin 5, Fin (- 7)]" initial_pi_state]
      sample_pi_config_ok initial_pi_state_ok [OF sample_pi_config_ok]
    by (simp add: numeral_2_eq_2)
qed

end
