(* ===== verification/Wheel_Speed_Guidance.thy ===== *)
theory Wheel_Speed_Guidance
  imports Sampled_Control
begin

section \<open>Full-state wheel-speed guidance\<close>

text \<open>
  \<open>libs/control/src/irw_full_state_wheel_speed_guidance_controller.cc\<close>: the
  recurrence that turns one sample of axle and wheel observations into eight
  requested wheel torques, and the frozen controller that evaluates its operating
  point from the track stations.  Arrays of four axles or eight wheels are lists;
  \<open>finite_array\<close> states their size and the finiteness of their entries.  The lemmas
  show that an accepted controller accepts every finite sample, keeps its memory
  within the configured limits and turns guidance off, with its memory cleared,
  outside the guidance interval.
\<close>

definition axle_count :: nat where "axle_count = 4"
definition wheel_count :: nat where "wheel_count = 8"

subsection \<open>Arrays\<close>

definition finite_array :: "nat \<Rightarrow> vec \<Rightarrow> bool" where
  "finite_array n xs \<longleftrightarrow> length xs = n \<and> all_finite xs"

lemma finite_array_nth: "finite_array n xs \<Longrightarrow> i < n \<Longrightarrow> isfinite (xs ! i)"
  by (simp add: finite_array_def all_finite_iff)

lemma finite_array_map: "(\<And>i. i < n \<Longrightarrow> isfinite (f i)) \<Longrightarrow> finite_array n (map f [0..<n])"
  by (auto simp: finite_array_def all_finite_iff)

lemma finite_array_replicate: "isfinite v \<Longrightarrow> finite_array n (replicate n v)"
  by (simp add: finite_array_def)

lemma finite_divide_pos: "isfinite a \<Longrightarrow> isfinite b \<Longrightarrow> 0 < b \<Longrightarrow> isfinite (a / b)"
  by (auto simp: isfinite_iff)

definition require_finite_positive :: "double \<Rightarrow> unit outcome" where
  "require_finite_positive v = reject_if (\<not> isfinite v \<or> \<not> 0 < v) InvalidArgument"

definition require_finite_nonnegative :: "double \<Rightarrow> unit outcome" where
  "require_finite_nonnegative v = reject_if (\<not> isfinite v \<or> v < 0) InvalidArgument"

definition require_finite_array :: "vec \<Rightarrow> unit outcome" where
  "require_finite_array vs = all_checks (map (\<lambda>v. reject_if (\<not> isfinite v) InvalidArgument) vs)"

definition require_finite_nonnegative_array :: "vec \<Rightarrow> unit outcome" where
  "require_finite_nonnegative_array vs = all_checks (map require_finite_nonnegative vs)"

definition require_sign_array :: "vec \<Rightarrow> unit outcome" where
  "require_sign_array vs = all_checks (map (\<lambda>v. reject_if (\<not> feq v (- 1) \<and> \<not> feq v 1) InvalidArgument) vs)"

lemma all_checks_map_Inr: "all_checks (map f xs) = Inr () \<longleftrightarrow> (\<forall>x \<in> set xs. f x = Inr ())"
  by (induction xs) auto

lemma require_finite_positive_Inr [simp]: "require_finite_positive v = Inr () \<longleftrightarrow> isfinite v \<and> 0 < v"
  by (auto simp: require_finite_positive_def)

lemma require_finite_nonnegative_Inr [simp]:
  "require_finite_nonnegative v = Inr () \<longleftrightarrow> isfinite v \<and> \<not> v < 0"
  by (auto simp: require_finite_nonnegative_def)

lemma require_finite_array_Inr [simp]: "require_finite_array vs = Inr () \<longleftrightarrow> all_finite vs"
  by (auto simp: require_finite_array_def all_checks_map_Inr all_finite_iff)

lemma require_finite_nonnegative_array_Inr [simp]:
  "require_finite_nonnegative_array vs = Inr () \<longleftrightarrow> all_finite vs \<and> (\<forall>v \<in> set vs. \<not> v < 0)"
  by (auto simp: require_finite_nonnegative_array_def all_checks_map_Inr all_finite_iff)

lemma require_sign_array_Inr [simp]:
  "require_sign_array vs = Inr () \<longleftrightarrow> (\<forall>v \<in> set vs. v = Fin (- 1) \<or> v = Fin 1)"
  by (auto simp: require_sign_array_def all_checks_map_Inr feq_def)

lemma sign_array_finite: "\<forall>v \<in> set vs. v = Fin (- 1) \<or> v = Fin 1 \<Longrightarrow> all_finite vs"
  by (auto simp: all_finite_iff)

subsection \<open>Parameters, operating point and memory\<close>

record guidance_recurrence_config =
  rec_sample_period_seconds :: double
  rec_rolling_radius_meters :: double
  rec_guidance_axle_signs :: vec
  rec_guidance_wheel_signs :: vec
  rec_lateral_integral_absolute_limit :: double
  rec_wheel_speed_pi :: pi_config
  rec_wheel_speed_pi_wheel_signs :: vec

record guidance_operating_point =
  op_base_wheel_speed_references :: vec
  op_feedforward_gains :: vec
  op_yaw_rate_feedback_gains :: vec
  op_yaw_feedback_gains :: vec
  op_lateral_velocity_feedback_gains :: vec
  op_lateral_displacement_feedback_gains :: vec
  op_lateral_integral_feedback_gains :: vec
  op_wheel_speed_difference_feedback_gains :: vec
  op_yaw_rate_filter_time_constants :: vec
  op_lateral_velocity_filter_time_constants :: vec
  op_wheel_speed_difference_outer_filter_time_constants :: vec
  op_wheel_speed_difference_reference_absolute_limits :: vec
  op_equilibrium_yaw_angles :: vec
  op_equilibrium_lateral_displacements :: vec
  op_guidance_active :: "bool list"

record guidance_state =
  gs_initialized :: bool
  gs_previous_lateral_displacements :: vec
  gs_previous_yaw_angles :: vec
  gs_filtered_lateral_velocities :: vec
  gs_filtered_yaw_rates :: vec
  gs_lateral_error_integrals :: vec
  gs_filtered_wheel_speed_difference_commands :: vec
  gs_wheel_speed_pi_integrals :: vec
  gs_wheel_speed_pi_filtered_torques :: vec

definition initial_guidance_state :: guidance_state where
  "initial_guidance_state =
     \<lparr>gs_initialized = False,
      gs_previous_lateral_displacements = replicate axle_count 0,
      gs_previous_yaw_angles = replicate axle_count 0,
      gs_filtered_lateral_velocities = replicate axle_count 0,
      gs_filtered_yaw_rates = replicate axle_count 0,
      gs_lateral_error_integrals = replicate axle_count 0,
      gs_filtered_wheel_speed_difference_commands = replicate axle_count 0,
      gs_wheel_speed_pi_integrals = replicate wheel_count 0,
      gs_wheel_speed_pi_filtered_torques = replicate wheel_count 0\<rparr>"

record guidance_mechanical_input =
  mi_axle_lateral_displacements :: vec
  mi_axle_yaw_angles :: vec
  mi_wheel_angular_speeds :: vec

record guidance_observations =
  ob_base_wheel_speed_references :: vec
  ob_wheel_speed_references :: vec
  ob_wheel_speed_difference_references :: vec
  ob_measured_wheel_speed_differences :: vec
  ob_equilibrium_wheel_speed_differences :: vec
  ob_filtered_lateral_velocities :: vec
  ob_filtered_yaw_rates :: vec
  ob_guidance_active :: "bool list"

record guidance_result =
  gr_requested_wheel_torques :: vec
  gr_observations :: guidance_observations
  gr_next_state :: guidance_state

subsection \<open>Validation\<close>

definition validate_recurrence_config :: "guidance_recurrence_config \<Rightarrow> unit outcome" where
  "validate_recurrence_config c = all_checks
     [require_finite_positive (rec_sample_period_seconds c),
      require_finite_positive (rec_rolling_radius_meters c),
      require_sign_array (rec_guidance_axle_signs c),
      require_sign_array (rec_guidance_wheel_signs c),
      require_finite_nonnegative (rec_lateral_integral_absolute_limit c),
      require_sign_array (rec_wheel_speed_pi_wheel_signs c)]"

text \<open>The PI channel is a member and is constructed first.\<close>

definition make_recurrence :: "guidance_recurrence_config \<Rightarrow> guidance_recurrence_config outcome" where
  "make_recurrence c = bindS (make_pi (rec_wheel_speed_pi c)) (\<lambda>_.
                       bindS (validate_recurrence_config c) (\<lambda>_. Inr c))"

definition validate_operating_point :: "guidance_operating_point \<Rightarrow> unit outcome" where
  "validate_operating_point p = all_checks
     [require_finite_array (op_base_wheel_speed_references p),
      require_finite_array (op_feedforward_gains p),
      require_finite_array (op_yaw_rate_feedback_gains p),
      require_finite_array (op_yaw_feedback_gains p),
      require_finite_array (op_lateral_velocity_feedback_gains p),
      require_finite_array (op_lateral_displacement_feedback_gains p),
      require_finite_array (op_lateral_integral_feedback_gains p),
      require_finite_array (op_wheel_speed_difference_feedback_gains p),
      require_finite_nonnegative_array (op_yaw_rate_filter_time_constants p),
      require_finite_nonnegative_array (op_lateral_velocity_filter_time_constants p),
      require_finite_nonnegative_array (op_wheel_speed_difference_outer_filter_time_constants p),
      require_finite_nonnegative_array (op_wheel_speed_difference_reference_absolute_limits p),
      require_finite_array (op_equilibrium_yaw_angles p),
      require_finite_array (op_equilibrium_lateral_displacements p)]"

subsection \<open>The recurrence\<close>

text \<open>Backward difference through a first-order filter; zero on the first sample.\<close>

definition filtered_derivative ::
  "double \<Rightarrow> double \<Rightarrow> bool \<Rightarrow> double \<Rightarrow> double \<Rightarrow> double \<Rightarrow> double" where
  "filtered_derivative dt tau initialized current previous previous_filtered =
     (if \<not> initialized then 0
      else first_order_filter (first_order_alpha dt tau) previous_filtered ((current - previous) / dt))"

definition filtered_lateral_velocities ::
  "guidance_recurrence_config \<Rightarrow> guidance_operating_point \<Rightarrow> guidance_mechanical_input \<Rightarrow> guidance_state \<Rightarrow> vec" where
  "filtered_lateral_velocities c p u s = map (\<lambda>a.
     filtered_derivative (rec_sample_period_seconds c) (op_lateral_velocity_filter_time_constants p ! a)
       (gs_initialized s) (mi_axle_lateral_displacements u ! a)
       (gs_previous_lateral_displacements s ! a) (gs_filtered_lateral_velocities s ! a)) [0..<axle_count]"

definition filtered_yaw_rates ::
  "guidance_recurrence_config \<Rightarrow> guidance_operating_point \<Rightarrow> guidance_mechanical_input \<Rightarrow> guidance_state \<Rightarrow> vec" where
  "filtered_yaw_rates c p u s = map (\<lambda>a.
     filtered_derivative (rec_sample_period_seconds c) (op_yaw_rate_filter_time_constants p ! a)
       (gs_initialized s) (mi_axle_yaw_angles u ! a)
       (gs_previous_yaw_angles s ! a) (gs_filtered_yaw_rates s ! a)) [0..<axle_count]"

definition measured_differences ::
  "guidance_recurrence_config \<Rightarrow> guidance_mechanical_input \<Rightarrow> vec" where
  "measured_differences c u = map (\<lambda>a.
     rec_guidance_wheel_signs c ! (2 * a) * mi_wheel_angular_speeds u ! (2 * a)
     - rec_guidance_wheel_signs c ! (2 * a + 1) * mi_wheel_angular_speeds u ! (2 * a + 1)) [0..<axle_count]"

definition equilibrium_differences ::
  "guidance_recurrence_config \<Rightarrow> guidance_operating_point \<Rightarrow> vec" where
  "equilibrium_differences c p = map (\<lambda>a.
     (op_base_wheel_speed_references p ! (2 * a) - op_base_wheel_speed_references p ! (2 * a + 1))
     / rec_rolling_radius_meters c) [0..<axle_count]"

definition feedback_disabled :: "guidance_operating_point \<Rightarrow> bool" where
  "feedback_disabled p =
     list_all (\<lambda>gain. \<not> Fin (1 / 10 ^ 15) < \<bar>gain\<bar>) (op_wheel_speed_difference_feedback_gains p)"

definition lateral_integrals ::
  "guidance_recurrence_config \<Rightarrow> guidance_operating_point \<Rightarrow> guidance_mechanical_input \<Rightarrow> guidance_state \<Rightarrow> vec" where
  "lateral_integrals c p u s = map (\<lambda>a.
     let lateral_error = mi_axle_lateral_displacements u ! a - op_equilibrium_lateral_displacements p ! a;
         candidate = clamp_symmetric
           (gs_lateral_error_integrals s ! a + lateral_error * rec_sample_period_seconds c)
           (rec_lateral_integral_absolute_limit c)
     in if op_guidance_active p ! a then candidate else 0) [0..<axle_count]"

definition difference_targets ::
  "guidance_recurrence_config \<Rightarrow> guidance_operating_point \<Rightarrow> guidance_mechanical_input \<Rightarrow> guidance_state \<Rightarrow> vec" where
  "difference_targets c p u s = map (\<lambda>a.
     let lateral_error = mi_axle_lateral_displacements u ! a - op_equilibrium_lateral_displacements p ! a;
         yaw_error = mi_axle_yaw_angles u ! a - op_equilibrium_yaw_angles p ! a;
         full_state_feedback =
           op_yaw_rate_feedback_gains p ! a * filtered_yaw_rates c p u s ! a
           + op_yaw_feedback_gains p ! a * yaw_error
           + op_lateral_velocity_feedback_gains p ! a * filtered_lateral_velocities c p u s ! a
           + op_lateral_displacement_feedback_gains p ! a * lateral_error
           + op_lateral_integral_feedback_gains p ! a * lateral_integrals c p u s ! a
     in op_feedforward_gains p ! a * equilibrium_differences c p ! a
        + rec_guidance_axle_signs c ! a * full_state_feedback) [0..<axle_count]"

text \<open>The command kept in the memory of an axle, and the reference published for it:
  both zero while guidance is off, otherwise the reference is the clamped command.\<close>

definition filtered_difference_command ::
  "guidance_recurrence_config \<Rightarrow> guidance_operating_point \<Rightarrow> guidance_mechanical_input \<Rightarrow> guidance_state \<Rightarrow> nat \<Rightarrow> double" where
  "filtered_difference_command c p u s a =
     (let target = difference_targets c p u s ! a
      in if \<not> op_guidance_active p ! a then 0
         else if feedback_disabled p then target
         else let feedback = op_wheel_speed_difference_feedback_gains p ! a
                             * (target - measured_differences c u ! a);
                  raw = target + feedback;
                  alpha = first_order_alpha (rec_sample_period_seconds c)
                            (op_wheel_speed_difference_outer_filter_time_constants p ! a)
              in first_order_filter alpha (gs_filtered_wheel_speed_difference_commands s ! a) raw)"

definition difference_reference ::
  "guidance_recurrence_config \<Rightarrow> guidance_operating_point \<Rightarrow> guidance_mechanical_input \<Rightarrow> guidance_state \<Rightarrow> nat \<Rightarrow> double" where
  "difference_reference c p u s a =
     (if \<not> op_guidance_active p ! a then 0
      else clamp_symmetric (filtered_difference_command c p u s a)
             (op_wheel_speed_difference_reference_absolute_limits p ! a))"

definition wheel_speed_references ::
  "guidance_recurrence_config \<Rightarrow> guidance_operating_point \<Rightarrow> vec \<Rightarrow> vec" where
  "wheel_speed_references c p differences = concat (map (\<lambda>a.
     let speed_difference = half * rec_rolling_radius_meters c * differences ! a
     in [op_base_wheel_speed_references p ! (2 * a) + speed_difference,
         op_base_wheel_speed_references p ! (2 * a + 1) - speed_difference]) [0..<axle_count])"

definition wheel_pi_step ::
  "guidance_recurrence_config \<Rightarrow> vec \<Rightarrow> guidance_mechanical_input \<Rightarrow> guidance_state \<Rightarrow> nat \<Rightarrow> pi_result outcome" where
  "wheel_pi_step c references u s w =
     (let wheel_speed = rec_rolling_radius_meters c * rec_wheel_speed_pi_wheel_signs c ! w
                        * mi_wheel_angular_speeds u ! w;
          speed_error = references ! w - wheel_speed
      in pi_step (rec_wheel_speed_pi c) speed_error (rec_sample_period_seconds c)
           \<lparr>pi_integral = gs_wheel_speed_pi_integrals s ! w,
            pi_filtered_output = gs_wheel_speed_pi_filtered_torques s ! w\<rparr>)"

definition guidance_step ::
  "guidance_recurrence_config \<Rightarrow> guidance_mechanical_input \<Rightarrow> guidance_operating_point \<Rightarrow> guidance_state
   \<Rightarrow> guidance_result outcome" where
  "guidance_step c u p s =
     bindS (validate_operating_point p) (\<lambda>_.
     let differences = map (difference_reference c p u s) [0..<axle_count];
         references = wheel_speed_references c p differences
     in bindS (mapS (wheel_pi_step c references u s) [0..<wheel_count]) (\<lambda>rs.
        Inr \<lparr>gr_requested_wheel_torques = map pi_output rs,
             gr_observations =
               \<lparr>ob_base_wheel_speed_references = op_base_wheel_speed_references p,
                ob_wheel_speed_references = references,
                ob_wheel_speed_difference_references = differences,
                ob_measured_wheel_speed_differences = measured_differences c u,
                ob_equilibrium_wheel_speed_differences = equilibrium_differences c p,
                ob_filtered_lateral_velocities = filtered_lateral_velocities c p u s,
                ob_filtered_yaw_rates = filtered_yaw_rates c p u s,
                ob_guidance_active = op_guidance_active p\<rparr>,
             gr_next_state =
               \<lparr>gs_initialized = True,
                gs_previous_lateral_displacements = mi_axle_lateral_displacements u,
                gs_previous_yaw_angles = mi_axle_yaw_angles u,
                gs_filtered_lateral_velocities = filtered_lateral_velocities c p u s,
                gs_filtered_yaw_rates = filtered_yaw_rates c p u s,
                gs_lateral_error_integrals = lateral_integrals c p u s,
                gs_filtered_wheel_speed_difference_commands =
                  map (filtered_difference_command c p u s) [0..<axle_count],
                gs_wheel_speed_pi_integrals = map (pi_integral \<circ> pi_next_state) rs,
                gs_wheel_speed_pi_filtered_torques = map (pi_filtered_output \<circ> pi_next_state) rs\<rparr>\<rparr>))"

subsection \<open>Well-formed parameters, operating points, samples and memory\<close>

definition recurrence_config_ok :: "guidance_recurrence_config \<Rightarrow> bool" where
  "recurrence_config_ok c \<longleftrightarrow> make_recurrence c = Inr c
     \<and> length (rec_guidance_axle_signs c) = axle_count
     \<and> length (rec_guidance_wheel_signs c) = wheel_count
     \<and> length (rec_wheel_speed_pi_wheel_signs c) = wheel_count"

definition operating_point_sized :: "guidance_operating_point \<Rightarrow> bool" where
  "operating_point_sized p \<longleftrightarrow>
     length (op_base_wheel_speed_references p) = wheel_count
     \<and> (\<forall>xs \<in> {op_feedforward_gains p, op_yaw_rate_feedback_gains p, op_yaw_feedback_gains p,
          op_lateral_velocity_feedback_gains p, op_lateral_displacement_feedback_gains p,
          op_lateral_integral_feedback_gains p, op_wheel_speed_difference_feedback_gains p,
          op_yaw_rate_filter_time_constants p, op_lateral_velocity_filter_time_constants p,
          op_wheel_speed_difference_outer_filter_time_constants p,
          op_wheel_speed_difference_reference_absolute_limits p,
          op_equilibrium_yaw_angles p, op_equilibrium_lateral_displacements p}. length xs = axle_count)
     \<and> length (op_guidance_active p) = axle_count"

definition operating_point_ok :: "guidance_operating_point \<Rightarrow> bool" where
  "operating_point_ok p \<longleftrightarrow> operating_point_sized p \<and> validate_operating_point p = Inr ()"

definition mechanical_input_ok :: "guidance_mechanical_input \<Rightarrow> bool" where
  "mechanical_input_ok u \<longleftrightarrow> finite_array axle_count (mi_axle_lateral_displacements u)
     \<and> finite_array axle_count (mi_axle_yaw_angles u)
     \<and> finite_array wheel_count (mi_wheel_angular_speeds u)"

definition guidance_state_ok :: "guidance_recurrence_config \<Rightarrow> guidance_state \<Rightarrow> bool" where
  "guidance_state_ok c s \<longleftrightarrow>
     finite_array axle_count (gs_previous_lateral_displacements s)
     \<and> finite_array axle_count (gs_previous_yaw_angles s)
     \<and> finite_array axle_count (gs_filtered_lateral_velocities s)
     \<and> finite_array axle_count (gs_filtered_yaw_rates s)
     \<and> finite_array axle_count (gs_lateral_error_integrals s)
     \<and> list_all (bounded_by (rec_lateral_integral_absolute_limit c)) (gs_lateral_error_integrals s)
     \<and> finite_array axle_count (gs_filtered_wheel_speed_difference_commands s)
     \<and> length (gs_wheel_speed_pi_integrals s) = wheel_count
     \<and> length (gs_wheel_speed_pi_filtered_torques s) = wheel_count
     \<and> list_all2 (\<lambda>i f. pi_state_ok (rec_wheel_speed_pi c) \<lparr>pi_integral = i, pi_filtered_output = f\<rparr>)
          (gs_wheel_speed_pi_integrals s) (gs_wheel_speed_pi_filtered_torques s)"

lemma recurrence_config_okD:
  assumes "recurrence_config_ok c"
  shows "pi_config_ok (rec_wheel_speed_pi c)"
    "isfinite (rec_sample_period_seconds c)" "0 < rec_sample_period_seconds c"
    "isfinite (rec_rolling_radius_meters c)" "0 < rec_rolling_radius_meters c"
    "isfinite (rec_lateral_integral_absolute_limit c)" "0 \<le> rec_lateral_integral_absolute_limit c"
    "finite_array axle_count (rec_guidance_axle_signs c)"
    "finite_array wheel_count (rec_guidance_wheel_signs c)"
    "finite_array wheel_count (rec_wheel_speed_pi_wheel_signs c)"
  using assms
  by (auto simp: recurrence_config_ok_def make_recurrence_def bindS_eq_Inr make_pi_Inr
        validate_recurrence_config_def finite_array_def isfinite_iff sign_array_finite)

lemma operating_point_okD:
  assumes "operating_point_ok p"
  shows "finite_array wheel_count (op_base_wheel_speed_references p)"
    "finite_array axle_count (op_feedforward_gains p)"
    "finite_array axle_count (op_yaw_rate_feedback_gains p)"
    "finite_array axle_count (op_yaw_feedback_gains p)"
    "finite_array axle_count (op_lateral_velocity_feedback_gains p)"
    "finite_array axle_count (op_lateral_displacement_feedback_gains p)"
    "finite_array axle_count (op_lateral_integral_feedback_gains p)"
    "finite_array axle_count (op_wheel_speed_difference_feedback_gains p)"
    "finite_array axle_count (op_yaw_rate_filter_time_constants p)"
    "finite_array axle_count (op_lateral_velocity_filter_time_constants p)"
    "finite_array axle_count (op_wheel_speed_difference_outer_filter_time_constants p)"
    "finite_array axle_count (op_wheel_speed_difference_reference_absolute_limits p)"
    "finite_array axle_count (op_equilibrium_yaw_angles p)"
    "finite_array axle_count (op_equilibrium_lateral_displacements p)"
  using assms
  by (simp_all add: operating_point_ok_def operating_point_sized_def validate_operating_point_def finite_array_def)

lemma operating_point_ok_signs:
  assumes "operating_point_ok p" "a < axle_count"
  shows "\<not> op_yaw_rate_filter_time_constants p ! a < 0"
    "\<not> op_lateral_velocity_filter_time_constants p ! a < 0"
    "\<not> op_wheel_speed_difference_outer_filter_time_constants p ! a < 0"
    "\<not> op_wheel_speed_difference_reference_absolute_limits p ! a < 0"
  using assms
  by (auto simp: operating_point_ok_def operating_point_sized_def validate_operating_point_def)

lemmas array_nth =
  operating_point_okD [THEN finite_array_nth]
  recurrence_config_okD(8-10) [THEN finite_array_nth]

subsection \<open>Every intermediate value of an accepted sample is finite\<close>

lemma first_order_filter_isfinite:
  assumes "isfinite dt" "0 < dt" "isfinite tau" "\<not> tau < 0" "isfinite x" "isfinite y"
  shows "isfinite (first_order_filter (first_order_alpha dt tau) x y)"
  using first_order_alpha_unit [OF assms(1-4)] first_order_filter_finite assms(5,6) by blast

lemma filtered_derivative_isfinite:
  assumes "isfinite dt" "0 < dt" "isfinite tau" "\<not> tau < 0" "isfinite x" "isfinite y" "isfinite z"
  shows "isfinite (filtered_derivative dt tau i x y z)"
  using assms
  by (simp add: filtered_derivative_def first_order_filter_isfinite finite_divide_pos)

text \<open>A sample the recurrence should accept: accepted parameters and operating point,
  a finite observation and a memory the recurrence can have left.\<close>

definition acceptable_sample ::
  "guidance_recurrence_config \<Rightarrow> guidance_mechanical_input \<Rightarrow> guidance_operating_point \<Rightarrow> guidance_state \<Rightarrow> bool" where
  "acceptable_sample c u p s \<longleftrightarrow>
     recurrence_config_ok c \<and> operating_point_ok p \<and> mechanical_input_ok u \<and> guidance_state_ok c s"

lemma acceptable_sampleD:
  assumes "acceptable_sample c u p s"
  shows "recurrence_config_ok c" "operating_point_ok p" "mechanical_input_ok u" "guidance_state_ok c s"
  using assms by (simp_all add: acceptable_sample_def)

lemma sample_axle:
  assumes "acceptable_sample c u p s" "a < axle_count"
  shows "isfinite (mi_axle_lateral_displacements u ! a)" "isfinite (mi_axle_yaw_angles u ! a)"
    "isfinite (gs_previous_lateral_displacements s ! a)" "isfinite (gs_previous_yaw_angles s ! a)"
    "isfinite (gs_filtered_lateral_velocities s ! a)" "isfinite (gs_filtered_yaw_rates s ! a)"
    "isfinite (gs_lateral_error_integrals s ! a)"
    "isfinite (gs_filtered_wheel_speed_difference_commands s ! a)"
    "isfinite (rec_guidance_axle_signs c ! a)"
    "isfinite (op_feedforward_gains p ! a)" "isfinite (op_yaw_rate_feedback_gains p ! a)"
    "isfinite (op_yaw_feedback_gains p ! a)" "isfinite (op_lateral_velocity_feedback_gains p ! a)"
    "isfinite (op_lateral_displacement_feedback_gains p ! a)"
    "isfinite (op_lateral_integral_feedback_gains p ! a)"
    "isfinite (op_wheel_speed_difference_feedback_gains p ! a)"
    "isfinite (op_yaw_rate_filter_time_constants p ! a)"
    "isfinite (op_lateral_velocity_filter_time_constants p ! a)"
    "isfinite (op_wheel_speed_difference_outer_filter_time_constants p ! a)"
    "isfinite (op_wheel_speed_difference_reference_absolute_limits p ! a)"
    "isfinite (op_equilibrium_yaw_angles p ! a)" "isfinite (op_equilibrium_lateral_displacements p ! a)"
  using assms
  by (auto simp: acceptable_sample_def mechanical_input_ok_def guidance_state_ok_def
      intro: finite_array_nth operating_point_okD recurrence_config_okD)

lemma sample_wheel:
  assumes "acceptable_sample c u p s" "w < wheel_count"
  shows "isfinite (mi_wheel_angular_speeds u ! w)" "isfinite (rec_guidance_wheel_signs c ! w)"
    "isfinite (rec_wheel_speed_pi_wheel_signs c ! w)" "isfinite (op_base_wheel_speed_references p ! w)"
  using assms
  by (auto simp: acceptable_sample_def mechanical_input_ok_def
      intro: finite_array_nth operating_point_okD recurrence_config_okD)

lemma sample_nonneg:
  assumes "acceptable_sample c u p s" "a < axle_count"
  shows "\<not> op_yaw_rate_filter_time_constants p ! a < 0"
    "\<not> op_lateral_velocity_filter_time_constants p ! a < 0"
    "\<not> op_wheel_speed_difference_outer_filter_time_constants p ! a < 0"
    "\<not> op_wheel_speed_difference_reference_absolute_limits p ! a < 0"
  using operating_point_ok_signs acceptable_sampleD(2) assms by blast+

lemma sample_constants:
  assumes "acceptable_sample c u p s"
  shows "isfinite (rec_sample_period_seconds c)" "0 < rec_sample_period_seconds c"
    "isfinite (rec_rolling_radius_meters c)" "0 < rec_rolling_radius_meters c"
    "isfinite (rec_lateral_integral_absolute_limit c)" "0 \<le> rec_lateral_integral_absolute_limit c"
  using recurrence_config_okD acceptable_sampleD(1) assms by blast+

lemma axle_wheels: "a < axle_count \<Longrightarrow> 2 * a < wheel_count" "a < axle_count \<Longrightarrow> Suc (2 * a) < wheel_count"
  by (simp_all add: axle_count_def wheel_count_def)

lemma observed_rates_finite:
  assumes a: "acceptable_sample c u p s"
  shows "finite_array axle_count (filtered_lateral_velocities c p u s)"
    "finite_array axle_count (filtered_yaw_rates c p u s)"
  unfolding filtered_lateral_velocities_def filtered_yaw_rates_def
  by (intro finite_array_map filtered_derivative_isfinite sample_axle [OF a] sample_nonneg [OF a]
      sample_constants [OF a]; assumption)+

lemma observed_differences_finite:
  assumes a: "acceptable_sample c u p s"
  shows "finite_array axle_count (measured_differences c u)"
    "finite_array axle_count (equilibrium_differences c p)"
proof -
  show "finite_array axle_count (measured_differences c u)"
    unfolding measured_differences_def
    by (rule finite_array_map) (simp add: axle_wheels sample_wheel [OF a])
  show "finite_array axle_count (equilibrium_differences c p)"
    unfolding equilibrium_differences_def
    by (intro finite_array_map finite_divide_pos sample_constants [OF a])
       (simp add: axle_wheels sample_wheel [OF a])
qed

lemma lateral_integrals_bounded:
  assumes s: "acceptable_sample c u p s"
  shows "finite_array axle_count (lateral_integrals c p u s)"
    "list_all (bounded_by (rec_lateral_integral_absolute_limit c)) (lateral_integrals c p u s)"
proof -
  let ?L = "rec_lateral_integral_absolute_limit c"
  have "bounded_by ?L (lateral_integrals c p u s ! a)" if a: "a < axle_count" for a
  proof -
    let ?v = "gs_lateral_error_integrals s ! a
        + (mi_axle_lateral_displacements u ! a - op_equilibrium_lateral_displacements p ! a)
          * rec_sample_period_seconds c"
    have "isfinite ?v" by (simp add: sample_axle [OF s a] sample_constants [OF s])
    then have "bounded_by ?L (clamp_symmetric ?v ?L)"
      by (intro clamp_symmetric_within sample_constants [OF s])
    moreover have "bounded_by ?L 0"
      using sample_constants(5,6) [OF s] by (auto simp: isfinite_iff)
    ultimately show ?thesis
      by (simp add: lateral_integrals_def a Let_def)
  qed
  moreover have "length (lateral_integrals c p u s) = axle_count"
    by (simp add: lateral_integrals_def)
  ultimately show "finite_array axle_count (lateral_integrals c p u s)"
    "list_all (bounded_by ?L) (lateral_integrals c p u s)"
    by (auto simp: finite_array_def all_finite_iff list_all_iff in_set_conv_nth bounded_by_def)
qed

lemma difference_targets_finite:
  assumes s: "acceptable_sample c u p s"
  shows "finite_array axle_count (difference_targets c p u s)"
  unfolding difference_targets_def Let_def
  by (rule finite_array_map)
     (simp add: sample_axle [OF s] finite_array_nth [OF observed_rates_finite(1) [OF s]]
       finite_array_nth [OF observed_rates_finite(2) [OF s]]
       finite_array_nth [OF observed_differences_finite(2) [OF s]]
       finite_array_nth [OF lateral_integrals_bounded(1) [OF s]])

lemma filtered_difference_command_finite:
  assumes s: "acceptable_sample c u p s" and a: "a < axle_count"
  shows "isfinite (filtered_difference_command c p u s a)"
proof -
  let ?t = "difference_targets c p u s ! a"
  have t: "isfinite ?t" by (rule finite_array_nth [OF difference_targets_finite [OF s] a])
  have m: "isfinite (measured_differences c u ! a)"
    by (rule finite_array_nth [OF observed_differences_finite(1) [OF s] a])
  have "isfinite (first_order_filter (first_order_alpha (rec_sample_period_seconds c)
      (op_wheel_speed_difference_outer_filter_time_constants p ! a))
      (gs_filtered_wheel_speed_difference_commands s ! a)
      (?t + op_wheel_speed_difference_feedback_gains p ! a * (?t - measured_differences c u ! a)))"
    using t m by (intro first_order_filter_isfinite sample_axle [OF s a] sample_nonneg [OF s a]
      sample_constants [OF s]) (simp add: sample_axle [OF s a])
  then show ?thesis
    using t by (simp add: filtered_difference_command_def Let_def)
qed

lemma difference_reference_bounded:
  assumes s: "acceptable_sample c u p s" and a: "a < axle_count"
  shows "bounded_by (op_wheel_speed_difference_reference_absolute_limits p ! a) (difference_reference c p u s a)"
proof -
  let ?L = "op_wheel_speed_difference_reference_absolute_limits p ! a"
  have L: "isfinite ?L" "0 \<le> ?L"
    using sample_axle(20) [OF s a] sample_nonneg(4) [OF s a] by (auto simp: isfinite_iff)
  then have "bounded_by ?L 0" by (auto simp: isfinite_iff)
  then show ?thesis
    using clamp_symmetric_within [OF filtered_difference_command_finite [OF s a] L]
    by (simp add: difference_reference_def)
qed

subsection \<open>The wheel references and the step\<close>

lemma nth_concat_pairs:
  assumes "a < n"
  shows "concat (map (\<lambda>i. [f i, g i]) [0..<n]) ! (2 * a) = f a"
    "concat (map (\<lambda>i. [f i, g i]) [0..<n]) ! Suc (2 * a) = g a"
proof -
  have len: "length (concat (map (\<lambda>i. [f i, g i]) [0..<m])) = 2 * m" for m
    by (induction m) auto
  have "concat (map (\<lambda>i. [f i, g i]) [0..<n]) ! (2 * a) = f a
        \<and> concat (map (\<lambda>i. [f i, g i]) [0..<n]) ! Suc (2 * a) = g a"
    using assms
  proof (induction n)
    case (Suc n)
    then show ?case
      using len [of n] by (cases "a = n") (auto simp: nth_append less_Suc_eq)
  qed simp
  then show "concat (map (\<lambda>i. [f i, g i]) [0..<n]) ! (2 * a) = f a"
    "concat (map (\<lambda>i. [f i, g i]) [0..<n]) ! Suc (2 * a) = g a"
    by auto
qed

lemma length_wheel_speed_references: "length (wheel_speed_references c p d) = wheel_count"
  by (simp add: wheel_speed_references_def Let_def axle_count_def wheel_count_def upt_rec)

lemma wheel_speed_references_nth:
  assumes "a < axle_count"
  shows "wheel_speed_references c p d ! (2 * a)
           = op_base_wheel_speed_references p ! (2 * a) + half * rec_rolling_radius_meters c * d ! a"
    "wheel_speed_references c p d ! Suc (2 * a)
           = op_base_wheel_speed_references p ! Suc (2 * a) - half * rec_rolling_radius_meters c * d ! a"
  unfolding wheel_speed_references_def Let_def using nth_concat_pairs [OF assms] by simp_all

lemma wheel_of_axle: "w < wheel_count \<Longrightarrow> \<exists>a < axle_count. w = 2 * a \<or> w = Suc (2 * a)"
  unfolding wheel_count_def axle_count_def by presburger

lemma wheel_speed_references_finite:
  assumes s: "acceptable_sample c u p s" and d: "finite_array axle_count d" and w: "w < wheel_count"
  shows "isfinite (wheel_speed_references c p d ! w)"
proof -
  obtain a where a: "a < axle_count" "w = 2 * a \<or> w = Suc (2 * a)" using wheel_of_axle w by blast
  then show ?thesis
    using sample_wheel(4) [OF s] sample_constants(3) [OF s] finite_array_nth [OF d a(1)] axle_wheels [OF a(1)]
    by (auto simp: wheel_speed_references_nth)
qed

lemma mapS_succeeds:
  assumes "\<forall>x \<in> set xs. \<exists>y. f x = Inr y \<and> P x y"
  shows "\<exists>ys. mapS f xs = Inr ys \<and> list_all2 P xs ys"
  using assms
  by (induction xs) (auto simp: bindS_eq_Inr)

lemma wheel_pi_step_ok:
  assumes s: "acceptable_sample c u p s" and d: "finite_array axle_count d" and w: "w < wheel_count"
  shows "\<exists>r. wheel_pi_step c (wheel_speed_references c p d) u s w = Inr r
           \<and> pi_state_ok (rec_wheel_speed_pi c) (pi_next_state r)
           \<and> pi_output r = pi_filtered_output (pi_next_state r)"
proof -
  have "pi_state_ok (rec_wheel_speed_pi c) \<lparr>pi_integral = gs_wheel_speed_pi_integrals s ! w,
      pi_filtered_output = gs_wheel_speed_pi_filtered_torques s ! w\<rparr>"
    using acceptable_sampleD(4) [OF s] w by (auto simp: guidance_state_ok_def list_all2_conv_all_nth)
  moreover have "isfinite (wheel_speed_references c p d ! w
      - rec_rolling_radius_meters c * rec_wheel_speed_pi_wheel_signs c ! w * mi_wheel_angular_speeds u ! w)"
    using wheel_speed_references_finite [OF s d w] sample_wheel [OF s w] sample_constants(3) [OF s] by simp
  ultimately show ?thesis
    unfolding wheel_pi_step_def Let_def
    using pi_step_ok [OF recurrence_config_okD(1) [OF acceptable_sampleD(1) [OF s]]] sample_constants(1,2) [OF s]
    by metis
qed

lemma guidance_step_ok:
  assumes s: "acceptable_sample c u p s"
  obtains r where "guidance_step c u p s = Inr r" "guidance_state_ok c (gr_next_state r)"
    "gs_initialized (gr_next_state r)"
    "length (gr_requested_wheel_torques r) = wheel_count"
    "list_all (bounded_by (raw_output_absolute_limit (rec_wheel_speed_pi c))) (gr_requested_wheel_torques r)"
proof -
  let ?pi = "rec_wheel_speed_pi c"
  let ?d = "map (difference_reference c p u s) [0..<axle_count]"
  let ?P = "\<lambda>w r. pi_state_ok ?pi (pi_next_state r) \<and> pi_output r = pi_filtered_output (pi_next_state r)"
  note D = acceptable_sampleD [OF s]
  have d: "finite_array axle_count ?d"
    using difference_reference_bounded [OF s] by (intro finite_array_map) (auto dest: within_isfinite)
  obtain rs where rs: "mapS (wheel_pi_step c (wheel_speed_references c p ?d) u s) [0..<wheel_count] = Inr rs"
      "list_all2 ?P [0..<wheel_count] rs"
    using mapS_succeeds [of "[0..<wheel_count]" "wheel_pi_step c (wheel_speed_references c p ?d) u s" ?P]
      wheel_pi_step_ok [OF s d] by auto
  have len: "length rs = wheel_count" and all: "\<forall>r \<in> set rs. ?P 0 r"
    using rs(2) by (auto simp: list_all2_conv_all_nth in_set_conv_nth)
  have v: "validate_operating_point p = Inr ()"
    using D(2) by (simp add: operating_point_ok_def)
  obtain r where r: "guidance_step c u p s = Inr r"
    "gr_requested_wheel_torques r = map pi_output rs"
    "gr_next_state r = \<lparr>gs_initialized = True,
                gs_previous_lateral_displacements = mi_axle_lateral_displacements u,
                gs_previous_yaw_angles = mi_axle_yaw_angles u,
                gs_filtered_lateral_velocities = filtered_lateral_velocities c p u s,
                gs_filtered_yaw_rates = filtered_yaw_rates c p u s,
                gs_lateral_error_integrals = lateral_integrals c p u s,
                gs_filtered_wheel_speed_difference_commands =
                  map (filtered_difference_command c p u s) [0..<axle_count],
                gs_wheel_speed_pi_integrals = map (pi_integral \<circ> pi_next_state) rs,
                gs_wheel_speed_pi_filtered_torques = map (pi_filtered_output \<circ> pi_next_state) rs\<rparr>"
    using v rs(1) by (simp add: guidance_step_def Let_def)
  have cmds: "finite_array axle_count (map (filtered_difference_command c p u s) [0..<axle_count])"
    by (intro finite_array_map filtered_difference_command_finite [OF s])
  have "list_all2 (\<lambda>i f. pi_state_ok ?pi \<lparr>pi_integral = i, pi_filtered_output = f\<rparr>)
      (map (pi_integral \<circ> pi_next_state) rs) (map (pi_filtered_output \<circ> pi_next_state) rs)"
    using all by (auto simp: list_all2_map1 list_all2_map2 list_all2_same pi_state_ok_def)
  then have next_ok: "guidance_state_ok c (gr_next_state r)"
    using D(3) observed_rates_finite [OF s] lateral_integrals_bounded [OF s] cmds len r(3)
    by (simp add: guidance_state_ok_def mechanical_input_ok_def)
  show thesis
    by (rule that [OF r(1) next_ok])
       (use r len all in \<open>auto simp: list_all_iff pi_state_ok_def\<close>)
qed

subsection \<open>The frozen controller\<close>

record guidance_config =
  gc_identifier :: string
  gc_sample_period_seconds :: double
  gc_base_speed_reference :: double
  gc_curve_radius :: double
  gc_calibration_lateral_half_span :: double
  gc_speed_reference_wheel_side_signs :: vec
  gc_ramp_start_station :: double
  gc_ramp_end_station :: double
  gc_rolling_radius :: double
  gc_guidance_axle_signs :: vec
  gc_guidance_wheel_signs :: vec
  gc_feedforward_gains :: vec
  gc_yaw_rate_feedback_gains :: vec
  gc_yaw_feedback_gains :: vec
  gc_lateral_velocity_feedback_gains :: vec
  gc_lateral_displacement_feedback_gains :: vec
  gc_lateral_integral_feedback_gains :: vec
  gc_wheel_speed_difference_feedback_gains :: vec
  gc_wheel_speed_difference_reference_absolute_limit :: double
  gc_yaw_rate_filter_time_constant :: double
  gc_lateral_velocity_filter_time_constant :: double
  gc_wheel_speed_difference_outer_filter_time_constant :: double
  gc_equilibrium_yaw_angles :: vec
  gc_equilibrium_lateral_displacements :: vec
  gc_guidance_start_station :: double
  gc_guidance_end_station :: double
  gc_lateral_integral_absolute_limit :: double
  gc_wheel_speed_pi :: pi_config
  gc_wheel_speed_pi_wheel_signs :: vec

record guidance_input =
  gi_axle_lateral_displacements :: vec
  gi_axle_yaw_angles :: vec
  gi_axle_track_stations :: vec
  gi_wheel_angular_speeds :: vec

definition validate_guidance_config :: "guidance_config \<Rightarrow> unit outcome" where
  "validate_guidance_config c = all_checks
     [reject_if (gc_identifier c = []) InvalidArgument,
      reject_if (\<not> isfinite (gc_base_speed_reference c)) InvalidArgument,
      require_finite_positive (gc_curve_radius c),
      require_finite_positive (gc_calibration_lateral_half_span c),
      require_sign_array (gc_speed_reference_wheel_side_signs c),
      reject_if (\<not> isfinite (gc_ramp_start_station c) \<or> \<not> isfinite (gc_ramp_end_station c)
                 \<or> \<not> gc_ramp_start_station c < gc_ramp_end_station c) InvalidArgument,
      require_finite_array (gc_feedforward_gains c),
      require_finite_array (gc_yaw_rate_feedback_gains c),
      require_finite_array (gc_yaw_feedback_gains c),
      require_finite_array (gc_lateral_velocity_feedback_gains c),
      require_finite_array (gc_lateral_displacement_feedback_gains c),
      require_finite_array (gc_lateral_integral_feedback_gains c),
      require_finite_array (gc_wheel_speed_difference_feedback_gains c),
      require_finite_nonnegative (gc_wheel_speed_difference_reference_absolute_limit c),
      require_finite_nonnegative (gc_yaw_rate_filter_time_constant c),
      require_finite_nonnegative (gc_lateral_velocity_filter_time_constant c),
      require_finite_nonnegative (gc_wheel_speed_difference_outer_filter_time_constant c),
      require_finite_array (gc_equilibrium_yaw_angles c),
      require_finite_array (gc_equilibrium_lateral_displacements c),
      reject_if (\<not> isfinite (gc_guidance_start_station c) \<or> \<not> isfinite (gc_guidance_end_station c)
                 \<or> \<not> gc_guidance_start_station c < gc_guidance_end_station c) InvalidArgument]"

definition make_recurrence_config :: "guidance_config \<Rightarrow> guidance_recurrence_config" where
  "make_recurrence_config c =
     \<lparr>rec_sample_period_seconds = gc_sample_period_seconds c,
      rec_rolling_radius_meters = gc_rolling_radius c,
      rec_guidance_axle_signs = gc_guidance_axle_signs c,
      rec_guidance_wheel_signs = gc_guidance_wheel_signs c,
      rec_lateral_integral_absolute_limit = gc_lateral_integral_absolute_limit c,
      rec_wheel_speed_pi = gc_wheel_speed_pi c,
      rec_wheel_speed_pi_wheel_signs = gc_wheel_speed_pi_wheel_signs c\<rparr>"

definition make_guidance :: "guidance_config \<Rightarrow> guidance_config outcome" where
  "make_guidance c = bindS (make_recurrence (make_recurrence_config c)) (\<lambda>_.
                     bindS (validate_guidance_config c) (\<lambda>_. Inr c))"

definition make_mechanical_input :: "guidance_input \<Rightarrow> guidance_mechanical_input" where
  "make_mechanical_input i =
     \<lparr>mi_axle_lateral_displacements = gi_axle_lateral_displacements i,
      mi_axle_yaw_angles = gi_axle_yaw_angles i,
      mi_wheel_angular_speeds = gi_wheel_angular_speeds i\<rparr>"

definition ramp_fraction :: "guidance_config \<Rightarrow> double \<Rightarrow> double" where
  "ramp_fraction c station =
     std_clamp ((station - gc_ramp_start_station c) / (gc_ramp_end_station c - gc_ramp_start_station c)) 0 1"

definition base_reference :: "guidance_config \<Rightarrow> guidance_input \<Rightarrow> nat \<Rightarrow> double" where
  "base_reference c i wheel =
     (let fraction = ramp_fraction c (gi_axle_track_stations i ! (wheel div 2));
          straight = gc_base_speed_reference c;
          curve = gc_base_speed_reference c
                  * (gc_curve_radius c + gc_speed_reference_wheel_side_signs c ! wheel
                                         * gc_calibration_lateral_half_span c)
                  / gc_curve_radius c
      in (1 - fraction) * straight + fraction * curve)"

definition axle_guided :: "guidance_config \<Rightarrow> double \<Rightarrow> bool" where
  "axle_guided c station \<longleftrightarrow> isfinite station
     \<and> gc_guidance_start_station c \<le> station \<and> station \<le> gc_guidance_end_station c"

definition make_fixed_operating_point :: "guidance_config \<Rightarrow> guidance_input \<Rightarrow> guidance_operating_point" where
  "make_fixed_operating_point c i =
     \<lparr>op_base_wheel_speed_references = map (base_reference c i) [0..<wheel_count],
      op_feedforward_gains = gc_feedforward_gains c,
      op_yaw_rate_feedback_gains = gc_yaw_rate_feedback_gains c,
      op_yaw_feedback_gains = gc_yaw_feedback_gains c,
      op_lateral_velocity_feedback_gains = gc_lateral_velocity_feedback_gains c,
      op_lateral_displacement_feedback_gains = gc_lateral_displacement_feedback_gains c,
      op_lateral_integral_feedback_gains = gc_lateral_integral_feedback_gains c,
      op_wheel_speed_difference_feedback_gains = gc_wheel_speed_difference_feedback_gains c,
      op_yaw_rate_filter_time_constants = replicate axle_count (gc_yaw_rate_filter_time_constant c),
      op_lateral_velocity_filter_time_constants = replicate axle_count (gc_lateral_velocity_filter_time_constant c),
      op_wheel_speed_difference_outer_filter_time_constants =
        replicate axle_count (gc_wheel_speed_difference_outer_filter_time_constant c),
      op_wheel_speed_difference_reference_absolute_limits =
        replicate axle_count (gc_wheel_speed_difference_reference_absolute_limit c),
      op_equilibrium_yaw_angles = gc_equilibrium_yaw_angles c,
      op_equilibrium_lateral_displacements = gc_equilibrium_lateral_displacements c,
      op_guidance_active = map (\<lambda>a. axle_guided c (gi_axle_track_stations i ! a)) [0..<axle_count]\<rparr>"

definition guidance_controller_step :: "guidance_config \<Rightarrow> guidance_input \<Rightarrow> guidance_state \<Rightarrow> guidance_result outcome" where
  "guidance_controller_step c i s =
     guidance_step (make_recurrence_config c) (make_mechanical_input i) (make_fixed_operating_point c i) s"

text \<open>A run that commits the memory of every accepted sample.\<close>

fun guidance_run :: "guidance_config \<Rightarrow> guidance_input list \<Rightarrow> guidance_state \<Rightarrow> (vec list \<times> guidance_state) outcome" where
  "guidance_run c [] s = Inr ([], s)"
| "guidance_run c (i # is) s =
     bindS (guidance_controller_step c i s) (\<lambda>r.
     bindS (guidance_run c is (gr_next_state r)) (\<lambda>(torques, t).
     Inr (gr_requested_wheel_torques r # torques, t)))"

subsection \<open>Accepted controllers\<close>

definition guidance_config_ok :: "guidance_config \<Rightarrow> bool" where
  "guidance_config_ok c \<longleftrightarrow> make_guidance c = Inr c
     \<and> (\<forall>xs \<in> {gc_guidance_axle_signs c, gc_feedforward_gains c, gc_yaw_rate_feedback_gains c,
          gc_yaw_feedback_gains c, gc_lateral_velocity_feedback_gains c,
          gc_lateral_displacement_feedback_gains c, gc_lateral_integral_feedback_gains c,
          gc_wheel_speed_difference_feedback_gains c, gc_equilibrium_yaw_angles c,
          gc_equilibrium_lateral_displacements c}. length xs = axle_count)
     \<and> (\<forall>xs \<in> {gc_speed_reference_wheel_side_signs c, gc_guidance_wheel_signs c,
          gc_wheel_speed_pi_wheel_signs c}. length xs = wheel_count)"

definition guidance_input_ok :: "guidance_input \<Rightarrow> bool" where
  "guidance_input_ok i \<longleftrightarrow> mechanical_input_ok (make_mechanical_input i)
     \<and> finite_array axle_count (gi_axle_track_stations i)"

lemma guidance_config_okD:
  assumes "guidance_config_ok c"
  shows "recurrence_config_ok (make_recurrence_config c)" "validate_guidance_config c = Inr ()"
  using assms
  by (auto simp: guidance_config_ok_def make_guidance_def bindS_eq_Inr recurrence_config_ok_def
      make_recurrence_def make_recurrence_config_def)

lemma guidance_config_stations:
  assumes "guidance_config_ok c"
  obtains a b where "gc_ramp_start_station c = Fin a" "gc_ramp_end_station c = Fin b" "a < b"
  using guidance_config_okD(2) [OF assms] by (auto simp: validate_guidance_config_def isfinite_iff)

lemma ramp_fraction_unit:
  assumes "guidance_config_ok c" "isfinite x"
  shows "\<exists>f. ramp_fraction c x = Fin f \<and> 0 \<le> f \<and> f \<le> 1"
  using assms by (auto simp: ramp_fraction_def isfinite_iff elim!: guidance_config_stations)

lemma base_reference_finite:
  assumes c: "guidance_config_ok c" and i: "guidance_input_ok i" and w: "w < wheel_count"
  shows "isfinite (base_reference c i w)"
proof -
  have a: "w div 2 < axle_count" using w by (simp add: wheel_count_def axle_count_def)
  then have "isfinite (gi_axle_track_stations i ! (w div 2))"
    using i by (auto simp: guidance_input_ok_def intro: finite_array_nth)
  then obtain f where f: "ramp_fraction c (gi_axle_track_stations i ! (w div 2)) = Fin f"
    using ramp_fraction_unit [OF c] by blast
  note v = guidance_config_okD(2) [OF c]
  have sw: "isfinite (gc_speed_reference_wheel_side_signs c ! w)"
    using v c w by (auto simp: validate_guidance_config_def guidance_config_ok_def isfinite_iff)
  have "isfinite (gc_base_speed_reference c)" "isfinite (gc_curve_radius c)" "0 < gc_curve_radius c"
    "isfinite (gc_calibration_lateral_half_span c)"
    using v by (auto simp: validate_guidance_config_def)
  then show ?thesis
    using f sw by (auto simp: base_reference_def Let_def intro!: finite_divide_pos)
qed

lemma fixed_operating_point_ok:
  assumes c: "guidance_config_ok c" and i: "guidance_input_ok i"
  shows "operating_point_ok (make_fixed_operating_point c i)"
proof -
  have b: "finite_array wheel_count (map (base_reference c i) [0..<wheel_count])"
    by (intro finite_array_map base_reference_finite [OF c i])
  have "operating_point_sized (make_fixed_operating_point c i)"
    using c by (simp add: operating_point_sized_def make_fixed_operating_point_def guidance_config_ok_def)
  moreover have "validate_operating_point (make_fixed_operating_point c i) = Inr ()"
    using guidance_config_okD(2) [OF c] b
    by (simp add: validate_operating_point_def validate_guidance_config_def make_fixed_operating_point_def
        finite_array_def)
  ultimately show ?thesis by (simp add: operating_point_ok_def)
qed

abbreviation controller_state_ok :: "guidance_config \<Rightarrow> guidance_state \<Rightarrow> bool" where
  "controller_state_ok c s \<equiv> guidance_state_ok (make_recurrence_config c) s"

lemma controller_sample_acceptable:
  assumes "guidance_config_ok c" "guidance_input_ok i" "controller_state_ok c s"
  shows "acceptable_sample (make_recurrence_config c) (make_mechanical_input i) (make_fixed_operating_point c i) s"
  using assms guidance_config_okD(1) fixed_operating_point_ok
  by (simp add: acceptable_sample_def guidance_input_ok_def)

lemma guidance_controller_step_ok:
  assumes "guidance_config_ok c" "guidance_input_ok i" "controller_state_ok c s"
  obtains r where "guidance_controller_step c i s = Inr r" "controller_state_ok c (gr_next_state r)"
    "length (gr_requested_wheel_torques r) = wheel_count"
    "list_all (bounded_by (raw_output_absolute_limit (gc_wheel_speed_pi c))) (gr_requested_wheel_torques r)"
proof -
  have pi: "rec_wheel_speed_pi (make_recurrence_config c) = gc_wheel_speed_pi c"
    by (simp add: make_recurrence_config_def)
  show thesis
    using guidance_step_ok [OF controller_sample_acceptable [OF assms]] that
    unfolding guidance_controller_step_def pi by metis
qed

lemma initial_guidance_state_ok:
  assumes "guidance_config_ok c"
  shows "controller_state_ok c initial_guidance_state"
proof -
  note R = recurrence_config_okD [OF guidance_config_okD(1) [OF assms]]
  have pi: "pi_state_ok (rec_wheel_speed_pi (make_recurrence_config c))
      \<lparr>pi_integral = 0, pi_filtered_output = 0\<rparr>"
    using initial_pi_state_ok [OF R(1)] by (simp add: initial_pi_state_def)
  have "bounded_by (rec_lateral_integral_absolute_limit (make_recurrence_config c)) 0"
    using R(6,7) by (auto simp: isfinite_iff)
  then show ?thesis
    using pi by (simp add: guidance_state_ok_def initial_guidance_state_def finite_array_def list_all_iff
        list_all2_conv_all_nth)
qed

lemma guidance_run_ok:
  assumes c: "guidance_config_ok c"
  shows "list_all guidance_input_ok is \<Longrightarrow> controller_state_ok c s \<Longrightarrow>
    \<exists>torques t. guidance_run c is s = Inr (torques, t) \<and> controller_state_ok c t \<and> length torques = length is
      \<and> (\<forall>ts \<in> set torques. length ts = wheel_count
           \<and> list_all (bounded_by (raw_output_absolute_limit (gc_wheel_speed_pi c))) ts)"
proof (induction "is" arbitrary: s)
  case Nil
  then show ?case by simp
next
  case (Cons i "is")
  have "guidance_input_ok i" using Cons.prems by simp
  from guidance_controller_step_ok [OF c this Cons.prems(2)]
  obtain r where r: "guidance_controller_step c i s = Inr r" "controller_state_ok c (gr_next_state r)"
      "length (gr_requested_wheel_torques r) = wheel_count"
      "list_all (bounded_by (raw_output_absolute_limit (gc_wheel_speed_pi c))) (gr_requested_wheel_torques r)"
    by blast
  have "list_all guidance_input_ok is" using Cons.prems by simp
  from Cons.IH [OF this r(2)] obtain torques t where
    "guidance_run c is (gr_next_state r) = Inr (torques, t)" "controller_state_ok c t"
    "length torques = length is"
    "\<forall>ts \<in> set torques. length ts = wheel_count
       \<and> list_all (bounded_by (raw_output_absolute_limit (gc_wheel_speed_pi c))) ts"
    by blast
  with r show ?case by auto
qed

lemma guidance_step_fields:
  assumes "guidance_step c u p s = Inr r"
  shows "ob_wheel_speed_difference_references (gr_observations r) = map (difference_reference c p u s) [0..<axle_count]"
    "ob_wheel_speed_references (gr_observations r)
       = wheel_speed_references c p (ob_wheel_speed_difference_references (gr_observations r))"
    "ob_base_wheel_speed_references (gr_observations r) = op_base_wheel_speed_references p"
    "gs_lateral_error_integrals (gr_next_state r) = lateral_integrals c p u s"
    "gs_filtered_wheel_speed_difference_commands (gr_next_state r)
       = map (filtered_difference_command c p u s) [0..<axle_count]"
  using assms by (auto simp: guidance_step_def bindS_eq_Inr Let_def)

lemma axle_values:
  assumes s: "acceptable_sample c u p s" and a: "a < axle_count"
  obtains R x y d where "rec_rolling_radius_meters c = Fin R" "difference_reference c p u s a = Fin d"
    "op_base_wheel_speed_references p ! (2 * a) = Fin x" "op_base_wheel_speed_references p ! Suc (2 * a) = Fin y"
  using sample_constants(3) [OF s] sample_wheel(4) [OF s axle_wheels(1) [OF a]]
    sample_wheel(4) [OF s axle_wheels(2) [OF a]] within_isfinite [OF difference_reference_bounded [OF s a]]
  by (auto simp: isfinite_iff)

lemma guidance_step_unguided:
  assumes r: "guidance_step c u p s = Inr r" and s: "acceptable_sample c u p s"
    and a: "a < axle_count" and off: "\<not> op_guidance_active p ! a"
  shows "ob_wheel_speed_references (gr_observations r) ! (2 * a) = op_base_wheel_speed_references p ! (2 * a)"
    "ob_wheel_speed_references (gr_observations r) ! Suc (2 * a) = op_base_wheel_speed_references p ! Suc (2 * a)"
    "gs_lateral_error_integrals (gr_next_state r) ! a = 0"
    "gs_filtered_wheel_speed_difference_commands (gr_next_state r) ! a = 0"
proof -
  note F = guidance_step_fields [OF r]
  obtain R x y where fin: "rec_rolling_radius_meters c = Fin R"
      "op_base_wheel_speed_references p ! (2 * a) = Fin x" "op_base_wheel_speed_references p ! Suc (2 * a) = Fin y"
    using axle_values [OF s a] by metis
  show "ob_wheel_speed_references (gr_observations r) ! (2 * a) = op_base_wheel_speed_references p ! (2 * a)"
    "ob_wheel_speed_references (gr_observations r) ! Suc (2 * a) = op_base_wheel_speed_references p ! Suc (2 * a)"
    using a off fin by (simp_all add: F wheel_speed_references_nth difference_reference_def)
  show "gs_lateral_error_integrals (gr_next_state r) ! a = 0"
    "gs_filtered_wheel_speed_difference_commands (gr_next_state r) ! a = 0"
    using a off by (simp_all add: F lateral_integrals_def filtered_difference_command_def Let_def)
qed

lemma guidance_step_common_speed:
  assumes r: "guidance_step c u p s = Inr r" and s: "acceptable_sample c u p s" and a: "a < axle_count"
  shows "ob_wheel_speed_references (gr_observations r) ! (2 * a)
       + ob_wheel_speed_references (gr_observations r) ! Suc (2 * a)
     = op_base_wheel_speed_references p ! (2 * a) + op_base_wheel_speed_references p ! Suc (2 * a)"
proof -
  note F = guidance_step_fields [OF r]
  obtain R x y d where "rec_rolling_radius_meters c = Fin R" "difference_reference c p u s a = Fin d"
      "op_base_wheel_speed_references p ! (2 * a) = Fin x" "op_base_wheel_speed_references p ! Suc (2 * a) = Fin y"
    using axle_values [OF s a] by metis
  then show ?thesis
    using a by (simp add: F wheel_speed_references_nth)
qed

subsection \<open>The reference ramp\<close>

lemma base_reference_ramp:
  assumes c: "guidance_config_ok c" and x: "gi_axle_track_stations i ! (w div 2) = x" "isfinite x"
  shows "x \<le> gc_ramp_start_station c \<Longrightarrow> w < wheel_count \<Longrightarrow> base_reference c i w = gc_base_speed_reference c"
    "gc_ramp_end_station c \<le> x \<Longrightarrow> w < wheel_count \<Longrightarrow> base_reference c i w
       = gc_base_speed_reference c * (gc_curve_radius c + gc_speed_reference_wheel_side_signs c ! w
           * gc_calibration_lateral_half_span c) / gc_curve_radius c"
proof -
  note v = guidance_config_okD(2) [OF c]
  obtain a b y where ab: "gc_ramp_start_station c = Fin a" "gc_ramp_end_station c = Fin b" "a < b" "x = Fin y"
    using guidance_config_stations [OF c] x(2) isfinite_iff by metis
  obtain V R h where fin: "gc_base_speed_reference c = Fin V" "gc_curve_radius c = Fin R" "R > 0"
      "gc_calibration_lateral_half_span c = Fin h"
    using v by (auto simp: validate_guidance_config_def isfinite_iff)
  have sg: "isfinite (gc_speed_reference_wheel_side_signs c ! w)" if "w < wheel_count"
    using v c that by (auto simp: validate_guidance_config_def guidance_config_ok_def isfinite_iff)
  have "ramp_fraction c x = Fin 0" if "y \<le> a"
    using that ab by (simp add: ramp_fraction_def divide_nonpos_pos)
  moreover have "ramp_fraction c x = Fin 1" if "b \<le> y"
    using that ab by (simp add: ramp_fraction_def)
  ultimately show "x \<le> gc_ramp_start_station c \<Longrightarrow> w < wheel_count \<Longrightarrow> base_reference c i w = gc_base_speed_reference c"
    "gc_ramp_end_station c \<le> x \<Longrightarrow> w < wheel_count \<Longrightarrow> base_reference c i w
       = gc_base_speed_reference c * (gc_curve_radius c + gc_speed_reference_wheel_side_signs c ! w
           * gc_calibration_lateral_half_span c) / gc_curve_radius c"
    using x ab fin sg by (auto simp: base_reference_def Let_def isfinite_iff)
qed

subsection \<open>Properties\<close>

definition sample_guidance_config :: guidance_config where
  "sample_guidance_config =
     \<lparr>gc_identifier = ''irw'', gc_sample_period_seconds = Fin (1 / 100),
      gc_base_speed_reference = Fin 16, gc_curve_radius = Fin 300,
      gc_calibration_lateral_half_span = Fin (3 / 4),
      gc_speed_reference_wheel_side_signs = concat (replicate 4 [Fin (- 1), Fin 1]),
      gc_ramp_start_station = Fin 50, gc_ramp_end_station = Fin 100, gc_rolling_radius = Fin (2 / 5),
      gc_guidance_axle_signs = replicate 4 (Fin 1), gc_guidance_wheel_signs = replicate 8 (Fin (- 1)),
      gc_feedforward_gains = replicate 4 (Fin 1), gc_yaw_rate_feedback_gains = replicate 4 (Fin 2),
      gc_yaw_feedback_gains = replicate 4 (Fin 3), gc_lateral_velocity_feedback_gains = replicate 4 (Fin 4),
      gc_lateral_displacement_feedback_gains = replicate 4 (Fin 5),
      gc_lateral_integral_feedback_gains = replicate 4 (Fin 6),
      gc_wheel_speed_difference_feedback_gains = replicate 4 (Fin 7),
      gc_wheel_speed_difference_reference_absolute_limit = Fin 2,
      gc_yaw_rate_filter_time_constant = Fin (1 / 10), gc_lateral_velocity_filter_time_constant = Fin 0,
      gc_wheel_speed_difference_outer_filter_time_constant = Fin (1 / 20),
      gc_equilibrium_yaw_angles = replicate 4 (Fin 0), gc_equilibrium_lateral_displacements = replicate 4 (Fin 0),
      gc_guidance_start_station = Fin 60, gc_guidance_end_station = Fin 500,
      gc_lateral_integral_absolute_limit = Fin 1, gc_wheel_speed_pi = sample_pi_config,
      gc_wheel_speed_pi_wheel_signs = replicate 8 (Fin (- 1))\<rparr>"

definition sample_guidance_input :: guidance_input where
  "sample_guidance_input =
     \<lparr>gi_axle_lateral_displacements = [Fin (1 / 100), Fin 0, Fin 0, Fin (- 1 / 100)],
      gi_axle_yaw_angles = replicate 4 (Fin 0), gi_axle_track_stations = [Fin 70, Fin 65, Fin 55, Fin 10],
      gi_wheel_angular_speeds = replicate 8 (Fin (- 40))\<rparr>"

lemma sample_guidance_config_ok: "guidance_config_ok sample_guidance_config"
  using sample_pi_config_ok
  by (simp add: guidance_config_ok_def make_guidance_def bindS_eq_Inr make_recurrence_def make_pi_Inr
      validate_recurrence_config_def make_recurrence_config_def validate_guidance_config_def
      sample_guidance_config_def axle_count_def wheel_count_def numeral_eq_Suc)

lemma sample_guidance_input_ok: "guidance_input_ok sample_guidance_input"
  by (simp add: guidance_input_ok_def mechanical_input_ok_def make_mechanical_input_def
      sample_guidance_input_def finite_array_def axle_count_def wheel_count_def)

text \<open>C32: An accepted guidance controller never fails on finite observations: from its
  initial memory, and from any memory it can have left, a run over any sequence of
  finite inputs returns eight torques per sample, every torque is within the raw
  output limit of the wheel PI, and the memory it leaves is again finite with every
  integral within its limit.\<close>
theorem guidance_run_bounded:
  assumes "guidance_config_ok c" "list_all guidance_input_ok is"
    and "s = initial_guidance_state \<or> controller_state_ok c s"
  shows "\<exists>torques t. guidance_run c is s = Inr (torques, t) \<and> controller_state_ok c t \<and> length torques = length is
      \<and> (\<forall>ts \<in> set torques. length ts = wheel_count
           \<and> list_all (bounded_by (raw_output_absolute_limit (gc_wheel_speed_pi c))) ts)"
  using guidance_run_ok [OF assms(1,2)] initial_guidance_state_ok [OF assms(1)] assms(3) by blast

theorem guidance_run_bounded_witness:
  "\<exists>torques t. guidance_run sample_guidance_config [sample_guidance_input, sample_guidance_input]
       initial_guidance_state = Inr (torques, t) \<and> controller_state_ok sample_guidance_config t
     \<and> length torques = 2"
  using guidance_run_bounded [of sample_guidance_config "[sample_guidance_input, sample_guidance_input]"
      initial_guidance_state] sample_guidance_config_ok sample_guidance_input_ok
  by auto

text \<open>C33: What one accepted guidance sample does to an axle.  Guidance only splits the two
  wheels of an axle: the sum of their speed references is the sum of the base
  references, and the difference reference is within the configured limit.  An axle
  whose track station is outside the guidance interval gets its base references
  unchanged, and its lateral integral and filtered command are cleared, so that
  guidance resumes from zero.\<close>
theorem guidance_sample_axle:
  assumes "guidance_config_ok c" "guidance_input_ok i" "controller_state_ok c s"
    and "guidance_controller_step c i s = Inr r" and "a < axle_count"
  shows "ob_wheel_speed_references (gr_observations r) ! (2 * a)
           + ob_wheel_speed_references (gr_observations r) ! Suc (2 * a)
         = base_reference c i (2 * a) + base_reference c i (Suc (2 * a))
     \<and> bounded_by (gc_wheel_speed_difference_reference_absolute_limit c)
         (ob_wheel_speed_difference_references (gr_observations r) ! a)
     \<and> (\<not> axle_guided c (gi_axle_track_stations i ! a) \<longrightarrow>
          ob_wheel_speed_references (gr_observations r) ! (2 * a) = base_reference c i (2 * a)
          \<and> ob_wheel_speed_references (gr_observations r) ! Suc (2 * a) = base_reference c i (Suc (2 * a))
          \<and> gs_lateral_error_integrals (gr_next_state r) ! a = 0
          \<and> gs_filtered_wheel_speed_difference_commands (gr_next_state r) ! a = 0)"
proof -
  let ?p = "make_fixed_operating_point c i" and ?u = "make_mechanical_input i"
  note S = controller_sample_acceptable [OF assms(1-3)]
  note r = assms(4) [unfolded guidance_controller_step_def]
  have base: "op_base_wheel_speed_references ?p ! (2 * a) = base_reference c i (2 * a)"
    "op_base_wheel_speed_references ?p ! Suc (2 * a) = base_reference c i (Suc (2 * a))"
    "op_wheel_speed_difference_reference_absolute_limits ?p ! a
       = gc_wheel_speed_difference_reference_absolute_limit c"
    "op_guidance_active ?p ! a = axle_guided c (gi_axle_track_stations i ! a)"
    using axle_wheels [OF assms(5)] assms(5) by (simp_all add: make_fixed_operating_point_def)
  show ?thesis
    using guidance_step_common_speed [OF r S assms(5)] difference_reference_bounded [OF S assms(5)]
      guidance_step_unguided [OF r S assms(5)] guidance_step_fields(1) [OF r] assms(5)
    by (simp add: base)
qed

theorem guidance_sample_axle_witness:
  "\<exists>r. guidance_controller_step sample_guidance_config sample_guidance_input initial_guidance_state = Inr r
     \<and> ob_wheel_speed_references (gr_observations r) ! 6 = base_reference sample_guidance_config sample_guidance_input 6
     \<and> gs_lateral_error_integrals (gr_next_state r) ! 3 = 0"
proof -
  note ok = sample_guidance_config_ok sample_guidance_input_ok initial_guidance_state_ok [OF sample_guidance_config_ok]
  obtain r where r: "guidance_controller_step sample_guidance_config sample_guidance_input initial_guidance_state = Inr r"
    using guidance_controller_step_ok [OF ok] by blast
  have "\<not> axle_guided sample_guidance_config (gi_axle_track_stations sample_guidance_input ! 3)"
    by (simp add: axle_guided_def sample_guidance_config_def sample_guidance_input_def)
  then show ?thesis
    using guidance_sample_axle [OF ok r, of 3] r by (simp add: axle_count_def)
qed

end
