(* ===== verification/Drive_Torque.thy ===== *)
theory Drive_Torque
  imports Wheel_Speed_Guidance Spatial_Math
begin

section \<open>Wheel-drive torque conditioning\<close>

text \<open>
  \<open>libs/actuation/src/wheel_drive_torque_command_conditioner.cc\<close>: eight independent
  channels turn a requested wheel torque, a wheel speed and the drive-side torque of
  the previous event into the torque the drive delivers.  A positive signed
  drive-side torque is traction, a negative one regeneration.  \<open>std::numbers::pi\<close> is
  its binary64 value, \<open>std::lower_bound\<close> its specification on a sorted range, the
  flags are the 16-bit words of the enumeration.

  The lemmas show that one sample moves the torque towards its target exactly as far
  as the rates allow, that a zero crossing shares one sample period between the two
  half-axes, and that the delivered torque stays within the largest dynamic limit.
\<close>

unbundle bit_operations_syntax

definition drive_channel_count :: nat where "drive_channel_count = 8"
definition speed_node_count :: nat where "speed_node_count = 10"

subsection \<open>Flags\<close>

type_synonym limit_flags = "16 word"

definition flag_none :: limit_flags where "flag_none = 0"
definition flag_magnitude_limited :: limit_flags where "flag_magnitude_limited = 1"
definition flag_slew_limited :: limit_flags where "flag_slew_limited = 2"
definition flag_unsupported_high_speed :: limit_flags where "flag_unsupported_high_speed = 8"
definition flag_low_speed_lookup_clamped :: limit_flags where "flag_low_speed_lookup_clamped = 16"
definition flag_dynamic_value_advisory :: limit_flags where "flag_dynamic_value_advisory = 64"

lemmas flag_defs = flag_none_def flag_magnitude_limited_def flag_slew_limited_def
  flag_unsupported_high_speed_def flag_low_speed_lookup_clamped_def flag_dynamic_value_advisory_def

definition has_flag :: "limit_flags \<Rightarrow> limit_flags \<Rightarrow> bool" where
  "has_flag v f \<longleftrightarrow> v AND f \<noteq> 0"

definition add_flag_if :: "bool \<Rightarrow> limit_flags \<Rightarrow> limit_flags \<Rightarrow> limit_flags" where
  "add_flag_if b f v = (if b then v OR f else v)"

subsection \<open>Parameters\<close>

record direction_table =
  dynamic_limits :: "double option list"
  increase_rates :: vec
  decrease_rates :: vec
  dynamic_advisories :: "bool list"

record conditioner_config =
  cc_identifier :: string
  cc_sample_period_seconds :: double
  cc_drive_ratio :: double
  cc_drive_efficiency :: double
  cc_request_deadband :: double
  cc_speed_direction_threshold :: double
  cc_forward_wheel_speed_sign :: double
  cc_drive_speed_nodes :: vec
  cc_traction :: direction_table
  cc_regeneration :: direction_table

record conditioning_result =
  actual_wheel_torques :: vec
  wheel_dynamic_torque_limits :: vec
  conditioning_flags :: "limit_flags list"
  equivalent_drive_side_speeds :: vec
  next_drive_side_memory :: vec

definition validate_direction_table :: "direction_table \<Rightarrow> unit outcome" where
  "validate_direction_table t = all_checks (concat (map (\<lambda>k.
     [reject_if (case dynamic_limits t ! k of None \<Rightarrow> False | Some l \<Rightarrow> \<not> isfinite l \<or> l < 0) InvalidArgument,
      reject_if (\<not> isfinite (increase_rates t ! k) \<or> increase_rates t ! k < 0
                 \<or> \<not> isfinite (decrease_rates t ! k) \<or> decrease_rates t ! k < 0) InvalidArgument])
     [0..<speed_node_count]))"

definition validate_speed_nodes :: "vec \<Rightarrow> unit outcome" where
  "validate_speed_nodes nodes = all_checks (concat (map (\<lambda>k.
     [reject_if (\<not> isfinite (nodes ! k) \<or> \<not> 0 < nodes ! k) InvalidArgument,
      reject_if (0 < k \<and> \<not> nodes ! (k - 1) < nodes ! k) InvalidArgument]) [0..<speed_node_count]))"

definition validate_conditioner_config :: "conditioner_config \<Rightarrow> unit outcome" where
  "validate_conditioner_config c = all_checks
     [reject_if (cc_identifier c = []) InvalidArgument,
      require_finite_positive (cc_sample_period_seconds c),
      require_finite_positive (cc_drive_ratio c),
      require_finite_positive (cc_drive_efficiency c),
      require_finite_positive (cc_request_deadband c),
      require_finite_positive (cc_speed_direction_threshold c),
      reject_if (\<not> isfinite (cc_forward_wheel_speed_sign c)
                 \<or> \<not> feq (cc_forward_wheel_speed_sign c) (- 1) \<and> \<not> feq (cc_forward_wheel_speed_sign c) 1)
        InvalidArgument,
      validate_speed_nodes (cc_drive_speed_nodes c),
      validate_direction_table (cc_traction c),
      validate_direction_table (cc_regeneration c)]"

definition make_conditioner :: "conditioner_config \<Rightarrow> conditioner_config outcome" where
  "make_conditioner c = bindS (validate_conditioner_config c) (\<lambda>_. Inr c)"

subsection \<open>Direction and sign\<close>

definition direction_code :: "conditioner_config \<Rightarrow> double \<Rightarrow> double \<Rightarrow> int" where
  "direction_code c torque speed =
     (if \<bar>torque\<bar> \<le> cc_request_deadband c then 0
      else if cc_speed_direction_threshold c < \<bar>speed\<bar> \<and> 0 < torque * speed then 1
      else if cc_speed_direction_threshold c < \<bar>speed\<bar> \<and> torque * speed < 0 then -1
      else if 0 < torque * cc_forward_wheel_speed_sign c then 1 else -1)"

definition effective_speed_sign :: "conditioner_config \<Rightarrow> double \<Rightarrow> double" where
  "effective_speed_sign c speed =
     (if cc_speed_direction_threshold c < \<bar>speed\<bar> then (if signbit speed then - 1 else 1)
      else cc_forward_wheel_speed_sign c)"

definition wheel_torque_sign :: "int \<Rightarrow> double \<Rightarrow> double" where
  "wheel_torque_sign code effective = (if 0 < code then effective else if code < 0 then - effective else 0)"

definition drive_side_to_wheel_torque :: "conditioner_config \<Rightarrow> double \<Rightarrow> double \<Rightarrow> double" where
  "drive_side_to_wheel_torque c torque effective =
     (if \<bar>torque\<bar> \<le> 0 then 0
      else wheel_torque_sign (if 0 < torque then 1 else -1) effective
           * \<bar>torque\<bar> * cc_drive_ratio c * cc_drive_efficiency c)"

subsection \<open>Interpolated rows\<close>

record direction_row =
  row_dynamic_limit :: double
  row_increase_rate :: double
  row_decrease_rate :: double
  row_dynamic_advisory :: bool

definition interpolate :: "double \<Rightarrow> double \<Rightarrow> double \<Rightarrow> double" where
  "interpolate low high fraction =
     (if feq low high then low else (1 - fraction) * low + fraction * high)"

definition value_or :: "double option \<Rightarrow> double \<Rightarrow> double" where
  "value_or v d = (case v of None \<Rightarrow> d | Some x \<Rightarrow> x)"

definition interpolate_row :: "direction_table \<Rightarrow> nat \<Rightarrow> nat \<Rightarrow> double \<Rightarrow> direction_row" where
  "interpolate_row t low high fraction =
     \<lparr>row_dynamic_limit = interpolate (value_or (dynamic_limits t ! low) 0) (value_or (dynamic_limits t ! high) 0) fraction,
      row_increase_rate = interpolate (increase_rates t ! low) (increase_rates t ! high) fraction,
      row_decrease_rate = interpolate (decrease_rates t ! low) (decrease_rates t ! high) fraction,
      row_dynamic_advisory = (dynamic_advisories t ! low \<or> dynamic_advisories t ! high
        \<or> dynamic_limits t ! low = None \<or> dynamic_limits t ! high = None)\<rparr>"

text \<open>\<open>std::lower_bound\<close> on a sorted range: the first entry that is not less.\<close>

definition lower_bound :: "vec \<Rightarrow> double \<Rightarrow> nat" where
  "lower_bound xs q = length (takeWhile (\<lambda>x. x < q) xs)"

definition speed_bracket :: "vec \<Rightarrow> double \<Rightarrow> nat \<times> nat \<times> double" where
  "speed_bracket speeds q =
     (if q \<le> hd speeds then (0, 0, 0)
      else if last speeds \<le> q then (length speeds - 1, length speeds - 1, 0)
      else let high = lower_bound speeds q; low = high - 1
           in (low, high, (q - speeds ! low) / (speeds ! high - speeds ! low)))"

record speed_slice =
  slice_traction :: direction_row
  slice_regeneration :: direction_row

definition interpolate_slice :: "conditioner_config \<Rightarrow> double \<Rightarrow> speed_slice" where
  "interpolate_slice c q =
     (case speed_bracket (cc_drive_speed_nodes c) q of (low, high, fraction) \<Rightarrow>
        \<lparr>slice_traction = interpolate_row (cc_traction c) low high fraction,
         slice_regeneration = interpolate_row (cc_regeneration c) low high fraction\<rparr>)"

definition slice_row :: "speed_slice \<Rightarrow> int \<Rightarrow> direction_row" where
  "slice_row sl code = (if 0 < code then slice_traction sl else slice_regeneration sl)"

subsection \<open>One signed torque advance\<close>

definition sign_code :: "double \<Rightarrow> int" where
  "sign_code v = (if 0 < v then 1 else if v < 0 then -1 else 0)"

definition code_value :: "int \<Rightarrow> double" where
  "code_value k = Fin (of_int k)"

definition advance_signed_torque :: "double \<Rightarrow> double \<Rightarrow> speed_slice \<Rightarrow> double \<Rightarrow> double \<times> bool" where
  "advance_signed_torque previous target sl dt =
     (if feq previous target then (if feq target 0 then 0 else target, False)
      else let previous_direction = sign_code previous; target_direction = sign_code target;
               previous_magnitude = \<bar>previous\<bar>; target_magnitude = \<bar>target\<bar>
           in if previous_direction = 0 then
                (let maximum_magnitude = row_increase_rate (slice_row sl target_direction) * dt
                 in if target_magnitude \<le> maximum_magnitude then (target, False)
                    else if maximum_magnitude \<le> 0 then (0, True)
                    else (code_value target_direction * maximum_magnitude, True))
              else if target_direction = 0 then
                (let maximum_decrease = row_decrease_rate (slice_row sl previous_direction) * dt
                 in if previous_magnitude \<le> maximum_decrease then (0, False)
                    else (code_value previous_direction * (previous_magnitude - maximum_decrease), True))
              else if previous_direction = target_direction then
                (let magnitude_delta = target_magnitude - previous_magnitude;
                     row = slice_row sl target_direction;
                     rate = (if 0 \<le> magnitude_delta then row_increase_rate row else row_decrease_rate row);
                     maximum_delta = rate * dt
                 in if \<bar>magnitude_delta\<bar> \<le> maximum_delta then (target, False)
                    else (code_value target_direction
                            * (previous_magnitude + std_clamp magnitude_delta (- maximum_delta) maximum_delta), True))
              else
                (let decrease_rate = row_decrease_rate (slice_row sl previous_direction)
                 in if decrease_rate \<le> 0 then (previous, True)
                    else let maximum_decrease = decrease_rate * dt
                         in if maximum_decrease \<le> previous_magnitude then
                              (let remaining = std_max 0 (previous_magnitude - maximum_decrease)
                               in (if 0 < remaining then code_value previous_direction * remaining else 0, True))
                            else
                              (let time_to_zero = previous_magnitude / decrease_rate;
                                   remaining_time = std_max 0 (dt - time_to_zero);
                                   maximum_new = row_increase_rate (slice_row sl target_direction) * remaining_time
                               in if target_magnitude \<le> maximum_new then (target, False)
                                  else if maximum_new \<le> 0 then (0, True)
                                  else (code_value target_direction * maximum_new, True))))"

subsection \<open>One channel and the step\<close>

record channel_result =
  ch_actual_torque :: double
  ch_dynamic_limit :: double
  ch_flags :: limit_flags
  ch_drive_speed :: double
  ch_memory :: double

definition drive_speed :: "conditioner_config \<Rightarrow> double \<Rightarrow> double" where
  "drive_speed c wheel_speed = \<bar>wheel_speed\<bar> * cc_drive_ratio c * 60 / (2 * numbers_pi)"

definition channel_slice :: "conditioner_config \<Rightarrow> double \<Rightarrow> speed_slice" where
  "channel_slice c wheel_speed =
     interpolate_slice c (std_clamp (drive_speed c wheel_speed) (hd (cc_drive_speed_nodes c)) (last (cc_drive_speed_nodes c)))"

definition unsupported_speed :: "conditioner_config \<Rightarrow> double \<Rightarrow> bool" where
  "unsupported_speed c wheel_speed \<longleftrightarrow> last (cc_drive_speed_nodes c) < drive_speed c wheel_speed"

definition requested_magnitude :: "conditioner_config \<Rightarrow> double \<Rightarrow> double" where
  "requested_magnitude c torque = \<bar>torque\<bar> / (cc_drive_ratio c * cc_drive_efficiency c)"

definition has_target :: "conditioner_config \<Rightarrow> double \<Rightarrow> double \<Rightarrow> bool" where
  "has_target c torque wheel_speed \<longleftrightarrow> direction_code c torque wheel_speed \<noteq> 0 \<and> \<not> unsupported_speed c wheel_speed"

definition target_row :: "conditioner_config \<Rightarrow> double \<Rightarrow> double \<Rightarrow> direction_row" where
  "target_row c torque wheel_speed = slice_row (channel_slice c wheel_speed) (direction_code c torque wheel_speed)"

definition signed_target :: "conditioner_config \<Rightarrow> double \<Rightarrow> double \<Rightarrow> double" where
  "signed_target c torque wheel_speed =
     (if has_target c torque wheel_speed
      then let magnitude = std_min (requested_magnitude c torque) (row_dynamic_limit (target_row c torque wheel_speed))
           in if 0 < magnitude then code_value (direction_code c torque wheel_speed) * magnitude else 0
      else 0)"

definition condition_channel :: "conditioner_config \<Rightarrow> double \<Rightarrow> double \<Rightarrow> double \<Rightarrow> channel_result" where
  "condition_channel c torque wheel_speed previous =
     (let code = direction_code c torque wheel_speed;
          speed = drive_speed c wheel_speed;
          active = (code \<noteq> 0 \<or> \<not> feq previous 0);
          unsupported = unsupported_speed c wheel_speed;
          flags1 = (if active \<and> unsupported
                    then (flag_none OR flag_unsupported_high_speed) OR flag_dynamic_value_advisory
                    else add_flag_if (active \<and> speed < hd (cc_drive_speed_nodes c)) flag_low_speed_lookup_clamped flag_none);
          row = target_row c torque wheel_speed;
          flags2 = (if has_target c torque wheel_speed
                    then add_flag_if (row_dynamic_limit row + Fin (1 / 10 ^ 9) < requested_magnitude c torque)
                           flag_magnitude_limited
                           (add_flag_if (row_dynamic_advisory row) flag_dynamic_value_advisory flags1)
                    else flags1);
          (torque', limited) = advance_signed_torque previous (signed_target c torque wheel_speed)
                                 (channel_slice c wheel_speed) (cc_sample_period_seconds c)
      in \<lparr>ch_actual_torque = drive_side_to_wheel_torque c torque' (effective_speed_sign c wheel_speed),
          ch_dynamic_limit = (if has_target c torque wheel_speed
                              then row_dynamic_limit row * cc_drive_ratio c * cc_drive_efficiency c else 0),
          ch_flags = add_flag_if limited flag_slew_limited flags2,
          ch_drive_speed = speed,
          ch_memory = torque'\<rparr>)"

definition conditioner_step :: "conditioner_config \<Rightarrow> vec \<Rightarrow> vec \<Rightarrow> vec \<Rightarrow> conditioning_result outcome" where
  "conditioner_step c torques speeds memory =
     bindS (all_checks (map (\<lambda>k. reject_if (\<not> isfinite (torques ! k) \<or> \<not> isfinite (speeds ! k)
              \<or> \<not> isfinite (memory ! k)) InvalidArgument) [0..<drive_channel_count]))
       (\<lambda>_. let rs = map (\<lambda>k. condition_channel c (torques ! k) (speeds ! k) (memory ! k)) [0..<drive_channel_count]
            in Inr \<lparr>actual_wheel_torques = map ch_actual_torque rs,
                    wheel_dynamic_torque_limits = map ch_dynamic_limit rs,
                    conditioning_flags = map ch_flags rs,
                    equivalent_drive_side_speeds = map ch_drive_speed rs,
                    next_drive_side_memory = map ch_memory rs\<rparr>)"

subsection \<open>What one advance may do\<close>

text \<open>The specification, over the reals: \<open>inc k\<close> and \<open>dec k\<close> bound the rates at which
  the magnitude on half-axis \<open>k\<close> may grow and shrink.  A move between the half-axes
  splits the sample period: the old magnitude must reach zero first.\<close>

definition sg :: "real \<Rightarrow> int" where
  "sg x = (if 0 < x then 1 else if x < 0 then -1 else 0)"

definition slew_feasible :: "(int \<Rightarrow> real) \<Rightarrow> (int \<Rightarrow> real) \<Rightarrow> real \<Rightarrow> real \<Rightarrow> real \<Rightarrow> bool" where
  "slew_feasible inc dec dt a b \<longleftrightarrow>
     (if 0 \<le> a * b
      then (let k = (if a = 0 then sg b else sg a)
            in a = b \<or> - (dec k * dt) \<le> \<bar>b\<bar> - \<bar>a\<bar> \<and> \<bar>b\<bar> - \<bar>a\<bar> \<le> inc k * dt)
      else (\<exists>t. 0 \<le> t \<and> t \<le> dt \<and> \<bar>a\<bar> \<le> dec (sg a) * t \<and> \<bar>b\<bar> \<le> inc (sg b) * (dt - t)))"

definition between :: "real \<Rightarrow> real \<Rightarrow> real \<Rightarrow> bool" where
  "between a b x \<longleftrightarrow> min a b \<le> x \<and> x \<le> max a b"

definition slice_rates :: "speed_slice \<Rightarrow> (int \<Rightarrow> real) \<Rightarrow> (int \<Rightarrow> real) \<Rightarrow> bool" where
  "slice_rates sl inc dec \<longleftrightarrow> (\<forall>k \<in> {1, -1}. 0 \<le> inc k \<and> 0 \<le> dec k
     \<and> row_increase_rate (slice_row sl k) = Fin (inc k) \<and> row_decrease_rate (slice_row sl k) = Fin (dec k))"

definition advance_real :: "(int \<Rightarrow> real) \<Rightarrow> (int \<Rightarrow> real) \<Rightarrow> real \<Rightarrow> real \<Rightarrow> real \<Rightarrow> real" where
  "advance_real inc dec dt p t =
     (if p = t then t
      else if p = 0 then (if \<bar>t\<bar> \<le> inc (sg t) * dt then t else real_of_int (sg t) * (inc (sg t) * dt))
      else if t = 0 then (if \<bar>p\<bar> \<le> dec (sg p) * dt then 0 else real_of_int (sg p) * (\<bar>p\<bar> - dec (sg p) * dt))
      else if sg p = sg t then
        (if \<bar>p\<bar> \<le> \<bar>t\<bar> then (if \<bar>t\<bar> - \<bar>p\<bar> \<le> inc (sg t) * dt then t else real_of_int (sg t) * (\<bar>p\<bar> + inc (sg t) * dt))
         else (if \<bar>p\<bar> - \<bar>t\<bar> \<le> dec (sg t) * dt then t else real_of_int (sg t) * (\<bar>p\<bar> - dec (sg t) * dt)))
      else if dec (sg p) = 0 then p
      else if dec (sg p) * dt \<le> \<bar>p\<bar> then real_of_int (sg p) * (\<bar>p\<bar> - dec (sg p) * dt)
      else (let m = inc (sg t) * (dt - \<bar>p\<bar> / dec (sg p)) in if \<bar>t\<bar> \<le> m then t else real_of_int (sg t) * m))"

lemma sign_code_Fin [simp]: "sign_code (Fin x) = sg x"
  by (simp add: sign_code_def sg_def)

lemma code_value_times [simp]: "code_value k * Fin x = Fin (of_int k * x)"
  by (simp add: code_value_def)

lemma sg_cases: "x \<noteq> 0 \<Longrightarrow> sg x \<in> {1, -1}" "sg x = 0 \<longleftrightarrow> x = 0"
  by (auto simp: sg_def)

lemma slice_ratesD:
  assumes "slice_rates sl inc dec" "x \<noteq> 0"
  shows "row_increase_rate (slice_row sl (sg x)) = Fin (inc (sg x))"
    "row_decrease_rate (slice_row sl (sg x)) = Fin (dec (sg x))" "0 \<le> inc (sg x)" "0 \<le> dec (sg x)"
  using assms sg_cases(1) [of x] by (auto simp: slice_rates_def)

lemma advance_signed_torque_Fin:
  assumes r: "slice_rates sl inc dec" and dt: "0 < dt"
  shows "advance_signed_torque (Fin p) (Fin t) sl (Fin dt)
       = (Fin (advance_real inc dec dt p t), advance_real inc dec dt p t \<noteq> t)"
proof -
  note R = slice_ratesD [OF r]
  consider "p = t" | "p \<noteq> t" "p = 0" | "p \<noteq> t" "p \<noteq> 0" "t = 0"
    | "p \<noteq> t" "p \<noteq> 0" "t \<noteq> 0" "sg p = sg t" | "p \<noteq> t" "p \<noteq> 0" "t \<noteq> 0" "sg p \<noteq> sg t"
    by blast
  then show ?thesis
  proof cases
    case 1
    then show ?thesis by (simp add: advance_signed_torque_def advance_real_def)
  next
    case 2
    then have "0 \<le> inc (sg t) * dt" using R(3) [of t] dt by auto
    with 2 R(1) [of t] dt show ?thesis
      by (auto simp: advance_signed_torque_def advance_real_def Let_def sg_def split: if_splits)
  next
    case 3
    then have "0 \<le> dec (sg p) * dt" using R(4) [of p] dt by auto
    with 3 R(2) [of p] show ?thesis
      by (auto simp: advance_signed_torque_def advance_real_def Let_def sg_def split: if_splits)
  next
    case 4
    then have "0 \<le> inc (sg t) * dt" "0 \<le> dec (sg t) * dt" using R(3,4) [of t] dt by auto
    with 4 R(1,2) [of t] show ?thesis
      by (auto simp: advance_signed_torque_def advance_real_def Let_def sg_def split: if_splits)
  next
    case 5
    let ?d = "dec (sg p)" and ?i = "inc (sg t)"
    note rates = R(1) [OF 5(3)] R(2) [OF 5(2)] R(3) [OF 5(3)] R(4) [OF 5(2)]
    have s: "sg p \<noteq> 0" "sg t \<noteq> 0" "\<not> (p = 0)" "\<not> (t = 0)" "sg t \<noteq> sg p" "sg p \<noteq> sg t" "p \<noteq> t"
      using 5 sg_cases(2) by auto
    consider "?d = 0" | "0 < ?d" "?d * dt \<le> \<bar>p\<bar>" | "0 < ?d" "\<bar>p\<bar> < ?d * dt"
      using rates(4) by linarith
    then show ?thesis
    proof cases
      case 1
      then show ?thesis
        using s rates by (simp add: advance_signed_torque_def advance_real_def Let_def)
    next
      case 2
      then have m: "std_max 0 (Fin \<bar>p\<bar> - Fin ?d * Fin dt) = Fin (\<bar>p\<bar> - ?d * dt)"
        by simp
      have "of_int (sg p) * (\<bar>p\<bar> - ?d * dt) \<noteq> t"
      proof
        assume "of_int (sg p) * (\<bar>p\<bar> - ?d * dt) = t"
        then have "sg t = sg p"
          using s(2) 2 5(2) by (auto simp: sg_def zero_less_mult_iff mult_less_0_iff split: if_splits)
        then show False using s by simp
      qed
      with 2 s rates m show ?thesis
        by (simp add: advance_signed_torque_def advance_real_def Let_def)
    next
      case 3
      then have q: "\<bar>p\<bar> / ?d < dt" by (simp add: pos_divide_less_eq mult.commute)
      have m: "std_max 0 (Fin dt - Fin (\<bar>p\<bar> / ?d)) = Fin (dt - \<bar>p\<bar> / ?d)"
        using q by simp
      define n where "n = ?i * (dt - \<bar>p\<bar> / ?d)"
      have "0 \<le> n" using q rates(3) by (simp add: n_def)
      moreover from this have "of_int (sg t) * n \<noteq> t" if "\<not> \<bar>t\<bar> \<le> n"
        using that by (auto simp: sg_def split: if_splits)
      moreover have "Fin ?i * Fin (dt - \<bar>p\<bar> / ?d) = Fin n" by (simp add: n_def)
      ultimately show ?thesis
        using 3 s rates m
        by (cases "n = 0") (simp_all add: advance_signed_torque_def advance_real_def Let_def n_def [symmetric])
    qed
  qed
qed

text \<open>The specification is symmetric in the sign of the torque, so the proofs below
  look at a nonnegative old torque only.\<close>

lemma sg_uminus [simp]: "sg (- x) = - sg x"
  by (simp add: sg_def)

lemma advance_real_uminus:
  "advance_real inc dec dt (- p) (- t) = - advance_real (inc \<circ> uminus) (dec \<circ> uminus) dt p t"
proof -
  have "advance_real inc dec dt (- p) (- t) = - advance_real (inc \<circ> uminus) (dec \<circ> uminus) dt p t"
    if "sg p \<noteq> sg t" "p \<noteq> 0" "t \<noteq> 0" "p \<noteq> t"
    using that by (simp add: advance_real_def Let_def)
  then show ?thesis
    by (auto simp: advance_real_def Let_def)
qed

lemma slew_feasible_uminus:
  "slew_feasible inc dec dt (- a) (- b) = slew_feasible (inc \<circ> uminus) (dec \<circ> uminus) dt a b"
  by (simp add: slew_feasible_def Let_def)

lemma between_uminus: "between (- a) (- b) (- x) = between a b x"
  by (auto simp: between_def min_def max_def)

text \<open>As far as the rates allow: a feasible torque on the way to the target, and none on that way is both feasible
  and farther from the old one.\<close>

definition advance_spec :: "(int \<Rightarrow> real) \<Rightarrow> (int \<Rightarrow> real) \<Rightarrow> real \<Rightarrow> real \<Rightarrow> real \<Rightarrow> real \<Rightarrow> bool" where
  "advance_spec inc dec dt p t n \<longleftrightarrow> between p t n \<and> slew_feasible inc dec dt p n
     \<and> (\<forall>m. between p t m \<and> slew_feasible inc dec dt p m \<longrightarrow> \<bar>m - p\<bar> \<le> \<bar>n - p\<bar>)"

text \<open>That fixes the torque, and it is the target whenever the target is feasible.\<close>

lemma between_far: "between p t m \<Longrightarrow> between p t n \<Longrightarrow> \<bar>m - p\<bar> = \<bar>n - p\<bar> \<Longrightarrow> m = n"
  by (auto simp: between_def min_def max_def split: if_splits)

lemma advance_spec_unique:
  assumes "advance_spec inc dec dt p t m" "advance_spec inc dec dt p t n"
  shows "m = n"
proof (rule between_far)
  show "between p t m" "between p t n" using assms by (simp_all add: advance_spec_def)
  show "\<bar>m - p\<bar> = \<bar>n - p\<bar>" using assms by (intro antisym) (simp_all add: advance_spec_def)
qed

lemma advance_spec_uminus:
  "advance_spec inc dec dt (- p) (- t) (- n) = advance_spec (inc \<circ> uminus) (dec \<circ> uminus) dt p t n"
proof -
  have all: "(\<forall>m. Q m) \<longleftrightarrow> (\<forall>m. Q (- m))" for Q :: "real \<Rightarrow> bool" by (metis minus_minus)
  have dist: "\<bar>- m - - p\<bar> = \<bar>m - p\<bar>" for m :: real by simp
  have "(\<forall>m. between (- p) (- t) m \<and> slew_feasible inc dec dt (- p) m \<longrightarrow> \<bar>m - - p\<bar> \<le> \<bar>- n - - p\<bar>)
      \<longleftrightarrow> (\<forall>m. between p t m \<and> slew_feasible (inc \<circ> uminus) (dec \<circ> uminus) dt p m \<longrightarrow> \<bar>m - p\<bar> \<le> \<bar>n - p\<bar>)"
    by (subst all) (simp only: between_uminus slew_feasible_uminus dist)
  then show ?thesis
    by (simp only: advance_spec_def between_uminus slew_feasible_uminus)
qed

lemma feasible_same_axis:
  "0 < p \<Longrightarrow> 0 \<le> b \<Longrightarrow> slew_feasible inc dec dt p b \<longleftrightarrow> b = p \<or> - (dec 1 * dt) \<le> b - p \<and> b - p \<le> inc 1 * dt"
  by (auto simp: slew_feasible_def sg_def)

lemma feasible_crossing:
  "0 < p \<Longrightarrow> b < 0 \<Longrightarrow> slew_feasible inc dec dt p b
     \<longleftrightarrow> (\<exists>t. 0 \<le> t \<and> t \<le> dt \<and> p \<le> dec 1 * t \<and> - b \<le> inc (-1) * (dt - t))"
  by (auto simp: slew_feasible_def sg_def zero_le_mult_iff not_le)

lemma feasible_from_zero:
  "slew_feasible inc dec dt 0 b \<longleftrightarrow> b = 0 \<or> - (dec (sg b) * dt) \<le> \<bar>b\<bar> \<and> \<bar>b\<bar> \<le> inc (sg b) * dt"
  by (auto simp: slew_feasible_def Let_def)

definition nonneg_rates :: "(int \<Rightarrow> real) \<Rightarrow> (int \<Rightarrow> real) \<Rightarrow> bool" where
  "nonneg_rates inc dec \<longleftrightarrow> (\<forall>k \<in> {1, -1}. 0 \<le> inc k \<and> 0 \<le> dec k)"

lemma advance_from_zero_pos:
  assumes r: "nonneg_rates inc dec" and dt: "0 < dt" and t: "0 < t"
  shows "advance_spec inc dec dt 0 t (advance_real inc dec dt 0 t)"
proof -
  define m where "m = inc 1 * dt"
  define e where "e = dec 1 * dt"
  have m: "0 \<le> m" "0 \<le> e" using r dt by (auto simp: nonneg_rates_def m_def e_def)
  have s: "sg t = 1" using t by (simp add: sg_def)
  have a: "advance_real inc dec dt 0 t = (if t \<le> m then t else m)"
    using t s by (simp add: advance_real_def m_def)
  have feas: "slew_feasible inc dec dt 0 b \<longleftrightarrow> b \<le> m" if "0 \<le> b" for b
  proof (cases "b = 0")
    case False
    then have "sg b = 1" using that by (simp add: sg_def)
    then show ?thesis using that m by (auto simp: feasible_from_zero m_def [symmetric] e_def [symmetric])
  qed (use m in \<open>simp add: feasible_from_zero\<close>)
  have reach: "b \<le> m" if "0 \<le> b" "slew_feasible inc dec dt 0 b" for b
    using that feas by blast
  show ?thesis
  proof (cases "t \<le> m")
    case True
    then show ?thesis using t feas [of t] by (auto simp: advance_spec_def a between_def)
  next
    case False
    then show ?thesis using t m feas [of m] reach by (auto simp: advance_spec_def a between_def)
  qed
qed

lemma nonneg_rates_uminus: "nonneg_rates inc dec \<Longrightarrow> nonneg_rates (inc \<circ> uminus) (dec \<circ> uminus)"
  by (auto simp: nonneg_rates_def)

lemma advance_from_zero:
  assumes r: "nonneg_rates inc dec" and dt: "0 < dt"
  shows "advance_spec inc dec dt 0 t (advance_real inc dec dt 0 t)"
proof -
  consider "t = 0" | "0 < t" | "t < 0" by linarith
  then show ?thesis
  proof cases
    case 1
    then show ?thesis by (simp add: advance_spec_def advance_real_def between_def feasible_from_zero)
  next
    case 2
    then show ?thesis by (rule advance_from_zero_pos [OF r dt])
  next
    case 3
    then show ?thesis
      using advance_from_zero_pos [OF nonneg_rates_uminus [OF r] dt, of "- t"]
        advance_real_uminus [of inc dec dt 0 "- t"] advance_spec_uminus [of inc dec dt 0 "- t"]
      by simp
  qed
qed

lemma advance_same_axis:
  assumes r: "nonneg_rates inc dec" and dt: "0 < dt" and p: "0 < p" and t: "0 \<le> t"
  shows "advance_spec inc dec dt p t (advance_real inc dec dt p t)"
proof -
  have nn: "0 \<le> inc 1 * dt" "0 \<le> dec 1 * dt"
    using r dt by (auto simp: nonneg_rates_def)
  have s: "sg p = 1" "t \<noteq> 0 \<Longrightarrow> sg t = 1" using p t by (auto simp: sg_def)
  show ?thesis
    using p t s nn
    by (auto simp: advance_spec_def advance_real_def between_def feasible_same_axis)
qed

lemma advance_crossing:
  assumes r: "nonneg_rates inc dec" and dt: "0 < dt" and p: "0 < p" and t: "t < 0"
  shows "advance_spec inc dec dt p t (advance_real inc dec dt p t)"
proof -
  have s: "sg p = 1" "sg t = -1" using p t by (auto simp: sg_def)
  have nn: "0 \<le> inc (-1)" "0 \<le> dec 1" "0 \<le> dec 1 * dt" "0 \<le> inc 1 * dt"
    using r dt by (auto simp: nonneg_rates_def)
  consider "dec 1 * dt < p" | "p \<le> dec 1 * dt" "dec 1 * dt \<le> p" | "p < dec 1 * dt" by linarith
  then show ?thesis
  proof cases
    case 1
    have "\<not> slew_feasible inc dec dt p b" if neg: "b < 0" for b
    proof
      assume "slew_feasible inc dec dt p b"
      then obtain q where "q \<le> dt" "p \<le> dec 1 * q" using feasible_crossing [OF p neg] by blast
      then show False using 1 mult_left_mono [of q dt "dec 1"] nn by linarith
    qed
    then have same: "0 \<le> b" if "slew_feasible inc dec dt p b" for b using that not_le by blast
    have "advance_real inc dec dt p t = p - dec 1 * dt" using 1 p t s nn by (simp add: advance_real_def)
    moreover have "\<bar>b - p\<bar> \<le> dec 1 * dt" if "between p t b" "slew_feasible inc dec dt p b" for b
      using that same [OF that(2)] p t nn by (auto simp: between_def feasible_same_axis)
    ultimately show ?thesis
      using 1 p t nn by (simp add: advance_spec_def between_def feasible_same_axis)
  next
    case 2
    then have e: "p = dec 1 * dt" by simp
    then have d: "0 < dec 1" using p dt by (simp add: zero_less_mult_iff)
    have "\<not> slew_feasible inc dec dt p b" if neg: "b < 0" for b
    proof
      assume "slew_feasible inc dec dt p b"
      then obtain q where q: "q \<le> dt" "p \<le> dec 1 * q" "- b \<le> inc (-1) * (dt - q)"
        using feasible_crossing [OF p neg] by blast
      then have "dt \<le> q" using e d by simp
      with q neg show False by simp
    qed
    then have same: "0 \<le> b" if "slew_feasible inc dec dt p b" for b using that not_le by blast
    have "advance_real inc dec dt p t = 0" using e d p t s nn by (simp add: advance_real_def)
    moreover have "\<bar>b - p\<bar> \<le> \<bar>0 - p\<bar>" if "between p t b" "slew_feasible inc dec dt p b" for b
      using that(1) same [OF that(2)] p t by (auto simp: between_def)
    moreover have "between p t 0" using p t by (simp add: between_def)
    moreover have "slew_feasible inc dec dt p 0"
      using feasible_same_axis [OF p order_refl] 2 p nn by simp
    ultimately show ?thesis
      by (simp only: advance_spec_def) blast
  next
    case 3
    then have d: "0 < dec 1" using p dt nn by (smt (verit) mult_nonneg_nonneg zero_less_mult_iff)
    define q where "q = p / dec 1"
    have q: "0 < q" "q < dt" "dec 1 * q = p"
      using 3 d p by (auto simp: q_def pos_divide_less_eq mult.commute)
    define m where "m = inc (-1) * (dt - q)"
    have m: "0 \<le> m" using q nn by (simp add: m_def)
    have a: "advance_real inc dec dt p t = (if - t \<le> m then t else - m)"
      using p t s d 3 by (simp add: advance_real_def Let_def m_def q_def)
    have feas: "slew_feasible inc dec dt p b" if "b \<le> 0" "- b \<le> m" for b
    proof (cases "b = 0")
      case True
      then show ?thesis using p nn 3 by (simp add: feasible_same_axis)
    next
      case False
      then have "b < 0" using that by simp
      then show ?thesis
        using feasible_crossing [OF p] q that unfolding m_def by (metis less_imp_le order_refl)
    qed
    have best: "- b \<le> m" if f: "slew_feasible inc dec dt p b" "b < 0" for b
    proof -
      obtain w where w: "p \<le> dec 1 * w" "- b \<le> inc (-1) * (dt - w)"
        using f(1) feasible_crossing [OF p f(2)] by blast
      have "q \<le> w" using w(1) d q(3) by (metis mult_le_cancel_left_pos)
      then have "inc (-1) * (dt - w) \<le> m" unfolding m_def using nn by (intro mult_left_mono) auto
      then show ?thesis using w(2) by linarith
    qed
    have reach: "\<bar>b - p\<bar> \<le> p + m" if "between p t b" "slew_feasible inc dec dt p b" for b
    proof (cases "b < 0")
      case True
      then show ?thesis using best [OF that(2)] p by simp
    next
      case False
      then show ?thesis using that(1) p t m by (auto simp: between_def)
    qed
    show ?thesis
    proof (cases "- t \<le> m")
      case True
      then show ?thesis using feas [of t] t p by (auto simp: advance_spec_def a between_def)
    next
      case False
      then show ?thesis using reach feas [of "- m"] m t p by (simp add: advance_spec_def a between_def)
    qed
  qed
qed

lemma advance_real_spec:
  assumes r: "nonneg_rates inc dec" and dt: "0 < dt"
  shows "advance_spec inc dec dt p t (advance_real inc dec dt p t)"
proof -
  have pos: "advance_spec i d dt x y (advance_real i d dt x y)" if "nonneg_rates i d" "0 < x" for i d x y
    using advance_same_axis [OF that(1) dt that(2)] advance_crossing [OF that(1) dt that(2)] by (cases "0 \<le> y") auto
  consider "p = 0" | "0 < p" | "p < 0" by linarith
  then show ?thesis
  proof cases
    case 3
    show ?thesis
      using nonneg_rates_uminus [OF r] pos [of "inc \<circ> uminus" "dec \<circ> uminus" "- p" "- t"] 3
        advance_real_uminus [of inc dec dt "- p" "- t"] advance_spec_uminus [of inc dec dt "- p" "- t"]
      by simp
  qed (use advance_from_zero [OF r dt] pos [OF r] in auto)
qed

lemma advance_bounded:
  assumes "nonneg_rates inc dec" "0 < dt" "\<bar>p\<bar> \<le> D" "\<bar>t\<bar> \<le> D"
  shows "\<bar>advance_real inc dec dt p t\<bar> \<le> D"
  using advance_real_spec [OF assms(1,2), of p t] assms(3,4)
  by (auto simp: advance_spec_def between_def)

subsection \<open>Accepted conditioners\<close>

definition table_sized :: "direction_table \<Rightarrow> bool" where
  "table_sized t \<longleftrightarrow> length (dynamic_limits t) = speed_node_count \<and> length (increase_rates t) = speed_node_count
     \<and> length (decrease_rates t) = speed_node_count \<and> length (dynamic_advisories t) = speed_node_count"

definition conditioner_ok :: "conditioner_config \<Rightarrow> bool" where
  "conditioner_ok c \<longleftrightarrow> make_conditioner c = Inr c \<and> length (cc_drive_speed_nodes c) = speed_node_count
     \<and> table_sized (cc_traction c) \<and> table_sized (cc_regeneration c)"

definition limits_within :: "real \<Rightarrow> conditioner_config \<Rightarrow> bool" where
  "limits_within D c \<longleftrightarrow> 0 \<le> D \<and> (\<forall>t \<in> {cc_traction c, cc_regeneration c}.
     \<forall>k < speed_node_count. value_or (dynamic_limits t ! k) 0 \<le> Fin D)"

lemma all_checks_concat_Inr:
  "all_checks (concat (map f xs)) = Inr () \<longleftrightarrow> (\<forall>x \<in> set xs. all_checks (f x) = Inr ())"
  by (auto simp: all_checks_Inr)

lemma validate_direction_table_nth:
  assumes "validate_direction_table t = Inr ()" "k < speed_node_count"
  shows "isfinite (increase_rates t ! k)" "\<not> increase_rates t ! k < 0"
    "isfinite (decrease_rates t ! k)" "\<not> decrease_rates t ! k < 0"
    "isfinite (value_or (dynamic_limits t ! k) 0)" "\<not> value_or (dynamic_limits t ! k) 0 < 0"
  using assms
  by (auto simp: validate_direction_table_def all_checks_concat_Inr value_or_def split: option.splits)

lemma validate_speed_nodes_nth:
  assumes "validate_speed_nodes ns = Inr ()" "k < speed_node_count"
  shows "isfinite (ns ! k)" "0 < ns ! k" "0 < k \<Longrightarrow> ns ! (k - 1) < ns ! k"
  using assms by (auto simp: validate_speed_nodes_def all_checks_concat_Inr dest!: bspec [where x = k])

lemma conditioner_okD:
  assumes "conditioner_ok c"
  shows "isfinite (cc_sample_period_seconds c)" "0 < cc_sample_period_seconds c"
    "isfinite (cc_drive_ratio c)" "0 < cc_drive_ratio c"
    "isfinite (cc_drive_efficiency c)" "0 < cc_drive_efficiency c"
    "isfinite (cc_request_deadband c)" "0 < cc_request_deadband c"
    "isfinite (cc_speed_direction_threshold c)" "0 < cc_speed_direction_threshold c"
    "cc_forward_wheel_speed_sign c \<in> {Fin 1, Fin (- 1)}"
    "validate_speed_nodes (cc_drive_speed_nodes c) = Inr ()"
    "validate_direction_table (cc_traction c) = Inr ()" "validate_direction_table (cc_regeneration c) = Inr ()"
    "length (cc_drive_speed_nodes c) = speed_node_count"
  using assms
  by (auto simp: conditioner_ok_def make_conditioner_def bindS_eq_Inr validate_conditioner_config_def feq_def)

lemma speed_node_count_pos: "0 < speed_node_count"
  by (simp add: speed_node_count_def)

lemma nodes_finite: "conditioner_ok c \<Longrightarrow> x \<in> set (cc_drive_speed_nodes c) \<Longrightarrow> isfinite x"
  using conditioner_okD(12,15) validate_speed_nodes_nth(1) by (metis in_set_conv_nth)

lemma nodes_nonempty: "conditioner_ok c \<Longrightarrow> cc_drive_speed_nodes c \<noteq> []"
  using conditioner_okD(15) speed_node_count_pos by fastforce

lemma lower_bound_spec:
  assumes ne: "xs \<noteq> []" and fin: "\<forall>x \<in> set xs. isfinite x" "isfinite q"
    and lo: "\<not> q \<le> hd xs" and hi: "\<not> last xs \<le> q"
  shows "0 < lower_bound xs q" "lower_bound xs q < length xs"
    "xs ! (lower_bound xs q - 1) < q" "q \<le> xs ! lower_bound xs q"
proof -
  let ?P = "\<lambda>x. x < q" and ?n = "lower_bound xs q"
  have tot: "x < q \<or> q \<le> x" if "isfinite x" for x using that fin(2) by (auto simp: isfinite_iff)
  have hd: "hd xs < q" using lo tot fin ne hd_in_set by blast
  have last: "\<not> last xs < q" using hi fin last_in_set [OF ne] by (auto simp: isfinite_iff)
  show "0 < ?n" using hd ne by (cases xs) (auto simp: lower_bound_def)
  have "takeWhile ?P xs \<noteq> xs" using last last_in_set [OF ne] by (metis set_takeWhileD)
  then show n: "?n < length xs"
    unfolding lower_bound_def
    by (metis length_takeWhile_le order.not_eq_order_implies_strict takeWhile_eq_take take_all order_refl)
  then have "\<not> xs ! ?n < q" unfolding lower_bound_def by (rule nth_length_takeWhile)
  then show "q \<le> xs ! ?n" using tot n fin(1) nth_mem by blast
  show "xs ! (?n - 1) < q"
    using \<open>0 < ?n\<close> unfolding lower_bound_def
    by (metis diff_less nth_mem set_takeWhileD takeWhile_nth zero_less_one)
qed

lemma speed_bracket_spec:
  assumes c: "conditioner_ok c" and q: "isfinite q"
  obtains low high f where "speed_bracket (cc_drive_speed_nodes c) q = (low, high, Fin f)"
    "low < speed_node_count" "high < speed_node_count" "0 \<le> f" "f \<le> 1"
proof -
  let ?s = "cc_drive_speed_nodes c"
  note len = conditioner_okD(15) [OF c]
  show thesis
  proof (cases "q \<le> hd ?s \<or> last ?s \<le> q")
    case True
    then have "speed_bracket ?s q = (0, 0, Fin 0)
        \<or> speed_bracket ?s q = (speed_node_count - 1, speed_node_count - 1, Fin 0)"
      using len by (auto simp: speed_bracket_def)
    then show ?thesis
      using that [of 0 0 0] that [of "speed_node_count - 1" "speed_node_count - 1" 0] speed_node_count_pos
      by auto
  next
    case False
    let ?n = "lower_bound ?s q"
    note B = lower_bound_spec [OF nodes_nonempty [OF c], of q] nodes_finite [OF c] q False
    have n: "0 < ?n" "?n < speed_node_count" "?s ! (?n - 1) < q" "q \<le> ?s ! ?n"
      using B len by auto
    have "isfinite (?s ! (?n - 1))" "isfinite (?s ! ?n)"
      using nodes_finite [OF c] n len by (simp_all add: less_imp_diff_less)
    then obtain x y z where xyz: "?s ! (?n - 1) = Fin x" "?s ! ?n = Fin y" "q = Fin z"
      using q by (auto simp: isfinite_iff)
    have "x < z" "z \<le> y" using n(3,4) xyz by auto
    then have "speed_bracket ?s q = (?n - 1, ?n, Fin ((z - x) / (y - x)))" "0 \<le> (z - x) / (y - x)"
      "(z - x) / (y - x) \<le> 1"
      using False xyz by (auto simp: speed_bracket_def Let_def)
    then show ?thesis using that [of "?n - 1" ?n "(z - x) / (y - x)"] n by auto
  qed
qed

lemma interpolate_bounds:
  assumes "0 \<le> f" "f \<le> 1" "0 \<le> x" "0 \<le> y"
  shows "\<exists>v. interpolate (Fin x) (Fin y) (Fin f) = Fin v \<and> 0 \<le> v \<and> (\<forall>D. x \<le> D \<longrightarrow> y \<le> D \<longrightarrow> v \<le> D)"
proof -
  have "(1 - f) * x + f * y \<le> D" if "x \<le> D" "y \<le> D" for D
    using assms that convex_bound_le [of x D y "1 - f" f] by simp
  then show ?thesis
    using assms by (auto simp: interpolate_def)
qed

definition row_ok :: "direction_row \<Rightarrow> bool" where
  "row_ok r \<longleftrightarrow> (\<exists>l i d. row_dynamic_limit r = Fin l \<and> row_increase_rate r = Fin i
     \<and> row_decrease_rate r = Fin d \<and> 0 \<le> l \<and> 0 \<le> i \<and> 0 \<le> d)"

lemma interpolate_row_ok:
  assumes t: "validate_direction_table t = Inr ()" and k: "low < speed_node_count" "high < speed_node_count"
    and f: "0 \<le> f" "f \<le> 1"
  shows "row_ok (interpolate_row t low high (Fin f))"
    "value_or (dynamic_limits t ! low) 0 \<le> Fin D \<Longrightarrow> value_or (dynamic_limits t ! high) 0 \<le> Fin D
       \<Longrightarrow> row_dynamic_limit (interpolate_row t low high (Fin f)) \<le> Fin D"
proof -
  note L = validate_direction_table_nth [OF t k(1)] and H = validate_direction_table_nth [OF t k(2)]
  obtain l1 i1 d1 where 1: "value_or (dynamic_limits t ! low) 0 = Fin l1" "increase_rates t ! low = Fin i1"
      "decrease_rates t ! low = Fin d1" "0 \<le> l1" "0 \<le> i1" "0 \<le> d1"
    using L by (auto simp: isfinite_iff)
  obtain l2 i2 d2 where 2: "value_or (dynamic_limits t ! high) 0 = Fin l2" "increase_rates t ! high = Fin i2"
      "decrease_rates t ! high = Fin d2" "0 \<le> l2" "0 \<le> i2" "0 \<le> d2"
    using H by (auto simp: isfinite_iff)
  note I = interpolate_bounds [OF f]
  show "row_ok (interpolate_row t low high (Fin f))"
    using I [OF 1(4) 2(4)] I [OF 1(5) 2(5)] I [OF 1(6) 2(6)] 1(1-3) 2(1-3)
    by (auto simp: row_ok_def interpolate_row_def)
  show "row_dynamic_limit (interpolate_row t low high (Fin f)) \<le> Fin D"
    if "value_or (dynamic_limits t ! low) 0 \<le> Fin D" "value_or (dynamic_limits t ! high) 0 \<le> Fin D"
    using I [OF 1(4) 2(4)] that 1(1) 2(1) by (auto simp: interpolate_row_def)
qed

lemma drive_speed_finite: "conditioner_ok c \<Longrightarrow> isfinite w \<Longrightarrow> isfinite (drive_speed c w)"
  using conditioner_okD(3) [of c] unfolding drive_speed_def
  by (intro finite_divide_pos) (auto simp: numbers_pi_def)

lemma std_clamp_finite: "isfinite v \<Longrightarrow> isfinite lo \<Longrightarrow> isfinite hi \<Longrightarrow> isfinite (std_clamp v lo hi)"
  by (simp add: std_clamp_def)

lemma channel_slice_rows:
  assumes c: "conditioner_ok c" and w: "isfinite w"
  shows "row_ok (slice_row (channel_slice c w) k)"
    "limits_within D c \<Longrightarrow> row_dynamic_limit (slice_row (channel_slice c w) k) \<le> Fin D"
proof -
  have "isfinite (std_clamp (drive_speed c w) (hd (cc_drive_speed_nodes c)) (last (cc_drive_speed_nodes c)))"
    using nodes_nonempty [OF c] by (intro std_clamp_finite drive_speed_finite [OF c w] nodes_finite [OF c]) auto
  then obtain low high f where b: "speed_bracket (cc_drive_speed_nodes c)
      (std_clamp (drive_speed c w) (hd (cc_drive_speed_nodes c)) (last (cc_drive_speed_nodes c))) = (low, high, Fin f)"
    "low < speed_node_count" "high < speed_node_count" "0 \<le> f" "f \<le> 1"
    by (rule speed_bracket_spec [OF c])
  note I = interpolate_row_ok [OF conditioner_okD(13) [OF c] b(2-5)]
    interpolate_row_ok [OF conditioner_okD(14) [OF c] b(2-5)]
  show "row_ok (slice_row (channel_slice c w) k)"
    using I by (simp add: channel_slice_def interpolate_slice_def b(1) slice_row_def)
  show "limits_within D c \<Longrightarrow> row_dynamic_limit (slice_row (channel_slice c w) k) \<le> Fin D"
    using I(2,4) b(2,3)
    by (simp add: channel_slice_def interpolate_slice_def b(1) slice_row_def limits_within_def)
qed

definition rate_of :: "(direction_row \<Rightarrow> double) \<Rightarrow> speed_slice \<Rightarrow> int \<Rightarrow> real" where
  "rate_of rate sl k = to_real (rate (slice_row sl k))"

lemma channel_slice_rates:
  assumes "conditioner_ok c" "isfinite w"
  shows "slice_rates (channel_slice c w) (rate_of row_increase_rate (channel_slice c w))
           (rate_of row_decrease_rate (channel_slice c w))"
    "nonneg_rates (rate_of row_increase_rate (channel_slice c w)) (rate_of row_decrease_rate (channel_slice c w))"
proof -
  have "0 \<le> rate_of row_increase_rate (channel_slice c w) k \<and> 0 \<le> rate_of row_decrease_rate (channel_slice c w) k
    \<and> row_increase_rate (slice_row (channel_slice c w) k) = Fin (rate_of row_increase_rate (channel_slice c w) k)
    \<and> row_decrease_rate (slice_row (channel_slice c w) k) = Fin (rate_of row_decrease_rate (channel_slice c w) k)" for k
    using channel_slice_rows(1) [OF assms, of k] by (auto simp: row_ok_def rate_of_def)
  then show "slice_rates (channel_slice c w) (rate_of row_increase_rate (channel_slice c w))
           (rate_of row_decrease_rate (channel_slice c w))"
    "nonneg_rates (rate_of row_increase_rate (channel_slice c w)) (rate_of row_decrease_rate (channel_slice c w))"
    by (auto simp: slice_rates_def nonneg_rates_def)
qed

subsection \<open>One channel of an accepted conditioner\<close>

lemma direction_code_cases: "direction_code c t w \<in> {0, 1, -1}"
  by (auto simp: direction_code_def)

lemma requested_magnitude_finite:
  assumes "conditioner_ok c" "isfinite t"
  shows "\<exists>m. requested_magnitude c t = Fin m \<and> 0 \<le> m"
  using assms(2) conditioner_okD(3-6) [OF assms(1)] by (auto simp: isfinite_iff requested_magnitude_def)

lemma signed_target_bounds:
  assumes c: "conditioner_ok c" and t: "isfinite t" and w: "isfinite w"
  shows "\<exists>x. signed_target c t w = Fin x \<and> Fin \<bar>x\<bar> \<le> row_dynamic_limit (target_row c t w)
           \<and> (limits_within D c \<longrightarrow> \<bar>x\<bar> \<le> D) \<and> (\<not> has_target c t w \<longrightarrow> x = 0)"
proof -
  obtain m where m: "requested_magnitude c t = Fin m" "0 \<le> m"
    using requested_magnitude_finite [OF c t] by blast
  obtain l where l: "row_dynamic_limit (target_row c t w) = Fin l" "0 \<le> l"
    using channel_slice_rows(1) [OF c w, of "direction_code c t w"] by (auto simp: row_ok_def target_row_def)
  have D: "limits_within D c \<Longrightarrow> l \<le> D"
    using channel_slice_rows(2) [OF c w, of D "direction_code c t w"] l(1) by (simp add: target_row_def)
  show ?thesis
  proof (cases "has_target c t w \<and> 0 < min m l")
    case False
    then show ?thesis using m l D by (auto simp: signed_target_def Let_def)
  next
    case True
    then have "direction_code c t w \<in> {1, -1}"
      using direction_code_cases [of c t w] by (auto simp: has_target_def)
    then have a: "\<bar>of_int (direction_code c t w) * min m l\<bar> = min m l"
      using True by auto
    have s: "signed_target c t w = Fin (of_int (direction_code c t w) * min m l)"
      using True m l by (simp add: signed_target_def Let_def)
    show ?thesis
      using True D a by (intro exI [of _ "of_int (direction_code c t w) * min m l"]) (auto simp: s l)
  qed
qed

lemma slew_flag_exact:
  "has_flag (ch_flags (condition_channel c t w p)) flag_slew_limited
     \<longleftrightarrow> snd (advance_signed_torque p (signed_target c t w) (channel_slice c w) (cc_sample_period_seconds c))"
  by (simp add: condition_channel_def Let_def add_flag_if_def flag_defs has_flag_def split: prod.splits)

lemma ch_memory_advance:
  "ch_memory (condition_channel c t w p)
     = fst (advance_signed_torque p (signed_target c t w) (channel_slice c w) (cc_sample_period_seconds c))"
  "ch_actual_torque (condition_channel c t w p)
     = drive_side_to_wheel_torque c (ch_memory (condition_channel c t w p)) (effective_speed_sign c w)"
  by (simp_all add: condition_channel_def Let_def split: prod.splits)

abbreviation channel_increase :: "conditioner_config \<Rightarrow> double \<Rightarrow> int \<Rightarrow> real" where
  "channel_increase c w \<equiv> rate_of row_increase_rate (channel_slice c w)"

abbreviation channel_decrease :: "conditioner_config \<Rightarrow> double \<Rightarrow> int \<Rightarrow> real" where
  "channel_decrease c w \<equiv> rate_of row_decrease_rate (channel_slice c w)"

lemma channel_advance:
  assumes c: "conditioner_ok c" and t: "isfinite t" and w: "isfinite w" and p: "isfinite p"
  defines "n \<equiv> advance_real (channel_increase c w) (channel_decrease c w) (to_real (cc_sample_period_seconds c))
      (to_real p) (to_real (signed_target c t w))"
  shows "ch_memory (condition_channel c t w p) = Fin n"
    "has_flag (ch_flags (condition_channel c t w p)) flag_slew_limited \<longleftrightarrow> Fin n \<noteq> signed_target c t w"
proof -
  obtain x where x: "signed_target c t w = Fin x" using signed_target_bounds [OF c t w] by blast
  obtain d where d: "cc_sample_period_seconds c = Fin d" "0 < d"
    using conditioner_okD(1,2) [OF c] by (auto simp: isfinite_iff)
  obtain q where q: "p = Fin q" using p by (auto simp: isfinite_iff)
  note A = advance_signed_torque_Fin [OF channel_slice_rates(1) [OF c w] d(2), of q x]
  show "ch_memory (condition_channel c t w p) = Fin n"
    "has_flag (ch_flags (condition_channel c t w p)) flag_slew_limited \<longleftrightarrow> Fin n \<noteq> signed_target c t w"
    by (simp_all add: ch_memory_advance slew_flag_exact x d q A n_def)
qed

lemma channel_spec:
  assumes c: "conditioner_ok c" and t: "isfinite t" and w: "isfinite w" and p: "isfinite p"
  shows "isfinite (ch_memory (condition_channel c t w p))"
    "advance_spec (channel_increase c w) (channel_decrease c w) (to_real (cc_sample_period_seconds c))
       (to_real p) (to_real (signed_target c t w)) (to_real (ch_memory (condition_channel c t w p)))"
    "has_flag (ch_flags (condition_channel c t w p)) flag_slew_limited
       \<longleftrightarrow> ch_memory (condition_channel c t w p) \<noteq> signed_target c t w"
proof -
  have d: "0 < to_real (cc_sample_period_seconds c)"
    using conditioner_okD(1,2) [OF c] by (auto simp: isfinite_iff)
  show "isfinite (ch_memory (condition_channel c t w p))"
    "advance_spec (channel_increase c w) (channel_decrease c w) (to_real (cc_sample_period_seconds c))
       (to_real p) (to_real (signed_target c t w)) (to_real (ch_memory (condition_channel c t w p)))"
    "has_flag (ch_flags (condition_channel c t w p)) flag_slew_limited
       \<longleftrightarrow> ch_memory (condition_channel c t w p) \<noteq> signed_target c t w"
    using channel_advance [OF c t w p] advance_real_spec [OF channel_slice_rates(2) [OF c w] d] by simp_all
qed

lemma channel_bounded:
  assumes c: "conditioner_ok c" and t: "isfinite t" and w: "isfinite w" and p: "bounded_by (Fin D) p"
    and D: "limits_within D c"
  shows "bounded_by (Fin D) (ch_memory (condition_channel c t w p))"
    "bounded_by (Fin D * cc_drive_ratio c * cc_drive_efficiency c) (ch_actual_torque (condition_channel c t w p))"
proof -
  obtain x where x: "signed_target c t w = Fin x" "\<bar>x\<bar> \<le> D" using signed_target_bounds [OF c t w] D by blast
  obtain q where q: "p = Fin q" "\<bar>q\<bar> \<le> D" using p by (cases p) (auto simp: bounded_by_def)
  have d: "0 < to_real (cc_sample_period_seconds c)"
    using conditioner_okD(1,2) [OF c] by (auto simp: isfinite_iff)
  obtain n where n: "ch_memory (condition_channel c t w p) = Fin n" "\<bar>n\<bar> \<le> D"
    using channel_advance(1) [OF c t w] advance_bounded [OF channel_slice_rates(2) [OF c w] d q(2) x(2)] x q
    by simp
  show "bounded_by (Fin D) (ch_memory (condition_channel c t w p))" using n by simp
  obtain r e where re: "cc_drive_ratio c = Fin r" "0 < r" "cc_drive_efficiency c = Fin e" "0 < e"
    using conditioner_okD(3-6) [OF c] by (auto simp: isfinite_iff)
  have sgn: "effective_speed_sign c w = Fin 1 \<or> effective_speed_sign c w = Fin (- 1)"
    using conditioner_okD(11) [OF c] by (auto simp: effective_speed_sign_def)
  have "\<bar>n\<bar> * r * e \<le> D * r * e" "0 \<le> \<bar>n\<bar> * r * e"
    using n(2) re by (simp_all add: mult_right_mono)
  moreover have "ch_actual_torque (condition_channel c t w p) = Fin (\<bar>n\<bar> * r * e)
      \<or> ch_actual_torque (condition_channel c t w p) = Fin (- (\<bar>n\<bar> * r * e))"
    using sgn by (auto simp: ch_memory_advance(2) n(1) re drive_side_to_wheel_torque_def wheel_torque_sign_def)
  ultimately show "bounded_by (Fin D * cc_drive_ratio c * cc_drive_efficiency c)
      (ch_actual_torque (condition_channel c t w p))"
    using re by auto
qed

lemma conditioner_step_channels:
  assumes "finite_array drive_channel_count ts" "finite_array drive_channel_count ws" "finite_array drive_channel_count ms"
  shows "conditioner_step c ts ws ms =
    (let rs = map (\<lambda>k. condition_channel c (ts ! k) (ws ! k) (ms ! k)) [0..<drive_channel_count]
     in Inr \<lparr>actual_wheel_torques = map ch_actual_torque rs, wheel_dynamic_torque_limits = map ch_dynamic_limit rs,
             conditioning_flags = map ch_flags rs, equivalent_drive_side_speeds = map ch_drive_speed rs,
             next_drive_side_memory = map ch_memory rs\<rparr>)"
proof -
  have "all_checks (map (\<lambda>k. reject_if (\<not> isfinite (ts ! k) \<or> \<not> isfinite (ws ! k)
              \<or> \<not> isfinite (ms ! k)) InvalidArgument) [0..<drive_channel_count]) = Inr ()"
    using finite_array_nth [OF assms(1)] finite_array_nth [OF assms(2)] finite_array_nth [OF assms(3)]
    by (auto simp: all_checks_map_Inr)
  then show ?thesis by (simp add: conditioner_step_def)
qed

lemma conditioner_step_rejects: "conditioner_step c ts ws ms = Inl e \<Longrightarrow> e = InvalidArgument"
  by (auto simp: conditioner_step_def bindS_eq_Inl Let_def reject_if_def dest!: all_checks_Inl_mem split: if_splits)

subsection \<open>Runs\<close>

text \<open>Successive events on one memory, as the event sessions perform them.\<close>

fun conditioner_run :: "conditioner_config \<Rightarrow> (vec \<times> vec) list \<Rightarrow> vec \<Rightarrow> (vec list \<times> vec) outcome" where
  "conditioner_run c [] ms = Inr ([], ms)"
| "conditioner_run c ((ts, ws) # es) ms =
     bindS (conditioner_step c ts ws ms) (\<lambda>r.
     bindS (conditioner_run c es (next_drive_side_memory r)) (\<lambda>(outs, ms').
     Inr (actual_wheel_torques r # outs, ms')))"

definition memory_ok :: "real \<Rightarrow> vec \<Rightarrow> bool" where
  "memory_ok D ms \<longleftrightarrow> length ms = drive_channel_count \<and> list_all (bounded_by (Fin D)) ms"

lemma memory_ok_finite: "memory_ok D ms \<Longrightarrow> finite_array drive_channel_count ms"
  by (auto simp: memory_ok_def finite_array_def all_finite_iff list_all_iff bounded_by_def)

lemma initial_memory_ok: "0 \<le> D \<Longrightarrow> memory_ok D (replicate drive_channel_count 0)"
  by (simp add: memory_ok_def list_all_iff)

definition wheel_torque_bound :: "conditioner_config \<Rightarrow> real \<Rightarrow> double" where
  "wheel_torque_bound c D = Fin D * cc_drive_ratio c * cc_drive_efficiency c"

lemma conditioner_step_ok:
  assumes c: "conditioner_ok c" and D: "limits_within D c" and ts: "finite_array drive_channel_count ts"
    and ws: "finite_array drive_channel_count ws" and ms: "memory_ok D ms"
  obtains r where "conditioner_step c ts ws ms = Inr r" "memory_ok D (next_drive_side_memory r)"
    "length (actual_wheel_torques r) = drive_channel_count"
    "list_all (bounded_by (wheel_torque_bound c D)) (actual_wheel_torques r)"
proof -
  let ?rs = "map (\<lambda>k. condition_channel c (ts ! k) (ws ! k) (ms ! k)) [0..<drive_channel_count]"
  have B: "bounded_by (Fin D) (ch_memory (condition_channel c (ts ! k) (ws ! k) (ms ! k)))"
    "bounded_by (wheel_torque_bound c D) (ch_actual_torque (condition_channel c (ts ! k) (ws ! k) (ms ! k)))"
    if k: "k < drive_channel_count" for k
    using channel_bounded [OF c finite_array_nth [OF ts k] finite_array_nth [OF ws k] _ D, of "ms ! k"] ms k
    by (auto simp: memory_ok_def list_all_iff wheel_torque_bound_def)
  show thesis
    by (rule that [OF conditioner_step_channels [OF ts ws memory_ok_finite [OF ms], unfolded Let_def]])
       (use B in \<open>auto simp: memory_ok_def list_all_iff\<close>)
qed

lemma conditioner_run_ok:
  assumes c: "conditioner_ok c" and D: "limits_within D c"
  shows "\<forall>(ts, ws) \<in> set es. finite_array drive_channel_count ts \<and> finite_array drive_channel_count ws \<Longrightarrow> memory_ok D ms \<Longrightarrow>
    \<exists>outs ms'. conditioner_run c es ms = Inr (outs, ms') \<and> memory_ok D ms' \<and> length outs = length es
      \<and> (\<forall>os \<in> set outs. length os = drive_channel_count \<and> list_all (bounded_by (wheel_torque_bound c D)) os)"
proof (induction es arbitrary: ms)
  case Nil
  then show ?case by simp
next
  case (Cons e es)
  obtain ts ws where e: "e = (ts, ws)" by (cases e)
  then have f: "finite_array drive_channel_count ts" "finite_array drive_channel_count ws" using Cons.prems by auto
  from conditioner_step_ok [OF c D f Cons.prems(2)] obtain r where r: "conditioner_step c ts ws ms = Inr r"
    "memory_ok D (next_drive_side_memory r)" "length (actual_wheel_torques r) = drive_channel_count"
    "list_all (bounded_by (wheel_torque_bound c D)) (actual_wheel_torques r)"
    by blast
  have "\<forall>(ts, ws) \<in> set es. finite_array drive_channel_count ts \<and> finite_array drive_channel_count ws"
    using Cons.prems(1) by simp
  from Cons.IH [OF this r(2)] obtain outs ms' where
    "conditioner_run c es (next_drive_side_memory r) = Inr (outs, ms')" "memory_ok D ms'" "length outs = length es"
    "\<forall>os \<in> set outs. length os = drive_channel_count \<and> list_all (bounded_by (wheel_torque_bound c D)) os"
    by blast
  with r e show ?case by auto
qed

subsection \<open>Properties\<close>

definition sample_table :: "double option \<Rightarrow> direction_table" where
  "sample_table first =
     \<lparr>dynamic_limits = first # replicate 9 (Some (Fin 100)), increase_rates = replicate 10 (Fin 1000),
      decrease_rates = replicate 10 (Fin 2000), dynamic_advisories = replicate 10 False\<rparr>"

definition sample_conditioner :: conditioner_config where
  "sample_conditioner =
     \<lparr>cc_identifier = ''drive'', cc_sample_period_seconds = Fin (1 / 100), cc_drive_ratio = Fin 6,
      cc_drive_efficiency = Fin (1 / 2), cc_request_deadband = Fin (1 / 10), cc_speed_direction_threshold = Fin (1 / 5),
      cc_forward_wheel_speed_sign = Fin (- 1),
      cc_drive_speed_nodes = map Fin [100, 200, 300, 400, 500, 600, 700, 800, 900, 1000],
      cc_traction = sample_table (Some (Fin 120)), cc_regeneration = sample_table None\<rparr>"

lemma node_indices: "[0..<10] = [0, 1, 2, 3, 4, 5, 6, 7, 8, 9 :: nat]"
  by (simp add: upt_rec)

lemma sample_conditioner_ok: "conditioner_ok sample_conditioner"
  by (simp add: conditioner_ok_def make_conditioner_def bindS_eq_Inr validate_conditioner_config_def
      table_sized_def sample_conditioner_def sample_table_def speed_node_count_def validate_speed_nodes_def
      validate_direction_table_def node_indices)

lemma sample_limits_within: "limits_within 120 sample_conditioner"
  by (auto simp: limits_within_def sample_conditioner_def sample_table_def value_or_def speed_node_count_def
      nth_Cons split: nat.splits)

text \<open>C30: One sample of one channel of an accepted conditioner.  The new drive-side torque
  is finite and goes exactly as far towards the target as the rates allow: it lies between
  the old one and the target, it is reachable within one sample period at the interpolated
  rates of the half-axes - where a zero crossing spends part of the period on bringing the
  old magnitude down to zero - and no other reachable torque on that way is farther from the
  old one.  So it is the target whenever that is reachable, and there is only one such torque.
  The slew flag is set exactly when the target is not reached.\<close>
theorem channel_slews_to_target:
  assumes "conditioner_ok c" "isfinite torque" "isfinite speed" "isfinite previous"
  shows "isfinite (ch_memory (condition_channel c torque speed previous))
     \<and> advance_spec (channel_increase c speed) (channel_decrease c speed) (to_real (cc_sample_period_seconds c))
         (to_real previous) (to_real (signed_target c torque speed))
         (to_real (ch_memory (condition_channel c torque speed previous)))
     \<and> (has_flag (ch_flags (condition_channel c torque speed previous)) flag_slew_limited
         \<longleftrightarrow> ch_memory (condition_channel c torque speed previous) \<noteq> signed_target c torque speed)"
  using channel_spec [OF assms] by blast

theorem channel_slews_to_target_witness:
  "advance_spec (channel_increase sample_conditioner (Fin (- 3))) (channel_decrease sample_conditioner (Fin (- 3)))
     (1 / 100) 4 (to_real (signed_target sample_conditioner (Fin 60) (Fin (- 3))))
     (to_real (ch_memory (condition_channel sample_conditioner (Fin 60) (Fin (- 3)) (Fin 4))))"
proof -
  have "cc_sample_period_seconds sample_conditioner = Fin (1 / 100)"
    by (simp add: sample_conditioner_def)
  then show ?thesis
    using channel_slews_to_target [OF sample_conditioner_ok, of "Fin 60" "Fin (- 3)" "Fin 4"] by simp
qed

text \<open>C31: An accepted conditioner never fails on finite requests and speeds, and never
  delivers more than its tables allow: if \<open>D\<close> bounds every dynamic limit of both
  direction tables and the memory starts within \<open>D\<close>, a run over any events returns
  eight torques per event, each of magnitude at most \<open>D\<close> times drive ratio times
  efficiency, and leaves a memory within \<open>D\<close>.  Interpolation between nodes, the
  clamped lookup outside the nodes and missing limits do not break the bound.\<close>
theorem conditioner_run_bounded:
  assumes "conditioner_ok c" "limits_within D c" "memory_ok D ms"
    and "\<forall>(ts, ws) \<in> set es. finite_array drive_channel_count ts \<and> finite_array drive_channel_count ws"
  shows "\<exists>outs ms'. conditioner_run c es ms = Inr (outs, ms') \<and> memory_ok D ms' \<and> length outs = length es
      \<and> (\<forall>os \<in> set outs. length os = drive_channel_count \<and> list_all (bounded_by (wheel_torque_bound c D)) os)"
  using conditioner_run_ok [OF assms(1,2,4,3)] .

theorem conditioner_run_bounded_witness:
  "\<exists>outs ms'. conditioner_run sample_conditioner
       [(replicate 8 (Fin 900), replicate 8 (Fin (- 40))), (replicate 8 (Fin (- 900)), replicate 8 (Fin 2))]
       (replicate drive_channel_count 0) = Inr (outs, ms') \<and> memory_ok 120 ms' \<and> length outs = 2"
proof -
  have "finite_array drive_channel_count (replicate 8 (Fin x))" for x
    by (simp add: finite_array_def drive_channel_count_def)
  then show ?thesis
    using conditioner_run_bounded [OF sample_conditioner_ok sample_limits_within initial_memory_ok,
        of "[(replicate 8 (Fin 900), replicate 8 (Fin (- 40))), (replicate 8 (Fin (- 900)), replicate 8 (Fin 2))]"]
    by auto
qed

end
