(* ===== verification/Event_Session.thy ===== *)
theory Event_Session
  imports System_Assembly Drive_Torque
begin

section \<open>Event sessions of the independently rotating wheel vehicle\<close>

text \<open>
  What the two event sessions of \<open>libs/configuration\<close> share: the closed topology they
  insist on (\<open>irw_closed_topology.h\<close>), the vehicle they are bound to, the phases of a
  session, and its protocol.  A session commits control events to an accepted context
  at the integer grid of its sample period and blocks every advance until the event is
  committed and the backend synchronized.

  \<open>event_session\<close> is the contract of the two event functions of a session, and
  \<open>session_step\<close> the steps a session and the context it commits to can take together;
  the advance of the context is any change that keeps the held torques.  The log of
  committed audits is history, not state of the program.
\<close>

subsection \<open>The closed topology\<close>

record interface_topology =
  it_interface_name :: string
  it_carrier_body_name :: string
  it_wheel_body_name :: string
  it_revolute_joint_name :: string
  it_reaction_frame_body_name :: string

definition closed_carrier_names :: "string list" where
  "closed_carrier_names = [''axlebridge_ff'', ''axlebridge_fr'', ''axlebridge_rf'', ''axlebridge_rr'']"

definition closed_interface :: "string \<Rightarrow> string \<Rightarrow> string \<Rightarrow> interface_topology" where
  "closed_interface suffix axle frame =
     \<lparr>it_interface_name = ''wheel_'' @ suffix, it_carrier_body_name = ''axlebridge_'' @ axle,
      it_wheel_body_name = ''wheel_'' @ suffix, it_revolute_joint_name = ''rev_wheel_'' @ suffix,
      it_reaction_frame_body_name = ''frame_'' @ frame\<rparr>"

definition closed_interfaces :: "interface_topology list" where
  "closed_interfaces =
     [closed_interface ''ff_l'' ''ff'' ''front'', closed_interface ''ff_r'' ''ff'' ''front'',
      closed_interface ''fr_l'' ''fr'' ''front'', closed_interface ''fr_r'' ''fr'' ''front'',
      closed_interface ''rf_l'' ''rf'' ''rear'', closed_interface ''rf_r'' ''rf'' ''rear'',
      closed_interface ''rr_l'' ''rr'' ''rear'', closed_interface ''rr_r'' ''rr'' ''rear'']"

subsection \<open>The assembled vehicle\<close>

text \<open>The names the contact plan publishes, and the vehicle as a session sees it: its
  system, its two plans if it has them, and the velocity range of a named joint.  The
  track frame at a station is a parameter.\<close>

record contact_plan_names =
  cpn_carriers :: "string list"
  cpn_interfaces :: "string list"

record assembled_vehicle =
  av_system :: system_instance
  av_contact :: "contact_plan_names option"
  av_torque :: "active_torque_plan option"
  av_joint_velocity_range :: "string \<Rightarrow> state_range outcome"
  av_track_frame :: "double \<Rightarrow> (mat3 \<times> vec3) outcome"

definition require_closed_counts :: "assembled_vehicle \<Rightarrow> (contact_plan_names \<times> active_torque_plan) outcome" where
  "require_closed_counts av =
     (case (av_contact av, av_torque av) of
        (Some contact, Some torque) \<Rightarrow>
          if length (cpn_carriers contact) \<noteq> length closed_carrier_names
             \<or> length (cpn_interfaces contact) \<noteq> length closed_interfaces
             \<or> channel_count torque \<noteq> length closed_interfaces
             \<or> sd_held (si_description (av_system av)) \<noteq> length closed_interfaces
          then Inl InvalidArgument else Inr (contact, torque)
      | _ \<Rightarrow> Inl InvalidArgument)"

definition require_carrier_order :: "contact_plan_names \<Rightarrow> unit outcome" where
  "require_carrier_order contact =
     all_checks (map2 (\<lambda>a b. reject_if (a \<noteq> b) InvalidArgument) (cpn_carriers contact) closed_carrier_names)"

definition interface_identity :: "contact_plan_names \<Rightarrow> active_torque_plan \<Rightarrow> nat \<Rightarrow> bool" where
  "interface_identity contact torque k =
     (let expected = closed_interfaces ! k; d = tb_definition (atp_bindings torque ! k)
      in cpn_interfaces contact ! k = it_interface_name expected
         \<and> td_channel_name d = it_interface_name expected
         \<and> td_axis_provider d = it_carrier_body_name expected
         \<and> td_wheel d = it_wheel_body_name expected
         \<and> td_reaction d = it_reaction_frame_body_name expected)"

definition closed_joint_ranges :: "assembled_vehicle \<Rightarrow> state_range list outcome" where
  "closed_joint_ranges av = mapS (\<lambda>i. av_joint_velocity_range av (it_revolute_joint_name i)) closed_interfaces"

subsection \<open>Time\<close>

text \<open>\<open>static_cast<double>(ordinal) * sample_period\<close>, and bit equality of two times.\<close>

definition event_time :: "u64 \<Rightarrow> double \<Rightarrow> double" where
  "event_time ordinal period = Fin (real (unat ordinal)) * period"

definition same_bits :: "double \<Rightarrow> double \<Rightarrow> bool" where
  "same_bits a b \<longleftrightarrow> a = b"

definition frozen_sample_period :: double where
  "frozen_sample_period = Fin (1 / 100)"

subsection \<open>Phases and protocol\<close>

datatype phase = InitializationRequired | PeriodicEventRequired | SynchronizationRequired | ReadyToAdvance

record 'k session =
  es_controller_state :: 'k
  es_memory :: vec
  es_ordinal :: u64
  es_phase :: phase

definition new_session :: "'k \<Rightarrow> 'k session" where
  "new_session controller = \<lparr>es_controller_state = controller, es_memory = replicate drive_channel_count 0,
     es_ordinal = 0, es_phase = InitializationRequired\<rparr>"

definition synchronization_required :: "'k session \<Rightarrow> bool" where
  "synchronization_required s \<longleftrightarrow> es_phase s = SynchronizationRequired"

definition confirm_backend_synchronized :: "('k session, unit) effect" where
  "confirm_backend_synchronized s =
     (if es_phase s \<noteq> SynchronizationRequired then (Inl InvalidArgument, s)
      else (Inr (), s\<lparr>es_phase := ReadyToAdvance\<rparr>))"

definition require_ready_to_advance :: "'k session \<Rightarrow> unit outcome" where
  "require_ready_to_advance s = reject_if (es_phase s \<noteq> ReadyToAdvance) InvalidArgument"

text \<open>What a committed event tells of itself.  \<open>vw_applied\<close> are the torques written to
  the context, if it writes any.\<close>

record 'k event_view =
  vw_ordinal :: u64
  vw_time :: double
  vw_controller_before :: 'k
  vw_memory_before :: vec
  vw_controller_after :: 'k
  vw_memory_after :: vec
  vw_applied :: "vec option"

type_synonym ('k, 'a) event = "('k session \<times> system_context, 'a) effect"

definition committed_context :: "'k event_view \<Rightarrow> system_context \<Rightarrow> system_context" where
  "committed_context v c = (case vw_applied v of None \<Rightarrow> c | Some torques \<Rightarrow> c\<lparr>sc_held := torques\<rparr>)"

definition committed_session :: "'k event_view \<Rightarrow> u64 \<Rightarrow> phase \<Rightarrow> 'k session" where
  "committed_session v ordinal ph =
     \<lparr>es_controller_state = vw_controller_after v, es_memory = vw_memory_after v, es_ordinal = ordinal, es_phase = ph\<rparr>"

definition reads_memory :: "'k event_view \<Rightarrow> 'k session \<Rightarrow> bool" where
  "reads_memory v s \<longleftrightarrow> vw_controller_before v = es_controller_state s \<and> vw_memory_before v = es_memory s"

inductive session_step ::
  "('k, 'a) event \<Rightarrow> ('k, 'a) event \<Rightarrow> ('k session \<times> system_context \<times> 'a list)
     \<Rightarrow> ('k session \<times> system_context \<times> 'a list) \<Rightarrow> bool"
  for initialize periodic where
  step_initialize: "initialize (s, c) = (Inr a, (s', c')) \<Longrightarrow>
     session_step initialize periodic (s, c, l) (s', c', l @ [a])"
| step_initialize_fails: "initialize (s, c) = (Inl e, (s', c')) \<Longrightarrow>
     session_step initialize periodic (s, c, l) (s', c', l)"
| step_periodic: "periodic (s, c) = (Inr a, (s', c')) \<Longrightarrow>
     session_step initialize periodic (s, c, l) (s', c', l @ [a])"
| step_periodic_fails: "periodic (s, c) = (Inl e, (s', c')) \<Longrightarrow>
     session_step initialize periodic (s, c, l) (s', c', l)"
| step_confirm: "confirm_backend_synchronized s = (r, s') \<Longrightarrow>
     session_step initialize periodic (s, c, l) (s', c, l)"
| step_advance: "require_ready_to_advance s = Inr () \<Longrightarrow> sc_held c' = sc_held c \<Longrightarrow>
     session_step initialize periodic (s, c, l) (s, c', l)"

inductive_cases session_stepE: "session_step initialize periodic (s, c, l) (s', c', l')"

inductive session_reach ::
  "('k, 'a) event \<Rightarrow> ('k, 'a) event \<Rightarrow> 'k \<Rightarrow> system_context
     \<Rightarrow> ('k session \<times> system_context \<times> 'a list) \<Rightarrow> bool"
  for initialize periodic k0 c0 where
  reach_start: "session_reach initialize periodic k0 c0 (new_session k0, c0, [])"
| reach_step: "session_reach initialize periodic k0 c0 x \<Longrightarrow> session_step initialize periodic x y \<Longrightarrow>
     session_reach initialize periodic k0 c0 y"

subsection \<open>The log of a session\<close>

text \<open>The memory after a log, the torques held after it, and the log as a chain: the
  events carry the ordinals in order, their times lie on the grid, and each starts from
  the memory its predecessor left.\<close>

fun memory_after :: "('a \<Rightarrow> 'k event_view) \<Rightarrow> 'k \<times> vec \<Rightarrow> 'a list \<Rightarrow> 'k \<times> vec" where
  "memory_after view m [] = m"
| "memory_after view m (a # l) = memory_after view (vw_controller_after (view a), vw_memory_after (view a)) l"

fun held_after :: "('a \<Rightarrow> 'k event_view) \<Rightarrow> vec \<Rightarrow> 'a list \<Rightarrow> vec" where
  "held_after view h [] = h"
| "held_after view h (a # l) = held_after view (case vw_applied (view a) of None \<Rightarrow> h | Some t \<Rightarrow> t) l"

fun chained :: "('a \<Rightarrow> 'k event_view) \<Rightarrow> 'k \<times> vec \<Rightarrow> 'a list \<Rightarrow> bool" where
  "chained view m [] = True"
| "chained view m (a # l) = ((vw_controller_before (view a), vw_memory_before (view a)) = m
     \<and> chained view (vw_controller_after (view a), vw_memory_after (view a)) l)"

lemma memory_after_snoc: "memory_after view m (l @ [a]) = (vw_controller_after (view a), vw_memory_after (view a))"
  by (induction view m l rule: memory_after.induct) auto

lemma held_after_snoc: "held_after view h (l @ [a]) = (case vw_applied (view a) of None \<Rightarrow> held_after view h l | Some t \<Rightarrow> t)"
  by (induction view h l rule: held_after.induct) (auto split: option.splits)

lemma chained_snoc: "chained view m (l @ [a]) \<longleftrightarrow> chained view m l
    \<and> (vw_controller_before (view a), vw_memory_before (view a)) = memory_after view m l"
  by (induction view m l rule: memory_after.induct) auto

text \<open>The ordinal of the \<open>k\<close>-th event of a log: a session whose initialization counts as
  event zero numbers its events from zero on, one whose initialization is a recurrence
  of its own reuses ordinal zero for its first periodic event.\<close>

definition logged_ordinal :: "bool \<Rightarrow> nat \<Rightarrow> u64" where
  "logged_ordinal counted k = (if counted then of_nat k else of_nat (k - 1))"

definition on_grid :: "('a \<Rightarrow> 'k event_view) \<Rightarrow> bool \<Rightarrow> double \<Rightarrow> 'a list \<Rightarrow> bool" where
  "on_grid view counted period l \<longleftrightarrow> (\<forall>k < length l.
     vw_ordinal (view (l ! k)) = logged_ordinal counted k
     \<and> vw_time (view (l ! k)) = event_time (logged_ordinal counted k) period)"

lemma on_grid_snoc: "on_grid view counted period (l @ [a]) \<longleftrightarrow> on_grid view counted period l
    \<and> vw_ordinal (view a) = logged_ordinal counted (length l)
    \<and> vw_time (view a) = event_time (logged_ordinal counted (length l)) period"
  by (auto simp: on_grid_def nth_append less_Suc_eq)

definition session_inv ::
  "('a \<Rightarrow> 'k event_view) \<Rightarrow> bool \<Rightarrow> double \<Rightarrow> 'k \<Rightarrow> vec \<Rightarrow> 'k session \<times> system_context \<times> 'a list \<Rightarrow> bool" where
  "session_inv view counted period k0 h0 x = (case x of (s, c, l) \<Rightarrow>
     (es_phase s = InitializationRequired \<longleftrightarrow> l = [])
     \<and> es_ordinal s = logged_ordinal counted (length l)
     \<and> (es_controller_state s, es_memory s) = memory_after view (k0, replicate drive_channel_count 0) l
     \<and> sc_held c = held_after view h0 l
     \<and> chained view (k0, replicate drive_channel_count 0) l
     \<and> on_grid view counted period l)"

subsection \<open>The contract of a session's events\<close>

locale event_session =
  fixes initialize periodic :: "('k, 'a) event"
    and view :: "'a \<Rightarrow> 'k event_view"
    and counted :: bool
    and period :: double
  assumes initialize_refused: "initialize (s, c) = (Inl e, x) \<Longrightarrow> x = (s, c)"
    and initialize_done: "isfinite period \<Longrightarrow> initialize (s, c) = (Inr a, (s', c')) \<Longrightarrow>
      es_phase s = InitializationRequired \<and> sc_time c = 0 \<and> reads_memory (view a) s
      \<and> vw_ordinal (view a) = 0 \<and> vw_time (view a) = event_time 0 period
      \<and> c' = committed_context (view a) c
      \<and> s' = committed_session (view a) (if counted then 1 else es_ordinal s)
                (if counted then SynchronizationRequired else PeriodicEventRequired)"
    and periodic_refused: "periodic (s, c) = (Inl e, x) \<Longrightarrow>
      x = (s, c) \<or> es_phase s \<in> {PeriodicEventRequired, ReadyToAdvance}
        \<and> sc_time c = event_time (es_ordinal s) period \<and> x = (s\<lparr>es_phase := PeriodicEventRequired\<rparr>, c)"
    and periodic_done: "periodic (s, c) = (Inr a, (s', c')) \<Longrightarrow>
      es_phase s \<in> {PeriodicEventRequired, ReadyToAdvance} \<and> sc_time c = event_time (es_ordinal s) period
      \<and> reads_memory (view a) s \<and> vw_ordinal (view a) = es_ordinal s
      \<and> vw_time (view a) = event_time (es_ordinal s) period
      \<and> c' = committed_context (view a) c
      \<and> s' = committed_session (view a) (es_ordinal s + 1) SynchronizationRequired"
begin

lemma start_inv: "session_inv view counted period k0 (sc_held c0) (new_session k0, c0, [])"
  by (simp add: session_inv_def new_session_def logged_ordinal_def on_grid_def)

lemma next_ordinal: "l \<noteq> [] \<Longrightarrow> logged_ordinal counted (length l) + 1 = logged_ordinal counted (Suc (length l))"
  by (cases l) (simp_all add: logged_ordinal_def)

lemma held_committed: "sc_held (committed_context v c) = (case vw_applied v of None \<Rightarrow> sc_held c | Some t \<Rightarrow> t)"
  by (simp add: committed_context_def split: option.splits)

lemma step_inv:
  assumes fin: "isfinite period" and step: "session_step initialize periodic x y" and inv: "session_inv view counted period k0 h0 x"
  shows "session_inv view counted period k0 h0 y"
  using step
proof cases
  case (step_initialize s c a s' c' l)
  have "es_phase s = InitializationRequired" using initialize_done [OF fin step_initialize(3)] by blast
  then have "l = []" using inv step_initialize(1) by (simp add: session_inv_def)
  then show ?thesis
    using inv step_initialize initialize_done [OF fin step_initialize(3)]
    by (auto simp: session_inv_def reads_memory_def committed_session_def held_committed logged_ordinal_def
        on_grid_def)
next
  case (step_initialize_fails s c e s' c' l)
  then show ?thesis using inv initialize_refused by blast
next
  case (step_periodic s c a s' c' l)
  note D = periodic_done [OF step_periodic(3)]
  have "l \<noteq> []" using inv step_periodic(1) D by (auto simp: session_inv_def)
  then show ?thesis
    using inv step_periodic D next_ordinal
    by (auto simp: session_inv_def reads_memory_def committed_session_def held_committed
        memory_after_snoc held_after_snoc chained_snoc on_grid_snoc split: option.splits)
next
  case (step_periodic_fails s c e s' c' l)
  then show ?thesis using inv periodic_refused [OF step_periodic_fails(3)] by (auto simp: session_inv_def)
next
  case (step_confirm s r s' c l)
  then show ?thesis
    using inv by (auto simp: session_inv_def confirm_backend_synchronized_def split: if_splits)
next
  case (step_advance s c' c l)
  then show ?thesis using inv by (simp add: session_inv_def)
qed

lemma reach_inv:
  "isfinite period \<Longrightarrow> session_reach initialize periodic k0 c0 x \<Longrightarrow> session_inv view counted period k0 (sc_held c0) x"
  by (rotate_tac, induction rule: session_reach.induct) (blast intro: start_inv step_inv)+

text \<open>An event that is due and refused stays due: nothing is written, and the session
  does not let the vehicle advance.\<close>

lemma refused_blocks:
  assumes "periodic (s, c) = (Inl e, (s', c'))" and "es_phase s \<in> {PeriodicEventRequired, ReadyToAdvance}"
  shows "c' = c \<and> es_controller_state s' = es_controller_state s \<and> es_memory s' = es_memory s
    \<and> es_ordinal s' = es_ordinal s \<and> (s' = s \<or> require_ready_to_advance s' = Inl InvalidArgument)"
  using periodic_refused [OF assms(1)] by (auto simp: require_ready_to_advance_def)

text \<open>Between two committed events the vehicle can only advance after the backend has
  been synchronized.\<close>

lemma committed_needs_synchronization:
  assumes "periodic (s, c) = (Inr a, (s', c'))"
  shows "synchronization_required s'" "require_ready_to_advance s' = Inl InvalidArgument"
    "require_ready_to_advance (snd (confirm_backend_synchronized s')) = Inr ()"
  using periodic_done [OF assms]
  by (simp_all add: synchronization_required_def require_ready_to_advance_def confirm_backend_synchronized_def
      committed_session_def)

end

end
