(* ===== verification/Cruise_Session.thy ===== *)
theory Cruise_Session
  imports Event_Session
begin

section \<open>The longitudinal cruise event session\<close>

text \<open>
  \<open>libs/configuration/src/irw_longitudinal_cruise_event_session.cc\<close>: at every event the
  session observes the eight wheel joint rates of the accepted context, steps the
  cruise controller on their common forward speed, conditions the one requested torque
  on eight channels and writes the result as held torques.  The initialization event is
  event zero: it writes torques and must be followed by a synchronization.
\<close>

datatype event_kind = EventInitialization | EventPeriodic

record cruise_session_config =
  cs_vehicle :: assembled_vehicle
  cs_controller :: cruise_config
  cs_conditioner :: conditioner_config
  cs_ranges :: "state_range list"
  cs_signs :: vec
  cs_radius :: double
  cs_period :: double

record wheel_speed_observation =
  wo_raw_joint_rates :: vec
  wo_forward_speeds :: vec
  wo_conditioner_speeds :: vec
  wo_common_forward_speed :: double

record cruise_audit =
  ca_kind :: event_kind
  ca_ordinal :: u64
  ca_event_time :: double
  ca_observation :: wheel_speed_observation
  ca_controller_before :: cruise_state
  ca_memory_before :: vec
  ca_controller_result :: cruise_result
  ca_requested_torques :: vec
  ca_conditioning :: conditioning_result

subsection \<open>Construction\<close>

definition cruise_resolve_binding :: "assembled_vehicle \<Rightarrow> state_range list outcome" where
  "cruise_resolve_binding av =
     bindS (require_closed_counts av) (\<lambda>(contact, torque).
     bindS (require_carrier_order contact) (\<lambda>_.
     bindS (closed_joint_ranges av) (\<lambda>ranges.
     bindS (all_checks (concat (map (\<lambda>k.
              [reject_if (\<not> interface_identity contact torque k) InvalidArgument,
               reject_if (range_size (ranges ! k) \<noteq> 1) InvalidArgument]) [0..<length closed_interfaces]))) (\<lambda>_.
     Inr ranges))))"

text \<open>The controller and the conditioner are objects their own constructors accepted.\<close>

definition make_cruise_session ::
  "assembled_vehicle \<Rightarrow> cruise_config \<Rightarrow> double \<Rightarrow> vec \<Rightarrow> conditioner_config \<Rightarrow> cruise_session_config outcome" where
  "make_cruise_session av controller radius signs conditioner =
     bindS (cruise_resolve_binding av) (\<lambda>ranges.
     let period = cruise_sample_period_seconds controller
     in bindS (all_checks
          ([reject_if (\<not> isfinite radius \<or> \<not> 0 < radius) InvalidArgument] @
           map (\<lambda>sign. reject_if (\<not> feq sign (- 1) \<and> \<not> feq sign 1) InvalidArgument) signs @
           [reject_if (\<not> same_bits period (cc_sample_period_seconds conditioner)
                       \<or> \<not> same_bits period frozen_sample_period) InvalidArgument,
            reject_if (\<not> feq (cc_forward_wheel_speed_sign conditioner) (- 1)) InvalidArgument]))
        (\<lambda>_. Inr \<lparr>cs_vehicle = av, cs_controller = controller, cs_conditioner = conditioner,
                  cs_ranges = ranges, cs_signs = signs, cs_radius = radius, cs_period = period\<rparr>))"

definition new_cruise_session :: "cruise_state session" where
  "new_cruise_session = new_session initial_cruise_state"

definition cruise_next_event_time :: "cruise_session_config \<Rightarrow> cruise_state session \<Rightarrow> double" where
  "cruise_next_event_time cfg s = event_time (es_ordinal s) (cs_period cfg)"

subsection \<open>Observation and candidate\<close>

definition observe_wheel_speeds ::
  "cruise_session_config \<Rightarrow> system_context \<Rightarrow> wheel_speed_observation outcome" where
  "observe_wheel_speeds cfg c =
     bindS (reject_if (length (sc_velocities c) \<noteq> nat (mm_nv (si_model (av_system (cs_vehicle cfg))))) InvalidArgument) (\<lambda>_.
     let raw = map (\<lambda>r. sc_velocities c ! range_start r) (cs_ranges cfg);
         forward = map2 (\<lambda>sign rate. sign * rate * cs_radius cfg) (cs_signs cfg) raw;
         scalars = map uminus raw
     in bindS (all_checks (map require_finite_array [raw, forward, scalars])) (\<lambda>_.
        let common = foldl (+) 0 forward / Fin (real (length (cs_ranges cfg)))
        in bindS (reject_if (\<not> isfinite common) InvalidArgument) (\<lambda>_.
           Inr \<lparr>wo_raw_joint_rates = raw, wo_forward_speeds = forward,
                wo_conditioner_speeds = scalars, wo_common_forward_speed = common\<rparr>)))"

definition cruise_candidate ::
  "cruise_session_config \<Rightarrow> event_kind \<Rightarrow> u64 \<Rightarrow> double \<Rightarrow> cruise_state session \<Rightarrow> system_context \<Rightarrow> cruise_audit outcome" where
  "cruise_candidate cfg kind ordinal time s c =
     bindS (observe_wheel_speeds cfg c) (\<lambda>o'.
     bindS (cruise_step (cs_controller cfg) (wo_common_forward_speed o') (cruise_target_speed (cs_controller cfg))
              (es_controller_state s)) (\<lambda>r.
     let requested = replicate drive_channel_count (cruise_requested_torque r)
     in bindS (conditioner_step (cs_conditioner cfg) requested (wo_conditioner_speeds o') (es_memory s)) (\<lambda>cond.
        Inr \<lparr>ca_kind = kind, ca_ordinal = ordinal, ca_event_time = time, ca_observation = o',
             ca_controller_before = es_controller_state s, ca_memory_before = es_memory s,
             ca_controller_result = r, ca_requested_torques = requested, ca_conditioning = cond\<rparr>)))"

definition cruise_view :: "cruise_audit \<Rightarrow> cruise_state event_view" where
  "cruise_view a =
     \<lparr>vw_ordinal = ca_ordinal a, vw_time = ca_event_time a,
      vw_controller_before = ca_controller_before a, vw_memory_before = ca_memory_before a,
      vw_controller_after = cruise_next_state (ca_controller_result a),
      vw_memory_after = next_drive_side_memory (ca_conditioning a),
      vw_applied = Some (actual_wheel_torques (ca_conditioning a))\<rparr>"

subsection \<open>The events\<close>

definition cruise_commit ::
  "cruise_session_config \<Rightarrow> u64 \<Rightarrow> cruise_audit outcome \<Rightarrow> cruise_state session \<Rightarrow> system_context
   \<Rightarrow> cruise_audit outcome \<times> (cruise_state session \<times> system_context)" where
  "cruise_commit cfg next_ordinal candidate s c =
     (case candidate of
        Inl e \<Rightarrow> (Inl e, (s, c))
      | Inr a \<Rightarrow>
          (case set_held_torques (av_system (cs_vehicle cfg)) (actual_wheel_torques (ca_conditioning a)) c of
             (Inl e, c') \<Rightarrow> (Inl e, (s, c'))
           | (Inr _, c') \<Rightarrow>
               (Inr a, (s\<lparr>es_controller_state := cruise_next_state (ca_controller_result a),
                          es_memory := next_drive_side_memory (ca_conditioning a),
                          es_ordinal := next_ordinal, es_phase := SynchronizationRequired\<rparr>, c'))))"

definition cruise_initialize :: "cruise_session_config \<Rightarrow> (cruise_state, cruise_audit) event" where
  "cruise_initialize cfg = (\<lambda>(s, c).
     if es_phase s \<noteq> InitializationRequired then (Inl InvalidArgument, (s, c))
     else if \<not> same_bits (sc_time c) 0 then (Inl InvalidArgument, (s, c))
     else cruise_commit cfg 1 (cruise_candidate cfg EventInitialization 0 0 s c) s c)"

definition cruise_periodic :: "cruise_session_config \<Rightarrow> (cruise_state, cruise_audit) event" where
  "cruise_periodic cfg = (\<lambda>(s, c).
     if es_phase s = InitializationRequired then (Inl InvalidArgument, (s, c))
     else if es_phase s = SynchronizationRequired then (Inl InvalidArgument, (s, c))
     else let expected = cruise_next_event_time cfg s
          in if \<not> same_bits (sc_time c) expected then (Inl InvalidArgument, (s, c))
             else let due = s\<lparr>es_phase := PeriodicEventRequired\<rparr>
                  in cruise_commit cfg (es_ordinal s + 1)
                       (cruise_candidate cfg EventPeriodic (es_ordinal due) expected due c) due c)"

lemma cruise_candidate_Inr:
  assumes "cruise_candidate cfg kind ordinal time s c = Inr a"
  shows "ca_ordinal a = ordinal" "ca_event_time a = time" "ca_controller_before a = es_controller_state s"
    "ca_memory_before a = es_memory s"
  using assms by (auto simp: cruise_candidate_def bindS_eq_Inr Let_def)

lemma cruise_commit_Inl:
  assumes "cruise_commit cfg n x s c = (Inl e, y)"
  shows "y = (s, c)"
  using assms atomicD [of "set_held_torques sys h" for sys h]
  by (auto simp: cruise_commit_def set_held_torques_def effect_outcome forE_reject_run
      split: sum.splits prod.splits if_splits)

lemma cruise_commit_Inr:
  assumes "cruise_commit cfg n x s c = (Inr a, (s', c'))"
  shows "x = Inr a" "c' = committed_context (cruise_view a) c"
    "s' = committed_session (cruise_view a) n SynchronizationRequired"
  using assms
  by (auto simp: cruise_commit_def set_held_torques_Inr committed_context_def committed_session_def cruise_view_def
      split: sum.splits prod.splits)

interpretation cruise_events: event_session "cruise_initialize cfg" "cruise_periodic cfg" cruise_view True "cs_period cfg"
  for cfg
proof
  fix s c e x a s' c'
  show "cruise_initialize cfg (s, c) = (Inl e, x) \<Longrightarrow> x = (s, c)"
    by (auto simp: cruise_initialize_def dest: cruise_commit_Inl split: if_splits)
  show "es_phase s = InitializationRequired \<and> sc_time c = 0 \<and> reads_memory (cruise_view a) s
      \<and> vw_ordinal (cruise_view a) = 0 \<and> vw_time (cruise_view a) = event_time 0 (cs_period cfg)
      \<and> c' = committed_context (cruise_view a) c
      \<and> s' = committed_session (cruise_view a) (if True then 1 else es_ordinal s)
                (if True then SynchronizationRequired else PeriodicEventRequired)"
    if "isfinite (cs_period cfg)" "cruise_initialize cfg (s, c) = (Inr a, (s', c'))"
  proof -
    from that(2) have r: "cruise_commit cfg 1 (cruise_candidate cfg EventInitialization 0 0 s c) s c = (Inr a, (s', c'))"
      and p: "es_phase s = InitializationRequired" "sc_time c = 0"
      by (auto simp: cruise_initialize_def same_bits_def split: if_splits)
    show ?thesis
      using p cruise_commit_Inr [OF r] cruise_candidate_Inr [OF cruise_commit_Inr(1) [OF r]] that(1)
      by (auto simp: reads_memory_def cruise_view_def event_time_def isfinite_iff)
  qed
  show "cruise_periodic cfg (s, c) = (Inl e, x) \<Longrightarrow>
      x = (s, c) \<or> es_phase s \<in> {PeriodicEventRequired, ReadyToAdvance}
        \<and> sc_time c = event_time (es_ordinal s) (cs_period cfg) \<and> x = (s\<lparr>es_phase := PeriodicEventRequired\<rparr>, c)"
    by (cases "es_phase s") (auto simp: cruise_periodic_def cruise_next_event_time_def same_bits_def Let_def
        dest: cruise_commit_Inl split: if_splits)
  show "es_phase s \<in> {PeriodicEventRequired, ReadyToAdvance} \<and> sc_time c = event_time (es_ordinal s) (cs_period cfg)
      \<and> reads_memory (cruise_view a) s \<and> vw_ordinal (cruise_view a) = es_ordinal s
      \<and> vw_time (cruise_view a) = event_time (es_ordinal s) (cs_period cfg)
      \<and> c' = committed_context (cruise_view a) c
      \<and> s' = committed_session (cruise_view a) (es_ordinal s + 1) SynchronizationRequired"
    if "cruise_periodic cfg (s, c) = (Inr a, (s', c'))"
  proof -
    let ?due = "s\<lparr>es_phase := PeriodicEventRequired\<rparr>"
    from that have r: "cruise_commit cfg (es_ordinal s + 1) (cruise_candidate cfg EventPeriodic (es_ordinal ?due)
         (event_time (es_ordinal s) (cs_period cfg)) ?due c) ?due c = (Inr a, (s', c'))"
      and p: "es_phase s \<in> {PeriodicEventRequired, ReadyToAdvance}" "sc_time c = event_time (es_ordinal s) (cs_period cfg)"
      by (cases "es_phase s"; auto simp: cruise_periodic_def cruise_next_event_time_def same_bits_def Let_def
          split: if_splits)+
    show ?thesis
      using p cruise_commit_Inr [OF r] cruise_candidate_Inr [OF cruise_commit_Inr(1) [OF r]]
      by (auto simp: reads_memory_def cruise_view_def)
  qed
qed

subsection \<open>A due event of an accepted session commits\<close>

text \<open>What the model guarantees of a joint's velocity range: it lies in the velocities.\<close>

definition joint_ranges_fit :: "assembled_vehicle \<Rightarrow> bool" where
  "joint_ranges_fit av \<longleftrightarrow> (\<forall>name r. av_joint_velocity_range av name = Inr r \<longrightarrow>
     range_start r + range_size r \<le> nat (mm_nv (si_model (av_system av))))"

definition cruise_session_ok :: "cruise_session_config \<Rightarrow> bool" where
  "cruise_session_ok cfg \<longleftrightarrow>
     make_cruise_session (cs_vehicle cfg) (cs_controller cfg) (cs_radius cfg) (cs_signs cfg) (cs_conditioner cfg) = Inr cfg
     \<and> length (cs_signs cfg) = drive_channel_count
     \<and> cruise_config_ok (cs_controller cfg) \<and> conditioner_ok (cs_conditioner cfg)
     \<and> joint_ranges_fit (cs_vehicle cfg) \<and> system_ok (av_system (cs_vehicle cfg))"

definition cruise_memory_ok :: "real \<Rightarrow> cruise_session_config \<Rightarrow> cruise_state session \<Rightarrow> bool" where
  "cruise_memory_ok D cfg s \<longleftrightarrow> cruise_state_ok (cs_controller cfg) (es_controller_state s) \<and> memory_ok D (es_memory s)"

lemma length_closed_interfaces: "length closed_interfaces = drive_channel_count"
  by (simp add: closed_interfaces_def drive_channel_count_def)

lemma cruise_session_okD:
  assumes "cruise_session_ok cfg"
  shows "length (cs_ranges cfg) = drive_channel_count"
    "r \<in> set (cs_ranges cfg) \<Longrightarrow> range_start r < nat (mm_nv (si_model (av_system (cs_vehicle cfg))))"
    "length (cs_signs cfg) = drive_channel_count" "all_finite (cs_signs cfg)"
    "isfinite (cs_radius cfg)" "cs_period cfg = frozen_sample_period"
    "cruise_config_ok (cs_controller cfg)" "conditioner_ok (cs_conditioner cfg)"
    "system_ok (av_system (cs_vehicle cfg))"
    "sd_held (si_description (av_system (cs_vehicle cfg))) = drive_channel_count"
proof -
  let ?av = "cs_vehicle cfg"
  obtain ranges where m: "cruise_resolve_binding ?av = Inr ranges" "cs_ranges cfg = ranges"
    and signs: "\<forall>sign \<in> set (cs_signs cfg). feq sign (- 1) \<or> feq sign 1"
    and rest: "isfinite (cs_radius cfg)" "cs_period cfg = frozen_sample_period"
    using assms
    by (cases cfg) (auto simp: cruise_session_ok_def make_cruise_session_def bindS_eq_Inr Let_def
        all_checks_append all_checks_map_Inr same_bits_def split: sum.splits)
  obtain contact torque where b: "require_closed_counts ?av = Inr (contact, torque)"
    "closed_joint_ranges ?av = Inr ranges"
    "all_checks (concat (map (\<lambda>k. [reject_if (\<not> interface_identity contact torque k) InvalidArgument,
               reject_if (range_size (ranges ! k) \<noteq> 1) InvalidArgument]) [0..<length closed_interfaces])) = Inr ()"
    using m(1) by (auto simp: cruise_resolve_binding_def bindS_eq_Inr)
  show len: "length (cs_ranges cfg) = drive_channel_count"
    using b(2) m(2) by (auto simp: closed_joint_ranges_def length_closed_interfaces dest: mapS_length)
  have sizes: "range_size (ranges ! k) = 1" if "k < drive_channel_count" for k
    using b(3) that by (auto simp: all_checks_concat_Inr length_closed_interfaces)
  show "range_start r < nat (mm_nv (si_model (av_system ?av)))" if r: "r \<in> set (cs_ranges cfg)"
  proof -
    have "\<exists>i \<in> set closed_interfaces. av_joint_velocity_range ?av (it_revolute_joint_name i) = Inr r"
      using r unfolding m(2) by (rule mapS_mem [OF b(2) [unfolded closed_joint_ranges_def]])
    then obtain i :: interface_topology where i: "av_joint_velocity_range ?av (it_revolute_joint_name i) = Inr r" by blast
    obtain k where "k < drive_channel_count" "r = ranges ! k"
      using r m(2) len by (metis in_set_conv_nth)
    then have "range_size r = 1" using sizes by simp
    moreover have "range_start r + range_size r \<le> nat (mm_nv (si_model (av_system ?av)))"
      using assms i by (auto simp: cruise_session_ok_def joint_ranges_fit_def)
    ultimately show ?thesis by simp
  qed
  show "all_finite (cs_signs cfg)" using signs by (auto simp: all_finite_iff feq_def)
  show "sd_held (si_description (av_system ?av)) = drive_channel_count"
    using b(1) by (auto simp: require_closed_counts_def length_closed_interfaces split: option.splits if_splits)
  show "isfinite (cs_radius cfg)" "cs_period cfg = frozen_sample_period" by (rule rest)+
  show "length (cs_signs cfg) = drive_channel_count" "cruise_config_ok (cs_controller cfg)"
    "conditioner_ok (cs_conditioner cfg)" "system_ok (av_system ?av)"
    using assms by (simp_all add: cruise_session_ok_def)
qed

lemma context_velocities:
  assumes "context_wf sys c"
  shows "length (sc_velocities c) = nat (mm_nv (si_model sys))" "all_finite (sc_velocities c)"
  using assms by (auto simp: context_wf_def Let_def same_model_def mstate_wf_def mm_nv_def)

lemma foldl_add_finite: "isfinite a \<Longrightarrow> all_finite xs \<Longrightarrow> isfinite (foldl (+) a xs)"
  by (induction xs arbitrary: a) auto

lemma all_finite_map2:
  assumes "all_finite xs" "all_finite ys" "\<And>x y. isfinite x \<Longrightarrow> isfinite y \<Longrightarrow> isfinite (f x y)"
  shows "all_finite (map2 f xs ys)"
proof -
  have "isfinite (f x y)" if "(x, y) \<in> set (zip xs ys)" for x y
    using set_zip_leftD [OF that] set_zip_rightD [OF that] assms by (auto simp: all_finite_iff)
  then show ?thesis by (auto simp: all_finite_iff)
qed

lemma observe_wheel_speeds_ok:
  assumes cfg: "cruise_session_ok cfg" and c: "context_wf (av_system (cs_vehicle cfg)) c"
  obtains o' where "observe_wheel_speeds cfg c = Inr o'" "isfinite (wo_common_forward_speed o')"
    "finite_array drive_channel_count (wo_conditioner_speeds o')"
proof -
  note K = cruise_session_okD [OF cfg] and V = context_velocities [OF c]
  let ?raw = "map (\<lambda>r. sc_velocities c ! range_start r) (cs_ranges cfg)"
  let ?forward = "map2 (\<lambda>sign rate. sign * rate * cs_radius cfg) (cs_signs cfg) ?raw"
  have raw: "all_finite ?raw"
    using K(2) V by (auto simp: all_finite_iff)
  have scalars: "all_finite (map uminus ?raw)" using raw by (auto simp: all_finite_iff)
  have forward: "all_finite ?forward"
    using raw K(4,5) by (intro all_finite_map2) auto
  have checks: "all_checks (map require_finite_array [?raw, ?forward, map uminus ?raw]) = Inr ()"
    using raw forward scalars by (simp del: map_map)
  have n: "length (cs_ranges cfg) = 8" using K(1) by (simp add: drive_channel_count_def)
  have common: "isfinite (foldl (+) 0 ?forward / Fin (real (length (cs_ranges cfg))))"
    using foldl_add_finite [OF _ forward, of 0] n by (intro finite_divide_pos) auto
  show thesis
    by (rule that [of "\<lparr>wo_raw_joint_rates = ?raw, wo_forward_speeds = ?forward,
         wo_conditioner_speeds = map uminus ?raw,
         wo_common_forward_speed = foldl (+) 0 ?forward / Fin (real (length (cs_ranges cfg)))\<rparr>"])
      (use checks scalars common K(1) V(1) in
        \<open>simp_all del: list.map map_map add: observe_wheel_speeds_def Let_def finite_array_def\<close>)
qed

lemma cruise_candidate_ok:
  assumes cfg: "cruise_session_ok cfg" and D: "limits_within D (cs_conditioner cfg)"
    and c: "context_wf (av_system (cs_vehicle cfg)) c" and s: "cruise_memory_ok D cfg s"
  obtains a where "cruise_candidate cfg kind ordinal time s c = Inr a"
    "cruise_state_ok (cs_controller cfg) (cruise_next_state (ca_controller_result a))"
    "memory_ok D (next_drive_side_memory (ca_conditioning a))"
    "length (actual_wheel_torques (ca_conditioning a)) = drive_channel_count"
    "list_all (bounded_by (wheel_torque_bound (cs_conditioner cfg) D)) (actual_wheel_torques (ca_conditioning a))"
proof -
  note K = cruise_session_okD [OF cfg]
  obtain o' where o': "observe_wheel_speeds cfg c = Inr o'" "isfinite (wo_common_forward_speed o')"
      "finite_array drive_channel_count (wo_conditioner_speeds o')"
    by (rule observe_wheel_speeds_ok [OF cfg c])
  have st: "cruise_state_ok (cs_controller cfg) (es_controller_state s)" "memory_ok D (es_memory s)"
    using s by (simp_all add: cruise_memory_ok_def)
  obtain r where r: "cruise_step (cs_controller cfg) (wo_common_forward_speed o')
       (cruise_target_speed (cs_controller cfg)) (es_controller_state s) = Inr r"
      "cruise_state_ok (cs_controller cfg) (cruise_next_state r)" "isfinite (cruise_requested_torque r)"
    using cruise_step_ok [OF K(7) st(1) o'(2) cruise_config_okD(4) [OF K(7)]] within_isfinite by metis
  have "finite_array drive_channel_count (replicate drive_channel_count (cruise_requested_torque r))"
    using r(3) by (rule finite_array_replicate)
  from conditioner_step_ok [OF K(8) D this o'(3) st(2)] obtain q where
    q: "conditioner_step (cs_conditioner cfg) (replicate drive_channel_count (cruise_requested_torque r))
        (wo_conditioner_speeds o') (es_memory s) = Inr q"
      "memory_ok D (next_drive_side_memory q)" "length (actual_wheel_torques q) = drive_channel_count"
      "list_all (bounded_by (wheel_torque_bound (cs_conditioner cfg) D)) (actual_wheel_torques q)"
    by blast
  show thesis
    by (rule that [of "\<lparr>ca_kind = kind, ca_ordinal = ordinal, ca_event_time = time, ca_observation = o',
             ca_controller_before = es_controller_state s, ca_memory_before = es_memory s,
             ca_controller_result = r, ca_requested_torques = replicate drive_channel_count (cruise_requested_torque r),
             ca_conditioning = q\<rparr>"])
       (use o' r q in \<open>simp_all add: cruise_candidate_def Let_def\<close>)
qed

text \<open>The event is due: the phase asks for it and the accepted time is the event time.\<close>

definition cruise_due :: "cruise_session_config \<Rightarrow> cruise_state session \<Rightarrow> system_context \<Rightarrow> bool" where
  "cruise_due cfg s c \<longleftrightarrow> es_phase s \<in> {PeriodicEventRequired, ReadyToAdvance} \<and> sc_time c = cruise_next_event_time cfg s"

definition committed_well ::
  "real \<Rightarrow> cruise_session_config \<Rightarrow> cruise_audit \<Rightarrow> cruise_state session \<Rightarrow> system_context \<Rightarrow> system_context \<Rightarrow> bool" where
  "committed_well D cfg a s' c c' \<longleftrightarrow> cruise_memory_ok D cfg s' \<and> es_phase s' = SynchronizationRequired
     \<and> context_wf (av_system (cs_vehicle cfg)) c'
     \<and> c' = c\<lparr>sc_held := actual_wheel_torques (ca_conditioning a)\<rparr>
     \<and> list_all (bounded_by (wheel_torque_bound (cs_conditioner cfg) D)) (sc_held c')"

lemma cruise_commit_ok:
  assumes cfg: "cruise_session_ok cfg" and D: "limits_within D (cs_conditioner cfg)"
    and c: "context_wf (av_system (cs_vehicle cfg)) c" and s: "cruise_memory_ok D cfg s"
  shows "\<exists>a s' c'. cruise_commit cfg n (cruise_candidate cfg kind ordinal time s c) s c = (Inr a, (s', c'))
     \<and> committed_well D cfg a s' c c'"
proof -
  obtain a where a: "cruise_candidate cfg kind ordinal time s c = Inr a"
    "cruise_state_ok (cs_controller cfg) (cruise_next_state (ca_controller_result a))"
    "memory_ok D (next_drive_side_memory (ca_conditioning a))"
    "length (actual_wheel_torques (ca_conditioning a)) = drive_channel_count"
    "list_all (bounded_by (wheel_torque_bound (cs_conditioner cfg) D)) (actual_wheel_torques (ca_conditioning a))"
    by (rule cruise_candidate_ok [OF cfg D c s])
  let ?h = "actual_wheel_torques (ca_conditioning a)"
  have "all_finite ?h" using a(5) by (auto simp: all_finite_iff list_all_iff dest: within_isfinite)
  then have held: "set_held_torques (av_system (cs_vehicle cfg)) ?h c = (Inr (), c\<lparr>sc_held := ?h\<rparr>)"
    using a(4) c cruise_session_okD(10) [OF cfg] by (simp add: set_held_torques_Inr context_wf_def Let_def)
  have "context_wf (av_system (cs_vehicle cfg)) (c\<lparr>sc_held := ?h\<rparr>)"
    by (rule set_held.outcome_wf [OF cruise_session_okD(9) [OF cfg] TrueI c held])
  with a held show ?thesis
    by (simp add: cruise_commit_def committed_well_def cruise_memory_ok_def)
qed

lemma cruise_memory_ok_phase [simp]:
  "cruise_memory_ok D cfg (s\<lparr>es_phase := ph\<rparr>) = cruise_memory_ok D cfg s"
  by (simp add: cruise_memory_ok_def)

lemma new_cruise_session_memory_ok:
  assumes "cruise_session_ok cfg" "limits_within D (cs_conditioner cfg)"
  shows "cruise_memory_ok D cfg new_cruise_session"
  using initial_pi_state_ok [OF cruise_config_okD(1) [OF cruise_session_okD(7) [OF assms(1)]]]
    initial_memory_ok [of D] assms(2)
  by (simp add: cruise_memory_ok_def new_cruise_session_def new_session_def cruise_state_ok_def
      initial_cruise_state_def limits_within_def)

subsection \<open>Properties\<close>

text \<open>C28: Whatever sequence of events, failures, confirmations and permitted advances a cruise
  session goes through, the next ordinal is the number of committed events, the log of
  committed events carries the ordinals 0, 1, 2, ... at the times of the sample grid,
  every event started from exactly the controller state and conditioner memory its
  predecessor left, the session holds the memory of the last one, and the torques held
  by the context are those of the last committed event.\<close>
theorem cruise_session_log:
  assumes "isfinite (cs_period cfg)"
    and "session_reach (cruise_initialize cfg) (cruise_periodic cfg) initial_cruise_state c0 (s, c, l)"
  shows "(es_phase s = InitializationRequired \<longleftrightarrow> l = []) \<and> es_ordinal s = of_nat (length l)
     \<and> (\<forall>k < length l. ca_ordinal (l ! k) = of_nat k \<and> ca_event_time (l ! k) = event_time (of_nat k) (cs_period cfg))
     \<and> chained cruise_view (initial_cruise_state, replicate drive_channel_count 0) l
     \<and> (l \<noteq> [] \<longrightarrow> es_controller_state s = cruise_next_state (ca_controller_result (last l))
          \<and> es_memory s = next_drive_side_memory (ca_conditioning (last l))
          \<and> sc_held c = actual_wheel_torques (ca_conditioning (last l)))"
proof -
  note I = cruise_events.reach_inv [OF assms]
  have "l = [] \<or> (\<exists>l' a. l = l' @ [a])" by (cases l rule: rev_cases) auto
  then show ?thesis
    using I by (auto simp: session_inv_def logged_ordinal_def on_grid_def cruise_view_def memory_after_snoc held_after_snoc)
qed

text \<open>C29: A due event of an accepted cruise session never fails.  In a well-formed context,
  with a memory within the limits, the initialization at time zero and the periodic
  event at its grid time both commit: the context gets the conditioned torques and is
  otherwise unchanged, every torque is within the bound of the drive tables, the memory
  is again within its limits, and the session demands a synchronization.\<close>
theorem cruise_event_commits:
  assumes "cruise_session_ok cfg" "limits_within D (cs_conditioner cfg)"
    and "context_wf (av_system (cs_vehicle cfg)) c" "cruise_memory_ok D cfg s"
    and "es_phase s = InitializationRequired \<and> sc_time c = 0 \<or> cruise_due cfg s c"
  shows "\<exists>a s' c'. (if es_phase s = InitializationRequired then cruise_initialize cfg else cruise_periodic cfg) (s, c)
     = (Inr a, (s', c')) \<and> committed_well D cfg a s' c c'"
proof (cases "es_phase s = InitializationRequired")
  case True
  then show ?thesis
    using cruise_commit_ok [OF assms(1-4)] assms(5)
    by (auto simp: cruise_initialize_def same_bits_def cruise_due_def)
next
  case False
  then have "cruise_due cfg s c" using assms(5) by blast
  then have run: "cruise_periodic cfg (s, c) = cruise_commit cfg (es_ordinal s + 1)
      (cruise_candidate cfg EventPeriodic (es_ordinal s) (cruise_next_event_time cfg s)
         (s\<lparr>es_phase := PeriodicEventRequired\<rparr>) c) (s\<lparr>es_phase := PeriodicEventRequired\<rparr>) c"
    by (auto simp: cruise_periodic_def cruise_due_def same_bits_def Let_def)
  have "cruise_memory_ok D cfg (s\<lparr>es_phase := PeriodicEventRequired\<rparr>)" using assms(4) by simp
  from cruise_commit_ok [OF assms(1-3) this] show ?thesis
    using False by (simp add: run)
qed

text \<open>A cruise event that fails, for whatever reason, has written nothing to the context,
  the controller state, the conditioner memory or the ordinal.  If it was refused before
  its boundary was accepted the phase is unchanged too; otherwise the event stays due
  and the session refuses the next advance until it succeeds.\<close>
theorem cruise_event_fails_cleanly:
  assumes "cruise_periodic cfg (s, c) = (Inl e, (s', c'))"
  shows "c' = c \<and> es_controller_state s' = es_controller_state s \<and> es_memory s' = es_memory s
     \<and> es_ordinal s' = es_ordinal s
     \<and> (s' = s \<or> cruise_due cfg s c \<and> cruise_due cfg s' c' \<and> require_ready_to_advance s' = Inl InvalidArgument)"
  using cruise_events.periodic_refused [OF assms]
  by (auto simp: cruise_due_def cruise_next_event_time_def require_ready_to_advance_def)

subsection \<open>A concrete session\<close>

definition example_binding :: "interface_topology \<Rightarrow> torque_binding" where
  "example_binding i =
     \<lparr>tb_definition = \<lparr>td_channel_name = it_interface_name i, td_axis_provider = it_carrier_body_name i,
        td_wheel = it_wheel_body_name i, td_reaction = it_reaction_frame_body_name i\<rparr>,
      tb_axis_provider = Handle 1 1, tb_wheel = Handle 1 2, tb_reaction = Handle 1 3\<rparr>"

definition example_irw_torques :: active_torque_plan where
  "example_irw_torques = \<lparr>atp_model = example_model, atp_bindings = map example_binding closed_interfaces\<rparr>"

definition example_irw_system :: system_instance where
  "example_irw_system = \<lparr>si_identity = 9, si_description =
     (si_description example_system)\<lparr>sd_torque_plan := Some example_irw_torques, sd_torque_wrenches := 16, sd_held := 8\<rparr>\<rparr>"

definition example_vehicle :: assembled_vehicle where
  "example_vehicle = \<lparr>av_system = example_irw_system,
     av_contact = Some \<lparr>cpn_carriers = closed_carrier_names, cpn_interfaces = map it_interface_name closed_interfaces\<rparr>,
     av_torque = Some example_irw_torques,
     av_joint_velocity_range = (\<lambda>name. Inr \<lparr>range_start = 1, range_size = 1\<rparr>),
     av_track_frame = (\<lambda>station. Inr (identity3, (station, 0, 0)))\<rparr>"

definition example_irw_context :: system_context where
  "example_irw_context = example_system_context\<lparr>sc_held := replicate 8 0\<rparr>"

definition example_cruise_controller :: cruise_config where
  "example_cruise_controller = \<lparr>cruise_identifier = ''cruise'', cruise_sample_period_seconds = Fin (1 / 100),
     cruise_target_speed = Fin 20, cruise_speed_pi = sample_pi_config\<rparr>"

definition example_cruise :: cruise_session_config where
  "example_cruise = \<lparr>cs_vehicle = example_vehicle, cs_controller = example_cruise_controller,
     cs_conditioner = sample_conditioner, cs_ranges = replicate 8 \<lparr>range_start = 1, range_size = 1\<rparr>,
     cs_signs = replicate 8 (Fin (- 1)), cs_radius = Fin (2 / 5), cs_period = frozen_sample_period\<rparr>"

lemma example_joint_ranges: "closed_joint_ranges example_vehicle = Inr (replicate 8 \<lparr>range_start = 1, range_size = 1\<rparr>)"
  by (simp add: closed_joint_ranges_def closed_interfaces_def example_vehicle_def numeral_eq_Suc)

lemma example_identity: "k < length closed_interfaces \<Longrightarrow>
    interface_identity \<lparr>cpn_carriers = closed_carrier_names, cpn_interfaces = map it_interface_name closed_interfaces\<rparr>
      example_irw_torques k"
  by (simp add: interface_identity_def example_irw_torques_def example_binding_def)

lemma example_binding_resolved:
  "cruise_resolve_binding example_vehicle = Inr (replicate 8 \<lparr>range_start = 1, range_size = 1\<rparr>)"
proof -
  have counts: "require_closed_counts example_vehicle = Inr (\<lparr>cpn_carriers = closed_carrier_names,
      cpn_interfaces = map it_interface_name closed_interfaces\<rparr>, example_irw_torques)"
    by (simp add: require_closed_counts_def example_vehicle_def example_irw_torques_def example_irw_system_def
        channel_count_def length_closed_interfaces drive_channel_count_def)
  have order: "require_carrier_order \<lparr>cpn_carriers = closed_carrier_names,
      cpn_interfaces = map it_interface_name closed_interfaces\<rparr> = Inr ()"
    by (simp add: require_carrier_order_def closed_carrier_names_def)
  have checks: "all_checks (concat (map (\<lambda>k.
      [reject_if (\<not> interface_identity \<lparr>cpn_carriers = closed_carrier_names,
         cpn_interfaces = map it_interface_name closed_interfaces\<rparr> example_irw_torques k) InvalidArgument,
       reject_if (range_size (replicate 8 \<lparr>range_start = 1, range_size = 1\<rparr> ! k) \<noteq> 1) InvalidArgument])
      [0..<length closed_interfaces])) = Inr ()"
    by (auto simp: all_checks_concat_Inr example_identity length_closed_interfaces drive_channel_count_def)
  show ?thesis
    unfolding cruise_resolve_binding_def counts bindS_Inr prod.case order example_joint_ranges checks ..
qed

lemma example_cruise_ok: "cruise_session_ok example_cruise"
proof -
  have made: "make_cruise_session example_vehicle example_cruise_controller (Fin (2 / 5)) (replicate 8 (Fin (- 1)))
      sample_conditioner = Inr example_cruise"
    using example_binding_resolved
    by (simp add: make_cruise_session_def example_cruise_controller_def example_cruise_def sample_conditioner_def
        same_bits_def frozen_sample_period_def Let_def all_checks_append numeral_eq_Suc)
  have controller: "cruise_config_ok example_cruise_controller"
    using sample_pi_config_ok
    by (simp add: cruise_config_ok_def make_cruise_def bindS_eq_Inr make_pi_Inr validate_cruise_config_def
        example_cruise_controller_def)
  have fit: "joint_ranges_fit example_vehicle"
    by (auto simp: joint_ranges_fit_def example_vehicle_def example_irw_system_def example_system_def mm_nv_def
        example_model_def example_layout_def)
  have "system_ok example_irw_system"
    using example_system_ok
    by (simp add: system_ok_def example_irw_system_def example_system_def Let_def expected_hint_count_def)
  then show ?thesis
    using made controller fit sample_conditioner_ok
    by (simp add: cruise_session_ok_def example_cruise_def example_vehicle_def drive_channel_count_def)
qed

lemma example_irw_context_wf: "context_wf example_irw_system example_irw_context"
  using example_system_context_wf
  by (simp add: context_wf_def example_irw_system_def example_irw_context_def example_system_def
      example_system_context_def Let_def expected_hint_count_def)

lemma example_initial:
  "cruise_memory_ok 120 example_cruise new_cruise_session" "limits_within 120 (cs_conditioner example_cruise)"
  "context_wf (av_system (cs_vehicle example_cruise)) example_irw_context" "sc_time example_irw_context = 0"
proof -
  show d: "limits_within 120 (cs_conditioner example_cruise)"
    using sample_limits_within by (simp add: example_cruise_def)
  show "cruise_memory_ok 120 example_cruise new_cruise_session"
    by (rule new_cruise_session_memory_ok [OF example_cruise_ok d])
  show "context_wf (av_system (cs_vehicle example_cruise)) example_irw_context"
    using example_irw_context_wf by (simp add: example_cruise_def example_vehicle_def)
  show "sc_time example_irw_context = 0"
    by (simp add: example_irw_context_def example_system_context_def)
qed

theorem cruise_event_commits_witness:
  "\<exists>a s' c'. cruise_initialize example_cruise (new_cruise_session, example_irw_context) = (Inr a, (s', c'))
     \<and> committed_well 120 example_cruise a s' example_irw_context c'"
proof -
  have "es_phase new_cruise_session = InitializationRequired"
    by (simp add: new_cruise_session_def new_session_def)
  then show ?thesis
    using cruise_event_commits [OF example_cruise_ok example_initial(2,3,1)] example_initial(4) by simp
qed

lemma example_cruise_log:
  "\<exists>a s c. session_reach (cruise_initialize example_cruise) (cruise_periodic example_cruise) initial_cruise_state
     example_irw_context (s, c, [a])"
proof -
  have run: "cruise_initialize example_cruise (new_cruise_session, example_irw_context)
      = cruise_commit example_cruise 1 (cruise_candidate example_cruise EventInitialization 0 0 new_cruise_session
          example_irw_context) new_cruise_session example_irw_context"
    using example_initial(4) by (simp add: cruise_initialize_def new_cruise_session_def new_session_def same_bits_def)
  obtain a s' c' where "cruise_initialize example_cruise (new_cruise_session, example_irw_context) = (Inr a, (s', c'))"
    using cruise_commit_ok [OF example_cruise_ok example_initial(2,3,1)] unfolding run by metis
  then have "session_step (cruise_initialize example_cruise) (cruise_periodic example_cruise)
      (new_session initial_cruise_state, example_irw_context, []) (s', c', [] @ [a])"
    unfolding new_cruise_session_def by (rule step_initialize)
  then show ?thesis
    using reach_step [OF reach_start] by fastforce
qed

theorem cruise_session_log_witness:
  "\<exists>a s c. es_ordinal s = (1 :: u64) \<and> ca_event_time a = event_time 0 frozen_sample_period
     \<and> sc_held c = actual_wheel_torques (ca_conditioning a)
     \<and> session_reach (cruise_initialize example_cruise) (cruise_periodic example_cruise) initial_cruise_state
         example_irw_context (s, c, [a])"
proof -
  obtain a s c where r: "session_reach (cruise_initialize example_cruise) (cruise_periodic example_cruise)
      initial_cruise_state example_irw_context (s, c, [a])"
    using example_cruise_log by blast
  have p: "cs_period example_cruise = frozen_sample_period" by (simp add: example_cruise_def)
  then have "isfinite (cs_period example_cruise)" by (simp add: frozen_sample_period_def)
  from cruise_session_log [OF this r] r p show ?thesis by auto
qed

text \<open>A context whose velocities do not fit the model is refused after the boundary was accepted.\<close>

definition misfit_context :: system_context where
  "misfit_context = example_irw_context\<lparr>sc_multibody := (sc_multibody example_irw_context)
     \<lparr>mc_state := (mc_state (sc_multibody example_irw_context))\<lparr>ms_velocities := []\<rparr>\<rparr>\<rparr>"

theorem cruise_event_fails_cleanly_witness:
  "\<exists>s'. cruise_periodic example_cruise (new_cruise_session\<lparr>es_phase := ReadyToAdvance\<rparr>, misfit_context)
       = (Inl InvalidArgument, (s', misfit_context))
     \<and> require_ready_to_advance s' = Inl InvalidArgument \<and> es_ordinal s' = 0"
proof -
  let ?s = "new_cruise_session\<lparr>es_phase := ReadyToAdvance\<rparr>"
  have t: "sc_time misfit_context = cruise_next_event_time example_cruise ?s"
    using example_initial(4)
    by (simp add: misfit_context_def cruise_next_event_time_def event_time_def example_cruise_def
        frozen_sample_period_def new_cruise_session_def new_session_def)
  have nv: "mm_nv (si_model (av_system (cs_vehicle example_cruise))) = 2"
    by (simp add: example_cruise_def example_vehicle_def example_irw_system_def example_system_def mm_nv_def
        example_model_def example_layout_def)
  have "observe_wheel_speeds example_cruise misfit_context = Inl InvalidArgument"
    by (simp add: observe_wheel_speeds_def nv misfit_context_def)
  then have run: "cruise_periodic example_cruise (?s, misfit_context)
      = (Inl InvalidArgument, (?s\<lparr>es_phase := PeriodicEventRequired\<rparr>, misfit_context))"
    by (simp add: cruise_periodic_def t same_bits_def Let_def cruise_commit_def cruise_candidate_def)
  have o': "es_ordinal (?s\<lparr>es_phase := PeriodicEventRequired\<rparr>) = 0" "?s\<lparr>es_phase := PeriodicEventRequired\<rparr> \<noteq> ?s"
    by (simp_all add: new_cruise_session_def new_session_def)
  show ?thesis
    using cruise_event_fails_cleanly [OF run] run o' by blast
qed

end
