(* ===== verification/Monotone_Interpolant.thy ===== *)
theory Monotone_Interpolant
  imports Binary64
begin

section \<open>The shape-preserving cubic interpolant\<close>

text \<open>
  \<open>monotone_cubic_interpolant.cc\<close> of \<open>libs/wheel_rail_contact\<close>: the checks on the nodes, the rule for the
  nodal slopes, the construction of segment coefficients, the location of an abscissa with and without a
  hint, the value and its two derivatives.  The lemmas show that an accepted interpolant passes
  through its nodes, that the hint never changes a result, and that the slopes of \<open>FromValues\<close> keep every
  segment monotone, so that the curve never leaves the interval its two values span.
\<close>

subsection \<open>Nodes\<close>

definition strictly_increasing_nodes :: "vec \<Rightarrow> bool" where
  "strictly_increasing_nodes knots \<longleftrightarrow> (\<forall>n < length knots - 1. 0 < knots ! Suc n - knots ! n)"

definition require_usable_nodes :: "vec \<Rightarrow> vec \<Rightarrow> unit outcome" where
  "require_usable_nodes knots values = all_checks
     [reject_if (length knots \<noteq> length values) InvalidArgument,
      reject_if (length knots < 2) InvalidArgument,
      reject_if (\<not> all_finite knots) InvalidArgument,
      reject_if (\<not> all_finite values) InvalidArgument,
      reject_if (\<not> strictly_increasing_nodes knots) InvalidArgument]"

definition endpoint_slope :: "double \<Rightarrow> double \<Rightarrow> double \<Rightarrow> double \<Rightarrow> double" where
  "endpoint_slope near_spacing far_spacing near_secant far_secant =
     (let slope = ((2 * near_spacing + far_spacing) * near_secant - near_spacing * far_secant)
                  / (near_spacing + far_spacing)
      in if slope * near_secant \<le> 0 then 0
         else if near_secant * far_secant < 0 \<and> \<bar>3 * near_secant\<bar> < \<bar>slope\<bar> then 3 * near_secant
         else slope)"

definition interior_slope :: "double \<Rightarrow> double \<Rightarrow> double \<Rightarrow> double \<Rightarrow> double" where
  "interior_slope left_spacing right_spacing left_secant right_secant =
     (if left_secant * right_secant \<le> 0 then 0
      else let left_weight = 2 * right_spacing + left_spacing;
               right_weight = right_spacing + 2 * left_spacing
           in (left_weight + right_weight) / (left_weight / left_secant + right_weight / right_secant))"

definition node_spacings :: "vec \<Rightarrow> vec" where
  "node_spacings knots = map (\<lambda>n. knots ! Suc n - knots ! n) [0..<length knots - 1]"

definition node_secants :: "vec \<Rightarrow> vec \<Rightarrow> vec" where
  "node_secants knots values =
     map (\<lambda>n. (values ! Suc n - values ! n) / node_spacings knots ! n) [0..<length knots - 1]"

definition shape_preserving_slopes :: "vec \<Rightarrow> vec \<Rightarrow> vec" where
  "shape_preserving_slopes knots values =
     (let count = length knots; h = node_spacings knots; d = node_secants knots values
      in if count = 2 then replicate 2 ((values ! 1 - values ! 0) / (knots ! 1 - knots ! 0))
         else map (\<lambda>n. if n = 0 then endpoint_slope (h ! 0) (h ! 1) (d ! 0) (d ! 1)
                       else if n = count - 1 then
                         endpoint_slope (h ! (count - 2)) (h ! (count - 3)) (d ! (count - 2)) (d ! (count - 3))
                       else interior_slope (h ! (n - 1)) (h ! n) (d ! (n - 1)) (d ! n)) [0..<count])"

text \<open>The form over caller-owned memory checks the three spans it writes; the scratch spans are left
  as they were beyond the intervals, and untouched for two nodes.\<close>

definition compute_nodal_slopes_into :: "vec \<Rightarrow> vec \<Rightarrow> vec \<Rightarrow> vec \<Rightarrow> vec \<Rightarrow> (vec \<times> vec \<times> vec) outcome" where
  "compute_nodal_slopes_into knots values slopes_out spacings secants =
     bindS (require_usable_nodes knots values) (\<lambda>_.
     bindS (reject_if (length slopes_out \<noteq> length knots) InvalidArgument) (\<lambda>_.
     let count = length knots
     in bindS (reject_if (length spacings < count - 1 \<or> length secants < count - 1) InvalidArgument) (\<lambda>_.
        Inr (shape_preserving_slopes knots values,
             if count = 2 then spacings else node_spacings knots @ drop (count - 1) spacings,
             if count = 2 then secants else node_secants knots values @ drop (count - 1) secants))))"

definition compute_nodal_slopes :: "vec \<Rightarrow> vec \<Rightarrow> vec \<Rightarrow> vec outcome" where
  "compute_nodal_slopes knots values slopes_out =
     (let scratch = replicate (length knots - 1) 0
      in bindS (compute_nodal_slopes_into knots values slopes_out scratch scratch) (\<lambda>(slopes, _, _). Inr slopes))"

subsection \<open>The interpolant\<close>

datatype outside_rule = HoldEndpointDerivative | ZeroOutsideKnots

record segment_coefficients =
  seg_constant :: double
  seg_linear :: double
  seg_quadratic :: double
  seg_cubic :: double
  seg_inverse_spacing :: double
  seg_inverse_spacing_squared :: double

record interpolant =
  ip_knots :: vec
  ip_values :: vec
  ip_nodal_slopes :: vec
  ip_segments :: "segment_coefficients list"
  ip_outside_rule :: outside_rule

definition segment_of_nodes :: "double \<Rightarrow> double \<Rightarrow> double \<Rightarrow> double \<Rightarrow> double \<Rightarrow> segment_coefficients" where
  "segment_of_nodes spacing left_value right_value left_slope right_slope =
     (let inverse_spacing = 1 / spacing
      in \<lparr>seg_constant = left_value,
          seg_linear = spacing * left_slope,
          seg_quadratic = - 3 * left_value + 3 * right_value - 2 * spacing * left_slope - spacing * right_slope,
          seg_cubic = 2 * left_value - 2 * right_value + spacing * left_slope + spacing * right_slope,
          seg_inverse_spacing = inverse_spacing,
          seg_inverse_spacing_squared = inverse_spacing * inverse_spacing\<rparr>)"

definition make_interpolant :: "vec \<Rightarrow> vec \<Rightarrow> vec \<Rightarrow> outside_rule \<Rightarrow> interpolant" where
  "make_interpolant knots values slopes rule =
     \<lparr>ip_knots = knots, ip_values = values, ip_nodal_slopes = slopes,
      ip_segments = map (\<lambda>n. segment_of_nodes (knots ! Suc n - knots ! n) (values ! n) (values ! Suc n)
                               (slopes ! n) (slopes ! Suc n)) [0..<length knots - 1],
      ip_outside_rule = rule\<rparr>"

definition from_values :: "vec \<Rightarrow> vec \<Rightarrow> outside_rule \<Rightarrow> interpolant outcome" where
  "from_values knots values rule =
     bindS (require_usable_nodes knots values) (\<lambda>_.
     bindS (compute_nodal_slopes knots values (replicate (length knots) 0)) (\<lambda>slopes.
     Inr (make_interpolant knots values slopes rule)))"

definition from_nodal_slopes :: "vec \<Rightarrow> vec \<Rightarrow> vec \<Rightarrow> outside_rule \<Rightarrow> interpolant outcome" where
  "from_nodal_slopes knots values slopes rule =
     bindS (require_usable_nodes knots values) (\<lambda>_.
     bindS (reject_if (length slopes \<noteq> length knots) InvalidArgument) (\<lambda>_.
     bindS (reject_if (\<not> all_finite slopes) InvalidArgument) (\<lambda>_.
     Inr (make_interpolant knots values slopes rule))))"

subsection \<open>Location and evaluation\<close>

record location =
  loc_segment :: nat
  loc_parameter :: double

text \<open>\<open>std::upper_bound\<close> on a sorted range: the index of the first element above the value.\<close>

definition upper_bound :: "vec \<Rightarrow> double \<Rightarrow> nat" where
  "upper_bound xs v = length (takeWhile (\<lambda>x. \<not> v < x) xs)"

definition located_in :: "interpolant \<Rightarrow> nat \<Rightarrow> double \<Rightarrow> location" where
  "located_in m s x =
     \<lparr>loc_segment = s,
      loc_parameter = std_clamp ((x - ip_knots m ! s) * seg_inverse_spacing (ip_segments m ! s)) 0 1\<rparr>"

definition locate :: "interpolant \<Rightarrow> double \<Rightarrow> location" where
  "locate m x =
     (let last_segment = length (ip_segments m) - 1
      in if \<not> hd (ip_knots m) < x then \<lparr>loc_segment = 0, loc_parameter = 0\<rparr>
         else if last (ip_knots m) \<le> x then \<lparr>loc_segment = last_segment, loc_parameter = 1\<rparr>
         else located_in m (min (upper_bound (ip_knots m) x - 1) last_segment) x)"

definition segment_value :: "segment_coefficients \<Rightarrow> double \<Rightarrow> double" where
  "segment_value c t = ((seg_cubic c * t + seg_quadratic c) * t + seg_linear c) * t + seg_constant c"

definition ip_evaluate :: "interpolant \<Rightarrow> double \<Rightarrow> double" where
  "ip_evaluate m x = (let l = locate m x in segment_value (ip_segments m ! loc_segment l) (loc_parameter l))"

definition ip_evaluate_hinted :: "interpolant \<Rightarrow> double \<Rightarrow> nat \<Rightarrow> double \<times> nat" where
  "ip_evaluate_hinted m x hint =
     (let k = ip_knots m;
          last_segment = length (ip_segments m) - 1;
          l = (if \<not> hd k < x then \<lparr>loc_segment = 0, loc_parameter = 0\<rparr>
               else if last k \<le> x then \<lparr>loc_segment = last_segment, loc_parameter = 1\<rparr>
               else if hint \<le> last_segment \<and> k ! hint \<le> x \<and> x < k ! (hint + 1) then located_in m hint x
               else if hint < last_segment \<and> k ! (hint + 1) \<le> x
                       \<and> (hint + 1 = last_segment \<or> x < k ! (hint + 2)) then located_in m (hint + 1) x
               else if 0 < hint \<and> hint \<le> last_segment \<and> k ! (hint - 1) \<le> x \<and> x < k ! hint then located_in m (hint - 1) x
               else locate m x)
      in (segment_value (ip_segments m ! loc_segment l) (loc_parameter l), loc_segment l))"

definition ip_first_derivative :: "interpolant \<Rightarrow> double \<Rightarrow> double" where
  "ip_first_derivative m x =
     (if ip_outside_rule m = ZeroOutsideKnots \<and> (x < hd (ip_knots m) \<or> last (ip_knots m) < x) then 0
      else let l = locate m x; c = ip_segments m ! loc_segment l; t = loc_parameter l
           in seg_inverse_spacing c * (seg_linear c + t * (2 * seg_quadratic c + 3 * seg_cubic c * t)))"

definition ip_second_derivative :: "interpolant \<Rightarrow> double \<Rightarrow> double" where
  "ip_second_derivative m x =
     (if ip_outside_rule m = ZeroOutsideKnots \<and> (x \<le> hd (ip_knots m) \<or> last (ip_knots m) \<le> x) then 0
      else let l = locate m x; c = ip_segments m ! loc_segment l; t = loc_parameter l
           in seg_inverse_spacing_squared c * (2 * seg_quadratic c + 6 * seg_cubic c * t))"

subsection \<open>Real counterparts\<close>

text \<open>On finite nodes the double functions compute these real ones.\<close>

definition hermite :: "real \<Rightarrow> real \<Rightarrow> real \<Rightarrow> real \<Rightarrow> real \<Rightarrow> real" where
  "hermite v0 v1 g0 g1 t =
     (((2 * v0 - 2 * v1 + g0 + g1) * t + (- 3 * v0 + 3 * v1 - 2 * g0 - g1)) * t + g0) * t + v0"

lemma hermite_ends [simp]: "hermite v0 v1 g0 g1 0 = v0" "hermite v0 v1 g0 g1 1 = v1"
  by (simp_all add: hermite_def)

text \<open>The four extreme shapes of a segment with slopes between zero and three secants.\<close>

lemma cube_mono: "x \<le> y \<Longrightarrow> x ^ 3 \<le> y ^ 3" for x y :: real
  by (rule power_mono_odd) simp

lemma hermite_shapes_mono:
  fixes t u :: real
  assumes "0 \<le> t" "t \<le> u" "u \<le> 1"
  shows "hermite 0 1 0 0 t \<le> hermite 0 1 0 0 u" "hermite 0 1 3 0 t \<le> hermite 0 1 3 0 u"
    "hermite 0 1 0 3 t \<le> hermite 0 1 0 3 u" "hermite 0 1 3 3 t \<le> hermite 0 1 3 3 u"
proof -
  have h00: "hermite 0 1 0 0 u - hermite 0 1 0 0 t = (u - t) * (3 * (t * (1 - t) + u * (1 - u)) + (u - t) ^ 2)"
    by (simp add: hermite_def algebra_simps power2_eq_square)
  have "0 \<le> t * (1 - t)" "0 \<le> u * (1 - u)" using assms by auto
  then have "0 \<le> (u - t) * (3 * (t * (1 - t) + u * (1 - u)) + (u - t) ^ 2)"
    using assms by (intro mult_nonneg_nonneg add_nonneg_nonneg) auto
  then show "hermite 0 1 0 0 t \<le> hermite 0 1 0 0 u" using h00 by simp
  have h30: "hermite 0 1 3 0 s = 1 - (1 - s) ^ 3" for s by (simp add: hermite_def algebra_simps power3_eq_cube)
  show "hermite 0 1 3 0 t \<le> hermite 0 1 3 0 u" unfolding h30 using cube_mono [of "1 - u" "1 - t"] assms by simp
  have h03: "hermite 0 1 0 3 s = s ^ 3" for s by (simp add: hermite_def algebra_simps power3_eq_cube)
  show "hermite 0 1 0 3 t \<le> hermite 0 1 0 3 u" unfolding h03 using cube_mono assms by simp
  have h33: "hermite 0 1 3 3 s = (1 + (2 * s - 1) ^ 3) / 2" for s
    by (simp add: hermite_def field_simps power3_eq_cube)
  show "hermite 0 1 3 3 t \<le> hermite 0 1 3 3 u" unfolding h33 using cube_mono [of "2 * t - 1" "2 * u - 1"] assms by simp
qed

lemma hermite_mix:
  "hermite 0 1 (3 * a) (3 * b) t = (1 - a) * (1 - b) * hermite 0 1 0 0 t + a * (1 - b) * hermite 0 1 3 0 t
     + (1 - a) * b * hermite 0 1 0 3 t + a * b * hermite 0 1 3 3 t"
  by (simp add: hermite_def algebra_simps)

lemma hermite_scale: "hermite v0 v1 ((v1 - v0) * g) ((v1 - v0) * k) t = v0 + (v1 - v0) * hermite 0 1 g k t"
  by (simp add: hermite_def algebra_simps)

text \<open>A segment whose end slopes are between zero and three times its secant is monotone.\<close>

definition limited :: "real \<Rightarrow> real \<Rightarrow> bool" where
  "limited secant slope \<longleftrightarrow> (\<exists>r. 0 \<le> r \<and> r \<le> 3 \<and> slope = r * secant)"

lemma hermite_unit_mono:
  assumes "0 \<le> a" "a \<le> 3" "0 \<le> b" "b \<le> 3" "0 \<le> t" "t \<le> u" "u \<le> 1"
  shows "hermite 0 1 a b t \<le> hermite 0 1 a b u"
proof -
  have "hermite 0 1 (3 * (a / 3)) (3 * (b / 3)) t \<le> hermite 0 1 (3 * (a / 3)) (3 * (b / 3)) u"
    unfolding hermite_mix
    using assms hermite_shapes_mono [OF assms(5-7)]
    by (intro add_mono mult_left_mono mult_nonneg_nonneg) auto
  then show ?thesis by simp
qed

lemma hermite_limited:
  assumes "limited (v1 - v0) g0" "limited (v1 - v0) g1" "0 \<le> t" "t \<le> u" "u \<le> 1"
  shows "\<exists>p q. 0 \<le> p \<and> p \<le> q \<and> q \<le> 1
           \<and> hermite v0 v1 g0 g1 t = v0 + (v1 - v0) * p \<and> hermite v0 v1 g0 g1 u = v0 + (v1 - v0) * q"
proof -
  from assms obtain a b where ab: "0 \<le> a" "a \<le> 3" "0 \<le> b" "b \<le> 3" "g0 = (v1 - v0) * a" "g1 = (v1 - v0) * b"
    by (auto simp: limited_def mult.commute)
  show ?thesis
    unfolding ab(5,6) hermite_scale
    using hermite_unit_mono [OF ab(1-4), of 0 t] hermite_unit_mono [OF ab(1-4), of t u]
      hermite_unit_mono [OF ab(1-4), of u 1] assms(3-5)
    by (intro exI [of _ "hermite 0 1 a b t"] exI [of _ "hermite 0 1 a b u"]) auto
qed

subsection \<open>The slopes of \<open>from_values\<close> are limited\<close>

lemma limited_self [simp]: "limited d d"
  by (auto simp: limited_def intro: exI [of _ 1])

lemma limited_zero [simp]: "limited d 0"
  by (auto simp: limited_def intro: exI [of _ 0])

lemma limitedI: "d \<noteq> 0 \<Longrightarrow> 0 \<le> s / d \<Longrightarrow> s / d \<le> 3 \<Longrightarrow> limited d s"
  by (auto simp: limited_def intro!: exI [of _ "s / d"])

lemma endpoint_slope_limited:
  assumes "0 < n" "0 < f"
  shows "\<exists>s. endpoint_slope (Fin n) (Fin f) (Fin a) (Fin b) = Fin s \<and> limited a s"
proof -
  define s where "s = ((2 * n + f) * a - n * b) / (n + f)"
  have nf: "n + f \<noteq> 0" using assms by simp
  have e: "endpoint_slope (Fin n) (Fin f) (Fin a) (Fin b)
      = Fin (if s * a \<le> 0 then 0 else if a * b < 0 \<and> \<bar>3 * a\<bar> < \<bar>s\<bar> then 3 * a else s)"
    using nf by (simp add: endpoint_slope_def s_def Let_def)
  have "limited a s" if sa: "\<not> s * a \<le> 0" and lim: "\<not> (a * b < 0 \<and> \<bar>3 * a\<bar> < \<bar>s\<bar>)"
  proof (rule limitedI)
    show a0: "a \<noteq> 0" using sa by auto
    show "0 \<le> s / a" using sa by (auto simp: zero_le_divide_iff zero_less_mult_iff not_le)
    show "s / a \<le> 3"
    proof (cases "a * b < 0")
      case True
      then have "\<bar>s\<bar> \<le> 3 * \<bar>a\<bar>" using lim by (simp add: abs_mult)
      then have "\<bar>s / a\<bar> \<le> 3" using a0 by (simp add: field_simps)
      then show ?thesis by (rule order_trans [OF abs_ge_self])
    next
      case False
      then have "0 \<le> b / a" by (auto simp: zero_le_divide_iff mult_less_0_iff not_less)
      moreover have "s / a = (2 * n + f - n * (b / a)) / (n + f)" using a0 by (simp add: s_def field_simps)
      moreover have "0 \<le> n * (b / a)" using assms \<open>0 \<le> b / a\<close> by (intro mult_nonneg_nonneg) auto
      then have "(2 * n + f - n * (b / a)) / (n + f) \<le> (2 * n + f) / (n + f)"
        using assms by (intro divide_right_mono) linarith+
      ultimately have "s / a \<le> (2 * n + f) / (n + f)" by simp
      also have "\<dots> \<le> 3" using assms by (simp add: field_simps)
      finally show ?thesis .
    qed
  qed
  moreover have "limited a (3 * a)" by (auto simp: limited_def intro: exI [of _ 3])
  ultimately show ?thesis unfolding e by auto
qed

lemma interior_slope_limited:
  assumes "0 < h" "0 < k"
  shows "\<exists>s. interior_slope (Fin h) (Fin k) (Fin a) (Fin b) = Fin s \<and> limited a s \<and> limited b s"
proof (cases "a * b \<le> 0")
  case True
  then show ?thesis by (simp add: interior_slope_def)
next
  case False
  then have a0: "a \<noteq> 0" and b0: "b \<noteq> 0" by auto
  have r: "0 < a / b" "0 < b / a" using False by (auto simp: zero_less_divide_iff zero_less_mult_iff not_le)
  define p where "p = 2 * k + h"
  define q where "q = k + 2 * h"
  have pq: "0 < p" "0 < q" using assms by (auto simp: p_def q_def)
  have eq: "p / a + q / b = (p + q * (a / b)) / a" "p / a + q / b = (p * (b / a) + q) / b"
    using a0 b0 by (simp_all add: field_simps)
  have pos: "0 < p + q * (a / b)" "0 < p * (b / a) + q" using pq r by (metis add_pos_pos mult_pos_pos)+
  then have nz: "p / a + q / b \<noteq> 0" using eq(1) a0 by simp
  define s where "s = (p + q) / (p / a + q / b)"
  have e: "interior_slope (Fin h) (Fin k) (Fin a) (Fin b) = Fin s"
    using False a0 b0 nz by (simp add: interior_slope_def s_def p_def q_def Let_def)
  have sa: "s / a = (p + q) / (p + q * (a / b))" unfolding s_def eq(1) using a0 by simp
  have sb: "s / b = (p + q) / (p * (b / a) + q)" unfolding s_def eq(2) using b0 by simp
  have le: "p \<le> p + q * (a / b)" "q \<le> p * (b / a) + q"
    using mult_pos_pos [OF pq(2) r(1)] mult_pos_pos [OF pq(1) r(2)] by linarith+
  have "s / a \<le> (p + q) / p" unfolding sa using divide_left_mono [OF le(1), of "p + q"] pq pos by simp
  moreover have "(p + q) / p \<le> 3" using assms by (simp add: p_def q_def field_simps)
  moreover have "s / b \<le> (p + q) / q" unfolding sb using divide_left_mono [OF le(2), of "p + q"] pq pos by simp
  moreover have "(p + q) / q \<le> 3" using assms by (simp add: p_def q_def field_simps)
  moreover have "0 \<le> s / a" "0 \<le> s / b" unfolding sa sb using pq pos by auto
  ultimately have "limited a s" "limited b s" using a0 b0 by (auto intro!: limitedI)
  then show ?thesis using e by blast
qed

subsection \<open>Accepted interpolants\<close>

text \<open>Finite nodes as real lists; every interpolant the factories return comes from such lists.\<close>

definition increasing_reals :: "real list \<Rightarrow> bool" where
  "increasing_reals ks \<longleftrightarrow> (\<forall>n. Suc n < length ks \<longrightarrow> ks ! n < ks ! Suc n)"

definition node_interpolant :: "real list \<Rightarrow> real list \<Rightarrow> real list \<Rightarrow> outside_rule \<Rightarrow> interpolant" where
  "node_interpolant ks vs ds rule = make_interpolant (map Fin ks) (map Fin vs) (map Fin ds) rule"

definition node_lists :: "real list \<Rightarrow> real list \<Rightarrow> real list \<Rightarrow> bool" where
  "node_lists ks vs ds \<longleftrightarrow> 2 \<le> length ks \<and> length vs = length ks \<and> length ds = length ks \<and> increasing_reals ks"

definition shape_preserving :: "real list \<Rightarrow> real list \<Rightarrow> real list \<Rightarrow> bool" where
  "shape_preserving ks vs ds \<longleftrightarrow> (\<forall>n. Suc n < length ks \<longrightarrow>
     (let secant = (vs ! Suc n - vs ! n) / (ks ! Suc n - ks ! n)
      in limited secant (ds ! n) \<and> limited secant (ds ! Suc n)))"

lemma map_Fin_to_real: "all_finite xs \<Longrightarrow> map Fin (map to_real xs) = xs"
  by (induction xs) (auto simp: Fin_to_real)

lemma finite_map_Fin [simp]: "all_finite (map Fin xs)"
  by (induction xs) auto

lemma strictly_increasing_Fin:
  "strictly_increasing_nodes (map Fin ks) \<longleftrightarrow> increasing_reals ks"
  by (auto simp: strictly_increasing_nodes_def increasing_reals_def)

lemma usable_nodes_Inr:
  "require_usable_nodes knots values = Inr () \<longleftrightarrow>
     (\<exists>ks vs. knots = map Fin ks \<and> values = map Fin vs \<and> length vs = length ks \<and> 2 \<le> length ks \<and> increasing_reals ks)"
proof
  assume "require_usable_nodes knots values = Inr ()"
  then have u: "length knots = length values" "2 \<le> length knots" "all_finite knots" "all_finite values"
    "strictly_increasing_nodes knots"
    by (auto simp: require_usable_nodes_def reject_if_def split: if_splits)
  have k: "knots = map Fin (map to_real knots)" "values = map Fin (map to_real values)"
    using map_Fin_to_real [OF u(3)] map_Fin_to_real [OF u(4)] by simp_all
  have "increasing_reals (map to_real knots)" using u(5) k(1) strictly_increasing_Fin by metis
  then show "\<exists>ks vs. knots = map Fin ks \<and> values = map Fin vs \<and> length vs = length ks \<and> 2 \<le> length ks \<and> increasing_reals ks"
    using k u(1,2) by (intro exI [of _ "map to_real knots"] exI [of _ "map to_real values"]) simp
qed (auto simp: require_usable_nodes_def reject_if_def strictly_increasing_Fin)

lemma increasing_reals_less:
  assumes "increasing_reals ks" "i < j" "j < length ks"
  shows "ks ! i < ks ! j"
  using assms sorted_wrt_nth_less [of "(<)" ks i j]
  by (simp add: increasing_reals_def sorted_wrt_iff_nth_Suc_transp)

lemma increasing_reals_le: "increasing_reals ks \<Longrightarrow> i \<le> j \<Longrightarrow> j < length ks \<Longrightarrow> ks ! i \<le> ks ! j"
  using increasing_reals_less [of ks i j] by (cases "i = j") auto

lemma node_spacings_Fin:
  "node_spacings (map Fin ks) = map Fin (map (\<lambda>n. ks ! Suc n - ks ! n) [0..<length ks - 1])"
  by (simp add: node_spacings_def)

lemma node_secants_Fin:
  assumes "increasing_reals ks" "length vs = length ks"
  shows "node_secants (map Fin ks) (map Fin vs)
       = map Fin (map (\<lambda>n. (vs ! Suc n - vs ! n) / (ks ! Suc n - ks ! n)) [0..<length ks - 1])"
proof -
  have "ks ! Suc n - ks ! n \<noteq> 0" if "n < length ks - 1" for n
  proof -
    have "Suc n < length ks" using that by simp
    then show ?thesis using increasing_reals_less [OF assms(1), of n "Suc n"] by simp
  qed
  then show ?thesis
    using assms(2) by (auto simp: node_secants_def node_spacings_Fin)
qed

lemma shape_preserving_slopes_at:
  fixes ks vs :: "real list"
  defines "secant \<equiv> \<lambda>n. (vs ! Suc n - vs ! n) / (ks ! Suc n - ks ! n)"
  assumes k: "increasing_reals ks" "length vs = length ks" "2 \<le> length ks" and n: "n < length ks"
  shows "\<exists>s. shape_preserving_slopes (map Fin ks) (map Fin vs) ! n = Fin s
           \<and> (0 < n \<longrightarrow> limited (secant (n - 1)) s) \<and> (Suc n < length ks \<longrightarrow> limited (secant n) s)"
proof -
  let ?h = "\<lambda>n. ks ! Suc n - ks ! n"
  have hp: "0 < ?h i" if "Suc i < length ks" for i using increasing_reals_less [OF k(1), of i "Suc i"] that by simp
  note fin = node_spacings_Fin node_secants_Fin [OF k(1,2)]
  consider "length ks = 2" | "2 < length ks" "n = 0" | "2 < length ks" "0 < n" "n = length ks - 1"
    | "2 < length ks" "0 < n" "Suc n < length ks"
    using k(3) n by linarith
  then show ?thesis
  proof cases
    case 1
    have "ks ! 1 - ks ! 0 \<noteq> 0" using hp [of 0] 1 by simp
    moreover from 1 n have "n = 0 \<or> n = 1" by auto
    ultimately show ?thesis using 1 k(2) by (auto simp: shape_preserving_slopes_def secant_def Let_def)
  next
    case 2
    then have c: "ks \<noteq> []" "0 < length ks - 1" "1 < length ks - 1" "length ks \<noteq> 2" "0 \<noteq> length ks - 1" by auto
    have "shape_preserving_slopes (map Fin ks) (map Fin vs) ! n
        = endpoint_slope (Fin (?h 0)) (Fin (?h 1)) (Fin (secant 0)) (Fin (secant 1))"
      unfolding 2(2) shape_preserving_slopes_def fin Let_def secant_def using c by (simp add: nth_map)
    with endpoint_slope_limited [OF hp [of 0] hp [of 1], of "secant 0" "secant 1"] 2
    show ?thesis by auto
  next
    case 3
    define a where "a = length ks - 2"
    define b where "b = length ks - 3"
    have ab: "a < length ks - 1" "b < length ks - 1" "n - 1 = a" "Suc a < length ks" "Suc b < length ks" using 3
      by (auto simp: a_def b_def)
    have "shape_preserving_slopes (map Fin ks) (map Fin vs) ! n
        = endpoint_slope (Fin (?h a)) (Fin (?h b)) (Fin (secant a)) (Fin (secant b))"
      using 3 ab by (simp add: shape_preserving_slopes_def fin secant_def Let_def a_def [symmetric] b_def [symmetric])
    with endpoint_slope_limited [OF hp [OF ab(4)] hp [OF ab(5)], of "secant a" "secant b"] 3 ab
    show ?thesis by auto
  next
    case 4
    have "shape_preserving_slopes (map Fin ks) (map Fin vs) ! n
        = interior_slope (Fin (?h (n - 1))) (Fin (?h n)) (Fin (secant (n - 1))) (Fin (secant n))"
    proof -
      have c: "n \<noteq> 0" "n \<noteq> length ks - 1" "length ks \<noteq> 2" "n < length ks" "n - 1 < length ks - 1" "n < length ks - 1"
        using 4 by linarith+
      then show ?thesis by (simp add: shape_preserving_slopes_def fin secant_def Let_def nth_map)
    qed
    with interior_slope_limited [OF hp [of "n - 1"] hp [of n], of "secant (n - 1)" "secant n"] 4
    show ?thesis by auto
  qed
qed

lemma shape_preserving_slopes_Fin:
  assumes "increasing_reals ks" "length vs = length ks" "2 \<le> length ks"
  shows "\<exists>ds. shape_preserving_slopes (map Fin ks) (map Fin vs) = map Fin ds \<and> length ds = length ks
           \<and> shape_preserving ks vs ds"
proof -
  let ?s = "shape_preserving_slopes (map Fin ks) (map Fin vs)"
  have len: "length ?s = length ks" by (simp add: shape_preserving_slopes_def Let_def)
  note at = shape_preserving_slopes_at [OF assms]
  have "isfinite (?s ! n)" if "n < length ks" for n
    using at [OF that] by auto
  then have "all_finite ?s"
    using len by (auto simp: all_finite_def list_all_length)
  then have m: "?s = map Fin (map to_real ?s)" by (simp only: map_Fin_to_real)
  have "shape_preserving ks vs (map to_real ?s)"
    unfolding shape_preserving_def Let_def
  proof (intro allI impI)
    fix n
    assume n: "Suc n < length ks"
    with at [of n] at [of "Suc n"] len
    show "limited ((vs ! Suc n - vs ! n) / (ks ! Suc n - ks ! n)) (map to_real ?s ! n)
      \<and> limited ((vs ! Suc n - vs ! n) / (ks ! Suc n - ks ! n)) (map to_real ?s ! Suc n)" by auto
  qed
  then show ?thesis using m len by (intro exI [of _ "map to_real ?s"]) simp
qed

lemma from_values_Inr:
  assumes "from_values knots values rule = Inr m"
  obtains ks vs ds where "knots = map Fin ks" "values = map Fin vs" "node_lists ks vs ds"
    "shape_preserving ks vs ds" "m = node_interpolant ks vs ds rule"
proof -
  from assms obtain slopes where u: "require_usable_nodes knots values = Inr ()"
    and s: "slopes = shape_preserving_slopes knots values" and m: "m = make_interpolant knots values slopes rule"
    by (auto simp: from_values_def compute_nodal_slopes_def compute_nodal_slopes_into_def bindS_eq_Inr Let_def
        reject_if_def split: if_splits)
  from u obtain ks vs where k: "knots = map Fin ks" "values = map Fin vs" "length vs = length ks" "2 \<le> length ks"
    "increasing_reals ks" unfolding usable_nodes_Inr by blast
  from shape_preserving_slopes_Fin [OF k(5,3,4)] obtain ds where d: "slopes = map Fin ds" "length ds = length ks"
    "shape_preserving ks vs ds" unfolding s k(1,2) by blast
  show thesis
    using k d m by (intro that [of ks vs ds]) (auto simp: node_lists_def node_interpolant_def)
qed

lemma from_values_accepts:
  assumes "increasing_reals ks" "length vs = length ks" "2 \<le> length ks"
  shows "\<exists>m. from_values (map Fin ks) (map Fin vs) rule = Inr m"
proof -
  have "require_usable_nodes (map Fin ks) (map Fin vs) = Inr ()" unfolding usable_nodes_Inr using assms by blast
  then show ?thesis
    by (simp add: from_values_def compute_nodal_slopes_def compute_nodal_slopes_into_def reject_if_def Let_def)
qed

lemma from_nodal_slopes_Inr:
  assumes "from_nodal_slopes knots values slopes rule = Inr m"
  obtains ks vs ds where "knots = map Fin ks" "values = map Fin vs" "slopes = map Fin ds" "node_lists ks vs ds"
    "m = node_interpolant ks vs ds rule"
proof -
  from assms have u: "require_usable_nodes knots values = Inr ()" and l: "length slopes = length knots"
    and f: "all_finite slopes" and m: "m = make_interpolant knots values slopes rule"
    by (auto simp: from_nodal_slopes_def bindS_eq_Inr reject_if_def split: if_splits)
  from u obtain ks vs where k: "knots = map Fin ks" "values = map Fin vs" "length vs = length ks" "2 \<le> length ks"
    "increasing_reals ks" unfolding usable_nodes_Inr by blast
  have d: "slopes = map Fin (map to_real slopes)" using map_Fin_to_real [OF f] by simp
  show thesis
    by (rule that [OF k(1,2) d]) (use k l m d in \<open>auto simp: node_lists_def node_interpolant_def\<close>)
qed

subsection \<open>Location\<close>

text \<open>The local parameter of an abscissa in a segment.\<close>

definition local_parameter :: "real list \<Rightarrow> nat \<Rightarrow> real \<Rightarrow> real" where
  "local_parameter ks s x = (x - ks ! s) / (ks ! Suc s - ks ! s)"

definition segment_curve :: "real list \<Rightarrow> real list \<Rightarrow> real list \<Rightarrow> nat \<Rightarrow> real \<Rightarrow> real" where
  "segment_curve ks vs ds s x =
     (let h = ks ! Suc s - ks ! s
      in hermite (vs ! s) (vs ! Suc s) (h * ds ! s) (h * ds ! Suc s) (local_parameter ks s x))"

lemma node_listsD:
  assumes "node_lists ks vs ds"
  shows "ks \<noteq> []" "2 \<le> length ks" "length vs = length ks" "length ds = length ks" "increasing_reals ks"
    "Suc (length ks - 2) = length ks - 1" "length ks - 1 < length ks"
  using assms by (auto simp: node_lists_def)

lemma node_interpolant_fields [simp]:
  "ip_knots (node_interpolant ks vs ds rule) = map Fin ks"
  "ip_outside_rule (node_interpolant ks vs ds rule) = rule"
  "length (ip_segments (node_interpolant ks vs ds rule)) = length ks - 1"
  by (simp_all add: node_interpolant_def make_interpolant_def)

lemma spacing_pos: "node_lists ks vs ds \<Longrightarrow> Suc s < length ks \<Longrightarrow> 0 < ks ! Suc s - ks ! s"
  using increasing_reals_less [of ks s "Suc s"] by (simp add: node_lists_def)

lemma node_segment:
  assumes "node_lists ks vs ds" "Suc s < length ks"
  shows "ip_segments (node_interpolant ks vs ds rule) ! s
       = (let h = ks ! Suc s - ks ! s
          in \<lparr>seg_constant = Fin (vs ! s), seg_linear = Fin (h * ds ! s),
              seg_quadratic = Fin (- 3 * vs ! s + 3 * vs ! Suc s - 2 * h * ds ! s - h * ds ! Suc s),
              seg_cubic = Fin (2 * vs ! s - 2 * vs ! Suc s + h * ds ! s + h * ds ! Suc s),
              seg_inverse_spacing = Fin (1 / h), seg_inverse_spacing_squared = Fin (1 / h * (1 / h))\<rparr>)"
  using assms node_listsD [OF assms(1)] spacing_pos [OF assms]
  by (simp add: node_interpolant_def make_interpolant_def segment_of_nodes_def Let_def)

lemma segment_value_Fin:
  assumes "node_lists ks vs ds" "Suc s < length ks"
  shows "segment_value (ip_segments (node_interpolant ks vs ds rule) ! s) (Fin t)
       = Fin (hermite (vs ! s) (vs ! Suc s) ((ks ! Suc s - ks ! s) * ds ! s) ((ks ! Suc s - ks ! s) * ds ! Suc s) t)"
  by (simp add: node_segment [OF assms] segment_value_def hermite_def Let_def algebra_simps)

lemma local_parameter_bounds:
  assumes "node_lists ks vs ds" "Suc s < length ks" "ks ! s \<le> x" "x \<le> ks ! Suc s"
  shows "0 \<le> local_parameter ks s x" "local_parameter ks s x \<le> 1"
  using assms spacing_pos [OF assms(1,2)] by (auto simp: local_parameter_def)

lemma located_in_Fin:
  assumes "node_lists ks vs ds" "Suc s < length ks" "ks ! s \<le> x" "x \<le> ks ! Suc s"
  shows "located_in (node_interpolant ks vs ds rule) s (Fin x)
       = \<lparr>loc_segment = s, loc_parameter = Fin (local_parameter ks s x)\<rparr>"
  using local_parameter_bounds [OF assms] assms(2)
  by (simp add: located_in_def node_segment [OF assms(1,2)] Let_def local_parameter_def)

lemma upper_bound_between:
  assumes "increasing_reals ks" "Suc s < length ks" "ks ! s \<le> x" "x < ks ! Suc s"
  shows "upper_bound (map Fin ks) (Fin x) = Suc s"
proof -
  have "takeWhile (\<lambda>k. \<not> x < k) ks = take (Suc s) ks"
  proof (rule takeWhile_eq_take_P_nth)
    fix i
    assume "i < Suc s" "i < length ks"
    then show "\<not> x < ks ! i" using increasing_reals_le [OF assms(1), of i s] assms(2,3) by auto
  qed (use assms(4) in simp)
  then show ?thesis
    using assms(2) by (simp add: upper_bound_def takeWhile_map o_def)
qed

lemma locate_between:
  assumes n: "node_lists ks vs ds" and s: "Suc s < length ks" "ks ! s \<le> x" "x < ks ! Suc s" and x: "ks ! 0 < x"
  shows "locate (node_interpolant ks vs ds rule) (Fin x) = located_in (node_interpolant ks vs ds rule) s (Fin x)"
proof -
  note d = node_listsD [OF n]
  have "Suc s \<le> length ks - 1" using s(1) by linarith
  then have "x < ks ! (length ks - 1)"
    using increasing_reals_le [OF d(5), of "Suc s" "length ks - 1"] s d(7) by simp
  moreover have "min (upper_bound (map Fin ks) (Fin x) - 1) (length ks - 1 - 1) = s"
    using upper_bound_between [OF d(5) s] s(1) by simp
  ultimately show ?thesis
    using d x by (simp add: locate_def hd_map last_map hd_conv_nth last_conv_nth Let_def)
qed

lemma locate_left:
  assumes "node_lists ks vs ds" "x \<le> ks ! 0"
  shows "locate (node_interpolant ks vs ds rule) (Fin x) = \<lparr>loc_segment = 0, loc_parameter = Fin 0\<rparr>"
  using node_listsD [OF assms(1)] assms(2) by (simp add: locate_def hd_map hd_conv_nth)

lemma locate_right:
  assumes n: "node_lists ks vs ds" and x: "ks ! (length ks - 1) \<le> x"
  shows "locate (node_interpolant ks vs ds rule) (Fin x) = \<lparr>loc_segment = length ks - 2, loc_parameter = Fin 1\<rparr>"
proof -
  note d = node_listsD [OF n]
  have "ks ! 0 < x" using increasing_reals_less [OF d(5), of 0 "length ks - 1"] d x by simp
  then show ?thesis
    using d x by (simp add: locate_def hd_map last_map hd_conv_nth last_conv_nth numeral_2_eq_2)
qed

text \<open>Every abscissa strictly between the end knots has its segment.\<close>

lemma bracket_exists:
  fixes ks :: "real list"
  assumes "1 \<le> length ks" "ks ! 0 \<le> x" "x < ks ! (length ks - 1)"
  shows "\<exists>s. Suc s < length ks \<and> ks ! s \<le> x \<and> x < ks ! Suc s"
proof -
  have "\<exists>s. Suc s < n \<and> ks ! s \<le> x \<and> x < ks ! Suc s" if "1 \<le> n" "n \<le> length ks" "x < ks ! (n - 1)" for n
    using that
  proof (induction n rule: nat_induct_at_least)
    case (Suc n)
    show ?case
    proof (cases "x < ks ! (n - 1)")
      case True
      with Suc.IH Suc.prems obtain s where "Suc s < n" "ks ! s \<le> x" "x < ks ! Suc s" by auto
      then show ?thesis by (intro exI [of _ s]) simp
    next
      case False
      then show ?thesis using Suc by (intro exI [of _ "n - 1"]) auto
    qed
  qed (use assms(2) in simp)
  from this [of "length ks"] show ?thesis using assms by auto
qed

lemma segment_exists:
  assumes "node_lists ks vs ds" "ks ! 0 \<le> x" "x < ks ! (length ks - 1)"
  shows "\<exists>s. Suc s < length ks \<and> ks ! s \<le> x \<and> x < ks ! Suc s"
  using bracket_exists [OF _ assms(2,3)] node_listsD [OF assms(1)] by auto

subsection \<open>Evaluation\<close>

lemma evaluate_between:
  assumes n: "node_lists ks vs ds" and s: "Suc s < length ks" "ks ! s \<le> x" "x \<le> ks ! Suc s"
  shows "ip_evaluate (node_interpolant ks vs ds rule) (Fin x) = Fin (segment_curve ks vs ds s x)"
proof -
  note d = node_listsD [OF n]
  note pos = spacing_pos [OF n s(1)]
  consider (left) "x \<le> ks ! 0" | (right) "ks ! 0 < x" "ks ! (length ks - 1) \<le> x"
    | (inside) "ks ! 0 < x" "x < ks ! Suc s" | (node) "x = ks ! Suc s" "Suc (Suc s) < length ks" "ks ! 0 < x"
    using s by (cases "Suc (Suc s) < length ks") (auto simp: not_less le_Suc_eq; force)+
  then show ?thesis
  proof cases
    case left
    then have "\<not> 0 < s" using increasing_reals_less [OF d(5), of 0 s] s by auto
    then have "s = 0" "x = ks ! 0" using left s by auto
    moreover have "local_parameter ks 0 (ks ! 0) = 0" by (simp add: local_parameter_def)
    ultimately show ?thesis
      using segment_value_Fin [OF n, of 0] s
      by (simp add: ip_evaluate_def locate_left [OF n order_refl] segment_curve_def Let_def)
  next
    case right
    have "\<not> Suc s < length ks - 1" using increasing_reals_less [OF d(5), of "Suc s" "length ks - 1"] right s d(7) by auto
    then have "Suc s = length ks - 1" using s(1) by linarith
    then have e: "s = length ks - 2" "x = ks ! Suc s" using right(2) s(3) by simp_all
    have p: "local_parameter ks s x = 1" using e(2) pos by (simp add: local_parameter_def)
    have l: "locate (node_interpolant ks vs ds rule) (Fin x) = \<lparr>loc_segment = s, loc_parameter = Fin 1\<rparr>"
      unfolding e(1) by (rule locate_right [OF n right(2)])
    show ?thesis
      by (simp add: ip_evaluate_def l p segment_curve_def segment_value_Fin [OF n s(1)] Let_def)
  next
    case inside
    show ?thesis
      using segment_value_Fin [OF n s(1)] locate_between [OF n s(1,2) inside(2,1)] located_in_Fin [OF n s]
      by (simp add: ip_evaluate_def segment_curve_def Let_def)
  next
    case node
    have lt: "ks ! Suc s < ks ! Suc (Suc s)" using spacing_pos [OF n node(2)] by simp
    have "local_parameter ks (Suc s) x = 0" "local_parameter ks s x = 1"
      using node(1) pos by (simp_all add: local_parameter_def)
    then show ?thesis
      using segment_value_Fin [OF n node(2)] locate_between [OF n node(2) _ _ node(3)] lt node
        located_in_Fin [OF n node(2), of x]
      by (simp add: ip_evaluate_def segment_curve_def Let_def)
  qed
qed

lemma evaluate_left:
  assumes "node_lists ks vs ds" "x \<le> ks ! 0"
  shows "ip_evaluate (node_interpolant ks vs ds rule) (Fin x) = Fin (vs ! 0)"
  using segment_value_Fin [OF assms(1), of 0] node_listsD [OF assms(1)]
  by (simp add: ip_evaluate_def locate_left [OF assms])

lemma evaluate_right:
  assumes "node_lists ks vs ds" "ks ! (length ks - 1) \<le> x"
  shows "ip_evaluate (node_interpolant ks vs ds rule) (Fin x) = Fin (vs ! (length ks - 1))"
  using segment_value_Fin [OF assms(1), of "length ks - 2"] node_listsD [OF assms(1)]
  by (simp add: ip_evaluate_def locate_right [OF assms])

lemma evaluate_node:
  assumes "node_lists ks vs ds" "n < length ks"
  shows "ip_evaluate (node_interpolant ks vs ds rule) (Fin (ks ! n)) = Fin (vs ! n)"
proof (cases "Suc n < length ks")
  case True
  then show ?thesis
    using evaluate_between [OF assms(1) True order_refl] spacing_pos [OF assms(1) True]
    by (simp add: segment_curve_def local_parameter_def Let_def)
next
  case False
  then have "n = length ks - 1" using assms(2) by simp
  then show ?thesis using evaluate_right [OF assms(1) order_refl] by simp
qed

subsection \<open>The segment hint\<close>

lemma hinted_outside:
  assumes "\<not> (hd (ip_knots m) < x \<and> \<not> last (ip_knots m) \<le> x)"
  shows "ip_evaluate_hinted m x hint = (ip_evaluate m x, loc_segment (locate m x))"
  using assms by (auto simp: ip_evaluate_hinted_def ip_evaluate_def locate_def Let_def)

lemma strictly_inside:
  assumes "hd (map Fin ks) < x" "\<not> last (map Fin ks) \<le> x" "ks \<noteq> []"
  obtains y where "x = Fin y" "ks ! 0 < y" "y < ks ! (length ks - 1)"
  using assms by (cases x) (auto simp: hd_map last_map hd_conv_nth last_conv_nth less_double_def less_eq_double_def not_le)

lemma hinted_inside:
  fixes rule :: outside_rule
  assumes n: "node_lists ks vs ds" and x: "ks ! 0 < y" "y < ks ! (length ks - 1)"
  defines "m \<equiv> node_interpolant ks vs ds rule"
  shows "ip_evaluate_hinted m (Fin y) hint = (ip_evaluate m (Fin y), loc_segment (locate m (Fin y)))"
proof -
  note d = node_listsD [OF n]
  have at: "located_in m s (Fin y) = locate m (Fin y)"
    if "Suc s < length ks" "Fin (ks ! s) \<le> Fin y" "Fin y < Fin (ks ! Suc s)" for s
    using locate_between [OF n that(1), of y] that x(1) by (simp add: m_def)
  have ends: "hd (map Fin ks) = Fin (ks ! 0)" "last (map Fin ks) = Fin (ks ! (length ks - 1))"
    using d by (auto simp: hd_map last_map hd_conv_nth last_conv_nth)
  have l: "length ks - 1 - 1 = length ks - 2" by simp
  have c1: "located_in m hint (Fin y) = locate m (Fin y)"
    if "hint \<le> length ks - 2" "map Fin ks ! hint \<le> Fin y" "Fin y < map Fin ks ! (hint + 1)"
    using at [of hint] that d by simp
  have c2: "located_in m (hint + 1) (Fin y) = locate m (Fin y)"
    if "hint < length ks - 2" "map Fin ks ! (hint + 1) \<le> Fin y"
      "hint + 1 = length ks - 2 \<or> Fin y < map Fin ks ! (hint + 2)"
  proof -
    have s: "Suc (hint + 1) < length ks" using that(1) by linarith
    have "y < ks ! Suc (hint + 1)"
    proof (cases "hint + 1 = length ks - 2")
      case True
      then have "Suc (hint + 1) = length ks - 1" using s by linarith
      then show ?thesis using x(2) by simp
    next
      case False
      then show ?thesis using that(3) s by simp
    qed
    then show ?thesis using at [OF s] that(2) s by simp
  qed
  have c3: "located_in m (hint - 1) (Fin y) = locate m (Fin y)"
    if "0 < hint" "hint \<le> length ks - 2" "map Fin ks ! (hint - 1) \<le> Fin y" "Fin y < map Fin ks ! hint"
  proof -
    have "Suc (hint - 1) < length ks" "Suc (hint - 1) = hint" using that d(2) by linarith+
    then show ?thesis using at [of "hint - 1"] that by simp
  qed
  have k: "ip_knots m = map Fin ks" "length (ip_segments m) - 1 = length ks - 2" by (simp_all add: m_def)
  have x': "Fin (ks ! 0) < Fin y" "\<not> Fin (ks ! (length ks - 1)) \<le> Fin y" using x by simp_all
  show ?thesis
    unfolding ip_evaluate_hinted_def ip_evaluate_def Let_def k ends
    by (simp only: x' not_False_eq_True if_True if_False not_True_eq_False c1 c2 c3 cong: if_cong conj_cong)
       (auto simp only: c1 c2 c3 split: if_splits)
qed

text \<open>What the two factories return.\<close>

definition built_interpolant :: "interpolant \<Rightarrow> bool" where
  "built_interpolant m \<longleftrightarrow> (\<exists>knots values rule. from_values knots values rule = Inr m)
     \<or> (\<exists>knots values slopes rule. from_nodal_slopes knots values slopes rule = Inr m)"

lemma built_interpolantE:
  assumes "built_interpolant m"
  obtains ks vs ds rule where "node_lists ks vs ds" "m = node_interpolant ks vs ds rule"
  using assms unfolding built_interpolant_def by (metis from_values_Inr from_nodal_slopes_Inr)

subsection \<open>Monotone segments\<close>

lemma segment_limited:
  assumes n: "node_lists ks vs ds" and p: "shape_preserving ks vs ds" and s: "Suc s < length ks"
    and x: "ks ! s \<le> x" "x \<le> y" "y \<le> ks ! Suc s"
  shows "\<exists>p q. 0 \<le> p \<and> p \<le> q \<and> q \<le> 1 \<and> segment_curve ks vs ds s x = vs ! s + (vs ! Suc s - vs ! s) * p
           \<and> segment_curve ks vs ds s y = vs ! s + (vs ! Suc s - vs ! s) * q"
proof -
  let ?h = "ks ! Suc s - ks ! s" and ?v = "vs ! Suc s - vs ! s"
  have h: "0 < ?h" by (rule spacing_pos [OF n s])
  have lim: "limited ?v (?h * g)" if "limited (?v / ?h) g" for g
    using that h by (auto simp: limited_def)
  have "limited ?v (?h * ds ! s)" "limited ?v (?h * ds ! Suc s)"
    using p s by (auto simp: shape_preserving_def Let_def intro!: lim)
  moreover have "0 \<le> local_parameter ks s x" "local_parameter ks s x \<le> local_parameter ks s y" "local_parameter ks s y \<le> 1"
    using x h by (auto simp: local_parameter_def divide_right_mono)
  ultimately show ?thesis
    unfolding segment_curve_def Let_def by (rule hermite_limited)
qed

text \<open>Between two nodes the curve runs monotonically from one value to the other.\<close>

lemma segment_monotone:
  assumes n: "node_lists ks vs ds" and p: "shape_preserving ks vs ds" and s: "Suc s < length ks"
    and x: "ks ! s \<le> x" "x \<le> y" "y \<le> ks ! Suc s"
  shows "vs ! s \<le> vs ! Suc s \<Longrightarrow> vs ! s \<le> segment_curve ks vs ds s x
           \<and> segment_curve ks vs ds s x \<le> segment_curve ks vs ds s y \<and> segment_curve ks vs ds s y \<le> vs ! Suc s"
    and "vs ! Suc s \<le> vs ! s \<Longrightarrow> vs ! Suc s \<le> segment_curve ks vs ds s y
           \<and> segment_curve ks vs ds s y \<le> segment_curve ks vs ds s x \<and> segment_curve ks vs ds s x \<le> vs ! s"
proof -
  from segment_limited [OF n p s x] obtain a b where ab: "0 \<le> a" "a \<le> b" "b \<le> 1"
    and c: "segment_curve ks vs ds s x = vs ! s + (vs ! Suc s - vs ! s) * a"
      "segment_curve ks vs ds s y = vs ! s + (vs ! Suc s - vs ! s) * b" by blast
  have up: "0 \<le> v * a \<and> v * a \<le> v * b \<and> v * b \<le> v" if "0 \<le> v" for v :: real
    using ab that by (auto simp: mult_left_mono mult_left_le)
  show "vs ! s \<le> vs ! Suc s \<Longrightarrow> vs ! s \<le> segment_curve ks vs ds s x
           \<and> segment_curve ks vs ds s x \<le> segment_curve ks vs ds s y \<and> segment_curve ks vs ds s y \<le> vs ! Suc s"
    using up [of "vs ! Suc s - vs ! s"] unfolding c by simp
  show "vs ! Suc s \<le> vs ! s \<Longrightarrow> vs ! Suc s \<le> segment_curve ks vs ds s y
           \<and> segment_curve ks vs ds s y \<le> segment_curve ks vs ds s x \<and> segment_curve ks vs ds s x \<le> vs ! s"
    using up [of "vs ! s - vs ! Suc s"] unfolding c by (simp add: algebra_simps)
qed

text \<open>Nondecreasing data give a nondecreasing curve on the whole line, held flat outside the knots.\<close>

lemma evaluate_nondecreasing_from:
  assumes n: "node_lists ks vs ds" and p: "shape_preserving ks vs ds"
    and v: "\<And>i. Suc i < length ks \<Longrightarrow> vs ! i \<le> vs ! Suc i"
    and s: "Suc s < length ks" "ks ! s \<le> x" "x \<le> ks ! Suc s" and j: "j \<le> length ks - 2" "s \<le> j"
    and y: "ks ! j \<le> y" "y \<le> ks ! Suc j" "x \<le> y"
  shows "segment_curve ks vs ds s x \<le> segment_curve ks vs ds j y"
proof (cases "s = j")
  case True
  then show ?thesis using segment_monotone(1) [OF n p s(1,2) y(3)] y v [OF s(1)] by simp
next
  case False
  note d = node_listsD [OF n]
  have j': "Suc j < length ks" using j d by linarith
  have mono: "vs ! a \<le> vs ! b" if "a \<le> b" "b < length ks" for a b
    using that by (induction b rule: dec_induct) (auto intro: order_trans v)
  have "segment_curve ks vs ds s x \<le> vs ! Suc s"
    using segment_monotone(1) [OF n p s(1,2) order_refl s(3)] v [OF s(1)] by simp
  also have "\<dots> \<le> vs ! j" using False j j' by (intro mono) auto
  also have "\<dots> \<le> segment_curve ks vs ds j y"
    using segment_monotone(1) [OF n p j' y(1) order_refl y(2)] v [OF j'] by simp
  finally show ?thesis .
qed

lemma evaluate_clamped:
  assumes n: "node_lists ks vs ds"
  obtains s where "Suc s < length ks" "ks ! s \<le> max (ks ! 0) (min x (ks ! (length ks - 1)))"
    "max (ks ! 0) (min x (ks ! (length ks - 1))) \<le> ks ! Suc s"
    "ip_evaluate (node_interpolant ks vs ds rule) (Fin x)
       = Fin (segment_curve ks vs ds s (max (ks ! 0) (min x (ks ! (length ks - 1)))))"
proof -
  let ?c = "max (ks ! 0) (min x (ks ! (length ks - 1)))"
  note d = node_listsD [OF n]
  have e: "ks ! 0 < ks ! (length ks - 1)" using increasing_reals_less [OF d(5), of 0 "length ks - 1"] d by simp
  have "\<exists>s. Suc s < length ks \<and> ks ! s \<le> ?c \<and> ?c \<le> ks ! Suc s"
  proof (cases "?c < ks ! (length ks - 1)")
    case True
    with segment_exists [OF n, of ?c] show ?thesis by force
  next
    case False
    then have "?c = ks ! (length ks - 1)" using e by auto
    then show ?thesis using d increasing_reals_le [OF d(5), of "length ks - 2" "length ks - 1"]
      by (intro exI [of _ "length ks - 2"]) auto
  qed
  then obtain s where s: "Suc s < length ks" "ks ! s \<le> ?c" "?c \<le> ks ! Suc s" by blast
  have "ip_evaluate (node_interpolant ks vs ds rule) (Fin x) = ip_evaluate (node_interpolant ks vs ds rule) (Fin ?c)"
    using evaluate_left [OF n, of x] evaluate_left [OF n order_refl] evaluate_right [OF n, of x]
      evaluate_right [OF n order_refl] e
    by (cases "x \<le> ks ! 0"; cases "ks ! (length ks - 1) \<le> x") (auto simp: max_def min_def)
  also have "\<dots> = Fin (segment_curve ks vs ds s ?c)" by (rule evaluate_between [OF n s])
  finally show thesis by (rule that [OF s])
qed

lemma evaluate_nondecreasing:
  assumes n: "node_lists ks vs ds" and p: "shape_preserving ks vs ds"
    and v: "\<And>i. Suc i < length ks \<Longrightarrow> vs ! i \<le> vs ! Suc i" and xy: "x \<le> y"
  shows "ip_evaluate (node_interpolant ks vs ds rule) (Fin x) \<le> ip_evaluate (node_interpolant ks vs ds rule) (Fin y)"
proof -
  let ?c = "\<lambda>x. max (ks ! 0) (min x (ks ! (length ks - 1)))"
  obtain s where s: "Suc s < length ks" "ks ! s \<le> ?c x" "?c x \<le> ks ! Suc s"
      "ip_evaluate (node_interpolant ks vs ds rule) (Fin x) = Fin (segment_curve ks vs ds s (?c x))"
    by (rule evaluate_clamped [OF n, of x rule])
  obtain j where j: "Suc j < length ks" "ks ! j \<le> ?c y" "?c y \<le> ks ! Suc j"
      "ip_evaluate (node_interpolant ks vs ds rule) (Fin y) = Fin (segment_curve ks vs ds j (?c y))"
    by (rule evaluate_clamped [OF n, of y rule])
  have c: "?c x \<le> ?c y" using xy by auto
  note d = node_listsD [OF n]
  show ?thesis
  proof (cases "s \<le> j")
    case True
    moreover have "j \<le> length ks - 2" using j(1) by linarith
    ultimately show ?thesis
      using evaluate_nondecreasing_from [OF n p v s(1-3) _ _ j(2,3) c] unfolding s(4) j(4) by simp
  next
    case False
    then have "ks ! Suc j \<le> ks ! s" using increasing_reals_le [OF d(5), of "Suc j" s] s(1) by simp
    then have "?c x = ?c y" using c s j by linarith
    then have "ip_evaluate (node_interpolant ks vs ds rule) (Fin x) = ip_evaluate (node_interpolant ks vs ds rule) (Fin y)"
      using evaluate_between [OF n s(1-3), of rule] evaluate_between [OF n j(1-3), of rule] s(4) j(4) by metis
    then show ?thesis using s(4) by (metis Fin_le order_refl)
  qed
qed

subsection \<open>The first derivative\<close>

definition segment_slope :: "real list \<Rightarrow> real list \<Rightarrow> real list \<Rightarrow> nat \<Rightarrow> real \<Rightarrow> real" where
  "segment_slope ks vs ds s x =
     (let h = ks ! Suc s - ks ! s; v0 = vs ! s; v1 = vs ! Suc s; t = local_parameter ks s x
      in (h * ds ! s + t * (2 * (- 3 * v0 + 3 * v1 - 2 * h * ds ! s - h * ds ! Suc s)
                            + 3 * (2 * v0 - 2 * v1 + h * ds ! s + h * ds ! Suc s) * t)) / h)"

lemma segment_curve_derivative:
  assumes "node_lists ks vs ds" "Suc s < length ks"
  shows "(segment_curve ks vs ds s has_real_derivative segment_slope ks vs ds s x) (at x)"
proof -
  define h where "h = ks ! Suc s - ks ! s"
  have h: "h \<noteq> 0" using spacing_pos [OF assms] by (simp add: h_def)
  show ?thesis
    unfolding segment_curve_def [abs_def] segment_slope_def Let_def hermite_def local_parameter_def h_def [symmetric]
    by (rule derivative_eq_intros refl | rule h)+ (use h in \<open>simp add: field_simps\<close>)
qed

lemma segment_slope_ends:
  assumes "node_lists ks vs ds" "Suc s < length ks"
  shows "segment_slope ks vs ds s (ks ! s) = ds ! s" "segment_slope ks vs ds s (ks ! Suc s) = ds ! Suc s"
proof -
  have h: "ks ! Suc s - ks ! s \<noteq> 0" using spacing_pos [OF assms] by simp
  show "segment_slope ks vs ds s (ks ! s) = ds ! s" using h by (simp add: segment_slope_def local_parameter_def Let_def)
  show "segment_slope ks vs ds s (ks ! Suc s) = ds ! Suc s"
    using h by (simp add: segment_slope_def local_parameter_def Let_def field_simps)
qed

lemma first_derivative_between:
  assumes n: "node_lists ks vs ds" and s: "Suc s < length ks" "ks ! s \<le> x" "x < ks ! Suc s" and x: "ks ! 0 < x"
  shows "ip_first_derivative (node_interpolant ks vs ds rule) (Fin x) = Fin (segment_slope ks vs ds s x)"
proof -
  note d = node_listsD [OF n]
  have "Suc s \<le> length ks - 1" using s(1) by linarith
  then have "x < ks ! (length ks - 1)" using increasing_reals_le [OF d(5), of "Suc s" "length ks - 1"] s d(7) by simp
  then have inside: "\<not> Fin x < hd (map Fin ks)" "\<not> last (map Fin ks) < Fin x"
    using d x by (auto simp: hd_map last_map hd_conv_nth last_conv_nth)
  have h: "ks ! Suc s - ks ! s \<noteq> 0" using spacing_pos [OF n s(1)] by simp
  show ?thesis
    using inside located_in_Fin [OF n s(1,2) less_imp_le [OF s(3)], of rule]
    by (simp add: ip_first_derivative_def locate_between [OF n s x] node_segment [OF n s(1)] segment_slope_def Let_def)
qed

definition curve :: "interpolant \<Rightarrow> real \<Rightarrow> real" where
  "curve m x = to_real (ip_evaluate m (Fin x))"

lemma curve_between:
  "node_lists ks vs ds \<Longrightarrow> Suc s < length ks \<Longrightarrow> ks ! s \<le> x \<Longrightarrow> x \<le> ks ! Suc s
   \<Longrightarrow> curve (node_interpolant ks vs ds rule) x = segment_curve ks vs ds s x"
  by (simp add: curve_def evaluate_between)

text \<open>One side of a derivative only needs one segment.\<close>

lemma one_sided_slope:
  fixes rule :: outside_rule
  assumes n: "node_lists ks vs ds" and s: "Suc s < length ks" "ks ! s \<le> x" "x \<le> ks ! Suc s"
    and near: "eventually (\<lambda>y. ks ! s \<le> y \<and> y \<le> ks ! Suc s) (at x within A)"
  defines "m \<equiv> node_interpolant ks vs ds rule"
  shows "((\<lambda>y. (curve m y - curve m x) / (y - x)) \<longlongrightarrow> segment_slope ks vs ds s x) (at x within A)"
proof -
  have "((\<lambda>y. (segment_curve ks vs ds s y - segment_curve ks vs ds s x) / (y - x)) \<longlongrightarrow> segment_slope ks vs ds s x)
      (at x within A)"
    using has_field_derivative_at_within [OF segment_curve_derivative [OF n s(1), of x], of A]
    by (simp add: has_field_derivative_iff)
  moreover have "eventually (\<lambda>y. (segment_curve ks vs ds s y - segment_curve ks vs ds s x) / (y - x)
      = (curve m y - curve m x) / (y - x)) (at x within A)"
    using near by eventually_elim (simp add: m_def curve_between [OF n s] curve_between [OF n s(1)])
  ultimately show ?thesis by (rule Lim_transform_eventually)
qed

lemma curve_has_derivative:
  fixes rule :: outside_rule
  assumes n: "node_lists ks vs ds" and x: "ks ! 0 < x" "x < ks ! (length ks - 1)"
  defines "m \<equiv> node_interpolant ks vs ds rule"
  shows "\<exists>d. ip_first_derivative m (Fin x) = Fin d \<and> (curve m has_real_derivative d) (at x)"
proof -
  from segment_exists [OF n less_imp_le [OF x(1)] x(2)] obtain s
    where s: "Suc s < length ks" "ks ! s \<le> x" "x < ks ! Suc s" by blast
  let ?q = "\<lambda>y. (curve m y - curve m x) / (y - x)"
  let ?d = "segment_slope ks vs ds s x"
  have right: "(?q \<longlongrightarrow> ?d) (at_right x)"
    unfolding m_def using s
    by (intro one_sided_slope [OF n s(1)]) (auto simp: eventually_at_right_field intro!: exI [of _ "ks ! Suc s"])
  have left: "(?q \<longlongrightarrow> ?d) (at_left x)"
  proof (cases "ks ! s < x")
    case True
    then show ?thesis
      unfolding m_def using s
      by (intro one_sided_slope [OF n s(1)]) (auto simp: eventually_at_left_field intro!: exI [of _ "ks ! s"])
  next
    case False
    then have e: "x = ks ! s" "0 < s" using s(2) x(1) by (auto intro: Suc_leI gr0I)
    then have p: "Suc (s - 1) = s" by simp
    have lt: "ks ! (s - 1) < x" using increasing_reals_less [OF node_listsD(5) [OF n], of "s - 1" s] e s(1) by simp
    have "(?q \<longlongrightarrow> segment_slope ks vs ds (s - 1) x) (at_left x)"
      unfolding m_def using s lt e
      by (intro one_sided_slope [OF n]) (auto simp: eventually_at_left_field p intro!: exI [of _ "ks ! (s - 1)"])
    moreover have "segment_slope ks vs ds (s - 1) x = ?d"
      using segment_slope_ends(1) [OF n s(1)] segment_slope_ends(2) [OF n, of "s - 1"] s(1) e(1) p by simp
    ultimately show ?thesis by simp
  qed
  have "(curve m has_real_derivative ?d) (at x)"
    unfolding has_field_derivative_iff using left right by (simp add: filterlim_split_at)
  moreover have "ip_first_derivative m (Fin x) = Fin ?d"
    unfolding m_def by (rule first_derivative_between [OF n s x(1)])
  ultimately show ?thesis by blast
qed

subsection \<open>Properties\<close>

lemma hinted_evaluation:
  assumes "built_interpolant m"
  shows "ip_evaluate_hinted m x hint = (ip_evaluate m x, loc_segment (locate m x))"
proof (cases "hd (ip_knots m) < x \<and> \<not> last (ip_knots m) \<le> x")
  case True
  from assms obtain ks vs ds rule where n: "node_lists ks vs ds" and m: "m = node_interpolant ks vs ds rule"
    by (rule built_interpolantE)
  from True obtain y where "x = Fin y" "ks ! 0 < y" "y < ks ! (length ks - 1)"
    using strictly_inside node_listsD(1) [OF n] unfolding m by (metis node_interpolant_fields(1))
  then show ?thesis unfolding m using hinted_inside [OF n] by simp
qed (rule hinted_outside)

text \<open>C35: The segment hint removes a search and nothing else: for every interpolant the factories return, every
  abscissa (also infinite and NaN) and every hint, in range or not, the hinted evaluation gives the value of the
  plain one and leaves the segment the plain search finds.\<close>
theorem segment_hint_irrelevant:
  assumes "built_interpolant m"
  shows "ip_evaluate_hinted m x hint = (ip_evaluate m x, loc_segment (locate m x))"
  by (rule hinted_evaluation [OF assms])

definition flange_knots :: vec where "flange_knots = [Fin 0, Fin 1, Fin 3, Fin 4]"
definition flange_heights :: vec where "flange_heights = [Fin 0, Fin 1, Fin 2, Fin 6]"

lemma flange_accepted: "\<exists>m. from_values flange_knots flange_heights rule = Inr m"
proof -
  have "increasing_reals [0, 1, 3, 4]" by (auto simp: increasing_reals_def nth_Cons less_Suc_eq numeral_eq_Suc)
  then show ?thesis
    using from_values_accepts [of "[0, 1, 3, 4]" "[0, 1, 2, 6]" rule] by (simp add: flange_knots_def flange_heights_def)
qed

theorem segment_hint_irrelevant_witness:
  "\<exists>m. from_values flange_knots flange_heights HoldEndpointDerivative = Inr m
     \<and> ip_evaluate_hinted m (Fin 2) 7 = (ip_evaluate m (Fin 2), loc_segment (locate m (Fin 2)))"
proof -
  obtain m where m: "from_values flange_knots flange_heights HoldEndpointDerivative = Inr m"
    using flange_accepted by blast
  then have "built_interpolant m" by (auto simp: built_interpolant_def)
  from segment_hint_irrelevant [OF this, of "Fin 2" 7] m show ?thesis by blast
qed

text \<open>C34: The interpolant of \<open>FromValues\<close> preserves shape.  It passes through every node; between two nodes it runs
  monotonically from one value to the other, so it never leaves the interval the two values span; and data that never
  decrease give a curve that never decreases on the whole line.\<close>
theorem from_values_preserves_shape:
  assumes "from_values knots values rule = Inr m"
  shows "(\<forall>n. n < length knots \<longrightarrow> ip_evaluate m (knots ! n) = values ! n)
     \<and> (\<forall>s x y. Suc s < length knots \<and> knots ! s \<le> Fin x \<and> x \<le> y \<and> Fin y \<le> knots ! Suc s \<longrightarrow>
          (values ! s \<le> values ! Suc s \<longrightarrow> values ! s \<le> ip_evaluate m (Fin x)
             \<and> ip_evaluate m (Fin x) \<le> ip_evaluate m (Fin y) \<and> ip_evaluate m (Fin y) \<le> values ! Suc s)
        \<and> (values ! Suc s \<le> values ! s \<longrightarrow> values ! Suc s \<le> ip_evaluate m (Fin y)
             \<and> ip_evaluate m (Fin y) \<le> ip_evaluate m (Fin x) \<and> ip_evaluate m (Fin x) \<le> values ! s))
     \<and> ((\<forall>s. Suc s < length knots \<longrightarrow> values ! s \<le> values ! Suc s) \<longrightarrow>
          (\<forall>x y. x \<le> y \<longrightarrow> ip_evaluate m (Fin x) \<le> ip_evaluate m (Fin y)))"
    (is "?nodes \<and> ?segments \<and> ?global")
proof -
  from assms obtain ks vs ds where k: "knots = map Fin ks" "values = map Fin vs" and n: "node_lists ks vs ds"
    and p: "shape_preserving ks vs ds" and m: "m = node_interpolant ks vs ds rule" by (rule from_values_Inr)
  note d = node_listsD [OF n]
  have ?nodes using evaluate_node [OF n] d by (simp add: k m)
  moreover have ?segments
  proof (intro allI impI, elim conjE)
    fix s x y
    assume a: "Suc s < length knots" "knots ! s \<le> Fin x" "x \<le> y" "Fin y \<le> knots ! Suc s"
    then have b: "Suc s < length ks" "ks ! s \<le> x" "y \<le> ks ! Suc s" by (auto simp: k)
    have "ip_evaluate m (Fin x) = Fin (segment_curve ks vs ds s x)" "ip_evaluate m (Fin y) = Fin (segment_curve ks vs ds s y)"
      unfolding m by (rule evaluate_between [OF n b(1)]; use a(3) b in linarith)+
    then show "(values ! s \<le> values ! Suc s \<longrightarrow> values ! s \<le> ip_evaluate m (Fin x)
             \<and> ip_evaluate m (Fin x) \<le> ip_evaluate m (Fin y) \<and> ip_evaluate m (Fin y) \<le> values ! Suc s)
        \<and> (values ! Suc s \<le> values ! s \<longrightarrow> values ! Suc s \<le> ip_evaluate m (Fin y)
             \<and> ip_evaluate m (Fin y) \<le> ip_evaluate m (Fin x) \<and> ip_evaluate m (Fin x) \<le> values ! s)"
      using segment_monotone [OF n p b(1,2) a(3) b(3)] b(1) d(3) by (simp add: k)
  qed
  moreover have ?global
    using evaluate_nondecreasing [OF n p] d(3) by (auto simp: k m)
  ultimately show ?thesis by blast
qed

theorem from_values_preserves_shape_witness:
  "\<exists>m. from_values flange_knots flange_heights HoldEndpointDerivative = Inr m
     \<and> ip_evaluate m (Fin 3) = Fin 2 \<and> ip_evaluate m (Fin 1) \<le> ip_evaluate m (Fin 2)"
proof -
  obtain m where m: "from_values flange_knots flange_heights HoldEndpointDerivative = Inr m"
    using flange_accepted by blast
  note p = from_values_preserves_shape [OF m]
  have "2 < length flange_knots" by (simp add: flange_knots_def)
  then have "ip_evaluate m (flange_knots ! 2) = flange_heights ! 2" using p by blast
  moreover have "\<forall>s. Suc s < length flange_knots \<longrightarrow> flange_heights ! s \<le> flange_heights ! Suc s"
    by (auto simp: flange_knots_def flange_heights_def less_Suc_eq nth_Cons)
  with p have "ip_evaluate m (Fin x) \<le> ip_evaluate m (Fin y)" if "x \<le> y" for x y using that by blast
  then have "ip_evaluate m (Fin 1) \<le> ip_evaluate m (Fin 2)" by simp
  ultimately show ?thesis using m by (simp add: flange_knots_def flange_heights_def)
qed

text \<open>The reported first derivative is the derivative of the reported value at every abscissa strictly between the
  end knots, the inner knots included, whichever factory built the interpolant.\<close>
theorem first_derivative_is_derivative:
  assumes "built_interpolant m" and "hd (ip_knots m) < Fin x" "Fin x < last (ip_knots m)"
  shows "\<exists>d. ip_first_derivative m (Fin x) = Fin d
     \<and> ((\<lambda>y. to_real (ip_evaluate m (Fin y))) has_real_derivative d) (at x)"
proof -
  from assms(1) obtain ks vs ds rule where n: "node_lists ks vs ds" and m: "m = node_interpolant ks vs ds rule"
    by (rule built_interpolantE)
  have "ks ! 0 < x" "x < ks ! (length ks - 1)"
    using assms(2,3) node_listsD [OF n] by (auto simp: m hd_map last_map hd_conv_nth last_conv_nth)
  from curve_has_derivative [OF n this] show ?thesis by (simp add: m curve_def [abs_def])
qed

theorem first_derivative_is_derivative_witness:
  "\<exists>m. from_values flange_knots flange_heights ZeroOutsideKnots = Inr m
     \<and> (\<exists>d. ip_first_derivative m (Fin 1) = Fin d
          \<and> ((\<lambda>y. to_real (ip_evaluate m (Fin y))) has_real_derivative d) (at 1))"
proof -
  obtain m where m: "from_values flange_knots flange_heights ZeroOutsideKnots = Inr m"
    using flange_accepted by blast
  then have b: "built_interpolant m" by (auto simp: built_interpolant_def)
  from m have "ip_knots m = flange_knots"
    by (auto simp: from_values_def bindS_eq_Inr make_interpolant_def)
  then show ?thesis
    using first_derivative_is_derivative [OF b, of 1] m by (simp add: flange_knots_def)
qed

end
