(* ===== verification/Natural_Spline.thy ===== *)
theory Natural_Spline
  imports Monotone_Interpolant
begin

section \<open>The natural cubic spline\<close>

text \<open>
  \<open>natural_cubic_spline.cc\<close> of \<open>libs/wheel_rail_contact\<close>: the elimination of a tridiagonal system, the two
  construction paths (nodal slopes on an equally spaced grid, moments on any other), location with its
  snapping, and evaluation.  The lemmas show that the elimination solves its system whenever it returns, that its pivots
  cannot vanish on the systems of the two paths, and that either path yields a curve that is
  twice continuously differentiable with vanishing end curvature.  Segments and locations have the same fields as
  those of \<open>Monotone_Interpolant\<close> and use its records.
\<close>

subsection \<open>The tridiagonal solve\<close>

definition uniform_spacing_absolute_tolerance :: double where
  "uniform_spacing_absolute_tolerance = Fin (1 / 10 ^ 12)"

definition uniform_spacing_relative_tolerance :: double where
  "uniform_spacing_relative_tolerance = Fin (1 / 10 ^ 9)"

definition singular_pivot :: double where
  "singular_pivot = Fin (1 / 10 ^ 15)"

definition local_parameter_snap :: double where
  "local_parameter_snap = Fin (1 / 10 ^ 12)"

definition spacings_are_uniform :: "vec \<Rightarrow> bool" where
  "spacings_are_uniform spacings =
     (let reference = hd spacings;
          tolerance = uniform_spacing_absolute_tolerance + uniform_spacing_relative_tolerance * \<bar>reference\<bar>
      in list_all (\<lambda>spacing. \<bar>spacing - reference\<bar> \<le> tolerance) spacings)"

text \<open>The forward sweep up to a row, as the coefficients it has stored, and the back substitution from the last row.\<close>

primrec forward_sweep :: "vec \<Rightarrow> vec \<Rightarrow> vec \<Rightarrow> vec \<Rightarrow> nat \<Rightarrow> (vec \<times> vec) outcome" where
  "forward_sweep sub diagonal super rhs 0 =
     (if \<bar>diagonal ! 0\<bar> < singular_pivot then Inl RuntimeError
      else Inr ([super ! 0 / diagonal ! 0], [rhs ! 0 / diagonal ! 0]))"
| "forward_sweep sub diagonal super rhs (Suc n) =
     bindS (forward_sweep sub diagonal super rhs n) (\<lambda>(super_prime, right_prime).
       let row = Suc n;
           pivot = diagonal ! row - sub ! row * super_prime ! n
       in if \<bar>pivot\<bar> < singular_pivot then Inl RuntimeError
          else Inr (super_prime @ [if row + 1 < length diagonal then super ! row / pivot else 0],
                    right_prime @ [(rhs ! row - sub ! row * right_prime ! n) / pivot]))"

primrec back_substitution :: "vec \<Rightarrow> vec \<Rightarrow> nat \<Rightarrow> vec" where
  "back_substitution super_prime right_prime 0 = [last right_prime]"
| "back_substitution super_prime right_prime (Suc n) =
     (let below = back_substitution super_prime right_prime n;
          row = length right_prime - 2 - n
      in (right_prime ! row - super_prime ! row * hd below) # below)"

definition solve_tridiagonal :: "vec \<Rightarrow> vec \<Rightarrow> vec \<Rightarrow> vec \<Rightarrow> vec outcome" where
  "solve_tridiagonal sub diagonal super rhs =
     (let rows = length diagonal
      in if rows = 1 then
           (if \<bar>diagonal ! 0\<bar> < singular_pivot then Inl RuntimeError else Inr [rhs ! 0 / diagonal ! 0])
         else bindS (forward_sweep sub diagonal super rhs (rows - 1)) (\<lambda>(super_prime, right_prime).
           Inr (back_substitution super_prime right_prime (rows - 1))))"

subsection \<open>The two construction paths\<close>

definition uniform_rhs :: "vec \<Rightarrow> double \<Rightarrow> nat \<Rightarrow> double" where
  "uniform_rhs values inverse_spacing n =
     (let count = length values
      in if n = 0 then 3 * (values ! 1 - values ! 0) * inverse_spacing
         else if n = count - 1 then 3 * (values ! (count - 1) - values ! (count - 2)) * inverse_spacing
         else 3 * (values ! (n + 1) - values ! (n - 1)) * inverse_spacing)"

definition solve_nodal_slopes_uniform :: "vec \<Rightarrow> double \<Rightarrow> vec outcome" where
  "solve_nodal_slopes_uniform values spacing =
     (let count = length values
      in if count = 2 then let slope = (values ! 1 - values ! 0) / spacing in Inr [slope, slope]
         else let inverse_spacing = 1 / spacing
              in solve_tridiagonal
                   (map (\<lambda>n. if n = 0 then 0 else 1) [0..<count])
                   (map (\<lambda>n. if n = 0 \<or> n = count - 1 then 2 else 4) [0..<count])
                   (map (\<lambda>n. if n = count - 1 then 0 else 1) [0..<count])
                   (map (uniform_rhs values inverse_spacing) [0..<count]))"

definition moment_rhs :: "vec \<Rightarrow> vec \<Rightarrow> nat \<Rightarrow> double" where
  "moment_rhs values spacings row =
     (let node = row + 1;
          forward_slope = (values ! (node + 1) - values ! node) / spacings ! node;
          backward_slope = (values ! node - values ! (node - 1)) / spacings ! (node - 1)
      in 6 * (forward_slope - backward_slope))"

definition solve_moments :: "vec \<Rightarrow> vec \<Rightarrow> vec outcome" where
  "solve_moments values spacings =
     (let count = length values; interior = count - 2
      in if 2 < count then
           bindS (solve_tridiagonal
                    (map (\<lambda>row. if 0 < row then spacings ! row else 0) [0..<interior])
                    (map (\<lambda>row. 2 * (spacings ! row + spacings ! (row + 1))) [0..<interior])
                    (map (\<lambda>row. if row + 1 < interior then spacings ! (row + 1) else 0) [0..<interior])
                    (map (moment_rhs values spacings) [0..<interior]))
             (\<lambda>interior_moments. Inr (0 # interior_moments @ [0]))
         else Inr (replicate count 0))"

definition solve_nodal_slopes_general :: "vec \<Rightarrow> vec \<Rightarrow> vec outcome" where
  "solve_nodal_slopes_general values spacings =
     bindS (solve_moments values spacings) (\<lambda>moments.
       let count = length values
       in Inr (map (\<lambda>n. if n + 1 < count
                        then (values ! (n + 1) - values ! n) / spacings ! n
                             - (spacings ! n / 6) * (2 * moments ! n + moments ! (n + 1))
                        else (values ! (count - 1) - values ! (count - 2)) / spacings ! (count - 2)
                             + (spacings ! (count - 2) / 6) * (moments ! (count - 2) + 2 * moments ! (count - 1)))
                 [0..<count]))"

subsection \<open>The spline\<close>

record natural_spline =
  ns_knots :: vec
  ns_values :: vec
  ns_nodal_slopes :: vec
  ns_segments :: "segment_coefficients list"
  ns_first_knot :: double
  ns_last_knot :: double
  ns_uniform_spacing :: double
  ns_inverse_uniform_spacing :: double
  ns_is_uniform :: bool

definition stored_spline :: "vec \<Rightarrow> vec \<Rightarrow> vec \<Rightarrow> natural_spline" where
  "stored_spline knots values slopes =
     (let spacings = node_spacings knots;
          uniform = spacings_are_uniform spacings;
          uniform_spacing = (if uniform then hd spacings else 0);
          inverse_uniform_spacing = (if uniform then 1 / uniform_spacing else 0)
      in \<lparr>ns_knots = (if uniform then [] else knots), ns_values = values, ns_nodal_slopes = slopes,
          ns_segments = map (\<lambda>n. segment_of_nodes (if uniform then uniform_spacing else spacings ! n)
                                   (values ! n) (values ! Suc n) (slopes ! n) (slopes ! Suc n))
                          [0..<length knots - 1],
          ns_first_knot = hd knots, ns_last_knot = last knots,
          ns_uniform_spacing = uniform_spacing, ns_inverse_uniform_spacing = inverse_uniform_spacing,
          ns_is_uniform = uniform\<rparr>)"

definition make_natural_spline :: "vec \<Rightarrow> vec \<Rightarrow> natural_spline outcome" where
  "make_natural_spline knots values =
     bindS (all_checks
       [reject_if (length knots \<noteq> length values) InvalidArgument,
        reject_if (length knots < 2) InvalidArgument,
        reject_if (\<not> all_finite knots) InvalidArgument,
        reject_if (\<not> all_finite values) InvalidArgument,
        reject_if (\<not> strictly_increasing_nodes knots) InvalidArgument]) (\<lambda>_.
     let spacings = node_spacings knots
     in bindS (if spacings_are_uniform spacings then solve_nodal_slopes_uniform values (hd spacings)
               else solve_nodal_slopes_general values spacings) (\<lambda>slopes.
        Inr (stored_spline knots values slopes)))"

subsection \<open>Location and evaluation\<close>

text \<open>\<open>std::floor\<close>\<close>

fun std_floor :: "double \<Rightarrow> double" where
  "std_floor (Fin x) = Fin (of_int \<lfloor>x\<rfloor>)"
| "std_floor d = d"

definition snap_location :: "natural_spline \<Rightarrow> nat \<Rightarrow> double \<Rightarrow> location" where
  "snap_location s seg t =
     (let last_segment = length (ns_segments s) - 1
      in if t \<le> local_parameter_snap then \<lparr>loc_segment = seg, loc_parameter = 0\<rparr>
         else if 1 - local_parameter_snap \<le> t then
           (if last_segment < seg + 1 then \<lparr>loc_segment = last_segment, loc_parameter = 1\<rparr>
            else \<lparr>loc_segment = seg + 1, loc_parameter = 0\<rparr>)
         else \<lparr>loc_segment = seg, loc_parameter = t\<rparr>)"

definition spline_locate :: "natural_spline \<Rightarrow> double \<Rightarrow> location" where
  "spline_locate s x =
     (let last_segment = length (ns_segments s) - 1;
          at_end = \<lparr>loc_segment = last_segment, loc_parameter = 1\<rparr>
      in if x \<le> ns_first_knot s then \<lparr>loc_segment = 0, loc_parameter = 0\<rparr>
         else if ns_last_knot s \<le> x then at_end
         else if ns_is_uniform s then
           (let scaled = (x - ns_first_knot s) * ns_inverse_uniform_spacing s;
                floored = std_floor scaled
            in if \<not> floored < Fin (real (length (ns_segments s))) then at_end
               else snap_location s (nat \<lfloor>to_real floored\<rfloor>) (scaled - floored))
         else
           (let upper_index = upper_bound (ns_knots s) x
            in if upper_index = 0 then \<lparr>loc_segment = 0, loc_parameter = 0\<rparr>
               else let seg = upper_index - 1
                    in if last_segment < seg then at_end
                       else snap_location s seg
                              ((x - ns_knots s ! seg) * seg_inverse_spacing (ns_segments s ! seg))))"

definition spline_evaluate :: "natural_spline \<Rightarrow> double \<Rightarrow> double" where
  "spline_evaluate s x =
     (if x \<le> ns_first_knot s then hd (ns_values s)
      else if ns_last_knot s \<le> x then last (ns_values s)
      else let l = spline_locate s x in segment_value (ns_segments s ! loc_segment l) (loc_parameter l))"

definition segment_first_derivative :: "segment_coefficients \<Rightarrow> double \<Rightarrow> double" where
  "segment_first_derivative c t =
     seg_inverse_spacing c * (seg_linear c + 2 * seg_quadratic c * t + 3 * seg_cubic c * t * t)"

definition segment_second_derivative :: "segment_coefficients \<Rightarrow> double \<Rightarrow> double" where
  "segment_second_derivative c t = seg_inverse_spacing_squared c * (2 * seg_quadratic c + 6 * seg_cubic c * t)"

definition spline_first_derivative :: "natural_spline \<Rightarrow> double \<Rightarrow> double" where
  "spline_first_derivative s x =
     (if x < ns_first_knot s \<or> ns_last_knot s < x then 0
      else let l = spline_locate s x in segment_first_derivative (ns_segments s ! loc_segment l) (loc_parameter l))"

definition spline_value_and_first_derivative :: "natural_spline \<Rightarrow> double \<Rightarrow> double \<times> double" where
  "spline_value_and_first_derivative s x =
     (if x < ns_first_knot s then (hd (ns_values s), 0)
      else if ns_last_knot s < x then (last (ns_values s), 0)
      else let l = spline_locate s x; c = ns_segments s ! loc_segment l; t = loc_parameter l;
               v = (if x \<le> ns_first_knot s then hd (ns_values s)
                    else if ns_last_knot s \<le> x then last (ns_values s) else segment_value c t)
           in (v, segment_first_derivative c t))"

definition spline_second_derivative :: "natural_spline \<Rightarrow> double \<Rightarrow> double" where
  "spline_second_derivative s x =
     (if x \<le> ns_first_knot s \<or> ns_last_knot s \<le> x then 0
      else let l = spline_locate s x in segment_second_derivative (ns_segments s ! loc_segment l) (loc_parameter l))"

subsection \<open>The combined evaluation\<close>

lemma value_and_derivative_agree:
  assumes "ns_first_knot s \<le> ns_last_knot s"
  shows "spline_value_and_first_derivative s x = (spline_evaluate s x, spline_first_derivative s x)"
proof -
  have "x < ns_first_knot s \<Longrightarrow> x \<le> ns_first_knot s" "ns_last_knot s < x \<Longrightarrow> ns_last_knot s \<le> x"
    "ns_last_knot s < x \<Longrightarrow> \<not> x \<le> ns_first_knot s"
    using assms by (cases x; cases "ns_first_knot s"; cases "ns_last_knot s";
        simp add: less_double_def less_eq_double_def)+
  then show ?thesis
    by (auto simp: spline_value_and_first_derivative_def spline_evaluate_def spline_first_derivative_def Let_def)
qed

subsection \<open>Correctness of the elimination\<close>

text \<open>The pivots and the two sweeps over the reals.\<close>

primrec pivot_at :: "real list \<Rightarrow> real list \<Rightarrow> real list \<Rightarrow> nat \<Rightarrow> real" where
  "pivot_at a b c 0 = b ! 0"
| "pivot_at a b c (Suc n) = b ! Suc n - a ! Suc n * (c ! n / pivot_at a b c n)"

primrec right_at :: "real list \<Rightarrow> real list \<Rightarrow> real list \<Rightarrow> real list \<Rightarrow> nat \<Rightarrow> real" where
  "right_at a b c d 0 = d ! 0 / pivot_at a b c 0"
| "right_at a b c d (Suc n) = (d ! Suc n - a ! Suc n * right_at a b c d n) / pivot_at a b c (Suc n)"

definition super_at :: "real list \<Rightarrow> real list \<Rightarrow> real list \<Rightarrow> nat \<Rightarrow> real" where
  "super_at a b c n = (if Suc n < length b then c ! n / pivot_at a b c n else 0)"

definition pivots_ok :: "real list \<Rightarrow> real list \<Rightarrow> real list \<Rightarrow> nat \<Rightarrow> bool" where
  "pivots_ok a b c n \<longleftrightarrow> (\<forall>i \<le> n. 1 / 10 ^ 15 \<le> \<bar>pivot_at a b c i\<bar>)"

lemma pivots_ok_Suc: "pivots_ok a b c (Suc n) \<longleftrightarrow> pivots_ok a b c n \<and> 1 / 10 ^ 15 \<le> \<bar>pivot_at a b c (Suc n)\<bar>"
  by (auto simp: pivots_ok_def le_Suc_eq)

lemma pivot_nonzero: "pivots_ok a b c n \<Longrightarrow> i \<le> n \<Longrightarrow> pivot_at a b c i \<noteq> 0"
  by (force simp: pivots_ok_def)

lemma forward_sweep_Fin:
  assumes "length a = length b" "length c = length b" "length d = length b" "n < length b" "2 \<le> length b"
  shows "forward_sweep (map Fin a) (map Fin b) (map Fin c) (map Fin d) n =
      (if pivots_ok a b c n
       then Inr (map (\<lambda>i. Fin (super_at a b c i)) [0..<Suc n], map (\<lambda>i. Fin (right_at a b c d i)) [0..<Suc n])
       else Inl RuntimeError)"
  using assms(4)
proof (induction n)
  case 0
  then show ?case
    using assms by (auto simp: pivots_ok_def singular_pivot_def super_at_def)
next
  case (Suc n)
  show ?case
  proof (cases "pivots_ok a b c n")
    case False
    then show ?thesis using Suc by (simp add: pivots_ok_Suc)
  next
    case True
    have s: "map (\<lambda>i. Fin (super_at a b c i)) [0..<Suc n] ! n = Fin (c ! n / pivot_at a b c n)"
      "map (\<lambda>i. Fin (right_at a b c d i)) [0..<Suc n] ! n = Fin (right_at a b c d n)"
      using Suc.prems by (simp_all add: super_at_def nth_append)
    have p: "map Fin b ! Suc n - map Fin a ! Suc n * Fin (c ! n / pivot_at a b c n) = Fin (pivot_at a b c (Suc n))"
      using Suc.prems assms by simp
    show ?thesis
    proof (cases "1 / 10 ^ 15 \<le> \<bar>pivot_at a b c (Suc n)\<bar>")
      case ok: True
      then have nz: "pivot_at a b c (Suc n) \<noteq> 0" by force
      have ok': "pivots_ok a b c (Suc n)" using True ok by (simp add: pivots_ok_Suc)
      have f: "forward_sweep (map Fin a) (map Fin b) (map Fin c) (map Fin d) n =
        Inr (map (\<lambda>i. Fin (super_at a b c i)) [0..<Suc n], map (\<lambda>i. Fin (right_at a b c d i)) [0..<Suc n])"
        using Suc True by simp
      show ?thesis
        unfolding forward_sweep.simps(2) f bindS_Inr Let_def prod.case s p
        using ok nz Suc.prems assms ok'
        by (simp add: singular_pivot_def super_at_def del: pivot_at.simps)
    next
      case bad: False
      have f: "forward_sweep (map Fin a) (map Fin b) (map Fin c) (map Fin d) n =
        Inr (map (\<lambda>i. Fin (super_at a b c i)) [0..<Suc n], map (\<lambda>i. Fin (right_at a b c d i)) [0..<Suc n])"
        using Suc True by simp
      show ?thesis
        unfolding forward_sweep.simps(2) f bindS_Inr Let_def prod.case s p
        using bad by (simp add: singular_pivot_def pivots_ok_Suc del: pivot_at.simps)
    qed
  qed
qed

text \<open>The solution by downward recursion, and the row equations it satisfies.\<close>

primrec solution_from_end :: "real list \<Rightarrow> real list \<Rightarrow> real list \<Rightarrow> real list \<Rightarrow> nat \<Rightarrow> real" where
  "solution_from_end a b c d 0 = right_at a b c d (length b - 1)"
| "solution_from_end a b c d (Suc n) =
     (let row = length b - 2 - n in right_at a b c d row - super_at a b c row * solution_from_end a b c d n)"

definition solution_at :: "real list \<Rightarrow> real list \<Rightarrow> real list \<Rightarrow> real list \<Rightarrow> nat \<Rightarrow> real" where
  "solution_at a b c d row = solution_from_end a b c d (length b - 1 - row)"

lemma back_substitution_Fin:
  assumes "2 \<le> length b" "n < length b"
  shows "back_substitution (map (\<lambda>i. Fin (super_at a b c i)) [0..<length b])
           (map (\<lambda>i. Fin (right_at a b c d i)) [0..<length b]) n
       = map (\<lambda>i. Fin (solution_from_end a b c d (n - i))) [0..<Suc n]"
  using assms(2)
proof (induction n)
  case 0
  then show ?case using assms(1) by (simp add: last_map last_conv_nth)
next
  case (Suc n)
  have "map (\<lambda>i. Fin (solution_from_end a b c d (Suc n - i))) [0..<Suc (Suc n)]
      = Fin (solution_from_end a b c d (Suc n)) # map (\<lambda>i. Fin (solution_from_end a b c d (n - i))) [0..<Suc n]"
    by (simp only: map_upt_Suc diff_Suc_Suc diff_zero minus_nat.diff_0 list.map nat.inject)
  moreover have "hd (map (\<lambda>i. Fin (solution_from_end a b c d (n - i))) [0..<Suc n]) = Fin (solution_from_end a b c d n)"
    by (simp add: hd_map del: upt_Suc)
  moreover have "length b - 2 - n < length b" using assms(1) by linarith
  ultimately show ?case
    using Suc by (simp add: Let_def del: upt_Suc)
qed

lemma solve_tridiagonal_Fin:
  assumes len: "length a = length b" "length c = length b" "length d = length b" "b \<noteq> []"
  shows "solve_tridiagonal (map Fin a) (map Fin b) (map Fin c) (map Fin d) =
     (if pivots_ok a b c (length b - 1) then Inr (map (\<lambda>i. Fin (solution_at a b c d i)) [0..<length b])
      else Inl RuntimeError)"
proof (cases "length b = 1")
  case True
  then show ?thesis
    using assms by (auto simp: solve_tridiagonal_def pivots_ok_def singular_pivot_def solution_at_def)
next
  case False
  then have two: "2 \<le> length b" using assms(4) by (cases b; cases "tl b") auto
  then have s: "Suc (length b - 1) = length b" "length b - 1 < length b" by linarith+
  have eq: "back_substitution (map (\<lambda>i. Fin (super_at a b c i)) [0..<length b])
       (map (\<lambda>i. Fin (right_at a b c d i)) [0..<length b]) (length b - 1)
     = map (\<lambda>i. Fin (solution_at a b c d i)) [0..<length b]"
    unfolding back_substitution_Fin [OF two s(2)] s(1) by (simp add: solution_at_def)
  show ?thesis
    using False forward_sweep_Fin [OF len(1-3) s(2) two, unfolded s(1)] eq
    by (simp add: solve_tridiagonal_def Let_def del: upt_Suc)
qed

lemma solution_below:
  assumes "Suc row < length b"
  shows "solution_at a b c d row = right_at a b c d row - super_at a b c row * solution_at a b c d (Suc row)"
proof -
  have "length b - 1 - row = Suc (length b - 1 - Suc row)" "length b - 2 - (length b - 1 - Suc row) = row"
    using assms by linarith+
  then show ?thesis by (simp add: solution_at_def Let_def)
qed

lemma solution_rows:
  assumes ok: "pivots_ok a b c (length b - 1)" and row: "row < length b"
  shows "(if row = 0 then 0 else a ! row * solution_at a b c d (row - 1)) + b ! row * solution_at a b c d row
       + (if Suc row < length b then c ! row * solution_at a b c d (Suc row) else 0) = d ! row"
proof -
  have nz: "pivot_at a b c i \<noteq> 0" if "i < length b" for i
    using pivot_nonzero [OF ok] that by (cases "i \<le> length b - 1") auto
  let ?p = "pivot_at a b c row" and ?x = "solution_at a b c d"
  have right: "?p * right_at a b c d row = d ! row - (if row = 0 then 0 else a ! row * right_at a b c d (row - 1))"
    using nz [OF row] by (cases row) (simp_all del: pivot_at.simps(2))
  have here: "?p * ?x row = ?p * right_at a b c d row
      - (if Suc row < length b then c ! row * ?x (Suc row) else 0)"
  proof (cases "Suc row < length b")
    case True
    then show ?thesis using nz [OF row] by (simp add: solution_below super_at_def field_simps)
  next
    case False
    then have "row = length b - 1" using row by linarith
    then have "?x row = right_at a b c d row" by (simp add: solution_at_def)
    then show ?thesis using False by simp
  qed
  show ?thesis
  proof (cases row)
    case 0
    then show ?thesis using here right by simp
  next
    case (Suc r)
    have above: "?x r = right_at a b c d r - super_at a b c r * ?x row"
      using solution_below [of r b a c d] row Suc by simp
    have sup: "super_at a b c r = c ! r / pivot_at a b c r" using row Suc by (simp add: super_at_def)
    have "b ! row = ?p + a ! row * super_at a b c r" using Suc sup by simp
    then have "b ! row * ?x row = ?p * ?x row + a ! row * super_at a b c r * ?x row"
      by (simp only: distrib_right)
    moreover have "a ! row * ?x r = a ! row * right_at a b c d r - a ! row * super_at a b c r * ?x row"
      unfolding above by (simp only: right_diff_distrib mult.assoc)
    moreover have r: "row \<noteq> 0" "row - 1 = r" using Suc by simp_all
    then have "?p * right_at a b c d row = d ! row - a ! row * right_at a b c d r" using right by simp
    ultimately show ?thesis unfolding r(2) using here r(1) by (simp only: if_False)
  qed
qed

subsection \<open>The pivots of the two systems\<close>

text \<open>A bound on every pivot by dominance: what a row subtracts is at most half of its sub-diagonal.\<close>

lemma dominant_pivots:
  assumes b0: "g 0 \<le> b ! 0" and c: "\<And>i. Suc i < length b \<Longrightarrow> 0 \<le> c ! i \<and> 2 * c ! i \<le> g i"
    and g: "\<And>i. i < length b \<Longrightarrow> 0 < (g i :: real)"
    and step: "\<And>i. Suc i < length b \<Longrightarrow> 0 \<le> a ! Suc i \<and> g (Suc i) + a ! Suc i / 2 \<le> b ! Suc i"
    and i: "i < length b"
  shows "g i \<le> pivot_at a b c i"
  using i
proof (induction i)
  case (Suc i)
  then have p: "g i \<le> pivot_at a b c i" "0 < g i" using g by simp_all
  have "c ! i / pivot_at a b c i \<le> 1 / 2"
    using c [OF Suc.prems] p by (simp add: divide_le_eq)
  then have "a ! Suc i * (c ! i / pivot_at a b c i) \<le> a ! Suc i * (1 / 2)"
    using step [OF Suc.prems] by (intro mult_left_mono) auto
  then show ?case using step [OF Suc.prems] by simp
qed (use b0 in simp)

lemma pivots_okI:
  assumes "\<And>i. i < length b \<Longrightarrow> 1 / 10 ^ 15 \<le> pivot_at a b c i" "b \<noteq> []"
  shows "pivots_ok a b c (length b - 1)"
proof -
  have "1 / 10 ^ 15 \<le> \<bar>pivot_at a b c i\<bar>" if "i \<le> length b - 1" for i
  proof -
    have "i < length b" using that assms(2) by (cases b) auto
    from assms(1) [OF this] show ?thesis by linarith
  qed
  then show ?thesis by (simp add: pivots_ok_def)
qed

subsection \<open>Both paths yield natural slopes\<close>

text \<open>The second derivative of the cubic over a segment, from its width, values and slopes.\<close>

definition segment_bend :: "real list \<Rightarrow> real list \<Rightarrow> real list \<Rightarrow> nat \<Rightarrow> real \<Rightarrow> real" where
  "segment_bend hs vs ds n t =
     (let h = hs ! n
      in (2 * (- 3 * vs ! n + 3 * vs ! Suc n - 2 * h * ds ! n - h * ds ! Suc n)
          + 6 * (2 * vs ! n - 2 * vs ! Suc n + h * ds ! n + h * ds ! Suc n) * t) / h\<^sup>2)"

definition natural_slopes :: "real list \<Rightarrow> real list \<Rightarrow> real list \<Rightarrow> bool" where
  "natural_slopes hs vs ds \<longleftrightarrow> length ds = length vs
     \<and> (\<forall>n. Suc (Suc n) < length vs \<longrightarrow> segment_bend hs vs ds n 1 = segment_bend hs vs ds (Suc n) 0)
     \<and> segment_bend hs vs ds 0 0 = 0 \<and> segment_bend hs vs ds (length vs - 2) 1 = 0"

lemma segment_bend_ends:
  assumes "0 < hs ! n"
  shows "segment_bend hs vs ds n 0 = 6 * (vs ! Suc n - vs ! n) / (hs ! n)\<^sup>2 - (4 * ds ! n + 2 * ds ! Suc n) / hs ! n"
    "segment_bend hs vs ds n 1 = (2 * ds ! n + 4 * ds ! Suc n) / hs ! n - 6 * (vs ! Suc n - vs ! n) / (hs ! n)\<^sup>2"
  using assms by (simp_all add: segment_bend_def Let_def field_simps power2_eq_square)

lemma uniform_path:
  assumes N: "2 < length vs" and h: "0 < h"
  defines "N \<equiv> length vs"
  shows "\<exists>ds. solve_nodal_slopes_uniform (map Fin vs) (Fin h) = Inr (map Fin ds) \<and> length ds = N
     \<and> (\<forall>n<N. (if n = 0 then 0 else ds ! (n - 1)) + (if n = 0 \<or> n = N - 1 then 2 else 4) * ds ! n
                + (if Suc n < N then ds ! Suc n else 0)
              = 3 * (vs ! min (Suc n) (N - 1) - vs ! (n - 1)) / h)"
proof -
  define a :: "real list" where "a = map (\<lambda>n. if n = 0 then 0 else 1) [0..<N]"
  define b :: "real list" where "b = map (\<lambda>n. if n = 0 \<or> n = N - 1 then 2 else 4) [0..<N]"
  define c :: "real list" where "c = map (\<lambda>n. if n = N - 1 then 0 else 1) [0..<N]"
  define d :: "real list" where "d = map (\<lambda>n. 3 * (vs ! min (Suc n) (N - 1) - vs ! (n - 1)) / h) [0..<N]"
  have N2: "2 < N" using N by (simp add: N_def)
  have len: "length a = N" "length b = N" "length c = N" "length d = N" by (simp_all add: a_def b_def c_def d_def)
  have at: "a ! n = (if n = 0 then 0 else 1)" "b ! n = (if n = 0 \<or> n = N - 1 then 2 else 4)"
    "c ! n = (if n = N - 1 then 0 else 1)" "d ! n = 3 * (vs ! min (Suc n) (N - 1) - vs ! (n - 1)) / h"
    if "n < N" for n using that by (simp_all add: a_def b_def c_def d_def)
  define g :: "nat \<Rightarrow> real" where "g = (\<lambda>i. if i = N - 1 then 1 else 2)"
  have piv: "g i \<le> pivot_at a b c i" if "i < length b" for i
    using that N2 by (intro dominant_pivots [where g = g]) (auto simp: at len g_def)
  have ok: "pivots_ok a b c (length b - 1)"
  proof (rule pivots_okI)
    fix i
    assume "i < length b"
    from piv [OF this] have "1 \<le> pivot_at a b c i" by (simp add: g_def split: if_splits)
    then show "1 / 10 ^ 15 \<le> pivot_at a b c i" by simp
  qed (use len N2 in auto)
  have rhs: "uniform_rhs (map Fin vs) (1 / Fin h) n = Fin (d ! n)" if n: "n < N" for n
  proof -
    have l: "length vs = N" by (simp add: N_def)
    consider "n = 0" | "n = N - 1" "n \<noteq> 0" | "0 < n" "Suc n < N" using n by linarith
    then show ?thesis
    proof cases
      case 1
      have "min (Suc 0) (N - 1) = 1" using N2 by simp
      then show ?thesis using 1 h N2 l by (simp add: uniform_rhs_def at)
    next
      case 2
      have "N - 1 - 1 = N - 2" "min N (N - 1) = N - 1" "Suc (N - 1) = N" "N - 2 < N" "N - 1 < N" "0 < N" using N2 by linarith+
      then show ?thesis using 2 h N2 l by (simp add: uniform_rhs_def at)
    next
      case 3
      have "min (Suc n) (N - 1) = Suc n" "n \<noteq> N - 1" "n - 1 < N" using 3 by linarith+
      then show ?thesis using 3 h N2 l by (simp add: uniform_rhs_def at)
    qed
  qed
  have maps: "map (\<lambda>n. if n = 0 then 0 else 1) [0..<N] = map Fin a"
    "map (\<lambda>n. if n = 0 \<or> n = N - 1 then 2 else 4) [0..<N] = map Fin b"
    "map (\<lambda>n. if n = N - 1 then 0 else 1) [0..<N] = map Fin c"
    "map (uniform_rhs (map Fin vs) (1 / Fin h)) [0..<N] = map Fin d"
    using rhs by (auto simp: a_def b_def c_def list_eq_iff_nth_eq len)
  have "solve_nodal_slopes_uniform (map Fin vs) (Fin h)
      = solve_tridiagonal (map Fin a) (map Fin b) (map Fin c) (map Fin d)"
    unfolding solve_nodal_slopes_uniform_def Let_def length_map N_def [symmetric] maps using N2 by simp
  also have "\<dots> = Inr (map Fin (map (solution_at a b c d) [0..<N]))"
    using ok by (subst solve_tridiagonal_Fin) (use len N2 in \<open>auto simp: o_def\<close>)
  finally have run: "solve_nodal_slopes_uniform (map Fin vs) (Fin h) = Inr (map Fin (map (solution_at a b c d) [0..<N]))" .
  have "(if n = 0 then 0 else solution_at a b c d (n - 1)) + (if n = 0 \<or> n = N - 1 then 2 else 4) * solution_at a b c d n
      + (if Suc n < N then solution_at a b c d (Suc n) else 0) = 3 * (vs ! min (Suc n) (N - 1) - vs ! (n - 1)) / h"
    if n: "n < N" for n
  proof -
    have "Suc n < N \<Longrightarrow> n \<noteq> N - 1" by linarith
    then show ?thesis using solution_rows [OF ok, of n d] n by (simp add: len at if_distrib cong: if_cong split: if_splits)
  qed
  note row = this
  define ds where "ds = map (solution_at a b c d) [0..<N]"
  have nth: "ds ! n = solution_at a b c d n" if "n < N" for n using that by (simp add: ds_def)
  have "(if n = 0 then 0 else ds ! (n - 1)) + (if n = 0 \<or> n = N - 1 then 2 else 4) * ds ! n
      + (if Suc n < N then ds ! Suc n else 0) = 3 * (vs ! min (Suc n) (N - 1) - vs ! (n - 1)) / h" if n: "n < N" for n
  proof -
    have "(if n = 0 then 0 else ds ! (n - 1)) = (if n = 0 then 0 else solution_at a b c d (n - 1))"
      "(if Suc n < N then ds ! Suc n else 0) = (if Suc n < N then solution_at a b c d (Suc n) else 0)"
      using n by (simp_all add: nth)
    then show ?thesis using row [OF n] nth [OF n] by (simp only:)
  qed
  moreover have "length ds = N" by (simp add: ds_def)
  ultimately show ?thesis using run unfolding ds_def [symmetric] by blast
qed

lemma equal_bends:
  fixes h :: real
  assumes h: "0 < h" and e: "p + 4 * q + r = 3 * (w - u) / h"
  shows "(2 * p + 4 * q) / h - 6 * (v - u) / h\<^sup>2 = 6 * (w - v) / h\<^sup>2 - (4 * q + 2 * r) / h"
proof -
  have "6 * (w - v) / h\<^sup>2 + 6 * (v - u) / h\<^sup>2 = 2 / h * (3 * (w - u) / h)"
    using h by (simp add: power2_eq_square field_simps)
  also have "\<dots> = (2 * p + 4 * q) / h + (4 * q + 2 * r) / h"
    unfolding e [symmetric] by (simp add: add_divide_distrib [symmetric] algebra_simps)
  finally show ?thesis by linarith
qed

lemma end_bend:
  fixes h :: real
  assumes "0 < h" "p = 3 * (w - u) / h"
  shows "6 * (w - u) / h\<^sup>2 = 2 * p / h"
  using assms by (simp add: power2_eq_square)

lemma uniform_path_natural:
  assumes N: "2 \<le> length vs" and h: "0 < h"
  shows "\<exists>ds. solve_nodal_slopes_uniform (map Fin vs) (Fin h) = Inr (map Fin ds)
     \<and> natural_slopes (replicate (length vs - 1) h) vs ds"
proof (cases "length vs = 2")
  case True
  let ?m = "(vs ! 1 - vs ! 0) / h"
  have "solve_nodal_slopes_uniform (map Fin vs) (Fin h) = Inr (map Fin [?m, ?m])"
    using True h by (simp add: solve_nodal_slopes_uniform_def Let_def)
  moreover have "natural_slopes (replicate (length vs - 1) h) vs [?m, ?m]"
    using True h by (auto simp: natural_slopes_def segment_bend_def Let_def field_simps)
  ultimately show ?thesis by blast
next
  case False
  define N where "N = length vs"
  have N2: "2 < N" using N False by (simp add: N_def)
  from uniform_path [OF _ h, of vs] obtain ds
    where run: "solve_nodal_slopes_uniform (map Fin vs) (Fin h) = Inr (map Fin ds)" and len: "length ds = N"
    and eqs: "\<And>n. n < N \<Longrightarrow> (if n = 0 then 0 else ds ! (n - 1)) + (if n = 0 \<or> n = N - 1 then 2 else 4) * ds ! n
                + (if Suc n < N then ds ! Suc n else 0) = 3 * (vs ! min (Suc n) (N - 1) - vs ! (n - 1)) / h"
    using N2 unfolding N_def by blast
  have hs: "replicate (N - 1) h ! n = h" if "Suc n < N" for n using that by simp
  have e0: "2 * ds ! 0 + ds ! 1 = 3 * (vs ! 1 - vs ! 0) / h" using eqs [of 0] N2 by simp
  have eL: "ds ! (N - 2) + 2 * ds ! Suc (N - 2) = 3 * (vs ! Suc (N - 2) - vs ! (N - 2)) / h"
  proof -
    have i: "Suc (N - 2) = N - 1" "N - 1 - 1 = N - 2" "\<not> Suc (N - 1) < N" "min (Suc (N - 1)) (N - 1) = N - 1"
      "N - 1 \<noteq> 0" "N - 1 < N" using N2 by linarith+
    show ?thesis using eqs [OF i(6)] unfolding i(1) using i by simp
  qed
  have e: "ds ! n + 4 * ds ! Suc n + ds ! Suc (Suc n) = 3 * (vs ! Suc (Suc n) - vs ! n) / h" if n: "Suc (Suc n) < N" for n
  proof -
    have i: "Suc n < N" "Suc n \<noteq> N - 1" "min (Suc (Suc n)) (N - 1) = Suc (Suc n)" using n by linarith+
    show ?thesis using eqs [OF i(1)] i(2,3) n by simp
  qed
  have "natural_slopes (replicate (N - 1) h) vs ds"
    unfolding natural_slopes_def
  proof (intro conjI allI impI)
    show "length ds = length vs" using len by (simp add: N_def)
    fix n
    assume "Suc (Suc n) < length vs"
    then have n: "Suc (Suc n) < N" by (simp add: N_def)
    then have "n < N - 1" "Suc n < N - 1" by linarith+
    then have hn: "replicate (N - 1) h ! n = h" "replicate (N - 1) h ! Suc n = h" by simp_all
    note ends = segment_bend_ends(1) [of "replicate (N - 1) h" "Suc n"] segment_bend_ends(2) [of "replicate (N - 1) h" n]
    show "segment_bend (replicate (N - 1) h) vs ds n 1 = segment_bend (replicate (N - 1) h) vs ds (Suc n) 0"
      unfolding ends(1) [unfolded hn, OF h] ends(2) [unfolded hn, OF h] by (rule equal_bends [OF h e [OF n]])
  next
    show "segment_bend (replicate (N - 1) h) vs ds 0 0 = 0"
    proof -
      have b: "replicate (N - 1) h ! 0 = h" using N2 by simp
      show ?thesis
        unfolding segment_bend_ends(1) [of "replicate (N - 1) h" 0, unfolded b, OF h]
        using end_bend [OF h e0] by simp
    qed
    have "N - 2 < N - 1" using N2 by linarith
    then have hn: "replicate (N - 1) h ! (N - 2) = h" by simp
    show "segment_bend (replicate (N - 1) h) vs ds (length vs - 2) 1 = 0"
      unfolding N_def [symmetric] segment_bend_ends(2) [of "replicate (N - 1) h" "N - 2", unfolded hn, OF h]
      using end_bend [OF h eL] by simp
  qed
  then show ?thesis using run by (auto simp: N_def)
qed

text \<open>The general path: moments first, slopes from moments.  The threshold of the pivots is absolute, so the
  spacings must not fall below it.\<close>

definition moments_of :: "real list \<Rightarrow> real list \<Rightarrow> real list \<Rightarrow> bool" where
  "moments_of hs vs ms \<longleftrightarrow> length ms = length vs \<and> ms ! 0 = 0 \<and> ms ! (length vs - 1) = 0
     \<and> (\<forall>n. Suc (Suc n) < length vs \<longrightarrow>
          hs ! n * ms ! n + 2 * (hs ! n + hs ! Suc n) * ms ! Suc n + hs ! Suc n * ms ! Suc (Suc n)
          = 6 * ((vs ! Suc (Suc n) - vs ! Suc n) / hs ! Suc n - (vs ! Suc n - vs ! n) / hs ! n))"

lemma moments_exist:
  assumes N: "2 \<le> length vs" and l: "length hs = length vs - 1"
    and h: "\<And>i. i < length hs \<Longrightarrow> 0 < hs ! i"
  shows "(\<exists>ms. moments_of hs vs ms \<and> solve_moments (map Fin vs) (map Fin hs) = Inr (map Fin ms))
     \<or> solve_moments (map Fin vs) (map Fin hs) = Inl RuntimeError \<and> \<not> (\<forall>i < length hs. 1 / 10 ^ 15 \<le> hs ! i)"
proof (cases "length vs = 2")
  case True
  then show ?thesis
    by (intro disjI1 exI [of _ "[0, 0]"]) (auto simp: solve_moments_def moments_of_def numeral_2_eq_2)
next
  case False
  define N where "N = length vs"
  define K where "K = N - 2"
  have K: "0 < K" "N = Suc (Suc K)" "length hs = Suc K" using False N l by (auto simp: K_def N_def)
  have hp: "0 < hs ! i" "hs ! i \<noteq> 0" if "i < Suc K" for i
    using h [of i] that K(3) by simp_all
  define a where "a = map (\<lambda>r. if 0 < r then hs ! r else 0) [0..<K]"
  define b where "b = map (\<lambda>r. 2 * (hs ! r + hs ! (r + 1))) [0..<K]"
  define c where "c = map (\<lambda>r. if r + 1 < K then hs ! (r + 1) else 0) [0..<K]"
  define d where "d = map (\<lambda>r. 6 * ((vs ! Suc (Suc r) - vs ! Suc r) / hs ! Suc r - (vs ! Suc r - vs ! r) / hs ! r)) [0..<K]"
  have len: "length a = K" "length b = K" "length c = K" "length d = K" by (simp_all add: a_def b_def c_def d_def)
  have at: "a ! r = (if 0 < r then hs ! r else 0)" "b ! r = 2 * (hs ! r + hs ! (r + 1))"
    "c ! r = (if r + 1 < K then hs ! (r + 1) else 0)"
    "d ! r = 6 * ((vs ! Suc (Suc r) - vs ! Suc r) / hs ! Suc r - (vs ! Suc r - vs ! r) / hs ! r)"
    if "r < K" for r using that by (simp_all add: a_def b_def c_def d_def)
  have piv: "hs ! i + 2 * hs ! Suc i \<le> pivot_at a b c i" if i: "i < length b" for i
  proof (rule dominant_pivots [where g = "\<lambda>i. hs ! i + 2 * hs ! Suc i", OF _ _ _ _ i])
    show "hs ! 0 + 2 * hs ! Suc 0 \<le> b ! 0" using K(1) hp(1) [of 0] by (simp add: at)
  next
    fix j
    assume j: "Suc j < length b"
    have p: "0 < hs ! j" "0 < hs ! Suc j" "0 < hs ! Suc (Suc j)" using hp(1) j by (simp_all add: len)
    show "0 \<le> c ! j \<and> 2 * c ! j \<le> hs ! j + 2 * hs ! Suc j" using j p by (simp add: at len)
    show "0 \<le> a ! Suc j \<and> hs ! Suc j + 2 * hs ! Suc (Suc j) + a ! Suc j / 2 \<le> b ! Suc j" using j p by (simp add: at len)
  next
    fix j
    assume j: "j < length b"
    show "0 < hs ! j + 2 * hs ! Suc j" using hp(1) [of j] hp(1) [of "Suc j"] j by (simp add: len)
  qed
  have big: "pivots_ok a b c (length b - 1)" if wide: "\<forall>i < length hs. 1 / 10 ^ 15 \<le> hs ! i"
  proof (rule pivots_okI)
    fix i
    assume i: "i < length b"
    have "1 / 10 ^ 15 \<le> hs ! i" "0 < hs ! Suc i" using wide hp(1) [of "Suc i"] i by (simp_all add: len K(3))
    then show "1 / 10 ^ 15 \<le> pivot_at a b c i" using piv [OF i] by linarith
  qed (use len K in auto)
  have l': "length vs = N" by (simp add: N_def)
  have rhs: "moment_rhs (map Fin vs) (map Fin hs) r = Fin (d ! r)" if r: "r < K" for r
    using r hp(2) [of r] hp(2) [of "Suc r"] by (simp add: moment_rhs_def Let_def at l' K)
  have maps: "map (\<lambda>r. if 0 < r then map Fin hs ! r else 0) [0..<K] = map Fin a"
    "map (\<lambda>r. 2 * (map Fin hs ! r + map Fin hs ! (r + 1))) [0..<K] = map Fin b"
    "map (\<lambda>r. if r + 1 < K then map Fin hs ! (r + 1) else 0) [0..<K] = map Fin c"
    "map (moment_rhs (map Fin vs) (map Fin hs)) [0..<K] = map Fin d"
    using rhs by (auto simp: a_def b_def c_def list_eq_iff_nth_eq len K(3))
  have "b \<noteq> []" using len(2) K(1) by auto
  then have "solve_tridiagonal (map Fin a) (map Fin b) (map Fin c) (map Fin d)
      = (if pivots_ok a b c (length b - 1) then Inr (map Fin (map (solution_at a b c d) [0..<K])) else Inl RuntimeError)"
    by (subst solve_tridiagonal_Fin) (auto simp: len o_def)
  then have run: "solve_moments (map Fin vs) (map Fin hs)
      = (if pivots_ok a b c (length b - 1) then Inr (map Fin (0 # map (solution_at a b c d) [0..<K] @ [0]))
         else Inl RuntimeError)"
    unfolding solve_moments_def Let_def length_map l' K_def [symmetric] maps using K by simp
  let ?ms = "0 # map (solution_at a b c d) [0..<K] @ [0]"
  have m: "?ms ! 0 = 0" "\<And>i. ?ms ! Suc i = (if i < K then solution_at a b c d i else [0] ! (i - K))"
    by (auto simp: nth_append)
  have rows: "hs ! n * ?ms ! n + 2 * (hs ! n + hs ! Suc n) * ?ms ! Suc n + hs ! Suc n * ?ms ! Suc (Suc n)
      = 6 * ((vs ! Suc (Suc n) - vs ! Suc n) / hs ! Suc n - (vs ! Suc n - vs ! n) / hs ! n)" 
    if n': "Suc (Suc n) < N" and ok: "pivots_ok a b c (length b - 1)" for n
  proof -
    have n: "n < K" using n' K(2) by simp
    have "hs ! n * ?ms ! n = (if n = 0 then 0 else a ! n * solution_at a b c d (n - 1))"
      using n by (cases n) (simp_all add: at nth_append)
    moreover have "hs ! Suc n * ?ms ! Suc (Suc n) = (if Suc n < K then c ! n * solution_at a b c d (Suc n) else 0)"
    proof (cases "Suc n < K")
      case False
      then have "Suc n = K" using n by simp
      then show ?thesis by (simp add: nth_append)
    qed (simp add: at nth_append)
    ultimately show ?thesis
      using solution_rows [OF ok, of n d] n by (simp add: m(2) at len del: nth_Cons_Suc)
  qed
  have "?ms ! (N - 1) = 0" using K(2) by (simp add: nth_append)
  then have "moments_of hs vs ?ms" if "pivots_ok a b c (length b - 1)"
    using rows that K(2) l' by (simp add: moments_of_def)
  then show ?thesis
  proof (cases "pivots_ok a b c (length b - 1)")
    case True
    then show ?thesis using run \<open>pivots_ok a b c (length b - 1) \<Longrightarrow> moments_of hs vs ?ms\<close> by (auto simp only: if_True)
  next
    case False
    then show ?thesis using run big by (auto simp only: if_False)
  qed
qed

lemma bends_of_moments:
  fixes h :: real
  assumes h: "0 < h" and p: "p = (w - u) / h - h / 6 * (2 * m + m')" and q: "q = (w - u) / h + h / 6 * (m + 2 * m')"
  shows "6 * (w - u) / h\<^sup>2 - (4 * p + 2 * q) / h = m" "(2 * p + 4 * q) / h - 6 * (w - u) / h\<^sup>2 = m'"
proof -
  define D where "D = (w - u) / h"
  note pq = p [folded D_def] q [folded D_def]
  have "(4 * p + 2 * q) / h = 6 * D / h - m"
  proof -
    have "4 * p + 2 * q = 6 * D - h * m" unfolding pq by (simp add: algebra_simps)
    then show ?thesis using h by (simp add: diff_divide_distrib)
  qed
  moreover have "(2 * p + 4 * q) / h = 6 * D / h + m'"
  proof -
    have "2 * p + 4 * q = 6 * D + h * m'" unfolding pq by (simp add: algebra_simps)
    then show ?thesis using h by (simp add: add_divide_distrib)
  qed
  moreover have "6 * (w - u) / h\<^sup>2 = 6 * D / h" by (simp add: D_def power2_eq_square)
  ultimately show "6 * (w - u) / h\<^sup>2 - (4 * p + 2 * q) / h = m" "(2 * p + 4 * q) / h - 6 * (w - u) / h\<^sup>2 = m'"
    by simp_all
qed

definition slopes_of_moments :: "real list \<Rightarrow> real list \<Rightarrow> real list \<Rightarrow> nat \<Rightarrow> real" where
  "slopes_of_moments hs vs ms n =
     (let N = length vs
      in if Suc n < N then (vs ! Suc n - vs ! n) / hs ! n - hs ! n / 6 * (2 * ms ! n + ms ! Suc n)
         else (vs ! (N - 1) - vs ! (N - 2)) / hs ! (N - 2) + hs ! (N - 2) / 6 * (ms ! (N - 2) + 2 * ms ! (N - 1)))"

lemma moment_step:
  fixes h k :: real
  assumes "h * l + 2 * (h + k) * m + k * n = 6 * (p - q)"
  shows "p - q = h / 6 * (l + 2 * m) + k / 6 * (2 * m + n)"
  using assms by (simp add: algebra_simps)

lemma slope_from_the_left:
  assumes m: "moments_of hs vs ms" and h: "\<And>i. i < length hs \<Longrightarrow> 0 < hs ! i" and l: "length hs = length vs - 1"
    and n: "Suc n < length vs"
  shows "slopes_of_moments hs vs ms (Suc n) = (vs ! Suc n - vs ! n) / hs ! n + hs ! n / 6 * (ms ! n + 2 * ms ! Suc n)"
proof (cases "Suc (Suc n) < length vs")
  case True
  have "hs ! n * ms ! n + 2 * (hs ! n + hs ! Suc n) * ms ! Suc n + hs ! Suc n * ms ! Suc (Suc n)
      = 6 * ((vs ! Suc (Suc n) - vs ! Suc n) / hs ! Suc n - (vs ! Suc n - vs ! n) / hs ! n)"
    using m True by (simp add: moments_of_def)
  then have "(vs ! Suc (Suc n) - vs ! Suc n) / hs ! Suc n - (vs ! Suc n - vs ! n) / hs ! n
      = hs ! n / 6 * (ms ! n + 2 * ms ! Suc n) + hs ! Suc n / 6 * (2 * ms ! Suc n + ms ! Suc (Suc n))"
    by (rule moment_step)
  moreover have "slopes_of_moments hs vs ms (Suc n) = (vs ! Suc (Suc n) - vs ! Suc n) / hs ! Suc n
      - hs ! Suc n / 6 * (2 * ms ! Suc n + ms ! Suc (Suc n))"
    using True by (simp add: slopes_of_moments_def Let_def)
  ultimately show ?thesis by linarith
next
  case False
  then have i: "length vs - 1 = Suc n" "length vs - 2 = n" using n by linarith+
  show ?thesis using False by (simp only: slopes_of_moments_def Let_def if_False i)
qed

lemma moments_natural:
  assumes m: "moments_of hs vs ms" and h: "\<And>i. i < length hs \<Longrightarrow> 0 < hs ! i" and l: "length hs = length vs - 1"
    and two: "2 \<le> length vs"
  shows "natural_slopes hs vs (map (slopes_of_moments hs vs ms) [0..<length vs])"
proof -
  let ?ds = "map (slopes_of_moments hs vs ms) [0..<length vs]"
  have bends: "segment_bend hs vs ?ds n 0 = ms ! n" "segment_bend hs vs ?ds n 1 = ms ! Suc n" if n: "Suc n < length vs" for n
  proof -
    have hn: "0 < hs ! n" using h n l by simp
    have p: "?ds ! n = (vs ! Suc n - vs ! n) / hs ! n - hs ! n / 6 * (2 * ms ! n + ms ! Suc n)"
      using n by (simp add: slopes_of_moments_def Let_def)
    have q: "?ds ! Suc n = (vs ! Suc n - vs ! n) / hs ! n + hs ! n / 6 * (ms ! n + 2 * ms ! Suc n)"
      using slope_from_the_left [OF m h l n] n by (simp del: upt_Suc)
    from bends_of_moments [OF hn p q] segment_bend_ends [of hs n vs ?ds, OF hn]
    show "segment_bend hs vs ?ds n 0 = ms ! n" "segment_bend hs vs ?ds n 1 = ms ! Suc n" by linarith+
  qed
  have last: "Suc (length vs - 2) = length vs - 1" "Suc (length vs - 2) < length vs" "Suc 0 < length vs" using two by linarith+
  have "segment_bend hs vs ?ds n 1 = segment_bend hs vs ?ds (Suc n) 0" if "Suc (Suc n) < length vs" for n
    using bends(2) [of n] bends(1) [of "Suc n"] that by simp
  moreover have "segment_bend hs vs ?ds 0 0 = 0" using bends(1) [OF last(3)] m by (simp add: moments_of_def)
  moreover have "segment_bend hs vs ?ds (length vs - 2) 1 = 0"
    using bends(2) [OF last(2)] m unfolding last(1) by (simp add: moments_of_def)
  ultimately show ?thesis by (simp add: natural_slopes_def)
qed

lemma general_path_natural:
  assumes N: "2 \<le> length vs" and l: "length hs = length vs - 1"
    and h: "\<And>i. i < length hs \<Longrightarrow> 0 < hs ! i"
  shows "(\<exists>ds. solve_nodal_slopes_general (map Fin vs) (map Fin hs) = Inr (map Fin ds) \<and> natural_slopes hs vs ds)
     \<or> solve_nodal_slopes_general (map Fin vs) (map Fin hs) = Inl RuntimeError
       \<and> \<not> (\<forall>i < length hs. 1 / 10 ^ 15 \<le> hs ! i)"
proof (cases "\<exists>ms. moments_of hs vs ms \<and> solve_moments (map Fin vs) (map Fin hs) = Inr (map Fin ms)")
  case True
  then obtain ms where m: "moments_of hs vs ms" and run: "solve_moments (map Fin vs) (map Fin hs) = Inr (map Fin ms)" by blast
  have lm: "length ms = length vs" using m by (simp add: moments_of_def)
  have "solve_nodal_slopes_general (map Fin vs) (map Fin hs)
      = Inr (map Fin (map (slopes_of_moments hs vs ms) [0..<length vs]))"
  proof -
    have i: "length vs - 1 < length vs" "length vs - 2 < length vs" "length vs - 2 < length hs" using N l by linarith+
    have nz: "hs ! (length vs - 2) \<noteq> 0" "n + 1 < length vs \<Longrightarrow> hs ! n \<noteq> 0" for n
    proof -
      show "hs ! (length vs - 2) \<noteq> 0" using h [OF i(3)] by simp
      assume "n + 1 < length vs"
      then have "n < length hs" using l by linarith
      from h [OF this] show "hs ! n \<noteq> 0" by simp
    qed
    have "(if n + 1 < length vs
             then (map Fin vs ! (n + 1) - map Fin vs ! n) / map Fin hs ! n
                  - (map Fin hs ! n / 6) * (2 * map Fin ms ! n + map Fin ms ! (n + 1))
             else (map Fin vs ! (length vs - 1) - map Fin vs ! (length vs - 2)) / map Fin hs ! (length vs - 2)
                  + (map Fin hs ! (length vs - 2) / 6) * (map Fin ms ! (length vs - 2) + 2 * map Fin ms ! (length vs - 1)))
        = Fin (slopes_of_moments hs vs ms n)" if n: "n < length vs" for n
    proof (cases "n + 1 < length vs")
      case True
      then have "n < length hs" using l by simp
      then show ?thesis using True nz(2) [OF True] lm by (simp add: slopes_of_moments_def Let_def)
    next
      case False
      have e: "map Fin vs ! (length vs - 1) = Fin (vs ! (length vs - 1))" "map Fin vs ! (length vs - 2) = Fin (vs ! (length vs - 2))"
        "map Fin hs ! (length vs - 2) = Fin (hs ! (length vs - 2))" "map Fin ms ! (length vs - 2) = Fin (ms ! (length vs - 2))"
        "map Fin ms ! (length vs - 1) = Fin (ms ! (length vs - 1))" using i lm by (simp_all add: nth_map)
      show ?thesis
        unfolding slopes_of_moments_def Let_def e using False nz(1) by (simp del: One_nat_def)
    qed
    then show ?thesis
      unfolding solve_nodal_slopes_general_def run bindS_Inr Let_def length_map by (auto intro!: map_cong)
  qed
  then show ?thesis using moments_natural [OF m h l N] by blast
next
  case False
  with moments_exist [OF N l h] show ?thesis by (auto simp: solve_nodal_slopes_general_def)
qed

subsection \<open>Accepted splines\<close>

text \<open>What the constructor stores, over reals: the widths are the equal width of the idealised grid on the uniform path, the
  differences of the knots on the general one.\<close>

definition spline_from :: "real list \<Rightarrow> real list \<Rightarrow> real list \<Rightarrow> real list \<Rightarrow> natural_spline \<Rightarrow> bool" where
  "spline_from ks vs ds hs s \<longleftrightarrow> 2 \<le> length ks \<and> length vs = length ks \<and> increasing_reals ks
     \<and> length hs = length ks - 1 \<and> (\<forall>i < length hs. 0 < hs ! i) \<and> natural_slopes hs vs ds
     \<and> ns_values s = map Fin vs \<and> ns_nodal_slopes s = map Fin ds
     \<and> ns_segments s = map (\<lambda>n. segment_of_nodes (Fin (hs ! n)) (Fin (vs ! n)) (Fin (vs ! Suc n))
                                   (Fin (ds ! n)) (Fin (ds ! Suc n))) [0..<length ks - 1]
     \<and> ns_first_knot s = Fin (ks ! 0) \<and> ns_last_knot s = Fin (ks ! (length ks - 1))
     \<and> (if ns_is_uniform s then hs = replicate (length ks - 1) (hs ! 0) \<and> ns_inverse_uniform_spacing s = Fin (1 / hs ! 0)
        else hs = map (\<lambda>n. ks ! Suc n - ks ! n) [0..<length ks - 1] \<and> ns_knots s = map Fin ks)"

definition spline_nodes_usable :: "vec \<Rightarrow> vec \<Rightarrow> bool" where
  "spline_nodes_usable knots values \<longleftrightarrow> length knots = length values \<and> 2 \<le> length knots
     \<and> all_finite knots \<and> all_finite values \<and> strictly_increasing_nodes knots"

lemma usable_reals:
  assumes "spline_nodes_usable knots values"
  obtains ks vs where "knots = map Fin ks" "values = map Fin vs" "length vs = length ks" "2 \<le> length ks" "increasing_reals ks"
proof -
  have "require_usable_nodes knots values = Inr ()"
    using assms by (auto simp: spline_nodes_usable_def require_usable_nodes_def reject_if_def)
  then show thesis using that unfolding usable_nodes_Inr by blast
qed

lemma spline_checks:
  "make_natural_spline knots values =
     (if spline_nodes_usable knots values
      then bindS (if spacings_are_uniform (node_spacings knots)
                  then solve_nodal_slopes_uniform values (hd (node_spacings knots))
                  else solve_nodal_slopes_general values (node_spacings knots)) (\<lambda>slopes.
           Inr (stored_spline knots values slopes))
      else Inl InvalidArgument)"
  by (auto simp: make_natural_spline_def spline_nodes_usable_def reject_if_def)

lemma increasing_spacings:
  assumes "increasing_reals ks" "i < length ks - 1"
  shows "0 < ks ! Suc i - ks ! i"
  using increasing_reals_less [OF assms(1), of i "Suc i"] assms(2) by simp

text \<open>The constructor on usable nodes: it stores a natural spline, or it refuses a grid that is not uniform and has
  a spacing below the pivot threshold.\<close>

lemma spline_constructor:
  assumes u: "spline_nodes_usable knots values"
  shows "(\<exists>s ks vs ds hs. make_natural_spline knots values = Inr s \<and> knots = map Fin ks \<and> values = map Fin vs
            \<and> spline_from ks vs ds hs s)
     \<or> make_natural_spline knots values = Inl RuntimeError \<and> \<not> spacings_are_uniform (node_spacings knots)
       \<and> (\<exists>n < length knots - 1. node_spacings knots ! n < singular_pivot)"
proof -
  from usable_reals [OF u] obtain ks vs where k: "knots = map Fin ks" "values = map Fin vs" "length vs = length ks"
    "2 \<le> length ks" "increasing_reals ks" .
  define N where "N = length ks"
  define hs where "hs = map (\<lambda>n. ks ! Suc n - ks ! n) [0..<N - 1]"
  have sp: "node_spacings knots = map Fin hs" by (simp add: k(1) node_spacings_Fin hs_def N_def)
  have lk: "length knots = N" by (simp add: k(1) N_def)
  have len: "length hs = N - 1" by (simp add: hs_def)
  have N: "2 \<le> N" "length vs = N" "ks \<noteq> []" "vs \<noteq> []" using k by (auto simp: N_def)
  have hpos: "0 < hs ! i" if "i < length hs" for i
    using increasing_spacings [OF k(5)] that by (simp add: hs_def N_def)
  have ends: "hd knots = Fin (ks ! 0)" "last knots = Fin (ks ! (N - 1))"
    using N by (simp_all add: k(1) hd_map last_map hd_conv_nth last_conv_nth N_def)
  have "hs \<noteq> []" using len N(1) by auto
  then have h0: "hd (map Fin hs) = Fin (hs ! 0)" "0 < hs ! 0" using hpos [of 0] by (simp_all add: hd_map hd_conv_nth)
  have nz: "hs ! 0 \<noteq> 0" using h0(2) by simp
  show ?thesis
  proof (cases "spacings_are_uniform (map Fin hs)")
    case True
    from uniform_path_natural [OF _ h0(2), of vs] N obtain ds
      where run: "solve_nodal_slopes_uniform (map Fin vs) (Fin (hs ! 0)) = Inr (map Fin ds)"
        and nat: "natural_slopes (replicate (N - 1) (hs ! 0)) vs ds" by auto
    have dl: "length ds = N" using nat N by (simp add: natural_slopes_def)
    have idx: "map Fin ds ! n = Fin (ds ! n)" "map Fin ds ! Suc n = Fin (ds ! Suc n)" "values ! n = Fin (vs ! n)"
      "values ! Suc n = Fin (vs ! Suc n)" "replicate (N - 1) (hs ! 0) ! n = hs ! 0" if "n < N - 1" for n
      using that N dl by (simp_all add: k(2))
    define s where "s = stored_spline knots values (map Fin ds)"
    have mk: "make_natural_spline knots values = Inr s"
      using u run h0(1) True by (simp add: spline_checks sp k(2) s_def)
    have f: "ns_values s = values" "ns_nodal_slopes s = map Fin ds" "ns_first_knot s = hd knots" "ns_last_knot s = last knots"
        "ns_is_uniform s" "ns_inverse_uniform_spacing s = 1 / Fin (hs ! 0)"
        "ns_segments s = map (\<lambda>n. segment_of_nodes (Fin (hs ! 0)) (values ! n) (values ! Suc n)
            (map Fin ds ! n) (map Fin ds ! Suc n)) [0..<N - 1]"
      using True h0(1) by (simp_all add: s_def stored_spline_def sp lk Let_def)
    have "spline_from ks vs ds (replicate (N - 1) (hs ! 0)) s"
      unfolding spline_from_def N_def [symmetric]
    proof (intro conjI)
      show "ns_segments s = map (\<lambda>n. segment_of_nodes (Fin (replicate (N - 1) (hs ! 0) ! n)) (Fin (vs ! n)) (Fin (vs ! Suc n))
          (Fin (ds ! n)) (Fin (ds ! Suc n))) [0..<N - 1]"
        unfolding f(7) using idx by (intro map_cong) auto
    qed (use f ends nat k N nz h0(2) in \<open>auto simp: N_def\<close>)
    then show ?thesis using mk k(1,2) by blast
  next
    case False
    show ?thesis
    proof (cases "\<exists>ds. solve_nodal_slopes_general (map Fin vs) (map Fin hs) = Inr (map Fin ds) \<and> natural_slopes hs vs ds")
      case True
      then obtain ds where run: "solve_nodal_slopes_general (map Fin vs) (map Fin hs) = Inr (map Fin ds)"
        and nat: "natural_slopes hs vs ds" by blast
      have dl: "length ds = N" using nat N by (simp add: natural_slopes_def)
      have idx: "map Fin ds ! n = Fin (ds ! n)" "map Fin ds ! Suc n = Fin (ds ! Suc n)" "values ! n = Fin (vs ! n)"
        "values ! Suc n = Fin (vs ! Suc n)" "map Fin hs ! n = Fin (hs ! n)" if "n < N - 1" for n
        using that N dl len by (simp_all add: k(2))
      define s where "s = stored_spline knots values (map Fin ds)"
      have mk: "make_natural_spline knots values = Inr s"
        using u run False by (simp add: spline_checks sp k(2) s_def)
      have f: "ns_values s = values" "ns_nodal_slopes s = map Fin ds" "ns_first_knot s = hd knots" "ns_last_knot s = last knots"
          "\<not> ns_is_uniform s" "ns_knots s = knots"
          "ns_segments s = map (\<lambda>n. segment_of_nodes (map Fin hs ! n) (values ! n) (values ! Suc n)
            (map Fin ds ! n) (map Fin ds ! Suc n)) [0..<N - 1]"
        using False by (simp_all add: s_def stored_spline_def sp lk Let_def)
      have "spline_from ks vs ds hs s"
        unfolding spline_from_def N_def [symmetric]
      proof (intro conjI)
        show "ns_segments s = map (\<lambda>n. segment_of_nodes (Fin (hs ! n)) (Fin (vs ! n)) (Fin (vs ! Suc n))
            (Fin (ds ! n)) (Fin (ds ! Suc n))) [0..<N - 1]"
          unfolding f(7) using idx by (intro map_cong) auto
      qed (use f ends nat k N hpos len in \<open>auto simp: N_def hs_def\<close>)
      then show ?thesis using mk k(1,2) by blast
    next
      case none: False
      have pos: "\<And>i. i < length hs \<Longrightarrow> 0 < hs ! i" by (rule hpos)
      have "2 \<le> length vs" "length hs = length vs - 1" using N len by simp_all
      from general_path_natural [OF this pos] none
      have e: "solve_nodal_slopes_general (map Fin vs) (map Fin hs) = Inl RuntimeError"
        and small: "\<not> (\<forall>i < length hs. 1 / 10 ^ 15 \<le> hs ! i)" by blast+
      have "make_natural_spline knots values = Inl RuntimeError"
        using u e False unfolding spline_checks by (simp add: sp k(2))
      moreover have "\<exists>n < length knots - 1. node_spacings knots ! n < singular_pivot"
        using small len unfolding sp by (auto simp: singular_pivot_def k(1) N_def not_le)
      ultimately show ?thesis using False sp by auto
    qed
  qed
qed

lemma spline_built:
  assumes "make_natural_spline knots values = Inr s"
  obtains ks vs ds hs where "knots = map Fin ks" "values = map Fin vs" "spline_from ks vs ds hs s"
proof -
  have "spline_nodes_usable knots values" using assms by (auto simp: spline_checks split: if_splits)
  from spline_constructor [OF this] assms that show thesis by auto
qed

subsection \<open>Values at the nodes\<close>

lemma spline_fromD:
  assumes "spline_from ks vs ds hs s"
  shows "2 \<le> length ks" "length vs = length ks" "length ds = length ks" "increasing_reals ks" "length hs = length ks - 1"
    "\<And>i. i < length ks - 1 \<Longrightarrow> 0 < hs ! i" "natural_slopes hs vs ds" "ns_values s = map Fin vs"
    "ns_nodal_slopes s = map Fin ds" "length (ns_segments s) = length ks - 1"
    "ns_first_knot s = Fin (ks ! 0)" "ns_last_knot s = Fin (ks ! (length ks - 1))" "ks \<noteq> []"
  using assms by (auto simp: spline_from_def natural_slopes_def)

lemma spline_segment:
  assumes "spline_from ks vs ds hs s" "n < length ks - 1"
  shows "ns_segments s ! n = segment_of_nodes (Fin (hs ! n)) (Fin (vs ! n)) (Fin (vs ! Suc n)) (Fin (ds ! n)) (Fin (ds ! Suc n))"
  using assms by (simp add: spline_from_def)

lemma segment_ends:
  assumes s: "spline_from ks vs ds hs s" and n: "n < length ks - 1"
  defines "c \<equiv> ns_segments s ! n"
  shows "segment_value c 0 = Fin (vs ! n)" "segment_value c 1 = Fin (vs ! Suc n)"
    "segment_first_derivative c 0 = Fin (ds ! n)" "segment_first_derivative c 1 = Fin (ds ! Suc n)"
    "segment_second_derivative c (Fin t) = Fin (segment_bend hs vs ds n t)"
proof -
  have h: "hs ! n \<noteq> 0" "0 < hs ! n" using spline_fromD(6) [OF s n] by simp_all
  note c = c_def spline_segment [OF s n] segment_of_nodes_def Let_def
  show "segment_value c 0 = Fin (vs ! n)" "segment_value c 1 = Fin (vs ! Suc n)"
    using h by (simp_all add: c segment_value_def)
  show "segment_first_derivative c 0 = Fin (ds ! n)" "segment_first_derivative c 1 = Fin (ds ! Suc n)"
    using h by (simp_all add: c segment_first_derivative_def field_simps)
  show "segment_second_derivative c (Fin t) = Fin (segment_bend hs vs ds n t)"
    using h by (simp add: c segment_second_derivative_def segment_bend_def power2_eq_square mult.assoc)
qed

text \<open>The nodes as the evaluation sees them: the idealised grid or the knots themselves.\<close>

definition grid_node :: "natural_spline \<Rightarrow> vec \<Rightarrow> nat \<Rightarrow> double" where
  "grid_node s knots n =
     (if ns_is_uniform s then ns_first_knot s + Fin (real n) * (1 / ns_inverse_uniform_spacing s) else knots ! n)"

lemma grid_node_located:
  assumes s: "spline_from ks vs ds hs s" and n: "n < length ks"
    and x: "ns_first_knot s < grid_node s (map Fin ks) n" "grid_node s (map Fin ks) n < ns_last_knot s"
  shows "spline_locate s (grid_node s (map Fin ks) n)
           = (if n < length ks - 1 then \<lparr>loc_segment = n, loc_parameter = 0\<rparr>
              else \<lparr>loc_segment = length ks - 2, loc_parameter = 1\<rparr>)"
proof (cases "ns_is_uniform s")
  case True
  define h where "h = hs ! 0"
  have l: "length ks - 1 - 1 = length ks - 2" by simp
  have "0 < length ks - 1" using spline_fromD(1) [OF s] by linarith
  from spline_fromD(6) [OF s this] have h: "h \<noteq> 0" by (simp add: h_def)
  have inv: "ns_inverse_uniform_spacing s = Fin (1 / h)" using s True by (simp add: spline_from_def h_def)
  have g: "grid_node s (map Fin ks) n = Fin (ks ! 0 + real n * h)"
    using True h inv by (simp add: grid_node_def spline_fromD(11) [OF s])
  have sc: "(grid_node s (map Fin ks) n - ns_first_knot s) * ns_inverse_uniform_spacing s = Fin (real n)"
    using h inv by (simp add: g spline_fromD(11) [OF s])
  have x': "ks ! 0 < ks ! 0 + real n * h" "ks ! 0 + real n * h < ks ! (length ks - 1)"
    using x by (simp_all add: g spline_fromD(11,12) [OF s])
  have snap: "0 \<le> (1 :: real) / 10 ^ 12" by simp
  show ?thesis
    unfolding spline_locate_def Let_def sc
    using x' True n snap
    by (auto simp: g spline_fromD(10-12) [OF s] l snap_location_def local_parameter_snap_def numeral_2_eq_2)
next
  case False
  note d = spline_fromD [OF s]
  have k: "ns_knots s = map Fin ks" using s False by (auto simp: spline_from_def)
  have g: "grid_node s (map Fin ks) n = Fin (ks ! n)" using False n by (simp add: grid_node_def)
  have x': "ks ! 0 < ks ! n" "ks ! n < ks ! (length ks - 1)" using x by (simp_all add: g d)
  then have n': "Suc n < length ks" using n by (cases "n = length ks - 1") auto
  have "ks ! n < ks ! Suc n" using increasing_reals_less [OF d(4), of n "Suc n"] n' by simp
  then have ub: "upper_bound (map Fin ks) (Fin (ks ! n)) = Suc n"
    by (rule upper_bound_between [OF d(4) n' order_refl])
  have last: "\<not> length ks - 1 - 1 < n" "n < length ks - 1" using n' by linarith+
  have nz: "hs ! n \<noteq> 0" using d(6) [OF last(2)] by simp
  have "(Fin (ks ! n) - map Fin ks ! n) * seg_inverse_spacing (ns_segments s ! n) = 0"
    using nz n by (simp add: spline_segment [OF s last(2)] segment_of_nodes_def Let_def)
  moreover have "0 \<le> (1 :: real) / 10 ^ 12" by simp
  ultimately show ?thesis
    unfolding spline_locate_def Let_def
    using x' False last
    by (simp add: g d(10-12) k ub snap_location_def local_parameter_snap_def)
qed

subsection \<open>Properties\<close>

text \<open>The elimination without pivoting is right whenever it returns: on finite bands it either refuses with the
  runtime error of a small pivot, or returns a finite solution that satisfies every row of the tridiagonal system.\<close>
theorem tridiagonal_solution:
  assumes "length sub = length diagonal" "length super = length diagonal" "length rhs = length diagonal" "diagonal \<noteq> []"
    and "all_finite sub" "all_finite diagonal" "all_finite super" "all_finite rhs"
  shows "solve_tridiagonal sub diagonal super rhs = Inl RuntimeError
     \<or> (\<exists>x. solve_tridiagonal sub diagonal super rhs = Inr x \<and> length x = length diagonal \<and> all_finite x
          \<and> (\<forall>row < length diagonal.
               (if row = 0 then 0 else sub ! row * x ! (row - 1)) + diagonal ! row * x ! row
                 + (if Suc row < length diagonal then super ! row * x ! Suc row else 0) = rhs ! row))"
proof -
  define a where "a = map to_real sub"
  define b where "b = map to_real diagonal"
  define c where "c = map to_real super"
  define d where "d = map to_real rhs"
  have F: "sub = map Fin a" "diagonal = map Fin b" "super = map Fin c" "rhs = map Fin d"
    using assms(5-8) by (simp_all only: a_def b_def c_def d_def map_Fin_to_real)
  have len: "length a = length b" "length c = length b" "length d = length b" "b \<noteq> []"
    using assms(1-4) by (auto simp: a_def b_def c_def d_def)
  show ?thesis
  proof (cases "pivots_ok a b c (length b - 1)")
    case False
    then show ?thesis unfolding F using solve_tridiagonal_Fin [OF len] by simp
  next
    case True
    let ?x = "map (\<lambda>i. Fin (solution_at a b c d i)) [0..<length b]"
    have "(if row = 0 then 0 else sub ! row * ?x ! (row - 1)) + diagonal ! row * ?x ! row
        + (if Suc row < length diagonal then super ! row * ?x ! Suc row else 0) = rhs ! row"
      if row: "row < length diagonal" for row
    proof -
      have r: "row < length b" using row F(2) by simp
      have "(if row = 0 then 0 else sub ! row * ?x ! (row - 1))
          = Fin (if row = 0 then 0 else a ! row * solution_at a b c d (row - 1))" using r len F by (cases row) simp_all
      moreover have "diagonal ! row * ?x ! row = Fin (b ! row * solution_at a b c d row)" using r F by simp
      moreover have "(if Suc row < length diagonal then super ! row * ?x ! Suc row else 0)
          = Fin (if Suc row < length b then c ! row * solution_at a b c d (Suc row) else 0)" using r len F by simp
      moreover have "rhs ! row = Fin (d ! row)" using r len F by simp
      ultimately show ?thesis using solution_rows [OF True r, of d] by simp
    qed
    moreover have "solve_tridiagonal sub diagonal super rhs = Inr ?x"
      unfolding F using solve_tridiagonal_Fin [OF len] True by simp
    moreover have "all_finite ?x" by (simp add: all_finite_iff)
    ultimately show ?thesis using F(2) by (intro disjI2 exI [of _ ?x]) simp
  qed
qed

theorem tridiagonal_solution_witness:
  "\<exists>x. solve_tridiagonal [0, 1] [2, 2] [1, 0] [3, 3] = Inr x \<and> 2 * x ! 0 + 1 * x ! 1 = 3 \<and> 1 * x ! 0 + 2 * x ! 1 = 3"
proof -
  let ?run = "solve_tridiagonal [0, 1] [2, 2] [1, 0] [3, 3]"
  have "?run \<noteq> Inl RuntimeError"
    by (simp add: solve_tridiagonal_def singular_pivot_def numeral_2_eq_2 Let_def)
  with tridiagonal_solution [of "[0, 1]" "[2, 2]" "[1, 0]" "[3, 3]"] obtain x
    where x: "?run = Inr x" "length x = 2" "all_finite x"
      and rows: "\<And>row. row < 2 \<Longrightarrow> (if row = 0 then 0 else [0, 1] ! row * x ! (row - 1)) + [2, 2] ! row * x ! row
                 + (if Suc row < 2 then [1, 0] ! row * x ! Suc row else 0) = [3, 3] ! row"
    by auto
  from x(2,3) obtain p q where pq: "x = [Fin p, Fin q]"
    by (auto simp: numeral_2_eq_2 length_Suc_conv isfinite_iff)
  show ?thesis using x(1) rows [of 0] rows [of 1] by (auto simp: pq)
qed

text \<open>The constructor is total on what its contract admits.  Unusable nodes are refused as invalid; usable ones give a
  spline, except that the general path refuses, as singular, a grid with a spacing below its absolute pivot
  threshold - which an equally spaced grid never is, however fine.\<close>
theorem spline_construction_outcome:
  "(\<not> spline_nodes_usable knots values \<longrightarrow> make_natural_spline knots values = Inl InvalidArgument)
   \<and> (spline_nodes_usable knots values
        \<and> (spacings_are_uniform (node_spacings knots) \<or> (\<forall>n < length knots - 1. singular_pivot \<le> node_spacings knots ! n))
      \<longrightarrow> (\<exists>s. make_natural_spline knots values = Inr s \<and> ns_values s = values
               \<and> length (ns_nodal_slopes s) = length knots \<and> all_finite (ns_nodal_slopes s)))
   \<and> (spline_nodes_usable knots values \<and> (\<forall>s. make_natural_spline knots values \<noteq> Inr s)
      \<longrightarrow> make_natural_spline knots values = Inl RuntimeError \<and> \<not> spacings_are_uniform (node_spacings knots))"
proof -
  have ok: "\<exists>s. make_natural_spline knots values = Inr s \<and> ns_values s = values
      \<and> length (ns_nodal_slopes s) = length knots \<and> all_finite (ns_nodal_slopes s)"
    if u: "spline_nodes_usable knots values"
      and w: "spacings_are_uniform (node_spacings knots) \<or> (\<forall>n < length knots - 1. singular_pivot \<le> node_spacings knots ! n)"
  proof -
    have no: "\<not> (\<exists>n < length knots - 1. node_spacings knots ! n < singular_pivot)"
      if "\<not> spacings_are_uniform (node_spacings knots)"
    proof
      assume "\<exists>n < length knots - 1. node_spacings knots ! n < singular_pivot"
      then obtain n where n: "n < length knots - 1" "node_spacings knots ! n < singular_pivot" by blast
      moreover have "singular_pivot \<le> node_spacings knots ! n" using w that n(1) by blast
      ultimately show False
        by (cases "node_spacings knots ! n") (auto simp: singular_pivot_def less_double_def less_eq_double_def)
    qed
    from spline_constructor [OF u] no obtain s ks vs ds hs where "make_natural_spline knots values = Inr s"
      and k: "knots = map Fin ks" "values = map Fin vs" "spline_from ks vs ds hs s" by blast
    then show ?thesis using spline_fromD [OF k(3)] by (intro exI [of _ s]) simp
  qed
  have "make_natural_spline knots values = Inl RuntimeError \<and> \<not> spacings_are_uniform (node_spacings knots)"
    if "spline_nodes_usable knots values" "\<forall>s. make_natural_spline knots values \<noteq> Inr s"
    using spline_constructor [OF that(1)] that(2) by blast
  moreover have "make_natural_spline knots values = Inl InvalidArgument" if "\<not> spline_nodes_usable knots values"
    using that by (simp add: spline_checks)
  ultimately show ?thesis using ok by blast
qed

text \<open>C36: The curve of an accepted spline is twice continuously differentiable across its segments and natural at its
  ends: neighbouring segments agree in value, first and second derivative where they meet, they meet in the data and in
  the nodal slopes, and the second derivative vanishes at both ends - on the equally spaced path and on the general one.\<close>
theorem spline_is_natural:
  assumes "make_natural_spline knots values = Inr s"
  shows "segment_value (ns_segments s ! 0) 0 = values ! 0
    \<and> segment_value (ns_segments s ! (length knots - 2)) 1 = values ! (length knots - 1)
    \<and> segment_second_derivative (ns_segments s ! 0) 0 = 0
    \<and> segment_second_derivative (ns_segments s ! (length knots - 2)) 1 = 0
    \<and> (\<forall>n. Suc (Suc n) < length knots \<longrightarrow>
         segment_value (ns_segments s ! n) 1 = values ! Suc n \<and> segment_value (ns_segments s ! Suc n) 0 = values ! Suc n
       \<and> segment_first_derivative (ns_segments s ! n) 1 = ns_nodal_slopes s ! Suc n
       \<and> segment_first_derivative (ns_segments s ! Suc n) 0 = ns_nodal_slopes s ! Suc n
       \<and> segment_second_derivative (ns_segments s ! n) 1 = segment_second_derivative (ns_segments s ! Suc n) 0)"
proof -
  from assms obtain ks vs ds hs where k: "knots = map Fin ks" "values = map Fin vs" and f: "spline_from ks vs ds hs s"
    by (rule spline_built)
  note d = spline_fromD [OF f]
  have i: "0 < length ks - 1" "length ks - 2 < length ks - 1" "Suc (length ks - 2) = length ks - 1"
    "0 < length ks" "length ks - 1 < length ks" using d(1) by linarith+
  have nat: "segment_bend hs vs ds 0 0 = 0" "segment_bend hs vs ds (length ks - 2) 1 = 0"
    "\<And>n. Suc (Suc n) < length ks \<Longrightarrow> segment_bend hs vs ds n 1 = segment_bend hs vs ds (Suc n) 0"
    using d(7) unfolding natural_slopes_def d(2) by blast+
  have bend: "segment_second_derivative (ns_segments s ! n) 0 = Fin (segment_bend hs vs ds n 0)"
    "segment_second_derivative (ns_segments s ! n) 1 = Fin (segment_bend hs vs ds n 1)" if "n < length ks - 1" for n
    using segment_ends(5) [OF f that, of 0] segment_ends(5) [OF f that, of 1] by simp_all
  have v: "values ! n = Fin (vs ! n)" "ns_nodal_slopes s ! n = Fin (ds ! n)" if "n < length ks" for n
    using that d by (simp_all add: k)
  have inner: "n < length ks - 1" "Suc n < length ks - 1" "Suc n < length ks" if "Suc (Suc n) < length ks" for n
    using that by linarith+
  have "segment_value (ns_segments s ! 0) 0 = values ! 0"
    using segment_ends(1) [OF f i(1)] v(1) [OF i(4)] by simp
  moreover have "segment_value (ns_segments s ! (length ks - 2)) 1 = values ! (length ks - 1)"
    using segment_ends(2) [OF f i(2)] v(1) [OF i(5)] by (simp only: i(3))
  moreover have "segment_second_derivative (ns_segments s ! 0) 0 = 0" using bend(1) [OF i(1)] nat(1) by simp
  moreover have "segment_second_derivative (ns_segments s ! (length ks - 2)) 1 = 0"
    using bend(2) [OF i(2)] by (simp only: nat(2) Fin_zero)
  moreover have "segment_value (ns_segments s ! n) 1 = values ! Suc n \<and> segment_value (ns_segments s ! Suc n) 0 = values ! Suc n
       \<and> segment_first_derivative (ns_segments s ! n) 1 = ns_nodal_slopes s ! Suc n
       \<and> segment_first_derivative (ns_segments s ! Suc n) 0 = ns_nodal_slopes s ! Suc n
       \<and> segment_second_derivative (ns_segments s ! n) 1 = segment_second_derivative (ns_segments s ! Suc n) 0"
    if n: "Suc (Suc n) < length ks" for n
    unfolding segment_ends(1-4) [OF f inner(1) [OF n]] segment_ends(1-4) [OF f inner(2) [OF n]]
      v [OF inner(3) [OF n]] bend [OF inner(1) [OF n]] bend [OF inner(2) [OF n]] nat(3) [OF n] by blast
  ultimately show ?thesis unfolding k(1) length_map by blast
qed

text \<open>Three nodes on a bend, not equally spaced.\<close>

definition crown_knots :: vec where "crown_knots = [Fin 0, Fin 1, Fin 3]"
definition crown_heights :: vec where "crown_heights = [Fin 0, Fin 1, Fin 1]"

lemma crown_usable: "spline_nodes_usable crown_knots crown_heights"
  by (auto simp: spline_nodes_usable_def strictly_increasing_nodes_def crown_knots_def crown_heights_def less_Suc_eq numeral_eq_Suc)

lemma crown_spacings: "node_spacings crown_knots = [Fin 1, Fin 2]"
  by (simp add: node_spacings_def crown_knots_def upt_rec)

lemma crown_ends: "hd crown_knots = Fin 0" "last crown_knots = Fin 3"
  by (simp_all add: crown_knots_def)

lemma crown_not_uniform: "\<not> spacings_are_uniform [Fin 1, Fin 2]"
  by (simp add: spacings_are_uniform_def uniform_spacing_absolute_tolerance_def
      uniform_spacing_relative_tolerance_def Let_def)

lemma crown_accepted: "\<exists>s. make_natural_spline crown_knots crown_heights = Inr s"
proof -
  have "length crown_knots = 3" by (simp add: crown_knots_def)
  then have "\<not> (\<exists>n < length crown_knots - 1. node_spacings crown_knots ! n < singular_pivot)"
    by (auto simp: crown_spacings singular_pivot_def less_Suc_eq numeral_eq_Suc nth_Cons split: nat.splits)
  with spline_constructor [OF crown_usable] show ?thesis by blast
qed

theorem spline_is_natural_witness:
  "\<exists>s. make_natural_spline crown_knots crown_heights = Inr s
     \<and> segment_second_derivative (ns_segments s ! 0) 1 = segment_second_derivative (ns_segments s ! 1) 0
     \<and> segment_second_derivative (ns_segments s ! 1) 1 = 0 \<and> segment_value (ns_segments s ! 1) 1 = Fin 1"
proof -
  obtain s where s: "make_natural_spline crown_knots crown_heights = Inr s" using crown_accepted by blast
  have l: "length crown_knots = 3" by (simp add: crown_knots_def)
  note p = spline_is_natural [OF s, unfolded l]
  have "Suc (Suc 0) < 3" by simp
  with p have "segment_second_derivative (ns_segments s ! 0) 1 = segment_second_derivative (ns_segments s ! Suc 0) 0" by blast
  moreover have "segment_second_derivative (ns_segments s ! (3 - 2)) 1 = 0" "segment_value (ns_segments s ! (3 - 2)) 1 = crown_heights ! (3 - 1)"
    using p by blast+
  ultimately show ?thesis using s by (simp add: crown_heights_def)
qed

text \<open>An accepted spline passes through its data: at every node strictly inside the knot range - the knot itself on
  the general path, the point of the idealised grid on the equally spaced one - the value is the tabulated value and
  the first derivative is the nodal slope, although the location goes through a division and a floor.\<close>
theorem spline_through_nodes:
  assumes "make_natural_spline knots values = Inr s" and "n < length knots"
    and "ns_first_knot s < grid_node s knots n" "grid_node s knots n < ns_last_knot s"
  shows "spline_evaluate s (grid_node s knots n) = values ! n
    \<and> spline_first_derivative s (grid_node s knots n) = ns_nodal_slopes s ! n"
proof -
  from assms(1) obtain ks vs ds hs where k: "knots = map Fin ks" "values = map Fin vs" and f: "spline_from ks vs ds hs s"
    by (rule spline_built)
  note d = spline_fromD [OF f]
  let ?x = "grid_node s (map Fin ks) n"
  have n: "n < length ks" using assms(2) by (simp add: k)
  have x: "ns_first_knot s < ?x" "?x < ns_last_knot s" using assms(3,4) by (simp_all add: k)
  then obtain a where a: "?x = Fin a" by (cases ?x) (auto simp: d(11,12) less_double_def)
  have out: "\<not> ?x \<le> ns_first_knot s" "\<not> ns_last_knot s \<le> ?x" "\<not> ?x < ns_first_knot s" "\<not> ns_last_knot s < ?x"
    using x by (simp_all add: a d(11,12))
  have i: "length ks - 2 < length ks - 1" "Suc (length ks - 2) = length ks - 1" using d(1) by linarith+
  have v: "values ! n = Fin (vs ! n)" "ns_nodal_slopes s ! n = Fin (ds ! n)" using n d by (simp_all add: k)
  have e: "n = Suc (length ks - 2)" if "\<not> n < length ks - 1" using that n i(2) by linarith
  show ?thesis
    unfolding k(1) spline_evaluate_def spline_first_derivative_def grid_node_located [OF f n x] Let_def
    using out v e segment_ends(1,3) [OF f, of n] segment_ends(2,4) [OF f i(1)] by auto
qed

theorem spline_through_nodes_witness:
  "\<exists>s. make_natural_spline crown_knots crown_heights = Inr s \<and> spline_evaluate s (Fin 1) = Fin 1
     \<and> spline_first_derivative s (Fin 1) = ns_nodal_slopes s ! 1"
proof -
  obtain s where s: "make_natural_spline crown_knots crown_heights = Inr s" using crown_accepted by blast
  then obtain slopes where "s = stored_spline crown_knots crown_heights slopes"
    by (auto simp: spline_checks crown_usable crown_spacings crown_not_uniform bindS_eq_Inr)
  then have "\<not> ns_is_uniform s" "ns_first_knot s = Fin 0" "ns_last_knot s = Fin 3"
    using crown_not_uniform by (simp_all add: stored_spline_def crown_spacings Let_def crown_ends)
  then show ?thesis
    using spline_through_nodes [OF s, of 1] s
    by (simp add: grid_node_def crown_knots_def crown_heights_def)
qed

text \<open>The Hermite interpolant built from the nodal slopes of a spline on the general path has the spline's own segments.
  Where the spline does not snap to a knot, the two evaluate alike.\<close>

lemma nodal_slopes_hand_over:
  assumes m: "make_natural_spline knots values = Inr s" and u: "\<not> ns_is_uniform s"
  obtains i where "from_nodal_slopes knots values (ns_nodal_slopes s) rule = Inr i" "ip_segments i = ns_segments s"
proof -
  from m obtain ks vs ds hs where k: "knots = map Fin ks" "values = map Fin vs" and f: "spline_from ks vs ds hs s"
    by (rule spline_built)
  note d = spline_fromD [OF f]
  have hs: "hs = map (\<lambda>n. ks ! Suc n - ks ! n) [0..<length ks - 1]" using f u by (simp add: spline_from_def)
  have n: "node_lists ks vs ds" using d by (simp add: node_lists_def)
  have "require_usable_nodes knots values = Inr ()" unfolding usable_nodes_Inr using k d by blast
  then have "from_nodal_slopes knots values (ns_nodal_slopes s) rule = Inr (node_interpolant ks vs ds rule)"
    using d by (simp add: from_nodal_slopes_def k reject_if_def node_interpolant_def)
  moreover have "ip_segments (node_interpolant ks vs ds rule) = ns_segments s"
  proof (rule nth_equalityI)
    fix j
    assume "j < length (ip_segments (node_interpolant ks vs ds rule))"
    then have j: "j < length ks - 1" "j < length ks" "Suc j < length ks" by simp_all
    then show "ip_segments (node_interpolant ks vs ds rule) ! j = ns_segments s ! j"
      using d(2,3) by (simp add: node_interpolant_def make_interpolant_def spline_segment [OF f j(1)] hs)
  qed (use d in simp)
  ultimately show thesis by (rule that)
qed

lemma spline_between:
  assumes f: "spline_from ks vs ds hs s" and u: "\<not> ns_is_uniform s" and n: "n < length ks - 1"
    and x: "ks ! n \<le> x" "x < ks ! Suc n" "ks ! 0 < x"
    and t: "1 / 10 ^ 12 < local_parameter ks n x" "local_parameter ks n x < 1 - 1 / 10 ^ 12"
  shows "spline_locate s (Fin x) = \<lparr>loc_segment = n, loc_parameter = Fin (local_parameter ks n x)\<rparr>"
proof -
  note d = spline_fromD [OF f]
  have k: "ns_knots s = map Fin ks" "hs = map (\<lambda>n. ks ! Suc n - ks ! n) [0..<length ks - 1]"
    using f u by (simp_all add: spline_from_def)
  have n': "Suc n < length ks" "\<not> length ks - 1 - 1 < n" "n < length ks" using n by linarith+
  have "ks ! Suc n \<le> ks ! (length ks - 1)" using increasing_reals_le [OF d(4), of "Suc n" "length ks - 1"] n by simp
  then have lt: "x < ks ! (length ks - 1)" using x(2) by simp
  have ub: "upper_bound (map Fin ks) (Fin x) = Suc n" by (rule upper_bound_between [OF d(4) n'(1) x(1,2)])
  have nz: "hs ! n \<noteq> 0" using d(6) [OF n] by simp
  have "(Fin x - map Fin ks ! n) * seg_inverse_spacing (ns_segments s ! n) = Fin (local_parameter ks n x)"
    using nz n n' by (simp add: spline_segment [OF f n] segment_of_nodes_def Let_def local_parameter_def k(2))
  then show ?thesis
    unfolding spline_locate_def Let_def
    using x lt u n' t by (simp add: d(10-12) k(1) ub snap_location_def local_parameter_snap_def)
qed

text \<open>Handing a spline's nodal slopes to the Hermite interpolant keeps the curve: on the general path the factory
  accepts them, and at every abscissa whose position in its segment is farther than the snapping tolerance from
  both ends the two evaluators give the same value.\<close>
theorem hermite_reproduces_spline:
  assumes "make_natural_spline knots values = Inr s" and "\<not> ns_is_uniform s"
    and "Suc n < length knots" "knots ! n < Fin x" "Fin x < knots ! Suc n"
    and "local_parameter_snap < (Fin x - knots ! n) / (knots ! Suc n - knots ! n)"
      "(Fin x - knots ! n) / (knots ! Suc n - knots ! n) < 1 - local_parameter_snap"
  shows "\<exists>i. from_nodal_slopes knots values (ns_nodal_slopes s) rule = Inr i
     \<and> ip_evaluate i (Fin x) = spline_evaluate s (Fin x)"
proof -
  from assms(1) obtain ks vs ds hs where k: "knots = map Fin ks" "values = map Fin vs" and f: "spline_from ks vs ds hs s"
    by (rule spline_built)
  note d = spline_fromD [OF f]
  from nodal_slopes_hand_over [OF assms(1,2)] obtain i where i: "from_nodal_slopes knots values (ns_nodal_slopes s) rule = Inr i"
    and seg: "ip_segments i = ns_segments s" .
  from i obtain ks' vs' ds' where "knots = map Fin ks'" "i = node_interpolant ks' vs' ds' rule" and nl: "node_lists ks' vs' ds'"
    by (rule from_nodal_slopes_Inr)
  moreover have "map Fin ks = map Fin ks' \<Longrightarrow> ks = ks'" by (simp add: inj_on_def list.inj_map_strong)
  ultimately have i': "i = node_interpolant ks vs' ds' rule" and nl': "node_lists ks vs' ds'" using k(1) by simp_all
  have n: "Suc n < length ks" "n < length ks - 1" "n < length ks" using assms(3) by (auto simp: k(1))
  have x: "ks ! n < x" "x < ks ! Suc n" using assms(4,5) n by (simp_all add: k(1))
  have x0: "ks ! 0 < x" using increasing_reals_le [OF d(4), of 0 n] n x by simp
  have "ks ! Suc n \<le> ks ! (length ks - 1)" using increasing_reals_le [OF d(4), of "Suc n" "length ks - 1"] n by simp
  then have xl: "x < ks ! (length ks - 1)" using x by simp
  have "ks ! Suc n - ks ! n \<noteq> 0" using x by simp
  then have "(Fin x - knots ! n) / (knots ! Suc n - knots ! n) = Fin (local_parameter ks n x)"
    using n by (simp add: k(1) local_parameter_def)
  then have t: "1 / 10 ^ 12 < local_parameter ks n x" "local_parameter ks n x < 1 - 1 / 10 ^ 12"
    using assms(6,7) by (simp_all add: local_parameter_snap_def)
  have "spline_evaluate s (Fin x) = segment_value (ns_segments s ! n) (Fin (local_parameter ks n x))"
    using x0 xl by (simp add: spline_evaluate_def spline_between [OF f assms(2) n(2) less_imp_le [OF x(1)] x(2) x0 t] d(11,12))
  moreover have "ip_evaluate i (Fin x) = segment_value (ip_segments i ! n) (Fin (local_parameter ks n x))"
    using locate_between [OF nl' n(1) less_imp_le [OF x(1)] x(2) x0]
      located_in_Fin [OF nl' n(1) less_imp_le [OF x(1)] less_imp_le [OF x(2)]]
    by (simp add: ip_evaluate_def i')
  ultimately show ?thesis using i seg by auto
qed

theorem hermite_reproduces_spline_witness:
  "\<exists>s i. make_natural_spline crown_knots crown_heights = Inr s
     \<and> from_nodal_slopes crown_knots crown_heights (ns_nodal_slopes s) HoldEndpointDerivative = Inr i
     \<and> ip_evaluate i (Fin 2) = spline_evaluate s (Fin 2)"
proof -
  obtain s where s: "make_natural_spline crown_knots crown_heights = Inr s" using crown_accepted by blast
  then obtain slopes where "s = stored_spline crown_knots crown_heights slopes"
    by (auto simp: spline_checks crown_usable crown_spacings crown_not_uniform bindS_eq_Inr)
  then have "\<not> ns_is_uniform s"
    using crown_not_uniform by (simp add: stored_spline_def crown_spacings Let_def)
  from hermite_reproduces_spline [OF s this, of 1 2 HoldEndpointDerivative] s show ?thesis
    by (auto simp: crown_knots_def local_parameter_snap_def)
qed

end
