(* ===== verification/Profile_Points.thy ===== *)
theory Profile_Points
  imports Natural_Spline Spatial_Math "HOL-Library.Multiset"
begin

section \<open>Profiles, gauge datum and track irregularity\<close>

text \<open>
  The shapes of \<open>libs/wheel_rail_contact\<close>: \<open>profile_points.cc\<close> (a profile as its author wrote it, resolved for a
  side of the track), \<open>rail_gauge_datum.cc\<close> (where a rail sits across the track), \<open>track_irregularity_field.cc\<close>.
  The lemmas show that resolving a side sorts the points without changing the shape, that the two sides are mirrors of
  each other, and when the two rails of a track are laid symmetrically.
\<close>

subsection \<open>Profile points\<close>

datatype profile_role = WheelProfile | RailProfile
datatype wheel_side = RightSide | LeftSide

record profile_points =
  pp_role :: profile_role
  pp_identifier :: string
  pp_lateral :: vec
  pp_vertical :: vec

record side_resolved_profile =
  srp_role :: profile_role
  srp_side :: wheel_side
  srp_lateral :: vec
  srp_vertical :: vec

definition keeps_direction :: "bool \<Rightarrow> vec \<Rightarrow> nat \<Rightarrow> bool" where
  "keeps_direction increases lateral i =
     (if increases then lateral ! (i - 1) < lateral ! i else lateral ! i < lateral ! (i - 1))"

definition from_authored_order :: "profile_role \<Rightarrow> string \<Rightarrow> vec \<Rightarrow> vec \<Rightarrow> profile_points outcome" where
  "from_authored_order role identifier lateral vertical =
     bindS (all_checks
       [reject_if (identifier = []) InvalidArgument,
        reject_if (length lateral \<noteq> length vertical) InvalidArgument,
        reject_if (length lateral < 2) InvalidArgument,
        reject_if (\<not> list_all (\<lambda>i. isfinite (lateral ! i) \<and> isfinite (vertical ! i)) [0..<length lateral]) InvalidArgument,
        reject_if (feq (lateral ! 1) (lateral ! 0)) InvalidArgument,
        reject_if (\<not> list_all (keeps_direction (lateral ! 0 < lateral ! 1) lateral) [1..<length lateral]) InvalidArgument])
     (\<lambda>_. Inr \<lparr>pp_role = role, pp_identifier = identifier, pp_lateral = lateral, pp_vertical = vertical\<rparr>)"

definition side_sign :: "wheel_side \<Rightarrow> double" where
  "side_sign side = (if side = LeftSide then - 1 else 1)"

text \<open>\<open>std::sort\<close> of the indices by their mirrored lateral coordinates, which are finite and pairwise different on every
  accepted profile.\<close>

definition resolved_order :: "profile_points \<Rightarrow> wheel_side \<Rightarrow> nat list" where
  "resolved_order p side = sort_key (\<lambda>i. to_real (side_sign side * pp_lateral p ! i)) [0..<length (pp_lateral p)]"

definition resolve_for_side :: "profile_points \<Rightarrow> wheel_side \<Rightarrow> side_resolved_profile" where
  "resolve_for_side p side =
     \<lparr>srp_role = pp_role p, srp_side = side,
      srp_lateral = map (\<lambda>i. side_sign side * pp_lateral p ! i) (resolved_order p side),
      srp_vertical = map (\<lambda>i. pp_vertical p ! i) (resolved_order p side)\<rparr>"

subsection \<open>Accepted profiles\<close>

definition monotone_reals :: "bool \<Rightarrow> real list \<Rightarrow> bool" where
  "monotone_reals up ys \<longleftrightarrow> (\<forall>i. Suc i < length ys \<longrightarrow> (if up then ys ! i < ys ! Suc i else ys ! Suc i < ys ! i))"

definition profile_of :: "bool \<Rightarrow> real list \<Rightarrow> real list \<Rightarrow> profile_points \<Rightarrow> bool" where
  "profile_of up ys zs p \<longleftrightarrow> pp_lateral p = map Fin ys \<and> pp_vertical p = map Fin zs \<and> length zs = length ys
     \<and> 2 \<le> length ys \<and> monotone_reals up ys"

lemma authored_profile:
  assumes "from_authored_order role identifier lateral vertical = Inr p"
  obtains up ys zs where "lateral = map Fin ys" "vertical = map Fin zs" "profile_of up ys zs p" "pp_role p = role"
proof -
  from assms have c: "length lateral = length vertical" "2 \<le> length lateral"
    and fin: "list_all (\<lambda>i. isfinite (lateral ! i) \<and> isfinite (vertical ! i)) [0..<length lateral]"
    and dir: "list_all (keeps_direction (lateral ! 0 < lateral ! 1) lateral) [1..<length lateral]"
    and p: "p = \<lparr>pp_role = role, pp_identifier = identifier, pp_lateral = lateral, pp_vertical = vertical\<rparr>"
    by (auto simp: from_authored_order_def bindS_eq_Inr reject_if_def split: if_splits)
  have "all_finite lateral" "all_finite vertical"
    using fin c(1) by (auto simp: all_finite_def list_all_length)
  then have F: "lateral = map Fin (map to_real lateral)" "vertical = map Fin (map to_real vertical)"
    by (simp_all only: map_Fin_to_real)
  define ys where "ys = map to_real lateral"
  define zs where "zs = map to_real vertical"
  have l: "lateral = map Fin ys" "vertical = map Fin zs" "length zs = length ys" "length ys = length lateral"
    using F c(1) by (simp_all add: ys_def zs_def)
  have "monotone_reals (lateral ! 0 < lateral ! 1) ys"
    unfolding monotone_reals_def
  proof (intro allI impI)
    fix i
    assume i: "Suc i < length ys"
    then have "keeps_direction (lateral ! 0 < lateral ! 1) lateral (Suc i)"
      using dir l(4) by (simp add: list_all_iff)
    then show "if lateral ! 0 < lateral ! 1 then ys ! i < ys ! Suc i else ys ! Suc i < ys ! i"
      using i by (auto simp: keeps_direction_def l(1) split: if_splits)
  qed
  moreover have "pp_lateral p = lateral" "pp_vertical p = vertical" "2 \<le> length ys" using c(2) l(4) by (simp_all add: p)
  ultimately have "profile_of (lateral ! 0 < lateral ! 1) ys zs p"
    unfolding profile_of_def using l(1-3) by metis
  then show thesis by (rule that [OF l(1,2)]) (simp add: p)
qed

lemma monotone_reals_less:
  assumes "monotone_reals up ys" "i < j" "j < length ys"
  shows "if up then ys ! i < ys ! j else ys ! j < ys ! i"
  using assms(2,3)
proof (induction j rule: less_induct)
  case (less j)
  then have j: "Suc (j - 1) = j" "Suc (j - 1) < length ys" by linarith+
  have step: "if up then ys ! (j - 1) < ys ! j else ys ! j < ys ! (j - 1)"
    using assms(1) j unfolding monotone_reals_def by metis
  show ?case
  proof (cases "i = j - 1")
    case True
    show ?thesis unfolding True by (rule step)
  next
    case False
    then have "if up then ys ! i < ys ! (j - 1) else ys ! (j - 1) < ys ! i" using less j by simp
    then show ?thesis using step by (auto split: if_splits)
  qed
qed

text \<open>The order of the points: the authored one or its reverse.\<close>

lemma sort_key_upt:
  fixes f :: "nat \<Rightarrow> real"
  assumes "\<And>i j. i < j \<Longrightarrow> j < n \<Longrightarrow> f i < f j"
  shows "sort_key f [0..<n] = [0..<n]"
proof (rule sort_key_inj_key_eq)
  show "inj_on f (set [0..<n])"
    using assms by (auto simp: inj_on_def) (metis less_irrefl nat_neq_iff)
  show "sorted (map f [0..<n])"
    using assms by (auto simp: sorted_iff_nth_mono le_less)
qed simp

lemma sort_key_upt_rev:
  fixes f :: "nat \<Rightarrow> real"
  assumes "\<And>i j. i < j \<Longrightarrow> j < n \<Longrightarrow> f j < f i"
  shows "sort_key f [0..<n] = rev [0..<n]"
proof (rule sort_key_inj_key_eq)
  show "inj_on f (set [0..<n])"
    using assms by (auto simp: inj_on_def) (metis less_irrefl nat_neq_iff)
  have "f (n - Suc i) \<le> f (n - Suc j)" if "i \<le> j" "j < n" for i j
  proof (cases "i = j")
    case False
    then have "n - Suc j < n - Suc i" "n - Suc i < n" using that by linarith+
    from assms [OF this] show ?thesis by simp
  qed simp
  then show "sorted (map f (rev [0..<n]))" by (auto simp: sorted_iff_nth_mono rev_nth)
qed simp

lemma resolved_order_cases:
  assumes "profile_of up ys zs p"
  shows "resolved_order p side = (if up = (side = RightSide) then [0..<length ys] else rev [0..<length ys])"
proof -
  have l: "pp_lateral p = map Fin ys" and m: "monotone_reals up ys" using assms by (simp_all add: profile_of_def)
  note less = monotone_reals_less [OF m]
  have key: "to_real (side_sign side * pp_lateral p ! i) = (if side = LeftSide then - ys ! i else ys ! i)"
    if "i < length ys" for i using that by (simp add: l side_sign_def)
  show ?thesis
  proof (cases "up = (side = RightSide)")
    case True
    have "resolved_order p side = [0..<length ys]"
      unfolding resolved_order_def l length_map
    proof (rule sort_key_upt)
      fix i j
      assume ij: "i < j" "j < length ys"
      then show "to_real (side_sign side * map Fin ys ! i) < to_real (side_sign side * map Fin ys ! j)"
        using less [OF ij] True key [of i] key [of j] by (cases side) (auto simp: l split: if_splits)
    qed
    then show ?thesis using True by simp
  next
    case False
    have "resolved_order p side = rev [0..<length ys]"
      unfolding resolved_order_def l length_map
    proof (rule sort_key_upt_rev)
      fix i j
      assume ij: "i < j" "j < length ys"
      then show "to_real (side_sign side * map Fin ys ! j) < to_real (side_sign side * map Fin ys ! i)"
        using less [OF ij] False key [of i] key [of j] by (cases side) (auto simp: l split: if_splits)
    qed
    then show ?thesis using False by simp
  qed
qed

subsection \<open>The two sides of a profile\<close>

lemma resolved_right:
  assumes "profile_of up ys zs p"
  shows "srp_lateral (resolve_for_side p RightSide) = map Fin (if up then ys else rev ys)"
    "srp_vertical (resolve_for_side p RightSide) = map Fin (if up then zs else rev zs)"
proof -
  have l: "pp_lateral p = map Fin ys" "pp_vertical p = map Fin zs" "length zs = length ys"
    using assms by (simp_all add: profile_of_def)
  have sy: "map (\<lambda>i. side_sign RightSide * pp_lateral p ! i) [0..<length ys] = map Fin ys"
    and sz: "map (\<lambda>i. pp_vertical p ! i) [0..<length ys] = map Fin zs"
    by (rule nth_equalityI; simp add: l side_sign_def)+
  have o': "resolved_order p RightSide = (if up then [0..<length ys] else rev [0..<length ys])"
    using resolved_order_cases [OF assms, of RightSide] by simp
  show "srp_lateral (resolve_for_side p RightSide) = map Fin (if up then ys else rev ys)"
    unfolding resolve_for_side_def side_resolved_profile.simps o'
    using sy by (cases up) (simp_all only: if_True if_False rev_map [symmetric])
  show "srp_vertical (resolve_for_side p RightSide) = map Fin (if up then zs else rev zs)"
    unfolding resolve_for_side_def side_resolved_profile.simps o'
    using sz by (cases up) (simp_all only: if_True if_False rev_map [symmetric])
qed

lemma resolved_left:
  assumes "profile_of up ys zs p"
  shows "srp_lateral (resolve_for_side p LeftSide) = map uminus (rev (srp_lateral (resolve_for_side p RightSide)))"
    "srp_vertical (resolve_for_side p LeftSide) = rev (srp_vertical (resolve_for_side p RightSide))"
proof -
  have l: "pp_lateral p = map Fin ys" using assms by (simp_all add: profile_of_def)
  have o': "resolved_order p LeftSide = rev (resolved_order p RightSide)"
    using resolved_order_cases [OF assms] by simp
  have s: "set (resolved_order p RightSide) \<subseteq> {..<length ys}"
    using resolved_order_cases [OF assms, of RightSide] by auto
  have "map (\<lambda>i. side_sign LeftSide * pp_lateral p ! i) (rev (resolved_order p RightSide))
      = map (uminus \<circ> (\<lambda>i. side_sign RightSide * pp_lateral p ! i)) (rev (resolved_order p RightSide))"
    using s by (intro map_cong) (auto simp: l side_sign_def)
  then show "srp_lateral (resolve_for_side p LeftSide) = map uminus (rev (srp_lateral (resolve_for_side p RightSide)))"
    by (simp only: resolve_for_side_def o' rev_map map_map side_resolved_profile.simps)
  show "srp_vertical (resolve_for_side p LeftSide) = rev (srp_vertical (resolve_for_side p RightSide))"
    by (simp add: resolve_for_side_def o' rev_map)
qed

lemma resolved_increasing:
  assumes "profile_of up ys zs p"
  shows "strictly_increasing_nodes (srp_lateral (resolve_for_side p side))"
    "length (srp_lateral (resolve_for_side p side)) = length ys"
    "length (srp_vertical (resolve_for_side p side)) = length ys"
    "all_finite (srp_lateral (resolve_for_side p side))" "all_finite (srp_vertical (resolve_for_side p side))"
proof -
  have m: "monotone_reals up ys" and l: "length zs = length ys" using assms by (simp_all add: profile_of_def)
  define ks where "ks = (if up then ys else rev ys)"
  have r: "srp_lateral (resolve_for_side p RightSide) = map Fin ks"
    and rv: "srp_vertical (resolve_for_side p RightSide) = map Fin (if up then zs else rev zs)"
    using resolved_right [OF assms] by (simp_all add: ks_def)
  have kl: "length ks = length ys" by (simp add: ks_def)
  have inc: "increasing_reals ks"
    unfolding increasing_reals_def
  proof (intro allI impI)
    fix n
    assume n: "Suc n < length ks"
    show "ks ! n < ks ! Suc n"
    proof (cases up)
      case True
      then show ?thesis using m n by (simp add: ks_def monotone_reals_def)
    next
      case False
      have e: "Suc (length ys - Suc (Suc n)) = length ys - Suc n" "Suc (length ys - Suc (Suc n)) < length ys"
        using n kl by linarith+
      have "ys ! Suc (length ys - Suc (Suc n)) < ys ! (length ys - Suc (Suc n))"
        using m False e(2) unfolding monotone_reals_def by (metis (full_types))
      then show ?thesis using n kl False unfolding e(1) by (simp add: ks_def rev_nth)
    qed
  qed
  have neg: "increasing_reals (map uminus (rev ks))"
    unfolding increasing_reals_def
  proof (intro allI impI)
    fix n
    assume n: "Suc n < length (map uminus (rev ks))"
    then have "Suc (length ks - Suc (Suc n)) = length ks - Suc n" "Suc (length ks - Suc (Suc n)) < length ks" by auto
    then have "ks ! (length ks - Suc (Suc n)) < ks ! (length ks - Suc n)" using inc unfolding increasing_reals_def by metis
    then show "map uminus (rev ks) ! n < map uminus (rev ks) ! Suc n" using n by (simp add: rev_nth)
  qed
  have left: "srp_lateral (resolve_for_side p LeftSide) = map Fin (map uminus (rev ks))"
    by (simp add: resolved_left(1) [OF assms] r rev_map)
  show "strictly_increasing_nodes (srp_lateral (resolve_for_side p side))"
    by (cases side) (simp_all only: r left strictly_increasing_Fin inc neg)
  show "length (srp_lateral (resolve_for_side p side)) = length ys"
    by (cases side) (simp_all add: r left kl)
  show "length (srp_vertical (resolve_for_side p side)) = length ys"
    by (cases side) (simp_all add: rv resolved_left(2) [OF assms] l)
  show "all_finite (srp_lateral (resolve_for_side p side))" by (cases side) (simp_all only: r left finite_map_Fin)
  show "all_finite (srp_vertical (resolve_for_side p side))"
    by (cases side) (simp_all only: rv resolved_left(2) [OF assms] finite_map_Fin rev_map)
qed

subsection \<open>The gauge datum of a rail\<close>

record rail_gauge_datum =
  gauge_face_offset :: double
  lateral_datum :: double
  datum_roll :: double

definition min_element :: "vec \<Rightarrow> double" where
  "min_element xs = fold (\<lambda>x least. if x < least then x else least) (tl xs) (hd xs)"

definition max_element :: "vec \<Rightarrow> double" where
  "max_element xs = fold (\<lambda>x greatest. if greatest < x then x else greatest) (tl xs) (hd xs)"

definition laid_roll :: "double \<Rightarrow> wheel_side \<Rightarrow> double" where
  "laid_roll cant side = (if side = RightSide then - cant else cant)"

definition rolled_profile :: "vec \<Rightarrow> vec \<Rightarrow> double \<Rightarrow> vec \<times> vec" where
  "rolled_profile lateral vertical roll =
     (let cosine = std_cos roll; sine = std_sin roll
      in (map (\<lambda>i. cosine * lateral ! i - sine * vertical ! i) [0..<length lateral],
          map (\<lambda>i. sine * lateral ! i + cosine * vertical ! i) [0..<length lateral]))"

text \<open>\<open>sorter\<close> stands for \<open>std::sort\<close>: the indices in an order in which the rolled lateral coordinates do not
  decrease; the library leaves the order of equal coordinates open.\<close>

definition level_crossings :: "nat list \<Rightarrow> vec \<Rightarrow> vec \<Rightarrow> double \<Rightarrow> vec" where
  "level_crossings order lateral vertical level =
     concat (map (\<lambda>i. let here = order ! i; next_point = order ! (i + 1);
                          below = vertical ! here - level; above = vertical ! next_point - level
                      in if 0 < below * above then []
                         else let left = lateral ! here; right = lateral ! next_point
                              in [if feq above below then half * (left + right)
                                  else left + (0 - below) * (right - left) / (above - below)])
                 [0..<length lateral - 1])"

definition compute_rail_gauge_datum ::
  "(vec \<Rightarrow> nat list) \<Rightarrow> profile_points \<Rightarrow> double \<Rightarrow> double \<Rightarrow> double \<Rightarrow> wheel_side \<Rightarrow> rail_gauge_datum outcome" where
  "compute_rail_gauge_datum sorter p track_gauge measuring_depth cant side =
     bindS (all_checks
       [reject_if (pp_role p \<noteq> RailProfile) InvalidArgument,
        reject_if (\<not> isfinite track_gauge \<or> \<not> 0 < track_gauge) InvalidArgument,
        reject_if (\<not> isfinite measuring_depth \<or> \<not> 0 < measuring_depth) InvalidArgument,
        reject_if (\<not> isfinite cant) InvalidArgument]) (\<lambda>_.
     let roll = laid_roll cant side
     in case rolled_profile (pp_lateral p) (pp_vertical p) roll of (lateral, vertical) \<Rightarrow>
        let level = min_element vertical + measuring_depth;
            crossings = level_crossings (sorter lateral) lateral vertical level
        in bindS (reject_if (crossings = []) InvalidArgument) (\<lambda>_.
           let face = (if side = RightSide then min_element crossings else max_element crossings);
               offset = (if side = RightSide then - face else face)
           in Inr \<lparr>gauge_face_offset = offset,
                   lateral_datum = (if side = RightSide then half * track_gauge + offset else - (half * track_gauge + offset)),
                   datum_roll = roll\<rparr>))"

subsection \<open>Track irregularity\<close>

record irregularity_channel =
  ch_spline :: natural_spline
  ch_start :: double
  ch_end :: double

record irregularity_field =
  if_lateral :: irregularity_channel
  if_vertical :: irregularity_channel
  if_gauge :: "irregularity_channel option"
  if_roll :: "irregularity_channel option"

definition make_channel :: "vec \<Rightarrow> vec \<Rightarrow> irregularity_channel outcome" where
  "make_channel stations values =
     bindS (make_natural_spline stations values) (\<lambda>s.
       Inr \<lparr>ch_spline = s, ch_start = hd stations, ch_end = last stations\<rparr>)"

definition make_field :: "vec \<Rightarrow> vec \<Rightarrow> vec \<Rightarrow> vec \<Rightarrow> irregularity_field outcome" where
  "make_field lateral_stations lateral_values vertical_stations vertical_values =
     bindS (make_channel lateral_stations lateral_values) (\<lambda>lateral.
     bindS (make_channel vertical_stations vertical_values) (\<lambda>vertical.
       Inr \<lparr>if_lateral = lateral, if_vertical = vertical, if_gauge = None, if_roll = None\<rparr>))"

definition make_optional_channel :: "vec \<Rightarrow> vec \<Rightarrow> irregularity_channel option outcome" where
  "make_optional_channel stations values =
     (if stations = [] then Inr None else bindS (make_channel stations values) (\<lambda>c. Inr (Some c)))"

definition make_full_field ::
  "vec \<Rightarrow> vec \<Rightarrow> vec \<Rightarrow> vec \<Rightarrow> vec \<Rightarrow> vec \<Rightarrow> vec \<Rightarrow> vec \<Rightarrow> irregularity_field outcome" where
  "make_full_field lateral_stations lateral_values vertical_stations vertical_values
     gauge_stations gauge_values roll_stations roll_values =
     bindS (make_field lateral_stations lateral_values vertical_stations vertical_values) (\<lambda>field.
     bindS (reject_if ((gauge_stations = []) \<noteq> (gauge_values = []) \<or> (roll_stations = []) \<noteq> (roll_values = []))
              InvalidArgument) (\<lambda>_.
     bindS (make_optional_channel gauge_stations gauge_values) (\<lambda>gauge.
     bindS (make_optional_channel roll_stations roll_values) (\<lambda>roll.
       Inr (field\<lparr>if_gauge := gauge, if_roll := roll\<rparr>)))))"

definition channel_value :: "irregularity_channel \<Rightarrow> double \<Rightarrow> double" where
  "channel_value c station =
     (if station < ch_start c \<or> ch_end c < station then 0 else spline_evaluate (ch_spline c) station)"

definition channel_slope :: "irregularity_channel \<Rightarrow> double \<Rightarrow> double" where
  "channel_slope c station =
     (if station < ch_start c \<or> ch_end c < station then 0 else spline_first_derivative (ch_spline c) station)"

definition optional_value :: "irregularity_channel option \<Rightarrow> double \<Rightarrow> double" where
  "optional_value c station = (case c of None \<Rightarrow> 0 | Some ch \<Rightarrow> channel_value ch station)"

definition optional_slope :: "irregularity_channel option \<Rightarrow> double \<Rightarrow> double" where
  "optional_slope c station = (case c of None \<Rightarrow> 0 | Some ch \<Rightarrow> channel_slope ch station)"

definition lateral_displacement :: "irregularity_field \<Rightarrow> double \<Rightarrow> double" where
  "lateral_displacement f = channel_value (if_lateral f)"

definition vertical_displacement :: "irregularity_field \<Rightarrow> double \<Rightarrow> double" where
  "vertical_displacement f = channel_value (if_vertical f)"

definition lateral_slope :: "irregularity_field \<Rightarrow> double \<Rightarrow> double" where
  "lateral_slope f = channel_slope (if_lateral f)"

definition vertical_slope :: "irregularity_field \<Rightarrow> double \<Rightarrow> double" where
  "vertical_slope f = channel_slope (if_vertical f)"

definition gauge_narrowing :: "irregularity_field \<Rightarrow> double \<Rightarrow> double" where
  "gauge_narrowing f = optional_value (if_gauge f)"

definition gauge_slope :: "irregularity_field \<Rightarrow> double \<Rightarrow> double" where
  "gauge_slope f = optional_slope (if_gauge f)"

definition roll_radians :: "irregularity_field \<Rightarrow> double \<Rightarrow> double" where
  "roll_radians f = optional_value (if_roll f)"

definition roll_slope :: "irregularity_field \<Rightarrow> double \<Rightarrow> double" where
  "roll_slope f = optional_slope (if_roll f)"

subsection \<open>Properties\<close>

lemma resolved_usable:
  assumes "profile_of up ys zs p"
  shows "spline_nodes_usable (srp_lateral (resolve_for_side p side)) (srp_vertical (resolve_for_side p side))"
  using resolved_increasing [OF assms, of side] assms by (simp add: spline_nodes_usable_def profile_of_def)

text \<open>Resolving an accepted profile for a side changes its order and its mirror image, never its shape: the right side is
  the authored list or its reverse, the left side is the exact mirror image of the right one, and either side has every point,
  strictly increasing lateral coordinates, and is accepted as the nodes of a spline.\<close>
theorem sides_are_mirrors:
  assumes "from_authored_order role identifier lateral vertical = Inr p"
  shows "(srp_lateral (resolve_for_side p RightSide) = lateral \<and> srp_vertical (resolve_for_side p RightSide) = vertical
            \<or> srp_lateral (resolve_for_side p RightSide) = rev lateral \<and> srp_vertical (resolve_for_side p RightSide) = rev vertical)
     \<and> srp_lateral (resolve_for_side p LeftSide) = map uminus (rev (srp_lateral (resolve_for_side p RightSide)))
     \<and> srp_vertical (resolve_for_side p LeftSide) = rev (srp_vertical (resolve_for_side p RightSide))
     \<and> (\<forall>side. spline_nodes_usable (srp_lateral (resolve_for_side p side)) (srp_vertical (resolve_for_side p side)))"
proof -
  from assms obtain up ys zs where F: "lateral = map Fin ys" "vertical = map Fin zs" and p: "profile_of up ys zs p"
    by (rule authored_profile)
  show ?thesis
    using resolved_right [OF p] resolved_left [OF p] resolved_usable [OF p]
    by (cases up) (simp_all add: F rev_map)
qed

definition falling_rail :: "profile_points outcome" where
  "falling_rail = from_authored_order RailProfile ''rail'' [Fin 2, Fin 0, Fin (- 1)] [Fin 2, Fin 0, Fin 2]"

lemma falling_rail_accepted:
  "falling_rail = Inr \<lparr>pp_role = RailProfile, pp_identifier = ''rail'', pp_lateral = [Fin 2, Fin 0, Fin (- 1)],
     pp_vertical = [Fin 2, Fin 0, Fin 2]\<rparr>"
  by (simp add: falling_rail_def from_authored_order_def reject_if_def keeps_direction_def upt_rec)

theorem sides_are_mirrors_witness:
  "\<exists>p. falling_rail = Inr p \<and> srp_lateral (resolve_for_side p LeftSide) = map uminus (rev (srp_lateral (resolve_for_side p RightSide)))"
proof -
  obtain p where p: "falling_rail = Inr p" using falling_rail_accepted by blast
  show ?thesis using sides_are_mirrors [OF p [unfolded falling_rail_def]] p by blast
qed

text \<open>The two rails of a track are laid from the same authored profile, while the left rail's surface is its mirror
  image.  On a profile that is not symmetric the left datum is therefore read off the wrong face: here, without cant, the
  mirrored left rail has its gauge face one half from its origin, and its datum assumes one.\<close>

definition ascending_order :: "vec \<Rightarrow> nat list" where
  "ascending_order lateral = sort_key (\<lambda>i. to_real (lateral ! i)) [0..<length lateral]"

lemma falling_rail_order:
  "ascending_order [Fin 2, Fin 0, Fin (- 1)] = [2, Suc 0, 0]"
  by (simp add: ascending_order_def upt_rec numeral_2_eq_2)

lemma falling_rail_crossings:
  "level_crossings [2, Suc 0, 0] [Fin 2, Fin 0, Fin (- 1)] [Fin 2, Fin 0, Fin 2] (Fin 1) = [Fin (- 1 / 2), Fin 1]"
  by (simp add: level_crossings_def upt_rec numeral_2_eq_2 Let_def)

lemma falling_rail_rolled:
  "rolled_profile [Fin 2, Fin 0, Fin (- 1)] [Fin 2, Fin 0, Fin 2] (Fin 0)
     = ([Fin 2, Fin 0, Fin (- 1)], [Fin 2, Fin 0, Fin 2])"
  by (simp add: rolled_profile_def upt_rec numeral_2_eq_2 Let_def)

lemma asymmetric_rails_off_gauge:
  assumes "falling_rail = Inr p" and g: "0 < g"
  shows "compute_rail_gauge_datum ascending_order p (Fin g) (Fin 1) (Fin 0) RightSide
       = Inr \<lparr>gauge_face_offset = Fin (1 / 2), lateral_datum = Fin (g / 2 + 1 / 2), datum_roll = Fin 0\<rparr>"
    and "compute_rail_gauge_datum ascending_order p (Fin g) (Fin 1) (Fin 0) LeftSide
       = Inr \<lparr>gauge_face_offset = Fin 1, lateral_datum = Fin (- (g / 2 + 1)), datum_roll = Fin 0\<rparr>"
proof -
  have p: "pp_role p = RailProfile" "pp_lateral p = [Fin 2, Fin 0, Fin (- 1)]" "pp_vertical p = [Fin 2, Fin 0, Fin 2]"
    using assms(1) unfolding falling_rail_accepted by (simp_all add: eq_commute [of _ p])
  have level: "min_element [Fin 2, Fin 0, Fin 2] + Fin 1 = Fin 1" by (simp add: min_element_def)
  have roll: "laid_roll (Fin 0) side = Fin 0" for side by (simp add: laid_roll_def)
  show "compute_rail_gauge_datum ascending_order p (Fin g) (Fin 1) (Fin 0) RightSide
       = Inr \<lparr>gauge_face_offset = Fin (1 / 2), lateral_datum = Fin (g / 2 + 1 / 2), datum_roll = Fin 0\<rparr>"
    using g by (simp add: compute_rail_gauge_datum_def p roll falling_rail_rolled level falling_rail_order
        falling_rail_crossings reject_if_def Let_def min_element_def)
  show "compute_rail_gauge_datum ascending_order p (Fin g) (Fin 1) (Fin 0) LeftSide
       = Inr \<lparr>gauge_face_offset = Fin 1, lateral_datum = Fin (- (g / 2 + 1)), datum_roll = Fin 0\<rparr>"
    using g by (simp add: compute_rail_gauge_datum_def p roll falling_rail_rolled level falling_rail_order
        falling_rail_crossings reject_if_def Let_def max_element_def)
qed

text \<open>An irregularity channel is supported on its own stations: it is exactly zero, with zero slope, strictly outside
  them, and inside it is the natural spline through its samples; a field built without gauge and roll channels has neither.\<close>
theorem irregularity_support:
  assumes "make_field ls lv vs vv = Inr f"
  shows "(\<forall>x. x < hd ls \<or> last ls < x \<longrightarrow> lateral_displacement f x = 0 \<and> lateral_slope f x = 0)
    \<and> (\<forall>x. x < hd vs \<or> last vs < x \<longrightarrow> vertical_displacement f x = 0 \<and> vertical_slope f x = 0)
    \<and> (\<exists>s. make_natural_spline ls lv = Inr s \<and>
         (\<forall>x. hd ls \<le> x \<and> x \<le> last ls \<longrightarrow> lateral_displacement f x = spline_evaluate s x
                                        \<and> lateral_slope f x = spline_first_derivative s x))
    \<and> (\<exists>s. make_natural_spline vs vv = Inr s \<and>
         (\<forall>x. hd vs \<le> x \<and> x \<le> last vs \<longrightarrow> vertical_displacement f x = spline_evaluate s x
                                        \<and> vertical_slope f x = spline_first_derivative s x))
    \<and> (\<forall>x. gauge_narrowing f x = 0 \<and> gauge_slope f x = 0 \<and> roll_radians f x = 0 \<and> roll_slope f x = 0)"
proof -
  have in_range: "\<not> x < a" "\<not> b < x" if "a \<le> x" "x \<le> b" for a b x :: double
    using that by (cases x; cases a; cases b; simp add: less_double_def less_eq_double_def)+
  from assms obtain s t where s: "make_natural_spline ls lv = Inr s" and t: "make_natural_spline vs vv = Inr t"
    and f: "f = \<lparr>if_lateral = \<lparr>ch_spline = s, ch_start = hd ls, ch_end = last ls\<rparr>,
                 if_vertical = \<lparr>ch_spline = t, ch_start = hd vs, ch_end = last vs\<rparr>, if_gauge = None, if_roll = None\<rparr>"
    by (auto simp: make_field_def make_channel_def bindS_eq_Inr)
  show ?thesis
    using s t in_range
    by (auto simp: f lateral_displacement_def lateral_slope_def vertical_displacement_def vertical_slope_def
        channel_value_def channel_slope_def gauge_narrowing_def gauge_slope_def roll_radians_def roll_slope_def
        optional_value_def optional_slope_def)
qed

theorem irregularity_support_witness:
  "\<exists>f. make_field crown_knots crown_heights crown_knots crown_heights = Inr f \<and> lateral_displacement f (Fin 4) = 0
     \<and> roll_slope f (Fin 4) = 0"
proof -
  obtain s where s: "make_natural_spline crown_knots crown_heights = Inr s" using crown_accepted by blast
  then obtain f where f: "make_field crown_knots crown_heights crown_knots crown_heights = Inr f"
    by (auto simp: make_field_def make_channel_def)
  show ?thesis using irregularity_support [OF f] f by (auto simp: crown_ends)
qed

end
