(* ===== verification/Wheel_Preparation.thy ===== *)
theory Wheel_Preparation
  imports Profile_Points
begin

section \<open>Preparation of a wheel profile\<close>

text \<open>
  \<open>profile_arc_length.cc\<close> and \<open>wheel_profile_preprocessing.cc\<close> of \<open>libs/wheel_rail_contact\<close>: the arc length of a
  spline by Gauss-Legendre quadrature, its inversion by bisection, the control nodes laid at equal arc length and the sampled
  outline.  The loop over control nodes has no bound of its own and is a partial function.  The lemmas show that
  quadrature never loses length, that a bisection brackets its target, and that the loop over the nodes ends with the stations
  the step asks for.
\<close>

subsection \<open>Arc length\<close>

definition gauss_legendre_abscissae :: vec where
  "gauss_legendre_abscissae =
     map (\<lambda>n. Fin (real_of_int n / 10 ^ 33))
       [95012509837637440185319335424958, 281603550779258913230460501460496,
        458016777657227386342419442983577, 617876244402643748446671764048791,
        755404408355003033895101194847442, 865631202387831743880467897712393,
        944575023073232576077988415534608, 989400934991649932596154173450333]"

definition gauss_legendre_weights :: vec where
  "gauss_legendre_weights =
     map (\<lambda>n. Fin (real_of_int n / 10 ^ 33))
       [189450610455068496285396723208283, 182603415044923588866763667969219,
        169156519395002538189312079030359, 149595988816576732081501730547479,
        124628971255533872052476282192017, 95158511682492784809925107602246,
        62253523938647892862843836994378, 27152459411754094851780572456018]"

definition bracket_halving_count :: nat where "bracket_halving_count = 64"

definition integrate_arc_length :: "natural_spline \<Rightarrow> double \<Rightarrow> double \<Rightarrow> double" where
  "integrate_arc_length s a b =
     (if \<not> a < b then 0
      else let midpoint = half * (a + b);
               half_width = half * (b - a);
               weighted = foldl (\<lambda>acc n.
                 let offset = half_width * gauss_legendre_abscissae ! n;
                     below = std_hypot 1 (spline_first_derivative s (midpoint - offset));
                     above = std_hypot 1 (spline_first_derivative s (midpoint + offset))
                 in acc + gauss_legendre_weights ! n * (below + above)) 0 [0..<length gauss_legendre_abscissae]
           in half_width * weighted)"

definition accumulate_arc_length :: "natural_spline \<Rightarrow> vec \<Rightarrow> vec outcome" where
  "accumulate_arc_length s knots =
     bindS (all_checks
       [reject_if (length knots < 2) InvalidArgument,
        reject_if (\<not> list_all (\<lambda>n. knots ! n < knots ! Suc n) [0..<length knots - 1]) InvalidArgument]) (\<lambda>_.
     Inr (foldl (\<lambda>cumulative n. cumulative @ [last cumulative + integrate_arc_length s (knots ! n) (knots ! Suc n)])
            [0] [0..<length knots - 1]))"

primrec bracket_halvings :: "nat \<Rightarrow> natural_spline \<Rightarrow> double \<Rightarrow> double \<Rightarrow> double \<Rightarrow> double \<Rightarrow> double \<times> double" where
  "bracket_halvings 0 s origin target lower upper = (lower, upper)"
| "bracket_halvings (Suc n) s origin target lower upper =
     (let midpoint = half * (lower + upper)
      in if integrate_arc_length s origin midpoint < target then bracket_halvings n s origin target midpoint upper
         else bracket_halvings n s origin target lower midpoint)"

definition find_lateral :: "natural_spline \<Rightarrow> vec \<Rightarrow> vec \<Rightarrow> double \<Rightarrow> double outcome" where
  "find_lateral s knots cumulative target =
     bindS (all_checks
       [reject_if (length cumulative \<noteq> length knots) InvalidArgument,
        reject_if (length knots < 2) InvalidArgument,
        reject_if (\<not> isfinite target \<or> target < hd cumulative \<or> last cumulative < target) InvalidArgument]) (\<lambda>_.
     let interval = min (upper_bound cumulative target - 1) (length knots - 2)
     in case bracket_halvings bracket_halving_count s (knots ! interval) (target - cumulative ! interval)
               (knots ! interval) (knots ! Suc interval) of
          (lower, upper) \<Rightarrow> Inr (half * (lower + upper)))"

subsection \<open>Control nodes\<close>

record control_nodes =
  cn_lateral :: vec
  cn_vertical :: vec
  cn_total_arc_length :: double

definition make_preparation :: "double \<Rightarrow> double outcome" where
  "make_preparation rescan =
     bindS (reject_if (\<not> isfinite rescan \<or> rescan < 0) InvalidArgument) (\<lambda>_. Inr rescan)"

definition require_wheel_profile :: "profile_points \<Rightarrow> unit outcome" where
  "require_wheel_profile p = reject_if (pp_role p \<noteq> WheelProfile) InvalidArgument"

definition rescan_end_tolerance :: "double \<Rightarrow> double \<Rightarrow> double" where
  "rescan_end_tolerance curve_length step = 16 * double_epsilon * std_max (std_max 1 \<bar>curve_length\<bar>) \<bar>step\<bar>"

text \<open>The interior stations: from one station on, the laterals and heights until the target reaches the end.\<close>

partial_function (option) lay_stations ::
    "natural_spline \<Rightarrow> vec \<Rightarrow> vec \<Rightarrow> double \<Rightarrow> double \<Rightarrow> nat \<Rightarrow> (vec \<times> vec) outcome option" where
  "lay_stations s knots cumulative step end_of_curve station =
     (let target = Fin (real station) * step
      in if end_of_curve \<le> target then Some (Inr ([], []))
         else case find_lateral s knots cumulative target of
                Inl e \<Rightarrow> Some (Inl e)
              | Inr x \<Rightarrow>
                  Option.bind (lay_stations s knots cumulative step end_of_curve (Suc station)) (\<lambda>rest.
                    Some (bindS rest (\<lambda>(lateral, vertical). Inr (x # lateral, spline_evaluate s x # vertical)))))"

definition lay_control_nodes :: "double \<Rightarrow> profile_points \<Rightarrow> wheel_side \<Rightarrow> control_nodes outcome option" where
  "lay_control_nodes step authored side =
     (case require_wheel_profile authored of
        Inl e \<Rightarrow> Some (Inl e)
      | Inr _ \<Rightarrow>
        if feq step 0 then Some (Inr \<lparr>cn_lateral = [], cn_vertical = [], cn_total_arc_length = 0\<rparr>)
        else let physical = resolve_for_side authored RightSide; ys = srp_lateral physical; zs = srp_vertical physical
             in case bindS (make_natural_spline ys zs) (\<lambda>s. bindS (accumulate_arc_length s ys) (\<lambda>cumulative. Inr (s, cumulative))) of
                  Inl e \<Rightarrow> Some (Inl e)
                | Inr (s, cumulative) \<Rightarrow>
                    let curve_length = last cumulative
                    in if \<not> isfinite curve_length \<or> \<not> 0 < curve_length then Some (Inl InvalidArgument)
                       else Option.bind
                              (lay_stations s ys cumulative step (curve_length - rescan_end_tolerance curve_length step) 1) (\<lambda>laid.
                            Some (bindS laid (\<lambda>(inner_lateral, inner_vertical).
                              let lateral = hd ys # inner_lateral @ [last ys];
                                  vertical = hd zs # inner_vertical @ [last zs]
                              in Inr (if side = LeftSide
                                      then \<lparr>cn_lateral = map uminus (rev lateral), cn_vertical = rev vertical,
                                            cn_total_arc_length = curve_length\<rparr>
                                      else \<lparr>cn_lateral = lateral, cn_vertical = vertical,
                                            cn_total_arc_length = curve_length\<rparr>)))))"

subsection \<open>The visible outline\<close>

record profile_outline =
  po_station :: vec
  po_height :: vec
  po_slope :: vec

definition sample_stations :: "double \<Rightarrow> double \<Rightarrow> nat \<Rightarrow> vec" where
  "sample_stations first last_one sample_count =
     map (\<lambda>i. first + (last_one - first) * (Fin (real i) / Fin (real (sample_count - 1)))) [0..<sample_count]"

definition outline_of :: "natural_spline \<Rightarrow> vec \<Rightarrow> profile_outline" where
  "outline_of s stations =
     \<lparr>po_station = stations, po_height = map (spline_evaluate s) stations,
      po_slope = map (spline_first_derivative s) stations\<rparr>"

definition sample_visible_outline :: "double \<Rightarrow> profile_points \<Rightarrow> wheel_side \<Rightarrow> nat \<Rightarrow> profile_outline outcome option" where
  "sample_visible_outline step authored side sample_count =
     (case all_checks [require_wheel_profile authored, reject_if (sample_count < 2) InvalidArgument] of
        Inl e \<Rightarrow> Some (Inl e)
      | Inr _ \<Rightarrow>
        Option.bind (lay_control_nodes step authored side) (\<lambda>laid.
        Some (bindS laid (\<lambda>nodes.
          if 0 < step then
            bindS (make_natural_spline (cn_lateral nodes) (cn_vertical nodes)) (\<lambda>second_pass.
            Inr (outline_of second_pass (sample_stations (hd (cn_lateral nodes)) (last (cn_lateral nodes)) sample_count)))
          else
            let resolved = resolve_for_side authored side
            in bindS (make_natural_spline (srp_lateral resolved) (srp_vertical resolved)) (\<lambda>surface.
               Inr (outline_of surface (sample_stations (hd (srp_lateral resolved)) (last (srp_lateral resolved)) sample_count)))))))"

subsection \<open>A spline is finite wherever it is asked\<close>

lemma spline_location:
  assumes f: "spline_from ks vs ds hs s"
  shows "\<exists>i t. spline_locate s (Fin x) = \<lparr>loc_segment = i, loc_parameter = Fin t\<rparr> \<and> i < length (ns_segments s)"
proof -
  note d = spline_fromD [OF f]
  define n where "n = length (ns_segments s)"
  have n: "0 < n" "n - 1 < n" using d(1,10) by (auto simp: n_def)
  have snap: "\<exists>i t'. snap_location s seg (Fin t) = \<lparr>loc_segment = i, loc_parameter = Fin t'\<rparr> \<and> i < n" if "seg < n" for seg t
    using that n by (auto simp: snap_location_def Let_def n_def [symmetric])
  show ?thesis
  proof (cases "x \<le> ks ! 0 \<or> ks ! (length ks - 1) \<le> x")
    case True
    then show ?thesis using n d(11,12) by (auto simp: spline_locate_def Let_def n_def)
  next
    case inside: False
    show ?thesis
    proof (cases "ns_is_uniform s")
      case True
      define h where "h = hs ! 0"
      have "0 < h" using d(6) [of 0] d(1) by (simp add: h_def)
      define y where "y = (x - ks ! 0) * (1 / h)"
      have y: "0 \<le> y" using inside \<open>0 < h\<close> by (simp add: y_def)
      have inv: "ns_inverse_uniform_spacing s = Fin (1 / h)" using f True by (simp add: spline_from_def h_def)
      have scaled: "(Fin x - ns_first_knot s) * ns_inverse_uniform_spacing s = Fin y" by (simp add: d(11) inv y_def)
      show ?thesis
      proof (cases "of_int \<lfloor>y\<rfloor> < real n")
        case below: True
        then have "nat \<lfloor>y\<rfloor> < n" using y by linarith
        from snap [OF this, of "y - of_int \<lfloor>y\<rfloor>"] show ?thesis
          using inside True below unfolding spline_locate_def Let_def scaled by (simp add: d(11,12) n_def)
      next
        case above: False
        then show ?thesis using inside True n unfolding spline_locate_def Let_def scaled by (simp add: d(11,12) n_def)
      qed
    next
      case False
      define u where "u = upper_bound (ns_knots s) (Fin x)"
      have at: "\<exists>t. (Fin x - ns_knots s ! (u - 1)) * seg_inverse_spacing (ns_segments s ! (u - 1)) = Fin t" if "\<not> n - 1 < u - 1"
      proof -
        have k: "ns_knots s = map Fin ks" using f False by (simp add: spline_from_def)
        have i: "u - 1 < length ks - 1" "u - 1 < length ks" using that n d(10) by (simp_all add: n_def)
        have "0 < hs ! (u - 1)" using d(6) [OF i(1)] .
        then have "seg_inverse_spacing (ns_segments s ! (u - 1)) = Fin (1 / hs ! (u - 1))"
          unfolding spline_segment [OF f i(1)] by (simp add: segment_of_nodes_def Let_def)
        then show ?thesis using i(2) by (simp add: k)
      qed
      show ?thesis
      proof (cases "u = 0 \<or> n - 1 < u - 1")
        case True
        then show ?thesis
          using inside False n unfolding spline_locate_def Let_def u_def [symmetric] n_def [symmetric]
          by (auto simp: d(11,12))
      next
        case seg: False
        then obtain t where t: "(Fin x - ns_knots s ! (u - 1)) * seg_inverse_spacing (ns_segments s ! (u - 1)) = Fin t" using at by blast
        have "u - 1 < n" using seg n by linarith
        from snap [OF this, of t] show ?thesis
          using inside False seg unfolding spline_locate_def Let_def u_def [symmetric] n_def [symmetric] t
          by (simp add: d(11,12))
      qed
    qed
  qed
qed

lemma spline_finite:
  assumes f: "spline_from ks vs ds hs s"
  shows "isfinite (spline_evaluate s (Fin x))" "isfinite (spline_first_derivative s (Fin x))"
proof -
  note d = spline_fromD [OF f]
  obtain i t where l: "spline_locate s (Fin x) = \<lparr>loc_segment = i, loc_parameter = Fin t\<rparr>" "i < length (ns_segments s)"
    using spline_location [OF f] by blast
  have i: "i < length ks - 1" using l(2) d(10) by simp
  have h: "hs ! i \<noteq> 0" using d(6) [OF i] by simp
  have c: "\<exists>a b q k v. ns_segments s ! i = \<lparr>seg_constant = Fin a, seg_linear = Fin b, seg_quadratic = Fin q, seg_cubic = Fin k,
      seg_inverse_spacing = Fin v, seg_inverse_spacing_squared = Fin (v * v)\<rparr>"
    using h by (simp add: spline_segment [OF f i] segment_of_nodes_def Let_def)
  have "vs \<noteq> []" using d(1,2) by auto
  then show "isfinite (spline_evaluate s (Fin x))"
    using c by (auto simp: spline_evaluate_def l(1) Let_def segment_value_def d(8) hd_map last_map)
  show "isfinite (spline_first_derivative s (Fin x))"
    using c by (auto simp: spline_first_derivative_def l(1) Let_def segment_first_derivative_def)
qed

subsection \<open>Quadrature never loses length\<close>

definition weight_sum :: real where
  "weight_sum = (\<Sum>n<8. to_real (gauss_legendre_weights ! n))"

lemma gauss_tables:
  "length gauss_legendre_abscissae = 8"
  "n < 8 \<Longrightarrow> \<exists>x. gauss_legendre_abscissae ! n = Fin x"
  "n < 8 \<Longrightarrow> \<exists>w. gauss_legendre_weights ! n = Fin w \<and> 0 < w"
proof -
  show "length gauss_legendre_abscissae = 8" by (simp add: gauss_legendre_abscissae_def)
  show "n < 8 \<Longrightarrow> \<exists>x. gauss_legendre_abscissae ! n = Fin x"
    unfolding gauss_legendre_abscissae_def by (subst nth_map) (simp, blast)
  have all: "\<forall>d \<in> set gauss_legendre_weights. isfinite d \<and> 0 < d" and len: "length gauss_legendre_weights = 8"
    by (simp_all add: gauss_legendre_weights_def)
  show "n < 8 \<Longrightarrow> \<exists>w. gauss_legendre_weights ! n = Fin w \<and> 0 < w"
    using all nth_mem [of n gauss_legendre_weights] len by (metis isfinite_iff Fin_less Fin_zero)
qed

lemma weight_sum_value: "weight_sum = 1 - 1 / 10 ^ 33"
  by (simp add: weight_sum_def gauss_legendre_weights_def lessThan_nat_numeral lessThan_Suc)

lemma hypot_one: "isfinite d \<Longrightarrow> \<exists>y. std_hypot 1 d = Fin y \<and> 1 \<le> y"
proof -
  assume "isfinite d"
  then obtain x where "d = Fin x" by (auto simp: isfinite_iff)
  moreover have "sqrt 1 \<le> sqrt (1 + x * x)" by (intro real_sqrt_le_mono) simp
  ultimately show ?thesis by simp
qed

lemma quadrature_sum:
  assumes "spline_from ks vs ds hs s" "m \<le> 8"
  shows "\<exists>y. foldl (\<lambda>acc n.
      let offset = Fin w * gauss_legendre_abscissae ! n;
          below = std_hypot 1 (spline_first_derivative s (Fin c - offset));
          above = std_hypot 1 (spline_first_derivative s (Fin c + offset))
      in acc + gauss_legendre_weights ! n * (below + above)) 0 [0..<m] = Fin y
    \<and> 2 * (\<Sum>n<m. to_real (gauss_legendre_weights ! n)) \<le> y"
  using assms(2)
proof (induction m)
  case (Suc m)
  obtain y where y: "foldl (\<lambda>acc n.
      let offset = Fin w * gauss_legendre_abscissae ! n;
          below = std_hypot 1 (spline_first_derivative s (Fin c - offset));
          above = std_hypot 1 (spline_first_derivative s (Fin c + offset))
      in acc + gauss_legendre_weights ! n * (below + above)) 0 [0..<m] = Fin y"
      "2 * (\<Sum>n<m. to_real (gauss_legendre_weights ! n)) \<le> y" using Suc by auto
  obtain a where a: "gauss_legendre_abscissae ! m = Fin a" using gauss_tables(2) [of m] Suc.prems by auto
  obtain g where g: "gauss_legendre_weights ! m = Fin g" "0 < g" using gauss_tables(3) [of m] Suc.prems by auto
  obtain b1 where b1: "std_hypot 1 (spline_first_derivative s (Fin (c - w * a))) = Fin b1" "1 \<le> b1"
    using hypot_one [OF spline_finite(2) [OF assms(1)]] by blast
  obtain b2 where b2: "std_hypot 1 (spline_first_derivative s (Fin (c + w * a))) = Fin b2" "1 \<le> b2"
    using hypot_one [OF spline_finite(2) [OF assms(1)]] by blast
  have "g * 2 \<le> g * (b1 + b2)" using g b1 b2 by (intro mult_left_mono) auto
  then have "2 * (\<Sum>n<Suc m. to_real (gauss_legendre_weights ! n)) \<le> y + g * (b1 + b2)"
    using y(2) g(1) unfolding sum.lessThan_Suc distrib_left by simp
  then show ?case using y(1) a g(1) b1(1) b2(1) by (simp add: Let_def)
qed simp

text \<open>Over an interval the quadrature is finite and no shorter than the interval, up to the rounding of the tabulated weights.\<close>

lemma arc_length_bound:
  assumes "spline_from ks vs ds hs s" "a < b"
  shows "\<exists>l. integrate_arc_length s (Fin a) (Fin b) = Fin l \<and> (b - a) * weight_sum \<le> l \<and> 0 < l"
proof -
  obtain y where y: "foldl (\<lambda>acc n.
      let offset = Fin ((b - a) / 2) * gauss_legendre_abscissae ! n;
          below = std_hypot 1 (spline_first_derivative s (Fin ((a + b) / 2) - offset));
          above = std_hypot 1 (spline_first_derivative s (Fin ((a + b) / 2) + offset))
      in acc + gauss_legendre_weights ! n * (below + above)) 0 [0..<8] = Fin y"
      "2 * weight_sum \<le> y"
    using quadrature_sum [OF assms(1), of 8 "(b - a) / 2" "(a + b) / 2"] by (auto simp: weight_sum_def)
  have m: "half * (Fin a + Fin b) = Fin ((a + b) / 2)" "half * (Fin b - Fin a) = Fin ((b - a) / 2)" by simp_all
  have v: "integrate_arc_length s (Fin a) (Fin b) = Fin ((b - a) / 2 * y)"
    using assms(2) unfolding integrate_arc_length_def Let_def m gauss_tables(1) y(1) [unfolded Let_def] by simp
  have "(b - a) / 2 * (2 * weight_sum) \<le> (b - a) / 2 * y" using assms(2) y(2) by (intro mult_left_mono) auto
  then have "(b - a) * weight_sum \<le> (b - a) / 2 * y" by simp
  moreover have "0 < (b - a) * weight_sum" using assms(2) by (simp add: weight_sum_value)
  ultimately show ?thesis using v by (intro exI [of _ "(b - a) / 2 * y"] conjI) linarith+
qed

definition arc :: "natural_spline \<Rightarrow> real \<Rightarrow> real \<Rightarrow> real" where
  "arc s a b = to_real (integrate_arc_length s (Fin a) (Fin b))"

lemma arc_value:
  assumes "spline_from ks vs ds hs s"
  shows "integrate_arc_length s (Fin a) (Fin b) = Fin (arc s a b)" "a < b \<Longrightarrow> (b - a) * weight_sum \<le> arc s a b"
    "a < b \<Longrightarrow> 0 < arc s a b" "arc s a a = 0"
proof -
  show "integrate_arc_length s (Fin a) (Fin b) = Fin (arc s a b)"
  proof (cases "a < b")
    case True
    then show ?thesis using arc_length_bound [OF assms] by (force simp: arc_def)
  qed (simp add: arc_def integrate_arc_length_def)
  show "a < b \<Longrightarrow> (b - a) * weight_sum \<le> arc s a b" "a < b \<Longrightarrow> 0 < arc s a b"
    using arc_length_bound [OF assms, of a b] by (auto simp: arc_def)
  show "arc s a a = 0" by (simp add: arc_def integrate_arc_length_def)
qed

subsection \<open>The cumulative table\<close>

definition cumulative_arcs :: "natural_spline \<Rightarrow> real list \<Rightarrow> real list \<Rightarrow> bool" where
  "cumulative_arcs s ks cs \<longleftrightarrow> length cs = length ks \<and> cs ! 0 = 0
     \<and> (\<forall>n. Suc n < length ks \<longrightarrow> cs ! Suc n = cs ! n + arc s (ks ! n) (ks ! Suc n))"

lemma accumulated:
  assumes f: "spline_from ks' vs ds hs s" and ks: "increasing_reals ks" "2 \<le> length ks"
  shows "\<exists>cs. accumulate_arc_length s (map Fin ks) = Inr (map Fin cs) \<and> cumulative_arcs s ks cs \<and> increasing_reals cs"
proof -
  have run: "\<exists>cs. foldl (\<lambda>cumulative n. cumulative @ [last cumulative + integrate_arc_length s (map Fin ks ! n) (map Fin ks ! Suc n)])
      [0] [0..<m] = map Fin cs \<and> length cs = Suc m \<and> cs ! 0 = 0
      \<and> (\<forall>n < m. cs ! Suc n = cs ! n + arc s (ks ! n) (ks ! Suc n))" if "m \<le> length ks - 1" for m
    using that
  proof (induction m)
    case 0
    show ?case by (intro exI [of _ "[0]"]) simp
  next
    case (Suc m)
    then obtain cs where cs: "foldl (\<lambda>cumulative n. cumulative @ [last cumulative + integrate_arc_length s (map Fin ks ! n) (map Fin ks ! Suc n)])
        [0] [0..<m] = map Fin cs" "length cs = Suc m" "cs ! 0 = 0"
        "\<forall>n < m. cs ! Suc n = cs ! n + arc s (ks ! n) (ks ! Suc n)" by auto
    have l: "last (map Fin cs) = Fin (cs ! m)" using cs(2) by (cases cs rule: rev_cases) (auto simp: nth_append)
    have m: "m < length ks" "Suc m < length ks" using Suc.prems by auto
    show ?case
      using cs l m by (intro exI [of _ "cs @ [cs ! m + arc s (ks ! m) (ks ! Suc m)]"])
        (auto simp: arc_value(1) [OF f] nth_append less_Suc_eq)
  qed
  then obtain cs where cs: "foldl (\<lambda>cumulative n. cumulative @ [last cumulative + integrate_arc_length s (map Fin ks ! n) (map Fin ks ! Suc n)])
      [0] [0..<length ks - 1] = map Fin cs" "length cs = length ks" "cs ! 0 = 0"
      "\<forall>n < length ks - 1. cs ! Suc n = cs ! n + arc s (ks ! n) (ks ! Suc n)" using ks(2) by fastforce
  have "list_all (\<lambda>n. map Fin ks ! n < map Fin ks ! Suc n) [0..<length ks - 1]"
    using ks(1) by (auto simp: list_all_iff increasing_reals_def)
  then have "accumulate_arc_length s (map Fin ks) = Inr (map Fin cs)"
    unfolding accumulate_arc_length_def length_map cs(1) using ks(2) by simp
  moreover have "cumulative_arcs s ks cs" using cs by (auto simp: cumulative_arcs_def)
  moreover have "increasing_reals cs"
    using cs(2,4) arc_value(3) [OF f] ks(1) by (auto simp: increasing_reals_def)
  ultimately show ?thesis by blast
qed

subsection \<open>Bisection\<close>

lemma bisection_brackets:
  assumes f: "spline_from ks vs ds hs s"
    and b: "lower \<le> upper" "origin \<le> lower" "arc s origin lower \<le> target" "target \<le> arc s origin upper"
  shows "\<exists>lo hi. bracket_halvings n s (Fin origin) (Fin target) (Fin lower) (Fin upper) = (Fin lo, Fin hi)
    \<and> lower \<le> lo \<and> lo \<le> hi \<and> hi \<le> upper \<and> hi - lo = (upper - lower) / 2 ^ n
    \<and> arc s origin lo \<le> target \<and> target \<le> arc s origin hi"
  using b
proof (induction n arbitrary: lower upper)
  case (Suc n)
  define mid where "mid = (lower + upper) / 2"
  have mid: "half * (Fin lower + Fin upper) = Fin mid" "lower \<le> mid" "mid \<le> upper" "origin \<le> mid"
    using Suc.prems(1,2) by (simp_all add: mid_def)
  show ?case
  proof (cases "arc s origin mid < target")
    case True
    have "upper - mid = (upper - lower) / 2" by (simp add: mid_def field_simps)
    then show ?thesis using Suc.IH [of mid upper] mid True Suc.prems(4)
      unfolding bracket_halvings.simps Let_def mid(1) arc_value(1) [OF f] by (fastforce simp: field_simps)
  next
    case False
    have "mid - lower = (upper - lower) / 2" by (simp add: mid_def field_simps)
    then show ?thesis using Suc.IH [of lower mid] mid False Suc.prems
      unfolding bracket_halvings.simps Let_def mid(1) arc_value(1) [OF f] by (fastforce simp: field_simps)
  qed
qed simp

lemma upper_bound_end:
  assumes "increasing_reals ks" "ks \<noteq> []" "ks ! (length ks - 1) \<le> x"
  shows "upper_bound (map Fin ks) (Fin x) = length ks"
proof -
  have e: "takeWhile (\<lambda>k. \<not> x < k) ks = ks"
  proof (rule takeWhile_eq_all_conv [THEN iffD2], rule ballI)
    fix k
    assume "k \<in> set ks"
    then obtain i where "i < length ks" "k = ks ! i" by (auto simp: in_set_conv_nth)
    moreover from this have "i \<le> length ks - 1" "length ks - 1 < length ks" by linarith+
    ultimately show "\<not> x < k" using increasing_reals_le [OF assms(1), of i "length ks - 1"] assms(3) by auto
  qed
  show ?thesis unfolding upper_bound_def takeWhile_map length_map o_def Fin_less e by (rule refl)
qed

text \<open>A lateral coordinate stands at an arc length when the bisection of one knot interval brackets it there.\<close>

definition stands_at :: "natural_spline \<Rightarrow> real list \<Rightarrow> real list \<Rightarrow> real \<Rightarrow> real \<Rightarrow> bool" where
  "stands_at s ks cs target x \<longleftrightarrow> (\<exists>i lo hi. Suc i < length ks \<and> ks ! i \<le> lo \<and> lo \<le> x \<and> x \<le> hi \<and> hi \<le> ks ! Suc i
     \<and> hi - lo = (ks ! Suc i - ks ! i) / 2 ^ bracket_halving_count
     \<and> cs ! i + arc s (ks ! i) lo \<le> target \<and> target \<le> cs ! i + arc s (ks ! i) hi)"

lemma found_lateral:
  assumes f: "spline_from ks' vs ds hs s" and ks: "increasing_reals ks" "2 \<le> length ks"
    and cs: "cumulative_arcs s ks cs" "increasing_reals cs"
    and t: "0 \<le> target" "target \<le> cs ! (length ks - 1)"
  shows "\<exists>x. find_lateral s (map Fin ks) (map Fin cs) (Fin target) = Inr (Fin x) \<and> stands_at s ks cs target x"
proof -
  have c: "length cs = length ks" "cs ! 0 = 0"
    "\<And>n. Suc n < length ks \<Longrightarrow> cs ! Suc n = cs ! n + arc s (ks ! n) (ks ! Suc n)"
    using cs(1) by (auto simp: cumulative_arcs_def)
  have ne: "cs \<noteq> []" "ks \<noteq> []" using c ks(2) by auto
  obtain i where i: "Suc i < length ks" "cs ! i \<le> target" "target \<le> cs ! Suc i"
      "min (upper_bound (map Fin cs) (Fin target) - 1) (length ks - 2) = i"
  proof (cases "target < cs ! (length cs - 1)")
    case True
    have "1 \<le> length cs" "cs ! 0 \<le> target" using c(1,2) ks(2) t(1) by auto
    from bracket_exists [OF this True] obtain n where n: "Suc n < length cs" "cs ! n \<le> target" "target < cs ! Suc n" by blast
    show thesis by (rule that [of n]) (use n c upper_bound_between [OF cs(2) n] in auto)
  next
    case False
    then have end_of_table: "target = cs ! (length ks - 1)" using t c(1) by simp
    have s: "Suc (length ks - 2) = length ks - 1" "Suc (length ks - 2) < length ks" using ks(2) by linarith+
    show thesis
    proof (rule that [of "length ks - 2"])
      show "cs ! (length ks - 2) \<le> target"
        unfolding end_of_table using increasing_reals_le [OF cs(2), of "length ks - 2" "length ks - 1"] c(1) s by simp
      show "min (upper_bound (map Fin cs) (Fin target) - 1) (length ks - 2) = length ks - 2"
        using upper_bound_end [OF cs(2) ne(1), of target] end_of_table c(1) by simp
    qed (use s end_of_table in simp_all)
  qed
  have below: "ks ! i \<le> ks ! Suc i" using increasing_reals_le [OF ks(1), of i "Suc i"] i(1) by simp
  have b: "arc s (ks ! i) (ks ! i) \<le> target - cs ! i" "target - cs ! i \<le> arc s (ks ! i) (ks ! Suc i)"
    using i(2,3) c(3) [OF i(1)] arc_value(4) [OF f] by simp_all
  obtain lo hi where h: "bracket_halvings bracket_halving_count s (Fin (ks ! i)) (Fin (target - cs ! i)) (Fin (ks ! i)) (Fin (ks ! Suc i))
        = (Fin lo, Fin hi)" "ks ! i \<le> lo" "lo \<le> hi" "hi \<le> ks ! Suc i" "hi - lo = (ks ! Suc i - ks ! i) / 2 ^ bracket_halving_count"
      "arc s (ks ! i) lo \<le> target - cs ! i" "target - cs ! i \<le> arc s (ks ! i) hi"
    using bisection_brackets [OF f below order_refl b] by blast
  have in_range: "\<not> Fin target < hd (map Fin cs)" "\<not> last (map Fin cs) < Fin target"
    using t c ne by (simp_all add: hd_map last_map hd_conv_nth last_conv_nth)
  have at: "map Fin ks ! i = Fin (ks ! i)" "map Fin ks ! Suc i = Fin (ks ! Suc i)" "Fin target - map Fin cs ! i = Fin (target - cs ! i)"
    using i(1) c(1) by simp_all
  have "find_lateral s (map Fin ks) (map Fin cs) (Fin target) = Inr (Fin ((lo + hi) / 2))"
    using in_range ks(2) c(1) unfolding find_lateral_def Let_def length_map i(4) at h(1) by simp
  moreover have "stands_at s ks cs target ((lo + hi) / 2)"
    unfolding stands_at_def using i(1) h by (intro exI [of _ i] exI [of _ lo] exI [of _ hi]) auto
  ultimately show ?thesis by blast
qed

subsection \<open>The loop over the control nodes\<close>

lemma stations_laid:
  assumes f: "spline_from ks' vs ds hs s" and ks: "increasing_reals ks" "2 \<le> length ks"
    and cs: "cumulative_arcs s ks cs" "increasing_reals cs"
    and step: "0 < step" and stop: "stop \<le> cs ! (length ks - 1)"
  shows "\<exists>xs zs. lay_stations s (map Fin ks) (map Fin cs) (Fin step) (Fin stop) first = Some (Inr (map Fin xs, map Fin zs))
    \<and> length zs = length xs
    \<and> (\<forall>j < length xs. spline_evaluate s (Fin (xs ! j)) = Fin (zs ! j) \<and> stands_at s ks cs (real (first + j) * step) (xs ! j)
                       \<and> real (first + j) * step < stop)
    \<and> stop \<le> real (first + length xs) * step"
proof (induction "nat \<lceil>stop / step\<rceil> - first" arbitrary: first rule: less_induct)
  case less
  show ?case
  proof (cases "stop \<le> real first * step")
    case True
    then show ?thesis by (subst lay_stations.simps) simp
  next
    case False
    then have "real first < stop / step" using step by (simp add: field_simps)
    then have "nat \<lceil>stop / step\<rceil> - Suc first < nat \<lceil>stop / step\<rceil> - first" by linarith
    from less [OF this] obtain xs zs where IH:
        "lay_stations s (map Fin ks) (map Fin cs) (Fin step) (Fin stop) (Suc first) = Some (Inr (map Fin xs, map Fin zs))"
        "length zs = length xs"
        "\<And>j. j < length xs \<Longrightarrow> spline_evaluate s (Fin (xs ! j)) = Fin (zs ! j) \<and> stands_at s ks cs (real (Suc first + j) * step) (xs ! j)
             \<and> real (Suc first + j) * step < stop"
        "stop \<le> real (Suc first + length xs) * step" by blast
    have "0 \<le> real first * step" "real first * step \<le> cs ! (length ks - 1)" using step False stop by auto
    from found_lateral [OF f ks cs this] obtain x where
      x: "find_lateral s (map Fin ks) (map Fin cs) (Fin (real first * step)) = Inr (Fin x)" "stands_at s ks cs (real first * step) x" by blast
    obtain z where z: "spline_evaluate s (Fin x) = Fin z" using spline_finite(1) [OF f] by (auto simp: isfinite_iff)
    have target: "Fin (real first) * Fin step = Fin (real first * step)" by simp
    have "lay_stations s (map Fin ks) (map Fin cs) (Fin step) (Fin stop) first = Some (Inr (map Fin (x # xs), map Fin (z # zs)))"
      using False by (subst lay_stations.simps) (simp add: Let_def x(1) IH(1) z)
    moreover have "spline_evaluate s (Fin ((x # xs) ! j)) = Fin ((z # zs) ! j)
        \<and> stands_at s ks cs (real (first + j) * step) ((x # xs) ! j) \<and> real (first + j) * step < stop"
      if "j < length (x # xs)" for j
      using that x(2) z False IH(3) [of "j - 1"] by (cases j) auto
    moreover have "stop \<le> real (first + length (x # xs)) * step" using IH(4) by simp
    ultimately show ?thesis using IH(2) by (intro exI [of _ "x # xs"] exI [of _ "z # zs"]) auto
  qed
qed

subsection \<open>The control nodes of a profile\<close>

definition mirrored_nodes :: "control_nodes \<Rightarrow> control_nodes" where
  "mirrored_nodes n = n\<lparr>cn_lateral := map uminus (rev (cn_lateral n)), cn_vertical := rev (cn_vertical n)\<rparr>"

text \<open>The nodes of the right-hand order: the authored ends, and between them the stations at the multiples of the step.\<close>

definition nodes_at_equal_arc :: "natural_spline \<Rightarrow> real list \<Rightarrow> real list \<Rightarrow> real \<Rightarrow> real list \<Rightarrow> real list \<Rightarrow> bool" where
  "nodes_at_equal_arc s ks cs step xs zs \<longleftrightarrow> length zs = length xs
     \<and> (\<forall>j < length xs. spline_evaluate s (Fin (xs ! j)) = Fin (zs ! j) \<and> stands_at s ks cs (real (Suc j) * step) (xs ! j))"

lemma laid_nodes:
  assumes p: "from_authored_order WheelProfile identifier lateral vertical = Inr p" and step: "0 < step"
    and s: "make_natural_spline (srp_lateral (resolve_for_side p RightSide)) (srp_vertical (resolve_for_side p RightSide)) = Inr s"
  shows "\<exists>ks vs cs xs zs stop.
      srp_lateral (resolve_for_side p RightSide) = map Fin ks \<and> srp_vertical (resolve_for_side p RightSide) = map Fin vs
    \<and> cumulative_arcs s ks cs \<and> nodes_at_equal_arc s ks cs step xs zs
    \<and> rescan_end_tolerance (Fin (last cs)) (Fin step) = Fin (last cs - stop)
    \<and> (\<forall>j < length xs. real (Suc j) * step < stop) \<and> stop \<le> real (Suc (length xs)) * step
    \<and> lay_control_nodes (Fin step) p RightSide =
        Some (Inr \<lparr>cn_lateral = map Fin (hd ks # xs @ [last ks]), cn_vertical = map Fin (hd vs # zs @ [last vs]),
                   cn_total_arc_length = Fin (last cs)\<rparr>)
    \<and> lay_control_nodes (Fin step) p LeftSide =
        map_option (map_sum id mirrored_nodes) (lay_control_nodes (Fin step) p RightSide)"
proof -
  obtain ks vs ds hs where k: "srp_lateral (resolve_for_side p RightSide) = map Fin ks"
      "srp_vertical (resolve_for_side p RightSide) = map Fin vs" "spline_from ks vs ds hs s"
    using spline_built [OF s] by blast
  note d = spline_fromD [OF k(3)]
  obtain cs where cs: "accumulate_arc_length s (map Fin ks) = Inr (map Fin cs)" "cumulative_arcs s ks cs" "increasing_reals cs"
    using accumulated [OF k(3) d(4,1)] by blast
  have l: "length cs = length ks" "cs ! 0 = 0" "cs \<noteq> []" using cs(2) d(13) by (auto simp: cumulative_arcs_def)
  have last_c: "last cs = cs ! (length ks - 1)" using l by (simp add: last_conv_nth)
  have pos: "0 < last cs" using increasing_reals_less [OF cs(3), of 0 "length ks - 1"] l d(1) by (simp add: last_c)
  define tol where "tol = 16 * (1 / 2 ^ 52) * max (max 1 \<bar>last cs\<bar>) \<bar>step\<bar>"
  have tol: "rescan_end_tolerance (Fin (last cs)) (Fin step) = Fin tol" "0 \<le> tol"
    by (simp_all add: rescan_end_tolerance_def tol_def double_epsilon_def)
  define stop where "stop = last cs - tol"
  obtain xs zs where lay: "lay_stations s (map Fin ks) (map Fin cs) (Fin step) (Fin stop) 1 = Some (Inr (map Fin xs, map Fin zs))"
      "length zs = length xs"
      "\<forall>j < length xs. spline_evaluate s (Fin (xs ! j)) = Fin (zs ! j) \<and> stands_at s ks cs (real (1 + j) * step) (xs ! j)
          \<and> real (1 + j) * step < stop"
      "stop \<le> real (1 + length xs) * step"
    using stations_laid [OF k(3) d(4,1) cs(2,3) step, of stop 1] tol(2) last_c by (auto simp: stop_def)
  have role: "require_wheel_profile p = Inr ()"
    using p by (auto simp: require_wheel_profile_def from_authored_order_def bindS_eq_Inr)
  have vs: "vs \<noteq> []" using d(1,2) by auto
  have ends: "hd (map Fin ks) = Fin (hd ks)" "last (map Fin ks) = Fin (last ks)" "hd (map Fin vs) = Fin (hd vs)"
    "last (map Fin vs) = Fin (last vs)" "last (map Fin cs) = Fin (last cs)"
    using d(13) l(3) vs by (simp_all add: hd_map last_map)
  have fin: "isfinite (Fin (last cs))" "0 < Fin (last cs)" "Fin (last cs) - Fin tol = Fin stop" using pos by (simp_all add: stop_def)
  have run: "lay_control_nodes (Fin step) p side = Some (Inr (if side = LeftSide
      then \<lparr>cn_lateral = map uminus (rev (map Fin (hd ks # xs @ [last ks]))), cn_vertical = rev (map Fin (hd vs # zs @ [last vs])),
            cn_total_arc_length = Fin (last cs)\<rparr>
      else \<lparr>cn_lateral = map Fin (hd ks # xs @ [last ks]), cn_vertical = map Fin (hd vs # zs @ [last vs]),
            cn_total_arc_length = Fin (last cs)\<rparr>))" for side
    using step pos s unfolding lay_control_nodes_def role sum.case Let_def k(1,2) cs(1) bindS_Inr prod.case
    by (simp add: cs(1) ends tol(1) lay(1) [unfolded stop_def One_nat_def])
  show ?thesis
    using k(1,2) cs(2) lay tol(1) unfolding nodes_at_equal_arc_def run
    by (intro exI [of _ ks] exI [of _ vs] exI [of _ cs] exI [of _ xs] exI [of _ zs] exI [of _ stop] conjI)
      (auto simp: mirrored_nodes_def stop_def)
qed

text \<open>C8: Control nodes are laid where the step asks for them.  For an accepted wheel profile whose points admit the spline,
  and any positive step, the loop over the stations ends.  The nodes begin and end with the authored end points; the interior
  node number j stands at arc length j times the step, in the sense that the 64 bisections of one knot interval bracket that arc
  length by quadrature, and its height is the spline's; there are exactly as many as multiples of the step before the end of
  the curve less its tolerance.  The nodes of the left side are the mirror of those of the right.\<close>
theorem control_nodes_laid:
  assumes "from_authored_order WheelProfile identifier lateral vertical = Inr p" "0 < step"
    and "make_natural_spline (srp_lateral (resolve_for_side p RightSide)) (srp_vertical (resolve_for_side p RightSide)) = Inr s"
  shows "\<exists>ks vs cs xs zs stop.
      srp_lateral (resolve_for_side p RightSide) = map Fin ks \<and> srp_vertical (resolve_for_side p RightSide) = map Fin vs
    \<and> cumulative_arcs s ks cs \<and> nodes_at_equal_arc s ks cs step xs zs
    \<and> rescan_end_tolerance (Fin (last cs)) (Fin step) = Fin (last cs - stop)
    \<and> (\<forall>j < length xs. real (Suc j) * step < stop) \<and> stop \<le> real (Suc (length xs)) * step
    \<and> lay_control_nodes (Fin step) p RightSide =
        Some (Inr \<lparr>cn_lateral = map Fin (hd ks # xs @ [last ks]), cn_vertical = map Fin (hd vs # zs @ [last vs]),
                   cn_total_arc_length = Fin (last cs)\<rparr>)
    \<and> lay_control_nodes (Fin step) p LeftSide =
        map_option (map_sum id mirrored_nodes) (lay_control_nodes (Fin step) p RightSide)"
  by (rule laid_nodes [OF assms])

text \<open>The three nodes of \<open>crown_knots\<close> as the author of a wheel would have written them.\<close>

definition crown_profile :: "profile_points outcome" where
  "crown_profile = from_authored_order WheelProfile ''crown'' crown_knots crown_heights"

lemma crown_profile_accepted: "crown_profile = Inr \<lparr>pp_role = WheelProfile, pp_identifier = ''crown'',
    pp_lateral = crown_knots, pp_vertical = crown_heights\<rparr>"
  by (simp add: crown_profile_def from_authored_order_def crown_knots_def crown_heights_def keeps_direction_def upt_rec)

theorem control_nodes_laid_witness:
  "\<exists>p n xs. crown_profile = Inr p \<and> lay_control_nodes (Fin (1 / 2)) p RightSide = Some (Inr n)
     \<and> cn_lateral n = Fin 0 # map Fin xs @ [Fin 3] \<and> 5 \<le> length xs
     \<and> lay_control_nodes (Fin (1 / 2)) p LeftSide = Some (Inr (mirrored_nodes n))"
proof -
  define p where "p = \<lparr>pp_role = WheelProfile, pp_identifier = ''crown'', pp_lateral = crown_knots, pp_vertical = crown_heights\<rparr>"
  have p: "crown_profile = Inr p" by (simp add: crown_profile_accepted p_def)
  have "profile_of True [0, 1, 3] [0, 1, 1] p"
    by (auto simp: profile_of_def p_def crown_knots_def crown_heights_def monotone_reals_def less_Suc_eq numeral_eq_Suc)
  note side = resolved_right [OF this]
  have knots: "srp_lateral (resolve_for_side p RightSide) = crown_knots" "srp_vertical (resolve_for_side p RightSide) = crown_heights"
    using side by (simp_all add: crown_knots_def crown_heights_def)
  obtain s where s: "make_natural_spline crown_knots crown_heights = Inr s" using crown_accepted by blast
  obtain ks vs cs xs zs stop where r: "crown_knots = map Fin ks" "crown_heights = map Fin vs" "cumulative_arcs s ks cs"
      "rescan_end_tolerance (Fin (last cs)) (Fin (1 / 2)) = Fin (last cs - stop)" "stop \<le> real (Suc (length xs)) * (1 / 2)"
      "lay_control_nodes (Fin (1 / 2)) p RightSide =
        Some (Inr \<lparr>cn_lateral = map Fin (hd ks # xs @ [last ks]), cn_vertical = map Fin (hd vs # zs @ [last vs]),
                   cn_total_arc_length = Fin (last cs)\<rparr>)"
      "lay_control_nodes (Fin (1 / 2)) p LeftSide = map_option (map_sum id mirrored_nodes) (lay_control_nodes (Fin (1 / 2)) p RightSide)"
    using control_nodes_laid [OF p [unfolded crown_profile_def], of "1 / 2" s] s unfolding knots by auto
  have ks: "ks = [0, 1, 3]"
  proof -
    have "map Fin ks = [Fin 0, Fin 1, Fin 3]" using r(1) by (simp add: crown_knots_def)
    then show ?thesis by (auto simp: map_eq_Cons_conv)
  qed
  from s obtain ks' vs' ds hs where f: "spline_from ks' vs' ds hs s" by (rule spline_built)
  have cs: "length cs = 3" "cs ! 0 = 0" "cs ! Suc 0 = cs ! 0 + arc s 0 1" "cs ! Suc (Suc 0) = cs ! Suc 0 + arc s 1 3"
    using r(3) by (auto simp: cumulative_arcs_def ks)
  then have "last cs = arc s 0 1 + arc s 1 3" by (cases cs rule: rev_cases) (auto simp: nth_append)
  moreover have "1 * weight_sum \<le> arc s 0 1" "2 * weight_sum \<le> arc s 1 3"
    using arc_value(2) [OF f, of 0 1] arc_value(2) [OF f, of 1 3] by simp_all
  ultimately have long: "29 / 10 \<le> last cs" by (simp add: weight_sum_value)
  have "16 * (1 / 2 ^ 52) * max (max 1 \<bar>last cs\<bar>) (1 / 2) \<le> 1 / 10 * last cs" using long by (simp add: max_def)
  then have "26 / 10 \<le> stop" using r(4) long by (simp add: rescan_end_tolerance_def double_epsilon_def)
  then have "5 \<le> length xs" using r(5) by simp
  then show ?thesis using p r(6,7)
    by (intro exI [of _ p] exI [of _ "\<lparr>cn_lateral = map Fin (hd ks # xs @ [last ks]), cn_vertical = map Fin (hd vs # zs @ [last vs]),
        cn_total_arc_length = Fin (last cs)\<rparr>"] exI [of _ xs] conjI) (simp_all add: ks)
qed

end
