(* ===== verification/Contact_Kinematics.thy ===== *)
theory Contact_Kinematics
  imports Profile_Points
begin

section \<open>Kinematics of a wheel-rail contact\<close>

text \<open>
  \<open>roll_yaw_pitch.cc\<close>, \<open>contact_wrench.cc\<close>, \<open>contact_creepage.cc\<close> and \<open>wheel_rail_pose.cc\<close> of
  \<open>libs/wheel_rail_contact\<close>: angles and rates of a wheelset, the contact frame, creepages, paired wrenches and
  the four scalars a contact geometry is solved for.  The lemmas show that the resolution of angles and rates inverts the
  rotation it is defined for, that transported and paired wrenches keep the moment about every point and balance, that the
  reference speed of creepages never falls below its floor, and that mirrored poses give mirrored scalars.
\<close>

subsection \<open>Roll, yaw and pitch\<close>

record roll_yaw_pitch =
  ryp_roll :: double
  ryp_yaw :: double
  ryp_pitch :: double

fun resolve_roll_yaw_pitch :: "mat3 \<Rightarrow> roll_yaw_pitch" where
  "resolve_roll_yaw_pitch ((r00, r01, r02), (r10, r11, r12), (r20, r21, r22)) =
     \<lparr>ryp_roll = std_atan2 r21 r11,
      ryp_yaw = std_atan2 (- r01) (std_sqrt (r00 * r00 + r02 * r02)),
      ryp_pitch = std_atan2 r02 r00\<rparr>"

record roll_yaw_pitch_rates =
  ryp_roll_rate :: double
  ryp_yaw_rate :: double
  ryp_pitch_rate :: double

fun resolve_roll_yaw_pitch_rates :: "vec3 \<Rightarrow> double \<Rightarrow> double \<Rightarrow> roll_yaw_pitch_rates" where
  "resolve_roll_yaw_pitch_rates (wx, wy, wz) roll yaw =
     (let sine_roll = std_sin roll; cosine_roll = std_cos roll;
          transverse = wy * cosine_roll + wz * sine_roll
      in \<lparr>ryp_roll_rate = wx + transverse * std_tan yaw,
          ryp_yaw_rate = - wy * sine_roll + wz * cosine_roll,
          ryp_pitch_rate = transverse / std_cos yaw\<rparr>)"

text \<open>The rotation \<open>Rx(roll) Rz(yaw) Ry(pitch)\<close> whose angles are resolved, and the angular velocity its angle rates
  give in the reference axes.\<close>

definition rotation_of_angles :: "real \<Rightarrow> real \<Rightarrow> real \<Rightarrow> mat3" where
  "rotation_of_angles roll yaw pitch =
     times3 (times3 ((1, 0, 0), (0, Fin (cos roll), Fin (- sin roll)), (0, Fin (sin roll), Fin (cos roll)))
               ((Fin (cos yaw), Fin (- sin yaw), 0), (Fin (sin yaw), Fin (cos yaw), 0), (0, 0, 1)))
       ((Fin (cos pitch), 0, Fin (sin pitch)), (0, 1, 0), (Fin (- sin pitch), 0, Fin (cos pitch)))"

definition velocity_of_rates :: "real \<Rightarrow> real \<Rightarrow> real \<Rightarrow> real \<Rightarrow> real \<Rightarrow> real \<times> real \<times> real" where
  "velocity_of_rates roll yaw dr dy dp =
     (dr - dp * sin yaw, - dy * sin roll + dp * cos yaw * cos roll, dy * cos roll + dp * cos yaw * sin roll)"

subsection \<open>Wrenches\<close>

record spatial_wrench =
  sw_moment :: vec3
  sw_force :: vec3

record paired_contact_wrench =
  pw_point :: vec3
  pw_rail_on_wheel :: spatial_wrench
  pw_wheel_on_rail :: spatial_wrench

definition transport_wrench :: "spatial_wrench \<Rightarrow> vec3 \<Rightarrow> vec3 \<Rightarrow> spatial_wrench" where
  "transport_wrench w from_point to_point =
     \<lparr>sw_moment = add3 (sw_moment w) (cross3 (sub3 from_point to_point) (sw_force w)), sw_force = sw_force w\<rparr>"

definition rotate_wrench :: "spatial_wrench \<Rightarrow> mat3 \<Rightarrow> spatial_wrench" where
  "rotate_wrench w rotation = \<lparr>sw_moment = rotate3 rotation (sw_moment w), sw_force = rotate3 rotation (sw_force w)\<rparr>"

definition make_paired_contact_wrench :: "vec3 \<Rightarrow> vec3 \<Rightarrow> vec3 \<Rightarrow> paired_contact_wrench" where
  "make_paired_contact_wrench point force moment =
     \<lparr>pw_point = point,
      pw_rail_on_wheel = \<lparr>sw_moment = moment, sw_force = force\<rparr>,
      pw_wheel_on_rail = \<lparr>sw_moment = neg3 moment, sw_force = neg3 force\<rparr>\<rparr>"

subsection \<open>Contact frame and creepages\<close>

record contact_frame =
  cf_rotation :: mat3
  cf_normal :: vec3

definition make_contact_frame :: "double \<Rightarrow> contact_frame" where
  "make_contact_frame angle =
     (let cosine = std_cos angle; sine = std_sin angle
      in \<lparr>cf_rotation = ((1, 0, 0), (0, cosine, - sine), (0, sine, cosine)), cf_normal = (0, - sine, cosine)\<rparr>)"

record contact_relative_motion =
  rel_velocity :: vec3
  rel_spin :: vec3
  rel_arc_rate :: double
  rel_wheel_pitch_rate :: double

record creepages =
  creep_longitudinal :: double
  creep_lateral :: double
  creep_spin :: double
  creep_reference_speed :: double

definition reference_speed :: "contact_relative_motion \<Rightarrow> double \<Rightarrow> double \<Rightarrow> double" where
  "reference_speed motion rolling_radius floor_speed =
     (let rim_speed = - rel_wheel_pitch_rate motion * rolling_radius;
          mean_speed = half * (rel_arc_rate motion + rim_speed)
      in if \<bar>mean_speed\<bar> < floor_speed
         then (if \<not> feq mean_speed 0 then std_copysign floor_speed mean_speed else floor_speed)
         else mean_speed)"

definition compute_creepages :: "contact_relative_motion \<Rightarrow> contact_frame \<Rightarrow> double \<Rightarrow> double \<Rightarrow> creepages" where
  "compute_creepages motion frame rolling_radius floor_speed =
     (let velocity = rotate3 (transpose3 (cf_rotation frame)) (rel_velocity motion);
          spin = rotate3 (transpose3 (cf_rotation frame)) (rel_spin motion);
          speed = reference_speed motion rolling_radius floor_speed
      in \<lparr>creep_longitudinal = component3 0 velocity / speed,
          creep_lateral = component3 1 velocity / speed,
          creep_spin = component3 2 spin / speed,
          creep_reference_speed = speed\<rparr>)"

definition normal_approach_speed :: "contact_relative_motion \<Rightarrow> contact_frame \<Rightarrow> double" where
  "normal_approach_speed motion frame = dot3 (cf_normal frame) (rel_velocity motion)"

subsection \<open>The pose scalars\<close>

datatype rail_profile_origin_mode = TrackStationOrigin | ProfileCoordinateOrigin

definition place_rail_profile_origin ::
  "rail_profile_origin_mode \<Rightarrow> vec3 \<Rightarrow> mat3 \<Rightarrow> vec3 \<Rightarrow> double \<Rightarrow> vec3" where
  "place_rail_profile_origin mode rail_origin rotation wheel_origin station_offset =
     (if mode = TrackStationOrigin then rail_origin
      else let from_wheel = rotate3 (transpose3 rotation) (sub3 rail_origin wheel_origin)
           in add3 rail_origin (rotate3 rotation (station_offset - component3 0 from_wheel, 0, 0)))"

record pose_constants =
  pc_rail_lateral_datum :: double
  pc_rail_vertical_datum :: double
  pc_rail_roll :: double
  pc_wheel_lateral_datum :: double
  pc_nominal_rolling_radius :: double
  pc_apply_pitch_correction :: bool

definition apply_gauge_and_roll :: "pose_constants \<Rightarrow> wheel_side \<Rightarrow> double \<Rightarrow> double \<Rightarrow> pose_constants" where
  "apply_gauge_and_roll nominal side gauge roll =
     (let cosine = std_cos roll; sine = std_sin roll; gauge_sign = (if side = LeftSide then 1 else - 1)
      in nominal\<lparr>pc_rail_lateral_datum := cosine * pc_rail_lateral_datum nominal - sine * pc_rail_vertical_datum nominal
                                         + gauge_sign * half * gauge,
                 pc_rail_vertical_datum := sine * pc_rail_lateral_datum nominal + cosine * pc_rail_vertical_datum nominal,
                 pc_rail_roll := pc_rail_roll nominal + roll\<rparr>)"

record wheelset_placement =
  pl_lateral :: double
  pl_vertical :: double
  pl_roll :: double
  pl_yaw :: double

record rail_irregularity =
  ri_lateral :: double
  ri_vertical :: double
  ri_lateral_rate :: double
  ri_vertical_rate :: double

record pose_input =
  pi_placement :: wheelset_placement
  pi_station_rate :: double
  pi_irregularity :: rail_irregularity

record pose_scalars =
  ps_roll :: double
  ps_yaw :: double
  ps_lateral_offset :: double
  ps_vertical_raise :: double

definition arc_rate_floor :: double where
  "arc_rate_floor = Fin (1 / 10 ^ 10)"

definition safe_atan2_ratio :: "double \<Rightarrow> double \<Rightarrow> double" where
  "safe_atan2_ratio numerator denominator =
     (if \<bar>denominator\<bar> < arc_rate_floor then 0 else std_atan2 numerator denominator)"

definition compute_pair_roll :: "double \<Rightarrow> double \<Rightarrow> double \<Rightarrow> double \<Rightarrow> double \<Rightarrow> double \<Rightarrow> double" where
  "compute_pair_roll wheelset_roll wheelset_yaw rail_roll lateral_rate vertical_rate arc_rate =
     (let yaw_excursion = safe_atan2_ratio lateral_rate arc_rate;
          pitch_excursion = - safe_atan2_ratio vertical_rate arc_rate;
          cos_yaw = std_cos yaw_excursion; sin_yaw = std_sin yaw_excursion;
          cos_pitch = std_cos pitch_excursion; sin_pitch = std_sin pitch_excursion;
          cos_cant = std_cos rail_roll; sin_cant = std_sin rail_roll;
          rail_01 = cos_yaw * sin_pitch * sin_cant - sin_yaw * cos_cant;
          rail_02 = cos_yaw * sin_pitch * cos_cant + sin_yaw * sin_cant;
          rail_11 = sin_yaw * sin_pitch * sin_cant + cos_yaw * cos_cant;
          rail_12 = sin_yaw * sin_pitch * cos_cant - cos_yaw * sin_cant;
          rail_21 = cos_pitch * sin_cant;
          rail_22 = cos_pitch * cos_cant;
          axle_0 = - std_sin wheelset_yaw;
          axle_1 = std_cos wheelset_roll * std_cos wheelset_yaw;
          axle_2 = std_sin wheelset_roll * std_cos wheelset_yaw;
          relative_11 = rail_01 * axle_0 + rail_11 * axle_1 + rail_21 * axle_2;
          relative_21 = rail_02 * axle_0 + rail_12 * axle_1 + rail_22 * axle_2
      in std_atan2 relative_21 relative_11)"

text \<open>The separation of the wheel datum from the rail datum, in the rail's own axes.\<close>

definition separation_in_rail :: "pose_constants \<Rightarrow> pose_input \<Rightarrow> double \<times> double" where
  "separation_in_rail constants input =
     (let placement = pi_placement input; irregularity = pi_irregularity input;
          rolling_radius =
            (if pc_apply_pitch_correction constants
             then pc_nominal_rolling_radius constants
                    * std_cos (- safe_atan2_ratio (ri_vertical_rate irregularity) (pi_station_rate input))
             else pc_nominal_rolling_radius constants);
          reach = std_cos (pl_yaw placement) * pc_wheel_lateral_datum constants;
          roll_cosine = std_cos (pl_roll placement); roll_sine = std_sin (pl_roll placement);
          wheel_lateral = pl_lateral placement + roll_cosine * reach - roll_sine * rolling_radius;
          wheel_vertical = pl_vertical placement + roll_sine * reach + roll_cosine * rolling_radius;
          rail_lateral = pc_rail_lateral_datum constants + ri_lateral irregularity;
          rail_vertical = pc_rail_vertical_datum constants + ri_vertical irregularity;
          lateral_separation = wheel_lateral - rail_lateral;
          vertical_separation = wheel_vertical - rail_vertical;
          rail_cosine = std_cos (pc_rail_roll constants); rail_sine = std_sin (pc_rail_roll constants)
      in (rail_cosine * lateral_separation + rail_sine * vertical_separation,
          - rail_sine * lateral_separation + rail_cosine * vertical_separation))"

definition build_contact_pose_scalars :: "pose_constants \<Rightarrow> pose_input \<Rightarrow> pose_scalars" where
  "build_contact_pose_scalars constants input =
     (let placement = pi_placement input; irregularity = pi_irregularity input;
          pair_roll = compute_pair_roll (pl_roll placement) (pl_yaw placement) (pc_rail_roll constants)
                        (ri_lateral_rate irregularity) (ri_vertical_rate irregularity) (pi_station_rate input);
          pair_yaw = pl_yaw placement - safe_atan2_ratio (ri_lateral_rate irregularity) (pi_station_rate input);
          pair_cosine = std_cos pair_roll; pair_sine = std_sin pair_roll
      in case separation_in_rail constants input of (lateral_in_rail, vertical_in_rail) \<Rightarrow>
         \<lparr>ps_roll = pair_roll, ps_yaw = pair_yaw,
          ps_lateral_offset = pair_cosine * lateral_in_rail + pair_sine * vertical_in_rail,
          ps_vertical_raise = pair_sine * lateral_in_rail - pair_cosine * vertical_in_rail\<rparr>)"

subsection \<open>The arc tangent of two arguments\<close>

lemma arctan_tan_shift:
  assumes "pi / 2 < x" "x \<le> pi"
  shows "arctan (tan x) = x - pi"
proof -
  have "tan x = tan (x - pi)" by (simp add: tan_def sin_diff cos_diff)
  then show ?thesis using assms arctan_tan [of "x - pi"] by simp
qed

lemma arctan_tan_unshift:
  assumes "- pi < x" "x < - pi / 2"
  shows "arctan (tan x) = x + pi"
proof -
  have "tan x = tan (x + pi)" by (simp add: tan_def sin_add cos_add)
  then show ?thesis using assms arctan_tan [of "x + pi"] by simp
qed

text \<open>It recovers an angle from any positive multiple of its sine and cosine.\<close>

lemma real_atan2_polar:
  assumes c: "0 < c" and x: "- pi < x" "x \<le> pi"
  shows "real_atan2 (c * sin x) (c * cos x) = x"
proof -
  have t: "c * sin x / (c * cos x) = tan x" using c by (simp add: tan_def)
  consider "- pi / 2 < x" "x < pi / 2" | "x = pi / 2" | "x = - pi / 2" | "pi / 2 < x" | "x < - pi / 2" by linarith
  then show ?thesis
  proof cases
    case 1
    then have "0 < cos x" by (intro cos_gt_zero_pi) auto
    then show ?thesis using c 1 t arctan_tan [of x] by (simp add: real_atan2_def)
  next
    case 2
    show ?thesis unfolding 2 using c by (simp add: real_atan2_def)
  next
    case 3
    have "cos x = 0" "sin x = - 1" unfolding 3 by (simp_all add: sin_minus)
    then show ?thesis using c 3 by (simp add: real_atan2_def)
  next
    case 4
    have "0 < cos (pi - x)" using 4 x by (intro cos_gt_zero_pi) auto
    then have "cos x < 0" by (simp add: cos_diff)
    moreover have "0 \<le> sin x" using 4 x by (intro sin_ge_zero) (auto intro: order.trans)
    ultimately show ?thesis using c t arctan_tan_shift [OF 4 x(2)]
      by (simp add: real_atan2_def mult_less_0_iff zero_less_mult_iff zero_le_mult_iff)
  next
    case 5
    have "0 < cos (x + pi)" using 5 x by (intro cos_gt_zero_pi) auto
    then have "cos x < 0" by (simp add: cos_add)
    moreover have "0 < sin (x + pi)" using 5 x by (intro sin_gt_zero) auto
    then have "sin x < 0" by (simp add: sin_add)
    ultimately show ?thesis using c t arctan_tan_unshift [OF x(1) 5]
      by (simp add: real_atan2_def mult_less_0_iff zero_less_mult_iff zero_le_mult_iff)
  qed
qed

subsection \<open>The rotation and its angles\<close>

lemma rotation_entries:
  "rotation_of_angles r y p =
     ((Fin (cos y * cos p), Fin (- sin y), Fin (cos y * sin p)),
      (Fin (cos r * sin y * cos p + sin r * sin p), Fin (cos r * cos y), Fin (cos r * sin y * sin p - sin r * cos p)),
      (Fin (sin r * sin y * cos p - cos r * sin p), Fin (sin r * cos y), Fin (sin r * sin y * sin p + cos r * cos p)))"
  by (simp add: rotation_of_angles_def)

text \<open>C37: The resolution of a wheelset orientation inverts the rotation it is defined for: the angles of
  \<open>Rx(roll) Rz(yaw) Ry(pitch)\<close> come back exactly, for every roll and pitch of a full turn and every yaw strictly
  within a quarter turn.\<close>
theorem angles_resolved:
  assumes "- pi < roll" "roll \<le> pi" "- pi / 2 < yaw" "yaw < pi / 2" "- pi < pitch" "pitch \<le> pi"
  shows "resolve_roll_yaw_pitch (rotation_of_angles roll yaw pitch)
       = \<lparr>ryp_roll = Fin roll, ryp_yaw = Fin yaw, ryp_pitch = Fin pitch\<rparr>"
proof -
  have c: "0 < cos yaw" using assms(3,4) by (intro cos_gt_zero_pi) auto
  have "sin pitch * sin pitch + cos pitch * cos pitch = 1" using sin_cos_squared_add3 by (metis add.commute)
  then have "cos yaw * cos pitch * (cos yaw * cos pitch) + cos yaw * sin pitch * (cos yaw * sin pitch) = cos yaw * cos yaw"
    by (metis (no_types, lifting) add.commute distrib_left mult.commute mult.left_commute mult.right_neutral)
  then have s: "sqrt (cos yaw * cos pitch * (cos yaw * cos pitch) + cos yaw * sin pitch * (cos yaw * sin pitch)) = cos yaw"
    using c by simp
  have roll: "real_atan2 (sin roll * cos yaw) (cos roll * cos yaw) = roll"
    using real_atan2_polar [OF c assms(1,2)] by (simp add: mult.commute)
  have yaw: "real_atan2 (sin yaw) (cos yaw) = yaw"
    using real_atan2_polar [of 1 yaw] assms(3,4) pi_gt_zero by simp
  have pitch: "real_atan2 (cos yaw * sin pitch) (cos yaw * cos pitch) = pitch"
    by (rule real_atan2_polar [OF c assms(5,6)])
  have "\<not> cos yaw * cos pitch * (cos yaw * cos pitch) + cos yaw * sin pitch * (cos yaw * sin pitch) < 0"
    by (simp add: not_less)
  then show ?thesis by (simp add: rotation_entries s roll yaw pitch)
qed

theorem angles_resolved_witness:
  "resolve_roll_yaw_pitch (rotation_of_angles (- 1) (1 / 2) 2) = \<lparr>ryp_roll = Fin (- 1), ryp_yaw = Fin (1 / 2), ryp_pitch = Fin 2\<rparr>"
  using angles_resolved [of "- 1" "1 / 2" 2] pi_ge_two by simp

definition entry3 :: "nat \<Rightarrow> nat \<Rightarrow> mat3 \<Rightarrow> real" where
  "entry3 i j m = (case m of (r0, r1, r2) \<Rightarrow> to_real (component3 j (if i = 0 then r0 else if i = 1 then r1 else r2)))"

text \<open>The columns of the rotation turn with the angular velocity of its angle rates.\<close>

lemma columns_turn:
  fixes r y p :: "real \<Rightarrow> real"
  assumes d [derivative_intros]: "(r has_real_derivative dr) (at t)" "(y has_real_derivative dy) (at t)"
      "(p has_real_derivative dp) (at t)"
    and w: "velocity_of_rates (r t) (y t) dr dy dp = (wx, wy, wz)" and j: "j < 3"
  defines "e \<equiv> \<lambda>i t. entry3 i j (rotation_of_angles (r t) (y t) (p t))"
  shows "(e 0 has_real_derivative wy * e 2 t - wz * e 1 t) (at t)"
    "(e 1 has_real_derivative wz * e 0 t - wx * e 2 t) (at t)"
    "(e 2 has_real_derivative wx * e 1 t - wy * e 0 t) (at t)"
proof -
  have w': "wx = dr - dp * sin (y t)" "wy = - dy * sin (r t) + dp * cos (y t) * cos (r t)"
    "wz = dy * cos (r t) + dp * cos (y t) * sin (r t)" using w by (auto simp: velocity_of_rates_def)
  have sq: "sin x * sin x = 1 - cos x * cos x" for x :: real
    using sin_cos_squared_add3 [of x] by linarith
  have sq': "sin x * (sin x * k) = k - cos x * (cos x * k)" for x k :: real
    using sq [of x] by (metis left_diff_distrib mult.assoc mult_1)
  consider "j = 0" | "j = 1" | "j = 2" using j by linarith
  then have "(e 0 has_real_derivative wy * e 2 t - wz * e 1 t) (at t)
    \<and> (e 1 has_real_derivative wz * e 0 t - wx * e 2 t) (at t)
    \<and> (e 2 has_real_derivative wx * e 1 t - wy * e 0 t) (at t)"
  proof cases
    case 1
    show ?thesis
      unfolding e_def entry3_def rotation_entries 1 w'
      by (simp, intro conjI) (auto intro!: derivative_eq_intros simp: algebra_simps sq sq')
  next
    case 2
    show ?thesis
      unfolding e_def entry3_def rotation_entries 2 w'
      by (simp, (intro conjI)?) (auto intro!: derivative_eq_intros simp: algebra_simps sq sq')
  next
    case 3
    show ?thesis
      unfolding e_def entry3_def rotation_entries 3 w'
      by (simp, (intro conjI)?) (auto intro!: derivative_eq_intros simp: algebra_simps sq sq')
  qed
  then show "(e 0 has_real_derivative wy * e 2 t - wz * e 1 t) (at t)"
    "(e 1 has_real_derivative wz * e 0 t - wx * e 2 t) (at t)"
    "(e 2 has_real_derivative wx * e 1 t - wy * e 0 t) (at t)" by blast+
qed

lemma rates_of_velocity:
  assumes w: "velocity_of_rates r y dr dy dp = (wx, wy, wz)" and c: "cos y \<noteq> 0"
  shows "resolve_roll_yaw_pitch_rates (Fin wx, Fin wy, Fin wz) (Fin r) (Fin y)
       = \<lparr>ryp_roll_rate = Fin dr, ryp_yaw_rate = Fin dy, ryp_pitch_rate = Fin dp\<rparr>"
proof -
  have w': "wx = dr - dp * sin y" "wy = - dy * sin r + dp * cos y * cos r" "wz = dy * cos r + dp * cos y * sin r"
    using w by (auto simp: velocity_of_rates_def)
  have sq: "sin r * sin r = 1 - cos r * cos r" using sin_cos_squared_add3 [of r] by linarith
  have sq': "sin r * (sin r * k) = k - cos r * (cos r * k)" for k
    using sq by (metis left_diff_distrib mult.assoc mult_1)
  have "wy * cos r + wz * sin r = dp * cos y" unfolding w' by (simp add: algebra_simps sq sq')
  moreover have "- (wy * sin r) + wz * cos r = dy" unfolding w' by (simp add: algebra_simps sq sq')
  moreover have "wx + dp * cos y * tan y = dr" unfolding w' using c by (simp add: tan_def)
  ultimately show ?thesis using c by (simp add: Let_def)
qed

text \<open>C38: The resolved rates are the derivatives of the angles.  If the orientation is \<open>Rx(roll) Rz(yaw) Ry(pitch)\<close> with
  differentiable angles, its columns turn with an angular velocity from which the code's formulas return the three
  derivatives, wherever the yaw is not a quarter turn.\<close>
theorem rates_resolved:
  fixes r y p :: "real \<Rightarrow> real"
  assumes "(r has_real_derivative dr) (at t)" "(y has_real_derivative dy) (at t)" "(p has_real_derivative dp) (at t)"
    and "cos (y t) \<noteq> 0"
  defines "e \<equiv> \<lambda>i j t. entry3 i j (rotation_of_angles (r t) (y t) (p t))"
  shows "\<exists>wx wy wz. (\<forall>j < 3. (e 0 j has_real_derivative wy * e 2 j t - wz * e 1 j t) (at t)
                     \<and> (e 1 j has_real_derivative wz * e 0 j t - wx * e 2 j t) (at t)
                     \<and> (e 2 j has_real_derivative wx * e 1 j t - wy * e 0 j t) (at t))
      \<and> resolve_roll_yaw_pitch_rates (Fin wx, Fin wy, Fin wz) (Fin (r t)) (Fin (y t))
          = \<lparr>ryp_roll_rate = Fin dr, ryp_yaw_rate = Fin dy, ryp_pitch_rate = Fin dp\<rparr>"
proof -
  obtain wx wy wz where w: "velocity_of_rates (r t) (y t) dr dy dp = (wx, wy, wz)" by (cases "velocity_of_rates (r t) (y t) dr dy dp")
  show ?thesis
    using columns_turn [OF assms(1-3) w] rates_of_velocity [OF w assms(4)] unfolding e_def
    by (intro exI [of _ wx] exI [of _ wy] exI [of _ wz]) auto
qed

theorem rates_resolved_witness:
  "\<exists>wx wy wz. ((\<lambda>t. entry3 0 1 (rotation_of_angles t (- t) (2 * t))) has_real_derivative
        wy * entry3 2 1 (rotation_of_angles 0 0 0) - wz * entry3 1 1 (rotation_of_angles 0 0 0)) (at 0)
      \<and> resolve_roll_yaw_pitch_rates (Fin wx, Fin wy, Fin wz) (Fin 0) (Fin 0)
          = \<lparr>ryp_roll_rate = Fin 1, ryp_yaw_rate = Fin (- 1), ryp_pitch_rate = Fin 2\<rparr>"
proof -
  have d: "((\<lambda>t. t) has_real_derivative 1) (at 0)" "((\<lambda>t. - t) has_real_derivative - 1) (at 0)"
    "((\<lambda>t. 2 * t) has_real_derivative 2) (at (0 :: real))"
    by (auto intro!: derivative_eq_intros)
  obtain wx wy wz where
    "\<forall>j < 3. ((\<lambda>t. entry3 0 j (rotation_of_angles t (- t) (2 * t))) has_real_derivative
        wy * entry3 2 j (rotation_of_angles 0 (- 0) (2 * 0)) - wz * entry3 1 j (rotation_of_angles 0 (- 0) (2 * 0))) (at 0)"
    "resolve_roll_yaw_pitch_rates (Fin wx, Fin wy, Fin wz) (Fin 0) (Fin (- 0))
        = \<lparr>ryp_roll_rate = Fin 1, ryp_yaw_rate = Fin (- 1), ryp_pitch_rate = Fin 2\<rparr>"
    using rates_resolved [OF d] by auto
  then show ?thesis by (intro exI [of _ wx] exI [of _ wy] exI [of _ wz]) simp
qed

subsection \<open>Wrenches balance\<close>

definition moment_about :: "vec3 \<Rightarrow> spatial_wrench \<Rightarrow> vec3 \<Rightarrow> vec3" where
  "moment_about origin w point = add3 (sw_moment w) (cross3 (sub3 point origin) (sw_force w))"

definition wrench_finite3 :: "spatial_wrench \<Rightarrow> bool" where
  "wrench_finite3 w \<longleftrightarrow> all_finite (v3 (sw_moment w)) \<and> all_finite (v3 (sw_force w))"

text \<open>C39: Transport and pairing keep the mechanics.  A wrench moved from one point to another has the same moment about
  every origin, and moving it in two steps is moving it once; the pair of a contact has no net force and no net moment about any
  origin, at the contact point and after each side has been moved to a point of its own.\<close>
theorem contact_wrenches_balance:
  assumes "wrench_finite3 w" "all_finite (v3 a)" "all_finite (v3 b)" "all_finite (v3 c)" "all_finite (v3 origin)"
  shows "moment_about origin (transport_wrench w a b) b = moment_about origin w a
    \<and> transport_wrench (transport_wrench w a b) b c = transport_wrench w a c
    \<and> (let pair = make_paired_contact_wrench a (sw_force w) (sw_moment w);
           on_wheel = transport_wrench (pw_rail_on_wheel pair) a b;
           on_rail = transport_wrench (pw_wheel_on_rail pair) a c
       in add3 (sw_force on_wheel) (sw_force on_rail) = zero3
        \<and> add3 (moment_about origin on_wheel b) (moment_about origin on_rail c) = zero3)"
proof -
  obtain m0 m1 m2 f0 f1 f2 where w: "sw_moment w = (Fin m0, Fin m1, Fin m2)" "sw_force w = (Fin f0, Fin f1, Fin f2)"
    using assms(1) by (auto simp: wrench_finite3_def elim!: finite3_cases)
  obtain a0 a1 a2 where a: "a = (Fin a0, Fin a1, Fin a2)" using assms(2) by (rule finite3_cases)
  obtain b0 b1 b2 where b: "b = (Fin b0, Fin b1, Fin b2)" using assms(3) by (rule finite3_cases)
  obtain c0 c1 c2 where c: "c = (Fin c0, Fin c1, Fin c2)" using assms(4) by (rule finite3_cases)
  obtain o0 o1 o2 where o: "origin = (Fin o0, Fin o1, Fin o2)" using assms(5) by (rule finite3_cases)
  show ?thesis
    by (simp add: moment_about_def transport_wrench_def make_paired_contact_wrench_def Let_def w a b c o zero3_def algebra_simps)
qed

theorem contact_wrenches_balance_witness:
  "let pair = make_paired_contact_wrench (Fin 1, Fin 2, Fin 3) (Fin 4, 0, Fin 5) zero3
   in add3 (sw_force (pw_rail_on_wheel pair)) (sw_force (pw_wheel_on_rail pair)) = zero3"
proof -
  let ?w = "\<lparr>sw_moment = zero3, sw_force = (Fin 4, 0, Fin 5)\<rparr>"
  have "wrench_finite3 ?w" "all_finite (v3 (Fin 1, Fin 2, Fin 3))" by (simp_all add: wrench_finite3_def zero3_def)
  from contact_wrenches_balance [OF this this(2) this(2) this(2)]
  show ?thesis by (simp add: Let_def transport_wrench_def make_paired_contact_wrench_def)
qed

subsection \<open>Contact frame and creepages\<close>

lemma contact_frame_Fin:
  "make_contact_frame (Fin x) =
     \<lparr>cf_rotation = ((Fin 1, Fin 0, Fin 0), (Fin 0, Fin (cos x), Fin (- sin x)), (Fin 0, Fin (sin x), Fin (cos x))),
      cf_normal = (Fin 0, Fin (- sin x), Fin (cos x))\<rparr>"
  by (simp add: make_contact_frame_def Let_def)

text \<open>The frame is an orthonormal basis whose third direction is the normal.\<close>

lemma contact_frame_orthonormal:
  "times3 (cf_rotation (make_contact_frame (Fin x))) (transpose3 (cf_rotation (make_contact_frame (Fin x)))) = identity3"
proof -
  have "cos x * cos x + sin x * sin x = 1" "sin x * sin x + cos x * cos x = 1"
    using sin_cos_squared_add3 [of x] by (simp_all add: add.commute)
  then show ?thesis by (simp add: contact_frame_Fin identity3_def)
qed

lemma reference_speed_floor:
  assumes f: "0 < f" and fin: "isfinite (rel_wheel_pitch_rate motion)" "isfinite (rel_arc_rate motion)" "isfinite radius"
  shows "\<exists>v. reference_speed motion radius (Fin f) = Fin v \<and> f \<le> \<bar>v\<bar>"
proof -
  obtain p a R where e: "rel_wheel_pitch_rate motion = Fin p" "rel_arc_rate motion = Fin a" "radius = Fin R"
    using fin by (auto simp: isfinite_iff)
  define m where "m = (a - p * R) / 2"
  have mean: "half * (rel_arc_rate motion + - rel_wheel_pitch_rate motion * radius) = Fin m"
    by (simp add: e m_def field_simps)
  show ?thesis
    using f by (cases "\<bar>m\<bar> < f"; cases "m = 0")
      (auto simp: reference_speed_def mean Let_def std_copysign_def signbit_def)
qed

text \<open>C40: The creepages and the approach speed are a faithful resolution of the relative motion: scaled by their own
  reference speed and carried back by the contact frame, they give the relative velocity and the spin component along
  the normal, whatever the speed of the wheel, because the reference speed is finite and never smaller than its floor.\<close>
theorem creepages_resolve_motion:
  fixes angle :: real
  assumes f: "0 < f" and fin: "isfinite (rel_wheel_pitch_rate motion)" "isfinite (rel_arc_rate motion)" "isfinite radius"
    and v: "all_finite (v3 (rel_velocity motion))" "all_finite (v3 (rel_spin motion))"
  defines "frame \<equiv> make_contact_frame (Fin angle)"
  defines "c \<equiv> compute_creepages motion frame radius (Fin f)"
  shows "(\<exists>s. creep_reference_speed c = Fin s \<and> f \<le> \<bar>s\<bar>)
    \<and> rotate3 (cf_rotation frame) (creep_longitudinal c * creep_reference_speed c, creep_lateral c * creep_reference_speed c,
          normal_approach_speed motion frame) = rel_velocity motion
    \<and> creep_spin c * creep_reference_speed c = dot3 (cf_normal frame) (rel_spin motion)"
proof -
  obtain s where s: "reference_speed motion radius (Fin f) = Fin s" "f \<le> \<bar>s\<bar>" using reference_speed_floor [OF f fin] by blast
  have s0: "s \<noteq> 0" using s(2) f by auto
  obtain a b d where vel: "rel_velocity motion = (Fin a, Fin b, Fin d)" using v(1) by (rule finite3_cases)
  obtain i j k where spin: "rel_spin motion = (Fin i, Fin j, Fin k)" using v(2) by (rule finite3_cases)
  have sq: "sin angle * sin angle = 1 - cos angle * cos angle" using sin_cos_squared_add3 [of angle] by linarith
  have sq': "sin angle * (sin angle * x) = x - cos angle * (cos angle * x)" for x
    using sq by (metis left_diff_distrib mult.assoc mult_1)
  show ?thesis
    unfolding c_def frame_def compute_creepages_def normal_approach_speed_def contact_frame_Fin s(1) vel spin Let_def
    using s0 s(2) by (simp add: algebra_simps add_divide_distrib diff_divide_distrib sq sq')
qed

theorem creepages_resolve_motion_witness:
  "let motion = \<lparr>rel_velocity = (Fin 1, Fin 2, Fin 3), rel_spin = (0, 0, Fin 4), rel_arc_rate = 0, rel_wheel_pitch_rate = 0\<rparr>;
       c = compute_creepages motion (make_contact_frame 0) 1 (Fin (1 / 2))
   in creep_spin c * creep_reference_speed c = Fin 4"
proof -
  let ?m = "\<lparr>rel_velocity = (Fin 1, Fin 2, Fin 3), rel_spin = (0, 0, Fin 4), rel_arc_rate = 0, rel_wheel_pitch_rate = 0\<rparr>"
  show ?thesis
    using creepages_resolve_motion [of "1 / 2" ?m "1" 0] by (simp add: Let_def contact_frame_Fin)
qed

subsection \<open>The pose of a wheel over its rail\<close>

text \<open>What the geometry decodes from the two offsets.\<close>

definition decode_pose :: "pose_scalars \<Rightarrow> double \<times> double" where
  "decode_pose s = (let c = std_cos (ps_roll s); n = std_sin (ps_roll s)
                    in (c * ps_lateral_offset s + n * ps_vertical_raise s,
                        n * ps_lateral_offset s - c * ps_vertical_raise s))"

lemma decode_pose_inverse:
  assumes "separation_in_rail constants input = (Fin a, Fin b)"
    and "ps_roll (build_contact_pose_scalars constants input) = Fin r"
  shows "decode_pose (build_contact_pose_scalars constants input) = (Fin a, Fin b)"
proof -
  have sq: "sin r * sin r = 1 - cos r * cos r" using sin_cos_squared_add3 [of r] by linarith
  have sq': "sin r * (sin r * x) = x - cos r * (cos r * x)" for x
    using sq by (metis left_diff_distrib mult.assoc mult_1)
  show ?thesis using assms(2)
    by (auto simp: decode_pose_def build_contact_pose_scalars_def Let_def assms(1) algebra_simps sq sq')
qed

definition smooth_track :: "rail_irregularity" where
  "smooth_track = \<lparr>ri_lateral = 0, ri_vertical = 0, ri_lateral_rate = 0, ri_vertical_rate = 0\<rparr>"

lemma safe_atan2_ratio_forward:
  assumes "0 \<le> v"
  shows "safe_atan2_ratio (Fin 0) (Fin v) = Fin 0"
  using assms by (auto simp: safe_atan2_ratio_def arc_rate_floor_def real_atan2_def)

lemma safe_atan2_ratio_reversed:
  assumes "v \<le> - (1 / 10 ^ 10)"
  shows "safe_atan2_ratio (Fin 0) (Fin v) = Fin pi"
  using assms by (auto simp: safe_atan2_ratio_def arc_rate_floor_def real_atan2_def)

lemma pair_roll_forward:
  assumes "0 \<le> v" "cos yaw > 0" "- pi < roll - cant" "roll - cant \<le> pi"
  shows "compute_pair_roll (Fin roll) (Fin yaw) (Fin cant) 0 0 (Fin v) = Fin (roll - cant)"
proof -
  have "cos yaw * sin (roll - cant) = cos cant * (sin roll * cos yaw) - sin cant * (cos roll * cos yaw)"
    "cos yaw * cos (roll - cant) = cos cant * (cos roll * cos yaw) + sin cant * (sin roll * cos yaw)"
    by (simp_all add: sin_diff cos_diff algebra_simps)
  then have e: "real_atan2 (cos cant * (sin roll * cos yaw) - sin cant * (cos roll * cos yaw))
     (cos cant * (cos roll * cos yaw) + sin cant * (sin roll * cos yaw)) = roll - cant"
    using real_atan2_polar [OF assms(2-4)] by simp
  show ?thesis
    using e by (simp add: compute_pair_roll_def safe_atan2_ratio_forward [OF assms(1)] Let_def algebra_simps)
qed

text \<open>On a smooth track, standing or running forward, the pose of a wheel is what its name says: the pair roll is the
  wheelset roll against the laying cant, the pair yaw is the wheelset yaw, and the geometry decodes from the lateral
  offset and the vertical raise, with the same expression that formed them, the separation of the wheel datum from the rail
  datum in the axes of the canted rail.\<close>
theorem pose_on_smooth_track:
  fixes v roll yaw cant y z R w dy dz :: real and pitch :: bool
  assumes "0 \<le> v" "cos yaw > 0" "- pi < roll - cant" "roll - cant \<le> pi"
  defines "constants \<equiv> \<lparr>pc_rail_lateral_datum = Fin dy, pc_rail_vertical_datum = Fin dz, pc_rail_roll = Fin cant,
             pc_wheel_lateral_datum = Fin w, pc_nominal_rolling_radius = Fin R, pc_apply_pitch_correction = pitch\<rparr>"
  defines "input \<equiv> \<lparr>pi_placement = \<lparr>pl_lateral = Fin y, pl_vertical = Fin z, pl_roll = Fin roll, pl_yaw = Fin yaw\<rparr>,
             pi_station_rate = Fin v, pi_irregularity = smooth_track\<rparr>"
  defines "across \<equiv> y + cos roll * (cos yaw * w) - sin roll * R - dy"
    and "down \<equiv> z + sin roll * (cos yaw * w) + cos roll * R - dz"
  shows "ps_roll (build_contact_pose_scalars constants input) = Fin (roll - cant)
    \<and> ps_yaw (build_contact_pose_scalars constants input) = Fin yaw
    \<and> decode_pose (build_contact_pose_scalars constants input)
        = (Fin (cos cant * across + sin cant * down), Fin (- sin cant * across + cos cant * down))"
proof -
  have s: "separation_in_rail constants input
      = (Fin (cos cant * across + sin cant * down), Fin (- sin cant * across + cos cant * down))"
    by (simp add: separation_in_rail_def constants_def input_def smooth_track_def across_def down_def Let_def
        safe_atan2_ratio_forward [OF assms(1)] algebra_simps)
  have r: "ps_roll (build_contact_pose_scalars constants input) = Fin (roll - cant)"
    "ps_yaw (build_contact_pose_scalars constants input) = Fin yaw"
    using pair_roll_forward [OF assms(1-4)] safe_atan2_ratio_forward [OF assms(1)]
    by (simp_all add: build_contact_pose_scalars_def s Let_def, simp_all add: constants_def input_def smooth_track_def)
  show ?thesis using r decode_pose_inverse [OF s r(1)] by simp
qed

theorem pose_on_smooth_track_witness:
  "ps_roll (build_contact_pose_scalars
     \<lparr>pc_rail_lateral_datum = Fin 0, pc_rail_vertical_datum = Fin 0, pc_rail_roll = Fin (1 / 40),
      pc_wheel_lateral_datum = Fin (3 / 4), pc_nominal_rolling_radius = Fin (1 / 2), pc_apply_pitch_correction = True\<rparr>
     \<lparr>pi_placement = \<lparr>pl_lateral = Fin 0, pl_vertical = Fin 0, pl_roll = Fin 1, pl_yaw = Fin 0\<rparr>,
      pi_station_rate = Fin 10, pi_irregularity = smooth_track\<rparr>) = Fin (39 / 40)"
proof -
  have "- pi < (1 - 1 / 40 :: real)" "1 - 1 / 40 \<le> pi" using pi_ge_two by simp_all
  from pose_on_smooth_track [OF _ _ this, of 10 0] show ?thesis by simp
qed

text \<open>Running backward on the same track, the guarded ratio is half a turn, as its documentation says: the pair yaw is turned
  by half a turn although the wheelset has not turned.\<close>

lemma pose_reversed:
  assumes "v \<le> - (1 / 10 ^ 10)" "pi_station_rate input = Fin v" "pi_irregularity input = smooth_track"
    and "pl_yaw (pi_placement input) = Fin yaw"
  shows "ps_yaw (build_contact_pose_scalars constants input) = Fin (yaw - pi)"
  using assms(2-4) safe_atan2_ratio_reversed [OF assms(1)]
  by (cases "separation_in_rail constants input") (simp add: build_contact_pose_scalars_def smooth_track_def Let_def)

end
