(* ===== verification/Normal_Contact.thy ===== *)
theory Normal_Contact
  imports Contact_Kinematics
begin

section \<open>The normal contact force\<close>

text \<open>
  \<open>normal_contact_force.cc\<close> of \<open>libs/wheel_rail_contact\<close>: the complete elliptic integral by the
  arithmetic-geometric mean, the circular segment of a given chord and area, and the normal law.  The lemmas
  show that both iterations end by their tolerance and not by their cap, with the error that tolerance promises, and that every
  result of the law, whatever geometry it is given, is a pushing force with an exact split or a result of zeros.
\<close>

subsection \<open>Constants and records\<close>

definition segment_height_floor :: double where "segment_height_floor = Fin (1 / 10 ^ 15)"
definition segment_height_tolerance :: double where "segment_height_tolerance = Fin (1 / 10 ^ 14)"
definition segment_height_iterations :: nat where "segment_height_iterations = 80"
definition elliptic_parameter_ceiling :: double where "elliptic_parameter_ceiling = 1 - Fin (1 / 10 ^ 15)"
definition agm_tolerance :: double where "agm_tolerance = Fin (1 / 10 ^ 15)"
definition agm_iterations :: nat where "agm_iterations = 80"
definition contact_angle_cosine_floor :: double where "contact_angle_cosine_floor = Fin (1 / 10 ^ 6)"
definition rolling_radius_floor :: double where "rolling_radius_floor = Fin (1 / 10 ^ 9)"

record contact_material =
  youngs_modulus :: double
  poisson_ratio :: double

record normal_configuration =
  nc_material :: contact_material
  nc_equivalence_factor :: double
  nc_reference_damping :: double
  nc_reference_stiffness :: double
  nc_damping_activation :: double

record normal_geometry =
  ng_area :: double
  ng_arc_width :: double
  ng_length :: double
  ng_penetration :: double
  ng_rolling_radius :: double
  ng_normal_angle :: double

record normal_result =
  nr_force :: double
  nr_elastic :: double
  nr_damping :: double
  nr_longitudinal_semi_axis :: double
  nr_lateral_semi_axis :: double
  nr_penetration :: double
  nr_pressure :: double
  nr_length_fallback :: bool
  nr_in_contact :: bool

definition no_contact :: normal_result where
  "no_contact = \<lparr>nr_force = 0, nr_elastic = 0, nr_damping = 0, nr_longitudinal_semi_axis = 0,
                 nr_lateral_semi_axis = 0, nr_penetration = 0, nr_pressure = 0,
                 nr_length_fallback = False, nr_in_contact = False\<rparr>"

subsection \<open>The elliptic integral\<close>

fun agm_loop :: "nat \<Rightarrow> double \<Rightarrow> double \<Rightarrow> double" where
  "agm_loop 0 arithmetic geometric = arithmetic"
| "agm_loop (Suc steps) arithmetic geometric =
     (let next_arithmetic = half * (arithmetic + geometric);
          next_geometric = std_sqrt (arithmetic * geometric)
      in if \<bar>next_arithmetic - next_geometric\<bar> < agm_tolerance then next_arithmetic
         else agm_loop steps next_arithmetic next_geometric)"

definition complete_elliptic_integral :: "double \<Rightarrow> double" where
  "complete_elliptic_integral parameter =
     (let clamped = std_min (std_max parameter 0) elliptic_parameter_ceiling
      in numbers_pi / (2 * agm_loop agm_iterations 1 (std_sqrt (std_max 0 (1 - clamped)))))"

subsection \<open>The circular segment\<close>

definition circular_segment_area :: "double \<Rightarrow> double \<Rightarrow> double" where
  "circular_segment_area height chord =
     (if \<not> 0 < height \<or> \<not> 0 < chord then 0
      else let radius = (chord * chord) / (8 * height) + half * height;
               cosine = std_min (std_max ((radius - height) / radius) (- 1)) 1;
               angle = 2 * std_acos cosine
           in half * radius * radius * (angle - std_sin angle))"

fun segment_bisection :: "nat \<Rightarrow> double \<Rightarrow> double \<Rightarrow> double \<Rightarrow> double \<Rightarrow> double \<times> double" where
  "segment_bisection 0 chord area low high = (low, high)"
| "segment_bisection (Suc steps) chord area low high =
     (let middle = half * (low + high);
          low' = (if area < circular_segment_area middle chord then low else middle);
          high' = (if area < circular_segment_area middle chord then middle else high)
      in if high' - low' < segment_height_tolerance then (low', high')
         else segment_bisection steps chord area low' high')"

definition solve_circular_segment_height :: "double \<Rightarrow> double \<Rightarrow> double" where
  "solve_circular_segment_height chord area =
     (if \<not> 0 < area \<or> \<not> 0 < chord then 0
      else case segment_bisection segment_height_iterations chord area segment_height_floor chord of
             (low, high) \<Rightarrow> half * (low + high))"

subsection \<open>The law\<close>

record normal_law =
  nl_configuration :: normal_configuration
  nl_equivalent_modulus :: double

definition make_normal_law :: "normal_configuration \<Rightarrow> normal_law outcome" where
  "make_normal_law configuration =
     (let material = nc_material configuration
      in bindS (all_checks
           [reject_if (\<not> isfinite (youngs_modulus material) \<or> \<not> 0 < youngs_modulus material) InvalidArgument,
            reject_if (\<not> 0 \<le> poisson_ratio material \<or> \<not> poisson_ratio material < half) InvalidArgument,
            reject_if (\<not> 0 < nc_reference_stiffness configuration \<or> \<not> 0 < nc_reference_damping configuration
                       \<or> \<not> isfinite (nc_equivalence_factor configuration)) InvalidArgument]) (\<lambda>_.
         Inr \<lparr>nl_configuration = configuration,
              nl_equivalent_modulus =
                1 / ((2 * (1 - poisson_ratio material * poisson_ratio material)) / youngs_modulus material)\<rparr>))"

definition geometry_usable :: "normal_geometry \<Rightarrow> bool" where
  "geometry_usable g \<longleftrightarrow>
     isfinite (ng_arc_width g) \<and> isfinite (ng_area g) \<and> isfinite (ng_penetration g) \<and> isfinite (ng_rolling_radius g)
     \<and> 0 < ng_penetration g \<and> 0 < ng_area g \<and> 0 < ng_arc_width g \<and> rolling_radius_floor < ng_rolling_radius g"

text \<open>The longitudinal length of the ellipse and whether it is the analytic one.\<close>

definition contact_length :: "normal_geometry \<Rightarrow> double \<times> bool" where
  "contact_length g =
     (let angle_cosine = std_max \<bar>std_cos (ng_normal_angle g)\<bar> contact_angle_cosine_floor;
          effective_radius = ng_rolling_radius g / angle_cosine
      in if isfinite (ng_length g) \<and> 0 < ng_length g then (ng_length g, False)
         else (2 * std_sqrt (std_max 0 (2 * effective_radius * ng_penetration g)), True))"

text \<open>The damping force and the total, from the elastic force and the equivalent penetration.\<close>

definition damped_force :: "normal_configuration \<Rightarrow> double \<Rightarrow> double \<Rightarrow> double \<Rightarrow> double \<times> double" where
  "damped_force c elastic penetration approach =
     (let secant_stiffness = elastic / penetration
      in if nc_damping_activation c < penetration \<and> 0 < secant_stiffness then
           (let coefficient = nc_reference_damping c * std_sqrt (secant_stiffness / nc_reference_stiffness c);
                damping = coefficient * approach;
                applied = std_max 0 (elastic + damping)
            in (if feq applied 0 then - elastic else damping, applied))
         else (0, elastic))"

definition normal_solve :: "normal_law \<Rightarrow> normal_geometry \<Rightarrow> double \<Rightarrow> normal_result" where
  "normal_solve law g approach =
     (let c = nl_configuration law
      in if \<not> geometry_usable g then no_contact
         else case contact_length g of (extent, fallback) \<Rightarrow>
           if \<not> 0 < extent then no_contact
           else
             let rejected = no_contact\<lparr>nr_length_fallback := fallback\<rparr>;
                 lateral = half * ng_arc_width g;
                 longitudinal = half * extent;
                 penetration = solve_circular_segment_height (ng_arc_width g) (ng_area g) * nc_equivalence_factor c
             in if \<not> 0 < penetration then rejected
                else
                  let major = std_max longitudinal lateral;
                      minor = std_min longitudinal lateral;
                      ratio = minor / major;
                      eccentricity = std_sqrt (std_max 0 (1 - ratio * ratio));
                      integral = complete_elliptic_integral (eccentricity * eccentricity)
                  in if \<not> 0 < integral then rejected
                     else
                       let pressure = penetration * nl_equivalent_modulus law / (minor * integral);
                           elastic = Fin (2 / 3) * numbers_pi * major * minor * pressure
                       in if \<not> 0 < elastic then rejected
                          else case damped_force c elastic penetration approach of (damping, applied) \<Rightarrow>
                            \<lparr>nr_force = applied, nr_elastic = elastic, nr_damping = damping,
                             nr_longitudinal_semi_axis = longitudinal, nr_lateral_semi_axis = lateral,
                             nr_penetration = penetration, nr_pressure = pressure,
                             nr_length_fallback = fallback, nr_in_contact = True\<rparr>)"

subsection \<open>The arithmetic-geometric mean\<close>

primrec agm_pair :: "real \<Rightarrow> real \<Rightarrow> nat \<Rightarrow> real \<times> real" where
  "agm_pair a g 0 = (a, g)"
| "agm_pair a g (Suc n) = agm_pair ((a + g) / 2) (sqrt (a * g)) n"

lemma agm_step:
  assumes "0 < g" "g \<le> a"
  shows "0 < sqrt (a * g)" "g \<le> sqrt (a * g)" "sqrt (a * g) \<le> (a + g) / 2" "(a + g) / 2 \<le> a"
    "(a + g) / 2 - sqrt (a * g) \<le> (a - g) / 2"
proof -
  show "0 < sqrt (a * g)" using assms by simp
  have "sqrt (g * g) \<le> sqrt (a * g)" using assms by (intro real_sqrt_le_mono mult_right_mono) auto
  then show 1: "g \<le> sqrt (a * g)" using assms by simp
  show "sqrt (a * g) \<le> (a + g) / 2" using arith_geo_mean_sqrt [of a g] assms by simp
  show "(a + g) / 2 \<le> a" using assms by simp
  show "(a + g) / 2 - sqrt (a * g) \<le> (a - g) / 2" using 1 by (simp add: field_simps)
qed

lemma agm_pair_bounds:
  assumes "0 < g" "g \<le> a"
  shows "g \<le> snd (agm_pair a g n) \<and> snd (agm_pair a g n) \<le> fst (agm_pair a g n) \<and> fst (agm_pair a g n) \<le> a
    \<and> fst (agm_pair a g n) - snd (agm_pair a g n) \<le> (a - g) / 2 ^ n"
  using assms
proof (induction n arbitrary: a g)
  case (Suc n)
  note s = agm_step [OF Suc.prems]
  have "((a + g) / 2 - sqrt (a * g)) / 2 ^ n \<le> (a - g) / 2 / 2 ^ n" using s(5) by (rule divide_right_mono) simp
  then show ?case using Suc.IH [OF s(1,3)] s(2,4) by auto
qed simp

lemma agm_pair_Suc: "agm_pair a g (Suc n) = (let (x, y) = agm_pair a g n in ((x + y) / 2, sqrt (x * y)))"
proof (induction n arbitrary: a g)
  case (Suc n)
  have "agm_pair a g (Suc (Suc n)) = agm_pair ((a + g) / 2) (sqrt (a * g)) (Suc n)" by (rule agm_pair.simps(2))
  also note Suc.IH
  also have "agm_pair ((a + g) / 2) (sqrt (a * g)) n = agm_pair a g (Suc n)" by simp
  finally show ?case .
qed (simp add: Let_def)

text \<open>The two sequences nest, so a common limit separates them.\<close>

lemma agm_exists:
  assumes "0 < g" "g \<le> a"
  shows "\<exists>M. \<forall>n. snd (agm_pair a g n) \<le> M \<and> M \<le> fst (agm_pair a g n)"
proof -
  define A where "A n = fst (agm_pair a g n)" for n
  define G where "G n = snd (agm_pair a g n)" for n
  have pos: "0 < G n" "G n \<le> A n" for n
    using agm_pair_bounds [OF assms, of n] assms(1) unfolding A_def G_def by linarith+
  have step: "G n \<le> G (Suc n)" "A (Suc n) \<le> A n" for n
  proof -
    have "A (Suc n) = (A n + G n) / 2" "G (Suc n) = sqrt (A n * G n)"
      unfolding A_def G_def agm_pair_Suc by (simp_all add: Let_def split_beta)
    then show "G n \<le> G (Suc n)" "A (Suc n) \<le> A n" using agm_step(2,4) [OF pos [of n]] by simp_all
  qed
  have up: "G m \<le> G n" if "m \<le> n" for m n using step(1) that by (rule lift_Suc_mono_le)
  have down: "A n \<le> A m" if "m \<le> n" for m n using step(2) that by (rule lift_Suc_antimono_le)
  have cross: "G m \<le> A n" for m n
    using up [of m "max m n"] down [of n "max m n"] pos(2) [of "max m n"] by simp
  define M where "M = (SUP n. G n)"
  have "bdd_above (range G)" using cross by (intro bdd_aboveI [of _ "A 0"]) auto
  then have "G n \<le> M" for n unfolding M_def by (rule cSUP_upper2) auto
  moreover have "M \<le> A n" for n unfolding M_def using cross by (intro cSUP_least) auto
  ultimately show ?thesis unfolding A_def G_def by blast
qed

lemma agm_loop_Suc:
  "0 \<le> a * g \<Longrightarrow> agm_loop (Suc k) (Fin a) (Fin g) =
     (if \<bar>(a + g) / 2 - sqrt (a * g)\<bar> < 1 / 10 ^ 15 then Fin ((a + g) / 2)
      else agm_loop k (Fin ((a + g) / 2)) (Fin (sqrt (a * g))))"
  by (simp add: Let_def agm_tolerance_def not_less)

lemma agm_loop_run:
  assumes "0 < g" "g \<le> a" and "(a - g) / 2 ^ k < 1 / 10 ^ 15" "0 < k"
  shows "\<exists>n. 0 < n \<and> n \<le> k \<and> agm_loop k (Fin a) (Fin g) = Fin (fst (agm_pair a g n))
    \<and> fst (agm_pair a g n) - snd (agm_pair a g n) < 1 / 10 ^ 15"
  using assms
proof (induction k arbitrary: a g)
  case (Suc k)
  note s = agm_step [OF Suc.prems(1,2)]
  let ?a = "(a + g) / 2" and ?g = "sqrt (a * g)"
  have nn: "0 \<le> a * g" using Suc.prems by simp
  show ?case
  proof (cases "?a - ?g < 1 / 10 ^ 15")
    case True
    then show ?thesis using s nn by (intro exI [of _ "Suc 0"]) (simp add: agm_loop_Suc del: agm_loop.simps)
  next
    case False
    have "?a - ?g \<le> (a - g) / 2" by (rule s(5))
    then have "(?a - ?g) / 2 ^ k \<le> (a - g) / 2 / 2 ^ k" by (rule divide_right_mono) simp
    also have "\<dots> = (a - g) / 2 ^ Suc k" by simp
    also note Suc.prems(3)
    finally have small: "(?a - ?g) / 2 ^ k < 1 / 10 ^ 15" .
    have k: "0 < k" using small False by (cases k) auto
    obtain n where "0 < n" "n \<le> k" "agm_loop k (Fin ?a) (Fin ?g) = Fin (fst (agm_pair ?a ?g n))"
      "fst (agm_pair ?a ?g n) - snd (agm_pair ?a ?g n) < 1 / 10 ^ 15"
      using Suc.IH [OF s(1,3) small k] by blast
    then show ?thesis using False s(3) nn
      by (intro exI [of _ "Suc n"]) (auto simp: agm_loop_Suc simp del: agm_loop.simps)
  qed
qed simp

definition clamped_parameter :: "real \<Rightarrow> real" where
  "clamped_parameter m = min (max m 0) (1 - 1 / 10 ^ 15)"

definition complementary_modulus :: "real \<Rightarrow> real" where
  "complementary_modulus m = sqrt (1 - clamped_parameter m)"

lemma elliptic_integral_mean:
  fixes m :: real
  defines "g \<equiv> sqrt (1 - clamped_parameter m)"
  shows "\<exists>M x n. complete_elliptic_integral (Fin m) = numbers_pi / (2 * Fin x)
    \<and> n \<le> agm_iterations \<and> x = fst (agm_pair 1 g n) \<and> x - snd (agm_pair 1 g n) < 1 / 10 ^ 15
    \<and> (\<forall>n. snd (agm_pair 1 g n) \<le> M \<and> M \<le> fst (agm_pair 1 g n))
    \<and> M \<le> x \<and> x < M + 1 / 10 ^ 15 \<and> g \<le> M \<and> 0 < M \<and> x \<le> 1"
proof -
  have c: "0 \<le> clamped_parameter m" "clamped_parameter m < 1" by (auto simp: clamped_parameter_def)
  then have g: "0 < g" "g \<le> 1" unfolding g_def by auto
  have "(1 - g) / 2 ^ 80 < 1 / 10 ^ 15" using g by (auto simp: field_simps)
  then obtain n where n: "n \<le> 80" "agm_loop 80 (Fin 1) (Fin g) = Fin (fst (agm_pair 1 g n))"
      "fst (agm_pair 1 g n) - snd (agm_pair 1 g n) < 1 / 10 ^ 15"
    using agm_loop_run [OF g, of 80] by auto
  obtain M where M: "\<forall>n. snd (agm_pair 1 g n) \<le> M \<and> M \<le> fst (agm_pair 1 g n)" using agm_exists [OF g] by blast
  have e: "complete_elliptic_integral (Fin m) = numbers_pi / (2 * agm_loop 80 (Fin 1) (Fin g))"
    using c(2) by (simp add: complete_elliptic_integral_def elliptic_parameter_ceiling_def agm_iterations_def Let_def
        clamped_parameter_def g_def min.commute)
  have near: "x - y < t \<Longrightarrow> y \<le> M \<Longrightarrow> x < M + t" for x y t :: real by linarith
  have ends: "g \<le> M" "fst (agm_pair 1 g n) \<le> 1" "snd (agm_pair 1 g n) \<le> M" "M \<le> fst (agm_pair 1 g n)"
    using spec [OF M, of 0] spec [OF M, of n] agm_pair_bounds [OF g, of n] by simp_all
  have v: "complete_elliptic_integral (Fin m) = numbers_pi / (2 * Fin (fst (agm_pair 1 g n)))"
    unfolding e n(2) ..
  have "n \<le> agm_iterations" using n(1) by (simp add: agm_iterations_def)
  then show ?thesis
    using v n(3) M near [OF n(3) ends(3)] ends order.strict_trans2 [OF g(1) ends(1)]
    by (intro exI [of _ M] exI [of _ "fst (agm_pair 1 g n)"] exI [of _ n] conjI) (assumption | rule refl)+
qed

text \<open>C9: The elliptic integral is the quotient of Gauss.  For every finite parameter the loop ends by its tolerance before
  its 80 steps are used up, and the value is the double of pi over twice a number that lies at most \<open>10 ^ -15\<close> above
  the arithmetic-geometric mean of 1 and the complementary modulus; in particular it is positive and finite.\<close>
theorem elliptic_integral_value:
  "\<exists>M x n. complete_elliptic_integral (Fin m) = numbers_pi / (2 * Fin x)
    \<and> n \<le> agm_iterations \<and> x = fst (agm_pair 1 (complementary_modulus m) n)
    \<and> x - snd (agm_pair 1 (complementary_modulus m) n) < 1 / 10 ^ 15
    \<and> (\<forall>n. snd (agm_pair 1 (complementary_modulus m) n) \<le> M \<and> M \<le> fst (agm_pair 1 (complementary_modulus m) n))
    \<and> M \<le> x \<and> x < M + 1 / 10 ^ 15 \<and> complementary_modulus m \<le> M \<and> 0 < M \<and> x \<le> 1"
  unfolding complementary_modulus_def by (rule elliptic_integral_mean)

lemma elliptic_integral_positive: "\<exists>k. complete_elliptic_integral (Fin m) = Fin k \<and> 0 < k"
proof -
  obtain M x where x: "complete_elliptic_integral (Fin m) = numbers_pi / (2 * Fin x)" "M \<le> x" "0 < M"
    using elliptic_integral_mean [of m] by blast
  obtain p where p: "numbers_pi = Fin p" "0 < p" using numbers_pi_pos by blast
  have "complete_elliptic_integral (Fin m) = Fin (p / (2 * x))" unfolding x(1) p(1) using x by simp
  then show ?thesis using x p by (intro exI [of _ "p / (2 * x)"]) auto
qed

subsection \<open>The circular segment of a given area\<close>

definition real_segment_area :: "real \<Rightarrow> real \<Rightarrow> real" where
  "real_segment_area h c =
     (let r = c * c / (8 * h) + h / 2; a = 2 * arccos (min (max ((r - h) / r) (- 1)) 1)
      in r * r * (a - sin a) / 2)"

lemma circular_segment_area_Fin:
  assumes "0 < h" "0 < c"
  shows "circular_segment_area (Fin h) (Fin c) = Fin (real_segment_area h c)"
proof -
  have r: "0 < c * c / (8 * h) + h / 2" using assms by (intro add_pos_pos) auto
  have clamp: "- 1 \<le> min (max x (- 1)) 1" "min (max x (- 1)) 1 \<le> (1 :: real)" for x by auto
  have n: "Fin c * Fin c / (8 * Fin h) + half * Fin h = Fin (c * c / (8 * h) + h / 2)" using assms by simp
  show ?thesis
    unfolding circular_segment_area_def Let_def n using assms r clamp
    by (simp add: real_segment_area_def Let_def)
qed

lemma segment_area_continuous:
  assumes "0 < l" "0 < c"
  shows "continuous_on {l..h} (\<lambda>x. real_segment_area x c)"
proof -
  have r: "0 < c * c / (8 * x) + x / 2" if "x \<in> {l..h}" for x using that assms by (intro add_pos_pos) auto
  show ?thesis
    unfolding real_segment_area_def Let_def
    using r assms by (intro continuous_intros) (auto simp: less_imp_neq [THEN not_sym] dest: r)
qed

text \<open>The bracket keeps a root, and every turn halves it.\<close>

lemma segment_bisection_bracket:
  assumes "0 < l" "l \<le> h" "0 < c" "real_segment_area l c \<le> a" "a \<le> real_segment_area h c" "0 < n" "(h - l) / 2 ^ n < 1 / 10 ^ 14"
  shows "\<exists>l' h'. segment_bisection n (Fin c) (Fin a) (Fin l) (Fin h) = (Fin l', Fin h') \<and> l \<le> l' \<and> l' \<le> h' \<and> h' \<le> h
    \<and> real_segment_area l' c \<le> a \<and> a \<le> real_segment_area h' c \<and> h' - l' < 1 / 10 ^ 14"
  using assms
proof (induction n arbitrary: l h)
  case (Suc n)
  define m where "m = (l + h) / 2"
  define l' where "l' = (if a < real_segment_area m c then l else m)"
  define h' where "h' = (if a < real_segment_area m c then m else h)"
  have m: "0 < m" "l \<le> m" "m \<le> h" using Suc.prems(1,2) by (auto simp: m_def)
  have area: "circular_segment_area (Fin m) (Fin c) = Fin (real_segment_area m c)"
    by (rule circular_segment_area_Fin [OF m(1) Suc.prems(3)])
  have mid: "half * (Fin l + Fin h) = Fin m" by (simp add: m_def)
  have new: "0 < l'" "l \<le> l'" "l' \<le> h'" "h' \<le> h" "real_segment_area l' c \<le> a" "a \<le> real_segment_area h' c" "h' - l' = (h - l) / 2"
    using Suc.prems m by (auto simp: l'_def h'_def m_def field_simps)
  have step: "segment_bisection (Suc n) (Fin c) (Fin a) (Fin l) (Fin h)
      = (if h' - l' < 1 / 10 ^ 14 then (Fin l', Fin h') else segment_bisection n (Fin c) (Fin a) (Fin l') (Fin h'))"
    unfolding segment_bisection.simps mid area Let_def
    by (simp add: l'_def h'_def segment_height_tolerance_def)
  show ?case
  proof (cases "h' - l' < 1 / 10 ^ 14")
    case True
    then show ?thesis unfolding step using new by auto
  next
    case False
    have small: "(h' - l') / 2 ^ n < 1 / 10 ^ 14" using Suc.prems(7) new(7) by (simp add: divide_simps)
    then have "0 < n" using False by (cases n) auto
    from Suc.IH [OF new(1,3) Suc.prems(3) new(5,6) this small] False
    show ?thesis unfolding step using new(2,4) by force
  qed
qed simp

text \<open>The inversion of the circular segment is right to its tolerance.  For a chord between the bracket's floor and
  a thousand kilometres, and every positive area between those of the shallowest and the widest bracketed segment, the bisection
  ends by its tolerance and the returned height lies within half of \<open>10 ^ -14\<close> metres of a height whose segment has exactly
  the given area.\<close>
theorem segment_height_solves_area:
  fixes c a :: real
  assumes c: "1 / 10 ^ 15 \<le> c" "c \<le> 10 ^ 6" and a: "0 < a" "real_segment_area (1 / 10 ^ 15) c \<le> a" "a \<le> real_segment_area c c"
  shows "\<exists>h x. solve_circular_segment_height (Fin c) (Fin a) = Fin x \<and> 1 / 10 ^ 15 \<le> h \<and> h \<le> c
    \<and> circular_segment_area (Fin h) (Fin c) = Fin a \<and> \<bar>x - h\<bar> < 1 / 10 ^ 14 / 2"
proof -
  have c0: "0 < c" using c(1) by (rule order.strict_trans2 [rotated]) simp
  have "(c - 1 / 10 ^ 15) / 2 ^ 80 < 1 / 10 ^ 14"
    using c(2) by (auto simp: field_simps)
  then obtain l h where b: "segment_bisection 80 (Fin c) (Fin a) (Fin (1 / 10 ^ 15)) (Fin c) = (Fin l, Fin h)" "1 / 10 ^ 15 \<le> l" "l \<le> h" "h \<le> c"
      "real_segment_area l c \<le> a" "a \<le> real_segment_area h c" "h - l < 1 / 10 ^ 14"
    using segment_bisection_bracket [of "1 / 10 ^ 15" c c a 80] c c0 a by auto
  have l0: "0 < l" using b(2) by (rule order.strict_trans2 [rotated]) simp
  obtain x where x: "l \<le> x" "x \<le> h" "real_segment_area x c = a"
    using IVT' [OF b(5,6,3) segment_area_continuous [OF l0 c0]] by blast
  have "solve_circular_segment_height (Fin c) (Fin a) = Fin ((l + h) / 2)"
    using b(1) a(1) c0 by (simp add: solve_circular_segment_height_def segment_height_iterations_def segment_height_floor_def)
  moreover have "h - l < t \<Longrightarrow> \<bar>(l + h) / 2 - x\<bar> < t / 2" for t
    unfolding abs_less_iff using x(1,2) by (intro conjI; simp add: field_simps)
  then have "\<bar>(l + h) / 2 - x\<bar> < 1 / 10 ^ 14 / 2" using b(7) by blast
  ultimately show ?thesis
    using x b(2,4) l0 c0 circular_segment_area_Fin [of x c] by (intro exI [of _ x] exI [of _ "(l + h) / 2"]) auto
qed

subsection \<open>What the law returns\<close>

lemma halved: "\<exists>y. x = y * (2 :: real)"
  by (rule exI [of _ "x / 2"]) simp

lemma segment_bisection_finite:
  "\<exists>l' h'. segment_bisection n c a (Fin l) (Fin h) = (Fin l', Fin h')"
proof (induction n arbitrary: l h)
  case (Suc n)
  have "half * (Fin l + Fin h) = Fin ((l + h) / 2)" by simp
  then show ?case using Suc.IH by (auto simp: Let_def halved)
qed simp

lemma segment_height_finite: "isfinite chord \<Longrightarrow> isfinite (solve_circular_segment_height chord area)"
  using segment_bisection_finite [of segment_height_iterations chord area "1 / 10 ^ 15" "to_real chord"]
  by (auto simp: solve_circular_segment_height_def segment_height_floor_def isfinite_iff halved)

lemma damped_force_spec:
  assumes "0 < E" "0 < p" "nc_reference_damping c = Fin d" "0 < d" "nc_reference_stiffness c = Fin k" "0 < k"
  shows "\<exists>D F. damped_force c (Fin E) (Fin p) (Fin v) = (Fin D, Fin F) \<and> F = E + D \<and> 0 \<le> F \<and> 0 \<le> D * v"
proof (cases "nc_damping_activation c < Fin p")
  case True
  define q where "q = d * sqrt (E / p / k)"
  have q: "0 < q" using assms by (simp add: q_def)
  have s: "Fin E / Fin p = Fin (E / p)" "Fin 0 < Fin (E / p)" using assms by simp_all
  have coefficient: "nc_reference_damping c * std_sqrt (Fin (E / p) / nc_reference_stiffness c) = Fin q"
    using assms less_imp_le [of 0 "E / (p * k)"] by (simp add: q_def not_less)
  define F where "F = max 0 (E + q * v)"
  have e: "damped_force c (Fin E) (Fin p) (Fin v) = (if F = 0 then - Fin E else Fin (q * v), Fin F)"
    unfolding damped_force_def s(1) Let_def coefficient using True s(2) by (simp add: F_def)
  have "0 \<le> q * v * v" using q by (simp add: mult.assoc)
  moreover have "v \<le> 0" if "E + q * v \<le> 0"
  proof (rule ccontr)
    assume "\<not> v \<le> 0"
    then have "0 < q * v" using q by simp
    then show False using that assms(1) by linarith
  qed
  ultimately show ?thesis
    unfolding e using assms(1) by (auto simp: F_def max_def mult_nonneg_nonpos mult_nonpos_nonpos split: if_splits)
next
  case False
  then show ?thesis using assms(1) by (simp add: damped_force_def Let_def)
qed

lemma contact_length_finite:
  assumes "geometry_usable g" "contact_length g = (e, fallback)" "0 < e"
  shows "isfinite e"
proof -
  obtain R p where g: "ng_rolling_radius g = Fin R" "ng_penetration g = Fin p" "0 < p"
    using assms(1) by (auto simp: geometry_usable_def isfinite_iff)
  define c where "c = std_max \<bar>std_cos (ng_normal_angle g)\<bar> contact_angle_cosine_floor"
  have "(\<exists>x. c = Fin x \<and> 0 < x) \<or> c = NaN"
  proof (cases "ng_normal_angle g")
    case (Fin x)
    have "c = Fin (max \<bar>cos x\<bar> (1 / 10 ^ 6))" by (simp add: c_def Fin contact_angle_cosine_floor_def)
    moreover have "0 < max \<bar>cos x\<bar> (1 / 10 ^ 6)" by (simp add: less_max_iff_disj)
    ultimately show ?thesis by blast
  qed (simp_all add: c_def std_max_def)
  then have "(\<exists>y. ng_rolling_radius g / c = Fin y) \<or> ng_rolling_radius g / c = NaN" using g by auto
  then show ?thesis
    using assms(2,3) unfolding contact_length_def c_def [symmetric] Let_def g
    by (auto simp: std_max_def not_less split: if_splits)
qed

text \<open>A result is one of zeros, or a contact whose numbers are these.\<close>

definition contact_numbers :: "normal_geometry \<Rightarrow> double \<Rightarrow> normal_result \<Rightarrow> bool" where
  "contact_numbers g approach r \<longleftrightarrow> nr_in_contact r \<and>
     (\<exists>F E D v a b p. nr_force r = Fin F \<and> nr_elastic r = Fin E \<and> nr_damping r = Fin D \<and> approach = Fin v
       \<and> nr_longitudinal_semi_axis r = Fin a \<and> nr_lateral_semi_axis r = Fin b \<and> nr_pressure r = Fin p
       \<and> F = E + D \<and> 0 \<le> F \<and> 0 < E \<and> 0 \<le> D * v \<and> 0 < a \<and> 0 < b \<and> 0 < p
       \<and> 2 * Fin b = ng_arc_width g \<and> nr_elastic r = Fin (2 / 3) * numbers_pi * Fin a * Fin b * Fin p
       \<and> 0 < nr_penetration r)"

lemma normal_law_modulus:
  assumes "make_normal_law c = Inr law"
  shows "nl_configuration law = c" "\<exists>m. nl_equivalent_modulus law = Fin m \<and> 0 < m"
    "isfinite (nc_equivalence_factor c)" "0 < nc_reference_damping c" "0 < nc_reference_stiffness c"
proof -
  show "nl_configuration law = c" "isfinite (nc_equivalence_factor c)" "0 < nc_reference_damping c" "0 < nc_reference_stiffness c"
    using assms by (auto simp: make_normal_law_def Let_def bindS_eq_Inr all_checks_Inr)
  obtain e n where m: "youngs_modulus (nc_material c) = Fin e" "0 < e" "poisson_ratio (nc_material c) = n" "0 \<le> n" "n < half"
    using assms by (auto simp: make_normal_law_def Let_def bindS_eq_Inr all_checks_Inr isfinite_iff)
  obtain x where x: "n = Fin x" using m(4,5) by (cases n) (auto simp: less_eq_double_def less_double_def)
  have "0 \<le> x" "x < 1" using m(4,5) x by simp_all
  then have "x * x < 1" using mult_strict_mono [of x 1 x 1] by simp
  then show "\<exists>m. nl_equivalent_modulus law = Fin m \<and> 0 < m"
    using assms m x by (auto simp: make_normal_law_def Let_def bindS_eq_Inr all_checks_Inr)
qed

lemma normal_solve_cases:
  assumes law: "make_normal_law c = Inr law" and d: "nc_reference_damping c = Fin d" and k: "nc_reference_stiffness c = Fin k"
    and usable: "geometry_usable g" and len: "contact_length g = (Fin len, fallback)" "0 < len"
  shows "normal_solve law g (Fin v) = no_contact\<lparr>nr_length_fallback := fallback\<rparr>
    \<or> contact_numbers g (Fin v) (normal_solve law g (Fin v)) \<and> nr_length_fallback (normal_solve law g (Fin v)) = fallback
      \<and> nr_longitudinal_semi_axis (normal_solve law g (Fin v)) = Fin (len / 2)"
proof -
  note l = normal_law_modulus [OF law]
  obtain m where m: "nl_equivalent_modulus law = Fin m" "0 < m" using l(2) by blast
  obtain w where w: "ng_arc_width g = Fin w" "0 < w" using usable by (auto simp: geometry_usable_def isfinite_iff)
  obtain q where q: "solve_circular_segment_height (ng_arc_width g) (ng_area g) * nc_equivalence_factor c = Fin q"
    using segment_height_finite [of "ng_arc_width g" "ng_area g"] w l(3) by (auto simp: isfinite_iff)
  show ?thesis
  proof (cases "0 < q")
    case False
    then show ?thesis by (simp add: normal_solve_def l(1) usable len q Let_def)
  next
    case True
    define a where "a = len / 2"
    define b where "b = w / 2"
    have ab: "half * Fin len = Fin a" "half * ng_arc_width g = Fin b" "0 < a" "0 < b"
      using len(2) w by (simp_all add: a_def b_def)
    define ratio where "ratio = min a b / max a b"
    have pos: "0 < min a b" "0 < max a b" using ab by (auto simp: less_max_iff_disj)
    have ratio: "Fin (min a b) / Fin (max a b) = Fin ratio" using pos by (simp add: ratio_def)
    define ecc where "ecc = sqrt (max 0 (1 - ratio * ratio))"
    have ecc: "std_sqrt (std_max 0 (1 - Fin ratio * Fin ratio)) = Fin ecc" by (simp add: ecc_def)
    obtain i where i: "complete_elliptic_integral (Fin (ecc * ecc)) = Fin i" "0 < i"
      using elliptic_integral_positive by blast
    obtain pi' where pi': "numbers_pi = Fin pi'" "0 < pi'" using numbers_pi_pos by blast
    define p where "p = q * m / (min a b * i)"
    have p: "0 < p" unfolding p_def using True m(2) i(2) pos(1) by simp
    define E where "E = 2 / 3 * pi' * max a b * min a b * p"
    have E: "0 < E" unfolding E_def using pi'(2) pos p by simp
    have pressure: "Fin q * nl_equivalent_modulus law / (Fin (min a b) * Fin i) = Fin p"
      unfolding m(1) Fin_times p_def by (rule Fin_divide) (use mult_pos_pos [OF pos(1) i(2)] in linarith)
    have elastic: "Fin (2 / 3) * numbers_pi * Fin (max a b) * Fin (min a b) * Fin p = Fin E"
      by (simp add: E_def pi')
    obtain D F where DF: "damped_force c (Fin E) (Fin q) (Fin v) = (Fin D, Fin F)" "F = E + D" "0 \<le> F" "0 \<le> D * v"
      using damped_force_spec [OF E True d _ k, of v] l(4,5) d k by (metis Fin_less Fin_zero)
    have result: "normal_solve law g (Fin v) =
      \<lparr>nr_force = Fin F, nr_elastic = Fin E, nr_damping = Fin D, nr_longitudinal_semi_axis = Fin a,
       nr_lateral_semi_axis = Fin b, nr_penetration = Fin q, nr_pressure = Fin p,
       nr_length_fallback = fallback, nr_in_contact = True\<rparr>"
      unfolding normal_solve_def Let_def l(1) len(1) prod.case q ab(1,2) std_max_Fin [of a b] std_min_Fin ratio ecc
        Fin_times [of ecc ecc] i(1) pressure elastic DF(1)
      using usable len(2) True E i(2) by simp
    have "max a b * min a b = a * b" by (simp add: max_def min_def)
    then have "E = 2 / 3 * pi' * a * b * p" by (simp add: E_def mult.assoc)
    then have hertz: "Fin E = Fin (2 / 3) * numbers_pi * Fin a * Fin b * Fin p" by (simp add: pi')
    have depth: "0 < Fin q" using True by simp
    have width: "2 * Fin b = ng_arc_width g" by (simp add: b_def w)
    have "contact_numbers g (Fin v) (normal_solve law g (Fin v))"
      unfolding result contact_numbers_def normal_result.select_convs
      by (intro conjI exI [of _ F] exI [of _ E] exI [of _ D] exI [of _ v] exI [of _ a] exI [of _ b] exI [of _ p])
        (rule refl TrueI DF(2-4) E ab(3,4) p width hertz depth)+
    then show ?thesis unfolding result a_def by simp
  qed
qed

text \<open>C6: Whatever geometry a wheel presents - not-a-number and infinities included - the normal law returns either a result
  of zeros without contact, or a contact whose force pushes: the elastic and the damping part sum to it exactly, also
  where the damping was clipped; the damping never feeds energy into the approach; the semi-axes are half the width and half the length,
  in their fixed order; and elastic force and peak pressure are related by Hertz's ellipsoid.\<close>
theorem normal_force_is_a_push:
  assumes "make_normal_law c = Inr law" "isfinite (nc_reference_damping c)" "isfinite (nc_reference_stiffness c)"
    and "isfinite approach"
  shows "(\<exists>fallback. normal_solve law g approach = no_contact\<lparr>nr_length_fallback := fallback\<rparr>)
    \<or> geometry_usable g \<and> contact_numbers g approach (normal_solve law g approach)
      \<and> (nr_length_fallback (normal_solve law g approach) \<longleftrightarrow> \<not> (isfinite (ng_length g) \<and> 0 < ng_length g))"
proof (cases "geometry_usable g \<and> 0 < fst (contact_length g)")
  case True
  obtain e fallback where e: "contact_length g = (e, fallback)" by (cases "contact_length g")
  obtain len where len: "e = Fin len" using contact_length_finite [OF _ e] True e by (auto simp: isfinite_iff)
  have "fallback \<longleftrightarrow> \<not> (isfinite (ng_length g) \<and> 0 < ng_length g)"
    using e by (auto simp: contact_length_def Let_def split: if_splits)
  then show ?thesis
    using normal_solve_cases [OF assms(1), of _ _ g len fallback] assms(2-4) True e len by (fastforce simp: isfinite_iff)
next
  case False
  then have "normal_solve law g approach = no_contact"
    by (cases "contact_length g") (auto simp: normal_solve_def Let_def)
  then show ?thesis by (intro disjI1 exI [of _ False]) (simp add: no_contact_def)
qed

definition steel :: normal_configuration where
  "steel = \<lparr>nc_material = \<lparr>youngs_modulus = Fin 210000000000, poisson_ratio = Fin (7 / 25)\<rparr>, nc_equivalence_factor = Fin 2,
            nc_reference_damping = Fin 100000, nc_reference_stiffness = Fin 500000000, nc_damping_activation = Fin 0\<rparr>"

theorem normal_force_is_a_push_witness:
  "\<exists>law. make_normal_law steel = Inr law
     \<and> \<not> nr_in_contact (normal_solve law \<lparr>ng_area = 1, ng_arc_width = NaN, ng_length = PosInf, ng_penetration = 1,
          ng_rolling_radius = 1, ng_normal_angle = 0\<rparr> (Fin 1))"
proof -
  obtain law where law: "make_normal_law steel = Inr law"
    by (simp add: make_normal_law_def steel_def Let_def)
  have f: "isfinite (nc_reference_damping steel)" "isfinite (nc_reference_stiffness steel)" "isfinite (Fin 1)"
    by (simp_all add: steel_def)
  let ?g = "\<lparr>ng_area = 1, ng_arc_width = NaN, ng_length = PosInf, ng_penetration = 1, ng_rolling_radius = 1, ng_normal_angle = 0\<rparr>"
  have "\<not> geometry_usable ?g" by (simp add: geometry_usable_def)
  then show ?thesis using normal_force_is_a_push [OF law f, of ?g] law by (auto simp: no_contact_def)
qed

end
