(* ===== verification/Kalker_Table.thy ===== *)
theory Kalker_Table
  imports Normal_Contact
begin

section \<open>The creep coefficient table\<close>

text \<open>
  \<open>kalker_coefficient_table.cc\<close> of \<open>libs/wheel_rail_contact\<close>: the tabulated coefficients, their collapse at a Poisson
  ratio, the lookup in the semi-axis ratio and the expansion outside the table.  The lemmas show that a lookup refuses
  exactly where it is documented to, and that every coefficient it returns is positive, so that no flexibility formed from it
  divides by zero.
\<close>

subsection \<open>The table\<close>

record kalker_coefficients =
  kc_longitudinal :: double
  kc_lateral :: double
  kc_lateral_spin :: double

datatype outside_table_rule = RefuseOutside | AsymptoticOutside

definition kalker_node_count :: nat where "kalker_node_count = 19"
definition smallest_tabulated_ratio :: double where "smallest_tabulated_ratio = Fin (1 / 10)"
definition largest_tabulated_ratio :: double where "largest_tabulated_ratio = Fin 10"

definition poisson_nodes :: vec where
  "poisson_nodes = [Fin 0, Fin (1 / 4), Fin (1 / 2)]"

definition ratio_nodes :: "real list" where
  "ratio_nodes = [1 / 10, 2 / 10, 3 / 10, 4 / 10, 5 / 10, 6 / 10, 7 / 10, 8 / 10, 9 / 10, 1,
                  10 / 9, 10 / 8, 10 / 7, 10 / 6, 10 / 5, 10 / 4, 10 / 3, 10 / 2, 10]"

definition semi_axis_ratio_nodes :: vec where
  "semi_axis_ratio_nodes = map Fin ratio_nodes"

text \<open>The rows in thousandths, one per Poisson node.\<close>

definition rows_of_thousandths :: "nat list list \<Rightarrow> vec list" where
  "rows_of_thousandths rows = map (map (\<lambda>n. Fin (real n / 1000))) rows"

definition longitudinal_thousandths :: "nat list list" where
  "longitudinal_thousandths =
     [[2510, 2590, 2680, 2780, 2880, 2980, 3090, 3190, 3290, 3400, 3510, 3650,
       3820, 4060, 4370, 4840, 5570, 6960, 10700],
      [3310, 3370, 3440, 3530, 3620, 3720, 3810, 3910, 4010, 4120, 4220, 4360,
       4540, 4780, 5100, 5570, 6340, 7780, 11700],
      [4850, 4810, 4800, 4820, 4830, 4910, 4970, 5050, 5120, 5200, 5300, 5420, 5580,
       5800, 6110, 6570, 7340, 8820, 12900]]"

definition lateral_thousandths :: "nat list list" where
  "lateral_thousandths =
     [[2510, 2590, 2680, 2780, 2880, 2980, 3090, 3190, 3290, 3400, 3510, 3650,
       3820, 4060, 4370, 4840, 5570, 6960, 10700],
      [2520, 2630, 2750, 2880, 3010, 3140, 3280, 3410, 3540, 3670, 3810, 3990,
       4210, 4500, 4900, 5480, 6400, 8140, 12800],
      [2530, 2660, 2810, 2980, 3140, 3310, 3480, 3650, 3820, 3980, 4160, 4390,
       4670, 5040, 5560, 6310, 7510, 9790, 16000]]"

definition lateral_spin_thousandths :: "nat list list" where
  "lateral_spin_thousandths =
     [[334, 483, 607, 720, 827, 930, 1030, 1130, 1230, 1330, 1440, 1580,
       1760, 2010, 2350, 2880, 3790, 5720, 12200],
      [473, 603, 715, 823, 929, 1030, 1140, 1250, 1360, 1470, 1590,
       1750, 1950, 2230, 2620, 3240, 4320, 6630, 14600],
      [731, 809, 889, 977, 1070, 1180, 1290, 1400, 1510, 1630, 1770, 1940,
       2180, 2500, 2960, 3700, 5010, 7890, 18000]]"

definition poisson_weight :: "double \<Rightarrow> nat \<Rightarrow> double" where
  "poisson_weight nu i =
     foldl (\<lambda>w j. if j \<noteq> i then w * ((nu - poisson_nodes ! j) / (poisson_nodes ! i - poisson_nodes ! j)) else w)
       1 [0..<3]"

definition poisson_interpolation_weights :: "double \<Rightarrow> vec" where
  "poisson_interpolation_weights nu = map (poisson_weight nu) [0..<3]"

definition collapse_poisson_axis :: "vec list \<Rightarrow> vec \<Rightarrow> vec" where
  "collapse_poisson_axis rows weights =
     map (\<lambda>c. weights ! 0 * rows ! 0 ! c + weights ! 1 * rows ! 1 ! c + weights ! 2 * rows ! 2 ! c) [0..<kalker_node_count]"

record kalker_table =
  kt_longitudinal :: vec
  kt_lateral :: vec
  kt_lateral_spin :: vec
  kt_poisson_ratio :: double
  kt_outside_rule :: outside_table_rule

definition for_poisson_ratio :: "double \<Rightarrow> outside_table_rule \<Rightarrow> kalker_table outcome" where
  "for_poisson_ratio nu rule =
     bindS (reject_if (\<not> 0 \<le> nu \<or> \<not> nu \<le> half) InvalidArgument) (\<lambda>_.
       let weights = poisson_interpolation_weights nu
       in Inr \<lparr>kt_longitudinal = collapse_poisson_axis (rows_of_thousandths longitudinal_thousandths) weights,
               kt_lateral = collapse_poisson_axis (rows_of_thousandths lateral_thousandths) weights,
               kt_lateral_spin = collapse_poisson_axis (rows_of_thousandths lateral_spin_thousandths) weights,
               kt_poisson_ratio = nu, kt_outside_rule = rule\<rparr>)"

subsection \<open>Lookup\<close>

definition asymptotic_coefficients :: "double \<Rightarrow> double \<Rightarrow> kalker_coefficients" where
  "asymptotic_coefficients ratio nu =
     (let slenderness = std_min ratio (1 / ratio);
          logarithm = std_log (16 / (slenderness * slenderness))
      in if ratio < smallest_tabulated_ratio then
           \<lparr>kc_longitudinal = (numbers_pi * numbers_pi) / 4 / (1 - nu),
            kc_lateral = (numbers_pi * numbers_pi) / 4,
            kc_lateral_spin = numbers_pi * std_sqrt slenderness / 3 / (1 - nu)
                              * (1 + nu * (half * logarithm + std_log 4 - 5))\<rparr>
         else
           let shifted = logarithm - 2 * nu;
               weighted = (1 - nu) * logarithm + 2 * nu
           in \<lparr>kc_longitudinal = 2 * numbers_pi / shifted / slenderness * (1 + (3 - std_log 4) / shifted),
               kc_lateral = 2 * numbers_pi / slenderness * (1 + ((1 - nu) * (3 - std_log 4)) / weighted) / weighted,
               kc_lateral_spin = 2 * numbers_pi / 3 / pow_three_halves slenderness
                                 / ((1 - nu) * logarithm - 2 + 4 * nu)\<rparr>)"

definition kalker_interpolate :: "nat \<Rightarrow> double \<Rightarrow> vec \<Rightarrow> double" where
  "kalker_interpolate high fraction values =
     values ! (high - 1) + (values ! high - values ! (high - 1)) * fraction"

definition kalker_at :: "kalker_table \<Rightarrow> double \<Rightarrow> kalker_coefficients outcome" where
  "kalker_at table ratio =
     (if smallest_tabulated_ratio \<le> ratio \<and> ratio \<le> largest_tabulated_ratio then
        (if ratio \<le> hd semi_axis_ratio_nodes then
           Inr \<lparr>kc_longitudinal = hd (kt_longitudinal table), kc_lateral = hd (kt_lateral table),
                kc_lateral_spin = hd (kt_lateral_spin table)\<rparr>
         else if last semi_axis_ratio_nodes \<le> ratio then
           Inr \<lparr>kc_longitudinal = last (kt_longitudinal table), kc_lateral = last (kt_lateral table),
                kc_lateral_spin = last (kt_lateral_spin table)\<rparr>
         else
           let high = upper_bound semi_axis_ratio_nodes ratio;
               low = high - 1;
               fraction = (ratio - semi_axis_ratio_nodes ! low) / (semi_axis_ratio_nodes ! high - semi_axis_ratio_nodes ! low)
           in Inr \<lparr>kc_longitudinal = kalker_interpolate high fraction (kt_longitudinal table),
                   kc_lateral = kalker_interpolate high fraction (kt_lateral table),
                   kc_lateral_spin = kalker_interpolate high fraction (kt_lateral_spin table)\<rparr>)
      else if kt_outside_rule table = RefuseOutside then Inl OutOfRange
      else if \<not> 0 < ratio \<or> \<not> isfinite ratio then Inl OutOfRange
      else Inr (asymptotic_coefficients ratio (kt_poisson_ratio table)))"

subsection \<open>The collapse keeps every coefficient positive\<close>

definition lagrange0 :: "real \<Rightarrow> real" where "lagrange0 n = (n - 1 / 4) * (n - 1 / 2) * 8"
definition lagrange1 :: "real \<Rightarrow> real" where "lagrange1 n = n * (1 / 2 - n) * 16"
definition lagrange2 :: "real \<Rightarrow> real" where "lagrange2 n = n * (n - 1 / 4) * 8"

lemma poisson_weights_Fin:
  "poisson_interpolation_weights (Fin n) = [Fin (lagrange0 n), Fin (lagrange1 n), Fin (lagrange2 n)]"
  by (simp add: poisson_interpolation_weights_def poisson_weight_def poisson_nodes_def upt_rec
      lagrange0_def lagrange1_def lagrange2_def numeral_2_eq_2 algebra_simps)

lemma lagrange_sum: "lagrange0 n + lagrange1 n + lagrange2 n = 1"
  by (simp add: lagrange0_def lagrange1_def lagrange2_def algebra_simps)

text \<open>A negative weight is never below an eighth of the whole, so three positive values within a factor of eight of each
  other keep a positive combination.\<close>

lemma lagrange_positive:
  assumes n: "0 \<le> n" "n \<le> 1 / 2" and r: "0 < r0" "0 < r1" "0 < r2"
    and near: "r2 < 8 * r0" "r2 < 8 * r1" "r0 < 8 * r1" "r0 < 8 * r2"
  shows "0 < lagrange0 n * r0 + lagrange1 n * r1 + lagrange2 n * r2"
proof (cases "n \<le> 1 / 4")
  case True
  have w: "0 \<le> lagrange0 n" "0 \<le> lagrange1 n" "lagrange2 n \<le> 0"
    using n True by (auto simp: lagrange0_def lagrange1_def lagrange2_def mult_nonneg_nonpos mult_nonpos_nonpos)
  have "0 \<le> (n - 1 / 8) * (n - 1 / 8)" by simp
  then have eighth: "- 1 / 8 \<le> lagrange2 n" by (simp add: lagrange2_def algebra_simps)
  define m where "m = min r0 r1"
  have m: "0 < m" "r2 < 8 * m" "m \<le> r0" "m \<le> r1" using r near by (auto simp: m_def)
  have "(lagrange0 n + lagrange1 n) * m \<le> lagrange0 n * r0 + lagrange1 n * r1"
    using w m by (auto simp: distrib_right intro!: add_mono mult_left_mono)
  moreover have "lagrange0 n + lagrange1 n = 1 - lagrange2 n" using lagrange_sum [of n] by linarith
  moreover have "m \<le> (1 - lagrange2 n) * m" using m(1) w(3) by (simp add: algebra_simps mult_nonneg_nonpos)
  moreover have "- 1 / 8 * r2 \<le> lagrange2 n * r2" using eighth r(3) by (intro mult_right_mono) auto
  ultimately show ?thesis using m(2) by simp
next
  case False
  have "(n - 1 / 2) * (n - 1 / 4) \<le> 0" using n False by (intro mult_nonpos_nonneg) auto
  then have w: "lagrange0 n \<le> 0" "0 \<le> lagrange1 n" "0 \<le> lagrange2 n"
    using n False by (auto simp: lagrange0_def lagrange1_def lagrange2_def)
  have "0 \<le> (n - 3 / 8) * (n - 3 / 8)" by simp
  then have eighth: "- 1 / 8 \<le> lagrange0 n" by (simp add: lagrange0_def algebra_simps)
  define m where "m = min r1 r2"
  have m: "0 < m" "r0 < 8 * m" "m \<le> r1" "m \<le> r2" using r near by (auto simp: m_def)
  have "(lagrange1 n + lagrange2 n) * m \<le> lagrange1 n * r1 + lagrange2 n * r2"
    using w m by (auto simp: distrib_right intro!: add_mono mult_left_mono)
  moreover have "lagrange1 n + lagrange2 n = 1 - lagrange0 n" using lagrange_sum [of n] by linarith
  moreover have "m \<le> (1 - lagrange0 n) * m" using m(1) w(1) by (simp add: algebra_simps mult_nonneg_nonpos)
  moreover have "- 1 / 8 * r0 \<le> lagrange0 n * r0" using eighth r(1) by (intro mult_right_mono) auto
  ultimately show ?thesis using m(2) by simp
qed

fun column_ok :: "nat \<times> nat \<times> nat \<Rightarrow> bool" where
  "column_ok (r0, r1, r2) \<longleftrightarrow> 0 < r0 \<and> 0 < r1 \<and> 0 < r2 \<and> r2 < 8 * r0 \<and> r2 < 8 * r1 \<and> r0 < 8 * r1 \<and> r0 < 8 * r2"

definition rows_ok :: "nat list list \<Rightarrow> bool" where
  "rows_ok rows \<longleftrightarrow> length rows = 3 \<and> list_all (\<lambda>r. length r = kalker_node_count) rows
     \<and> list_all column_ok (zip (rows ! 0) (zip (rows ! 1) (rows ! 2)))"

lemma tabulated_rows_ok:
  "rows_ok longitudinal_thousandths" "rows_ok lateral_thousandths" "rows_ok lateral_spin_thousandths"
  by (simp_all add: rows_ok_def kalker_node_count_def longitudinal_thousandths_def lateral_thousandths_def
      lateral_spin_thousandths_def)

definition positive_values :: "vec \<Rightarrow> bool" where
  "positive_values values \<longleftrightarrow> length values = kalker_node_count \<and> (\<forall>c < kalker_node_count. \<exists>x. values ! c = Fin x \<and> 0 < x)"

lemma collapse_positive:
  assumes rows: "rows_ok rows" and n: "0 \<le> n" "n \<le> 1 / 2"
  shows "positive_values (collapse_poisson_axis (rows_of_thousandths rows) (poisson_interpolation_weights (Fin n)))"
proof -
  have "\<exists>x. collapse_poisson_axis (rows_of_thousandths rows) (poisson_interpolation_weights (Fin n)) ! c = Fin x \<and> 0 < x"
    if c: "c < kalker_node_count" for c
  proof -
    define r where "r i = real (rows ! i ! c) / 1000" for i
    have len: "length rows = 3" "\<And>i. i < 3 \<Longrightarrow> length (rows ! i) = kalker_node_count"
      using rows by (auto simp: rows_ok_def list_all_length)
    have "column_ok (rows ! 0 ! c, rows ! 1 ! c, rows ! 2 ! c)" using rows c len by (simp add: rows_ok_def list_all_length)
    then have ok: "0 < r 0" "0 < r 1" "0 < r 2" "r 2 < 8 * r 0" "r 2 < 8 * r 1" "r 0 < 8 * r 1" "r 0 < 8 * r 2"
      by (auto simp: r_def)
    have "rows_of_thousandths rows ! i ! c = Fin (r i)" if "i < 3" for i
      using that len c by (simp add: rows_of_thousandths_def r_def)
    then have "collapse_poisson_axis (rows_of_thousandths rows) (poisson_interpolation_weights (Fin n)) ! c
        = Fin (lagrange0 n * r 0 + lagrange1 n * r 1 + lagrange2 n * r 2)"
      using c by (simp add: collapse_poisson_axis_def poisson_weights_Fin)
    then show ?thesis using lagrange_positive [OF n ok] by blast
  qed
  then show ?thesis by (simp add: positive_values_def collapse_poisson_axis_def)
qed

subsection \<open>Lookups are positive\<close>

definition positive_coefficients :: "kalker_coefficients \<Rightarrow> bool" where
  "positive_coefficients k \<longleftrightarrow>
     (\<exists>a b c. k = \<lparr>kc_longitudinal = Fin a, kc_lateral = Fin b, kc_lateral_spin = Fin c\<rparr> \<and> 0 < a \<and> 0 < b \<and> 0 < c)"

lemma positive_coefficientsI:
  "0 < a \<Longrightarrow> 0 < b \<Longrightarrow> 0 < c \<Longrightarrow>
   positive_coefficients \<lparr>kc_longitudinal = Fin a, kc_lateral = Fin b, kc_lateral_spin = Fin c\<rparr>"
  by (auto simp: positive_coefficients_def)

lemma positive_valuesD: "positive_values v \<Longrightarrow> c < kalker_node_count \<Longrightarrow> \<exists>x. v ! c = Fin x \<and> 0 < x"
  by (simp add: positive_values_def)

lemma positive_values_ends:
  assumes "positive_values v"
  shows "\<exists>x. hd v = Fin x \<and> 0 < x" "\<exists>x. last v = Fin x \<and> 0 < x"
  using positive_valuesD [OF assms, of 0] positive_valuesD [OF assms, of 18] assms
  by (auto simp: positive_values_def hd_conv_nth last_conv_nth kalker_node_count_def simp flip: length_greater_0_conv)

lemma ratio_nodes_facts: "increasing_reals ratio_nodes" "length ratio_nodes = 19" "hd ratio_nodes = 1 / 10"
  "last ratio_nodes = 10" "ratio_nodes ! 0 = 1 / 10" "ratio_nodes ! 18 = 10" "ratio_nodes \<noteq> []"
proof -
  have "sorted_wrt (<) ratio_nodes" by (simp add: ratio_nodes_def)
  then show "increasing_reals ratio_nodes" by (simp add: increasing_reals_def sorted_wrt_iff_nth_Suc_transp)
qed (simp_all add: ratio_nodes_def)

lemma kalker_interpolate_positive:
  assumes "positive_values v" "0 < high" "high < kalker_node_count" "0 \<le> f" "f \<le> 1"
  shows "\<exists>x. kalker_interpolate high (Fin f) v = Fin x \<and> 0 < x"
proof -
  obtain a b where a: "v ! (high - 1) = Fin a" "0 < a" and b: "v ! high = Fin b" "0 < b"
    using positive_valuesD [OF assms(1)] assms(2,3) by (metis less_imp_diff_less)
  have "a + (b - a) * f = a * (1 - f) + b * f" by (simp add: algebra_simps)
  moreover have "0 < a * (1 - f) + b * f"
    using a(2) b(2) assms(4,5) by (cases "f = 0") (auto intro!: add_nonneg_pos)
  ultimately show ?thesis using a b by (simp add: kalker_interpolate_def)
qed

lemma exp_5_bound: "exp (5 :: real) \<le> 160"
proof -
  obtain t :: real where t: "\<bar>t\<bar> \<le> \<bar>1\<bar>" "exp 1 = (\<Sum>m<5. 1 ^ m / fact m) + exp t / fact 5 * 1 ^ 5"
    using Maclaurin_exp_le [of 1 5] by blast
  have "exp t \<le> exp 1" using t(1) by simp
  then have "exp t \<le> 3" using exp_le by linarith
  then have "exp 1 \<le> (2734 / 1000 :: real)" using t(2) by (simp add: fact_numeral lessThan_nat_numeral)
  then have "exp 1 ^ 5 \<le> (2734 / 1000 :: real) ^ 5" by (intro power_mono) auto
  moreover have "exp (5 :: real) = exp 1 ^ 5" using exp_of_nat_mult [of 5 "1 :: real"] by simp
  ultimately show ?thesis by (simp add: power_divide)
qed

lemma ln_160: "5 \<le> ln (160 :: real)"
  using exp_5_bound by (simp add: ln_ge_iff)

lemma asymptotic_positive:
  assumes x: "0 < x" "x < 1 / 10 \<or> 10 < x" and n: "0 \<le> n" "n \<le> 1 / 2"
  shows "positive_coefficients (asymptotic_coefficients (Fin x) (Fin n))"
proof -
  obtain p where p: "numbers_pi = Fin p" "0 < p" using numbers_pi_pos by blast
  define s where "s = min x (1 / x)"
  have "s \<le> x" "s \<le> 1 / x" "10 < x \<Longrightarrow> 1 / x < 1 / 10" using x(1) by (auto simp: s_def field_simps)
  then have s: "0 < s" "s < 1 / 10" using x by (simp add: s_def) (use x \<open>s \<le> x\<close> \<open>s \<le> 1 / x\<close> \<open>10 < x \<Longrightarrow> 1 / x < 1 / 10\<close> in linarith)
  have slender: "std_min (Fin x) (1 / Fin x) = Fin s" using x by (simp add: s_def)
  define L where "L = ln (16 / (s * s))"
  have "ln (160 :: real) \<le> ln (16 / s)" using s by (intro ln_mono) (auto simp: field_simps)
  then have big: "5 \<le> ln (16 / s)" using ln_160 by linarith
  have "16 / (s * s) = (4 / s) * (4 / s)" by simp
  also have "ln \<dots> = ln (4 / s) + ln (4 / s)" using s by (intro ln_mult_pos) auto
  finally have L: "L = 2 * ln (4 / s)" by (simp add: L_def)
  have "ln (4 / s * 4) = ln (4 / s) + ln 4" using s by (intro ln_mult_pos) auto
  then have four: "ln (4 / s) + ln 4 = ln (16 / s)" by simp
  have l4: "ln (4 :: real) \<le> 3" using ln_le_minus_one [of "4 :: real"] by simp
  have "(160 :: real) \<le> 16 / (s * s)" using s mult_strict_mono [of s "1 / 10" s "1 / 10"] by (simp add: field_simps)
  then have "ln 160 \<le> L" unfolding L_def using s by (intro ln_mono) auto
  then have L5: "5 \<le> L" using ln_160 by linarith
  have logarithm: "std_log (16 / (Fin s * Fin s)) = Fin L" using s by (simp add: L_def not_less)
  have nu: "0 < 1 - n" using n by simp
  show ?thesis
  proof (cases "x < 1 / 10")
    case True
    have "0 \<le> n * (L / 2 + ln 4 - 5)" using n big four L by (intro mult_nonneg_nonneg) auto
    then have "0 < 1 + n * (L / 2 + ln 4 - 5)" by linarith
    then have "0 < p * sqrt s / 3 / (1 - n) * (1 + n * (L / 2 + ln 4 - 5))" using p(2) s nu by simp
    moreover have "asymptotic_coefficients (Fin x) (Fin n) =
      \<lparr>kc_longitudinal = Fin (p * p / 4 / (1 - n)), kc_lateral = Fin (p * p / 4),
       kc_lateral_spin = Fin (p * sqrt s / 3 / (1 - n) * (1 + n * (L / 2 + ln 4 - 5)))\<rparr>"
      unfolding asymptotic_coefficients_def slender Let_def logarithm p
      using True s nu by (simp add: smallest_tabulated_ratio_def not_less)
    ultimately show ?thesis using p(2) nu by (simp only: positive_coefficientsI mult_pos_pos divide_pos_pos zero_less_numeral)
  next
    case False
    define a where "a = L - 2 * n"
    define b where "b = (1 - n) * L + 2 * n"
    define c where "c = (1 - n) * L - 2 + 4 * n"
    have half5: "(1 - n) * 5 \<le> (1 - n) * L" using L5 nu by (intro mult_left_mono) auto
    have pos: "0 < a" "0 < b" "0 < c" using L5 half5 n by (auto simp: a_def b_def c_def)
    have "0 \<le> (3 - ln 4) / a" "0 \<le> (1 - n) * (3 - ln 4) / b" using l4 pos nu by auto
    then have one: "0 < 1 + (3 - ln 4) / a" "0 < 1 + (1 - n) * (3 - ln 4) / b" by linarith+
    have "asymptotic_coefficients (Fin x) (Fin n) =
      \<lparr>kc_longitudinal = Fin (2 * p / a / s * (1 + (3 - ln 4) / a)),
       kc_lateral = Fin (2 * p / s * (1 + (1 - n) * (3 - ln 4) / b) / b),
       kc_lateral_spin = Fin (2 * p / 3 / (s * sqrt s) / c)\<rparr>"
    proof -
      have e: "Fin L - 2 * Fin n = Fin a" "(1 - Fin n) * Fin L + 2 * Fin n = Fin b" "(1 - Fin n) * Fin L - 2 + 4 * Fin n = Fin c"
        by (simp_all add: a_def b_def c_def)
      have l: "std_log 4 = Fin (ln 4)" by simp
      have w: "pow_three_halves (Fin s) = Fin (s * sqrt s)" using s by simp
      show ?thesis
        unfolding asymptotic_coefficients_def slender Let_def logarithm e p l w
        using False pos s by (simp add: smallest_tabulated_ratio_def)
    qed
    then show ?thesis using pos one p(2) s by (simp only:) (intro positive_coefficientsI; simp)
  qed
qed

lemma kalker_lookup_cases:
  assumes "for_poisson_ratio nu rule = Inr table"
  shows "case kalker_at table ratio of
      Inl e \<Rightarrow> e = OutOfRange \<and> \<not> (Fin (1 / 10) \<le> ratio \<and> ratio \<le> Fin 10)
             \<and> (rule = RefuseOutside \<or> \<not> 0 < ratio \<or> \<not> isfinite ratio)
    | Inr k \<Rightarrow> positive_coefficients k \<and> isfinite ratio \<and> 0 < ratio
             \<and> (rule = RefuseOutside \<longrightarrow> Fin (1 / 10) \<le> ratio \<and> ratio \<le> Fin 10)"
proof -
  have nu: "0 \<le> nu" "nu \<le> half" using assms by (auto simp: for_poisson_ratio_def bindS_eq_Inr)
  obtain n where n: "nu = Fin n" "0 \<le> n" "n \<le> 1 / 2" using nu by (cases nu) (auto simp: less_eq_double_def)
  have table: "positive_values (kt_longitudinal table)" "positive_values (kt_lateral table)" "positive_values (kt_lateral_spin table)"
    "kt_poisson_ratio table = Fin n" "kt_outside_rule table = rule"
    using assms collapse_positive [OF tabulated_rows_ok(1) n(2,3)] collapse_positive [OF tabulated_rows_ok(2) n(2,3)]
      collapse_positive [OF tabulated_rows_ok(3) n(2,3)]
    by (auto simp: for_poisson_ratio_def bindS_eq_Inr Let_def n(1))
  show ?thesis
  proof (cases "Fin (1 / 10) \<le> ratio \<and> ratio \<le> Fin 10")
    case True
    then obtain x where x: "ratio = Fin x" "1 / 10 \<le> x" "x \<le> 10" by (cases ratio) (auto simp: less_eq_double_def)
    have inside: "smallest_tabulated_ratio \<le> ratio" "ratio \<le> largest_tabulated_ratio"
      using x by (simp_all add: smallest_tabulated_ratio_def largest_tabulated_ratio_def)
    have ends: "hd semi_axis_ratio_nodes = Fin (1 / 10)" "last semi_axis_ratio_nodes = Fin 10"
      using ratio_nodes_facts by (simp_all add: semi_axis_ratio_nodes_def hd_map last_map)
    note at_ends = positive_values_ends [OF table(1)] positive_values_ends [OF table(2)] positive_values_ends [OF table(3)]
    consider "x = 1 / 10" | "x = 10" | "1 / 10 < x" "x < 10" using x by linarith
    then have "\<exists>k. kalker_at table ratio = Inr k \<and> positive_coefficients k"
    proof cases
      case 3
      obtain k where k: "Suc k < 19" "ratio_nodes ! k \<le> x" "x < ratio_nodes ! Suc k"
        using bracket_exists [of ratio_nodes x] ratio_nodes_facts 3 by auto
      have high: "upper_bound semi_axis_ratio_nodes ratio = Suc k"
        unfolding semi_axis_ratio_nodes_def x(1) using ratio_nodes_facts k by (intro upper_bound_between) auto
      define f where "f = (x - ratio_nodes ! k) / (ratio_nodes ! Suc k - ratio_nodes ! k)"
      have f: "0 \<le> f" "f \<le> 1" using k by (auto simp: f_def field_simps)
      have fraction: "(ratio - semi_axis_ratio_nodes ! k) / (semi_axis_ratio_nodes ! Suc k - semi_axis_ratio_nodes ! k) = Fin f"
        using k ratio_nodes_facts(2) by (simp add: semi_axis_ratio_nodes_def x(1) f_def)
      have h: "0 < Suc k" "Suc k < kalker_node_count" using k by (auto simp: kalker_node_count_def)
      show ?thesis
        using kalker_interpolate_positive [OF table(1) h f] kalker_interpolate_positive [OF table(2) h f]
          kalker_interpolate_positive [OF table(3) h f] inside ends 3 x
        by (auto simp: kalker_at_def high [unfolded x(1)] fraction [unfolded x(1)] Let_def positive_coefficients_def)
    qed (use at_ends inside ends x in \<open>auto simp: kalker_at_def positive_coefficients_def\<close>)
    then show ?thesis using True x by auto
  next
    case False
    have outside: "\<not> (smallest_tabulated_ratio \<le> ratio \<and> ratio \<le> largest_tabulated_ratio)"
      using False by (simp add: smallest_tabulated_ratio_def largest_tabulated_ratio_def)
    show ?thesis
    proof (cases "rule = RefuseOutside \<or> \<not> 0 < ratio \<or> \<not> isfinite ratio")
      case True
      then have "kalker_at table ratio = Inl OutOfRange" using outside by (auto simp: kalker_at_def table)
      then show ?thesis using True False by simp
    next
      case usable: False
      then obtain x where x: "ratio = Fin x" "0 < x" by (auto simp: isfinite_iff)
      then have "x < 1 / 10 \<or> 10 < x" using False by auto
      moreover have "kalker_at table ratio = Inr (asymptotic_coefficients ratio (Fin n))"
        using outside usable by (auto simp: kalker_at_def table)
      ultimately show ?thesis using asymptotic_positive [OF x(2) _ n(2,3)] x usable by simp
    qed
  qed
qed

text \<open>C10: The creep coefficients can be divided by.  For a table of an admissible Poisson ratio, a lookup is refused exactly when
  the ratio is outside the table and the table refuses, or the ratio is not a positive finite number; every other lookup, in
  the table, on its edge or on either asymptotic branch, returns three positive finite coefficients.\<close>
theorem kalker_lookup:
  assumes "for_poisson_ratio nu rule = Inr table"
  shows "case kalker_at table ratio of
      Inl e \<Rightarrow> e = OutOfRange \<and> \<not> (Fin (1 / 10) \<le> ratio \<and> ratio \<le> Fin 10)
             \<and> (rule = RefuseOutside \<or> \<not> 0 < ratio \<or> \<not> isfinite ratio)
    | Inr k \<Rightarrow> positive_coefficients k \<and> isfinite ratio \<and> 0 < ratio
             \<and> (rule = RefuseOutside \<longrightarrow> Fin (1 / 10) \<le> ratio \<and> ratio \<le> Fin 10)"
  by (rule kalker_lookup_cases [OF assms])

theorem kalker_lookup_witness:
  "\<exists>table. for_poisson_ratio (Fin (7 / 25)) AsymptoticOutside = Inr table
     \<and> (\<exists>k. kalker_at table (Fin 3) = Inr k \<and> positive_coefficients k)"
proof -
  obtain table where t: "for_poisson_ratio (Fin (7 / 25)) AsymptoticOutside = Inr table"
    by (simp add: for_poisson_ratio_def Let_def)
  show ?thesis using kalker_lookup [OF t, of "Fin 3"] t by (auto split: sum.splits)
qed

end
