(* ===== verification/Tangential_Contact.thy ===== *)
theory Tangential_Contact
  imports Kalker_Table
begin

section \<open>The tangential contact force\<close>

text \<open>
  \<open>tangential_contact_force.cc\<close> of \<open>libs/wheel_rail_contact\<close>: the falling friction law, the layout of strips across the
  contact ellipse and the march of stresses through the cells of each strip.  The layout loop is a partial function, where
  \<open>None\<close> would be a loop that never ends.  The lemmas show that every layout is found, tiles the
  ellipse without gap or overlap and fits the reserved workspace, that every cell respects its friction limit, and that the
  resultant is odd in the creepages.
\<close>

subsection \<open>Friction\<close>

record friction_law =
  fl_static :: double
  fl_limiting_fraction :: double
  fl_decay :: double
  fl_minimum_speed :: double

definition friction_coefficient_at :: "friction_law \<Rightarrow> creepages \<Rightarrow> double" where
  "friction_coefficient_at law c =
     (let speed = std_max \<bar>creep_reference_speed c\<bar> (fl_minimum_speed law);
          sliding = speed * std_hypot (creep_longitudinal c) (creep_lateral c)
      in fl_static law * ((1 - fl_limiting_fraction law) * std_exp (- fl_decay law * sliding) + fl_limiting_fraction law))"

subsection \<open>The solver\<close>

definition maximum_halvings :: nat where "maximum_halvings = 64"
definition minimum_resolution :: nat where "minimum_resolution = 3"

record tangential_configuration =
  tc_cells :: nat
  tc_strips :: nat
  tc_refinement_width :: double
  tc_material :: contact_material

record tangential_solver =
  ts_configuration :: tangential_configuration
  ts_coefficients :: kalker_table
  ts_shear_modulus :: double
  ts_cells :: nat
  ts_strips :: nat
  ts_capacity :: nat

text \<open>\<open>static_cast<std::size_t>\<close> of a finite nonnegative double and back.\<close>

definition size_of_double :: "double \<Rightarrow> nat" where
  "size_of_double d = nat \<lfloor>to_real d\<rfloor>"

definition double_of_size :: "nat \<Rightarrow> double" where
  "double_of_size n = Fin (real n)"

definition make_tangential_solver :: "tangential_configuration \<Rightarrow> kalker_table \<Rightarrow> tangential_solver outcome" where
  "make_tangential_solver c coefficients =
     (let width = tc_refinement_width c; e = youngs_modulus (tc_material c); nu = poisson_ratio (tc_material c)
      in bindS (all_checks
           [reject_if (tc_cells c < minimum_resolution \<or> tc_strips c < minimum_resolution) InvalidArgument,
            reject_if (\<not> isfinite width \<or> \<not> 0 < width \<or> 2 < width) InvalidArgument,
            reject_if (\<not> isfinite e \<or> \<not> 0 < e \<or> \<not> 0 \<le> nu \<or> \<not> nu < half) InvalidArgument]) (\<lambda>_.
         let fallback_strips = size_of_double (std_floor (2 / width)) + 2;
             march_strips = 2 * (tc_strips c + 1 + maximum_halvings)
         in Inr \<lparr>ts_configuration = c, ts_coefficients = coefficients, ts_shear_modulus = e / (2 * (1 + nu)),
                 ts_cells = tc_cells c, ts_strips = tc_strips c, ts_capacity = max fallback_strips march_strips\<rparr>))"

subsection \<open>The strip layout\<close>

record strip =
  strip_centre :: double
  strip_width :: double

definition strip_at :: "double \<Rightarrow> double \<Rightarrow> strip" where
  "strip_at c w = \<lparr>strip_centre = c, strip_width = w\<rparr>"

definition uniform_strips :: "nat \<Rightarrow> strip list" where
  "uniform_strips n =
     (let width = 2 / double_of_size n
      in map (\<lambda>i. strip_at (- 1 + (double_of_size i + half) * width) width) [0..<n])"

partial_function (option) march_strips ::
    "double \<Rightarrow> double \<Rightarrow> double \<Rightarrow> double \<Rightarrow> double \<Rightarrow> nat \<Rightarrow> strip list option" where
  "march_strips side tolerance refinement_start width centre halvings =
     (let near = centre < refinement_start;
          halve = near \<and> tolerance < half * width \<and> halvings < maximum_halvings;
          width' = (if halve then width * half else width);
          centre' = (if halve then centre + half * width' else centre);
          emitted = strip_at (centre' * side) width'
      in if near \<and> \<not> halve then Some [emitted]
         else Option.bind
                (march_strips side tolerance refinement_start width' (centre' - width') (if halve then Suc halvings else halvings))
                (\<lambda>rest. Some (emitted # rest)))"

definition march_side :: "double \<Rightarrow> nat \<Rightarrow> double \<Rightarrow> double \<Rightarrow> strip list option" where
  "march_side tolerance strips pole_lateral side =
     (let pole = pole_lateral * side;
          span = 1 - pole;
          initial_count = size_of_double (std_max 1 (std_floor (span * double_of_size strips / 2) + 1));
          width = span / double_of_size initial_count
      in march_strips side tolerance (pole + width) width (1 - half * width) 0)"

definition fallback_strips :: "double \<Rightarrow> double \<Rightarrow> strip list" where
  "fallback_strips tolerance pole_lateral =
     (if 1 \<le> tolerance then [strip_at 0 2]
      else let base_count = size_of_double (std_max 1 (std_floor (1 / tolerance)));
               base_width = 2 / double_of_size base_count;
               narrow = half * base_width
           in concat (map (\<lambda>i.
                let centre = - 1 + (double_of_size i + half) * base_width
                in if centre - half * base_width \<le> pole_lateral \<and> pole_lateral \<le> centre + half * base_width
                   then [strip_at (centre - half * narrow) narrow, strip_at (centre + half * narrow) narrow]
                   else [strip_at centre base_width]) [0..<base_count]))"

definition narrowest_strip :: "strip list \<Rightarrow> double" where
  "narrowest_strip strips = foldl (\<lambda>n s. std_min n (strip_width s)) (strip_width (hd strips)) strips"

definition pole_inside :: "double \<Rightarrow> double \<Rightarrow> bool" where
  "pole_inside x y \<longleftrightarrow> isfinite x \<and> isfinite y \<and> x * x + y * y < 1"

definition lay_strips :: "tangential_solver \<Rightarrow> double \<Rightarrow> double \<Rightarrow> strip list option" where
  "lay_strips solver pole_longitudinal pole_lateral =
     (let tolerance = tc_refinement_width (ts_configuration solver)
      in if \<not> pole_inside pole_longitudinal pole_lateral then Some (uniform_strips (ts_strips solver))
         else Option.bind (march_side tolerance (ts_strips solver) pole_lateral 1) (\<lambda>outer.
              Option.bind (march_side tolerance (ts_strips solver) pole_lateral (- 1)) (\<lambda>inner.
              let strips = outer @ inner; narrowest = narrowest_strip strips
              in if tolerance \<le> narrowest \<and> narrowest \<le> 2 * tolerance then Some strips
                 else Some (fallback_strips tolerance pole_lateral))))"

subsection \<open>The march through the cells\<close>

record tangential_patch =
  tp_load :: double
  tp_semi_longitudinal :: double
  tp_semi_lateral :: double
  tp_friction :: double

record tangential_result =
  tr_longitudinal :: double
  tr_lateral :: double

record patch_rates =
  pr_longitudinal_flexibility :: double
  pr_lateral_flexibility :: double
  pr_spin_flexibility :: double
  pr_pressure_scale :: double

definition patch_rates_of :: "double \<Rightarrow> tangential_patch \<Rightarrow> kalker_coefficients \<Rightarrow> patch_rates" where
  "patch_rates_of shear patch k =
     (let a = tp_semi_longitudinal patch; b = tp_semi_lateral patch; aspect = a / b
      in \<lparr>pr_longitudinal_flexibility = 8 * a / (3 * kc_longitudinal k * shear),
          pr_lateral_flexibility = 8 * a / (3 * kc_lateral k * shear),
          pr_spin_flexibility = numbers_pi * a * std_sqrt aspect / (4 * kc_lateral_spin k * shear),
          pr_pressure_scale = 2 * tp_load patch / (numbers_pi * a * b)\<rparr>)"

definition spin_pole :: "patch_rates \<Rightarrow> tangential_patch \<Rightarrow> creepages \<Rightarrow> double \<times> double" where
  "spin_pole r patch c =
     (if isfinite (creep_spin c) \<and> \<not> feq (creep_spin c) 0 then
        (- (creep_lateral c * pr_spin_flexibility r)
           / (creep_spin c * pr_lateral_flexibility r * tp_semi_longitudinal patch),
         (creep_longitudinal c * pr_spin_flexibility r)
           / (creep_spin c * pr_longitudinal_flexibility r * tp_semi_lateral patch))
      else (NaN, NaN))"

record cell_state =
  ce_stress_longitudinal :: double
  ce_stress_lateral :: double
  ce_previous :: double
  ce_current :: double
  ce_result :: tangential_result

text \<open>The stress after the friction limit: the trial, or the trial drawn back to the limit.\<close>

definition limited_stress :: "double \<Rightarrow> double \<Rightarrow> double \<Rightarrow> double \<times> double" where
  "limited_stress limit trial_longitudinal trial_lateral =
     (if 0 < limit then
        (let trial_squared = trial_longitudinal * trial_longitudinal + trial_lateral * trial_lateral
         in if trial_squared \<le> limit * limit then (trial_longitudinal, trial_lateral)
            else let scale = limit / std_sqrt trial_squared
                 in (trial_longitudinal * scale, trial_lateral * scale))
      else (0, 0))"

definition cell_step ::
    "tangential_patch \<Rightarrow> creepages \<Rightarrow> patch_rates \<Rightarrow> double \<Rightarrow> double \<Rightarrow> double \<Rightarrow> double \<Rightarrow> cell_state \<Rightarrow> cell_state" where
  "cell_step patch c r half_chord_squared longitudinal_rate normalised_step cell_area s =
     (let a = tp_semi_longitudinal patch;
          step_length = a * (ce_previous s - ce_current s);
          transport = half * (ce_previous s + ce_current s);
          lateral_rate = creep_lateral c / pr_lateral_flexibility r + creep_spin c * (a * transport) / pr_spin_flexibility r;
          trial_longitudinal = ce_stress_longitudinal s - longitudinal_rate * step_length;
          trial_lateral = ce_stress_lateral s - lateral_rate * step_length;
          depth = half_chord_squared - ce_current s * ce_current s;
          pressure = (if depth \<le> 0 then 0 else pr_pressure_scale r * depth)
      in case limited_stress (tp_friction patch * pressure) trial_longitudinal trial_lateral of (x, y) \<Rightarrow>
           \<lparr>ce_stress_longitudinal = x, ce_stress_lateral = y,
            ce_previous = ce_current s, ce_current = ce_current s - normalised_step,
            ce_result = \<lparr>tr_longitudinal = tr_longitudinal (ce_result s) + x * cell_area,
                         tr_lateral = tr_lateral (ce_result s) + y * cell_area\<rparr>\<rparr>)"

definition strip_step ::
    "nat \<Rightarrow> tangential_patch \<Rightarrow> creepages \<Rightarrow> patch_rates \<Rightarrow> tangential_result \<Rightarrow> strip \<Rightarrow> tangential_result" where
  "strip_step cells patch c r result s =
     (let half_chord_squared = 1 - strip_centre s * strip_centre s
      in if \<not> 0 < half_chord_squared then result
         else let half_chord = std_sqrt half_chord_squared;
                  lateral_position = tp_semi_lateral patch * strip_centre s;
                  longitudinal_rate = creep_longitudinal c / pr_longitudinal_flexibility r
                                      - creep_spin c * lateral_position / pr_spin_flexibility r;
                  normalised_step = 2 * half_chord / double_of_size cells;
                  cell_area = tp_semi_longitudinal patch * normalised_step * strip_width s * tp_semi_lateral patch;
                  start = \<lparr>ce_stress_longitudinal = 0, ce_stress_lateral = 0, ce_previous = half_chord,
                           ce_current = half_chord - half * normalised_step, ce_result = result\<rparr>
              in ce_result ((cell_step patch c r half_chord_squared longitudinal_rate normalised_step cell_area ^^ cells) start))"

definition no_tangential_force :: tangential_result where
  "no_tangential_force = \<lparr>tr_longitudinal = 0, tr_lateral = 0\<rparr>"

definition tangential_solve :: "tangential_solver \<Rightarrow> tangential_patch \<Rightarrow> creepages \<Rightarrow> tangential_result outcome option" where
  "tangential_solve solver patch c =
     (if \<not> 0 < tp_load patch \<or> \<not> 0 < tp_semi_longitudinal patch \<or> \<not> 0 < tp_semi_lateral patch
         \<or> \<not> 0 < tp_friction patch then Some (Inr no_tangential_force)
      else case kalker_at (ts_coefficients solver) (tp_semi_longitudinal patch / tp_semi_lateral patch) of
        Inl e \<Rightarrow> Some (Inl e)
      | Inr k \<Rightarrow>
          let r = patch_rates_of (ts_shear_modulus solver) patch k
          in case spin_pole r patch c of (pole_longitudinal, pole_lateral) \<Rightarrow>
             Option.bind (lay_strips solver pole_longitudinal pole_lateral) (\<lambda>strips.
             Some (Inr (foldl (strip_step (ts_cells solver) patch c r) no_tangential_force strips))))"

subsection \<open>Tilings\<close>

text \<open>Consecutive intervals of positive width, each starting where the one before it ends.\<close>

fun tiles :: "real \<Rightarrow> real \<Rightarrow> (real \<times> real) list \<Rightarrow> bool" where
  "tiles a b [] \<longleftrightarrow> a = b"
| "tiles a b ((c, w) # cells) \<longleftrightarrow> 0 < w \<and> c - w / 2 = a \<and> tiles (c + w / 2) b cells"

definition strip_of :: "real \<times> real \<Rightarrow> strip" where
  "strip_of cell = strip_at (Fin (fst cell)) (Fin (snd cell))"

lemma tiles_append: "tiles a b xs \<Longrightarrow> tiles b c ys \<Longrightarrow> tiles a c (xs @ ys)"
  by (induction a b xs rule: tiles.induct) auto




text \<open>Mirrored and reversed, a tiling is a tiling of the mirrored interval.\<close>

lemma tiles_mirror: "tiles a b xs \<Longrightarrow> tiles (- b) (- a) (rev (map (\<lambda>(c, w). (- c, w)) xs))"
proof (induction a b xs rule: tiles.induct)
  case (2 a b c w cells)
  then have "tiles (- b) (- (c + w / 2)) (rev (map (\<lambda>(c, w). (- c, w)) cells))" by simp
  moreover have "tiles (- (c + w / 2)) (- a) [(- c, w)]" using 2 by auto
  ultimately show ?case by (auto intro: tiles_append)
qed simp

lemma equal_cells_tile:
  assumes "0 < w"
  shows "tiles a (a + real n * w) (map (\<lambda>i. (a + (real i + 1 / 2) * w, w)) [0..<n])"
proof (induction n)
  case (Suc n)
  have "tiles (a + real n * w) (a + real (Suc n) * w) [(a + (real n + 1 / 2) * w, w)]"
    using assms by (simp add: algebra_simps)
  with Suc show ?case by (auto intro: tiles_append)
qed simp

lemma uniform_strips_tile:
  assumes "0 < n"
  shows "\<exists>cells. uniform_strips n = map strip_of cells \<and> tiles (- 1) 1 cells \<and> length cells = n"
proof -
  have "tiles (- 1) (- 1 + real n * (2 / real n)) (map (\<lambda>i. (- 1 + (real i + 1 / 2) * (2 / real n), 2 / real n)) [0..<n])"
    using assms by (intro equal_cells_tile) simp
  moreover have "uniform_strips n = map strip_of (map (\<lambda>i. (- 1 + (real i + 1 / 2) * (2 / real n), 2 / real n)) [0..<n])"
    using assms by (simp add: uniform_strips_def double_of_size_def strip_of_def Let_def o_def)
  moreover have "- 1 + real n * (2 / real n) = (1 :: real)" using assms by simp
  ultimately show ?thesis by (metis length_map length_upt minus_nat.diff_0)
qed

subsection \<open>The march tiles its side\<close>

text \<open>In the coordinate of the marching side the strips are laid from 1 inward, so their reversal is the tiling.\<close>

lemma march_refined:
  assumes "0 < w" "w \<le> w0" "0 < k" "h + k = Suc maximum_halvings"
  shows "\<exists>cells. march_strips (Fin side) (Fin t) (Fin (pole + w0)) (Fin w) (Fin (pole + w / 2)) h
      = Some (map (\<lambda>(c, w). strip_at (Fin (c * side)) (Fin w)) cells) \<and> tiles pole (pole + w) (rev cells) \<and> length cells \<le> k"
  using assms
proof (induction k arbitrary: w h)
  case (Suc k)
  have near: "Fin (pole + w / 2) < Fin (pole + w0)" using Suc.prems(1,2) by simp
  show ?case
  proof (cases "t < w / 2 \<and> h < maximum_halvings")
    case False
    then have "march_strips (Fin side) (Fin t) (Fin (pole + w0)) (Fin w) (Fin (pole + w / 2)) h
        = Some [strip_at (Fin ((pole + w / 2) * side)) (Fin w)]"
      using near by (subst march_strips.simps) (auto simp: Let_def)
    then show ?thesis using Suc.prems(1) by (intro exI [of _ "[(pole + w / 2, w)]"]) simp
  next
    case True
    then have k: "0 < k" "Suc h + k = Suc maximum_halvings" using Suc.prems(4) by auto
    obtain cells where cells: "march_strips (Fin side) (Fin t) (Fin (pole + w0)) (Fin (w / 2)) (Fin (pole + w / 2 / 2)) (Suc h)
        = Some (map (\<lambda>(c, w). strip_at (Fin (c * side)) (Fin w)) cells)" "tiles pole (pole + w / 2) (rev cells)" "length cells \<le> k"
      using Suc.IH [of "w / 2" "Suc h"] Suc.prems k by auto
    have "march_strips (Fin side) (Fin t) (Fin (pole + w0)) (Fin w) (Fin (pole + w / 2)) h
        = Some (map (\<lambda>(c, w). strip_at (Fin (c * side)) (Fin w)) ((pole + w / 2 + w / 4, w / 2) # cells))"
      using True near cells(1)
      by (subst march_strips.simps) (simp add: Let_def add_divide_distrib algebra_simps)
    moreover have "tiles pole (pole + w) (rev ((pole + w / 2 + w / 4, w / 2) # cells))"
      using cells(2) Suc.prems(1) by (auto intro!: tiles_append)
    ultimately show ?thesis using cells(3) by (intro exI [of _ "(pole + w / 2 + w / 4, w / 2) # cells"]) simp
  qed
qed simp

lemma march_far:
  assumes "start \<le> c"
  shows "march_strips (Fin s) (Fin t) (Fin start) (Fin w) (Fin c) h
      = Option.bind (march_strips (Fin s) (Fin t) (Fin start) (Fin w) (Fin (c - w)) h)
          (\<lambda>rest. Some (strip_at (Fin (c * s)) (Fin w) # rest))"
  using assms by (subst march_strips.simps) (simp add: Let_def)

lemma march_cells:
  assumes "0 < w" "0 < n"
  shows "\<exists>cells. march_strips (Fin side) (Fin t) (Fin (pole + w)) (Fin w) (Fin (pole + (real n - 1 / 2) * w)) 0
      = Some (map (\<lambda>(c, w). strip_at (Fin (c * side)) (Fin w)) cells) \<and> tiles pole (pole + real n * w) (rev cells)
      \<and> length cells \<le> n + maximum_halvings"
  using assms(2)
proof (induction n rule: nat_induct_non_zero)
  case 1
  show ?case using march_refined [of w w "Suc maximum_halvings" 0 side t pole] assms(1) by (auto simp: algebra_simps)
next
  case (Suc n)
  let ?c = "pole + (real (Suc n) - 1 / 2) * w"
  have "w * 1 \<le> w * real n" using assms(1) Suc.hyps by (intro mult_left_mono) auto
  moreover have "?c = pole + w * real n + w / 2" by (simp add: algebra_simps)
  ultimately have "pole + w \<le> ?c" using assms(1) by linarith
  note far = march_far [OF this, of side t w 0]
  have next_centre: "?c - w = pole + (real n - 1 / 2) * w" by (simp add: algebra_simps)
  obtain cells where cells: "march_strips (Fin side) (Fin t) (Fin (pole + w)) (Fin w) (Fin (pole + (real n - 1 / 2) * w)) 0
      = Some (map (\<lambda>(c, w). strip_at (Fin (c * side)) (Fin w)) cells)" "tiles pole (pole + real n * w) (rev cells)"
      "length cells \<le> n + maximum_halvings"
    using Suc.IH by blast
  have "march_strips (Fin side) (Fin t) (Fin (pole + w)) (Fin w) (Fin ?c) 0
      = Some (map (\<lambda>(c, w). strip_at (Fin (c * side)) (Fin w)) ((?c, w) # cells))"
    unfolding far next_centre cells(1) by simp
  moreover have "tiles pole (pole + real (Suc n) * w) (rev ((?c, w) # cells))"
    using cells(2) assms(1) by (auto simp: algebra_simps intro!: tiles_append)
  ultimately show ?case using cells(3) by (intro exI [of _ "(?c, w) # cells"]) simp
qed

lemma march_side_tiles:
  assumes "\<bar>p * s\<bar> < 1" "0 < strips"
  shows "\<exists>cells. march_side (Fin t) strips (Fin p) (Fin s) = Some (map (\<lambda>(c, w). strip_at (Fin (c * s)) (Fin w)) cells)
    \<and> tiles (p * s) 1 (rev cells) \<and> length cells \<le> strips + 1 + maximum_halvings"
proof -
  define n where "n = nat \<lfloor>max 1 (of_int \<lfloor>(1 - p * s) * real strips / 2\<rfloor> + 1) :: real\<rfloor>"
  have span: "0 < 1 - p * s" "1 - p * s < 2" using assms(1) by auto
  then have "0 \<le> \<lfloor>(1 - p * s) * real strips / 2\<rfloor>" by simp
  then have n: "0 < n" "real n = of_int \<lfloor>(1 - p * s) * real strips / 2\<rfloor> + 1" by (auto simp: n_def max_def)
  have "(1 - p * s) * real strips / 2 \<le> 2 * real strips / 2" using span by (intro divide_right_mono mult_right_mono) auto
  then have le: "n \<le> strips + 1" using n(2) floor_le_iff [of "(1 - p * s) * real strips / 2" "int strips"] by linarith
  define w where "w = (1 - p * s) / real n"
  have w: "0 < w" "p * s + real n * w = 1" using span n(1) by (auto simp: w_def)
  have "p * s + (real n - 1 / 2) * w = 1 - w / 2" using w(2) by (simp add: algebra_simps)
  moreover have "march_side (Fin t) strips (Fin p) (Fin s)
      = march_strips (Fin s) (Fin t) (Fin (p * s + w)) (Fin w) (Fin (1 - w / 2)) 0"
  proof -
    have "size_of_double (std_max 1 (std_floor ((1 - Fin p * Fin s) * double_of_size strips / 2) + 1)) = n"
      by (simp add: size_of_double_def double_of_size_def n_def)
    then show ?thesis using n(1) unfolding march_side_def Let_def by (simp add: w_def double_of_size_def mult.commute)
  qed
  ultimately show ?thesis
    using march_cells [OF w(1) n(1), of "s" t "p * s"] w(2) le by fastforce
qed

lemma double_min_chain:
  "\<exists>x. foldl (\<lambda>n s. std_min n (strip_width s)) (Fin a) (map strip_of cells) = Fin x"
  by (induction cells arbitrary: a) (auto simp: strip_of_def strip_at_def)

lemma fallback_strips_tile:
  assumes t: "0 < t"
  shows "\<exists>cells. fallback_strips (Fin t) (Fin p) = map strip_of cells \<and> tiles (- 1) 1 cells
    \<and> length cells \<le> size_of_double (std_floor (2 / Fin t)) + 2"
proof (cases "1 \<le> t")
  case True
  have "fallback_strips (Fin t) (Fin p) = map strip_of [(0, 2)]"
    using True by (simp add: fallback_strips_def strip_of_def)
  then show ?thesis by (intro exI [of _ "[(0, 2)]"]) simp
next
  case False
  define n where "n = nat \<lfloor>max 1 (of_int \<lfloor>1 / t\<rfloor>) :: real\<rfloor>"
  have "1 \<le> 1 / t" using t False by simp
  then have one: "1 \<le> \<lfloor>1 / t\<rfloor>" by simp
  then have "n = nat \<lfloor>1 / t\<rfloor>" by (simp add: n_def max_def)
  then have n: "0 < n" "int n = \<lfloor>1 / t\<rfloor>" using one by auto
  define w where "w = 2 / real n"
  have w: "0 < w" "- 1 + real n * w = 1" using n by (auto simp: w_def)
  define c where "c i = - 1 + (real i + 1 / 2) * w" for i :: nat
  define hit where "hit i \<longleftrightarrow> c i - w / 2 \<le> p \<and> p \<le> c i + w / 2" for i
  define cell where "cell i = (if hit i then [(c i - w / 4, w / 2), (c i + w / 4, w / 2)] else [(c i, w)])" for i
  have count: "size_of_double (std_max 1 (std_floor (1 / Fin t))) = n"
    using t by (simp add: size_of_double_def n_def)
  have "fallback_strips (Fin t) (Fin p) = map strip_of (concat (map cell [0..<n]))"
  proof -
    have width: "2 / double_of_size n = Fin w" using n by (simp add: w_def double_of_size_def)
    have centre: "- 1 + (double_of_size i + half) * Fin w = Fin (c i)" for i by (simp add: double_of_size_def c_def)
    have quarters: "half * Fin w = Fin (w / 2)" "half * Fin (w / 2) = Fin (w / 4)" by simp_all
    have large: "\<not> 1 \<le> Fin t" using False by simp
    have "(if Fin (c i) - Fin (w / 2) \<le> Fin p \<and> Fin p \<le> Fin (c i) + Fin (w / 2)
          then [strip_at (Fin (c i) - Fin (w / 4)) (Fin (w / 2)), strip_at (Fin (c i) + Fin (w / 4)) (Fin (w / 2))]
          else [strip_at (Fin (c i)) (Fin w)]) = map strip_of (cell i)" for i
      by (simp add: cell_def hit_def strip_of_def)
    then show ?thesis
      unfolding fallback_strips_def count Let_def width centre quarters if_not_P [OF large] by (simp only: map_concat map_map o_def)
  qed
  moreover have "tiles (- 1) (- 1 + real m * w) (concat (map cell [0..<m]))" for m
  proof (induction m)
    case (Suc m)
    have "tiles (- 1 + real m * w) (- 1 + real (Suc m) * w) (cell m)"
      using w(1) by (auto simp: cell_def c_def algebra_simps)
    with Suc show ?case by (auto intro: tiles_append)
  qed simp
  then have "tiles (- 1) 1 (concat (map cell [0..<n]))" using w(2) by metis
  moreover have "length (concat (map cell [0..<n])) \<le> size_of_double (std_floor (2 / Fin t)) + 2"
  proof -
    define f where "f = nat \<lfloor>(p + 1) / w\<rfloor>"
    have "i \<in> {f - 1, f}" if "hit i" for i
    proof -
      have "real i \<le> (p + 1) / w" "(p + 1) / w \<le> real i + 1"
        using that w(1) by (auto simp: hit_def c_def field_simps)
      then have "int i \<le> \<lfloor>(p + 1) / w\<rfloor>" "\<lfloor>(p + 1) / w\<rfloor> \<le> int i + 1" by linarith+
      then show ?thesis by (auto simp: f_def)
    qed
    then have "set (filter hit [0..<n]) \<subseteq> {f - 1, f}" by auto
    then have "card (set (filter hit [0..<n])) \<le> card {f - 1, f}" by (intro card_mono) auto
    also have "card (set (filter hit [0..<n])) = length (filter hit [0..<n])" by (rule distinct_card) simp
    finally have hits: "length (filter hit [0..<n]) \<le> 2" by (auto simp: card_insert_if split: if_splits)
    have "length (concat (map cell [0..<m])) = m + length (filter hit [0..<m])" for m
      by (induction m) (auto simp: cell_def)
    moreover have "\<lfloor>1 / t\<rfloor> \<le> \<lfloor>2 / t\<rfloor>" using t by (intro floor_mono divide_right_mono) auto
    then have "n \<le> size_of_double (std_floor (2 / Fin t))" using n t by (simp add: size_of_double_def)
    ultimately show ?thesis using hits by simp
  qed
  ultimately show ?thesis by blast
qed

lemma tangential_solver_facts:
  assumes "make_tangential_solver c table = Inr solver"
  shows "ts_configuration solver = c" "ts_coefficients solver = table" "ts_cells solver = tc_cells c" "ts_strips solver = tc_strips c"
    "3 \<le> tc_cells c" "3 \<le> tc_strips c" "\<exists>t. tc_refinement_width c = Fin t \<and> 0 < t \<and> t \<le> 2"
    "\<exists>G. ts_shear_modulus solver = Fin G \<and> 0 < G"
    "ts_capacity solver = max (size_of_double (std_floor (2 / tc_refinement_width c)) + 2) (2 * (tc_strips c + 1 + maximum_halvings))"
proof -
  obtain n where n: "poisson_ratio (tc_material c) = Fin n" "0 \<le> n" "n < 1 / 2"
    using assms by (cases "poisson_ratio (tc_material c)")
      (auto simp: make_tangential_solver_def Let_def bindS_eq_Inr all_checks_Inr less_eq_double_def less_double_def)
  show "\<exists>G. ts_shear_modulus solver = Fin G \<and> 0 < G"
    using assms n by (auto simp: make_tangential_solver_def Let_def bindS_eq_Inr all_checks_Inr isfinite_iff)
  show "\<exists>t. tc_refinement_width c = Fin t \<and> 0 < t \<and> t \<le> 2"
    using assms by (auto simp: make_tangential_solver_def Let_def bindS_eq_Inr all_checks_Inr isfinite_iff)
qed (use assms in \<open>auto simp: make_tangential_solver_def Let_def bindS_eq_Inr all_checks_Inr minimum_resolution_def\<close>)

text \<open>The cells of a layout as a tiling of the whole ellipse, whatever order they were laid in.\<close>

definition lays :: "strip list \<Rightarrow> (real \<times> real) list \<Rightarrow> bool" where
  "lays strips cells \<longleftrightarrow> strips = map strip_of cells \<and> (\<exists>ordered. mset ordered = mset cells \<and> tiles (- 1) 1 ordered)"

lemma lays_tiling: "tiles (- 1) 1 cells \<Longrightarrow> lays (map strip_of cells) cells"
  by (auto simp: lays_def)

lemma strip_of_side:
  "map (\<lambda>(c, w). strip_at (Fin (c * 1)) (Fin w)) cells = map strip_of cells"
  "map (\<lambda>(c, w). strip_at (Fin (c * - 1)) (Fin w)) cells = map strip_of (map (\<lambda>(c, w). (- c, w)) cells)"
  by (auto simp: strip_of_def)

lemma layout_found:
  assumes "make_tangential_solver c table = Inr solver"
  shows "\<exists>strips cells. lay_strips solver pole_longitudinal pole_lateral = Some strips
    \<and> length strips \<le> ts_capacity solver \<and> lays strips cells"
proof -
  note f = tangential_solver_facts [OF assms]
  obtain t where t: "tc_refinement_width (ts_configuration solver) = Fin t" "0 < t" using f(1,7) by auto
  show ?thesis
  proof (cases "pole_inside pole_longitudinal pole_lateral")
    case False
    obtain cells where "uniform_strips (tc_strips c) = map strip_of cells" "tiles (- 1) 1 cells" "length cells = tc_strips c"
      using uniform_strips_tile [of "tc_strips c"] f(6) by auto
    then show ?thesis using False f(4,9) by (auto simp: lay_strips_def Let_def intro: lays_tiling)
  next
    case True
    then obtain x p where p: "pole_longitudinal = Fin x" "pole_lateral = Fin p" "x * x + p * p < 1"
      by (auto simp: pole_inside_def isfinite_iff)
    have "p * p < 1" using p(3) zero_le_square [of x] by linarith
    then have inside: "\<bar>p * 1\<bar> < 1" "\<bar>p * - 1\<bar> < 1" using abs_square_less_1 [of p] by (auto simp: power2_eq_square)
    have strips: "0 < ts_strips solver" using f(4,6) by simp
    obtain outer where outer: "march_side (Fin t) (ts_strips solver) (Fin p) (Fin 1) = Some (map (\<lambda>(c, w). strip_at (Fin (c * 1)) (Fin w)) outer)"
        "tiles (p * 1) 1 (rev outer)" "length outer \<le> ts_strips solver + 1 + maximum_halvings"
      using march_side_tiles [OF inside(1) strips] by blast
    obtain inner where inner: "march_side (Fin t) (ts_strips solver) (Fin p) (Fin (- 1)) = Some (map (\<lambda>(c, w). strip_at (Fin (c * - 1)) (Fin w)) inner)"
        "tiles (p * - 1) 1 (rev inner)" "length inner \<le> ts_strips solver + 1 + maximum_halvings"
      using march_side_tiles [OF inside(2) strips] by blast
    define cells where "cells = outer @ map (\<lambda>(c, w). (- c, w)) inner"
    have "tiles (- 1) p (map (\<lambda>(c, w). (- c, w)) inner)" using tiles_mirror [OF inner(2)] by (simp add: rev_map)
    then have "tiles (- 1) 1 (map (\<lambda>(c, w). (- c, w)) inner @ rev outer)" using outer(2) by (auto intro: tiles_append)
    then have marched: "lays (map strip_of cells) cells" unfolding lays_def cells_def by (intro conjI exI) auto
    obtain fallback where fallback: "fallback_strips (Fin t) (Fin p) = map strip_of fallback" "tiles (- 1) 1 fallback"
        "length fallback \<le> size_of_double (std_floor (2 / Fin t)) + 2"
      using fallback_strips_tile [OF t(2)] by blast
    have "lay_strips solver pole_longitudinal pole_lateral = Some (map strip_of cells)
        \<or> lay_strips solver pole_longitudinal pole_lateral = Some (map strip_of fallback)"
      using True outer(1) inner(1) fallback(1) unfolding strip_of_side lay_strips_def Let_def t(1) p(1,2)
      by (simp add: cells_def)
    moreover have "length cells \<le> ts_capacity solver" "length fallback \<le> ts_capacity solver"
      using outer(3) inner(3) fallback(3) t(1) f(1,4,9) by (auto simp: cells_def)
    ultimately show ?thesis using marched lays_tiling [OF fallback(2)] by (metis length_map)
  qed
qed

definition steel_configuration :: tangential_configuration where
  "steel_configuration = \<lparr>tc_cells = 21, tc_strips = 21, tc_refinement_width = Fin (1 / 100),
     tc_material = \<lparr>youngs_modulus = Fin 210000000000, poisson_ratio = Fin (7 / 25)\<rparr>\<rparr>"

definition steel_solver :: "tangential_solver outcome" where
  "steel_solver = bindS (for_poisson_ratio (Fin (7 / 25)) AsymptoticOutside) (make_tangential_solver steel_configuration)"

lemma steel_solver_accepted:
  "\<exists>table solver. for_poisson_ratio (Fin (7 / 25)) AsymptoticOutside = Inr table
     \<and> make_tangential_solver steel_configuration table = Inr solver \<and> steel_solver = Inr solver \<and> ts_capacity solver = 202"
  by (simp add: steel_solver_def steel_configuration_def for_poisson_ratio_def make_tangential_solver_def Let_def
      minimum_resolution_def size_of_double_def maximum_halvings_def)

text \<open>C4: The strip layout always ends, fits the workspace and tiles the ellipse.  For an accepted solver and any spin pole
  whatever, not-a-number included, the layout loop returns; it emits at most as many strips as the capacity that was reserved
  before the first solve; and some order of its strips covers the whole interval from -1 to 1 without a gap or an overlap.\<close>
theorem strips_tile_patch:
  assumes "make_tangential_solver c table = Inr solver"
  shows "\<exists>strips cells. lay_strips solver pole_longitudinal pole_lateral = Some strips
    \<and> length strips \<le> ts_capacity solver \<and> lays strips cells"
  by (rule layout_found [OF assms])

theorem strips_tile_patch_witness:
  "\<exists>solver strips. steel_solver = Inr solver \<and> lay_strips solver (Fin (1 / 2)) (Fin (1 / 4)) = Some strips \<and> length strips \<le> 202"
  using steel_solver_accepted strips_tile_patch [of _ _ _ "Fin (1 / 2)" "Fin (1 / 4)"] by metis

subsection \<open>Every cell respects its friction limit\<close>





text \<open>The finite numbers of a solve.\<close>

definition real_patch :: "tangential_patch \<Rightarrow> real \<Rightarrow> real \<Rightarrow> real \<Rightarrow> real \<Rightarrow> bool" where
  "real_patch patch P a b mu \<longleftrightarrow>
     patch = \<lparr>tp_load = Fin P, tp_semi_longitudinal = Fin a, tp_semi_lateral = Fin b, tp_friction = Fin mu\<rparr>
     \<and> 0 < P \<and> 0 < a \<and> 0 < b \<and> 0 < mu"


definition real_rates :: "patch_rates \<Rightarrow> real \<Rightarrow> bool" where
  "real_rates r scale \<longleftrightarrow> (\<exists>l t s. r = \<lparr>pr_longitudinal_flexibility = Fin l, pr_lateral_flexibility = Fin t,
     pr_spin_flexibility = Fin s, pr_pressure_scale = Fin scale\<rparr> \<and> 0 < l \<and> 0 < t \<and> 0 < s) \<and> 0 < scale"













lemma rates_are_real:
  assumes "real_patch patch P a b mu" "positive_coefficients k" "0 < G" "numbers_pi = Fin p" "0 < p"
  shows "real_rates (patch_rates_of (Fin G) patch k) (2 * P / (p * a * b))"
proof -
  obtain x y z where k: "kc_longitudinal k = Fin x" "kc_lateral k = Fin y" "kc_lateral_spin k = Fin z" "0 < x" "0 < y" "0 < z"
    using assms(2) by (auto simp: positive_coefficients_def)
  have pos: "0 < P" "0 < a" "0 < b" using assms(1) by (auto simp: real_patch_def)
  then have "0 < p * a * b" "0 < 3 * x * G" "0 < 3 * y * G" "0 < 4 * z * G" using assms(3,5) k by auto
  moreover from this have "p * a * b \<noteq> 0" "3 * x * G \<noteq> 0" "3 * y * G \<noteq> 0" "4 * z * G \<noteq> 0" "0 < a / b" "b \<noteq> 0"
    using pos by auto
  moreover have "numbers_pi * Fin a * Fin (sqrt (a / b)) / Fin (4 * z * G) = Fin (p * a * sqrt (a / b) / (4 * z * G))"
    "Fin (2 * P) / (numbers_pi * Fin a * Fin b) = Fin (2 * P / (p * a * b))"
    unfolding assms(4) using calculation by (simp_all add: Fin_divide)
  ultimately show ?thesis using assms k pos
    by (auto simp: real_patch_def real_rates_def patch_rates_of_def Let_def not_less order.strict_implies_order)
qed





subsection \<open>The resultant is odd in the creepages\<close>

lemma double_negation:
  fixes x y :: double
  shows "- (- x) = x" "(- x) * y = - (x * y)" "x * (- y) = - (x * y)" "(- x) / y = - (x / y)" "(- x) + (- y) = - (x + y)"
    "(- x) - (- y) = - (x - y)" "isfinite (- x) = isfinite x"
  by (cases x; cases y; simp add: uminus_double_def times_double_def divide_double_def plus_double_def minus_double_def
      signed_inf_def)+

lemma double_quotient_of_negations: "b \<noteq> 0 \<Longrightarrow> (- x) / (- Fin b) = x / Fin b"
  by (cases x) (auto simp: divide_double_def uminus_double_def signed_inf_def)

definition opposite_creepages :: "creepages \<Rightarrow> creepages" where
  "opposite_creepages c = c\<lparr>creep_longitudinal := - creep_longitudinal c, creep_lateral := - creep_lateral c, creep_spin := - creep_spin c\<rparr>"

definition opposite_result :: "tangential_result \<Rightarrow> tangential_result" where
  "opposite_result r = \<lparr>tr_longitudinal = - tr_longitudinal r, tr_lateral = - tr_lateral r\<rparr>"

definition opposite_cell :: "cell_state \<Rightarrow> cell_state" where
  "opposite_cell s = s\<lparr>ce_stress_longitudinal := - ce_stress_longitudinal s, ce_stress_lateral := - ce_stress_lateral s,
     ce_result := opposite_result (ce_result s)\<rparr>"

lemma limited_stress_odd: "limited_stress limit (- x) (- y) = map_prod uminus uminus (limited_stress limit x y)"
  by (simp add: limited_stress_def Let_def double_negation)

lemma cell_step_odd:
  "cell_step patch (opposite_creepages c) r h (- rate) d A (opposite_cell s) = opposite_cell (cell_step patch c r h rate d A s)"
proof -
  define len where "len = tp_semi_longitudinal patch * (ce_previous s - ce_current s)"
  define mid where "mid = half * (ce_previous s + ce_current s)"
  define tx where "tx = ce_stress_longitudinal s - rate * len"
  define ty where "ty = ce_stress_lateral s - (creep_lateral c / pr_lateral_flexibility r
      + creep_spin c * (tp_semi_longitudinal patch * mid) / pr_spin_flexibility r) * len"
  define limit where "limit = tp_friction patch * (if h - ce_current s * ce_current s \<le> 0 then 0
      else pr_pressure_scale r * (h - ce_current s * ce_current s))"
  obtain x y where xy: "limited_stress limit tx ty = (x, y)" by fastforce
  have same: "ce_previous (opposite_cell s) = ce_previous s" "ce_current (opposite_cell s) = ce_current s"
    by (simp_all add: opposite_cell_def)
  have trials: "ce_stress_longitudinal (opposite_cell s) - - rate * len = - tx"
    "ce_stress_lateral (opposite_cell s) - (creep_lateral (opposite_creepages c) / pr_lateral_flexibility r
      + creep_spin (opposite_creepages c) * (tp_semi_longitudinal patch * mid) / pr_spin_flexibility r) * len = - ty"
    by (simp_all add: opposite_cell_def opposite_creepages_def tx_def ty_def double_negation)
  show ?thesis
    unfolding cell_step_def Let_def same len_def [symmetric] mid_def [symmetric] trials limit_def [symmetric]
      tx_def [symmetric] ty_def [symmetric] limited_stress_odd xy
    by (simp add: opposite_cell_def opposite_result_def double_negation)
qed

lemma cell_march_odd:
  "(cell_step patch (opposite_creepages c) r h (- rate) d A ^^ n) (opposite_cell s) = opposite_cell ((cell_step patch c r h rate d A ^^ n) s)"
  by (induction n) (simp_all add: cell_step_odd)

lemma strip_step_odd:
  "strip_step n patch (opposite_creepages c) r (opposite_result result) s = opposite_result (strip_step n patch c r result s)"
proof (cases "0 < 1 - strip_centre s * strip_centre s")
  case True
  define h where "h = std_sqrt (1 - strip_centre s * strip_centre s)"
  define d where "d = 2 * h / double_of_size n"
  define rate where "rate = creep_longitudinal c / pr_longitudinal_flexibility r
      - creep_spin c * (tp_semi_lateral patch * strip_centre s) / pr_spin_flexibility r"
  define A where "A = tp_semi_longitudinal patch * d * strip_width s * tp_semi_lateral patch"
  define start where "start = \<lparr>ce_stress_longitudinal = 0, ce_stress_lateral = 0, ce_previous = h,
      ce_current = h - half * d, ce_result = result\<rparr>"
  have plain: "strip_step n patch c r result s
      = ce_result ((cell_step patch c r (1 - strip_centre s * strip_centre s) rate d A ^^ n) start)"
    using True unfolding strip_step_def Let_def h_def d_def rate_def A_def start_def by simp
  have rate: "creep_longitudinal (opposite_creepages c) / pr_longitudinal_flexibility r
      - creep_spin (opposite_creepages c) * (tp_semi_lateral patch * strip_centre s) / pr_spin_flexibility r = - rate"
    by (simp add: opposite_creepages_def double_negation rate_def)
  have start: "\<lparr>ce_stress_longitudinal = 0, ce_stress_lateral = 0, ce_previous = h,
      ce_current = h - half * d, ce_result = opposite_result result\<rparr> = opposite_cell start"
    by (simp add: opposite_cell_def start_def)
  have "strip_step n patch (opposite_creepages c) r (opposite_result result) s
      = ce_result ((cell_step patch (opposite_creepages c) r (1 - strip_centre s * strip_centre s) (- rate) d A ^^ n) (opposite_cell start))"
    using True unfolding strip_step_def Let_def rate h_def [symmetric] d_def [symmetric] A_def [symmetric] start by simp
  then show ?thesis unfolding plain cell_march_odd by (simp add: opposite_cell_def)
qed (simp add: strip_step_def Let_def)

lemma strips_odd:
  "foldl (strip_step n patch (opposite_creepages c) r) (opposite_result result) strips
     = opposite_result (foldl (strip_step n patch c r) result strips)"
  by (induction strips arbitrary: result) (simp_all add: strip_step_odd)

lemma spin_pole_opposite:
  assumes "real_patch patch P a b mu" "real_rates r scale"
  shows "spin_pole r patch (opposite_creepages c) = spin_pole r patch c"
proof (cases "isfinite (creep_spin c) \<and> \<not> feq (creep_spin c) 0")
  case True
  then obtain w where w: "creep_spin c = Fin w" "w \<noteq> 0" by (auto simp: isfinite_iff)
  obtain l t s where r: "pr_longitudinal_flexibility r = Fin l" "pr_lateral_flexibility r = Fin t" "0 < l" "0 < t"
    using assms(2) by (auto simp: real_rates_def)
  have p: "tp_semi_longitudinal patch = Fin a" "tp_semi_lateral patch = Fin b" "0 < a" "0 < b"
    using assms(1) by (auto simp: real_patch_def)
  have n: "w * t * a \<noteq> 0" "w * l * b \<noteq> 0" using w r p by auto
  have d: "- Fin w * Fin t * Fin a = - Fin (w * t * a)" "- Fin w * Fin l * Fin b = - Fin (w * l * b)"
    "Fin w * Fin t * Fin a = Fin (w * t * a)" "Fin w * Fin l * Fin b = Fin (w * l * b)" by simp_all
  have "isfinite (- Fin w)" "\<not> feq (- Fin w) 0" "isfinite (Fin w)" "\<not> feq (Fin w) 0" using w(2) by simp_all
  moreover have "creep_longitudinal (opposite_creepages c) = - creep_longitudinal c" "creep_lateral (opposite_creepages c) = - creep_lateral c"
    "creep_spin (opposite_creepages c) = - Fin w" by (simp_all add: opposite_creepages_def w)
  ultimately show ?thesis
    unfolding spin_pole_def w(1) r p d by (simp only: simp_thms if_True d double_negation(2) double_quotient_of_negations [OF n(1)]
        double_quotient_of_negations [OF n(2)])
next
  case False
  then show ?thesis by (cases "creep_spin c") (auto simp: spin_pole_def opposite_creepages_def double_negation)
qed

text \<open>C5: The tangential force is odd in the creepages.  Reversing both creepages and the spin at once reverses the force,
  whatever the creepages are: the spin pole and so the strips stay where they are, each trial stress is mirrored, and the
  friction limit that cuts it back depends on its length only.  A refused ratio is refused both ways.\<close>
theorem tangential_force_odd:
  assumes "for_poisson_ratio nu rule = Inr table" "make_tangential_solver c table = Inr solver" "real_patch patch P a b mu"
  shows "tangential_solve solver patch (opposite_creepages creep)
    = map_option (map_sum id opposite_result) (tangential_solve solver patch creep)"
proof -
  note f = tangential_solver_facts [OF assms(2)]
  have patch: "tp_load patch = Fin P" "tp_semi_longitudinal patch = Fin a" "tp_semi_lateral patch = Fin b" "tp_friction patch = Fin mu"
      "0 < P" "0 < a" "0 < b" "0 < mu" and ratio: "Fin a / Fin b = Fin (a / b)"
    using assms(3) by (auto simp: real_patch_def)
  obtain G where G: "ts_shear_modulus solver = Fin G" "0 < G" using f(8) by blast
  obtain p where p: "numbers_pi = Fin p" "0 < p" using numbers_pi_pos by blast
  show ?thesis
  proof (cases "kalker_at table (Fin (a / b))")
    case (Inr k)
    then have "positive_coefficients k" using kalker_lookup_cases [OF assms(1), of "Fin (a / b)"] by auto
    then have r: "real_rates (patch_rates_of (Fin G) patch k) (2 * P / (p * a * b))"
      by (rule rates_are_real [OF assms(3) _ G(2) p])
    have none: "opposite_result no_tangential_force = no_tangential_force"
      by (simp add: opposite_result_def no_tangential_force_def)
    note odd = strips_odd [where result = no_tangential_force, unfolded none]
    show ?thesis using Inr patch f(2) ratio
      by (cases "spin_pole (patch_rates_of (Fin G) patch k) patch creep")
        (simp add: tangential_solve_def Let_def G(1) spin_pole_opposite [OF assms(3) r] odd split: Option.bind_splits)
  qed (use patch f(2) ratio in \<open>simp add: tangential_solve_def\<close>)
qed

theorem tangential_force_odd_witness:
  "\<exists>solver. steel_solver = Inr solver
     \<and> tangential_solve solver \<lparr>tp_load = Fin 100000, tp_semi_longitudinal = Fin (6 / 1000), tp_semi_lateral = Fin (5 / 1000), tp_friction = Fin (3 / 10)\<rparr>
         \<lparr>creep_longitudinal = Fin (- 1 / 1000), creep_lateral = Fin (- 1 / 500), creep_spin = Fin (- 1), creep_reference_speed = Fin 60\<rparr>
       = map_option (map_sum id opposite_result)
           (tangential_solve solver \<lparr>tp_load = Fin 100000, tp_semi_longitudinal = Fin (6 / 1000), tp_semi_lateral = Fin (5 / 1000), tp_friction = Fin (3 / 10)\<rparr>
             \<lparr>creep_longitudinal = Fin (1 / 1000), creep_lateral = Fin (1 / 500), creep_spin = Fin 1, creep_reference_speed = Fin 60\<rparr>)"
proof -
  obtain table solver where s: "for_poisson_ratio (Fin (7 / 25)) AsymptoticOutside = Inr table"
      "make_tangential_solver steel_configuration table = Inr solver" "steel_solver = Inr solver"
    using steel_solver_accepted by blast
  show ?thesis
    using tangential_force_odd [OF s(1,2), of
        "\<lparr>tp_load = Fin 100000, tp_semi_longitudinal = Fin (6 / 1000), tp_semi_lateral = Fin (5 / 1000), tp_friction = Fin (3 / 10)\<rparr>"
        100000 "6 / 1000" "5 / 1000" "3 / 10"
        "\<lparr>creep_longitudinal = Fin (1 / 1000), creep_lateral = Fin (1 / 500), creep_spin = Fin 1, creep_reference_speed = Fin 60\<rparr>"]
      s(3) by (auto simp: real_patch_def opposite_creepages_def)
qed

end
