(* ===== verification/Contact_Solver.thy ===== *)
theory Contact_Solver
  imports Wheel_Preparation Tangential_Contact
begin

section \<open>The contact geometry solver and its surfaces\<close>

text \<open>
  The construction part of \<open>contact_geometry.cc\<close> of \<open>libs/wheel_rail_contact\<close>: the constants, the helpers on sorted
  tables, the two surfaces, the sampled outline and the capacities that are reserved before the first solve.  The lemmas give the
  finite form of an accepted solver, on which the theories about a solve rest.
\<close>

subsection \<open>Constants and helpers\<close>

definition longitudinal_search_step :: double where "longitudinal_search_step = Fin (5 / 10 ^ 4)"
definition longitudinal_search_limit :: double where "longitudinal_search_limit = quarter"
definition chord_resolution :: double where "chord_resolution = Fin (2 / 10 ^ 8)"
definition maximum_bisection_count :: nat where "maximum_bisection_count = 36"
definition screening_bisection_count :: nat where "screening_bisection_count = 7"
definition centroid_divisor_floor :: double where "centroid_divisor_floor = Fin (1 / 10 ^ 20)"
definition curvature_denominator_floor :: double where "curvature_denominator_floor = Fin (1 / 10 ^ 30)"
definition max_contact_islands :: nat where "max_contact_islands = 64"
definition max_contact_patches :: nat where "max_contact_patches = 16"

definition clamp_value :: "double \<Rightarrow> double \<Rightarrow> double \<Rightarrow> double" where
  "clamp_value v low high = (if v < low then low else if high < v then high else v)"

text \<open>\<open>std::ceil\<close>\<close>

fun std_ceil :: "double \<Rightarrow> double" where
  "std_ceil (Fin x) = Fin (of_int \<lceil>x\<rceil>)"
| "std_ceil d = d"

text \<open>\<open>numeric_limits<double>::max()\<close>\<close>

definition largest_double :: double where "largest_double = Fin ((2 - 1 / 2 ^ 52) * 2 ^ 1023)"

function advance_segment :: "vec \<Rightarrow> double \<Rightarrow> nat \<Rightarrow> nat" where
  "advance_segment knots x cursor =
     (if cursor < length knots - 2 \<and> knots ! Suc cursor \<le> x then advance_segment knots x (Suc cursor) else cursor)"
  by auto
termination by (relation "measure (\<lambda>(knots, x, cursor). length knots - 2 - cursor)") auto

declare advance_segment.simps [simp del]

definition locate_segment :: "vec \<Rightarrow> double \<Rightarrow> nat" where
  "locate_segment knots x =
     (if \<not> knots ! 0 < x then 0
      else if knots ! (length knots - 1) \<le> x then length knots - 2
      else upper_bound knots x - 1)"

record cubic_segment =
  cs_spacing :: double
  cs_constant :: double
  cs_linear :: double
  cs_quadratic :: double
  cs_cubic :: double

definition cubic_between :: "double \<Rightarrow> double \<Rightarrow> double \<Rightarrow> double \<Rightarrow> double \<Rightarrow> double \<Rightarrow> cubic_segment" where
  "cubic_between left_knot right_knot left_value right_value left_slope right_slope =
     (let spacing = right_knot - left_knot
      in \<lparr>cs_spacing = spacing, cs_constant = left_value, cs_linear = spacing * left_slope,
          cs_quadratic = - 3 * left_value + 3 * right_value - 2 * spacing * left_slope - spacing * right_slope,
          cs_cubic = 2 * left_value - 2 * right_value + spacing * left_slope + spacing * right_slope\<rparr>)"

definition cubic_value :: "cubic_segment \<Rightarrow> double \<Rightarrow> double" where
  "cubic_value c t = ((cs_cubic c * t + cs_quadratic c) * t + cs_linear c) * t + cs_constant c"

definition cubic_slope :: "cubic_segment \<Rightarrow> double \<Rightarrow> double" where
  "cubic_slope c t = ((3 * cs_cubic c * t + 2 * cs_quadratic c) * t + cs_linear c) / cs_spacing c"

definition segment_parameter :: "double \<Rightarrow> double \<Rightarrow> double \<Rightarrow> double" where
  "segment_parameter x left_knot spacing = clamp_value ((x - left_knot) / spacing) 0 1"

definition interpolate_linear :: "vec \<Rightarrow> vec \<Rightarrow> double \<Rightarrow> double" where
  "interpolate_linear abscissae values x =
     (if length abscissae = 0 then NaN
      else if length abscissae = 1 \<or> x \<le> abscissae ! 0 then values ! 0
      else if abscissae ! (length abscissae - 1) \<le> x then values ! (length abscissae - 1)
      else let i = locate_segment abscissae x; left = abscissae ! i; right = abscissae ! Suc i
           in if feq right left then values ! i
              else values ! i + (values ! Suc i - values ! i) * (x - left) / (right - left))"

definition refine_edge :: "double \<Rightarrow> double \<Rightarrow> double \<Rightarrow> double \<Rightarrow> double" where
  "refine_edge left_x left_gap right_x right_gap =
     (if feq right_gap left_gap then half * (left_x + right_x)
      else left_x + (0 - left_gap) * (right_x - left_x) / (right_gap - left_gap))"

definition curvature_from_slope :: "interpolant \<Rightarrow> double \<Rightarrow> double \<Rightarrow> double" where
  "curvature_from_slope surface x slope =
     (let bend = ip_second_derivative surface x
      in if \<not> isfinite slope \<or> \<not> isfinite bend then NaN
         else let denominator = pow_three_halves (1 + slope * slope)
              in if denominator < curvature_denominator_floor then NaN else bend / denominator)"

definition surface_curvature :: "interpolant \<Rightarrow> double \<Rightarrow> double" where
  "surface_curvature surface x = curvature_from_slope surface x (ip_first_derivative surface x)"

subsection \<open>The solver\<close>

record geometry_configuration =
  gc_radius :: double
  gc_bin_width :: double
  gc_samples :: nat
  gc_epsilon :: double
  gc_merge_tolerance :: double
  gc_stations :: nat
  gc_cant :: double

record geometry_solver =
  gs_configuration :: geometry_configuration
  gs_side :: wheel_side
  gs_side_sign :: double
  gs_wheel_nodes :: control_nodes
  gs_rail_side :: side_resolved_profile
  gs_wheel_spline :: natural_spline
  gs_wheel_surface :: interpolant
  gs_rail_surface :: interpolant
  gs_outline :: profile_outline
  gs_bin_capacity :: nat
  gs_envelope_capacity :: nat
  gs_union_capacity :: nat
  gs_quadrature_capacity :: nat

definition resolve_wheel_nodes :: "profile_points \<Rightarrow> wheel_side \<Rightarrow> double \<Rightarrow> control_nodes outcome option" where
  "resolve_wheel_nodes wheel side rescan =
     (case make_preparation rescan of
        Inl e \<Rightarrow> Some (Inl e)
      | Inr step \<Rightarrow> Option.bind (lay_control_nodes step wheel side) (\<lambda>laid.
          Some (bindS laid (\<lambda>nodes.
            if cn_lateral nodes \<noteq> [] then Inr nodes
            else let resolved = resolve_for_side wheel side
                 in Inr (nodes\<lparr>cn_lateral := srp_lateral resolved, cn_vertical := srp_vertical resolved\<rparr>)))))"

definition surface_through_nodes :: "vec \<Rightarrow> vec \<Rightarrow> interpolant outcome" where
  "surface_through_nodes lateral vertical =
     bindS (make_natural_spline lateral vertical) (\<lambda>s.
     from_nodal_slopes lateral vertical (ns_nodal_slopes s) ZeroOutsideKnots)"

definition usable :: "double \<Rightarrow> bool" where
  "usable v \<longleftrightarrow> isfinite v \<and> 0 < v"

definition geometry_checks :: "geometry_configuration \<Rightarrow> profile_role \<Rightarrow> nat \<Rightarrow> nat \<Rightarrow> unit outcome" where
  "geometry_checks c rail_role wheel_count rail_count = all_checks
     [reject_if (rail_role \<noteq> RailProfile) InvalidArgument,
      reject_if (wheel_count < 3 \<or> rail_count < 3) InvalidArgument,
      reject_if (\<not> usable (gc_radius c)) InvalidArgument,
      reject_if (\<not> usable (gc_bin_width c)) InvalidArgument,
      reject_if (gc_samples c < 2) InvalidArgument,
      reject_if (gc_stations c < 3) InvalidArgument,
      reject_if (\<not> isfinite (gc_epsilon c) \<or> \<not> isfinite (gc_merge_tolerance c) \<or> \<not> isfinite (gc_cant c)) InvalidArgument]"

definition maximum_absolute_radius :: "double \<Rightarrow> vec \<Rightarrow> double" where
  "maximum_absolute_radius radius heights = foldl (\<lambda>m h. std_max m \<bar>radius + h\<bar>) 0 heights"

definition geometry_solver_of ::
    "geometry_configuration \<Rightarrow> wheel_side \<Rightarrow> control_nodes \<Rightarrow> side_resolved_profile \<Rightarrow> natural_spline \<Rightarrow> interpolant
     \<Rightarrow> interpolant \<Rightarrow> geometry_solver" where
  "geometry_solver_of c side nodes rail spline wheel_surface rail_surface =
     (let first = hd (cn_lateral nodes); last_one = last (cn_lateral nodes);
          outline = outline_of spline (sample_stations first last_one (gc_samples c));
          span = std_hypot (2 * maximum_absolute_radius (gc_radius c) (po_height outline)) (last_one - first)
      in \<lparr>gs_configuration = c, gs_side = side, gs_side_sign = (if side = LeftSide then 1 else - 1),
          gs_wheel_nodes = nodes, gs_rail_side = rail, gs_wheel_spline = spline,
          gs_wheel_surface = wheel_surface, gs_rail_surface = rail_surface, gs_outline = outline,
          gs_bin_capacity = size_of_double (std_ceil (span / gc_bin_width c)) + 3,
          gs_envelope_capacity = gc_samples c,
          gs_union_capacity = gc_samples c + length (srp_lateral rail),
          gs_quadrature_capacity = gc_stations c\<rparr>)"

definition make_geometry_solver ::
    "profile_points \<Rightarrow> profile_points \<Rightarrow> wheel_side \<Rightarrow> double \<Rightarrow> geometry_configuration \<Rightarrow> geometry_solver outcome option" where
  "make_geometry_solver wheel rail side rescan c =
     Option.bind (resolve_wheel_nodes wheel side rescan) (\<lambda>laid.
     Some (bindS laid (\<lambda>nodes.
       let rail_side = resolve_for_side rail side
       in bindS (make_natural_spline (cn_lateral nodes) (cn_vertical nodes)) (\<lambda>spline.
          bindS (surface_through_nodes (cn_lateral nodes) (cn_vertical nodes)) (\<lambda>wheel_surface.
          bindS (surface_through_nodes (srp_lateral rail_side) (srp_vertical rail_side)) (\<lambda>rail_surface.
          bindS (geometry_checks c (pp_role rail) (length (cn_lateral nodes)) (length (srp_lateral rail_side))) (\<lambda>_.
          Inr (geometry_solver_of c side nodes rail_side spline wheel_surface rail_surface))))))))"

subsection \<open>An accepted solver, over reals\<close>

definition real_interpolant :: "interpolant \<Rightarrow> real list \<Rightarrow> bool" where
  "real_interpolant m ks \<longleftrightarrow> (\<exists>vs ds. node_lists ks vs ds \<and> m = node_interpolant ks vs ds ZeroOutsideKnots)"

lemma surface_built:
  assumes "surface_through_nodes lateral vertical = Inr m"
  shows "\<exists>ks. lateral = map Fin ks \<and> real_interpolant m ks"
proof -
  obtain s where "make_natural_spline lateral vertical = Inr s"
      "from_nodal_slopes lateral vertical (ns_nodal_slopes s) ZeroOutsideKnots = Inr m"
    using assms unfolding surface_through_nodes_def bindS_eq_Inr by blast
  then obtain ks vs ds where "lateral = map Fin ks" "node_lists ks vs ds" "m = node_interpolant ks vs ds ZeroOutsideKnots"
    using from_nodal_slopes_Inr by metis
  then show ?thesis by (auto simp: real_interpolant_def)
qed

lemma real_interpolant_built: "real_interpolant m ks \<Longrightarrow> \<exists>ds vs. m = node_interpolant ks vs ds ZeroOutsideKnots \<and> node_lists ks vs ds"
  by (auto simp: real_interpolant_def)

text \<open>What every operation of a solve needs: finite configuration, finite outline, increasing rail nodes.\<close>

record solver_reals =
  sr_radius :: real
  sr_width :: real
  sr_epsilon :: real
  sr_merge :: real
  sr_stations :: "real list"
  sr_heights :: "real list"
  sr_slopes :: "real list"
  sr_rail :: "real list"

definition real_solver :: "geometry_solver \<Rightarrow> solver_reals \<Rightarrow> bool" where
  "real_solver g r \<longleftrightarrow>
     gc_radius (gs_configuration g) = Fin (sr_radius r) \<and> 0 < sr_radius r
   \<and> gc_bin_width (gs_configuration g) = Fin (sr_width r) \<and> 0 < sr_width r
   \<and> gc_epsilon (gs_configuration g) = Fin (sr_epsilon r) \<and> gc_merge_tolerance (gs_configuration g) = Fin (sr_merge r)
   \<and> isfinite (gc_cant (gs_configuration g))
   \<and> 2 \<le> gc_samples (gs_configuration g) \<and> 3 \<le> gc_stations (gs_configuration g)
   \<and> po_station (gs_outline g) = map Fin (sr_stations r) \<and> po_height (gs_outline g) = map Fin (sr_heights r)
   \<and> po_slope (gs_outline g) = map Fin (sr_slopes r)
   \<and> length (sr_stations r) = gc_samples (gs_configuration g) \<and> length (sr_heights r) = gc_samples (gs_configuration g)
   \<and> length (sr_slopes r) = gc_samples (gs_configuration g)
   \<and> srp_lateral (gs_rail_side g) = map Fin (sr_rail r) \<and> 3 \<le> length (sr_rail r) \<and> increasing_reals (sr_rail r)
   \<and> real_interpolant (gs_rail_surface g) (sr_rail r)
   \<and> (\<exists>ks. real_interpolant (gs_wheel_surface g) ks)
   \<and> (\<exists>ks vs ds hs. spline_from ks vs ds hs (gs_wheel_spline g))
   \<and> (\<exists>first last_one. (\<forall>x \<in> set (sr_stations r). first \<le> x \<and> x \<le> last_one) \<and>
        gs_bin_capacity g = size_of_double (std_ceil (std_hypot (2 * maximum_absolute_radius (Fin (sr_radius r)) (map Fin (sr_heights r)))
          (Fin (last_one - first)) / Fin (sr_width r))) + 3)"

lemma sample_stations_Fin:
  assumes "2 \<le> n" "a \<le> b"
  shows "\<exists>xs. sample_stations (Fin a) (Fin b) n = map Fin xs \<and> length xs = n \<and> (\<forall>x \<in> set xs. a \<le> x \<and> x \<le> b)"
proof -
  have d: "real (n - 1) \<noteq> 0" "0 < real (n - 1)" using assms(1) by auto
  define xs where "xs = map (\<lambda>i. a + (b - a) * (real i / real (n - 1))) [0..<n]"
  have "sample_stations (Fin a) (Fin b) n = map Fin xs" using d by (simp add: sample_stations_def xs_def)
  moreover have "a \<le> x \<and> x \<le> b" if mem: "x \<in> set xs" for x
  proof -
    obtain i where "i \<in> set [0..<n]" and e: "x = a + (b - a) * (real i / real (n - 1))"
      using mem unfolding xs_def set_map by blast
    then have i: "i < n" by simp
    have "real i / real (n - 1) \<le> 1" "0 \<le> real i / real (n - 1)" using i d(2) by auto
    then have "(b - a) * (real i / real (n - 1)) \<le> (b - a) * 1" "0 \<le> (b - a) * (real i / real (n - 1))"
      using assms(2) by (intro mult_left_mono mult_nonneg_nonneg; simp)+
    then show ?thesis unfolding e by auto
  qed
  ultimately show ?thesis by (intro exI [of _ xs]) (auto simp: xs_def)
qed

lemma accepted_geometry:
  assumes "make_geometry_solver wheel rail side rescan c = Some (Inr g)"
  shows "\<exists>r. real_solver g r"
proof -
  obtain nodes spline wheel_surface rail_surface where p:
      "make_natural_spline (cn_lateral nodes) (cn_vertical nodes) = Inr spline"
      "surface_through_nodes (cn_lateral nodes) (cn_vertical nodes) = Inr wheel_surface"
      "surface_through_nodes (srp_lateral (resolve_for_side rail side)) (srp_vertical (resolve_for_side rail side)) = Inr rail_surface"
      "geometry_checks c (pp_role rail) (length (cn_lateral nodes)) (length (srp_lateral (resolve_for_side rail side))) = Inr ()"
      "g = geometry_solver_of c side nodes (resolve_for_side rail side) spline wheel_surface rail_surface"
    using assms by (auto simp: make_geometry_solver_def bind_eq_Some_conv bindS_eq_Inr Let_def)
  obtain ks vs ds hs where k: "cn_lateral nodes = map Fin ks" "spline_from ks vs ds hs spline"
    using spline_built [OF p(1)] by metis
  note d = spline_fromD [OF k(2)]
  obtain rs where rs: "srp_lateral (resolve_for_side rail side) = map Fin rs" "real_interpolant rail_surface rs"
    using surface_built [OF p(3)] by blast
  have inc: "increasing_reals rs" using rs(2) node_listsD(5) by (auto simp: real_interpolant_def)
  have checks: "3 \<le> length ks" "3 \<le> length rs" "usable (gc_radius c)" "usable (gc_bin_width c)" "2 \<le> gc_samples c" "3 \<le> gc_stations c"
    "isfinite (gc_epsilon c)" "isfinite (gc_merge_tolerance c)" "isfinite (gc_cant c)"
    using p(4) by (auto simp: geometry_checks_def all_checks_Inr k(1) rs(1))
  obtain R w e m where cfg: "gc_radius c = Fin R" "0 < R" "gc_bin_width c = Fin w" "0 < w" "gc_epsilon c = Fin e" "gc_merge_tolerance c = Fin m"
    using checks(3,4,7,8) by (auto simp: usable_def isfinite_iff)
  have ends: "hd (map Fin ks) = Fin (ks ! 0)" "last (map Fin ks) = Fin (ks ! (length ks - 1))"
    using d(13) by (simp_all add: hd_map last_map hd_conv_nth last_conv_nth)
  have "ks ! 0 \<le> ks ! (length ks - 1)" using increasing_reals_le [OF d(4), of 0 "length ks - 1"] d(1) by simp
  then obtain xs where xs: "sample_stations (Fin (ks ! 0)) (Fin (ks ! (length ks - 1))) (gc_samples c) = map Fin xs"
      "length xs = gc_samples c" "\<forall>x \<in> set xs. ks ! 0 \<le> x \<and> x \<le> ks ! (length ks - 1)"
    using sample_stations_Fin [OF checks(5)] by blast
  define zs where "zs = map (\<lambda>x. to_real (spline_evaluate spline (Fin x))) xs"
  define ss where "ss = map (\<lambda>x. to_real (spline_first_derivative spline (Fin x))) xs"
  have outline: "outline_of spline (map Fin xs) = \<lparr>po_station = map Fin xs, po_height = map Fin zs, po_slope = map Fin ss\<rparr>"
    using spline_finite [OF k(2)] by (simp add: outline_of_def zs_def ss_def Fin_to_real)
  have "real_solver g \<lparr>sr_radius = R, sr_width = w, sr_epsilon = e, sr_merge = m, sr_stations = xs, sr_heights = zs,
      sr_slopes = ss, sr_rail = rs\<rparr>"
    unfolding real_solver_def p(5) geometry_solver_of_def k(1) ends xs(1) Let_def outline
    using cfg checks xs rs k(2) inc surface_built [OF p(2)]
    by (auto simp: zs_def ss_def intro: exI [of _ "ks ! 0"])
  then show ?thesis by blast
qed

subsection \<open>A concrete solver\<close>

lemma surface_accepts:
  assumes "make_natural_spline lateral vertical = Inr s"
  shows "\<exists>m. surface_through_nodes lateral vertical = Inr m"
proof -
  obtain ks vs ds hs where k: "lateral = map Fin ks" "vertical = map Fin vs" "spline_from ks vs ds hs s"
    using spline_built [OF assms] by blast
  note d = spline_fromD [OF k(3)]
  have "require_usable_nodes lateral vertical = Inr ()" unfolding usable_nodes_Inr using k(1,2) d(1,2,4) by blast
  then show ?thesis using assms d(3) k(1) by (simp add: surface_through_nodes_def from_nodal_slopes_def d(9))
qed

text \<open>The crown profile on both bodies.\<close>

definition crown_wheel :: profile_points where
  "crown_wheel = \<lparr>pp_role = WheelProfile, pp_identifier = ''crown'', pp_lateral = crown_knots, pp_vertical = crown_heights\<rparr>"

definition crown_rail :: profile_points where
  "crown_rail = \<lparr>pp_role = RailProfile, pp_identifier = ''crown'', pp_lateral = crown_knots, pp_vertical = crown_heights\<rparr>"

definition crown_configuration :: geometry_configuration where
  "crown_configuration = \<lparr>gc_radius = half, gc_bin_width = Fin (1 / 10), gc_samples = 4, gc_epsilon = 0,
     gc_merge_tolerance = Fin (1 / 1000), gc_stations = 3, gc_cant = Fin (1 / 40)\<rparr>"

definition crown_solver :: "geometry_solver outcome option" where
  "crown_solver = make_geometry_solver crown_wheel crown_rail RightSide 0 crown_configuration"

lemma crown_sides:
  "srp_lateral (resolve_for_side crown_wheel RightSide) = crown_knots" "srp_vertical (resolve_for_side crown_wheel RightSide) = crown_heights"
  "srp_lateral (resolve_for_side crown_rail RightSide) = crown_knots" "srp_vertical (resolve_for_side crown_rail RightSide) = crown_heights"
proof -
  have "profile_of True [0, 1, 3] [0, 1, 1] crown_wheel" "profile_of True [0, 1, 3] [0, 1, 1] crown_rail"
    by (auto simp: profile_of_def crown_wheel_def crown_rail_def crown_knots_def crown_heights_def monotone_reals_def less_Suc_eq numeral_eq_Suc)
  from resolved_right [OF this(1)] resolved_right [OF this(2)]
  show "srp_lateral (resolve_for_side crown_wheel RightSide) = crown_knots" "srp_vertical (resolve_for_side crown_wheel RightSide) = crown_heights"
    "srp_lateral (resolve_for_side crown_rail RightSide) = crown_knots" "srp_vertical (resolve_for_side crown_rail RightSide) = crown_heights"
    by (simp_all add: crown_knots_def crown_heights_def)
qed

lemma crown_nodes:
  "resolve_wheel_nodes crown_wheel RightSide (Fin 0)
    = Some (Inr \<lparr>cn_lateral = crown_knots, cn_vertical = crown_heights, cn_total_arc_length = 0\<rparr>)"
  using crown_sides by (simp add: resolve_wheel_nodes_def make_preparation_def lay_control_nodes_def require_wheel_profile_def crown_wheel_def)

lemma crown_fields:
  assumes "crown_solver = Some (Inr g)"
  shows "gs_configuration g = crown_configuration" "srp_lateral (gs_rail_side g) = [Fin 0, Fin 1, Fin 3]"
    "po_station (gs_outline g) = [Fin 0, Fin 1, Fin 2, Fin 3]"
proof -
  obtain spline wheel_surface rail_surface where g: "g = geometry_solver_of crown_configuration RightSide
      \<lparr>cn_lateral = crown_knots, cn_vertical = crown_heights, cn_total_arc_length = 0\<rparr> (resolve_for_side crown_rail RightSide)
      spline wheel_surface rail_surface"
    using assms by (auto simp: crown_solver_def make_geometry_solver_def crown_nodes bindS_eq_Inr Let_def)
  show "gs_configuration g = crown_configuration" "srp_lateral (gs_rail_side g) = [Fin 0, Fin 1, Fin 3]"
    by (simp_all add: g geometry_solver_of_def crown_sides crown_knots_def Let_def)
  have "[0..<4] = [0, 1, 2, 3 :: nat]" by (simp add: upt_conv_Cons)
  then show "po_station (gs_outline g) = [Fin 0, Fin 1, Fin 2, Fin 3]"
    by (simp add: g geometry_solver_of_def crown_knots_def crown_configuration_def outline_of_def sample_stations_def Let_def)
qed

lemma crown_solver_accepted: "\<exists>g. crown_solver = Some (Inr g)"
proof -
  obtain s where s: "make_natural_spline crown_knots crown_heights = Inr s" using crown_accepted by blast
  obtain m where m: "surface_through_nodes crown_knots crown_heights = Inr m" using surface_accepts [OF s] by blast
  have "geometry_checks crown_configuration (pp_role crown_rail) (length crown_knots) (length crown_knots) = Inr ()"
    by (simp add: geometry_checks_def crown_configuration_def crown_rail_def crown_knots_def usable_def)
  then show ?thesis
    using s m by (simp add: crown_solver_def make_geometry_solver_def crown_nodes crown_sides Let_def)
qed

end
