(* ===== verification/Longitudinal_Length.thy ===== *)
theory Longitudinal_Length
  imports Contact_Solver
begin

section \<open>The longitudinal length of a contact\<close>

text \<open>
  \<open>ResolveLongitudinalLength\<close> of \<open>contact_geometry.cc\<close>: how far along the track the wheel stays inside the rail.  For
  every station across the contact the wheel's circle is searched outward from its silhouette, both crossings are bisected, and
  the longest chord wins.  Stations that cannot beat the longest chord so far are screened out early, and three segment
  hints are carried from evaluation to evaluation.  The lemmas show that the search ends, and that neither the screening nor
  the hints nor the order of the stations changes the length: it is the longest of the fully refined chords.
\<close>

subsection \<open>The pose of a solve\<close>

record pose_frame =
  pf_yaw_tangent :: double
  pf_yaw_cosine :: double
  pf_yaw_sine :: double
  pf_roll_cosine :: double
  pf_roll_sine :: double
  pf_lateral_offset :: double
  pf_vertical_offset :: double

definition pose_frame_of :: "pose_scalars \<Rightarrow> pose_frame" where
  "pose_frame_of pose =
     (let roll_cosine = std_cos (ps_roll pose); roll_sine = std_sin (ps_roll pose)
      in \<lparr>pf_yaw_tangent = std_tan (ps_yaw pose), pf_yaw_cosine = std_cos (ps_yaw pose), pf_yaw_sine = std_sin (ps_yaw pose),
          pf_roll_cosine = roll_cosine, pf_roll_sine = roll_sine,
          pf_lateral_offset = ps_lateral_offset pose * roll_cosine + ps_vertical_raise pose * roll_sine,
          pf_vertical_offset = ps_lateral_offset pose * roll_sine - ps_vertical_raise pose * roll_cosine\<rparr>)"

subsection \<open>Evaluation on the circle of a station\<close>

record angular_evaluation =
  ae_angle :: double
  ae_sine :: double
  ae_cosine :: double
  ae_overlap :: double

definition overlap_from_trigonometry ::
    "geometry_solver \<Rightarrow> pose_frame \<Rightarrow> double \<Rightarrow> double \<Rightarrow> double \<Rightarrow> double \<Rightarrow> nat \<Rightarrow> double \<times> nat" where
  "overlap_from_trigonometry g f station local_radius angle_sine angle_cosine hint =
     (let wheel_x = local_radius * angle_sine;
          wheel_z = local_radius * angle_cosine - gc_radius (gs_configuration g);
          yawed = pf_yaw_sine f * wheel_x + pf_yaw_cosine f * station;
          lateral = pf_roll_cosine f * yawed - pf_roll_sine f * wheel_z + pf_lateral_offset f;
          vertical = pf_roll_sine f * yawed + pf_roll_cosine f * wheel_z + pf_vertical_offset f
      in case ip_evaluate_hinted (gs_rail_surface g) lateral hint of (rail, hint') \<Rightarrow> (vertical - rail, hint'))"

definition evaluate_native ::
    "geometry_solver \<Rightarrow> pose_frame \<Rightarrow> double \<Rightarrow> double \<Rightarrow> double \<Rightarrow> nat \<Rightarrow> angular_evaluation \<times> nat" where
  "evaluate_native g f station local_radius angle hint =
     (case overlap_from_trigonometry g f station local_radius (std_sin angle) (std_cos angle) hint of
        (overlap, hint') \<Rightarrow>
          (\<lparr>ae_angle = angle, ae_sine = std_sin angle, ae_cosine = std_cos angle, ae_overlap = overlap\<rparr>, hint'))"

subsection \<open>Bisection of a crossing\<close>

record root_bracket =
  rb_outside :: angular_evaluation
  rb_inside :: angular_evaluation
  rb_count :: nat

definition inverse_endpoint_norm :: "double \<Rightarrow> double" where
  "inverse_endpoint_norm half_width_squared =
     half * (1 + half_width_squared * (half + half_width_squared * (Fin (5 / 24) + half_width_squared *
       (Fin (61 / 720) + half_width_squared * Fin (1385 / 40320)))))"

definition refine_wanted :: "pose_frame \<Rightarrow> double \<Rightarrow> nat \<Rightarrow> root_bracket \<Rightarrow> bool" where
  "refine_wanted f local_radius target b \<longleftrightarrow>
     rb_count b < target \<and> rb_count b < maximum_bisection_count
     \<and> chord_resolution < \<bar>pf_yaw_cosine f * local_radius\<bar> * \<bar>ae_angle (rb_inside b) - ae_angle (rb_outside b)\<bar>"

definition bisect_once ::
    "geometry_solver \<Rightarrow> pose_frame \<Rightarrow> double \<Rightarrow> double \<Rightarrow> root_bracket \<Rightarrow> nat \<Rightarrow> root_bracket \<times> nat" where
  "bisect_once g f station local_radius b hint =
     (let outside = rb_outside b; inside = rb_inside b;
          half_width = half * (ae_angle inside - ae_angle outside);
          inverse_norm = inverse_endpoint_norm (half_width * half_width);
          middle_sine = (ae_sine outside + ae_sine inside) * inverse_norm;
          middle_cosine = (ae_cosine outside + ae_cosine inside) * inverse_norm
      in case overlap_from_trigonometry g f station local_radius middle_sine middle_cosine hint of (overlap, hint') \<Rightarrow>
         let middle = \<lparr>ae_angle = half * (ae_angle outside + ae_angle inside), ae_sine = middle_sine,
                       ae_cosine = middle_cosine, ae_overlap = overlap\<rparr>
         in (if (0 < overlap) = (0 < ae_overlap outside) then b\<lparr>rb_outside := middle, rb_count := Suc (rb_count b)\<rparr>
             else b\<lparr>rb_inside := middle, rb_count := Suc (rb_count b)\<rparr>, hint'))"

lemma bisect_once_count: "rb_count (fst (bisect_once g f station local_radius b hint)) = Suc (rb_count b)"
  by (simp add: bisect_once_def Let_def split: prod.splits)

function refine_bracket ::
    "geometry_solver \<Rightarrow> pose_frame \<Rightarrow> double \<Rightarrow> double \<Rightarrow> nat \<Rightarrow> root_bracket \<Rightarrow> nat \<Rightarrow> root_bracket \<times> nat" where
  "refine_bracket g f station local_radius target b hint =
     (if refine_wanted f local_radius target b
      then refine_bracket g f station local_radius target (fst (bisect_once g f station local_radius b hint))
             (snd (bisect_once g f station local_radius b hint))
      else (b, hint))"
  by auto
termination
  by (relation "measure (\<lambda>(g, f, station, local_radius, target, b, hint). maximum_bisection_count - rb_count b)")
    (auto simp: refine_wanted_def bisect_once_count split_beta)

declare refine_bracket.simps [simp del]

subsection \<open>The outward search\<close>

record search_state =
  se_found_behind :: bool
  se_found_ahead :: bool
  se_behind :: angular_evaluation
  se_ahead :: angular_evaluation
  se_hint_behind :: nat
  se_hint_ahead :: nat

definition search_step :: "geometry_solver \<Rightarrow> pose_frame \<Rightarrow> double \<Rightarrow> double \<Rightarrow> double \<Rightarrow> double \<Rightarrow> search_state \<Rightarrow> search_state" where
  "search_step g f station local_radius silhouette_angle offset s =
     (let s = (if se_found_behind s then s
               else case evaluate_native g f station local_radius (silhouette_angle - offset) (se_hint_behind s) of
                 (e, hint) \<Rightarrow> s\<lparr>se_behind := e, se_hint_behind := hint, se_found_behind := ae_overlap e \<le> 0\<rparr>)
      in if se_found_ahead s then s
         else case evaluate_native g f station local_radius (silhouette_angle + offset) (se_hint_ahead s) of
           (e, hint) \<Rightarrow> s\<lparr>se_ahead := e, se_hint_ahead := hint, se_found_ahead := ae_overlap e \<le> 0\<rparr>)"

partial_function (option) search_outward ::
    "geometry_solver \<Rightarrow> pose_frame \<Rightarrow> double \<Rightarrow> double \<Rightarrow> double \<Rightarrow> double \<Rightarrow> search_state \<Rightarrow> search_state option" where
  "search_outward g f station local_radius silhouette_angle offset s =
     (if offset \<le> longitudinal_search_limit * (1 + Fin (1 / 10 ^ 12)) then
        let s' = search_step g f station local_radius silhouette_angle offset s
        in if se_found_behind s' \<and> se_found_ahead s' then Some s'
           else if longitudinal_search_limit \<le> offset then Some s'
           else search_outward g f station local_radius silhouette_angle (std_min (2 * offset) longitudinal_search_limit) s'
      else Some s)"

subsection \<open>One station\<close>

record length_state =
  ln_longest :: double
  ln_hint_silhouette :: nat
  ln_hint_behind :: nat
  ln_hint_ahead :: nat

definition chord_upper_bound :: "pose_frame \<Rightarrow> double \<Rightarrow> root_bracket \<Rightarrow> root_bracket \<Rightarrow> double" where
  "chord_upper_bound f local_radius behind ahead =
     (let lower = std_min (std_min (ae_angle (rb_outside behind)) (ae_angle (rb_inside behind)))
                          (std_min (ae_angle (rb_outside ahead)) (ae_angle (rb_inside ahead)));
          upper = std_max (std_max (ae_angle (rb_outside behind)) (ae_angle (rb_inside behind)))
                          (std_max (ae_angle (rb_outside ahead)) (ae_angle (rb_inside ahead)))
      in \<bar>pf_yaw_cosine f * local_radius\<bar> * (upper - lower))"

text \<open>The screening loop from a depth on: whether the station is out, with the brackets and hints as they are then.\<close>

fun screen_station ::
    "geometry_solver \<Rightarrow> pose_frame \<Rightarrow> double \<Rightarrow> double \<Rightarrow> double \<Rightarrow> nat list \<Rightarrow> root_bracket \<times> nat \<Rightarrow> root_bracket \<times> nat
     \<Rightarrow> bool \<times> (root_bracket \<times> nat) \<times> (root_bracket \<times> nat)" where
  "screen_station g f station local_radius longest [] behind ahead = (False, behind, ahead)"
| "screen_station g f station local_radius longest (depth # depths) behind ahead =
     (let behind' = refine_bracket g f station local_radius depth (fst behind) (snd behind);
          ahead' = refine_bracket g f station local_radius depth (fst ahead) (snd ahead)
      in if chord_upper_bound f local_radius (fst behind') (fst ahead') \<le> longest then (True, behind', ahead')
         else screen_station g f station local_radius longest depths behind' ahead')"

definition refined_chord :: "pose_frame \<Rightarrow> double \<Rightarrow> root_bracket \<Rightarrow> root_bracket \<Rightarrow> double" where
  "refined_chord f local_radius behind ahead =
     (let behind_crossing = half * (ae_angle (rb_outside behind) + ae_angle (rb_inside behind));
          ahead_crossing = half * (ae_angle (rb_outside ahead) + ae_angle (rb_inside ahead))
      in \<bar>pf_yaw_cosine f * local_radius * (std_sin ahead_crossing - std_sin behind_crossing)\<bar>)"

definition resolve_brackets ::
    "geometry_solver \<Rightarrow> pose_frame \<Rightarrow> double \<Rightarrow> double \<Rightarrow> bool \<Rightarrow> root_bracket \<Rightarrow> root_bracket \<Rightarrow> length_state \<Rightarrow> length_state" where
  "resolve_brackets g f station local_radius first behind ahead n =
     (let screened = (if first then (False, (behind, ln_hint_behind n), (ahead, ln_hint_ahead n))
                      else if chord_upper_bound f local_radius behind ahead \<le> ln_longest n
                      then (True, (behind, ln_hint_behind n), (ahead, ln_hint_ahead n))
                      else screen_station g f station local_radius (ln_longest n) [1..<Suc screening_bisection_count]
                             (behind, ln_hint_behind n) (ahead, ln_hint_ahead n))
      in case screened of (out, behind', ahead') \<Rightarrow>
         if out then n\<lparr>ln_hint_behind := snd behind', ln_hint_ahead := snd ahead'\<rparr>
         else let b = refine_bracket g f station local_radius maximum_bisection_count (fst behind') (snd behind');
                  a = refine_bracket g f station local_radius maximum_bisection_count (fst ahead') (snd ahead')
              in n\<lparr>ln_longest := std_max (ln_longest n) (refined_chord f local_radius (fst b) (fst a)),
                   ln_hint_behind := snd b, ln_hint_ahead := snd a\<rparr>)"

definition search_start :: "double \<Rightarrow> double \<Rightarrow> double" where
  "search_start overlap local_radius = std_max longitudinal_search_step (std_sqrt (2 * overlap / local_radius))"

definition resolve_station ::
    "geometry_solver \<Rightarrow> pose_frame \<Rightarrow> bool \<Rightarrow> double \<Rightarrow> length_state \<Rightarrow> length_state option" where
  "resolve_station g f first station n =
     (if \<not> isfinite station then Some n
      else case spline_value_and_first_derivative (gs_wheel_spline g) station of (height, slope) \<Rightarrow>
        let local_radius = gc_radius (gs_configuration g) + height
        in if \<not> isfinite local_radius \<or> \<not> 0 < local_radius then Some n
           else let silhouette_angle = std_asin (clamp_value (- pf_yaw_tangent f * slope) (- 1) 1)
                in case evaluate_native g f station local_radius silhouette_angle (ln_hint_silhouette n) of (silhouette, hint) \<Rightarrow>
                   let n = n\<lparr>ln_hint_silhouette := hint\<rparr>
                   in if \<not> isfinite (ae_overlap silhouette) \<or> \<not> 0 < ae_overlap silhouette then Some n
                      else Option.bind
                        (search_outward g f station local_radius silhouette_angle (search_start (ae_overlap silhouette) local_radius)
                           \<lparr>se_found_behind = False, se_found_ahead = False, se_behind = silhouette, se_ahead = silhouette,
                            se_hint_behind = ln_hint_behind n, se_hint_ahead = ln_hint_ahead n\<rparr>) (\<lambda>s.
                        let n = n\<lparr>ln_hint_behind := se_hint_behind s, ln_hint_ahead := se_hint_ahead s\<rparr>
                        in Some (if \<not> se_found_behind s \<or> \<not> se_found_ahead s then n
                                 else resolve_brackets g f station local_radius first
                                        \<lparr>rb_outside = se_behind s, rb_inside = silhouette, rb_count = 0\<rparr>
                                        \<lparr>rb_outside = se_ahead s, rb_inside = silhouette, rb_count = 0\<rparr> n)))"

subsection \<open>All stations\<close>

definition station_order :: "nat \<Rightarrow> nat \<Rightarrow> nat" where
  "station_order deepest order = (if order = 0 then deepest else if deepest \<le> order - 1 then order else order - 1)"

fun resolve_stations :: "geometry_solver \<Rightarrow> pose_frame \<Rightarrow> vec \<Rightarrow> nat \<Rightarrow> nat list \<Rightarrow> length_state \<Rightarrow> length_state option" where
  "resolve_stations g f stations deepest [] n = Some n"
| "resolve_stations g f stations deepest (order # orders) n =
     Option.bind (resolve_station g f (order = 0) (stations ! station_order deepest order) n)
       (resolve_stations g f stations deepest orders)"

definition no_segment_hint :: nat where "no_segment_hint = 2 ^ 64 - 1"

definition resolve_longitudinal_length :: "geometry_solver \<Rightarrow> pose_frame \<Rightarrow> vec \<Rightarrow> nat \<Rightarrow> double option" where
  "resolve_longitudinal_length g f stations deepest =
     map_option ln_longest (resolve_stations g f stations deepest [0..<length stations]
       \<lparr>ln_longest = 0, ln_hint_silhouette = no_segment_hint, ln_hint_behind = no_segment_hint,
        ln_hint_ahead = no_segment_hint\<rparr>)"

subsection \<open>Hints are invisible\<close>

definition rail_ok :: "geometry_solver \<Rightarrow> bool" where
  "rail_ok g \<longleftrightarrow> built_interpolant (gs_rail_surface g)"

lemma overlap_hint:
  assumes "rail_ok g"
  shows "fst (overlap_from_trigonometry g f st R s c h) = fst (overlap_from_trigonometry g f st R s c 0)"
  using hinted_evaluation [of "gs_rail_surface g"] assms
  by (simp add: overlap_from_trigonometry_def rail_ok_def Let_def)

lemma native_hint:
  assumes "rail_ok g"
  shows "fst (evaluate_native g f st R angle h) = fst (evaluate_native g f st R angle 0)"
  using overlap_hint [OF assms, of f st R "std_sin angle" "std_cos angle" h]
  by (simp add: evaluate_native_def split_beta)

lemma bisect_hint:
  assumes "rail_ok g"
  shows "fst (bisect_once g f st R b h) = fst (bisect_once g f st R b 0)"
  using overlap_hint [OF assms, of f st R _ _ h]
  by (simp add: bisect_once_def Let_def split_beta)

lemma refine_measure:
  "refine_wanted f R target b \<Longrightarrow>
     maximum_bisection_count - rb_count (fst (bisect_once g f st R b h)) < maximum_bisection_count - rb_count b"
  by (auto simp: bisect_once_count refine_wanted_def)

lemma refine_hint:
  assumes "rail_ok g"
  shows "fst (refine_bracket g f st R target b h) = fst (refine_bracket g f st R target b 0)"
proof (induction "maximum_bisection_count - rb_count b" arbitrary: b h rule: less_induct)
  case less
  show ?case
  proof (cases "refine_wanted f R target b")
    case True
    have "maximum_bisection_count - rb_count (fst (bisect_once g f st R b k)) < maximum_bisection_count - rb_count b" for k
      using True by (rule refine_measure)
    from less [OF this] have "fst (refine_bracket g f st R target (fst (bisect_once g f st R b k)) h')
        = fst (refine_bracket g f st R target (fst (bisect_once g f st R b k)) 0)" for k h' .
    then have "fst (refine_bracket g f st R target (fst (bisect_once g f st R b h)) (snd (bisect_once g f st R b h)))
        = fst (refine_bracket g f st R target (fst (bisect_once g f st R b 0)) (snd (bisect_once g f st R b 0)))"
      using bisect_hint [OF assms, of f st R b h] by metis
    then show ?thesis using True by (subst (1 2) refine_bracket.simps) simp
  qed (subst (1 2) refine_bracket.simps, simp)
qed

abbreviation refined :: "geometry_solver \<Rightarrow> pose_frame \<Rightarrow> double \<Rightarrow> double \<Rightarrow> nat \<Rightarrow> root_bracket \<Rightarrow> root_bracket" where
  "refined g f st R target b \<equiv> fst (refine_bracket g f st R target b 0)"

lemma refined_step:
  assumes "rail_ok g"
  shows "refined g f st R target b =
    (if refine_wanted f R target b then refined g f st R target (fst (bisect_once g f st R b 0)) else b)"
  using refine_hint [OF assms] by (subst refine_bracket.simps) simp

text \<open>Refinement in two stages is refinement in one.\<close>

lemma refined_twice:
  assumes "rail_ok g" "depth \<le> target"
  shows "refined g f st R target (refined g f st R depth b) = refined g f st R target b"
proof (induction "maximum_bisection_count - rb_count b" arbitrary: b rule: less_induct)
  case less
  show ?case
  proof (cases "refine_wanted f R depth b")
    case True
    then have wanted: "refine_wanted f R target b" using assms(2) by (auto simp: refine_wanted_def)
    have "maximum_bisection_count - rb_count (fst (bisect_once g f st R b 0)) < maximum_bisection_count - rb_count b"
      using True by (rule refine_measure)
    from less [OF this] show ?thesis
      using refined_step [OF assms(1), of f st R depth b] refined_step [OF assms(1), of f st R target b] True wanted by simp
  qed (use refined_step [OF assms(1), of f st R depth b] in simp)
qed

subsection \<open>Refinement keeps the crossing inside the bracket\<close>

definition bracket_within :: "real \<Rightarrow> real \<Rightarrow> root_bracket \<Rightarrow> bool" where
  "bracket_within a b rb \<longleftrightarrow> (\<exists>x y. ae_angle (rb_outside rb) = Fin x \<and> ae_angle (rb_inside rb) = Fin y
     \<and> a \<le> x \<and> x \<le> b \<and> a \<le> y \<and> y \<le> b)"

lemma bisect_within: "bracket_within a b rb \<Longrightarrow> bracket_within a b (fst (bisect_once g f st R rb h))"
proof -
  assume w: "bracket_within a b rb"
  then obtain x y where xy: "ae_angle (rb_outside rb) = Fin x" "ae_angle (rb_inside rb) = Fin y"
      "a \<le> x" "x \<le> b" "a \<le> y" "y \<le> b" by (auto simp: bracket_within_def)
  define e where "e = half * (ae_angle (rb_outside rb) + ae_angle (rb_inside rb))"
  obtain m where m: "e = Fin m" "a \<le> m" "m \<le> b"
  proof
    show "e = Fin ((x + y) / 2)" by (simp add: e_def xy)
  qed (use xy(3-6) in \<open>simp_all add: field_simps\<close>)
  show ?thesis unfolding bisect_once_def Let_def e_def [symmetric] bracket_within_def m(1) split_beta using xy m by auto
qed

lemma refined_within:
  assumes "rail_ok g" "bracket_within a b rb"
  shows "bracket_within a b (refined g f st R target rb)"
  using assms(2)
proof (induction "maximum_bisection_count - rb_count rb" arbitrary: rb rule: less_induct)
  case less
  show ?case
  proof (cases "refine_wanted f R target rb")
    case True
    have "maximum_bisection_count - rb_count (fst (bisect_once g f st R rb 0)) < maximum_bisection_count - rb_count rb"
      using True by (rule refine_measure)
    from less(1) [OF this] show ?thesis
      using refined_step [OF assms(1), of f st R target rb] True bisect_within [OF less(2)] by simp
  qed (use refined_step [OF assms(1), of f st R target rb] less in simp)
qed

text \<open>So the bound of a bracket pair bounds the chord of every refinement of it: the sine is 1-Lipschitz.\<close>

lemma abs_sin_diff_le: "\<bar>sin x - sin y\<bar> \<le> \<bar>x - y\<bar>" for x y :: real
proof -
  have "sin x - sin y = 2 * sin ((x - y) / 2) * cos ((x + y) / 2)" by (rule sin_diff_sin)
  then have "\<bar>sin x - sin y\<bar> = 2 * (\<bar>sin ((x - y) / 2)\<bar> * \<bar>cos ((x + y) / 2)\<bar>)" by (simp add: abs_mult)
  also have "\<dots> \<le> 2 * (\<bar>(x - y) / 2\<bar> * 1)"
    by (intro mult_left_mono mult_mono abs_sin_x_le_abs_x abs_cos_le_one) auto
  finally show ?thesis by simp
qed

definition finite_bracket :: "root_bracket \<Rightarrow> bool" where
  "finite_bracket b \<longleftrightarrow> isfinite (ae_angle (rb_outside b)) \<and> isfinite (ae_angle (rb_inside b))"

lemma chord_within:
  assumes g: "rail_ok g" and y: "pf_yaw_cosine f = Fin c"
    and b: "finite_bracket behind" "finite_bracket ahead"
  shows "\<exists>u v. chord_upper_bound f (Fin R) behind ahead = Fin u
    \<and> refined_chord f (Fin R) (refined g f st (Fin R) target behind) (refined g f st (Fin R) target ahead) = Fin v
    \<and> 0 \<le> v \<and> v \<le> u"
proof -
  obtain b1 b2 a1 a2 where e: "ae_angle (rb_outside behind) = Fin b1" "ae_angle (rb_inside behind) = Fin b2"
      "ae_angle (rb_outside ahead) = Fin a1" "ae_angle (rb_inside ahead) = Fin a2"
    using b by (auto simp: finite_bracket_def isfinite_iff)
  define lo where "lo = min (min b1 b2) (min a1 a2)"
  define hi where "hi = max (max b1 b2) (max a1 a2)"
  have "bracket_within lo hi behind" "bracket_within lo hi ahead" using e by (auto simp: bracket_within_def lo_def hi_def)
  from refined_within [OF g this(1), of f st "Fin R" target] refined_within [OF g this(2), of f st "Fin R" target]
  obtain b3 b4 a3 a4 where r: "ae_angle (rb_outside (refined g f st (Fin R) target behind)) = Fin b3"
      "ae_angle (rb_inside (refined g f st (Fin R) target behind)) = Fin b4"
      "ae_angle (rb_outside (refined g f st (Fin R) target ahead)) = Fin a3"
      "ae_angle (rb_inside (refined g f st (Fin R) target ahead)) = Fin a4"
      "lo \<le> b3" "b3 \<le> hi" "lo \<le> b4" "b4 \<le> hi" "lo \<le> a3" "a3 \<le> hi" "lo \<le> a4" "a4 \<le> hi"
    unfolding bracket_within_def by blast
  define x where "x = (a3 + a4) / 2"
  define z where "z = (b3 + b4) / 2"
  have "\<bar>sin x - sin z\<bar> \<le> \<bar>x - z\<bar>" by (rule abs_sin_diff_le)
  moreover have "\<bar>x - z\<bar> \<le> hi - lo" 
  proof -
    have "lo \<le> x" "x \<le> hi" "lo \<le> z" "z \<le> hi" using r(5-12) by (simp_all add: x_def z_def field_simps)
    then show ?thesis by linarith
  qed
  ultimately have "\<bar>c * R\<bar> * \<bar>sin x - sin z\<bar> \<le> \<bar>c * R\<bar> * (hi - lo)" by (intro mult_left_mono) auto
  then have "\<bar>c * R * (sin x - sin z)\<bar> \<le> \<bar>c * R\<bar> * (hi - lo)" by (simp add: abs_mult)
  moreover have "chord_upper_bound f (Fin R) behind ahead = Fin (\<bar>c * R\<bar> * (hi - lo))"
    by (simp add: chord_upper_bound_def Let_def e y lo_def hi_def)
  moreover have "refined_chord f (Fin R) (refined g f st (Fin R) target behind) (refined g f st (Fin R) target ahead)
      = Fin \<bar>c * R * (sin x - sin z)\<bar>"
    by (simp add: refined_chord_def Let_def r(1-4) y x_def z_def)
  ultimately show ?thesis by (intro exI conjI) (assumption | rule abs_ge_zero)+
qed

subsection \<open>The search ends\<close>

definition finite_search :: "search_state \<Rightarrow> bool" where
  "finite_search s \<longleftrightarrow> isfinite (ae_angle (se_behind s)) \<and> isfinite (ae_angle (se_ahead s))"

lemma search_step_finite:
  "finite_search s \<Longrightarrow> isfinite a \<Longrightarrow> isfinite d \<Longrightarrow> finite_search (search_step g f st R a d s)"
  by (simp add: search_step_def finite_search_def evaluate_native_def Let_def split: prod.splits)

lemma search_returns:
  assumes "0 < x" "1 / 4 \<le> x * 2 ^ n" "finite_search s" "isfinite a"
  shows "\<exists>s'. search_outward g f st R a (Fin x) s = Some s' \<and> finite_search s'"
  using assms(1-3)
proof (induction n arbitrary: x s)
  case 0
  then show ?case
    using search_step_finite [OF 0(3) assms(4), of "Fin x"]
    by (subst search_outward.simps) (auto simp: Let_def longitudinal_search_limit_def)
next
  case (Suc n)
  define s' where "s' = search_step g f st R a (Fin x) s"
  have s': "finite_search s'" using search_step_finite [OF Suc.prems(3) assms(4)] by (simp add: s'_def)
  have m: "std_min (Fin (2 * x)) longitudinal_search_limit = Fin (min (2 * x) (1 / 4))"
    by (simp add: longitudinal_search_limit_def)
  have "1 / 4 \<le> 2 * x * 2 ^ n" using Suc.prems(2) by simp
  moreover have "1 / 4 \<le> 1 / 4 * (2 :: real) ^ n" by simp
  ultimately have "1 / 4 \<le> min (2 * x) (1 / 4) * 2 ^ n" by (simp add: min_def)
  moreover have "0 < min (2 * x) (1 / 4)" using Suc.prems(1) by simp
  ultimately obtain s'' where "search_outward g f st R a (Fin (min (2 * x) (1 / 4))) s' = Some s''" "finite_search s''"
    using Suc.IH s' by blast
  then show ?case
    using s' Suc.prems(3) by (subst search_outward.simps) (auto simp: Let_def m simp flip: s'_def)
qed

text \<open>Its result does not depend on the hints it starts from, hints aside.\<close>

definition same_search :: "search_state \<Rightarrow> search_state \<Rightarrow> bool" where
  "same_search s t \<longleftrightarrow> se_found_behind s = se_found_behind t \<and> se_found_ahead s = se_found_ahead t
     \<and> se_behind s = se_behind t \<and> se_ahead s = se_ahead t"

lemma search_step_same:
  assumes "rail_ok g" "same_search s t"
  shows "same_search (search_step g f st R a d s) (search_step g f st R a d t)"
proof -
  have "fst (evaluate_native g f st R x h) = fst (evaluate_native g f st R x k)" for x h k
    using native_hint [OF assms(1)] by metis
  note e = this [of "a - d" "se_hint_behind s" "se_hint_behind t"] this [of "a + d" "se_hint_ahead s" "se_hint_ahead t"]
  show ?thesis using assms(2) e by (auto simp: search_step_def same_search_def Let_def split_beta)
qed

lemma search_same:
  assumes "rail_ok g" "0 < x" "1 / 4 \<le> x * 2 ^ n" "same_search s t"
  shows "rel_option same_search (search_outward g f st R a (Fin x) s) (search_outward g f st R a (Fin x) t)"
  using assms(2-4)
proof (induction n arbitrary: x s t)
  case 0
  define s' t' where "s' = search_step g f st R a (Fin x) s" and "t' = search_step g f st R a (Fin x) t"
  have same: "same_search s' t'" unfolding s'_def t'_def by (rule search_step_same [OF assms(1) 0(3)])
  then have found: "se_found_behind s' \<and> se_found_ahead s' \<longleftrightarrow> se_found_behind t' \<and> se_found_ahead t'" by (simp add: same_search_def)
  have "longitudinal_search_limit \<le> Fin x" using 0(2) by (simp add: longitudinal_search_limit_def)
  then show ?case
    by (subst (1 2) search_outward.simps) (simp add: Let_def found same 0(3) flip: s'_def t'_def)
next
  case (Suc n)
  define s' t' where "s' = search_step g f st R a (Fin x) s" and "t' = search_step g f st R a (Fin x) t"
  have same: "same_search s' t'" unfolding s'_def t'_def by (rule search_step_same [OF assms(1) Suc.prems(3)])
  then have found: "se_found_behind s' \<and> se_found_ahead s' \<longleftrightarrow> se_found_behind t' \<and> se_found_ahead t'" by (simp add: same_search_def)
  have m: "std_min (Fin (2 * x)) longitudinal_search_limit = Fin (min (2 * x) (1 / 4))"
    by (simp add: longitudinal_search_limit_def)
  have "1 / 4 \<le> 2 * x * 2 ^ n" using Suc.prems(2) by simp
  moreover have "1 / 4 \<le> 1 / 4 * (2 :: real) ^ n" by simp
  ultimately have "1 / 4 \<le> min (2 * x) (1 / 4) * 2 ^ n" by (simp add: min_def)
  moreover have "0 < min (2 * x) (1 / 4)" using Suc.prems(1) by simp
  ultimately have "rel_option same_search (search_outward g f st R a (Fin (min (2 * x) (1 / 4))) s')
      (search_outward g f st R a (Fin (min (2 * x) (1 / 4))) t')"
    using Suc.IH same by blast
  then show ?case
    by (subst (1 2) search_outward.simps) (simp add: Let_def found same Suc.prems(3) m flip: s'_def t'_def)
qed

subsection \<open>Screening changes no length\<close>

lemma screen_outcome:
  assumes g: "rail_ok g" and y: "pf_yaw_cosine f = Fin c"
    and b: "finite_bracket (fst behind)" "finite_bracket (fst ahead)"
    and d: "\<And>d. d \<in> set depths \<Longrightarrow> d \<le> maximum_bisection_count"
  shows "case screen_station g f st (Fin R) (Fin L) depths behind ahead of (out, behind', ahead') \<Rightarrow>
     refined g f st (Fin R) maximum_bisection_count (fst behind') = refined g f st (Fin R) maximum_bisection_count (fst behind)
   \<and> refined g f st (Fin R) maximum_bisection_count (fst ahead') = refined g f st (Fin R) maximum_bisection_count (fst ahead)
   \<and> finite_bracket (fst behind') \<and> finite_bracket (fst ahead')
   \<and> (out \<longrightarrow> chord_upper_bound f (Fin R) (fst behind') (fst ahead') \<le> Fin L)"
  using b d
proof (induction depths arbitrary: behind ahead)
  case (Cons depth depths)
  define behind' where "behind' = refine_bracket g f st (Fin R) depth (fst behind) (snd behind)"
  define ahead' where "ahead' = refine_bracket g f st (Fin R) depth (fst ahead) (snd ahead)"
  have e: "fst behind' = refined g f st (Fin R) depth (fst behind)" "fst ahead' = refined g f st (Fin R) depth (fst ahead)"
    using refine_hint [OF g] by (simp_all add: behind'_def ahead'_def)
  have depth: "depth \<le> maximum_bisection_count" using Cons.prems(3) by simp
  have twice: "refined g f st (Fin R) maximum_bisection_count (fst behind') = refined g f st (Fin R) maximum_bisection_count (fst behind)"
    "refined g f st (Fin R) maximum_bisection_count (fst ahead') = refined g f st (Fin R) maximum_bisection_count (fst ahead)"
    unfolding e by (rule refined_twice [OF g depth])+
  have fin: "finite_bracket (refined g f st (Fin R) depth rb)" if fb: "finite_bracket rb" for rb
  proof -
    obtain x z where xz: "ae_angle (rb_outside rb) = Fin x" "ae_angle (rb_inside rb) = Fin z"
      using fb by (auto simp: finite_bracket_def isfinite_iff)
    then have "bracket_within (min x z) (max x z) rb" by (auto simp: bracket_within_def)
    from refined_within [OF g this, of f st "Fin R" depth] show ?thesis by (auto simp: bracket_within_def finite_bracket_def)
  qed
  then have f': "finite_bracket (fst behind')" "finite_bracket (fst ahead')" using Cons.prems(1,2) by (auto simp: e)
  show ?case
  proof (cases "chord_upper_bound f (Fin R) (fst behind') (fst ahead') \<le> Fin L")
    case True
    then show ?thesis using twice f' by (simp add: Let_def flip: behind'_def ahead'_def)
  next
    case False
    have "\<And>d. d \<in> set depths \<Longrightarrow> d \<le> maximum_bisection_count" using Cons.prems(3) by simp
    from Cons.IH [OF f' this] show ?thesis
      using False twice by (auto simp: Let_def simp flip: behind'_def ahead'_def split: prod.splits)
  qed
qed simp

text \<open>The chord a pair of brackets would give without screening.\<close>

definition full_chord :: "geometry_solver \<Rightarrow> pose_frame \<Rightarrow> double \<Rightarrow> double \<Rightarrow> root_bracket \<Rightarrow> root_bracket \<Rightarrow> double" where
  "full_chord g f st R behind ahead =
     refined_chord f R (refined g f st R maximum_bisection_count behind) (refined g f st R maximum_bisection_count ahead)"

lemma resolve_brackets_longest:
  assumes g: "rail_ok g" and y: "pf_yaw_cosine f = Fin c"
    and b: "finite_bracket behind" "finite_bracket ahead" and L: "ln_longest n = Fin L"
  shows "ln_longest (resolve_brackets g f st (Fin R) first behind ahead n) = std_max (Fin L) (full_chord g f st (Fin R) behind ahead)
    \<and> (\<exists>v. full_chord g f st (Fin R) behind ahead = Fin v \<and> 0 \<le> v)"
proof -
  define screened where "screened = (if first then (False, (behind, ln_hint_behind n), (ahead, ln_hint_ahead n))
                      else if chord_upper_bound f (Fin R) behind ahead \<le> ln_longest n
                      then (True, (behind, ln_hint_behind n), (ahead, ln_hint_ahead n))
                      else screen_station g f st (Fin R) (ln_longest n) [1..<Suc screening_bisection_count]
                             (behind, ln_hint_behind n) (ahead, ln_hint_ahead n))"
  obtain out behind' ahead' where s: "screened = (out, behind', ahead')" by (cases screened)
  have depths: "d \<le> maximum_bisection_count" if "d \<in> set [1..<Suc screening_bisection_count]" for d
    using that by (auto simp: screening_bisection_count_def maximum_bisection_count_def)
  have ok: "refined g f st (Fin R) maximum_bisection_count (fst behind') = refined g f st (Fin R) maximum_bisection_count behind
     \<and> refined g f st (Fin R) maximum_bisection_count (fst ahead') = refined g f st (Fin R) maximum_bisection_count ahead
     \<and> finite_bracket (fst behind') \<and> finite_bracket (fst ahead')
     \<and> (out \<longrightarrow> chord_upper_bound f (Fin R) (fst behind') (fst ahead') \<le> Fin L)"
    using s screen_outcome [OF g y, of "(behind, ln_hint_behind n)" "(ahead, ln_hint_ahead n)" "[1..<Suc screening_bisection_count]" st R L]
      b depths by (auto simp: screened_def L split: if_splits)
  obtain u v where uv: "chord_upper_bound f (Fin R) (fst behind') (fst ahead') = Fin u"
      "full_chord g f st (Fin R) behind ahead = Fin v" "0 \<le> v" "v \<le> u"
    using chord_within [OF g y, of "fst behind'" "fst ahead'" R st maximum_bisection_count] ok by (auto simp: full_chord_def)
  have r: "resolve_brackets g f st (Fin R) first behind ahead n =
      (if out then n\<lparr>ln_hint_behind := snd behind', ln_hint_ahead := snd ahead'\<rparr>
       else let b = refine_bracket g f st (Fin R) maximum_bisection_count (fst behind') (snd behind');
                a = refine_bracket g f st (Fin R) maximum_bisection_count (fst ahead') (snd ahead')
            in n\<lparr>ln_longest := std_max (ln_longest n) (refined_chord f (Fin R) (fst b) (fst a)),
                 ln_hint_behind := snd b, ln_hint_ahead := snd a\<rparr>)"
    unfolding resolve_brackets_def Let_def screened_def [symmetric] s prod.case by (rule refl)
  show ?thesis
  proof (cases out)
    case True
    then have "max L v = L" using ok uv by auto
    then show ?thesis using True uv by (simp add: r L)
  next
    case False
    then show ?thesis
      using uv ok refine_hint [OF g, of f st "Fin R" maximum_bisection_count "fst behind'" "snd behind'"]
        refine_hint [OF g, of f st "Fin R" maximum_bisection_count "fst ahead'" "snd ahead'"]
      by (simp add: r Let_def L full_chord_def)
  qed
qed

subsection \<open>A station contributes the same wherever it is visited\<close>

definition finite_frame :: "pose_frame \<Rightarrow> bool" where
  "finite_frame f \<longleftrightarrow> isfinite (pf_yaw_tangent f) \<and> isfinite (pf_yaw_cosine f) \<and> isfinite (pf_yaw_sine f)
     \<and> isfinite (pf_roll_cosine f) \<and> isfinite (pf_roll_sine f) \<and> isfinite (pf_lateral_offset f) \<and> isfinite (pf_vertical_offset f)"

definition finite_pose :: "pose_scalars \<Rightarrow> bool" where
  "finite_pose p \<longleftrightarrow> isfinite (ps_roll p) \<and> isfinite (ps_yaw p) \<and> isfinite (ps_lateral_offset p) \<and> isfinite (ps_vertical_raise p)"

lemma finite_pose_frame: "finite_pose p \<Longrightarrow> finite_frame (pose_frame_of p)"
  by (auto simp: finite_pose_def finite_frame_def pose_frame_of_def Let_def isfinite_iff)

lemma clamp_value_Fin: "lo \<le> hi \<Longrightarrow> \<exists>y. clamp_value (Fin x) (Fin lo) (Fin hi) = Fin y \<and> lo \<le> y \<and> y \<le> hi"
  by (simp add: clamp_value_def)

lemma search_start_Fin:
  assumes "0 < R"
  shows "\<exists>x. search_start (Fin ov) (Fin R) = Fin x \<and> 0 < x \<and> 1 / 4 \<le> x * 2 ^ 9"
proof (cases "0 \<le> 2 * ov / R")
  case True
  then have "search_start (Fin ov) (Fin R) = Fin (max (5 / 10 ^ 4) (sqrt (2 * ov / R)))"
    using assms by (simp add: search_start_def longitudinal_search_step_def)
  moreover have "5 / 10 ^ 4 \<le> max (5 / 10 ^ 4) (sqrt (2 * ov / R))" by simp
  then have "0 < max (5 / 10 ^ 4) (sqrt (2 * ov / R))" "1 / 4 \<le> max (5 / 10 ^ 4) (sqrt (2 * ov / R)) * 2 ^ 9" by simp_all
  ultimately show ?thesis by blast
next
  case False
  then have "std_sqrt (2 * Fin ov / Fin R) = NaN" using assms by (simp add: not_le)
  then have "search_start (Fin ov) (Fin R) = Fin (5 / 10 ^ 4)"
    by (simp add: search_start_def longitudinal_search_step_def std_max_def)
  then show ?thesis by (intro exI conjI) (assumption | simp)+
qed

lemma station_contribution:
  assumes g: "rail_ok g" "real_solver g r" and f: "finite_frame f"
  shows "\<exists>v \<ge> 0. \<forall>first n L. ln_longest n = Fin L \<and> 0 \<le> L \<longrightarrow>
    (\<exists>n'. resolve_station g f first station n = Some n' \<and> ln_longest n' = Fin (max L v))"
proof (cases "isfinite station")
  case False
  then show ?thesis by (intro exI [of _ 0]) (simp add: resolve_station_def)
next
  case True
  then obtain y where y: "station = Fin y" by (auto simp: isfinite_iff)
  obtain t c where tc: "pf_yaw_tangent f = Fin t" "pf_yaw_cosine f = Fin c" using f by (auto simp: finite_frame_def isfinite_iff)
  obtain ks vs ds hs where sp: "spline_from ks vs ds hs (gs_wheel_spline g)" using g(2) by (auto simp: real_solver_def)
  note d = spline_fromD [OF sp]
  have "ns_first_knot (gs_wheel_spline g) \<le> ns_last_knot (gs_wheel_spline g)"
    using increasing_reals_le [OF d(4), of 0 "length ks - 1"] d by simp
  note both = value_and_derivative_agree [OF this, of station]
  obtain h k where hk: "spline_evaluate (gs_wheel_spline g) station = Fin h" "spline_first_derivative (gs_wheel_spline g) station = Fin k"
    using spline_finite [OF sp, of y] unfolding y isfinite_iff by blast
  have radius: "gc_radius (gs_configuration g) = Fin (sr_radius r)" using g(2) by (simp add: real_solver_def)
  define R where "R = sr_radius r + h"
  have R: "gc_radius (gs_configuration g) + Fin h = Fin R" by (simp add: radius R_def)
  show ?thesis
  proof (cases "0 < R")
    case False
    then show ?thesis by (intro exI [of _ 0]) (simp add: resolve_station_def True both hk R Let_def)
  next
    case pos: True
    obtain q where q: "clamp_value (- pf_yaw_tangent f * Fin k) (- 1) 1 = Fin q" "- 1 \<le> q" "q \<le> 1"
      using clamp_value_Fin [of "- 1" 1 "- t * k"] by (auto simp: tc)
    define a where "a = arcsin q"
    have a: "std_asin (clamp_value (- pf_yaw_tangent f * Fin k) (- 1) 1) = Fin a" unfolding q(1) using q(2,3) by (simp add: a_def)
    define e where "e = fst (evaluate_native g f station (Fin R) (Fin a) 0)"
    have native: "\<exists>hint. evaluate_native g f station (Fin R) (Fin a) h0 = (e, hint)" for h0
      using native_hint [OF g(1), of f station "Fin R" "Fin a" h0] by (cases "evaluate_native g f station (Fin R) (Fin a) h0") (simp add: e_def)
    have angle: "ae_angle e = Fin a" by (simp add: e_def evaluate_native_def split: prod.splits)
    show ?thesis
    proof (cases "isfinite (ae_overlap e) \<and> 0 < ae_overlap e")
      case False
      have "resolve_station g f first station n
          = Some (n\<lparr>ln_hint_silhouette := snd (evaluate_native g f station (Fin R) (Fin a) (ln_hint_silhouette n))\<rparr>)" for first n
        using native [of "ln_hint_silhouette n"] False pos
        unfolding resolve_station_def both hk prod.case Let_def R a by (auto simp: True)
      then show ?thesis by (intro exI [of _ 0]) simp
    next
      case inside: True
      then obtain ov where ov: "ae_overlap e = Fin ov" by (auto simp: isfinite_iff)
      obtain x where x: "search_start (Fin ov) (Fin R) = Fin x" "0 < x" "1 / 4 \<le> x * 2 ^ 9" using search_start_Fin [OF pos] by blast
      define start where "start hb ha = \<lparr>se_found_behind = False, se_found_ahead = False, se_behind = e, se_ahead = e,
          se_hint_behind = hb, se_hint_ahead = ha\<rparr>" for hb ha
      have start: "finite_search (start hb ha)" "same_search (start 0 0) (start hb ha)" for hb ha
        by (simp_all add: start_def finite_search_def same_search_def angle)
      obtain s where s: "search_outward g f station (Fin R) (Fin a) (Fin x) (start 0 0) = Some s" "finite_search s"
        using search_returns [OF x(2,3) start(1) [of 0 0], of "Fin a" g f station "Fin R"] by auto
      have any: "\<exists>s'. search_outward g f station (Fin R) (Fin a) (Fin x) (start hb ha) = Some s' \<and> same_search s s'" for hb ha
        using search_same [OF g(1) x(2,3) start(2), of f station "Fin R" "Fin a" hb ha] s(1)
        by (cases "search_outward g f station (Fin R) (Fin a) (Fin x) (start hb ha)") auto
      define behind where "behind = \<lparr>rb_outside = se_behind s, rb_inside = e, rb_count = 0\<rparr>"
      define ahead where "ahead = \<lparr>rb_outside = se_ahead s, rb_inside = e, rb_count = 0\<rparr>"
      have fin: "finite_bracket behind" "finite_bracket ahead"
        using s(2) angle by (simp_all add: finite_bracket_def behind_def ahead_def finite_search_def)
      define found where "found \<longleftrightarrow> se_found_behind s \<and> se_found_ahead s"
      have run: "\<exists>hint n0. resolve_station g f first station n =
          Some (if \<not> found then n0 else resolve_brackets g f station (Fin R) first behind ahead n0)
          \<and> ln_longest n0 = ln_longest n" for first n
      proof -
        obtain hint where hint: "evaluate_native g f station (Fin R) (Fin a) (ln_hint_silhouette n) = (e, hint)" using native by blast
        obtain s' where s': "search_outward g f station (Fin R) (Fin a) (Fin x) (start (ln_hint_behind n) (ln_hint_ahead n)) = Some s'"
          "same_search s s'" using any by blast
        have "resolve_station g f first station n = Some (if \<not> found
            then n\<lparr>ln_hint_silhouette := hint, ln_hint_behind := se_hint_behind s', ln_hint_ahead := se_hint_ahead s'\<rparr>
            else resolve_brackets g f station (Fin R) first behind ahead
                   (n\<lparr>ln_hint_silhouette := hint, ln_hint_behind := se_hint_behind s', ln_hint_ahead := se_hint_ahead s'\<rparr>))"
          using inside pos s'(2) s'(1) [unfolded start_def]
          unfolding resolve_station_def both hk prod.case Let_def R a hint
          by (auto simp: True ov x(1) found_def behind_def ahead_def same_search_def)
        then show ?thesis by (cases n) auto
      qed
      show ?thesis
      proof (cases found)
        case False
        then show ?thesis using run by (intro exI [of _ 0]) force
      next
        case True
        obtain v where v: "full_chord g f station (Fin R) behind ahead = Fin v" "0 \<le> v"
          using resolve_brackets_longest [OF g(1) tc(2) fin, of "\<lparr>ln_longest = Fin 0, ln_hint_silhouette = 0, ln_hint_behind = 0, ln_hint_ahead = 0\<rparr>" 0 station R True]
          by auto
        have "\<exists>n'. resolve_station g f first station n = Some n' \<and> ln_longest n' = Fin (max L v)"
          if L: "ln_longest n = Fin L" for first n L
        proof -
          obtain n0 where n0: "resolve_station g f first station n = Some (resolve_brackets g f station (Fin R) first behind ahead n0)"
            "ln_longest n0 = Fin L" using run [of first n] True L by auto
          show ?thesis using resolve_brackets_longest [OF g(1) tc(2) fin n0(2), of station R first] n0(1) v(1) by simp
        qed
        then show ?thesis using v(2) by (intro exI [of _ v]) blast
      qed
    qed
  qed
qed

lemma station_order_image:
  assumes "deepest < n"
  shows "station_order deepest ` {..<n} = {..<n}"
proof
  show "station_order deepest ` {..<n} \<subseteq> {..<n}" using assms by (auto simp: station_order_def)
  show "{..<n} \<subseteq> station_order deepest ` {..<n}"
  proof
    fix i
    assume "i \<in> {..<n}"
    then have "i = station_order deepest (if i = deepest then 0 else if i < deepest then Suc i else i)"
      "(if i = deepest then 0 else if i < deepest then Suc i else i) \<in> {..<n}"
      using assms by (auto simp: station_order_def)
    then show "i \<in> station_order deepest ` {..<n}" by blast
  qed
qed

definition no_length :: length_state where
  "no_length = \<lparr>ln_longest = Fin 0, ln_hint_silhouette = no_segment_hint, ln_hint_behind = no_segment_hint,
     ln_hint_ahead = no_segment_hint\<rparr>"

lemma all_stations:
  assumes v: "\<And>i first n L. i < length stations \<Longrightarrow> ln_longest n = Fin L \<Longrightarrow> 0 \<le> L \<Longrightarrow>
      \<exists>n'. resolve_station g f first (stations ! i) n = Some n' \<and> ln_longest n' = Fin (max L (v i))"
    and o: "\<And>k. k \<in> set orders \<Longrightarrow> station_order deepest k < length stations" and L: "ln_longest n = Fin L" "0 \<le> L"
  shows "\<exists>n'. resolve_stations g f stations deepest orders n = Some n'
    \<and> ln_longest n' = Fin (Max (insert L ((\<lambda>k. v (station_order deepest k)) ` set orders)))"
  using o L
proof (induction orders arbitrary: n L)
  case (Cons k orders)
  obtain n1 where n1: "resolve_station g f (k = 0) (stations ! station_order deepest k) n = Some n1"
      "ln_longest n1 = Fin (max L (v (station_order deepest k)))"
    using v [OF _ Cons.prems(2,3)] Cons.prems(1) by (meson list.set_intros(1))
  obtain n2 where n2: "resolve_stations g f stations deepest orders n1 = Some n2"
      "ln_longest n2 = Fin (Max (insert (max L (v (station_order deepest k))) ((\<lambda>k. v (station_order deepest k)) ` set orders)))"
    using Cons.IH [OF _ n1(2)] Cons.prems(1,3) by (auto simp: le_max_iff_disj)
  have "Max (insert (max L x) S) = Max (insert L (insert x S))" if "finite S" for x and S :: "real set"
    using that by (cases "S = {}") (simp_all add: max.assoc)
  then show ?case using n1(1) n2 by simp
qed simp

lemma longest_of_all:
  assumes g: "rail_ok g" "real_solver g r" and f: "finite_frame f" and d: "deepest < length stations"
  shows "\<exists>chord. (\<forall>i < length stations. 0 \<le> chord i \<and> resolve_longitudinal_length g f [stations ! i] 0 = Some (Fin (chord i)))
    \<and> resolve_longitudinal_length g f stations deepest = Some (Fin (Max (chord ` {..<length stations})))"
proof -
  have "\<forall>i. \<exists>v. 0 \<le> v \<and> (\<forall>first n L. ln_longest n = Fin L \<and> 0 \<le> L \<longrightarrow>
      (\<exists>n'. resolve_station g f first (stations ! i) n = Some n' \<and> ln_longest n' = Fin (max L v)))"
    using station_contribution [OF g f] by blast
  then obtain v where v: "\<And>i. 0 \<le> v i" "\<And>i first n L. ln_longest n = Fin L \<Longrightarrow> 0 \<le> L \<Longrightarrow>
      \<exists>n'. resolve_station g f first (stations ! i) n = Some n' \<and> ln_longest n' = Fin (max L (v i))" by metis
  have start: "ln_longest no_length = Fin 0" "(0 :: real) \<le> 0" by (simp_all add: no_length_def)
  have whole: "resolve_longitudinal_length g f sts k = map_option ln_longest (resolve_stations g f sts k [0..<length sts] no_length)" for sts k
    by (simp add: resolve_longitudinal_length_def no_length_def)
  have single: "resolve_longitudinal_length g f [stations ! i] 0 = Some (Fin (v i))" for i
    using v(2) [OF start, of True i] v(1) [of i] by (auto simp: whole station_order_def max_def)
  have img: "station_order deepest ` {0..<length stations} = {..<length stations}"
    using station_order_image [OF d] by (simp add: atLeast0LessThan)
  have "\<exists>n'. resolve_stations g f stations deepest [0..<length stations] no_length = Some n'
      \<and> ln_longest n' = Fin (Max (insert 0 ((\<lambda>k. v (station_order deepest k)) ` set [0..<length stations])))"
    using img by (intro all_stations [OF v(2) _ start]) auto
  moreover have "(\<lambda>k. v (station_order deepest k)) ` set [0..<length stations] = v ` {..<length stations}"
    using img by (simp flip: image_image)
  moreover have "Max (insert 0 (v ` {..<length stations})) = Max (v ` {..<length stations})"
  proof -
    have ne: "v ` {..<length stations} \<noteq> {}" using d by auto
    have "0 \<le> Max (v ` {..<length stations})" using d v(1) by (subst Max_ge_iff) auto
    then show ?thesis using ne by (subst Max_insert) auto
  qed
  ultimately show ?thesis using v(1) single by (intro exI [of _ v]) (auto simp: whole)
qed

text \<open>C7: Screening, hints and order change no length.  For an accepted solver, a finite pose and any stations, not-a-number
  included, the outward searches end, and the longitudinal length is the greatest of the lengths that each station gives when it is
  resolved alone, with fresh hints and no screening: neither the chord that was longest when a station came up, nor the
  segment hints it inherited, nor which station was called the deepest has any effect on it.\<close>
theorem screening_is_invisible:
  assumes "make_geometry_solver wheel rail side rescan c = Some (Inr g)" "finite_pose pose" "deepest < length stations"
  shows "\<exists>chord. (\<forall>i < length stations. 0 \<le> chord i
      \<and> resolve_longitudinal_length g (pose_frame_of pose) [stations ! i] 0 = Some (Fin (chord i)))
    \<and> resolve_longitudinal_length g (pose_frame_of pose) stations deepest = Some (Fin (Max (chord ` {..<length stations})))"
proof -
  obtain r where r: "real_solver g r" using accepted_geometry [OF assms(1)] by blast
  obtain rail_surface where "surface_through_nodes (srp_lateral (resolve_for_side rail side)) (srp_vertical (resolve_for_side rail side)) = Inr rail_surface"
      "gs_rail_surface g = rail_surface"
    using assms(1) by (auto simp: make_geometry_solver_def bind_eq_Some_conv bindS_eq_Inr Let_def geometry_solver_of_def)
  then have "rail_ok g"
    unfolding rail_ok_def built_interpolant_def surface_through_nodes_def bindS_eq_Inr by blast
  from longest_of_all [OF this r finite_pose_frame [OF assms(2)] assms(3)] show ?thesis .
qed

theorem screening_is_invisible_witness:
  "\<exists>g chord. crown_solver = Some (Inr g)
    \<and> resolve_longitudinal_length g (pose_frame_of \<lparr>ps_roll = Fin (1 / 40), ps_yaw = Fin (1 / 100), ps_lateral_offset = Fin 0,
          ps_vertical_raise = Fin (1 / 2)\<rparr>) [Fin 1, NaN, Fin (3 / 2)] 2
        = Some (Fin (Max (chord ` {..<3 :: nat}))) \<and> (\<forall>i < 3. 0 \<le> chord i)"
proof -
  obtain g where g: "crown_solver = Some (Inr g)" using crown_solver_accepted by blast
  define pose where "pose = \<lparr>ps_roll = Fin (1 / 40), ps_yaw = Fin (1 / 100), ps_lateral_offset = Fin 0, ps_vertical_raise = Fin (1 / 2)\<rparr>"
  have "finite_pose pose" "2 < length [Fin 1, NaN, Fin (3 / 2)]" by (simp_all add: pose_def finite_pose_def)
  from screening_is_invisible [OF g [unfolded crown_solver_def] this] obtain chord where
    "\<forall>i < length [Fin 1, NaN, Fin (3 / 2)]. 0 \<le> chord i
      \<and> resolve_longitudinal_length g (pose_frame_of pose) [[Fin 1, NaN, Fin (3 / 2)] ! i] 0 = Some (Fin (chord i))"
    "resolve_longitudinal_length g (pose_frame_of pose) [Fin 1, NaN, Fin (3 / 2)] 2
      = Some (Fin (Max (chord ` {..<length [Fin 1, NaN, Fin (3 / 2)]})))" by blast
  moreover have "length [Fin 1, NaN, Fin (3 / 2)] = 3" by simp
  ultimately show ?thesis using g unfolding pose_def by metis
qed

end
