(* ===== verification/Contact_Envelope.thy ===== *)
theory Contact_Envelope
  imports Longitudinal_Length
begin

section \<open>The upper envelope of the projected outline\<close>

text \<open>
  The first part of \<open>ContactGeometrySolver::Solve\<close> in \<open>contact_geometry.cc\<close>: the outline projected into the rail's
  cross-section and its upper envelope over bins.  The bins live in a workspace that survives a solve and is never cleared: a
  generation number tells which of them belong to the present one, also after the number has wrapped around.  The other buffers
  of the workspace are written before they are read and are local to a solve here.  The lemmas show that the bins always
  suffice, that the workspace's past is invisible, and that the envelope increases strictly and keeps the highest sample of each bin.
\<close>

subsection \<open>The projected outline\<close>

record projected_sample =
  pj_lateral :: double
  pj_vertical :: double
  pj_station :: double
  pj_longitudinal :: double

definition project_sample :: "geometry_solver \<Rightarrow> pose_frame \<Rightarrow> nat \<Rightarrow> projected_sample" where
  "project_sample g f i =
     (let radius = gc_radius (gs_configuration g);
          station = po_station (gs_outline g) ! i;
          local_radius = radius + po_height (gs_outline g) ! i;
          sine_tau = clamp_value (- pf_yaw_tangent f * po_slope (gs_outline g) ! i) (- 1) 1;
          cosine_tau = std_sqrt (std_max 0 (1 - sine_tau * sine_tau));
          wheel_x = local_radius * sine_tau;
          wheel_z = local_radius * cosine_tau - radius;
          yawed = pf_yaw_sine f * wheel_x + pf_yaw_cosine f * station
      in \<lparr>pj_lateral = pf_roll_cosine f * yawed - pf_roll_sine f * wheel_z + pf_lateral_offset f,
          pj_vertical = pf_roll_sine f * yawed + pf_roll_cosine f * wheel_z + pf_vertical_offset f,
          pj_station = station, pj_longitudinal = wheel_x\<rparr>)"

definition project_outline :: "geometry_solver \<Rightarrow> pose_frame \<Rightarrow> projected_sample list" where
  "project_outline g f = map (project_sample g f) [0..<gc_samples (gs_configuration g)]"

definition sample_counts :: "projected_sample \<Rightarrow> bool" where
  "sample_counts s \<longleftrightarrow> isfinite (pj_lateral s) \<and> isfinite (pj_vertical s) \<and> isfinite (pj_longitudinal s) \<and> isfinite (pj_station s)"

record lateral_extent =
  le_low :: double
  le_high :: double
  le_valid :: nat

definition widen_extent :: "lateral_extent \<Rightarrow> projected_sample \<Rightarrow> lateral_extent" where
  "widen_extent e s =
     (if sample_counts s
      then \<lparr>le_low = std_min (le_low e) (pj_lateral s), le_high = std_max (le_high e) (pj_lateral s), le_valid = Suc (le_valid e)\<rparr>
      else e)"

definition outline_extent :: "projected_sample list \<Rightarrow> lateral_extent" where
  "outline_extent samples = foldl widen_extent \<lparr>le_low = largest_double, le_high = - largest_double, le_valid = 0\<rparr> samples"

subsection \<open>The bins and their workspace\<close>

record bin_slot =
  bs_highest :: double
  bs_argument :: nat
  bs_generation :: u64

record geometry_workspace =
  gw_bins :: "bin_slot list"
  gw_generation :: u64

definition empty_slot :: bin_slot where
  "empty_slot = \<lparr>bs_highest = 0, bs_argument = 0, bs_generation = 0\<rparr>"

definition new_workspace :: geometry_workspace where
  "new_workspace = \<lparr>gw_bins = [], gw_generation = 0\<rparr>"

definition ensure_bin_capacity :: "nat \<Rightarrow> geometry_workspace \<Rightarrow> geometry_workspace" where
  "ensure_bin_capacity n w = w\<lparr>gw_bins := gw_bins w @ replicate (n - length (gw_bins w)) empty_slot\<rparr>"

definition next_generation :: "geometry_workspace \<Rightarrow> geometry_workspace" where
  "next_generation w =
     (let generation = gw_generation w + 1
      in if generation = 0 then w\<lparr>gw_bins := map (bs_generation_update (\<lambda>_. 0)) (gw_bins w), gw_generation := generation + 1\<rparr>
         else w\<lparr>gw_generation := generation\<rparr>)"

definition bin_count_of :: "geometry_solver \<Rightarrow> lateral_extent \<Rightarrow> nat" where
  "bin_count_of g e = size_of_double (std_ceil ((le_high e - le_low e) / gc_bin_width (gs_configuration g))) + 1"

definition bin_of :: "double \<Rightarrow> double \<Rightarrow> nat \<Rightarrow> double \<Rightarrow> nat" where
  "bin_of low width bin_count lateral =
     (let offset = (lateral - low) / width
      in if 0 < offset then
           (let floored = std_floor offset
            in if double_of_size (bin_count - 1) \<le> floored then bin_count - 1 else size_of_double floored)
         else 0)"

definition fill_bin :: "u64 \<Rightarrow> (double \<Rightarrow> nat) \<Rightarrow> projected_sample list \<Rightarrow> bin_slot list \<Rightarrow> nat \<Rightarrow> bin_slot list" where
  "fill_bin generation bin_at samples bins i =
     (let s = samples ! i; bin = bin_at (pj_lateral s)
      in if \<not> isfinite (pj_lateral s) \<or> \<not> isfinite (pj_vertical s) \<or> \<not> isfinite (pj_station s) then bins
         else if bs_generation (bins ! bin) \<noteq> generation then
           bins[bin := \<lparr>bs_highest = pj_vertical s, bs_argument = i, bs_generation = generation\<rparr>]
         else if bs_highest (bins ! bin) < pj_vertical s then
           bins[bin := (bins ! bin)\<lparr>bs_highest := pj_vertical s, bs_argument := i\<rparr>]
         else bins)"

record envelope =
  ev_lateral :: vec
  ev_vertical :: vec
  ev_station :: vec

definition read_envelope :: "u64 \<Rightarrow> projected_sample list \<Rightarrow> bin_slot list \<Rightarrow> envelope" where
  "read_envelope generation samples slots =
     (let filled = filter (\<lambda>b. bs_generation b = generation) slots
      in \<lparr>ev_lateral = map (\<lambda>b. pj_lateral (samples ! bs_argument b)) filled,
          ev_vertical = map bs_highest filled,
          ev_station = map (\<lambda>b. pj_station (samples ! bs_argument b)) filled\<rparr>)"

definition build_envelope ::
    "geometry_solver \<Rightarrow> projected_sample list \<Rightarrow> lateral_extent \<Rightarrow> geometry_workspace \<Rightarrow> envelope \<times> geometry_workspace" where
  "build_envelope g samples e w =
     (let bin_count = bin_count_of g e;
          w = next_generation w;
          bins = foldl (fill_bin (gw_generation w) (bin_of (le_low e) (gc_bin_width (gs_configuration g)) bin_count) samples)
                   (gw_bins w) [0..<length samples]
      in (read_envelope (gw_generation w) samples (take bin_count bins), w\<lparr>gw_bins := bins\<rparr>))"

subsection \<open>Stale bins\<close>

text \<open>No bin is ahead of the generation number; that is all a workspace has to bring to a solve.\<close>

definition generations_ok :: "geometry_workspace \<Rightarrow> bool" where
  "generations_ok w \<longleftrightarrow> (\<forall>slot \<in> set (gw_bins w). bs_generation slot \<le> gw_generation w)"

lemma new_workspace_ok: "generations_ok new_workspace"
  by (simp add: generations_ok_def new_workspace_def)

lemma ensured_ok: "generations_ok w \<Longrightarrow> generations_ok (ensure_bin_capacity n w)"
  by (auto simp: generations_ok_def ensure_bin_capacity_def empty_slot_def)

lemma ensured_length: "n \<le> length (gw_bins (ensure_bin_capacity n w))"
  by (simp add: ensure_bin_capacity_def)

lemma next_generation_above:
  assumes "a \<le> (b :: u64)" "b + 1 \<noteq> 0"
  shows "a < b + 1"
proof -
  have "unat (b + 1) = Suc (unat b)" using assms(2) by (metis add.commute unatSuc)
  then show ?thesis using assms(1) by (simp add: word_less_nat_alt word_le_nat_alt)
qed

lemma next_generation_stale:
  assumes "generations_ok w"
  shows "\<forall>slot \<in> set (gw_bins (next_generation w)). bs_generation slot < gw_generation (next_generation w)"
    and "length (gw_bins (next_generation w)) = length (gw_bins w)"
proof -
  show "\<forall>slot \<in> set (gw_bins (next_generation w)). bs_generation slot < gw_generation (next_generation w)"
    using assms next_generation_above [of _ "gw_generation w"]
    by (auto simp: next_generation_def generations_ok_def Let_def)
qed (simp add: next_generation_def Let_def)

subsection \<open>Filling the bins\<close>

text \<open>The sample that keeps a bin: the highest one, and the first of equally high ones.\<close>

definition wins :: "(nat \<Rightarrow> nat) \<Rightarrow> (nat \<Rightarrow> double) \<Rightarrow> nat \<Rightarrow> nat \<Rightarrow> bool" where
  "wins bin height n k \<longleftrightarrow> k < n \<and> (\<forall>j < n. bin j = bin k \<longrightarrow> height j \<le> height k)
     \<and> (\<forall>j < k. bin j = bin k \<longrightarrow> height j < height k)"

lemma wins_unique:
  assumes "wins bin height n k" "wins bin height n l" "bin k = bin l"
  shows "k = l"
proof (rule ccontr)
  assume "k \<noteq> l"
  then consider "k < l" | "l < k" by linarith
  then show False
  proof cases
    case 1
    then have "height k < height l" "height l \<le> height k" using assms by (auto simp: wins_def)
    then show ?thesis by (cases "height k"; cases "height l") (auto simp: less_double_def less_eq_double_def)
  next
    case 2
    then have "height l < height k" "height k \<le> height l" using assms by (auto simp: wins_def)
    then show ?thesis by (cases "height k"; cases "height l") (auto simp: less_double_def less_eq_double_def)
  qed
qed

definition filled_slot :: "u64 \<Rightarrow> projected_sample list \<Rightarrow> nat \<Rightarrow> bin_slot" where
  "filled_slot generation samples k =
     \<lparr>bs_highest = pj_vertical (samples ! k), bs_argument = k, bs_generation = generation\<rparr>"

definition finite_samples :: "projected_sample list \<Rightarrow> bool" where
  "finite_samples samples \<longleftrightarrow> (\<forall>s \<in> set samples. isfinite (pj_lateral s) \<and> isfinite (pj_vertical s)
     \<and> isfinite (pj_station s) \<and> isfinite (pj_longitudinal s))"

lemma wins_new:
  assumes "\<forall>j < i. bin j \<noteq> bin i" "height i \<le> height i"
  shows "wins bin height (Suc i) i"
  using assms by (auto simp: wins_def less_Suc_eq)

lemma wins_kept:
  assumes "wins bin height i k" "bin k = bin i \<longrightarrow> height i \<le> height k"
  shows "wins bin height (Suc i) k"
  using assms by (auto simp: wins_def less_Suc_eq)

lemma wins_beaten:
  assumes "wins bin height i k" "bin k = bin i" "height k < height i" "isfinite (height i)" "\<forall>j < i. isfinite (height j)"
  shows "wins bin height (Suc i) i"
  unfolding wins_def
proof (intro conjI allI impI)
  have "isfinite (height k)" using assms(1,5) by (simp add: wins_def)
  then obtain y z where yz: "height k = Fin y" "height i = Fin z" "y < z" using assms(3,4) by (auto simp: isfinite_iff)
  have below: "height j < height i" if j: "j < i" "bin j = bin i" for j
  proof -
    obtain x where x: "height j = Fin x" using assms(5) j(1) by (auto simp: isfinite_iff)
    have "height j \<le> height k" using assms(1,2) j by (simp add: wins_def)
    then show ?thesis using yz x by simp
  qed
  show "height j < height i" if "j < i" "bin j = bin i" for j using below that .
  show "height j \<le> height i" if "j < Suc i" "bin j = bin i" for j
  proof (cases "j = i")
    case False
    then have "height j < height i" using below that by simp
    then show ?thesis by (cases "height j"; cases "height i") (auto simp: less_double_def less_eq_double_def)
  qed (use yz in simp)
qed simp

text \<open>The bins after the first \<open>i\<close> samples.\<close>

definition bins_after :: "u64 \<Rightarrow> (nat \<Rightarrow> nat) \<Rightarrow> projected_sample list \<Rightarrow> bin_slot list \<Rightarrow> nat \<Rightarrow> bin_slot list \<Rightarrow> bool" where
  "bins_after generation bin samples stale i bins \<longleftrightarrow> length bins = length stale
     \<and> (\<forall>b < length bins. if \<exists>j < i. bin j = b
          then \<exists>k. bin k = b \<and> wins bin (\<lambda>j. pj_vertical (samples ! j)) i k \<and> bins ! b = filled_slot generation samples k
          else bins ! b = stale ! b)"

lemma bins_after_occupied:
  assumes "bins_after generation bin samples stale i bins" "b < length stale" "\<exists>j < i. bin j = b"
  shows "\<exists>k. bin k = b \<and> wins bin (\<lambda>j. pj_vertical (samples ! j)) i k \<and> bins ! b = filled_slot generation samples k"
  using assms unfolding bins_after_def by metis

lemma bins_after_empty:
  assumes "bins_after generation bin samples stale i bins" "b < length stale" "\<not> (\<exists>j < i. bin j = b)"
  shows "bins ! b = stale ! b"
  using assms unfolding bins_after_def by metis

lemma bins_after_other:
  assumes "bins_after generation bin samples stale i bins" "b < length stale" "b \<noteq> bin i"
  shows "if \<exists>j < Suc i. bin j = b
    then \<exists>k. bin k = b \<and> wins bin (\<lambda>j. pj_vertical (samples ! j)) (Suc i) k \<and> bins ! b = filled_slot generation samples k
    else bins ! b = stale ! b"
proof (cases "\<exists>j < i. bin j = b")
  case True
  then obtain k where k: "bin k = b" "wins bin (\<lambda>j. pj_vertical (samples ! j)) i k" "bins ! b = filled_slot generation samples k"
    using bins_after_occupied [OF assms(1,2)] by blast
  then have "wins bin (\<lambda>j. pj_vertical (samples ! j)) (Suc i) k" using assms(3) by (intro wins_kept) auto
  then show ?thesis using k True by (auto simp: less_Suc_eq)
next
  case False
  then show ?thesis using bins_after_empty [OF assms(1,2)] assms(3) by (auto simp: less_Suc_eq)
qed

lemma bins_after_put:
  assumes "bins_after generation bin samples stale i bins" "bin i < length stale"
    and "wins bin (\<lambda>j. pj_vertical (samples ! j)) (Suc i) k" "bin k = bin i"
  shows "bins_after generation bin samples stale (Suc i) (bins[bin i := filled_slot generation samples k])"
  unfolding bins_after_def
proof (intro conjI allI impI)
  have len: "length bins = length stale" using assms(1) by (simp add: bins_after_def)
  show "length (bins[bin i := filled_slot generation samples k]) = length stale" using len by simp
  fix b
  assume b: "b < length (bins[bin i := filled_slot generation samples k])"
  show "if \<exists>j < Suc i. bin j = b
    then \<exists>k'. bin k' = b \<and> wins bin (\<lambda>j. pj_vertical (samples ! j)) (Suc i) k'
      \<and> bins[bin i := filled_slot generation samples k] ! b = filled_slot generation samples k'
    else bins[bin i := filled_slot generation samples k] ! b = stale ! b"
  proof (cases "b = bin i")
    case True
    then show ?thesis using assms(2-4) len by auto
  next
    case False
    then show ?thesis using bins_after_other [OF assms(1) _ False] b len by simp
  qed
qed

lemma fill_bin_step:
  fixes bin_at :: "double \<Rightarrow> nat" and samples :: "projected_sample list"
  defines "bin \<equiv> \<lambda>j. bin_at (pj_lateral (samples ! j))"
  assumes after: "bins_after generation bin samples stale i bins" and i: "i < length samples" and fin: "finite_samples samples"
    and stale: "\<forall>slot \<in> set stale. bs_generation slot \<noteq> generation" and range: "bin i < length stale"
  shows "bins_after generation bin samples stale (Suc i) (fill_bin generation bin_at samples bins i)"
proof -
  define height where "height j = pj_vertical (samples ! j)" for j
  have here: "isfinite (pj_lateral (samples ! i))" "isfinite (height i)" "isfinite (pj_station (samples ! i))"
    and all: "\<forall>j < i. isfinite (height j)" using fin i by (simp_all add: finite_samples_def height_def)
  have len: "length bins = length stale" using after by (simp add: bins_after_def)
  have fill: "fill_bin generation bin_at samples bins i =
      (if bs_generation (bins ! bin i) \<noteq> generation then bins[bin i := filled_slot generation samples i]
       else if bs_highest (bins ! bin i) < height i then bins[bin i := (bins ! bin i)\<lparr>bs_highest := height i, bs_argument := i\<rparr>]
       else bins)"
    using here by (simp add: fill_bin_def bin_def height_def filled_slot_def Let_def)
  show ?thesis
  proof (cases "\<exists>j < i. bin j = bin i")
    case False
    then have "bins ! bin i = stale ! bin i" using bins_after_empty [OF after range] by blast
    then have "bs_generation (bins ! bin i) \<noteq> generation" using stale range by simp
    moreover have "wins bin height (Suc i) i" using False here(2) by (intro wins_new) (auto simp: isfinite_iff)
    ultimately show ?thesis using fill bins_after_put [OF after range] by (simp add: height_def [abs_def])
  next
    case True
    then obtain k where k: "bin k = bin i" "wins bin height i k" "bins ! bin i = filled_slot generation samples k"
      using bins_after_occupied [OF after range] unfolding height_def [abs_def] by blast
    show ?thesis
    proof (cases "height k < height i")
      case beaten: True
      have "wins bin height (Suc i) i" by (rule wins_beaten [OF k(2,1) beaten here(2) all])
      moreover have "(bins ! bin i)\<lparr>bs_highest := height i, bs_argument := i\<rparr> = filled_slot generation samples i"
        by (simp add: k(3) filled_slot_def height_def)
      ultimately show ?thesis using fill k(3) beaten bins_after_put [OF after range]
        by (simp add: filled_slot_def height_def [abs_def])
    next
      case kept: False
      have "isfinite (height k)" using k(2) all by (simp add: wins_def)
      then have "height i \<le> height k" using here(2) kept by (auto simp: isfinite_iff)
      then have "wins bin height (Suc i) k" using k(1,2) by (intro wins_kept) auto
      moreover have "bins[bin i := filled_slot generation samples k] = bins" using k(3) by (metis list_update_id)
      ultimately show ?thesis using fill k(1,3) kept bins_after_put [OF after range, of k]
        by (simp add: filled_slot_def height_def [abs_def])
    qed
  qed
qed

lemma bins_filled:
  fixes bin_at :: "double \<Rightarrow> nat" and samples :: "projected_sample list"
  defines "bin \<equiv> \<lambda>j. bin_at (pj_lateral (samples ! j))"
  assumes fin: "finite_samples samples" and stale: "\<forall>slot \<in> set stale. bs_generation slot \<noteq> generation"
    and range: "\<forall>j < length samples. bin j < length stale"
  shows "bins_after generation bin samples stale (length samples) (foldl (fill_bin generation bin_at samples) stale [0..<length samples])"
proof -
  have "bins_after generation bin samples stale i (foldl (fill_bin generation bin_at samples) stale [0..<i])" if "i \<le> length samples" for i
    using that
  proof (induction i)
    case (Suc i)
    then have "i < length samples" "bin i < length stale" using range by auto
    then show ?case using Suc fill_bin_step [OF _ _ fin stale, of bin_at i] by (simp add: bin_def)
  qed (simp add: bins_after_def)
  then show ?thesis by simp
qed

subsection \<open>Reading the envelope\<close>

text \<open>The samples an envelope consists of: one winner for every occupied bin, bin by bin.\<close>

definition envelope_picks :: "(nat \<Rightarrow> nat) \<Rightarrow> (nat \<Rightarrow> double) \<Rightarrow> nat \<Rightarrow> nat \<Rightarrow> nat list \<Rightarrow> bool" where
  "envelope_picks bin height n bin_count ks \<longleftrightarrow>
     map bin ks = filter (\<lambda>b. \<exists>j < n. bin j = b) [0..<bin_count] \<and> (\<forall>k \<in> set ks. wins bin height n k)"

lemma envelope_picks_unique:
  assumes "envelope_picks bin height n bin_count ks" "envelope_picks bin height n bin_count ls"
  shows "ks = ls"
proof (rule nth_equalityI)
  have same: "map bin ks = map bin ls" using assms by (simp add: envelope_picks_def)
  then show len: "length ks = length ls" by (rule map_eq_imp_length_eq)
  show "ks ! i = ls ! i" if "i < length ks" for i
  proof (rule wins_unique)
    show "wins bin height n (ks ! i)" "wins bin height n (ls ! i)" using assms that len by (auto simp: envelope_picks_def)
    show "bin (ks ! i) = bin (ls ! i)" using same that len by (metis nth_map)
  qed
qed

definition picked_envelope :: "projected_sample list \<Rightarrow> nat list \<Rightarrow> envelope" where
  "picked_envelope samples ks =
     \<lparr>ev_lateral = map (\<lambda>k. pj_lateral (samples ! k)) ks, ev_vertical = map (\<lambda>k. pj_vertical (samples ! k)) ks,
      ev_station = map (\<lambda>k. pj_station (samples ! k)) ks\<rparr>"

lemma read_envelope_picks:
  assumes after: "bins_after generation bin samples stale n bins" and stale: "\<forall>slot \<in> set stale. bs_generation slot \<noteq> generation"
    and room: "bin_count \<le> length stale"
  shows "\<exists>ks. envelope_picks bin (\<lambda>j. pj_vertical (samples ! j)) n bin_count ks
    \<and> read_envelope generation samples (take bin_count bins) = picked_envelope samples ks"
proof -
  define occupied where "occupied = filter (\<lambda>b. \<exists>j < n. bin j = b) [0..<bin_count]"
  have len: "length bins = length stale" using after by (simp add: bins_after_def)
  have "\<exists>w. \<forall>b \<in> set occupied. bin (w b) = b \<and> wins bin (\<lambda>j. pj_vertical (samples ! j)) n (w b)
      \<and> bins ! b = filled_slot generation samples (w b)"
    using bins_after_occupied [OF after] room by (intro bchoice) (auto simp: occupied_def)
  then obtain w where w: "\<forall>b \<in> set occupied. bin (w b) = b \<and> wins bin (\<lambda>j. pj_vertical (samples ! j)) n (w b)
      \<and> bins ! b = filled_slot generation samples (w b)" by blast
  have belongs: "bs_generation (bins ! b) = generation \<longleftrightarrow> (\<exists>j < n. bin j = b)" if b: "b < bin_count" for b
  proof (cases "\<exists>j < n. bin j = b")
    case True
    then have "b \<in> set occupied" using b by (simp add: occupied_def)
    then show ?thesis using w True by (auto simp: filled_slot_def)
  next
    case False
    then have "bins ! b = stale ! b" using bins_after_empty [OF after] b room by simp
    then show ?thesis using False stale b room by simp
  qed
  have "take bin_count bins = map (\<lambda>b. bins ! b) [0..<bin_count]" using room len by (intro nth_equalityI) simp_all
  then have "filter (\<lambda>b. bs_generation b = generation) (take bin_count bins)
      = map (\<lambda>b. bins ! b) (filter (\<lambda>b. bs_generation (bins ! b) = generation) [0..<bin_count])" by (simp add: filter_map o_def)
  also have "filter (\<lambda>b. bs_generation (bins ! b) = generation) [0..<bin_count] = occupied"
    unfolding occupied_def using belongs by (intro filter_cong) auto
  also have "map (\<lambda>b. bins ! b) occupied = map (filled_slot generation samples) (map w occupied)" using w by simp
  finally have slots: "filter (\<lambda>b. bs_generation b = generation) (take bin_count bins) = map (filled_slot generation samples) (map w occupied)" .
  have "map bin (map w occupied) = occupied" using w by (simp add: map_idI)
  then have "envelope_picks bin (\<lambda>j. pj_vertical (samples ! j)) n bin_count (map w occupied)"
    using w by (simp add: envelope_picks_def occupied_def [symmetric])
  moreover have "read_envelope generation samples (take bin_count bins) = picked_envelope samples (map w occupied)"
    unfolding read_envelope_def slots picked_envelope_def Let_def by (simp add: filled_slot_def)
  ultimately show ?thesis by blast
qed

text \<open>A bin index that never decreases with the lateral makes the envelope strictly increasing.\<close>

lemma picks_increasing:
  assumes p: "envelope_picks bin height n bin_count ks"
    and mono: "\<And>j k. j < n \<Longrightarrow> k < n \<Longrightarrow> bin j < bin k \<Longrightarrow> lateral j < (lateral k :: real)"
  shows "increasing_reals (map lateral ks)"
proof -
  have "sorted_wrt (<) (map bin ks)" using p by (simp add: envelope_picks_def sorted_wrt_filter)
  then have "bin (ks ! i) < bin (ks ! Suc i)" if "Suc i < length ks" for i
    using sorted_wrt_nth_less [of "(<)" "map bin ks" i "Suc i"] that by simp
  moreover have "ks ! i < n" if "i < length ks" for i using p that by (auto simp: envelope_picks_def wins_def)
  ultimately show ?thesis using mono by (simp add: increasing_reals_def)
qed

subsection \<open>The projected outline is finite and its span is bounded\<close>

lemma cauchy3:
  fixes a b c u v w :: real
  shows "(a * u + b * v + c * w)\<^sup>2 \<le> (a\<^sup>2 + b\<^sup>2 + c\<^sup>2) * (u\<^sup>2 + v\<^sup>2 + w\<^sup>2)"
proof -
  have "(a\<^sup>2 + b\<^sup>2 + c\<^sup>2) * (u\<^sup>2 + v\<^sup>2 + w\<^sup>2) - (a * u + b * v + c * w)\<^sup>2
      = (a * v - b * u)\<^sup>2 + (a * w - c * u)\<^sup>2 + (b * w - c * v)\<^sup>2"
    by (simp add: power2_eq_square algebra_simps)
  then show ?thesis using zero_le_power2 [of "a * v - b * u"] zero_le_power2 [of "a * w - c * u"] zero_le_power2 [of "b * w - c * v"]
    by linarith
qed

text \<open>Two points on circles of radius at most \<open>M\<close>.\<close>

lemma circle_distance:
  fixes R S q c p d M :: real
  assumes "q\<^sup>2 + c\<^sup>2 = 1" "p\<^sup>2 + d\<^sup>2 = 1" "\<bar>R\<bar> \<le> M" "\<bar>S\<bar> \<le> M"
  shows "(R * q - S * p)\<^sup>2 + (R * c - S * d)\<^sup>2 \<le> (2 * M)\<^sup>2"
proof -
  have "(q * p + c * d)\<^sup>2 \<le> 1" using cauchy3 [of q p c d 0 0] assms(1,2) by simp
  then have "\<bar>q * p + c * d\<bar> \<le> 1" by (simp add: abs_square_le_1)
  then have "\<bar>R * S\<bar> * \<bar>q * p + c * d\<bar> \<le> \<bar>R * S\<bar>" by (intro mult_left_le) auto
  then have mixed: "- (R * S * (q * p + c * d)) \<le> \<bar>R * S\<bar>" by (simp flip: abs_mult)
  have "(R * q - S * p)\<^sup>2 + (R * c - S * d)\<^sup>2 = R\<^sup>2 * (q\<^sup>2 + c\<^sup>2) + S\<^sup>2 * (p\<^sup>2 + d\<^sup>2) - 2 * (R * S * (q * p + c * d))"
    by (simp add: power2_eq_square algebra_simps)
  also have "\<dots> \<le> R\<^sup>2 + S\<^sup>2 + 2 * \<bar>R * S\<bar>" using mixed assms(1,2) by simp
  also have "\<dots> = (\<bar>R\<bar> + \<bar>S\<bar>)\<^sup>2" by (simp add: power2_eq_square algebra_simps abs_mult)
  also have "\<dots> \<le> (2 * M)\<^sup>2" using assms(3,4) by (intro power_mono) auto
  finally show ?thesis .
qed

lemma maximum_absolute_radius_Fin:
  "\<exists>M. maximum_absolute_radius (Fin R) (map Fin hs) = Fin M \<and> 0 \<le> M \<and> (\<forall>h \<in> set hs. \<bar>R + h\<bar> \<le> M)"
proof -
  have "\<exists>M. foldl (\<lambda>m h. std_max m \<bar>Fin R + h\<bar>) (Fin m) (map Fin hs) = Fin M \<and> m \<le> M \<and> (\<forall>h \<in> set hs. \<bar>R + h\<bar> \<le> M)" for m
  proof (induction hs arbitrary: m)
    case (Cons h hs)
    from Cons.IH [of "max m \<bar>R + h\<bar>"] show ?case by auto
  qed simp
  from this [of 0] show ?thesis by (simp add: maximum_absolute_radius_def)
qed

text \<open>The pose as reals: two rotations and a displacement.\<close>

definition real_frame :: "pose_frame \<Rightarrow> real \<Rightarrow> real \<Rightarrow> real \<Rightarrow> real \<Rightarrow> real \<Rightarrow> real \<Rightarrow> real \<Rightarrow> bool" where
  "real_frame f t yc ys rc rs a b \<longleftrightarrow> pf_yaw_tangent f = Fin t \<and> pf_yaw_cosine f = Fin yc \<and> pf_yaw_sine f = Fin ys
     \<and> pf_roll_cosine f = Fin rc \<and> pf_roll_sine f = Fin rs \<and> pf_lateral_offset f = Fin a \<and> pf_vertical_offset f = Fin b
     \<and> yc\<^sup>2 + ys\<^sup>2 = 1 \<and> rc\<^sup>2 + rs\<^sup>2 = 1"

lemma real_frame_of_pose:
  assumes "finite_pose pose"
  shows "\<exists>t yc ys rc rs a b. real_frame (pose_frame_of pose) t yc ys rc rs a b"
proof -
  obtain yaw roll y z where "ps_yaw pose = Fin yaw" "ps_roll pose = Fin roll" "ps_lateral_offset pose = Fin y" "ps_vertical_raise pose = Fin z"
    using assms by (auto simp: finite_pose_def isfinite_iff)
  then have "real_frame (pose_frame_of pose) (tan yaw) (cos yaw) (sin yaw) (cos roll) (sin roll)
      (y * cos roll + z * sin roll) (y * sin roll - z * cos roll)"
    by (simp add: real_frame_def pose_frame_of_def Let_def)
  then show ?thesis by blast
qed

text \<open>One projected sample: the point of the circle of its station that the pose shows foremost.\<close>

lemma project_sample_Fin:
  assumes g: "real_solver g r" and f: "real_frame f t yc ys rc rs a b" and i: "i < length (sr_stations r)"
  shows "\<exists>q c. q\<^sup>2 + c\<^sup>2 = 1 \<and> project_sample g f i =
    (let R = sr_radius r + sr_heights r ! i; y = sr_stations r ! i; x = R * q; z = R * c - sr_radius r
     in \<lparr>pj_lateral = Fin (rc * (ys * x + yc * y) - rs * z + a), pj_vertical = Fin (rs * (ys * x + yc * y) + rc * z + b),
         pj_station = Fin y, pj_longitudinal = Fin x\<rparr>)"
proof -
  have len: "length (sr_heights r) = length (sr_stations r)" "length (sr_slopes r) = length (sr_stations r)"
    using g by (simp_all add: real_solver_def)
  have at: "gc_radius (gs_configuration g) = Fin (sr_radius r)" "po_station (gs_outline g) ! i = Fin (sr_stations r ! i)"
    "po_height (gs_outline g) ! i = Fin (sr_heights r ! i)" "po_slope (gs_outline g) ! i = Fin (sr_slopes r ! i)"
    using g i len by (simp_all add: real_solver_def)
  obtain q where q: "clamp_value (Fin (- (t * sr_slopes r ! i))) (Fin (- 1)) (Fin 1) = Fin q" "- 1 \<le> q" "q \<le> 1"
    using clamp_value_Fin [of "- 1" 1 "- (t * sr_slopes r ! i)"] by auto
  have "\<bar>q\<bar> \<le> 1" using q(2,3) by simp
  then have square: "q * q \<le> 1" using abs_square_le_1 [of q] by (simp add: power2_eq_square)
  have root: "std_sqrt (std_max 0 (1 - Fin q * Fin q)) = Fin (sqrt (1 - q * q))" using square by (simp add: max_def)
  have "q\<^sup>2 + (sqrt (1 - q * q))\<^sup>2 = 1" using square by (simp add: power2_eq_square)
  moreover have "project_sample g f i =
    (let R = sr_radius r + sr_heights r ! i; y = sr_stations r ! i; x = R * q; z = R * sqrt (1 - q * q) - sr_radius r
     in \<lparr>pj_lateral = Fin (rc * (ys * x + yc * y) - rs * z + a), pj_vertical = Fin (rs * (ys * x + yc * y) + rc * z + b),
         pj_station = Fin y, pj_longitudinal = Fin x\<rparr>)"
    using f q(1) root unfolding project_sample_def at by (simp add: real_frame_def Let_def)
  ultimately show ?thesis by blast
qed

text \<open>Laterals, heights and stations of the projected outline, as reals.\<close>

definition sample_reals :: "projected_sample list \<Rightarrow> real list \<Rightarrow> real list \<Rightarrow> real list \<Rightarrow> bool" where
  "sample_reals samples xs zs ss \<longleftrightarrow> length xs = length samples \<and> length zs = length samples \<and> length ss = length samples
     \<and> (\<forall>i < length samples. pj_lateral (samples ! i) = Fin (xs ! i) \<and> pj_vertical (samples ! i) = Fin (zs ! i)
          \<and> pj_station (samples ! i) = Fin (ss ! i) \<and> isfinite (pj_longitudinal (samples ! i)))"

lemma lateral_span:
  assumes g: "real_solver g r" and f: "real_frame f t yc ys rc rs a b"
    and ij: "i < length (sr_stations r)" "j < length (sr_stations r)"
    and M: "\<forall>h \<in> set (sr_heights r). \<bar>sr_radius r + h\<bar> \<le> M"
    and ends: "\<forall>y \<in> set (sr_stations r). first \<le> y \<and> y \<le> last_one"
    and lateral: "pj_lateral (project_sample g f i) = Fin x" "pj_lateral (project_sample g f j) = Fin x'"
  shows "x - x' \<le> sqrt (2 * M * (2 * M) + (last_one - first) * (last_one - first))"
proof -
  have len: "length (sr_heights r) = length (sr_stations r)" using g by (simp add: real_solver_def)
  define R S y y' where "R = sr_radius r + sr_heights r ! i" and "S = sr_radius r + sr_heights r ! j"
    and "y = sr_stations r ! i" and "y' = sr_stations r ! j"
  obtain q c where q: "q\<^sup>2 + c\<^sup>2 = 1" "x = rc * (ys * (R * q) + yc * y) - rs * (R * c - sr_radius r) + a"
    using project_sample_Fin [OF g f ij(1)] lateral(1) by (auto simp: Let_def R_def y_def)
  obtain p d where p: "p\<^sup>2 + d\<^sup>2 = 1" "x' = rc * (ys * (S * p) + yc * y') - rs * (S * d - sr_radius r) + a"
    using project_sample_Fin [OF g f ij(2)] lateral(2) by (auto simp: Let_def S_def y'_def)
  have unit: "(rc * ys)\<^sup>2 + rs\<^sup>2 + (rc * yc)\<^sup>2 = 1"
  proof -
    have "(rc * ys)\<^sup>2 + rs\<^sup>2 + (rc * yc)\<^sup>2 = rc\<^sup>2 * (yc\<^sup>2 + ys\<^sup>2) + rs\<^sup>2" by (simp add: power2_eq_square algebra_simps)
    then show ?thesis using f by (simp add: real_frame_def)
  qed
  have "x - x' = rc * ys * (R * q - S * p) + (- rs) * (R * c - S * d) + rc * yc * (y - y')"
    unfolding q(2) p(2) by (simp add: algebra_simps)
  then have "(x - x')\<^sup>2 \<le> ((rc * ys)\<^sup>2 + (- rs)\<^sup>2 + (rc * yc)\<^sup>2) * ((R * q - S * p)\<^sup>2 + (R * c - S * d)\<^sup>2 + (y - y')\<^sup>2)"
    using cauchy3 [of "rc * ys" "R * q - S * p" "- rs" "R * c - S * d" "rc * yc" "y - y'"] by simp
  also have "\<dots> = (R * q - S * p)\<^sup>2 + (R * c - S * d)\<^sup>2 + (y - y')\<^sup>2" using unit by simp
  also have "\<dots> \<le> (2 * M)\<^sup>2 + (last_one - first)\<^sup>2"
  proof (rule add_mono)
    show "(R * q - S * p)\<^sup>2 + (R * c - S * d)\<^sup>2 \<le> (2 * M)\<^sup>2"
      using M len ij by (intro circle_distance [OF q(1) p(1)]) (simp_all add: R_def S_def)
    have "first \<le> y" "y \<le> last_one" "first \<le> y'" "y' \<le> last_one" using ends ij by (simp_all add: y_def y'_def)
    then have "\<bar>y - y'\<bar> \<le> last_one - first" by linarith
    then show "(y - y')\<^sup>2 \<le> (last_one - first)\<^sup>2" by (metis abs_ge_zero power2_abs power_mono)
  qed
  finally have "sqrt ((x - x')\<^sup>2) \<le> sqrt ((2 * M)\<^sup>2 + (last_one - first)\<^sup>2)" by (rule real_sqrt_le_mono)
  then have "\<bar>x - x'\<bar> \<le> sqrt (2 * M * (2 * M) + (last_one - first) * (last_one - first))" by (simp add: power2_eq_square)
  then show ?thesis by simp
qed

lemma project_outline_reals:
  assumes g: "real_solver g r" and f: "real_frame f t yc ys rc rs a b"
  shows "\<exists>xs zs. sample_reals (project_outline g f) xs zs (sr_stations r)"
proof -
  define samples where "samples = project_outline g f"
  have n: "length samples = length (sr_stations r)" "length (sr_stations r) = gc_samples (gs_configuration g)"
    using g by (simp_all add: samples_def project_outline_def real_solver_def)
  have "pj_lateral (samples ! i) = Fin (to_real (pj_lateral (samples ! i))) \<and> pj_vertical (samples ! i) = Fin (to_real (pj_vertical (samples ! i)))
      \<and> pj_station (samples ! i) = Fin (sr_stations r ! i) \<and> isfinite (pj_longitudinal (samples ! i))" if "i < length samples" for i
  proof -
    have "samples ! i = project_sample g f i" using that n by (simp add: samples_def project_outline_def)
    then show ?thesis using project_sample_Fin [OF g f, of i] that n by (auto simp: Let_def)
  qed
  then have "sample_reals samples (map (\<lambda>s. to_real (pj_lateral s)) samples) (map (\<lambda>s. to_real (pj_vertical s)) samples) (sr_stations r)"
    using n by (simp add: sample_reals_def)
  then show ?thesis unfolding samples_def by blast
qed

lemma sample_reals_finite: "sample_reals samples xs zs ss \<Longrightarrow> finite_samples samples"
  by (auto simp: sample_reals_def finite_samples_def in_set_conv_nth)

subsection \<open>The extent and the bins it needs\<close>

lemma widen_all:
  assumes "finite_samples samples"
  shows "\<exists>lo hi. foldl widen_extent \<lparr>le_low = Fin l, le_high = Fin h, le_valid = v\<rparr> samples
      = \<lparr>le_low = Fin lo, le_high = Fin hi, le_valid = v + length samples\<rparr>
    \<and> (lo = l \<or> Fin lo \<in> pj_lateral ` set samples) \<and> (hi = h \<or> Fin hi \<in> pj_lateral ` set samples) \<and> lo \<le> l \<and> h \<le> hi
    \<and> (\<forall>s \<in> set samples. Fin lo \<le> pj_lateral s \<and> pj_lateral s \<le> Fin hi)"
  using assms
proof (induction samples arbitrary: l h v)
  case (Cons s samples)
  then obtain x where x: "pj_lateral s = Fin x" "sample_counts s" by (auto simp: finite_samples_def sample_counts_def isfinite_iff)
  obtain lo hi where IH: "foldl widen_extent \<lparr>le_low = Fin (min l x), le_high = Fin (max h x), le_valid = Suc v\<rparr> samples
      = \<lparr>le_low = Fin lo, le_high = Fin hi, le_valid = Suc v + length samples\<rparr>"
    "lo = min l x \<or> Fin lo \<in> pj_lateral ` set samples" "hi = max h x \<or> Fin hi \<in> pj_lateral ` set samples" "lo \<le> min l x" "max h x \<le> hi"
    "\<forall>s \<in> set samples. Fin lo \<le> pj_lateral s \<and> pj_lateral s \<le> Fin hi"
    using Cons.IH [of "min l x" "max h x" "Suc v"] Cons.prems by (auto simp: finite_samples_def)
  have "lo = l \<or> Fin lo \<in> pj_lateral ` set (s # samples)" using IH(2) x(1) by (auto simp: min_def split: if_splits)
  moreover have "hi = h \<or> Fin hi \<in> pj_lateral ` set (s # samples)" using IH(3) x(1) by (auto simp: max_def split: if_splits)
  moreover have "foldl widen_extent \<lparr>le_low = Fin l, le_high = Fin h, le_valid = v\<rparr> (s # samples)
      = \<lparr>le_low = Fin lo, le_high = Fin hi, le_valid = v + length (s # samples)\<rparr>"
    using IH(1) x by (simp add: widen_extent_def)
  ultimately show ?case using IH(4-6) x(1) by (intro exI [of _ lo] exI [of _ hi]) auto
qed simp

text \<open>Every lateral is a number of the machine.\<close>

definition laterals_representable :: "projected_sample list \<Rightarrow> bool" where
  "laterals_representable samples \<longleftrightarrow> (\<forall>s \<in> set samples. - largest_double \<le> pj_lateral s \<and> pj_lateral s \<le> largest_double)"

lemma largest_Fin: "\<exists>L > 0. largest_double = Fin L"
proof -
  have "(0 :: real) < 2 - 1 / 2 ^ 52" by simp
  moreover have "(0 :: real) < 2 ^ 1023" by (rule zero_less_power) simp
  ultimately have "(0 :: real) < (2 - 1 / 2 ^ 52) * 2 ^ 1023" by (rule mult_pos_pos)
  then show ?thesis unfolding largest_double_def by blast
qed

lemma outline_extent_spans:
  assumes "finite_samples samples" "laterals_representable samples" "samples \<noteq> []"
  shows "\<exists>lo hi. outline_extent samples = \<lparr>le_low = Fin lo, le_high = Fin hi, le_valid = length samples\<rparr>
    \<and> Fin lo \<in> pj_lateral ` set samples \<and> Fin hi \<in> pj_lateral ` set samples
    \<and> (\<forall>s \<in> set samples. Fin lo \<le> pj_lateral s \<and> pj_lateral s \<le> Fin hi)"
proof -
  obtain L where L: "largest_double = Fin L" using largest_Fin by blast
  obtain lo hi where e: "outline_extent samples = \<lparr>le_low = Fin lo, le_high = Fin hi, le_valid = length samples\<rparr>"
    "lo = L \<or> Fin lo \<in> pj_lateral ` set samples" "hi = - L \<or> Fin hi \<in> pj_lateral ` set samples"
    "\<forall>s \<in> set samples. Fin lo \<le> pj_lateral s \<and> pj_lateral s \<le> Fin hi"
    using widen_all [OF assms(1), of L "- L" 0] by (auto simp: outline_extent_def L)
  obtain s where s: "s \<in> set samples" using assms(3) by (cases samples) auto
  then obtain x where x: "pj_lateral s = Fin x" using assms(1) by (auto simp: finite_samples_def isfinite_iff)
  have "- L \<le> x" "x \<le> L" "lo \<le> x" "x \<le> hi" using assms(2) e(4) s x by (auto simp: laterals_representable_def L)
  then have "lo = L \<Longrightarrow> Fin lo = pj_lateral s" "hi = - L \<Longrightarrow> Fin hi = pj_lateral s" using x by auto
  then show ?thesis using e s by blast
qed

lemma size_of_Fin: "size_of_double (Fin x) = nat \<lfloor>x\<rfloor>"
  by (simp add: size_of_double_def)

lemma size_of_ceil: "size_of_double (std_ceil (Fin x)) = nat \<lceil>x\<rceil>"
  by (simp add: size_of_double_def)

text \<open>The bin of a lateral within the extent is the number of whole bin widths it is above the low end.\<close>

lemma bin_of_floor:
  assumes "0 < W" "lo \<le> x" "x \<le> hi" "bin_count = nat \<lceil>(hi - lo) / W\<rceil> + 1"
  shows "bin_of (Fin lo) (Fin W) bin_count (Fin x) = nat \<lfloor>(x - lo) / W\<rfloor>" "nat \<lfloor>(x - lo) / W\<rfloor> < bin_count"
proof -
  define o' where "o' = (x - lo) / W"
  have nonneg: "0 \<le> o'" using assms(1,2) by (simp add: o'_def)
  have "o' \<le> (hi - lo) / W" using assms(1,3) by (simp add: o'_def divide_right_mono)
  then have le: "\<lfloor>o'\<rfloor> \<le> \<lceil>(hi - lo) / W\<rceil>" by (meson floor_mono floor_le_ceiling order_trans)
  then show "nat \<lfloor>(x - lo) / W\<rfloor> < bin_count" using assms(4) by (simp add: o'_def)
  have "0 \<le> \<lfloor>o'\<rfloor>" using nonneg by simp
  then obtain k where k: "\<lfloor>o'\<rfloor> = int k" using zero_le_imp_eq_int by blast
  have below: "k \<le> bin_count - 1" using le assms(4) k by simp
  have offset: "(Fin x - Fin lo) / Fin W = Fin o'" using assms(1) by (simp add: o'_def)
  have "bin_of (Fin lo) (Fin W) bin_count (Fin x) = (if 0 < o' then if bin_count - 1 \<le> k then bin_count - 1 else k else 0)"
    unfolding bin_of_def offset Let_def by (simp add: double_of_size_def size_of_Fin k)
  also have "\<dots> = k" using below k nonneg by (cases "0 < o'") auto
  finally show "bin_of (Fin lo) (Fin W) bin_count (Fin x) = nat \<lfloor>(x - lo) / W\<rfloor>" by (simp add: o'_def [symmetric] k)
qed

lemma bins_ascend:
  assumes "0 < W" "nat \<lfloor>(x - lo) / W\<rfloor> < nat \<lfloor>(y - lo) / W\<rfloor>"
  shows "x < (y :: real)"
proof (rule ccontr)
  assume "\<not> x < y"
  then have "(y - lo) / W \<le> (x - lo) / W" using assms(1) by (simp add: divide_right_mono)
  then have "nat \<lfloor>(y - lo) / W\<rfloor> \<le> nat \<lfloor>(x - lo) / W\<rfloor>" by (intro nat_mono floor_mono)
  then show False using assms(2) by simp
qed

subsection \<open>The envelope of an accepted solver\<close>

lemma bins_suffice:
  assumes g: "real_solver g r" and f: "real_frame f t yc ys rc rs a b"
    and e: "Fin lo \<in> pj_lateral ` set (project_outline g f)" "Fin hi \<in> pj_lateral ` set (project_outline g f)"
  shows "bin_count_of g \<lparr>le_low = Fin lo, le_high = Fin hi, le_valid = n\<rparr> = nat \<lceil>(hi - lo) / sr_width r\<rceil> + 1"
    and "bin_count_of g \<lparr>le_low = Fin lo, le_high = Fin hi, le_valid = n\<rparr> \<le> gs_bin_capacity g"
proof -
  have W: "gc_bin_width (gs_configuration g) = Fin (sr_width r)" "0 < sr_width r"
    and n: "length (sr_stations r) = gc_samples (gs_configuration g)" using g by (simp_all add: real_solver_def)
  show count: "bin_count_of g \<lparr>le_low = Fin lo, le_high = Fin hi, le_valid = n\<rparr> = nat \<lceil>(hi - lo) / sr_width r\<rceil> + 1"
    using W by (simp add: bin_count_of_def size_of_ceil del: std_ceil.simps)
  obtain i j where ij: "i < length (sr_stations r)" "j < length (sr_stations r)"
      "pj_lateral (project_sample g f i) = Fin hi" "pj_lateral (project_sample g f j) = Fin lo"
    using e n by (auto simp: project_outline_def)
  obtain first last_one where ends: "\<forall>x \<in> set (sr_stations r). first \<le> x \<and> x \<le> last_one"
    and capacity: "gs_bin_capacity g = size_of_double (std_ceil (std_hypot (2 * maximum_absolute_radius (Fin (sr_radius r)) (map Fin (sr_heights r)))
          (Fin (last_one - first)) / Fin (sr_width r))) + 3" using g by (auto simp: real_solver_def)
  obtain M where M: "maximum_absolute_radius (Fin (sr_radius r)) (map Fin (sr_heights r)) = Fin M" "\<forall>h \<in> set (sr_heights r). \<bar>sr_radius r + h\<bar> \<le> M"
    using maximum_absolute_radius_Fin by blast
  define bound where "bound = sqrt (2 * M * (2 * M) + (last_one - first) * (last_one - first))"
  have "hi - lo \<le> bound" unfolding bound_def by (rule lateral_span [OF g f ij(1,2) M(2) ends ij(3,4)])
  then have "nat \<lceil>(hi - lo) / sr_width r\<rceil> \<le> nat \<lceil>bound / sr_width r\<rceil>"
    using W(2) by (intro nat_mono ceiling_mono divide_right_mono) auto
  moreover have "gs_bin_capacity g = nat \<lceil>bound / sr_width r\<rceil> + 3"
    unfolding capacity M(1) using W(2) by (simp add: bound_def size_of_ceil del: std_ceil.simps)
  ultimately show "bin_count_of g \<lparr>le_low = Fin lo, le_high = Fin hi, le_valid = n\<rparr> \<le> gs_bin_capacity g" unfolding count by simp
qed

definition outline_bin :: "geometry_solver \<Rightarrow> projected_sample list \<Rightarrow> nat \<Rightarrow> nat" where
  "outline_bin g samples k =
     (let e = outline_extent samples
      in bin_of (le_low e) (gc_bin_width (gs_configuration g)) (bin_count_of g e) (pj_lateral (samples ! k)))"

lemma filled_generations:
  assumes "bins_after generation bin samples stale n bins" "\<forall>slot \<in> set stale. bs_generation slot < generation"
  shows "\<forall>slot \<in> set bins. bs_generation slot \<le> generation"
proof
  fix slot
  assume "slot \<in> set bins"
  then obtain k where k: "k < length bins" "slot = bins ! k" by (auto simp: in_set_conv_nth)
  have len: "length bins = length stale" using assms(1) by (simp add: bins_after_def)
  show "bs_generation slot \<le> generation"
  proof (cases "\<exists>j < n. bin j = k")
    case True
    then obtain l where "bins ! k = filled_slot generation samples l" using bins_after_occupied [OF assms(1) _ True] k(1) len by auto
    then show ?thesis by (simp add: k(2) filled_slot_def)
  next
    case False
    then have "slot = stale ! k" using bins_after_empty [OF assms(1)] k len by simp
    then show ?thesis using assms(2) k len by (auto intro: less_imp_le)
  qed
qed

lemma envelope_outcome:
  assumes g: "real_solver g r" and f: "real_frame f t yc ys rc rs a b"
    and w: "generations_ok w" "gs_bin_capacity g \<le> length (gw_bins w)"
    and machine: "laterals_representable (project_outline g f)"
  defines "samples \<equiv> project_outline g f"
  defines "e \<equiv> outline_extent samples"
  shows "le_valid e = length samples \<and> bin_count_of g e \<le> gs_bin_capacity g
    \<and> generations_ok (snd (build_envelope g samples e w))
    \<and> (\<exists>ks xs zs. envelope_picks (outline_bin g samples) (\<lambda>j. pj_vertical (samples ! j)) (length samples) (bin_count_of g e) ks
        \<and> fst (build_envelope g samples e w) = picked_envelope samples ks
        \<and> sample_reals samples xs zs (sr_stations r) \<and> increasing_reals (map (\<lambda>k. xs ! k) ks))"
proof -
  obtain xs zs where reals: "sample_reals samples xs zs (sr_stations r)" using project_outline_reals [OF g f] unfolding samples_def by blast
  have fin: "finite_samples samples" using sample_reals_finite [OF reals] .
  have "samples \<noteq> []" using g by (auto simp: samples_def project_outline_def real_solver_def)
  from outline_extent_spans [OF fin machine [folded samples_def] this] obtain lo hi where bounds:
      "e = \<lparr>le_low = Fin lo, le_high = Fin hi, le_valid = length samples\<rparr>"
      "Fin lo \<in> pj_lateral ` set samples" "Fin hi \<in> pj_lateral ` set samples"
      "\<forall>s \<in> set samples. Fin lo \<le> pj_lateral s \<and> pj_lateral s \<le> Fin hi" unfolding e_def by blast
  have W: "gc_bin_width (gs_configuration g) = Fin (sr_width r)" "0 < sr_width r" using g by (simp_all add: real_solver_def)
  note enough = bins_suffice [OF g f bounds(2,3) [unfolded samples_def], of "length samples", folded bounds(1)]
  define bin where "bin = outline_bin g samples"
  have bins: "bin k = nat \<lfloor>(xs ! k - lo) / sr_width r\<rfloor> \<and> bin k < bin_count_of g e" if "k < length samples" for k
  proof -
    have x: "pj_lateral (samples ! k) = Fin (xs ! k)" using reals that by (simp add: sample_reals_def)
    then have "lo \<le> xs ! k" "xs ! k \<le> hi" using bounds(4) that by (metis Fin_le nth_mem)+
    from bin_of_floor [OF W(2) this enough(1)] show ?thesis
      by (simp add: bin_def outline_bin_def e_def [symmetric] x W(1) bounds(1))
  qed
  define v where "v = next_generation w"
  have stale: "\<forall>slot \<in> set (gw_bins v). bs_generation slot < gw_generation v" and len: "length (gw_bins v) = length (gw_bins w)"
    unfolding v_def by (rule next_generation_stale [OF w(1)])+
  then have other: "\<forall>slot \<in> set (gw_bins v). bs_generation slot \<noteq> gw_generation v" by auto
  define filled where "filled = foldl (fill_bin (gw_generation v) (bin_of (le_low e) (gc_bin_width (gs_configuration g)) (bin_count_of g e)) samples)
      (gw_bins v) [0..<length samples]"
  have bin_eq: "(\<lambda>j. bin_of (le_low e) (gc_bin_width (gs_configuration g)) (bin_count_of g e) (pj_lateral (samples ! j))) = bin"
    by (rule HOL.ext) (simp add: bin_def outline_bin_def e_def Let_def)
  have room: "bin_count_of g e \<le> length (gw_bins v)" using enough(2) w(2) len by simp
  have "\<forall>j < length samples. bin j < length (gw_bins v)"
  proof (intro allI impI)
    show "bin j < length (gw_bins v)" if "j < length samples" for j using bins [OF that] room by linarith
  qed
  then have after: "bins_after (gw_generation v) bin samples (gw_bins v) (length samples) filled"
    unfolding filled_def bin_eq [symmetric] by (rule bins_filled [OF fin other])
  have build: "build_envelope g samples e w = (read_envelope (gw_generation v) samples (take (bin_count_of g e) filled), v\<lparr>gw_bins := filled\<rparr>)"
    by (simp add: build_envelope_def v_def filled_def Let_def)
  obtain ks where ks: "envelope_picks bin (\<lambda>j. pj_vertical (samples ! j)) (length samples) (bin_count_of g e) ks"
      "read_envelope (gw_generation v) samples (take (bin_count_of g e) filled) = picked_envelope samples ks"
    using read_envelope_picks [OF after other room] by blast
  have "increasing_reals (map (\<lambda>k. xs ! k) ks)"
    using ks(1) by (rule picks_increasing) (use bins bins_ascend [OF W(2)] in metis)
  moreover have "generations_ok (snd (build_envelope g samples e w))"
    using filled_generations [OF after stale] by (simp add: build generations_ok_def)
  ultimately show ?thesis using ks reals enough(2) build bounds(1) unfolding bin_def by auto
qed

subsection \<open>Properties\<close>

text \<open>An envelope as reals: strictly increasing laterals with heights and stations.\<close>

definition envelope_of :: "real list \<Rightarrow> real list \<Rightarrow> real list \<Rightarrow> envelope" where
  "envelope_of ks vs ss = \<lparr>ev_lateral = map Fin ks, ev_vertical = map Fin vs, ev_station = map Fin ss\<rparr>"

definition increasing_envelope :: "envelope \<Rightarrow> bool" where
  "increasing_envelope env \<longleftrightarrow> (\<exists>ks vs ss. env = envelope_of ks vs ss
     \<and> increasing_reals ks \<and> length vs = length ks \<and> length ss = length ks)"

lemma picked_increasing:
  assumes "sample_reals samples xs zs ss" "envelope_picks bin height (length samples) bin_count ks" "increasing_reals (map (\<lambda>k. xs ! k) ks)"
  shows "increasing_envelope (picked_envelope samples ks)"
proof -
  have "k < length samples" if "k \<in> set ks" for k using assms(2) that by (simp add: envelope_picks_def wins_def)
  then have "picked_envelope samples ks = \<lparr>ev_lateral = map Fin (map (\<lambda>k. xs ! k) ks), ev_vertical = map Fin (map (\<lambda>k. zs ! k) ks),
      ev_station = map Fin (map (\<lambda>k. ss ! k) ks)\<rparr>"
    using assms(1) by (simp add: picked_envelope_def sample_reals_def)
  then show ?thesis unfolding increasing_envelope_def envelope_of_def using assms(3) by (intro exI conjI) (assumption | simp)+
qed

text \<open>What a solve does first: the workspace is grown to the capacity of the solver, then the envelope is built in it.\<close>

definition solve_envelope :: "geometry_solver \<Rightarrow> pose_frame \<Rightarrow> geometry_workspace \<Rightarrow> envelope \<times> geometry_workspace" where
  "solve_envelope g f w =
     (let samples = project_outline g f
      in build_envelope g samples (outline_extent samples) (ensure_bin_capacity (gs_bin_capacity g) w))"

lemma solve_envelope_outcome:
  assumes g: "real_solver g r" and pose: "finite_pose pose" and w: "generations_ok w"
    and machine: "laterals_representable (project_outline g (pose_frame_of pose))"
  defines "f \<equiv> pose_frame_of pose"
  defines "samples \<equiv> project_outline g f"
  defines "e \<equiv> outline_extent samples"
  shows "le_valid e = length samples \<and> bin_count_of g e \<le> gs_bin_capacity g \<and> generations_ok (snd (solve_envelope g f w))
    \<and> (\<exists>ks. envelope_picks (outline_bin g samples) (\<lambda>j. pj_vertical (samples ! j)) (length samples) (bin_count_of g e) ks
        \<and> fst (solve_envelope g f w) = picked_envelope samples ks)
    \<and> increasing_envelope (fst (solve_envelope g f w))"
proof -
  obtain t yc ys rc rs a b where frame: "real_frame f t yc ys rc rs a b" using real_frame_of_pose [OF pose] unfolding f_def by blast
  have "envelope_picks bin height n c ks \<Longrightarrow> env = picked_envelope samples ks \<Longrightarrow> increasing_envelope (picked_envelope samples ks)
      \<Longrightarrow> \<exists>ks. envelope_picks bin height n c ks \<and> env = picked_envelope samples ks" for bin height n c ks env by blast
  with envelope_outcome [OF g frame ensured_ok [OF w] ensured_length machine [folded f_def]] show ?thesis
    unfolding solve_envelope_def samples_def [symmetric] e_def [symmetric] Let_def using picked_increasing by metis
qed

text \<open>The envelope forgets the workspace.  For an accepted solver, a finite pose under which every lateral is a number of
  the machine, and any workspace without bins from the future - new, or left by earlier solves of any solvers - the bins reserved at
  construction suffice, so that the logic error of the code cannot occur; the envelope consists of one sample for every occupied
  bin, in the order of the bins, namely the highest of the bin and the first of equally high ones; its laterals increase strictly;
  a new workspace gives the same envelope; and the workspace that is left has no bins from the future either.\<close>
theorem envelope_forgets_workspace:
  assumes "make_geometry_solver wheel rail side rescan c = Some (Inr g)" "finite_pose pose" "generations_ok w"
    and "laterals_representable (project_outline g (pose_frame_of pose))"
  defines "samples \<equiv> project_outline g (pose_frame_of pose)"
  defines "bin_count \<equiv> bin_count_of g (outline_extent samples)"
  shows "bin_count \<le> gs_bin_capacity g
    \<and> (\<exists>ks. envelope_picks (outline_bin g samples) (\<lambda>j. pj_vertical (samples ! j)) (length samples) bin_count ks
        \<and> fst (solve_envelope g (pose_frame_of pose) w) = picked_envelope samples ks)
    \<and> increasing_envelope (fst (solve_envelope g (pose_frame_of pose) w))
    \<and> fst (solve_envelope g (pose_frame_of pose) w) = fst (solve_envelope g (pose_frame_of pose) new_workspace)
    \<and> generations_ok (snd (solve_envelope g (pose_frame_of pose) w))"
proof -
  obtain r where r: "real_solver g r" using accepted_geometry [OF assms(1)] by blast
  note used = solve_envelope_outcome [OF r assms(2,3,4)] and fresh = solve_envelope_outcome [OF r assms(2) new_workspace_ok assms(4)]
  show ?thesis using used fresh envelope_picks_unique unfolding bin_count_def samples_def by metis
qed

definition crown_pose :: pose_scalars where
  "crown_pose = \<lparr>ps_roll = Fin 0, ps_yaw = Fin 0, ps_lateral_offset = Fin 0, ps_vertical_raise = Fin (1 / 2)\<rparr>"

lemma crown_pose_finite: "finite_pose crown_pose"
  by (simp add: crown_pose_def finite_pose_def)

lemma crown_laterals:
  assumes "crown_solver = Some (Inr g)"
  shows "map pj_lateral (project_outline g (pose_frame_of crown_pose)) = [Fin 0, Fin 1, Fin 2, Fin 3]"
proof -
  obtain r where r: "real_solver g r" using accepted_geometry assms unfolding crown_solver_def by blast
  have frame: "real_frame (pose_frame_of crown_pose) 0 1 0 1 0 0 (- 1 / 2)"
    by (simp add: real_frame_def pose_frame_of_def crown_pose_def Let_def)
  have "map Fin (sr_stations r) = [Fin 0, Fin 1, Fin 2, Fin 3]" using r crown_fields(3) [OF assms] by (simp add: real_solver_def)
  then have stations: "sr_stations r = [0, 1, 2, 3]" by auto
  have samples: "gc_samples (gs_configuration g) = 4" using crown_fields(1) [OF assms] by (simp add: crown_configuration_def)
  have "pj_lateral (project_sample g (pose_frame_of crown_pose) i) = Fin (sr_stations r ! i)" if "i < length (sr_stations r)" for i
    using project_sample_Fin [OF r frame that] by (auto simp: Let_def)
  then have "map pj_lateral (project_outline g (pose_frame_of crown_pose)) = map (\<lambda>i. Fin (sr_stations r ! i)) [0..<4]"
    unfolding project_outline_def samples by (auto simp: stations)
  then show ?thesis by (simp add: stations upt_conv_Cons)
qed

lemma crown_representable:
  assumes "crown_solver = Some (Inr g)"
  shows "laterals_representable (project_outline g (pose_frame_of crown_pose))"
proof -
  have "pj_lateral ` set (project_outline g (pose_frame_of crown_pose)) = {Fin 0, Fin 1, Fin 2, Fin 3}"
    using crown_laterals [OF assms] by (metis list.set(1) list.set(2) list.set_map)
  then have "pj_lateral s \<in> {Fin 0, Fin 1, Fin 2, Fin 3}" if "s \<in> set (project_outline g (pose_frame_of crown_pose))" for s
    using that by blast
  moreover obtain L where L: "largest_double = Fin L" "3 \<le> L"
  proof -
    have "(3 :: real) \<le> (2 - 1 / 2 ^ 52) * 2 ^ 1023" by simp
    then show thesis using that unfolding largest_double_def by blast
  qed
  ultimately show ?thesis unfolding laterals_representable_def L(1) using L(2) by fastforce
qed

definition used_workspace :: geometry_workspace where
  "used_workspace = \<lparr>gw_bins = [\<lparr>bs_highest = Fin 7, bs_argument = 3, bs_generation = - 1\<rparr>], gw_generation = - 1\<rparr>"

theorem envelope_forgets_workspace_witness:
  "\<exists>g. crown_solver = Some (Inr g)
    \<and> fst (solve_envelope g (pose_frame_of crown_pose) used_workspace) = fst (solve_envelope g (pose_frame_of crown_pose) new_workspace)
    \<and> increasing_envelope (fst (solve_envelope g (pose_frame_of crown_pose) used_workspace))"
proof -
  obtain g where g: "crown_solver = Some (Inr g)" using crown_solver_accepted by blast
  have "generations_ok used_workspace" by (simp add: generations_ok_def used_workspace_def)
  from envelope_forgets_workspace [OF g [unfolded crown_solver_def] crown_pose_finite this crown_representable [OF g]] show ?thesis
    using g by blast
qed

end
