(* ===== verification/Contact_Islands.thy ===== *)
theory Contact_Islands
  imports Contact_Envelope
begin

section \<open>Shared grid, gap and islands\<close>

text \<open>
  The middle part of \<open>ContactGeometrySolver::Solve\<close> in \<open>contact_geometry.cc\<close>: the grid shared by envelope and rail, the gap
  between the two surfaces and the islands in which they overlap, merged over shallow valleys.  The lemmas show that the grid is
  the increasing union of both node sets over their common range, that the gap is the difference of the two interpolants whatever
  the cursor and the hint, and that the islands are exactly the maximal runs of contact, merged exactly at the shallow valleys.
\<close>

subsection \<open>The shared grid\<close>

definition grid_between :: "double \<Rightarrow> double \<Rightarrow> vec \<Rightarrow> vec" where
  "grid_between low high xs = takeWhile (\<lambda>x. \<not> high < x) (dropWhile (\<lambda>x. x < low) xs)"

fun merge_grids :: "double option \<Rightarrow> vec \<Rightarrow> vec \<Rightarrow> vec" where
  "merge_grids previous [] [] = []"
| "merge_grids previous (x # xs) [] =
     (if previous = None \<or> \<not> feq x (the previous) then x # merge_grids (Some x) xs [] else merge_grids previous xs [])"
| "merge_grids previous [] (y # ys) =
     (if previous = None \<or> \<not> feq y (the previous) then y # merge_grids (Some y) [] ys else merge_grids previous [] ys)"
| "merge_grids previous (x # xs) (y # ys) =
     (if x \<le> y
      then (if previous = None \<or> \<not> feq x (the previous) then x # merge_grids (Some x) xs (y # ys)
            else merge_grids previous xs (y # ys))
      else (if previous = None \<or> \<not> feq y (the previous) then y # merge_grids (Some y) (x # xs) ys
            else merge_grids previous (x # xs) ys))"

definition shared_grid :: "vec \<Rightarrow> vec \<Rightarrow> double \<Rightarrow> double \<Rightarrow> vec" where
  "shared_grid envelope_lateral rail_lateral low high =
     merge_grids None (grid_between low high envelope_lateral) (grid_between low high rail_lateral)"

subsection \<open>The gap between the surfaces\<close>

definition envelope_segment :: "envelope \<Rightarrow> vec \<Rightarrow> nat \<Rightarrow> cubic_segment" where
  "envelope_segment env slopes k =
     cubic_between (ev_lateral env ! k) (ev_lateral env ! Suc k) (ev_vertical env ! k) (ev_vertical env ! Suc k)
       (slopes ! k) (slopes ! Suc k)"

definition envelope_height :: "envelope \<Rightarrow> vec \<Rightarrow> nat \<Rightarrow> double \<Rightarrow> double" where
  "envelope_height env slopes k x =
     (let c = envelope_segment env slopes k in cubic_value c (segment_parameter x (ev_lateral env ! k) (cs_spacing c)))"

text \<open>The segment cursor only moves forward; the coefficients are those of the segment it is in.\<close>

fun scan_gaps :: "geometry_solver \<Rightarrow> envelope \<Rightarrow> vec \<Rightarrow> nat \<Rightarrow> nat \<Rightarrow> vec \<Rightarrow> vec" where
  "scan_gaps g env slopes cursor hint [] = []"
| "scan_gaps g env slopes cursor hint (x # xs) =
     (let cursor = advance_segment (ev_lateral env) x cursor
      in case ip_evaluate_hinted (gs_rail_surface g) x hint of (rail, hint) \<Rightarrow>
         (envelope_height env slopes cursor x - rail) # scan_gaps g env slopes cursor hint xs)"

text \<open>The common lateral range of envelope and rail.\<close>

definition overlap_range :: "vec \<Rightarrow> vec \<Rightarrow> double \<times> double" where
  "overlap_range envelope_lateral rail_lateral =
     (std_max (envelope_lateral ! 0) (hd rail_lateral),
      std_min (envelope_lateral ! (length envelope_lateral - 1)) (last rail_lateral))"

subsection \<open>Islands\<close>

type_synonym island = "nat \<times> nat"

definition add_island :: "island list \<Rightarrow> island \<Rightarrow> island list" where
  "add_island found i = (if length found < max_contact_islands then found @ [i] else found)"

fun scan_islands :: "double \<Rightarrow> nat \<Rightarrow> nat option \<Rightarrow> island list \<Rightarrow> vec \<Rightarrow> island list" where
  "scan_islands epsilon i None found [] = found"
| "scan_islands epsilon i (Some start) found [] = add_island found (start, i - 1)"
| "scan_islands epsilon i None found (gap # gaps) =
     scan_islands epsilon (Suc i) (if epsilon < gap then Some i else None) found gaps"
| "scan_islands epsilon i (Some start) found (gap # gaps) =
     (if epsilon < gap then scan_islands epsilon (Suc i) (Some start) found gaps
      else scan_islands epsilon (Suc i) None (add_island found (start, i - 1)) gaps)"

definition valley_between :: "vec \<Rightarrow> nat \<Rightarrow> nat \<Rightarrow> double" where
  "valley_between gaps from until = foldl (\<lambda>v i. std_min v (gaps ! i)) largest_double [from..<Suc until]"

fun merge_islands :: "double \<Rightarrow> vec \<Rightarrow> island \<Rightarrow> island list \<Rightarrow> island list \<Rightarrow> island list" where
  "merge_islands tolerance gaps current merged [] = add_island merged current"
| "merge_islands tolerance gaps current merged (i # islands) =
     (if - tolerance < valley_between gaps (snd current) (fst i)
      then merge_islands tolerance gaps (fst current, snd i) merged islands
      else merge_islands tolerance gaps i (add_island merged current) islands)"

definition merged_islands :: "double \<Rightarrow> vec \<Rightarrow> island list \<Rightarrow> island list" where
  "merged_islands tolerance gaps found =
     (case found of [] \<Rightarrow> [] | i # islands \<Rightarrow> merge_islands tolerance gaps i [] islands)"

subsection \<open>Islands are the maximal runs of contact\<close>

definition in_contact :: "double \<Rightarrow> vec \<Rightarrow> nat \<Rightarrow> bool" where
  "in_contact epsilon gaps k \<longleftrightarrow> epsilon < gaps ! k"

text \<open>A run of contact that cannot be extended to the left, nor to the right within the first \<open>n\<close> nodes.\<close>

definition maximal_run :: "(nat \<Rightarrow> bool) \<Rightarrow> nat \<Rightarrow> island \<Rightarrow> bool" where
  "maximal_run p n run \<longleftrightarrow> fst run \<le> snd run \<and> snd run < n \<and> (\<forall>k \<in> {fst run..snd run}. p k)
     \<and> (fst run = 0 \<or> \<not> p (fst run - 1)) \<and> (Suc (snd run) = n \<or> \<not> p (Suc (snd run)))"

definition apart :: "island \<Rightarrow> island \<Rightarrow> bool" where
  "apart a b \<longleftrightarrow> Suc (snd a) < fst b"

definition covered :: "island list \<Rightarrow> nat \<Rightarrow> bool" where
  "covered found k \<longleftrightarrow> (\<exists>run \<in> set found. fst run \<le> k \<and> k \<le> snd run)
     \<or> length found = max_contact_islands \<and> snd (last found) < k"

text \<open>What holds of the scan after the first \<open>i\<close> nodes: closed runs are maximal, the open run reaches up to node \<open>i - 1\<close>.\<close>

definition scanned :: "(nat \<Rightarrow> bool) \<Rightarrow> nat \<Rightarrow> nat option \<Rightarrow> island list \<Rightarrow> bool" where
  "scanned p i open_run found \<longleftrightarrow>
     (\<forall>run \<in> set found. maximal_run p i run \<and> \<not> p (Suc (snd run)) \<and> Suc (snd run) < i)
   \<and> sorted_wrt apart found \<and> length found \<le> max_contact_islands
   \<and> (\<forall>k < i. p k \<longrightarrow> covered found k \<or> (\<exists>start. open_run = Some start \<and> start \<le> k))
   \<and> (case open_run of None \<Rightarrow> i = 0 \<or> \<not> p (i - 1)
      | Some start \<Rightarrow> start < i \<and> (\<forall>k \<in> {start..<i}. p k) \<and> (start = 0 \<or> \<not> p (start - 1))
          \<and> (\<forall>run \<in> set found. Suc (snd run) < start))"

lemma scanned_start: "scanned p 0 None []"
  by (simp add: scanned_def)

lemma scanned_stay_out: "scanned p i None found \<Longrightarrow> \<not> p i \<Longrightarrow> scanned p (Suc i) None found"
  by (auto simp: scanned_def maximal_run_def less_Suc_eq)

lemma scanned_open: "scanned p i None found \<Longrightarrow> p i \<Longrightarrow> scanned p (Suc i) (Some i) found"
  by (auto simp: scanned_def maximal_run_def less_Suc_eq le_less)

lemma scanned_stay_in: "scanned p i (Some start) found \<Longrightarrow> p i \<Longrightarrow> scanned p (Suc i) (Some start) found"
  by (auto simp: scanned_def maximal_run_def less_Suc_eq)

lemma scanned_close:
  assumes s: "scanned p i (Some start) found" and out: "\<not> p i"
  shows "scanned p (Suc i) None (add_island found (start, i - 1))"
proof -
  define run where "run = (start, i - 1)"
  from s have start: "start < i" "\<forall>k \<in> {start..<i}. p k" "start = 0 \<or> \<not> p (start - 1)" "\<forall>r \<in> set found. Suc (snd r) < start"
    and old: "\<forall>r \<in> set found. maximal_run p i r \<and> \<not> p (Suc (snd r)) \<and> Suc (snd r) < i" "sorted_wrt apart found"
      "length found \<le> max_contact_islands" "\<forall>k < i. p k \<longrightarrow> covered found k \<or> start \<le> k"
    by (auto simp: scanned_def)
  have run: "maximal_run p (Suc i) run \<and> \<not> p (Suc (snd run)) \<and> Suc (snd run) < Suc i"
    using start out by (auto simp: run_def maximal_run_def)
  have grown: "maximal_run p (Suc i) r \<and> \<not> p (Suc (snd r)) \<and> Suc (snd r) < Suc i" if "r \<in> set found" for r
    using old(1) that by (auto simp: maximal_run_def)
  have cover: "covered (add_island found run) k" if k: "k < i" "p k" for k
  proof (cases "length found < max_contact_islands")
    case True
    then show ?thesis using old(4) k by (auto simp: covered_def add_island_def run_def)
  next
    case False
    then have full: "length found = max_contact_islands" "found \<noteq> []" using old(3) by (auto simp: max_contact_islands_def)
    then have "snd (last found) < start" using start(4) last_in_set [of found] by fastforce
    then show ?thesis using old(4) k full(1) by (auto simp: covered_def add_island_def)
  qed
  have "sorted_wrt apart (add_island found run)"
    using old(2) start(4) by (auto simp: add_island_def sorted_wrt_append apart_def run_def)
  then show ?thesis
    using run grown cover old(3) out unfolding scanned_def run_def [symmetric]
    by (auto simp: add_island_def less_Suc_eq)
qed

definition runs_found :: "(nat \<Rightarrow> bool) \<Rightarrow> nat \<Rightarrow> island list \<Rightarrow> bool" where
  "runs_found p n found \<longleftrightarrow> (\<forall>run \<in> set found. maximal_run p n run) \<and> sorted_wrt apart found
     \<and> length found \<le> max_contact_islands \<and> (\<forall>k < n. p k \<longrightarrow> covered found k)"

lemma runs_found_in: "runs_found p n found \<Longrightarrow> run \<in> set found \<Longrightarrow> fst run \<le> snd run \<and> snd run < n"
  by (simp add: runs_found_def maximal_run_def)

lemma scanned_end: "scanned p n None found \<Longrightarrow> runs_found p n found"
  by (auto simp: scanned_def runs_found_def)

lemma scan_islands_sound:
  assumes "scanned (in_contact epsilon (seen @ gaps)) (length seen) open_run found"
  shows "runs_found (in_contact epsilon (seen @ gaps)) (length (seen @ gaps)) (scan_islands epsilon (length seen) open_run found gaps)"
  using assms
proof (induction gaps arbitrary: seen open_run found)
  case Nil
  show ?case
  proof (cases open_run)
    case None
    then show ?thesis using Nil scanned_end by simp
  next
    case (Some start)
    define p where "p k \<longleftrightarrow> in_contact epsilon seen k \<and> k < length seen" for k
    have "scanned p (length seen) (Some start) found"
      using Nil Some by (auto simp: scanned_def p_def maximal_run_def)
    from scanned_close [OF this] have c: "scanned p (Suc (length seen)) None (add_island found (start, length seen - 1))" by (simp add: p_def)
    have "start < length seen" using Nil Some by (simp add: scanned_def)
    then have "runs_found (in_contact epsilon seen) (length seen) (add_island found (start, length seen - 1))"
      using c Nil Some unfolding scanned_def runs_found_def
      by (auto simp: p_def maximal_run_def add_island_def split: if_splits)
    then show ?thesis using Some by simp
  qed
next
  case (Cons gap gaps)
  have shift: "seen @ gap # gaps = (seen @ [gap]) @ gaps" "Suc (length seen) = length (seen @ [gap])" by simp_all
  have here: "in_contact epsilon (seen @ gap # gaps) (length seen) \<longleftrightarrow> epsilon < gap" by (simp add: in_contact_def)
  show ?case
  proof (cases open_run)
    case None
    have "scanned (in_contact epsilon (seen @ gap # gaps)) (Suc (length seen)) (if epsilon < gap then Some (length seen) else None) found"
      using Cons.prems None scanned_open scanned_stay_out here by auto
    from Cons.IH [OF this [unfolded shift]] show ?thesis using None by simp
  next
    case (Some start)
    show ?thesis
    proof (cases "epsilon < gap")
      case True
      then have "scanned (in_contact epsilon (seen @ gap # gaps)) (Suc (length seen)) (Some start) found"
        using Cons.prems Some scanned_stay_in here by auto
      from Cons.IH [OF this [unfolded shift]] show ?thesis using Some True by simp
    next
      case False
      then have "scanned (in_contact epsilon (seen @ gap # gaps)) (Suc (length seen)) None (add_island found (start, length seen - 1))"
        using Cons.prems Some scanned_close here by auto
      from Cons.IH [OF this [unfolded shift]] show ?thesis using Some False by simp
    qed
  qed
qed

lemma scan_islands_runs: "runs_found (in_contact epsilon gaps) (length gaps) (scan_islands epsilon 0 None [] gaps)"
  using scan_islands_sound [of epsilon "[]" gaps None "[]"] scanned_start by simp

subsection \<open>Merging joins the islands across shallow valleys\<close>

definition shallow :: "double \<Rightarrow> vec \<Rightarrow> island \<Rightarrow> island \<Rightarrow> bool" where
  "shallow tolerance gaps a b \<longleftrightarrow> (\<forall>k \<in> {snd a..fst b}. - tolerance < gaps ! k)"

lemma std_min_fold:
  assumes "\<And>k. k \<in> set ks \<Longrightarrow> isfinite (gaps ! k)"
  shows "Fin x < foldl (\<lambda>v k. std_min v (gaps ! k)) (Fin v) ks \<longleftrightarrow> x < v \<and> (\<forall>k \<in> set ks. Fin x < gaps ! k)"
  using assms
proof (induction ks arbitrary: v)
  case (Cons k ks)
  then obtain y where "gaps ! k = Fin y" by (auto simp: isfinite_iff)
  then show ?case using Cons by simp
qed simp

lemma valley_is_shallow:
  assumes "\<forall>k \<in> {snd a..fst b}. isfinite (gaps ! k)" "- tolerance = Fin x" "Fin x < largest_double"
  shows "- tolerance < valley_between gaps (snd a) (fst b) \<longleftrightarrow> shallow tolerance gaps a b"
proof -
  obtain m where m: "largest_double = Fin m" by (simp add: largest_double_def)
  have ks: "set [snd a..<Suc (fst b)] = {snd a..fst b}" by auto
  show ?thesis using std_min_fold [of "[snd a..<Suc (fst b)]" gaps x m] assms
    unfolding valley_between_def shallow_def m ks by simp
qed

definition spanned :: "island list \<Rightarrow> island" where
  "spanned cluster = (fst (hd cluster), snd (last cluster))"

text \<open>The clusters of islands that merging joins: shallow valleys inside a cluster, none between neighbouring clusters.\<close>

definition merged_clusters :: "(island \<Rightarrow> island \<Rightarrow> bool) \<Rightarrow> island list \<Rightarrow> island list list \<Rightarrow> bool" where
  "merged_clusters joined islands clusters \<longleftrightarrow> concat clusters = islands
     \<and> (\<forall>cluster \<in> set clusters. cluster \<noteq> [] \<and> successively joined cluster)
     \<and> successively (\<lambda>g h. \<not> joined (last g) (hd h)) clusters"

lemma merge_islands_clusters:
  assumes "\<And>a b. a \<in> set (cluster @ islands) \<Longrightarrow> b \<in> set (cluster @ islands) \<Longrightarrow>
      - tolerance < valley_between gaps (snd a) (fst b) \<longleftrightarrow> joined a b"
    and "cluster \<noteq> []" "successively joined cluster" "length merged + Suc (length islands) \<le> max_contact_islands"
  shows "\<exists>clusters. merged_clusters joined (cluster @ islands) clusters
    \<and> merge_islands tolerance gaps (spanned cluster) merged islands = merged @ map spanned clusters"
  using assms
proof (induction islands arbitrary: cluster merged)
  case Nil
  then show ?case by (intro exI [of _ "[cluster]"]) (simp add: merged_clusters_def add_island_def)
next
  case (Cons i islands)
  have joined: "- tolerance < valley_between gaps (snd (spanned cluster)) (fst i) \<longleftrightarrow> joined (last cluster) i"
    using Cons.prems(1) [of "last cluster" i] Cons.prems(2) by (simp add: spanned_def)
  show ?case
  proof (cases "joined (last cluster) i")
    case True
    have "successively joined (cluster @ [i])" using Cons.prems(3) True by (simp add: successively_append_iff)
    moreover have "spanned (cluster @ [i]) = (fst (spanned cluster), snd i)" using Cons.prems(2) by (simp add: spanned_def)
    ultimately show ?thesis using Cons.IH [of "cluster @ [i]" merged] Cons.prems joined True by simp
  next
    case False
    have here: "merge_islands tolerance gaps (spanned cluster) merged (i # islands)
        = merge_islands tolerance gaps (spanned [i]) (merged @ [spanned cluster]) islands"
      using joined False Cons.prems(4) by (simp add: spanned_def add_island_def)
    obtain clusters where g: "merged_clusters joined (i # islands) clusters"
      "merge_islands tolerance gaps (spanned [i]) (merged @ [spanned cluster]) islands = (merged @ [spanned cluster]) @ map spanned clusters"
      using Cons.IH [of "[i]" "merged @ [spanned cluster]", OF Cons.prems(1)] Cons.prems(4) by auto
    then obtain h hs where h: "clusters = h # hs" "h \<noteq> []" "hd h = i" by (cases clusters) (auto simp: merged_clusters_def append_eq_Cons_conv)
    have "merged_clusters joined (cluster @ i # islands) (cluster # clusters)"
      using g(1) Cons.prems(2,3) False h by (simp add: merged_clusters_def)
    then show ?thesis using here g(2) by (intro exI [of _ "cluster # clusters"]) simp
  qed
qed

subsection \<open>The shared grid is the union of the nodes\<close>

lemma merge_grids_union:
  assumes "sorted_wrt (<) xs" "sorted_wrt (<) ys" "\<forall>x \<in> set (xs @ ys). \<forall>q. p = Some q \<longrightarrow> q \<le> x"
  shows "\<exists>zs. merge_grids (map_option Fin p) (map Fin xs) (map Fin ys) = map Fin zs \<and> sorted_wrt (<) zs
    \<and> set zs = set xs \<union> set ys - set_option p"
  using assms
proof (induction "length xs + length ys" arbitrary: p xs ys rule: less_induct)
  case less
  text \<open>Taking a least first element \<open>v\<close> and leaving smaller lists.\<close>
  have step: ?case
    if taken: "merge_grids (map_option Fin p) (map Fin xs) (map Fin ys) =
        (if map_option Fin p = None \<or> \<not> feq (Fin v) (the (map_option Fin p))
         then Fin v # merge_grids (Some (Fin v)) (map Fin xs') (map Fin ys')
         else merge_grids (map_option Fin p) (map Fin xs') (map Fin ys'))"
      and rest: "length xs' + length ys' < length xs + length ys" "sorted_wrt (<) xs'" "sorted_wrt (<) ys'"
        "set xs \<union> set ys = insert v (set xs' \<union> set ys')" "\<forall>x \<in> set (xs' @ ys'). v \<le> x"
    for v xs' ys'
  proof (cases "p = Some v")
    case True
    then show ?thesis using less.hyps [OF rest(1-3), of p] rest(4,5) taken by auto
  next
    case False
    from less.hyps [OF rest(1-3), of "Some v"] rest(5) obtain zs where zs:
      "merge_grids (Some (Fin v)) (map Fin xs') (map Fin ys') = map Fin zs" "sorted_wrt (<) zs" "set zs = set xs' \<union> set ys' - {v}" by auto
    have member: "v \<in> set xs \<union> set ys" unfolding rest(4) by simp
    have fresh: "q < v" if q: "p = Some q" for q
    proof -
      have "q \<le> v" using less.prems(3) member q by auto
      then show ?thesis using False q by simp
    qed
    have "set (v # zs) = set xs \<union> set ys - set_option p"
    proof (cases p)
      case None
      then show ?thesis using zs(3) rest(4) by auto
    next
      case (Some q)
      have "q \<notin> insert v (set xs' \<union> set ys')" using fresh [OF Some] rest(5) by (metis Un_iff insert_iff less_irrefl not_le set_append)
      then show ?thesis using Some zs(3) unfolding rest(4) by auto
    qed
    moreover have "sorted_wrt (<) (v # zs)" using zs(2,3) rest(5) by force
    moreover have "merge_grids (map_option Fin p) (map Fin xs) (map Fin ys) = map Fin (v # zs)"
      using taken zs(1) False by (cases p) auto
    ultimately show ?thesis by blast
  qed
  show ?case
  proof (cases xs)
    case Nil
    show ?thesis
    proof (cases ys)
      case Nil
      then show ?thesis using \<open>xs = []\<close> by (intro exI [of _ "[]"]) simp
    next
      case (Cons y ys')
      then show ?thesis using \<open>xs = []\<close> less.prems by (intro step [of y "[]" ys']) auto
    qed
  next
    case x: (Cons x xs')
    show ?thesis
    proof (cases ys)
      case Nil
      then show ?thesis using x less.prems by (intro step [of x xs' "[]"]) auto
    next
      case y: (Cons y ys')
      show ?thesis
      proof (cases "x \<le> y")
        case True
        then show ?thesis using x y less.prems by (intro step [of x xs' ys]) auto
      next
        case False
        then show ?thesis using x y less.prems by (intro step [of y xs ys']) auto
      qed
    qed
  qed
qed

lemma grid_between_Fin:
  assumes "sorted_wrt (<) xs"
  shows "grid_between (Fin low) (Fin high) (map Fin xs) = map Fin (filter (\<lambda>x. low \<le> x \<and> x \<le> high) xs)"
proof -
  have up: "takeWhile (\<lambda>x. \<not> Fin high < x) (map Fin ys) = map Fin (filter (\<lambda>x. x \<le> high) ys)" if "sorted_wrt (<) ys" for ys
    using that by (induction ys) (auto simp: filter_empty_conv)
  have "dropWhile (\<lambda>x. x < Fin low) (map Fin ys) = map Fin (filter (\<lambda>x. low \<le> x) ys)" if "sorted_wrt (<) ys" for ys
    using that
  proof (induction ys)
    case (Cons y ys)
    show ?case
    proof (cases "y < low")
      case False
      then have "filter (\<lambda>x. low \<le> x) (y # ys) = y # ys" using Cons.prems by (auto simp: filter_id_conv)
      then show ?thesis using False by simp
    qed (use Cons in simp)
  qed simp
  then show ?thesis using assms up [of "filter (\<lambda>x. low \<le> x) xs"]
    by (simp add: grid_between_def sorted_wrt_filter conj_commute)
qed

lemma shared_grid_Fin:
  assumes "sorted_wrt (<) xs" "sorted_wrt (<) ys"
  shows "\<exists>zs. shared_grid (map Fin xs) (map Fin ys) (Fin low) (Fin high) = map Fin zs \<and> sorted_wrt (<) zs
    \<and> set zs = {x \<in> set xs \<union> set ys. low \<le> x \<and> x \<le> high}"
proof -
  define keep where "keep zs = filter (\<lambda>x. low \<le> x \<and> x \<le> high) zs" for zs
  have "sorted_wrt (<) (keep xs)" "sorted_wrt (<) (keep ys)" using assms by (simp_all add: keep_def sorted_wrt_filter)
  from merge_grids_union [OF this, of None] obtain zs where
    "merge_grids None (map Fin (keep xs)) (map Fin (keep ys)) = map Fin zs" "sorted_wrt (<) zs" "set zs = set (keep xs) \<union> set (keep ys)" by auto
  then show ?thesis using assms
    by (intro exI [of _ zs]) (auto simp: shared_grid_def grid_between_Fin keep_def)
qed

subsection \<open>The walk over the grid evaluates the interpolant of the envelope\<close>

lemma cursor_advances:
  assumes "node_lists ks vs ds" "Suc c < length ks" "c = 0 \<or> ks ! c \<le> x"
  shows "Suc (advance_segment (map Fin ks) (Fin x) c) < length ks
    \<and> (advance_segment (map Fin ks) (Fin x) c = 0 \<or> ks ! advance_segment (map Fin ks) (Fin x) c \<le> x)
    \<and> (advance_segment (map Fin ks) (Fin x) c = length ks - 2 \<or> x < ks ! Suc (advance_segment (map Fin ks) (Fin x) c))"
  using assms(2,3)
proof (induction "length ks - c" arbitrary: c rule: less_induct)
  case less
  show ?case
  proof (cases "c < length ks - 2 \<and> ks ! Suc c \<le> x")
    case True
    then have "length ks - Suc c < length ks - c" "Suc (Suc c) < length ks" "Suc c = 0 \<or> ks ! Suc c \<le> x" by auto
    moreover have "advance_segment (map Fin ks) (Fin x) c = advance_segment (map Fin ks) (Fin x) (Suc c)"
      using True less.prems by (subst advance_segment.simps) simp
    ultimately show ?thesis using less.hyps [of "Suc c"] by simp
  next
    case False
    then have "advance_segment (map Fin ks) (Fin x) c = c" using False less.prems by (subst advance_segment.simps) auto
    then show ?thesis using False less.prems by auto
  qed
qed

text \<open>A cursor that has not passed any abscissa still to come.\<close>

definition cursor_behind :: "real list \<Rightarrow> nat \<Rightarrow> real list \<Rightarrow> bool" where
  "cursor_behind ks c xs \<longleftrightarrow> Suc c < length ks \<and> (c = 0 \<or> (\<forall>x \<in> set xs. ks ! c \<le> x))"

lemma cursor_at:
  assumes n: "node_lists ks vs ds" and c: "cursor_behind ks c (x # xs)" and x: "ks ! 0 \<le> x" "x \<le> ks ! (length ks - 1)"
    and up: "\<forall>y \<in> set xs. x \<le> y"
  defines "k \<equiv> advance_segment (map Fin ks) (Fin x) c"
  shows "Suc k < length ks \<and> ks ! k \<le> x \<and> x \<le> ks ! Suc k \<and> cursor_behind ks k xs"
proof -
  have "Suc k < length ks \<and> (k = 0 \<or> ks ! k \<le> x) \<and> (k = length ks - 2 \<or> x < ks ! Suc k)"
    unfolding k_def using c by (intro cursor_advances [OF n]) (auto simp: cursor_behind_def)
  moreover have "Suc (length ks - 2) = length ks - 1" using node_listsD [OF n] by simp
  ultimately show ?thesis using x up by (auto simp: cursor_behind_def)
qed

lemma envelope_segment_Fin:
  assumes n: "node_lists ks vs ds" and k: "Suc k < length ks"
  shows "envelope_segment (envelope_of ks vs ss) (map Fin ds) k =
    (let h = ks ! Suc k - ks ! k
     in \<lparr>cs_spacing = Fin h, cs_constant = Fin (vs ! k), cs_linear = Fin (h * ds ! k),
         cs_quadratic = Fin (- 3 * vs ! k + 3 * vs ! Suc k - 2 * h * ds ! k - h * ds ! Suc k),
         cs_cubic = Fin (2 * vs ! k - 2 * vs ! Suc k + h * ds ! k + h * ds ! Suc k)\<rparr>)"
  using k node_listsD [OF n] by (simp add: envelope_segment_def envelope_of_def cubic_between_def Let_def)

lemma segment_parameter_Fin:
  assumes n: "node_lists ks vs ds" and k: "Suc k < length ks" "ks ! k \<le> x" "x \<le> ks ! Suc k"
  shows "segment_parameter (Fin x) (Fin (ks ! k)) (Fin (ks ! Suc k - ks ! k)) = Fin (local_parameter ks k x)"
  using local_parameter_bounds [OF n k] spacing_pos [OF n k(1)]
  by (simp add: segment_parameter_def clamp_value_def local_parameter_def)

lemma envelope_height_Fin:
  assumes n: "node_lists ks vs ds" and k: "Suc k < length ks" "ks ! k \<le> x" "x \<le> ks ! Suc k"
  shows "envelope_height (envelope_of ks vs ss) (map Fin ds) k (Fin x) = Fin (segment_curve ks vs ds k x)"
proof -
  have "ev_lateral (envelope_of ks vs ss) ! k = Fin (ks ! k)" using k(1) by (simp add: envelope_of_def)
  then show ?thesis
    using segment_parameter_Fin [OF n k]
    unfolding envelope_height_def envelope_segment_Fin [OF n k(1)] segment_curve_def hermite_def Let_def
    by (simp add: cubic_value_def)
qed

lemma scan_gaps_difference:
  assumes rail: "rail_ok g" and n: "node_lists ks vs ds" and xs: "sorted_wrt (<) xs" "\<forall>x \<in> set xs. ks ! 0 \<le> x \<and> x \<le> ks ! (length ks - 1)"
    and c: "cursor_behind ks c xs"
  shows "scan_gaps g (envelope_of ks vs ss) (map Fin ds) c hint (map Fin xs)
    = map (\<lambda>x. ip_evaluate (node_interpolant ks vs ds rule) (Fin x) - ip_evaluate (gs_rail_surface g) (Fin x)) xs"
  using xs c
proof (induction xs arbitrary: c hint)
  case (Cons x xs)
  have up: "\<forall>y \<in> set xs. x \<le> y" using Cons.prems(1) by auto
  define k where "k = advance_segment (map Fin ks) (Fin x) c"
  have k: "Suc k < length ks" "ks ! k \<le> x" "x \<le> ks ! Suc k" "cursor_behind ks k xs"
    using cursor_at [OF n Cons.prems(3) _ _ up] Cons.prems(2) unfolding k_def by auto
  have lateral: "ev_lateral (envelope_of ks vs ss) = map Fin ks" by (simp add: envelope_of_def)
  have hinted: "ip_evaluate_hinted (gs_rail_surface g) (Fin x) hint
      = (ip_evaluate (gs_rail_surface g) (Fin x), loc_segment (locate (gs_rail_surface g) (Fin x)))"
    using hinted_evaluation rail by (simp add: rail_ok_def)
  show ?case
    using Cons.IH [OF _ _ k(4)] Cons.prems(1,2)
    by (simp add: lateral k_def [symmetric] hinted envelope_height_Fin [OF n k(1-3)] evaluate_between [OF n k(1-3)] Let_def)
qed simp

subsection \<open>Properties\<close>

lemma islands_outcome:
  assumes "\<forall>gap \<in> set gaps. isfinite gap" "Fin (- m) < largest_double"
  shows "runs_found (in_contact epsilon gaps) (length gaps) (scan_islands epsilon 0 None [] gaps)
    \<and> (\<exists>clusters. merged_clusters (shallow (Fin m) gaps) (scan_islands epsilon 0 None [] gaps) clusters
        \<and> merged_islands (Fin m) gaps (scan_islands epsilon 0 None [] gaps) = map spanned clusters)"
proof -
  define found where "found = scan_islands epsilon 0 None [] gaps"
  have runs: "runs_found (in_contact epsilon gaps) (length gaps) found" unfolding found_def by (rule scan_islands_runs)
  have valley: "- Fin m < valley_between gaps (snd a) (fst b) \<longleftrightarrow> shallow (Fin m) gaps a b" if ab: "a \<in> set found" "b \<in> set found" for a b
  proof (rule valley_is_shallow)
    have "fst b < length gaps" using runs_found_in [OF runs ab(2)] by simp
    then show "\<forall>k \<in> {snd a..fst b}. isfinite (gaps ! k)" using assms(1) by auto
  qed (use assms(2) in simp_all)
  have "\<exists>clusters. merged_clusters (shallow (Fin m) gaps) found clusters \<and> merged_islands (Fin m) gaps found = map spanned clusters"
  proof (cases found)
    case Nil
    then show ?thesis by (intro exI [of _ "[]"]) (simp add: merged_clusters_def merged_islands_def)
  next
    case (Cons i islands)
    have "length [] + Suc (length islands) \<le> max_contact_islands" using runs Cons by (simp add: runs_found_def)
    then have "\<exists>clusters. merged_clusters (shallow (Fin m) gaps) ([i] @ islands) clusters
        \<and> merge_islands (Fin m) gaps (spanned [i]) [] islands = [] @ map spanned clusters"
      using valley Cons by (intro merge_islands_clusters) auto
    then show ?thesis using Cons by (simp add: merged_islands_def spanned_def)
  qed
  then show ?thesis using runs by (simp add: found_def)
qed

text \<open>The islands are the contacts.  For finite gaps, the scan returns runs of nodes whose gap exceeds epsilon, each of them
  maximal, in ascending order with at least one node without contact between neighbours; every node in contact lies in one of them,
  unless all 64 places were taken before it.  Merging joins exactly the neighbours across a shallow valley: the merged islands span the
  clusters of a division of the list in which all nodes between neighbours stay above minus the tolerance inside a
  cluster, and some node does not between clusters; no island is lost to the ceiling.\<close>
theorem islands_are_contacts:
  assumes "\<forall>gap \<in> set gaps. isfinite gap" "Fin (- m) < largest_double"
  shows "runs_found (in_contact epsilon gaps) (length gaps) (scan_islands epsilon 0 None [] gaps)
    \<and> (\<exists>clusters. merged_clusters (shallow (Fin m) gaps) (scan_islands epsilon 0 None [] gaps) clusters
        \<and> merged_islands (Fin m) gaps (scan_islands epsilon 0 None [] gaps) = map spanned clusters)"
  using assms by (rule islands_outcome)

definition sample_gaps :: vec where
  "sample_gaps = [Fin 1, Fin 2, Fin (- 1 / 10), Fin 1, Fin (- 3), Fin 2]"

theorem islands_are_contacts_witness:
  "(\<exists>clusters. merged_clusters (shallow (Fin (1 / 2)) sample_gaps) [(0, 1), (3, 3), (5, 5)] clusters
      \<and> merged_islands (Fin (1 / 2)) sample_gaps [(0, 1), (3, 3), (5, 5)] = map spanned clusters)
   \<and> merged_islands (Fin (1 / 2)) sample_gaps [(0, 1), (3, 3), (5, 5)] = [(0, 3), (5, 5)]"
proof -
  have scan: "scan_islands (Fin 0) 0 None [] sample_gaps = [(0, 1), (3, 3), (5, 5)]"
    by (simp add: sample_gaps_def add_island_def max_contact_islands_def)
  have "\<forall>gap \<in> set sample_gaps. isfinite gap" "Fin (- (1 / 2)) < largest_double"
    by (simp_all add: sample_gaps_def largest_double_def)
  from islands_are_contacts [OF this, of "Fin 0"] show ?thesis
    unfolding scan by (simp add: merged_islands_def valley_between_def sample_gaps_def largest_double_def add_island_def max_contact_islands_def upt_conv_Cons)
qed

lemma rail_okI:
  assumes "make_geometry_solver wheel rail side rescan c = Some (Inr g)"
  shows "rail_ok g"
proof -
  obtain rail_surface where "surface_through_nodes (srp_lateral (resolve_for_side rail side)) (srp_vertical (resolve_for_side rail side)) = Inr rail_surface"
      "gs_rail_surface g = rail_surface"
    using assms by (auto simp: make_geometry_solver_def bind_eq_Some_conv bindS_eq_Inr Let_def geometry_solver_of_def)
  then show ?thesis unfolding rail_ok_def built_interpolant_def surface_through_nodes_def bindS_eq_Inr by blast
qed

lemma increasing_iff_sorted: "increasing_reals ks \<longleftrightarrow> sorted_wrt (<) ks"
  by (simp add: increasing_reals_def sorted_wrt_iff_nth_Suc_transp)

text \<open>Grid, slopes and gaps of an increasing envelope.\<close>

lemma gaps_outcome:
  assumes rail: "rail_ok g" "srp_lateral (gs_rail_side g) = map Fin rs" "increasing_reals rs" "rs \<noteq> []"
    and e: "increasing_reals ks" "length vs = length ks" "2 \<le> length ks"
    and range: "overlap_range (map Fin ks) (map Fin rs) = (Fin low, Fin high)"
  shows "\<exists>xs ds. shared_grid (map Fin ks) (map Fin rs) (Fin low) (Fin high) = map Fin xs \<and> sorted_wrt (<) xs
    \<and> set xs = {x \<in> set ks \<union> set rs. low \<le> x \<and> x \<le> high}
    \<and> (\<forall>x \<in> set xs. ks ! 0 \<le> x \<and> x \<le> ks ! (length ks - 1))
    \<and> node_lists ks vs ds \<and> shape_preserving_slopes (map Fin ks) (map Fin vs) = map Fin ds
    \<and> scan_gaps g (envelope_of ks vs ss) (map Fin ds) 0 0 (map Fin xs)
        = map (\<lambda>x. ip_evaluate (node_interpolant ks vs ds ZeroOutsideKnots) (Fin x) - ip_evaluate (gs_rail_surface g) (Fin x)) xs"
proof -
  obtain ds where ds: "shape_preserving_slopes (map Fin ks) (map Fin vs) = map Fin ds" "length ds = length ks"
    using shape_preserving_slopes_Fin [OF e] by blast
  then have n: "node_lists ks vs ds" using e by (simp add: node_lists_def)
  obtain xs where xs: "shared_grid (map Fin ks) (map Fin rs) (Fin low) (Fin high) = map Fin xs" "sorted_wrt (<) xs"
      "set xs = {x \<in> set ks \<union> set rs. low \<le> x \<and> x \<le> high}"
    using shared_grid_Fin [of ks rs low high] e(1) rail(3) by (auto simp: increasing_iff_sorted)
  have nonempty: "0 < length ks" using e(3) by linarith
  have "ks ! 0 \<le> low" "high \<le> ks ! (length ks - 1)"
    using range nonempty rail(4) by (auto simp: overlap_range_def hd_map last_map)
  then have inside: "\<forall>x \<in> set xs. ks ! 0 \<le> x \<and> x \<le> ks ! (length ks - 1)" using xs(3) by auto
  have "cursor_behind ks 0 xs" using e(3) by (simp add: cursor_behind_def)
  from scan_gaps_difference [OF rail(1) n xs(2) inside this] show ?thesis using xs inside ds n by blast
qed

text \<open>The gap is the difference of the two surfaces.  For an accepted solver and an envelope of strictly increasing finite
  nodes, the shared grid is the strictly increasing list of all nodes of envelope and rail inside their common range, and
  the walk over it with a cursor that only moves forward and a hint into the rail gives, at every grid node, the value of the shape
  preserving interpolant through the envelope minus the value of the rail surface.\<close>
theorem gaps_are_differences:
  assumes "make_geometry_solver wheel rail side rescan c = Some (Inr g)"
    and "increasing_reals ks" "length vs = length ks" "2 \<le> length ks"
    and "overlap_range (map Fin ks) (srp_lateral (gs_rail_side g)) = (Fin low, Fin high)"
  shows "\<exists>xs m. shared_grid (map Fin ks) (srp_lateral (gs_rail_side g)) (Fin low) (Fin high) = map Fin xs \<and> sorted_wrt (<) xs
    \<and> set (map Fin xs) = {x \<in> set (map Fin ks) \<union> set (srp_lateral (gs_rail_side g)). Fin low \<le> x \<and> x \<le> Fin high}
    \<and> from_values (map Fin ks) (map Fin vs) ZeroOutsideKnots = Inr m
    \<and> scan_gaps g (envelope_of ks vs ss) (shape_preserving_slopes (map Fin ks) (map Fin vs)) 0 0 (map Fin xs)
        = map (\<lambda>x. ip_evaluate m x - ip_evaluate (gs_rail_surface g) x) (map Fin xs)"
proof -
  obtain r where r: "real_solver g r" using accepted_geometry [OF assms(1)] by blast
  then have rs: "srp_lateral (gs_rail_side g) = map Fin (sr_rail r)" "increasing_reals (sr_rail r)" "sr_rail r \<noteq> []"
    by (auto simp: real_solver_def)
  obtain m where m: "from_values (map Fin ks) (map Fin vs) ZeroOutsideKnots = Inr m" using from_values_accepts [OF assms(2-4)] by blast
  from m obtain ds where ds: "m = node_interpolant ks vs ds ZeroOutsideKnots" "shape_preserving_slopes (map Fin ks) (map Fin vs) = map Fin ds"
    using shape_preserving_slopes_Fin [OF assms(2-4)]
    by (auto simp: from_values_def compute_nodal_slopes_def compute_nodal_slopes_into_def bindS_eq_Inr Let_def node_interpolant_def
        reject_if_def split: if_splits)
  from gaps_outcome [OF rail_okI [OF assms(1)] rs assms(2-4) assms(5) [unfolded rs(1)], of ss] obtain xs ds' where xs:
    "shared_grid (map Fin ks) (map Fin (sr_rail r)) (Fin low) (Fin high) = map Fin xs" "sorted_wrt (<) xs"
    "set xs = {x \<in> set ks \<union> set (sr_rail r). low \<le> x \<and> x \<le> high}" "map Fin ds = map Fin ds'"
    "scan_gaps g (envelope_of ks vs ss) (map Fin ds') 0 0 (map Fin xs)
        = map (\<lambda>x. ip_evaluate (node_interpolant ks vs ds' ZeroOutsideKnots) (Fin x) - ip_evaluate (gs_rail_surface g) (Fin x)) xs"
    unfolding ds(2) by metis
  have "ds' = ds" using xs(4) inj_map_eq_map [of Fin ds ds'] by (simp add: inj_def)
  then show ?thesis using xs m unfolding rs(1) ds by (intro exI [of _ xs] exI [of _ "node_interpolant ks vs ds ZeroOutsideKnots"]) auto
qed

theorem gaps_are_differences_witness:
  "\<exists>g xs m. crown_solver = Some (Inr g) \<and> shared_grid [Fin (- 1), Fin 1, Fin 2] [Fin 0, Fin 1, Fin 3] (Fin 0) (Fin 2) = map Fin xs
    \<and> set (map Fin xs) = {Fin 0, Fin 1, Fin 2}
    \<and> scan_gaps g (envelope_of [- 1, 1, 2] [0, 1, 0] [0, 1, 2]) (shape_preserving_slopes [Fin (- 1), Fin 1, Fin 2] [Fin 0, Fin 1, Fin 0]) 0 0 (map Fin xs)
        = map (\<lambda>x. ip_evaluate m x - ip_evaluate (gs_rail_surface g) x) (map Fin xs)"
proof -
  obtain g where g: "crown_solver = Some (Inr g)" using crown_solver_accepted by blast
  note nodes = crown_fields(2) [OF g]
  have i: "increasing_reals [- 1, 1, 2]" "length [0, 1, 0 :: real] = length [- 1, 1, 2 :: real]" "2 \<le> length [- 1, 1, 2 :: real]"
    by (auto simp: increasing_reals_def less_Suc_eq numeral_eq_Suc)
  have range: "overlap_range (map Fin [- 1, 1, 2]) (srp_lateral (gs_rail_side g)) = (Fin 0, Fin 2)"
    by (simp add: overlap_range_def nodes)
  have common: "{x \<in> set (map Fin [- 1, 1, 2]) \<union> set [Fin 0, Fin 1, Fin 3]. Fin 0 \<le> x \<and> x \<le> Fin 2} = {Fin 0, Fin 1, Fin 2}" by auto
  have lists: "map Fin [- 1, 1, 2] = [Fin (- 1), Fin 1, Fin 2]" "map Fin [0, 1, 0] = [Fin 0, Fin 1, Fin 0]" by simp_all
  from gaps_are_differences [OF g [unfolded crown_solver_def] i range, of "[0, 1, 2]"] show ?thesis
    unfolding nodes common unfolding lists using g by blast
qed

end
