(* ===== verification/Contact_Patches.thy ===== *)
theory Contact_Patches
  imports Contact_Islands
begin

section \<open>Contact patches\<close>

text \<open>
  The rest of \<open>ContactGeometrySolver::Solve\<close> in \<open>contact_geometry.cc\<close>: the quadrature over each merged island, the patch
  made of it, the order of the patches and their reference points, and the whole solve.  The order \<open>std::sort\<close> gives to
  patches with equal centroids is open, so the arrangement is a parameter with the contract of \<open>std::sort\<close>.  The
  lemmas show that a solve always returns, never sees its workspace's past, and that the measures of every patch fit together.
\<close>

subsection \<open>Quadrature over an island\<close>

record quadrature_sample =
  qs_lateral :: double
  qs_rail :: double
  qs_overlap :: double
  qs_slope :: double
  qs_station :: double

record sweep =
  sw_cursor :: nat
  sw_hint :: nat
  sw_penetration :: double
  sw_deepest :: nat
  sw_samples :: "quadrature_sample list"

definition station_at :: "envelope \<Rightarrow> nat \<Rightarrow> double \<Rightarrow> double \<Rightarrow> double" where
  "station_at env k spacing x =
     (let last_one = length (ev_lateral env) - 1
      in if x \<le> ev_lateral env ! 0 then ev_station env ! 0
         else if ev_lateral env ! last_one \<le> x then ev_station env ! last_one
         else ev_station env ! k + (ev_station env ! Suc k - ev_station env ! k) * (x - ev_lateral env ! k) / spacing)"

definition sweep_step :: "geometry_solver \<Rightarrow> envelope \<Rightarrow> vec \<Rightarrow> double \<Rightarrow> double \<Rightarrow> sweep \<Rightarrow> nat \<Rightarrow> sweep" where
  "sweep_step g env slopes left_edge right_edge s i =
     (let x = left_edge + (right_edge - left_edge) * (double_of_size i / double_of_size (gc_stations (gs_configuration g) - 1));
          k = advance_segment (ev_lateral env) x (sw_cursor s);
          c = envelope_segment env slopes k;
          t = segment_parameter x (ev_lateral env ! k) (cs_spacing c)
      in case ip_evaluate_hinted (gs_rail_surface g) x (sw_hint s) of (rail, hint) \<Rightarrow>
         let overlap = std_max 0 (cubic_value c t - rail);
             deeper = sw_penetration s < overlap
         in \<lparr>sw_cursor = k, sw_hint = hint,
             sw_penetration = (if deeper then overlap else sw_penetration s),
             sw_deepest = (if deeper then i else sw_deepest s),
             sw_samples = sw_samples s @ [\<lparr>qs_lateral = x, qs_rail = rail, qs_overlap = overlap, qs_slope = cubic_slope c t,
                                           qs_station = station_at env k (cs_spacing c) x\<rparr>]\<rparr>)"

definition sweep_island :: "geometry_solver \<Rightarrow> envelope \<Rightarrow> vec \<Rightarrow> double \<Rightarrow> double \<Rightarrow> sweep" where
  "sweep_island g env slopes left_edge right_edge =
     foldl (sweep_step g env slopes left_edge right_edge)
       \<lparr>sw_cursor = 0, sw_hint = 0, sw_penetration = - largest_double, sw_deepest = 0, sw_samples = []\<rparr>
       [0..<gc_stations (gs_configuration g)]"

record integrals =
  in_area :: double
  in_arc_width :: double
  in_weighted_area :: double
  in_lateral_moment :: double
  in_vertical_moment :: double

definition trapezoid :: "double \<Rightarrow> double \<Rightarrow> double \<Rightarrow> double \<Rightarrow> double" where
  "trapezoid accumulated spacing a b = accumulated + half * spacing * (b + a)"

definition wheel_jacobian :: "quadrature_sample \<Rightarrow> double" where
  "wheel_jacobian q = std_sqrt (1 + qs_slope q * qs_slope q)"

definition vertical_moment_term :: "quadrature_sample \<Rightarrow> double" where
  "vertical_moment_term q = (let top = qs_rail q + qs_overlap q in half * (top * top - qs_rail q * qs_rail q))"

definition integrate_segment :: "integrals \<Rightarrow> quadrature_sample \<times> quadrature_sample \<Rightarrow> integrals" where
  "integrate_segment n pair =
     (case pair of (p, q) \<Rightarrow>
        let spacing = qs_lateral q - qs_lateral p
        in \<lparr>in_area = trapezoid (in_area n) spacing (qs_overlap p) (qs_overlap q),
            in_arc_width = trapezoid (in_arc_width n) spacing (wheel_jacobian p) (wheel_jacobian q),
            in_weighted_area = trapezoid (in_weighted_area n) spacing (qs_overlap p * wheel_jacobian p) (qs_overlap q * wheel_jacobian q),
            in_lateral_moment = trapezoid (in_lateral_moment n) spacing (qs_lateral p * qs_overlap p) (qs_lateral q * qs_overlap q),
            in_vertical_moment = trapezoid (in_vertical_moment n) spacing (vertical_moment_term p) (vertical_moment_term q)\<rparr>)"

definition integrate_samples :: "quadrature_sample list \<Rightarrow> integrals" where
  "integrate_samples qs =
     foldl integrate_segment \<lparr>in_area = 0, in_arc_width = 0, in_weighted_area = 0, in_lateral_moment = 0, in_vertical_moment = 0\<rparr>
       (zip qs (tl qs))"

subsection \<open>The shape of an island\<close>

definition left_edge_of :: "double \<Rightarrow> vec \<Rightarrow> vec \<Rightarrow> nat \<Rightarrow> double" where
  "left_edge_of epsilon grid gaps start =
     (if start = 0 then grid ! 0
      else refine_edge (grid ! (start - 1)) (gaps ! (start - 1) - epsilon) (grid ! start) (gaps ! start - epsilon))"

definition right_edge_of :: "double \<Rightarrow> vec \<Rightarrow> vec \<Rightarrow> nat \<Rightarrow> double" where
  "right_edge_of epsilon grid gaps end_node =
     (if length grid - 1 \<le> end_node then grid ! (length grid - 1)
      else refine_edge (grid ! end_node) (gaps ! end_node - epsilon) (grid ! Suc end_node) (gaps ! Suc end_node - epsilon))"

record island_shape =
  sh_chord_width :: double
  sh_sweep :: sweep
  sh_integrals :: integrals

text \<open>\<open>None\<close> is an island the code passes over: no width, no depth or no area.\<close>

definition shape_of_island :: "geometry_solver \<Rightarrow> envelope \<Rightarrow> vec \<Rightarrow> vec \<Rightarrow> vec \<Rightarrow> island \<Rightarrow> island_shape option" where
  "shape_of_island g env slopes grid gaps i =
     (let epsilon = gc_epsilon (gs_configuration g);
          left_edge = left_edge_of epsilon grid gaps (fst i);
          right_edge = right_edge_of epsilon grid gaps (snd i);
          chord_width = right_edge - left_edge
      in if \<not> 0 < chord_width then None
         else let s = sweep_island g env slopes left_edge right_edge
              in if sw_penetration s \<le> epsilon then None
                 else let n = integrate_samples (sw_samples s)
                      in if \<not> 0 < in_area n then None
                         else Some \<lparr>sh_chord_width = chord_width, sh_sweep = s, sh_integrals = n\<rparr>)"

subsection \<open>The patch of an island\<close>

record contact_patch =
  cp_common_normal_angle :: double
  cp_rail_slope_angle :: double
  cp_centroid_lateral :: double
  cp_centroid_vertical :: double
  cp_wheel_station :: double
  cp_wheel_longitudinal :: double
  cp_rolling_radius :: double
  cp_vertical_penetration :: double
  cp_normal_penetration :: double
  cp_chord_width :: double
  cp_arc_width :: double
  cp_cross_section_area :: double
  cp_arc_weighted_area :: double
  cp_longitudinal_length :: double
  cp_wheel_curvature :: double
  cp_rail_curvature :: double
  cp_reference_longitudinal :: double
  cp_reference_lateral :: double
  cp_reference_vertical :: double

definition positive_or :: "double \<Rightarrow> double \<Rightarrow> double" where
  "positive_or v fallback = (if isfinite v \<and> 0 < v then v else fallback)"

definition patch_of_shape :: "geometry_solver \<Rightarrow> pose_scalars \<Rightarrow> envelope \<Rightarrow> island_shape \<Rightarrow> contact_patch option" where
  "patch_of_shape g pose env sh =
     (let f = pose_frame_of pose;
          s = sh_sweep sh; n = sh_integrals sh; radius = gc_radius (gs_configuration g);
          area = in_area n;
          divisor = std_max area centroid_divisor_floor;
          centroid_lateral = in_lateral_moment n / divisor;
          centroid_vertical = in_vertical_moment n / divisor;
          deepest_lateral = qs_lateral (sw_samples s ! sw_deepest s);
          deepest_slope = ip_first_derivative (gs_rail_surface g) deepest_lateral;
          deepest_cosine = 1 / std_sqrt (1 + deepest_slope * deepest_slope);
          wheel_station = interpolate_linear (ev_lateral env) (ev_station env) centroid_lateral;
          rolling_radius = radius + ip_evaluate (gs_wheel_surface g) wheel_station;
          rail_slope = ip_first_derivative (gs_rail_surface g) centroid_lateral;
          surface_angle = std_atan rail_slope;
          normal_angle = std_atan2 (pf_yaw_cosine f * std_sin (surface_angle - ps_roll pose)) (std_cos (surface_angle - ps_roll pose));
          contact_sine = clamp_value (- pf_yaw_tangent f * std_tan normal_angle) (- 1) 1
      in map_option (\<lambda>longitudinal_length.
           \<lparr>cp_common_normal_angle = normal_angle,
            cp_rail_slope_angle = surface_angle + gs_side_sign g * gc_cant (gs_configuration g),
            cp_centroid_lateral = centroid_lateral, cp_centroid_vertical = centroid_vertical,
            cp_wheel_station = wheel_station, cp_wheel_longitudinal = rolling_radius * contact_sine,
            cp_rolling_radius = rolling_radius,
            cp_vertical_penetration = sw_penetration s, cp_normal_penetration = sw_penetration s * deepest_cosine,
            cp_chord_width = sh_chord_width sh, cp_arc_width = positive_or (in_arc_width n) (sh_chord_width sh),
            cp_cross_section_area = area, cp_arc_weighted_area = positive_or (in_weighted_area n) area,
            cp_longitudinal_length = longitudinal_length,
            cp_wheel_curvature = surface_curvature (gs_wheel_surface g) wheel_station,
            cp_rail_curvature = curvature_from_slope (gs_rail_surface g) centroid_lateral rail_slope,
            cp_reference_longitudinal = 0, cp_reference_lateral = 0, cp_reference_vertical = 0\<rparr>)
         (resolve_longitudinal_length g f (map qs_station (sw_samples s)) (sw_deepest s)))"

fun collect_patches ::
    "geometry_solver \<Rightarrow> pose_scalars \<Rightarrow> envelope \<Rightarrow> vec \<Rightarrow> vec \<Rightarrow> vec \<Rightarrow> island list \<Rightarrow> contact_patch list \<Rightarrow> contact_patch list option" where
  "collect_patches g pose env slopes grid gaps [] found = Some found"
| "collect_patches g pose env slopes grid gaps (i # islands) found =
     (if max_contact_patches \<le> length found then Some found
      else case shape_of_island g env slopes grid gaps i of
             None \<Rightarrow> collect_patches g pose env slopes grid gaps islands found
           | Some sh \<Rightarrow> Option.bind (patch_of_shape g pose env sh) (\<lambda>p.
               collect_patches g pose env slopes grid gaps islands (found @ [p])))"

text \<open>The rail point a patch reduces about.\<close>

definition set_rail_reference :: "geometry_solver \<Rightarrow> pose_frame \<Rightarrow> contact_patch \<Rightarrow> contact_patch" where
  "set_rail_reference g f p =
     (let wheel_x = cp_wheel_longitudinal p; wheel_y = cp_wheel_station p;
          wheel_z = cp_rolling_radius p - gc_radius (gs_configuration g);
          yawed = pf_yaw_sine f * wheel_x + pf_yaw_cosine f * wheel_y;
          lateral = pf_roll_cosine f * yawed - pf_roll_sine f * wheel_z + pf_lateral_offset f
      in p\<lparr>cp_reference_longitudinal := pf_yaw_cosine f * wheel_x - pf_yaw_sine f * wheel_y,
           cp_reference_lateral := lateral,
           cp_reference_vertical := ip_evaluate (gs_rail_surface g) lateral\<rparr>)"

subsection \<open>The solve\<close>

record contact_patch_set =
  pt_patches :: "contact_patch list"
  pt_islands :: nat
  pt_merged_islands :: nat

definition no_patches :: contact_patch_set where
  "no_patches = \<lparr>pt_patches = [], pt_islands = 0, pt_merged_islands = 0\<rparr>"

definition patches_of_envelope ::
    "(contact_patch list \<Rightarrow> contact_patch list) \<Rightarrow> geometry_solver \<Rightarrow> pose_scalars \<Rightarrow> envelope \<Rightarrow> contact_patch_set option" where
  "patches_of_envelope arrange g pose env =
     (let rail = srp_lateral (gs_rail_side g); laterals = ev_lateral env; c = gs_configuration g
      in if length laterals < 3 \<or> length rail < 3 then Some no_patches
         else case overlap_range laterals rail of (low, high) \<Rightarrow>
           if high \<le> low then Some no_patches
           else let grid = shared_grid laterals rail low high
                in if length grid < 3 then Some no_patches
                   else let slopes = shape_preserving_slopes laterals (ev_vertical env);
                            gaps = scan_gaps g env slopes 0 0 grid;
                            found = scan_islands (gc_epsilon c) 0 None [] gaps
                        in if found = [] then Some no_patches
                           else let merged = merged_islands (gc_merge_tolerance c) gaps found
                                in map_option (\<lambda>patches.
                                     \<lparr>pt_patches = map (set_rail_reference g (pose_frame_of pose)) (arrange patches),
                                      pt_islands = length found, pt_merged_islands = length merged\<rparr>)
                                   (collect_patches g pose env slopes grid gaps merged []))"

definition geometry_solve ::
    "(contact_patch list \<Rightarrow> contact_patch list) \<Rightarrow> geometry_solver \<Rightarrow> pose_scalars \<Rightarrow> geometry_workspace
     \<Rightarrow> (contact_patch_set outcome \<times> geometry_workspace) option" where
  "geometry_solve arrange g pose w =
     (let w = ensure_bin_capacity (gs_bin_capacity g) w;
          samples = project_outline g (pose_frame_of pose);
          e = outline_extent samples
      in if le_valid e = 0 then Some (Inr no_patches, w)
         else if gs_bin_capacity g < bin_count_of g e then Some (Inl LogicError, w)
         else case build_envelope g samples e w of (env, w) \<Rightarrow>
           map_option (\<lambda>patches. (Inr patches, w)) (patches_of_envelope arrange g pose env))"

subsection \<open>Surfaces are finite wherever they are asked\<close>

lemma located_finite:
  assumes "node_lists ks vs ds"
  shows "\<exists>s t. locate (node_interpolant ks vs ds rule) (Fin x) = \<lparr>loc_segment = s, loc_parameter = Fin t\<rparr> \<and> Suc s < length ks"
proof -
  note d = node_listsD [OF assms]
  consider "x \<le> ks ! 0" | "ks ! (length ks - 1) \<le> x" | "ks ! 0 < x" "x < ks ! (length ks - 1)" by linarith
  then show ?thesis
  proof cases
    case 1
    then show ?thesis using locate_left [OF assms] d by auto
  next
    case 2
    have "Suc (length ks - 2) < length ks" using d by linarith
    then show ?thesis using locate_right [OF assms 2] by auto
  next
    case 3
    obtain s where s: "Suc s < length ks" "ks ! s \<le> x" "x < ks ! Suc s"
      using segment_exists [OF assms less_imp_le [OF 3(1)] 3(2)] by blast
    show ?thesis using locate_between [OF assms s 3(1)] located_in_Fin [OF assms s(1,2) less_imp_le [OF s(3)]] s(1) by auto
  qed
qed

lemma interpolant_finite:
  assumes "real_interpolant m ks"
  shows "isfinite (ip_evaluate m (Fin x))" "isfinite (ip_first_derivative m (Fin x))" "isfinite (ip_second_derivative m (Fin x))"
proof -
  obtain vs ds where n: "node_lists ks vs ds" "m = node_interpolant ks vs ds ZeroOutsideKnots" using assms by (auto simp: real_interpolant_def)
  obtain s t where l: "locate m (Fin x) = \<lparr>loc_segment = s, loc_parameter = Fin t\<rparr>" "Suc s < length ks"
    using located_finite [OF n(1)] unfolding n(2) by blast
  note segment = node_segment [OF n(1) l(2), of ZeroOutsideKnots, folded n(2)]
  show "isfinite (ip_evaluate m (Fin x))" by (simp add: ip_evaluate_def l(1) segment segment_value_def Let_def)
  show "isfinite (ip_first_derivative m (Fin x))" by (simp add: ip_first_derivative_def l(1) segment Let_def)
  show "isfinite (ip_second_derivative m (Fin x))" by (simp add: ip_second_derivative_def l(1) segment Let_def)
qed

lemma curvature_finite:
  assumes "real_interpolant m ks" "isfinite slope"
  shows "isfinite (curvature_from_slope m (Fin x) slope)"
proof -
  obtain k b where kb: "slope = Fin k" "ip_second_derivative m (Fin x) = Fin b"
    using assms(2) interpolant_finite(3) [OF assms(1), of x] unfolding isfinite_iff by blast
  obtain v where v: "pow_three_halves (Fin (1 + k * k)) = Fin v" "1 \<le> v"
  proof -
    have "1 \<le> (1 + k * k) * sqrt (1 + k * k)" using mult_mono [of 1 "1 + k * k" 1 "sqrt (1 + k * k)"] by simp
    then show thesis using that by (simp add: not_less)
  qed
  then show ?thesis by (simp add: curvature_from_slope_def kb curvature_denominator_floor_def Let_def)
qed

subsection \<open>Edges\<close>

lemma refined_edge_left:
  assumes "x < y" "g \<le> 0" "0 < (h :: real)"
  shows "\<exists>e. refine_edge (Fin x) (Fin g) (Fin y) (Fin h) = Fin e \<and> x \<le> e \<and> e < y"
proof -
  define q where "q = (- g) / (h - g)"
  have pos: "0 < h - g" using assms by simp
  have "0 \<le> q" unfolding q_def using pos assms(2) by (intro divide_nonneg_pos) auto
  then have low: "0 \<le> q * (y - x)" using assms(1) by simp
  have "q < 1" unfolding q_def pos_divide_less_eq [OF pos] using assms(3) by simp
  then have "q * (y - x) < 1 * (y - x)" using assms(1) by (intro mult_strict_right_mono) auto
  moreover have "refine_edge (Fin x) (Fin g) (Fin y) (Fin h) = Fin (x + q * (y - x))"
    using assms by (simp add: refine_edge_def q_def)
  ultimately show ?thesis using low by (intro exI [of _ "x + q * (y - x)"]) simp
qed

lemma refined_edge_right:
  assumes "x < y" "0 < g" "h \<le> (0 :: real)"
  shows "\<exists>e. refine_edge (Fin x) (Fin g) (Fin y) (Fin h) = Fin e \<and> x < e \<and> e \<le> y"
proof -
  define q where "q = g / (g - h)"
  have pos: "0 < g - h" using assms by simp
  have "0 < q" unfolding q_def using pos assms(2) by (intro divide_pos_pos) auto
  then have low: "0 < q * (y - x)" using assms(1) by simp
  have "q \<le> 1" unfolding q_def pos_divide_le_eq [OF pos] using assms(3) by simp
  then have "q * (y - x) \<le> 1 * (y - x)" using assms(1) by (intro mult_right_mono) auto
  moreover have "refine_edge (Fin x) (Fin g) (Fin y) (Fin h) = Fin (x + q * (y - x))"
  proof -
    have "- (g / (h - g)) = q" unfolding q_def by (metis minus_diff_eq minus_divide_right)
    then have "- (g / (h - g) * (y - x)) = q * (y - x)" by (metis mult_minus_left)
    then show ?thesis using assms by (simp add: refine_edge_def)
  qed
  ultimately show ?thesis using low by (intro exI [of _ "x + q * (y - x)"]) simp
qed

text \<open>The edges of a span that begins and ends in contact and cannot be extended.\<close>

definition contact_span :: "(nat \<Rightarrow> bool) \<Rightarrow> nat \<Rightarrow> island \<Rightarrow> bool" where
  "contact_span p n i \<longleftrightarrow> fst i \<le> snd i \<and> snd i < n \<and> p (fst i) \<and> p (snd i)
     \<and> (fst i = 0 \<or> \<not> p (fst i - 1)) \<and> (Suc (snd i) = n \<or> \<not> p (Suc (snd i)))"

lemma maximal_run_span: "maximal_run p n i \<Longrightarrow> contact_span p n i"
  by (simp add: maximal_run_def contact_span_def)

lemma spanned_span:
  assumes "runs_found p n found" "merged_clusters joined found clusters" "i \<in> set (map spanned clusters)"
  shows "contact_span p n i"
proof -
  obtain cluster where c: "cluster \<in> set clusters" "i = spanned cluster" using assms(3) by auto
  have "cluster \<noteq> []" "set cluster \<subseteq> set found" using assms(2) c(1) by (auto simp: merged_clusters_def)
  then have "hd cluster \<in> set found" "last cluster \<in> set found" by auto
  then have ends: "maximal_run p n (hd cluster)" "maximal_run p n (last cluster)" using assms(1) by (simp_all add: runs_found_def)
  have "sorted_wrt apart found" using assms(1) by (simp add: runs_found_def)
  then have "sorted_wrt apart cluster" using assms(2) c(1)
    by (metis (no_types, lifting) merged_clusters_def concat_append concat.simps(2) in_set_conv_decomp sorted_wrt_append)
  then have "fst (hd cluster) \<le> snd (last cluster)"
  proof (cases cluster)
    case (Cons a as)
    then have "as = [] \<or> apart a (last as)" using \<open>sorted_wrt apart cluster\<close> last_in_set [of as] by (metis sorted_wrt.simps(2))
    then show ?thesis using ends Cons by (auto simp: apart_def maximal_run_def)
  qed (use \<open>cluster \<noteq> []\<close> in simp)
  then show ?thesis using ends by (auto simp: c(2) spanned_def contact_span_def maximal_run_def)
qed

lemma island_edges:
  assumes xs: "sorted_wrt (<) xs" "2 \<le> length xs" "length gs = length xs"
    and span: "contact_span (in_contact (Fin eps) (map Fin gs)) (length xs) i"
  shows "\<exists>l r. left_edge_of (Fin eps) (map Fin xs) (map Fin gs) (fst i) = Fin l
    \<and> right_edge_of (Fin eps) (map Fin xs) (map Fin gs) (snd i) = Fin r \<and> xs ! 0 \<le> l \<and> l < r \<and> r \<le> xs ! (length xs - 1)"
proof -
  define a z where "a = fst i" and "z = snd i"
  have az: "a \<le> z" "z < length xs" using span by (simp_all add: contact_span_def a_def z_def)
  have "a < length gs" "z < length gs" using az xs(3) by simp_all
  then have inside: "eps < gs ! a" "eps < gs ! z" using span by (simp_all add: contact_span_def in_contact_def a_def z_def)
  have up: "xs ! j < xs ! k" if "j < k" "k < length xs" for j k using sorted_wrt_nth_less [OF xs(1) that] .
  have weak: "xs ! j \<le> xs ! k" if "j \<le> k" "k < length xs" for j k using up [of j k] that by (cases "j = k") auto
  have left: "\<exists>l. left_edge_of (Fin eps) (map Fin xs) (map Fin gs) a = Fin l \<and> xs ! 0 \<le> l \<and> l \<le> xs ! a \<and> (l < xs ! a \<or> a = 0)"
  proof (cases a)
    case 0
    have "0 < length xs" using xs(2) by linarith
    then show ?thesis using 0 by (auto simp: left_edge_of_def)
  next
    case (Suc b)
    have "\<not> eps < gs ! b" using span Suc az xs(3) by (simp add: contact_span_def in_contact_def a_def [symmetric])
    then obtain l where "refine_edge (Fin (xs ! b)) (Fin (gs ! b - eps)) (Fin (xs ! a)) (Fin (gs ! a - eps)) = Fin l" "xs ! b \<le> l" "l < xs ! a"
      using refined_edge_left [of "xs ! b" "xs ! a" "gs ! b - eps" "gs ! a - eps"] up [of b a] inside(1) Suc az by auto
    moreover have "xs ! 0 \<le> xs ! b" using weak [of 0 b] Suc az by simp
    ultimately show ?thesis using Suc az xs(3) by (intro exI [of _ l]) (simp add: left_edge_of_def)
  qed
  have right: "\<exists>r. right_edge_of (Fin eps) (map Fin xs) (map Fin gs) z = Fin r \<and> xs ! z \<le> r \<and> r \<le> xs ! (length xs - 1)
      \<and> (xs ! z < r \<or> z = length xs - 1)"
  proof (cases "z = length xs - 1")
    case True
    then show ?thesis using xs(2) az by (auto simp: right_edge_of_def)
  next
    case False
    then have z: "Suc z < length xs" using az by simp
    have "\<not> eps < gs ! Suc z" using span z xs(3) by (simp add: contact_span_def in_contact_def z_def [symmetric])
    then obtain r where "refine_edge (Fin (xs ! z)) (Fin (gs ! z - eps)) (Fin (xs ! Suc z)) (Fin (gs ! Suc z - eps)) = Fin r"
        "xs ! z < r" "r \<le> xs ! Suc z"
      using refined_edge_right [of "xs ! z" "xs ! Suc z" "gs ! z - eps" "gs ! Suc z - eps"] up [OF lessI z] inside(2) by auto
    moreover have "xs ! Suc z \<le> xs ! (length xs - 1)" using weak [of "Suc z" "length xs - 1"] z by simp
    ultimately show ?thesis using z xs(3) False by (intro exI [of _ r]) (auto simp: right_edge_of_def)
  qed
  obtain l where l: "left_edge_of (Fin eps) (map Fin xs) (map Fin gs) a = Fin l" "xs ! 0 \<le> l" "l \<le> xs ! a" "l < xs ! a \<or> a = 0" using left by blast
  obtain r where r: "right_edge_of (Fin eps) (map Fin xs) (map Fin gs) z = Fin r" "xs ! z \<le> r" "r \<le> xs ! (length xs - 1)"
    "xs ! z < r \<or> z = length xs - 1" using right by blast
  have "l < r"
  proof (cases "a = z")
    case True
    then have "0 < a \<or> z < length xs - 1" using xs(2) by linarith
    then show ?thesis using l(3,4) r(2,4) True by auto
  next
    case False
    then show ?thesis using up [of a z] az l(3) r(2) by simp
  qed
  then show ?thesis using l r by (auto simp: a_def z_def)
qed

subsection \<open>The sweep over an island\<close>

definition finite_quad :: "real \<Rightarrow> quadrature_sample \<Rightarrow> bool" where
  "finite_quad y q \<longleftrightarrow> qs_lateral q = Fin y \<and> isfinite (qs_rail q) \<and> isfinite (qs_overlap q) \<and> 0 \<le> qs_overlap q
     \<and> isfinite (qs_slope q) \<and> isfinite (qs_station q)"

text \<open>The stations of the quadrature over the chord from \<open>l\<close> to \<open>r\<close>.\<close>

definition chord_station :: "real \<Rightarrow> real \<Rightarrow> nat \<Rightarrow> nat \<Rightarrow> real" where
  "chord_station l r n i = l + (r - l) * (real i / real (n - 1))"

lemma chord_station_mono:
  assumes "l < r" "2 \<le> n" "i < j"
  shows "chord_station l r n i < chord_station l r n j"
proof -
  have "real i / real (n - 1) < real j / real (n - 1)" using assms(2,3) by (intro divide_strict_right_mono) auto
  then have "(r - l) * (real i / real (n - 1)) < (r - l) * (real j / real (n - 1))"
    using assms(1) by (intro mult_strict_left_mono) auto
  then show ?thesis unfolding chord_station_def by simp
qed

lemma chord_station_ends: "2 \<le> n \<Longrightarrow> chord_station l r n 0 = l" "2 \<le> n \<Longrightarrow> chord_station l r n (n - 1) = r"
  by (simp_all add: chord_station_def)

lemma chord_station_within:
  assumes "l < r" "2 \<le> n" "i < n"
  shows "l \<le> chord_station l r n i" "chord_station l r n i \<le> r"
proof -
  show "l \<le> chord_station l r n i" using assms by (simp add: chord_station_def)
  have "i = n - 1 \<or> i < n - 1" using assms(3) by linarith
  then show "chord_station l r n i \<le> r"
    using chord_station_mono [OF assms(1,2), of i "n - 1"] chord_station_ends(2) [OF assms(2), of l r] by auto
qed

lemma station_at_finite:
  assumes n: "node_lists ks vs ds" "length ss = length ks" and k: "Suc k < length ks"
  shows "isfinite (station_at (envelope_of ks vs ss) k (Fin (ks ! Suc k - ks ! k)) (Fin x))"
proof -
  have len: "0 < length ks" "length ks - 1 < length ks" using node_listsD [OF n(1)] by simp_all
  have at: "map Fin ss ! 0 = Fin (ss ! 0)" "map Fin ss ! (length ks - Suc 0) = Fin (ss ! (length ks - 1))"
    "map Fin ss ! k = Fin (ss ! k)" "map Fin ss ! Suc k = Fin (ss ! Suc k)" "map Fin ks ! k = Fin (ks ! k)"
    using len k n(2) by simp_all
  show ?thesis using spacing_pos [OF n(1) k] unfolding station_at_def envelope_of_def Let_def by (simp add: at)
qed

lemma sweep_step_finite:
  assumes rail: "rail_ok g" "real_interpolant (gs_rail_surface g) rs" and n: "node_lists ks vs ds" "length ss = length ks"
    and i: "i < n" "n = gc_stations (gs_configuration g)" "2 \<le> n"
    and lr: "l < r" "ks ! 0 \<le> l" "r \<le> ks ! (length ks - 1)"
    and c: "cursor_behind ks (sw_cursor s) (map (chord_station l r n) [i..<n])"
  shows "\<exists>q. finite_quad (chord_station l r n i) q
    \<and> sw_samples (sweep_step g (envelope_of ks vs ss) (map Fin ds) (Fin l) (Fin r) s i) = sw_samples s @ [q]
    \<and> cursor_behind ks (sw_cursor (sweep_step g (envelope_of ks vs ss) (map Fin ds) (Fin l) (Fin r) s i)) (map (chord_station l r n) [Suc i..<n])
    \<and> sw_penetration (sweep_step g (envelope_of ks vs ss) (map Fin ds) (Fin l) (Fin r) s i)
        = (if sw_penetration s < qs_overlap q then qs_overlap q else sw_penetration s)
    \<and> sw_deepest (sweep_step g (envelope_of ks vs ss) (map Fin ds) (Fin l) (Fin r) s i)
        = (if sw_penetration s < qs_overlap q then i else sw_deepest s)"
proof -
  define x where "x = chord_station l r n i"
  have at: "Fin l + (Fin r - Fin l) * (double_of_size i / double_of_size (gc_stations (gs_configuration g) - 1)) = Fin x"
    using i(2,3) by (simp add: x_def chord_station_def double_of_size_def)
  have split: "map (chord_station l r n) [i..<n] = x # map (chord_station l r n) [Suc i..<n]"
    using i(1) by (simp add: x_def upt_conv_Cons)
  have later: "\<forall>y \<in> set (map (chord_station l r n) [Suc i..<n]). x \<le> y"
    using chord_station_mono [OF lr(1) i(3)] by (auto simp: x_def intro: less_imp_le)
  have range: "ks ! 0 \<le> x" "x \<le> ks ! (length ks - 1)"
    using chord_station_within [OF lr(1) i(3,1)] lr(2,3) by (simp_all add: x_def)
  define k where "k = advance_segment (map Fin ks) (Fin x) (sw_cursor s)"
  have k: "Suc k < length ks" "ks ! k \<le> x" "x \<le> ks ! Suc k" "cursor_behind ks k (map (chord_station l r n) [Suc i..<n])"
    using cursor_at [OF n(1) c [unfolded split] range later] unfolding k_def by auto
  note segment = envelope_segment_Fin [OF n(1) k(1), of ss] and parameter = segment_parameter_Fin [OF n(1) k(1-3)]
  have knots: "ev_lateral (envelope_of ks vs ss) = map Fin ks" by (simp add: envelope_of_def)
  have here: "map Fin ks ! k = Fin (ks ! k)" using k(1) by simp
  have spacing: "cs_spacing (envelope_segment (envelope_of ks vs ss) (map Fin ds) k) = Fin (ks ! Suc k - ks ! k)"
    by (simp add: segment Let_def)
  define v where "v = cubic_value (envelope_segment (envelope_of ks vs ss) (map Fin ds) k) (Fin (local_parameter ks k x))"
  define w where "w = cubic_slope (envelope_segment (envelope_of ks vs ss) (map Fin ds) k) (Fin (local_parameter ks k x))"
  have curve: "isfinite v" "isfinite w" using spacing_pos [OF n(1) k(1)]
    by (simp_all add: v_def w_def segment cubic_value_def cubic_slope_def Let_def)
  have "isfinite (ip_evaluate (gs_rail_surface g) (Fin x))" using interpolant_finite(1) [OF rail(2)] .
  then obtain u where u: "ip_evaluate (gs_rail_surface g) (Fin x) = Fin u" by (auto simp: isfinite_iff)
  obtain hint where hint: "ip_evaluate_hinted (gs_rail_surface g) (Fin x) (sw_hint s) = (Fin u, hint)"
    using hinted_evaluation rail(1) u by (auto simp: rail_ok_def)
  obtain y where y: "v = Fin y" using curve(1) by (auto simp: isfinite_iff)
  define q where "q = \<lparr>qs_lateral = Fin x, qs_rail = Fin u, qs_overlap = Fin (max 0 (y - u)), qs_slope = w,
      qs_station = station_at (envelope_of ks vs ss) k (Fin (ks ! Suc k - ks ! k)) (Fin x)\<rparr>"
  have "sweep_step g (envelope_of ks vs ss) (map Fin ds) (Fin l) (Fin r) s i
      = \<lparr>sw_cursor = k, sw_hint = hint,
         sw_penetration = (if sw_penetration s < qs_overlap q then qs_overlap q else sw_penetration s),
         sw_deepest = (if sw_penetration s < qs_overlap q then i else sw_deepest s), sw_samples = sw_samples s @ [q]\<rparr>"
    unfolding sweep_step_def at Let_def knots k_def [symmetric] spacing here parameter hint prod.case v_def [symmetric] w_def [symmetric]
    by (simp add: y q_def)
  moreover have "finite_quad x q"
    using curve(2) station_at_finite [OF n k(1)] by (simp add: finite_quad_def q_def)
  ultimately show ?thesis using k(4) by (intro exI [of _ q]) (simp add: x_def)
qed

text \<open>The sweep after the first \<open>i\<close> stations: finite samples, and the deepest of them found.\<close>

definition swept :: "real list \<Rightarrow> real \<Rightarrow> real \<Rightarrow> nat \<Rightarrow> nat \<Rightarrow> sweep \<Rightarrow> bool" where
  "swept ks l r n i s \<longleftrightarrow> length (sw_samples s) = i
     \<and> (\<forall>j < i. finite_quad (chord_station l r n j) (sw_samples s ! j))
     \<and> cursor_behind ks (sw_cursor s) (map (chord_station l r n) [i..<n])
     \<and> (if i = 0 then sw_penetration s = - largest_double
        else sw_deepest s < i \<and> qs_overlap (sw_samples s ! sw_deepest s) = sw_penetration s
          \<and> (\<forall>j < i. qs_overlap (sw_samples s ! j) \<le> sw_penetration s))"

lemma swept_append:
  assumes s: "swept ks l r n i s" and q: "finite_quad (chord_station l r n i) q"
    and t: "sw_samples t = sw_samples s @ [q]" "cursor_behind ks (sw_cursor t) (map (chord_station l r n) [Suc i..<n])"
      "sw_penetration t = (if sw_penetration s < qs_overlap q then qs_overlap q else sw_penetration s)"
      "sw_deepest t = (if sw_penetration s < qs_overlap q then i else sw_deepest s)"
  shows "swept ks l r n (Suc i) t"
proof -
  have len: "length (sw_samples s) = i" and fin: "\<forall>j < i. finite_quad (chord_station l r n j) (sw_samples s ! j)"
    using s by (simp_all add: swept_def)
  obtain o' where o': "qs_overlap q = Fin o'" "0 \<le> o'" using q by (auto simp: finite_quad_def isfinite_iff)
  have all: "\<forall>j < Suc i. finite_quad (chord_station l r n j) (sw_samples t ! j)"
    using q fin len t(1) by (auto simp: less_Suc_eq nth_append)
  have deep: "sw_deepest t < Suc i \<and> qs_overlap (sw_samples t ! sw_deepest t) = sw_penetration t
      \<and> (\<forall>j < Suc i. qs_overlap (sw_samples t ! j) \<le> sw_penetration t)"
  proof (cases "i = 0")
    case True
    obtain L where L: "0 < L" "largest_double = Fin L" using largest_Fin by blast
    have "sw_penetration s = Fin (- L)" using s True unfolding swept_def L(2) by simp
    then have "sw_penetration s < qs_overlap q" using L(1) o' by simp
    then show ?thesis using t len True o' by simp
  next
    case False
    then have old: "sw_deepest s < i" "qs_overlap (sw_samples s ! sw_deepest s) = sw_penetration s"
      "\<forall>j < i. qs_overlap (sw_samples s ! j) \<le> sw_penetration s" using s by (simp_all add: swept_def)
    then obtain P where P: "sw_penetration s = Fin P" using fin unfolding finite_quad_def isfinite_iff by metis
    show ?thesis
    proof (cases "P < o'")
      case True
      have "qs_overlap (sw_samples s ! j) \<le> Fin o'" if j: "j < i" for j
      proof -
        obtain v where "qs_overlap (sw_samples s ! j) = Fin v" using fin j unfolding finite_quad_def isfinite_iff by metis
        then show ?thesis using old(3) j P True by auto
      qed
      then show ?thesis using True P o' t len by (auto simp: less_Suc_eq nth_append)
    next
      case False
      then show ?thesis using P o' t len old by (auto simp: less_Suc_eq nth_append)
    qed
  qed
  show ?thesis using all deep t(1,2) len by (simp add: swept_def)
qed

lemma sweep_island_swept:
  assumes rail: "rail_ok g" "real_interpolant (gs_rail_surface g) rs" and n: "node_lists ks vs ds" "length ss = length ks"
    and m: "n = gc_stations (gs_configuration g)" "2 \<le> n"
    and lr: "l < r" "ks ! 0 \<le> l" "r \<le> ks ! (length ks - 1)"
  shows "swept ks l r n n (sweep_island g (envelope_of ks vs ss) (map Fin ds) (Fin l) (Fin r))"
proof -
  define start where "start = \<lparr>sw_cursor = 0, sw_hint = 0, sw_penetration = - largest_double, sw_deepest = 0, sw_samples = []\<rparr>"
  define after where "after i = foldl (sweep_step g (envelope_of ks vs ss) (map Fin ds) (Fin l) (Fin r)) start [0..<i]" for i
  have "Suc 0 < length ks" using node_listsD [OF n(1)] by simp
  then have first: "swept ks l r n 0 (after 0)" by (simp add: after_def start_def swept_def cursor_behind_def)
  have "swept ks l r n i (after i)" if "i \<le> n" for i
    using that
  proof (induction i)
    case (Suc i)
    have "cursor_behind ks (sw_cursor (after i)) (map (chord_station l r n) [i..<n])" using Suc by (simp add: swept_def)
    moreover have "after (Suc i) = sweep_step g (envelope_of ks vs ss) (map Fin ds) (Fin l) (Fin r) (after i) i" by (simp add: after_def)
    moreover have "swept ks l r n i (after i)" "i < n" using Suc by simp_all
    ultimately show ?case using sweep_step_finite [OF rail n _ m lr, of i "after i"] swept_append by metis
  qed (rule first)
  then have "swept ks l r n n (after n)" by simp
  then show ?thesis by (simp add: after_def start_def sweep_island_def m(1))
qed

subsection \<open>The integrals are trapezoid sums\<close>

abbreviation lateral_of :: "quadrature_sample \<Rightarrow> real" where "lateral_of q \<equiv> to_real (qs_lateral q)"
abbreviation overlap_of :: "quadrature_sample \<Rightarrow> real" where "overlap_of q \<equiv> to_real (qs_overlap q)"
abbreviation jacobian_of :: "quadrature_sample \<Rightarrow> real" where "jacobian_of q \<equiv> sqrt (1 + to_real (qs_slope q) * to_real (qs_slope q))"

definition vertical_of :: "quadrature_sample \<Rightarrow> real" where
  "vertical_of q = (let top = to_real (qs_rail q) + overlap_of q in (top * top - to_real (qs_rail q) * to_real (qs_rail q)) / 2)"

text \<open>The composite rule for any integrand over the samples.\<close>

definition trapezoid_sum :: "(quadrature_sample \<Rightarrow> real) \<Rightarrow> quadrature_sample list \<Rightarrow> real" where
  "trapezoid_sum f qs = (\<Sum>(p, q) \<leftarrow> zip qs (tl qs). (lateral_of q - lateral_of p) * (f q + f p) / 2)"

definition ascending :: "quadrature_sample list \<Rightarrow> bool" where
  "ascending qs \<longleftrightarrow> (\<forall>(p, q) \<in> set (zip qs (tl qs)). lateral_of p \<le> lateral_of q)"

lemma in_zip_tl: "(p, q) \<in> set (zip qs (tl qs)) \<Longrightarrow> p \<in> set qs \<and> q \<in> set qs"
  by (cases qs) (auto dest: set_zip_leftD set_zip_rightD)

lemma trapezoid_sum_mono:
  assumes "ascending qs" "\<And>q. q \<in> set qs \<Longrightarrow> f q \<le> g q"
  shows "trapezoid_sum f qs \<le> trapezoid_sum g qs"
  unfolding trapezoid_sum_def
proof (rule sum_list_mono)
  fix pair
  assume pair: "pair \<in> set (zip qs (tl qs))"
  obtain p q where pq: "pair = (p, q)" by (cases pair)
  have "f q + f p \<le> g q + g p" using assms(2) in_zip_tl pair pq by (metis add_mono)
  moreover have "0 \<le> lateral_of q - lateral_of p" using assms(1) pair pq by (auto simp: ascending_def)
  ultimately show "(case pair of (p, q) \<Rightarrow> (lateral_of q - lateral_of p) * (f q + f p) / 2)
      \<le> (case pair of (p, q) \<Rightarrow> (lateral_of q - lateral_of p) * (g q + g p) / 2)"
    using mult_left_mono [of "f q + f p" "g q + g p" "lateral_of q - lateral_of p"] by (simp add: pq)
qed

lemma trapezoid_sum_scaled: "trapezoid_sum (\<lambda>q. c * f q) qs = c * trapezoid_sum f qs"
proof -
  have "(\<lambda>(p, q). (lateral_of q - lateral_of p) * (c * f q + c * f p) / 2)
      = (\<lambda>pair. c * (case pair of (p, q) \<Rightarrow> (lateral_of q - lateral_of p) * (f q + f p) / 2))"
    by (auto simp: fun_eq_iff algebra_simps)
  then show ?thesis by (simp add: trapezoid_sum_def sum_list_const_mult)
qed

lemma trapezoid_sum_one: "qs \<noteq> [] \<Longrightarrow> trapezoid_sum (\<lambda>_. 1) qs = lateral_of (last qs) - lateral_of (hd qs)"
proof (induction qs)
  case (Cons p qs)
  then show ?case by (cases qs) (simp_all add: trapezoid_sum_def diff_divide_distrib)
qed simp

definition quad_finite :: "quadrature_sample \<Rightarrow> bool" where
  "quad_finite q \<longleftrightarrow> isfinite (qs_lateral q) \<and> isfinite (qs_rail q) \<and> isfinite (qs_overlap q) \<and> isfinite (qs_slope q)"

lemma wheel_jacobian_Fin: "quad_finite q \<Longrightarrow> wheel_jacobian q = Fin (jacobian_of q)"
  by (auto simp: quad_finite_def wheel_jacobian_def isfinite_iff not_less)

lemma trapezoid_Fin: "trapezoid (Fin a) (Fin h) (Fin u) (Fin v) = Fin (a + h * (v + u) / 2)"
  by (simp add: trapezoid_def)

lemma integrate_segment_Fin:
  assumes "quad_finite p" "quad_finite q"
  shows "integrate_segment \<lparr>in_area = Fin a, in_arc_width = Fin b, in_weighted_area = Fin c, in_lateral_moment = Fin d, in_vertical_moment = Fin e\<rparr> (p, q)
    = (let h = lateral_of q - lateral_of p
       in \<lparr>in_area = Fin (a + h * (overlap_of q + overlap_of p) / 2), in_arc_width = Fin (b + h * (jacobian_of q + jacobian_of p) / 2),
           in_weighted_area = Fin (c + h * (overlap_of q * jacobian_of q + overlap_of p * jacobian_of p) / 2),
           in_lateral_moment = Fin (d + h * (lateral_of q * overlap_of q + lateral_of p * overlap_of p) / 2),
           in_vertical_moment = Fin (e + h * (vertical_of q + vertical_of p) / 2)\<rparr>)"
proof -
  obtain x u o' k where p: "qs_lateral p = Fin x" "qs_rail p = Fin u" "qs_overlap p = Fin o'" "qs_slope p = Fin k"
    using assms(1) by (auto simp: quad_finite_def isfinite_iff)
  obtain x' u' o'' k' where q: "qs_lateral q = Fin x'" "qs_rail q = Fin u'" "qs_overlap q = Fin o''" "qs_slope q = Fin k'"
    using assms(2) by (auto simp: quad_finite_def isfinite_iff)
  have "vertical_moment_term p = Fin (vertical_of p)" "vertical_moment_term q = Fin (vertical_of q)"
    by (simp_all add: vertical_moment_term_def vertical_of_def p q Let_def)
  then show ?thesis
    using wheel_jacobian_Fin [OF assms(1)] wheel_jacobian_Fin [OF assms(2)]
    by (simp add: integrate_segment_def trapezoid_Fin p q Let_def)
qed

lemma integrate_samples_Fin:
  assumes "\<forall>q \<in> set qs. quad_finite q"
  shows "integrate_samples qs = \<lparr>in_area = Fin (trapezoid_sum overlap_of qs), in_arc_width = Fin (trapezoid_sum jacobian_of qs),
    in_weighted_area = Fin (trapezoid_sum (\<lambda>q. overlap_of q * jacobian_of q) qs),
    in_lateral_moment = Fin (trapezoid_sum (\<lambda>q. lateral_of q * overlap_of q) qs),
    in_vertical_moment = Fin (trapezoid_sum vertical_of qs)\<rparr>"
proof -
  define total where "total f prs = (\<Sum>(p, q) \<leftarrow> prs. (lateral_of q - lateral_of p) * (f q + f p) / 2)" for f prs
  have "foldl integrate_segment \<lparr>in_area = Fin a, in_arc_width = Fin b, in_weighted_area = Fin c, in_lateral_moment = Fin d, in_vertical_moment = Fin e\<rparr> prs
      = \<lparr>in_area = Fin (a + total overlap_of prs), in_arc_width = Fin (b + total jacobian_of prs),
         in_weighted_area = Fin (c + total (\<lambda>q. overlap_of q * jacobian_of q) prs),
         in_lateral_moment = Fin (d + total (\<lambda>q. lateral_of q * overlap_of q) prs), in_vertical_moment = Fin (e + total vertical_of prs)\<rparr>"
    if "\<forall>(p, q) \<in> set prs. quad_finite p \<and> quad_finite q" for a b c d e prs
    using that
  proof (induction prs arbitrary: a b c d e)
    case (Cons pair prs)
    obtain p q where pq: "pair = (p, q)" "quad_finite p" "quad_finite q" using Cons.prems by (cases pair) auto
    show ?case using Cons by (simp add: pq(1) integrate_segment_Fin [OF pq(2,3)] total_def add.assoc Let_def)
  qed (simp add: total_def)
  moreover have "\<forall>(p, q) \<in> set (zip qs (tl qs)). quad_finite p \<and> quad_finite q" using assms in_zip_tl by fastforce
  ultimately show ?thesis by (simp add: integrate_samples_def trapezoid_sum_def total_def)
qed

subsection \<open>The measures of an island fit together\<close>

definition swept_measures :: "real \<Rightarrow> real \<Rightarrow> sweep \<Rightarrow> real \<Rightarrow> bool" where
  "swept_measures l r s P \<longleftrightarrow> sw_penetration s = Fin P \<and> sw_deepest s < length (sw_samples s)
     \<and> (\<forall>q \<in> set (sw_samples s). quad_finite q \<and> 0 \<le> overlap_of q \<and> overlap_of q \<le> P \<and> l \<le> lateral_of q \<and> lateral_of q \<le> r)
     \<and> ascending (sw_samples s) \<and> sw_samples s \<noteq> []
     \<and> lateral_of (hd (sw_samples s)) = l \<and> lateral_of (last (sw_samples s)) = r"

lemma swept_is_measured:
  assumes s: "swept ks l r n n s" and n: "2 \<le> n" and lr: "l < r"
  shows "\<exists>P. swept_measures l r s P"
proof -
  define qs where "qs = sw_samples s"
  have len: "length qs = n" and quad: "\<And>j. j < n \<Longrightarrow> finite_quad (chord_station l r n j) (qs ! j)"
    and deep: "sw_deepest s < n" "qs_overlap (qs ! sw_deepest s) = sw_penetration s" "\<And>j. j < n \<Longrightarrow> qs_overlap (qs ! j) \<le> sw_penetration s"
    using s n by (auto simp: swept_def qs_def split: if_splits)
  have at: "qs_lateral (qs ! j) = Fin (chord_station l r n j)" if "j < n" for j using quad [OF that] by (simp add: finite_quad_def)
  obtain P where P: "sw_penetration s = Fin P" using quad [OF deep(1)] deep(2) by (auto simp: finite_quad_def isfinite_iff)
  have each: "quad_finite q \<and> 0 \<le> overlap_of q \<and> overlap_of q \<le> P \<and> l \<le> lateral_of q \<and> lateral_of q \<le> r" if q: "q \<in> set qs" for q
  proof -
    obtain j where j: "j < n" "q = qs ! j" using q len by (auto simp: in_set_conv_nth)
    then have fq: "finite_quad (chord_station l r n j) q" using quad by simp
    then obtain v where "qs_overlap q = Fin v" by (auto simp: finite_quad_def isfinite_iff)
    then show ?thesis using fq deep(3) [OF j(1)] j P chord_station_within [OF lr n j(1)]
      by (simp add: finite_quad_def quad_finite_def)
  qed
  have "ascending qs"
    unfolding ascending_def
  proof clarify
    fix p q
    assume "(p, q) \<in> set (zip qs (tl qs))"
    then obtain j where "j < length (tl qs)" "p = qs ! j" "q = tl qs ! j" by (auto simp: set_zip)
    then have j: "Suc j < n" "p = qs ! j" "q = qs ! Suc j" using len by (auto simp: nth_tl)
    then show "lateral_of p \<le> lateral_of q" using at [of j] at [of "Suc j"] chord_station_mono [OF lr n lessI, of j] by simp
  qed
  moreover have nonempty: "qs \<noteq> []" using len n by auto
  moreover have "lateral_of (hd qs) = l" "lateral_of (last qs) = r"
    using at [of 0] at [of "n - 1"] chord_station_ends [OF n, of l r] len n nonempty by (simp_all add: hd_conv_nth last_conv_nth)
  ultimately show ?thesis using P each deep(1) len unfolding swept_measures_def qs_def by auto
qed

text \<open>Area, widths and moments of a measured sweep.\<close>

definition measures_fit :: "real \<Rightarrow> real \<Rightarrow> real \<Rightarrow> integrals \<Rightarrow> bool" where
  "measures_fit l r P n \<longleftrightarrow> (\<exists>area arc weighted moment vertical. n = \<lparr>in_area = Fin area, in_arc_width = Fin arc,
      in_weighted_area = Fin weighted, in_lateral_moment = Fin moment, in_vertical_moment = Fin vertical\<rparr>
     \<and> 0 \<le> area \<and> area \<le> P * (r - l) \<and> r - l \<le> arc \<and> area \<le> weighted \<and> l * area \<le> moment \<and> moment \<le> r * area)"

lemma measured_integrals:
  assumes "swept_measures l r s P"
  shows "measures_fit l r P (integrate_samples (sw_samples s))"
proof -
  define qs where "qs = sw_samples s"
  have up: "ascending qs" and each: "\<And>q. q \<in> set qs \<Longrightarrow> quad_finite q \<and> 0 \<le> overlap_of q \<and> overlap_of q \<le> P \<and> l \<le> lateral_of q \<and> lateral_of q \<le> r"
    and fin: "\<forall>q \<in> set qs. quad_finite q" and one: "trapezoid_sum (\<lambda>_. 1) qs = r - l"
    using assms trapezoid_sum_one [of qs] by (auto simp: swept_measures_def qs_def)
  have scaled: "trapezoid_sum (\<lambda>_. c) qs = c * (r - l)" for c using trapezoid_sum_scaled [of c "\<lambda>_. 1" qs] one by simp
  have jacobian: "1 \<le> jacobian_of q" for q by simp
  have "0 \<le> trapezoid_sum overlap_of qs" using trapezoid_sum_mono [OF up, of "\<lambda>_. 0" overlap_of] each scaled [of 0] by simp
  moreover have "trapezoid_sum overlap_of qs \<le> P * (r - l)" using trapezoid_sum_mono [OF up, of overlap_of "\<lambda>_. P"] each scaled by simp
  moreover have "r - l \<le> trapezoid_sum jacobian_of qs" using trapezoid_sum_mono [OF up, of "\<lambda>_. 1" jacobian_of] one by simp
  moreover have "trapezoid_sum overlap_of qs \<le> trapezoid_sum (\<lambda>q. overlap_of q * jacobian_of q) qs"
    using each jacobian by (intro trapezoid_sum_mono [OF up]) (metis mult.right_neutral mult_left_mono)
  moreover have "l * trapezoid_sum overlap_of qs \<le> trapezoid_sum (\<lambda>q. lateral_of q * overlap_of q) qs"
    unfolding trapezoid_sum_scaled [symmetric] using each by (intro trapezoid_sum_mono [OF up] mult_right_mono) auto
  moreover have "trapezoid_sum (\<lambda>q. lateral_of q * overlap_of q) qs \<le> r * trapezoid_sum overlap_of qs"
    unfolding trapezoid_sum_scaled [symmetric] using each by (intro trapezoid_sum_mono [OF up] mult_right_mono) auto
  ultimately show ?thesis
    unfolding measures_fit_def qs_def [symmetric] integrate_samples_Fin [OF fin] by blast
qed

subsection \<open>A patch is finite and its measures fit\<close>

lemma interpolate_linear_finite:
  assumes n: "node_lists ks vs ds" "length ss = length ks"
  shows "isfinite (interpolate_linear (map Fin ks) (map Fin ss) (Fin x))"
proof -
  note d = node_listsD [OF n(1)]
  have ends: "map Fin ks ! 0 = Fin (ks ! 0)" "map Fin ks ! (length ks - Suc 0) = Fin (ks ! (length ks - 1))"
    "isfinite (map Fin ss ! 0)" "isfinite (map Fin ss ! (length ks - Suc 0))" using d n(2) by simp_all
  show ?thesis
  proof (cases "ks ! 0 < x \<and> x < ks ! (length ks - 1)")
    case False
    then show ?thesis using ends d(1,2) by (auto simp: interpolate_linear_def)
  next
    case True
    then obtain s where s: "Suc s < length ks" "ks ! s \<le> x" "x < ks ! Suc s" using segment_exists [OF n(1), of x] by auto
    have "locate_segment (map Fin ks) (Fin x) = s"
      using True ends upper_bound_between [OF d(5) s] by (simp add: locate_segment_def)
    moreover have "ks \<noteq> []" using d(2) by auto
    ultimately show ?thesis using True ends s n(2) spacing_pos [OF n(1) s(1)] d(2)
      by (simp add: interpolate_linear_def Let_def)
  qed
qed

definition patch_finite :: "contact_patch \<Rightarrow> bool" where
  "patch_finite p \<longleftrightarrow> all_finite [cp_common_normal_angle p, cp_rail_slope_angle p, cp_centroid_lateral p, cp_centroid_vertical p,
     cp_wheel_station p, cp_wheel_longitudinal p, cp_rolling_radius p, cp_vertical_penetration p, cp_normal_penetration p,
     cp_chord_width p, cp_arc_width p, cp_cross_section_area p, cp_arc_weighted_area p, cp_longitudinal_length p,
     cp_wheel_curvature p, cp_rail_curvature p, cp_reference_longitudinal p, cp_reference_lateral p, cp_reference_vertical p]"

text \<open>Depths, widths and areas of a patch over a rail from \<open>first\<close> to \<open>last_one\<close>.\<close>

definition patch_fits :: "double \<Rightarrow> double \<Rightarrow> double \<Rightarrow> contact_patch \<Rightarrow> bool" where
  "patch_fits epsilon first last_one p \<longleftrightarrow>
     epsilon < cp_vertical_penetration p \<and> 0 < cp_normal_penetration p \<and> cp_normal_penetration p \<le> cp_vertical_penetration p
   \<and> 0 < cp_chord_width p \<and> cp_chord_width p \<le> cp_arc_width p
   \<and> 0 < cp_cross_section_area p \<and> cp_cross_section_area p \<le> cp_vertical_penetration p * cp_chord_width p
   \<and> cp_cross_section_area p \<le> cp_arc_weighted_area p \<and> 0 \<le> cp_longitudinal_length p
   \<and> (centroid_divisor_floor \<le> cp_cross_section_area p \<longrightarrow> first \<le> cp_centroid_lateral p \<and> cp_centroid_lateral p \<le> last_one)"

lemma cosine_of_slope:
  fixes k :: real
  defines "v \<equiv> 1 / sqrt (1 + k * k)"
  shows "1 / std_sqrt (1 + Fin k * Fin k) = Fin v" "0 < v" "v \<le> 1"
proof -
  have pos: "0 < 1 + k * k" by (meson add_pos_nonneg zero_le_square zero_less_one)
  then show "1 / std_sqrt (1 + Fin k * Fin k) = Fin v" "0 < v" by (simp_all add: v_def)
  show "v \<le> 1" by (simp add: v_def divide_le_eq pos)
qed

lemma centroid_within:
  fixes area :: real
  assumes "l * area \<le> moment" "moment \<le> u * area" "1 / 10 ^ 20 \<le> area"
  shows "l \<le> moment / max area (1 / 10 ^ 20)" "moment / max area (1 / 10 ^ 20) \<le> u"
proof -
  have "0 < area" "max area (1 / 10 ^ 20) = area" using assms(3) by (simp_all add: max_def)
  then show "l \<le> moment / max area (1 / 10 ^ 20)" "moment / max area (1 / 10 ^ 20) \<le> u"
    using assms(1,2) by (simp_all add: pos_le_divide_eq pos_divide_le_eq)
qed

lemma positive_or_Fin: "isfinite v \<Longrightarrow> 0 < v \<Longrightarrow> positive_or v w = v"
  by (simp add: positive_or_def)

lemma clamp_unit_finite: "isfinite v \<Longrightarrow> isfinite (clamp_value v (- 1) 1)"
  by (auto simp: clamp_value_def isfinite_iff)

text \<open>Everything a patch takes from the surfaces and the pose is finite once its centroid and its deepest lateral are.\<close>

lemma patch_angles_finite:
  fixes y :: real
  assumes g: "real_solver g r" and pose: "finite_pose pose" and n: "node_lists ks vs ds" "length ss = length ks"
  defines "f \<equiv> pose_frame_of pose" and "rail \<equiv> gs_rail_surface g" and "wheel \<equiv> gs_wheel_surface g"
  defines "station \<equiv> interpolate_linear (map Fin ks) (map Fin ss) (Fin y)"
  defines "surface_angle \<equiv> std_atan (ip_first_derivative rail (Fin y))"
  defines "normal_angle \<equiv> std_atan2 (pf_yaw_cosine f * std_sin (surface_angle - ps_roll pose)) (std_cos (surface_angle - ps_roll pose))"
  shows "isfinite station" "isfinite (ip_evaluate wheel station)" "isfinite (surface_curvature wheel station)"
    "isfinite surface_angle" "isfinite normal_angle"
    "isfinite (clamp_value (- pf_yaw_tangent f * std_tan normal_angle) (- 1) 1)"
    "isfinite (curvature_from_slope rail (Fin y) (ip_first_derivative rail (Fin y)))"
proof -
  have surfaces: "real_interpolant rail (sr_rail r)" "\<exists>ws. real_interpolant wheel ws"
    using g by (simp_all add: real_solver_def rail_def wheel_def)
  then obtain ws where ws: "real_interpolant wheel ws" by blast
  show s: "isfinite station" unfolding station_def by (rule interpolate_linear_finite [OF n])
  then obtain u where u: "station = Fin u" by (auto simp: isfinite_iff)
  show "isfinite (ip_evaluate wheel station)" unfolding u by (rule interpolant_finite(1) [OF ws])
  show "isfinite (surface_curvature wheel station)"
    unfolding u surface_curvature_def by (intro curvature_finite [OF ws] interpolant_finite(2) [OF ws])
  show "isfinite (curvature_from_slope rail (Fin y) (ip_first_derivative rail (Fin y)))"
    by (intro curvature_finite [OF surfaces(1)] interpolant_finite(2) [OF surfaces(1)])
  show a: "isfinite surface_angle"
    using interpolant_finite(2) [OF surfaces(1), of y] by (auto simp: surface_angle_def isfinite_iff)
  obtain k where k: "surface_angle - ps_roll pose = Fin k"
    using a pose by (auto simp: finite_pose_def isfinite_iff)
  have frame: "finite_frame f" using finite_pose_frame [OF pose] by (simp add: f_def)
  obtain yaw where yaw: "pf_yaw_cosine f = Fin yaw" using frame by (auto simp: finite_frame_def isfinite_iff)
  have e: "normal_angle = std_atan2 (Fin (yaw * sin k)) (Fin (cos k))"
    unfolding normal_angle_def k yaw by simp
  show m: "isfinite normal_angle" unfolding e by simp
  obtain v tangent where "normal_angle = Fin v" "pf_yaw_tangent f = Fin tangent"
    using m frame by (auto simp: finite_frame_def isfinite_iff)
  then show "isfinite (clamp_value (- pf_yaw_tangent f * std_tan normal_angle) (- 1) 1)"
    by (intro clamp_unit_finite) simp
qed

text \<open>What an island leaves for its patch, when it leaves anything.\<close>

definition shape_fits :: "real \<Rightarrow> real \<Rightarrow> real \<Rightarrow> island_shape \<Rightarrow> bool" where
  "shape_fits eps first last_one sh \<longleftrightarrow> (\<exists>l u P. first \<le> l \<and> l < u \<and> u \<le> last_one \<and> sh_chord_width sh = Fin (u - l)
     \<and> swept_measures l u (sh_sweep sh) P \<and> eps < P \<and> measures_fit l u P (sh_integrals sh) \<and> 0 < in_area (sh_integrals sh))"

lemma shape_outcome:
  assumes g: "rail_ok g" "real_solver g r" and n: "node_lists ks vs ds" "length ss = length ks"
    and xs: "sorted_wrt (<) xs" "2 \<le> length xs" "length gs = length xs" "ks ! 0 \<le> xs ! 0" "xs ! (length xs - 1) \<le> ks ! (length ks - 1)"
    and span: "contact_span (in_contact (Fin (sr_epsilon r)) (map Fin gs)) (length xs) i"
    and sh: "shape_of_island g (envelope_of ks vs ss) (map Fin ds) (map Fin xs) (map Fin gs) i = Some sh"
  shows "shape_fits (sr_epsilon r) (xs ! 0) (xs ! (length xs - 1)) sh"
proof -
  have eps: "gc_epsilon (gs_configuration g) = Fin (sr_epsilon r)" and stations: "2 \<le> gc_stations (gs_configuration g)"
    and rail: "real_interpolant (gs_rail_surface g) (sr_rail r)" using g(2) by (simp_all add: real_solver_def)
  obtain l u where lu: "left_edge_of (Fin (sr_epsilon r)) (map Fin xs) (map Fin gs) (fst i) = Fin l"
      "right_edge_of (Fin (sr_epsilon r)) (map Fin xs) (map Fin gs) (snd i) = Fin u" "xs ! 0 \<le> l" "l < u" "u \<le> xs ! (length xs - 1)"
    using island_edges [OF xs(1-3) span] by blast
  have range: "ks ! 0 \<le> l" "u \<le> ks ! (length ks - 1)" using lu xs(4,5) by linarith+
  define s where "s = sweep_island g (envelope_of ks vs ss) (map Fin ds) (Fin l) (Fin u)"
  obtain P where P: "swept_measures l u s P"
    using swept_is_measured [OF sweep_island_swept [OF g(1) rail n refl stations lu(4) range] stations lu(4)] unfolding s_def by blast
  then have pen: "sw_penetration s = Fin P" by (simp add: swept_measures_def)
  have "sh = \<lparr>sh_chord_width = Fin (u - l), sh_sweep = s, sh_integrals = integrate_samples (sw_samples s)\<rparr> \<and> eps_ok
      \<and> 0 < in_area (integrate_samples (sw_samples s))" if "eps_ok \<longleftrightarrow> sr_epsilon r < P" for eps_ok
    using sh lu(4) that unfolding shape_of_island_def eps Let_def lu(1,2) Fin_minus s_def [symmetric] pen
    by (auto split: if_splits)
  from this [of "sr_epsilon r < P"] show ?thesis
    using lu P measured_integrals [OF P] unfolding shape_fits_def by auto
qed

lemma patch_outcome:
  assumes g: "rail_ok g" "real_solver g r" and side: "isfinite (gs_side_sign g)" and pose: "finite_pose pose"
    and n: "node_lists ks vs ds" "length ss = length ks"
    and sh: "shape_fits (sr_epsilon r) first last_one sh"
  shows "\<exists>p. patch_of_shape g pose (envelope_of ks vs ss) sh = Some p \<and> patch_finite p
    \<and> patch_fits (Fin (sr_epsilon r)) (Fin first) (Fin last_one) p"
proof -
  obtain l u P where lu: "first \<le> l" "l < u" "u \<le> last_one" "sh_chord_width sh = Fin (u - l)"
    and s: "swept_measures l u (sh_sweep sh) P" and P: "sr_epsilon r < P"
    and m: "measures_fit l u P (sh_integrals sh)" and area: "0 < in_area (sh_integrals sh)"
    using sh unfolding shape_fits_def by blast
  obtain A W B M V where N: "sh_integrals sh = \<lparr>in_area = Fin A, in_arc_width = Fin W, in_weighted_area = Fin B,
      in_lateral_moment = Fin M, in_vertical_moment = Fin V\<rparr>"
    and fit: "A \<le> P * (u - l)" "u - l \<le> W" "A \<le> B" "l * A \<le> M" "M \<le> u * A"
    using m unfolding measures_fit_def by blast
  have A: "0 < A" using area N by simp
  have Ppos: "0 < P" using fit(1) A lu(2) by (smt (verit) mult_nonpos_nonneg)
  define q where "q = sw_samples (sh_sweep sh) ! sw_deepest (sh_sweep sh)"
  have depth: "sw_penetration (sh_sweep sh) = Fin P" "sw_deepest (sh_sweep sh) < length (sw_samples (sh_sweep sh))"
    and "quad_finite q" using s by (auto simp: swept_measures_def q_def)
  then obtain d where d: "qs_lateral q = Fin d" by (auto simp: quad_finite_def isfinite_iff)
  have rail: "real_interpolant (gs_rail_surface g) (sr_rail r)" using g(2) by (simp add: real_solver_def)
  obtain k where k: "ip_first_derivative (gs_rail_surface g) (Fin d) = Fin k"
    using interpolant_finite(2) [OF rail, of d] by (auto simp: isfinite_iff)
  define v where "v = 1 / sqrt (1 + k * k)"
  note cosine = cosine_of_slope [of k, folded v_def]
  have slope: "\<not> 1 + k * k < 0" using zero_le_square [of k] by linarith
  define y where "y = M / max A (1 / 10 ^ 20)"
  have "0 < max A (1 / 10 ^ 20)" by simp
  then have y: "Fin M / std_max (Fin A) centroid_divisor_floor = Fin y"
    and z: "Fin V / std_max (Fin A) centroid_divisor_floor = Fin (V / max A (1 / 10 ^ 20))"
    by (simp_all add: centroid_divisor_floor_def y_def)
  note angles = patch_angles_finite [OF g(2) pose n, of y]
  obtain len where len: "resolve_longitudinal_length g (pose_frame_of pose) (map qs_station (sw_samples (sh_sweep sh))) (sw_deepest (sh_sweep sh)) = Some (Fin len)"
      "0 \<le> len"
  proof -
    from longest_of_all [OF g finite_pose_frame [OF pose], of "sw_deepest (sh_sweep sh)" "map qs_station (sw_samples (sh_sweep sh))"] depth(2)
    obtain chord where chord: "\<forall>i < length (sw_samples (sh_sweep sh)). 0 \<le> chord i"
        "resolve_longitudinal_length g (pose_frame_of pose) (map qs_station (sw_samples (sh_sweep sh))) (sw_deepest (sh_sweep sh))
          = Some (Fin (Max (chord ` {..<length (sw_samples (sh_sweep sh))})))" by auto
    have "0 \<le> chord (sw_deepest (sh_sweep sh))" "chord (sw_deepest (sh_sweep sh)) \<in> chord ` {..<length (sw_samples (sh_sweep sh))}"
      using chord(1) depth(2) by auto
    then have "0 \<le> Max (chord ` {..<length (sw_samples (sh_sweep sh))})" by (subst Max_ge_iff) auto
    then show thesis using that chord(2) by blast
  qed
  have knots: "ev_lateral (envelope_of ks vs ss) = map Fin ks" "ev_station (envelope_of ks vs ss) = map Fin ss"
    by (simp_all add: envelope_of_def)
  have widths: "positive_or (Fin W) (Fin (u - l)) = Fin W" "positive_or (Fin B) (Fin A) = Fin B"
    using fit(2,3) A lu(2) by (simp_all add: positive_or_Fin)
  obtain R C G where c: "gc_radius (gs_configuration g) = Fin R" "gc_cant (gs_configuration g) = Fin C" "gs_side_sign g = Fin G"
    using g(2) side by (auto simp: real_solver_def isfinite_iff)
  obtain x1 where x1: "interpolate_linear (map Fin ks) (map Fin ss) (Fin y) = Fin x1" using angles(1) by (auto simp: isfinite_iff)
  obtain x2 x3 where x23: "ip_evaluate (gs_wheel_surface g) (Fin x1) = Fin x2" "surface_curvature (gs_wheel_surface g) (Fin x1) = Fin x3"
    using angles(2,3) unfolding x1 isfinite_iff by blast
  obtain x4 where x4: "ip_first_derivative (gs_rail_surface g) (Fin y) = Fin x4"
    using interpolant_finite(2) [OF rail, of y] by (auto simp: isfinite_iff)
  obtain x5 where x5: "std_atan (Fin x4) = Fin x5" using angles(4) unfolding x4 isfinite_iff by blast
  obtain x6 where x6: "std_atan2 (pf_yaw_cosine (pose_frame_of pose) * std_sin (Fin x5 - ps_roll pose)) (std_cos (Fin x5 - ps_roll pose)) = Fin x6"
    using angles(5) unfolding x4 x5 isfinite_iff by blast
  obtain x7 where x7: "clamp_value (- pf_yaw_tangent (pose_frame_of pose) * std_tan (Fin x6)) (- 1) 1 = Fin x7"
    using angles(6) unfolding x4 x5 x6 isfinite_iff by blast
  obtain x8 where x8: "curvature_from_slope (gs_rail_surface g) (Fin y) (Fin x4) = Fin x8"
    using angles(7) unfolding x4 isfinite_iff by blast
  define p where "p = \<lparr>cp_common_normal_angle = Fin x6, cp_rail_slope_angle = Fin (x5 + G * C), cp_centroid_lateral = Fin y,
    cp_centroid_vertical = Fin (V / max A (1 / 10 ^ 20)), cp_wheel_station = Fin x1, cp_wheel_longitudinal = Fin ((R + x2) * x7),
    cp_rolling_radius = Fin (R + x2), cp_vertical_penetration = Fin P, cp_normal_penetration = Fin (P * v), cp_chord_width = Fin (u - l),
    cp_arc_width = Fin W, cp_cross_section_area = Fin A, cp_arc_weighted_area = Fin B, cp_longitudinal_length = Fin len,
    cp_wheel_curvature = Fin x3, cp_rail_curvature = Fin x8, cp_reference_longitudinal = 0, cp_reference_lateral = 0, cp_reference_vertical = 0\<rparr>"
  have "patch_of_shape g pose (envelope_of ks vs ss) sh = Some p"
    unfolding patch_of_shape_def Let_def N integrals.simps y z knots q_def [symmetric] d k len(1) depth(1) lu(4) widths c
      x1 x23 x4 x5 x6 x7 x8 Fin_add Fin_times cosine(1) [unfolded Fin_times] option.map p_def ..
  moreover have "patch_finite p" by (simp add: patch_finite_def p_def)
  moreover have "P * v \<le> P" "0 < P * v" using Ppos cosine(2,3) by (simp_all add: mult_le_cancel_left1)
  moreover have "first \<le> y \<and> y \<le> last_one" if "1 / 10 ^ 20 \<le> A"
    using centroid_within [OF fit(4,5) that] lu(1,3) unfolding y_def by linarith
  ultimately show ?thesis
    using lu(2) fit A P len(2) by (intro exI [of _ p]) (simp add: patch_fits_def p_def centroid_divisor_floor_def)
qed

text \<open>The reference point adds finite entries and touches nothing else.\<close>

lemma reference_outcome:
  assumes g: "real_solver g r" and pose: "finite_pose pose" and p: "patch_finite p" "patch_fits e first last_one p"
  defines "q \<equiv> set_rail_reference g (pose_frame_of pose) p"
  shows "patch_finite q" "patch_fits e first last_one q" "cp_centroid_lateral q = cp_centroid_lateral p"
proof -
  have rail: "real_interpolant (gs_rail_surface g) (sr_rail r)" using g by (simp add: real_solver_def)
  have "finite_frame (pose_frame_of pose)" using finite_pose_frame [OF pose] .
  then obtain a b c d o' where f: "pf_yaw_sine (pose_frame_of pose) = Fin a" "pf_yaw_cosine (pose_frame_of pose) = Fin b"
      "pf_roll_cosine (pose_frame_of pose) = Fin c" "pf_roll_sine (pose_frame_of pose) = Fin d" "pf_lateral_offset (pose_frame_of pose) = Fin o'"
    by (auto simp: finite_frame_def isfinite_iff)
  obtain x y z R where v: "cp_wheel_longitudinal p = Fin x" "cp_wheel_station p = Fin y" "cp_rolling_radius p = Fin z"
      "gc_radius (gs_configuration g) = Fin R"
    using p(1) g by (auto simp: patch_finite_def isfinite_iff real_solver_def)
  show "patch_finite q" using p(1) interpolant_finite(1) [OF rail] by (simp add: q_def set_rail_reference_def patch_finite_def f v Let_def)
  show "patch_fits e first last_one q" using p(2) by (simp add: q_def set_rail_reference_def patch_fits_def Let_def)
  show "cp_centroid_lateral q = cp_centroid_lateral p" by (simp add: q_def set_rail_reference_def Let_def)
qed

lemma collect_outcome:
  assumes step: "\<And>i sh. i \<in> set islands \<Longrightarrow> shape_of_island g env slopes grid gaps i = Some sh
      \<Longrightarrow> \<exists>p. patch_of_shape g pose env sh = Some p \<and> good p"
    and found: "\<forall>p \<in> set found. good p" "length found \<le> max_contact_patches"
  shows "\<exists>ps. collect_patches g pose env slopes grid gaps islands found = Some ps \<and> (\<forall>p \<in> set ps. good p)
    \<and> length ps \<le> max_contact_patches \<and> length ps \<le> length found + length islands"
  using assms
proof (induction islands arbitrary: found)
  case (Cons i islands)
  show ?case
  proof (cases "max_contact_patches \<le> length found")
    case True
    then show ?thesis using Cons.prems(2,3) by simp
  next
    case room: False
    show ?thesis
    proof (cases "shape_of_island g env slopes grid gaps i")
      case None
      then show ?thesis using Cons.IH [of found] Cons.prems room by (fastforce intro: le_SucI)
    next
      case (Some sh)
      obtain p where p: "patch_of_shape g pose env sh = Some p" "good p" using Cons.prems(1) [OF _ Some] by auto
      have "\<exists>ps. collect_patches g pose env slopes grid gaps islands (found @ [p]) = Some ps \<and> (\<forall>p \<in> set ps. good p)
          \<and> length ps \<le> max_contact_patches \<and> length ps \<le> length (found @ [p]) + length islands"
        using Cons.prems p(2) room by (intro Cons.IH) auto
      then show ?thesis using p(1) room Some by auto
    qed
  qed
qed simp

subsection \<open>What a solve returns\<close>

text \<open>\<open>std::sort\<close> by centroid: a rearrangement in which no patch comes after one farther to the right.\<close>

definition sorts_by_centroid :: "(contact_patch list \<Rightarrow> contact_patch list) \<Rightarrow> bool" where
  "sorts_by_centroid arrange \<longleftrightarrow> (\<forall>ps. (\<forall>p \<in> set ps. isfinite (cp_centroid_lateral p)) \<longrightarrow>
     mset (arrange ps) = mset ps \<and> sorted_wrt (\<lambda>p q. cp_centroid_lateral p \<le> cp_centroid_lateral q) (arrange ps))"

text \<open>The patches a caller can rely on.\<close>

definition patches_fit :: "geometry_solver \<Rightarrow> contact_patch_set \<Rightarrow> bool" where
  "patches_fit g t \<longleftrightarrow>
     (\<forall>p \<in> set (pt_patches t). patch_finite p
        \<and> patch_fits (gc_epsilon (gs_configuration g)) (hd (srp_lateral (gs_rail_side g))) (last (srp_lateral (gs_rail_side g))) p)
   \<and> sorted_wrt (\<lambda>p q. cp_centroid_lateral p \<le> cp_centroid_lateral q) (pt_patches t)
   \<and> length (pt_patches t) \<le> max_contact_patches \<and> length (pt_patches t) \<le> pt_merged_islands t
   \<and> pt_merged_islands t \<le> pt_islands t \<and> pt_islands t \<le> max_contact_islands"

lemma no_patches_fit: "patches_fit g no_patches"
  by (simp add: patches_fit_def no_patches_def)

lemma merged_spans:
  assumes "runs_found p n found" "merged_clusters joined found clusters"
  shows "length clusters \<le> length found"
proof -
  have ne: "\<forall>cluster \<in> set clusters. cluster \<noteq> []" and "concat clusters = found" using assms(2) by (simp_all add: merged_clusters_def)
  have "length clusters \<le> length (concat clusters)" if "\<forall>cluster \<in> set clusters. cluster \<noteq> []" for clusters :: "island list list"
    using that
  proof (induction clusters)
    case (Cons x xs)
    then have "1 \<le> length x" by (cases x) auto
    moreover have "length xs \<le> length (concat xs)" using Cons by simp
    ultimately show ?case by simp
  qed simp
  then show ?thesis using ne \<open>concat clusters = found\<close> by blast
qed

lemma patch_fits_wider:
  "patch_fits e (Fin a) (Fin b) p \<Longrightarrow> patch_finite p \<Longrightarrow> c \<le> a \<Longrightarrow> b \<le> d \<Longrightarrow> patch_fits e (Fin c) (Fin d) p"
  by (cases "cp_centroid_lateral p") (auto simp: patch_fits_def patch_finite_def)

lemma patches_of_envelope_outcome:
  assumes g: "rail_ok g" "real_solver g r" and side: "isfinite (gs_side_sign g)" and tolerance: "Fin (- sr_merge r) < largest_double"
    and pose: "finite_pose pose" and arrange: "sorts_by_centroid arrange" and env: "increasing_envelope env"
  shows "\<exists>t. patches_of_envelope arrange g pose env = Some t \<and> patches_fit g t"
proof -
  obtain ks vs ss where e: "env = envelope_of ks vs ss" "increasing_reals ks" "length vs = length ks" "length ss = length ks"
    using env unfolding increasing_envelope_def by blast
  have fields: "ev_lateral env = map Fin ks" "ev_vertical env = map Fin vs" by (simp_all add: e(1) envelope_of_def)
  define rs where "rs = sr_rail r"
  have rail: "srp_lateral (gs_rail_side g) = map Fin rs" "3 \<le> length rs" "increasing_reals rs" "real_interpolant (gs_rail_surface g) rs"
    and cfg: "gc_epsilon (gs_configuration g) = Fin (sr_epsilon r)" "gc_merge_tolerance (gs_configuration g) = Fin (sr_merge r)"
    using g(2) by (simp_all add: real_solver_def rs_def)
  then have rs: "rs \<noteq> []" by auto
  show ?thesis
  proof (cases "length ks < 3")
    case True
    then show ?thesis by (simp add: patches_of_envelope_def fields no_patches_fit Let_def)
  next
    case False
    then have long: "2 \<le> length ks" "ks \<noteq> []" by auto
    define low high where "low = max (ks ! 0) (hd rs)" and "high = min (ks ! (length ks - 1)) (last rs)"
    have range: "overlap_range (map Fin ks) (map Fin rs) = (Fin low, Fin high)"
      using long rs by (simp add: overlap_range_def low_def high_def hd_map last_map)
    obtain xs ds where xs: "shared_grid (map Fin ks) (map Fin rs) (Fin low) (Fin high) = map Fin xs" "sorted_wrt (<) xs"
        "set xs = {x \<in> set ks \<union> set rs. low \<le> x \<and> x \<le> high}" "\<forall>x \<in> set xs. ks ! 0 \<le> x \<and> x \<le> ks ! (length ks - 1)"
      and ds: "node_lists ks vs ds" "shape_preserving_slopes (map Fin ks) (map Fin vs) = map Fin ds"
      and gaps: "scan_gaps g (envelope_of ks vs ss) (map Fin ds) 0 0 (map Fin xs)
        = map (\<lambda>x. ip_evaluate (node_interpolant ks vs ds ZeroOutsideKnots) (Fin x) - ip_evaluate (gs_rail_surface g) (Fin x)) xs"
      using gaps_outcome [OF g(1) rail(1,3) rs e(2,3) long(1) range, of ss] by blast
    define gs where "gs = map (\<lambda>x. to_real (ip_evaluate (node_interpolant ks vs ds ZeroOutsideKnots) (Fin x) - ip_evaluate (gs_rail_surface g) (Fin x))) xs"
    have "real_interpolant (node_interpolant ks vs ds ZeroOutsideKnots) ks" using ds(1) by (auto simp: real_interpolant_def)
    note finite_here = interpolant_finite(1) [OF this] interpolant_finite(1) [OF rail(4)]
    have real_gaps: "scan_gaps g (envelope_of ks vs ss) (map Fin ds) 0 0 (map Fin xs) = map Fin gs"
      unfolding gaps gs_def using finite_here by (auto simp: isfinite_iff) (metis Fin_minus to_real.simps)
    define found where "found = scan_islands (Fin (sr_epsilon r)) 0 None [] (map Fin gs)"
    define p where "p = in_contact (Fin (sr_epsilon r)) (map Fin gs)"
    have len: "length gs = length xs" by (simp add: gs_def)
    obtain clusters where runs: "runs_found p (length xs) found"
      and clusters: "merged_clusters (shallow (Fin (sr_merge r)) (map Fin gs)) found clusters"
        "merged_islands (Fin (sr_merge r)) (map Fin gs) found = map spanned clusters"
      using islands_outcome [of "map Fin gs" "sr_merge r" "Fin (sr_epsilon r)"] tolerance len
      by (auto simp: found_def p_def)
    have short: "\<not> (length ks < 3 \<or> length rs < 3)" using False rail(2) by simp
    have whole: "patches_of_envelope arrange g pose env = (if high \<le> low \<or> length xs < 3 \<or> found = [] then Some no_patches
      else map_option (\<lambda>patches. \<lparr>pt_patches = map (set_rail_reference g (pose_frame_of pose)) (arrange patches),
          pt_islands = length found, pt_merged_islands = length clusters\<rparr>)
        (collect_patches g pose env (map Fin ds) (map Fin xs) (map Fin gs) (map spanned clusters) []))"
      unfolding patches_of_envelope_def Let_def fields rail(1) range xs(1) ds(2) real_gaps [folded e(1)] cfg found_def [symmetric]
        clusters(2) length_map if_not_P [OF short] prod.case Fin_le
      by simp
    show ?thesis
    proof (cases "high \<le> low \<or> length xs < 3 \<or> found = []")
      case True
      then show ?thesis
        unfolding whole using no_patches_fit by auto
    next
      case some: False
      then have two: "2 \<le> length xs" "xs \<noteq> []" by auto
      then have ends: "xs ! 0 \<in> set xs" "xs ! (length xs - 1) \<in> set xs" by simp_all
      have "low \<le> x" "x \<le> high" if "x \<in> set xs" for x using that unfolding xs(3) by simp_all
      from this [OF ends(1)] this [OF ends(2)] have "hd rs \<le> xs ! 0" "xs ! (length xs - 1) \<le> last rs" by (simp_all add: low_def high_def)
      then have inside: "ks ! 0 \<le> xs ! 0" "xs ! (length xs - 1) \<le> ks ! (length ks - 1)" "hd rs \<le> xs ! 0" "xs ! (length xs - 1) \<le> last rs"
        using bspec [OF xs(4) ends(1)] bspec [OF xs(4) ends(2)] by blast+
      define good where "good q \<longleftrightarrow> patch_finite q \<and> patch_fits (Fin (sr_epsilon r)) (Fin (hd rs)) (Fin (last rs)) q" for q
      have step: "\<exists>q. patch_of_shape g pose env sh = Some q \<and> good q"
        if i: "i \<in> set (map spanned clusters)"
          and sh: "shape_of_island g env (map Fin ds) (map Fin xs) (map Fin gs) i = Some sh" for i sh
      proof -
        have span: "contact_span p (length xs) i" using spanned_span [OF runs clusters(1) i] .
        have "shape_fits (sr_epsilon r) (xs ! 0) (xs ! (length xs - 1)) sh"
          by (rule shape_outcome [OF g ds(1) e(4) xs(2) two(1) len inside(1,2) span [unfolded p_def] sh [unfolded e(1)]])
        from patch_outcome [OF g side pose ds(1) e(4) this] show ?thesis
          using patch_fits_wider [OF _ _ inside(3,4)] unfolding e(1) good_def by blast
      qed
      obtain ps where ps: "collect_patches g pose env (map Fin ds) (map Fin xs) (map Fin gs) (map spanned clusters) [] = Some ps"
          "\<forall>q \<in> set ps. good q" "length ps \<le> max_contact_patches" "length ps \<le> length clusters"
        using collect_outcome [of "map spanned clusters" g env "map Fin ds" "map Fin xs" "map Fin gs" pose good "[]"] step by auto
      define t where "t = \<lparr>pt_patches = map (set_rail_reference g (pose_frame_of pose)) (arrange ps),
          pt_islands = length found, pt_merged_islands = length clusters\<rparr>"
      have solved: "patches_of_envelope arrange g pose env = Some t"
        unfolding whole using some by (simp add: ps(1) t_def)
      have "\<forall>q \<in> set ps. isfinite (cp_centroid_lateral q)" using ps(2) by (simp add: good_def patch_finite_def)
      then have a: "mset (arrange ps) = mset ps" "sorted_wrt (\<lambda>p q. cp_centroid_lateral p \<le> cp_centroid_lateral q) (arrange ps)"
        using arrange unfolding sorts_by_centroid_def by blast+
      then have same: "set (arrange ps) = set ps" "length (arrange ps) = length ps" by (metis mset_eq_setD, metis mset_eq_length)
      have reference: "patch_finite (set_rail_reference g (pose_frame_of pose) q)
          \<and> patch_fits (Fin (sr_epsilon r)) (Fin (hd rs)) (Fin (last rs)) (set_rail_reference g (pose_frame_of pose) q)
          \<and> cp_centroid_lateral (set_rail_reference g (pose_frame_of pose) q) = cp_centroid_lateral q" if "q \<in> set ps" for q
        using reference_outcome [OF g(2) pose] ps(2) that unfolding good_def by blast
      have "sorted_wrt (\<lambda>p q. cp_centroid_lateral p \<le> cp_centroid_lateral q) (pt_patches t)"
        unfolding t_def contact_patch_set.simps sorted_wrt_map
        by (rule sorted_wrt_mono_rel [OF _ a(2)]) (use reference same in auto)
      then have "patches_fit g t"
        using reference same ps(3,4) merged_spans [OF runs clusters(1)] runs rs
        by (auto simp: patches_fit_def t_def cfg rail(1) hd_map last_map runs_found_def)
      then show ?thesis using solved by blast
    qed
  qed
qed

subsection \<open>Properties\<close>

lemma accepted_solver_fields:
  assumes "make_geometry_solver wheel rail side rescan c = Some (Inr g)"
  shows "gs_configuration g = c" "isfinite (gs_side_sign g)"
  using assms by (auto simp: make_geometry_solver_def bind_eq_Some_conv bindS_eq_Inr Let_def geometry_solver_of_def)

lemma envelope_same:
  assumes "real_solver g r" "finite_pose pose" "generations_ok w" "laterals_representable (project_outline g (pose_frame_of pose))"
  shows "fst (solve_envelope g (pose_frame_of pose) w) = fst (solve_envelope g (pose_frame_of pose) new_workspace)"
  using solve_envelope_outcome [OF assms(1,2,3,4)] solve_envelope_outcome [OF assms(1,2) new_workspace_ok assms(4)] envelope_picks_unique
  by metis

text \<open>A solve of an accepted solver under a finite pose, once the bins are known to suffice.\<close>

lemma geometry_solve_envelope:
  assumes "real_solver g r" "finite_pose pose" "generations_ok w" "laterals_representable (project_outline g (pose_frame_of pose))"
  shows "geometry_solve arrange g pose w = map_option (\<lambda>t. (Inr t, snd (solve_envelope g (pose_frame_of pose) w)))
    (patches_of_envelope arrange g pose (fst (solve_envelope g (pose_frame_of pose) w)))"
proof -
  define samples where "samples = project_outline g (pose_frame_of pose)"
  define e where "e = outline_extent samples"
  have "le_valid e = length samples" "bin_count_of g e \<le> gs_bin_capacity g"
    using solve_envelope_outcome [OF assms] by (simp_all add: samples_def e_def)
  moreover have "length samples \<noteq> 0" using assms(1) by (auto simp: samples_def project_outline_def real_solver_def)
  ultimately have "le_valid e \<noteq> 0" "\<not> gs_bin_capacity g < bin_count_of g e" by simp_all
  then show ?thesis
    by (simp add: geometry_solve_def solve_envelope_def Let_def samples_def [symmetric] e_def [symmetric] split: prod.split)
qed

text \<open>A solve returns, and what it returns fits together.  For an accepted solver, a finite pose under which every lateral is a number of
  the machine, a usable workspace and any implementation of the sort, a solve ends without an exception; its patches are at most 16 and
  no more than the merged islands, ordered by centroid; every number of a patch is finite; its depth exceeds epsilon and bounds its depth
  along the normal; its arc is no shorter than its chord, its area no greater than depth times chord and no greater than the arc-weighted
  area, and its centroid lies over the rail unless the area is below the divisor floor.  The same patches come out of a new
  workspace, and the workspace stays usable.\<close>
theorem solve_patches_fit:
  assumes "make_geometry_solver wheel rail side rescan c = Some (Inr g)" "finite_pose pose" "generations_ok w"
    and "laterals_representable (project_outline g (pose_frame_of pose))" "- gc_merge_tolerance c < largest_double"
    and "sorts_by_centroid arrange"
  shows "\<exists>t w' v. geometry_solve arrange g pose w = Some (Inr t, w') \<and> patches_fit g t \<and> generations_ok w'
    \<and> geometry_solve arrange g pose new_workspace = Some (Inr t, v)"
proof -
  obtain r where r: "real_solver g r" using accepted_geometry [OF assms(1)] by blast
  note fields = accepted_solver_fields [OF assms(1)]
  have tolerance: "Fin (- sr_merge r) < largest_double"
    using assms(5) r by (simp add: real_solver_def fields(1) [symmetric])
  have "increasing_envelope (fst (solve_envelope g (pose_frame_of pose) w))" "generations_ok (snd (solve_envelope g (pose_frame_of pose) w))"
    using solve_envelope_outcome [OF r assms(2-4)] by blast+
  with patches_of_envelope_outcome [OF rail_okI [OF assms(1)] r fields(2) tolerance assms(2,6)]
  obtain t where "patches_of_envelope arrange g pose (fst (solve_envelope g (pose_frame_of pose) w)) = Some t" "patches_fit g t"
    "generations_ok (snd (solve_envelope g (pose_frame_of pose) w))" by blast
  then show ?thesis
    using envelope_same [OF r assms(2-4)]
    unfolding geometry_solve_envelope [OF r assms(2-4)] geometry_solve_envelope [OF r assms(2) new_workspace_ok assms(4)] by auto
qed

definition sort_by_centroid :: "contact_patch list \<Rightarrow> contact_patch list" where
  "sort_by_centroid ps = sort_key (\<lambda>p. to_real (cp_centroid_lateral p)) ps"

lemma sort_by_centroid_sorts: "sorts_by_centroid sort_by_centroid"
  unfolding sorts_by_centroid_def
proof (intro allI impI conjI)
  fix ps :: "contact_patch list"
  assume fin: "\<forall>p \<in> set ps. isfinite (cp_centroid_lateral p)"
  show "mset (sort_by_centroid ps) = mset ps" by (simp add: sort_by_centroid_def)
  have "sorted_wrt (\<lambda>p q. to_real (cp_centroid_lateral p) \<le> to_real (cp_centroid_lateral q)) (sort_by_centroid ps)"
    using sorted_sort_key [of "\<lambda>p. to_real (cp_centroid_lateral p)" ps] by (simp add: sort_by_centroid_def sorted_map)
  then show "sorted_wrt (\<lambda>p q. cp_centroid_lateral p \<le> cp_centroid_lateral q) (sort_by_centroid ps)"
  proof (rule sorted_wrt_mono_rel [rotated])
    fix p q
    assume pq: "p \<in> set (sort_by_centroid ps)" "q \<in> set (sort_by_centroid ps)"
      "to_real (cp_centroid_lateral p) \<le> to_real (cp_centroid_lateral q)"
    then have "isfinite (cp_centroid_lateral p)" "isfinite (cp_centroid_lateral q)" using fin by (simp_all add: sort_by_centroid_def)
    then obtain x y where "cp_centroid_lateral p = Fin x" "cp_centroid_lateral q = Fin y" by (auto simp: isfinite_iff)
    then show "cp_centroid_lateral p \<le> cp_centroid_lateral q" using pq(3) by simp
  qed
qed

theorem solve_patches_fit_witness:
  "\<exists>g t w'. crown_solver = Some (Inr g) \<and> geometry_solve sort_by_centroid g crown_pose used_workspace = Some (Inr t, w')
    \<and> patches_fit g t"
proof -
  obtain g where g: "crown_solver = Some (Inr g)" using crown_solver_accepted by blast
  have w: "generations_ok used_workspace" by (simp add: generations_ok_def used_workspace_def)
  have c: "- gc_merge_tolerance crown_configuration < largest_double"
    by (simp add: crown_configuration_def largest_double_def)
  from solve_patches_fit [OF g [unfolded crown_solver_def] crown_pose_finite w crown_representable [OF g] c sort_by_centroid_sorts]
  show ?thesis using g by blast
qed

end
