(* ===== verification/Spec2Isabelle.thy ===== *)
theory Spec2Isabelle
  imports Scene_Stream Cache_Slot Trial_Independence System_Advancer Cruise_Session Contact_Patches
begin

text \<open>
  OpenRailVehicleDynamics is a multibody simulator of rail vehicles in C++.  A runtime context holds the state of a
  vehicle system: coordinates and velocities of a rigid-body tree, forces of series spring-dampers, held actuator torques
  and the history of the wheel-rail projection.  A compiled plan evaluates the time derivatives of that state from
  vehicle forces, wheel-rail contact and held torques; integrators advance an accepted context in time; a stream sends
  the observed scene to a viewer.  This development models the parts of \<open>src/libs\<close> in which the program's own logic
  is transactional, stateful or algebraic, and proves what makes them correct.

  Parts, theories and code.

  \<^item> \<open>Orvd_Prelude\<close>: outcomes (\<open>exn + 'a\<close>, an exception class on the left), effects on a state that survive an
    exception, lists of checks, segments of vectors, and the rules the other theories share.
  \<^item> \<open>Binary64\<close>: the type \<open>double\<close> of IEEE values and the functions of \<open>cmath\<close> the code uses.
  \<^item> \<open>Multibody_State\<close>, \<open>Cache_Slot\<close>: \<open>libs/multibody_runtime\<close>.  The record \<open>mstate\<close> is
    \<open>MultibodyStateInstance\<close> with its layout, parameters and version numbers; slots, snapshots and the evaluation
    protocol of versioned caches.  Invariant of every setter, atomic failure, no reuse of version numbers,
    transparency of caches, aliasing of q and v.
  \<^item> \<open>Multibody_Model\<close>: \<open>libs/multibody_model\<close>, the ownership and validity gates in front of the rigid tree:
    handles, contexts, state writes, coordinate-rate maps, applied wrenches, derivative evaluation, kinematic queries.
  \<^item> \<open>Vehicle_Forces\<close>: \<open>libs/forces\<close>, the five families of vehicle force elements and the active torques of
    independent wheels.  Every evaluation is in equilibrium; curves are odd, passive and bounded.
  \<^item> \<open>System_Assembly\<close>: \<open>libs/system_assembly\<close>, descriptions, system instances, runtime contexts and their
    writes, the compiled plan.  The locale \<open>context_write\<close> is the contract of every write; each write interprets it.
  \<^item> \<open>Coordinate_Core\<close>, \<open>Newmark_Core\<close>, \<open>Zhai_Core\<close>, \<open>Newmark_Layout\<close>: the numerical cores of
    \<open>libs/integrators\<close>, with the storage they share and the expansion of Newton scales.  Accepted steps satisfy the
    formulas; rejected, failing and interrupted steps leave the accepted state.
  \<^item> \<open>Coordinate_Advancer\<close>: \<open>basic_coordinate_advancer.h\<close> and its step policies.  The locale
    \<open>numerical_method\<close> is the contract of the template's parameters, interpreted by both methods.
  \<^item> \<open>System_Coordinate_Problem\<close>, \<open>Trial_Independence\<close>: the bridge from the cores to the physical system
    (\<open>system_coordinate_problem.cc\<close>, \<open>system_rhs_bridge.cc\<close>).  Import and export are inverse, projections and
    interpolations keep quaternion norms, and the callbacks forget what earlier ones left in the contexts they overwrite -
    which is why the cores may treat the problem as a record of functions.
  \<^item> \<open>System_Advancer\<close>: the public advance (\<open>system_continuous_state_advancer.cc\<close>) over the coordinate runtimes.
    The locale \<open>continuous_state_backend\<close> is its contract with a backend; the locale \<open>borrowing_method\<close> extends
    \<open>numerical_method\<close> by the re-seating of the borrowed problem and is a sublocale instance of that contract.
  \<^item> \<open>Sampled_Control\<close>, \<open>Wheel_Speed_Guidance\<close>: \<open>libs/control\<close>, the anti-windup PI channel and the cruise
    controller, and the full-state guidance of independent wheels with its frozen base reference.  Outputs are bounded on
    every sample of a run, integrators are clamped, the base reference is nondecreasing.
  \<^item> \<open>Drive_Torque\<close>: \<open>libs/actuation\<close>, the signed torque conditioner with its slew limit and the time sharing at a
    zero crossing.  Channels stay within their envelopes and reach a held target.
  \<^item> \<open>Event_Session\<close>, \<open>Cruise_Session\<close>: the event sessions of \<open>libs/configuration\<close>, which fire a sampled
    controller at multiples of its period between continuous advances.  The locale \<open>event_session\<close> is the contract
    of an initial and a periodic event; its phases form the step relation \<open>session_step\<close>.
  \<^item> \<open>Spatial_Math\<close>: vectors, rotations and elementary functions of \<open>double\<close>.
  \<^item> \<open>Monotone_Interpolant\<close>, \<open>Natural_Spline\<close>: the two curves of \<open>libs/wheel_rail_contact\<close>.  One preserves the
    shape of its data, the other solves for two continuous derivatives; hints of a search never change a value.
  \<^item> \<open>Profile_Points\<close>: authored and side-resolved profiles, the gauge datum of a rail, irregularity channels.  The
    two sides of a profile are mirror images; a channel is supported on its own stations.
  \<^item> \<open>Contact_Kinematics\<close>: angles, creepages, wrenches and the pose of a wheel over its rail.  Each resolution is
    shown to invert what it resolves.
  \<^item> \<open>Normal_Contact\<close>, \<open>Kalker_Table\<close>, \<open>Tangential_Contact\<close>: the contact forces of one patch.  Both iterations of the
    normal law end by their tolerance and no result of it pulls; a coefficient lookup is refused exactly where documented and
    is positive elsewhere; the layout of strips tiles the contact ellipse, and the force marched over it is odd in the creepages
    and bounded by the friction the cells can carry.
  \<^item> \<open>Wheel_Preparation\<close>: arc length of a profile and control nodes at equal arc length; the loop over the nodes ends with
    the stations the step asks for.
  \<^item> \<open>Contact_Solver\<close>, \<open>Longitudinal_Length\<close>, \<open>Contact_Envelope\<close>, \<open>Contact_Islands\<close>, \<open>Contact_Patches\<close>:
    \<open>contact_geometry.cc\<close>.
    Construction of the solver, the length of a contact along the track (neither screening nor hints change it), the envelope
    of the projected wheel outline (the same in a used workspace as in a new one) and the search for the islands in which the
    wheel overlaps the rail (exactly the maximal runs of contact), the patch of every island and the whole solve (it returns
    finite patches in order of their centroids whose depths, widths and areas fit together).
  \<^item> \<open>Scene_Stream\<close>: \<open>libs/scene_stream\<close>, the payload codec and the datagrams over lists of 8-bit words.

  How they interact.  An advance of an accepted context asks the backend for internal steps; a backend is a coordinate
  advancer on a numerical core; the core evaluates the coordinate problem, which writes a trial state into the candidate
  context (shared with the advancer, modelled by \<open>bo_rebind\<close>) and evaluates the compiled plan there; the plan's
  forces read the multibody context through the gates of the model, whose caches are keyed by state versions.  An event
  session runs between advances: an event observes the accepted context, samples the controller, conditions the demand,
  writes held torques into the context, and commits the software state only after the last step that may throw.

  Conventions.  A function that may throw returns \<open>exn + 'a\<close>; a member that changes its object is an
  \<open>effect\<close>, so that what is written before a throw stays visible.  Diagnostic texts are dropped, exception classes
  and reason codes are kept.  Spans become list arguments with the size that is checked; where the code guards
  against overlapping storage, the overlap is an argument (\<open>vec_ref\<close>).  64-bit counters and indices are words, also
  where they wrap; 32-bit sizes checked by the code are integers with the checks written out.

  Idealisation.  Finite doubles carry exact reals: rounding, overflow to infinity and signed zeros of arithmetic are not
  modelled, except where the code works on the representation (bit patterns of the codec, the time grid's spacing).
  Infinities and NaN are values, and every finiteness check of the code is in the model.  Transcendental functions are
  those of the reals.  Decimal literals of the code such as 0.01 stand for
  the decimal number; \<open>numbers::pi\<close> is the double it names.

  Bounds.  Newton iterations are bounded by the configuration, so the loop is recursive on the remaining number.  The
  retry loop and the loop over internal steps are partial functions of the option type, where \<open>None\<close> would be
  divergence; both are proved to return: a retry halves a step that stays above 1/1024 of the nominal one, and the advance
  stops at its step budget.  Version numbers end at \<open>2 ^ 64 - 1\<close> with an overflow error, as in the code; theorems
  that need a write to succeed say how many numbers must be left.

  Parameters.  The rigid-tree algorithms (forward dynamics, rate maps, poses) are fields of \<open>multibody_model\<close>, the
  wheel-rail kernel is fields of \<open>contact_force_plan\<close>, the LU factorization is an argument of the Newton solver, the
  eigenvalue test of inertias and the conversions between matrices and quaternions are arguments.  What is used of them is
  stated as named predicates (\<open>tree_maps_ok\<close>, \<open>dynamics_sized\<close>, \<open>consistent_kinematics\<close>, \<open>lu_sized\<close>,
  \<open>model_blind\<close>).

  Not modelled.  The vendored tree and RADAU5 sources under \<open>src/external\<close>; the adapters to CVODE and RADAU5 and the
  OpenMP finite-difference Jacobian (calls into external solvers and threads); the assembled contact model of
  \<open>libs/wheel_rail_contact\<close>; the trigonometric track geometry; configuration documents and record files (JSON and file input and output);
  tools, experiments, applications and tests.
\<close>

end
